(* ===== verification/Fin_Prelude.thy ===== *)
theory Fin_Prelude
  imports Main
    "HOL-Library.AList"
    "HOL-Library.Char_ord"
    "HOL-Library.List_Lexorder"
    "HOL-Library.Product_Lexorder"
begin

text \<open>
  The vocabulary every component shares.

  \<^item> A Python \<open>dict\<close> is an association list with distinct keys, in insertion order:
    \<open>dset\<close> overwrites in place or appends, as assignment to a key does, and \<open>ddel\<close> removes.
  \<^item> A Python \<open>str\<close> is a \<^typ>\<open>string\<close>; one \<^typ>\<open>char\<close> is one code point below 256, and the
    order on strings is the lexicographic order of code points that \<open>sorted\<close> uses.
  \<^item> An operation that can raise returns \<open>py_error + 'a\<close>, with \<open>Inl\<close> for the exception.
  \<^item> \<open>dec_string\<close> is the decimal printer behind \<open>str(int)\<close> and the format \<open>:012d\<close>.
\<close>

section \<open>Errors\<close>

text \<open>The built-in exceptions of the modelled modules, with their message.\<close>

datatype py_error =
    ValueError string
  | TypeError string
  | KeyError string
  | AssertionError string
  | RuntimeError string
  | ZeroDivisionError

section \<open>Dictionaries\<close>

type_synonym ('k, 'v) dict = "('k \<times> 'v) list"

abbreviation dget :: "('k, 'v) dict \<Rightarrow> 'k \<Rightarrow> 'v option" where
  "dget d k \<equiv> map_of d k"

abbreviation dset :: "'k \<Rightarrow> 'v \<Rightarrow> ('k, 'v) dict \<Rightarrow> ('k, 'v) dict" where
  "dset \<equiv> AList.update"

abbreviation ddel :: "'k \<Rightarrow> ('k, 'v) dict \<Rightarrow> ('k, 'v) dict" where
  "ddel \<equiv> AList.delete"

abbreviation dkeys :: "('k, 'v) dict \<Rightarrow> 'k list" where
  "dkeys d \<equiv> map fst d"

abbreviation dvalues :: "('k, 'v) dict \<Rightarrow> 'v list" where
  "dvalues d \<equiv> map snd d"

text \<open>The invariant of the representation: no key twice.\<close>

definition dict_ok :: "('k, 'v) dict \<Rightarrow> bool" where
  "dict_ok d \<longleftrightarrow> distinct (dkeys d)"

text \<open>Membership \<open>k in d\<close> is executable and is the same as a successful lookup.\<close>

definition dmem :: "'k \<Rightarrow> ('k, 'v) dict \<Rightarrow> bool" where
  "dmem k d \<longleftrightarrow> dget d k \<noteq> None"

named_theorems dict_simps "how lookups and sizes behave under the dictionary operations"

lemma dget_dset [dict_simps]: "dget (dset k v d) k' = (if k' = k then Some v else dget d k')"
  by (simp add: update_conv')

lemma dget_ddel [dict_simps]: "dget (ddel k d) k' = (if k' = k then None else dget d k')"
  by (simp add: delete_conv')

lemma dict_ok_Nil [simp]: "dict_ok []"
  by (simp add: dict_ok_def)

lemma dict_ok_dset [simp]: "dict_ok d \<Longrightarrow> dict_ok (dset k v d)"
  by (simp add: dict_ok_def distinct_update)

lemma dict_ok_ddel [simp]: "dict_ok d \<Longrightarrow> dict_ok (ddel k d)"
  unfolding dict_ok_def by (rule distinct_delete)

lemma dmem_Nil [simp]: "\<not> dmem k []"
  by (simp add: dmem_def)

lemma dmem_iff_key: "dmem k d \<longleftrightarrow> k \<in> set (dkeys d)"
  by (simp add: dmem_def map_of_eq_None_iff)

lemma dmem_dset [dict_simps]: "dmem k (dset k' v d) \<longleftrightarrow> k = k' \<or> dmem k d"
  by (auto simp: dmem_def dget_dset)

lemma dmem_ddel [dict_simps]: "dmem k (ddel k' d) \<longleftrightarrow> k \<noteq> k' \<and> dmem k d"
  by (auto simp: dmem_def dget_ddel)

lemma dmem_Some: "dget d k = Some v \<Longrightarrow> dmem k d"
  by (simp add: dmem_def)

lemma not_dmem_None: "\<not> dmem k d \<Longrightarrow> dget d k = None"
  by (simp add: dmem_def)

text \<open>A fresh key is appended, so lengths and sums over the values grow by the new entry.\<close>

lemma dset_fresh [dict_simps]: "\<not> dmem k d \<Longrightarrow> dset k v d = d @ [(k, v)]"
  by (induction d) (auto simp: dmem_def split: if_splits)

lemma length_ddel [dict_simps]:
  "dict_ok d \<Longrightarrow> dget d k = Some v \<Longrightarrow> length (ddel k d) = length d - 1"
proof (induction d)
  case Nil
  then show ?case by simp
next
  case (Cons x d)
  show ?case
  proof (cases "fst x = k")
    case True
    with Cons.prems have "k \<notin> fst ` set d" by (auto simp: dict_ok_def)
    with True show ?thesis by (cases x) simp
  next
    case False
    with Cons show ?thesis by (cases x; cases d) (auto simp: dict_ok_def)
  qed
qed

lemma ddel_sum_nat:
  fixes f :: "'v \<Rightarrow> nat"
  shows "dict_ok d \<Longrightarrow> dget d k = Some v \<Longrightarrow>
    sum_list (map f (dvalues d)) = f v + sum_list (map f (dvalues (ddel k d)))"
proof (induction d)
  case Nil
  then show ?case by simp
next
  case (Cons x d)
  show ?case
  proof (cases "fst x = k")
    case True
    with Cons.prems have "k \<notin> fst ` set d" by (auto simp: dict_ok_def)
    with True Cons.prems show ?thesis by (cases x) simp
  next
    case False
    with Cons show ?thesis by (cases x) (auto simp: dict_ok_def)
  qed
qed

lemma dget_in_dvalues: "dget d k = Some v \<Longrightarrow> v \<in> set (dvalues d)"
  by (force dest: map_of_SomeD)

text \<open>In a list with distinct keys, no later element has the key of the head.\<close>

lemma distinct_head: "distinct (map f (x # xs)) \<Longrightarrow> y \<in> set xs \<Longrightarrow> f y \<noteq> f x"
  by (metis distinct.simps(2) image_eqI list.set_map list.simps(9))

section \<open>Strings\<close>

text \<open>The code points below 256 for which \<open>str.isspace\<close> holds, so that \<open>str.strip\<close> drops them.\<close>

definition py_space :: "char \<Rightarrow> bool" where
  "py_space c \<longleftrightarrow>
     (let n = (of_char c :: nat)
      in (9 \<le> n \<and> n \<le> 13) \<or> (28 \<le> n \<and> n \<le> 32) \<or> n = 133 \<or> n = 160)"

text \<open>\<open>not s.strip()\<close>: nothing but white space.\<close>

definition py_blank :: "string \<Rightarrow> bool" where
  "py_blank s \<longleftrightarrow> list_all py_space s"

lemma py_blank_Nil [simp]: "py_blank []"
  by (simp add: py_blank_def)

section \<open>Decimal printing\<close>

definition digit_char :: "nat \<Rightarrow> char" where
  "digit_char d = char_of (48 + d)"

fun dec_string :: "nat \<Rightarrow> string" where
  "dec_string n = (if n < 10 then [digit_char n] else dec_string (n div 10) @ [digit_char (n mod 10)])"

declare dec_string.simps [simp del]

definition int_string :: "int \<Rightarrow> string" where
  "int_string i = (if i < 0 then ''-'' @ dec_string (nat (- i)) else dec_string (nat i))"

text \<open>The format \<open>{n:0wd}\<close>: zeros on the left up to the width.\<close>

definition zero_pad :: "nat \<Rightarrow> string \<Rightarrow> string" where
  "zero_pad w s = replicate (w - length s) (CHR ''0'') @ s"

text \<open>Reading the digits back, used to show that distinct numbers print differently.\<close>

definition digit_value :: "char \<Rightarrow> nat" where
  "digit_value c = of_char c - 48"

definition dec_value :: "string \<Rightarrow> nat" where
  "dec_value s = foldl (\<lambda>n c. 10 * n + digit_value c) 0 s"

lemma digit_value_digit_char [simp]: "d < 10 \<Longrightarrow> digit_value (digit_char d) = d"
  by (simp add: digit_value_def digit_char_def)

lemma dec_value_dec_string [simp]: "dec_value (dec_string n) = n"
proof (induction n rule: dec_string.induct)
  case (1 n)
  then show ?case
    by (cases "n < 10") (simp_all add: dec_string.simps [of n] dec_value_def)
qed

lemma dec_value_zeros: "dec_value (replicate k (CHR ''0'') @ s) = dec_value s"
proof -
  have "foldl (\<lambda>n c. 10 * n + digit_value c) 0 (replicate k (CHR ''0'')) = 0"
    by (induction k) (simp_all add: digit_value_def)
  then show ?thesis by (simp add: dec_value_def)
qed

lemma dec_value_zero_pad [simp]: "dec_value (zero_pad w (dec_string n)) = n"
  by (simp add: zero_pad_def dec_value_zeros)

lemma zero_pad_dec_inj [simp]:
  "zero_pad w (dec_string m) = zero_pad w (dec_string n) \<longleftrightarrow> m = n"
  by (metis dec_value_zero_pad)

lemma dec_string_inj [simp]: "dec_string m = dec_string n \<longleftrightarrow> m = n"
  by (metis dec_value_dec_string)

section \<open>Ordering helpers\<close>

text \<open>\<open>tuple(sorted(set(xs)))\<close>.\<close>

definition sorted_set :: "'a::linorder list \<Rightarrow> 'a list" where
  "sorted_set xs = sort (remdups xs)"

lemma set_sorted_set [simp]: "set (sorted_set xs) = set xs"
  by (simp add: sorted_set_def)

lemma distinct_sorted_set [simp]: "distinct (sorted_set xs)"
  by (simp add: sorted_set_def)

lemma sorted_sorted_set [simp]: "sorted (sorted_set xs)"
  by (simp add: sorted_set_def)

lemma sorted_set_idem [simp]: "sorted_set (sorted_set xs) = sorted_set xs"
  by (simp add: sorted_set_def distinct_remdups_id sorted_sort_id)

text \<open>\<open>min(xs, key=f)\<close>: the first element whose key is least; \<open>None\<close> stands for the
  \<open>ValueError\<close> an empty argument raises.\<close>

fun min_by :: "('a \<Rightarrow> 'b::linorder) \<Rightarrow> 'a list \<Rightarrow> 'a option" where
  "min_by f [] = None"
| "min_by f (x # xs) =
     (case min_by f xs of None \<Rightarrow> Some x | Some y \<Rightarrow> if f x \<le> f y then Some x else Some y)"

lemma min_by_None [simp]: "min_by f xs = None \<longleftrightarrow> xs = []"
  by (cases xs) (auto split: option.splits)

lemma min_by_in: "min_by f xs = Some x \<Longrightarrow> x \<in> set xs"
  by (induction xs arbitrary: x) (auto split: option.splits if_splits)

lemma min_by_least: "min_by f xs = Some x \<Longrightarrow> y \<in> set xs \<Longrightarrow> f x \<le> f y"
proof (induction xs arbitrary: x)
  case Nil
  then show ?case by simp
next
  case (Cons a xs)
  then show ?case
    by (force split: option.splits if_splits)
qed

text \<open>\<open>max(values, default=0)\<close> over integers.\<close>

definition max_default :: "int list \<Rightarrow> int" where
  "max_default xs = (case xs of [] \<Rightarrow> 0 | y # ys \<Rightarrow> foldl max y ys)"

lemma foldl_max_ge: "(y::int) \<le> foldl max y ys \<and> (\<forall>z \<in> set ys. z \<le> foldl max y ys)"
proof (induction ys arbitrary: y)
  case Nil
  then show ?case by simp
next
  case (Cons a ys)
  from Cons [of "max y a"] show ?case by auto
qed

lemma foldl_max_in: "foldl max (y::int) ys = y \<or> foldl max y ys \<in> set ys"
proof (induction ys arbitrary: y)
  case Nil
  then show ?case by simp
next
  case (Cons a ys)
  from Cons [of "max y a"] show ?case by (auto simp: max_def split: if_splits)
qed

lemma max_default_ge: "x \<in> set xs \<Longrightarrow> x \<le> max_default xs"
  using foldl_max_ge by (auto simp: max_default_def split: list.splits)

lemma max_default_in: "xs \<noteq> [] \<Longrightarrow> max_default xs \<in> set xs"
  using foldl_max_in by (auto simp: max_default_def split: list.splits)

lemma max_default_le: "0 \<le> b \<Longrightarrow> (\<And>x. x \<in> set xs \<Longrightarrow> x \<le> b) \<Longrightarrow> max_default xs \<le> b"
  by (cases "xs = []") (auto simp: max_default_def dest: max_default_in [of xs, unfolded max_default_def])

end
