(* ===== verification/Interfaces.thy ===== *)
theory Interfaces
  imports Main
begin

text \<open>
  The contracts several components share, each as a locale.

  \<^item> \<open>stateful\<close>: a component with a step function and an invariant every step keeps.
  \<^item> \<open>audited\<close>: a stateful component that appends to an event log, and an independent replay
    of that log (the pattern of \<open>resource_ledger.py\<close> and \<open>provider_quota.py\<close>). The laws are
    one-step laws; the locale lifts them to whole runs.
  \<^item> \<open>sound_auditor\<close>: an auditor that moreover accepts an event only if the live component can
    emit it in the state the auditor has reconstructed. \<open>exact\<close> is the relation right after an event,
    when nothing has happened since that the log does not show.
\<close>

locale stateful =
  fixes step :: "'s \<Rightarrow> 'c \<Rightarrow> 's"
    and inv :: "'s \<Rightarrow> bool"
  assumes inv_step: "inv s \<Longrightarrow> inv (step s c)"
begin

lemma inv_run: "inv s \<Longrightarrow> inv (foldl step s cs)"
  by (induction cs arbitrary: s) (simp_all add: inv_step)

lemma run_append: "foldl step s (cs @ ds) = foldl step (foldl step s cs) ds"
  by simp

lemma measure_run:
  fixes m :: "'s \<Rightarrow> 'a::preorder"
  assumes "\<And>s c. inv s \<Longrightarrow> m s \<le> m (step s c)" and "inv s"
  shows "m s \<le> m (foldl step s cs)"
  using assms(2)
proof (induction cs arbitrary: s)
  case Nil
  then show ?case by simp
next
  case (Cons c cs)
  from Cons.IH [OF inv_step [OF Cons.prems]] assms(1) [OF Cons.prems, of c]
  show ?case by (auto intro: order_trans)
qed

end

locale audited = stateful step inv
  for step :: "'s \<Rightarrow> 'c \<Rightarrow> 's" and inv :: "'s \<Rightarrow> bool" +
  fixes log :: "'s \<Rightarrow> 'e list"
    and audit :: "'r \<Rightarrow> 'e \<Rightarrow> 'r"
    and sim :: "'s \<Rightarrow> 'r \<Rightarrow> bool"
  assumes audit_step: "inv s \<Longrightarrow> sim s r \<Longrightarrow>
    \<exists>es. log (step s c) = log s @ es \<and> sim (step s c) (foldl audit r es)"
begin

lemma audit_run:
  assumes "inv s" and "sim s r"
  shows "\<exists>es. log (foldl step s cs) = log s @ es \<and> sim (foldl step s cs) (foldl audit r es)"
  using assms
proof (induction cs arbitrary: s r)
  case Nil
  then show ?case by (intro exI [of _ "[]"]) simp
next
  case (Cons c cs)
  from audit_step [OF Cons.prems, of c] obtain es where
    es: "log (step s c) = log s @ es" "sim (step s c) (foldl audit r es)" by blast
  from Cons.IH [OF inv_step [OF Cons.prems(1)] es(2)] obtain fs where
    "log (foldl step (step s c) cs) = log (step s c) @ fs"
    "sim (foldl step (step s c) cs) (foldl audit (foldl audit r es) fs)" by blast
  with es(1) show ?case by (intro exI [of _ "es @ fs"]) simp
qed

corollary audit_log:
  assumes "inv s" and "sim s r" and "log s = []"
  shows "sim (foldl step s cs) (foldl audit r (log (foldl step s cs)))"
  using audit_run [OF assms(1,2), of cs] assms(3) by auto

end

locale sound_auditor = audited step inv log audit sim
  for step :: "'s \<Rightarrow> 'c \<Rightarrow> 's" and inv :: "'s \<Rightarrow> bool" and log :: "'s \<Rightarrow> 'e list"
    and audit :: "'r \<Rightarrow> 'e \<Rightarrow> 'r" and sim :: "'s \<Rightarrow> 'r \<Rightarrow> bool" +
  fixes exact :: "'s \<Rightarrow> 'r \<Rightarrow> bool"
    and clean :: "'r \<Rightarrow> bool"
    and wellformed :: "'e \<Rightarrow> bool"
  assumes exact_sim: "exact s r \<Longrightarrow> sim s r"
    and clean_back: "clean (audit r e) \<Longrightarrow> clean r"
    and emit: "inv s \<Longrightarrow> exact s r \<Longrightarrow> wellformed e \<Longrightarrow> clean (audit r e) \<Longrightarrow>
      \<exists>c. log (step s c) = log s @ [e] \<and> exact (step s c) (audit r e)"
begin

lemma clean_prefix: "clean (foldl audit r es) \<Longrightarrow> clean r"
  by (induction es arbitrary: r) (auto dest: clean_back)

lemma accepted_is_run:
  assumes "inv s" and "exact s r" and "list_all wellformed es" and "clean (foldl audit r es)"
  shows "\<exists>cs. log (foldl step s cs) = log s @ es \<and> exact (foldl step s cs) (foldl audit r es)"
  using assms
proof (induction es arbitrary: s r)
  case Nil
  then show ?case by (intro exI [of _ "[]"]) simp
next
  case (Cons e es)
  from Cons.prems(4) have "clean (audit r e)" by (auto dest: clean_prefix)
  with emit [OF Cons.prems(1,2)] Cons.prems(3) obtain c where
    c: "log (step s c) = log s @ [e]" "exact (step s c) (audit r e)" by auto
  from Cons.IH [OF inv_step [OF Cons.prems(1)] c(2)] Cons.prems(3,4) obtain cs where
    "log (foldl step (step s c) cs) = log (step s c) @ es"
    "exact (foldl step (step s c) cs) (foldl audit (audit r e) es)" by auto
  with c(1) show ?case by (intro exI [of _ "c # cs"]) simp
qed

end

end
