(* ===== verification/Py_Float.thy ===== *)
theory Py_Float
  imports Fin_Prelude Complex_Main "HOL-Library.Log_Nat"
begin

text \<open>
  The binary64 numbers behind the Python \<open>float\<close> fields of the contracts (quality, failure
  probability, value, success floors).

  A finite float is a rational that rounding leaves alone: \<open>fl\<close> rounds to nearest, ties to even, with
  a 53-bit significand and the subnormal grid \<open>2 ^ -1074\<close>. \<open>float64\<close> is the type of these numbers and
  each operation rounds its exact result. NaN and infinity cannot pass the range checks of the contracts, except
  as the \<open>value\<close> of a task, which is only tested for being negative: the model covers tasks with a finite value.
  The only operation that could overflow is the division by a product of probabilities, whose result is only
  compared with numbers at most 1, so the exponent is left unbounded above.
\<close>

section \<open>Rounding to an integer\<close>

definition round_even :: "rat \<Rightarrow> int" where
  "round_even z =
     (let n = \<lfloor>z\<rfloor>; d = z - of_int n
      in if d < 1 / 2 then n else if d > 1 / 2 then n + 1 else if even n then n else n + 1)"

lemma round_even_of_int [simp]: "round_even (of_int n) = n"
  by (simp add: round_even_def)

lemma round_even_cases: "round_even z = \<lfloor>z\<rfloor> \<or> round_even z = \<lfloor>z\<rfloor> + 1"
  by (auto simp: round_even_def Let_def)

lemma round_even_mono:
  assumes "y \<le> z"
  shows "round_even y \<le> round_even z"
proof (cases "\<lfloor>y\<rfloor> = \<lfloor>z\<rfloor>")
  case True
  with assms show ?thesis by (auto simp: round_even_def Let_def)
next
  case False
  with floor_mono [OF assms] have "\<lfloor>y\<rfloor> + 1 \<le> \<lfloor>z\<rfloor>" by linarith
  with round_even_cases [of y] round_even_cases [of z] show ?thesis by linarith
qed

lemma round_even_le: "z \<le> of_int n \<Longrightarrow> round_even z \<le> n"
  using round_even_mono [of z "of_int n"] by simp

lemma round_even_ge: "of_int n \<le> z \<Longrightarrow> n \<le> round_even z"
  using round_even_mono [of "of_int n" z] by simp

lemma round_even_above: "of_int n + 1 / 2 < z \<Longrightarrow> n < round_even z"
proof -
  assume z: "of_int n + 1 / 2 < z"
  then have "n \<le> \<lfloor>z\<rfloor>" by (simp add: le_floor_iff)
  with z show ?thesis
    by (cases "n = \<lfloor>z\<rfloor>") (auto simp: round_even_def Let_def)
qed

section \<open>Rounding to 53 significant bits\<close>

text \<open>The grid of a non-negative \<open>z\<close>, measured in the smallest subnormal: \<open>2 ^ grid z\<close>.\<close>

definition grid :: "rat \<Rightarrow> nat" where
  "grid z = floorlog 2 (nat \<lfloor>z\<rfloor>) - 53"

definition round53 :: "rat \<Rightarrow> rat" where
  "round53 z = of_int (round_even (z / 2 ^ grid z)) * 2 ^ grid z"

lemma grid_mono: "y \<le> z \<Longrightarrow> grid y \<le> grid z"
  unfolding grid_def by (intro diff_le_mono floorlog_mono nat_mono floor_mono)

lemma below_grid:
  assumes "0 \<le> z"
  shows "z < 2 ^ (53 + grid z)"
proof -
  have "nat \<lfloor>z\<rfloor> < 2 ^ (53 + grid z)"
    using floorlog_leD [of 2 "nat \<lfloor>z\<rfloor>" "53 + grid z"] by (simp add: grid_def)
  then have "\<lfloor>z\<rfloor> < 2 ^ (53 + grid z)" using assms by (simp add: nat_less_iff)
  then show ?thesis by (simp add: floor_less_iff)
qed

lemma above_grid:
  assumes "grid z > 0"
  shows "2 ^ (52 + grid z) \<le> z"
proof -
  from assms have fl: "floorlog 2 (nat \<lfloor>z\<rfloor>) = 53 + grid z" by (simp add: grid_def)
  then have pos: "0 < nat \<lfloor>z\<rfloor>" by (cases "nat \<lfloor>z\<rfloor> = 0") (auto simp: floorlog_def)
  have "2 ^ (52 + grid z) \<le> nat \<lfloor>z\<rfloor>"
    using floorlog_bounds [of "nat \<lfloor>z\<rfloor>" 2] pos fl by simp
  with pos have "2 ^ (52 + grid z) \<le> \<lfloor>z\<rfloor>" by (simp add: le_nat_iff)
  then show ?thesis by (simp add: le_floor_iff)
qed

lemma round53_le:
  assumes "0 \<le> z"
  shows "round53 z \<le> 2 ^ (53 + grid z)"
proof -
  have "z / 2 ^ grid z \<le> of_int (2 ^ 53)"
    using below_grid [OF assms] by (simp add: field_simps power_add)
  then have "round_even (z / 2 ^ grid z) \<le> 2 ^ 53" by (rule round_even_le)
  then have "(of_int (round_even (z / 2 ^ grid z)) :: rat) \<le> 2 ^ 53"
    by (metis of_int_le_iff of_int_numeral of_int_power)
  then show ?thesis by (simp add: round53_def power_add mult_right_mono)
qed

lemma round53_ge:
  assumes "grid z > 0"
  shows "2 ^ (52 + grid z) \<le> round53 z"
proof -
  have "of_int (2 ^ 52) \<le> z / 2 ^ grid z"
    using above_grid [OF assms] by (simp add: field_simps power_add)
  then have "2 ^ 52 \<le> round_even (z / 2 ^ grid z)" by (rule round_even_ge)
  then have "2 ^ 52 \<le> (of_int (round_even (z / 2 ^ grid z)) :: rat)"
    by (metis of_int_le_iff of_int_numeral of_int_power)
  then show ?thesis by (simp add: round53_def power_add mult_right_mono)
qed

lemma round53_mono:
  assumes "0 \<le> y" and "y \<le> z"
  shows "round53 y \<le> round53 z"
proof (cases "grid y = grid z")
  case True
  have "y / 2 ^ grid z \<le> z / 2 ^ grid z" using assms(2) by (simp add: divide_right_mono)
  then show ?thesis
    by (simp add: round53_def True mult_right_mono round_even_mono)
next
  case False
  with grid_mono [OF assms(2)] have lt: "53 + grid y \<le> 52 + grid z" by linarith
  then have "(2::rat) ^ (53 + grid y) \<le> 2 ^ (52 + grid z)" by (intro power_increasing) simp_all
  with round53_le [OF assms(1)] round53_ge [of z] lt show ?thesis by linarith
qed

text \<open>Multiples of a grid with at most 53 bits are exact.\<close>

lemma round53_exact:
  assumes "0 \<le> m" and "m \<le> 2 ^ 53"
  shows "round53 (of_int m * 2 ^ s) = of_int m * 2 ^ s"
proof -
  have key: "\<exists>q. of_int m * 2 ^ s = (of_int q :: rat) * 2 ^ grid (of_int m * 2 ^ s)"
  proof (cases "m = 2 ^ 53")
    case True
    have "grid (of_int m * 2 ^ s) \<le> s + 1"
    proof -
      have "(of_int m * 2 ^ s :: rat) = of_int (2 ^ (53 + s))" by (simp add: True power_add)
      then have "nat \<lfloor>of_int m * 2 ^ s :: rat\<rfloor> = 2 ^ (53 + s)"
        by (simp only: floor_of_int) (simp add: nat_power_eq)
      then have "nat \<lfloor>of_int m * 2 ^ s :: rat\<rfloor> < 2 ^ (54 + s)" by simp
      then have "floorlog 2 (nat \<lfloor>of_int m * 2 ^ s :: rat\<rfloor>) \<le> 54 + s" by (rule floorlog_leI) simp_all
      then show ?thesis unfolding grid_def by linarith
    qed
    then obtain d where d: "s + 1 = grid (of_int m * 2 ^ s) + d" using le_Suc_ex by blast
    have "(of_int m * 2 ^ s :: rat) = of_int (2 ^ 52) * 2 ^ (s + 1)" by (simp add: True power_add)
    then have "(of_int m * 2 ^ s :: rat) = of_int (2 ^ 52 * 2 ^ d) * 2 ^ grid (of_int m * 2 ^ s)"
      by (simp only: d power_add) (simp add: ac_simps)
    then show ?thesis by blast
  next
    case False
    have eq: "(of_int m * 2 ^ s :: rat) = of_int (m * 2 ^ s)" by simp
    have "nat \<lfloor>of_int m * 2 ^ s :: rat\<rfloor> = nat (m * 2 ^ s)" by (simp only: eq floor_of_int)
    moreover have "nat (m * 2 ^ s) < 2 ^ (53 + s)"
      using False assms by (simp add: nat_less_iff power_add)
    ultimately have "nat \<lfloor>of_int m * 2 ^ s :: rat\<rfloor> < 2 ^ (53 + s)" by presburger
    then have "floorlog 2 (nat \<lfloor>of_int m * 2 ^ s :: rat\<rfloor>) \<le> 53 + s" by (rule floorlog_leI) simp_all
    then have "grid (of_int m * 2 ^ s) \<le> s" unfolding grid_def by linarith
    then obtain d where d: "s = grid (of_int m * 2 ^ s) + d" using le_Suc_ex by blast
    have "(of_int m * 2 ^ s :: rat) = of_int (m * 2 ^ d) * 2 ^ grid (of_int m * 2 ^ s)"
      by (subst d) (simp add: power_add)
    then show ?thesis by blast
  qed
  then obtain q where q: "of_int m * 2 ^ s = (of_int q :: rat) * 2 ^ grid (of_int m * 2 ^ s)" ..
  then have "(of_int m * 2 ^ s :: rat) / 2 ^ grid (of_int m * 2 ^ s) = of_int q"
    by (simp add: field_simps)
  then have "round53 (of_int m * 2 ^ s) = of_int q * 2 ^ grid (of_int m * 2 ^ s)"
    by (simp add: round53_def)
  with q show ?thesis by simp
qed

lemma round53_form:
  assumes "0 \<le> z"
  obtains m where "0 \<le> m" and "m \<le> 2 ^ 53" and "round53 z = of_int m * 2 ^ grid z"
proof
  let ?m = "round_even (z / 2 ^ grid z)"
  show "0 \<le> ?m" using round_even_ge [of 0 "z / 2 ^ grid z"] assms by simp
  show "?m \<le> 2 ^ 53"
    using below_grid [OF assms] by (intro round_even_le) (simp add: field_simps power_add)
  show "round53 z = of_int ?m * 2 ^ grid z" by (simp add: round53_def)
qed

lemma round53_idem: "0 \<le> z \<Longrightarrow> round53 (round53 z) = round53 z"
  by (elim round53_form) (simp add: round53_exact)

lemma round53_nonneg: "0 \<le> z \<Longrightarrow> 0 \<le> round53 z"
  by (elim round53_form) simp


text \<open>Just above half a unit over one, rounding leaves one.\<close>

lemma round53_above:
  assumes "2 ^ (52 + s) * (1 + 1 / 2 ^ 53) < z"
  shows "2 ^ (52 + s) < round53 z"
proof (cases "z < 2 ^ (53 + s)")
  case True
  have "(2::rat) ^ (52 + s) * 1 \<le> 2 ^ (52 + s) * (1 + 1 / 2 ^ 53)" by (intro mult_left_mono) simp_all
  with assms have "2 ^ (52 + s) \<le> z" by linarith
  then have z0: "0 \<le> z" by (meson order_trans zero_le_numeral zero_le_power)
  show ?thesis
  proof (cases "grid z = s")
    case True
    have "of_int (2 ^ 52) + 1 / 2 < z / 2 ^ grid z"
      using assms by (simp add: True field_simps power_add)
    then have "2 ^ 52 < round_even (z / 2 ^ grid z)" by (rule round_even_above)
    then have "2 ^ 52 < (of_int (round_even (z / 2 ^ grid z)) :: rat)"
      by (metis of_int_less_iff of_int_numeral of_int_power)
    then show ?thesis by (simp add: round53_def True power_add)
  next
    case False
    have "grid z \<le> s"
    proof -
      have "nat \<lfloor>z\<rfloor> < 2 ^ (53 + s)" using \<open>z < 2 ^ (53 + s)\<close> z0
        by (simp add: nat_less_iff floor_less_iff)
      then have "floorlog 2 (nat \<lfloor>z\<rfloor>) \<le> 53 + s" by (rule floorlog_leI) simp_all
      then show ?thesis unfolding grid_def by linarith
    qed
    with False have "53 + grid z \<le> 52 + s" by linarith
    then have "(2::rat) ^ (53 + grid z) \<le> 2 ^ (52 + s)" by (intro power_increasing) simp_all
    with below_grid [OF z0] \<open>2 ^ (52 + s) \<le> z\<close> show ?thesis by linarith
  qed
next
  case False
  have "round53 (2 ^ (53 + s)) = 2 ^ (53 + s)" using round53_exact [of 1 "53 + s"] by simp
  with round53_mono [of "2 ^ (53 + s)" z] False have "2 ^ (53 + s) \<le> round53 z" by simp
  moreover have "(2::rat) ^ (52 + s) < 2 ^ (53 + s)" by (intro power_strict_increasing) simp_all
  ultimately show ?thesis by linarith
qed

text \<open>Two different numbers on their grids are at least a grid step apart.\<close>

lemma round53_gap:
  assumes y: "0 \<le> y" "round53 y = y" and z: "0 \<le> z" "round53 z = z" and "y < z"
  shows "y + 2 ^ grid y \<le> z"
proof -
  from round53_form [OF y(1)] y(2) obtain m where m: "y = of_int m * 2 ^ grid y" by metis
  from round53_form [OF z(1)] z(2) obtain n where n: "z = of_int n * 2 ^ grid z" by metis
  from grid_mono [of y z] \<open>y < z\<close> obtain d where d: "grid z = grid y + d" using le_Suc_ex by fastforce
  have z': "z = of_int (n * 2 ^ d) * 2 ^ grid y"
    using n unfolding d by (simp add: power_add algebra_simps)
  have "of_int m * 2 ^ grid y < of_int (n * 2 ^ d) * (2 :: rat) ^ grid y"
    using m z' \<open>y < z\<close> by metis
  then have "(of_int m :: rat) < of_int (n * 2 ^ d)" by (simp add: mult_less_cancel_right)
  then have "m + 1 \<le> n * 2 ^ d" by (simp only: of_int_less_iff)
  then have "(of_int (m + 1) :: rat) \<le> of_int (n * 2 ^ d)" by (simp only: of_int_le_iff)
  then have "of_int (m + 1) * 2 ^ grid y \<le> of_int (n * 2 ^ d) * (2 :: rat) ^ grid y"
    by (intro mult_right_mono) simp_all
  with m z' show ?thesis by (simp add: algebra_simps)
qed


section \<open>Binary64\<close>

definition subnormal_bits :: nat where
  "subnormal_bits = 1074"

abbreviation unit_scale :: rat where
  "unit_scale \<equiv> 2 ^ subnormal_bits"

lemma unit_scale_bits: "52 + 1022 = subnormal_bits"
  by (simp add: subnormal_bits_def)

definition fl :: "rat \<Rightarrow> rat" where
  "fl x = (if 0 \<le> x then round53 (x * unit_scale) / unit_scale
           else - (round53 (- x * unit_scale) / unit_scale))"

lemma round53_zero [simp]: "round53 0 = 0"
  using round53_exact [of 0 0] by simp

lemma fl_zero [simp]: "fl 0 = 0"
  by (simp add: fl_def)

text \<open>Dyadic numbers with at most 53 significant bits are their own binary64 value.\<close>

lemma fl_exact:
  assumes "0 \<le> m" and "m \<le> 2 ^ 53" and "k \<le> subnormal_bits"
  shows "fl (of_int m / 2 ^ k) = of_int m / 2 ^ k"
proof -
  have "(of_int m / 2 ^ k) * unit_scale = (of_int m :: rat) * 2 ^ (subnormal_bits - k)"
    using assms(3) by (simp add: power_diff)
  then have "round53 ((of_int m / 2 ^ k) * unit_scale) = of_int m / 2 ^ k * unit_scale"
    using round53_exact [OF assms(1,2)] by metis
  then show ?thesis using assms(1) by (simp add: fl_def)
qed

text \<open>Evaluation does not have to round small multiples of \<open>1 / 1024\<close>.\<close>

lemma fl_small [code]:
  "fl x = (if 0 \<le> x \<and> x \<le> 1024 \<and> of_int \<lfloor>x * 1024\<rfloor> = x * 1024 then x
     else if 0 \<le> x then round53 (x * unit_scale) / unit_scale
     else - (round53 (- x * unit_scale) / unit_scale))"
proof (cases "0 \<le> x \<and> x \<le> 1024 \<and> of_int \<lfloor>x * 1024\<rfloor> = x * 1024")
  case True
  then have "0 \<le> \<lfloor>x * 1024\<rfloor>" "\<lfloor>x * 1024\<rfloor> \<le> 1024 * 1024" by (simp_all add: floor_le_iff)
  then have "fl (of_int \<lfloor>x * 1024\<rfloor> / 2 ^ 10) = of_int \<lfloor>x * 1024\<rfloor> / 2 ^ 10"
    by (intro fl_exact) (simp_all add: subnormal_bits_def)
  moreover have "of_int \<lfloor>x * 1024\<rfloor> / 2 ^ 10 = x" using True by simp
  ultimately have "fl x = x" by (simp only:)
  with True show ?thesis by simp
next
  case False
  then show ?thesis unfolding fl_def by (simp only: if_False)
qed

lemma fl_one [simp]: "fl 1 = 1"
  using fl_exact [of 1 0] by simp

lemma fl_nonneg: "0 \<le> x \<Longrightarrow> 0 \<le> fl x"
  by (simp add: fl_def round53_nonneg)

lemma fl_uminus [simp]: "fl (- x) = - fl x"
  by (cases "x = 0") (auto simp: fl_def)

lemma fl_mono:
  assumes "x \<le> y"
  shows "fl x \<le> fl y"
proof -
  consider "0 \<le> x" | "x < 0" "0 \<le> y" | "y < 0" by linarith
  then show ?thesis
  proof cases
    case 1
    with assms show ?thesis by (simp add: fl_def round53_mono divide_right_mono mult_right_mono)
  next
    case 2
    with fl_nonneg [of "- x"] fl_nonneg [of y] show ?thesis by simp
  next
    case 3
    then have "- y * unit_scale \<le> - x * unit_scale" "0 \<le> - y * unit_scale"
      using assms by (intro mult_right_mono mult_nonneg_nonneg; simp)+
    from round53_mono [OF this(2,1)] 3 assms show ?thesis by (simp add: fl_def divide_right_mono)
  qed
qed

lemma fl_idem_nonneg: "0 \<le> x \<Longrightarrow> fl (fl x) = fl x"
  by (simp add: fl_def round53_nonneg round53_idem)

lemma fl_idem [simp]: "fl (fl x) = fl x"
  using fl_idem_nonneg [of x] fl_idem_nonneg [of "- x"] by (cases "0 \<le> x") simp_all

lemma fl_le_one: "x \<le> 1 \<Longrightarrow> fl x \<le> 1"
  using fl_mono [of x 1] by simp

text \<open>The quotient of two floats rounds to at most one only if the numerator is no larger.\<close>

lemma fl_quotient_le_one:
  assumes x: "fl x = x" "0 \<le> x" and y: "fl y = y" "0 < y" and q: "fl (x / y) \<le> 1"
  shows "x \<le> y"
proof (rule ccontr)
  assume "\<not> x \<le> y"
  then have yx: "y < x" by simp
  let ?X = "x * unit_scale" and ?Y = "y * unit_scale"
  have X: "round53 ?X = ?X" using x by (simp add: fl_def field_simps)
  have Y: "round53 ?Y = ?Y" using y by (simp add: fl_def field_simps)
  have gap: "?Y + 2 ^ grid ?Y \<le> ?X"
    using round53_gap [of ?Y ?X] X Y x(2) y(2) yx by simp
  have "?Y < 2 ^ (53 + grid ?Y)" using below_grid [of ?Y] y(2) by simp
  then have "1 / 2 ^ 53 < 2 ^ grid ?Y / ?Y" using y(2) by (simp add: field_simps power_add)
  moreover have "1 + 2 ^ grid ?Y / ?Y \<le> ?X / ?Y"
    using divide_right_mono [OF gap, of ?Y] y(2) by (simp add: add_divide_distrib)
  moreover have "?X / ?Y = x / y" by simp
  ultimately have "1 + 1 / 2 ^ 53 < x / y" by linarith
  then have "2 ^ (52 + 1022) * (1 + 1 / 2 ^ 53) < x / y * unit_scale"
    unfolding unit_scale_bits by (subst mult.commute) (intro mult_strict_right_mono; simp)
  from round53_above [OF this] have "unit_scale < round53 (x / y * unit_scale)"
    unfolding unit_scale_bits .
  then have "1 < fl (x / y)" using x(2) y(2) by (simp add: fl_def less_divide_eq)
  with q show False by simp
qed

typedef float64 = "{x :: rat. fl x = x}"
  morphisms rat_of_float Abs_float64
  by (rule exI [of _ 0]) simp

setup_lifting type_definition_float64

lift_definition float_of :: "rat \<Rightarrow> float64" is fl
  by simp

instantiation float64 :: "{zero, one, plus, minus, times, inverse, uminus, equal, linorder}"
begin

lift_definition zero_float64 :: float64 is 0 by simp
lift_definition one_float64 :: float64 is 1 by simp
lift_definition plus_float64 :: "float64 \<Rightarrow> float64 \<Rightarrow> float64" is "\<lambda>x y. fl (x + y)" by simp
lift_definition minus_float64 :: "float64 \<Rightarrow> float64 \<Rightarrow> float64" is "\<lambda>x y. fl (x - y)" by simp
lift_definition times_float64 :: "float64 \<Rightarrow> float64 \<Rightarrow> float64" is "\<lambda>x y. fl (x * y)" by simp
lift_definition divide_float64 :: "float64 \<Rightarrow> float64 \<Rightarrow> float64" is "\<lambda>x y. fl (x / y)" by simp
lift_definition inverse_float64 :: "float64 \<Rightarrow> float64" is "\<lambda>x. fl (1 / x)" by simp
lift_definition uminus_float64 :: "float64 \<Rightarrow> float64" is "\<lambda>x. - x" by simp
lift_definition less_eq_float64 :: "float64 \<Rightarrow> float64 \<Rightarrow> bool" is "\<lambda>x y. x \<le> y" .
lift_definition less_float64 :: "float64 \<Rightarrow> float64 \<Rightarrow> bool" is "\<lambda>x y. x < y" .
lift_definition equal_float64 :: "float64 \<Rightarrow> float64 \<Rightarrow> bool" is "\<lambda>x y. x = y" .

instance
  by standard (transfer; auto)+

end

lemma float_ge_zero_iff: "0 \<le> x \<longleftrightarrow> 0 \<le> rat_of_float x"
  by transfer simp

named_theorems float_simps "order facts of the binary64 operations"

lemma float_mult_nonneg [float_simps]: "0 \<le> x \<Longrightarrow> 0 \<le> y \<Longrightarrow> 0 \<le> x * (y :: float64)"
  by transfer (simp add: fl_nonneg)

lemma float_mult_le_one [float_simps]:
  "0 \<le> x \<Longrightarrow> x \<le> 1 \<Longrightarrow> 0 \<le> y \<Longrightarrow> y \<le> 1 \<Longrightarrow> x * y \<le> (1 :: float64)"
  by transfer (simp add: fl_le_one mult_le_one)

lemma float_mult_mono [float_simps]:
  "0 \<le> u \<Longrightarrow> 0 \<le> x \<Longrightarrow> u \<le> v \<Longrightarrow> x \<le> y \<Longrightarrow> u * x \<le> v * (y :: float64)"
  by transfer (simp add: fl_mono mult_mono)

lemma float_one_minus [float_simps]:
  "0 \<le> x \<Longrightarrow> x \<le> 1 \<Longrightarrow> 0 \<le> 1 - x" "0 \<le> x \<Longrightarrow> 1 - x \<le> (1 :: float64)"
  by (transfer, simp add: fl_nonneg fl_le_one)+

lemma float_quotient_le_one [float_simps]:
  "0 \<le> x \<Longrightarrow> 0 < y \<Longrightarrow> x / y \<le> 1 \<Longrightarrow> x \<le> (y :: float64)"
  by transfer (rule fl_quotient_le_one)

lemma float_one_mult [simp]: "1 * x = (x :: float64)" "x * 1 = x"
  by (transfer, simp)+

lemma float_minus_zero [simp]: "x - 0 = (x :: float64)"
  by transfer simp

lemma float_zero_less_one [simp]: "0 < (1 :: float64)" "0 \<le> (1 :: float64)"
  by (transfer, simp)+

section \<open>Library functions on floats\<close>

text \<open>\<open>round(x, n)\<close>: the exact value is rounded to \<open>n\<close> decimals, ties to even, then to binary64; the true
  division of two integers is their quotient, rounded once.\<close>

definition py_round :: "nat \<Rightarrow> float64 \<Rightarrow> float64" where
  "py_round n x = float_of (of_int (round_even (rat_of_float x * 10 ^ n)) / 10 ^ n)"

definition int_quotient :: "int \<Rightarrow> int \<Rightarrow> float64" where
  "int_quotient a b = float_of (of_int a / of_int b)"

text \<open>\<open>math.isclose(a, b, abs_tol=t)\<close> with its default relative tolerance.\<close>

definition float_abs :: "float64 \<Rightarrow> float64" where
  "float_abs x = (if x < 0 then - x else x)"

definition isclose :: "float64 \<Rightarrow> float64 \<Rightarrow> float64 \<Rightarrow> bool" where
  "isclose a b t \<longleftrightarrow>
     (let d = float_abs (b - a); rel = float_of (1 / 10 ^ 9)
      in a = b \<or> d \<le> float_abs (rel * b) \<or> d \<le> float_abs (rel * a) \<or> d \<le> t)"

lemma isclose_refl [simp]: "isclose a a t"
  by (simp add: isclose_def)

text \<open>
  \<open>repr\<close> of a float: the shortest decimal that rounds back to it, the closest one if there are several.
  \<open>decimal_exponent\<close> finds the position of the leading digit (350 steps cover the range of the type).
\<close>

definition pow10 :: "int \<Rightarrow> rat" where
  "pow10 k = (if 0 \<le> k then 10 ^ nat k else 1 / 10 ^ nat (- k))"

fun decimal_exponent :: "nat \<Rightarrow> rat \<Rightarrow> int" where
  "decimal_exponent 0 x = 0"
| "decimal_exponent (Suc n) x =
     (if x \<ge> 10 then 1 + decimal_exponent n (x / 10)
      else if x < 1 then decimal_exponent n (x * 10) - 1 else 0)"

definition decimal_candidates :: "rat \<Rightarrow> int \<Rightarrow> int list" where
  "decimal_candidates x k =
     (let q = x / pow10 k; lo = \<lfloor>q\<rfloor>
      in filter (\<lambda>m. fl (of_int m * pow10 k) = x) (if q - of_int lo \<le> 1 / 2 then [lo, lo + 1] else [lo + 1, lo]))"

fun shortest_decimal :: "nat \<Rightarrow> rat \<Rightarrow> int \<Rightarrow> nat \<times> int" where
  "shortest_decimal 0 x k = (nat \<lfloor>x / pow10 k\<rfloor>, k)"
| "shortest_decimal (Suc n) x k =
     (case decimal_candidates x k of
        m # ms \<Rightarrow> (nat m, k)
      | [] \<Rightarrow> shortest_decimal n x (k - 1))"

definition strip_zeros :: "string \<Rightarrow> string" where
  "strip_zeros s = rev (dropWhile (\<lambda>c. c = CHR ''0'') (rev s))"

text \<open>Digits \<open>ds\<close> read as \<open>0.ds\<close> times ten to the \<open>pt\<close>, in the layout of \<open>float.__repr__\<close>.\<close>

definition float_layout :: "string \<Rightarrow> int \<Rightarrow> string" where
  "float_layout ds pt =
     (if pt \<le> - 4 \<or> pt > 16 then
        hd ds # (if tl ds = [] then [] else CHR ''.'' # tl ds) @ ''e'' @ (if pt - 1 < 0 then ''-'' else ''+'')
          @ zero_pad 2 (dec_string (nat \<bar>pt - 1\<bar>))
      else if pt \<le> 0 then ''0.'' @ replicate (nat (- pt)) (CHR ''0'') @ ds
      else if nat pt \<ge> length ds then ds @ replicate (nat pt - length ds) (CHR ''0'') @ ''.0''
      else take (nat pt) ds @ ''.'' @ drop (nat pt) ds)"

definition float_repr :: "float64 \<Rightarrow> string" where
  "float_repr f =
     (let x = \<bar>rat_of_float f\<bar>
      in (if f < 0 then ''-'' else [])
         @ (if x = 0 then ''0.0''
            else let (m, k) = shortest_decimal 17 x (decimal_exponent 350 x)
                 in float_layout (strip_zeros (dec_string m)) (k + int (length (dec_string m)))))"

end
