(* ===== verification/Digest.thy ===== *)
theory Digest
  imports Py_Float "HOL-Library.Word" "HOL-Library.Multiset"
begin

text \<open>
  The standard-library functions the evidence records use for their identities: UTF-8, SHA-256,
  HMAC-SHA-256 and the two \<open>json.dumps\<close> settings of the sources (\<open>serialization.py\<close>,
  \<open>resource_ledger.py\<close>, \<open>effects.py\<close>). They are concrete functions, so no theorem
  needs a hypothesis about them; none relies on collision freedom.
\<close>

unbundle bit_operations_syntax

section \<open>UTF-8\<close>

text \<open>Strings hold code points below 256, so a code point takes one or two bytes.\<close>

definition utf8_char :: "char \<Rightarrow> nat list" where
  "utf8_char c = (let n = of_char c :: nat in if n < 128 then [n] else [192 + n div 64, 128 + n mod 64])"

definition utf8 :: "string \<Rightarrow> nat list" where
  "utf8 s = concat (map utf8_char s)"

section \<open>SHA-256\<close>

type_synonym u32 = "32 word"

text \<open>
  The constants are the leading 32 bits of the fractional parts of the square and cube roots of the
  first primes, so they are computed: \<open>int_root k n\<close> is the integer \<open>k\<close>-th root of \<open>n\<close>, found bit
  by bit below \<open>2 ^ b\<close>.
\<close>

fun int_root :: "nat \<Rightarrow> nat \<Rightarrow> nat \<Rightarrow> nat \<Rightarrow> nat" where
  "int_root k n 0 r = r"
| "int_root k n (Suc b) r = int_root k n b (if (r + 2 ^ b) ^ k \<le> n then r + 2 ^ b else r)"

definition small_primes :: "nat list" where
  "small_primes = filter (\<lambda>p. list_all (\<lambda>d. p mod d \<noteq> 0) [2..<p]) [2..<312]"

definition sha_init :: "u32 list" where
  "sha_init = map (\<lambda>p. of_nat (int_root 2 (p * 2 ^ 64) 40 0)) (take 8 small_primes)"

definition sha_k :: "u32 list" where
  "sha_k = map (\<lambda>p. of_nat (int_root 3 (p * 2 ^ 96) 40 0)) (take 64 small_primes)"

definition rotr :: "nat \<Rightarrow> u32 \<Rightarrow> u32" where
  "rotr n x = drop_bit n x OR push_bit (32 - n) x"

definition small_sigma0 :: "u32 \<Rightarrow> u32" where
  "small_sigma0 x = rotr 7 x XOR rotr 18 x XOR drop_bit 3 x"

definition small_sigma1 :: "u32 \<Rightarrow> u32" where
  "small_sigma1 x = rotr 17 x XOR rotr 19 x XOR drop_bit 10 x"

definition big_sigma0 :: "u32 \<Rightarrow> u32" where
  "big_sigma0 x = rotr 2 x XOR rotr 13 x XOR rotr 22 x"

definition big_sigma1 :: "u32 \<Rightarrow> u32" where
  "big_sigma1 x = rotr 6 x XOR rotr 11 x XOR rotr 25 x"

text \<open>The message schedule, built backwards: the newest word is the head of the list.\<close>

fun sha_expand :: "nat \<Rightarrow> u32 list \<Rightarrow> u32 list" where
  "sha_expand 0 ws = ws"
| "sha_expand (Suc n) ws =
     sha_expand n ((small_sigma1 (ws ! 1) + ws ! 6 + small_sigma0 (ws ! 14) + ws ! 15) # ws)"

fun sha_round :: "u32 \<times> u32 \<times> u32 \<times> u32 \<times> u32 \<times> u32 \<times> u32 \<times> u32 \<Rightarrow> u32 \<times> u32 \<Rightarrow>
    u32 \<times> u32 \<times> u32 \<times> u32 \<times> u32 \<times> u32 \<times> u32 \<times> u32" where
  "sha_round (a, b, c, d, e, f, g, h) (k, w) =
     (let t1 = h + big_sigma1 e + ((e AND f) XOR (NOT e AND g)) + k + w;
          t2 = big_sigma0 a + ((a AND b) XOR (a AND c) XOR (b AND c))
      in (t1 + t2, a, b, c, d + t1, e, f, g))"

fun sha_block :: "u32 list \<Rightarrow> u32 list \<Rightarrow> u32 list" where
  "sha_block [a, b, c, d, e, f, g, h] ws =
     (let (a', b', c', d', e', f', g', h') =
        foldl sha_round (a, b, c, d, e, f, g, h) (zip sha_k (rev (sha_expand 48 (rev ws))))
      in [a + a', b + b', c + c', d + d', e + e', f + f', g + g', h + h'])"
| "sha_block hs ws = hs"

fun be_words :: "nat list \<Rightarrow> u32 list" where
  "be_words (a # b # c # d # xs) = (push_bit 24 (of_nat a) OR push_bit 16 (of_nat b) OR push_bit 8 (of_nat c) OR of_nat d)
       # be_words xs"
| "be_words xs = []"

definition word_bytes :: "u32 \<Rightarrow> nat list" where
  "word_bytes w = map (\<lambda>n. unat (drop_bit n w AND 255)) [24, 16, 8, 0]"

fun be_bytes :: "nat \<Rightarrow> nat \<Rightarrow> nat list" where
  "be_bytes 0 n = []"
| "be_bytes (Suc k) n = be_bytes k (n div 256) @ [n mod 256]"

definition sha_pad :: "nat list \<Rightarrow> nat list" where
  "sha_pad bs = bs @ [128] @ replicate ((119 - length bs mod 64) mod 64) 0 @ be_bytes 8 (8 * length bs)"

fun sha_blocks :: "nat \<Rightarrow> u32 list \<Rightarrow> u32 list \<Rightarrow> u32 list" where
  "sha_blocks 0 hs ws = hs"
| "sha_blocks (Suc n) hs ws = sha_blocks n (sha_block hs (take 16 ws)) (drop 16 ws)"

definition sha256 :: "nat list \<Rightarrow> nat list" where
  "sha256 bs =
     (let p = sha_pad bs
      in concat (map word_bytes (sha_blocks (length p div 64) sha_init (be_words p))))"

definition hex_char :: "nat \<Rightarrow> char" where
  "hex_char n = (if n < 10 then char_of (48 + n) else char_of (87 + n))"

definition hexdigest :: "nat list \<Rightarrow> string" where
  "hexdigest bs = concat (map (\<lambda>b. [hex_char (b div 16), hex_char (b mod 16)]) bs)"

definition sha256_hex :: "string \<Rightarrow> string" where
  "sha256_hex s = hexdigest (sha256 (utf8 s))"

section \<open>HMAC-SHA-256\<close>

definition xor_pad :: "nat \<Rightarrow> nat list \<Rightarrow> nat list" where
  "xor_pad p k = map (\<lambda>b. b XOR p) (k @ replicate (64 - length k) 0)"

definition hmac_sha256_hex :: "nat list \<Rightarrow> string \<Rightarrow> string" where
  "hmac_sha256_hex key msg =
     (let k = (if length key > 64 then sha256 key else key)
      in hexdigest (sha256 (xor_pad 92 k @ sha256 (xor_pad 54 k @ utf8 msg))))"

section \<open>Canonical JSON\<close>

text \<open>The JSON values the modelled evidence is made of. An object is a dictionary.\<close>

datatype json =
    JNull
  | JBool bool
  | JInt int
  | JFloat float64
  | JStr string
  | JArr "json list"
  | JObj "(string \<times> json) list"

definition hex4 :: "nat \<Rightarrow> string" where
  "hex4 n = [hex_char (n div 4096 mod 16), hex_char (n div 256 mod 16), hex_char (n div 16 mod 16), hex_char (n mod 16)]"

text \<open>The escapes of \<open>json.dumps\<close>; \<open>ascii\<close> is its \<open>ensure_ascii\<close>.\<close>

definition json_escape :: "bool \<Rightarrow> char \<Rightarrow> string" where
  "json_escape ascii c =
     (let n = of_char c :: nat in
      if n = 34 then [CHR 0x5C, CHR 0x22]
      else if n = 92 then [CHR 0x5C, CHR 0x5C]
      else if n = 10 then [CHR 0x5C, CHR ''n'']
      else if n = 13 then [CHR 0x5C, CHR ''r'']
      else if n = 9 then [CHR 0x5C, CHR ''t'']
      else if n = 12 then [CHR 0x5C, CHR ''f'']
      else if n = 8 then [CHR 0x5C, CHR ''b'']
      else if n < 32 \<or> (ascii \<and> 126 < n) then [CHR 0x5C, CHR ''u''] @ hex4 n
      else [c])"

definition json_string :: "bool \<Rightarrow> string \<Rightarrow> string" where
  "json_string ascii s = [CHR 0x22] @ concat (map (json_escape ascii) s) @ [CHR 0x22]"

fun comma_join :: "string list \<Rightarrow> string" where
  "comma_join [] = []"
| "comma_join [x] = x"
| "comma_join (x # xs) = x @ '','' @ comma_join xs"

text \<open>\<open>json.dumps(v, sort_keys=True, separators=(",", ":"), ensure_ascii=ascii)\<close>.\<close>

fun json_dumps :: "bool \<Rightarrow> json \<Rightarrow> string" where
  "json_dumps ascii JNull = ''null''"
| "json_dumps ascii (JBool b) = (if b then ''true'' else ''false'')"
| "json_dumps ascii (JInt i) = int_string i"
| "json_dumps ascii (JFloat x) = float_repr x"
| "json_dumps ascii (JStr s) = json_string ascii s"
| "json_dumps ascii (JArr xs) = ''['' @ comma_join (map (json_dumps ascii) xs) @ '']''"
| "json_dumps ascii (JObj kvs) =
     ''{'' @ comma_join
       (map (\<lambda>(k, s). json_string ascii k @ '':'' @ s)
         (sort_key fst (map (\<lambda>(k, v). (k, json_dumps ascii v)) kvs)))
     @ ''}''"

text \<open>\<open>serialization.normalize\<close>: objects (dictionaries and dataclass instances, as the encoders of the
  records make them) with their keys sorted, at every depth. A dataclass whose declared field types are
  those of the records can hold no value of an unsupported type, so the two \<open>TypeError\<close>s do not occur.\<close>

fun normalize :: "json \<Rightarrow> json" where
  "normalize (JArr xs) = JArr (map normalize xs)"
| "normalize (JObj kvs) = JObj (sort_key fst (map (\<lambda>(k, v). (k, normalize v)) kvs))"
| "normalize v = v"

text \<open>\<open>serialization.canonical_json\<close> and \<open>serialization.content_digest\<close>, which are also
  \<open>resource_ledger._canonical_digest\<close>.\<close>

definition canonical_json :: "json \<Rightarrow> string" where
  "canonical_json v = json_dumps True (normalize v)"

definition content_digest :: "json \<Rightarrow> string" where
  "content_digest v = sha256_hex (canonical_json v)"

lemma sort_key_idem [simp]: "sort_key f (sort_key f xs) = sort_key f xs"
  by (rule sort_key_id_if_sorted) simp

lemma sort_key_map_snd: "sort_key fst (map (\<lambda>(k, v). (k, g v)) kvs) = map (\<lambda>(k, v). (k, g v)) (sort_key fst kvs)"
  for kvs :: "('k::linorder \<times> 'v) list"
proof -
  have "insort_key fst (k, g v) (map (\<lambda>(k, v). (k, g v)) xs) = map (\<lambda>(k, v). (k, g v)) (insort_key fst (k, v) xs)" for k :: 'k and v xs
    by (induction xs) auto
  then show ?thesis by (induction kvs) (auto simp del: insort_key.simps)
qed

text \<open>Normalizing twice changes nothing, and neither does normalizing what is printed with sorted keys.\<close>

lemma normalize_idem [simp]: "normalize (normalize v) = normalize v"
proof (induction v rule: normalize.induct)
  case (2 kvs)
  have "map (\<lambda>(k, v). (k, normalize v)) (map (\<lambda>(k, v). (k, normalize v)) kvs) = map (\<lambda>(k, v). (k, normalize v)) kvs"
    using 2 by (auto simp: case_prod_beta)
  then show ?case by (simp only: normalize.simps sort_key_map_snd [symmetric] sort_key_idem)
qed (simp_all add: o_def)

lemma json_dumps_normalize [simp]: "json_dumps ascii (normalize v) = json_dumps ascii v"
proof (induction v rule: normalize.induct)
  case (2 kvs)
  have "map (\<lambda>(k, v). (k, json_dumps ascii v)) (map (\<lambda>(k, v). (k, normalize v)) kvs)
      = map (\<lambda>(k, v). (k, json_dumps ascii v)) kvs"
    using 2 by (auto simp: case_prod_beta)
  then show ?case by (simp only: normalize.simps json_dumps.simps sort_key_map_snd [symmetric] sort_key_idem)
next
  case (1 xs)
  then have "map (json_dumps ascii) (map normalize xs) = map (json_dumps ascii) xs" by simp
  then show ?case by (simp only: normalize.simps json_dumps.simps)
qed simp_all

lemma canonical_json_eq: "canonical_json v = json_dumps True v"
  by (simp add: canonical_json_def)

text \<open>
  The identity of a record does not depend on the order in which its fields were written: objects
  with the same distinct keys and the same values have one canonical text and one digest, and a value
  may be normalized (as a stored certificate is) without changing its digest.
\<close>

theorem digest_ignores_key_order:
  assumes "mset kvs = mset kvs'" and "distinct (map fst kvs)"
  shows "canonical_json (JObj kvs) = canonical_json (JObj kvs')
    \<and> content_digest (normalize (JObj kvs')) = content_digest (JObj kvs)"
proof -
  have "inj_on fst (set kvs)" using assms(2) by (simp add: distinct_map)
  moreover have "mset (sort_key fst kvs') = mset kvs" using assms(1) by simp
  ultimately have "sort_key fst kvs = sort_key fst kvs'" by (intro sort_key_inj_key_eq) simp_all
  then have "canonical_json (JObj kvs) = canonical_json (JObj kvs')"
    by (simp add: canonical_json_eq sort_key_map_snd)
  then show ?thesis by (simp add: content_digest_def canonical_json_eq del: json_dumps.simps normalize.simps)
qed

theorem digest_ignores_key_order_witness:
  "canonical_json (JObj [(''b'', JInt 1), (''a'', JNull)]) = canonical_json (JObj [(''a'', JNull), (''b'', JInt 1)])"
  using digest_ignores_key_order [of "[(''b'', JInt 1), (''a'', JNull)]" "[(''a'', JNull), (''b'', JInt 1)]"] by simp

text \<open>Encoders for optional values.\<close>

definition jopt :: "('a \<Rightarrow> json) \<Rightarrow> 'a option \<Rightarrow> json" where
  "jopt f x = (case x of None \<Rightarrow> JNull | Some y \<Rightarrow> f y)"

section \<open>Digest shape\<close>

text \<open>\<open>_is_sha256\<close>: 64 lower-case hexadecimal digits.\<close>

definition hex_digit :: "char \<Rightarrow> bool" where
  "hex_digit c \<longleftrightarrow> c \<in> set ''0123456789abcdef''"

definition is_sha256 :: "string \<Rightarrow> bool" where
  "is_sha256 s \<longleftrightarrow> length s = 64 \<and> list_all hex_digit s"

text \<open>Every digest has this shape.\<close>

lemma hex_digit_char: "n < 16 \<Longrightarrow> hex_digit (hex_char n)"
proof -
  assume "n < 16"
  moreover have "\<forall>n \<in> set [0..<16]. hex_digit (hex_char n)" by code_simp
  ultimately show ?thesis by simp
qed

lemma hexdigest_digits: "list_all (\<lambda>n. n < 256) bs \<Longrightarrow> list_all hex_digit (hexdigest bs) \<and> length (hexdigest bs) = 2 * length bs"
  by (induction bs) (auto simp: hexdigest_def hex_digit_char)

lemma word_bytes_bound: "list_all (\<lambda>n. n < 256) (word_bytes w) \<and> length (word_bytes w) = 4"
proof -
  have "unat (x AND 255) < 256" for x :: u32
  proof -
    have "x AND 255 \<le> 255" by (rule word_and_le1)
    then have "unat (x AND 255) \<le> unat (255 :: u32)" by (simp only: word_le_nat_alt)
    then show ?thesis by simp
  qed
  then show ?thesis by (simp add: word_bytes_def)
qed

lemma length_sha_init: "length sha_init = 8"
proof -
  let ?f = "filter (\<lambda>p. list_all (\<lambda>d. p mod d \<noteq> 0) [2..<p]) :: nat list \<Rightarrow> nat list"
  have "[2..<312] = [2..<20] @ [20..<(312::nat)]" using upt_add_eq_append [of 2 20 292] by (simp del: upt.simps)
  then have split: "small_primes = ?f [2..<20] @ ?f [20..<312]" by (simp only: small_primes_def filter_append)
  have prefix: "length xs = 8 \<Longrightarrow> length (take 8 (xs @ ys)) = 8" for xs ys :: "nat list" by simp
  have "length (?f [2..<20]) = 8" by code_simp
  then have "length (take 8 small_primes) = 8" unfolding split by (rule prefix)
  then show ?thesis by (simp only: sha_init_def length_map)
qed

lemma sha_block_length: "length hs = 8 \<Longrightarrow> length (sha_block hs ws) = 8"
  by (cases "(hs, ws)" rule: sha_block.cases) (auto split: prod.splits)

lemma sha_blocks_length: "length hs = 8 \<Longrightarrow> length (sha_blocks n hs ws) = 8"
  by (induction n arbitrary: hs ws) (simp_all add: sha_block_length)

lemma sha256_bytes: "list_all (\<lambda>n. n < 256) (sha256 bs) \<and> length (sha256 bs) = 32"
proof -
  have "length (concat (map word_bytes hs)) = 4 * length hs" for hs
    by (induction hs) (simp_all add: word_bytes_bound)
  then show ?thesis
    using word_bytes_bound by (auto simp: sha256_def Let_def list_all_iff sha_blocks_length [OF length_sha_init])
qed

lemma is_sha256_hex: "is_sha256 (sha256_hex s)"
  using hexdigest_digits [of "sha256 (utf8 s)"] sha256_bytes [of "utf8 s"] by (simp add: is_sha256_def sha256_hex_def)

lemma is_sha256_content: "is_sha256 (content_digest v)"
  by (simp add: content_digest_def is_sha256_hex)
end
