(* ===== verification/Float_Error.thy ===== *)
theory Float_Error
  imports Py_Float "HOL-Library.Multiset"
begin

text \<open>
  How far rounding can move a probability, and a product of probabilities: \<open>2 ^ - 54\<close> for each operation below
  one, so that two products of the same \<open>n\<close> factors in different orders are at most \<open>n * 2 ^ - 53\<close> apart.
\<close>

section \<open>The error of rounding\<close>

lemma round_even_error: "\<bar>of_int (round_even z) - z\<bar> \<le> 1 / 2"
proof -
  have "of_int \<lfloor>z\<rfloor> \<le> z" "z < of_int \<lfloor>z\<rfloor> + 1" by linarith+
  then show ?thesis by (auto simp: round_even_def Let_def abs_le_iff)
qed

lemma round53_error: "\<bar>round53 z - z\<bar> \<le> 2 ^ grid z / 2"
proof -
  have "round53 z - z = (of_int (round_even (z / 2 ^ grid z)) - z / 2 ^ grid z) * 2 ^ grid z"
    by (simp add: round53_def left_diff_distrib)
  then have "\<bar>round53 z - z\<bar> = \<bar>of_int (round_even (z / 2 ^ grid z)) - z / 2 ^ grid z\<bar> * 2 ^ grid z"
    by (simp add: abs_mult)
  also have "\<dots> \<le> 1 / 2 * 2 ^ grid z"
    by (rule mult_right_mono [OF round_even_error]) simp
  finally show ?thesis by simp
qed

lemma grid_le:
  assumes "0 \<le> z" and "z < 2 ^ n"
  shows "grid z \<le> n - 53"
proof -
  have "nat \<lfloor>z\<rfloor> < 2 ^ n" using assms by (simp add: nat_less_iff floor_less_iff)
  then have "floorlog 2 (nat \<lfloor>z\<rfloor>) \<le> n" by (rule floorlog_leI) simp_all
  then show ?thesis unfolding grid_def by (rule diff_le_mono)
qed

text \<open>Below one, rounding moves a number by at most half of the last of its 53 bits.\<close>

lemma fl_error:
  assumes "0 \<le> x" and "x \<le> 1"
  shows "\<bar>fl x - x\<bar> \<le> 1 / 2 ^ 54"
proof (cases "x = 1")
  case True
  then show ?thesis by simp
next
  case False
  let ?z = "x * unit_scale"
  have "0 \<le> ?z" and "?z < 2 ^ subnormal_bits" using assms False by simp_all
  then have "grid ?z \<le> 1021" using grid_le [of ?z subnormal_bits] by (simp add: subnormal_bits_def)
  define u :: rat where "u = 2 ^ 1021"
  have scale: "unit_scale = u * 2 ^ 53" by (simp add: u_def subnormal_bits_def flip: power_add)
  have pos: "0 < u" by (simp add: u_def)
  from \<open>grid ?z \<le> 1021\<close> have "(2 :: rat) ^ grid ?z \<le> u" unfolding u_def by (rule power_increasing) simp
  with round53_error [of ?z] have "\<bar>round53 ?z - ?z\<bar> \<le> u / 2" by linarith
  then have "\<bar>round53 ?z - ?z\<bar> / (u * 2 ^ 53) \<le> u / 2 / (u * 2 ^ 53)" using pos by (intro divide_right_mono) simp_all
  moreover have "fl x - x = (round53 ?z - ?z) / (u * 2 ^ 53)"
    using assms pos unfolding fl_def scale by (simp add: diff_divide_distrib)
  ultimately show ?thesis using pos by (simp add: abs_divide abs_mult)
qed

section \<open>Products of probabilities\<close>

definition unit_float :: "float64 \<Rightarrow> bool" where
  "unit_float p \<longleftrightarrow> 0 \<le> p \<and> p \<le> 1"

lemma rat_of_float_simps [simp]: "rat_of_float 0 = 0" "rat_of_float 1 = 1"
  "rat_of_float (x * y) = fl (rat_of_float x * rat_of_float y)"
  "rat_of_float (x - y) = fl (rat_of_float x - rat_of_float y)"
  "rat_of_float (- x) = - rat_of_float x"
  "rat_of_float (float_of q) = fl q"
  by (transfer; simp)+

lemma float_le_iff: "x \<le> y \<longleftrightarrow> rat_of_float x \<le> rat_of_float y"
  by transfer simp

lemma unit_floatD: "unit_float p \<Longrightarrow> 0 \<le> rat_of_float p" "unit_float p \<Longrightarrow> rat_of_float p \<le> 1"
  by (simp_all add: unit_float_def float_le_iff)

lemma unit_float_mult: "unit_float p \<Longrightarrow> unit_float q \<Longrightarrow> unit_float (p * q)"
  by (simp add: unit_float_def float_simps)

text \<open>Each multiplication of a product of probabilities adds at most one rounding error.\<close>

lemma product_error:
  assumes "unit_float s" and "\<forall>p \<in> set ps. unit_float p"
  shows "\<bar>rat_of_float (foldl (*) s ps) - rat_of_float s * (\<Prod>p \<leftarrow> ps. rat_of_float p)\<bar> \<le> of_nat (length ps) / 2 ^ 54
    \<and> unit_float (foldl (*) s ps)"
  using assms
proof (induction ps arbitrary: s)
  case Nil
  then show ?case by simp
next
  case (Cons p ps)
  let ?P = "\<Prod>p \<leftarrow> ps. rat_of_float p" and ?sp = "rat_of_float s * rat_of_float p"
  have up: "unit_float (s * p)" using Cons.prems by (simp add: unit_float_mult)
  have IH: "\<bar>rat_of_float (foldl (*) (s * p) ps) - fl ?sp * ?P\<bar> \<le> of_nat (length ps) / 2 ^ 54"
    "unit_float (foldl (*) (s * p) ps)"
    using Cons.IH [OF up] Cons.prems by simp_all
  have P: "0 \<le> ?P \<and> ?P \<le> 1" using Cons.prems(2)
    by (induction ps) (auto simp: unit_floatD mult_le_one)
  have "0 \<le> ?sp" "?sp \<le> 1" using Cons.prems by (simp_all add: unit_floatD mult_le_one)
  then have "\<bar>fl ?sp - ?sp\<bar> \<le> 1 / 2 ^ 54" by (rule fl_error)
  then have "\<bar>fl ?sp - ?sp\<bar> * ?P \<le> 1 / 2 ^ 54 * 1" using P by (intro mult_mono) simp_all
  then have "\<bar>fl ?sp * ?P - ?sp * ?P\<bar> \<le> 1 / 2 ^ 54" using P by (simp add: abs_mult flip: left_diff_distrib)
  with IH(1) have "\<bar>rat_of_float (foldl (*) (s * p) ps) - ?sp * ?P\<bar> \<le> of_nat (length ps) / 2 ^ 54 + 1 / 2 ^ 54" by linarith
  with IH(2) show ?case by (simp add: add_divide_distrib mult.assoc)
qed

lemma prod_list_mset: "mset xs = mset ys \<Longrightarrow> prod_list xs = prod_list (ys :: 'a :: comm_monoid_mult list)"
  by (metis prod_mset_prod_list)

lemma products_close:
  assumes "mset ps = mset qs" and "\<forall>p \<in> set ps. unit_float p"
  shows "\<bar>rat_of_float (foldl (*) 1 ps) - rat_of_float (foldl (*) 1 qs)\<bar> \<le> of_nat (length ps) / 2 ^ 53"
proof -
  have one: "unit_float 1" by (simp add: unit_float_def)
  have qs: "\<forall>p \<in> set qs. unit_float p" using assms by (metis mset_eq_setD)
  have "length qs = length ps" using assms(1) by (metis size_mset)
  moreover have "(\<Prod>p \<leftarrow> ps. rat_of_float p) = (\<Prod>p \<leftarrow> qs. rat_of_float p)"
    by (rule prod_list_mset) (simp add: assms(1))
  ultimately have "\<bar>rat_of_float (foldl (*) 1 ps) - (\<Prod>p \<leftarrow> qs. rat_of_float p)\<bar> \<le> of_nat (length ps) / 2 ^ 54"
    "\<bar>rat_of_float (foldl (*) 1 qs) - (\<Prod>p \<leftarrow> qs. rat_of_float p)\<bar> \<le> of_nat (length ps) / 2 ^ 54"
    using product_error [OF one assms(2)] product_error [OF one qs] by simp_all
  moreover have "of_nat (length ps) / 2 ^ 54 + of_nat (length ps) / 2 ^ 54 = (of_nat (length ps) / 2 ^ 53 :: rat)" by simp
  ultimately show ?thesis by linarith
qed

lemma float_abs_rat [simp]: "rat_of_float (float_abs x) = \<bar>rat_of_float x\<bar>"
  by (simp add: float_abs_def less_float64.rep_eq)

lemma isclose_near:
  assumes "\<bar>rat_of_float a - rat_of_float b\<bar> \<le> q"
  shows "isclose a b (float_of q)"
proof -
  have "\<bar>rat_of_float b - rat_of_float a\<bar> \<le> q" using assms by linarith
  then have "\<bar>fl (rat_of_float b - rat_of_float a)\<bar> \<le> fl q"
    using fl_mono [of "rat_of_float b - rat_of_float a" q] fl_mono [of "- (rat_of_float b - rat_of_float a)" q]
    by (simp add: abs_le_iff del: minus_diff_eq)
  then show ?thesis by (simp add: isclose_def Let_def float_le_iff)
qed

end
