(* ===== verification/Resource_Ledger.thy ===== *)
theory Resource_Ledger
  imports Digest Interfaces
begin

text \<open>
  \<open>src/agent_physics/resource_ledger.py\<close>: the local budget ledger and its independent replay.

  A \<open>ResourceVector\<close> validates that its three components are non-negative integers, so a
  constructed one is three natural numbers; \<open>mk_resource_vector\<close> is the constructor with its
  check. An operation of \<open>ResourceBudgetLedger\<close> returns its event, or the exception it raises,
  together with the ledger it leaves behind (Python keeps the mutations made before a raise).
\<close>

section \<open>Resource vectors\<close>

record resource_vector =
  rv_tokens :: nat
  rv_cost_microusd :: nat
  rv_context_bytes :: nat

definition mk_resource_vector :: "int \<Rightarrow> int \<Rightarrow> int \<Rightarrow> py_error + resource_vector" where
  "mk_resource_vector t c b =
     (if t < 0 then Inl (ValueError ''tokens must be a non-negative integer'')
      else if c < 0 then Inl (ValueError ''cost_microusd must be a non-negative integer'')
      else if b < 0 then Inl (ValueError ''context_bytes must be a non-negative integer'')
      else Inr \<lparr>rv_tokens = nat t, rv_cost_microusd = nat c, rv_context_bytes = nat b\<rparr>)"

definition rv_zero :: resource_vector where
  "rv_zero = \<lparr>rv_tokens = 0, rv_cost_microusd = 0, rv_context_bytes = 0\<rparr>"

definition rv_add :: "resource_vector \<Rightarrow> resource_vector \<Rightarrow> resource_vector" where
  "rv_add a b =
     \<lparr>rv_tokens = rv_tokens a + rv_tokens b,
      rv_cost_microusd = rv_cost_microusd a + rv_cost_microusd b,
      rv_context_bytes = rv_context_bytes a + rv_context_bytes b\<rparr>"

definition rv_fits_within :: "resource_vector \<Rightarrow> resource_vector \<Rightarrow> bool" where
  "rv_fits_within a limit \<longleftrightarrow>
     rv_tokens a \<le> rv_tokens limit \<and>
     rv_cost_microusd a \<le> rv_cost_microusd limit \<and>
     rv_context_bytes a \<le> rv_context_bytes limit"

definition rv_subtract :: "resource_vector \<Rightarrow> resource_vector \<Rightarrow> py_error + resource_vector" where
  "rv_subtract a b =
     (if \<not> rv_fits_within b a
      then Inl (ValueError ''resource subtraction would produce a negative balance'')
      else mk_resource_vector
             (int (rv_tokens a) - int (rv_tokens b))
             (int (rv_cost_microusd a) - int (rv_cost_microusd b))
             (int (rv_context_bytes a) - int (rv_context_bytes b)))"

definition rv_as_dict :: "resource_vector \<Rightarrow> json" where
  "rv_as_dict a =
     JObj [(''tokens'', JInt (int (rv_tokens a))),
           (''cost_microusd'', JInt (int (rv_cost_microusd a))),
           (''context_bytes'', JInt (int (rv_context_bytes a)))]"

text \<open>\<open>_sum_resources\<close>: a loop with three accumulators.\<close>

definition sum_resources :: "resource_vector list \<Rightarrow> resource_vector" where
  "sum_resources rs = foldl rv_add rv_zero rs"

section \<open>Snapshots and events\<close>

datatype ledger_operation = RESERVE | SETTLE | CANCEL

text \<open>An event read back from evidence may carry a value that is no \<open>LedgerOperation\<close>; the
  sources look at its \<open>str\<close> and its \<open>repr\<close>.\<close>

datatype event_operation = Known ledger_operation | Foreign (foreign_str: string) (foreign_repr: string)

record budget_snapshot =
  bs_capacity :: resource_vector
  bs_spent :: resource_vector
  bs_held :: resource_vector
  bs_available :: resource_vector
  bs_active_attempts :: nat
  bs_terminal_attempts :: nat
  bs_last_sequence :: nat

definition snapshot_as_dict :: "budget_snapshot \<Rightarrow> json" where
  "snapshot_as_dict s =
     JObj [(''capacity'', rv_as_dict (bs_capacity s)),
           (''spent'', rv_as_dict (bs_spent s)),
           (''held'', rv_as_dict (bs_held s)),
           (''available'', rv_as_dict (bs_available s)),
           (''active_attempts'', JInt (int (bs_active_attempts s))),
           (''terminal_attempts'', JInt (int (bs_terminal_attempts s))),
           (''last_sequence'', JInt (int (bs_last_sequence s)))]"

record ledger_event =
  le_sequence :: int
  le_event_id :: string
  le_operation :: event_operation
  le_attempt_id :: string
  le_reservation :: "resource_vector option"
  le_actual :: "resource_vector option"
  le_applied :: bool
  le_reason :: "string option"
  le_post_snapshot :: budget_snapshot

fun operation_value :: "event_operation \<Rightarrow> string" where
  "operation_value (Known RESERVE) = ''reserve''"
| "operation_value (Known SETTLE) = ''settle''"
| "operation_value (Known CANCEL) = ''cancel''"
| "operation_value (Foreign s r) = s"

definition event_as_dict :: "ledger_event \<Rightarrow> json" where
  "event_as_dict e =
     JObj [(''sequence'', JInt (le_sequence e)),
           (''event_id'', JStr (le_event_id e)),
           (''operation'', JStr (operation_value (le_operation e))),
           (''attempt_id'', JStr (le_attempt_id e)),
           (''reservation'', jopt rv_as_dict (le_reservation e)),
           (''actual'', jopt rv_as_dict (le_actual e)),
           (''applied'', JBool (le_applied e)),
           (''reason'', jopt JStr (le_reason e)),
           (''post_snapshot'', snapshot_as_dict (le_post_snapshot e))]"

definition event_log_digest :: "ledger_event list \<Rightarrow> string" where
  "event_log_digest es = content_digest (JArr (map event_as_dict es))"

definition event_id_of :: "nat \<Rightarrow> string" where
  "event_id_of n = ''resource-event-'' @ zero_pad 12 (dec_string n)"

section \<open>The ledger\<close>

record ledger =
  ld_capacity :: resource_vector
  ld_spent :: resource_vector
  ld_active :: "(string, resource_vector) dict"
  ld_terminal :: "(string, string) dict"
  ld_events :: "ledger_event list"

definition ledger_init :: "resource_vector \<Rightarrow> ledger" where
  "ledger_init capacity =
     \<lparr>ld_capacity = capacity, ld_spent = rv_zero, ld_active = [], ld_terminal = [], ld_events = []\<rparr>"

definition active_attempt_ids :: "ledger \<Rightarrow> string list" where
  "active_attempt_ids L = sort (dkeys (ld_active L))"

definition known_attempt_ids :: "ledger \<Rightarrow> string list" where
  "known_attempt_ids L = sorted_set (dkeys (ld_active L) @ dkeys (ld_terminal L))"

definition reservation_for :: "ledger \<Rightarrow> string \<Rightarrow> resource_vector option" where
  "reservation_for L a = dget (ld_active L) a"

text \<open>\<open>_snapshot\<close>, with its internal conservation check.\<close>

definition ledger_snapshot_at :: "ledger \<Rightarrow> nat \<Rightarrow> py_error + budget_snapshot" where
  "ledger_snapshot_at L last_sequence =
     (let held = sum_resources (dvalues (ld_active L));
          committed = rv_add (ld_spent L) held
      in if \<not> rv_fits_within committed (ld_capacity L)
         then Inl (AssertionError ''internal ledger conservation failure'')
         else case rv_subtract (ld_capacity L) committed of
           Inl e \<Rightarrow> Inl e
         | Inr available \<Rightarrow>
             Inr \<lparr>bs_capacity = ld_capacity L,
                  bs_spent = ld_spent L,
                  bs_held = held,
                  bs_available = available,
                  bs_active_attempts = length (ld_active L),
                  bs_terminal_attempts = length (ld_terminal L),
                  bs_last_sequence = last_sequence\<rparr>)"

definition ledger_snapshot :: "ledger \<Rightarrow> py_error + budget_snapshot" where
  "ledger_snapshot L = ledger_snapshot_at L (length (ld_events L))"

definition ledger_record ::
  "ledger \<Rightarrow> ledger_operation \<Rightarrow> string \<Rightarrow> resource_vector option \<Rightarrow> resource_vector option \<Rightarrow>
   bool \<Rightarrow> string option \<Rightarrow> (py_error + ledger_event) \<times> ledger" where
  "ledger_record L operation attempt_id reservation actual applied reason =
     (let sequence = length (ld_events L) + 1
      in case ledger_snapshot_at L sequence of
           Inl e \<Rightarrow> (Inl e, L)
         | Inr post \<Rightarrow>
             let event =
               \<lparr>le_sequence = int sequence,
                le_event_id = event_id_of sequence,
                le_operation = Known operation,
                le_attempt_id = attempt_id,
                le_reservation = reservation,
                le_actual = actual,
                le_applied = applied,
                le_reason = reason,
                le_post_snapshot = post\<rparr>
             in (Inr event, L\<lparr>ld_events := ld_events L @ [event]\<rparr>))"

definition attempt_id_error :: "py_error" where
  "attempt_id_error = ValueError ''attempt_id must be a non-empty string''"

definition ledger_reserve :: "ledger \<Rightarrow> string \<Rightarrow> resource_vector \<Rightarrow> (py_error + ledger_event) \<times> ledger" where
  "ledger_reserve L a requested =
     (if py_blank a then (Inl attempt_id_error, L)
      else if dmem a (ld_active L) \<or> dmem a (ld_terminal L) then
        ledger_record L RESERVE a (Some requested) None False (Some ''identity_conflict'')
      else case ledger_snapshot L of
        Inl e \<Rightarrow> (Inl e, L)
      | Inr s \<Rightarrow>
          if \<not> rv_fits_within requested (bs_available s) then
            ledger_record (L\<lparr>ld_terminal := dset a ''reservation_refused'' (ld_terminal L)\<rparr>)
              RESERVE a (Some requested) None False (Some ''capacity_exceeded'')
          else
            ledger_record (L\<lparr>ld_active := dset a requested (ld_active L)\<rparr>)
              RESERVE a (Some requested) None True None)"

definition missing_reason :: "ledger \<Rightarrow> string \<Rightarrow> string" where
  "missing_reason L a = (if dmem a (ld_terminal L) then ''terminal_attempt'' else ''unknown_attempt'')"

definition ledger_settle :: "ledger \<Rightarrow> string \<Rightarrow> resource_vector \<Rightarrow> (py_error + ledger_event) \<times> ledger" where
  "ledger_settle L a actual =
     (if py_blank a then (Inl attempt_id_error, L)
      else case dget (ld_active L) a of
        None \<Rightarrow> ledger_record L SETTLE a None (Some actual) False (Some (missing_reason L a))
      | Some reservation \<Rightarrow>
          if \<not> rv_fits_within actual reservation then
            ledger_record L SETTLE a (Some reservation) (Some actual) False (Some ''actual_over_reservation'')
          else
            ledger_record
              (L\<lparr>ld_spent := rv_add (ld_spent L) actual,
                 ld_active := ddel a (ld_active L),
                 ld_terminal := dset a ''settled'' (ld_terminal L)\<rparr>)
              SETTLE a (Some reservation) (Some actual) True None)"

definition ledger_cancel :: "ledger \<Rightarrow> string \<Rightarrow> (py_error + ledger_event) \<times> ledger" where
  "ledger_cancel L a =
     (if py_blank a then (Inl attempt_id_error, L)
      else case dget (ld_active L) a of
        None \<Rightarrow> ledger_record L CANCEL a None None False (Some (missing_reason L a))
      | Some reservation \<Rightarrow>
          ledger_record
            (L\<lparr>ld_active := ddel a (ld_active L),
               ld_terminal := dset a ''cancelled'' (ld_terminal L)\<rparr>)
            CANCEL a (Some reservation) None True None)"

text \<open>A client of the ledger is a sequence of calls; an exception ends one call, not the ledger.\<close>

datatype ledger_call =
    Reserve string resource_vector
  | Settle string resource_vector
  | Cancel string

fun ledger_step :: "ledger \<Rightarrow> ledger_call \<Rightarrow> (py_error + ledger_event) \<times> ledger" where
  "ledger_step L (Reserve a r) = ledger_reserve L a r"
| "ledger_step L (Settle a r) = ledger_settle L a r"
| "ledger_step L (Cancel a) = ledger_cancel L a"

fun ledger_run :: "ledger \<Rightarrow> ledger_call list \<Rightarrow> ledger" where
  "ledger_run L [] = L"
| "ledger_run L (c # cs) = ledger_run (snd (ledger_step L c)) cs"

section \<open>Independent replay\<close>

record verification_failure =
  vf_sequence :: "int option"
  vf_code :: string
  vf_detail :: string

record replay_report =
  rr_passed :: bool
  rr_seed :: "int option"
  rr_event_count :: nat
  rr_trace_digest :: string
  rr_replayed_snapshot :: budget_snapshot
  rr_failures :: "verification_failure list"

record replay_state =
  rs_spent :: resource_vector
  rs_active :: "(string, resource_vector) dict"
  rs_terminal :: "(string, string) dict"
  rs_seen :: "string list"
  rs_failures :: "verification_failure list"

definition replay_init :: replay_state where
  "replay_init = \<lparr>rs_spent = rv_zero, rs_active = [], rs_terminal = [], rs_seen = [], rs_failures = []\<rparr>"

definition rv_available :: "resource_vector \<Rightarrow> resource_vector \<Rightarrow> resource_vector" where
  "rv_available capacity committed =
     (if \<not> rv_fits_within committed capacity then rv_zero
      else case rv_subtract capacity committed of Inl e \<Rightarrow> rv_zero | Inr v \<Rightarrow> v)"

definition snapshot_from_replay :: "resource_vector \<Rightarrow> replay_state \<Rightarrow> nat \<Rightarrow> budget_snapshot" where
  "snapshot_from_replay capacity R last_sequence =
     (let held = sum_resources (dvalues (rs_active R));
          committed = rv_add (rs_spent R) held
      in \<lparr>bs_capacity = capacity,
          bs_spent = rs_spent R,
          bs_held = held,
          bs_available = rv_available capacity committed,
          bs_active_attempts = length (rs_active R),
          bs_terminal_attempts = length (rs_terminal R),
          bs_last_sequence = last_sequence\<rparr>)"

definition vfail :: "bool \<Rightarrow> int option \<Rightarrow> string \<Rightarrow> string \<Rightarrow> verification_failure list" where
  "vfail b sequence code detail =
     (if b then [\<lparr>vf_sequence = sequence, vf_code = code, vf_detail = detail\<rparr>] else [])"

text \<open>The decision the replay derives from the operation's inputs: what is expected of
  \<open>applied\<close> and \<open>reason\<close>, and the state the operation leaves.\<close>

definition replay_reserve ::
  "resource_vector \<Rightarrow> nat \<Rightarrow> replay_state \<Rightarrow> ledger_event \<Rightarrow> bool \<times> string option \<times> replay_state" where
  "replay_reserve capacity position R e =
     (case le_reservation e of
        None \<Rightarrow> (False, Some ''malformed_input'', R)
      | Some reservation \<Rightarrow>
          if le_actual e \<noteq> None then (False, Some ''malformed_input'', R)
          else if dmem (le_attempt_id e) (rs_active R) \<or> dmem (le_attempt_id e) (rs_terminal R) then
            (False, Some ''identity_conflict'', R)
          else if \<not> rv_fits_within reservation
                     (bs_available (snapshot_from_replay capacity R (position - 1))) then
            (False, Some ''capacity_exceeded'',
             R\<lparr>rs_terminal := dset (le_attempt_id e) ''reservation_refused'' (rs_terminal R)\<rparr>)
          else
            (True, None, R\<lparr>rs_active := dset (le_attempt_id e) reservation (rs_active R)\<rparr>))"

definition replay_missing :: "replay_state \<Rightarrow> string \<Rightarrow> string" where
  "replay_missing R a = (if dmem a (rs_terminal R) then ''terminal_attempt'' else ''unknown_attempt'')"

definition replay_settle :: "replay_state \<Rightarrow> ledger_event \<Rightarrow> bool \<times> string option \<times> replay_state" where
  "replay_settle R e =
     (case le_actual e of
        None \<Rightarrow> (False, Some ''malformed_input'', R)
      | Some actual \<Rightarrow>
          (case dget (rs_active R) (le_attempt_id e) of
             None \<Rightarrow> (False, Some (replay_missing R (le_attempt_id e)), R)
           | Some before \<Rightarrow>
               if \<not> rv_fits_within actual before then (False, Some ''actual_over_reservation'', R)
               else
                 (True, None,
                  R\<lparr>rs_spent := rv_add (rs_spent R) actual,
                    rs_active := ddel (le_attempt_id e) (rs_active R),
                    rs_terminal := dset (le_attempt_id e) ''settled'' (rs_terminal R)\<rparr>)))"

definition replay_cancel :: "replay_state \<Rightarrow> ledger_event \<Rightarrow> bool \<times> string option \<times> replay_state" where
  "replay_cancel R e =
     (if le_actual e \<noteq> None then (False, Some ''malformed_input'', R)
      else case dget (rs_active R) (le_attempt_id e) of
        None \<Rightarrow> (False, Some (replay_missing R (le_attempt_id e)), R)
      | Some before \<Rightarrow>
          (True, None,
           R\<lparr>rs_active := ddel (le_attempt_id e) (rs_active R),
             rs_terminal := dset (le_attempt_id e) ''cancelled'' (rs_terminal R)\<rparr>))"

definition replay_decide ::
  "resource_vector \<Rightarrow> nat \<Rightarrow> replay_state \<Rightarrow> ledger_event \<Rightarrow> bool \<times> string option \<times> replay_state" where
  "replay_decide capacity position R e =
     (case le_operation e of
        Known RESERVE \<Rightarrow> replay_reserve capacity position R e
      | Known SETTLE \<Rightarrow> replay_settle R e
      | Known CANCEL \<Rightarrow> replay_cancel R e
      | Foreign s r \<Rightarrow> (False, Some ''unknown_operation'', R))"

text \<open>The checks of one event: identity before the decision, then the decision, the post-state
  snapshot and the caps.\<close>

definition identity_failures :: "nat \<Rightarrow> string list \<Rightarrow> ledger_event \<Rightarrow> verification_failure list" where
  "identity_failures position seen e =
     vfail (py_blank (le_attempt_id e)) (Some (le_sequence e)) ''invalid_attempt_id''
       ''attempt ID must be a non-empty string''
     @ vfail (le_sequence e \<noteq> int position) (Some (le_sequence e)) ''non_monotonic_sequence''
       (''expected='' @ dec_string position)
     @ vfail (le_event_id e \<noteq> event_id_of position) (Some (le_sequence e)) ''invalid_event_id''
       (''expected='' @ event_id_of position)
     @ vfail (le_event_id e \<in> set seen) (Some (le_sequence e)) ''duplicate_event_id'' (le_event_id e)"

definition expected_reservation :: "replay_state \<Rightarrow> ledger_event \<Rightarrow> resource_vector option" where
  "expected_reservation R e =
     (if le_operation e = Known RESERVE then le_reservation e else dget (rs_active R) (le_attempt_id e))"

definition is_foreign :: "event_operation \<Rightarrow> bool" where
  "is_foreign oper = (case oper of Foreign s r \<Rightarrow> True | Known k \<Rightarrow> False)"

text \<open>The f-string details of the failures.\<close>

definition rv_repr :: "resource_vector option \<Rightarrow> string" where
  "rv_repr v =
     (case v of None \<Rightarrow> ''None''
      | Some a \<Rightarrow>
          ''ResourceVector(tokens='' @ dec_string (rv_tokens a) @ '', cost_microusd=''
          @ dec_string (rv_cost_microusd a) @ '', context_bytes='' @ dec_string (rv_context_bytes a) @ '')'')"

definition rv_dict_repr :: "resource_vector \<Rightarrow> string" where
  "rv_dict_repr a =
     ''{'' @ [CHR 0x27] @ ''tokens'' @ [CHR 0x27] @ '': '' @ dec_string (rv_tokens a)
     @ '', '' @ [CHR 0x27] @ ''cost_microusd'' @ [CHR 0x27] @ '': '' @ dec_string (rv_cost_microusd a)
     @ '', '' @ [CHR 0x27] @ ''context_bytes'' @ [CHR 0x27] @ '': '' @ dec_string (rv_context_bytes a) @ ''}''"

definition decision_repr :: "bool \<Rightarrow> string option \<Rightarrow> string" where
  "decision_repr applied reason =
     ''expected_applied='' @ (if applied then ''True'' else ''False'') @ '', expected_reason=''
     @ (case reason of None \<Rightarrow> ''None'' | Some r \<Rightarrow> r)"

definition decision_failures ::
  "resource_vector \<Rightarrow> nat \<Rightarrow> replay_state \<Rightarrow> ledger_event \<Rightarrow> verification_failure list" where
  "decision_failures capacity position R e =
     (let (expected_applied, expected_reason, R') = replay_decide capacity position R e;
          replayed = snapshot_from_replay capacity R' position;
          committed = rv_add (bs_spent replayed) (bs_held replayed)
      in vfail (is_foreign (le_operation e)) (Some (le_sequence e)) ''unknown_operation''
           (case le_operation e of Foreign s r \<Rightarrow> r | Known k \<Rightarrow> [])
         @ vfail (le_reservation e \<noteq> expected_reservation R e) (Some (le_sequence e))
           ''reservation_mismatch'' (''expected='' @ rv_repr (expected_reservation R e))
         @ vfail (le_applied e \<noteq> expected_applied \<or> le_reason e \<noteq> expected_reason)
           (Some (le_sequence e)) ''decision_mismatch'' (decision_repr expected_applied expected_reason)
         @ vfail (le_post_snapshot e \<noteq> replayed) (Some (le_sequence e))
           ''post_snapshot_mismatch'' ''event post-state is not replayable''
         @ vfail (\<not> rv_fits_within committed capacity) (Some (le_sequence e)) ''cap_breach''
           (''committed='' @ rv_dict_repr committed)
         @ vfail (bs_available replayed \<noteq> rv_available capacity committed) (Some (le_sequence e))
           ''negative_or_hidden_balance'' ''available balance mismatch'')"

definition replay_step :: "resource_vector \<Rightarrow> nat \<Rightarrow> replay_state \<Rightarrow> ledger_event \<Rightarrow> replay_state" where
  "replay_step capacity position R e =
     (let R' = snd (snd (replay_decide capacity position R e))
      in R'\<lparr>rs_seen := le_event_id e # rs_seen R,
            rs_failures := rs_failures R
              @ identity_failures position (rs_seen R) e
              @ decision_failures capacity position R e\<rparr>)"

text \<open>The loop \<open>for position, event in enumerate(event_tuple, start=1)\<close>.\<close>

fun replay_loop :: "resource_vector \<Rightarrow> nat \<Rightarrow> replay_state \<Rightarrow> ledger_event list \<Rightarrow> replay_state" where
  "replay_loop capacity position R [] = R"
| "replay_loop capacity position R (e # es) =
     replay_loop capacity (Suc position) (replay_step capacity position R e) es"

definition replay_and_verify ::
  "resource_vector \<Rightarrow> ledger_event list \<Rightarrow> budget_snapshot option \<Rightarrow> int option \<Rightarrow> replay_report" where
  "replay_and_verify capacity events claimed seed =
     (let R = replay_loop capacity 1 replay_init events;
          final = snapshot_from_replay capacity R (length events);
          failures = rs_failures R
            @ vfail (claimed \<noteq> None \<and> claimed \<noteq> Some final) None ''claimed_snapshot_mismatch''
                ''claimed final state differs from replay''
      in \<lparr>rr_passed = (failures = []),
          rr_seed = seed,
          rr_event_count = length events,
          rr_trace_digest = event_log_digest events,
          rr_replayed_snapshot = final,
          rr_failures = failures\<rparr>)"

section \<open>Arithmetic of resource vectors\<close>

named_theorems rv_simps "the components of sums of resource vectors"

lemma rv_eq_iff [rv_simps]:
  "a = b \<longleftrightarrow> rv_tokens a = rv_tokens b \<and> rv_cost_microusd a = rv_cost_microusd b
     \<and> rv_context_bytes a = rv_context_bytes (b::resource_vector)"
  by (cases a; cases b) auto

lemma rv_add_fields [rv_simps]:
  "rv_tokens (rv_add a b) = rv_tokens a + rv_tokens b"
  "rv_cost_microusd (rv_add a b) = rv_cost_microusd a + rv_cost_microusd b"
  "rv_context_bytes (rv_add a b) = rv_context_bytes a + rv_context_bytes b"
  by (simp_all add: rv_add_def)

lemma rv_zero_fields [rv_simps]:
  "rv_tokens rv_zero = 0" "rv_cost_microusd rv_zero = 0" "rv_context_bytes rv_zero = 0"
  by (simp_all add: rv_zero_def)

lemma rv_add_zero [simp]: "rv_add a rv_zero = a"
  by (simp add: rv_simps)

lemma rv_add_assoc: "rv_add (rv_add a b) c = rv_add a (rv_add b c)"
  by (simp add: rv_simps)

lemma foldl_rv_add:
  "rv_tokens (foldl rv_add z rs) = rv_tokens z + sum_list (map rv_tokens rs)"
  "rv_cost_microusd (foldl rv_add z rs) = rv_cost_microusd z + sum_list (map rv_cost_microusd rs)"
  "rv_context_bytes (foldl rv_add z rs) = rv_context_bytes z + sum_list (map rv_context_bytes rs)"
  by (induction rs arbitrary: z) (simp_all add: rv_simps)

lemma sum_resources_fields [rv_simps]:
  "rv_tokens (sum_resources rs) = sum_list (map rv_tokens rs)"
  "rv_cost_microusd (sum_resources rs) = sum_list (map rv_cost_microusd rs)"
  "rv_context_bytes (sum_resources rs) = sum_list (map rv_context_bytes rs)"
  by (simp_all add: sum_resources_def foldl_rv_add rv_simps)

lemma sum_resources_append: "sum_resources (rs @ [r]) = rv_add (sum_resources rs) r"
  by (simp add: rv_simps)

lemma sum_resources_ddel:
  assumes "dict_ok d" and "dget d k = Some v"
  shows "sum_resources (dvalues d) = rv_add v (sum_resources (dvalues (ddel k d)))"
  by (simp only: rv_simps ddel_sum_nat [OF assms])

lemma rv_fits_trans: "rv_fits_within a b \<Longrightarrow> rv_fits_within b c \<Longrightarrow> rv_fits_within a c"
  by (auto simp: rv_fits_within_def)

text \<open>Subtraction never raises once the fit is checked, and undoes addition.\<close>

lemma rv_subtract_Inr:
  "rv_fits_within b a \<Longrightarrow>
   rv_subtract a b = Inr \<lparr>rv_tokens = rv_tokens a - rv_tokens b,
     rv_cost_microusd = rv_cost_microusd a - rv_cost_microusd b,
     rv_context_bytes = rv_context_bytes a - rv_context_bytes b\<rparr>"
  by (auto simp: rv_subtract_def rv_fits_within_def mk_resource_vector_def)

lemma rv_available_fits:
  "rv_fits_within b a \<Longrightarrow> rv_subtract a b = Inr (rv_available a b)"
  by (simp add: rv_available_def rv_subtract_Inr)

lemma rv_add_available: "rv_fits_within b a \<Longrightarrow> rv_add b (rv_available a b) = a"
  by (auto simp: rv_available_def rv_subtract_Inr rv_simps rv_fits_within_def)

lemma rv_fits_available:
  "rv_fits_within c a \<Longrightarrow> rv_fits_within r (rv_available a c) \<Longrightarrow> rv_fits_within (rv_add c r) a"
  by (auto simp: rv_available_def rv_subtract_Inr rv_simps rv_fits_within_def)

section \<open>The ledger invariant\<close>

definition ledger_committed :: "ledger \<Rightarrow> resource_vector" where
  "ledger_committed L = rv_add (ld_spent L) (sum_resources (dvalues (ld_active L)))"

definition ledger_ok :: "ledger \<Rightarrow> bool" where
  "ledger_ok L \<longleftrightarrow>
     dict_ok (ld_active L) \<and> dict_ok (ld_terminal L)
     \<and> (\<forall>a. dmem a (ld_active L) \<longrightarrow> \<not> dmem a (ld_terminal L))
     \<and> rv_fits_within (ledger_committed L) (ld_capacity L)"

lemma ledger_ok_init: "ledger_ok (ledger_init capacity)"
  by (simp add: ledger_ok_def ledger_init_def ledger_committed_def sum_resources_def rv_fits_within_def rv_simps)

text \<open>What the snapshot of a conserving ledger is; the internal check never fires.\<close>

definition ledger_view :: "ledger \<Rightarrow> nat \<Rightarrow> budget_snapshot" where
  "ledger_view L n =
     \<lparr>bs_capacity = ld_capacity L, bs_spent = ld_spent L,
      bs_held = sum_resources (dvalues (ld_active L)),
      bs_available = rv_available (ld_capacity L) (ledger_committed L),
      bs_active_attempts = length (ld_active L), bs_terminal_attempts = length (ld_terminal L),
      bs_last_sequence = n\<rparr>"

lemma ledger_snapshot_at_ok: "ledger_ok L \<Longrightarrow> ledger_snapshot_at L n = Inr (ledger_view L n)"
  by (simp add: ledger_ok_def ledger_snapshot_at_def ledger_view_def ledger_committed_def rv_available_fits Let_def)

lemma ledger_snapshot_ok: "ledger_ok L \<Longrightarrow> ledger_snapshot L = Inr (ledger_view L (length (ld_events L)))"
  by (simp add: ledger_snapshot_def ledger_snapshot_at_ok)

definition ledger_event_of ::
  "ledger \<Rightarrow> ledger_operation \<Rightarrow> string \<Rightarrow> resource_vector option \<Rightarrow> resource_vector option \<Rightarrow>
   bool \<Rightarrow> string option \<Rightarrow> ledger_event" where
  "ledger_event_of L oper a reservation actual applied reason =
     \<lparr>le_sequence = int (Suc (length (ld_events L))), le_event_id = event_id_of (Suc (length (ld_events L))),
      le_operation = Known oper, le_attempt_id = a, le_reservation = reservation, le_actual = actual,
      le_applied = applied, le_reason = reason,
      le_post_snapshot = ledger_view L (Suc (length (ld_events L)))\<rparr>"

lemma ledger_record_ok:
  "ledger_ok L \<Longrightarrow> ledger_record L oper a reservation actual applied reason =
     (Inr (ledger_event_of L oper a reservation actual applied reason),
      L\<lparr>ld_events := ld_events L @ [ledger_event_of L oper a reservation actual applied reason]\<rparr>)"
  by (simp add: ledger_record_def ledger_snapshot_at_ok ledger_event_of_def Let_def)

lemma ledger_ok_events [simp]: "ledger_ok (L\<lparr>ld_events := es\<rparr>) = ledger_ok L"
  by (simp add: ledger_ok_def ledger_committed_def)

text \<open>The four state changes keep the invariant.\<close>

lemma ledger_ok_refuse:
  "ledger_ok L \<Longrightarrow> \<not> dmem a (ld_active L) \<Longrightarrow> ledger_ok (L\<lparr>ld_terminal := dset a s (ld_terminal L)\<rparr>)"
  by (auto simp: ledger_ok_def ledger_committed_def dict_simps)

lemma ledger_ok_admit:
  assumes "ledger_ok L" and "\<not> dmem a (ld_active L)" and "\<not> dmem a (ld_terminal L)"
    and "rv_fits_within r (rv_available (ld_capacity L) (ledger_committed L))"
  shows "ledger_ok (L\<lparr>ld_active := dset a r (ld_active L)\<rparr>)"
proof -
  have "ledger_committed (L\<lparr>ld_active := dset a r (ld_active L)\<rparr>) = rv_add (ledger_committed L) r"
    using assms(2) by (simp add: ledger_committed_def dset_fresh sum_resources_append rv_add_assoc)
  with assms show ?thesis
    by (auto simp: ledger_ok_def dict_simps rv_fits_available simp del: dset_fresh)
qed

lemma ledger_ok_release:
  assumes ok: "ledger_ok L" and get: "dget (ld_active L) a = Some r" and fits: "rv_fits_within u r"
  shows "ledger_ok (L\<lparr>ld_spent := rv_add (ld_spent L) u, ld_active := ddel a (ld_active L),
    ld_terminal := dset a s (ld_terminal L)\<rparr>)"
proof -
  from ok get have "sum_resources (dvalues (ld_active L)) = rv_add r (sum_resources (dvalues (ddel a (ld_active L))))"
    by (auto simp: ledger_ok_def intro: sum_resources_ddel)
  with ok fits show ?thesis
    by (auto simp: ledger_ok_def ledger_committed_def dict_simps rv_fits_within_def rv_simps)
qed

lemma ledger_ok_cancel:
  assumes "ledger_ok L" and "dget (ld_active L) a = Some r"
  shows "ledger_ok (L\<lparr>ld_active := ddel a (ld_active L), ld_terminal := dset a s (ld_terminal L)\<rparr>)"
proof -
  have "rv_fits_within rv_zero r" by (simp add: rv_fits_within_def rv_simps)
  from ledger_ok_release [OF assms this, of s] show ?thesis by (simp add: ledger_ok_def ledger_committed_def rv_simps)
qed

text \<open>The operations of a conserving ledger, each as the event it emits and the state it leaves.\<close>

lemma ledger_view_available [simp]:
  "bs_available (ledger_view L n) = rv_available (ld_capacity L) (ledger_committed L)"
  by (simp add: ledger_view_def)

lemma ledger_reserve_ok:
  assumes "ledger_ok L" and "\<not> py_blank a"
  shows "ledger_reserve L a r =
     (if dmem a (ld_active L) \<or> dmem a (ld_terminal L) then
        ledger_record L RESERVE a (Some r) None False (Some ''identity_conflict'')
      else if \<not> rv_fits_within r (rv_available (ld_capacity L) (ledger_committed L)) then
        ledger_record (L\<lparr>ld_terminal := dset a ''reservation_refused'' (ld_terminal L)\<rparr>)
          RESERVE a (Some r) None False (Some ''capacity_exceeded'')
      else ledger_record (L\<lparr>ld_active := dset a r (ld_active L)\<rparr>) RESERVE a (Some r) None True None)"
  using assms by (simp add: ledger_reserve_def ledger_snapshot_ok)

text \<open>The shape of a call's event, independent of the ledger's decision.\<close>

primrec call_id :: "ledger_call \<Rightarrow> string" where
  "call_id (Reserve a r) = a"
| "call_id (Settle a u) = a"
| "call_id (Cancel a) = a"

primrec call_operation :: "ledger_call \<Rightarrow> ledger_operation" where
  "call_operation (Reserve a r) = RESERVE"
| "call_operation (Settle a u) = SETTLE"
| "call_operation (Cancel a) = CANCEL"

primrec call_reservation :: "ledger \<Rightarrow> ledger_call \<Rightarrow> resource_vector option" where
  "call_reservation L (Reserve a r) = Some r"
| "call_reservation L (Settle a u) = dget (ld_active L) a"
| "call_reservation L (Cancel a) = dget (ld_active L) a"

primrec call_actual :: "ledger_call \<Rightarrow> resource_vector option" where
  "call_actual (Reserve a r) = None"
| "call_actual (Settle a u) = Some u"
| "call_actual (Cancel a) = None"

definition event_is :: "ledger \<Rightarrow> ledger_call \<Rightarrow> ledger_event \<Rightarrow> bool" where
  "event_is L c e \<longleftrightarrow>
     le_operation e = Known (call_operation c) \<and> le_attempt_id e = call_id c
     \<and> le_reservation e = call_reservation L c \<and> le_actual e = call_actual c"

text \<open>A replay state that agrees with a ledger, and the replay state a ledger determines.\<close>

definition mirrors :: "ledger \<Rightarrow> replay_state \<Rightarrow> bool" where
  "mirrors L R \<longleftrightarrow> rs_spent R = ld_spent L \<and> rs_active R = ld_active L \<and> rs_terminal R = ld_terminal L"

definition mirror :: "ledger \<Rightarrow> replay_state \<Rightarrow> replay_state" where
  "mirror L R = R\<lparr>rs_spent := ld_spent L, rs_active := ld_active L, rs_terminal := ld_terminal L\<rparr>"

lemma mirror_fields [simp]:
  "rs_failures (mirror L R) = rs_failures R" "rs_seen (mirror L R) = rs_seen R"
  "rs_spent (mirror L R) = ld_spent L" "rs_active (mirror L R) = ld_active L"
  "rs_terminal (mirror L R) = ld_terminal L"
  by (simp_all add: mirror_def)

lemma mirror_self: "mirrors L R \<Longrightarrow> mirror L R = R"
  by (simp add: mirrors_def mirror_def)

lemma snapshot_from_mirror:
  "mirrors L R \<Longrightarrow> snapshot_from_replay (ld_capacity L) R n = ledger_view L n"
  by (simp add: mirrors_def snapshot_from_replay_def ledger_view_def ledger_committed_def Let_def)

text \<open>
  One call of a conserving ledger, in one statement: the state it leaves keeps the invariant, and
  the replay derives the same decision and the same state from the inputs of the event alone.
\<close>

definition ledger_effect :: "ledger \<Rightarrow> ledger_call \<Rightarrow> ledger \<Rightarrow> bool \<Rightarrow> string option \<Rightarrow> bool" where
  "ledger_effect L c L' applied reason \<longleftrightarrow>
     ledger_ok L' \<and> ld_events L' = ld_events L \<and> ld_capacity L' = ld_capacity L
     \<and> ledger_step L c = ledger_record L' (call_operation c) (call_id c) (call_reservation L c)
          (call_actual c) applied reason
     \<and> (\<forall>R e. mirrors L R \<longrightarrow> event_is L c e \<longrightarrow>
          replay_decide (ld_capacity L) (Suc (length (ld_events L))) R e = (applied, reason, mirror L' R))"

lemma replay_reserve_available:
  "mirrors L R \<Longrightarrow> bs_available (snapshot_from_replay (ld_capacity L) R n)
     = rv_available (ld_capacity L) (ledger_committed L)"
  by (simp add: snapshot_from_mirror)

lemmas effect_defs = ledger_effect_def event_is_def replay_decide_def replay_reserve_def
  replay_settle_def replay_cancel_def replay_missing_def missing_reason_def

lemma reserve_effect:
  assumes ok: "ledger_ok L" and id: "\<not> py_blank a"
  shows "\<exists>L' applied reason. ledger_effect L (Reserve a r) L' applied reason"
proof -
  let ?avail = "rv_available (ld_capacity L) (ledger_committed L)"
  note eq = ledger_reserve_ok [OF ok id, of r]
  consider "dmem a (ld_active L) \<or> dmem a (ld_terminal L)"
    | "\<not> dmem a (ld_active L)" "\<not> dmem a (ld_terminal L)" "\<not> rv_fits_within r ?avail"
    | "\<not> dmem a (ld_active L)" "\<not> dmem a (ld_terminal L)" "rv_fits_within r ?avail"
    by blast
  then show ?thesis
  proof cases
    case 1
    then have "ledger_effect L (Reserve a r) L False (Some ''identity_conflict'')"
      by (auto simp: effect_defs eq ok mirror_self) (auto simp: mirrors_def)
    then show ?thesis by blast
  next
    case 2
    then have "ledger_effect L (Reserve a r) (L\<lparr>ld_terminal := dset a ''reservation_refused'' (ld_terminal L)\<rparr>)
        False (Some ''capacity_exceeded'')"
      by (auto simp: effect_defs eq replay_reserve_available ledger_ok_refuse [OF ok])
         (auto simp: mirrors_def mirror_def)
    then show ?thesis by blast
  next
    case 3
    then have "ledger_effect L (Reserve a r) (L\<lparr>ld_active := dset a r (ld_active L)\<rparr>) True None"
      by (auto simp: effect_defs eq replay_reserve_available ledger_ok_admit [OF ok])
         (auto simp: mirrors_def mirror_def)
    then show ?thesis by blast
  qed
qed

lemma settle_effect:
  assumes ok: "ledger_ok L" and id: "\<not> py_blank a"
  shows "\<exists>L' applied reason. ledger_effect L (Settle a u) L' applied reason"
proof (cases "dget (ld_active L) a")
  case None
  then have "ledger_effect L (Settle a u) L False (Some (missing_reason L a))"
    using id by (auto simp: effect_defs ledger_settle_def ok mirror_self mirrors_def)
  then show ?thesis by blast
next
  case (Some r)
  show ?thesis
  proof (cases "rv_fits_within u r")
    case False
    with Some have "ledger_effect L (Settle a u) L False (Some ''actual_over_reservation'')"
      using id by (auto simp: effect_defs ledger_settle_def ok mirror_self mirrors_def)
    then show ?thesis by blast
  next
    case True
    with Some have "ledger_effect L (Settle a u) (L\<lparr>ld_spent := rv_add (ld_spent L) u,
        ld_active := ddel a (ld_active L), ld_terminal := dset a ''settled'' (ld_terminal L)\<rparr>) True None"
      using id by (auto simp: effect_defs ledger_settle_def ledger_ok_release [OF ok] mirror_def mirrors_def)
    then show ?thesis by blast
  qed
qed

lemma cancel_effect:
  assumes ok: "ledger_ok L" and id: "\<not> py_blank a"
  shows "\<exists>L' applied reason. ledger_effect L (Cancel a) L' applied reason"
proof (cases "dget (ld_active L) a")
  case None
  then have "ledger_effect L (Cancel a) L False (Some (missing_reason L a))"
    using id by (auto simp: effect_defs ledger_cancel_def ok mirror_self mirrors_def)
  then show ?thesis by blast
next
  case (Some r)
  then have "ledger_effect L (Cancel a) (L\<lparr>ld_active := ddel a (ld_active L),
      ld_terminal := dset a ''cancelled'' (ld_terminal L)\<rparr>) True None"
    using id by (auto simp: effect_defs ledger_cancel_def ledger_ok_cancel [OF ok] mirror_def mirrors_def)
  then show ?thesis by blast
qed

lemma ledger_step_effect:
  assumes "ledger_ok L" and "\<not> py_blank (call_id c)"
  shows "\<exists>L' applied reason. ledger_effect L c L' applied reason"
  using assms by (cases c) (simp_all add: reserve_effect settle_effect cancel_effect)

lemma ledger_step_blank: "py_blank (call_id c) \<Longrightarrow> ledger_step L c = (Inl attempt_id_error, L)"
  by (cases c) (simp_all add: ledger_reserve_def ledger_settle_def ledger_cancel_def)

text \<open>The event a call emits, as a function of its effect.\<close>

definition effect_event :: "ledger \<Rightarrow> ledger_call \<Rightarrow> ledger \<Rightarrow> bool \<Rightarrow> string option \<Rightarrow> ledger_event" where
  "effect_event L c L' applied reason =
     ledger_event_of L' (call_operation c) (call_id c) (call_reservation L c) (call_actual c) applied reason"

lemma ledger_step_event:
  "ledger_effect L c L' applied reason \<Longrightarrow>
   ledger_step L c = (Inr (effect_event L c L' applied reason),
     L'\<lparr>ld_events := ld_events L @ [effect_event L c L' applied reason]\<rparr>)"
  by (simp add: ledger_effect_def ledger_record_ok effect_event_def)

lemma ledger_step_keeps_ok: "ledger_ok L \<Longrightarrow> ledger_ok (snd (ledger_step L c))"
  using ledger_step_effect [of L c]
  by (cases "py_blank (call_id c)") (auto simp: ledger_step_blank ledger_record_ok ledger_effect_def)

lemma ledger_step_capacity: "ledger_ok L \<Longrightarrow> ld_capacity (snd (ledger_step L c)) = ld_capacity L"
  using ledger_step_effect [of L c]
  by (cases "py_blank (call_id c)") (auto simp: ledger_step_blank ledger_record_ok ledger_effect_def)

lemma ledger_run_keeps:
  "ledger_ok L \<Longrightarrow> ledger_ok (ledger_run L cs) \<and> ld_capacity (ledger_run L cs) = ld_capacity L"
  by (induction cs arbitrary: L) (simp_all add: ledger_step_keeps_ok ledger_step_capacity)

lemma ledger_run_ok: "ledger_ok (ledger_run (ledger_init capacity) cs)"
  using ledger_run_keeps [OF ledger_ok_init] by simp

lemma ledger_run_capacity: "ld_capacity (ledger_run (ledger_init capacity) cs) = capacity"
  using ledger_run_keeps [OF ledger_ok_init] by (simp add: ledger_init_def)

lemma ledger_run_foldl: "ledger_run L cs = foldl (\<lambda>L c. snd (ledger_step L c)) L cs"
  by (induction cs arbitrary: L) auto

section \<open>The replay simulates the ledger\<close>

text \<open>The replay loop as a fold over a pair of the position and the replay state.\<close>

definition replay_audit ::
  "resource_vector \<Rightarrow> nat \<times> replay_state \<Rightarrow> ledger_event \<Rightarrow> nat \<times> replay_state" where
  "replay_audit capacity = (\<lambda>(position, R) e. (Suc position, replay_step capacity position R e))"

lemma replay_loop_foldl:
  "replay_loop capacity position R es = snd (foldl (replay_audit capacity) (position, R) es)"
  by (induction es arbitrary: position R) (simp_all add: replay_audit_def)

definition replay_sim :: "resource_vector \<Rightarrow> ledger \<Rightarrow> nat \<times> replay_state \<Rightarrow> bool" where
  "replay_sim capacity L = (\<lambda>(position, R).
     ld_capacity L = capacity \<and> position = Suc (length (ld_events L)) \<and> mirrors L R
     \<and> set (rs_seen R) = event_id_of ` {1..length (ld_events L)} \<and> rs_failures R = [])"

lemma event_id_inj [simp]: "event_id_of m = event_id_of n \<longleftrightarrow> m = n"
  by (simp add: event_id_of_def)

lemma vfail_Nil [simp]: "vfail b n c d = [] \<longleftrightarrow> \<not> b"
  by (simp add: vfail_def)

lemma snapshot_from_replay_available:
  "bs_available (snapshot_from_replay capacity R n)
     = rv_available capacity (rv_add (bs_spent (snapshot_from_replay capacity R n))
         (bs_held (snapshot_from_replay capacity R n)))"
  by (simp add: snapshot_from_replay_def Let_def)

text \<open>An event passes all checks exactly when it is the event the mirrored ledger emits.\<close>

lemma replay_step_clean_iff:
  assumes sim: "replay_sim capacity L (position, R)" and id: "\<not> py_blank (call_id c)"
    and eff: "ledger_effect L c L' applied reason" and is_e: "event_is L c e"
  shows "rs_failures (replay_step capacity position R e) = []
     \<longleftrightarrow> e = effect_event L c L' applied reason"
proof -
  from sim have cap: "capacity = ld_capacity L" and pos: "position = Suc (length (ld_events L))"
    and mir: "mirrors L R" and seen: "set (rs_seen R) = event_id_of ` {1..length (ld_events L)}"
    and nofail: "rs_failures R = []" by (simp_all add: replay_sim_def)
  from eff mir is_e cap pos have dec: "replay_decide capacity position R e = (applied, reason, mirror L' R)"
    and cap': "ld_capacity L' = capacity" and ev': "ld_events L' = ld_events L" and ok': "ledger_ok L'"
    by (auto simp: ledger_effect_def)
  have mir': "mirrors L' (mirror L' R)" by (simp add: mirrors_def mirror_def)
  have snap: "snapshot_from_replay capacity (mirror L' R) position = ledger_view L' position"
    using snapshot_from_mirror [OF mir'] cap' by simp
  have fits: "rv_fits_within (rv_add (bs_spent (ledger_view L' position)) (bs_held (ledger_view L' position))) capacity"
    using ok' cap' by (simp add: ledger_ok_def ledger_view_def ledger_committed_def)
  have avail: "bs_available (ledger_view L' position)
      = rv_available capacity (rv_add (bs_spent (ledger_view L' position)) (bs_held (ledger_view L' position)))"
    using snapshot_from_replay_available [of capacity "mirror L' R" position] by (simp add: snap)
  have exp: "expected_reservation R e = call_reservation L c"
    using is_e mir by (cases c) (simp_all add: expected_reservation_def event_is_def mirrors_def)
  have fresh: "event_id_of position \<notin> set (rs_seen R)" by (auto simp: seen pos)
  have "rs_failures (replay_step capacity position R e) = [] \<longleftrightarrow>
      le_sequence e = int position \<and> le_event_id e = event_id_of position
      \<and> le_applied e = applied \<and> le_reason e = reason \<and> le_post_snapshot e = ledger_view L' position"
    using is_e id fits avail fresh
    by (auto simp: replay_step_def Let_def dec snap identity_failures_def decision_failures_def
        is_foreign_def event_is_def exp nofail)
  also have "\<dots> \<longleftrightarrow> e = effect_event L c L' applied reason"
    using is_e by (cases e) (auto simp: effect_event_def ledger_event_of_def event_is_def pos ev')
  finally show ?thesis .
qed

lemma replay_step_sim:
  assumes sim: "replay_sim capacity L (position, R)" and id: "\<not> py_blank (call_id c)"
    and eff: "ledger_effect L c L' applied reason"
  shows "replay_sim capacity (snd (ledger_step L c))
    (replay_audit capacity (position, R) (effect_event L c L' applied reason))"
proof -
  let ?e = "effect_event L c L' applied reason"
  have is_e: "event_is L c ?e" by (simp add: event_is_def effect_event_def ledger_event_of_def)
  have clean: "rs_failures (replay_step capacity position R ?e) = []"
    by (simp add: replay_step_clean_iff [OF sim id eff is_e])
  from sim eff is_e have "replay_decide capacity position R ?e = (applied, reason, mirror L' R)"
    by (auto simp: ledger_effect_def replay_sim_def)
  with clean sim eff show ?thesis
    by (auto simp: replay_sim_def replay_audit_def ledger_step_event [OF eff] ledger_effect_def replay_step_def
        Let_def mirrors_def effect_event_def ledger_event_of_def atLeastAtMostSuc_conv)
qed

lemma replay_sim_init: "replay_sim capacity (ledger_init capacity) (1, replay_init)"
  by (simp add: replay_sim_def ledger_init_def replay_init_def mirrors_def)

text \<open>The call behind an event that passes the checks.\<close>

definition wellformed_event :: "ledger_event \<Rightarrow> bool" where
  "wellformed_event e \<longleftrightarrow> le_reason e \<noteq> Some ''malformed_input''"

lemma replay_clean_parts:
  assumes "rs_failures (replay_step capacity position R e) = []"
  shows "rs_failures R = []" and "\<not> py_blank (le_attempt_id e)" and "\<not> is_foreign (le_operation e)"
    and "le_reservation e = expected_reservation R e"
    and "le_reason e = fst (snd (replay_decide capacity position R e))"
  using assms
  by (auto simp: replay_step_def identity_failures_def decision_failures_def Let_def split: prod.splits)

lemma event_call_exists:
  assumes sim: "replay_sim capacity L (position, R)" and wf: "wellformed_event e"
    and clean: "rs_failures (replay_step capacity position R e) = []"
  shows "\<exists>c. \<not> py_blank (call_id c) \<and> event_is L c e"
proof -
  note parts = replay_clean_parts [OF clean]
  from sim have mir: "mirrors L R" by (simp add: replay_sim_def)
  from parts(3) obtain k where k: "le_operation e = Known k"
    by (cases "le_operation e") (auto simp: is_foreign_def)
  show ?thesis
  proof (cases k)
    case RESERVE
    with k wf parts(5) obtain r where "le_reservation e = Some r" "le_actual e = None"
      by (auto simp: replay_decide_def replay_reserve_def wellformed_event_def split: option.splits if_splits)
    with RESERVE k parts(2) show ?thesis
      by (intro exI [of _ "Reserve (le_attempt_id e) r"]) (simp add: event_is_def)
  next
    case SETTLE
    with k wf parts(5) obtain u where "le_actual e = Some u"
      by (auto simp: replay_decide_def replay_settle_def wellformed_event_def split: option.splits)
    with SETTLE k parts(2,4) mir show ?thesis
      by (intro exI [of _ "Settle (le_attempt_id e) u"]) (simp add: event_is_def expected_reservation_def mirrors_def)
  next
    case CANCEL
    with k wf parts(5) have "le_actual e = None"
      by (auto simp: replay_decide_def replay_cancel_def wellformed_event_def split: if_splits)
    with CANCEL k parts(2,4) mir show ?thesis
      by (intro exI [of _ "Cancel (le_attempt_id e)"]) (simp add: event_is_def expected_reservation_def mirrors_def)
  qed
qed

lemma replay_emit:
  assumes ok: "ledger_ok L" and sim: "replay_sim capacity L r" and wf: "wellformed_event e"
    and clean: "rs_failures (snd (replay_audit capacity r e)) = []"
  shows "\<exists>c. ld_events (snd (ledger_step L c)) = ld_events L @ [e]
    \<and> replay_sim capacity (snd (ledger_step L c)) (replay_audit capacity r e)"
proof -
  obtain position R where r: "r = (position, R)" by (cases r)
  from clean r have clean': "rs_failures (replay_step capacity position R e) = []"
    by (simp add: replay_audit_def)
  from event_call_exists [OF sim [unfolded r] wf clean'] obtain c where
    c: "\<not> py_blank (call_id c)" "event_is L c e" by blast
  from ledger_step_effect [OF ok c(1)] obtain L' applied reason where
    eff: "ledger_effect L c L' applied reason" by blast
  from replay_step_clean_iff [OF sim [unfolded r] c(1) eff c(2)] clean'
  have e: "e = effect_event L c L' applied reason" by simp
  have "ld_events (snd (ledger_step L c)) = ld_events L @ [e]"
    by (simp add: ledger_step_event [OF eff] e)
  moreover have "replay_sim capacity (snd (ledger_step L c)) (replay_audit capacity r e)"
    using replay_step_sim [OF sim [unfolded r] c(1) eff] by (simp add: r e)
  ultimately show ?thesis by blast
qed

lemma replay_audit_step:
  assumes ok: "ledger_ok L" and sim: "replay_sim capacity L r"
  shows "\<exists>es. ld_events (snd (ledger_step L c)) = ld_events L @ es
    \<and> replay_sim capacity (snd (ledger_step L c)) (foldl (replay_audit capacity) r es)"
proof (cases "py_blank (call_id c)")
  case True
  then show ?thesis using sim by (intro exI [of _ "[]"]) (simp add: ledger_step_blank)
next
  case False
  from ledger_step_effect [OF ok False] obtain L' applied reason where
    eff: "ledger_effect L c L' applied reason" by blast
  from sim replay_step_sim [OF _ False eff, of capacity "fst r" "snd r"] show ?thesis
    by (intro exI [of _ "[effect_event L c L' applied reason]"]) (simp add: ledger_step_event [OF eff])
qed

interpretation ledger_audit: sound_auditor
  "\<lambda>L c. snd (ledger_step L c)" ledger_ok ld_events "replay_audit capacity" "replay_sim capacity" "replay_sim capacity"
  "\<lambda>r. rs_failures (snd r) = []" wellformed_event
proof unfold_locales
  show "ledger_ok L \<Longrightarrow> ledger_ok (snd (ledger_step L c))" for L c
    by (rule ledger_step_keeps_ok)
  show "ledger_ok L \<Longrightarrow> replay_sim capacity L r \<Longrightarrow>
      \<exists>es. ld_events (snd (ledger_step L c)) = ld_events L @ es
        \<and> replay_sim capacity (snd (ledger_step L c)) (foldl (replay_audit capacity) r es)" for L r c
    by (rule replay_audit_step)
  show "rs_failures (snd (replay_audit capacity r e)) = [] \<Longrightarrow> rs_failures (snd r) = []" for r e
    by (auto simp: replay_audit_def split: prod.splits dest: replay_clean_parts(1))
  show "ledger_ok L \<Longrightarrow> replay_sim capacity L r \<Longrightarrow> wellformed_event e \<Longrightarrow>
      rs_failures (snd (replay_audit capacity r e)) = [] \<Longrightarrow>
      \<exists>c. ld_events (snd (ledger_step L c)) = ld_events L @ [e]
        \<and> replay_sim capacity (snd (ledger_step L c)) (replay_audit capacity r e)" for L r e
    by (rule replay_emit)
qed simp


lemma replay_report_sim:
  assumes "replay_sim capacity L (position, R)" and "foldl (replay_audit capacity) (1, replay_init) es = (position, R)"
    and "length es = length (ld_events L)"
  shows "rr_passed (replay_and_verify capacity es claimed seed) \<longleftrightarrow>
      claimed = None \<or> claimed = Some (ledger_view L (length es))"
    and "rr_replayed_snapshot (replay_and_verify capacity es claimed seed) = ledger_view L (length es)"
  using assms snapshot_from_mirror [of L R]
  by (auto simp: replay_and_verify_def replay_loop_foldl replay_sim_def Let_def)

section \<open>What the log says about the budget\<close>

text \<open>A charge is an applied settlement.\<close>

definition is_charge :: "ledger_event \<Rightarrow> bool" where
  "is_charge e \<longleftrightarrow> le_operation e = Known SETTLE \<and> le_applied e"

definition charges_ok :: "ledger \<Rightarrow> bool" where
  "charges_ok L \<longleftrightarrow> ledger_ok L
     \<and> ld_spent L = sum_resources (map (the \<circ> le_actual) (filter is_charge (ld_events L)))
     \<and> distinct (map le_attempt_id (filter is_charge (ld_events L)))
     \<and> (\<forall>e \<in> set (filter is_charge (ld_events L)). dmem (le_attempt_id e) (ld_terminal L))"

text \<open>A recorded decision that is no charge, and one that is.\<close>

lemma charges_ok_record:
  assumes "charges_ok L" and "ledger_ok L'" and "ld_events L' = ld_events L" and "ld_spent L' = ld_spent L"
    and "\<And>a. dmem a (ld_terminal L) \<Longrightarrow> dmem a (ld_terminal L')" and "oper \<noteq> SETTLE \<or> \<not> applied"
  shows "charges_ok (snd (ledger_record L' oper a res act applied reason))"
  using assms by (auto simp: charges_ok_def ledger_record_ok ledger_event_of_def is_charge_def)

lemma charges_ok_charge:
  assumes "charges_ok L" and "ledger_ok L'" and "ld_events L' = ld_events L"
    and "ld_spent L' = rv_add (ld_spent L) u" and "ld_terminal L' = dset a s (ld_terminal L)"
    and "\<not> dmem a (ld_terminal L)"
  shows "charges_ok (snd (ledger_record L' SETTLE a res (Some u) True reason))"
proof -
  have "a \<notin> le_attempt_id ` set (filter is_charge (ld_events L))"
    using assms(1,6) by (auto simp: charges_ok_def)
  then show ?thesis
    using assms
    by (auto simp: charges_ok_def ledger_record_ok ledger_event_of_def is_charge_def dmem_dset sum_resources_append)
qed

lemma ledger_ok_disjoint: "ledger_ok L \<Longrightarrow> dget (ld_active L) a = Some r \<Longrightarrow> \<not> dmem a (ld_terminal L)"
  by (auto simp: ledger_ok_def dest: dmem_Some)

lemma charges_ok_step:
  assumes ch: "charges_ok L"
  shows "charges_ok (snd (ledger_step L c))"
proof (cases "py_blank (call_id c)")
  case True
  then show ?thesis using ch by (simp add: ledger_step_blank)
next
  case False
  from ch have ok: "ledger_ok L" by (simp add: charges_ok_def)
  show ?thesis
  proof (cases c)
    case (Reserve a r)
    with False ch show ?thesis
      by (auto simp: ledger_reserve_ok [OF ok] dmem_dset ok
          intro!: charges_ok_record [OF ch] ledger_ok_refuse [OF ok] ledger_ok_admit [OF ok])
  next
    case (Settle a u)
    with False ch ok show ?thesis
      by (auto simp: ledger_settle_def ledger_ok_disjoint split: option.splits
          intro!: charges_ok_record [OF ch] charges_ok_charge [OF ch] ledger_ok_release [OF ok])
  next
    case (Cancel a)
    with False ch ok show ?thesis
      by (auto simp: ledger_cancel_def dmem_dset split: option.splits
          intro!: charges_ok_record [OF ch] ledger_ok_cancel [OF ok])
  qed
qed

interpretation charge_state: stateful "\<lambda>L c. snd (ledger_step L c)" charges_ok
  by unfold_locales (rule charges_ok_step)

lemma charges_ok_run: "charges_ok (ledger_run (ledger_init capacity) cs)"
  unfolding ledger_run_foldl
  by (rule charge_state.inv_run) (simp add: charges_ok_def ledger_ok_init, simp add: ledger_init_def sum_resources_def)

text \<open>A terminal attempt stays terminal, and no call on it is applied.\<close>

lemma ledger_step_terminal:
  "ledger_ok L \<Longrightarrow> dmem a (ld_terminal L) \<Longrightarrow> dmem a (ld_terminal (snd (ledger_step L c)))"
  by (cases c) (auto simp: ledger_reserve_def ledger_settle_def ledger_cancel_def ledger_record_def Let_def dmem_dset
      split: sum.splits option.splits)

lemma ledger_run_terminal:
  "ledger_ok L \<Longrightarrow> dmem a (ld_terminal L) \<Longrightarrow> ledger_ok (ledger_run L cs) \<and> dmem a (ld_terminal (ledger_run L cs))"
  by (induction cs arbitrary: L) (simp_all add: ledger_step_keeps_ok ledger_step_terminal)

lemma ledger_step_refused:
  assumes "ledger_ok L" and "dmem (call_id c) (ld_terminal L)" and "\<not> py_blank (call_id c)"
  shows "\<exists>e. fst (ledger_step L c) = Inr e \<and> \<not> le_applied e"
proof -
  from assms have "dget (ld_active L) (call_id c) = None"
    by (auto simp: ledger_ok_def dest: not_dmem_None)
  with assms show ?thesis
    by (cases c) (simp_all add: ledger_reserve_def ledger_settle_def ledger_cancel_def ledger_record_ok ledger_event_of_def)
qed

text \<open>The first reservation of a fresh ledger, when it exceeds the capacity.\<close>

lemma ledger_first_refused:
  assumes "\<not> py_blank a" and "\<not> rv_fits_within r capacity"
  shows "ld_terminal (ledger_run (ledger_init capacity) [Reserve a r]) = [(a, ''reservation_refused'')]"
    and "\<exists>e. ld_events (ledger_run (ledger_init capacity) [Reserve a r]) = [e]
      \<and> le_reason e = Some ''capacity_exceeded''"
proof -
  let ?L = "ledger_init capacity"
  let ?L' = "?L\<lparr>ld_terminal := dset a ''reservation_refused'' (ld_terminal ?L)\<rparr>"
  have f: "ld_active ?L = []" "ld_terminal ?L = []" "ld_events ?L = []" "ld_capacity ?L = capacity"
    by (simp_all add: ledger_init_def)
  have "\<not> rv_fits_within r (rv_available (ld_capacity ?L) (ledger_committed ?L))"
  proof
    assume "rv_fits_within r (rv_available (ld_capacity ?L) (ledger_committed ?L))"
    with rv_fits_available [of "ledger_committed ?L" "ld_capacity ?L" r] ledger_ok_init [of capacity]
    have "rv_fits_within (rv_add (ledger_committed ?L) r) capacity" by (simp add: ledger_ok_def f)
    with assms(2) show False by (simp add: rv_fits_within_def rv_simps)
  qed
  then have run: "ledger_run ?L [Reserve a r]
      = snd (ledger_record ?L' RESERVE a (Some r) None False (Some ''capacity_exceeded''))"
    by (simp add: ledger_reserve_ok [OF ledger_ok_init assms(1)] f)
  have ok: "ledger_ok ?L'" by (rule ledger_ok_refuse [OF ledger_ok_init]) (simp add: f)
  show "ld_terminal (ledger_run ?L [Reserve a r]) = [(a, ''reservation_refused'')]"
    by (simp only: run ledger_record_ok [OF ok]) (simp add: f)
  show "\<exists>e. ld_events (ledger_run ?L [Reserve a r]) = [e] \<and> le_reason e = Some ''capacity_exceeded''"
    by (simp only: run ledger_record_ok [OF ok]) (simp add: f ledger_event_of_def)
qed

lemma not_blank_a: "\<not> py_blank ''a''"
  by (simp add: py_blank_def py_space_def)

lemma over_zero: "\<not> rv_fits_within \<lparr>rv_tokens = 2, rv_cost_microusd = 2, rv_context_bytes = 0\<rparr> rv_zero"
  by (simp add: rv_fits_within_def rv_zero_def)

section \<open>Properties\<close>

text \<open>
  C31. The replay accepts exactly the ledger's own logs. For a log none of whose events carries the
  reason \<open>malformed_input\<close> (which the ledger never writes), \<open>replay_and_verify\<close> passes if and only
  if the log is what some sequence of \<open>reserve\<close>, \<open>settle\<close> and \<open>cancel\<close> calls on a fresh ledger of
  that capacity records. So no forged, reordered, duplicated or dropped event passes, and no
  genuine log is refused.
\<close>

theorem replay_accepts_exactly_runs:
  assumes "list_all wellformed_event es"
  shows "rr_passed (replay_and_verify capacity es None seed) \<longleftrightarrow>
    (\<exists>cs. es = ld_events (ledger_run (ledger_init capacity) cs))"
proof
  assume "rr_passed (replay_and_verify capacity es None seed)"
  then have "rs_failures (snd (foldl (replay_audit capacity) (1, replay_init) es)) = []"
    by (simp add: replay_and_verify_def replay_loop_foldl Let_def)
  from ledger_audit.accepted_is_run [OF ledger_ok_init replay_sim_init assms this] obtain cs where
    "ld_events (foldl (\<lambda>L c. snd (ledger_step L c)) (ledger_init capacity) cs) = es"
    by (auto simp: ledger_init_def)
  then show "\<exists>cs. es = ld_events (ledger_run (ledger_init capacity) cs)"
    by (auto simp: ledger_run_foldl)
next
  assume "\<exists>cs. es = ld_events (ledger_run (ledger_init capacity) cs)"
  then obtain cs where es: "es = ld_events (ledger_run (ledger_init capacity) cs)" ..
  let ?R = "foldl (replay_audit capacity) (1, replay_init) es"
  have "replay_sim capacity (ledger_run (ledger_init capacity) cs) (fst ?R, snd ?R)"
    using ledger_audit.audit_log [OF ledger_ok_init replay_sim_init, of capacity cs]
    by (simp add: es ledger_run_foldl ledger_init_def)
  from replay_report_sim(1) [OF this] show "rr_passed (replay_and_verify capacity es None seed)"
    by (simp add: es)
qed


theorem replay_accepts_exactly_runs_witness:
  "\<exists>e. rr_passed (replay_and_verify rv_zero [e] None None) \<longleftrightarrow>
    (\<exists>cs. [e] = ld_events (ledger_run (ledger_init rv_zero) cs))"
proof -
  from ledger_first_refused(2) [OF not_blank_a over_zero] obtain e :: ledger_event where "le_reason e = Some ''capacity_exceeded''"
    by blast
  then have "list_all wellformed_event [e]" by (simp add: wellformed_event_def)
  from replay_accepts_exactly_runs [OF this] show ?thesis by blast
qed

text \<open>
  C32. Conservation. Whatever calls a fresh ledger has served, its snapshot is defined (the internal
  conservation assertion cannot fire), spent, held and available add up to the capacity in every
  dimension, and the next call either records an event or raises the one \<open>ValueError\<close> for a
  blank attempt identifier.
\<close>

theorem ledger_run_conserves:
  "(\<exists>s. ledger_snapshot (ledger_run (ledger_init capacity) cs) = Inr s
      \<and> rv_add (rv_add (bs_spent s) (bs_held s)) (bs_available s) = capacity)
   \<and> (fst (ledger_step (ledger_run (ledger_init capacity) cs) c) = Inl attempt_id_error
      \<or> (\<exists>e. fst (ledger_step (ledger_run (ledger_init capacity) cs) c) = Inr e))"
proof -
  let ?L = "ledger_run (ledger_init capacity) cs"
  have ok: "ledger_ok ?L" by (rule ledger_run_ok)
  have cap: "ld_capacity ?L = capacity" by (rule ledger_run_capacity)
  have "rv_add (ledger_committed ?L) (rv_available capacity (ledger_committed ?L)) = capacity"
    using ok cap by (simp add: ledger_ok_def rv_add_available)
  then have "ledger_snapshot ?L = Inr (ledger_view ?L (length (ld_events ?L)))
      \<and> rv_add (rv_add (bs_spent (ledger_view ?L (length (ld_events ?L))))
          (bs_held (ledger_view ?L (length (ld_events ?L)))))
        (bs_available (ledger_view ?L (length (ld_events ?L)))) = capacity"
    using ok cap by (simp add: ledger_snapshot_ok ledger_view_def ledger_committed_def)
  moreover have "fst (ledger_step ?L c) = Inl attempt_id_error \<or> (\<exists>e. fst (ledger_step ?L c) = Inr e)"
    using ledger_step_effect [OF ok, of c]
    by (cases "py_blank (call_id c)") (auto simp: ledger_step_blank ledger_step_event)
  ultimately show ?thesis by blast
qed

text \<open>
  Nothing is charged twice or silently. The amount spent is the sum of the actual usages of the
  applied settlement events, and no attempt is charged by two of them.
\<close>

theorem ledger_spent_is_settled:
  fixes capacity cs
  defines "charges \<equiv> filter is_charge (ld_events (ledger_run (ledger_init capacity) cs))"
  shows "ld_spent (ledger_run (ledger_init capacity) cs) = sum_resources (map (the \<circ> le_actual) charges)
    \<and> distinct (map le_attempt_id charges)"
  using charges_ok_run [of capacity cs] by (simp add: charges_ok_def charges_def)

text \<open>
  A terminal attempt is final. Once an attempt has been settled, cancelled or refused, any later
  call on its identifier, after any other calls, is recorded as refused.
\<close>

theorem ledger_terminal_is_final:
  assumes "dmem (call_id c) (ld_terminal (ledger_run (ledger_init capacity) cs))" and "\<not> py_blank (call_id c)"
  shows "\<exists>e. fst (ledger_step (ledger_run (ledger_run (ledger_init capacity) cs) ds) c) = Inr e \<and> \<not> le_applied e"
proof -
  from ledger_run_terminal [OF ledger_run_ok assms(1), of ds]
  show ?thesis by (intro ledger_step_refused assms(2)) simp_all
qed

theorem ledger_terminal_is_final_witness:
  "\<exists>e. fst (ledger_step (ledger_run (ledger_run (ledger_init rv_zero)
      [Reserve ''a'' \<lparr>rv_tokens = 2, rv_cost_microusd = 2, rv_context_bytes = 0\<rparr>])
      [Reserve ''b'' rv_zero]) (Settle ''a'' rv_zero)) = Inr e \<and> \<not> le_applied e"
proof (rule ledger_terminal_is_final)
  show "dmem (call_id (Settle ''a'' rv_zero)) (ld_terminal (ledger_run (ledger_init rv_zero)
      [Reserve ''a'' \<lparr>rv_tokens = 2, rv_cost_microusd = 2, rv_context_bytes = 0\<rparr>]))"
    unfolding dmem_def call_id.simps ledger_first_refused(1) [OF not_blank_a over_zero] by simp
  show "\<not> py_blank (call_id (Settle ''a'' rv_zero))"
    unfolding call_id.simps by (rule not_blank_a)
qed

end
