(* ===== verification/Stress_Corpus.thy ===== *)
theory Stress_Corpus
  imports Complex_Main Resource_Ledger
begin

text \<open>
  \<open>resource_ledger.py\<close>, second part: the failure corpus of a replay report and
  \<open>generate_stress_corpus\<close>, the seeded workload that drives the ledger.

  The generator of \<open>random.Random\<close> is a parameter: a record of the three methods the source calls,
  each a function of the generator's state. \<open>rng_ok\<close> is the documented behaviour the code
  relies on: \<open>randint(a, b)\<close> lies between its bounds and \<open>choice\<close> picks an element.
\<close>

section \<open>Failure corpora\<close>

definition failure_as_dict :: "verification_failure \<Rightarrow> json" where
  "failure_as_dict f =
     JObj [(''sequence'', jopt JInt (vf_sequence f)), (''code'', JStr (vf_code f)), (''detail'', JStr (vf_detail f))]"

record failure_corpus =
  fc_seed :: "int option"
  fc_trace_digest :: string
  fc_failures :: "verification_failure list"

definition failure_corpus_as_dict :: "failure_corpus \<Rightarrow> json" where
  "failure_corpus_as_dict c =
     JObj [(''schema'', JStr ''finite-resource-ledger-failures/v1''),
           (''seed'', jopt JInt (fc_seed c)),
           (''trace_digest'', JStr (fc_trace_digest c)),
           (''failures'', JArr (map failure_as_dict (fc_failures c)))]"

definition failure_corpus_digest :: "failure_corpus \<Rightarrow> string" where
  "failure_corpus_digest c = content_digest (failure_corpus_as_dict c)"

definition report_failure_corpus :: "replay_report \<Rightarrow> failure_corpus" where
  "report_failure_corpus r =
     \<lparr>fc_seed = rr_seed r, fc_trace_digest = rr_trace_digest r, fc_failures = rr_failures r\<rparr>"

definition report_failure_digest :: "replay_report \<Rightarrow> string" where
  "report_failure_digest r = failure_corpus_digest (report_failure_corpus r)"

section \<open>The generator\<close>

record 'g rng =
  rng_randint :: "'g \<Rightarrow> nat \<Rightarrow> nat \<Rightarrow> nat \<times> 'g"
  rng_choice :: "'g \<Rightarrow> nat \<Rightarrow> nat \<times> 'g"
  rng_below :: "'g \<Rightarrow> rat \<Rightarrow> bool \<times> 'g"

definition rng_ok :: "'g rng \<Rightarrow> bool" where
  "rng_ok r \<longleftrightarrow>
     (\<forall>g a b. a \<le> b \<longrightarrow> a \<le> fst (rng_randint r g a b) \<and> fst (rng_randint r g a b) \<le> b)
     \<and> (\<forall>g n. 0 < n \<longrightarrow> fst (rng_choice r g n) < n)"

text \<open>\<open>rng.choice(xs)\<close> on a non-empty tuple, and three draws in the order of the arguments.\<close>

definition pick :: "'g rng \<Rightarrow> 'g \<Rightarrow> 'a list \<Rightarrow> 'a \<times> 'g" where
  "pick r g xs = (let (i, g') = rng_choice r g (length xs) in (xs ! i, g'))"

definition draw_vector :: "'g rng \<Rightarrow> 'g \<Rightarrow> nat \<Rightarrow> resource_vector \<Rightarrow> resource_vector \<times> 'g" where
  "draw_vector r g low hi =
     (let (t, g1) = rng_randint r g low (rv_tokens hi);
          (c, g2) = rng_randint r g1 low (rv_cost_microusd hi);
          (b, g3) = rng_randint r g2 low (rv_context_bytes hi)
      in (\<lparr>rv_tokens = t, rv_cost_microusd = c, rv_context_bytes = b\<rparr>, g3))"

definition random_reservation :: "'g rng \<Rightarrow> 'g \<Rightarrow> resource_vector \<times> 'g" where
  "random_reservation r g =
     draw_vector r g 1 \<lparr>rv_tokens = 4000, rv_cost_microusd = 8000, rv_context_bytes = 16000\<rparr>"

record 'g stress =
  st_ledger :: ledger
  st_counter :: nat
  st_peak :: nat
  st_rng :: 'g

definition stress_capacity :: resource_vector where
  "stress_capacity = \<lparr>rv_tokens = 20000000, rv_cost_microusd = 40000000, rv_context_bytes = 80000000\<rparr>"

definition attempt_name :: "nat \<Rightarrow> string" where
  "attempt_name n = ''attempt-'' @ zero_pad 8 (dec_string n)"

text \<open>A call on the ledger whose exception, if any, ends the generation.\<close>

definition stress_call :: "'g stress \<Rightarrow> ledger_call \<Rightarrow> py_error + 'g stress" where
  "stress_call s c =
     (case ledger_step (st_ledger s) c of
        (Inl e, L) \<Rightarrow> Inl e
      | (Inr ev, L) \<Rightarrow> Inr (s\<lparr>st_ledger := L\<rparr>))"

text \<open>\<open>next_attempt_id()\<close> followed by the reservation.\<close>

definition stress_reserve_next :: "'g stress \<Rightarrow> resource_vector \<Rightarrow> py_error + 'g stress" where
  "stress_reserve_next s v =
     (let s' = s\<lparr>st_counter := st_counter s + 1\<rparr>
      in stress_call s' (Reserve (attempt_name (st_counter s')) v))"

definition stress_reserve_random :: "'g rng \<Rightarrow> 'g stress \<Rightarrow> py_error + 'g stress" where
  "stress_reserve_random r s =
     (let s' = s\<lparr>st_counter := st_counter s + 1\<rparr>;
          (v, g) = random_reservation r (st_rng s)
      in stress_call (s'\<lparr>st_rng := g\<rparr>) (Reserve (attempt_name (st_counter s')) v))"

text \<open>Picking an active attempt and either settling it with a random usage or cancelling it.\<close>

definition stress_finish :: "'g rng \<Rightarrow> rat \<Rightarrow> 'g stress \<Rightarrow> py_error + 'g stress" where
  "stress_finish r threshold s =
     (let (a, g1) = pick r (st_rng s) (active_attempt_ids (st_ledger s));
          (settle, g2) = rng_below r g1 threshold
      in if settle then
           (case reservation_for (st_ledger s) a of
              None \<Rightarrow> Inl (AssertionError '''')
            | Some reservation \<Rightarrow>
                let (u, g3) = draw_vector r g2 0 reservation
                in stress_call (s\<lparr>st_rng := g3\<rparr>) (Settle a u))
         else stress_call (s\<lparr>st_rng := g2\<rparr>) (Cancel a))"

definition stress_over_settle :: "'g rng \<Rightarrow> 'g stress \<Rightarrow> py_error + 'g stress" where
  "stress_over_settle r s =
     (let (a, g) = pick r (st_rng s) (active_attempt_ids (st_ledger s))
      in case reservation_for (st_ledger s) a of
           None \<Rightarrow> Inl (AssertionError '''')
         | Some reservation \<Rightarrow>
             stress_call (s\<lparr>st_rng := g\<rparr>)
               (Settle a (reservation\<lparr>rv_tokens := rv_tokens reservation + 1\<rparr>)))"

definition stress_overflow :: "'g stress \<Rightarrow> py_error + 'g stress" where
  "stress_overflow s =
     (case ledger_snapshot (st_ledger s) of
        Inl e \<Rightarrow> Inl e
      | Inr snap \<Rightarrow>
          stress_reserve_next s
            \<lparr>rv_tokens = rv_tokens (bs_available snap) + 1, rv_cost_microusd = 0, rv_context_bytes = 0\<rparr>)"

definition stress_conflict :: "'g rng \<Rightarrow> 'g stress \<Rightarrow> py_error + 'g stress" where
  "stress_conflict r s =
     (let (a, g1) = pick r (st_rng s) (known_attempt_ids (st_ledger s));
          (v, g2) = random_reservation r g1
      in stress_call (s\<lparr>st_rng := g2\<rparr>) (Reserve a v))"

text \<open>The body of the loop, then the peak.\<close>

definition stress_action :: "'g rng \<Rightarrow> nat \<Rightarrow> 'g stress \<Rightarrow> py_error + 'g stress" where
  "stress_action r transition s =
     (let active_ids = active_attempt_ids (st_ledger s)
      in if transition mod 113 = 0 \<and> active_ids \<noteq> [] then stress_over_settle r s
         else if transition mod 127 = 0 then stress_overflow s
         else if transition mod 211 = 0 \<and> known_attempt_ids (st_ledger s) \<noteq> [] then stress_conflict r s
         else if length active_ids < 32 then stress_reserve_random r s
         else if length active_ids > 96 then stress_finish r (65 / 100) s
         else let (reserve, g) = rng_below r (st_rng s) (51 / 100)
              in if reserve then stress_reserve_random r (s\<lparr>st_rng := g\<rparr>)
                 else stress_finish r (68 / 100) (s\<lparr>st_rng := g\<rparr>))"

definition stress_transition :: "'g rng \<Rightarrow> nat \<Rightarrow> 'g stress \<Rightarrow> py_error + 'g stress" where
  "stress_transition r transition s =
     (case stress_action r transition s of
        Inl e \<Rightarrow> Inl e
      | Inr s' \<Rightarrow>
          (case ledger_snapshot (st_ledger s') of
             Inl e \<Rightarrow> Inl e
           | Inr snap \<Rightarrow> Inr (s'\<lparr>st_peak := max (st_peak s') (bs_active_attempts snap)\<rparr>)))"

fun stress_loop :: "'g rng \<Rightarrow> nat list \<Rightarrow> 'g stress \<Rightarrow> py_error + 'g stress" where
  "stress_loop r [] s = Inr s"
| "stress_loop r (n # ns) s =
     (case stress_transition r n s of Inl e \<Rightarrow> Inl e | Inr s' \<Rightarrow> stress_loop r ns s')"

record stress_corpus =
  sc_seed :: int
  sc_transition_count :: int
  sc_capacity :: resource_vector
  sc_events :: "ledger_event list"
  sc_final_snapshot :: budget_snapshot
  sc_peak_active_attempts :: nat
  sc_trace_digest :: string

text \<open>\<open>dict(Counter(xs))\<close>: occurrences in the order of first appearance.\<close>

fun counter :: "'a list \<Rightarrow> ('a, nat) dict \<Rightarrow> ('a, nat) dict" where
  "counter [] d = d"
| "counter (x # xs) d = counter xs (dset x (1 + (case dget d x of None \<Rightarrow> 0 | Some n \<Rightarrow> n)) d)"

definition operation_counts :: "stress_corpus \<Rightarrow> (string, nat) dict" where
  "operation_counts c = counter (map (\<lambda>e. operation_value (le_operation e)) (sc_events c)) []"

definition refusal_counts :: "stress_corpus \<Rightarrow> (string, nat) dict" where
  "refusal_counts c = counter (List.map_filter le_reason (sc_events c)) []"

definition corpus_verify :: "stress_corpus \<Rightarrow> replay_report" where
  "corpus_verify c =
     replay_and_verify (sc_capacity c) (sc_events c) (Some (sc_final_snapshot c)) (Some (sc_seed c))"

text \<open>\<open>g\<close> is the state \<open>random.Random(seed)\<close> starts in.\<close>

definition generate_stress_corpus :: "'g rng \<Rightarrow> (int \<Rightarrow> 'g) \<Rightarrow> int \<Rightarrow> int \<Rightarrow> py_error + stress_corpus" where
  "generate_stress_corpus r seeded seed transitions =
     (if transitions \<le> 0 then Inl (ValueError ''transitions must be a positive integer'')
      else case stress_loop r [1..<Suc (nat transitions)]
             \<lparr>st_ledger = ledger_init stress_capacity, st_counter = 0, st_peak = 0, st_rng = seeded seed\<rparr> of
        Inl e \<Rightarrow> Inl e
      | Inr s \<Rightarrow>
          (case ledger_snapshot (st_ledger s) of
             Inl e \<Rightarrow> Inl e
           | Inr final \<Rightarrow>
               Inr \<lparr>sc_seed = seed, sc_transition_count = transitions, sc_capacity = stress_capacity,
                    sc_events = ld_events (st_ledger s), sc_final_snapshot = final,
                    sc_peak_active_attempts = st_peak s,
                    sc_trace_digest = event_log_digest (ld_events (st_ledger s))\<rparr>))"

section \<open>Every transition records one event\<close>

definition ids_ok :: "ledger \<Rightarrow> bool" where
  "ids_ok L \<longleftrightarrow> (\<forall>a. dmem a (ld_active L) \<or> dmem a (ld_terminal L) \<longrightarrow> \<not> py_blank a)"

lemma ids_ok_step: "ledger_ok L \<Longrightarrow> ids_ok L \<Longrightarrow> ids_ok (snd (ledger_step L c))"
  by (cases c)
     (auto simp: ids_ok_def ledger_reserve_def ledger_settle_def ledger_cancel_def ledger_record_def Let_def
        dmem_dset dmem_ddel split: sum.splits option.splits if_splits)

definition stress_inv :: "nat \<Rightarrow> 'g stress \<Rightarrow> bool" where
  "stress_inv n s \<longleftrightarrow>
     (\<exists>cs. st_ledger s = ledger_run (ledger_init stress_capacity) cs)
     \<and> ids_ok (st_ledger s) \<and> length (ld_events (st_ledger s)) = n"

lemma stress_inv_ok: "stress_inv n s \<Longrightarrow> ledger_ok (st_ledger s)"
  by (auto simp: stress_inv_def ledger_run_ok)

lemma ledger_run_snoc: "ledger_run L (cs @ [c]) = snd (ledger_step (ledger_run L cs) c)"
  by (simp add: ledger_run_foldl)

lemma stress_inv_update [simp]:
  "stress_inv n (s\<lparr>st_counter := k\<rparr>) = stress_inv n s"
  "stress_inv n (s\<lparr>st_rng := g\<rparr>) = stress_inv n s"
  "stress_inv n (s\<lparr>st_peak := p\<rparr>) = stress_inv n s"
  by (simp_all add: stress_inv_def)

definition advances :: "nat \<Rightarrow> py_error + 'g stress \<Rightarrow> bool" where
  "advances n x \<longleftrightarrow> (\<exists>s. x = Inr s \<and> stress_inv (Suc n) s)"

lemma stress_call_advances:
  assumes inv: "stress_inv n s" and id: "\<not> py_blank (call_id c)"
  shows "advances n (stress_call s c)"
proof -
  from inv obtain cs where run: "st_ledger s = ledger_run (ledger_init stress_capacity) cs"
    and ids: "ids_ok (st_ledger s)" and len: "length (ld_events (st_ledger s)) = n"
    by (auto simp: stress_inv_def)
  from ledger_step_effect [OF stress_inv_ok [OF inv] id] obtain L' applied reason where
    eff: "ledger_effect (st_ledger s) c L' applied reason" by blast
  have step: "ledger_step (st_ledger s) c = (Inr (effect_event (st_ledger s) c L' applied reason),
      snd (ledger_step (st_ledger s) c))"
    by (simp add: ledger_step_event [OF eff])
  have "st_ledger (s\<lparr>st_ledger := snd (ledger_step (st_ledger s) c)\<rparr>)
      = ledger_run (ledger_init stress_capacity) (cs @ [c])"
    by (simp add: run ledger_run_snoc)
  moreover have "length (ld_events (snd (ledger_step (st_ledger s) c))) = Suc n"
    by (simp add: ledger_step_event [OF eff] len)
  ultimately have "stress_inv (Suc n) (s\<lparr>st_ledger := snd (ledger_step (st_ledger s) c)\<rparr>)"
    using ids_ok_step [OF stress_inv_ok [OF inv] ids, of c] unfolding stress_inv_def by auto
  then show ?thesis
    unfolding advances_def stress_call_def by (subst step) simp
qed

lemma attempt_name_not_blank [simp]: "\<not> py_blank (attempt_name n)"
  by (simp add: attempt_name_def py_blank_def py_space_def)

lemma pick_in: "rng_ok r \<Longrightarrow> xs \<noteq> [] \<Longrightarrow> fst (pick r g xs) \<in> set xs"
  by (auto simp: pick_def rng_ok_def split_beta)

lemma chosen_active:
  assumes "rng_ok r" and "active_attempt_ids L \<noteq> []"
  obtains v where "reservation_for L (fst (pick r g (active_attempt_ids L))) = Some v"
    and "dmem (fst (pick r g (active_attempt_ids L))) (ld_active L)"
proof -
  from pick_in [OF assms, of g] have "dmem (fst (pick r g (active_attempt_ids L))) (ld_active L)"
    by (simp add: active_attempt_ids_def dmem_iff_key)
  then show ?thesis by (auto simp: dmem_def reservation_for_def intro: that)
qed

lemma chosen_known:
  assumes "rng_ok r" and "known_attempt_ids L \<noteq> []" and "ids_ok L"
  shows "\<not> py_blank (fst (pick r g (known_attempt_ids L)))"
  using pick_in [OF assms(1,2), of g] assms(3)
  by (auto simp: known_attempt_ids_def ids_ok_def dmem_iff_key)

lemmas stress_branches = stress_over_settle_def stress_overflow_def stress_conflict_def
  stress_reserve_random_def stress_reserve_next_def stress_finish_def

lemma stress_finish_advances:
  assumes r: "rng_ok r" and inv: "stress_inv n s" and ne: "active_attempt_ids (st_ledger s) \<noteq> []"
  shows "advances n (stress_finish r threshold s)"
proof -
  from chosen_active [OF r ne, of "st_rng s"] obtain v where
    v: "reservation_for (st_ledger s) (fst (pick r (st_rng s) (active_attempt_ids (st_ledger s)))) = Some v"
    "dmem (fst (pick r (st_rng s) (active_attempt_ids (st_ledger s)))) (ld_active (st_ledger s))" .
  with inv have "\<not> py_blank (fst (pick r (st_rng s) (active_attempt_ids (st_ledger s))))"
    by (auto simp: stress_inv_def ids_ok_def)
  with v inv show ?thesis
    by (auto simp: stress_finish_def split_beta Let_def intro!: stress_call_advances)
qed

lemma stress_over_settle_advances:
  assumes r: "rng_ok r" and inv: "stress_inv n s" and ne: "active_attempt_ids (st_ledger s) \<noteq> []"
  shows "advances n (stress_over_settle r s)"
proof -
  from chosen_active [OF r ne, of "st_rng s"] obtain v where
    v: "reservation_for (st_ledger s) (fst (pick r (st_rng s) (active_attempt_ids (st_ledger s)))) = Some v"
    "dmem (fst (pick r (st_rng s) (active_attempt_ids (st_ledger s)))) (ld_active (st_ledger s))" .
  with inv have "\<not> py_blank (fst (pick r (st_rng s) (active_attempt_ids (st_ledger s))))"
    by (auto simp: stress_inv_def ids_ok_def)
  with v inv show ?thesis
    by (auto simp: stress_over_settle_def split_beta Let_def intro!: stress_call_advances)
qed

lemma stress_simple_advances:
  assumes inv: "stress_inv n s"
  shows "advances n (stress_overflow s)" and "advances n (stress_reserve_random r s)"
  using inv
  by (auto simp: stress_overflow_def stress_reserve_next_def stress_reserve_random_def Let_def split_beta
      ledger_snapshot_ok [OF stress_inv_ok [OF inv]] intro!: stress_call_advances)

lemma stress_conflict_advances:
  assumes "rng_ok r" and "stress_inv n s" and "known_attempt_ids (st_ledger s) \<noteq> []"
  shows "advances n (stress_conflict r s)"
  using chosen_known [OF assms(1,3), of "st_rng s"] assms(2)
  by (auto simp: stress_conflict_def split_beta Let_def stress_inv_def intro!: stress_call_advances)

lemma stress_transition_advances:
  assumes r: "rng_ok r" and inv: "stress_inv n s"
  shows "advances n (stress_transition r k s)"
proof -
  have "advances n (stress_action r k s)"
    using inv
    by (auto simp: stress_action_def Let_def split_beta
        intro!: stress_over_settle_advances [OF r] stress_simple_advances stress_conflict_advances [OF r]
          stress_finish_advances [OF r])
  then obtain s' where s': "stress_action r k s = Inr s'" "stress_inv (Suc n) s'" by (auto simp: advances_def)
  then show ?thesis
    by (simp add: advances_def stress_transition_def ledger_snapshot_ok [OF stress_inv_ok [OF s'(2)]])
qed

lemma stress_loop_advances:
  "rng_ok r \<Longrightarrow> stress_inv n s \<Longrightarrow> \<exists>s'. stress_loop r ks s = Inr s' \<and> stress_inv (n + length ks) s'"
proof (induction ks arbitrary: n s)
  case Nil
  then show ?case by simp
next
  case (Cons k ks)
  from stress_transition_advances [OF Cons.prems, of k] obtain s' where
    s': "stress_transition r k s = Inr s'" "stress_inv (Suc n) s'" by (auto simp: advances_def)
  from Cons.IH [OF Cons.prems(1) s'(2)] s'(1) show ?case by auto
qed

lemma run_report_passes:
  "rr_passed (replay_and_verify capacity (ld_events (ledger_run (ledger_init capacity) cs))
     (Some (ledger_view (ledger_run (ledger_init capacity) cs)
       (length (ld_events (ledger_run (ledger_init capacity) cs))))) seed)"
proof -
  let ?L = "ledger_run (ledger_init capacity) cs"
  let ?R = "foldl (replay_audit capacity) (1, replay_init) (ld_events ?L)"
  have "replay_sim capacity ?L (fst ?R, snd ?R)"
    using ledger_audit.audit_log [OF ledger_ok_init replay_sim_init, of capacity cs]
    by (simp add: ledger_run_foldl ledger_init_def)
  from replay_report_sim(1) [OF this] show ?thesis by simp
qed

section \<open>Properties\<close>

text \<open>
  The stress generator always produces its evidence: for any random source within its documented
  bounds and any positive number of transitions, generation raises nothing (no assertion, no draw
  from an empty tuple), records exactly one event per transition, and the corpus passes its own
  independent verification.
\<close>

theorem stress_corpus_verifies:
  assumes "rng_ok r" and "0 < transitions"
  shows "\<exists>c. generate_stress_corpus r seeded seed transitions = Inr c
    \<and> int (length (sc_events c)) = transitions \<and> rr_passed (corpus_verify c)"
proof -
  let ?s = "\<lparr>st_ledger = ledger_init stress_capacity, st_counter = 0, st_peak = 0, st_rng = seeded seed\<rparr>"
  have "stress_inv 0 ?s"
    by (auto simp: stress_inv_def ids_ok_def ledger_init_def intro: exI [of _ "[]"])
  from stress_loop_advances [OF assms(1) this, of "[1..<Suc (nat transitions)]"] obtain s where
    loop: "stress_loop r [1..<Suc (nat transitions)] ?s = Inr s" and inv: "stress_inv (nat transitions) s"
    by (auto simp del: upt_Suc)
  from inv obtain cs where run: "st_ledger s = ledger_run (ledger_init stress_capacity) cs"
    and len: "length (ld_events (st_ledger s)) = nat transitions" by (auto simp: stress_inv_def)
  have "ledger_snapshot (st_ledger s) = Inr (ledger_view (st_ledger s) (nat transitions))"
    by (simp add: ledger_snapshot_ok [OF stress_inv_ok [OF inv]] len)
  with run_report_passes [of stress_capacity cs] assms(2) loop len
  show ?thesis
    by (simp add: generate_stress_corpus_def corpus_verify_def run del: upt_Suc)
qed

definition least_rng :: "unit rng" where
  "least_rng = \<lparr>rng_randint = (\<lambda>g a b. (a, g)), rng_choice = (\<lambda>g n. (0, g)), rng_below = (\<lambda>g q. (True, g))\<rparr>"

theorem stress_corpus_verifies_witness:
  "\<exists>c. generate_stress_corpus least_rng (\<lambda>_. ()) 7 3 = Inr c
    \<and> int (length (sc_events c)) = 3 \<and> rr_passed (corpus_verify c)"
  by (rule stress_corpus_verifies) (simp_all add: rng_ok_def least_rng_def)

end
