(* ===== verification/Contracts.thy ===== *)
theory Contracts
  imports Digest Py_Float
begin

text \<open>
  \<open>src/agent_physics/contracts.py\<close>: the typed contracts of tasks, backends and run envelopes, each
  with its \<open>validate\<close> method as the list of error messages it returns.

  The fields have the types their annotations declare, so the \<open>type(x) is not T\<close> branches of the
  sources, which reject values of other types, have no counterpart. Integers are unbounded.
\<close>

section \<open>Text of the messages\<close>

text \<open>\<open>repr\<close> of a string: the quote is a single one unless the text has one and no double one.\<close>

definition repr_quote :: "string \<Rightarrow> char" where
  "repr_quote s = (if CHR 0x27 \<in> set s \<and> CHR 0x22 \<notin> set s then CHR 0x22 else CHR 0x27)"

definition repr_char :: "char \<Rightarrow> char \<Rightarrow> string" where
  "repr_char q c =
     (let n = of_char c :: nat in
      if c = q \<or> n = 92 then [CHR 0x5C, c]
      else if n = 10 then [CHR 0x5C, CHR ''n'']
      else if n = 13 then [CHR 0x5C, CHR ''r'']
      else if n = 9 then [CHR 0x5C, CHR ''t'']
      else if n < 32 \<or> (127 \<le> n \<and> n \<le> 160) \<or> n = 173 then [CHR 0x5C, CHR ''x'', hex_char (n div 16), hex_char (n mod 16)]
      else [c])"

definition py_repr :: "string \<Rightarrow> string" where
  "py_repr s = [repr_quote s] @ concat (map (repr_char (repr_quote s)) s) @ [repr_quote s]"

fun comma_space :: "string list \<Rightarrow> string" where
  "comma_space [] = []"
| "comma_space [x] = x"
| "comma_space (x # xs) = x @ '', '' @ comma_space xs"

definition py_list_repr :: "string list \<Rightarrow> string" where
  "py_list_repr xs = ''['' @ comma_space (map py_repr xs) @ '']''"

fun semicolon_join :: "string list \<Rightarrow> string" where
  "semicolon_join [] = []"
| "semicolon_join [x] = x"
| "semicolon_join (x # xs) = x @ ''; '' @ semicolon_join xs"

definition task_error :: "string \<Rightarrow> string \<Rightarrow> string" where
  "task_error t msg = ''task '' @ py_repr t @ '': '' @ msg"

definition err :: "bool \<Rightarrow> string \<Rightarrow> string list" where
  "err b msg = (if b then [msg] else [])"

lemma err_Nil [simp]: "err b msg = [] \<longleftrightarrow> \<not> b"
  by (simp add: err_def)

section \<open>Enumerations\<close>

definition max_resource_units :: int where
  "max_resource_units = 2 ^ 63 - 1"

datatype effect_class = PURE | READ | IDEMPOTENT_WRITE | REVERSIBLE_WRITE | IRREVERSIBLE_WRITE

fun effect_value :: "effect_class \<Rightarrow> string" where
  "effect_value PURE = ''pure''"
| "effect_value READ = ''read''"
| "effect_value IDEMPOTENT_WRITE = ''idempotent_write''"
| "effect_value REVERSIBLE_WRITE = ''reversible_write''"
| "effect_value IRREVERSIBLE_WRITE = ''irreversible_write''"

definition writes :: "effect_class \<Rightarrow> bool" where
  "writes k \<longleftrightarrow> k \<in> {IDEMPOTENT_WRITE, REVERSIBLE_WRITE, IRREVERSIBLE_WRITE}"

datatype cancellation_semantics = CancellationNone | CancellationCooperative | CancellationHard

datatype checkpoint_semantics = CheckpointNone | CheckpointReceipt | CheckpointResumable

datatype usage_semantics = UsageNone | UsageEstimated | UsageProviderReported

section \<open>Adapters\<close>

record adapter_requirements =
  ar_cancellation :: cancellation_semantics
  ar_checkpoint :: checkpoint_semantics
  ar_streaming :: bool
  ar_usage :: usage_semantics
  ar_effect_fencing :: bool
  ar_max_hidden_retries :: int

definition validate_adapter_requirements :: "adapter_requirements \<Rightarrow> string \<Rightarrow> string list" where
  "validate_adapter_requirements r task_id =
     err (ar_max_hidden_retries r < 0) (task_error task_id ''max_hidden_retries must be a non-negative integer'')"

record adapter_capabilities =
  ac_adapter_id :: string
  ac_adapter_version :: string
  ac_provider :: string
  ac_cancellation :: cancellation_semantics
  ac_checkpoint :: checkpoint_semantics
  ac_streaming :: bool
  ac_usage :: usage_semantics
  ac_supported_effects :: "effect_class list"
  ac_effect_fencing :: bool
  ac_hidden_retries_max :: int
  ac_schema_version :: string

definition validate_adapter_capabilities :: "adapter_capabilities \<Rightarrow> string list" where
  "validate_adapter_capabilities c =
     err (ac_schema_version c \<noteq> ''finite-adapter-capabilities/v1'') ''unsupported adapter capability schema''
     @ err (ac_adapter_id c = [] \<or> ac_adapter_version c = [] \<or> ac_provider c = [])
         ''adapter ID, version, and provider are required''
     @ err (ac_hidden_retries_max c < 0) ''adapter hidden_retries_max must be a non-negative integer''
     @ err (\<not> distinct (ac_supported_effects c)) ''adapter supported_effects must be unique''"

section \<open>Ports and effects\<close>

record output_port =
  op_name :: string
  op_schema :: string
  op_schema_version :: string
  op_media_type :: string

definition port_type_error :: "string \<Rightarrow> string \<Rightarrow> string \<Rightarrow> string" where
  "port_type_error task_id direction name =
     task_error task_id (direction @ '' port '' @ py_repr name
       @ '' requires schema, schema_version, and media_type'')"

definition validate_output_port :: "output_port \<Rightarrow> string \<Rightarrow> string list" where
  "validate_output_port p task_id =
     err (op_name p = []) (task_error task_id ''output port names cannot be empty'')
     @ err (op_schema p = [] \<or> op_schema_version p = [] \<or> op_media_type p = [])
         (port_type_error task_id ''output'' (op_name p))"

record input_port =
  ip_name :: string
  ip_source_task_id :: string
  ip_source_port :: string
  ip_schema :: string
  ip_schema_version :: string
  ip_media_type :: string

definition validate_input_port :: "input_port \<Rightarrow> string \<Rightarrow> string list" where
  "validate_input_port p task_id =
     err (ip_name p = []) (task_error task_id ''input port names cannot be empty'')
     @ err (ip_source_task_id p = [] \<or> ip_source_port p = [])
         (task_error task_id (''input port '' @ py_repr (ip_name p) @ '' requires a producer task and port''))
     @ err (ip_schema p = [] \<or> ip_schema_version p = [] \<or> ip_media_type p = [])
         (port_type_error task_id ''input'' (ip_name p))"

record effect =
  ef_kind :: effect_class
  ef_resource :: string
  ef_requires_approval :: bool
  ef_idempotency_key :: "string option"
  ef_compensation :: "string option"

text \<open>\<open>not x\<close> for an optional string: absent or empty.\<close>

definition falsy :: "string option \<Rightarrow> bool" where
  "falsy x \<longleftrightarrow> x = None \<or> x = Some []"

definition validate_effect :: "effect \<Rightarrow> string \<Rightarrow> string list" where
  "validate_effect e task_id =
     err (ef_kind e \<noteq> PURE \<and> ef_resource e = []) (task_error task_id ''non-pure effects require a resource'')
     @ err (ef_kind e \<in> {IDEMPOTENT_WRITE, IRREVERSIBLE_WRITE} \<and> falsy (ef_idempotency_key e))
         (task_error task_id (effect_value (ef_kind e) @ '' requires an idempotency key''))
     @ err (ef_kind e = REVERSIBLE_WRITE \<and> falsy (ef_compensation e))
         (task_error task_id ''reversible writes require a compensation handler'')
     @ err (ef_kind e = IRREVERSIBLE_WRITE \<and> \<not> ef_requires_approval e)
         (task_error task_id ''irreversible writes must declare an approval gate'')"

section \<open>Backend profiles\<close>

record backend_profile =
  bp_name :: string
  bp_provider :: string
  bp_duration_ms_p50 :: int
  bp_duration_ms_p95 :: int
  bp_input_tokens :: int
  bp_output_tokens :: int
  bp_cost_microusd :: int
  bp_context_bytes :: int
  bp_quality :: float64
  bp_failure_probability :: float64
  bp_profile_snapshot_digest :: "string option"
  bp_cpu_time_ms :: int
  bp_peak_memory_bytes :: int
  bp_peak_vram_bytes :: int
  bp_storage_read_bytes :: int
  bp_storage_write_bytes :: int
  bp_network_ingress_bytes :: int
  bp_network_egress_bytes :: int
  bp_min_bandwidth_bps :: int
  bp_network_rtt_ms :: int
  bp_egress_cost_microusd :: int

definition total_tokens :: "backend_profile \<Rightarrow> int" where
  "total_tokens p = bp_input_tokens p + bp_output_tokens p"

definition profile_physical :: "backend_profile \<Rightarrow> int list" where
  "profile_physical p =
     [bp_cpu_time_ms p, bp_peak_memory_bytes p, bp_peak_vram_bytes p, bp_storage_read_bytes p,
      bp_storage_write_bytes p, bp_network_ingress_bytes p, bp_network_egress_bytes p,
      bp_min_bandwidth_bps p, bp_network_rtt_ms p, bp_egress_cost_microusd p]"

definition int64_unit :: "int \<Rightarrow> bool" where
  "int64_unit v \<longleftrightarrow> 0 \<le> v \<and> v \<le> max_resource_units"

definition validate_profile :: "backend_profile \<Rightarrow> string \<Rightarrow> string list" where
  "validate_profile p task_id =
     err (bp_name p = [] \<or> bp_provider p = []) (task_error task_id ''backend name and provider are required'')
     @ err (bp_duration_ms_p50 p < 0 \<or> bp_duration_ms_p95 p < bp_duration_ms_p50 p)
         (task_error task_id (''invalid p50/p95 duration for '' @ py_repr (bp_name p)))
     @ err (bp_input_tokens p < 0 \<or> bp_output_tokens p < 0 \<or> bp_cost_microusd p < 0 \<or> bp_context_bytes p < 0)
         (task_error task_id ''backend resources cannot be negative'')
     @ err (\<not> (0 \<le> bp_quality p \<and> bp_quality p \<le> 1)) (task_error task_id ''quality must be between 0 and 1'')
     @ err (\<not> (0 \<le> bp_failure_probability p \<and> bp_failure_probability p \<le> 1))
         (task_error task_id ''failure probability must be between 0 and 1'')
     @ err (case bp_profile_snapshot_digest p of None \<Rightarrow> False | Some d \<Rightarrow> \<not> is_sha256 d)
         (task_error task_id ''profile snapshot digest must be lowercase SHA-256'')
     @ err (\<not> list_all int64_unit (profile_physical p))
         (task_error task_id ''physical resource values must be non-negative int64 units'')"

section \<open>Task contracts\<close>

record task_contract =
  tc_task_id :: string
  tc_profiles :: "backend_profile list"
  tc_dependencies :: "string list"
  tc_effect :: effect
  tc_optional :: bool
  tc_value :: float64
  tc_min_quality :: float64
  tc_deadline_ms :: "int option"
  tc_description :: string
  tc_input_ports :: "input_port list"
  tc_output_ports :: "output_port list"
  tc_adapter_requirements :: "adapter_requirements option"

definition profile_identity :: "backend_profile \<Rightarrow> string \<times> string" where
  "profile_identity p = (bp_name p, bp_provider p)"

definition validate_task :: "task_contract \<Rightarrow> string list" where
  "validate_task t =
     (let task_id = tc_task_id t in
      err (task_id = []) ''task IDs cannot be empty''
      @ err (tc_profiles t = []) (task_error task_id ''at least one backend profile is required'')
      @ err (task_id \<in> set (tc_dependencies t)) (task_error task_id ''a task cannot depend on itself'')
      @ err (tc_value t < 0) (task_error task_id ''value cannot be negative'')
      @ err (\<not> (0 \<le> tc_min_quality t \<and> tc_min_quality t \<le> 1))
          (task_error task_id ''min_quality must be between 0 and 1'')
      @ err (case tc_deadline_ms t of None \<Rightarrow> False | Some d \<Rightarrow> d \<le> 0) (task_error task_id ''deadline must be positive'')
      @ validate_effect (tc_effect t) task_id
      @ concat (map (\<lambda>p. validate_profile p task_id) (tc_profiles t))
      @ concat (map (\<lambda>p. validate_input_port p task_id) (tc_input_ports t))
      @ concat (map (\<lambda>p. validate_output_port p task_id) (tc_output_ports t))
      @ (case tc_adapter_requirements t of None \<Rightarrow> [] | Some r \<Rightarrow> validate_adapter_requirements r task_id)
      @ err (\<not> distinct (map ip_name (tc_input_ports t))) (task_error task_id ''input port names must be unique'')
      @ err (\<not> distinct (map op_name (tc_output_ports t))) (task_error task_id ''output port names must be unique'')
      @ err (\<not> distinct (map profile_identity (tc_profiles t))) (task_error task_id ''backend identities must be unique'')
      @ err (tc_profiles t \<noteq> [] \<and> \<not> list_ex (\<lambda>p. tc_min_quality t \<le> bp_quality p) (tc_profiles t))
          (task_error task_id ''no backend meets the quality floor''))"

section \<open>Run envelopes\<close>

record run_envelope =
  re_deadline_ms :: int
  re_max_tokens :: int
  re_max_cost_microusd :: int
  re_max_context_bytes :: int
  re_max_parallelism :: int
  re_min_success :: float64
  re_provider_limits :: "(string \<times> int) list"
  re_max_cpu_time_ms :: int
  re_max_peak_memory_bytes :: int
  re_max_peak_vram_bytes :: int
  re_max_storage_read_bytes :: int
  re_max_storage_write_bytes :: int
  re_max_network_ingress_bytes :: int
  re_max_network_egress_bytes :: int
  re_available_bandwidth_bps :: int
  re_max_network_rtt_ms :: int
  re_max_egress_cost_microusd :: int

text \<open>\<open>dict(pairs)\<close>: a later pair overwrites an earlier one.\<close>

definition dict_of :: "('k \<times> 'v) list \<Rightarrow> ('k, 'v) dict" where
  "dict_of kvs = foldl (\<lambda>d (k, v). dset k v d) [] kvs"

definition provider_limit :: "run_envelope \<Rightarrow> string \<Rightarrow> int" where
  "provider_limit env provider =
     (case dget (dict_of (re_provider_limits env)) provider of
        None \<Rightarrow> re_max_parallelism env
      | Some limit \<Rightarrow> limit)"

definition envelope_physical :: "run_envelope \<Rightarrow> int list" where
  "envelope_physical env =
     [re_max_cpu_time_ms env, re_max_peak_memory_bytes env, re_max_peak_vram_bytes env,
      re_max_storage_read_bytes env, re_max_storage_write_bytes env, re_max_network_ingress_bytes env,
      re_max_network_egress_bytes env, re_available_bandwidth_bps env, re_max_network_rtt_ms env,
      re_max_egress_cost_microusd env]"

definition validate_envelope :: "run_envelope \<Rightarrow> string list" where
  "validate_envelope env =
     err (re_deadline_ms env \<le> 0) ''run deadline must be positive''
     @ err (re_max_tokens env < 0 \<or> re_max_cost_microusd env < 0 \<or> re_max_context_bytes env < 0)
         ''run resource budgets cannot be negative''
     @ err (re_max_parallelism env \<le> 0) ''max_parallelism must be positive''
     @ err (\<not> (0 \<le> re_min_success env \<and> re_min_success env \<le> 1))
         ''min_modeled_success_probability must be between 0 and 1''
     @ concat (map (\<lambda>(provider, limit). err (provider = [] \<or> limit \<le> 0)
         ''provider limits require a name and positive capacity'') (re_provider_limits env))
     @ err (\<not> distinct (map fst (re_provider_limits env))) ''provider limits must contain unique provider names''
     @ err (\<not> list_all int64_unit (envelope_physical env)) ''physical resource caps must be non-negative int64 units''"

section \<open>What validation guarantees\<close>

lemma dict_ok_dict_of: "dict_ok (dict_of kvs)"
proof -
  have "dict_ok d \<Longrightarrow> dict_ok (foldl (\<lambda>d (k, v). dset k v d) d kvs)" for d :: "('a, 'b) dict"
    by (induction kvs arbitrary: d) auto
  then show ?thesis by (simp add: dict_of_def)
qed

lemma foldl_dset_get:
  "dget (foldl (\<lambda>d (k, v). dset k v d) d kvs) k = (case map_of (rev kvs) k of None \<Rightarrow> dget d k | Some v \<Rightarrow> Some v)"
  by (induction kvs arbitrary: d) (auto simp: dget_dset map_add_def split: option.splits)

lemma dget_dict_of: "dget (dict_of kvs) k = map_of (rev kvs) k"
  by (auto simp: dict_of_def foldl_dset_get split: option.splits)

lemma dict_of_distinct:
  assumes "distinct (map fst kvs)"
  shows "dict_of kvs = kvs"
proof -
  have "distinct (map fst (d @ kvs)) \<Longrightarrow> foldl (\<lambda>d (k, v). dset k v d) d kvs = d @ kvs" for d
  proof (induction kvs arbitrary: d)
    case Nil
    then show ?case by simp
  next
    case (Cons x kvs)
    then have "\<not> dmem (fst x) d" by (auto simp: dmem_iff_key)
    with Cons.prems Cons.IH [of "d @ [x]"] show ?case
      by (cases x) (simp add: dset_fresh)
  qed
  from this [of "[]"] assms show ?thesis by (simp add: dict_of_def)
qed

text \<open>A valid profile, task or envelope, as one predicate each.\<close>

definition profile_ok :: "backend_profile \<Rightarrow> bool" where
  "profile_ok p \<longleftrightarrow> validate_profile p [] = []"

lemma validate_profile_Nil: "validate_profile p t = [] \<longleftrightarrow> profile_ok p"
  by (simp add: profile_ok_def validate_profile_def)

lemma profile_okD:
  assumes "profile_ok p"
  shows "0 \<le> bp_duration_ms_p95 p" "0 \<le> total_tokens p" "0 \<le> bp_cost_microusd p" "0 \<le> bp_context_bytes p"
    "0 \<le> bp_quality p" "bp_quality p \<le> 1" "0 \<le> bp_failure_probability p" "bp_failure_probability p \<le> 1"
    "bp_name p \<noteq> []" "bp_provider p \<noteq> []" "list_all int64_unit (profile_physical p)"
  using assms by (auto simp: profile_ok_def validate_profile_def total_tokens_def)

definition task_ok :: "task_contract \<Rightarrow> bool" where
  "task_ok t \<longleftrightarrow> validate_task t = []"

lemma task_okD:
  assumes "task_ok t"
  shows "tc_task_id t \<noteq> []" "tc_profiles t \<noteq> []" "tc_task_id t \<notin> set (tc_dependencies t)"
    "\<And>p. p \<in> set (tc_profiles t) \<Longrightarrow> profile_ok p" "distinct (map profile_identity (tc_profiles t))"
    "\<exists>p \<in> set (tc_profiles t). tc_min_quality t \<le> bp_quality p"
    "\<And>d. tc_deadline_ms t = Some d \<Longrightarrow> 0 < d" "validate_effect (tc_effect t) (tc_task_id t) = []"
  using assms
  by (auto simp: task_ok_def validate_task_def Let_def list_ex_iff validate_profile_Nil)

definition envelope_ok :: "run_envelope \<Rightarrow> bool" where
  "envelope_ok env \<longleftrightarrow> validate_envelope env = []"

lemma envelope_okD:
  assumes "envelope_ok env"
  shows "0 < re_deadline_ms env" "0 \<le> re_max_tokens env" "0 \<le> re_max_cost_microusd env"
    "0 \<le> re_max_context_bytes env" "0 < re_max_parallelism env" "0 \<le> re_min_success env"
    "re_min_success env \<le> 1" "list_all int64_unit (envelope_physical env)"
  using assms by (auto simp: envelope_ok_def validate_envelope_def)

lemma provider_limit_pos:
  assumes "envelope_ok env"
  shows "0 < provider_limit env provider"
proof (cases "map_of (rev (re_provider_limits env)) provider")
  case None
  then show ?thesis using envelope_okD(5) [OF assms] by (simp add: provider_limit_def dget_dict_of)
next
  case (Some limit)
  then have "(provider, limit) \<in> set (re_provider_limits env)" by (auto dest: map_of_SomeD)
  then have "err (provider = [] \<or> limit \<le> 0) ''provider limits require a name and positive capacity'' = []"
    using assms unfolding envelope_ok_def validate_envelope_def by auto
  with Some show ?thesis by (simp add: provider_limit_def dget_dict_of)
qed

end
