(* ===== verification/Exec_Graph.thy ===== *)
theory Exec_Graph
  imports Contracts
begin

text \<open>
  \<open>src/agent_physics/graph.py\<close>: validation of the task graph, its topological order and the p95
  ranks. A \<open>GraphValidationError\<close> is a \<open>ValueError\<close>; a missing key is a \<open>KeyError\<close>.

  The depth-first search keeps its set \<open>visiting\<close> as a parameter: the source removes on return what
  it added on entry, so a caller sees the set it passed. The loop of the topological order
  terminates because every iteration lowers the sum of the positive in-degrees and the ready
  list.
\<close>

section \<open>Structure\<close>

type_synonym execution_graph = "task_contract list"

definition graph_ids :: "execution_graph \<Rightarrow> string list" where
  "graph_ids g = map tc_task_id g"

definition by_id :: "execution_graph \<Rightarrow> (string, task_contract) dict" where
  "by_id g = dict_of (map (\<lambda>t. (tc_task_id t, t)) g)"

fun add_child :: "string \<Rightarrow> string list \<Rightarrow> (string, string list) dict \<Rightarrow> py_error + (string, string list) dict" where
  "add_child c [] r = Inr r"
| "add_child c (d # ds) r =
     (case dget r d of None \<Rightarrow> Inl (KeyError d) | Some cs \<Rightarrow> add_child c ds (dset d (cs @ [c]) r))"

fun add_children :: "execution_graph \<Rightarrow> (string, string list) dict \<Rightarrow> py_error + (string, string list) dict" where
  "add_children [] r = Inr r"
| "add_children (t # ts) r =
     (case add_child (tc_task_id t) (tc_dependencies t) r of
        Inl e \<Rightarrow> Inl e
      | Inr r' \<Rightarrow> add_children ts r')"

definition successors :: "execution_graph \<Rightarrow> py_error + (string, string list) dict" where
  "successors g =
     (case add_children g (dict_of (map (\<lambda>t. (tc_task_id t, [])) g)) of
        Inl e \<Rightarrow> Inl e
      | Inr r \<Rightarrow> Inr (map (\<lambda>(k, v). (k, sort v)) r))"

section \<open>Validation\<close>

definition triple_repr :: "string \<Rightarrow> string \<Rightarrow> string \<Rightarrow> string" where
  "triple_repr a b c = ''('' @ comma_space [py_repr a, py_repr b, py_repr c] @ '')''"

text \<open>The errors of one input port. The lookup of the producer succeeds, since its identifier is
  known by then.\<close>

definition port_errors :: "execution_graph \<Rightarrow> task_contract \<Rightarrow> input_port \<Rightarrow> string list" where
  "port_errors g t p =
     (let source = ip_source_task_id p; named = ''input port '' @ py_repr (ip_name p) in
      if source \<notin> set (graph_ids g) then
        [task_error (tc_task_id t) (named @ '' has missing producer '' @ py_repr source)]
      else if source \<notin> set (tc_dependencies t) then
        [task_error (tc_task_id t) (named @ '' producer '' @ py_repr source @ '' must be a direct dependency'')]
      else case dget (by_id g) source of
        None \<Rightarrow> []
      | Some producer \<Rightarrow>
          (case dget (dict_of (map (\<lambda>q. (op_name q, q)) (tc_output_ports producer))) (ip_source_port p) of
             None \<Rightarrow>
               [task_error (tc_task_id t) (named @ '' references missing producer port '' @ py_repr source
                  @ ''.'' @ py_repr (ip_source_port p))]
           | Some out \<Rightarrow>
               err ((ip_schema p, ip_schema_version p, ip_media_type p)
                      \<noteq> (op_schema out, op_schema_version out, op_media_type out))
                 (task_error (tc_task_id t) (named @ '' is incompatible with '' @ py_repr source @ ''.''
                    @ py_repr (ip_source_port p) @ ''; expected ''
                    @ triple_repr (ip_schema p) (ip_schema_version p) (ip_media_type p) @ '', produced ''
                    @ triple_repr (op_schema out) (op_schema_version out) (op_media_type out)))))"

definition dependency_errors :: "execution_graph \<Rightarrow> task_contract \<Rightarrow> string list" where
  "dependency_errors g t =
     concat (map (\<lambda>d. err (d \<notin> set (graph_ids g)) (task_error (tc_task_id t) (''unknown dependency '' @ py_repr d)))
       (tc_dependencies t))"

definition graph_errors :: "execution_graph \<Rightarrow> string list" where
  "graph_errors g =
     err (\<not> distinct (graph_ids g)) ''task IDs must be unique''
     @ concat (map (\<lambda>t. validate_task t @ dependency_errors g t @ concat (map (port_errors g t) (tc_input_ports t))) g)"

definition cycle_error :: "string \<Rightarrow> py_error" where
  "cycle_error t = ValueError (''cycle detected at task '' @ py_repr t)"

lemma card_unvisited:
  assumes "t \<notin> set visiting" and "dget b t = Some task"
  shows "card (set (dkeys b) - set (t # visiting)) < card (set (dkeys b) - set visiting)"
proof (rule psubset_card_mono)
  from assms(2) have "t \<in> set (dkeys b)" by (metis dmem_Some dmem_iff_key)
  with assms(1) show "set (dkeys b) - set (t # visiting) \<subset> set (dkeys b) - set visiting" by auto
qed simp

function visit :: "(string, task_contract) dict \<Rightarrow> string list \<Rightarrow> string list \<Rightarrow> string \<Rightarrow> py_error + string list"
  and visit_all :: "(string, task_contract) dict \<Rightarrow> string list \<Rightarrow> string list \<Rightarrow> string list \<Rightarrow> py_error + string list"
where
  "visit b visiting visited t =
     (if t \<in> set visiting then Inl (cycle_error t)
      else if t \<in> set visited then Inr visited
      else case dget b t of
        None \<Rightarrow> Inl (KeyError t)
      | Some task \<Rightarrow>
          (case visit_all b (t # visiting) visited (tc_dependencies task) of
             Inl e \<Rightarrow> Inl e
           | Inr visited' \<Rightarrow> Inr (t # visited')))"
| "visit_all b visiting visited [] = Inr visited"
| "visit_all b visiting visited (d # ds) =
     (case visit b visiting visited d of
        Inl e \<Rightarrow> Inl e
      | Inr visited' \<Rightarrow> visit_all b visiting visited' ds)"
  by pat_completeness auto

termination
  by (relation "measures
      [case_sum (\<lambda>(b, visiting, _). card (set (dkeys b) - set visiting))
                (\<lambda>(b, visiting, _). card (set (dkeys b) - set visiting)),
       case_sum (\<lambda>_. 0) (\<lambda>(_, _, _, ds). Suc (length ds))]")
     (auto simp: card_unvisited [simplified])

declare visit.simps [simp del]

definition validate_acyclic :: "execution_graph \<Rightarrow> py_error + unit" where
  "validate_acyclic g =
     (case visit_all (by_id g) [] [] (sort (dkeys (by_id g))) of Inl e \<Rightarrow> Inl e | Inr visited \<Rightarrow> Inr ())"

definition graph_validate :: "execution_graph \<Rightarrow> py_error + unit" where
  "graph_validate g =
     (if graph_errors g = [] then validate_acyclic g
      else Inl (ValueError (semicolon_join (graph_errors g))))"

section \<open>Topological order\<close>

fun release :: "string list \<Rightarrow> (string, int) dict \<Rightarrow> string list \<Rightarrow> py_error + ((string, int) dict \<times> string list)" where
  "release [] indegree ready = Inr (indegree, ready)"
| "release (c # cs) indegree ready =
     (case dget indegree c of
        None \<Rightarrow> Inl (KeyError c)
      | Some n \<Rightarrow>
          release cs (dset c (n - 1) indegree) (if n - 1 = 0 then sort (ready @ [c]) else ready))"

definition positive_indegree :: "(string, int) dict \<Rightarrow> nat" where
  "positive_indegree d = sum_list (map nat (dvalues d))"

lemma positive_dset:
  "dget d c = Some n \<Longrightarrow> positive_indegree (dset c m d) + nat n = positive_indegree d + nat m"
  by (induction d) (auto simp: positive_indegree_def split: if_splits)

lemma release_measure:
  "release cs d ready = Inr (d', ready') \<Longrightarrow>
   positive_indegree d' + length ready' \<le> positive_indegree d + length ready"
proof (induction cs arbitrary: d ready)
  case Nil
  then show ?case by simp
next
  case (Cons c cs)
  then obtain n where n: "dget d c = Some n" by (auto split: option.splits)
  from Cons.prems n Cons.IH [of "dset c (n - 1) d"] positive_dset [OF n, of "n - 1"]
  show ?case by (fastforce split: if_splits)
qed

function topo_loop ::
  "(string, string list) dict \<Rightarrow> (string, int) dict \<Rightarrow> string list \<Rightarrow> string list \<Rightarrow> py_error + string list" where
  "topo_loop succ indegree [] order = Inr order"
| "topo_loop succ indegree (t # ready) order =
     (case dget succ t of
        None \<Rightarrow> Inl (KeyError t)
      | Some cs \<Rightarrow>
          (case release cs indegree ready of
             Inl e \<Rightarrow> Inl e
           | Inr (indegree', ready') \<Rightarrow> topo_loop succ indegree' ready' (order @ [t])))"
  by pat_completeness auto
termination
  by (relation "measure (\<lambda>(_, d, ready, _). positive_indegree d + length ready)")
     (auto dest: release_measure)

definition topological_order :: "execution_graph \<Rightarrow> py_error + string list" where
  "topological_order g =
     (let b = by_id g;
          indegree = map (\<lambda>(k, t). (k, int (length (tc_dependencies t)))) b;
          ready = sort (map fst (filter (\<lambda>(k, n). n = 0) indegree))
      in case successors g of
           Inl e \<Rightarrow> Inl e
         | Inr succ \<Rightarrow>
             (case topo_loop succ indegree ready [] of
                Inl e \<Rightarrow> Inl e
              | Inr order \<Rightarrow>
                  if length order \<noteq> length b then Inl (ValueError ''graph contains a cycle'') else Inr order))"

section \<open>Ranks\<close>

text \<open>\<open>[table[k] for k in keys]\<close>.\<close>

fun lookup_all :: "('k \<Rightarrow> py_error) \<Rightarrow> ('k, 'v) dict \<Rightarrow> 'k list \<Rightarrow> py_error + 'v list" where
  "lookup_all missing d [] = Inr []"
| "lookup_all missing d (k # ks) =
     (case dget d k of
        None \<Rightarrow> Inl (missing k)
      | Some v \<Rightarrow> (case lookup_all missing d ks of Inl e \<Rightarrow> Inl e | Inr vs \<Rightarrow> Inr (v # vs)))"

text \<open>The loop over the reversed order that the rank computations of \<open>graph.py\<close>, \<open>scheduler.py\<close>
  and \<open>ledger.py\<close> share: own duration plus the longest rank among the included successors.\<close>

fun rank_loop ::
  "(string, string list) dict \<Rightarrow> (string \<Rightarrow> bool) \<Rightarrow> (string, int) dict \<Rightarrow> string list \<Rightarrow>
   (string, int) dict \<Rightarrow> py_error + (string, int) dict" where
  "rank_loop succ included own [] ranks = Inr ranks"
| "rank_loop succ included own (t # ts) ranks =
     (if \<not> included t then rank_loop succ included own ts ranks
      else case dget succ t of
        None \<Rightarrow> Inl (KeyError t)
      | Some cs \<Rightarrow>
          (case lookup_all KeyError ranks (filter included cs) of
             Inl e \<Rightarrow> Inl e
           | Inr ds \<Rightarrow>
               (case dget own t of
                  None \<Rightarrow> Inl (KeyError t)
                | Some d \<Rightarrow> rank_loop succ included own ts (dset t (d + max_default ds) ranks))))"

definition ranks_of :: "execution_graph \<Rightarrow> (string \<Rightarrow> bool) \<Rightarrow> (string, int) dict \<Rightarrow> py_error + (string, int) dict" where
  "ranks_of g included own =
     (case successors g of
        Inl e \<Rightarrow> Inl e
      | Inr succ \<Rightarrow>
          (case topological_order g of
             Inl e \<Rightarrow> Inl e
           | Inr order \<Rightarrow> rank_loop succ included own (rev order) []))"

definition profile_durations :: "(string, backend_profile) dict \<Rightarrow> (string, int) dict" where
  "profile_durations profiles = map (\<lambda>(k, p). (k, bp_duration_ms_p95 p)) profiles"

definition upward_ranks :: "execution_graph \<Rightarrow> (string, backend_profile) dict \<Rightarrow> py_error + (string, int) dict" where
  "upward_ranks g profiles = ranks_of g (\<lambda>t. True) (profile_durations profiles)"

section \<open>The dependency relation\<close>

definition deps_of :: "(string, task_contract) dict \<Rightarrow> string \<Rightarrow> string list" where
  "deps_of b t = (case dget b t of None \<Rightarrow> [] | Some task \<Rightarrow> tc_dependencies task)"

text \<open>\<open>(d, t)\<close>: task \<open>t\<close> names \<open>d\<close> as a dependency.\<close>

definition dep_rel :: "(string, task_contract) dict \<Rightarrow> (string \<times> string) set" where
  "dep_rel b = {(d, t). d \<in> set (deps_of b t)}"

lemma dep_rel_iff: "(d, t) \<in> dep_rel b \<longleftrightarrow> d \<in> set (deps_of b t)"
  by (simp add: dep_rel_def)

text \<open>A list, newest first, in which every element comes after its dependencies.\<close>

fun settled :: "(string, task_contract) dict \<Rightarrow> string list \<Rightarrow> bool" where
  "settled b [] \<longleftrightarrow> True"
| "settled b (v # vs) \<longleftrightarrow> set (deps_of b v) \<subseteq> set vs \<and> settled b vs"

lemma settled_closed: "settled b vs \<Longrightarrow> v \<in> set vs \<Longrightarrow> (d, v) \<in> (dep_rel b)\<^sup>* \<Longrightarrow> d \<in> set vs"
proof -
  have step: "settled b vs \<Longrightarrow> v \<in> set vs \<Longrightarrow> d \<in> set (deps_of b v) \<Longrightarrow> d \<in> set vs" for d v vs
    by (induction vs) auto
  show "settled b vs \<Longrightarrow> v \<in> set vs \<Longrightarrow> (d, v) \<in> (dep_rel b)\<^sup>* \<Longrightarrow> d \<in> set vs"
    by (rotate_tac 2, induction rule: converse_rtrancl_induct) (auto simp: dep_rel_iff intro: step)
qed

lemma settled_deps: "settled b vs \<Longrightarrow> v \<in> set vs \<Longrightarrow> d \<in> set (deps_of b v) \<Longrightarrow> d \<in> set vs"
  by (rule settled_closed) (auto simp: dep_rel_iff)

lemma settled_split: "settled b (xs @ t # ys) \<Longrightarrow> set (deps_of b t) \<subseteq> set ys"
  by (induction xs) auto

lemma settled_no_cycle: "settled b vs \<Longrightarrow> v \<in> set vs \<Longrightarrow> (v, v) \<notin> (dep_rel b)\<^sup>+"
proof (induction vs)
  case Nil
  then show ?case by simp
next
  case (Cons w vs)
  show ?case
  proof (cases "v \<in> set vs")
    case True
    with Cons show ?thesis by simp
  next
    case False
    with Cons.prems have w: "v = w" by simp
    show ?thesis
    proof
      assume "(v, v) \<in> (dep_rel b)\<^sup>+"
      then obtain y where "(v, y) \<in> (dep_rel b)\<^sup>*" and "(y, v) \<in> dep_rel b" by (meson tranclD2)
      with Cons.prems(1) w have "v \<in> set vs" by (auto simp: dep_rel_iff intro: settled_closed)
      with False show False by simp
    qed
  qed
qed

lemma visit_settles:
  "visit b visiting visited t = Inr visited' \<Longrightarrow>
     set visited \<subseteq> set visited' \<and> t \<in> set visited' \<and> (settled b visited \<longrightarrow> settled b visited')"
  "visit_all b visiting visited ts = Inr visited' \<Longrightarrow>
     set visited \<subseteq> set visited' \<and> set ts \<subseteq> set visited' \<and> (settled b visited \<longrightarrow> settled b visited')"
proof (induction b visiting visited t and b visiting visited ts arbitrary: visited' and visited'
    rule: visit_visit_all.induct)
  case (1 b visiting visited t)
  show ?case
  proof (cases "t \<in> set visited")
    case True
    with "1.prems" show ?thesis by (auto simp: visit.simps [of b visiting visited t] split: if_splits)
  next
    case False
    with "1.prems" obtain task vs where "t \<notin> set visiting" "dget b t = Some task"
      "visit_all b (t # visiting) visited (tc_dependencies task) = Inr vs" "visited' = t # vs"
      by (auto simp: visit.simps [of b visiting visited t] split: if_splits option.splits sum.splits)
    with "1.IH" [of task vs] False show ?thesis by (auto simp: deps_of_def)
  qed
next
  case (2 b visiting visited)
  then show ?case by simp
next
  case (3 b visiting visited d ds)
  then obtain vs where vs: "visit b visiting visited d = Inr vs" "visit_all b visiting vs ds = Inr visited'"
    by (auto split: sum.splits)
  from "3.IH"(1) [OF vs(1)] "3.IH"(2) [OF vs] show ?case by auto
qed

text \<open>An error of the search exhibits a cycle or an unknown identifier.\<close>

lemma visit_error:
  "visit b visiting visited t = Inl e \<Longrightarrow> \<forall>v \<in> set visiting. (t, v) \<in> (dep_rel b)\<^sup>+ \<Longrightarrow>
   \<forall>t' d. d \<in> set (deps_of b t') \<longrightarrow> dmem d b \<Longrightarrow> dmem t b \<Longrightarrow>
   \<exists>c. (c, c) \<in> (dep_rel b)\<^sup>+ \<and> e = cycle_error c"
  "visit_all b visiting visited ts = Inl e \<Longrightarrow> \<forall>t \<in> set ts. \<forall>v \<in> set visiting. (t, v) \<in> (dep_rel b)\<^sup>+ \<Longrightarrow>
   \<forall>t' d. d \<in> set (deps_of b t') \<longrightarrow> dmem d b \<Longrightarrow> \<forall>t \<in> set ts. dmem t b \<Longrightarrow>
   \<exists>c. (c, c) \<in> (dep_rel b)\<^sup>+ \<and> e = cycle_error c"
proof (induction b visiting visited t and b visiting visited ts rule: visit_visit_all.induct)
  case (1 b visiting visited t)
  show ?case
  proof (cases "t \<in> set visiting")
    case True
    with "1.prems" show ?thesis by (auto simp: visit.simps [of b visiting visited t])
  next
    case False
    with "1.prems" obtain task where task: "t \<notin> set visited" "dget b t = Some task"
      "visit_all b (t # visiting) visited (tc_dependencies task) = Inl e"
      by (auto split: if_splits option.splits sum.splits simp: dmem_def visit.simps [of b visiting visited t])
    have sub: "d \<in> set (tc_dependencies task) \<Longrightarrow> (d, t) \<in> dep_rel b" for d
      using task(2) by (simp add: dep_rel_iff deps_of_def)
    have "\<forall>d \<in> set (tc_dependencies task). \<forall>v \<in> set (t # visiting). (d, v) \<in> (dep_rel b)\<^sup>+"
      using "1.prems"(2) sub by (auto intro: trancl_into_trancl2)
    moreover have "\<forall>d \<in> set (tc_dependencies task). dmem d b"
      using "1.prems"(3) sub by (auto simp: dep_rel_iff)
    ultimately show ?thesis using "1.IH" [OF False task(1,2,3)] "1.prems"(3) by blast
  qed
next
  case (2 b visiting visited)
  then show ?case by simp
next
  case (3 b visiting visited d ds)
  show ?case
  proof (cases "visit b visiting visited d")
    case (Inl e')
    with 3 show ?thesis by simp
  next
    case (Inr vs)
    with "3.prems" "3.IH"(2) [OF Inr] show ?thesis by simp
  qed
qed

section \<open>Valid graphs\<close>

definition graph_ok :: "execution_graph \<Rightarrow> bool" where
  "graph_ok g \<longleftrightarrow> graph_validate g = Inr ()"

definition task_of :: "execution_graph \<Rightarrow> string \<Rightarrow> task_contract" where
  "task_of g t = the (dget (by_id g) t)"

lemma by_id_distinct: "distinct (graph_ids g) \<Longrightarrow> by_id g = map (\<lambda>t. (tc_task_id t, t)) g"
  by (simp add: by_id_def dict_of_distinct graph_ids_def o_def)

lemma dget_by_id: "distinct (graph_ids g) \<Longrightarrow> t \<in> set g \<Longrightarrow> dget (by_id g) (tc_task_id t) = Some t"
  by (simp add: by_id_distinct graph_ids_def) (metis (mono_tags, lifting) image_eqI map_of_eq_Some_iff map_map
      fst_conv list.set_map o_apply map_eq_conv)

lemma dmem_by_id: "dmem t (by_id g) \<longleftrightarrow> t \<in> set (graph_ids g)"
  by (simp add: dmem_def by_id_def dget_dict_of map_of_eq_None_iff graph_ids_def image_image)

lemma graph_ok_parts:
  assumes "graph_ok g"
  shows "distinct (graph_ids g)" and "t \<in> set g \<Longrightarrow> task_ok t"
    and "t \<in> set g \<Longrightarrow> d \<in> set (tc_dependencies t) \<Longrightarrow> d \<in> set (graph_ids g)"
    and "validate_acyclic g = Inr ()"
  using assms
  by (auto simp: graph_ok_def graph_validate_def graph_errors_def task_ok_def dependency_errors_def split: if_splits)

lemma deps_of_task: "distinct (graph_ids g) \<Longrightarrow> t \<in> set g \<Longrightarrow> deps_of (by_id g) (tc_task_id t) = tc_dependencies t"
  by (simp add: deps_of_def dget_by_id)

lemma deps_known:
  assumes "graph_errors g = []" and "d \<in> set (deps_of (by_id g) t)"
  shows "dmem d (by_id g) \<and> dmem t (by_id g)"
proof -
  from assms(1) have dist: "distinct (graph_ids g)" by (simp add: graph_errors_def)
  from assms(2) obtain task where "dget (by_id g) t = Some task" "d \<in> set (tc_dependencies task)"
    by (cases "dget (by_id g) t") (auto simp: deps_of_def)
  moreover from this(1) have task: "task \<in> set g" by (auto simp: by_id_distinct [OF dist] dest: map_of_SomeD)
  moreover have "dependency_errors g task = []"
    using assms(1) task by (auto simp: graph_errors_def)
  ultimately show ?thesis
    by (auto simp: dependency_errors_def dmem_by_id [symmetric] intro: dmem_Some)
qed

lemma validate_acyclic_iff:
  assumes "graph_errors g = []"
  shows "validate_acyclic g = Inr () \<longleftrightarrow> acyclic (dep_rel (by_id g))"
proof -
  let ?b = "by_id g" and ?ids = "sort (dkeys (by_id g))"
  have known: "\<forall>t' d. d \<in> set (deps_of ?b t') \<longrightarrow> dmem d ?b" using deps_known [OF assms] by blast
  show ?thesis
  proof
    assume "validate_acyclic g = Inr ()"
    then obtain vs where "visit_all ?b [] [] ?ids = Inr vs"
      by (auto simp: validate_acyclic_def split: sum.splits)
    from visit_settles(2) [OF this] have vs: "set (dkeys ?b) \<subseteq> set vs" "settled ?b vs" by auto
    show "acyclic (dep_rel ?b)"
    proof (rule acyclicI, rule allI, rule notI)
      fix x assume x: "(x, x) \<in> (dep_rel ?b)\<^sup>+"
      then obtain y where "(x, y) \<in> dep_rel ?b" by (meson tranclD)
      then have "x \<in> set (dkeys ?b)" using known by (auto simp: dep_rel_iff dmem_iff_key)
      with vs settled_no_cycle [of ?b vs x] x show False by auto
    qed
  next
    assume acyc: "acyclic (dep_rel ?b)"
    show "validate_acyclic g = Inr ()"
    proof (cases "visit_all ?b [] [] ?ids")
      case (Inl e)
      from visit_error(2) [OF this _ known] acyc show ?thesis
        by (auto simp: acyclic_def dmem_iff_key)
    next
      case (Inr vs)
      then show ?thesis by (simp add: validate_acyclic_def)
    qed
  qed
qed

lemma validate_acyclic_error:
  assumes "graph_errors g = []" and "validate_acyclic g = Inl e"
  shows "\<exists>c. (c, c) \<in> (dep_rel (by_id g))\<^sup>+ \<and> e = cycle_error c"
proof -
  from assms(2) have "visit_all (by_id g) [] [] (sort (dkeys (by_id g))) = Inl e"
    by (auto simp: validate_acyclic_def split: sum.splits)
  from visit_error(2) [OF this] deps_known [OF assms(1)] show ?thesis by (auto simp: dmem_iff_key)
qed

lemma graph_ok_acyclic: "graph_ok g \<Longrightarrow> acyclic (dep_rel (by_id g))"
  using validate_acyclic_iff [of g] by (auto simp: graph_ok_def graph_validate_def split: if_splits)

lemma graph_ok_known:
  "graph_ok g \<Longrightarrow> d \<in> set (deps_of (by_id g) t) \<Longrightarrow> d \<in> set (graph_ids g) \<and> t \<in> set (graph_ids g)"
  using deps_known [of g d t] by (auto simp: graph_ok_def graph_validate_def dmem_by_id split: if_splits)

lemma finite_dep_rel: "graph_ok g \<Longrightarrow> finite (dep_rel (by_id g))"
  by (rule finite_subset [of _ "set (graph_ids g) \<times> set (graph_ids g)"])
     (auto simp: dep_rel_iff dest: graph_ok_known)

text \<open>Induction along the dependencies of a valid graph.\<close>

lemma dep_induct [consumes 1, case_names task]:
  assumes "graph_ok g" and "\<And>t. (\<And>d. d \<in> set (deps_of (by_id g) t) \<Longrightarrow> P d) \<Longrightarrow> P t"
  shows "P t"
proof -
  have "wf (dep_rel (by_id g))"
    using finite_acyclic_wf [OF finite_dep_rel graph_ok_acyclic] assms(1) by blast
  then show ?thesis
    by (induction t rule: wf_induct_rule) (auto simp: dep_rel_iff intro: assms(2))
qed

section \<open>Successors\<close>

definition succs :: "execution_graph \<Rightarrow> string \<Rightarrow> string list" where
  "succs g k = sort (concat (map (\<lambda>t. replicate (count_list (tc_dependencies t) k) (tc_task_id t)) g))"

lemma add_child_ok:
  "\<forall>d \<in> set ds. dmem d r \<Longrightarrow>
   \<exists>r'. add_child c ds r = Inr r' \<and> dkeys r' = dkeys r
     \<and> (\<forall>k. dget r' k = map_option (\<lambda>v. v @ replicate (count_list ds k) c) (dget r k))"
proof (induction ds arbitrary: r)
  case Nil
  then show ?case by (simp add: map_option.id [unfolded id_def])
next
  case (Cons d ds)
  then obtain cs where cs: "dget r d = Some cs" by (auto simp: dmem_def)
  let ?r = "dset d (cs @ [c]) r"
  from cs have keys: "dkeys ?r = dkeys r" by (induction r) (auto split: if_splits)
  from Cons.prems have "\<forall>d \<in> set ds. dmem d ?r" by (simp add: dmem_iff_key keys)
  from Cons.IH [OF this] obtain r' where r': "add_child c ds ?r = Inr r'" "dkeys r' = dkeys ?r"
    "\<forall>k. dget r' k = map_option (\<lambda>v. v @ replicate (count_list ds k) c) (dget ?r k)" by blast
  have "dget r' k = map_option (\<lambda>v. v @ replicate (count_list (d # ds) k) c) (dget r k)" for k
    using r'(3) cs by (auto simp: dget_dset)
  with r'(1,2) keys cs show ?case by auto
qed

lemma add_children_ok:
  "\<forall>t \<in> set ts. \<forall>d \<in> set (tc_dependencies t). dmem d r \<Longrightarrow>
   \<exists>r'. add_children ts r = Inr r' \<and> dkeys r' = dkeys r
     \<and> (\<forall>k. dget r' k = map_option (\<lambda>v. v
          @ concat (map (\<lambda>t. replicate (count_list (tc_dependencies t) k) (tc_task_id t)) ts)) (dget r k))"
proof (induction ts arbitrary: r)
  case Nil
  then show ?case by (simp add: map_option.id [unfolded id_def])
next
  case (Cons t ts)
  then obtain r1 where r1: "add_child (tc_task_id t) (tc_dependencies t) r = Inr r1" "dkeys r1 = dkeys r"
    "\<forall>k. dget r1 k = map_option (\<lambda>v. v @ replicate (count_list (tc_dependencies t) k) (tc_task_id t)) (dget r k)"
    using add_child_ok [of "tc_dependencies t" r "tc_task_id t"] by auto
  from Cons.prems r1(2) have "\<forall>t \<in> set ts. \<forall>d \<in> set (tc_dependencies t). dmem d r1"
    by (simp add: dmem_iff_key)
  from Cons.IH [OF this] obtain r' where r': "add_children ts r1 = Inr r'" "dkeys r' = dkeys r1"
    "\<forall>k. dget r' k = map_option (\<lambda>v. v
      @ concat (map (\<lambda>t. replicate (count_list (tc_dependencies t) k) (tc_task_id t)) ts)) (dget r1 k)" by blast
  with r1 show ?case by (auto simp: option.map_comp o_def)
qed

lemma successors_ok:
  assumes "graph_ok g"
  obtains succ where "successors g = Inr succ"
    and "\<And>t. t \<in> set (graph_ids g) \<Longrightarrow> dget succ t = Some (succs g t)"
proof -
  note parts = graph_ok_parts [OF assms]
  let ?r = "dict_of (map (\<lambda>t. (tc_task_id t, [] :: string list)) g)"
  have r: "?r = map (\<lambda>t. (tc_task_id t, [])) g"
    using parts(1) by (simp add: dict_of_distinct graph_ids_def o_def)
  have get: "dget ?r k = (if k \<in> set (graph_ids g) then Some [] else None)" for k
    unfolding r by (induction g) (auto simp: graph_ids_def)
  have "\<forall>t \<in> set g. \<forall>d \<in> set (tc_dependencies t). dmem d ?r"
    using parts(3) by (simp add: dmem_def get)
  from add_children_ok [OF this] obtain r' where r': "add_children g ?r = Inr r'"
    "\<forall>k. dget r' k = map_option (\<lambda>v. v
      @ concat (map (\<lambda>t. replicate (count_list (tc_dependencies t) k) (tc_task_id t)) g)) (dget ?r k)" by blast
  have "successors g = Inr (map (\<lambda>(k, v). (k, sort v)) r')" by (simp add: successors_def r')
  moreover have "t \<in> set (graph_ids g) \<Longrightarrow> dget (map (\<lambda>(k, v). (k, sort v)) r') t = Some (succs g t)" for t
    using r'(2) by (simp add: map_of_map get succs_def)
  ultimately show ?thesis by (rule that)
qed

lemma count_concat: "count_list (concat xss) x = sum_list (map (\<lambda>xs. count_list xs x) xss)"
  by (induction xss) auto

lemma count_replicate: "count_list (replicate n y) x = (if x = y then n else 0)"
  by (induction n) auto

lemma count_sort: "count_list (sort xs) x = count_list xs x"
  by (simp add: count_list_eq_length_filter filter_sort)

lemma sum_list_single:
  "distinct xs \<Longrightarrow> x \<in> set xs \<Longrightarrow> sum_list (map (\<lambda>y. if y = x then f y else (0::nat)) xs) = f x"
  by (induction xs) (auto simp: sum_list_eq_0_iff)

text \<open>The successors of a task hold each dependent as often as it names the task.\<close>

lemma count_succs:
  assumes "graph_ok g" and "t \<in> set g"
  shows "count_list (succs g k) (tc_task_id t) = count_list (tc_dependencies t) k"
proof -
  from graph_ok_parts(1) [OF assms(1)] have dist: "distinct (map tc_task_id g)" by (simp add: graph_ids_def)
  then have inj: "u \<in> set g \<Longrightarrow> tc_task_id t = tc_task_id u \<longleftrightarrow> u = t" for u
    using assms(2) by (auto simp: distinct_map dest: inj_onD)
  have "count_list (succs g k) (tc_task_id t)
      = sum_list (map (\<lambda>u. if u = t then count_list (tc_dependencies u) k else 0) g)"
    unfolding succs_def count_sort count_concat
    by (simp add: o_def count_replicate inj cong: map_cong)
  also have "\<dots> = count_list (tc_dependencies t) k"
    by (rule sum_list_single) (use dist assms(2) in \<open>auto simp: distinct_map\<close>)
  finally show ?thesis .
qed

lemma graph_id_task: "graph_ok g \<Longrightarrow> c \<in> set (graph_ids g) \<Longrightarrow> \<exists>t \<in> set g. tc_task_id t = c \<and> deps_of (by_id g) c = tc_dependencies t"
  using deps_of_task [OF graph_ok_parts(1)] by (fastforce simp: graph_ids_def)

lemma count_succs_deps:
  "graph_ok g \<Longrightarrow> c \<in> set (graph_ids g) \<Longrightarrow> count_list (succs g k) c = count_list (deps_of (by_id g) c) k"
  using graph_id_task [of g c] count_succs [of g _ k] by auto

lemma succs_known: "c \<in> set (succs g k) \<Longrightarrow> c \<in> set (graph_ids g)"
  by (auto simp: succs_def graph_ids_def)

lemma succs_iff:
  "graph_ok g \<Longrightarrow> c \<in> set (succs g k) \<longleftrightarrow> k \<in> set (deps_of (by_id g) c)"
  using count_succs_deps [of g c k] count_list_0_iff [of "succs g k" c] count_list_0_iff [of "deps_of (by_id g) c" k]
    succs_known [of c g k] graph_ok_known [of g k c]
  by metis

section \<open>The topological order\<close>

text \<open>Every element comes after its dependencies.\<close>

definition topo_sorted :: "(string, task_contract) dict \<Rightarrow> string list \<Rightarrow> bool" where
  "topo_sorted b order \<longleftrightarrow> settled b (rev order)"

definition pending :: "execution_graph \<Rightarrow> string set \<Rightarrow> string \<Rightarrow> nat" where
  "pending g done c = length (filter (\<lambda>d. d \<notin> done) (deps_of (by_id g) c))"

lemma filter_count:
  "t \<notin> done \<Longrightarrow> length (filter (\<lambda>d. d \<notin> done) ds) = length (filter (\<lambda>d. d \<notin> insert t done) ds) + count_list ds t"
  by (induction ds) auto

lemma pending_insert:
  "t \<notin> done \<Longrightarrow> pending g done c = pending g (insert t done) c + count_list (deps_of (by_id g) c) t"
  unfolding pending_def by (rule filter_count)

lemma pending_zero: "pending g done c = 0 \<longleftrightarrow> set (deps_of (by_id g) c) \<subseteq> done"
  by (auto simp: pending_def filter_empty_conv)

text \<open>Releasing the successors lowers each in-degree by its multiplicity and makes ready what
  reaches zero.\<close>

lemma release_ok:
  assumes "\<forall>c \<in> set cs. dmem c d" and "\<forall>c \<in> set cs. int (count_list cs c) \<le> the (dget d c)"
    and "distinct ready" and "set cs \<inter> set ready = {}"
  shows "\<exists>d' ready'. release cs d ready = Inr (d', ready') \<and> distinct ready'
    \<and> (\<forall>c. dget d' c = map_option (\<lambda>n. n - int (count_list cs c)) (dget d c))
    \<and> set ready' = set ready \<union> {c \<in> set cs. the (dget d c) = int (count_list cs c)}"
  using assms
proof (induction cs arbitrary: d ready)
  case Nil
  then show ?case by (simp add: map_option.id [unfolded id_def])
next
  case (Cons c cs)
  then obtain n where n: "dget d c = Some n" by (auto simp: dmem_def)
  let ?d = "dset c (n - 1) d" and ?ready = "if n - 1 = 0 then sort (ready @ [c]) else ready"
  have cnt: "int (count_list cs c) + 1 \<le> n" using Cons.prems(2) n by auto
  then have notin: "n - 1 = 0 \<Longrightarrow> c \<notin> set cs" by (metis add.commute add_le_same_cancel1 count_list_0_iff diff_eq_eq
    of_nat_le_0_iff add_0)
  have "\<forall>x \<in> set cs. int (count_list cs x) \<le> the (dget ?d x)"
    using Cons.prems(2) cnt by (auto simp: dget_dset split: if_splits)
  moreover have "\<forall>x \<in> set cs. dmem x ?d" using Cons.prems(1) by (simp add: dmem_dset)
  moreover have "distinct ?ready" "set cs \<inter> set ?ready = {}" using Cons.prems notin by auto
  ultimately obtain d' ready' where r: "release cs ?d ?ready = Inr (d', ready')" "distinct ready'"
    "\<forall>x. dget d' x = map_option (\<lambda>n. n - int (count_list cs x)) (dget ?d x)"
    "set ready' = set ?ready \<union> {x \<in> set cs. the (dget ?d x) = int (count_list cs x)}"
    using Cons.IH [of ?d ?ready] by blast
  have "dget d' x = map_option (\<lambda>n. n - int (count_list (c # cs) x)) (dget d x)" for x
    using r(3) n by (auto simp: dget_dset)
  moreover have "set ready' = set ready \<union> {x \<in> set (c # cs). the (dget d x) = int (count_list (c # cs) x)}"
  proof -
    have "x \<in> set ready' \<longleftrightarrow> x \<in> set ready \<or> (x \<in> set (c # cs) \<and> the (dget d x) = int (count_list (c # cs) x))" for x
    proof (cases "x = c")
      case False
      then show ?thesis using r(4) by (auto simp: dget_dset)
    next
      case True
      have cr: "c \<notin> set ready" using Cons.prems(4) by auto
      have mem: "c \<in> set ready' \<longleftrightarrow> n - 1 = 0 \<or> (c \<in> set cs \<and> n - 1 = int (count_list cs c))"
        unfolding r(4) using cr by (simp add: dget_dset)
      show ?thesis
      proof (cases "n - 1 = 0")
        case z: True
        from notin [OF z] have "count_list cs c = 0" by (simp add: count_list_0_iff)
        with z mem True n show ?thesis by simp
      next
        case nz: False
        have "c \<in> set cs \<longleftrightarrow> count_list cs c \<noteq> 0" by (simp add: count_list_0_iff)
        with nz mem True n cr show ?thesis by auto
      qed
    qed
    then show ?thesis by blast
  qed
  ultimately show ?case using r(1,2) n by auto
qed

text \<open>The propositional core of the next step: \<open>p\<close> dependencies pending before, \<open>q\<close> after.\<close>

lemma ready_bookkeeping:
  assumes "p = q + (k::nat)" and "r' \<longleftrightarrow> r \<or> (s \<and> p = k)" and "r \<longleftrightarrow> p = 0 \<and> \<not> done \<and> \<not> this_one"
    and "s \<longleftrightarrow> k \<noteq> 0" and "done \<Longrightarrow> \<not> s" and "this_one \<Longrightarrow> \<not> s"
  shows "r' \<longleftrightarrow> q = 0 \<and> \<not> done \<and> \<not> this_one"
  using assms by auto

definition topo_inv :: "execution_graph \<Rightarrow> (string, int) dict \<Rightarrow> string list \<Rightarrow> string list \<Rightarrow> bool" where
  "topo_inv g d ready order \<longleftrightarrow>
     (\<forall>c. dget d c = (if c \<in> set (graph_ids g) then Some (int (pending g (set order) c)) else None))
     \<and> distinct ready \<and> distinct order \<and> set order \<subseteq> set (graph_ids g)
     \<and> set ready = {c \<in> set (graph_ids g). pending g (set order) c = 0 \<and> c \<notin> set order}
     \<and> topo_sorted (by_id g) order"

lemma topo_inv_step:
  assumes g: "graph_ok g" and inv: "topo_inv g d (t # ready) order"
  shows "\<exists>d' ready'. release (succs g t) d ready = Inr (d', ready') \<and> topo_inv g d' ready' (order @ [t])"
proof -
  let ?P = "pending g (set order)" and ?P' = "pending g (set (order @ [t]))"
  note inv' = inv [unfolded topo_inv_def]
  have get: "dget d c = (if c \<in> set (graph_ids g) then Some (int (?P c)) else None)" for c using inv' by blast
  have rd: "set (t # ready) = {c \<in> set (graph_ids g). ?P c = 0 \<and> c \<notin> set order}"
    and dist: "distinct (t # ready)" "distinct order" using inv' by blast+
  from rd have t: "t \<in> set (graph_ids g)" "?P t = 0" "t \<notin> set order" by auto
  have P: "?P c = ?P' c + count_list (succs g t) c" if "c \<in> set (graph_ids g)" for c
    using pending_insert [OF t(3), of g c] count_succs_deps [OF g that] by simp
  have known: "\<forall>c \<in> set (succs g t). c \<in> set (graph_ids g)" by (simp add: succs_known)
  have pos: "?P c \<noteq> 0" if "c \<in> set (succs g t)" for c
    using P [of c] known that by (auto simp: count_list_0_iff)
  have "?P c = 0" if "c \<in> set ready" for c using rd that by auto
  then have "set (succs g t) \<inter> set ready = {}" using pos by blast
  moreover have "\<forall>c \<in> set (succs g t). int (count_list (succs g t) c) \<le> the (dget d c)"
    using known P by (auto simp: get)
  moreover have "\<forall>c \<in> set (succs g t). dmem c d" using known by (auto simp: dmem_def get)
  ultimately obtain d' ready' where r: "release (succs g t) d ready = Inr (d', ready')" "distinct ready'"
    "\<forall>c. dget d' c = map_option (\<lambda>n. n - int (count_list (succs g t) c)) (dget d c)"
    "set ready' = set ready \<union> {c \<in> set (succs g t). the (dget d c) = int (count_list (succs g t) c)}"
    using release_ok [of "succs g t" d ready] dist(1) by auto
  have get': "dget d' c = (if c \<in> set (graph_ids g) then Some (int (?P' c)) else None)" for c
    using r(3) get P [of c] by auto
  have t_succ: "t \<notin> set (succs g t)" using pos t(2) by blast
  have "c \<in> set ready' \<longleftrightarrow> c \<in> set (graph_ids g) \<and> ?P' c = 0 \<and> c \<notin> set (order @ [t])" for c
  proof (cases "c \<in> set (graph_ids g)")
    case False
    then show ?thesis using r(4) rd known by auto
  next
    case True
    have "c \<in> set ready \<longleftrightarrow> ?P c = 0 \<and> c \<notin> set order \<and> c \<noteq> t"
      using rd dist(1) True by (metis (mono_tags, lifting) distinct.simps(2) insert_iff list.simps(15) mem_Collect_eq)
    moreover have "c \<in> set (succs g t) \<longleftrightarrow> count_list (succs g t) c \<noteq> 0" by (simp add: count_list_0_iff)
    moreover have "c \<in> set order \<Longrightarrow> c \<notin> set (succs g t)"
    proof -
      assume c: "c \<in> set order"
      have "set (deps_of (by_id g) c) \<subseteq> set order"
        using inv' settled_deps [of "by_id g" "rev order" c] c by (auto simp: topo_sorted_def)
      with pos [of c] show ?thesis by (auto simp: pending_zero)
    qed
    moreover have "c \<in> set ready' \<longleftrightarrow> c \<in> set ready \<or> (c \<in> set (succs g t) \<and> ?P c = count_list (succs g t) c)"
      using r(4) True by (simp add: get)
    moreover have "c = t \<Longrightarrow> c \<notin> set (succs g t)" using t_succ by simp
    ultimately have "c \<in> set ready' \<longleftrightarrow> ?P' c = 0 \<and> c \<notin> set order \<and> c \<noteq> t"
      using P [OF True] by (intro ready_bookkeeping [of "?P c" "?P' c"]) blast+
    then show ?thesis using True by auto
  qed
  then have "set ready' = {c \<in> set (graph_ids g). ?P' c = 0 \<and> c \<notin> set (order @ [t])}" by blast
  moreover have "topo_sorted (by_id g) (order @ [t])"
    using inv' t(2) by (simp add: topo_sorted_def pending_zero)
  moreover have "\<forall>c. dget d' c = (if c \<in> set (graph_ids g) then Some (int (?P' c)) else None)"
    using get' by blast
  moreover have "distinct (order @ [t])" using dist(2) t(3) by simp
  moreover have "set (order @ [t]) \<subseteq> set (graph_ids g)" using inv' t(1) by simp
  ultimately have "topo_inv g d' ready' (order @ [t])"
    unfolding topo_inv_def using r(2) by (intro conjI)
  with r(1) show ?thesis by blast
qed

lemma topo_complete:
  assumes g: "graph_ok g" and inv: "topo_inv g d [] order"
  shows "set order = set (graph_ids g)"
proof -
  have "t \<in> set (graph_ids g) \<longrightarrow> t \<in> set order" for t
    using g
  proof (induction t rule: dep_induct)
    case (task t)
    then have "set (deps_of (by_id g) t) \<subseteq> set order" using graph_ok_known [OF g] by blast
    with inv show ?case by (auto simp: topo_inv_def pending_zero)
  qed
  with inv show ?thesis by (auto simp: topo_inv_def)
qed

lemma topo_loop_ok:
  assumes g: "graph_ok g" and succ: "\<And>t. t \<in> set (graph_ids g) \<Longrightarrow> dget succ t = Some (succs g t)"
  shows "topo_inv g d ready order \<Longrightarrow>
    \<exists>order' d'. topo_loop succ d ready order = Inr order' \<and> topo_inv g d' [] order'"
proof (induction "positive_indegree d + length ready" arbitrary: d ready order rule: less_induct)
  case less
  show ?case
  proof (cases ready)
    case Nil
    with less.prems show ?thesis by auto
  next
    case (Cons t rs)
    from topo_inv_step [OF g less.prems [unfolded Cons]] obtain d' ready' where
      r: "release (succs g t) d rs = Inr (d', ready')" "topo_inv g d' ready' (order @ [t])" by blast
    from less.prems Cons have "t \<in> set (graph_ids g)" by (auto simp: topo_inv_def)
    moreover from release_measure [OF r(1)] Cons
    have "positive_indegree d' + length ready' < positive_indegree d + length ready" by simp
    ultimately show ?thesis using less.hyps [OF _ r(2)] r(1) succ Cons by simp
  qed
qed

lemma zero_keys: "dict_ok d \<Longrightarrow> set (map fst (filter (\<lambda>(k, n). n = (0::int)) d)) = {c. dget d c = Some 0}"
  by (auto simp: dict_ok_def map_of_eq_Some_iff) force

lemma length_by_id: "distinct (graph_ids g) \<Longrightarrow> length (by_id g) = length (graph_ids g)"
  by (simp add: by_id_distinct graph_ids_def)

text \<open>The topological order of a valid graph.\<close>

lemma topological_order_ok:
  assumes g: "graph_ok g"
  obtains order where "topological_order g = Inr order" and "distinct order"
    and "set order = set (graph_ids g)" and "topo_sorted (by_id g) order"
proof -
  note dist = graph_ok_parts(1) [OF g]
  from successors_ok [OF g] obtain succ where
    succ: "successors g = Inr succ" "\<And>t. t \<in> set (graph_ids g) \<Longrightarrow> dget succ t = Some (succs g t)" by blast
  let ?d = "map (\<lambda>(k, t). (k, int (length (tc_dependencies t)))) (by_id g)"
  let ?ready = "sort (map fst (filter (\<lambda>(k, n). n = 0) ?d))"
  have get: "dget ?d c = (if c \<in> set (graph_ids g) then Some (int (pending g {} c)) else None)" for c
  proof (cases "dget (by_id g) c")
    case None
    then show ?thesis using dmem_by_id [of c g] by (simp add: map_of_map dmem_def)
  next
    case (Some t)
    then have "c \<in> set (graph_ids g)" using dmem_by_id [of c g] by (simp add: dmem_def)
    with Some show ?thesis by (simp add: map_of_map pending_def deps_of_def)
  qed
  have keys: "dkeys ?d = graph_ids g" by (simp add: by_id_distinct [OF dist] graph_ids_def)
  have "dict_ok ?d" using dist keys by (simp add: dict_ok_def)
  from zero_keys [OF this] have "set ?ready = {c \<in> set (graph_ids g). pending g {} c = 0}"
    by (simp only: set_sort get) (auto split: if_splits)
  moreover have "distinct ?ready"
    unfolding distinct_sort by (rule distinct_map_filter) (simp only: keys dist)
  moreover have "topo_sorted (by_id g) []" by (simp add: topo_sorted_def)
  ultimately have "topo_inv g ?d ?ready []"
    unfolding topo_inv_def by (simp add: get del: set_sort distinct_sort)
  from topo_loop_ok [OF g succ(2) this] obtain order d' where
    o: "topo_loop succ ?d ?ready [] = Inr order" "topo_inv g d' [] order" by blast
  have all: "set order = set (graph_ids g)" by (rule topo_complete [OF g o(2)])
  have "length order = length (by_id g)"
    using o(2) all dist by (simp add: topo_inv_def length_by_id distinct_card [symmetric])
  then have "topological_order g = Inr order" by (simp add: topological_order_def succ(1) o(1) Let_def)
  then show ?thesis
    using o(2) by (intro that [of order] all) (simp_all add: topo_inv_def)
qed

section \<open>Ranks are longest paths\<close>

definition rank_of :: "(string, int) dict \<Rightarrow> string \<Rightarrow> int" where
  "rank_of r t = the (dget r t)"

lemma lookup_all_ok:
  "\<forall>k \<in> set ks. dmem k d \<Longrightarrow> lookup_all missing d ks = Inr (map (\<lambda>k. the (dget d k)) ks)"
  by (induction ks) (auto simp: dmem_def)

text \<open>Processing a list in which every task comes after its successors.\<close>

fun after_succs :: "execution_graph \<Rightarrow> string set \<Rightarrow> string list \<Rightarrow> bool" where
  "after_succs g D [] \<longleftrightarrow> True"
| "after_succs g D (t # ts) \<longleftrightarrow> set (succs g t) \<subseteq> D \<and> after_succs g (insert t D) ts"

lemma after_succs_rev:
  assumes g: "graph_ok g" and dist: "distinct (xs @ ts)" and all: "set (xs @ ts) = set (graph_ids g)"
    and st: "settled (by_id g) ts"
  shows "after_succs g (set xs) ts"
  using dist all st
proof (induction ts arbitrary: xs)
  case Nil
  then show ?case by simp
next
  case (Cons t ts)
  have "set (succs g t) \<subseteq> set xs"
  proof
    fix c assume c: "c \<in> set (succs g t)"
    then have t: "t \<in> set (deps_of (by_id g) c)" using succs_iff [OF g] by blast
    from c have "c \<in> set (xs @ t # ts)" using succs_known Cons.prems(2) by metis
    moreover have "c \<notin> set (t # ts)"
    proof
      assume "c \<in> set (t # ts)"
      then have "t \<in> set ts"
        using Cons.prems(3) t settled_deps [of "by_id g" ts c t] by auto
      then show False using Cons.prems(1) by simp
    qed
    ultimately show "c \<in> set xs" by auto
  qed
  moreover have "after_succs g (set (xs @ [t])) ts"
    by (rule Cons.IH) (use Cons.prems in auto)
  ultimately show ?case by simp
qed

definition rank_equations :: "execution_graph \<Rightarrow> (string \<Rightarrow> bool) \<Rightarrow> (string, int) dict \<Rightarrow> (string, int) dict \<Rightarrow> string set \<Rightarrow> bool" where
  "rank_equations g included own r D \<longleftrightarrow>
     (\<forall>t. dmem t r \<longleftrightarrow> t \<in> D \<and> included t)
     \<and> (\<forall>t \<in> D. included t \<longrightarrow>
          rank_of r t = the (dget own t) + max_default (map (rank_of r) (filter included (succs g t))))"

lemma rank_loop_ok:
  assumes succ: "\<And>t. t \<in> set (graph_ids g) \<Longrightarrow> dget succ t = Some (succs g t)"
    and own: "\<And>t. t \<in> set (graph_ids g) \<Longrightarrow> included t \<Longrightarrow> dmem t own"
  shows "after_succs g D ts \<Longrightarrow> set ts \<subseteq> set (graph_ids g) \<Longrightarrow> distinct ts \<Longrightarrow> D \<inter> set ts = {} \<Longrightarrow>
    (\<forall>t \<in> D. set (succs g t) \<subseteq> D) \<Longrightarrow> rank_equations g included own ranks D \<Longrightarrow>
    \<exists>r. rank_loop succ included own ts ranks = Inr r \<and> rank_equations g included own r (D \<union> set ts)"
proof (induction ts arbitrary: D ranks)
  case Nil
  then show ?case by simp
next
  case (Cons t ts)
  from Cons.prems have t: "t \<in> set (graph_ids g)" "t \<notin> D" "set (succs g t) \<subseteq> D" by auto
  have next_prems: "after_succs g (insert t D) ts" "set ts \<subseteq> set (graph_ids g)" "distinct ts"
    "insert t D \<inter> set ts = {}" "\<forall>x \<in> insert t D. set (succs g x) \<subseteq> insert t D"
    using Cons.prems by auto
  note eqs = Cons.prems(6) [unfolded rank_equations_def]
  have "\<exists>ranks'. rank_loop succ included own (t # ts) ranks = rank_loop succ included own ts ranks'
      \<and> rank_equations g included own ranks' (insert t D)"
  proof (cases "included t")
    case False
    with eqs show ?thesis by (intro exI [of _ ranks]) (auto simp: rank_equations_def)
  next
    case True
    from own [OF t(1) True] obtain d where d: "dget own t = Some d" by (auto simp: dmem_def)
    let ?cs = "filter included (succs g t)"
    let ?r = "dset t (d + max_default (map (rank_of ranks) ?cs)) ranks"
    have "\<forall>k \<in> set ?cs. dmem k ranks" using eqs t(3) by auto
    from lookup_all_ok [OF this] have
      "rank_loop succ included own (t # ts) ranks = rank_loop succ included own ts ?r"
      using True d succ [OF t(1)] by (simp add: rank_of_def [abs_def])
    moreover have "rank_equations g included own ?r (insert t D)"
    proof -
      have same: "rank_of ?r x = rank_of ranks x" if "x \<in> D" for x
        using that t(2) by (auto simp: rank_of_def dget_dset)
      have sames: "map (rank_of ?r) (filter included (succs g x)) = map (rank_of ranks) (filter included (succs g x))"
        if "set (succs g x) \<subseteq> D" for x
        by (rule map_cong) (use that same in auto)
      have "rank_of ?r t = the (dget own t) + max_default (map (rank_of ?r) ?cs)"
        by (simp only: sames [OF t(3)]) (simp add: rank_of_def dget_dset d)
      moreover have "rank_of ?r x = the (dget own x) + max_default (map (rank_of ?r) (filter included (succs g x)))"
        if x: "x \<in> D" "included x" for x
      proof -
        have "set (succs g x) \<subseteq> D" using Cons.prems(5) x(1) by blast
        from sames [OF this] same [OF x(1)] show ?thesis using eqs x by metis
      qed
      ultimately show ?thesis
        using eqs True by (auto simp: rank_equations_def dmem_dset)
    qed
    ultimately show ?thesis by blast
  qed
  then obtain ranks' where "rank_loop succ included own (t # ts) ranks = rank_loop succ included own ts ranks'"
    "rank_equations g included own ranks' (insert t D)" by blast
  with Cons.IH [OF next_prems] show ?case by simp
qed

lemma ranks_of_ok:
  assumes g: "graph_ok g" and own: "\<And>t. t \<in> set (graph_ids g) \<Longrightarrow> included t \<Longrightarrow> dmem t own"
  obtains r where "ranks_of g included own = Inr r" and "rank_equations g included own r (set (graph_ids g))"
proof -
  from successors_ok [OF g] obtain succ where
    succ: "successors g = Inr succ" "\<And>t. t \<in> set (graph_ids g) \<Longrightarrow> dget succ t = Some (succs g t)" by blast
  from topological_order_ok [OF g] obtain order where
    o: "topological_order g = Inr order" "distinct order" "set order = set (graph_ids g)"
      "topo_sorted (by_id g) order" .
  have "after_succs g (set []) (rev order)"
    by (rule after_succs_rev [OF g]) (use o in \<open>simp_all add: topo_sorted_def\<close>)
  then have "\<exists>r. rank_loop succ included own (rev order) [] = Inr r
      \<and> rank_equations g included own r ({} \<union> set (rev order))"
    by (intro rank_loop_ok [OF succ(2) own]) (use o in \<open>simp_all add: rank_equations_def\<close>)
  then show ?thesis using that o succ(1) by (auto simp: ranks_of_def)
qed

text \<open>Paths of included tasks downstream, and their total duration.\<close>

fun is_path :: "execution_graph \<Rightarrow> (string \<Rightarrow> bool) \<Rightarrow> string list \<Rightarrow> bool" where
  "is_path g included [] \<longleftrightarrow> False"
| "is_path g included [t] \<longleftrightarrow> included t \<and> t \<in> set (graph_ids g)"
| "is_path g included (t # c # ts) \<longleftrightarrow>
     included t \<and> t \<in> set (deps_of (by_id g) c) \<and> is_path g included (c # ts)"

definition path_weight :: "(string, int) dict \<Rightarrow> string list \<Rightarrow> int" where
  "path_weight own ts = sum_list (map (\<lambda>t. the (dget own t)) ts)"

lemma is_path_included: "is_path g included (t # ts) \<Longrightarrow> included t"
  by (cases ts) auto

lemma max_default_nonneg: "(\<And>x. x \<in> set xs \<Longrightarrow> 0 \<le> x) \<Longrightarrow> 0 \<le> max_default xs"
  by (cases "xs = []") (auto simp: max_default_def [of "[]"] dest: max_default_in)

lemma succ_induct [consumes 1, case_names task]:
  assumes "graph_ok g" and "\<And>t. (\<And>c. c \<in> set (succs g t) \<Longrightarrow> P c) \<Longrightarrow> P t"
  shows "P t"
proof -
  have "wf ((dep_rel (by_id g))\<inverse>)"
    using finite_acyclic_wf_converse [OF finite_dep_rel graph_ok_acyclic] assms(1) by blast
  then show ?thesis
    by (induction t rule: wf_induct_rule) (auto simp: dep_rel_iff succs_iff [OF assms(1)] intro: assms(2))
qed

lemma rank_nonneg:
  assumes g: "graph_ok g" and eqs: "rank_equations g included own r (set (graph_ids g))"
    and nonneg: "\<And>t. t \<in> set (graph_ids g) \<Longrightarrow> included t \<Longrightarrow> 0 \<le> the (dget own t)"
  shows "t \<in> set (graph_ids g) \<longrightarrow> included t \<longrightarrow> 0 \<le> rank_of r t"
  using g
proof (induction t rule: succ_induct)
  case (task t)
  then have "0 \<le> max_default (map (rank_of r) (filter included (succs g t)))"
    by (intro max_default_nonneg) (auto dest: succs_known)
  with eqs nonneg show ?case by (auto simp: rank_equations_def)
qed

lemma rank_step:
  assumes g: "graph_ok g" and eqs: "rank_equations g included own r (set (graph_ids g))"
    and t: "included t" and c: "included c" "t \<in> set (deps_of (by_id g) c)"
  shows "the (dget own t) + rank_of r c \<le> rank_of r t"
proof -
  have "t \<in> set (graph_ids g)" using graph_ok_known [OF g c(2)] by simp
  moreover have "rank_of r c \<le> max_default (map (rank_of r) (filter included (succs g t)))"
    by (rule max_default_ge) (use c succs_iff [OF g] in auto)
  ultimately show ?thesis using eqs t by (simp add: rank_equations_def)
qed

lemma rank_bounds_paths:
  assumes g: "graph_ok g" and eqs: "rank_equations g included own r (set (graph_ids g))"
    and nonneg: "\<And>t. t \<in> set (graph_ids g) \<Longrightarrow> included t \<Longrightarrow> 0 \<le> the (dget own t)"
  shows "is_path g included (t # ts) \<Longrightarrow> path_weight own (t # ts) \<le> rank_of r t"
proof (induction ts arbitrary: t)
  case Nil
  have "0 \<le> max_default (map (rank_of r) (filter included (succs g t)))"
    using rank_nonneg [OF g eqs nonneg] by (intro max_default_nonneg) (auto dest: succs_known)
  with Nil eqs show ?case by (auto simp: path_weight_def rank_equations_def)
next
  case (Cons c ts)
  then have "path_weight own (c # ts) \<le> rank_of r c" "included t" "included c" "t \<in> set (deps_of (by_id g) c)"
    by (auto intro: is_path_included)
  with rank_step [OF g eqs, of t c] show ?case by (simp add: path_weight_def)
qed

lemma rank_is_a_path:
  assumes g: "graph_ok g" and eqs: "rank_equations g included own r (set (graph_ids g))"
  shows "t \<in> set (graph_ids g) \<longrightarrow> included t \<longrightarrow>
    (\<exists>ts. is_path g included (t # ts) \<and> path_weight own (t # ts) = rank_of r t)"
  using g
proof (induction t rule: succ_induct)
  case (task t)
  show ?case
  proof (intro impI)
    assume t: "t \<in> set (graph_ids g)" "included t"
    let ?cs = "filter included (succs g t)"
    from eqs t have rank: "rank_of r t = the (dget own t) + max_default (map (rank_of r) ?cs)"
      by (simp add: rank_equations_def)
    show "\<exists>ts. is_path g included (t # ts) \<and> path_weight own (t # ts) = rank_of r t"
    proof (cases "?cs = []")
      case True
      with rank t show ?thesis by (intro exI [of _ "[]"]) (simp add: path_weight_def max_default_def)
    next
      case False
      then have "max_default (map (rank_of r) ?cs) \<in> rank_of r ` set ?cs"
        using max_default_in [of "map (rank_of r) ?cs"] by simp
      then obtain c where c: "c \<in> set (succs g t)" "included c" "max_default (map (rank_of r) ?cs) = rank_of r c"
        by auto
      from task.IH [OF c(1)] succs_known [OF c(1)] c(2) obtain ts where
        ts: "is_path g included (c # ts)" "path_weight own (c # ts) = rank_of r c" by blast
      from c(1) have "t \<in> set (deps_of (by_id g) c)" using succs_iff [OF g] by blast
      with ts t(2) c(3) rank show ?thesis
        by (intro exI [of _ "c # ts"]) (simp add: path_weight_def)
    qed
  qed
qed

section \<open>Properties\<close>

text \<open>
  C34. A graph passes \<open>_validate_acyclic\<close> exactly when its dependency relation has no cycle, and an
  error of the search names a task on a cycle.
\<close>

theorem acyclicity_check_exact:
  assumes "graph_errors g = []"
  shows "(validate_acyclic g = Inr () \<longleftrightarrow> acyclic (dep_rel (by_id g)))
    \<and> (\<forall>e. validate_acyclic g = Inl e \<longrightarrow> (\<exists>c. (c, c) \<in> (dep_rel (by_id g))\<^sup>+ \<and> e = cycle_error c))"
  using validate_acyclic_iff [OF assms] validate_acyclic_error [OF assms] by blast

text \<open>
  For a graph that passes validation, \<open>topological_order\<close> raises nothing and returns every task
  exactly once, each after all the tasks it depends on.
\<close>

theorem topological_order_correct:
  assumes "graph_validate g = Inr ()"
  shows "\<exists>order. topological_order g = Inr order \<and> distinct order \<and> set order = set (graph_ids g)
    \<and> (\<forall>before t after. order = before @ t # after \<longrightarrow> set (deps_of (by_id g) t) \<subseteq> set before)"
proof -
  from assms have "graph_ok g" by (simp add: graph_ok_def)
  from topological_order_ok [OF this] obtain order where
    o: "topological_order g = Inr order" "distinct order" "set order = set (graph_ids g)"
      "topo_sorted (by_id g) order" .
  have "set (deps_of (by_id g) t) \<subseteq> set before" if "order = before @ t # after" for before t after
    using o(4) settled_split [of "by_id g" "rev after" t "rev before"] by (simp add: topo_sorted_def that)
  with o show ?thesis by blast
qed

text \<open>
  The upward rank of a task is the longest p95 path downstream of it: \<open>upward_ranks\<close> raises
  nothing on a valid graph with a profile for every task, no path of dependent tasks starting
  there is longer, and some path attains it.
\<close>

theorem upward_rank_is_longest_path:
  assumes "graph_validate g = Inr ()"
    and "\<forall>t \<in> set (graph_ids g). \<exists>p. dget profiles t = Some p \<and> 0 \<le> bp_duration_ms_p95 p"
  shows "\<exists>r. upward_ranks g profiles = Inr r
    \<and> (\<forall>t \<in> set (graph_ids g).
         (\<forall>ts. is_path g (\<lambda>_. True) (t # ts) \<longrightarrow> path_weight (profile_durations profiles) (t # ts) \<le> the (dget r t))
         \<and> (\<exists>ts. is_path g (\<lambda>_. True) (t # ts) \<and> path_weight (profile_durations profiles) (t # ts) = the (dget r t)))"
proof -
  from assms(1) have g: "graph_ok g" by (simp add: graph_ok_def)
  have get: "dget (profile_durations profiles) t = map_option bp_duration_ms_p95 (dget profiles t)" for t
    by (simp add: profile_durations_def map_of_map)
  have nonneg: "t \<in> set (graph_ids g) \<Longrightarrow> 0 \<le> the (dget (profile_durations profiles) t)" for t
    using assms(2) by (auto simp: get)
  have "t \<in> set (graph_ids g) \<Longrightarrow> dmem t (profile_durations profiles)" for t
    using assms(2) by (force simp: dmem_def get)
  from ranks_of_ok [OF g this, of "\<lambda>_. True"] obtain r where
    r: "ranks_of g (\<lambda>_. True) (profile_durations profiles) = Inr r"
      "rank_equations g (\<lambda>_. True) (profile_durations profiles) r (set (graph_ids g))" by auto
  from rank_bounds_paths [OF g r(2)] rank_is_a_path [OF g r(2)] nonneg show ?thesis
    by (intro exI [of _ r]) (auto simp: upward_ranks_def r(1) rank_of_def [symmetric])
qed


section \<open>A concrete graph\<close>

text \<open>Two required tasks, the second depending on the first, used by the witnesses.\<close>

definition sample_profile :: "string \<Rightarrow> backend_profile" where
  "sample_profile n =
     \<lparr>bp_name = n, bp_provider = ''local'', bp_duration_ms_p50 = 5, bp_duration_ms_p95 = 10, bp_input_tokens = 3,
      bp_output_tokens = 2, bp_cost_microusd = 4, bp_context_bytes = 8, bp_quality = 1,
      bp_failure_probability = 0, bp_profile_snapshot_digest = None, bp_cpu_time_ms = 0,
      bp_peak_memory_bytes = 0, bp_peak_vram_bytes = 0, bp_storage_read_bytes = 0, bp_storage_write_bytes = 0,
      bp_network_ingress_bytes = 0, bp_network_egress_bytes = 0, bp_min_bandwidth_bps = 0,
      bp_network_rtt_ms = 0, bp_egress_cost_microusd = 0\<rparr>"

definition sample_task :: "string \<Rightarrow> string list \<Rightarrow> task_contract" where
  "sample_task t ds =
     \<lparr>tc_task_id = t, tc_profiles = [sample_profile ''p''], tc_dependencies = ds,
      tc_effect = \<lparr>ef_kind = PURE, ef_resource = [], ef_requires_approval = False, ef_idempotency_key = None,
        ef_compensation = None\<rparr>,
      tc_optional = False, tc_value = 1, tc_min_quality = 0, tc_deadline_ms = None, tc_description = [],
      tc_input_ports = [], tc_output_ports = [], tc_adapter_requirements = None\<rparr>"

definition sample_graph :: execution_graph where
  "sample_graph = [sample_task ''a'' [], sample_task ''b'' [''a'']]"

lemma sample_errors: "graph_errors sample_graph = []"
  by code_simp

lemma sample_valid: "graph_validate sample_graph = Inr ()"
  by code_simp

theorem acyclicity_check_exact_witness:
  "validate_acyclic sample_graph = Inr () \<longleftrightarrow> acyclic (dep_rel (by_id sample_graph))"
  using acyclicity_check_exact [OF sample_errors] by blast

theorem topological_order_correct_witness:
  "\<exists>order. topological_order sample_graph = Inr order \<and> distinct order"
  using topological_order_correct [OF sample_valid] by blast

theorem upward_rank_is_longest_path_witness:
  "\<exists>r. upward_ranks sample_graph [(''a'', sample_profile ''p''), (''b'', sample_profile ''p'')] = Inr r"
proof -
  have "\<forall>t \<in> set (graph_ids sample_graph). \<exists>p. dget [(''a'', sample_profile ''p''), (''b'', sample_profile ''p'')] t
      = Some p \<and> 0 \<le> bp_duration_ms_p95 p"
    by (simp add: graph_ids_def sample_graph_def sample_task_def sample_profile_def)
  from upward_rank_is_longest_path [OF sample_valid this] show ?thesis by blast
qed

end
