(* ===== verification/Plan_Frontier.thy ===== *)
theory Plan_Frontier
  imports Exec_Graph
begin

text \<open>
  The joint admission test of \<open>src/agent_physics/scheduler.py\<close>: \<open>_future_plan_fits\<close> asks whether the
  protected tasks still to run can each be given a profile within the remaining budgets and the
  required success probability, by folding a Pareto frontier over the tasks
  (\<open>_pareto_minimal\<close>). A Python set of states is a list without regard to order and repetition.
\<close>

section \<open>The frontier\<close>

text \<open>Tokens, cost, context and success probability of a partial plan.\<close>

type_synonym plan_state = "int \<times> int \<times> int \<times> float64"

fun dominates :: "plan_state \<Rightarrow> plan_state \<Rightarrow> bool" where
  "dominates (t, c, x, s) (t', c', x', s') \<longleftrightarrow> t \<le> t' \<and> c \<le> c' \<and> x \<le> x' \<and> s \<ge> s'"

definition pareto_insert :: "plan_state list \<Rightarrow> plan_state \<Rightarrow> plan_state list" where
  "pareto_insert frontier candidate =
     (if list_ex (\<lambda>incumbent. dominates incumbent candidate) frontier then frontier
      else filter (\<lambda>incumbent. \<not> dominates candidate incumbent) frontier @ [candidate])"

definition pareto_minimal :: "plan_state list \<Rightarrow> plan_state list" where
  "pareto_minimal states = foldl pareto_insert [] (sorted_set states)"

definition effective_deadline :: "task_contract \<Rightarrow> int \<Rightarrow> int" where
  "effective_deadline t run_deadline =
     min (case tc_deadline_ms t of None \<Rightarrow> run_deadline | Some d \<Rightarrow> if d = 0 then run_deadline else d) run_deadline"

definition qualified_profiles :: "task_contract \<Rightarrow> backend_profile list" where
  "qualified_profiles t = filter (\<lambda>p. bp_quality p \<ge> tc_min_quality t) (tc_profiles t)"

definition timely_profiles :: "int \<Rightarrow> int \<Rightarrow> task_contract \<Rightarrow> backend_profile list" where
  "timely_profiles time_ms run_deadline t =
     filter (\<lambda>p. bp_quality p \<ge> tc_min_quality t
                \<and> time_ms + bp_duration_ms_p95 p \<le> effective_deadline t run_deadline) (tc_profiles t)"

fun plan_extend :: "plan_state \<Rightarrow> backend_profile \<Rightarrow> plan_state" where
  "plan_extend (t, c, x, s) p =
     (t + total_tokens p, c + bp_cost_microusd p, x + bp_context_bytes p, s * (1 - bp_failure_probability p))"

fun plan_within :: "int \<Rightarrow> int \<Rightarrow> int \<Rightarrow> plan_state \<Rightarrow> bool" where
  "plan_within tokens cost context (t, c, x, s) \<longleftrightarrow> t \<le> tokens \<and> c \<le> cost \<and> x \<le> context"

definition plan_candidates ::
  "int \<Rightarrow> int \<Rightarrow> int \<Rightarrow> plan_state list \<Rightarrow> backend_profile list \<Rightarrow> plan_state list" where
  "plan_candidates tokens cost context frontier profiles =
     filter (plan_within tokens cost context)
       (concat (map (\<lambda>state. map (plan_extend state) profiles) frontier))"

text \<open>The loop over the tasks; \<open>None\<close> is its early \<open>return False\<close>.\<close>

fun plan_loop ::
  "int \<Rightarrow> int \<Rightarrow> int \<Rightarrow> int \<Rightarrow> int \<Rightarrow> task_contract list \<Rightarrow> plan_state list \<Rightarrow> plan_state list option" where
  "plan_loop tokens cost context time_ms run_deadline [] frontier = Some frontier"
| "plan_loop tokens cost context time_ms run_deadline (t # ts) frontier =
     (let profiles = timely_profiles time_ms run_deadline t;
          candidates = plan_candidates tokens cost context frontier profiles
      in if profiles = [] then None
         else if candidates = [] then None
         else plan_loop tokens cost context time_ms run_deadline ts (pareto_minimal candidates))"

definition future_plan_fits ::
  "task_contract list \<Rightarrow> int \<Rightarrow> int \<Rightarrow> int \<Rightarrow> int \<Rightarrow> int \<Rightarrow> float64 \<Rightarrow> bool" where
  "future_plan_fits tasks tokens cost context time_ms run_deadline required =
     (if min (min tokens cost) context < 0 then False
      else if required > 1 then False
      else case plan_loop tokens cost context time_ms run_deadline (sort_key tc_task_id tasks) [(0, 0, 0, 1)] of
        None \<Rightarrow> False
      | Some frontier \<Rightarrow> list_ex (\<lambda>(t, c, x, s). s \<ge> required) frontier)"

section \<open>Pruning keeps a dominating state\<close>

lemma dominates_refl [simp]: "dominates a a"
  by (cases a) simp

lemma dominates_trans: "dominates a b \<Longrightarrow> dominates b c \<Longrightarrow> dominates a c"
  by (cases a; cases b; cases c) auto

text \<open>Every state of \<open>xs\<close> has a state of \<open>ys\<close> that is at least as good.\<close>

definition covers :: "plan_state list \<Rightarrow> plan_state list \<Rightarrow> bool" where
  "covers ys xs \<longleftrightarrow> (\<forall>x \<in> set xs. \<exists>y \<in> set ys. dominates y x)"

lemma covers_insert: "covers ys xs \<Longrightarrow> covers (pareto_insert ys c) (xs @ [c])"
proof -
  assume cov: "covers ys xs"
  show ?thesis
    unfolding covers_def
  proof (rule ballI)
    fix x assume "x \<in> set (xs @ [c])"
    then consider "x \<in> set xs" | "x = c" by auto
    then show "\<exists>y \<in> set (pareto_insert ys c). dominates y x"
    proof cases
      case 1
      with cov obtain y where y: "y \<in> set ys" "dominates y x" by (auto simp only: covers_def)
      have "y \<in> set (pareto_insert ys c) \<or> (c \<in> set (pareto_insert ys c) \<and> dominates c y)"
        using y(1) by (simp add: pareto_insert_def)
      with y(2) dominates_trans show ?thesis by blast
    next
      case 2
      have "c \<in> set (pareto_insert ys c) \<or> (\<exists>y \<in> set (pareto_insert ys c). dominates y c)"
        by (simp add: pareto_insert_def list_ex_iff)
      with 2 dominates_refl show ?thesis by blast
    qed
  qed
qed

lemma covers_foldl: "covers ys xs \<Longrightarrow> covers (foldl pareto_insert ys cs) (xs @ cs)"
proof (induction cs arbitrary: ys xs)
  case Nil
  then show ?case by simp
next
  case (Cons c cs)
  from Cons.IH [OF covers_insert [OF Cons.prems]] show ?case by simp
qed

lemma covers_pareto: "covers (pareto_minimal states) states"
  using covers_foldl [of "[]" "[]" "sorted_set states"] by (simp add: pareto_minimal_def covers_def)

lemma pareto_insert_subset: "set (pareto_insert ys c) \<subseteq> insert c (set ys)"
  by (auto simp: pareto_insert_def)

lemma pareto_subset: "set (pareto_minimal states) \<subseteq> set states"
proof -
  have "set (foldl pareto_insert ys cs) \<subseteq> set ys \<union> set cs" for ys cs
  proof (induction cs arbitrary: ys)
    case (Cons c cs)
    from Cons [of "pareto_insert ys c"] pareto_insert_subset [of ys c] show ?case by auto
  qed simp
  from this [of "[]" "sorted_set states"] show ?thesis by (simp add: pareto_minimal_def)
qed

text \<open>No state of the frontier dominates another.\<close>

definition antichain :: "plan_state list \<Rightarrow> bool" where
  "antichain ys \<longleftrightarrow> distinct ys \<and> (\<forall>a \<in> set ys. \<forall>b \<in> set ys. dominates a b \<longrightarrow> a = b)"

lemma antichain_insert: "antichain ys \<Longrightarrow> antichain (pareto_insert ys c)"
  by (auto simp: antichain_def pareto_insert_def list_ex_iff)

lemma antichain_pareto: "antichain (pareto_minimal states)"
proof -
  have "antichain ys \<Longrightarrow> antichain (foldl pareto_insert ys cs)" for ys cs
    by (induction cs arbitrary: ys) (simp_all add: antichain_insert)
  moreover have "antichain []" by (simp add: antichain_def)
  ultimately show ?thesis unfolding pareto_minimal_def by blast
qed

section \<open>Plans\<close>

definition plan_total :: "plan_state \<Rightarrow> backend_profile list \<Rightarrow> plan_state" where
  "plan_total s ps = foldl plan_extend s ps"

definition success_of :: "plan_state \<Rightarrow> float64" where
  "success_of s = (case s of (_, _, _, q) \<Rightarrow> q)"

definition state_ok :: "plan_state \<Rightarrow> bool" where
  "state_ok s \<longleftrightarrow> 0 \<le> success_of s \<and> success_of s \<le> 1"

lemma extend_mono:
  assumes "dominates a b" and "state_ok b" and "profile_ok p"
  shows "dominates (plan_extend a p) (plan_extend b p)"
  using assms profile_okD [OF assms(3)]
  by (cases a; cases b) (auto simp: state_ok_def success_of_def intro: float_mult_mono float_one_minus)

lemma extend_state_ok: "state_ok s \<Longrightarrow> profile_ok p \<Longrightarrow> state_ok (plan_extend s p)"
  using profile_okD [of p]
  by (cases s) (auto simp: state_ok_def success_of_def intro: float_simps)

lemma extend_grows: "profile_ok p \<Longrightarrow> plan_within t c x (plan_extend s p) \<Longrightarrow> plan_within t c x s"
  using profile_okD [of p] by (cases s) auto

lemma total_grows:
  "list_all profile_ok ps \<Longrightarrow> plan_within t c x (plan_total s ps) \<Longrightarrow> plan_within t c x s"
  by (induction ps arbitrary: s) (auto simp: plan_total_def intro: extend_grows)

lemma total_mono:
  "list_all profile_ok ps \<Longrightarrow> dominates a b \<Longrightarrow> state_ok a \<Longrightarrow> state_ok b \<Longrightarrow>
   dominates (plan_total a ps) (plan_total b ps)"
proof (induction ps arbitrary: a b)
  case (Cons p ps)
  then show ?case by (simp add: plan_total_def extend_mono extend_state_ok)
qed (simp add: plan_total_def)

lemma total_state_ok: "list_all profile_ok ps \<Longrightarrow> state_ok a \<Longrightarrow> state_ok (plan_total a ps)"
  by (induction ps arbitrary: a) (simp_all add: plan_total_def extend_state_ok)

lemma dominates_within: "dominates a b \<Longrightarrow> plan_within t c x b \<Longrightarrow> plan_within t c x a"
  by (cases a; cases b) auto

lemma dominates_success: "dominates a b \<Longrightarrow> success_of b \<le> success_of a"
  by (cases a; cases b) (simp add: success_of_def)

text \<open>A choice of one timely profile per task.\<close>

definition choice :: "int \<Rightarrow> int \<Rightarrow> task_contract list \<Rightarrow> backend_profile list \<Rightarrow> bool" where
  "choice time_ms run_deadline ts ps \<longleftrightarrow>
     list_all2 (\<lambda>t p. p \<in> set (timely_profiles time_ms run_deadline t)) ts ps"

definition tasks_ok :: "task_contract list \<Rightarrow> bool" where
  "tasks_ok ts \<longleftrightarrow> (\<forall>t \<in> set ts. \<forall>p \<in> set (tc_profiles t). profile_ok p)"

lemma choice_profiles_ok: "tasks_ok ts \<Longrightarrow> choice time_ms dl ts ps \<Longrightarrow> list_all profile_ok ps"
  unfolding choice_def
  by (rotate_tac 1, induction rule: list_all2_induct) (auto simp: tasks_ok_def timely_profiles_def)

lemma plan_loop_sound:
  "plan_loop t c x time_ms dl ts frontier = Some frontier' \<Longrightarrow> s' \<in> set frontier' \<Longrightarrow>
   \<forall>s \<in> set frontier. plan_within t c x s \<Longrightarrow>
   \<exists>s \<in> set frontier. \<exists>ps. choice time_ms dl ts ps \<and> plan_total s ps = s' \<and> plan_within t c x s'"
proof (induction ts arbitrary: frontier)
  case Nil
  then show ?case by (auto simp: choice_def plan_total_def)
next
  case (Cons task ts)
  let ?C = "plan_candidates t c x frontier (timely_profiles time_ms dl task)"
  from Cons.prems(1) have loop: "plan_loop t c x time_ms dl ts (pareto_minimal ?C) = Some frontier'"
    by (auto simp: Let_def split: if_splits)
  have "\<forall>s \<in> set (pareto_minimal ?C). plan_within t c x s"
    using pareto_subset [of ?C] by (auto simp: plan_candidates_def)
  from Cons.IH [OF loop Cons.prems(2) this] obtain m ps where
    m: "m \<in> set ?C" "choice time_ms dl ts ps" "plan_total m ps = s'" "plan_within t c x s'"
    using pareto_subset by blast
  from m(1) obtain s p where "s \<in> set frontier" "p \<in> set (timely_profiles time_ms dl task)" "m = plan_extend s p"
    by (auto simp: plan_candidates_def)
  with m show ?case
    by (intro bexI [of _ s] exI [of _ "p # ps"]) (simp_all add: choice_def plan_total_def)
qed

lemma candidates_iff:
  "m \<in> set (plan_candidates t c x frontier profiles) \<longleftrightarrow>
     plan_within t c x m \<and> (\<exists>a \<in> set frontier. \<exists>p \<in> set profiles. m = plan_extend a p)"
  by (simp add: plan_candidates_def image_iff) blast

lemma plan_loop_complete:
  "choice time_ms dl ts ps \<Longrightarrow> tasks_ok ts \<Longrightarrow> s \<in> set frontier \<Longrightarrow> \<forall>s \<in> set frontier. state_ok s \<Longrightarrow>
   plan_within t c x (plan_total s ps) \<Longrightarrow>
   \<exists>frontier'. plan_loop t c x time_ms dl ts frontier = Some frontier'
     \<and> (\<exists>s' \<in> set frontier'. dominates s' (plan_total s ps))"
proof (induction ts arbitrary: ps s frontier)
  case Nil
  then show ?case by (auto simp: choice_def plan_total_def intro: bexI [of _ s])
next
  case (Cons task ts)
  then obtain p qs where ps: "ps = p # qs" "p \<in> set (timely_profiles time_ms dl task)" "choice time_ms dl ts qs"
    by (auto simp: choice_def list_all2_Cons1)
  let ?C = "plan_candidates t c x frontier (timely_profiles time_ms dl task)"
  have okp: "profile_ok q" if "q \<in> set (timely_profiles time_ms dl task)" for q
    using Cons.prems(2) that by (auto simp: tasks_ok_def timely_profiles_def)
  have ts: "tasks_ok ts" using Cons.prems(2) by (simp add: tasks_ok_def)
  have "plan_within t c x (plan_total (plan_extend s p) qs)"
    using Cons.prems(5) by (simp add: ps plan_total_def)
  then have within: "plan_within t c x (plan_extend s p)"
    by (rule total_grows [OF choice_profiles_ok [OF ts ps(3)]])
  then have mem: "plan_extend s p \<in> set ?C"
    using Cons.prems(3) ps(2) by (auto simp: plan_candidates_def)
  have okC: "\<forall>m \<in> set ?C. state_ok m"
  proof
    fix m assume "m \<in> set ?C"
    then obtain a q where "a \<in> set frontier" "q \<in> set (timely_profiles time_ms dl task)" "m = plan_extend a q"
      unfolding candidates_iff by blast
    with Cons.prems(4) okp show "state_ok m" by (simp add: extend_state_ok)
  qed
  from covers_pareto [of ?C] mem obtain m where m: "m \<in> set (pareto_minimal ?C)" "dominates m (plan_extend s p)"
    by (auto simp: covers_def)
  have okm: "\<forall>m \<in> set (pareto_minimal ?C). state_ok m" using okC pareto_subset by blast
  have dom: "dominates (plan_total m qs) (plan_total (plan_extend s p) qs)"
    by (rule total_mono [OF choice_profiles_ok [OF ts ps(3)] m(2)]) (use okm m(1) okC mem in auto)
  have "plan_within t c x (plan_total m qs)"
    using dominates_within [OF dom] Cons.prems(5) by (simp add: ps plan_total_def)
  from Cons.IH [OF ps(3) ts m(1) okm this] obtain frontier' s' where
    f: "plan_loop t c x time_ms dl ts (pareto_minimal ?C) = Some frontier'"
      "s' \<in> set frontier'" "dominates s' (plan_total m qs)" by blast
  have "plan_loop t c x time_ms dl (task # ts) frontier = Some frontier'"
    using f(1) mem ps(2) by (auto simp: Let_def)
  moreover have "dominates s' (plan_total s ps)"
    using dominates_trans [OF f(3) dom] by (simp add: ps plan_total_def)
  ultimately show ?case using f(2) by blast
qed

section \<open>Properties\<close>

text \<open>
  C35. The admission test is exact. For tasks with valid profiles, \<open>_future_plan_fits\<close> answers
  \<open>True\<close> if and only if there is a choice of one timely profile per task, in task order, whose
  summed tokens, cost and context stay within the remaining budgets and whose success probability
  reaches the required one. In particular discarding dominated states loses no plan.
\<close>

theorem future_plan_fits_exact:
  assumes "\<forall>t \<in> set tasks. \<forall>p \<in> set (tc_profiles t). validate_profile p (tc_task_id t) = []"
  shows "future_plan_fits tasks tokens cost context time_ms run_deadline required \<longleftrightarrow>
    (\<exists>ps. choice time_ms run_deadline (sort_key tc_task_id tasks) ps
       \<and> plan_within tokens cost context (plan_total (0, 0, 0, 1) ps)
       \<and> required \<le> success_of (plan_total (0, 0, 0, 1) ps))"
  (is "?L \<longleftrightarrow> ?R")
proof -
  let ?ts = "sort_key tc_task_id tasks"
  have ok: "tasks_ok ?ts" using assms by (simp add: tasks_ok_def validate_profile_Nil)
  have ok0: "state_ok (0, 0, 0, 1)" by (simp add: state_ok_def success_of_def)
  show ?thesis
  proof
    assume ?L
    then obtain frontier s where f: "plan_loop tokens cost context time_ms run_deadline ?ts [(0, 0, 0, 1)] = Some frontier"
      "s \<in> set frontier" "required \<le> success_of s" "0 \<le> tokens" "0 \<le> cost" "0 \<le> context"
      by (auto simp: future_plan_fits_def list_ex_iff success_of_def split: if_splits option.splits)
    from plan_loop_sound [OF f(1,2)] f(4-6) obtain ps where
      "choice time_ms run_deadline ?ts ps" "plan_total (0, 0, 0, 1) ps = s" "plan_within tokens cost context s"
      by auto
    with f(3) show ?R by blast
  next
    assume ?R
    then obtain ps where ps: "choice time_ms run_deadline ?ts ps"
      "plan_within tokens cost context (plan_total (0, 0, 0, 1) ps)"
      "required \<le> success_of (plan_total (0, 0, 0, 1) ps)" by blast
    note okps = choice_profiles_ok [OF ok ps(1)]
    have "required \<le> 1" using ps(3) total_state_ok [OF okps ok0] unfolding state_ok_def by (meson order_trans)
    moreover have "plan_within tokens cost context (0, 0, 0, 1)" by (rule total_grows [OF okps ps(2)])
    moreover have "\<exists>frontier. plan_loop tokens cost context time_ms run_deadline ?ts [(0, 0, 0, 1)] = Some frontier
        \<and> (\<exists>s \<in> set frontier. dominates s (plan_total (0, 0, 0, 1) ps))"
      by (rule plan_loop_complete [OF ps(1) ok]) (use ps(2) ok0 in simp_all)
    then obtain frontier s where "plan_loop tokens cost context time_ms run_deadline ?ts [(0, 0, 0, 1)] = Some frontier"
      "s \<in> set frontier" "dominates s (plan_total (0, 0, 0, 1) ps)" by blast
    moreover from this(3) ps(3) have "required \<le> success_of s" using dominates_success by (meson order_trans)
    then have "case s of (t, c, x, q) \<Rightarrow> required \<le> q" by (simp add: success_of_def split: prod.splits)
    ultimately show ?L
      by (simp add: future_plan_fits_def list_ex_iff not_less min_less_iff_disj) blast
  qed
qed

text \<open>
  \<open>_pareto_minimal\<close> returns a true Pareto frontier: its states are among the given ones, none
  dominates another, and every given state is dominated by one it keeps.
\<close>

theorem pareto_minimal_is_frontier:
  "set (pareto_minimal states) \<subseteq> set states
   \<and> (\<forall>a \<in> set (pareto_minimal states). \<forall>b \<in> set (pareto_minimal states). dominates a b \<longrightarrow> a = b)
   \<and> (\<forall>s \<in> set states. \<exists>m \<in> set (pareto_minimal states). dominates m s)"
  using pareto_subset covers_pareto antichain_pareto by (simp add: covers_def antichain_def)

theorem pareto_minimal_is_frontier_witness:
  "\<exists>m \<in> set (pareto_minimal [(3, 3, 3, 1), (2, 2, 2, 1)]). dominates m (3, 3, 3, 1)"
  using pareto_minimal_is_frontier [of "[(3, 3, 3, 1), (2, 2, 2, 1)]"] by simp

theorem future_plan_fits_exact_witness:
  "future_plan_fits sample_graph 20 20 20 0 50 1 \<longleftrightarrow>
    (\<exists>ps. choice 0 50 (sort_key tc_task_id sample_graph) ps
       \<and> plan_within 20 20 20 (plan_total (0, 0, 0, 1) ps) \<and> 1 \<le> success_of (plan_total (0, 0, 0, 1) ps))"
  by (rule future_plan_fits_exact) code_simp

end
