(* ===== verification/Scheduler.thy ===== *)
theory Scheduler
  imports Plan_Frontier
begin

text \<open>
  \<open>src/agent_physics/scheduler.py\<close> and \<open>events.py\<close>: the discrete-event planner.

  The local variables of \<open>Scheduler.schedule\<close> are the record \<open>sched_state\<close>, what it computes before the
  loop is the record \<open>sched_ctx\<close>, and the body of \<open>while len(completed) + len(skipped) < len(by_id)\<close>
  is \<open>iteration\<close>, built from the dispatch loop and the completion loop. The heap of running tasks is
  a list ordered by end time and tie breaker, which is unique, so its head is \<open>running[0]\<close>. Python
  sets are lists. A \<open>flow\<close> says how a loop ends: by an exception, by \<open>return fail(...)\<close>, or
  normally with the flag \<open>dispatched\<close>. The outer loop takes fuel, and \<open>schedule\<close> supplies one unit
  more than there are tasks; that this is always enough is proved in \<open>Scheduler_Run\<close>.
\<close>

section \<open>Events, entries and results\<close>

datatype event_type =
    RUN_STARTED | PROFILE_SELECTED | TASK_STARTED | TASK_COMPLETED | TASK_CANCELLED | TASK_SKIPPED
  | RUN_COMPLETED | RUN_FAILED

fun event_type_value :: "event_type \<Rightarrow> string" where
  "event_type_value RUN_STARTED = ''run.started''"
| "event_type_value PROFILE_SELECTED = ''task.profile_selected''"
| "event_type_value TASK_STARTED = ''task.started''"
| "event_type_value TASK_COMPLETED = ''task.completed''"
| "event_type_value TASK_CANCELLED = ''task.cancelled''"
| "event_type_value TASK_SKIPPED = ''task.skipped''"
| "event_type_value RUN_COMPLETED = ''run.completed''"
| "event_type_value RUN_FAILED = ''run.failed''"

record event =
  ev_sequence :: int
  ev_time_ms :: int
  ev_type :: event_type
  ev_task_id :: "string option"
  ev_details :: "(string \<times> json) list"

definition event_dict :: "event \<Rightarrow> json" where
  "event_dict e =
     JObj [(''sequence'', JInt (ev_sequence e)), (''time_ms'', JInt (ev_time_ms e)),
           (''event_type'', JStr (event_type_value (ev_type e))), (''task_id'', jopt JStr (ev_task_id e)),
           (''details'', JObj (dict_of (ev_details e)))]"

datatype schedule_policy = ADAPTIVE | STATIC_PARALLEL | SEQUENTIAL

fun policy_value :: "schedule_policy \<Rightarrow> string" where
  "policy_value ADAPTIVE = ''adaptive''"
| "policy_value STATIC_PARALLEL = ''static_parallel''"
| "policy_value SEQUENTIAL = ''sequential''"

record schedule_entry =
  se_task_id :: string
  se_backend :: string
  se_provider :: string
  se_start_ms :: int
  se_end_ms :: int
  se_tokens :: int
  se_cost_microusd :: int
  se_context_bytes :: int
  se_success_probability :: float64
  se_optional :: bool
  se_outcome :: string

record schedule_result =
  sr_policy :: schedule_policy
  sr_success :: bool
  sr_makespan_ms :: int
  sr_model_bound_ms :: int
  sr_total_tokens :: int
  sr_total_cost_microusd :: int
  sr_total_context_bytes :: int
  sr_modeled_success_probability :: float64
  sr_entries :: "schedule_entry list"
  sr_skipped :: "string list"
  sr_events :: "event list"
  sr_failure_reason :: "string option"

section \<open>Before the loop\<close>

text \<open>\<open>_fastest_qualified\<close>; \<open>min\<close> of no profiles raises.\<close>

definition fastest_qualified :: "task_contract \<Rightarrow> py_error + backend_profile" where
  "fastest_qualified t =
     (case min_by (\<lambda>p. (bp_duration_ms_p95 p, bp_cost_microusd p)) (qualified_profiles t) of
        None \<Rightarrow> Inl (ValueError ''min() arg is an empty sequence'')
      | Some p \<Rightarrow> Inr p)"

fun reference_profiles ::
  "task_contract list \<Rightarrow> (string, backend_profile) dict \<Rightarrow> py_error + (string, backend_profile) dict" where
  "reference_profiles [] d = Inr d"
| "reference_profiles (t # ts) d =
     (case fastest_qualified t of
        Inl e \<Rightarrow> Inl e
      | Inr p \<Rightarrow> reference_profiles ts (dset (tc_task_id t) p d))"

text \<open>\<open>_protected_task_ids\<close>: required tasks and everything they need, by a stack.\<close>

fun push_new :: "string list \<Rightarrow> string list \<Rightarrow> string list \<Rightarrow> string list \<times> string list" where
  "push_new [] protected stack = (protected, stack)"
| "push_new (d # ds) protected stack =
     (if d \<notin> set protected then push_new ds (d # protected) (d # stack) else push_new ds protected stack)"

definition mentioned_ids :: "(string, task_contract) dict \<Rightarrow> string set" where
  "mentioned_ids b = set (concat (map tc_dependencies (dvalues b)))"

lemma push_new_measure:
  assumes "set ds \<subseteq> X" and "finite X" and "push_new ds protected stack = (protected', stack')"
  shows "card (X - set protected') < card (X - set protected)
    \<or> (protected' = protected \<and> stack' = stack)"
  using assms
proof (induction ds arbitrary: protected stack)
  case Nil
  then show ?case by simp
next
  case (Cons d ds)
  show ?case
  proof (cases "d \<in> set protected")
    case True
    with Cons show ?thesis by simp
  next
    case False
    with Cons.prems have "card (X - set (d # protected)) < card (X - set protected)"
      by (intro psubset_card_mono) auto
    with Cons.IH [of "d # protected" "d # stack"] Cons.prems False show ?thesis by auto
  qed
qed

lemma protected_measure:
  assumes "dget b t = Some task" and "push_new (tc_dependencies task) protected stack = (protected', stack')"
  shows "card (mentioned_ids b - set protected') < card (mentioned_ids b - set protected)
    \<or> (protected' = protected \<and> stack' = stack)"
proof (rule push_new_measure [OF _ _ assms(2)])
  show "set (tc_dependencies task) \<subseteq> mentioned_ids b"
    using dget_in_dvalues [OF assms(1)] by (auto simp: mentioned_ids_def)
  show "finite (mentioned_ids b)" by (simp add: mentioned_ids_def)
qed

function protected_loop ::
  "(string, task_contract) dict \<Rightarrow> string list \<Rightarrow> string list \<Rightarrow> py_error + string list" where
  "protected_loop b protected [] = Inr protected"
| "protected_loop b protected (t # stack) =
     (case dget b t of
        None \<Rightarrow> Inl (KeyError t)
      | Some task \<Rightarrow>
          (case push_new (tc_dependencies task) protected stack of
             (protected', stack') \<Rightarrow> protected_loop b protected' stack'))"
  by pat_completeness auto

termination
  by (relation "measures [\<lambda>(b, protected, stack). card (mentioned_ids b - set protected),
      \<lambda>(b, protected, stack). length stack]")
    (auto split: prod.splits dest: protected_measure)

definition protected_task_ids :: "execution_graph \<Rightarrow> py_error + string list" where
  "protected_task_ids g =
     (let required = remdups (map tc_task_id (filter (\<lambda>t. \<not> tc_optional t) g))
      in protected_loop (by_id g) required required)"

definition upward_ranks_for_tasks ::
  "execution_graph \<Rightarrow> (string, backend_profile) dict \<Rightarrow> string list \<Rightarrow> py_error + (string, int) dict" where
  "upward_ranks_for_tasks g profiles included =
     ranks_of g (\<lambda>t. t \<in> set included) (profile_durations profiles)"

text \<open>\<open>_duration_lower_bound\<close>: the longest path, the total work over the parallelism, and the work of
  each provider over its limit.\<close>

definition ceil_div :: "int \<Rightarrow> int \<Rightarrow> int" where
  "ceil_div n d = (n + d - 1) div d"

fun provider_work ::
  "(string, string) dict \<Rightarrow> (string \<times> int) list \<Rightarrow> (string, int) dict \<Rightarrow> py_error + (string, int) dict" where
  "provider_work providers [] work = Inr work"
| "provider_work providers ((t, d) # ds) work =
     (case dget providers t of
        None \<Rightarrow> Inl (KeyError t)
      | Some p \<Rightarrow>
          provider_work providers ds (dset p ((case dget work p of None \<Rightarrow> 0 | Some w \<Rightarrow> w) + d) work))"

definition provider_capacity :: "run_envelope \<Rightarrow> string \<Rightarrow> int" where
  "provider_capacity env p = min (provider_limit env p) (re_max_parallelism env)"

definition duration_lower_bound ::
  "execution_graph \<Rightarrow> (string, int) dict \<Rightarrow> (string, string) dict \<Rightarrow> run_envelope \<Rightarrow> py_error + int" where
  "duration_lower_bound g durations providers env =
     (if durations = [] then Inr 0
      else case ranks_of g (\<lambda>t. dmem t durations) durations of
        Inl e \<Rightarrow> Inl e
      | Inr ranks \<Rightarrow>
          (case provider_work providers durations [] of
             Inl e \<Rightarrow> Inl e
           | Inr work \<Rightarrow>
               Inr (max (max (max_default (dvalues ranks))
                          (ceil_div (sum_list (dvalues durations)) (re_max_parallelism env)))
                     (max_default (map (\<lambda>(p, d). ceil_div d (provider_capacity env p)) work)))))"

definition profile_lower_bound ::
  "execution_graph \<Rightarrow> (string, backend_profile) dict \<Rightarrow> run_envelope \<Rightarrow> string list \<Rightarrow> py_error + int" where
  "profile_lower_bound g profiles env included =
     (let kept = filter (\<lambda>(t, p). t \<in> set included) profiles
      in duration_lower_bound g (profile_durations kept) (map (\<lambda>(t, p). (t, bp_provider p)) kept) env)"

definition entry_lower_bound :: "execution_graph \<Rightarrow> schedule_entry list \<Rightarrow> run_envelope \<Rightarrow> py_error + int" where
  "entry_lower_bound g entries env =
     duration_lower_bound g
       (dict_of (map (\<lambda>e. (se_task_id e, se_end_ms e - se_start_ms e)) entries))
       (dict_of (map (\<lambda>e. (se_task_id e, se_provider e)) entries)) env"

record sched_ctx =
  cx_graph :: execution_graph
  cx_envelope :: run_envelope
  cx_policy :: schedule_policy
  cx_by_id :: "(string, task_contract) dict"
  cx_protected :: "string list"
  cx_reference :: "(string, backend_profile) dict"
  cx_ranks :: "(string, int) dict"
  cx_protected_ranks :: "(string, int) dict"
  cx_model_bound :: int

definition sched_context :: "execution_graph \<Rightarrow> run_envelope \<Rightarrow> schedule_policy \<Rightarrow> py_error + sched_ctx" where
  "sched_context g env policy =
     (case protected_task_ids g of Inl e \<Rightarrow> Inl e
      | Inr protected \<Rightarrow>
     (case reference_profiles g [] of Inl e \<Rightarrow> Inl e
      | Inr reference \<Rightarrow>
     (case upward_ranks g reference of Inl e \<Rightarrow> Inl e
      | Inr ranks \<Rightarrow>
     (case upward_ranks_for_tasks g reference protected of Inl e \<Rightarrow> Inl e
      | Inr protected_ranks \<Rightarrow>
     (case profile_lower_bound g reference env protected of Inl e \<Rightarrow> Inl e
      | Inr bound \<Rightarrow>
          Inr \<lparr>cx_graph = g, cx_envelope = env, cx_policy = policy, cx_by_id = by_id g, cx_protected = protected,
               cx_reference = reference, cx_ranks = ranks, cx_protected_ranks = protected_ranks,
               cx_model_bound = bound\<rparr>)))))"

section \<open>The state of the loop\<close>

type_synonym running_task = "int \<times> nat \<times> string \<times> backend_profile"

record sched_state =
  ss_time_ms :: int
  ss_sequence :: int
  ss_events :: "event list"
  ss_entries :: "schedule_entry list"
  ss_skipped :: "string list"
  ss_completed :: "string list"
  ss_started :: "string list"
  ss_running :: "running_task list"
  ss_provider_running :: "(string, int) dict"
  ss_active_effects :: "(string, effect_class list) dict"
  ss_used_tokens :: int
  ss_used_cost :: int
  ss_used_context :: int
  ss_success_probability :: float64
  ss_tie_breaker :: nat

definition sched_init :: sched_state where
  "sched_init =
     \<lparr>ss_time_ms = 0, ss_sequence = 0, ss_events = [], ss_entries = [], ss_skipped = [], ss_completed = [],
      ss_started = [], ss_running = [], ss_provider_running = [], ss_active_effects = [],
      ss_used_tokens = 0, ss_used_cost = 0, ss_used_context = 0, ss_success_probability = 1,
      ss_tie_breaker = 0\<rparr>"

definition emit :: "event_type \<Rightarrow> string option \<Rightarrow> (string \<times> json) list \<Rightarrow> sched_state \<Rightarrow> sched_state" where
  "emit etype task_id details st =
     st\<lparr>ss_sequence := ss_sequence st + 1,
        ss_events := ss_events st
          @ [\<lparr>ev_sequence = ss_sequence st + 1, ev_time_ms = ss_time_ms st, ev_type = etype,
              ev_task_id = task_id, ev_details = details\<rparr>]\<rparr>"

text \<open>\<open>set_outcome\<close>: the first entry of the task.\<close>

fun replace_entry :: "string \<Rightarrow> string \<Rightarrow> int \<Rightarrow> schedule_entry list \<Rightarrow> schedule_entry list option" where
  "replace_entry task_id outcome end_ms [] = None"
| "replace_entry task_id outcome end_ms (e # es) =
     (if se_task_id e = task_id then Some (e\<lparr>se_outcome := outcome, se_end_ms := end_ms\<rparr> # es)
      else map_option (Cons e) (replace_entry task_id outcome end_ms es))"

definition set_outcome :: "string \<Rightarrow> string \<Rightarrow> int \<Rightarrow> sched_state \<Rightarrow> py_error + sched_state" where
  "set_outcome task_id outcome end_ms st =
     (case replace_entry task_id outcome end_ms (ss_entries st) of
        None \<Rightarrow> Inl (RuntimeError (''missing schedule entry for started task '' @ py_repr task_id))
      | Some es \<Rightarrow> Inr (st\<lparr>ss_entries := es\<rparr>))"

section \<open>Failing\<close>

fun cancel_running :: "running_task list \<Rightarrow> sched_state \<Rightarrow> py_error + sched_state" where
  "cancel_running [] st = Inr (st\<lparr>ss_running := []\<rparr>)"
| "cancel_running ((end_ms, tie, task_id, profile) # rs) st =
     (case set_outcome task_id ''cancelled'' (ss_time_ms st) st of
        Inl e \<Rightarrow> Inl e
      | Inr st' \<Rightarrow>
          cancel_running rs (emit TASK_CANCELLED (Some task_id) [(''reason'', JStr ''run refused'')] st'))"

definition entry_key :: "schedule_entry \<Rightarrow> int \<times> string" where
  "entry_key e = (se_start_ms e, se_task_id e)"

text \<open>\<open>_failure\<close>.\<close>

definition failure_result :: "sched_ctx \<Rightarrow> string \<Rightarrow> sched_state \<Rightarrow> schedule_result" where
  "failure_result cx reason st =
     (let st' = emit RUN_FAILED None [(''reason'', JStr reason)] st
      in \<lparr>sr_policy = cx_policy cx, sr_success = False, sr_makespan_ms = ss_time_ms st',
          sr_model_bound_ms = cx_model_bound cx, sr_total_tokens = ss_used_tokens st',
          sr_total_cost_microusd = ss_used_cost st', sr_total_context_bytes = ss_used_context st',
          sr_modeled_success_probability = ss_success_probability st',
          sr_entries = sort_key entry_key (ss_entries st'), sr_skipped = sort (ss_skipped st'),
          sr_events = ss_events st', sr_failure_reason = Some reason\<rparr>)"

definition fail_run :: "sched_ctx \<Rightarrow> string \<Rightarrow> sched_state \<Rightarrow> py_error + schedule_result" where
  "fail_run cx reason st =
     (case cancel_running (ss_running st) st of
        Inl e \<Rightarrow> Inl e
      | Inr st' \<Rightarrow> Inr (failure_result cx reason st'))"

datatype flow = Raise py_error | Refuse string sched_state | Continue bool sched_state

section \<open>Skipping\<close>

definition skip_task :: "task_contract \<Rightarrow> (string \<times> json) list \<Rightarrow> sched_state \<Rightarrow> sched_state" where
  "skip_task t details st =
     emit TASK_SKIPPED (Some (tc_task_id t)) details (st\<lparr>ss_skipped := ss_skipped st @ [tc_task_id t]\<rparr>)"

definition blocked_by_skipped :: "sched_ctx \<Rightarrow> sched_state \<Rightarrow> task_contract list" where
  "blocked_by_skipped cx st =
     filter (\<lambda>t. tc_task_id t \<notin> set (ss_started st) \<and> tc_task_id t \<notin> set (ss_skipped st)
               \<and> list_ex (\<lambda>d. d \<in> set (ss_skipped st)) (tc_dependencies t)) (cx_graph cx)"

fun skip_blocked :: "task_contract list \<Rightarrow> sched_state \<Rightarrow> flow" where
  "skip_blocked [] st = Continue True st"
| "skip_blocked (t # ts) st =
     (let missing = sorted_set (filter (\<lambda>d. d \<in> set (ss_skipped st)) (tc_dependencies t))
      in if \<not> tc_optional t then
           Refuse (''required task '' @ py_repr (tc_task_id t) @ '' depends on skipped work ''
             @ py_list_repr missing) st
         else skip_blocked ts
           (skip_task t [(''reason'', JStr ''dependency skipped''), (''dependencies'', JArr (map JStr missing))] st))"

section \<open>Dispatching\<close>

definition ready_tasks :: "sched_ctx \<Rightarrow> sched_state \<Rightarrow> task_contract list" where
  "ready_tasks cx st =
     filter (\<lambda>t. tc_task_id t \<notin> set (ss_started st) \<and> tc_task_id t \<notin> set (ss_skipped st)
               \<and> list_all (\<lambda>d. d \<in> set (ss_completed st)) (tc_dependencies t)) (cx_graph cx)"

definition rank_table :: "sched_ctx \<Rightarrow> string \<Rightarrow> (string, int) dict" where
  "rank_table cx t = (if t \<in> set (cx_protected cx) then cx_protected_ranks cx else cx_ranks cx)"

definition lookup :: "('k \<Rightarrow> py_error) \<Rightarrow> ('k, 'v) dict \<Rightarrow> 'k \<Rightarrow> py_error + 'v" where
  "lookup missing d k = (case dget d k of None \<Rightarrow> Inl (missing k) | Some v \<Rightarrow> Inr v)"

type_synonym ready_key = "bool \<times> int \<times> int \<times> float64 \<times> string"

definition urgency_key :: "sched_ctx \<Rightarrow> int \<Rightarrow> task_contract \<Rightarrow> py_error + ready_key" where
  "urgency_key cx time_ms t =
     (let deadline = re_deadline_ms (cx_envelope cx) in
      case lookup KeyError (cx_reference cx) (tc_task_id t) of Inl e \<Rightarrow> Inl e
      | Inr reference \<Rightarrow>
     (case lookup KeyError (rank_table cx (tc_task_id t)) (tc_task_id t) of Inl e \<Rightarrow> Inl e
      | Inr rank \<Rightarrow>
          (let task_slack = effective_deadline t deadline - time_ms - bp_duration_ms_p95 reference;
               run_slack = deadline - time_ms - rank
           in Inr (tc_task_id t \<notin> set (cx_protected cx), min task_slack run_slack, - rank, - tc_value t,
                   tc_task_id t))))"

fun map_error :: "('a \<Rightarrow> py_error + 'b) \<Rightarrow> 'a list \<Rightarrow> py_error + 'b list" where
  "map_error f [] = Inr []"
| "map_error f (x # xs) =
     (case f x of Inl e \<Rightarrow> Inl e
      | Inr y \<Rightarrow> (case map_error f xs of Inl e \<Rightarrow> Inl e | Inr ys \<Rightarrow> Inr (y # ys)))"

definition sort_ready :: "sched_ctx \<Rightarrow> int \<Rightarrow> task_contract list \<Rightarrow> py_error + task_contract list" where
  "sort_ready cx time_ms ready =
     (if cx_policy cx = ADAPTIVE then
        (case map_error (urgency_key cx time_ms) ready of
           Inl e \<Rightarrow> Inl e
         | Inr keys \<Rightarrow> Inr (map snd (sort_key fst (zip keys ready))))
      else Inr (sort_key tc_task_id ready))"

text \<open>The success probability the rest of the plan must reach once \<open>used\<close> is committed.\<close>

definition required_success :: "run_envelope \<Rightarrow> float64 \<Rightarrow> backend_profile \<Rightarrow> float64" where
  "required_success env used p =
     (let committed = used * (1 - bp_failure_probability p)
      in if committed > 0 then re_min_success env / committed
         else if re_min_success env = 0 then 0 else float_of 2)"

definition profile_feasible ::
  "task_contract \<Rightarrow> run_envelope \<Rightarrow> sched_state \<Rightarrow> task_contract list \<Rightarrow> backend_profile \<Rightarrow> bool" where
  "profile_feasible t env st remaining p \<longleftrightarrow>
     ss_used_tokens st + total_tokens p \<le> re_max_tokens env
     \<and> ss_used_cost st + bp_cost_microusd p \<le> re_max_cost_microusd env
     \<and> ss_used_context st + bp_context_bytes p \<le> re_max_context_bytes env
     \<and> ss_time_ms st + bp_duration_ms_p95 p \<le> effective_deadline t (re_deadline_ms env)
     \<and> future_plan_fits remaining
         (re_max_tokens env - ss_used_tokens st - total_tokens p)
         (re_max_cost_microusd env - ss_used_cost st - bp_cost_microusd p)
         (re_max_context_bytes env - ss_used_context st - bp_context_bytes p)
         (ss_time_ms st) (re_deadline_ms env)
         (required_success env (ss_success_probability st) p)"

definition profile_preference ::
  "backend_profile \<Rightarrow> int \<times> int \<times> int \<times> float64 \<times> float64 \<times> int \<times> string \<times> string" where
  "profile_preference p =
     (bp_cost_microusd p, total_tokens p, bp_context_bytes p, bp_failure_probability p, - bp_quality p,
      bp_duration_ms_p95 p, bp_provider p, bp_name p)"

definition choose_profile ::
  "task_contract \<Rightarrow> int \<Rightarrow> run_envelope \<Rightarrow> sched_state \<Rightarrow> task_contract list \<Rightarrow> backend_profile option" where
  "choose_profile t downstream_ms env st remaining =
     (let feasible = filter (profile_feasible t env st remaining) (qualified_profiles t);
          deadline_slack = re_deadline_ms env - ss_time_ms st - downstream_ms
      in min_by profile_preference (filter (\<lambda>p. bp_duration_ms_p95 p \<le> deadline_slack) feasible))"

definition remaining_protected :: "sched_ctx \<Rightarrow> sched_state \<Rightarrow> task_contract \<Rightarrow> task_contract list" where
  "remaining_protected cx st t =
     filter (\<lambda>c. tc_task_id c \<in> set (cx_protected cx) \<and> tc_task_id c \<notin> set (ss_started st)
               \<and> tc_task_id c \<noteq> tc_task_id t) (cx_graph cx)"

definition choose_for :: "sched_ctx \<Rightarrow> sched_state \<Rightarrow> task_contract \<Rightarrow> py_error + backend_profile option" where
  "choose_for cx st t =
     (case lookup KeyError (rank_table cx (tc_task_id t)) (tc_task_id t) of Inl e \<Rightarrow> Inl e
      | Inr rank \<Rightarrow>
     (case lookup KeyError (cx_reference cx) (tc_task_id t) of Inl e \<Rightarrow> Inl e
      | Inr reference \<Rightarrow>
          Inr (choose_profile t (max 0 (rank - bp_duration_ms_p95 reference)) (cx_envelope cx) st
                 (remaining_protected cx st t))))"

definition effect_conflicts :: "task_contract \<Rightarrow> (string, effect_class list) dict \<Rightarrow> bool" where
  "effect_conflicts t active_effects =
     (let resource = ef_resource (tc_effect t);
          kind = ef_kind (tc_effect t);
          active = (case dget active_effects resource of None \<Rightarrow> [] | Some ks \<Rightarrow> ks)
      in if resource = [] \<or> kind = PURE then False
         else if kind = READ then list_ex writes active
         else active \<noteq> [])"

definition sched_capacity :: "sched_ctx \<Rightarrow> int" where
  "sched_capacity cx = (if cx_policy cx = SEQUENTIAL then 1 else re_max_parallelism (cx_envelope cx))"

definition running_on :: "sched_state \<Rightarrow> string \<Rightarrow> int" where
  "running_on st provider = (case dget (ss_provider_running st) provider of None \<Rightarrow> 0 | Some n \<Rightarrow> n)"

text \<open>\<open>heapq.heappush\<close> on the ordered list.\<close>

definition push_running :: "running_task \<Rightarrow> running_task list \<Rightarrow> running_task list" where
  "push_running r rs = insort_key (\<lambda>(e, k, t, p). (e, k)) r rs"

definition new_entry :: "task_contract \<Rightarrow> backend_profile \<Rightarrow> int \<Rightarrow> schedule_entry" where
  "new_entry t p time_ms =
     \<lparr>se_task_id = tc_task_id t, se_backend = bp_name p, se_provider = bp_provider p,
      se_start_ms = time_ms, se_end_ms = time_ms + bp_duration_ms_p95 p, se_tokens = total_tokens p,
      se_cost_microusd = bp_cost_microusd p, se_context_bytes = bp_context_bytes p,
      se_success_probability = 1 - bp_failure_probability p, se_optional = tc_optional t,
      se_outcome = ''running''\<rparr>"

definition start_effect :: "task_contract \<Rightarrow> (string, effect_class list) dict \<Rightarrow> (string, effect_class list) dict" where
  "start_effect t active =
     (let resource = ef_resource (tc_effect t)
      in if resource = [] then active
         else dset resource ((case dget active resource of None \<Rightarrow> [] | Some ks \<Rightarrow> ks) @ [ef_kind (tc_effect t)]) active)"

definition start_task :: "task_contract \<Rightarrow> backend_profile \<Rightarrow> sched_state \<Rightarrow> sched_state" where
  "start_task t p st =
     (let end_ms = ss_time_ms st + bp_duration_ms_p95 p;
          st1 = st\<lparr>ss_started := tc_task_id t # ss_started st,
                   ss_used_tokens := ss_used_tokens st + total_tokens p,
                   ss_used_cost := ss_used_cost st + bp_cost_microusd p,
                   ss_used_context := ss_used_context st + bp_context_bytes p,
                   ss_success_probability := ss_success_probability st * (1 - bp_failure_probability p),
                   ss_provider_running := dset (bp_provider p) (running_on st (bp_provider p) + 1) (ss_provider_running st),
                   ss_active_effects := start_effect t (ss_active_effects st),
                   ss_running := push_running (end_ms, ss_tie_breaker st, tc_task_id t, p) (ss_running st),
                   ss_tie_breaker := ss_tie_breaker st + 1,
                   ss_entries := ss_entries st @ [new_entry t p (ss_time_ms st)]\<rparr>
      in emit TASK_STARTED (Some (tc_task_id t)) [(''end_ms'', JInt end_ms)]
           (emit PROFILE_SELECTED (Some (tc_task_id t))
              [(''backend'', JStr (bp_name p)), (''provider'', JStr (bp_provider p))] st1))"

fun dispatch_loop :: "sched_ctx \<Rightarrow> task_contract list \<Rightarrow> bool \<Rightarrow> sched_state \<Rightarrow> flow" where
  "dispatch_loop cx [] dispatched st = Continue dispatched st"
| "dispatch_loop cx (t # ts) dispatched st =
     (if int (length (ss_running st)) \<ge> sched_capacity cx then Continue dispatched st
      else case choose_for cx st t of
        Inl e \<Rightarrow> Raise e
      | Inr None \<Rightarrow>
          if tc_task_id t \<notin> set (cx_protected cx) then
            dispatch_loop cx ts True
              (skip_task t [(''reason'', JStr ''protected resource or deadline envelope'')] st)
          else Refuse (''protected task '' @ py_repr (tc_task_id t) @ '' has no admissible backend plan'') st
      | Inr (Some p) \<Rightarrow>
          if running_on st (bp_provider p) \<ge> provider_limit (cx_envelope cx) (bp_provider p) then
            dispatch_loop cx ts dispatched st
          else if effect_conflicts t (ss_active_effects st) then dispatch_loop cx ts dispatched st
          else dispatch_loop cx ts True (start_task t p st))"

section \<open>Completing\<close>

text \<open>\<open>active_effects[resource].remove(kind)\<close>, and the key goes when its list is empty.\<close>

definition finish_effect ::
  "task_contract \<Rightarrow> (string, effect_class list) dict \<Rightarrow> py_error + (string, effect_class list) dict" where
  "finish_effect t active =
     (let resource = ef_resource (tc_effect t); kind = ef_kind (tc_effect t)
      in if resource = [] then Inr active
         else case dget active resource of
           None \<Rightarrow> Inl (KeyError resource)
         | Some ks \<Rightarrow>
             if kind \<notin> set ks then Inl (ValueError ''list.remove(x): x not in list'')
             else if remove1 kind ks = [] then Inr (ddel resource active)
             else Inr (dset resource (remove1 kind ks) active))"

definition complete_task :: "sched_ctx \<Rightarrow> string \<Rightarrow> backend_profile \<Rightarrow> sched_state \<Rightarrow> py_error + sched_state" where
  "complete_task cx task_id p st =
     (case lookup KeyError (cx_by_id cx) task_id of Inl e \<Rightarrow> Inl e
      | Inr t \<Rightarrow>
     (case set_outcome task_id ''completed'' (ss_time_ms st) (st\<lparr>ss_completed := task_id # ss_completed st\<rparr>) of
        Inl e \<Rightarrow> Inl e
      | Inr st1 \<Rightarrow>
     (case lookup KeyError (ss_provider_running st1) (bp_provider p) of Inl e \<Rightarrow> Inl e
      | Inr n \<Rightarrow>
     (case finish_effect t (ss_active_effects st1) of Inl e \<Rightarrow> Inl e
      | Inr effects \<Rightarrow>
          Inr (emit TASK_COMPLETED (Some task_id) [(''backend'', JStr (bp_name p))]
                 (st1\<lparr>ss_provider_running := dset (bp_provider p) (n - 1) (ss_provider_running st1),
                      ss_active_effects := effects\<rparr>))))))"

text \<open>\<open>while running and running[0][0] == next_end\<close>: the list argument is the heap.\<close>

fun complete_loop :: "sched_ctx \<Rightarrow> int \<Rightarrow> running_task list \<Rightarrow> sched_state \<Rightarrow> py_error + sched_state" where
  "complete_loop cx next_end [] st = Inr (st\<lparr>ss_running := []\<rparr>)"
| "complete_loop cx next_end ((end_ms, tie, task_id, p) # rs) st =
     (if end_ms \<noteq> next_end then Inr (st\<lparr>ss_running := (end_ms, tie, task_id, p) # rs\<rparr>)
      else case complete_task cx task_id p (st\<lparr>ss_running := rs\<rparr>) of
        Inl e \<Rightarrow> Inl e
      | Inr st' \<Rightarrow> complete_loop cx next_end rs st')"

section \<open>The loop\<close>

datatype iteration_result = Next sched_state | Return "py_error + schedule_result"

text \<open>The part of the body after the dispatch: advance to the next completions, or notice that
  nothing can run, then check the run deadline.\<close>

definition advance :: "sched_ctx \<Rightarrow> bool \<Rightarrow> sched_state \<Rightarrow> iteration_result" where
  "advance cx dispatched st =
     (case ss_running st of
        [] \<Rightarrow>
          if \<not> dispatched then Return (fail_run cx ''scheduler deadlock: ready tasks could not be dispatched'' st)
          else if ss_time_ms st > re_deadline_ms (cx_envelope cx) then Return (fail_run cx ''run deadline exceeded'' st)
          else Next st
      | (next_end, tie, task_id, p) # rs \<Rightarrow>
          (case complete_loop cx next_end (ss_running st) (st\<lparr>ss_time_ms := next_end\<rparr>) of
             Inl e \<Rightarrow> Return (Inl e)
           | Inr st' \<Rightarrow>
               if ss_time_ms st' > re_deadline_ms (cx_envelope cx) then Return (fail_run cx ''run deadline exceeded'' st')
               else Next st'))"

definition iteration :: "sched_ctx \<Rightarrow> sched_state \<Rightarrow> iteration_result" where
  "iteration cx st =
     (let blocked = blocked_by_skipped cx st
      in if blocked \<noteq> [] then
           (case skip_blocked (sort_key tc_task_id blocked) st of
              Raise e \<Rightarrow> Return (Inl e)
            | Refuse reason st' \<Rightarrow> Return (fail_run cx reason st')
            | Continue dispatched st' \<Rightarrow> Next st')
         else case sort_ready cx (ss_time_ms st) (ready_tasks cx st) of
           Inl e \<Rightarrow> Return (Inl e)
         | Inr ready \<Rightarrow>
             (case dispatch_loop cx ready False st of
                Raise e \<Rightarrow> Return (Inl e)
              | Refuse reason st' \<Rightarrow> Return (fail_run cx reason st')
              | Continue dispatched st' \<Rightarrow> advance cx dispatched st'))"

definition finish_run :: "sched_ctx \<Rightarrow> sched_state \<Rightarrow> py_error + schedule_result" where
  "finish_run cx st =
     (let entries = sort_key entry_key (ss_entries st)
      in case entry_lower_bound (cx_graph cx) entries (cx_envelope cx) of
           Inl e \<Rightarrow> Inl e
         | Inr bound \<Rightarrow>
             if bound > ss_time_ms st then Inl (RuntimeError ''planning-model bound exceeded simulated makespan'')
             else let st' = emit RUN_COMPLETED None [(''makespan_ms'', JInt (ss_time_ms st))] st
             in Inr \<lparr>sr_policy = cx_policy cx, sr_success = True, sr_makespan_ms = ss_time_ms st',
                     sr_model_bound_ms = bound, sr_total_tokens = ss_used_tokens st',
                     sr_total_cost_microusd = ss_used_cost st', sr_total_context_bytes = ss_used_context st',
                     sr_modeled_success_probability = ss_success_probability st', sr_entries = entries,
                     sr_skipped = sort (ss_skipped st'), sr_events = ss_events st', sr_failure_reason = None\<rparr>)"

definition run_done :: "sched_ctx \<Rightarrow> sched_state \<Rightarrow> bool" where
  "run_done cx st \<longleftrightarrow> length (remdups (ss_completed st)) + length (ss_skipped st) \<ge> length (cx_by_id cx)"

fun schedule_loop :: "nat \<Rightarrow> sched_ctx \<Rightarrow> sched_state \<Rightarrow> (py_error + schedule_result) option" where
  "schedule_loop 0 cx st = None"
| "schedule_loop (Suc fuel) cx st =
     (if run_done cx st then Some (finish_run cx st)
      else case iteration cx st of
        Return r \<Rightarrow> Some r
      | Next st' \<Rightarrow> schedule_loop fuel cx st')"

definition schedule ::
  "execution_graph \<Rightarrow> run_envelope \<Rightarrow> schedule_policy \<Rightarrow> (py_error + schedule_result) option" where
  "schedule g env policy =
     (case graph_validate g of
        Inl e \<Rightarrow> Some (Inl e)
      | Inr u \<Rightarrow>
          if validate_envelope env \<noteq> [] then Some (Inl (ValueError (semicolon_join (validate_envelope env))))
          else case sched_context g env policy of
            Inl e \<Rightarrow> Some (Inl e)
          | Inr cx \<Rightarrow>
              schedule_loop (Suc (length g)) cx
                (emit RUN_STARTED None [(''policy'', JStr (policy_value policy))] sched_init))"

end
