(* ===== verification/Scheduler_Context.thy ===== *)
theory Scheduler_Context
  imports Scheduler
begin

text \<open>
  What \<open>Scheduler.schedule\<close> computes before its loop, on a valid graph and envelope: the protected
  tasks are the closure of the required ones under dependencies, every reference profile and rank
  exists, and nothing raises. \<open>ctx_ok\<close> collects the facts the loop relies on.
\<close>

section \<open>The protected closure\<close>

definition required_ids :: "execution_graph \<Rightarrow> string set" where
  "required_ids g = {tc_task_id t | t. t \<in> set g \<and> \<not> tc_optional t}"

definition protected_set :: "execution_graph \<Rightarrow> string set" where
  "protected_set g = {t. \<exists>r \<in> required_ids g. (t, r) \<in> (dep_rel (by_id g))\<^sup>*}"

lemma push_new_ok:
  "push_new ds P S = (P', S') \<Longrightarrow>
   set P' = set P \<union> set ds \<and> set S \<subseteq> set S' \<and> set S' \<subseteq> set S \<union> set ds \<and> set P' - set P \<subseteq> set S'"
proof (induction ds arbitrary: P S)
  case Nil
  then show ?case by simp
next
  case (Cons d ds)
  show ?case
  proof (cases "d \<in> set P")
    case True
    with Cons.prems Cons.IH [of P S] show ?thesis by auto
  next
    case False
    with Cons.prems Cons.IH [of "d # P" "d # S"] show ?thesis by auto
  qed
qed

definition closing :: "(string, task_contract) dict \<Rightarrow> string set \<Rightarrow> string list \<Rightarrow> string list \<Rightarrow> bool" where
  "closing b R P S \<longleftrightarrow>
     R \<subseteq> set P \<and> set S \<subseteq> set P \<and> (\<forall>t \<in> set P. t \<in> set S \<or> set (deps_of b t) \<subseteq> set P)
     \<and> (\<forall>t \<in> set P. \<exists>r \<in> R. (t, r) \<in> (dep_rel b)\<^sup>*)"

lemma closing_step:
  assumes inv: "closing b R P (t # S)" and get: "dget b t = Some task"
    and push: "push_new (tc_dependencies task) P S = (P', S')"
  shows "closing b R P' S'"
proof -
  have deps: "deps_of b t = tc_dependencies task" by (simp add: deps_of_def get)
  note p = push_new_ok [OF push]
  have t: "t \<in> set P" using inv by (simp add: closing_def)
  have "set (deps_of b x) \<subseteq> set P'" if "x \<in> set P'" "x \<notin> set S'" for x
  proof -
    from that p have "x \<in> set P" "x \<notin> set S" by auto
    with inv have "x = t \<or> set (deps_of b x) \<subseteq> set P" by (auto simp: closing_def)
    with p deps show ?thesis by auto
  qed
  moreover have "\<exists>r \<in> R. (x, r) \<in> (dep_rel b)\<^sup>*" if "x \<in> set P'" for x
  proof (cases "x \<in> set P")
    case True
    with inv show ?thesis by (simp add: closing_def)
  next
    case False
    with that p deps have "(x, t) \<in> dep_rel b" by (auto simp: dep_rel_iff)
    moreover from inv t obtain r where "r \<in> R" "(t, r) \<in> (dep_rel b)\<^sup>*" by (auto simp: closing_def)
    ultimately show ?thesis by (meson converse_rtrancl_into_rtrancl)
  qed
  moreover have "R \<subseteq> set P'" "set S' \<subseteq> set P'" using inv p by (auto simp: closing_def)
  ultimately show ?thesis by (auto simp: closing_def)
qed

lemma protected_loop_ok:
  "closing b R P S \<Longrightarrow> (\<And>t r. r \<in> R \<Longrightarrow> (t, r) \<in> (dep_rel b)\<^sup>* \<Longrightarrow> dmem t b) \<Longrightarrow> \<exists>P'. protected_loop b P S = Inr P' \<and> closing b R P' []"
proof (induction b P S rule: protected_loop.induct)
  case (1 b P)
  then show ?case by simp
next
  case (2 b P t S)
  then obtain r where "r \<in> R" "(t, r) \<in> (dep_rel b)\<^sup>*" by (auto simp: closing_def)
  from 2(3) [OF this] obtain task where task: "dget b t = Some task" by (auto simp: dmem_def)
  obtain P1 S1 where p: "push_new (tc_dependencies task) P S = (P1, S1)" by fastforce
  from 2(1) [OF task p [symmetric] closing_step [OF 2(2) task p] 2(3)] task p show ?case by simp
qed

lemma required_known: "r \<in> required_ids g \<Longrightarrow> r \<in> set (graph_ids g)"
  by (auto simp: required_ids_def graph_ids_def)

lemma below_known:
  assumes "graph_ok g" and "r \<in> set (graph_ids g)" and "(t, r) \<in> (dep_rel (by_id g))\<^sup>*"
  shows "t \<in> set (graph_ids g)"
  using assms(3,2) by (induction rule: converse_rtrancl_induct) (auto simp: dep_rel_iff dest: graph_ok_known [OF assms(1)])

lemma protected_known: "graph_ok g \<Longrightarrow> protected_set g \<subseteq> set (graph_ids g)"
  by (auto simp: protected_set_def intro: below_known dest: required_known)

lemma protected_required: "r \<in> required_ids g \<Longrightarrow> r \<in> protected_set g"
  by (auto simp: protected_set_def)

lemma protected_closed: "t \<in> protected_set g \<Longrightarrow> d \<in> set (deps_of (by_id g) t) \<Longrightarrow> d \<in> protected_set g"
  by (auto simp: protected_set_def dep_rel_iff [symmetric] intro: converse_rtrancl_into_rtrancl)

lemma protected_task_ids_ok:
  assumes g: "graph_ok g"
  obtains P where "protected_task_ids g = Inr P" and "set P = protected_set g"
proof -
  let ?b = "by_id g" and ?R = "required_ids g"
  let ?r = "remdups (map tc_task_id (filter (\<lambda>t. \<not> tc_optional t) g))"
  have R: "set ?r = ?R" by (auto simp: required_ids_def)
  have "closing ?b ?R ?r ?r" using R by (auto simp: closing_def)
  moreover have "dmem t ?b" if "r \<in> ?R" "(t, r) \<in> (dep_rel ?b)\<^sup>*" for t r
    using below_known [OF g required_known that(2)] that(1) by (simp add: dmem_by_id)
  ultimately obtain P where P: "protected_loop ?b ?r ?r = Inr P" "closing ?b ?R P []"
    using protected_loop_ok [of ?b ?R ?r ?r] by blast
  have closed: "t \<in> set P \<Longrightarrow> (d, t) \<in> dep_rel ?b \<Longrightarrow> d \<in> set P" for d t
    using P(2) by (auto simp: closing_def dep_rel_iff)
  have "(t, r) \<in> (dep_rel ?b)\<^sup>* \<Longrightarrow> r \<in> set P \<Longrightarrow> t \<in> set P" for t r
    by (induction rule: converse_rtrancl_induct) (auto intro: closed)
  with P(2) have "set P = protected_set g" by (auto simp: closing_def protected_set_def)
  with P(1) show ?thesis by (intro that [of P]) (simp add: protected_task_ids_def Let_def)
qed

section \<open>Reference profiles and ranks\<close>

lemma fastest_qualified_ok:
  assumes "task_ok t"
  obtains p where "fastest_qualified t = Inr p" and "p \<in> set (qualified_profiles t)"
proof -
  have "qualified_profiles t \<noteq> []"
    using task_okD(6) [OF assms] by (auto simp: qualified_profiles_def filter_empty_conv)
  then obtain p where p: "min_by (\<lambda>p. (bp_duration_ms_p95 p, bp_cost_microusd p)) (qualified_profiles t) = Some p"
    by (metis min_by_None not_None_eq)
  from that [of p] min_by_in [OF p] p show ?thesis by (simp add: fastest_qualified_def)
qed

definition references_ok :: "(string, backend_profile) dict \<Rightarrow> bool" where
  "references_ok d \<longleftrightarrow> (\<forall>t p. dget d t = Some p \<longrightarrow> profile_ok p)"

lemma reference_profiles_ok:
  "\<forall>t \<in> set ts. task_ok t \<Longrightarrow> references_ok d \<Longrightarrow>
   \<exists>r. reference_profiles ts d = Inr r \<and> references_ok r \<and> (dict_ok d \<longrightarrow> dict_ok r)
     \<and> (\<forall>k. dmem k r \<longleftrightarrow> dmem k d \<or> k \<in> tc_task_id ` set ts)"
proof (induction ts arbitrary: d)
  case Nil
  then show ?case by simp
next
  case (Cons t ts)
  from Cons.prems(1) have "task_ok t" by simp
  then obtain p where p: "fastest_qualified t = Inr p" "p \<in> set (qualified_profiles t)"
    by (rule fastest_qualified_ok)
  with Cons.prems have "profile_ok p" by (auto simp: qualified_profiles_def dest: task_okD(4))
  with Cons.prems(2) have "references_ok (dset (tc_task_id t) p d)" by (simp add: references_ok_def dget_dset)
  with Cons.IH [of "dset (tc_task_id t) p d"] Cons.prems(1) p(1) show ?case
    by (auto simp: dmem_dset)
qed

lemma provider_work_ok:
  "\<forall>(t, d) \<in> set ds. dmem t providers \<Longrightarrow> \<exists>w. provider_work providers ds work = Inr w"
proof (induction ds arbitrary: work)
  case Nil
  then show ?case by simp
next
  case (Cons x ds)
  then show ?case by (cases x) (auto simp: dmem_def split: option.splits)
qed

lemma duration_lower_bound_ok:
  assumes "graph_ok g" and "\<And>t. dmem t durations \<Longrightarrow> dmem t providers"
  shows "\<exists>b. duration_lower_bound g durations providers env = Inr b"
proof -
  obtain r where "ranks_of g (\<lambda>t. dmem t durations) durations = Inr r"
    by (rule ranks_of_ok [OF assms(1), of "\<lambda>t. dmem t durations" durations])
  moreover have "\<forall>(t, d) \<in> set durations. dmem t providers"
    using assms(2) by (force simp: dmem_iff_key)
  from provider_work_ok [OF this] obtain w where "provider_work providers durations [] = Inr w" by blast
  ultimately show ?thesis by (simp add: duration_lower_bound_def)
qed

section \<open>The context of the loop\<close>

definition ctx_ok :: "sched_ctx \<Rightarrow> bool" where
  "ctx_ok cx \<longleftrightarrow>
     graph_ok (cx_graph cx) \<and> envelope_ok (cx_envelope cx) \<and> cx_by_id cx = by_id (cx_graph cx)
     \<and> set (cx_protected cx) = protected_set (cx_graph cx)
     \<and> (\<forall>t \<in> set (graph_ids (cx_graph cx)).
          dmem t (cx_reference cx) \<and> dmem t (cx_ranks cx)
          \<and> (t \<in> set (cx_protected cx) \<longrightarrow> dmem t (cx_protected_ranks cx)))"

lemma sched_context_ok:
  assumes g: "graph_ok g" and env: "envelope_ok env"
  obtains cx where "sched_context g env policy = Inr cx" and "ctx_ok cx"
    and "cx_graph cx = g" "cx_envelope cx = env" "cx_policy cx = policy"
proof -
  from protected_task_ids_ok [OF g] obtain P where P: "protected_task_ids g = Inr P" "set P = protected_set g" .
  have "\<forall>t \<in> set g. task_ok t" using graph_ok_parts(2) [OF g] by blast
  from reference_profiles_ok [OF this, of "[]"] obtain ref where
    ref: "reference_profiles g [] = Inr ref" "dict_ok ref" "\<forall>k. dmem k ref \<longleftrightarrow> k \<in> set (graph_ids g)"
    by (auto simp: references_ok_def graph_ids_def)
  have own: "t \<in> set (graph_ids g) \<Longrightarrow> dmem t (profile_durations ref)" for t
    using ref(3) by (force simp: dmem_iff_key profile_durations_def)
  obtain ranks where "ranks_of g (\<lambda>_. True) (profile_durations ref) = Inr ranks"
    "rank_equations g (\<lambda>_. True) (profile_durations ref) ranks (set (graph_ids g))"
    by (rule ranks_of_ok [OF g own])
  then have ranks: "upward_ranks g ref = Inr ranks" "\<forall>t \<in> set (graph_ids g). dmem t ranks"
    by (simp_all add: upward_ranks_def rank_equations_def)
  obtain pranks where "ranks_of g (\<lambda>t. t \<in> set P) (profile_durations ref) = Inr pranks"
    "rank_equations g (\<lambda>t. t \<in> set P) (profile_durations ref) pranks (set (graph_ids g))"
    by (rule ranks_of_ok [OF g own])
  then have pranks: "upward_ranks_for_tasks g ref P = Inr pranks"
    "\<forall>t \<in> set (graph_ids g). t \<in> set P \<longrightarrow> dmem t pranks"
    by (simp_all add: upward_ranks_for_tasks_def rank_equations_def)
  have "\<exists>b. profile_lower_bound g ref env P = Inr b"
    unfolding profile_lower_bound_def Let_def
    by (rule duration_lower_bound_ok [OF g]) (force simp: dmem_iff_key profile_durations_def)
  then obtain b where "profile_lower_bound g ref env P = Inr b" ..
  with P ref ranks pranks g env show ?thesis
    by (intro that [of "\<lparr>cx_graph = g, cx_envelope = env, cx_policy = policy, cx_by_id = by_id g,
          cx_protected = P, cx_reference = ref, cx_ranks = ranks, cx_protected_ranks = pranks,
          cx_model_bound = b\<rparr>"]) (simp_all add: sched_context_def ctx_ok_def)
qed

section \<open>Properties\<close>

text \<open>
  The protected set is exactly the closure of required work under dependencies:
  \<open>_protected_task_ids\<close> raises nothing on a valid graph, and a task is in its result if and only if
  some required task reaches it along dependencies.
\<close>

theorem protected_ids_are_closure:
  assumes "graph_validate g = Inr ()"
  shows "\<exists>P. protected_task_ids g = Inr P
    \<and> set P = {t. \<exists>r \<in> set g. \<not> tc_optional r \<and> (t, tc_task_id r) \<in> (dep_rel (by_id g))\<^sup>*}"
proof -
  from assms have "graph_ok g" by (simp add: graph_ok_def)
  from protected_task_ids_ok [OF this] obtain P where "protected_task_ids g = Inr P" "set P = protected_set g" .
  then show ?thesis by (auto simp: protected_set_def required_ids_def)
qed

theorem protected_ids_are_closure_witness:
  "\<exists>P. protected_task_ids sample_graph = Inr P"
  using protected_ids_are_closure [OF sample_valid] by blast

end
