(* ===== verification/Scheduler_Inv.thy ===== *)
theory Scheduler_Inv
  imports Scheduler_Context "HOL-Library.Multiset"
begin

text \<open>
  The state machine of the scheduling loop and its core invariant.

  The loop is made of four transitions: a task is skipped, a task is started, the clock moves to the
  next completion, the head of the heap completes. \<open>sched_step\<close> is that relation. It carries, beside
  the state, the list of launches (task, profile, start time) in the order of dispatch, from
  which entries, running tasks, provider counters and active effects can all be computed;
  \<open>core_inv\<close> says that the state of the code is what the launches determine.
\<close>

section \<open>Launches\<close>

record launch =
  la_task :: task_contract
  la_profile :: backend_profile
  la_start :: int

definition la_id :: "launch \<Rightarrow> string" where
  "la_id l = tc_task_id (la_task l)"

definition la_end :: "launch \<Rightarrow> int" where
  "la_end l = la_start l + bp_duration_ms_p95 (la_profile l)"

definition la_provider :: "launch \<Rightarrow> string" where
  "la_provider l = bp_provider (la_profile l)"

definition la_resource :: "launch \<Rightarrow> string" where
  "la_resource l = ef_resource (tc_effect (la_task l))"

definition la_kind :: "launch \<Rightarrow> effect_class" where
  "la_kind l = ef_kind (tc_effect (la_task l))"

definition la_entry :: "string list \<Rightarrow> launch \<Rightarrow> schedule_entry" where
  "la_entry completed l =
     (new_entry (la_task l) (la_profile l) (la_start l))
       \<lparr>se_outcome := if la_id l \<in> set completed then ''completed'' else ''running''\<rparr>"

definition pending_launches :: "sched_state \<Rightarrow> launch list \<Rightarrow> launch list" where
  "pending_launches st L = filter (\<lambda>l. la_id l \<notin> set (ss_completed st)) L"

definition active_of :: "(string, effect_class list) dict \<Rightarrow> string \<Rightarrow> effect_class list" where
  "active_of d r = (case dget d r of None \<Rightarrow> [] | Some ks \<Rightarrow> ks)"

section \<open>The transitions\<close>

inductive sched_step :: "sched_ctx \<Rightarrow> launch list \<times> sched_state \<Rightarrow> launch list \<times> sched_state \<Rightarrow> bool"
  for cx where
  skip: "t \<in> set (cx_graph cx) \<Longrightarrow> tc_task_id t \<notin> set (ss_started st) \<Longrightarrow> tc_task_id t \<notin> set (ss_skipped st) \<Longrightarrow>
     tc_task_id t \<notin> set (cx_protected cx) \<Longrightarrow>
     sched_step cx (L, st) (L, skip_task t details st)"
| start: "t \<in> set (cx_graph cx) \<Longrightarrow> tc_task_id t \<notin> set (ss_started st) \<Longrightarrow> tc_task_id t \<notin> set (ss_skipped st) \<Longrightarrow>
     set (tc_dependencies t) \<subseteq> set (ss_completed st) \<Longrightarrow>
     int (length (ss_running st)) < sched_capacity cx \<Longrightarrow>
     choose_for cx st t = Inr (Some p) \<Longrightarrow>
     running_on st (bp_provider p) < provider_limit (cx_envelope cx) (bp_provider p) \<Longrightarrow>
     \<not> effect_conflicts t (ss_active_effects st) \<Longrightarrow>
     sched_step cx (L, st) (L @ [\<lparr>la_task = t, la_profile = p, la_start = ss_time_ms st\<rparr>], start_task t p st)"
| tick: "ss_running st = (e, k, i, p) # rs \<Longrightarrow> sched_step cx (L, st) (L, st\<lparr>ss_time_ms := e\<rparr>)"
| complete: "ss_running st = (ss_time_ms st, k, i, p) # rs \<Longrightarrow>
     complete_task cx i p (st\<lparr>ss_running := rs\<rparr>) = Inr st' \<Longrightarrow>
     sched_step cx (L, st) (L, st')"

inductive_cases sched_stepE: "sched_step cx (L, st) s'"

text \<open>What the transitions do to the fields.\<close>

lemma emit_fields [simp]:
  "ss_time_ms (emit ty i d st) = ss_time_ms st" "ss_entries (emit ty i d st) = ss_entries st"
  "ss_skipped (emit ty i d st) = ss_skipped st" "ss_completed (emit ty i d st) = ss_completed st"
  "ss_started (emit ty i d st) = ss_started st" "ss_running (emit ty i d st) = ss_running st"
  "ss_provider_running (emit ty i d st) = ss_provider_running st"
  "ss_active_effects (emit ty i d st) = ss_active_effects st"
  "ss_used_tokens (emit ty i d st) = ss_used_tokens st" "ss_used_cost (emit ty i d st) = ss_used_cost st"
  "ss_used_context (emit ty i d st) = ss_used_context st"
  "ss_success_probability (emit ty i d st) = ss_success_probability st"
  "ss_tie_breaker (emit ty i d st) = ss_tie_breaker st"
  by (simp_all add: emit_def)

lemma start_fields [simp]:
  "ss_time_ms (start_task t p st) = ss_time_ms st"
  "ss_entries (start_task t p st) = ss_entries st @ [new_entry t p (ss_time_ms st)]"
  "ss_skipped (start_task t p st) = ss_skipped st" "ss_completed (start_task t p st) = ss_completed st"
  "ss_started (start_task t p st) = tc_task_id t # ss_started st"
  "ss_running (start_task t p st) = push_running (ss_time_ms st + bp_duration_ms_p95 p, ss_tie_breaker st, tc_task_id t, p) (ss_running st)"
  "ss_provider_running (start_task t p st) = dset (bp_provider p) (running_on st (bp_provider p) + 1) (ss_provider_running st)"
  "ss_active_effects (start_task t p st) = start_effect t (ss_active_effects st)"
  "ss_used_tokens (start_task t p st) = ss_used_tokens st + total_tokens p"
  "ss_used_cost (start_task t p st) = ss_used_cost st + bp_cost_microusd p"
  "ss_used_context (start_task t p st) = ss_used_context st + bp_context_bytes p"
  "ss_success_probability (start_task t p st) = ss_success_probability st * (1 - bp_failure_probability p)"
  by (simp_all add: start_task_def Let_def)

lemma skip_fields [simp]:
  "ss_time_ms (skip_task t d st) = ss_time_ms st" "ss_entries (skip_task t d st) = ss_entries st"
  "ss_skipped (skip_task t d st) = ss_skipped st @ [tc_task_id t]" "ss_completed (skip_task t d st) = ss_completed st"
  "ss_started (skip_task t d st) = ss_started st" "ss_running (skip_task t d st) = ss_running st"
  "ss_provider_running (skip_task t d st) = ss_provider_running st"
  "ss_active_effects (skip_task t d st) = ss_active_effects st"
  "ss_used_tokens (skip_task t d st) = ss_used_tokens st" "ss_used_cost (skip_task t d st) = ss_used_cost st"
  "ss_used_context (skip_task t d st) = ss_used_context st"
  "ss_success_probability (skip_task t d st) = ss_success_probability st"
  by (simp_all add: skip_task_def)

section \<open>The core invariant\<close>

definition run_key :: "running_task \<Rightarrow> int \<times> nat" where
  "run_key = (\<lambda>(e, k, i, p). (e, k))"

definition run_view :: "running_task \<Rightarrow> int \<times> string \<times> backend_profile" where
  "run_view = (\<lambda>(e, k, i, p). (e, i, p))"

definition la_view :: "launch \<Rightarrow> int \<times> string \<times> backend_profile" where
  "la_view l = (la_end l, la_id l, la_profile l)"

definition launches_ok :: "sched_ctx \<Rightarrow> launch list \<Rightarrow> sched_state \<Rightarrow> bool" where
  "launches_ok cx L st \<longleftrightarrow>
     distinct (map la_id L) \<and> ss_started st = rev (map la_id L)
     \<and> ss_entries st = map (la_entry (ss_completed st)) L
     \<and> (\<forall>l \<in> set L. la_task l \<in> set (cx_graph cx) \<and> la_profile l \<in> set (qualified_profiles (la_task l))
          \<and> 0 \<le> la_start l \<and> la_start l \<le> ss_time_ms st
          \<and> (la_id l \<in> set (ss_completed st) \<longrightarrow> la_end l \<le> ss_time_ms st))
     \<and> distinct (ss_completed st) \<and> set (ss_completed st) \<subseteq> la_id ` set L \<and> 0 \<le> ss_time_ms st"

definition skips_ok :: "sched_ctx \<Rightarrow> sched_state \<Rightarrow> bool" where
  "skips_ok cx st \<longleftrightarrow>
     distinct (ss_skipped st) \<and> set (ss_skipped st) \<subseteq> set (graph_ids (cx_graph cx))
     \<and> set (ss_skipped st) \<inter> set (ss_started st) = {} \<and> set (ss_skipped st) \<inter> set (cx_protected cx) = {}"

definition running_ok :: "launch list \<Rightarrow> sched_state \<Rightarrow> bool" where
  "running_ok L st \<longleftrightarrow>
     mset (map run_view (ss_running st)) = mset (map la_view (pending_launches st L))
     \<and> sorted (map run_key (ss_running st)) \<and> (\<forall>r \<in> set (ss_running st). ss_time_ms st \<le> fst r)"

definition providers_ok :: "launch list \<Rightarrow> sched_state \<Rightarrow> bool" where
  "providers_ok L st \<longleftrightarrow>
     (\<forall>q. running_on st q = int (length (filter (\<lambda>l. la_provider l = q) (pending_launches st L))))
     \<and> (\<forall>l \<in> set (pending_launches st L). dmem (la_provider l) (ss_provider_running st))"

definition effects_ok :: "launch list \<Rightarrow> sched_state \<Rightarrow> bool" where
  "effects_ok L st \<longleftrightarrow>
     (\<forall>r. dget (ss_active_effects st) r \<noteq> Some []
        \<and> mset (active_of (ss_active_effects st) r)
          = (if r = [] then {#} else mset (map la_kind (filter (\<lambda>l. la_resource l = r) (pending_launches st L)))))"

definition core_inv :: "sched_ctx \<Rightarrow> launch list \<times> sched_state \<Rightarrow> bool" where
  "core_inv cx = (\<lambda>(L, st). launches_ok cx L st \<and> skips_ok cx st \<and> running_ok L st \<and> providers_ok L st \<and> effects_ok L st)"

lemma core_inv_init: "core_inv cx ([], emit ty i d sched_init)"
  by (simp add: core_inv_def launches_ok_def skips_ok_def running_ok_def providers_ok_def effects_ok_def
      sched_init_def pending_launches_def running_on_def active_of_def)

subsection \<open>Skipping\<close>

lemma core_inv_skip:
  assumes "core_inv cx (L, st)" and "t \<in> set (cx_graph cx)" and "tc_task_id t \<notin> set (ss_started st)"
    and "tc_task_id t \<notin> set (ss_skipped st)" and "tc_task_id t \<notin> set (cx_protected cx)"
  shows "core_inv cx (L, skip_task t d st)"
  using assms
  by (auto simp: core_inv_def launches_ok_def skips_ok_def running_ok_def providers_ok_def effects_ok_def
      pending_launches_def running_on_def graph_ids_def)

subsection \<open>Starting\<close>

lemma pending_start:
  "set (ss_completed st) \<subseteq> la_id ` set L \<Longrightarrow> la_id l \<notin> la_id ` set L \<Longrightarrow>
   pending_launches (start_task t p st) (L @ [l]) = pending_launches st L @ [l]"
  by (auto simp: pending_launches_def)

lemma chosen_qualified:
  assumes "choose_for cx st t = Inr (Some p)"
  shows "p \<in> set (qualified_profiles t)"
    and "profile_feasible t (cx_envelope cx) st (remaining_protected cx st t) p"
  using assms by (auto simp: choose_for_def choose_profile_def Let_def dest!: min_by_in split: sum.splits)

lemma start_launches:
  assumes ok: "launches_ok cx L st" and t: "t \<in> set (cx_graph cx)" "tc_task_id t \<notin> set (ss_started st)"
    and p: "p \<in> set (qualified_profiles t)"
  shows "launches_ok cx (L @ [\<lparr>la_task = t, la_profile = p, la_start = ss_time_ms st\<rparr>]) (start_task t p st)"
proof -
  let ?l = "\<lparr>la_task = t, la_profile = p, la_start = ss_time_ms st\<rparr>"
  note ok' = ok [unfolded launches_ok_def]
  have id: "la_id ?l = tc_task_id t" by (simp add: la_id_def)
  have new: "tc_task_id t \<notin> la_id ` set L" using ok' t(2) by simp
  then have "tc_task_id t \<notin> set (ss_completed st)" using ok' by blast
  then have "la_entry (ss_completed st) ?l = new_entry t p (ss_time_ms st)"
    by (simp add: la_entry_def id new_entry_def)
  with ok' new t p id \<open>tc_task_id t \<notin> set (ss_completed st)\<close> show ?thesis
    unfolding launches_ok_def by auto
qed

lemma start_running:
  assumes ok: "running_ok L st" and l: "launches_ok cx L st" "tc_task_id t \<notin> set (ss_started st)"
    and dur: "0 \<le> bp_duration_ms_p95 p"
  shows "running_ok (L @ [\<lparr>la_task = t, la_profile = p, la_start = ss_time_ms st\<rparr>]) (start_task t p st)"
proof -
  let ?l = "\<lparr>la_task = t, la_profile = p, la_start = ss_time_ms st\<rparr>"
  let ?r = "(ss_time_ms st + bp_duration_ms_p95 p, ss_tie_breaker st, tc_task_id t, p)"
  have id: "la_id ?l = tc_task_id t" "la_view ?l = run_view ?r"
    by (simp_all add: la_id_def la_view_def la_end_def run_view_def)
  have pend: "pending_launches (start_task t p st) (L @ [?l]) = pending_launches st L @ [?l]"
    by (rule pending_start) (use l in \<open>auto simp: launches_ok_def id\<close>)
  have push: "push_running ?r (ss_running st) = insort_key run_key ?r (ss_running st)"
    by (simp add: push_running_def run_key_def)
  have "sorted (map run_key (insort_key run_key ?r (ss_running st)))"
    using ok by (simp add: running_ok_def sorted_insort_key)
  moreover have "set (insort_key run_key ?r (ss_running st)) = insert ?r (set (ss_running st))"
    by (simp add: set_insort_key)
  moreover have "mset (map run_view (insort_key run_key ?r (ss_running st)))
      = add_mset (run_view ?r) (mset (map run_view (ss_running st)))"
    by simp
  ultimately show ?thesis
    using ok dur unfolding running_ok_def pend by (simp add: push id)
qed

lemma pending_started:
  assumes "launches_ok cx L st" and "tc_task_id t \<notin> set (ss_started st)"
  shows "pending_launches (start_task t p st) (L @ [\<lparr>la_task = t, la_profile = p, la_start = s\<rparr>])
    = pending_launches st L @ [\<lparr>la_task = t, la_profile = p, la_start = s\<rparr>]"
  by (rule pending_start) (use assms in \<open>auto simp: launches_ok_def la_id_def\<close>)

lemma start_providers:
  assumes "providers_ok L st" and "launches_ok cx L st" and "tc_task_id t \<notin> set (ss_started st)"
  shows "providers_ok (L @ [\<lparr>la_task = t, la_profile = p, la_start = ss_time_ms st\<rparr>]) (start_task t p st)"
proof -
  have "running_on (start_task t p st) q = running_on st q + (if q = bp_provider p then 1 else 0)" for q
    by (simp add: running_on_def dget_dset)
  with assms show ?thesis
    unfolding providers_ok_def pending_started [OF assms(2,3)]
    by (auto simp: la_provider_def dmem_dset)
qed

lemma start_effects:
  assumes "effects_ok L st" and "launches_ok cx L st" and "tc_task_id t \<notin> set (ss_started st)"
  shows "effects_ok (L @ [\<lparr>la_task = t, la_profile = p, la_start = ss_time_ms st\<rparr>]) (start_task t p st)"
proof -
  let ?r = "ef_resource (tc_effect t)" and ?l = "\<lparr>la_task = t, la_profile = p, la_start = ss_time_ms st\<rparr>"
  have l: "la_resource ?l = ?r" "la_kind ?l = ef_kind (tc_effect t)" by (simp_all add: la_resource_def la_kind_def)
  have act: "active_of (start_effect t (ss_active_effects st)) r
      = active_of (ss_active_effects st) r @ (if r = ?r \<and> r \<noteq> [] then [ef_kind (tc_effect t)] else [])" for r
    by (auto simp: active_of_def start_effect_def Let_def dget_dset)
  have "dget (start_effect t (ss_active_effects st)) r \<noteq> Some []" for r
    using assms(1) by (auto simp: effects_ok_def start_effect_def Let_def dget_dset)
  with assms(1) show ?thesis
    unfolding effects_ok_def pending_started [OF assms(2,3)]
    by (simp add: act l)
qed

lemma qualified_profile_ok:
  "graph_ok g \<Longrightarrow> t \<in> set g \<Longrightarrow> p \<in> set (qualified_profiles t) \<Longrightarrow> profile_ok p"
  using graph_ok_parts(2) [of g t] by (auto simp: qualified_profiles_def dest: task_okD(4))

lemma core_inv_start:
  assumes "ctx_ok cx" and "core_inv cx (L, st)" and "t \<in> set (cx_graph cx)" and "tc_task_id t \<notin> set (ss_started st)"
    and "tc_task_id t \<notin> set (ss_skipped st)" and "p \<in> set (qualified_profiles t)"
  shows "core_inv cx (L @ [\<lparr>la_task = t, la_profile = p, la_start = ss_time_ms st\<rparr>], start_task t p st)"
proof -
  have "profile_ok p" by (rule qualified_profile_ok) (use assms in \<open>auto simp: ctx_ok_def\<close>)
  then have "0 \<le> bp_duration_ms_p95 p" by (rule profile_okD)
  moreover have "skips_ok cx (start_task t p st)"
    using assms by (auto simp: core_inv_def skips_ok_def)
  moreover have "launches_ok cx L st" "running_ok L st" "providers_ok L st" "effects_ok L st"
    using assms(2) by (simp_all add: core_inv_def)
  ultimately show ?thesis
    using assms(3,4,6) start_launches [of cx L st t p] start_running [of L st cx t p]
      start_providers [of L st cx t p] start_effects [of L st cx t p]
    by (simp add: core_inv_def)
qed

subsection \<open>The clock\<close>

lemma core_inv_tick:
  assumes inv: "core_inv cx (L, st)" and head: "ss_running st = (e, k, i, p) # rs"
  shows "core_inv cx (L, st\<lparr>ss_time_ms := e\<rparr>)"
proof -
  have run: "running_ok L st" and la: "launches_ok cx L st" using inv by (simp_all add: core_inv_def)
  have le: "ss_time_ms st \<le> e" using run head by (auto simp: running_ok_def)
  have "sorted (map run_key (ss_running st))" using run by (simp add: running_ok_def)
  then have "e \<le> fst r" if "r \<in> set (ss_running st)" for r
    using that head by (cases r) (force simp: run_key_def)
  moreover have "launches_ok cx L (st\<lparr>ss_time_ms := e\<rparr>)"
    using la le unfolding launches_ok_def by (auto intro: order_trans)
  ultimately show ?thesis
    using inv by (auto simp: core_inv_def skips_ok_def running_ok_def providers_ok_def effects_ok_def
        pending_launches_def running_on_def)
qed

subsection \<open>Completing\<close>

lemma replace_entry_map:
  assumes "distinct (map la_id L)" and "l \<in> set L" and "la_id l \<notin> set C"
  shows "replace_entry (la_id l) ''completed'' (la_end l) (map (la_entry C) L) = Some (map (la_entry (la_id l # C)) L)"
  using assms(1,2)
proof (induction L)
  case Nil
  then show ?case by simp
next
  case (Cons x L)
  have ids: "se_task_id (la_entry D y) = la_id y" for y D
    by (simp add: la_entry_def new_entry_def la_id_def)
  have same: "la_entry (la_id l # C) y = la_entry C y" if "la_id y \<noteq> la_id l" for y
    using that by (simp add: la_entry_def)
  show ?case
  proof (cases "x = l")
    case True
    then have "map (la_entry (la_id l # C)) L = map (la_entry C) L"
      using Cons.prems(1) by (intro map_cong refl same) (metis True distinct.simps(2) image_eqI list.set_map list.simps(9))
    moreover have "(la_entry C l)\<lparr>se_outcome := ''completed'', se_end_ms := la_end l\<rparr> = la_entry (la_id l # C) l"
      by (simp add: la_entry_def new_entry_def la_end_def)
    ultimately show ?thesis using True by (simp add: ids)
  next
    case False
    then have "la_id x \<noteq> la_id l" using Cons.prems by auto
    with Cons False show ?thesis by (simp add: ids same)
  qed
qed

text \<open>The head of the heap is a pending launch.\<close>

lemma running_launch:
  assumes "running_ok L st" and "(e, k, i, p) \<in> set (ss_running st)"
  obtains l where "l \<in> set (pending_launches st L)" "la_id l = i" "la_profile l = p" "la_end l = e"
proof -
  have "run_view (e, k, i, p) \<in> set (map run_view (ss_running st))" using assms(2) by force
  moreover have "set (map run_view (ss_running st)) = set (map la_view (pending_launches st L))"
    using assms(1) by (intro mset_eq_setD) (simp only: running_ok_def)
  ultimately have "(e, i, p) \<in> set (map la_view (pending_launches st L))" by (simp add: run_view_def)
  then show ?thesis by (auto simp: la_view_def intro: that)
qed

lemma filter_remove_id:
  assumes "distinct (map la_id L)" and "l \<in> set L" and "la_id l \<notin> C"
  shows "mset (filter (\<lambda>x. la_id x \<notin> C) L) = add_mset l (mset (filter (\<lambda>x. la_id x \<notin> insert (la_id l) C) L))"
  using assms(1,2)
proof (induction L)
  case Nil
  then show ?case by simp
next
  case (Cons x L)
  show ?case
  proof (cases "x = l")
    case True
    then have "\<forall>y \<in> set L. la_id y \<noteq> la_id l"
      using Cons.prems(1) by (metis distinct.simps(2) image_eqI list.set_map list.simps(9))
    then have "filter (\<lambda>x. la_id x \<notin> insert (la_id l) C) L = filter (\<lambda>x. la_id x \<notin> C) L"
      by (intro filter_cong) auto
    with True assms(3) show ?thesis by simp
  next
    case False
    then have "la_id x \<noteq> la_id l" using Cons.prems by auto
    with Cons False show ?thesis by simp
  qed
qed

definition completed_state :: "string \<Rightarrow> backend_profile \<Rightarrow> launch list \<Rightarrow> running_task list \<Rightarrow>
    (string, effect_class list) dict \<Rightarrow> sched_state \<Rightarrow> sched_state" where
  "completed_state i p L rs effects st =
     emit TASK_COMPLETED (Some i) [(''backend'', JStr (bp_name p))]
       (st\<lparr>ss_running := rs, ss_completed := i # ss_completed st,
           ss_entries := map (la_entry (i # ss_completed st)) L,
           ss_provider_running := dset (bp_provider p) (running_on st (bp_provider p) - 1) (ss_provider_running st),
           ss_active_effects := effects\<rparr>)"

text \<open>Finishing an effect takes one occurrence of its kind out of the active list of its resource.\<close>

lemma finish_effect_ok:
  assumes "\<And>r. dget d r \<noteq> Some []"
    and "ef_resource (tc_effect t) \<noteq> [] \<Longrightarrow> ef_kind (tc_effect t) \<in> set (active_of d (ef_resource (tc_effect t)))"
  shows "\<exists>d'. finish_effect t d = Inr d' \<and> (\<forall>r. dget d' r \<noteq> Some [])
    \<and> (\<forall>r. active_of d' r = (if r = ef_resource (tc_effect t) \<and> r \<noteq> []
         then remove1 (ef_kind (tc_effect t)) (active_of d r) else active_of d r))"
proof (cases "ef_resource (tc_effect t) = []")
  case True
  then show ?thesis using assms(1) by (auto simp: finish_effect_def)
next
  case False
  then obtain ks where ks: "dget d (ef_resource (tc_effect t)) = Some ks" "ef_kind (tc_effect t) \<in> set ks"
    using assms(2) by (cases "dget d (ef_resource (tc_effect t))") (auto simp: active_of_def)
  then show ?thesis
    using False assms(1) by (auto simp: finish_effect_def Let_def active_of_def dget_dset dget_ddel)
qed

lemma complete_task_eq:
  assumes cx: "ctx_ok cx" and inv: "core_inv cx (L, st)" and head: "ss_running st = (ss_time_ms st, k, i, p) # rs"
  obtains l effects where "l \<in> set (pending_launches st L)" and "la_id l = i" and "la_profile l = p"
    and "la_end l = ss_time_ms st"
    and "complete_task cx i p (st\<lparr>ss_running := rs\<rparr>) = Inr (completed_state i p L rs effects st)"
    and "\<And>r. dget effects r \<noteq> Some []"
    and "\<And>r. active_of effects r = (if r = la_resource l \<and> r \<noteq> []
         then remove1 (la_kind l) (active_of (ss_active_effects st) r) else active_of (ss_active_effects st) r)"
proof -
  have la: "launches_ok cx L st" and run: "running_ok L st" and prov: "providers_ok L st" and eff: "effects_ok L st"
    using inv by (simp_all add: core_inv_def)
  have "(ss_time_ms st, k, i, p) \<in> set (ss_running st)" by (simp add: head)
  from running_launch [OF run this] obtain l where
    l: "l \<in> set (pending_launches st L)" "la_id l = i" "la_profile l = p" "la_end l = ss_time_ms st" .
  then have lL: "l \<in> set L" and notin: "la_id l \<notin> set (ss_completed st)" by (simp_all add: pending_launches_def)
  have task: "la_task l \<in> set (cx_graph cx)" using la lL by (simp add: launches_ok_def)
  have get: "dget (cx_by_id cx) i = Some (la_task l)"
    using dget_by_id [OF graph_ok_parts(1) task] cx l(2) by (simp add: ctx_ok_def la_id_def)
  have kinds: "la_kind l \<in> set (active_of (ss_active_effects st) (la_resource l))" if "la_resource l \<noteq> []"
  proof -
    have "mset (active_of (ss_active_effects st) (la_resource l))
        = mset (map la_kind (filter (\<lambda>x. la_resource x = la_resource l) (pending_launches st L)))"
      using eff that by (simp add: effects_ok_def)
    from mset_eq_setD [OF this] l(1) show ?thesis by auto
  qed
  have "dget (ss_active_effects st) r \<noteq> Some []" for r using eff by (simp add: effects_ok_def)
  from finish_effect_ok [OF this, of "la_task l", folded la_resource_def la_kind_def, OF kinds]
  obtain effects where effects: "finish_effect (la_task l) (ss_active_effects st) = Inr effects"
    "\<forall>r. dget effects r \<noteq> Some []"
    "\<forall>r. active_of effects r = (if r = la_resource l \<and> r \<noteq> []
         then remove1 (la_kind l) (active_of (ss_active_effects st) r) else active_of (ss_active_effects st) r)"
    by blast
  obtain n where n: "dget (ss_provider_running st) (bp_provider p) = Some n" "running_on st (bp_provider p) = n"
    using prov l by (auto simp: providers_ok_def la_provider_def dmem_def running_on_def)
  have "replace_entry i ''completed'' (ss_time_ms st) (ss_entries st) = Some (map (la_entry (i # ss_completed st)) L)"
    using replace_entry_map [OF _ lL notin] la l by (simp add: launches_ok_def)
  then have "complete_task cx i p (st\<lparr>ss_running := rs\<rparr>) = Inr (completed_state i p L rs effects st)"
    using get n effects(1) by (simp add: complete_task_def lookup_def set_outcome_def completed_state_def)
  from that [OF l this] effects show ?thesis by blast
qed


lemma pending_completed:
  assumes "launches_ok cx L st" and "l \<in> set (pending_launches st L)" and "la_id l = i"
  shows "mset (pending_launches st L) = add_mset l (mset (pending_launches (completed_state i p L rs effects st) L))"
  using filter_remove_id [of L l "set (ss_completed st)"] assms
  by (auto simp: pending_launches_def completed_state_def launches_ok_def)

lemma mset_filter_add:
  "mset xs = add_mset x (mset ys) \<Longrightarrow>
   mset (map f (filter P xs)) = (if P x then add_mset (f x) (mset (map f (filter P ys))) else mset (map f (filter P ys)))"
  by (metis (mono_tags, lifting) filter_mset_add_mset image_mset_add_mset mset_filter mset_map)

lemma length_filter_add:
  "mset xs = add_mset x (mset ys) \<Longrightarrow> length (filter P xs) = (if P x then 1 else 0) + length (filter P ys)"
  using mset_filter_add [of xs x ys id P] by (auto simp flip: size_mset split: if_splits)

lemma core_inv_complete:
  assumes cx: "ctx_ok cx" and inv: "core_inv cx (L, st)" and head: "ss_running st = (ss_time_ms st, k, i, p) # rs"
    and l: "l \<in> set (pending_launches st L)" "la_id l = i" "la_profile l = p" "la_end l = ss_time_ms st"
    and eff: "\<And>r. dget effects r \<noteq> Some []"
      "\<And>r. active_of effects r = (if r = la_resource l \<and> r \<noteq> []
         then remove1 (la_kind l) (active_of (ss_active_effects st) r) else active_of (ss_active_effects st) r)"
  shows "core_inv cx (L, completed_state i p L rs effects st)"
proof -
  let ?st' = "completed_state i p L rs effects st"
  have la: "launches_ok cx L st" and run: "running_ok L st" and prov: "providers_ok L st" and ef: "effects_ok L st"
    and sk: "skips_ok cx st" using inv by (simp_all add: core_inv_def)
  have lL: "l \<in> set L" "i \<notin> set (ss_completed st)" using l(1,2) by (simp_all add: pending_launches_def)
  have pend: "mset (pending_launches st L) = add_mset l (mset (pending_launches ?st' L))"
    by (rule pending_completed [OF la l(1,2)])
  have f: "ss_completed ?st' = i # ss_completed st" "ss_time_ms ?st' = ss_time_ms st" "ss_running ?st' = rs"
    "ss_entries ?st' = map (la_entry (i # ss_completed st)) L" "ss_started ?st' = ss_started st"
    "ss_skipped ?st' = ss_skipped st" "ss_active_effects ?st' = effects"
    "ss_provider_running ?st' = dset (bp_provider p) (running_on st (bp_provider p) - 1) (ss_provider_running st)"
    by (simp_all add: completed_state_def)
  have "launches_ok cx L ?st'"
  proof -
    have uniq: "x = l" if "x \<in> set L" "la_id x = i" for x
      using la lL(1) l(2) that by (auto simp: launches_ok_def distinct_map dest: inj_onD)
    then have "la_end x \<le> ss_time_ms st" if "x \<in> set L" "la_id x = i" for x using that l(4) by auto
    moreover have "i \<in> la_id ` set L" using lL(1) l(2) by auto
    ultimately show ?thesis
      using la lL(2) unfolding launches_ok_def f by auto
  qed
  moreover have "skips_ok cx ?st'" using sk by (simp add: skips_ok_def f)
  moreover have "running_ok L ?st'"
  proof -
    have "add_mset (la_view l) (mset (map la_view (pending_launches ?st' L))) = mset (map la_view (pending_launches st L))"
      using mset_filter_add [OF pend, of la_view "\<lambda>_. True"] by simp
    also have "\<dots> = mset (map run_view (ss_running st))" using run by (simp only: running_ok_def)
    also have "\<dots> = add_mset (la_view l) (mset (map run_view rs))"
      using l by (simp add: head run_view_def la_view_def)
    finally have "mset (map run_view rs) = mset (map la_view (pending_launches ?st' L))"
      by (simp only: add_mset_add_mset_same_iff)
    moreover have "sorted (map run_key rs)" "\<forall>r \<in> set rs. ss_time_ms st \<le> fst r"
      using run by (simp_all add: running_ok_def head)
    ultimately show ?thesis unfolding running_ok_def f by (intro conjI)
  qed
  moreover have "providers_ok L ?st'"
  proof -
    have "running_on ?st' q = running_on st q - (if q = bp_provider p then 1 else 0)" for q
      by (simp add: running_on_def f dget_dset)
    moreover have "length (filter (\<lambda>x. la_provider x = q) (pending_launches st L))
        = (if bp_provider p = q then 1 else 0) + length (filter (\<lambda>x. la_provider x = q) (pending_launches ?st' L))" for q
      using length_filter_add [OF pend, of "\<lambda>x. la_provider x = q"] l(3) by (simp add: la_provider_def)
    moreover have "set (pending_launches ?st' L) \<subseteq> set (pending_launches st L)"
      by (auto simp: pending_launches_def f)
    ultimately show ?thesis
      using prov unfolding providers_ok_def by (auto simp: f dmem_dset)
  qed
  moreover have "effects_ok L ?st'"
  proof -
    have "mset (active_of effects r)
        = (if r = [] then {#} else mset (map la_kind (filter (\<lambda>x. la_resource x = r) (pending_launches ?st' L))))" for r
    proof (cases "r = la_resource l \<and> r \<noteq> []")
      case False
      have "mset (active_of (ss_active_effects st) r)
          = (if r = [] then {#} else mset (map la_kind (filter (\<lambda>x. la_resource x = r) (pending_launches st L))))"
        using ef by (simp add: effects_ok_def)
      with False mset_filter_add [OF pend, of la_kind "\<lambda>x. la_resource x = r"] show ?thesis
        by (auto simp: eff(2))
    next
      case True
      then have r: "la_resource l = r" "r \<noteq> []" by blast+
      have "mset (active_of (ss_active_effects st) r)
          = (if r = [] then {#} else mset (map la_kind (filter (\<lambda>x. la_resource x = r) (pending_launches st L))))"
        using ef by (simp add: effects_ok_def)
      with r mset_filter_add [OF pend, of la_kind "\<lambda>x. la_resource x = r"] show ?thesis
        by (simp add: eff(2))
    qed
    with eff(1) show ?thesis unfolding effects_ok_def f by blast
  qed
  ultimately show ?thesis by (simp add: core_inv_def)
qed

theorem core_inv_step:
  assumes cx: "ctx_ok cx" and inv: "core_inv cx s" and step: "sched_step cx s s'"
  shows "core_inv cx s'"
  using step inv
proof (cases rule: sched_step.cases)
  case (skip t st L details)
  with inv show ?thesis by (simp add: core_inv_skip)
next
  case (start t st p L)
  with cx inv show ?thesis by (simp add: core_inv_start chosen_qualified(1))
next
  case (tick st e k i p rs L)
  with inv show ?thesis by (simp add: core_inv_tick)
next
  case (complete st k i p rs st' L)
  with inv have "core_inv cx (L, st)" by simp
  then obtain l effects where
    l: "l \<in> set (pending_launches st L)" "la_id l = i" "la_profile l = p" "la_end l = ss_time_ms st"
    and eq: "complete_task cx i p (st\<lparr>ss_running := rs\<rparr>) = Inr (completed_state i p L rs effects st)"
    and eff: "\<And>r. dget effects r \<noteq> Some []"
      "\<And>r. active_of effects r = (if r = la_resource l \<and> r \<noteq> []
         then remove1 (la_kind l) (active_of (ss_active_effects st) r) else active_of (ss_active_effects st) r)"
    using complete_task_eq [OF cx _ complete(3)] by metis
  from core_inv_complete [OF cx \<open>core_inv cx (L, st)\<close> complete(3) l eff] eq complete(2,4) show ?thesis by simp
qed

end
