(* ===== verification/Scheduler_Laws.thy ===== *)
theory Scheduler_Laws
  imports Scheduler_Inv
begin

text \<open>
  The invariants of the scheduling loop that its results inherit, each preserved by every transition of
  \<open>sched_step\<close>: resource accounting and caps, the success probability and its floor, deadlines,
  dependencies, concurrency, effect serialization, and the work done so far against the capacity
  (which bounds the planning bound by the makespan). \<open>law_inv\<close> joins them.
\<close>

lemmas core_parts = core_inv_def launches_ok_def

lemma sum_list_nonneg_bound: "(\<And>x. x \<in> set xs \<Longrightarrow> (0::int) \<le> x) \<Longrightarrow> 0 \<le> sum_list xs"
  by (rule sum_list_nonneg)

section \<open>Shared facts about the transitions\<close>

lemma launch_in_graph: "core_inv cx (L, st) \<Longrightarrow> l \<in> set L \<Longrightarrow> la_task l \<in> set (cx_graph cx)"
  by (auto simp: core_parts)

lemma launch_profile_ok: "ctx_ok cx \<Longrightarrow> core_inv cx (L, st) \<Longrightarrow> l \<in> set L \<Longrightarrow> profile_ok (la_profile l)"
  by (rule qualified_profile_ok [of "cx_graph cx" "la_task l"]) (auto simp: core_parts ctx_ok_def)

lemma launch_end: "ctx_ok cx \<Longrightarrow> core_inv cx (L, st) \<Longrightarrow> l \<in> set L \<Longrightarrow> la_start l \<le> la_end l"
  using profile_okD(1) [OF launch_profile_ok] by (simp add: la_end_def)

lemma pending_end:
  assumes "core_inv cx (L, st)" and "l \<in> set (pending_launches st L)"
  shows "ss_time_ms st \<le> la_end l" and "\<And>e k i p rs. ss_running st = (e, k, i, p) # rs \<Longrightarrow> e \<le> la_end l"
proof -
  have run: "mset (map run_view (ss_running st)) = mset (map la_view (pending_launches st L))"
    "sorted (map run_key (ss_running st))" "\<forall>r \<in> set (ss_running st). ss_time_ms st \<le> fst r"
    using assms(1) unfolding core_inv_def running_ok_def split by blast+
  have "la_view l \<in> set (map run_view (ss_running st))"
    using mset_eq_setD [OF run(1)] assms(2) by simp
  then obtain k where k: "(la_end l, k, la_id l, la_profile l) \<in> set (ss_running st)"
    by (auto simp: la_view_def run_view_def)
  with run(3) show "ss_time_ms st \<le> la_end l" by force
  show "e \<le> la_end l" if "ss_running st = (e, k', i, p) # rs" for e k' i p rs
    using k run(2) that by (force simp: run_key_def)
qed

lemma pending_count: "core_inv cx (L, st) \<Longrightarrow> length (pending_launches st L) = length (ss_running st)"
  by (metis (no_types, lifting) core_inv_def length_map mset_eq_length old.prod.case running_ok_def)

text \<open>A completed launch has ended, a pending one has not begun to be over.\<close>

lemma covering_pending:
  assumes "core_inv cx (L, st)" and "l \<in> set L" and "ss_time_ms st \<le> tau" and "tau < la_end l"
  shows "l \<in> set (pending_launches st L)"
  using assms by (auto simp: core_parts pending_launches_def)

lemma length_filter_le_pending:
  assumes "\<And>l. l \<in> set L \<Longrightarrow> P l \<Longrightarrow> l \<in> set (pending_launches st L) \<and> Q l"
  shows "length (filter P L) \<le> length (filter Q (pending_launches st L))"
  using assms
proof -
  have "length (filter P L) \<le> length (filter (\<lambda>l. la_id l \<notin> set (ss_completed st) \<and> Q l) L)"
    if "\<forall>l \<in> set L. P l \<longrightarrow> la_id l \<notin> set (ss_completed st) \<and> Q l"
    using that by (induction L) auto
  then show ?thesis using assms by (simp add: pending_launches_def)
qed

section \<open>Resources and success\<close>

definition totals_inv :: "sched_ctx \<Rightarrow> launch list \<times> sched_state \<Rightarrow> bool" where
  "totals_inv cx = (\<lambda>(L, st).
     ss_used_tokens st = sum_list (map (\<lambda>l. total_tokens (la_profile l)) L)
     \<and> ss_used_cost st = sum_list (map (\<lambda>l. bp_cost_microusd (la_profile l)) L)
     \<and> ss_used_context st = sum_list (map (\<lambda>l. bp_context_bytes (la_profile l)) L)
     \<and> ss_used_tokens st \<le> re_max_tokens (cx_envelope cx)
     \<and> ss_used_cost st \<le> re_max_cost_microusd (cx_envelope cx)
     \<and> ss_used_context st \<le> re_max_context_bytes (cx_envelope cx)
     \<and> ss_success_probability st = foldl (\<lambda>s l. s * (1 - bp_failure_probability (la_profile l))) 1 L
     \<and> 0 \<le> ss_success_probability st \<and> ss_success_probability st \<le> 1)"

definition floor_inv :: "sched_ctx \<Rightarrow> launch list \<times> sched_state \<Rightarrow> bool" where
  "floor_inv cx = (\<lambda>(L, st). set (cx_protected cx) \<subseteq> set (ss_started st) \<longrightarrow>
     re_min_success (cx_envelope cx) \<le> ss_success_probability st)"

lemma one_less_two: "(1 :: float64) < float_of 2"
proof -
  have "fl 2 = 2" using fl_exact [of 2 0] by simp
  then show ?thesis by transfer simp
qed

lemma required_success_floor:
  assumes "envelope_ok env" and "0 \<le> used * (1 - bp_failure_probability p)"
    and "required_success env used p \<le> 1"
  shows "re_min_success env \<le> used * (1 - bp_failure_probability p)"
proof (cases "0 < used * (1 - bp_failure_probability p)")
  case True
  with assms(3) have "re_min_success env / (used * (1 - bp_failure_probability p)) \<le> 1"
    by (simp add: required_success_def Let_def)
  from float_quotient_le_one [OF envelope_okD(6) [OF assms(1)] True this] show ?thesis .
next
  case False
  with assms(3) one_less_two have "re_min_success env = 0"
    by (auto simp: required_success_def Let_def split: if_splits)
  with assms(2) show ?thesis by simp
qed

lemma totals_inv_start:
  assumes cx: "ctx_ok cx" and inv: "totals_inv cx (L, st)" and p: "choose_for cx st t = Inr (Some p)"
    and t: "t \<in> set (cx_graph cx)"
  shows "totals_inv cx (L @ [\<lparr>la_task = t, la_profile = p, la_start = ss_time_ms st\<rparr>], start_task t p st)"
proof -
  have "profile_ok p" using qualified_profile_ok [OF _ t chosen_qualified(1) [OF p]] cx by (simp add: ctx_ok_def)
  note pok = profile_okD [OF this]
  have "0 \<le> 1 - bp_failure_probability p" "1 - bp_failure_probability p \<le> 1"
    using pok(7,8) by (auto intro: float_one_minus)
  then show ?thesis
    using inv chosen_qualified(2) [OF p]
    by (auto simp: totals_inv_def profile_feasible_def intro: float_simps)
qed

lemma floor_inv_start:
  assumes cx: "ctx_ok cx" and tot: "totals_inv cx (L, st)" and p: "choose_for cx st t = Inr (Some p)"
    and t: "t \<in> set (cx_graph cx)"
  shows "floor_inv cx (L', start_task t p st)"
proof -
  have "re_min_success (cx_envelope cx) \<le> ss_success_probability st * (1 - bp_failure_probability p)"
    if all: "set (cx_protected cx) \<subseteq> set (ss_started (start_task t p st))"
  proof (rule required_success_floor)
    have "profile_ok p" using qualified_profile_ok [OF _ t chosen_qualified(1) [OF p]] cx by (simp add: ctx_ok_def)
    note pok = profile_okD [OF this]
    show "envelope_ok (cx_envelope cx)" using cx by (simp add: ctx_ok_def)
    show "0 \<le> ss_success_probability st * (1 - bp_failure_probability p)"
      using tot pok(7,8) by (intro float_mult_nonneg) (auto simp: totals_inv_def intro: float_one_minus)
    have "remaining_protected cx st t = []"
      using all by (auto simp: remaining_protected_def filter_empty_conv)
    with chosen_qualified(2) [OF p] show "required_success (cx_envelope cx) (ss_success_probability st) p \<le> 1"
      by (auto simp: profile_feasible_def future_plan_fits_def split: if_splits)
  qed
  then show ?thesis by (simp add: floor_inv_def)
qed

section \<open>Deadlines and dependencies\<close>

definition timing_inv :: "sched_ctx \<Rightarrow> launch list \<times> sched_state \<Rightarrow> bool" where
  "timing_inv cx = (\<lambda>(L, st). \<forall>l \<in> set L.
     la_end l \<le> effective_deadline (la_task l) (re_deadline_ms (cx_envelope cx))
     \<and> (\<forall>d \<in> set (tc_dependencies (la_task l)). \<exists>l' \<in> set L. la_id l' = d \<and> la_end l' \<le> la_start l))"

lemma timing_inv_start:
  assumes core: "core_inv cx (L, st)" and inv: "timing_inv cx (L, st)" and p: "choose_for cx st t = Inr (Some p)"
    and deps: "set (tc_dependencies t) \<subseteq> set (ss_completed st)"
  shows "timing_inv cx (L @ [\<lparr>la_task = t, la_profile = p, la_start = ss_time_ms st\<rparr>], start_task t p st)"
proof -
  have "\<exists>l' \<in> set L. la_id l' = d \<and> la_end l' \<le> ss_time_ms st" if "d \<in> set (tc_dependencies t)" for d
  proof -
    from that deps have d: "d \<in> set (ss_completed st)" by auto
    with core obtain l' where "l' \<in> set L" "la_id l' = d" by (auto simp: core_parts)
    with d core show ?thesis by (auto simp: core_parts)
  qed
  with inv chosen_qualified(2) [OF p] show ?thesis
    by (fastforce simp: timing_inv_def profile_feasible_def la_end_def)
qed

section \<open>Concurrency\<close>

definition covers_time :: "int \<Rightarrow> launch \<Rightarrow> bool" where
  "covers_time tau l \<longleftrightarrow> la_start l \<le> tau \<and> tau < la_end l"

definition concurrency_inv :: "sched_ctx \<Rightarrow> launch list \<times> sched_state \<Rightarrow> bool" where
  "concurrency_inv cx = (\<lambda>(L, st).
     int (length (pending_launches st L)) \<le> sched_capacity cx
     \<and> (\<forall>q. int (length (filter (\<lambda>l. la_provider l = q) (pending_launches st L))) \<le> provider_limit (cx_envelope cx) q)
     \<and> (\<forall>tau. int (length (filter (covers_time tau) L)) \<le> sched_capacity cx
          \<and> (\<forall>q. int (length (filter (\<lambda>l. la_provider l = q \<and> covers_time tau l) L)) \<le> provider_limit (cx_envelope cx) q)))"

lemma capacity_pos: "ctx_ok cx \<Longrightarrow> 0 < sched_capacity cx \<and> sched_capacity cx \<le> re_max_parallelism (cx_envelope cx)"
  using envelope_okD(5) [of "cx_envelope cx"] by (auto simp: ctx_ok_def sched_capacity_def)

lemma concurrency_inv_start:
  assumes cx: "ctx_ok cx" and core: "core_inv cx (L, st)" and inv: "concurrency_inv cx (L, st)"
    and t: "tc_task_id t \<notin> set (ss_started st)"
    and cap: "int (length (ss_running st)) < sched_capacity cx"
    and lim: "running_on st (bp_provider p) < provider_limit (cx_envelope cx) (bp_provider p)"
  shows "concurrency_inv cx (L @ [\<lparr>la_task = t, la_profile = p, la_start = ss_time_ms st\<rparr>], start_task t p st)"
proof -
  let ?l = "\<lparr>la_task = t, la_profile = p, la_start = ss_time_ms st\<rparr>"
  have la: "launches_ok cx L st" and prov: "providers_ok L st" using core by (simp_all add: core_inv_def)
  note pend = pending_started [OF la t]
  have count: "int (length (pending_launches st L)) < sched_capacity cx" using pending_count [OF core] cap by simp
  have lim': "int (length (filter (\<lambda>l. la_provider l = bp_provider p) (pending_launches st L)))
      < provider_limit (cx_envelope cx) (bp_provider p)"
    using lim prov by (simp add: providers_ok_def)
  have late: "length (filter (covers_time tau) L) \<le> length (pending_launches st L)"
    "length (filter (\<lambda>l. la_provider l = q \<and> covers_time tau l) L) \<le> length (filter (\<lambda>l. la_provider l = q) (pending_launches st L))"
    if "ss_time_ms st \<le> tau" for tau q
    using length_filter_le_pending [of L "covers_time tau" st "\<lambda>_. True"]
      length_filter_le_pending [of L "\<lambda>l. la_provider l = q \<and> covers_time tau l" st "\<lambda>l. la_provider l = q"]
      covering_pending [OF core _ that] by (auto simp: covers_time_def)
  have "int (length (filter (covers_time tau) (L @ [?l]))) \<le> sched_capacity cx" for tau
    using late(1) [of tau] count inv by (cases "ss_time_ms st \<le> tau") (auto simp: covers_time_def concurrency_inv_def)
  moreover have "int (length (filter (\<lambda>l. la_provider l = q \<and> covers_time tau l) (L @ [?l]))) \<le> provider_limit (cx_envelope cx) q"
    for tau q
  proof (cases "q = bp_provider p \<and> ss_time_ms st \<le> tau")
    case True
    with late(2) [of tau q] lim' show ?thesis by (auto simp: la_provider_def)
  next
    case False
    then have "filter (\<lambda>l. la_provider l = q \<and> covers_time tau l) (L @ [?l])
        = filter (\<lambda>l. la_provider l = q \<and> covers_time tau l) L"
      by (auto simp: la_provider_def covers_time_def)
    with inv show ?thesis by (simp add: concurrency_inv_def)
  qed
  moreover have "int (length (pending_launches st L @ [?l])) \<le> sched_capacity cx" using count by simp
  moreover have "int (length (filter (\<lambda>l. la_provider l = q) (pending_launches st L @ [?l]))) \<le> provider_limit (cx_envelope cx) q" for q
    using inv lim' by (auto simp: concurrency_inv_def la_provider_def)
  ultimately show ?thesis unfolding concurrency_inv_def split pend by blast
qed

section \<open>Effect serialization\<close>

text \<open>Two overlapping launches on one resource: neither writes, or one of them is declared pure.\<close>

definition compatible :: "launch \<Rightarrow> launch \<Rightarrow> bool" where
  "compatible a b \<longleftrightarrow>
     la_resource a = la_resource b \<and> la_resource a \<noteq> [] \<and> la_start a < la_end b \<and> la_start b < la_end a \<longrightarrow>
     (\<not> writes (la_kind a) \<and> \<not> writes (la_kind b)) \<or> la_kind a = PURE \<or> la_kind b = PURE"

lemma compatible_sym: "compatible a b \<longleftrightarrow> compatible b a"
  by (auto simp: compatible_def)

definition effects_inv :: "launch list \<times> sched_state \<Rightarrow> bool" where
  "effects_inv = (\<lambda>(L, st). \<forall>a \<in> set L. \<forall>b \<in> set L. a \<noteq> b \<longrightarrow> compatible a b)"

lemma effects_inv_start:
  assumes core: "core_inv cx (L, st)" and inv: "effects_inv (L, st)"
    and free: "\<not> effect_conflicts t (ss_active_effects st)"
  shows "effects_inv (L @ [\<lparr>la_task = t, la_profile = p, la_start = ss_time_ms st\<rparr>], start_task t p st)"
proof -
  let ?l = "\<lparr>la_task = t, la_profile = p, la_start = ss_time_ms st\<rparr>"
  have eff: "effects_ok L st" using core by (simp add: core_inv_def)
  have "compatible a ?l" if a: "a \<in> set L" for a
  proof (cases "la_resource a = la_resource ?l \<and> la_resource a \<noteq> [] \<and> la_start ?l < la_end a \<and> la_kind ?l \<noteq> PURE")
    case False
    then show ?thesis by (auto simp: compatible_def)
  next
    case True
    let ?r = "la_resource a"
    have "a \<in> set (pending_launches st L)"
      by (rule covering_pending [OF core a order_refl]) (use True in simp)
    moreover have "?r \<noteq> []" using True by blast
    with eff have "mset (active_of (ss_active_effects st) ?r)
        = mset (map la_kind (filter (\<lambda>l. la_resource l = ?r) (pending_launches st L)))"
      unfolding effects_ok_def by metis
    from mset_eq_setD [OF this] have "set (active_of (ss_active_effects st) ?r)
        = la_kind ` {l \<in> set (pending_launches st L). la_resource l = ?r}" by auto
    ultimately have mem: "la_kind a \<in> set (active_of (ss_active_effects st) ?r)" by auto
    have t: "ef_resource (tc_effect t) = ?r" "ef_kind (tc_effect t) \<noteq> PURE" "la_kind ?l = ef_kind (tc_effect t)"
      using True by (simp_all add: la_resource_def la_kind_def)
    from free t True mem have "ef_kind (tc_effect t) = READ" "\<not> writes (la_kind a)"
      by (auto simp: effect_conflicts_def Let_def active_of_def [symmetric] list_ex_iff split: if_splits)
    then show ?thesis by (simp add: compatible_def t(3) writes_def)
  qed
  with inv show ?thesis by (auto simp: effects_inv_def compatible_sym)
qed

section \<open>Work against capacity\<close>

text \<open>The work of the launches in \<open>A\<close> done by the time \<open>now\<close>.\<close>

definition work_done :: "int \<Rightarrow> launch list \<Rightarrow> int" where
  "work_done now L = sum_list (map (\<lambda>l. min (la_end l) now - la_start l) L)"

definition work_inv :: "sched_ctx \<Rightarrow> launch list \<times> sched_state \<Rightarrow> bool" where
  "work_inv cx = (\<lambda>(L, st).
     work_done (ss_time_ms st) L \<le> re_max_parallelism (cx_envelope cx) * ss_time_ms st
     \<and> (\<forall>q. work_done (ss_time_ms st) (filter (\<lambda>l. la_provider l = q) L)
          \<le> provider_capacity (cx_envelope cx) q * ss_time_ms st))"

lemma work_done_advance:
  assumes core: "core_inv cx (L, st)" and head: "ss_running st = (e, k, i, p) # rs" and sub: "set M \<subseteq> set L"
  shows "work_done e M
    = work_done (ss_time_ms st) M + (e - ss_time_ms st) * int (length (filter (\<lambda>l. la_id l \<notin> set (ss_completed st)) M))"
proof -
  have le: "ss_time_ms st \<le> e" using core head by (auto simp: core_inv_def running_ok_def)
  have "min (la_end l) e = min (la_end l) (ss_time_ms st)
      + (if la_id l \<notin> set (ss_completed st) then e - ss_time_ms st else 0)" if "l \<in> set L" for l
  proof (cases "la_id l \<in> set (ss_completed st)")
    case True
    then have "la_end l \<le> ss_time_ms st" using core that by (auto simp: core_parts)
    with True le show ?thesis by simp
  next
    case False
    then have "l \<in> set (pending_launches st L)" using that by (simp add: pending_launches_def)
    from pending_end(2) [OF core this head] False le show ?thesis by simp
  qed
  then show ?thesis using sub
    by (induction M) (auto simp: work_done_def algebra_simps)
qed

lemma work_inv_tick:
  assumes cx: "ctx_ok cx" and core: "core_inv cx (L, st)" and inv: "work_inv cx (L, st)"
    and con: "concurrency_inv cx (L, st)" and head: "ss_running st = (e, k, i, p) # rs"
  shows "work_inv cx (L, st\<lparr>ss_time_ms := e\<rparr>)"
proof -
  let ?d = "e - ss_time_ms st"
  have d: "0 \<le> ?d" using core head by (auto simp: core_inv_def running_ok_def)
  have count: "int (length (pending_launches st L)) \<le> re_max_parallelism (cx_envelope cx)"
    using con capacity_pos [OF cx] by (auto simp: concurrency_inv_def)
  have "work_done e L \<le> re_max_parallelism (cx_envelope cx) * e"
    using work_done_advance [OF core head subset_refl] mult_left_mono [OF count d] inv
    by (simp add: work_inv_def pending_launches_def algebra_simps)
  moreover have "work_done e (filter (\<lambda>l. la_provider l = q) L) \<le> provider_capacity (cx_envelope cx) q * e" for q
  proof -
    let ?n = "int (length (filter (\<lambda>l. la_provider l = q) (pending_launches st L)))"
    have "filter (\<lambda>l. la_id l \<notin> set (ss_completed st)) (filter (\<lambda>l. la_provider l = q) L)
        = filter (\<lambda>l. la_provider l = q) (pending_launches st L)"
      by (simp add: pending_launches_def conj_commute)
    then have adv: "work_done e (filter (\<lambda>l. la_provider l = q) L)
        = work_done (ss_time_ms st) (filter (\<lambda>l. la_provider l = q) L) + ?d * ?n"
      using work_done_advance [OF core head, of "filter (\<lambda>l. la_provider l = q) L"] by simp
    have "?n \<le> int (length (pending_launches st L))" by (simp only: of_nat_le_iff length_filter_le)
    with count have "?n \<le> re_max_parallelism (cx_envelope cx)" by linarith
    then have "?n \<le> provider_capacity (cx_envelope cx) q"
      using con count by (auto simp: concurrency_inv_def provider_capacity_def)
    from mult_left_mono [OF this d] have
      "?d * ?n \<le> provider_capacity (cx_envelope cx) q * e - provider_capacity (cx_envelope cx) q * ss_time_ms st"
      by (simp add: algebra_simps)
    moreover have "work_done (ss_time_ms st) (filter (\<lambda>l. la_provider l = q) L)
        \<le> provider_capacity (cx_envelope cx) q * ss_time_ms st"
      using inv by (simp add: work_inv_def)
    ultimately show ?thesis unfolding adv by linarith
  qed
  ultimately show ?thesis by (simp add: work_inv_def)
qed

lemma work_inv_start:
  assumes "work_inv cx (L, st)" and "0 \<le> bp_duration_ms_p95 p"
  shows "work_inv cx (L @ [\<lparr>la_task = t, la_profile = p, la_start = ss_time_ms st\<rparr>], start_task t p st)"
  using assms by (simp add: work_inv_def work_done_def la_end_def)

section \<open>All laws together\<close>

definition law_inv :: "sched_ctx \<Rightarrow> launch list \<times> sched_state \<Rightarrow> bool" where
  "law_inv cx s \<longleftrightarrow> core_inv cx s \<and> totals_inv cx s \<and> floor_inv cx s \<and> timing_inv cx s
     \<and> concurrency_inv cx s \<and> effects_inv s \<and> work_inv cx s"

text \<open>What the laws read of the state.\<close>

lemma laws_unchanged:
  assumes "ss_time_ms st' = ss_time_ms st" and "ss_used_tokens st' = ss_used_tokens st"
    and "ss_used_cost st' = ss_used_cost st" and "ss_used_context st' = ss_used_context st"
    and "ss_success_probability st' = ss_success_probability st" and "ss_started st' = ss_started st"
  shows "totals_inv cx (L, st') = totals_inv cx (L, st)" and "floor_inv cx (L, st') = floor_inv cx (L, st)"
    and "timing_inv cx (L, st') = timing_inv cx (L, st)" and "effects_inv (L, st') = effects_inv (L, st)"
    and "work_inv cx (L, st') = work_inv cx (L, st)"
  using assms by (simp_all add: totals_inv_def floor_inv_def timing_inv_def effects_inv_def work_inv_def)

lemma concurrency_fewer:
  assumes "concurrency_inv cx (L, st)" and "set (ss_completed st) \<subseteq> set (ss_completed st')"
  shows "concurrency_inv cx (L, st')"
proof -
  have "length (filter P (pending_launches st' L)) \<le> length (filter P (pending_launches st L))" for P
    unfolding pending_launches_def using assms(2) by (induction L) auto
  from this [of "\<lambda>_. True"] this [of "\<lambda>l. la_provider l = _"] assms(1) show ?thesis
    by (auto simp: concurrency_inv_def intro: order_trans [OF of_nat_mono])
qed

lemma law_inv_step:
  assumes cx: "ctx_ok cx" and inv: "law_inv cx s" and step: "sched_step cx s s'"
  shows "law_inv cx s'"
proof -
  have core: "core_inv cx s" "core_inv cx s'"
    using core_inv_step [OF cx _ step] inv by (simp_all add: law_inv_def)
  show ?thesis
    using step
  proof (cases rule: sched_step.cases)
    case (skip t st L details)
    then show ?thesis using inv core
      by (auto simp: law_inv_def laws_unchanged [of "skip_task t details st" st] intro: concurrency_fewer [of cx L st])
  next
    case (start t st p L)
    have "profile_ok p"
      using qualified_profile_ok [OF _ start(3) chosen_qualified(1) [OF start(8)]] cx by (simp add: ctx_ok_def)
    then have "0 \<le> bp_duration_ms_p95 p" by (rule profile_okD)
    moreover have "floor_inv cx s'"
      unfolding start(2) by (rule floor_inv_start [OF cx, of L, OF _ start(8,3)]) (use inv start(1) in \<open>simp add: law_inv_def\<close>)
    moreover have "effects_inv s'"
      unfolding start(2) by (rule effects_inv_start [of cx, OF _ _ start(10)]) (use inv start(1) in \<open>simp_all add: law_inv_def\<close>)
    ultimately show ?thesis
      using inv core start cx
      by (simp add: law_inv_def totals_inv_start timing_inv_start concurrency_inv_start work_inv_start)
  next
    case (tick st e k i p rs L)
    have "totals_inv cx (L, st\<lparr>ss_time_ms := e\<rparr>) = totals_inv cx (L, st)"
      "floor_inv cx (L, st\<lparr>ss_time_ms := e\<rparr>) = floor_inv cx (L, st)"
      "timing_inv cx (L, st\<lparr>ss_time_ms := e\<rparr>) = timing_inv cx (L, st)"
      "effects_inv (L, st\<lparr>ss_time_ms := e\<rparr>) = effects_inv (L, st)"
      by (simp_all add: totals_inv_def floor_inv_def timing_inv_def effects_inv_def)
    moreover have "concurrency_inv cx (L, st\<lparr>ss_time_ms := e\<rparr>)"
      by (rule concurrency_fewer [of cx L st]) (use inv tick(1) in \<open>simp_all add: law_inv_def\<close>)
    ultimately show ?thesis
      using inv core tick work_inv_tick [OF cx _ _ _ tick(3), of L] by (simp add: law_inv_def)
  next
    case (complete st k i p rs st' L)
    from core(1) complete(1) have "core_inv cx (L, st)" by simp
    from complete_task_eq [OF cx this complete(3)] complete(4) obtain effects where
      st': "st' = completed_state i p L rs effects st" by (metis Inr_inject)
    have f: "ss_time_ms st' = ss_time_ms st" "ss_used_tokens st' = ss_used_tokens st"
      "ss_used_cost st' = ss_used_cost st" "ss_used_context st' = ss_used_context st"
      "ss_success_probability st' = ss_success_probability st" "ss_started st' = ss_started st"
      "ss_completed st' = i # ss_completed st"
      by (simp_all add: st' completed_state_def)
    have "concurrency_inv cx (L, st')"
      by (rule concurrency_fewer [of cx L st]) (use inv complete(1) in \<open>auto simp: law_inv_def f\<close>)
    then show ?thesis
      using inv core complete(1,2) laws_unchanged [OF f(1-6)] by (simp add: law_inv_def)
  qed
qed

lemma law_inv_init:
  assumes "ctx_ok cx"
  shows "law_inv cx ([], emit ty i d sched_init)"
proof -
  have "envelope_ok (cx_envelope cx)" using assms by (simp add: ctx_ok_def)
  note env = envelope_okD [OF this] provider_limit_pos [OF this]
  then show ?thesis
    using capacity_pos [OF assms] core_inv_init [of cx ty i d]
    by (simp add: law_inv_def totals_inv_def floor_inv_def timing_inv_def concurrency_inv_def
        effects_inv_def work_inv_def work_done_def sched_init_def [THEN arg_cong, of ss_time_ms]
        sched_init_def [THEN arg_cong, of ss_used_tokens] sched_init_def [THEN arg_cong, of ss_used_cost]
        sched_init_def [THEN arg_cong, of ss_used_context] sched_init_def [THEN arg_cong, of ss_success_probability]
        pending_launches_def order_less_imp_le)
qed

end
