(* ===== verification/Scheduler_Run.thy ===== *)
theory Scheduler_Run
  imports Scheduler_Laws Interfaces
begin

text \<open>
  The loop of the code runs along \<open>sched_step\<close>: the dispatch loop, the completion loop and the skip loop
  are sequences of transitions, no lookup of theirs fails, every iteration completes or skips a
  task, and a ready task can always be dispatched when nothing runs. So on a valid graph and
  envelope \<open>schedule\<close> always returns a result (its fuel is enough and nothing raises), and the only
  reason it can give for a failure is a protected task without an admissible profile.
\<close>

abbreviation sched_steps :: "sched_ctx \<Rightarrow> launch list \<times> sched_state \<Rightarrow> launch list \<times> sched_state \<Rightarrow> bool" where
  "sched_steps cx \<equiv> (sched_step cx)\<^sup>*\<^sup>*"

lemma law_inv_steps: "sched_steps cx s s' \<Longrightarrow> ctx_ok cx \<Longrightarrow> law_inv cx s \<Longrightarrow> law_inv cx s'"
  by (induction rule: rtranclp_induct) (auto intro: law_inv_step)

section \<open>Lookups never fail\<close>

lemma task_id_known: "t \<in> set (cx_graph cx) \<Longrightarrow> tc_task_id t \<in> set (graph_ids (cx_graph cx))"
  by (simp add: graph_ids_def)

lemma rank_table_ok: "ctx_ok cx \<Longrightarrow> t \<in> set (graph_ids (cx_graph cx)) \<Longrightarrow> dmem t (rank_table cx t)"
  by (auto simp: ctx_ok_def rank_table_def)

lemma choose_for_ok:
  assumes "ctx_ok cx" and "t \<in> set (cx_graph cx)"
  shows "\<exists>o'. choose_for cx st t = Inr o'"
  using rank_table_ok [OF assms(1) task_id_known [OF assms(2)]] assms task_id_known [OF assms(2)]
  by (auto simp: choose_for_def lookup_def dmem_def ctx_ok_def split: option.splits)

lemma urgency_key_ok:
  assumes "ctx_ok cx" and "t \<in> set (cx_graph cx)"
  shows "\<exists>k. urgency_key cx now t = Inr k"
  using rank_table_ok [OF assms(1) task_id_known [OF assms(2)]] assms task_id_known [OF assms(2)]
  by (auto simp: urgency_key_def Let_def lookup_def dmem_def ctx_ok_def split: option.splits)

lemma map_error_ok:
  "\<forall>x \<in> set xs. \<exists>y. f x = Inr y \<Longrightarrow> \<exists>ys. map_error f xs = Inr ys \<and> length ys = length xs"
  by (induction xs) auto

lemma sort_ready_ok:
  assumes "ctx_ok cx" and "set ready \<subseteq> set (cx_graph cx)"
  shows "\<exists>ready'. sort_ready cx now ready = Inr ready' \<and> mset ready' = mset ready"
proof (cases "cx_policy cx = ADAPTIVE")
  case True
  have "\<forall>t \<in> set ready. \<exists>k. urgency_key cx now t = Inr k" using urgency_key_ok [OF assms(1)] assms(2) by blast
  from map_error_ok [OF this] obtain keys where
    k: "map_error (urgency_key cx now) ready = Inr keys" "length keys = length ready" by blast
  have "mset (map snd (sort_key fst (zip keys ready))) = image_mset snd (mset (zip keys ready))" by simp
  also have "\<dots> = mset ready" by (metis k(2) map_snd_zip mset_map)
  finally show ?thesis using True k(1) by (simp add: sort_ready_def)
next
  case False
  then show ?thesis by (simp add: sort_ready_def)
qed

section \<open>Skipping and dispatching\<close>

definition fresh :: "sched_ctx \<Rightarrow> sched_state \<Rightarrow> task_contract list \<Rightarrow> bool" where
  "fresh cx st ts \<longleftrightarrow> set ts \<subseteq> set (cx_graph cx) \<and> distinct (map tc_task_id ts)
     \<and> (\<forall>t \<in> set ts. tc_task_id t \<notin> set (ss_started st) \<and> tc_task_id t \<notin> set (ss_skipped st))"

lemma fresh_graph: "graph_ok (cx_graph cx) \<Longrightarrow>
    fresh cx st (filter (\<lambda>t. tc_task_id t \<notin> set (ss_started st) \<and> tc_task_id t \<notin> set (ss_skipped st) \<and> P t) (cx_graph cx))"
  using graph_ok_parts(1) [of "cx_graph cx"]
  by (auto simp: fresh_def graph_ids_def intro: distinct_map_filter)

lemma fresh_mset: "mset ts' = mset ts \<Longrightarrow> fresh cx st ts \<Longrightarrow> fresh cx st ts'"
  unfolding fresh_def by (metis mset_eq_setD mset_map distinct_count_atmost_1)

lemma fresh_tail:
  assumes "fresh cx st (t # ts)" and "set (ss_started st') \<subseteq> insert (tc_task_id t) (set (ss_started st))"
    and "set (ss_skipped st') \<subseteq> insert (tc_task_id t) (set (ss_skipped st))"
  shows "fresh cx st' ts"
proof -
  have "tc_task_id x \<noteq> tc_task_id t" if "x \<in> set ts" for x
    using assms(1) that by (metis distinct.simps(2) fresh_def image_eqI list.set_map list.simps(9))
  with assms show ?thesis by (fastforce simp: fresh_def)
qed

text \<open>A task behind a skipped dependency is never protected.\<close>

lemma blocked_unprotected:
  assumes "ctx_ok cx" and "core_inv cx (L, st)" and "t \<in> set (cx_graph cx)" and "d \<in> set (tc_dependencies t)"
    and "d \<in> set (ss_skipped st)"
  shows "tc_task_id t \<notin> set (cx_protected cx)"
proof
  assume "tc_task_id t \<in> set (cx_protected cx)"
  moreover have "d \<in> set (deps_of (by_id (cx_graph cx)) (tc_task_id t))"
    using assms(1,3,4) deps_of_task [OF graph_ok_parts(1)] by (simp add: ctx_ok_def)
  ultimately have "d \<in> set (cx_protected cx)" using assms(1) protected_closed by (simp add: ctx_ok_def)
  then show False using assms(2,5) by (auto simp: core_inv_def skips_ok_def)
qed

lemma unprotected_optional:
  "ctx_ok cx \<Longrightarrow> t \<in> set (cx_graph cx) \<Longrightarrow> tc_task_id t \<notin> set (cx_protected cx) \<Longrightarrow> tc_optional t"
  using protected_required by (fastforce simp: ctx_ok_def required_ids_def)

lemma skip_blocked_ok:
  assumes cx: "ctx_ok cx"
  shows "core_inv cx (L, st) \<Longrightarrow> fresh cx st ts \<Longrightarrow>
    \<forall>t \<in> set ts. list_ex (\<lambda>d. d \<in> set (ss_skipped st)) (tc_dependencies t) \<Longrightarrow>
    \<exists>st'. skip_blocked ts st = Continue True st' \<and> sched_steps cx (L, st) (L, st')
      \<and> length (ss_skipped st') = length (ss_skipped st) + length ts \<and> ss_completed st' = ss_completed st"
proof (induction ts arbitrary: st)
  case Nil
  then show ?case by auto
next
  case (Cons t ts)
  let ?d = "[(''reason'', JStr ''dependency skipped''), (''dependencies'',
    JArr (map JStr (sorted_set (filter (\<lambda>d. d \<in> set (ss_skipped st)) (tc_dependencies t)))))]"
  let ?st = "skip_task t ?d st"
  have t: "t \<in> set (cx_graph cx)" "tc_task_id t \<notin> set (ss_started st)" "tc_task_id t \<notin> set (ss_skipped st)"
    using Cons.prems(2) by (simp_all add: fresh_def)
  from Cons.prems(3) obtain d where "d \<in> set (tc_dependencies t)" "d \<in> set (ss_skipped st)"
    by (auto simp: list_ex_iff)
  from blocked_unprotected [OF cx Cons.prems(1) t(1) this] have unp: "tc_task_id t \<notin> set (cx_protected cx)" .
  have step: "sched_step cx (L, st) (L, ?st)" by (rule sched_step.skip [OF t unp])
  have "fresh cx ?st ts" by (rule fresh_tail [OF Cons.prems(2)]) auto
  moreover have "\<forall>x \<in> set ts. list_ex (\<lambda>d. d \<in> set (ss_skipped ?st)) (tc_dependencies x)"
    using Cons.prems(3) by (auto simp: list_ex_iff)
  ultimately obtain st' where st': "skip_blocked ts ?st = Continue True st'" "sched_steps cx (L, ?st) (L, st')"
    "length (ss_skipped st') = length (ss_skipped ?st) + length ts" "ss_completed st' = ss_completed ?st"
    using Cons.IH [OF core_inv_step [OF cx Cons.prems(1) step]] by blast
  have "sched_steps cx (L, st) (L, st')" using step st'(2) by (rule converse_rtranclp_into_rtranclp)
  with st' unprotected_optional [OF cx t(1) unp] show ?case by (intro exI [of _ st']) (simp add: Let_def)
qed

definition unplannable :: "string \<Rightarrow> string" where
  "unplannable t = ''protected task '' @ py_repr t @ '' has no admissible backend plan''"

definition dispatch_post :: "sched_ctx \<Rightarrow> bool \<Rightarrow> launch list \<Rightarrow> sched_state \<Rightarrow> flow \<Rightarrow> bool" where
  "dispatch_post cx d L st r \<longleftrightarrow>
     (\<exists>L' st'. sched_steps cx (L, st) (L', st') \<and> ss_completed st' = ss_completed st
        \<and> length (ss_skipped st) \<le> length (ss_skipped st') \<and> (ss_running st \<noteq> [] \<longrightarrow> ss_running st' \<noteq> [])
        \<and> ((\<exists>d'. r = Continue d' st' \<and> (d \<longrightarrow> d')
              \<and> (d' \<longrightarrow> d \<or> length (ss_skipped st) < length (ss_skipped st') \<or> ss_running st' \<noteq> []))
           \<or> (\<exists>t \<in> set (cx_protected cx). r = Refuse (unplannable t) st')))"

lemma dispatch_post_step:
  assumes step: "sched_step cx (L, st) (L1, st1)" and same: "ss_completed st1 = ss_completed st"
    and skipped: "length (ss_skipped st) \<le> length (ss_skipped st1)"
    and running: "ss_running st \<noteq> [] \<longrightarrow> ss_running st1 \<noteq> []"
    and progress: "length (ss_skipped st) < length (ss_skipped st1) \<or> ss_running st1 \<noteq> []"
    and post: "dispatch_post cx True L1 st1 r"
  shows "dispatch_post cx d L st r"
proof -
  from post obtain L' st' where p: "sched_steps cx (L1, st1) (L', st')" "ss_completed st' = ss_completed st1"
    "length (ss_skipped st1) \<le> length (ss_skipped st')" "ss_running st1 \<noteq> [] \<longrightarrow> ss_running st' \<noteq> []"
    "(\<exists>d'. r = Continue d' st' \<and> d') \<or> (\<exists>t \<in> set (cx_protected cx). r = Refuse (unplannable t) st')"
    by (auto simp: dispatch_post_def)
  have "sched_steps cx (L, st) (L', st')" using step p(1) by (rule converse_rtranclp_into_rtranclp)
  moreover have "ss_completed st' = ss_completed st" using p(2) same by simp
  moreover have "length (ss_skipped st) \<le> length (ss_skipped st')" using p(3) skipped by linarith
  moreover have "ss_running st \<noteq> [] \<longrightarrow> ss_running st' \<noteq> []" using p(4) running by blast
  moreover have "length (ss_skipped st) < length (ss_skipped st') \<or> ss_running st' \<noteq> []"
    using p(3,4) progress by linarith
  ultimately show ?thesis using p(5) unfolding dispatch_post_def by blast
qed

lemma dispatch_post_id: "dispatch_post cx d L st (Continue d st)"
  unfolding dispatch_post_def by (intro exI [of _ L] exI [of _ st]) auto

lemma push_running_nonempty [simp]: "push_running r rs \<noteq> []"
  by (cases rs) (simp_all add: push_running_def)

lemma dispatch_loop_ok:
  assumes cx: "ctx_ok cx"
  shows "core_inv cx (L, st) \<Longrightarrow> fresh cx st ts \<Longrightarrow>
    \<forall>t \<in> set ts. set (tc_dependencies t) \<subseteq> set (ss_completed st) \<Longrightarrow>
    dispatch_post cx d L st (dispatch_loop cx ts d st)"
proof (induction ts arbitrary: L st d)
  case Nil
  then show ?case by (simp add: dispatch_post_id)
next
  case (Cons t ts)
  have t: "t \<in> set (cx_graph cx)" "tc_task_id t \<notin> set (ss_started st)" "tc_task_id t \<notin> set (ss_skipped st)"
    "set (tc_dependencies t) \<subseteq> set (ss_completed st)"
    using Cons.prems(2,3) by (simp_all add: fresh_def)
  have rest: "fresh cx st ts" "\<forall>t \<in> set ts. set (tc_dependencies t) \<subseteq> set (ss_completed st)"
    using Cons.prems(2,3) by (simp_all add: fresh_def)
  from choose_for_ok [OF cx t(1), of st] obtain choice where choice: "choose_for cx st t = Inr choice" ..
  show ?case
  proof (cases "int (length (ss_running st)) \<ge> sched_capacity cx")
    case True
    then show ?thesis by (simp add: dispatch_post_id)
  next
    case False
    show ?thesis
    proof (cases choice)
      case None
      show ?thesis
      proof (cases "tc_task_id t \<in> set (cx_protected cx)")
        case True
        have "dispatch_post cx d L st (Refuse (unplannable (tc_task_id t)) st)"
          unfolding dispatch_post_def by (intro exI [of _ L] exI [of _ st]) (use True in auto)
        with False choice None True show ?thesis by (simp add: unplannable_def)
      next
        case unp: False
        let ?st = "skip_task t [(''reason'', JStr ''protected resource or deadline envelope'')] st"
        have step: "sched_step cx (L, st) (L, ?st)" by (rule sched_step.skip [OF t(1-3) unp])
        have "fresh cx ?st ts" by (rule fresh_tail [OF Cons.prems(2)]) auto
        from Cons.IH [OF core_inv_step [OF cx Cons.prems(1) step] this]
        have "dispatch_post cx True L ?st (dispatch_loop cx ts True ?st)" using rest(2) by simp
        from dispatch_post_step [OF step _ _ _ _ this] False choice None unp show ?thesis by simp
      qed
    next
      case (Some p)
      show ?thesis
      proof (cases "running_on st (bp_provider p) \<ge> provider_limit (cx_envelope cx) (bp_provider p)
          \<or> effect_conflicts t (ss_active_effects st)")
        case True
        with False choice Some Cons.IH [OF Cons.prems(1) rest] show ?thesis by auto
      next
        case free: False
        let ?st = "start_task t p st" and ?L = "L @ [\<lparr>la_task = t, la_profile = p, la_start = ss_time_ms st\<rparr>]"
        have step: "sched_step cx (L, st) (?L, ?st)"
          by (rule sched_step.start [OF t]) (use False free choice Some in simp_all)
        have "fresh cx ?st ts" by (rule fresh_tail [OF Cons.prems(2)]) auto
        from Cons.IH [OF core_inv_step [OF cx Cons.prems(1) step] this]
        have "dispatch_post cx True ?L ?st (dispatch_loop cx ts True ?st)" using rest(2) by simp
        from dispatch_post_step [OF step _ _ _ _ this] False choice Some free show ?thesis by simp
      qed
    qed
  qed
qed

text \<open>When nothing runs, the first ready task does not stay undispatched.\<close>

lemma dispatch_first:
  assumes cx: "ctx_ok cx" and core: "core_inv cx (L, st)" and fresh: "fresh cx st (t # ts)"
    and deps: "\<forall>x \<in> set (t # ts). set (tc_dependencies x) \<subseteq> set (ss_completed st)"
    and idle: "ss_running st = []"
  shows "dispatch_loop cx (t # ts) False st \<noteq> Continue False st'"
proof -
  have t: "t \<in> set (cx_graph cx)" "tc_task_id t \<notin> set (ss_started st)" "tc_task_id t \<notin> set (ss_skipped st)"
    "set (tc_dependencies t) \<subseteq> set (ss_completed st)"
    using fresh deps by (simp_all add: fresh_def)
  from choose_for_ok [OF cx t(1), of st] obtain choice where choice: "choose_for cx st t = Inr choice" ..
  have cap: "\<not> int (length (ss_running st)) \<ge> sched_capacity cx" using idle capacity_pos [OF cx] by simp
  have pend: "pending_launches st L = []" using pending_count [OF core] idle by simp
  show ?thesis
  proof (cases choice)
    case None
    let ?st = "skip_task t [(''reason'', JStr ''protected resource or deadline envelope'')] st"
    show ?thesis
    proof (cases "tc_task_id t \<in> set (cx_protected cx)")
      case True
      with cap choice None show ?thesis by simp
    next
      case False
      have step: "sched_step cx (L, st) (L, ?st)" by (rule sched_step.skip [OF t(1-3) False])
      have "dispatch_post cx True L ?st (dispatch_loop cx ts True ?st)"
        by (rule dispatch_loop_ok [OF cx core_inv_step [OF cx core step]]) (use fresh_tail [OF fresh, of ?st] deps in auto)
      then have "dispatch_loop cx ts True ?st \<noteq> Continue False st'" by (auto simp: dispatch_post_def)
      with cap choice None False show ?thesis by simp
    qed
  next
    case (Some p)
    let ?st = "start_task t p st" and ?L = "L @ [\<lparr>la_task = t, la_profile = p, la_start = ss_time_ms st\<rparr>]"
    have "running_on st (bp_provider p) = 0"
      using core pend by (simp add: core_inv_def providers_ok_def)
    then have lim: "\<not> running_on st (bp_provider p) \<ge> provider_limit (cx_envelope cx) (bp_provider p)"
      using provider_limit_pos [of "cx_envelope cx"] cx by (simp add: ctx_ok_def not_le)
    have "active_of (ss_active_effects st) r = []" for r
      using core pend by (simp add: core_inv_def effects_ok_def split: if_splits) (metis)
    then have free: "\<not> effect_conflicts t (ss_active_effects st)"
      by (simp add: effect_conflicts_def Let_def active_of_def [symmetric])
    have step: "sched_step cx (L, st) (?L, ?st)"
      by (rule sched_step.start [OF t]) (use cap lim free choice Some in simp_all)
    have "dispatch_post cx True ?L ?st (dispatch_loop cx ts True ?st)"
      by (rule dispatch_loop_ok [OF cx core_inv_step [OF cx core step]]) (use fresh_tail [OF fresh, of ?st] deps in auto)
    then have "dispatch_loop cx ts True ?st \<noteq> Continue False st'" by (auto simp: dispatch_post_def)
    with cap choice Some lim free show ?thesis by simp
  qed
qed

section \<open>Completing\<close>

lemma head_completes:
  assumes cx: "ctx_ok cx" and core: "core_inv cx (L, st)" and head: "ss_running st = (ss_time_ms st, k, i, p) # rs"
  obtains st' where "complete_task cx i p (st\<lparr>ss_running := rs\<rparr>) = Inr st'"
    and "sched_step cx (L, st) (L, st')" and "ss_running st' = rs" and "ss_time_ms st' = ss_time_ms st"
    and "ss_skipped st' = ss_skipped st" and "length (ss_completed st') = Suc (length (ss_completed st))"
proof -
  obtain effects where eq: "complete_task cx i p (st\<lparr>ss_running := rs\<rparr>) = Inr (completed_state i p L rs effects st)"
    using complete_task_eq [OF cx core head] by metis
  from sched_step.complete [OF head eq] eq show ?thesis
    by (intro that [of "completed_state i p L rs effects st"]) (simp_all add: completed_state_def)
qed

lemma complete_loop_ok:
  assumes cx: "ctx_ok cx"
  shows "core_inv cx (L, st) \<Longrightarrow> ss_running st = rs \<Longrightarrow>
    \<exists>st'. complete_loop cx (ss_time_ms st) rs st = Inr st' \<and> sched_steps cx (L, st) (L, st')
      \<and> ss_skipped st' = ss_skipped st \<and> length (ss_completed st) \<le> length (ss_completed st')
      \<and> ss_time_ms st' = ss_time_ms st
      \<and> (rs \<noteq> [] \<and> fst (hd rs) = ss_time_ms st \<longrightarrow> length (ss_completed st) < length (ss_completed st'))"
proof (induction rs arbitrary: st)
  case Nil
  then have "st\<lparr>ss_running := []\<rparr> = st" by simp
  then show ?case by simp
next
  case (Cons r rs)
  obtain e k i p where r: "r = (e, k, i, p)" by (cases r)
  show ?case
  proof (cases "e = ss_time_ms st")
    case False
    have "st\<lparr>ss_running := (e, k, i, p) # rs\<rparr> = st" using Cons.prems(2) r by simp
    with False r show ?thesis by (intro exI [of _ st]) simp
  next
    case True
    have head: "ss_running st = (ss_time_ms st, k, i, p) # rs" using Cons.prems(2) r True by simp
    obtain st1 where st1: "complete_task cx i p (st\<lparr>ss_running := rs\<rparr>) = Inr st1"
      "sched_step cx (L, st) (L, st1)" "ss_running st1 = rs" "ss_time_ms st1 = ss_time_ms st"
      "ss_skipped st1 = ss_skipped st" "length (ss_completed st1) = Suc (length (ss_completed st))"
      by (rule head_completes [OF cx Cons.prems(1) head])
    from Cons.IH [OF core_inv_step [OF cx Cons.prems(1) st1(2)] st1(3)] obtain st' where
      st': "complete_loop cx (ss_time_ms st1) rs st1 = Inr st'" "sched_steps cx (L, st1) (L, st')"
        "ss_skipped st' = ss_skipped st1" "length (ss_completed st1) \<le> length (ss_completed st')"
        "ss_time_ms st' = ss_time_ms st1" by blast
    have "sched_steps cx (L, st) (L, st')" using st1(2) st'(2) by (rule converse_rtranclp_into_rtranclp)
    with st' st1 r True show ?thesis by (intro exI [of _ st']) simp
  qed
qed

lemma effective_deadline_le: "effective_deadline t d \<le> d"
  by (simp add: effective_deadline_def)

text \<open>No completion is later than the deadline of the run.\<close>

lemma running_in_time:
  assumes "law_inv cx (L, st)" and "ss_running st = (e, k, i, p) # rs"
  shows "e \<le> re_deadline_ms (cx_envelope cx)"
proof -
  have run: "running_ok L st" using assms(1) by (simp add: law_inv_def core_inv_def)
  obtain l where "l \<in> set (pending_launches st L)" "la_end l = e"
    by (rule running_launch [OF run, of e k i p]) (use assms(2) in auto)
  moreover have "\<forall>l \<in> set L. la_end l \<le> effective_deadline (la_task l) (re_deadline_ms (cx_envelope cx))"
    using assms(1) by (simp add: law_inv_def timing_inv_def)
  ultimately show ?thesis using effective_deadline_le order_trans by (fastforce simp: pending_launches_def)
qed

lemma advance_ok:
  assumes cx: "ctx_ok cx" and inv: "law_inv cx (L, st)" and run: "ss_running st \<noteq> []"
  shows "\<exists>st'. advance cx d st = Next st' \<and> sched_steps cx (L, st) (L, st') \<and> ss_skipped st' = ss_skipped st
    \<and> length (ss_completed st) < length (ss_completed st')"
proof -
  obtain e k i p rs where head: "ss_running st = (e, k, i, p) # rs" using run by (metis neq_Nil_conv prod_cases4)
  let ?st = "st\<lparr>ss_time_ms := e\<rparr>"
  have step: "sched_step cx (L, st) (L, ?st)" by (rule sched_step.tick [OF head])
  have core: "core_inv cx (L, ?st)" using core_inv_step [OF cx _ step] inv by (simp add: law_inv_def)
  have "ss_running ?st = (e, k, i, p) # rs" by (simp add: head)
  from complete_loop_ok [OF cx core this] obtain st' where
    st': "complete_loop cx (ss_time_ms ?st) ((e, k, i, p) # rs) ?st = Inr st'" "sched_steps cx (L, ?st) (L, st')"
      "ss_skipped st' = ss_skipped ?st" "ss_time_ms st' = ss_time_ms ?st"
      "length (ss_completed ?st) < length (ss_completed st')"
    by auto
  have "sched_steps cx (L, st) (L, st')" using step st'(2) by (rule converse_rtranclp_into_rtranclp)
  with st' running_in_time [OF inv head] show ?thesis
    by (intro exI [of _ st']) (simp add: advance_def head)
qed

section \<open>Failing never raises\<close>

lemma replace_entry_ok:
  "distinct (map se_task_id es) \<Longrightarrow> i \<in> set (map se_task_id es) \<Longrightarrow>
   replace_entry i out tm es = Some (map (\<lambda>e. if se_task_id e = i then e\<lparr>se_outcome := out, se_end_ms := tm\<rparr> else e) es)"
proof (induction es)
  case Nil
  then show ?case by simp
next
  case (Cons e es)
  show ?case
  proof (cases "se_task_id e = i")
    case True
    then have "map (\<lambda>e. if se_task_id e = i then e\<lparr>se_outcome := out, se_end_ms := tm\<rparr> else e) es = map id es"
      using distinct_head [OF Cons.prems(1)] by (intro map_cong) auto
    with True show ?thesis by simp
  next
    case False
    with Cons show ?thesis by auto
  qed
qed

definition run_id :: "running_task \<Rightarrow> string" where
  "run_id = (\<lambda>(e, k, i, p). i)"

definition cancel_entry :: "string list \<Rightarrow> int \<Rightarrow> schedule_entry \<Rightarrow> schedule_entry" where
  "cancel_entry ids now e =
     (if se_task_id e \<in> set ids then e\<lparr>se_outcome := ''cancelled'', se_end_ms := now\<rparr> else e)"

lemma cancel_entry_id [simp]: "se_task_id (cancel_entry ids now e) = se_task_id e"
  by (simp add: cancel_entry_def)

lemma cancel_entry_comp [simp]: "se_task_id \<circ> cancel_entry ids now = se_task_id"
  by (simp add: fun_eq_iff)

fun emit_cancels :: "string list \<Rightarrow> sched_state \<Rightarrow> sched_state" where
  "emit_cancels [] st = st"
| "emit_cancels (i # ids) st = emit_cancels ids (emit TASK_CANCELLED (Some i) [(''reason'', JStr ''run refused'')] st)"

lemma emit_cancels_fields [simp]:
  "ss_time_ms (emit_cancels ids st) = ss_time_ms st" "ss_entries (emit_cancels ids st) = ss_entries st"
  "ss_skipped (emit_cancels ids st) = ss_skipped st" "ss_used_tokens (emit_cancels ids st) = ss_used_tokens st"
  "ss_used_cost (emit_cancels ids st) = ss_used_cost st" "ss_used_context (emit_cancels ids st) = ss_used_context st"
  "ss_success_probability (emit_cancels ids st) = ss_success_probability st"
  "ss_completed (emit_cancels ids st) = ss_completed st" "ss_started (emit_cancels ids st) = ss_started st"
  by (induction ids arbitrary: st) simp_all

lemma emit_commutes:
  "emit ty i d (st\<lparr>ss_entries := es\<rparr>) = (emit ty i d st)\<lparr>ss_entries := es\<rparr>"
  "emit ty i d (st\<lparr>ss_running := rs\<rparr>) = (emit ty i d st)\<lparr>ss_running := rs\<rparr>"
  by (simp_all add: emit_def)

lemma emit_cancels_commutes:
  "emit_cancels ids (st\<lparr>ss_entries := es\<rparr>) = (emit_cancels ids st)\<lparr>ss_entries := es\<rparr>"
  by (induction ids arbitrary: st) (simp_all add: emit_commutes)

lemma cancel_running_ok:
  "distinct (map se_task_id (ss_entries st)) \<Longrightarrow> run_id ` set rs \<subseteq> set (map se_task_id (ss_entries st)) \<Longrightarrow>
   cancel_running rs st = Inr ((emit_cancels (map run_id rs) st)
     \<lparr>ss_entries := map (cancel_entry (map run_id rs) (ss_time_ms st)) (ss_entries st), ss_running := []\<rparr>)"
proof (induction rs arbitrary: st)
  case Nil
  have "map (cancel_entry [] (ss_time_ms st)) (ss_entries st) = ss_entries st"
    by (simp add: cancel_entry_def map_idI)
  then show ?case by simp
next
  case (Cons r rs)
  obtain e k i p where r: "r = (e, k, i, p)" by (cases r)
  let ?es = "map (cancel_entry [i] (ss_time_ms st)) (ss_entries st)"
  let ?st = "emit TASK_CANCELLED (Some i) [(''reason'', JStr ''run refused'')] (st\<lparr>ss_entries := ?es\<rparr>)"
  have id: "run_id r = i" by (simp add: r run_id_def)
  have "set_outcome i ''cancelled'' (ss_time_ms st) st = Inr (st\<lparr>ss_entries := ?es\<rparr>)"
    using replace_entry_ok [OF Cons.prems(1), of i] Cons.prems(2) id
    by (simp add: set_outcome_def cancel_entry_def)
  then have "cancel_running (r # rs) st = cancel_running rs ?st" by (simp add: r)
  also have "\<dots> = Inr ((emit_cancels (map run_id rs) ?st)
     \<lparr>ss_entries := map (cancel_entry (map run_id rs) (ss_time_ms ?st)) (ss_entries ?st), ss_running := []\<rparr>)"
    by (rule Cons.IH) (use Cons.prems in \<open>simp_all add: image_image\<close>)
  also have "\<dots> = Inr ((emit_cancels (map run_id (r # rs)) st)
     \<lparr>ss_entries := map (cancel_entry (map run_id (r # rs)) (ss_time_ms st)) (ss_entries st), ss_running := []\<rparr>)"
    by (simp add: id emit_commutes emit_cancels_commutes) (simp add: cancel_entry_def)
  finally show ?case .
qed

lemma entry_id [simp]: "se_task_id (la_entry C l) = la_id l"
  by (simp add: la_entry_def new_entry_def la_id_def)

lemma entries_distinct: "core_inv cx (L, st) \<Longrightarrow> distinct (map se_task_id (ss_entries st))"
  by (simp add: core_parts o_def)

lemma running_ids:
  assumes "core_inv cx (L, st)"
  shows "run_id ` set (ss_running st) = la_id ` set (pending_launches st L)"
proof -
  have "mset (map run_view (ss_running st)) = mset (map la_view (pending_launches st L))"
    using assms unfolding core_inv_def running_ok_def split by blast
  from mset_eq_setD [OF this] have "run_view ` set (ss_running st) = la_view ` set (pending_launches st L)"
    by simp
  moreover have "run_id ` A = (fst \<circ> snd) ` (run_view ` A)" for A
    by (simp add: image_image run_view_def run_id_def split_def)
  moreover have "la_id ` B = (fst \<circ> snd) ` (la_view ` B)" for B by (simp add: image_image la_view_def)
  ultimately show ?thesis by simp
qed

definition cancelled_state :: "sched_state \<Rightarrow> sched_state" where
  "cancelled_state st =
     (emit_cancels (map run_id (ss_running st)) st)
       \<lparr>ss_entries := map (cancel_entry (map run_id (ss_running st)) (ss_time_ms st)) (ss_entries st), ss_running := []\<rparr>"

lemma fail_run_ok:
  assumes "core_inv cx (L, st)"
  shows "fail_run cx reason st = Inr (failure_result cx reason (cancelled_state st))"
proof -
  have "run_id ` set (ss_running st) \<subseteq> set (map se_task_id (ss_entries st))"
    unfolding running_ids [OF assms] using assms by (auto simp: core_parts pending_launches_def)
  from cancel_running_ok [OF entries_distinct [OF assms] this] show ?thesis
    by (simp add: fail_run_def cancelled_state_def)
qed

section \<open>One iteration\<close>

definition in_time :: "sched_ctx \<Rightarrow> launch list \<times> sched_state \<Rightarrow> bool" where
  "in_time cx = (\<lambda>(L, st). ss_time_ms st \<le> re_deadline_ms (cx_envelope cx))"

definition good :: "sched_ctx \<Rightarrow> launch list \<times> sched_state \<Rightarrow> bool" where
  "good cx s \<longleftrightarrow> law_inv cx s \<and> in_time cx s"

lemma good_step:
  assumes cx: "ctx_ok cx" and inv: "good cx s" and step: "sched_step cx s s'"
  shows "good cx s'"
proof -
  have law: "law_inv cx s" "law_inv cx s'" using inv law_inv_step [OF cx _ step] by (simp_all add: good_def)
  have "in_time cx s'"
    using step
  proof (cases rule: sched_step.cases)
    case (tick st e k i p rs L)
    with running_in_time [of cx L st e k i p rs] law(1) show ?thesis by (simp add: in_time_def)
  next
    case (complete st k i p rs st' L)
    from law(1) complete(1) have "core_inv cx (L, st)" by (simp add: law_inv_def)
    from head_completes [OF cx this complete(3)] complete(4) have "ss_time_ms st' = ss_time_ms st"
      by (metis Inr_inject)
    with complete inv show ?thesis by (simp add: good_def in_time_def)
  qed (use inv in \<open>auto simp: good_def in_time_def\<close>)
  with law(2) show ?thesis by (simp add: good_def)
qed

lemma good_steps: "sched_steps cx s s' \<Longrightarrow> ctx_ok cx \<Longrightarrow> good cx s \<Longrightarrow> good cx s'"
  by (induction rule: rtranclp_induct) (auto intro: good_step)

lemma good_core: "good cx (L, st) \<Longrightarrow> core_inv cx (L, st)"
  by (simp add: good_def law_inv_def)

text \<open>When nothing runs, every started task is completed.\<close>

lemma idle_started:
  assumes "core_inv cx (L, st)" and "ss_running st = []"
  shows "set (ss_started st) = set (ss_completed st)"
proof -
  have "pending_launches st L = []" using pending_count [OF assms(1)] assms(2) by simp
  then show ?thesis using assms(1) by (auto simp: core_parts pending_launches_def filter_empty_conv)
qed

lemma stuck_is_done:
  assumes cx: "ctx_ok cx" and core: "core_inv cx (L, st)" and idle: "ss_running st = []"
    and none: "blocked_by_skipped cx st = []" "ready_tasks cx st = []"
  shows "run_done cx st"
proof -
  let ?g = "cx_graph cx"
  have g: "graph_ok ?g" using cx by (simp add: ctx_ok_def)
  note started = idle_started [OF core idle]
  have "t \<in> set (graph_ids ?g) \<longrightarrow> t \<in> set (ss_completed st) \<union> set (ss_skipped st)" for t
    using g
  proof (induction t rule: dep_induct)
    case (task t)
    show ?case
    proof
      assume "t \<in> set (graph_ids ?g)"
      then obtain u where u: "u \<in> set ?g" "tc_task_id u = t" "deps_of (by_id ?g) t = tc_dependencies u"
        using graph_id_task [OF g] by blast
      have deps: "d \<in> set (ss_completed st) \<union> set (ss_skipped st)" if "d \<in> set (tc_dependencies u)" for d
        using task [of d] that u graph_ok_known [OF g, of d t] by auto
      have "\<not> (t \<notin> set (ss_started st) \<and> t \<notin> set (ss_skipped st) \<and> list_ex (\<lambda>d. d \<in> set (ss_skipped st)) (tc_dependencies u))"
        using none(1) u by (auto simp: blocked_by_skipped_def filter_empty_conv)
      moreover have "\<not> (t \<notin> set (ss_started st) \<and> t \<notin> set (ss_skipped st) \<and> list_all (\<lambda>d. d \<in> set (ss_completed st)) (tc_dependencies u))"
        using none(2) u by (auto simp: ready_tasks_def filter_empty_conv)
      ultimately show "t \<in> set (ss_completed st) \<union> set (ss_skipped st)"
        using deps started by (auto simp: list_ex_iff list_all_iff)
    qed
  qed
  then have "card (set (graph_ids ?g)) \<le> card (set (ss_completed st) \<union> set (ss_skipped st))"
    by (intro card_mono) auto
  also have "\<dots> \<le> card (set (ss_completed st)) + card (set (ss_skipped st))" by (rule card_Un_le)
  also have "\<dots> = length (remdups (ss_completed st)) + length (ss_skipped st)"
    using core by (simp add: core_inv_def skips_ok_def distinct_card length_remdups_card_conv)
  finally show ?thesis
    using graph_ok_parts(1) [OF g] cx by (simp add: run_done_def ctx_ok_def length_by_id distinct_card)
qed

definition finished :: "sched_state \<Rightarrow> nat" where
  "finished st = length (ss_completed st) + length (ss_skipped st)"

definition iteration_post :: "sched_ctx \<Rightarrow> launch list \<Rightarrow> sched_state \<Rightarrow> iteration_result \<Rightarrow> bool" where
  "iteration_post cx L st r \<longleftrightarrow>
     (\<exists>L' st'. sched_steps cx (L, st) (L', st')
        \<and> ((r = Next st' \<and> finished st < finished st')
           \<or> (\<exists>t \<in> set (cx_protected cx). r = Return (fail_run cx (unplannable t) st'))))"

lemma ready_fresh:
  assumes "ctx_ok cx" and "mset ready = mset (ready_tasks cx st)"
  shows "fresh cx st ready" and "\<forall>t \<in> set ready. set (tc_dependencies t) \<subseteq> set (ss_completed st)"
proof -
  have "graph_ok (cx_graph cx)" using assms(1) by (simp add: ctx_ok_def)
  from fresh_graph [OF this, of st "\<lambda>t. list_all (\<lambda>d. d \<in> set (ss_completed st)) (tc_dependencies t)"]
  show "fresh cx st ready" by (intro fresh_mset [OF assms(2)]) (simp add: ready_tasks_def)
  from mset_eq_setD [OF assms(2)] show "\<forall>t \<in> set ready. set (tc_dependencies t) \<subseteq> set (ss_completed st)"
    by (auto simp: ready_tasks_def list_all_iff)
qed

lemma iteration_blocked:
  assumes cx: "ctx_ok cx" and good: "good cx (L, st)" and blocked: "blocked_by_skipped cx st \<noteq> []"
  shows "iteration_post cx L st (iteration cx st)"
proof -
  let ?ts = "sort_key tc_task_id (blocked_by_skipped cx st)"
  have "graph_ok (cx_graph cx)" using cx by (simp add: ctx_ok_def)
  from fresh_graph [OF this, of st "\<lambda>t. list_ex (\<lambda>d. d \<in> set (ss_skipped st)) (tc_dependencies t)"]
  have "fresh cx st (blocked_by_skipped cx st)" by (simp add: blocked_by_skipped_def)
  then have "fresh cx st ?ts" by (rule fresh_mset [rotated]) simp
  moreover have "\<forall>t \<in> set ?ts. list_ex (\<lambda>d. d \<in> set (ss_skipped st)) (tc_dependencies t)"
    by (simp add: blocked_by_skipped_def)
  ultimately obtain st' where st': "skip_blocked ?ts st = Continue True st'" "sched_steps cx (L, st) (L, st')"
    "length (ss_skipped st') = length (ss_skipped st) + length ?ts" "ss_completed st' = ss_completed st"
    using skip_blocked_ok [OF cx good_core [OF good]] by blast
  have "finished st < finished st'" using st'(3,4) blocked by (simp add: finished_def)
  with st'(1,2) blocked show ?thesis
    unfolding iteration_post_def by (intro exI [of _ L] exI [of _ st']) (simp add: iteration_def Let_def)
qed

lemma dispatch_postE:
  assumes "dispatch_post cx False L st r"
  obtains L1 st1 where "sched_steps cx (L, st) (L1, st1)" "ss_completed st1 = ss_completed st"
      "length (ss_skipped st) \<le> length (ss_skipped st1)" "ss_running st \<noteq> [] \<longrightarrow> ss_running st1 \<noteq> []"
    "(\<exists>d'. r = Continue d' st1
          \<and> (d' \<longrightarrow> length (ss_skipped st) < length (ss_skipped st1) \<or> ss_running st1 \<noteq> []))
        \<or> (\<exists>t \<in> set (cx_protected cx). r = Refuse (unplannable t) st1)"
  using assms unfolding dispatch_post_def by blast

lemma iteration_free:
  assumes cx: "ctx_ok cx" and good: "good cx (L, st)" and free: "blocked_by_skipped cx st = []"
    and more: "\<not> run_done cx st"
  shows "iteration_post cx L st (iteration cx st)"
proof -
  note core = good_core [OF good]
  have "set (ready_tasks cx st) \<subseteq> set (cx_graph cx)" by (auto simp: ready_tasks_def)
  from sort_ready_ok [OF cx this] obtain ready where
    ready: "sort_ready cx (ss_time_ms st) (ready_tasks cx st) = Inr ready" "mset ready = mset (ready_tasks cx st)" by blast
  note fr = ready_fresh [OF cx ready(2)]
  have it: "iteration cx st = (case dispatch_loop cx ready False st of
      Raise e \<Rightarrow> Return (Inl e) | Refuse reason st' \<Rightarrow> Return (fail_run cx reason st')
    | Continue dispatched st' \<Rightarrow> advance cx dispatched st')"
    by (simp add: iteration_def free ready(1))
  have post: "dispatch_post cx False L st (dispatch_loop cx ready False st)"
    by (rule dispatch_loop_ok [OF cx core fr])
  obtain L1 st1 where
    d: "sched_steps cx (L, st) (L1, st1)" "ss_completed st1 = ss_completed st"
      "length (ss_skipped st) \<le> length (ss_skipped st1)" "ss_running st \<noteq> [] \<longrightarrow> ss_running st1 \<noteq> []"
    and out: "(\<exists>d'. dispatch_loop cx ready False st = Continue d' st1
          \<and> (d' \<longrightarrow> length (ss_skipped st) < length (ss_skipped st1) \<or> ss_running st1 \<noteq> []))
        \<or> (\<exists>t \<in> set (cx_protected cx). dispatch_loop cx ready False st = Refuse (unplannable t) st1)"
    by (rule dispatch_postE [OF post]) blast
  have good1: "good cx (L1, st1)" by (rule good_steps [OF d(1) cx good])
  from out show ?thesis
  proof
    assume "\<exists>t \<in> set (cx_protected cx). dispatch_loop cx ready False st = Refuse (unplannable t) st1"
    with d(1) it show ?thesis unfolding iteration_post_def by (intro exI [of _ L1] exI [of _ st1]) auto
  next
    assume "\<exists>d'. dispatch_loop cx ready False st = Continue d' st1
      \<and> (d' \<longrightarrow> length (ss_skipped st) < length (ss_skipped st1) \<or> ss_running st1 \<noteq> [])"
    then obtain d' where d': "dispatch_loop cx ready False st = Continue d' st1"
      "d' \<longrightarrow> length (ss_skipped st) < length (ss_skipped st1) \<or> ss_running st1 \<noteq> []" by blast
    show ?thesis
    proof (cases "ss_running st1 = []")
      case False
      from advance_ok [OF cx _ False, of L1 d'] good1 obtain st2 where
        a: "advance cx d' st1 = Next st2" "sched_steps cx (L1, st1) (L1, st2)" "ss_skipped st2 = ss_skipped st1"
          "length (ss_completed st1) < length (ss_completed st2)" by (auto simp: good_def)
      have "sched_steps cx (L, st) (L1, st2)" using d(1) a(2) by (rule rtranclp_trans)
      with a d d' it show ?thesis
        unfolding iteration_post_def by (intro exI [of _ L1] exI [of _ st2]) (simp add: finished_def)
    next
      case True
      have idle: "ss_running st = []" using True d(4) by blast
      have "d'"
      proof (rule ccontr)
        assume "\<not> d'"
        have "ready_tasks cx st \<noteq> []" using stuck_is_done [OF cx core idle free] more by blast
        with ready(2) obtain t ts where "ready = t # ts" by (cases ready) auto
        with dispatch_first [OF cx core _ _ idle, of t ts st1] fr d'(1) \<open>\<not> d'\<close> show False by simp
      qed
      with True d' good1 have "advance cx d' st1 = Next st1" "length (ss_skipped st) < length (ss_skipped st1)"
        by (auto simp: advance_def good_def in_time_def)
      with d d' it show ?thesis
        unfolding iteration_post_def by (intro exI [of _ L1] exI [of _ st1]) (simp add: finished_def)
    qed
  qed
qed

section \<open>The whole loop\<close>

lemma finished_bound:
  assumes cx: "ctx_ok cx" and core: "core_inv cx (L, st)"
  shows "finished st \<le> length (cx_graph cx)"
proof -
  let ?C = "set (ss_completed st)" and ?S = "set (ss_skipped st)" and ?I = "set (graph_ids (cx_graph cx))"
  have sk: "distinct (ss_skipped st)" "?S \<subseteq> ?I" "?S \<inter> set (ss_started st) = {}"
    and la: "distinct (ss_completed st)" "?C \<subseteq> la_id ` set L" "ss_started st = rev (map la_id L)"
    using core unfolding core_inv_def split skips_ok_def launches_ok_def by blast+
  have "la_id l \<in> ?I" if "l \<in> set L" for l
    using launch_in_graph [OF core that] by (simp add: la_id_def graph_ids_def)
  with la(2) have "?C \<subseteq> ?I" by blast
  with sk(2) have "card (?C \<union> ?S) \<le> card ?I" by (intro card_mono) auto
  also have "\<dots> \<le> length (cx_graph cx)" using card_length [of "graph_ids (cx_graph cx)"] by (simp add: graph_ids_def)
  finally have "card (?C \<union> ?S) \<le> length (cx_graph cx)" .
  moreover have "?C \<inter> ?S = {}" using sk(3) la(2,3) by auto
  then have "card (?C \<union> ?S) = finished st"
    using sk(1) la(1) by (simp add: finished_def card_Un_disjoint distinct_card)
  ultimately show ?thesis by simp
qed

lemma schedule_loop_ok:
  assumes cx: "ctx_ok cx"
  shows "good cx (L, st) \<Longrightarrow> length (cx_graph cx) < finished st + fuel \<Longrightarrow>
    \<exists>L' st'. sched_steps cx (L, st) (L', st')
      \<and> ((run_done cx st' \<and> schedule_loop fuel cx st = Some (finish_run cx st'))
         \<or> (\<exists>t \<in> set (cx_protected cx). schedule_loop fuel cx st = Some (fail_run cx (unplannable t) st')))"
proof (induction fuel arbitrary: L st)
  case 0
  then show ?case using finished_bound [OF cx good_core] by fastforce
next
  case (Suc fuel)
  show ?case
  proof (cases "run_done cx st")
    case True
    then show ?thesis by (intro exI [of _ L] exI [of _ st]) simp
  next
    case False
    have "iteration_post cx L st (iteration cx st)"
      using iteration_blocked [OF cx Suc.prems(1)] iteration_free [OF cx Suc.prems(1) _ False] by blast
    then obtain L1 st1 where p: "sched_steps cx (L, st) (L1, st1)"
      "(iteration cx st = Next st1 \<and> finished st < finished st1)
        \<or> (\<exists>t \<in> set (cx_protected cx). iteration cx st = Return (fail_run cx (unplannable t) st1))"
      by (auto simp: iteration_post_def)
    from p(2) show ?thesis
    proof
      assume n: "iteration cx st = Next st1 \<and> finished st < finished st1"
      with Suc.prems(2) have "length (cx_graph cx) < finished st1 + fuel" by linarith
      from Suc.IH [OF good_steps [OF p(1) cx Suc.prems(1)] this] obtain L2 st2 where
        q: "sched_steps cx (L1, st1) (L2, st2)"
          "(run_done cx st2 \<and> schedule_loop fuel cx st1 = Some (finish_run cx st2))
            \<or> (\<exists>t \<in> set (cx_protected cx). schedule_loop fuel cx st1 = Some (fail_run cx (unplannable t) st2))"
        by blast
      have "sched_steps cx (L, st) (L2, st2)" by (rule rtranclp_trans [OF p(1) q(1)])
      with q(2) n False show ?thesis by (intro exI [of _ L2] exI [of _ st2]) simp
    next
      assume "\<exists>t \<in> set (cx_protected cx). iteration cx st = Return (fail_run cx (unplannable t) st1)"
      with p(1) False show ?thesis by (intro exI [of _ L1] exI [of _ st1]) auto
    qed
  qed
qed

definition start_state :: "schedule_policy \<Rightarrow> sched_state" where
  "start_state policy = emit RUN_STARTED None [(''policy'', JStr (policy_value policy))] sched_init"

lemma good_start: "ctx_ok cx \<Longrightarrow> good cx ([], start_state policy)"
  using law_inv_init [of cx RUN_STARTED None "[(''policy'', JStr (policy_value policy))]"]
    envelope_okD(1) [of "cx_envelope cx"]
  by (simp add: good_def start_state_def in_time_def ctx_ok_def sched_init_def)

text \<open>How a call of \<open>schedule\<close> with valid arguments goes.\<close>

definition ran :: "execution_graph \<Rightarrow> run_envelope \<Rightarrow> schedule_policy \<Rightarrow> sched_ctx \<Rightarrow> launch list \<Rightarrow> sched_state \<Rightarrow> bool" where
  "ran g env policy cx L st \<longleftrightarrow>
     ctx_ok cx \<and> cx_graph cx = g \<and> cx_envelope cx = env \<and> cx_policy cx = policy
     \<and> sched_steps cx ([], start_state policy) (L, st) \<and> good cx (L, st)"

lemma schedule_ran:
  assumes g: "graph_ok g" and env: "envelope_ok env"
  obtains cx L st where "ran g env policy cx L st"
    and "(run_done cx st \<and> schedule g env policy = Some (finish_run cx st))
      \<or> (\<exists>t \<in> set (cx_protected cx).
           schedule g env policy = Some (Inr (failure_result cx (unplannable t) (cancelled_state st))))"
proof -
  obtain cx where cx: "sched_context g env policy = Inr cx" "ctx_ok cx"
    "cx_graph cx = g" "cx_envelope cx = env" "cx_policy cx = policy"
    by (rule sched_context_ok [OF g env])
  have sched: "schedule g env policy = schedule_loop (Suc (length g)) cx (start_state policy)"
    using g env cx(1) by (simp add: schedule_def graph_ok_def envelope_ok_def start_state_def)
  have "length (cx_graph cx) < finished (start_state policy) + Suc (length g)"
    using cx(3) by simp
  from schedule_loop_ok [OF cx(2) good_start [OF cx(2)] this] obtain L st where
    s: "sched_steps cx ([], start_state policy) (L, st)"
      "(run_done cx st \<and> schedule_loop (Suc (length g)) cx (start_state policy) = Some (finish_run cx st))
       \<or> (\<exists>t \<in> set (cx_protected cx). schedule_loop (Suc (length g)) cx (start_state policy)
            = Some (fail_run cx (unplannable t) st))" by blast
  have good: "good cx (L, st)" by (rule good_steps [OF s(1) cx(2) good_start [OF cx(2)]])
  have "ran g env policy cx L st" using cx s(1) good by (simp add: ran_def)
  then show ?thesis
    using s(2) fail_run_ok [OF good_core [OF good]] by (intro that [of cx L st]) (simp_all add: sched)
qed

end
