(* ===== verification/Scheduler_Bound.thy ===== *)
theory Scheduler_Bound
  imports Scheduler_Run
begin

text \<open>
  The end of a run. When the loop of \<open>schedule\<close> is left, every task is completed or skipped, the
  planning bound computed from the entries exists and is at most the simulated makespan, so
  \<open>finish_run\<close> never raises its \<open>RuntimeError\<close>. \<open>outcome\<close> describes the result record of a run,
  successful or refused, by the launches of the run.
\<close>

section \<open>Every task is accounted for\<close>

lemma done_all:
  assumes cx: "ctx_ok cx" and core: "core_inv cx (L, st)" and fin: "run_done cx st"
  shows "set (ss_completed st) \<union> set (ss_skipped st) = set (graph_ids (cx_graph cx))"
    and "set (ss_started st) = set (ss_completed st)"
    and "\<And>l. l \<in> set L \<Longrightarrow> la_end l \<le> ss_time_ms st"
proof -
  let ?C = "set (ss_completed st)" and ?S = "set (ss_skipped st)" and ?I = "set (graph_ids (cx_graph cx))"
  have sk: "distinct (ss_skipped st)" "?S \<subseteq> ?I" "?S \<inter> set (ss_started st) = {}"
    and la: "distinct (ss_completed st)" "?C \<subseteq> la_id ` set L" "ss_started st = rev (map la_id L)"
      "\<And>l. l \<in> set L \<Longrightarrow> la_id l \<in> ?C \<longrightarrow> la_end l \<le> ss_time_ms st"
    using core unfolding core_inv_def split skips_ok_def launches_ok_def by blast+
  have ids: "la_id l \<in> ?I" if "l \<in> set L" for l
    using launch_in_graph [OF core that] by (simp add: la_id_def graph_ids_def)
  have "card ?I = length (cx_by_id cx)"
    using graph_ok_parts(1) [of "cx_graph cx"] cx by (simp add: ctx_ok_def length_by_id distinct_card)
  also have "\<dots> \<le> card ?C + card ?S"
    using fin sk(1) by (simp add: run_done_def distinct_card length_remdups_card_conv)
  also have "\<dots> = card (?C \<union> ?S)"
    using sk(3) la(2,3) by (subst card_Un_disjoint) auto
  finally show all: "?C \<union> ?S = ?I"
    using sk(2) la(2) ids by (intro card_seteq) auto
  show "set (ss_started st) = ?C"
    using la(2,3) sk(3) ids all by auto
  then show "la_end l \<le> ss_time_ms st" if "l \<in> set L" for l
    using la(3,4) that by auto
qed

lemma good_launch:
  assumes "good cx (L, st)" and "l \<in> set L"
  shows "la_end l \<le> effective_deadline (la_task l) (re_deadline_ms (cx_envelope cx))"
    and "d \<in> set (tc_dependencies (la_task l)) \<Longrightarrow> \<exists>l' \<in> set L. la_id l' = d \<and> la_end l' \<le> la_start l"
  using assms unfolding good_def law_inv_def timing_inv_def split by blast+

section \<open>The planning bound\<close>

lemma rank_loop_dict_ok:
  "rank_loop succ included own ts ranks = Inr r \<Longrightarrow> dict_ok ranks \<Longrightarrow> dict_ok r"
  by (induction ts arbitrary: ranks) (auto split: if_splits option.splits sum.splits)

lemma ranks_of_dict_ok: "ranks_of g included own = Inr r \<Longrightarrow> dict_ok r"
  by (auto simp: ranks_of_def split: sum.splits intro: rank_loop_dict_ok)

lemma dvalues_dget: "dict_ok d \<Longrightarrow> v \<in> set (dvalues d) \<Longrightarrow> \<exists>k. dget d k = Some v"
  by (force simp: dict_ok_def)

lemma ceil_div_le: "0 < d \<Longrightarrow> n \<le> d * t \<Longrightarrow> ceil_div n d \<le> t"
proof -
  assume d: "0 < d" and n: "n \<le> d * t"
  have "(n + d - 1) div d \<le> (d * t + (d - 1)) div d" using d n by (intro zdiv_mono1) auto
  also have "\<dots> = t" using d by (simp add: div_add1_eq)
  finally show ?thesis by (simp add: ceil_div_def)
qed

lemma provider_work_sums:
  "provider_work providers ds work = Inr w \<Longrightarrow> dict_ok work \<Longrightarrow>
   dict_ok w \<and> (\<forall>q. (case dget w q of None \<Rightarrow> 0 | Some n \<Rightarrow> n)
     = (case dget work q of None \<Rightarrow> 0 | Some n \<Rightarrow> n)
       + sum_list (map snd (filter (\<lambda>(t, d). dget providers t = Some q) ds)))"
proof (induction ds arbitrary: work)
  case Nil
  then show ?case by simp
next
  case (Cons x ds)
  obtain t d where x: "x = (t, d)" by (cases x)
  with Cons.prems obtain p where p: "dget providers t = Some p" by (auto split: option.splits)
  from Cons.IH [of "dset p ((case dget work p of None \<Rightarrow> 0 | Some w \<Rightarrow> w) + d) work"] Cons.prems x p
  show ?case by (auto simp: dget_dset split: option.splits)
qed

text \<open>Entry tables of the launches of a run.\<close>

definition launch_durations :: "launch list \<Rightarrow> (string, int) dict" where
  "launch_durations M = map (\<lambda>l. (la_id l, la_end l - la_start l)) M"

definition launch_providers :: "launch list \<Rightarrow> (string, string) dict" where
  "launch_providers M = map (\<lambda>l. (la_id l, la_provider l)) M"

lemma launch_tables:
  assumes "distinct (map la_id M)" and "l \<in> set M"
  shows "dget (launch_durations M) (la_id l) = Some (la_end l - la_start l)"
    and "dget (launch_providers M) (la_id l) = Some (la_provider l)"
  using assms by (auto simp: launch_durations_def launch_providers_def o_def intro!: map_of_is_SomeI)

lemma launch_durations_mem: "dmem t (launch_durations M) \<longleftrightarrow> t \<in> la_id ` set M"
  by (auto simp: dmem_iff_key launch_durations_def)

lemma launch_providers_mem: "dmem t (launch_providers M) \<longleftrightarrow> t \<in> la_id ` set M"
  by (auto simp: dmem_iff_key launch_providers_def)

text \<open>A finished run, and its launches in some order.\<close>

definition finished_run :: "sched_ctx \<Rightarrow> launch list \<Rightarrow> sched_state \<Rightarrow> launch list \<Rightarrow> bool" where
  "finished_run cx L st M \<longleftrightarrow> ctx_ok cx \<and> good cx (L, st) \<and> run_done cx st \<and> mset M = mset L"

lemma finished_run:
  assumes "finished_run cx L st M"
  shows "ctx_ok cx" "graph_ok (cx_graph cx)" "envelope_ok (cx_envelope cx)" "good cx (L, st)" "core_inv cx (L, st)"
    "set M = set L" "distinct (map la_id L)" "distinct (map la_id M)" "0 \<le> ss_time_ms st"
    "\<And>l. l \<in> set M \<Longrightarrow> la_end l \<le> ss_time_ms st" "\<And>l. l \<in> set M \<Longrightarrow> 0 \<le> la_start l"
proof -
  show *: "ctx_ok cx" "good cx (L, st)" "graph_ok (cx_graph cx)" "envelope_ok (cx_envelope cx)"
    using assms by (simp_all add: finished_run_def ctx_ok_def)
  show core: "core_inv cx (L, st)" by (rule good_core [OF *(2)])
  have M: "mset M = mset L" using assms by (simp add: finished_run_def)
  show setM: "set M = set L" by (rule mset_eq_setD [OF M])
  show dL: "distinct (map la_id L)" and "0 \<le> ss_time_ms st" using core by (simp_all add: core_parts)
  have "mset (map la_id M) = mset (map la_id L)" by (simp add: M)
  with dL show "distinct (map la_id M)" by (metis mset_eq_imp_distinct_iff)
  show "la_end l \<le> ss_time_ms st" if "l \<in> set M" for l
    using done_all(3) [OF *(1) core] assms that setM by (simp add: finished_run_def)
  show "0 \<le> la_start l" if "l \<in> set M" for l using core that setM by (simp add: core_parts)
qed

lemma rank_below_makespan:
  assumes run: "finished_run cx L st M"
    and r: "rank_equations (cx_graph cx) (\<lambda>t. dmem t (launch_durations M)) (launch_durations M) r
      (set (graph_ids (cx_graph cx)))"
  shows "t \<in> set (graph_ids (cx_graph cx)) \<longrightarrow> (\<forall>l \<in> set M. la_id l = t \<longrightarrow> rank_of r t \<le> ss_time_ms st - la_start l)"
  using finished_run(2) [OF run]
proof (induction t rule: succ_induct)
  case (task t)
  note fr = finished_run [OF run]
  let ?g = "cx_graph cx" and ?now = "ss_time_ms st" and ?inc = "\<lambda>t. dmem t (launch_durations M)"
  show ?case
  proof (intro impI ballI)
    fix l assume t: "t \<in> set (graph_ids ?g)" and l: "l \<in> set M" "la_id l = t"
    have "?inc t" using l by (auto simp: launch_durations_mem)
    with r t have rank: "rank_of r t
        = the (dget (launch_durations M) t) + max_default (map (rank_of r) (filter ?inc (succs ?g t)))"
      by (simp add: rank_equations_def)
    have own: "the (dget (launch_durations M) t) = la_end l - la_start l"
      using launch_tables(1) [OF fr(8) l(1)] l(2) by simp
    have "max_default (map (rank_of r) (filter ?inc (succs ?g t))) \<le> ?now - la_end l"
    proof (rule max_default_le)
      show "0 \<le> ?now - la_end l" using fr(10) [OF l(1)] by simp
    next
      fix x assume "x \<in> set (map (rank_of r) (filter ?inc (succs ?g t)))"
      then obtain c where c: "c \<in> set (succs ?g t)" "?inc c" "x = rank_of r c" by auto
      from c(2) obtain m where m: "m \<in> set M" "la_id m = c" by (auto simp: launch_durations_mem)
      have "la_task m \<in> set ?g" using launch_in_graph [OF fr(5)] m(1) fr(6) by simp
      then have "deps_of (by_id ?g) c = tc_dependencies (la_task m)"
        using deps_of_task [OF graph_ok_parts(1) [OF fr(2)], of "la_task m"] m(2) by (simp add: la_id_def)
      then have "t \<in> set (tc_dependencies (la_task m))" using c(1) succs_iff [OF fr(2)] by simp
      from good_launch(2) [OF fr(4) _ this] m(1) fr(6) obtain l' where
        l': "l' \<in> set L" "la_id l' = t" "la_end l' \<le> la_start m" by blast
      have "l' = l" using l' l fr(6,7) by (auto simp: distinct_map dest: inj_onD)
      moreover have "rank_of r c \<le> ?now - la_start m" using task [OF c(1)] m succs_known [OF c(1)] by blast
      ultimately show "x \<le> ?now - la_end l" using l'(3) c(3) by simp
    qed
    with rank own show "rank_of r t \<le> ?now - la_start l" by simp
  qed
qed

lemma longest_below_makespan:
  assumes run: "finished_run cx L st M"
  obtains r where "ranks_of (cx_graph cx) (\<lambda>t. dmem t (launch_durations M)) (launch_durations M) = Inr r"
    and "max_default (dvalues r) \<le> ss_time_ms st"
proof -
  let ?inc = "\<lambda>t. dmem t (launch_durations M)"
  note fr = finished_run [OF run]
  obtain r where r: "ranks_of (cx_graph cx) ?inc (launch_durations M) = Inr r"
    "rank_equations (cx_graph cx) ?inc (launch_durations M) r (set (graph_ids (cx_graph cx)))"
    by (rule ranks_of_ok [OF fr(2), of ?inc "launch_durations M"])
  have "max_default (dvalues r) \<le> ss_time_ms st"
  proof (rule max_default_le [OF fr(9)])
    fix x assume "x \<in> set (dvalues r)"
    then obtain t where t: "dget r t = Some x" using dvalues_dget [OF ranks_of_dict_ok [OF r(1)]] by blast
    then have "dmem t r" by (rule dmem_Some)
    then have t': "t \<in> set (graph_ids (cx_graph cx))" "?inc t" using r(2) by (simp_all add: rank_equations_def)
    then obtain l where l: "l \<in> set M" "la_id l = t" by (auto simp: launch_durations_mem)
    have "rank_of r t \<le> ss_time_ms st - la_start l" using rank_below_makespan [OF run r(2)] t'(1) l by blast
    with fr(11) [OF l(1)] t show "x \<le> ss_time_ms st" by (simp add: rank_of_def)
  qed
  with r(1) show ?thesis by (rule that)
qed

text \<open>The work of some launches of a finished run.\<close>

lemma finished_work:
  assumes run: "finished_run cx L st M"
  shows "sum_list (map (\<lambda>l. la_end l - la_start l) (filter P M)) = work_done (ss_time_ms st) (filter P L)"
proof -
  let ?w = "\<lambda>l. min (la_end l) (ss_time_ms st) - la_start l"
  have "map (\<lambda>l. la_end l - la_start l) (filter P M) = map ?w (filter P M)"
    using finished_run(10) [OF run] by (intro map_cong) auto
  moreover have "mset (map ?w (filter P M)) = mset (map ?w (filter P L))"
    using run by (simp add: finished_run_def)
  ultimately show ?thesis unfolding work_done_def by (metis sum_mset_sum_list)
qed

lemma provider_share:
  assumes run: "finished_run cx L st M"
    and w: "provider_work (launch_providers M) (launch_durations M) [] = Inr w" and q: "(q, d) \<in> set w"
  shows "d = work_done (ss_time_ms st) (filter (\<lambda>l. la_provider l = q) L)"
proof -
  note sums = provider_work_sums [OF w dict_ok_Nil]
  let ?own = "filter (\<lambda>(t, d). dget (launch_providers M) t = Some q) (launch_durations M)"
  have "dget w q = Some d" using sums q by (simp add: dict_ok_def)
  moreover have "(case dget w q of None \<Rightarrow> 0 | Some n \<Rightarrow> n) = sum_list (map snd ?own)"
    using sums by simp
  moreover have "?own = map (\<lambda>l. (la_id l, la_end l - la_start l)) (filter (\<lambda>l. la_provider l = q) M)"
    unfolding launch_durations_def filter_map o_def
    by (intro arg_cong [of _ _ "map _"] filter_cong) (use launch_tables(2) [OF finished_run(8) [OF run]] in auto)
  ultimately show ?thesis
    using finished_work [OF run, of "\<lambda>l. la_provider l = q"] by (simp add: o_def)
qed

lemma model_bound_ok:
  assumes run: "finished_run cx L st M"
  obtains b where "duration_lower_bound (cx_graph cx) (launch_durations M) (launch_providers M) (cx_envelope cx) = Inr b"
    and "b \<le> ss_time_ms st"
proof -
  let ?now = "ss_time_ms st" and ?env = "cx_envelope cx" and ?own = "launch_durations M"
  note fr = finished_run [OF run]
  obtain r where r: "ranks_of (cx_graph cx) (\<lambda>t. dmem t ?own) ?own = Inr r" "max_default (dvalues r) \<le> ?now"
    by (rule longest_below_makespan [OF run])
  have "sum_list (dvalues ?own) = work_done ?now L"
    using finished_work [OF run, of "\<lambda>_. True"] by (simp add: launch_durations_def o_def)
  then have "sum_list (dvalues ?own) \<le> re_max_parallelism ?env * ?now"
    using fr(4) by (simp add: good_def law_inv_def work_inv_def)
  then have global: "ceil_div (sum_list (dvalues ?own)) (re_max_parallelism ?env) \<le> ?now"
    using envelope_okD(5) [OF fr(3)] by (intro ceil_div_le)
  have "\<forall>(t, d) \<in> set ?own. dmem t (launch_providers M)"
    by (auto simp: launch_providers_mem launch_durations_def)
  from provider_work_ok [OF this] obtain w where w: "provider_work (launch_providers M) ?own [] = Inr w" by blast
  have each: "ceil_div d (provider_capacity ?env q) \<le> ?now" if "(q, d) \<in> set w" for q d
  proof (rule ceil_div_le)
    show "0 < provider_capacity ?env q"
      using provider_limit_pos [OF fr(3), of q] envelope_okD(5) [OF fr(3)] by (simp add: provider_capacity_def)
    show "d \<le> provider_capacity ?env q * ?now"
      unfolding provider_share [OF run w that] using fr(4) by (simp add: good_def law_inv_def work_inv_def)
  qed
  have provider: "max_default (map (\<lambda>(p, d). ceil_div d (provider_capacity ?env p)) w) \<le> ?now"
    by (rule max_default_le [OF fr(9)]) (auto dest: each)
  show ?thesis
  proof (cases "?own = []")
    case True
    with fr(9) show ?thesis by (intro that [of 0]) (simp_all add: duration_lower_bound_def)
  next
    case False
    have "duration_lower_bound (cx_graph cx) ?own (launch_providers M) ?env
        = Inr (max (max (max_default (dvalues r)) (ceil_div (sum_list (dvalues ?own)) (re_max_parallelism ?env)))
            (max_default (map (\<lambda>(p, d). ceil_div d (provider_capacity ?env p)) w)))"
      using False r(1) w by (simp add: duration_lower_bound_def)
    from that [OF this] global provider r(2) show ?thesis by simp
  qed
qed

section \<open>The result record\<close>

text \<open>The entry of a launch in the result: completed at its planned end, or cancelled at \<open>now\<close>.\<close>

definition final_entry :: "string list \<Rightarrow> int \<Rightarrow> launch \<Rightarrow> schedule_entry" where
  "final_entry C now l =
     (new_entry (la_task l) (la_profile l) (la_start l))
       \<lparr>se_end_ms := if la_id l \<in> set C then la_end l else now,
        se_outcome := if la_id l \<in> set C then ''completed'' else ''cancelled''\<rparr>"

lemma final_entry_simps [simp]:
  "se_task_id (final_entry C now l) = la_id l" "se_start_ms (final_entry C now l) = la_start l"
  "se_provider (final_entry C now l) = la_provider l" "se_backend (final_entry C now l) = bp_name (la_profile l)"
  "se_tokens (final_entry C now l) = total_tokens (la_profile l)"
  "se_cost_microusd (final_entry C now l) = bp_cost_microusd (la_profile l)"
  "se_context_bytes (final_entry C now l) = bp_context_bytes (la_profile l)"
  "se_success_probability (final_entry C now l) = 1 - bp_failure_probability (la_profile l)"
  "se_optional (final_entry C now l) = tc_optional (la_task l)"
  "se_end_ms (final_entry C now l) = (if la_id l \<in> set C then la_end l else now)"
  "se_outcome (final_entry C now l) = (if la_id l \<in> set C then ''completed'' else ''cancelled'')"
  by (simp_all add: final_entry_def new_entry_def la_id_def la_provider_def)

text \<open>The last events of a run: nothing or the cancellations, then the end of the run.\<close>

definition outcome :: "sched_ctx \<Rightarrow> launch list \<Rightarrow> sched_state \<Rightarrow> schedule_result \<Rightarrow> bool" where
  "outcome cx L st r \<longleftrightarrow>
     (\<exists>M. mset M = mset L \<and> sr_entries r = map (final_entry (ss_completed st) (ss_time_ms st)) M
        \<and> sorted (map entry_key (sr_entries r)))
     \<and> sr_policy r = cx_policy cx \<and> sr_makespan_ms r = ss_time_ms st
     \<and> sr_total_tokens r = ss_used_tokens st \<and> sr_total_cost_microusd r = ss_used_cost st
     \<and> sr_total_context_bytes r = ss_used_context st
     \<and> sr_modeled_success_probability r = ss_success_probability st
     \<and> sr_skipped r = sort (ss_skipped st)
     \<and> (sr_success r \<longrightarrow> run_done cx st \<and> sr_failure_reason r = None
          \<and> entry_lower_bound (cx_graph cx) (sr_entries r) (cx_envelope cx) = Inr (sr_model_bound_ms r)
          \<and> sr_model_bound_ms r \<le> ss_time_ms st
          \<and> sr_events r = ss_events (emit RUN_COMPLETED None [(''makespan_ms'', JInt (ss_time_ms st))] st))
     \<and> (\<not> sr_success r \<longrightarrow> (\<exists>t \<in> set (cx_protected cx). sr_failure_reason r = Some (unplannable t)
          \<and> sr_events r = ss_events (emit RUN_FAILED None [(''reason'', JStr (unplannable t))]
               (emit_cancels (map run_id (ss_running st)) st))))"

lemma sort_key_map: "sort_key f (map h xs) = map h (sort_key (\<lambda>x. f (h x)) xs)"
proof -
  have "insort_key f (h x) (map h ys) = map h (insort_key (\<lambda>x. f (h x)) x ys)" for x ys
    by (induction ys) auto
  then show ?thesis by (induction xs) (simp_all add: sort_key_def)
qed

lemma sorted_entries_run:
  assumes "ss_entries st = map F L"
  obtains M where "mset M = mset L" and "sort_key entry_key (ss_entries st) = map F M"
    and "sorted (map entry_key (map F M))"
proof (rule that [of "sort_key (\<lambda>l. entry_key (F l)) L"])
  show "sort_key entry_key (ss_entries st) = map F (sort_key (\<lambda>l. entry_key (F l)) L)"
    by (simp add: assms sort_key_map)
  then show "sorted (map entry_key (map F (sort_key (\<lambda>l. entry_key (F l)) L)))"
    by (metis sorted_sort_key)
qed simp

lemma entry_bound_launches:
  assumes "distinct (map la_id M)" and "\<forall>l \<in> set M. la_id l \<in> set C"
  shows "entry_lower_bound g (map (final_entry C now) M) env
    = duration_lower_bound g (launch_durations M) (launch_providers M) env"
proof -
  have "map (\<lambda>e. (se_task_id e, se_end_ms e - se_start_ms e)) (map (final_entry C now) M) = launch_durations M"
    using assms(2) by (simp add: launch_durations_def)
  moreover have "dict_of (launch_durations M) = launch_durations M" "dict_of (launch_providers M) = launch_providers M"
    by (rule dict_of_distinct; use assms(1) in \<open>simp add: launch_durations_def launch_providers_def o_def\<close>)+
  ultimately show ?thesis
    by (simp add: entry_lower_bound_def launch_providers_def o_def)
qed

lemma finish_outcome:
  assumes cx: "ctx_ok cx" and good: "good cx (L, st)" and fin: "run_done cx st"
  obtains r where "finish_run cx st = Inr r" and "outcome cx L st r" and "sr_success r"
proof -
  let ?F = "final_entry (ss_completed st) (ss_time_ms st)"
  note core = good_core [OF good]
  have all: "la_id l \<in> set (ss_completed st)" if "l \<in> set L" for l
    using done_all(2) [OF cx core fin] core that by (auto simp: core_parts)
  have "ss_entries st = map (la_entry (ss_completed st)) L" using core by (simp add: core_parts)
  also have "\<dots> = map ?F L"
    by (rule map_cong) (use all in \<open>simp_all add: la_entry_def final_entry_def new_entry_def la_end_def\<close>)
  finally obtain M where M: "mset M = mset L" "sort_key entry_key (ss_entries st) = map ?F M"
    "sorted (map entry_key (map ?F M))" by (rule sorted_entries_run)
  have run: "finished_run cx L st M" using cx good fin M(1) by (simp add: finished_run_def)
  obtain b where b: "duration_lower_bound (cx_graph cx) (launch_durations M) (launch_providers M) (cx_envelope cx) = Inr b"
    "b \<le> ss_time_ms st" by (rule model_bound_ok [OF run])
  have "entry_lower_bound (cx_graph cx) (map ?F M) (cx_envelope cx) = Inr b"
    using entry_bound_launches [OF finished_run(8) [OF run]] all finished_run(6) [OF run] b(1) by simp
  with M b(2) fin show ?thesis
    by (intro that [OF _ _]) (auto simp: finish_run_def Let_def outcome_def emit_fields)
qed

lemma failure_outcome:
  assumes core: "core_inv cx (L, st)" and t: "t \<in> set (cx_protected cx)"
  shows "outcome cx L st (failure_result cx (unplannable t) (cancelled_state st))"
proof -
  let ?F = "final_entry (ss_completed st) (ss_time_ms st)" and ?c = "cancelled_state st"
  have ids: "set (map run_id (ss_running st)) = la_id ` set (pending_launches st L)"
    using running_ids [OF core] by simp
  have "ss_entries ?c = map (\<lambda>l. cancel_entry (map run_id (ss_running st)) (ss_time_ms st) (la_entry (ss_completed st) l)) L"
    using core by (simp add: cancelled_state_def core_parts)
  also have "\<dots> = map ?F L"
  proof (rule map_cong [OF refl])
    fix l assume l: "l \<in> set L"
    have "la_id l \<in> la_id ` set (pending_launches st L) \<longleftrightarrow> la_id l \<notin> set (ss_completed st)"
      using l by (auto simp: pending_launches_def)
    then show "cancel_entry (map run_id (ss_running st)) (ss_time_ms st) (la_entry (ss_completed st) l) = ?F l"
      unfolding cancel_entry_def entry_id ids
      by (simp add: la_entry_def final_entry_def new_entry_def la_end_def)
  qed
  finally obtain M where M: "mset M = mset L" "sort_key entry_key (ss_entries ?c) = map ?F M"
    "sorted (map entry_key (map ?F M))" by (rule sorted_entries_run)
  have "ss_events (emit ty i d ?c) = ss_events (emit ty i d (emit_cancels (map run_id (ss_running st)) st))" for ty i d
    by (simp add: cancelled_state_def emit_def)
  with M t show ?thesis
    by (auto simp: outcome_def failure_result_def Let_def cancelled_state_def)
qed

text \<open>A call of \<open>schedule\<close> with valid arguments returns the result record of a run.\<close>

lemma schedule_outcome:
  assumes g: "graph_ok g" and env: "envelope_ok env"
  obtains cx L st r where "ran g env policy cx L st" and "schedule g env policy = Some (Inr r)" and "outcome cx L st r"
proof -
  obtain cx L st where ran: "ran g env policy cx L st"
    and res: "(run_done cx st \<and> schedule g env policy = Some (finish_run cx st))
      \<or> (\<exists>t \<in> set (cx_protected cx).
           schedule g env policy = Some (Inr (failure_result cx (unplannable t) (cancelled_state st))))"
    by (rule schedule_ran [OF g env])
  from ran have cx: "ctx_ok cx" and good: "good cx (L, st)" by (simp_all add: ran_def)
  from res show ?thesis
  proof
    assume *: "run_done cx st \<and> schedule g env policy = Some (finish_run cx st)"
    then have "run_done cx st" ..
    then obtain r where "finish_run cx st = Inr r" "outcome cx L st r"
      by (rule finish_outcome [OF cx good])
    with * ran show ?thesis by (intro that) auto
  next
    assume "\<exists>t \<in> set (cx_protected cx).
      schedule g env policy = Some (Inr (failure_result cx (unplannable t) (cancelled_state st)))"
    with failure_outcome [OF good_core [OF good]] ran show ?thesis by (blast intro: that)
  qed
qed

end
