(* ===== verification/Scheduler_Events.thy ===== *)
theory Scheduler_Events
  imports Scheduler_Bound
begin

text \<open>
  The event log of a run: sequence numbers count up from one, times never decrease, the first event
  starts the run, and the events of one task are exactly what happened to it: selected and started
  at the start of its launch, completed at its end, or skipped, or nothing.
\<close>

definition task_log :: "event list \<Rightarrow> string \<Rightarrow> (event_type \<times> int) list" where
  "task_log es i = map (\<lambda>e. (ev_type e, ev_time_ms e)) (filter (\<lambda>e. ev_task_id e = Some i) es)"

lemma task_log_append [simp]: "task_log (es @ es') i = task_log es i @ task_log es' i"
  by (simp add: task_log_def)

lemma task_log_Nil [simp]: "task_log [] i = []"
  by (simp add: task_log_def)

lemma task_log_single [simp]:
  "task_log [e] i = (if ev_task_id e = Some i then [(ev_type e, ev_time_ms e)] else [])"
  by (simp add: task_log_def)

definition task_events :: "event_type set" where
  "task_events = {PROFILE_SELECTED, TASK_STARTED, TASK_COMPLETED, TASK_CANCELLED, TASK_SKIPPED}"

text \<open>Numbering and times.\<close>

definition log_shape :: "event list \<Rightarrow> int \<Rightarrow> bool" where
  "log_shape es now \<longleftrightarrow>
     map ev_sequence es = map int [1..<Suc (length es)] \<and> sorted (map ev_time_ms es)
     \<and> (\<forall>e \<in> set es. 0 \<le> ev_time_ms e \<and> ev_time_ms e \<le> now)"

lemma log_shape_emit:
  assumes "log_shape (ss_events st) (ss_time_ms st)" and "ss_sequence st = int (length (ss_events st))"
    and "0 \<le> ss_time_ms st"
  shows "log_shape (ss_events (emit ty i d st)) (ss_time_ms st)"
    and "ss_sequence (emit ty i d st) = int (length (ss_events (emit ty i d st)))"
  using assms by (auto simp: log_shape_def emit_def sorted_append)

lemma log_shape_later: "log_shape es now \<Longrightarrow> now \<le> now' \<Longrightarrow> log_shape es now'"
  by (auto simp: log_shape_def)

definition started_log :: "event list \<Rightarrow> bool" where
  "started_log es \<longleftrightarrow>
     (\<exists>e rest. es = e # rest \<and> ev_type e = RUN_STARTED \<and> ev_task_id e = None \<and> ev_time_ms e = 0)"

definition task_part :: "sched_ctx \<Rightarrow> event list \<Rightarrow> bool" where
  "task_part cx es \<longleftrightarrow>
     (\<forall>e \<in> set es. ev_type e \<in> task_events \<and> (\<exists>i \<in> set (graph_ids (cx_graph cx)). ev_task_id e = Some i))"

definition launch_log :: "string list \<Rightarrow> launch \<Rightarrow> (event_type \<times> int) list" where
  "launch_log C l =
     [(PROFILE_SELECTED, la_start l), (TASK_STARTED, la_start l)]
     @ (if la_id l \<in> set C then [(TASK_COMPLETED, la_end l)] else [])"

definition log_inv :: "sched_ctx \<Rightarrow> launch list \<times> sched_state \<Rightarrow> bool" where
  "log_inv cx = (\<lambda>(L, st).
     log_shape (ss_events st) (ss_time_ms st) \<and> ss_sequence st = int (length (ss_events st))
     \<and> started_log (ss_events st) \<and> task_part cx (tl (ss_events st))
     \<and> (\<forall>l \<in> set L. task_log (ss_events st) (la_id l) = launch_log (ss_completed st) l)
     \<and> (\<forall>i \<in> set (ss_skipped st). map fst (task_log (ss_events st) i) = [TASK_SKIPPED])
     \<and> (\<forall>i. i \<notin> set (ss_started st) \<longrightarrow> i \<notin> set (ss_skipped st) \<longrightarrow> task_log (ss_events st) i = []))"

lemma log_inv_init: "log_inv cx ([], start_state policy)"
  by (simp add: log_inv_def log_shape_def started_log_def task_part_def start_state_def emit_def sched_init_def)

lemma started_log_append [simp]: "started_log es \<Longrightarrow> started_log (es @ es')"
  by (auto simp: started_log_def)

lemma tl_started: "started_log es \<Longrightarrow> tl (es @ es') = tl es @ es'"
  by (auto simp: started_log_def)

lemma task_part_append [simp]: "task_part cx (es @ es') \<longleftrightarrow> task_part cx es \<and> task_part cx es'"
  by (auto simp: task_part_def)

text \<open>One more event of a task.\<close>

lemma emit_log:
  assumes "log_shape (ss_events st) (ss_time_ms st)" and "ss_sequence st = int (length (ss_events st))"
    and "started_log (ss_events st)" and "task_part cx (tl (ss_events st))" and "0 \<le> ss_time_ms st"
    and "ty \<in> task_events" and "i \<in> set (graph_ids (cx_graph cx))"
  shows "log_shape (ss_events (emit ty (Some i) d st)) (ss_time_ms (emit ty (Some i) d st))"
    and "ss_sequence (emit ty (Some i) d st) = int (length (ss_events (emit ty (Some i) d st)))"
    and "started_log (ss_events (emit ty (Some i) d st))" and "task_part cx (tl (ss_events (emit ty (Some i) d st)))"
    and "0 \<le> ss_time_ms (emit ty (Some i) d st)"
    and "task_log (ss_events (emit ty (Some i) d st)) j
      = task_log (ss_events st) j @ (if j = i then [(ty, ss_time_ms st)] else [])"
  using log_shape_emit [OF assms(1,2,5)] assms(3-7)
  by (auto simp: emit_def tl_started task_part_def)

lemma started_ids: "core_inv cx (L, st) \<Longrightarrow> set (ss_started st) = la_id ` set L"
  by (simp add: core_parts)

lemma log_inv_skip:
  assumes core: "core_inv cx (L, st)" and inv: "log_inv cx (L, st)"
    and t: "t \<in> set (cx_graph cx)" "tc_task_id t \<notin> set (ss_started st)" "tc_task_id t \<notin> set (ss_skipped st)"
  shows "log_inv cx (L, skip_task t d st)"
proof -
  let ?st = "st\<lparr>ss_skipped := ss_skipped st @ [tc_task_id t]\<rparr>"
  have base: "log_shape (ss_events ?st) (ss_time_ms ?st)" "ss_sequence ?st = int (length (ss_events ?st))"
    "started_log (ss_events ?st)" "task_part cx (tl (ss_events ?st))" "0 \<le> ss_time_ms ?st"
    using inv core by (simp_all add: log_inv_def core_parts)
  have "la_id l \<noteq> tc_task_id t" if "l \<in> set L" for l
    using started_ids [OF core] t(2) that by (metis image_eqI)
  moreover have "i \<noteq> tc_task_id t" if "i \<in> set (ss_skipped st)" for i using t(3) that by auto
  moreover note emit_log [OF base, of TASK_SKIPPED "tc_task_id t"] task_id_known [OF t(1)]
  ultimately show ?thesis
    using inv t(2,3) unfolding skip_task_def log_inv_def split
    by (auto simp: task_events_def)
qed

lemma log_inv_start:
  assumes core: "core_inv cx (L, st)" and inv: "log_inv cx (L, st)"
    and t: "t \<in> set (cx_graph cx)" "tc_task_id t \<notin> set (ss_started st)" "tc_task_id t \<notin> set (ss_skipped st)"
  shows "log_inv cx (L @ [\<lparr>la_task = t, la_profile = p, la_start = ss_time_ms st\<rparr>], start_task t p st)"
proof -
  let ?l = "\<lparr>la_task = t, la_profile = p, la_start = ss_time_ms st\<rparr>" and ?s = "start_task t p st"
  let ?i = "tc_task_id t"
  have base: "log_shape (ss_events st) (ss_time_ms st)" "ss_sequence st = int (length (ss_events st))"
    "started_log (ss_events st)" "task_part cx (tl (ss_events st))" "0 \<le> ss_time_ms st"
    using inv core by (simp_all add: log_inv_def core_parts)
  note g = task_id_known [OF t(1)]
  note e1 = emit_log [where ty = PROFILE_SELECTED, OF base _ g]
  note e2 = emit_log [where ty = TASK_STARTED, OF e1(1-5) _ g]
  have ev: "ss_events ?s = ss_events (emit TASK_STARTED (Some ?i) d2 (emit PROFILE_SELECTED (Some ?i) d1 st))"
    if "d1 = [(''backend'', JStr (bp_name p)), (''provider'', JStr (bp_provider p))]"
      "d2 = [(''end_ms'', JInt (ss_time_ms st + bp_duration_ms_p95 p))]" for d1 d2
    using that by (simp add: start_task_def Let_def emit_def)
  have sq: "ss_sequence ?s = ss_sequence st + 2" by (simp add: start_task_def Let_def emit_def)
  have len: "length (ss_events ?s) = length (ss_events st) + 2" by (simp add: start_task_def Let_def emit_def)
  have log: "task_log (ss_events ?s) j = task_log (ss_events st) j
      @ (if j = ?i then [(PROFILE_SELECTED, ss_time_ms st), (TASK_STARTED, ss_time_ms st)] else [])" for j
    unfolding ev [OF refl refl] by (simp add: e2(6) e1(6) task_events_def)
  have none: "task_log (ss_events st) ?i = []" using inv t(2,3) by (simp add: log_inv_def)
  have ids: "la_id l \<noteq> ?i" if "l \<in> set L" for l using started_ids [OF core] t(2) that by (metis image_eqI)
  have "?i \<notin> set (ss_completed st)" using core t(2) by (auto simp: core_parts)
  then have new: "task_log (ss_events ?s) (la_id ?l) = launch_log (ss_completed st) ?l"
    by (simp add: log none launch_log_def la_id_def)
  have shape: "log_shape (ss_events ?s) (ss_time_ms st)" "started_log (ss_events ?s)" "task_part cx (tl (ss_events ?s))"
    unfolding ev [OF refl refl] using e2(1,3,4) by (simp_all add: task_events_def)
  have old: "task_log (ss_events ?s) j = task_log (ss_events st) j" if "j \<noteq> ?i" for j using log that by simp
  have skips: "j \<noteq> ?i" if "j \<in> set (ss_skipped st)" for j using t(3) that by auto
  show ?thesis
    unfolding log_inv_def split start_fields
    using shape sq len inv new ids skips by (auto simp: log_inv_def old)
qed

lemma log_inv_tick:
  assumes core: "core_inv cx (L, st)" and inv: "log_inv cx (L, st)" and head: "ss_running st = (e, k, i, p) # rs"
  shows "log_inv cx (L, st\<lparr>ss_time_ms := e\<rparr>)"
proof -
  have "ss_time_ms st \<le> e" using core head by (auto simp: core_inv_def running_ok_def)
  with inv show ?thesis by (auto simp: log_inv_def intro: log_shape_later)
qed

lemma log_inv_complete:
  assumes core: "core_inv cx (L, st)" and inv: "log_inv cx (L, st)"
    and l: "l \<in> set (pending_launches st L)" "la_id l = i" "la_end l = ss_time_ms st"
  shows "log_inv cx (L, completed_state i p L rs effects st)"
proof -
  let ?s = "completed_state i p L rs effects st"
  have base: "log_shape (ss_events st) (ss_time_ms st)" "ss_sequence st = int (length (ss_events st))"
    "started_log (ss_events st)" "task_part cx (tl (ss_events st))" "0 \<le> ss_time_ms st"
    using inv core by (simp_all add: log_inv_def core_parts)
  have lL: "l \<in> set L" "i \<notin> set (ss_completed st)" using l by (simp_all add: pending_launches_def)
  have g: "i \<in> set (graph_ids (cx_graph cx))"
    using launch_in_graph [OF core lL(1)] l(2) by (auto simp: la_id_def graph_ids_def)
  have ev: "ss_events ?s = ss_events (emit TASK_COMPLETED (Some i) [(''backend'', JStr (bp_name p))] st)"
    and sq: "ss_sequence ?s = ss_sequence (emit TASK_COMPLETED (Some i) [(''backend'', JStr (bp_name p))] st)"
    by (simp_all add: completed_state_def emit_def)
  have f: "ss_time_ms ?s = ss_time_ms st" "ss_completed ?s = i # ss_completed st" "ss_skipped ?s = ss_skipped st"
    "ss_started ?s = ss_started st" by (simp_all add: completed_state_def)
  note e = emit_log [OF base _ g, of TASK_COMPLETED]
  have log: "task_log (ss_events ?s) j = task_log (ss_events st) j
      @ (if j = i then [(TASK_COMPLETED, ss_time_ms st)] else [])" for j
    unfolding ev by (simp add: e(6) task_events_def)
  have started: "i \<in> set (ss_started st)" "i \<notin> set (ss_skipped st)"
    using core lL(1) l(2) by (auto simp: core_inv_def launches_ok_def skips_ok_def)
  have uniq: "x = l" if "x \<in> set L" "la_id x = i" for x
    using core lL(1) l(2) that by (auto simp: core_parts distinct_map dest: inj_onD)
  have "task_log (ss_events ?s) (la_id x) = launch_log (i # ss_completed st) x" if "x \<in> set L" for x
  proof (cases "x = l")
    case True
    have "task_log (ss_events st) (la_id l) = launch_log (ss_completed st) l" using inv lL(1) by (simp add: log_inv_def)
    with True lL l(2,3) show ?thesis by (simp add: log launch_log_def)
  next
    case False
    with that uniq have "la_id x \<noteq> i" by blast
    with inv that show ?thesis by (simp add: log log_inv_def launch_log_def)
  qed
  moreover have "map fst (task_log (ss_events ?s) j) = [TASK_SKIPPED]" if "j \<in> set (ss_skipped st)" for j
    using inv started(2) that by (auto simp: log log_inv_def)
  moreover have "task_log (ss_events ?s) j = []" if "j \<notin> set (ss_started st)" "j \<notin> set (ss_skipped st)" for j
    using inv started(1) that by (auto simp: log log_inv_def)
  moreover have "log_shape (ss_events ?s) (ss_time_ms st)" "ss_sequence ?s = int (length (ss_events ?s))"
    "started_log (ss_events ?s)" "task_part cx (tl (ss_events ?s))"
    unfolding ev sq using e(1-4) by (simp_all add: task_events_def)
  ultimately show ?thesis unfolding log_inv_def split f by blast
qed

lemma log_inv_step:
  assumes cx: "ctx_ok cx" and core: "core_inv cx s" and inv: "log_inv cx s" and step: "sched_step cx s s'"
  shows "log_inv cx s'"
  using step
proof (cases rule: sched_step.cases)
  case (skip t st L details)
  with core inv show ?thesis by (simp add: log_inv_skip)
next
  case (start t st p L)
  with core inv show ?thesis by (simp add: log_inv_start)
next
  case (tick st e k i p rs L)
  with core inv show ?thesis by (simp add: log_inv_tick)
next
  case (complete st k i p rs st' L)
  from core complete(1) have c: "core_inv cx (L, st)" by simp
  obtain l effects where
    l: "l \<in> set (pending_launches st L)" "la_id l = i" "la_end l = ss_time_ms st"
    and eq: "complete_task cx i p (st\<lparr>ss_running := rs\<rparr>) = Inr (completed_state i p L rs effects st)"
    using complete_task_eq [OF cx c complete(3)] by metis
  have st': "st' = completed_state i p L rs effects st" using eq complete(4) by simp
  have "log_inv cx (L, st)" using inv complete(1) by simp
  from log_inv_complete [OF c this l] show ?thesis unfolding complete(2) st' .
qed

text \<open>The clock only moves to the end of a launch.\<close>

definition clock_inv :: "launch list \<times> sched_state \<Rightarrow> bool" where
  "clock_inv = (\<lambda>(L, st). ss_time_ms st = 0 \<or> (\<exists>l \<in> set L. la_end l = ss_time_ms st))"

lemma clock_inv_step:
  assumes cx: "ctx_ok cx" and core: "core_inv cx s" and inv: "clock_inv s" and step: "sched_step cx s s'"
  shows "clock_inv s'"
  using step
proof (cases rule: sched_step.cases)
  case (tick st e k i p rs L)
  have run: "running_ok L st" using core tick(1) by (simp add: core_inv_def)
  obtain l where "l \<in> set (pending_launches st L)" "la_end l = e"
    by (rule running_launch [OF run, of e k i p]) (use tick(3) in auto)
  with tick(2) show ?thesis by (auto simp: clock_inv_def pending_launches_def)
next
  case (complete st k i p rs st' L)
  from core complete(1) have c: "core_inv cx (L, st)" by simp
  obtain effects where "complete_task cx i p (st\<lparr>ss_running := rs\<rparr>) = Inr (completed_state i p L rs effects st)"
    using complete_task_eq [OF cx c complete(3)] by metis
  with complete(4) have st': "st' = completed_state i p L rs effects st" by simp
  show ?thesis using inv unfolding complete(1,2) st' by (simp add: clock_inv_def completed_state_def)
qed (use inv in \<open>auto simp: clock_inv_def\<close>)

text \<open>A started task has all its dependencies completed.\<close>

definition deps_inv :: "launch list \<times> sched_state \<Rightarrow> bool" where
  "deps_inv = (\<lambda>(L, st). \<forall>l \<in> set L. set (tc_dependencies (la_task l)) \<subseteq> set (ss_completed st))"

lemma deps_inv_step:
  assumes cx: "ctx_ok cx" and core: "core_inv cx s" and inv: "deps_inv s" and step: "sched_step cx s s'"
  shows "deps_inv s'"
  using step
proof (cases rule: sched_step.cases)
  case (complete st k i p rs st' L)
  from core complete(1) have c: "core_inv cx (L, st)" by simp
  obtain effects where "complete_task cx i p (st\<lparr>ss_running := rs\<rparr>) = Inr (completed_state i p L rs effects st)"
    using complete_task_eq [OF cx c complete(3)] by metis
  with complete(4) have st': "st' = completed_state i p L rs effects st" by simp
  have "ss_completed st' = i # ss_completed st" by (simp add: st' completed_state_def)
  then show ?thesis using inv unfolding complete(1,2) by (auto simp: deps_inv_def)
qed (use inv in \<open>auto simp: deps_inv_def\<close>)

lemma run_logged:
  assumes "ran g env policy cx L st"
  shows "log_inv cx (L, st)" and "clock_inv (L, st)" and "deps_inv (L, st)"
proof -
  have cx: "ctx_ok cx" and steps: "sched_steps cx ([], start_state policy) (L, st)"
    using assms by (simp_all add: ran_def)
  have init: "clock_inv ([], start_state policy)" "deps_inv ([], start_state policy)"
    by (simp_all add: clock_inv_def deps_inv_def start_state_def sched_init_def)
  have "core_inv cx s \<and> log_inv cx s \<and> clock_inv s \<and> deps_inv s" if "sched_steps cx ([], start_state policy) s" for s
    using that
  proof (induction rule: rtranclp_induct)
    case base
    show ?case using good_core [OF good_start [OF cx]] log_inv_init init by blast
  next
    case (step s s')
    then show ?case using core_inv_step [OF cx] log_inv_step [OF cx] clock_inv_step [OF cx] deps_inv_step [OF cx] by blast
  qed
  with steps show "log_inv cx (L, st)" "clock_inv (L, st)" "deps_inv (L, st)" by blast+
qed

end
