(* ===== verification/Scheduler_Results.thy ===== *)
theory Scheduler_Results
  imports Scheduler_Events
begin

text \<open>
  What a caller of \<open>Scheduler.schedule\<close> may rely on, stated over the result record alone. The
  properties hold for every graph, envelope and policy; they read the facts of the run
  (\<open>schedule_outcome\<close>) off the invariants of the loop.
\<close>

section \<open>From a result to its run\<close>

lemma schedule_valid:
  assumes "schedule g env policy = Some (Inr r)"
  shows "graph_ok g" and "envelope_ok env"
  using assms by (auto simp: schedule_def graph_ok_def envelope_ok_def split: sum.splits if_splits)

text \<open>A result, its run and the launches in the order of the entries.\<close>

definition result_of ::
  "execution_graph \<Rightarrow> run_envelope \<Rightarrow> schedule_policy \<Rightarrow> schedule_result \<Rightarrow> sched_ctx \<Rightarrow> launch list \<Rightarrow> sched_state \<Rightarrow> launch list \<Rightarrow> bool"
  where
  "result_of g env policy r cx L st M \<longleftrightarrow>
     ran g env policy cx L st \<and> outcome cx L st r \<and> mset M = mset L
     \<and> sr_entries r = map (final_entry (ss_completed st) (ss_time_ms st)) M"

lemma result_run:
  assumes "schedule g env policy = Some (Inr r)"
  obtains cx L st M where "result_of g env policy r cx L st M"
proof -
  obtain cx L st r' where o: "ran g env policy cx L st" "schedule g env policy = Some (Inr r')" "outcome cx L st r'"
    by (rule schedule_outcome [OF schedule_valid [OF assms]])
  from o(2) assms have "r' = r" by simp
  with o(3) obtain M where "outcome cx L st r" "mset M = mset L"
    "sr_entries r = map (final_entry (ss_completed st) (ss_time_ms st)) M"
    unfolding outcome_def by blast
  with o(1) show ?thesis by (intro that [of cx L st M]) (simp add: result_of_def)
qed

lemma result_facts:
  assumes "result_of g env policy r cx L st M"
  shows "ctx_ok cx" "cx_graph cx = g" "cx_envelope cx = env" "cx_policy cx = policy" "good cx (L, st)"
    "core_inv cx (L, st)" "outcome cx L st r" "set M = set L" "mset M = mset L"
    "sr_entries r = map (final_entry (ss_completed st) (ss_time_ms st)) M" "distinct (map la_id L)"
    "distinct (map la_id M)" "log_inv cx (L, st)" "clock_inv (L, st)" "graph_ok g" "envelope_ok env"
    "deps_inv (L, st)"
proof -
  have ran: "ran g env policy cx L st" using assms by (simp add: result_of_def)
  then show *: "ctx_ok cx" "cx_graph cx = g" "cx_envelope cx = env" "cx_policy cx = policy" "good cx (L, st)"
    by (simp_all add: ran_def)
  then show "graph_ok g" "envelope_ok env" by (simp_all add: ctx_ok_def)
  show core: "core_inv cx (L, st)" by (rule good_core [OF *(5)])
  show M: "mset M = mset L" and "outcome cx L st r"
    and "sr_entries r = map (final_entry (ss_completed st) (ss_time_ms st)) M"
    using assms by (simp_all add: result_of_def)
  show "set M = set L" by (rule mset_eq_setD [OF M])
  show dL: "distinct (map la_id L)" using core by (simp add: core_parts)
  have "mset (map la_id M) = mset (map la_id L)" by (simp add: M)
  with dL show "distinct (map la_id M)" by (metis mset_eq_imp_distinct_iff)
  show "log_inv cx (L, st)" "clock_inv (L, st)" "deps_inv (L, st)" by (rule run_logged [OF ran])+
qed

text \<open>The end of an entry lies between its start, the planned end of its launch and the makespan.\<close>

lemma entry_end:
  assumes r: "result_of g env policy r cx L st M" and l: "l \<in> set L"
  shows "la_start l \<le> se_end_ms (final_entry (ss_completed st) (ss_time_ms st) l)"
    and "se_end_ms (final_entry (ss_completed st) (ss_time_ms st) l) \<le> la_end l"
    and "se_end_ms (final_entry (ss_completed st) (ss_time_ms st) l) \<le> ss_time_ms st"
proof -
  note f = result_facts [OF r]
  have "la_start l \<le> la_end l" by (rule launch_end [OF f(1,6) l])
  moreover have "la_start l \<le> ss_time_ms st" "la_id l \<in> set (ss_completed st) \<Longrightarrow> la_end l \<le> ss_time_ms st"
    using f(6) l by (simp_all add: core_parts)
  moreover have "la_id l \<notin> set (ss_completed st) \<Longrightarrow> ss_time_ms st \<le> la_end l"
    using pending_end(1) [OF f(6)] l by (simp add: pending_launches_def)
  ultimately show "la_start l \<le> se_end_ms (final_entry (ss_completed st) (ss_time_ms st) l)"
    "se_end_ms (final_entry (ss_completed st) (ss_time_ms st) l) \<le> la_end l"
    "se_end_ms (final_entry (ss_completed st) (ss_time_ms st) l) \<le> ss_time_ms st" by auto
qed

lemma mset_sum_list: "mset M = mset L \<Longrightarrow> sum_list (map f M) = sum_list (map f L)" for f :: "'a \<Rightarrow> int"
  by (metis mset_map sum_mset_sum_list)

lemma mset_length_filter: "mset M = mset L \<Longrightarrow> length (filter P M) = length (filter P L)"
  by (metis mset_filter size_mset)

section \<open>Totals, success floor and deadline\<close>

lemma result_totals:
  assumes "result_of g env policy r cx L st M"
  shows "sr_total_tokens r = sum_list (map se_tokens (sr_entries r)) \<and> sr_total_tokens r \<le> re_max_tokens env
    \<and> sr_total_cost_microusd r = sum_list (map se_cost_microusd (sr_entries r))
    \<and> sr_total_cost_microusd r \<le> re_max_cost_microusd env
    \<and> sr_total_context_bytes r = sum_list (map se_context_bytes (sr_entries r))
    \<and> sr_total_context_bytes r \<le> re_max_context_bytes env"
proof -
  note f = result_facts [OF assms]
  have "totals_inv cx (L, st)" using f(5) by (simp add: good_def law_inv_def)
  with f(3,7,10) mset_sum_list [OF f(9)] show ?thesis
    by (simp add: totals_inv_def outcome_def o_def)
qed

lemma result_floor:
  assumes "result_of g env policy r cx L st M" and "sr_success r"
  shows "re_min_success env \<le> sr_modeled_success_probability r \<and> 0 \<le> sr_modeled_success_probability r
    \<and> sr_modeled_success_probability r \<le> 1"
proof -
  note f = result_facts [OF assms(1)]
  have inv: "totals_inv cx (L, st)" "floor_inv cx (L, st)" using f(5) by (simp_all add: good_def law_inv_def)
  have fin: "run_done cx st" using f(7) assms(2) by (simp add: outcome_def)
  have "set (cx_protected cx) \<subseteq> set (graph_ids g)"
    using protected_known [OF f(15)] f(1,2) by (simp add: ctx_ok_def)
  moreover have "set (cx_protected cx) \<inter> set (ss_skipped st) = {}"
    using f(6) by (auto simp: core_inv_def skips_ok_def)
  ultimately have "set (cx_protected cx) \<subseteq> set (ss_started st)"
    using done_all(1,2) [OF f(1,6) fin] f(2) by auto
  then have "re_min_success env \<le> ss_success_probability st" using inv(2) f(3) by (simp add: floor_inv_def)
  moreover have "0 \<le> ss_success_probability st \<and> ss_success_probability st \<le> 1"
    using inv(1) unfolding totals_inv_def split by blast
  moreover have "sr_modeled_success_probability r = ss_success_probability st" using f(7) by (simp add: outcome_def)
  ultimately show ?thesis by simp
qed

lemma result_deadline:
  assumes "result_of g env policy r cx L st M"
  shows "sr_makespan_ms r \<le> re_deadline_ms env"
proof -
  note f = result_facts [OF assms]
  have "sr_makespan_ms r = ss_time_ms st" using f(7) by (simp add: outcome_def)
  with f(3,5) show ?thesis by (simp add: good_def in_time_def)
qed

section \<open>A sample run\<close>

definition sample_envelope :: run_envelope where
  "sample_envelope =
     \<lparr>re_deadline_ms = 100, re_max_tokens = 10, re_max_cost_microusd = 20, re_max_context_bytes = 16,
      re_max_parallelism = 2, re_min_success = 1, re_provider_limits = [], re_max_cpu_time_ms = 0,
      re_max_peak_memory_bytes = 0, re_max_peak_vram_bytes = 0, re_max_storage_read_bytes = 0,
      re_max_storage_write_bytes = 0, re_max_network_ingress_bytes = 0, re_max_network_egress_bytes = 0,
      re_available_bandwidth_bps = 0, re_max_network_rtt_ms = 0, re_max_egress_cost_microusd = 0\<rparr>"

definition sample_result :: schedule_result where
  "sample_result = (case schedule sample_graph sample_envelope ADAPTIVE of Some (Inr r) \<Rightarrow> r | _ \<Rightarrow> undefined)"

lemma sample_envelope_valid: "validate_envelope sample_envelope = []"
  by code_simp

lemma sample_succeeds:
  "(case schedule sample_graph sample_envelope ADAPTIVE of
      Some (Inr r) \<Rightarrow> sr_success r \<and> sr_makespan_ms r = 20 \<and> map se_task_id (sr_entries r) = [''a'', ''b'']
    | _ \<Rightarrow> False)"
  by code_simp

lemma sample_schedule:
  "schedule sample_graph sample_envelope ADAPTIVE = Some (Inr sample_result)" "sr_success sample_result"
  "sr_makespan_ms sample_result = 20" "map se_task_id (sr_entries sample_result) = [''a'', ''b'']"
  using sample_succeeds by (auto simp: sample_result_def split: option.splits sum.splits)

section \<open>Entries\<close>

lemma entry_honest:
  assumes "schedule g env policy = Some (Inr r)" and "e \<in> set (sr_entries r)"
  shows "\<exists>t \<in> set g. \<exists>p \<in> set (tc_profiles t).
    se_task_id e = tc_task_id t \<and> se_optional e = tc_optional t \<and> se_backend e = bp_name p
    \<and> se_provider e = bp_provider p \<and> tc_min_quality t \<le> bp_quality p
    \<and> se_tokens e = total_tokens p \<and> se_cost_microusd e = bp_cost_microusd p
    \<and> se_context_bytes e = bp_context_bytes p \<and> se_success_probability e = 1 - bp_failure_probability p
    \<and> 0 \<le> se_start_ms e \<and> se_start_ms e \<le> se_end_ms e
    \<and> (if se_outcome e = ''completed'' then se_end_ms e = se_start_ms e + bp_duration_ms_p95 p
       else se_outcome e = ''cancelled'' \<and> se_end_ms e \<le> se_start_ms e + bp_duration_ms_p95 p)
    \<and> se_end_ms e \<le> effective_deadline t (re_deadline_ms env) \<and> se_end_ms e \<le> sr_makespan_ms r"
proof -
  note e = assms(2)
  obtain cx L st M where r: "result_of g env policy r cx L st M" by (rule result_run [OF assms(1)])
  note f = result_facts [OF r]
  from e f(8,10) obtain l where l: "l \<in> set L" "e = final_entry (ss_completed st) (ss_time_ms st) l" by auto
  have la: "la_task l \<in> set g" "la_profile l \<in> set (qualified_profiles (la_task l))" "0 \<le> la_start l"
    using f(2,6) l(1) by (simp_all add: core_parts)
  have "la_end l \<le> effective_deadline (la_task l) (re_deadline_ms env)"
    using good_launch(1) [OF f(5) l(1)] f(3) by simp
  moreover note entry_end [OF r l(1)]
  moreover have "sr_makespan_ms r = ss_time_ms st" using f(7) by (simp add: outcome_def)
  ultimately show ?thesis
    using la by (intro bexI [of _ "la_task l"] bexI [of _ "la_profile l"])
      (simp_all add: l(2) qualified_profiles_def la_id_def la_provider_def la_end_def split: if_splits)
qed

lemma entry_after_dependencies:
  assumes "schedule g env policy = Some (Inr r)" and "e \<in> set (sr_entries r)" and "t \<in> set g"
    and "tc_task_id t = se_task_id e" and "d \<in> set (tc_dependencies t)"
  shows "\<exists>e' \<in> set (sr_entries r). se_task_id e' = d \<and> se_outcome e' = ''completed'' \<and> se_end_ms e' \<le> se_start_ms e"
proof -
  obtain cx L st M where r: "result_of g env policy r cx L st M" by (rule result_run [OF assms(1)])
  note f = result_facts [OF r]
  from assms(2) f(8,10) obtain l where l: "l \<in> set L" "e = final_entry (ss_completed st) (ss_time_ms st) l" by auto
  have "la_task l \<in> set g" using f(2,6) l(1) by (simp add: core_parts)
  moreover have "tc_task_id (la_task l) = tc_task_id t" using assms(4) l(2) by (simp add: la_id_def)
  ultimately have "la_task l = t"
    using graph_ok_parts(1) [OF f(15)] assms(3) by (auto simp: graph_ids_def distinct_map dest: inj_onD)
  with good_launch(2) [OF f(5) l(1)] assms(5) obtain l' where
    l': "l' \<in> set L" "la_id l' = d" "la_end l' \<le> la_start l" by blast
  have "la_id l' \<in> set (ss_completed st)" using f(17) l(1) assms(5) \<open>la_task l = t\<close> l'(2) by (auto simp: deps_inv_def)
  with l' l(2) f(8,10) show ?thesis by (intro bexI [of _ "final_entry (ss_completed st) (ss_time_ms st) l'"]) auto
qed

section \<open>Properties\<close>

text \<open>
  C2. On a valid graph and envelope \<open>schedule\<close> always returns a result: the loop ends, no lookup,
  outcome update or bound check raises, the branches for a deadlock, an exceeded run deadline and a
  required task behind skipped work are never taken, and the only failure it can report is a
  protected task that has no admissible backend plan.
\<close>

theorem schedule_always_answers:
  assumes "graph_validate g = Inr ()" and "validate_envelope env = []"
  shows "\<exists>r. schedule g env policy = Some (Inr r)
    \<and> (if sr_success r then sr_failure_reason r = None
       else \<exists>t \<in> protected_set g. sr_failure_reason r = Some (unplannable t))"
proof -
  have "graph_ok g" "envelope_ok env" using assms by (simp_all add: graph_ok_def envelope_ok_def)
  from schedule_outcome [OF this] obtain cx L st r where
    r: "ran g env policy cx L st" "schedule g env policy = Some (Inr r)" "outcome cx L st r" .
  then have "set (cx_protected cx) = protected_set g" by (auto simp: ran_def ctx_ok_def)
  with r show ?thesis by (auto simp: outcome_def)
qed

theorem schedule_always_answers_witness:
  "\<exists>r. schedule sample_graph sample_envelope SEQUENTIAL = Some (Inr r)"
  using schedule_always_answers [OF sample_valid sample_envelope_valid] by blast

text \<open>
  C3. The totals of any result, successful or refused, are the sums over its entries, and they never
  exceed the token, cost and context budgets of the envelope.
\<close>

theorem schedule_within_budgets:
  assumes "schedule g env policy = Some (Inr r)"
  shows "sr_total_tokens r = sum_list (map se_tokens (sr_entries r)) \<and> sr_total_tokens r \<le> re_max_tokens env
    \<and> sr_total_cost_microusd r = sum_list (map se_cost_microusd (sr_entries r))
    \<and> sr_total_cost_microusd r \<le> re_max_cost_microusd env
    \<and> sr_total_context_bytes r = sum_list (map se_context_bytes (sr_entries r))
    \<and> sr_total_context_bytes r \<le> re_max_context_bytes env"
  by (rule result_run [OF assms]) (rule result_totals)

theorem schedule_within_budgets_witness:
  "sr_total_tokens sample_result \<le> 10 \<and> sr_total_cost_microusd sample_result \<le> 20"
  using schedule_within_budgets [OF sample_schedule(1)] by (simp add: sample_envelope_def)

text \<open>
  A successful result reaches the floor on the modeled success probability, which is a probability.
\<close>

theorem schedule_reaches_success_floor:
  assumes "schedule g env policy = Some (Inr r)" and "sr_success r"
  shows "re_min_success env \<le> sr_modeled_success_probability r \<and> 0 \<le> sr_modeled_success_probability r
    \<and> sr_modeled_success_probability r \<le> 1"
  by (rule result_run [OF assms(1)]) (rule result_floor [OF _ assms(2)])

theorem schedule_reaches_success_floor_witness: "1 \<le> sr_modeled_success_probability sample_result"
  using schedule_reaches_success_floor [OF sample_schedule(1,2)] by (simp add: sample_envelope_def)

text \<open>
  C18. Every entry is an honest use of a declared profile: it belongs to a task of the graph and to
  one of its profiles that meets the quality floor, charges that profile's tokens, cost and context,
  starts at or after 0, lasts at most the p95 duration (exactly that long when completed), and ends
  within the deadline of the task, of the run and the reported makespan.
\<close>

theorem schedule_entries_honest:
  assumes "schedule g env policy = Some (Inr r)"
  shows "\<forall>e \<in> set (sr_entries r). \<exists>t \<in> set g. \<exists>p \<in> set (tc_profiles t).
    se_task_id e = tc_task_id t \<and> se_optional e = tc_optional t \<and> se_backend e = bp_name p
    \<and> se_provider e = bp_provider p \<and> tc_min_quality t \<le> bp_quality p
    \<and> se_tokens e = total_tokens p \<and> se_cost_microusd e = bp_cost_microusd p
    \<and> se_context_bytes e = bp_context_bytes p \<and> se_success_probability e = 1 - bp_failure_probability p
    \<and> 0 \<le> se_start_ms e \<and> se_start_ms e \<le> se_end_ms e
    \<and> (if se_outcome e = ''completed'' then se_end_ms e = se_start_ms e + bp_duration_ms_p95 p
       else se_outcome e = ''cancelled'' \<and> se_end_ms e \<le> se_start_ms e + bp_duration_ms_p95 p)
    \<and> se_end_ms e \<le> effective_deadline t (re_deadline_ms env) \<and> se_end_ms e \<le> sr_makespan_ms r"
  using entry_honest [OF assms] by blast

theorem schedule_entries_honest_witness:
  "\<exists>e. e \<in> set (sr_entries sample_result) \<and> se_task_id e = ''a'' \<and> se_end_ms e \<le> sr_makespan_ms sample_result"
proof -
  obtain e where "e \<in> set (sr_entries sample_result)" "se_task_id e = ''a''"
  proof -
    have "''a'' \<in> set (map se_task_id (sr_entries sample_result))" unfolding sample_schedule(4) by simp
    then show ?thesis using that by auto
  qed
  with schedule_entries_honest [OF sample_schedule(1)] show ?thesis by blast
qed

text \<open>
  C19. No task starts before its dependencies are done: for every entry and every dependency of its
  task there is an entry of the dependency that completed no later than this one starts.
\<close>

theorem schedule_respects_dependencies:
  assumes "schedule g env policy = Some (Inr r)" and "e \<in> set (sr_entries r)" and "t \<in> set g"
    and "tc_task_id t = se_task_id e" and "d \<in> set (tc_dependencies t)"
  shows "\<exists>e' \<in> set (sr_entries r). se_task_id e' = d \<and> se_outcome e' = ''completed'' \<and> se_end_ms e' \<le> se_start_ms e"
  by (rule entry_after_dependencies [OF assms])

theorem schedule_respects_dependencies_witness:
  "\<exists>e \<in> set (sr_entries sample_result). \<exists>e' \<in> set (sr_entries sample_result).
     se_task_id e = ''b'' \<and> se_task_id e' = ''a'' \<and> se_end_ms e' \<le> se_start_ms e"
proof -
  have "''b'' \<in> set (map se_task_id (sr_entries sample_result))" by (simp add: sample_schedule(4))
  then obtain e where e: "e \<in> set (sr_entries sample_result)" "se_task_id e = ''b''" by auto
  have "\<exists>e' \<in> set (sr_entries sample_result). se_task_id e' = ''a'' \<and> se_outcome e' = ''completed'' \<and> se_end_ms e' \<le> se_start_ms e"
    by (rule schedule_respects_dependencies [OF sample_schedule(1) e(1), of "sample_task ''b'' [''a'']"])
      (simp_all add: e sample_graph_def sample_task_def)
  with e show ?thesis by blast
qed

end
