(* ===== verification/Scheduler_Traces.thy ===== *)
theory Scheduler_Traces
  imports Scheduler_Results
begin

text \<open>
  Properties of the shape of a schedule: concurrency, effect serialization, completeness, the
  planning bound, and the event log of the result.
\<close>

lemma length_filter_mono:
  "(\<And>x. x \<in> set xs \<Longrightarrow> P x \<Longrightarrow> Q x) \<Longrightarrow> length (filter P xs) \<le> length (filter Q xs)"
  by (induction xs) auto

section \<open>Two readers of one resource\<close>

definition reader_task :: "string \<Rightarrow> task_contract" where
  "reader_task n = (sample_task n [])
     \<lparr>tc_effect := \<lparr>ef_kind = READ, ef_resource = ''db'', ef_requires_approval = False, ef_idempotency_key = None,
        ef_compensation = None\<rparr>\<rparr>"

definition reader_graph :: execution_graph where
  "reader_graph = [reader_task ''a'', reader_task ''b'']"

definition reader_result :: schedule_result where
  "reader_result = (case schedule reader_graph sample_envelope ADAPTIVE of Some (Inr r) \<Rightarrow> r | _ \<Rightarrow> undefined)"

lemma readers_overlap:
  "(case schedule reader_graph sample_envelope ADAPTIVE of
      Some (Inr r) \<Rightarrow> map (\<lambda>e. (se_task_id e, se_start_ms e, se_end_ms e)) (sr_entries r) = [(''a'', 0, 10), (''b'', 0, 10)]
    | _ \<Rightarrow> False)"
  by code_simp

lemma reader_schedule:
  "schedule reader_graph sample_envelope ADAPTIVE = Some (Inr reader_result)"
  "map (\<lambda>e. (se_task_id e, se_start_ms e, se_end_ms e)) (sr_entries reader_result) = [(''a'', 0, 10), (''b'', 0, 10)]"
  using readers_overlap by (auto simp: reader_result_def split: option.splits sum.splits)

section \<open>Cancellations in the log\<close>

lemma emit_cancels_log:
  assumes "log_shape (ss_events st) (ss_time_ms st)" and "ss_sequence st = int (length (ss_events st))"
    and "started_log (ss_events st)" and "task_part cx (tl (ss_events st))" and "0 \<le> ss_time_ms st"
    and "set ids \<subseteq> set (graph_ids (cx_graph cx))" and "distinct ids"
  shows "log_shape (ss_events (emit_cancels ids st)) (ss_time_ms st)
    \<and> ss_sequence (emit_cancels ids st) = int (length (ss_events (emit_cancels ids st)))
    \<and> started_log (ss_events (emit_cancels ids st)) \<and> task_part cx (tl (ss_events (emit_cancels ids st)))
    \<and> (\<forall>j. task_log (ss_events (emit_cancels ids st)) j
          = task_log (ss_events st) j @ (if j \<in> set ids then [(TASK_CANCELLED, ss_time_ms st)] else []))"
  using assms
proof (induction ids arbitrary: st)
  case Nil
  then show ?case by simp
next
  case (Cons i ids)
  let ?st = "emit TASK_CANCELLED (Some i) [(''reason'', JStr ''run refused'')] st"
  have "i \<in> set (graph_ids (cx_graph cx))" using Cons.prems(6) by simp
  note e = emit_log [where ty = TASK_CANCELLED and d = "[(''reason'', JStr ''run refused'')]", OF Cons.prems(1-5) _ this]
  have "log_shape (ss_events (emit_cancels ids ?st)) (ss_time_ms ?st)
    \<and> ss_sequence (emit_cancels ids ?st) = int (length (ss_events (emit_cancels ids ?st)))
    \<and> started_log (ss_events (emit_cancels ids ?st)) \<and> task_part cx (tl (ss_events (emit_cancels ids ?st)))
    \<and> (\<forall>j. task_log (ss_events (emit_cancels ids ?st)) j
          = task_log (ss_events ?st) j @ (if j \<in> set ids then [(TASK_CANCELLED, ss_time_ms ?st)] else []))"
    by (rule Cons.IH) (use e Cons.prems(6,7) in \<open>simp_all add: task_events_def\<close>)
  with e(6) Cons.prems(7) show ?case by (auto simp: task_events_def)
qed

lemma running_ids_distinct:
  assumes core: "core_inv cx (L, st)"
  shows "distinct (map run_id (ss_running st))"
proof -
  have "mset (map run_view (ss_running st)) = mset (map la_view (pending_launches st L))"
    using core unfolding core_inv_def running_ok_def split by blast
  then have "mset (map (\<lambda>v. fst (snd v)) (map run_view (ss_running st)))
      = mset (map (\<lambda>v. fst (snd v)) (map la_view (pending_launches st L)))" by (simp only: mset_map)
  then have "mset (map run_id (ss_running st)) = mset (map la_id (pending_launches st L))"
    by (simp add: o_def run_view_def run_id_def la_view_def split_def)
  moreover have "distinct (map la_id (pending_launches st L))"
    using core by (simp add: core_parts pending_launches_def distinct_map_filter)
  ultimately show ?thesis by (metis mset_eq_imp_distinct_iff)
qed

text \<open>The state before the last event: after the cancellations of a failure.\<close>

definition closing_state :: "bool \<Rightarrow> sched_state \<Rightarrow> sched_state" where
  "closing_state success st = (if success then st else emit_cancels (map run_id (ss_running st)) st)"

definition terminal_type :: "bool \<Rightarrow> event_type" where
  "terminal_type success = (if success then RUN_COMPLETED else RUN_FAILED)"

lemma result_events:
  assumes r: "result_of g env policy r cx L st M"
  obtains d where "sr_events r = ss_events (emit (terminal_type (sr_success r)) None d (closing_state (sr_success r) st))"
  using result_facts(7) [OF r] by (cases "sr_success r") (auto simp: outcome_def terminal_type_def closing_state_def)

lemma closing_log:
  assumes r: "result_of g env policy r cx L st M"
  shows "log_shape (ss_events (closing_state (sr_success r) st)) (ss_time_ms st)
    \<and> ss_sequence (closing_state (sr_success r) st) = int (length (ss_events (closing_state (sr_success r) st)))
    \<and> started_log (ss_events (closing_state (sr_success r) st))
    \<and> task_part cx (tl (ss_events (closing_state (sr_success r) st)))
    \<and> (\<forall>j. task_log (ss_events (closing_state (sr_success r) st)) j = task_log (ss_events st) j
          @ (if j \<in> la_id ` set (pending_launches st L) then [(TASK_CANCELLED, ss_time_ms st)] else []))"
proof -
  note f = result_facts [OF r]
  have base: "log_shape (ss_events st) (ss_time_ms st)" "ss_sequence st = int (length (ss_events st))"
    "started_log (ss_events st)" "task_part cx (tl (ss_events st))" "0 \<le> ss_time_ms st"
    using f(6,13) by (simp_all add: log_inv_def core_parts)
  show ?thesis
  proof (cases "sr_success r")
    case True
    then have "run_done cx st" using f(7) by (simp add: outcome_def)
    from done_all(2) [OF f(1,6) this] have "pending_launches st L = []"
      using started_ids [OF f(6)] by (auto simp: pending_launches_def filter_empty_conv)
    with base True show ?thesis by (simp add: closing_state_def)
  next
    case False
    have ids: "set (map run_id (ss_running st)) = la_id ` set (pending_launches st L)"
      using running_ids [OF f(6)] by simp
    have "la_id l \<in> set (graph_ids (cx_graph cx))" if "l \<in> set L" for l
      using launch_in_graph [OF f(6) that] by (simp add: la_id_def graph_ids_def)
    then have "set (map run_id (ss_running st)) \<subseteq> set (graph_ids (cx_graph cx))"
      unfolding ids by (auto simp: pending_launches_def)
    from emit_cancels_log [OF base this running_ids_distinct [OF f(6)]] False show ?thesis
      unfolding ids by (simp add: closing_state_def)
  qed
qed

lemma result_log_frame:
  assumes r: "result_of g env policy r cx L st M"
  shows "map ev_sequence (sr_events r) = map int [1..<Suc (length (sr_events r))]"
    and "sorted (map ev_time_ms (sr_events r))" and "\<forall>e \<in> set (sr_events r). 0 \<le> ev_time_ms e"
    and "\<exists>first mid last. sr_events r = first # mid @ [last]
       \<and> ev_type first = RUN_STARTED \<and> ev_task_id first = None \<and> ev_time_ms first = 0
       \<and> ev_type last = (if sr_success r then RUN_COMPLETED else RUN_FAILED) \<and> ev_task_id last = None
       \<and> ev_time_ms last = sr_makespan_ms r
       \<and> (\<forall>e \<in> set mid. ev_type e \<in> task_events \<and> (\<exists>i \<in> set (graph_ids g). ev_task_id e = Some i))"
proof -
  note f = result_facts [OF r]
  let ?s = "closing_state (sr_success r) st"
  obtain d where ev: "sr_events r = ss_events (emit (terminal_type (sr_success r)) None d ?s)"
    by (rule result_events [OF r])
  have c: "log_shape (ss_events ?s) (ss_time_ms ?s)" "ss_sequence ?s = int (length (ss_events ?s))"
    "started_log (ss_events ?s)" "task_part cx (tl (ss_events ?s))" "ss_time_ms ?s = ss_time_ms st" "0 \<le> ss_time_ms ?s"
    using closing_log [OF r] f(6) by (auto simp: closing_state_def core_parts)
  have now: "sr_makespan_ms r = ss_time_ms st" using f(7) by (simp add: outcome_def)
  have ev': "sr_events r = ss_events ?s @ [\<lparr>ev_sequence = ss_sequence ?s + 1, ev_time_ms = ss_time_ms st,
      ev_type = terminal_type (sr_success r), ev_task_id = None, ev_details = d\<rparr>]"
    by (simp add: ev emit_def c(5))
  have "log_shape (sr_events r) (ss_time_ms ?s)" unfolding ev by (rule log_shape_emit(1) [OF c(1,2,6)])
  then show "map ev_sequence (sr_events r) = map int [1..<Suc (length (sr_events r))]"
    "sorted (map ev_time_ms (sr_events r))" "\<forall>e \<in> set (sr_events r). 0 \<le> ev_time_ms e"
    unfolding log_shape_def by blast+
  from c(3) obtain e rest where "ss_events ?s = e # rest" "ev_type e = RUN_STARTED" "ev_task_id e = None" "ev_time_ms e = 0"
    by (auto simp: started_log_def)
  with ev' c(4) f(2) show "\<exists>first mid last. sr_events r = first # mid @ [last]
       \<and> ev_type first = RUN_STARTED \<and> ev_task_id first = None \<and> ev_time_ms first = 0
       \<and> ev_type last = (if sr_success r then RUN_COMPLETED else RUN_FAILED) \<and> ev_task_id last = None
       \<and> ev_time_ms last = sr_makespan_ms r
       \<and> (\<forall>e \<in> set mid. ev_type e \<in> task_events \<and> (\<exists>i \<in> set (graph_ids g). ev_task_id e = Some i))"
    by (intro exI [of _ e] exI [of _ rest] exI [of _ "\<lparr>ev_sequence = ss_sequence ?s + 1, ev_time_ms = ss_time_ms st,
          ev_type = terminal_type (sr_success r), ev_task_id = None, ev_details = d\<rparr>"])
      (auto simp: now terminal_type_def task_part_def)
qed

lemma result_log:
  assumes r: "result_of g env policy r cx L st M"
  shows "task_log (sr_events r) j = task_log (ss_events st) j
      @ (if j \<in> la_id ` set (pending_launches st L) then [(TASK_CANCELLED, ss_time_ms st)] else [])"
proof -
  obtain d where "sr_events r = ss_events (emit (terminal_type (sr_success r)) None d (closing_state (sr_success r) st))"
    by (rule result_events [OF r])
  moreover have "task_log (ss_events (closing_state (sr_success r) st)) j = task_log (ss_events st) j
      @ (if j \<in> la_id ` set (pending_launches st L) then [(TASK_CANCELLED, ss_time_ms st)] else [])"
    using closing_log [OF r] by blast
  ultimately show ?thesis by (simp add: emit_def)
qed

lemma result_log_task:
  assumes r: "result_of g env policy r cx L st M"
  shows "e \<in> set (sr_entries r) \<Longrightarrow> task_log (sr_events r) (se_task_id e) =
         [(PROFILE_SELECTED, se_start_ms e), (TASK_STARTED, se_start_ms e),
          (if se_outcome e = ''completed'' then TASK_COMPLETED else TASK_CANCELLED, se_end_ms e)]"
    and "i \<in> set (sr_skipped r) \<Longrightarrow> map fst (task_log (sr_events r) i) = [TASK_SKIPPED]"
    and "i \<notin> se_task_id ` set (sr_entries r) \<Longrightarrow> i \<notin> set (sr_skipped r) \<Longrightarrow> task_log (sr_events r) i = []"
proof -
  note f = result_facts [OF r] and log = result_log [OF r]
  have sk: "set (sr_skipped r) = set (ss_skipped st)" using f(7) by (simp add: outcome_def)
  show "task_log (sr_events r) (se_task_id e) =
      [(PROFILE_SELECTED, se_start_ms e), (TASK_STARTED, se_start_ms e),
       (if se_outcome e = ''completed'' then TASK_COMPLETED else TASK_CANCELLED, se_end_ms e)]"
    if e: "e \<in> set (sr_entries r)"
  proof -
    from e f(8,10) obtain l where l: "l \<in> set L" "e = final_entry (ss_completed st) (ss_time_ms st) l" by auto
    have "la_id l \<in> la_id ` set (pending_launches st L) \<longleftrightarrow> la_id l \<notin> set (ss_completed st)"
      using l(1) by (auto simp: pending_launches_def)
    moreover have "task_log (ss_events st) (la_id l) = launch_log (ss_completed st) l"
      using f(13) l(1) by (simp add: log_inv_def)
    ultimately show ?thesis by (simp add: log l(2) launch_log_def)
  qed
  show "map fst (task_log (sr_events r) i) = [TASK_SKIPPED]" if i: "i \<in> set (sr_skipped r)"
  proof -
    have "i \<notin> la_id ` set (pending_launches st L)"
      using i f(6) started_ids [OF f(6)] by (auto simp: sk core_inv_def skips_ok_def pending_launches_def)
    with f(13) i show ?thesis by (simp add: log sk log_inv_def)
  qed
  show "task_log (sr_events r) i = []" if "i \<notin> se_task_id ` set (sr_entries r)" "i \<notin> set (sr_skipped r)"
  proof -
    have "i \<notin> la_id ` set L" using that(1) by (simp add: f(8,10) image_image)
    with that(2) f(13) started_ids [OF f(6)] show ?thesis by (auto simp: log sk log_inv_def pending_launches_def)
  qed
qed

section \<open>Concurrency and accounting\<close>

lemma result_concurrency:
  assumes r: "result_of g env policy r cx L st M"
  shows "int (length (filter (\<lambda>e. se_start_ms e \<le> now \<and> now < se_end_ms e) (sr_entries r)))
      \<le> (if policy = SEQUENTIAL then 1 else re_max_parallelism env)"
    and "int (length (filter (\<lambda>e. se_provider e = q \<and> se_start_ms e \<le> now \<and> now < se_end_ms e) (sr_entries r)))
      \<le> provider_limit env q"
proof -
  note f = result_facts [OF r]
  let ?F = "final_entry (ss_completed st) (ss_time_ms st)"
  have less: "length (filter (\<lambda>l. P l \<and> la_start l \<le> now \<and> now < se_end_ms (?F l)) M)
      \<le> length (filter (\<lambda>l. P l \<and> covers_time now l) L)" for P
  proof -
    have "length (filter (\<lambda>l. P l \<and> la_start l \<le> now \<and> now < se_end_ms (?F l)) L)
        \<le> length (filter (\<lambda>l. P l \<and> covers_time now l) L)"
      by (rule length_filter_mono) (use entry_end(2) [OF r] in \<open>auto simp: covers_time_def intro: less_le_trans\<close>)
    then show ?thesis using mset_length_filter [OF f(9)] by simp
  qed
  have con: "int (length (filter (covers_time now) L)) \<le> sched_capacity cx"
    "int (length (filter (\<lambda>l. la_provider l = q \<and> covers_time now l) L)) \<le> provider_limit env q"
    using f(3,5) by (simp_all add: good_def law_inv_def concurrency_inv_def)
  have "int (length (filter (\<lambda>e. se_start_ms e \<le> now \<and> now < se_end_ms e) (sr_entries r))) \<le> sched_capacity cx"
    using less [of "\<lambda>_. True"] con(1) by (simp add: f(10) filter_map o_def del: final_entry_simps(10))
  then show "int (length (filter (\<lambda>e. se_start_ms e \<le> now \<and> now < se_end_ms e) (sr_entries r)))
      \<le> (if policy = SEQUENTIAL then 1 else re_max_parallelism env)"
    using f(3,4) by (simp only: sched_capacity_def)
  show "int (length (filter (\<lambda>e. se_provider e = q \<and> se_start_ms e \<le> now \<and> now < se_end_ms e) (sr_entries r)))
      \<le> provider_limit env q"
    using less [of "\<lambda>l. la_provider l = q"] con(2) by (simp add: f(10) filter_map o_def del: final_entry_simps(10))
qed

lemma result_accounts:
  assumes r: "result_of g env policy r cx L st M"
  shows "distinct (map se_task_id (sr_entries r))" and "distinct (sr_skipped r)"
    and "set (sr_skipped r) \<inter> se_task_id ` set (sr_entries r) = {}" and "set (sr_skipped r) \<inter> protected_set g = {}"
    and "sr_success r \<Longrightarrow> \<forall>e \<in> set (sr_entries r). se_outcome e = ''completed''"
    and "sr_success r \<Longrightarrow> protected_set g \<subseteq> se_task_id ` set (sr_entries r)"
    and "sr_success r \<Longrightarrow> se_task_id ` set (sr_entries r) \<union> set (sr_skipped r) = set (graph_ids g)"
proof -
  note f = result_facts [OF r]
  have ids: "se_task_id ` set (sr_entries r) = la_id ` set L" by (simp add: f(8,10) image_image)
  have started: "set (ss_started st) = la_id ` set L" by (rule started_ids [OF f(6)])
  have skips: "sr_skipped r = sort (ss_skipped st)" using f(7) by (simp add: outcome_def)
  have prot: "set (cx_protected cx) = protected_set g" using f(1,2) by (simp add: ctx_ok_def)
  have sk: "distinct (ss_skipped st)" "set (ss_skipped st) \<inter> la_id ` set L = {}" "set (ss_skipped st) \<inter> protected_set g = {}"
    using f(6) started prot by (auto simp: core_inv_def skips_ok_def)
  have all: "(\<forall>e \<in> set (sr_entries r). se_outcome e = ''completed'') \<and> la_id ` set L \<union> set (ss_skipped st) = set (graph_ids g)"
    if "sr_success r"
  proof -
    have "run_done cx st" using that f(7) by (simp add: outcome_def)
    note d = done_all [OF f(1,6) this]
    have "la_id l \<in> set (ss_completed st)" if "l \<in> set L" for l using d(2) started that by auto
    then have "\<forall>e \<in> set (sr_entries r). se_outcome e = ''completed''" by (auto simp: f(8,10))
    with d(1,2) started f(2) show ?thesis by simp
  qed
  moreover have dist: "distinct (map se_task_id (sr_entries r))" using f(12) by (simp add: f(10) o_def)
  moreover have "protected_set g \<subseteq> set (graph_ids g)" by (rule protected_known [OF f(15)])
  ultimately have prots: "sr_success r \<Longrightarrow> protected_set g \<subseteq> la_id ` set L" using sk(3) by blast
  show "distinct (map se_task_id (sr_entries r))" by (rule dist)
  show "distinct (sr_skipped r)" "set (sr_skipped r) \<inter> se_task_id ` set (sr_entries r) = {}"
    "set (sr_skipped r) \<inter> protected_set g = {}" using sk by (simp_all add: ids skips)
  show "\<forall>e \<in> set (sr_entries r). se_outcome e = ''completed''" "protected_set g \<subseteq> se_task_id ` set (sr_entries r)"
    "se_task_id ` set (sr_entries r) \<union> set (sr_skipped r) = set (graph_ids g)" if "sr_success r"
    using all [OF that] prots [OF that] by (simp_all add: ids skips)
qed

section \<open>Properties\<close>

text \<open>
  C20. At no instant do more tasks run than the policy and the envelope allow: one under the sequential
  policy, \<open>max_parallelism\<close> otherwise, and per provider at most its limit.
\<close>

theorem schedule_bounds_concurrency:
  assumes "schedule g env policy = Some (Inr r)"
  shows "int (length (filter (\<lambda>e. se_start_ms e \<le> now \<and> now < se_end_ms e) (sr_entries r)))
      \<le> (if policy = SEQUENTIAL then 1 else re_max_parallelism env)
    \<and> int (length (filter (\<lambda>e. se_provider e = q \<and> se_start_ms e \<le> now \<and> now < se_end_ms e) (sr_entries r)))
      \<le> provider_limit env q"
proof -
  obtain cx L st M where r: "result_of g env policy r cx L st M" by (rule result_run [OF assms])
  from result_concurrency [OF r] show ?thesis by blast
qed

theorem schedule_bounds_concurrency_witness:
  "int (length (filter (\<lambda>e. se_start_ms e \<le> 5 \<and> 5 < se_end_ms e) (sr_entries sample_result))) \<le> 2"
  using schedule_bounds_concurrency [OF sample_schedule(1), of 5] by (simp add: sample_envelope_def)

text \<open>
  C21. Two tasks that use one resource and overlap in time do not conflict: neither of them writes, or
  one of them is declared pure (the exemption of \<open>_effect_conflicts\<close>).
\<close>

theorem schedule_serializes_effects:
  assumes "schedule g env policy = Some (Inr r)" and "a \<in> set (sr_entries r)" and "b \<in> set (sr_entries r)"
    and "a \<noteq> b" and "s \<in> set g" and "t \<in> set g" and "tc_task_id s = se_task_id a" and "tc_task_id t = se_task_id b"
    and "ef_resource (tc_effect s) = ef_resource (tc_effect t)" and "ef_resource (tc_effect s) \<noteq> []"
    and "se_start_ms a < se_end_ms b" and "se_start_ms b < se_end_ms a"
  shows "(\<not> writes (ef_kind (tc_effect s)) \<and> \<not> writes (ef_kind (tc_effect t)))
    \<or> ef_kind (tc_effect s) = PURE \<or> ef_kind (tc_effect t) = PURE"
proof -
  obtain cx L st M where r: "result_of g env policy r cx L st M" by (rule result_run [OF assms(1)])
  note f = result_facts [OF r]
  let ?F = "final_entry (ss_completed st) (ss_time_ms st)"
  from assms(2,3) f(8,10) obtain x y where x: "x \<in> set L" "a = ?F x" and y: "y \<in> set L" "b = ?F y" by auto
  have same: "la_task l = u" if "l \<in> set L" "u \<in> set g" "tc_task_id u = la_id l" for l u
  proof -
    have "la_task l \<in> set g" using f(2,6) that(1) by (simp add: core_parts)
    then show ?thesis
      using graph_ok_parts(1) [OF f(15)] that(2,3) by (auto simp: graph_ids_def la_id_def distinct_map dest: inj_onD)
  qed
  have "la_task x = s" "la_task y = t" using same x y assms(5-8) by auto
  moreover have "compatible x y"
    using f(5) x y assms(4) by (auto simp: good_def law_inv_def effects_inv_def)
  moreover have "la_start x < la_end y" "la_start y < la_end x"
    using assms(11,12) entry_end(2) [OF r x(1)] entry_end(2) [OF r y(1)] by (simp_all add: x(2) y(2))
  ultimately show ?thesis using assms(9,10) by (auto simp: compatible_def la_resource_def la_kind_def)
qed

theorem schedule_serializes_effects_witness:
  "\<exists>a \<in> set (sr_entries reader_result). \<exists>b \<in> set (sr_entries reader_result). a \<noteq> b \<and> se_start_ms a < se_end_ms b
    \<and> ((\<not> writes (ef_kind (tc_effect (reader_task ''a''))) \<and> \<not> writes (ef_kind (tc_effect (reader_task ''b''))))
      \<or> ef_kind (tc_effect (reader_task ''a'')) = PURE \<or> ef_kind (tc_effect (reader_task ''b'')) = PURE)"
proof -
  obtain a b where ab: "sr_entries reader_result = [a, b]" "se_task_id a = ''a''" "se_start_ms a = 0" "se_end_ms a = 10"
    "se_task_id b = ''b''" "se_start_ms b = 0" "se_end_ms b = 10"
    using reader_schedule(2) by (auto simp: map_eq_Cons_conv)
  then have "a \<noteq> b" by auto
  with schedule_serializes_effects [OF reader_schedule(1), of a b "reader_task ''a''" "reader_task ''b''"] ab show ?thesis
    by (simp add: reader_graph_def reader_task_def sample_task_def)
qed

text \<open>
  Every result lists a task at most once, as an entry or as skipped, and never skips protected work;
  a successful one completes every protected task and accounts for every task of the graph.
\<close>

theorem schedule_accounts_for_tasks:
  assumes "schedule g env policy = Some (Inr r)"
  shows "distinct (map se_task_id (sr_entries r)) \<and> distinct (sr_skipped r)
    \<and> set (sr_skipped r) \<inter> se_task_id ` set (sr_entries r) = {} \<and> set (sr_skipped r) \<inter> protected_set g = {}
    \<and> (sr_success r \<longrightarrow>
         (\<forall>e \<in> set (sr_entries r). se_outcome e = ''completed'')
         \<and> protected_set g \<subseteq> se_task_id ` set (sr_entries r)
         \<and> se_task_id ` set (sr_entries r) \<union> set (sr_skipped r) = set (graph_ids g))"
proof -
  obtain cx L st M where r: "result_of g env policy r cx L st M" by (rule result_run [OF assms])
  from result_accounts [OF r] show ?thesis by blast
qed

theorem schedule_accounts_for_tasks_witness:
  "se_task_id ` set (sr_entries sample_result) \<union> set (sr_skipped sample_result) = {''a'', ''b''}"
proof -
  have "set (graph_ids sample_graph) = {''a'', ''b''}" by (simp add: graph_ids_def sample_graph_def sample_task_def)
  with schedule_accounts_for_tasks [OF sample_schedule(1)] sample_schedule(2) show ?thesis by simp
qed

text \<open>
  Bounds on the makespan: every result ends within the deadline of the run, and of a successful one
  the makespan is 0 or the end of an entry, no entry ends later, and it is at least the planning
  bound, which is the longest-path and work bound recomputed from the entries.
\<close>

theorem schedule_bounds_makespan:
  assumes "schedule g env policy = Some (Inr r)"
  shows "0 \<le> sr_makespan_ms r \<and> sr_makespan_ms r \<le> re_deadline_ms env
    \<and> (\<forall>e \<in> set (sr_entries r). se_end_ms e \<le> sr_makespan_ms r)
    \<and> (sr_success r \<longrightarrow>
         (sr_makespan_ms r = 0 \<or> (\<exists>e \<in> set (sr_entries r). se_end_ms e = sr_makespan_ms r))
         \<and> entry_lower_bound g (sr_entries r) env = Inr (sr_model_bound_ms r)
         \<and> sr_model_bound_ms r \<le> sr_makespan_ms r)"
proof -
  obtain cx L st M where r: "result_of g env policy r cx L st M" by (rule result_run [OF assms])
  note f = result_facts [OF r]
  have now: "sr_makespan_ms r = ss_time_ms st" using f(7) by (simp add: outcome_def)
  have "sr_makespan_ms r = 0 \<or> (\<exists>e \<in> set (sr_entries r). se_end_ms e = sr_makespan_ms r)" if "sr_success r"
  proof -
    have "run_done cx st" using that f(7) by (simp add: outcome_def)
    from done_all(2) [OF f(1,6) this] have "la_id l \<in> set (ss_completed st)" if "l \<in> set L" for l
      using started_ids [OF f(6)] that by auto
    with f(14) show ?thesis by (auto simp: clock_inv_def now f(8,10))
  qed
  moreover have "0 \<le> ss_time_ms st" using f(6) by (simp add: core_parts)
  moreover have "ss_time_ms st \<le> re_deadline_ms env" using f(3,5) by (simp add: good_def in_time_def)
  moreover have "\<forall>e \<in> set (sr_entries r). se_end_ms e \<le> ss_time_ms st"
    using entry_end(3) [OF r] f(8,10) by auto
  moreover have "sr_success r \<Longrightarrow> entry_lower_bound g (sr_entries r) env = Inr (sr_model_bound_ms r)
      \<and> sr_model_bound_ms r \<le> ss_time_ms st"
    using f(2,3,7) by (simp add: outcome_def)
  ultimately show ?thesis unfolding now by blast
qed

theorem schedule_bounds_makespan_witness:
  "sr_model_bound_ms sample_result \<le> 20"
  using schedule_bounds_makespan [OF sample_schedule(1)] sample_schedule(2,3) by simp

text \<open>
  The event log of any result tells its story once: the events are numbered from 1 without a gap
  at times that never decrease; the first starts the run at 0, the last ends it at the makespan with
  the verdict of the result, and all others are task events. A task with an entry has
  exactly three events: selected and started at its start, completed or cancelled at its end. A
  skipped task has exactly one, and no other task has any.
\<close>

theorem schedule_logs_run:
  assumes "schedule g env policy = Some (Inr r)"
  shows "map ev_sequence (sr_events r) = map int [1..<Suc (length (sr_events r))]
    \<and> sorted (map ev_time_ms (sr_events r))
    \<and> (\<exists>first mid last. sr_events r = first # mid @ [last]
         \<and> ev_type first = RUN_STARTED \<and> ev_task_id first = None \<and> ev_time_ms first = 0
         \<and> ev_type last = (if sr_success r then RUN_COMPLETED else RUN_FAILED) \<and> ev_task_id last = None
         \<and> ev_time_ms last = sr_makespan_ms r
         \<and> (\<forall>e \<in> set mid. ev_type e \<in> task_events \<and> (\<exists>i \<in> set (graph_ids g). ev_task_id e = Some i)))
    \<and> (\<forall>e \<in> set (sr_entries r). task_log (sr_events r) (se_task_id e) =
         [(PROFILE_SELECTED, se_start_ms e), (TASK_STARTED, se_start_ms e),
          (if se_outcome e = ''completed'' then TASK_COMPLETED else TASK_CANCELLED, se_end_ms e)])
    \<and> (\<forall>i \<in> set (sr_skipped r). map fst (task_log (sr_events r) i) = [TASK_SKIPPED])
    \<and> (\<forall>i. i \<notin> se_task_id ` set (sr_entries r) \<longrightarrow> i \<notin> set (sr_skipped r) \<longrightarrow> task_log (sr_events r) i = [])"
proof -
  obtain cx L st M where r: "result_of g env policy r cx L st M" by (rule result_run [OF assms])
  from result_log_frame [OF r] result_log_task [OF r] show ?thesis by blast
qed

theorem schedule_logs_run_witness: "sorted (map ev_time_ms (sr_events sample_result))"
  using schedule_logs_run [OF sample_schedule(1)] by blast

end
