(* ===== verification/Conservation.thy ===== *)
theory Conservation
  imports Scheduler_Traces
begin

text \<open>
  \<open>src/agent_physics/ledger.py\<close>: \<open>verify_conservation\<close>, which audits a schedule result without trusting
  its aggregates, and the JSON view of a result (\<open>ScheduleResult.as_dict\<close>) whose digest it reports.

  The local variables the checks share are the record \<open>audit\<close>; every \<open>add(...)\<close> of the source is one
  definition that returns the check with its evidence text. Python sets are lists whose order never
  matters: the source only sorts them, tests membership or compares them.
\<close>

section \<open>The JSON view of a result\<close>

definition model_bound_gap :: "schedule_result \<Rightarrow> float64 option" where
  "model_bound_gap r =
     (if \<not> sr_success r then None
      else if sr_model_bound_ms r = 0 then Some 1
      else Some (int_quotient (sr_makespan_ms r) (sr_model_bound_ms r)))"

definition entry_dict :: "schedule_entry \<Rightarrow> json" where
  "entry_dict e =
     JObj [(''task_id'', JStr (se_task_id e)), (''backend'', JStr (se_backend e)), (''provider'', JStr (se_provider e)),
           (''start_ms'', JInt (se_start_ms e)), (''end_ms'', JInt (se_end_ms e)), (''tokens'', JInt (se_tokens e)),
           (''cost_microusd'', JInt (se_cost_microusd e)), (''context_bytes'', JInt (se_context_bytes e)),
           (''success_probability'', JFloat (se_success_probability e)), (''optional'', JBool (se_optional e)),
           (''outcome'', JStr (se_outcome e))]"

definition schedule_as_dict :: "schedule_result \<Rightarrow> json" where
  "schedule_as_dict r =
     JObj [(''policy'', JStr (policy_value (sr_policy r))), (''success'', JBool (sr_success r)),
           (''makespan_ms'', JInt (sr_makespan_ms r)), (''model_bound_ms'', JInt (sr_model_bound_ms r)),
           (''model_bound_gap'', jopt (\<lambda>x. JFloat (py_round 4 x)) (model_bound_gap r)),
           (''total_tokens'', JInt (sr_total_tokens r)), (''total_cost_microusd'', JInt (sr_total_cost_microusd r)),
           (''total_context_bytes'', JInt (sr_total_context_bytes r)),
           (''modeled_success_probability'', JFloat (py_round 12 (sr_modeled_success_probability r))),
           (''skipped'', JArr (map JStr (sr_skipped r))), (''failure_reason'', jopt JStr (sr_failure_reason r)),
           (''entries'', JArr (map entry_dict (sr_entries r))), (''events'', JArr (map event_dict (sr_events r)))]"

section \<open>Reports\<close>

record invariant_check =
  ic_name :: string
  ic_passed :: bool
  ic_evidence :: string

record conservation_report =
  cr_passed :: bool
  cr_trace_digest :: string
  cr_checks :: "invariant_check list"

definition violations :: "conservation_report \<Rightarrow> invariant_check list" where
  "violations c = filter (\<lambda>k. \<not> ic_passed k) (cr_checks c)"

definition check :: "string \<Rightarrow> bool \<Rightarrow> string \<Rightarrow> invariant_check" where
  "check name passed evidence = \<lparr>ic_name = name, ic_passed = passed, ic_evidence = evidence\<rparr>"

text \<open>\<open>repr\<close> of lists of integers and of a dictionary from strings to integers.\<close>

definition int_list_repr :: "int list \<Rightarrow> string" where
  "int_list_repr xs = ''['' @ comma_space (map int_string xs) @ '']''"

definition int_dict_repr :: "(string, int) dict \<Rightarrow> string" where
  "int_dict_repr d = [CHR 0x7B] @ comma_space (map (\<lambda>(k, v). py_repr k @ '': '' @ int_string v) d) @ [CHR 0x7D]"

definition triple_text :: "int \<Rightarrow> int \<Rightarrow> int \<Rightarrow> string" where
  "triple_text a b c = ''('' @ int_string a @ '','' @ int_string b @ '','' @ int_string c @ '')''"

section \<open>Peak concurrency and the bound\<close>

fun peak_loop :: "(int \<times> int) list \<Rightarrow> int \<Rightarrow> int \<Rightarrow> int" where
  "peak_loop [] active peak = peak"
| "peak_loop ((t, delta) # ps) active peak = peak_loop ps (active + delta) (max peak (active + delta))"

definition concurrency_points :: "string option \<Rightarrow> schedule_entry list \<Rightarrow> (int \<times> int) list" where
  "concurrency_points provider entries =
     concat (map (\<lambda>e. [(se_start_ms e, 1), (se_end_ms e, - 1)])
       (filter (\<lambda>e. (provider = None \<or> provider = Some (se_provider e)) \<and> se_start_ms e < se_end_ms e) entries))"

definition peak_concurrency :: "schedule_entry list \<Rightarrow> string option \<Rightarrow> int" where
  "peak_concurrency entries provider = peak_loop (sort (concurrency_points provider entries)) 0 0"

text \<open>\<open>_model_bound\<close> repeats the text of the scheduler's \<open>_duration_lower_bound\<close>; here the envelope has not
  been validated, so the divisions can raise.\<close>

definition model_bound :: "execution_graph \<Rightarrow> schedule_entry list \<Rightarrow> run_envelope \<Rightarrow> py_error + int" where
  "model_bound g entries env =
     (if entries = [] then Inr 0
      else case entry_lower_bound g entries env of
        Inl e \<Rightarrow> Inl e
      | Inr b \<Rightarrow>
          if re_max_parallelism env = 0 \<or> list_ex (\<lambda>e. provider_capacity env (se_provider e) = 0) entries
          then Inl ZeroDivisionError else Inr b)"

section \<open>What the checks share\<close>

record audit =
  au_graph :: execution_graph
  au_envelope :: run_envelope
  au_result :: schedule_result
  au_by_id :: "(string, task_contract) dict"
  au_known :: "string list"
  au_protected :: "string list"
  au_counts :: "string \<Rightarrow> nat"
  au_valid :: "schedule_entry list"
  au_entry_of :: "(string, schedule_entry) dict"

definition audit_of :: "execution_graph \<Rightarrow> run_envelope \<Rightarrow> schedule_result \<Rightarrow> py_error + audit" where
  "audit_of g env r =
     (case protected_task_ids g of
        Inl e \<Rightarrow> Inl e
      | Inr protected \<Rightarrow>
          let known = dkeys (by_id g);
              counts = count_list (map se_task_id (sr_entries r));
              valid = filter (\<lambda>e. se_task_id e \<in> set known) (sr_entries r)
          in Inr \<lparr>au_graph = g, au_envelope = env, au_result = r, au_by_id = by_id g, au_known = known,
                  au_protected = protected, au_counts = counts, au_valid = valid,
                  au_entry_of = dict_of (map (\<lambda>e. (se_task_id e, e)) (filter (\<lambda>e. counts (se_task_id e) = 1) valid))\<rparr>)"

definition audit_task :: "audit \<Rightarrow> string \<Rightarrow> task_contract" where
  "audit_task a i = the (dget (au_by_id a) i)"

section \<open>Checks on entries\<close>

definition unknown_entries :: "audit \<Rightarrow> string list" where
  "unknown_entries a = sorted_set (filter (\<lambda>i. i \<notin> set (au_known a)) (map se_task_id (sr_entries (au_result a))))"

definition duplicate_entries :: "audit \<Rightarrow> string list" where
  "duplicate_entries a = sorted_set (filter (\<lambda>i. au_counts a i \<noteq> 1) (map se_task_id (sr_entries (au_result a))))"

definition entry_identity_ok :: "audit \<Rightarrow> bool" where
  "entry_identity_ok a \<longleftrightarrow> unknown_entries a = [] \<and> duplicate_entries a = []"

definition check_entry_identity :: "audit \<Rightarrow> invariant_check" where
  "check_entry_identity a =
     check ''entry-identity'' (entry_identity_ok a)
       (''unknown='' @ py_list_repr (unknown_entries a) @ '', duplicates='' @ py_list_repr (duplicate_entries a))"

definition entry_misshapen :: "audit \<Rightarrow> schedule_entry \<Rightarrow> bool" where
  "entry_misshapen a e \<longleftrightarrow>
     se_start_ms e < 0 \<or> se_end_ms e < se_start_ms e \<or> se_end_ms e > sr_makespan_ms (au_result a)
     \<or> se_outcome e \<notin> {''completed'', ''cancelled''} \<or> se_optional e \<noteq> tc_optional (audit_task a (se_task_id e))"

definition check_entry_shape :: "audit \<Rightarrow> invariant_check" where
  "check_entry_shape a =
     (let bad = map se_task_id (filter (entry_misshapen a) (au_valid a))
      in check ''entry-shape'' (bad = []) (''invalid='' @ py_list_repr (sort bad)))"

definition matching_profiles :: "audit \<Rightarrow> schedule_entry \<Rightarrow> backend_profile list" where
  "matching_profiles a e =
     filter (\<lambda>p. bp_name p = se_backend e \<and> bp_provider p = se_provider e) (tc_profiles (audit_task a (se_task_id e)))"

definition profile_mismatch :: "audit \<Rightarrow> schedule_entry \<Rightarrow> backend_profile \<Rightarrow> bool" where
  "profile_mismatch a e p \<longleftrightarrow>
     bp_quality p < tc_min_quality (audit_task a (se_task_id e)) \<or> total_tokens p \<noteq> se_tokens e
     \<or> bp_cost_microusd p \<noteq> se_cost_microusd e \<or> bp_context_bytes p \<noteq> se_context_bytes e
     \<or> \<not> isclose (1 - bp_failure_probability p) (se_success_probability e) (float_of (1 / 10 ^ 12))
     \<or> \<not> (if se_outcome e = ''completed'' then se_end_ms e - se_start_ms e = bp_duration_ms_p95 p
          else se_end_ms e - se_start_ms e \<le> bp_duration_ms_p95 p)"

definition profile_violation :: "audit \<Rightarrow> schedule_entry \<Rightarrow> string option" where
  "profile_violation a e =
     (case matching_profiles a e of
        [p] \<Rightarrow> if profile_mismatch a e p then Some (se_task_id e @ '':profile'') else None
      | _ \<Rightarrow> Some (se_task_id e @ '':backend''))"

definition check_profile_integrity :: "audit \<Rightarrow> invariant_check" where
  "check_profile_integrity a =
     (let bad = List.map_filter (profile_violation a) (au_valid a)
      in check ''profile-integrity'' (bad = []) (''invalid='' @ py_list_repr (sort bad)))"

text \<open>An entry without a unique profile is left out of the deadline check (\<open>continue\<close>).\<close>

definition entry_late :: "audit \<Rightarrow> schedule_entry \<Rightarrow> bool" where
  "entry_late a e \<longleftrightarrow>
     length (matching_profiles a e) = 1 \<and> se_outcome e = ''completed''
     \<and> se_end_ms e > effective_deadline (audit_task a (se_task_id e)) (re_deadline_ms (au_envelope a))"

definition check_task_deadlines :: "audit \<Rightarrow> invariant_check" where
  "check_task_deadlines a =
     (let bad = map se_task_id (filter (entry_late a) (au_valid a))
      in check ''task-deadlines'' (bad = []) (''late='' @ py_list_repr (sort bad)))"

section \<open>Checks on events\<close>

definition check_event_order :: "audit \<Rightarrow> invariant_check" where
  "check_event_order a =
     (let sequences = map ev_sequence (sr_events (au_result a)); times = map ev_time_ms (sr_events (au_result a))
      in check ''event-order''
           (sequences = map int [1..<Suc (length sequences)] \<and> times = sort times \<and> list_all (\<lambda>t. 0 \<le> t) times)
           (''sequences='' @ int_list_repr sequences @ '', times='' @ int_list_repr times))"

definition task_event_types :: "event_type list" where
  "task_event_types = [PROFILE_SELECTED, TASK_STARTED, TASK_COMPLETED, TASK_CANCELLED, TASK_SKIPPED]"

definition known_event :: "audit \<Rightarrow> event \<Rightarrow> bool" where
  "known_event a e \<longleftrightarrow> (case ev_task_id e of None \<Rightarrow> False | Some i \<Rightarrow> i \<in> set (au_known a))"

text \<open>Event types are typed here, so \<open>typed_events\<close> is \<open>True\<close>; \<open>str(None)\<close> is \<open>None\<close>.\<close>

definition check_event_identity :: "audit \<Rightarrow> invariant_check" where
  "check_event_identity a =
     (let events = sr_events (au_result a);
          unknown = sorted_set (map (\<lambda>e. case ev_task_id e of None \<Rightarrow> ''None'' | Some i \<Rightarrow> i)
            (filter (\<lambda>e. ev_type e \<in> set task_event_types \<and> \<not> known_event a e) events));
          malformed = map ev_sequence
            (filter (\<lambda>e. ev_type e \<in> {RUN_STARTED, RUN_COMPLETED, RUN_FAILED} \<and> ev_task_id e \<noteq> None) events)
      in check ''event-identity'' (unknown = [] \<and> malformed = [])
           (''typed=True, unknown='' @ py_list_repr unknown @ '', malformed_run='' @ int_list_repr malformed))"

definition events_of_type :: "event_type \<Rightarrow> event list \<Rightarrow> event list" where
  "events_of_type ty es = filter (\<lambda>e. ev_type e = ty) es"

text \<open>Where there is exactly one event of a type, \<open>event is found[0]\<close> says that the event has that type.\<close>

definition check_run_lifecycle :: "audit \<Rightarrow> invariant_check" where
  "check_run_lifecycle a =
     (let r = au_result a; es = sr_events r;
          starts = events_of_type RUN_STARTED es; completed = events_of_type RUN_COMPLETED es;
          failed = events_of_type RUN_FAILED es;
          expected = (if sr_success r then completed else failed);
          unexpected = (if sr_success r then failed else completed)
      in check ''run-lifecycle''
           (length starts = 1 \<and> es \<noteq> [] \<and> ev_type (hd es) = RUN_STARTED \<and> ev_time_ms (hd starts) = 0
            \<and> length expected = 1 \<and> unexpected = []
            \<and> ev_type (last es) = (if sr_success r then RUN_COMPLETED else RUN_FAILED)
            \<and> ev_time_ms (hd expected) = sr_makespan_ms r)
           (''starts='' @ dec_string (length starts) @ '', completed='' @ dec_string (length completed)
            @ '', failed='' @ dec_string (length failed) @ '', makespan='' @ int_string (sr_makespan_ms r)))"

section \<open>The lifecycle of tasks\<close>

text \<open>The events of a known task of one type, in order: \<open>event_counts\<close> is the length and \<open>event_by_key\<close> the
  last of them.\<close>

definition keyed_events :: "audit \<Rightarrow> string \<Rightarrow> event_type \<Rightarrow> event list" where
  "keyed_events a i ty = filter (\<lambda>e. ev_task_id e = Some i \<and> ev_type e = ty) (sr_events (au_result a))"

definition event_count :: "audit \<Rightarrow> string \<Rightarrow> event_type \<Rightarrow> nat" where
  "event_count a i ty = length (keyed_events a i ty)"

definition ids_with :: "audit \<Rightarrow> event_type \<Rightarrow> string list" where
  "ids_with a ty = filter (\<lambda>i. event_count a i ty \<noteq> 0) (au_known a)"

definition lifecycle_aligned :: "audit \<Rightarrow> string \<Rightarrow> schedule_entry \<Rightarrow> bool" where
  "lifecycle_aligned a i e \<longleftrightarrow>
     (let final = (if se_outcome e = ''completed'' then TASK_COMPLETED else TASK_CANCELLED)
      in event_count a i PROFILE_SELECTED = 1 \<and> event_count a i TASK_STARTED = 1
         \<and> event_count a i TASK_COMPLETED + event_count a i TASK_CANCELLED = 1 \<and> event_count a i TASK_SKIPPED = 0
         \<and> keyed_events a i final \<noteq> []
         \<and> ev_sequence (last (keyed_events a i PROFILE_SELECTED)) < ev_sequence (last (keyed_events a i TASK_STARTED))
         \<and> ev_sequence (last (keyed_events a i TASK_STARTED)) < ev_sequence (last (keyed_events a i final))
         \<and> ev_time_ms (last (keyed_events a i TASK_STARTED)) = se_start_ms e
         \<and> ev_time_ms (last (keyed_events a i final)) = se_end_ms e)"

definition lifecycle_violation :: "audit \<Rightarrow> string \<Rightarrow> bool" where
  "lifecycle_violation a i \<longleftrightarrow>
     (case dget (au_entry_of a) i of
        Some e \<Rightarrow> \<not> lifecycle_aligned a i e
      | None \<Rightarrow>
          event_count a i PROFILE_SELECTED \<noteq> 0 \<or> event_count a i TASK_STARTED \<noteq> 0
          \<or> event_count a i TASK_COMPLETED \<noteq> 0 \<or> event_count a i TASK_CANCELLED \<noteq> 0
          \<or> event_count a i TASK_SKIPPED \<notin> {0, 1})"

definition scheduled_ids :: "audit \<Rightarrow> string list" where
  "scheduled_ids a = dkeys (au_entry_of a)"

definition check_task_lifecycle :: "audit \<Rightarrow> invariant_check" where
  "check_task_lifecycle a =
     (let bad = filter (lifecycle_violation a) (au_known a);
          selected = ids_with a PROFILE_SELECTED; started = ids_with a TASK_STARTED;
          completed = ids_with a TASK_COMPLETED; cancelled = ids_with a TASK_CANCELLED
      in check ''task-lifecycle''
           (bad = [] \<and> set (scheduled_ids a) = set selected \<and> set selected = set started
            \<and> set started = set completed \<union> set cancelled \<and> set completed \<inter> set cancelled = {})
           (''invalid='' @ py_list_repr (sort bad) @ '', scheduled='' @ py_list_repr (sort (scheduled_ids a))
            @ '', started='' @ py_list_repr (sort started)
            @ '', terminals='' @ py_list_repr (sorted_set (completed @ cancelled))))"

definition check_skip_integrity :: "audit \<Rightarrow> invariant_check" where
  "check_skip_integrity a =
     (let skipped = sr_skipped (au_result a); events = ids_with a TASK_SKIPPED;
          optional = filter (\<lambda>i. i \<notin> set (au_protected a)) (au_known a)
      in check ''skip-integrity''
           (distinct skipped \<and> set skipped = set events \<and> set skipped \<subseteq> set optional
            \<and> set skipped \<inter> set (scheduled_ids a) = {})
           (''result='' @ py_list_repr (sorted_set skipped) @ '', events='' @ py_list_repr (sort events)
            @ '', skippable='' @ py_list_repr (sort optional)))"

definition dependency_violations :: "audit \<Rightarrow> string list" where
  "dependency_violations a =
     concat (map (\<lambda>(i, e). map (\<lambda>d. i @ ''<-'' @ d)
         (filter (\<lambda>d. case dget (au_entry_of a) d of
             None \<Rightarrow> True
           | Some parent \<Rightarrow> se_outcome parent \<noteq> ''completed'' \<or> se_end_ms parent > se_start_ms e)
           (tc_dependencies (audit_task a i))))
       (au_entry_of a))"

definition check_dependency_order :: "audit \<Rightarrow> invariant_check" where
  "check_dependency_order a =
     check ''dependency-order'' (dependency_violations a = [])
       (''invalid='' @ py_list_repr (sort (dependency_violations a)))"

definition completed_successfully :: "audit \<Rightarrow> string list" where
  "completed_successfully a = map fst (filter (\<lambda>(i, e). se_outcome e = ''completed'') (au_entry_of a))"

definition check_completeness :: "audit \<Rightarrow> invariant_check" where
  "check_completeness a =
     check ''successful-run-completeness''
       (\<not> sr_success (au_result a)
        \<or> (set (au_protected a) \<subseteq> set (completed_successfully a) \<and> ids_with a TASK_CANCELLED = []
           \<and> set (completed_successfully a) \<union> set (sr_skipped (au_result a)) = set (au_known a)))
       (''protected='' @ py_list_repr (sorted_set (au_protected a)) @ '', completed=''
        @ py_list_repr (sort (completed_successfully a)) @ '', cancelled=''
        @ py_list_repr (sort (ids_with a TASK_CANCELLED)))"

section \<open>Checks on resources\<close>

definition check_accounting :: "audit \<Rightarrow> invariant_check" where
  "check_accounting a =
     (let r = au_result a; tokens = sum_list (map se_tokens (sr_entries r));
          cost = sum_list (map se_cost_microusd (sr_entries r));
          context = sum_list (map se_context_bytes (sr_entries r))
      in check ''resource-accounting''
           (tokens = sr_total_tokens r \<and> cost = sr_total_cost_microusd r \<and> context = sr_total_context_bytes r)
           (''entries='' @ triple_text tokens cost context @ '', aggregates=''
            @ triple_text (sr_total_tokens r) (sr_total_cost_microusd r) (sr_total_context_bytes r)))"

definition check_caps :: "audit \<Rightarrow> invariant_check" where
  "check_caps a =
     (let r = au_result a; env = au_envelope a; tokens = sum_list (map se_tokens (sr_entries r));
          cost = sum_list (map se_cost_microusd (sr_entries r));
          context = sum_list (map se_context_bytes (sr_entries r))
      in check ''resource-caps''
           (tokens \<le> re_max_tokens env \<and> cost \<le> re_max_cost_microusd env \<and> context \<le> re_max_context_bytes env)
           (''used='' @ triple_text tokens cost context @ '', caps=''
            @ triple_text (re_max_tokens env) (re_max_cost_microusd env) (re_max_context_bytes env)))"

definition summed_success :: "schedule_result \<Rightarrow> float64" where
  "summed_success r = foldl (\<lambda>s e. s * se_success_probability e) 1 (sr_entries r)"

definition check_reliability :: "audit \<Rightarrow> invariant_check" where
  "check_reliability a =
     (let r = au_result a; env = au_envelope a
      in check ''modeled-reliability''
           (isclose (summed_success r) (sr_modeled_success_probability r) (float_of (1 / 10 ^ 12))
            \<and> (\<not> sr_success r \<or> summed_success r \<ge> re_min_success env))
           (''entries='' @ float_repr (summed_success r) @ '', aggregate=''
            @ float_repr (sr_modeled_success_probability r) @ '', floor='' @ float_repr (re_min_success env)))"

definition provider_peaks :: "audit \<Rightarrow> (string, int) dict" where
  "provider_peaks a =
     map (\<lambda>q. (q, peak_concurrency (au_valid a) (Some q))) (sorted_set (map se_provider (au_valid a)))"

definition check_concurrency :: "audit \<Rightarrow> invariant_check" where
  "check_concurrency a =
     (let env = au_envelope a; global_peak = peak_concurrency (au_valid a) None
      in check ''concurrency-caps''
           (global_peak \<le> re_max_parallelism env
            \<and> list_all (\<lambda>(q, peak). peak \<le> min (provider_limit env q) (re_max_parallelism env)) (provider_peaks a))
           (''global='' @ int_string global_peak @ ''/'' @ int_string (re_max_parallelism env) @ '', providers=''
            @ int_dict_repr (provider_peaks a)))"

definition effects_collide :: "audit \<Rightarrow> schedule_entry \<Rightarrow> schedule_entry \<Rightarrow> bool" where
  "effects_collide a x y \<longleftrightarrow>
     (let ex = tc_effect (audit_task a (se_task_id x)); ey = tc_effect (audit_task a (se_task_id y))
      in ef_resource ex = ef_resource ey \<and> (se_start_ms x < se_end_ms y \<and> se_start_ms y < se_end_ms x)
         \<and> (writes (ef_kind ex) \<or> writes (ef_kind ey)))"

fun conflict_pairs :: "audit \<Rightarrow> schedule_entry list \<Rightarrow> string list" where
  "conflict_pairs a [] = []"
| "conflict_pairs a (x # xs) =
     map (\<lambda>y. se_task_id x @ ''<->'' @ se_task_id y) (filter (effects_collide a x) xs) @ conflict_pairs a xs"

definition check_effects :: "audit \<Rightarrow> invariant_check" where
  "check_effects a =
     (let bad = conflict_pairs a (filter (\<lambda>e. ef_resource (tc_effect (audit_task a (se_task_id e))) \<noteq> []) (au_valid a))
      in check ''effect-serialization'' (bad = []) (''conflicts='' @ py_list_repr (sort bad)))"

definition recomputed_bound :: "audit \<Rightarrow> py_error + int" where
  "recomputed_bound a =
     (if entry_identity_ok a then model_bound (au_graph a) (au_valid a) (au_envelope a) else Inr (- 1))"

definition check_model_bound :: "audit \<Rightarrow> int \<Rightarrow> invariant_check" where
  "check_model_bound a bound =
     (let r = au_result a
      in check ''model-bound''
           (\<not> sr_success r \<or> (bound = sr_model_bound_ms r \<and> sr_model_bound_ms r \<le> sr_makespan_ms r))
           (''recomputed='' @ int_string bound @ '', reported='' @ int_string (sr_model_bound_ms r)
            @ '', makespan='' @ int_string (sr_makespan_ms r)))"

definition check_run_deadline :: "audit \<Rightarrow> invariant_check" where
  "check_run_deadline a =
     (let r = au_result a; env = au_envelope a
      in check ''run-deadline'' (\<not> sr_success r \<or> sr_makespan_ms r \<le> re_deadline_ms env)
           (''makespan='' @ int_string (sr_makespan_ms r) @ '', deadline='' @ int_string (re_deadline_ms env)))"

section \<open>The audit\<close>

definition audit_checks :: "audit \<Rightarrow> int \<Rightarrow> invariant_check list" where
  "audit_checks a bound =
     [check_entry_identity a, check_entry_shape a, check_profile_integrity a, check_task_deadlines a,
      check_event_order a, check_event_identity a, check_run_lifecycle a, check_task_lifecycle a,
      check_skip_integrity a, check_dependency_order a, check_completeness a, check_accounting a, check_caps a,
      check_reliability a, check_concurrency a, check_effects a, check_model_bound a bound, check_run_deadline a]"

definition verify_conservation ::
  "execution_graph \<Rightarrow> run_envelope \<Rightarrow> schedule_result \<Rightarrow> py_error + conservation_report" where
  "verify_conservation g env r =
     (case audit_of g env r of
        Inl e \<Rightarrow> Inl e
      | Inr a \<Rightarrow>
          (case recomputed_bound a of
             Inl e \<Rightarrow> Inl e
           | Inr bound \<Rightarrow>
               Inr \<lparr>cr_passed = list_all ic_passed (audit_checks a bound),
                    cr_trace_digest = content_digest (schedule_as_dict r), cr_checks = audit_checks a bound\<rparr>))"

end
