(* ===== verification/Conservation_Sound.thy ===== *)
theory Conservation_Sound
  imports Float_Error Conservation
begin

text \<open>
  The scheduler satisfies its auditor: on every result \<open>schedule\<close> returns, \<open>verify_conservation\<close>
  raises nothing and each of its checks passes, with two provisos the last section states.
\<close>

section \<open>The audit of a result\<close>

definition audited ::
  "execution_graph \<Rightarrow> run_envelope \<Rightarrow> schedule_policy \<Rightarrow> schedule_result \<Rightarrow> sched_ctx \<Rightarrow> launch list \<Rightarrow> sched_state \<Rightarrow> launch list \<Rightarrow> audit \<Rightarrow> bool"
  where
  "audited g env policy r cx L st M a \<longleftrightarrow> result_of g env policy r cx L st M \<and> audit_of g env r = Inr a"

lemma count_list_distinct: "distinct xs \<Longrightarrow> count_list xs x = (if x \<in> set xs then 1 else 0)"
  by (induction xs) auto

lemma audit_exists:
  assumes r: "result_of g env policy r cx L st M"
  obtains a where "audited g env policy r cx L st M a"
proof -
  obtain P where "protected_task_ids g = Inr P" by (rule protected_task_ids_ok [OF result_facts(15) [OF r]])
  with r show ?thesis by (intro that) (simp add: audited_def audit_of_def Let_def)
qed

lemma audited_facts:
  assumes aud: "audited g env policy r cx L st M a"
  shows "result_of g env policy r cx L st M" "au_graph a = g" "au_envelope a = env" "au_result a = r"
    "au_known a = graph_ids g" "set (au_protected a) = protected_set g" "au_valid a = sr_entries r"
    "au_entry_of a = map (\<lambda>e. (se_task_id e, e)) (sr_entries r)" "distinct (graph_ids g)"
    "\<And>i. au_counts a i = count_list (map se_task_id (sr_entries r)) i"
    "\<And>t. t \<in> set g \<Longrightarrow> audit_task a (tc_task_id t) = t"
    "distinct (map se_task_id (sr_entries r))" "se_task_id ` set (sr_entries r) \<subseteq> set (graph_ids g)"
proof -
  show r: "result_of g env policy r cx L st M" using aud by (simp add: audited_def)
  note f = result_facts [OF r]
  show d: "distinct (graph_ids g)" by (rule graph_ok_parts(1) [OF f(15)])
  have known: "dkeys (by_id g) = graph_ids g" by (simp add: by_id_distinct [OF d] graph_ids_def o_def)
  show dist: "distinct (map se_task_id (sr_entries r))" by (rule result_accounts(1) [OF r])
  have "la_id l \<in> set (graph_ids g)" if "l \<in> set L" for l
    using launch_in_graph [OF f(6) that] f(2) by (simp add: la_id_def graph_ids_def)
  then show sub: "se_task_id ` set (sr_entries r) \<subseteq> set (graph_ids g)" by (auto simp: f(8,10))
  obtain P where P: "protected_task_ids g = Inr P" "set P = protected_set g" by (rule protected_task_ids_ok [OF f(15)])
  have valid: "filter (\<lambda>e. se_task_id e \<in> set (graph_ids g)) (sr_entries r) = sr_entries r"
    using sub by (intro filter_True) auto
  have once: "filter (\<lambda>e. count_list (map se_task_id (sr_entries r)) (se_task_id e) = 1) (sr_entries r) = sr_entries r"
    using count_list_distinct [OF dist] by (intro filter_True) auto
  have of: "dict_of (map (\<lambda>e. (se_task_id e, e)) (sr_entries r)) = map (\<lambda>e. (se_task_id e, e)) (sr_entries r)"
    by (rule dict_of_distinct) (use dist in \<open>simp add: o_def\<close>)
  have "audit_of g env r = Inr \<lparr>au_graph = g, au_envelope = env, au_result = r, au_by_id = by_id g, au_known = graph_ids g,
      au_protected = P, au_counts = count_list (map se_task_id (sr_entries r)), au_valid = sr_entries r,
      au_entry_of = map (\<lambda>e. (se_task_id e, e)) (sr_entries r)\<rparr>"
    unfolding audit_of_def Let_def P(1) sum.case known valid once of ..
  then have a: "a = \<lparr>au_graph = g, au_envelope = env, au_result = r, au_by_id = by_id g, au_known = graph_ids g,
      au_protected = P, au_counts = count_list (map se_task_id (sr_entries r)), au_valid = sr_entries r,
      au_entry_of = map (\<lambda>e. (se_task_id e, e)) (sr_entries r)\<rparr>"
    using aud by (simp add: audited_def)
  show "au_graph a = g" "au_envelope a = env" "au_result a = r" "au_known a = graph_ids g" "au_valid a = sr_entries r"
    "set (au_protected a) = protected_set g" "au_entry_of a = map (\<lambda>e. (se_task_id e, e)) (sr_entries r)"
    "\<And>i. au_counts a i = count_list (map se_task_id (sr_entries r)) i"
    using P(2) by (simp_all add: a)
  show "\<And>t. t \<in> set g \<Longrightarrow> audit_task a (tc_task_id t) = t" by (simp add: a audit_task_def dget_by_id [OF d])
qed

lemma audited_entry:
  assumes aud: "audited g env policy r cx L st M a" and e: "e \<in> set (sr_entries r)"
  obtains l where "l \<in> set L" and "e = final_entry (ss_completed st) (ss_time_ms st) l"
    and "audit_task a (se_task_id e) = la_task l" and "la_task l \<in> set g" and "la_profile l \<in> set (qualified_profiles (la_task l))"
proof -
  note f = result_facts [OF audited_facts(1) [OF aud]]
  from e f(8,10) obtain l where l: "l \<in> set L" "e = final_entry (ss_completed st) (ss_time_ms st) l" by auto
  then have t: "la_task l \<in> set g" "la_profile l \<in> set (qualified_profiles (la_task l))"
    using f(2,6) by (simp_all add: core_parts)
  moreover have "audit_task a (se_task_id e) = la_task l"
    using audited_facts(11) [OF aud t(1)] l(2) by (simp add: la_id_def)
  ultimately show ?thesis using l by (intro that)
qed

lemma dget_entry:
  assumes aud: "audited g env policy r cx L st M a"
  shows "dget (au_entry_of a) i = Some e \<longleftrightarrow> e \<in> set (sr_entries r) \<and> se_task_id e = i"
proof -
  have "distinct (map fst (au_entry_of a))" using audited_facts(8,12) [OF aud] by (simp add: o_def)
  from map_of_eq_Some_iff [OF this] show ?thesis by (auto simp: audited_facts(8) [OF aud])
qed

section \<open>Entries\<close>

lemma identity_ok:
  assumes aud: "audited g env policy r cx L st M a"
  shows "entry_identity_ok a"
proof -
  note f = audited_facts [OF aud]
  have "filter (\<lambda>i. i \<notin> set (au_known a)) (map se_task_id (sr_entries (au_result a))) = []"
    using f(13) by (auto simp: f(4,5) filter_empty_conv)
  moreover have "filter (\<lambda>i. au_counts a i \<noteq> 1) (map se_task_id (sr_entries (au_result a))) = []"
    using count_list_distinct [OF f(12)] by (auto simp: f(4,10) filter_empty_conv)
  ultimately show ?thesis
    unfolding entry_identity_ok_def unknown_entries_def duplicate_entries_def by (simp add: sorted_set_def)
qed

lemma shape_ok:
  assumes aud: "audited g env policy r cx L st M a" and e: "e \<in> set (sr_entries r)"
  shows "\<not> entry_misshapen a e"
proof -
  note r = audited_facts(1) [OF aud]
  obtain l where l: "l \<in> set L" "e = final_entry (ss_completed st) (ss_time_ms st) l" "audit_task a (se_task_id e) = la_task l"
    by (rule audited_entry [OF aud e])
  have "0 \<le> la_start l" using result_facts(6) [OF r] l(1) by (simp add: core_parts)
  moreover have "sr_makespan_ms r = ss_time_ms st" using result_facts(7) [OF r] by (simp add: outcome_def)
  moreover have "se_start_ms e = la_start l" "se_outcome e \<in> {''completed'', ''cancelled''}"
    "se_optional e = tc_optional (la_task l)" by (simp_all add: l(2))
  moreover note entry_end(1,3) [OF r l(1), folded l(2)]
  ultimately show ?thesis
    by (simp add: entry_misshapen_def l(3) audited_facts(4) [OF aud])
qed

lemma filter_unique: "distinct (map f xs) \<Longrightarrow> x \<in> set xs \<Longrightarrow> filter (\<lambda>y. f y = f x) xs = [x]"
proof (induction xs)
  case Nil
  then show ?case by simp
next
  case (Cons y ys)
  show ?case
  proof (cases "x = y")
    case True
    then have "filter (\<lambda>z. f z = f x) ys = []" using distinct_head [OF Cons.prems(1)] by (auto simp: filter_empty_conv)
    with True show ?thesis by simp
  next
    case False
    with Cons.prems have "x \<in> set ys" by simp
    with Cons.IH distinct_head [OF Cons.prems(1)] Cons.prems(1) show ?thesis by auto
  qed
qed

lemma profile_matches:
  assumes aud: "audited g env policy r cx L st M a" and e: "e \<in> set (sr_entries r)"
  obtains l where "l \<in> set L" and "e = final_entry (ss_completed st) (ss_time_ms st) l"
    and "audit_task a (se_task_id e) = la_task l" and "matching_profiles a e = [la_profile l]"
    and "tc_min_quality (la_task l) \<le> bp_quality (la_profile l)"
proof -
  obtain l where l: "l \<in> set L" "e = final_entry (ss_completed st) (ss_time_ms st) l"
    "audit_task a (se_task_id e) = la_task l" "la_task l \<in> set g" "la_profile l \<in> set (qualified_profiles (la_task l))"
    by (rule audited_entry [OF aud e])
  then have p: "la_profile l \<in> set (tc_profiles (la_task l))" "tc_min_quality (la_task l) \<le> bp_quality (la_profile l)"
    by (simp_all add: qualified_profiles_def)
  have "task_ok (la_task l)" using graph_ok_parts(2) [OF result_facts(15) [OF audited_facts(1) [OF aud]]] l(4) by blast
  from task_okD(5) [OF this] p(1)
  have "filter (\<lambda>q. profile_identity q = profile_identity (la_profile l)) (tc_profiles (la_task l)) = [la_profile l]"
    by (rule filter_unique)
  then have "matching_profiles a e = [la_profile l]"
    by (simp add: matching_profiles_def l(3) profile_identity_def) (simp add: l(2) la_provider_def)
  with l p(2) show ?thesis by (intro that)
qed

lemma profile_ok_entry:
  assumes aud: "audited g env policy r cx L st M a" and e: "e \<in> set (sr_entries r)"
  shows "profile_violation a e = None" and "\<not> entry_late a e"
proof -
  note r = audited_facts(1) [OF aud]
  obtain l where l: "l \<in> set L" "e = final_entry (ss_completed st) (ss_time_ms st) l"
    "audit_task a (se_task_id e) = la_task l" "matching_profiles a e = [la_profile l]"
    "tc_min_quality (la_task l) \<le> bp_quality (la_profile l)"
    by (rule profile_matches [OF aud e])
  have "se_end_ms e \<le> la_end l" using entry_end(2) [OF r l(1)] l(2) by simp
  then have "\<not> profile_mismatch a e (la_profile l)"
    using l(3,5) by (auto simp: profile_mismatch_def not_less) (simp_all add: l(2) la_end_def split: if_splits)
  with l(4) show "profile_violation a e = None" by (simp add: profile_violation_def)
  have "se_end_ms e \<le> effective_deadline (la_task l) (re_deadline_ms env)"
    using \<open>se_end_ms e \<le> la_end l\<close> good_launch(1) [OF result_facts(5) [OF r] l(1)] result_facts(3) [OF r] by simp
  with l(3) show "\<not> entry_late a e" by (simp add: entry_late_def audited_facts(3) [OF aud] not_less)
qed

lemma entry_checks:
  assumes aud: "audited g env policy r cx L st M a"
  shows "ic_passed (check_entry_identity a)" "ic_passed (check_entry_shape a)" "ic_passed (check_profile_integrity a)"
    "ic_passed (check_task_deadlines a)"
  using identity_ok [OF aud] shape_ok [OF aud] profile_ok_entry [OF aud] audited_facts(7) [OF aud]
  by (auto simp: check_entry_identity_def check_entry_shape_def check_profile_integrity_def check_task_deadlines_def
      check_def Let_def filter_empty_conv List.map_filter_def)

section \<open>Events\<close>

lemma event_order_ok:
  assumes aud: "audited g env policy r cx L st M a"
  shows "ic_passed (check_event_order a)"
  using result_log_frame(1-3) [OF audited_facts(1) [OF aud]]
  by (simp add: check_event_order_def check_def Let_def audited_facts(4) [OF aud] list_all_iff sorted_sort_id
      del: upt_Suc)

text \<open>The log as first event, task events, last event.\<close>

lemma log_parts:
  assumes aud: "audited g env policy r cx L st M a"
  obtains e0 mid e1 where "sr_events r = e0 # mid @ [e1]" and "ev_type e0 = RUN_STARTED" and "ev_task_id e0 = None"
    and "ev_time_ms e0 = 0" and "ev_type e1 = (if sr_success r then RUN_COMPLETED else RUN_FAILED)"
    and "ev_task_id e1 = None" and "ev_time_ms e1 = sr_makespan_ms r"
    and "\<forall>e \<in> set mid. ev_type e \<in> task_events \<and> (\<exists>i \<in> set (graph_ids g). ev_task_id e = Some i)"
  using result_log_frame(4) [OF audited_facts(1) [OF aud]] by blast

lemma task_events_set: "task_events = set task_event_types"
  by (simp add: task_events_def task_event_types_def)

lemma event_identity_ok:
  assumes aud: "audited g env policy r cx L st M a"
  shows "ic_passed (check_event_identity a)"
proof -
  note f = audited_facts [OF aud]
  obtain e0 mid e1 where p: "sr_events r = e0 # mid @ [e1]" "ev_type e0 = RUN_STARTED" "ev_task_id e0 = None"
    "ev_time_ms e0 = 0" "ev_type e1 = (if sr_success r then RUN_COMPLETED else RUN_FAILED)" "ev_task_id e1 = None"
    "ev_time_ms e1 = sr_makespan_ms r"
    "\<forall>e \<in> set mid. ev_type e \<in> task_events \<and> (\<exists>i \<in> set (graph_ids g). ev_task_id e = Some i)"
    by (rule log_parts [OF aud])
  have known: "known_event a e" if "e \<in> set mid" for e
    using p(8) that by (auto simp: known_event_def f(5))
  have "filter (\<lambda>e. ev_type e \<in> set task_event_types \<and> \<not> known_event a e) (sr_events r) = []"
    using known p(2,5) by (auto simp: p(1) filter_empty_conv task_event_types_def)
  moreover have "filter (\<lambda>e. ev_type e \<in> {RUN_STARTED, RUN_COMPLETED, RUN_FAILED} \<and> ev_task_id e \<noteq> None) (sr_events r) = []"
    using p(3,6,8) by (auto simp: p(1) filter_empty_conv task_events_def)
  ultimately show ?thesis
    by (simp only: check_event_identity_def check_def Let_def f(4)) (simp add: sorted_set_def)
qed

lemma run_lifecycle_ok:
  assumes aud: "audited g env policy r cx L st M a"
  shows "ic_passed (check_run_lifecycle a)"
proof -
  note f = audited_facts [OF aud]
  obtain e0 mid e1 where p: "sr_events r = e0 # mid @ [e1]" "ev_type e0 = RUN_STARTED" "ev_task_id e0 = None"
    "ev_time_ms e0 = 0" "ev_type e1 = (if sr_success r then RUN_COMPLETED else RUN_FAILED)" "ev_task_id e1 = None"
    "ev_time_ms e1 = sr_makespan_ms r"
    "\<forall>e \<in> set mid. ev_type e \<in> task_events \<and> (\<exists>i \<in> set (graph_ids g). ev_task_id e = Some i)"
    by (rule log_parts [OF aud])
  have none: "filter (\<lambda>e. ev_type e = ty) mid = []" if "ty \<in> {RUN_STARTED, RUN_COMPLETED, RUN_FAILED}" for ty
    using p(8) that by (auto simp: filter_empty_conv task_events_def)
  have "events_of_type RUN_STARTED (sr_events r) = [e0]"
    "events_of_type RUN_COMPLETED (sr_events r) = (if sr_success r then [e1] else [])"
    "events_of_type RUN_FAILED (sr_events r) = (if sr_success r then [] else [e1])"
    using p(2,5) none by (simp_all add: events_of_type_def p(1))
  with p(1,2,4,5,7) show ?thesis
    by (simp add: check_run_lifecycle_def check_def Let_def f(4))
qed

section \<open>Lifecycles\<close>

lemma keyed_by_log: "map (\<lambda>e. (ev_type e, ev_time_ms e)) (keyed_events a i ty)
    = filter (\<lambda>p. fst p = ty) (task_log (sr_events (au_result a)) i)"
  unfolding keyed_events_def task_log_def filter_map o_def fst_conv filter_filter by (simp add: conj_commute)

lemma event_count_log: "event_count a i ty = length (filter (\<lambda>p. fst p = ty) (task_log (sr_events (au_result a)) i))"
  unfolding event_count_def by (metis keyed_by_log length_map)

text \<open>The events of a scheduled task, in order.\<close>

lemma entry_events:
  assumes aud: "audited g env policy r cx L st M a" and e: "e \<in> set (sr_entries r)"
  obtains s b t where "filter (\<lambda>x. ev_task_id x = Some (se_task_id e)) (sr_events r) = [s, b, t]"
    and "ev_type s = PROFILE_SELECTED" and "ev_type b = TASK_STARTED" and "ev_time_ms b = se_start_ms e"
    and "ev_type t = (if se_outcome e = ''completed'' then TASK_COMPLETED else TASK_CANCELLED)"
    and "ev_time_ms t = se_end_ms e" and "ev_sequence s < ev_sequence b" and "ev_sequence b < ev_sequence t"
proof -
  note r = audited_facts(1) [OF aud]
  let ?F = "filter (\<lambda>x. ev_task_id x = Some (se_task_id e)) (sr_events r)"
  have "map (\<lambda>x. (ev_type x, ev_time_ms x)) ?F = [(PROFILE_SELECTED, se_start_ms e), (TASK_STARTED, se_start_ms e),
      (if se_outcome e = ''completed'' then TASK_COMPLETED else TASK_CANCELLED, se_end_ms e)]"
    using result_log_task(1) [OF r e] by (simp add: task_log_def)
  then obtain s b t where F: "?F = [s, b, t]" "ev_type s = PROFILE_SELECTED" "ev_type b = TASK_STARTED"
    "ev_time_ms b = se_start_ms e" "ev_time_ms t = se_end_ms e"
    "ev_type t = (if se_outcome e = ''completed'' then TASK_COMPLETED else TASK_CANCELLED)"
    by (auto simp: map_eq_Cons_conv)
  have "sorted_wrt (<) (map ev_sequence (sr_events r))"
    unfolding result_log_frame(1) [OF r] by (simp add: sorted_wrt_map del: upt_Suc)
  then have "sorted_wrt (\<lambda>x y. ev_sequence x < ev_sequence y) ?F"
    unfolding sorted_wrt_map by (rule sorted_wrt_filter)
  then have "ev_sequence s < ev_sequence b" "ev_sequence b < ev_sequence t" unfolding F(1) by simp_all
  from that [OF F(1-4,6,5) this] show ?thesis .
qed

lemma entry_aligned:
  assumes aud: "audited g env policy r cx L st M a" and e: "e \<in> set (sr_entries r)"
  shows "lifecycle_aligned a (se_task_id e) e"
proof -
  obtain s b t where F: "filter (\<lambda>x. ev_task_id x = Some (se_task_id e)) (sr_events r) = [s, b, t]"
    "ev_type s = PROFILE_SELECTED" "ev_type b = TASK_STARTED" "ev_time_ms b = se_start_ms e"
    "ev_type t = (if se_outcome e = ''completed'' then TASK_COMPLETED else TASK_CANCELLED)"
    "ev_time_ms t = se_end_ms e" "ev_sequence s < ev_sequence b" "ev_sequence b < ev_sequence t"
    by (rule entry_events [OF aud e])
  have "keyed_events a (se_task_id e) ty = filter (\<lambda>x. ev_type x = ty) [s, b, t]" for ty
    unfolding F(1) [symmetric] by (simp add: keyed_events_def audited_facts(4) [OF aud] conj_commute)
  then show ?thesis
    using F(2-8) by (simp add: lifecycle_aligned_def event_count_def)
qed

lemma counts_of_task:
  assumes aud: "audited g env policy r cx L st M a"
  shows "i \<notin> se_task_id ` set (sr_entries r) \<Longrightarrow> ty \<noteq> TASK_SKIPPED \<Longrightarrow> event_count a i ty = 0"
    and "event_count a i TASK_SKIPPED = (if i \<in> set (sr_skipped r) then 1 else 0)"
    and "e \<in> set (sr_entries r) \<Longrightarrow> event_count a (se_task_id e) TASK_COMPLETED = (if se_outcome e = ''completed'' then 1 else 0)
      \<and> event_count a (se_task_id e) TASK_CANCELLED = (if se_outcome e = ''completed'' then 0 else 1)
      \<and> event_count a (se_task_id e) PROFILE_SELECTED = 1 \<and> event_count a (se_task_id e) TASK_STARTED = 1"
proof -
  note r = audited_facts(1) [OF aud] and res = audited_facts(4) [OF aud]
  note log = result_log_task [OF r]
  show "event_count a i ty = 0" if i: "i \<notin> se_task_id ` set (sr_entries r)" "ty \<noteq> TASK_SKIPPED"
  proof (cases "i \<in> set (sr_skipped r)")
    case True
    from log(2) [OF True] obtain x where "task_log (sr_events r) i = [x]" "fst x = TASK_SKIPPED"
      by (auto simp: map_eq_Cons_conv)
    with i(2) show ?thesis by (simp add: event_count_log res)
  next
    case False
    with log(3) i(1) show ?thesis by (simp add: event_count_log res)
  qed
  show "event_count a i TASK_SKIPPED = (if i \<in> set (sr_skipped r) then 1 else 0)"
  proof (cases "i \<in> set (sr_skipped r)")
    case True
    from log(2) [OF True] obtain x where "task_log (sr_events r) i = [x]" "fst x = TASK_SKIPPED"
      by (auto simp: map_eq_Cons_conv)
    with True show ?thesis by (simp add: event_count_log res)
  next
    case False
    show ?thesis
    proof (cases "i \<in> se_task_id ` set (sr_entries r)")
      case True
      then obtain e where "e \<in> set (sr_entries r)" "se_task_id e = i" by auto
      with log(1) [of e] False show ?thesis by (simp add: event_count_log res)
    next
      case none: False
      with log(3) False show ?thesis by (simp add: event_count_log res)
    qed
  qed
  show "event_count a (se_task_id e) TASK_COMPLETED = (if se_outcome e = ''completed'' then 1 else 0)
      \<and> event_count a (se_task_id e) TASK_CANCELLED = (if se_outcome e = ''completed'' then 0 else 1)
      \<and> event_count a (se_task_id e) PROFILE_SELECTED = 1 \<and> event_count a (se_task_id e) TASK_STARTED = 1"
    if "e \<in> set (sr_entries r)" using log(1) [OF that] by (simp add: event_count_log res)
qed

text \<open>The sets the lifecycle checks compare.\<close>

lemma ids_with_sets:
  assumes aud: "audited g env policy r cx L st M a"
  shows "set (ids_with a PROFILE_SELECTED) = se_task_id ` set (sr_entries r)"
    and "set (ids_with a TASK_STARTED) = se_task_id ` set (sr_entries r)"
    and "set (ids_with a TASK_COMPLETED) = se_task_id ` {e \<in> set (sr_entries r). se_outcome e = ''completed''}"
    and "set (ids_with a TASK_CANCELLED) = se_task_id ` {e \<in> set (sr_entries r). se_outcome e \<noteq> ''completed''}"
    and "set (ids_with a TASK_SKIPPED) = set (sr_skipped r) \<inter> set (graph_ids g)"
proof -
  note f = audited_facts [OF aud] and c = counts_of_task [OF aud]
  have sub: "se_task_id e \<in> set (graph_ids g)" if "e \<in> set (sr_entries r)" for e using f(13) that by auto
  have ids: "set (ids_with a ty) = se_task_id ` {e \<in> set (sr_entries r). event_count a (se_task_id e) ty \<noteq> 0}"
    if ty: "ty \<noteq> TASK_SKIPPED" for ty
  proof (rule set_eqI)
    fix i
    show "i \<in> set (ids_with a ty) \<longleftrightarrow> i \<in> se_task_id ` {e \<in> set (sr_entries r). event_count a (se_task_id e) ty \<noteq> 0}"
    proof (cases "i \<in> se_task_id ` set (sr_entries r)")
      case True
      then show ?thesis using sub by (auto simp: ids_with_def f(5))
    next
      case False
      then show ?thesis using c(1) [OF False ty] by (auto simp: ids_with_def)
    qed
  qed
  show "set (ids_with a PROFILE_SELECTED) = se_task_id ` set (sr_entries r)"
    "set (ids_with a TASK_STARTED) = se_task_id ` set (sr_entries r)"
    "set (ids_with a TASK_COMPLETED) = se_task_id ` {e \<in> set (sr_entries r). se_outcome e = ''completed''}"
    "set (ids_with a TASK_CANCELLED) = se_task_id ` {e \<in> set (sr_entries r). se_outcome e \<noteq> ''completed''}"
    unfolding ids [of PROFILE_SELECTED, simplified] ids [of TASK_STARTED, simplified]
      ids [of TASK_COMPLETED, simplified] ids [of TASK_CANCELLED, simplified]
    using c(3) by (auto intro!: arg_cong [of _ _ "\<lambda>A. se_task_id ` A"] split: if_splits)
  show "set (ids_with a TASK_SKIPPED) = set (sr_skipped r) \<inter> set (graph_ids g)"
    by (auto simp: ids_with_def c(2) f(5))
qed

lemma scheduled_ids_set: "audited g env policy r cx L st M a \<Longrightarrow> set (scheduled_ids a) = se_task_id ` set (sr_entries r)"
  by (force simp: scheduled_ids_def audited_facts(8))

lemma lifecycle_none:
  assumes aud: "audited g env policy r cx L st M a"
  shows "\<not> lifecycle_violation a i"
proof (cases "dget (au_entry_of a) i")
  case None
  then have "i \<notin> se_task_id ` set (sr_entries r)" using dget_entry [OF aud, of i] by auto
  with None show ?thesis by (simp add: lifecycle_violation_def counts_of_task [OF aud])
next
  case (Some e)
  then have "e \<in> set (sr_entries r)" "se_task_id e = i" by (simp_all add: dget_entry [OF aud])
  with Some entry_aligned [OF aud, of e] show ?thesis by (simp add: lifecycle_violation_def)
qed

lemma task_lifecycle_ok:
  assumes aud: "audited g env policy r cx L st M a"
  shows "ic_passed (check_task_lifecycle a)"
proof -
  note s = ids_with_sets [OF aud] and f = audited_facts [OF aud]
  have "x = y" if "x \<in> set (sr_entries r)" "y \<in> set (sr_entries r)" "se_task_id x = se_task_id y" for x y
    using f(12) that by (auto simp: distinct_map dest: inj_onD)
  then have "set (ids_with a TASK_COMPLETED) \<inter> set (ids_with a TASK_CANCELLED) = {}" unfolding s by blast
  moreover have "set (ids_with a TASK_STARTED) = set (ids_with a TASK_COMPLETED) \<union> set (ids_with a TASK_CANCELLED)"
    unfolding s by blast
  moreover have "filter (lifecycle_violation a) (au_known a) = []" using lifecycle_none [OF aud] by (simp add: filter_empty_conv)
  ultimately show ?thesis
    using s(1,2) scheduled_ids_set [OF aud] by (simp add: check_task_lifecycle_def check_def Let_def)
qed

lemma skip_ok:
  assumes aud: "audited g env policy r cx L st M a"
  shows "ic_passed (check_skip_integrity a)"
proof -
  note f = audited_facts [OF aud]
  note r = result_facts [OF f(1)] and acc = result_accounts [OF f(1)]
  have "set (sr_skipped r) \<subseteq> set (graph_ids g)"
    using r(2,6,7) by (auto simp: outcome_def core_inv_def skips_ok_def)
  with acc(2-4) ids_with_sets(5) [OF aud] scheduled_ids_set [OF aud] f(4-6) show ?thesis
    by (auto simp: check_skip_integrity_def check_def Let_def)
qed

lemma dependency_ok:
  assumes aud: "audited g env policy r cx L st M a"
  shows "ic_passed (check_dependency_order a)"
proof -
  note f = audited_facts [OF aud] and rf = result_facts [OF audited_facts(1) [OF aud]]
  have "\<exists>p. dget (au_entry_of a) d = Some p \<and> se_outcome p = ''completed'' \<and> se_end_ms p \<le> se_start_ms e"
    if e: "e \<in> set (sr_entries r)" and d: "d \<in> set (tc_dependencies (audit_task a (se_task_id e)))" for e d
  proof -
    obtain l where l: "l \<in> set L" "e = final_entry (ss_completed st) (ss_time_ms st) l"
      "audit_task a (se_task_id e) = la_task l" by (rule audited_entry [OF aud e])
    from good_launch(2) [OF rf(5) l(1), of d] d l(3) obtain l' where
      l': "l' \<in> set L" "la_id l' = d" "la_end l' \<le> la_start l" by auto
    have "d \<in> set (ss_completed st)" using rf(17) l(1,3) d by (auto simp: deps_inv_def)
    with l' l(2) rf(8,10) show ?thesis
      by (intro exI [of _ "final_entry (ss_completed st) (ss_time_ms st) l'"]) (auto simp: dget_entry [OF aud])
  qed
  then have "filter (\<lambda>d. case dget (au_entry_of a) d of
             None \<Rightarrow> True
           | Some parent \<Rightarrow> se_outcome parent \<noteq> ''completed'' \<or> se_end_ms parent > se_start_ms e)
           (tc_dependencies (audit_task a (se_task_id e))) = []" if "e \<in> set (sr_entries r)" for e
    using that by (fastforce simp: filter_empty_conv)
  then have "dependency_violations a = []" by (auto simp: dependency_violations_def f(8))
  then show ?thesis by (simp add: check_dependency_order_def check_def)
qed

lemma completeness_ok:
  assumes aud: "audited g env policy r cx L st M a"
  shows "ic_passed (check_completeness a)"
proof (cases "sr_success r")
  case True
  note f = audited_facts [OF aud] and acc = result_accounts [OF audited_facts(1) [OF aud]]
  have "filter (\<lambda>(i, e). se_outcome e = ''completed'') (au_entry_of a) = au_entry_of a"
    using acc(5) [OF True] by (intro filter_True) (auto simp: f(8))
  then have "set (completed_successfully a) = se_task_id ` set (sr_entries r)"
    by (force simp: completed_successfully_def f(8))
  moreover have "set (ids_with a TASK_CANCELLED) = {}" using ids_with_sets(4) [OF aud] acc(5) [OF True] by auto
  ultimately show ?thesis
    using acc(6,7) [OF True] f(4-6) by (simp add: check_completeness_def check_def)
qed (simp add: check_completeness_def check_def audited_facts(4) [OF aud])

section \<open>Peaks\<close>

text \<open>A bound on every prefix sum bounds the peak.\<close>

lemma peak_loop_bound:
  "(\<And>xs ys. ps = xs @ ys \<Longrightarrow> active + sum_list (map snd xs) \<le> b) \<Longrightarrow> peak \<le> b \<Longrightarrow> peak_loop ps active peak \<le> b"
proof (induction ps arbitrary: active peak)
  case Nil
  then show ?case by simp
next
  case (Cons p ps)
  obtain t d where p: "p = (t, d)" by (cases p)
  have "active + d \<le> b" using Cons.prems(1) [of "[p]" ps] by (simp add: p)
  moreover have "active + d + sum_list (map snd xs) \<le> b" if "ps = xs @ ys" for xs ys
    using Cons.prems(1) [of "p # xs" ys] that by (simp add: p algebra_simps)
  ultimately show ?case using Cons.IH [of "active + d" "max peak (active + d)"] Cons.prems(2) by (simp add: p)
qed

definition occupies :: "string option \<Rightarrow> int \<Rightarrow> schedule_entry \<Rightarrow> bool" where
  "occupies q now e \<longleftrightarrow> (q = None \<or> q = Some (se_provider e)) \<and> se_start_ms e \<le> now \<and> now < se_end_ms e"

text \<open>The points up to \<open>(now, 1)\<close> sum to the number of entries that occupy \<open>now\<close>.\<close>

lemma points_until:
  "sum_list (map snd (filter (\<lambda>p. p \<le> (now, 1)) (concurrency_points q es))) = int (length (filter (occupies q now) es))"
proof (induction es)
  case Nil
  then show ?case by (simp add: concurrency_points_def)
next
  case (Cons e es)
  have "concurrency_points q (e # es)
      = (if (q = None \<or> q = Some (se_provider e)) \<and> se_start_ms e < se_end_ms e
         then [(se_start_ms e, 1), (se_end_ms e, - 1)] else []) @ concurrency_points q es"
    by (simp add: concurrency_points_def)
  with Cons.IH show ?case by (auto simp: occupies_def less_eq_prod_def)
qed

lemma points_delta: "p \<in> set (concurrency_points q es) \<Longrightarrow> snd p = 1 \<or> snd p = - 1"
  by (auto simp: concurrency_points_def)

lemma prefix_bound:
  assumes all: "\<And>now. int (length (filter (occupies q now) es)) \<le> b"
  shows "sort (concurrency_points q es) = xs @ ys \<Longrightarrow> sum_list (map snd xs) \<le> b"
proof (induction xs arbitrary: ys rule: rev_induct)
  case Nil
  have "0 \<le> b" using all [of 0] by (metis of_nat_0_le_iff order_trans)
  then show ?case by simp
next
  case (snoc p xs)
  let ?S = "sort (concurrency_points q es)"
  have prev: "sum_list (map snd xs) \<le> b" using snoc.IH [of "p # ys"] snoc.prems by simp
  have "p \<in> set ?S" using snoc.prems by (metis in_set_conv_decomp append.assoc append_Cons append_Nil)
  then have "snd p = 1 \<or> snd p = - 1" using points_delta [of p q es] by simp
  then show ?case
  proof
    assume "snd p = - 1"
    with prev show ?thesis by simp
  next
    assume up: "snd p = 1"
    then have p: "p = (fst p, 1)" by (cases p) simp
    have srt: "sorted (xs @ [p] @ ys)" using snoc.prems by (metis append.assoc sorted_sort)
    have "filter (\<lambda>x. x \<le> (fst p, 1)) (xs @ [p]) = xs @ [p]"
      using srt p by (intro filter_True) (auto simp: sorted_append)
    moreover have "0 \<le> sum_list (map snd (filter (\<lambda>x. x \<le> (fst p, 1)) ys))"
    proof (rule sum_list_nonneg)
      fix d assume "d \<in> set (map snd (filter (\<lambda>x. x \<le> (fst p, 1)) ys))"
      then obtain x where x: "x \<in> set ys" "x \<le> (fst p, 1)" "d = snd x" by auto
      have "p \<le> x" using srt x(1) by (simp add: sorted_append)
      then have "x = p" using x(2) p by simp
      then show "0 \<le> d" using x(3) up by simp
    qed
    moreover have "filter (\<lambda>x. x \<le> (fst p, 1)) ?S
        = filter (\<lambda>x. x \<le> (fst p, 1)) (xs @ [p]) @ filter (\<lambda>x. x \<le> (fst p, 1)) ys"
      unfolding snoc.prems by (simp only: filter_append)
    ultimately have "sum_list (map snd (xs @ [p])) \<le> sum_list (map snd (filter (\<lambda>x. x \<le> (fst p, 1)) ?S))"
      by (simp only: map_append sum_list_append)
    also have "\<dots> = sum_list (map snd (filter (\<lambda>x. x \<le> (fst p, 1)) (concurrency_points q es)))"
      by (rule mset_sum_list) simp
    also have "\<dots> \<le> b" unfolding points_until by (rule all)
    finally show ?thesis .
  qed
qed

lemma peak_bound:
  assumes "\<And>now. int (length (filter (occupies q now) es)) \<le> b"
  shows "peak_concurrency es q \<le> b"
  unfolding peak_concurrency_def
proof (rule peak_loop_bound)
  show "0 + sum_list (map snd xs) \<le> b" if "sort (concurrency_points q es) = xs @ ys" for xs ys
    using prefix_bound [OF assms that] by simp
  show "0 \<le> b" using assms [of 0] by (metis of_nat_0_le_iff order_trans)
qed

lemma concurrency_ok:
  assumes aud: "audited g env policy r cx L st M a"
  shows "ic_passed (check_concurrency a)"
proof -
  note f = audited_facts [OF aud]
  have one: "1 \<le> re_max_parallelism env"
    using envelope_okD(5) [OF result_facts(16) [OF f(1)]] by simp
  have any: "int (length (filter (occupies q now) (sr_entries r))) \<le> re_max_parallelism env" for q now
  proof -
    have "length (filter (occupies q now) (sr_entries r))
        \<le> length (filter (\<lambda>e. se_start_ms e \<le> now \<and> now < se_end_ms e) (sr_entries r))"
      by (rule length_filter_mono) (auto simp: occupies_def)
    with result_concurrency(1) [OF f(1), of now] one show ?thesis by (auto split: if_splits)
  qed
  have "int (length (filter (occupies (Some p) now) (sr_entries r))) \<le> provider_limit env p" for p now
  proof -
    have "filter (occupies (Some p) now) (sr_entries r)
        = filter (\<lambda>e. se_provider e = p \<and> se_start_ms e \<le> now \<and> now < se_end_ms e) (sr_entries r)"
      by (rule filter_cong) (auto simp: occupies_def)
    with result_concurrency(2) [OF f(1), where q = p and now = now] show ?thesis by simp
  qed
  with any have "peak_concurrency (sr_entries r) q \<le> re_max_parallelism env"
    "peak_concurrency (sr_entries r) (Some p) \<le> min (provider_limit env p) (re_max_parallelism env)" for q p
    by (auto intro!: peak_bound)
  then show ?thesis
    by (auto simp: check_concurrency_def check_def Let_def f(3,7) provider_peaks_def list_all_iff)
qed

section \<open>Effects, resources and bounds\<close>

lemma conflict_pairs_Nil:
  "(\<And>x y. x \<in> set es \<Longrightarrow> y \<in> set es \<Longrightarrow> x \<noteq> y \<Longrightarrow> \<not> effects_collide a x y) \<Longrightarrow> distinct es \<Longrightarrow> conflict_pairs a es = []"
  by (induction es) (auto simp: filter_empty_conv)

lemma effects_ok:
  assumes aud: "audited g env policy r cx L st M a"
    and pure: "\<forall>t \<in> set g. ef_kind (tc_effect t) = PURE \<longrightarrow> ef_resource (tc_effect t) = []"
  shows "ic_passed (check_effects a)"
proof -
  note f = audited_facts [OF aud] and rf = result_facts [OF audited_facts(1) [OF aud]]
  let ?es = "filter (\<lambda>e. ef_resource (tc_effect (audit_task a (se_task_id e))) \<noteq> []) (au_valid a)"
  have "\<not> effects_collide a x y" if x: "x \<in> set ?es" and y: "y \<in> set ?es" and neq: "x \<noteq> y" for x y
  proof -
    have xe: "x \<in> set (sr_entries r)" and ye: "y \<in> set (sr_entries r)" using x y f(7) by simp_all
    obtain k where k: "k \<in> set L" "x = final_entry (ss_completed st) (ss_time_ms st) k"
      "audit_task a (se_task_id x) = la_task k" "la_task k \<in> set g" by (rule audited_entry [OF aud xe])
    obtain l where l: "l \<in> set L" "y = final_entry (ss_completed st) (ss_time_ms st) l"
      "audit_task a (se_task_id y) = la_task l" "la_task l \<in> set g" by (rule audited_entry [OF aud ye])
    have "k \<noteq> l" using neq k(2) l(2) by auto
    then have "compatible k l" using rf(5) k(1) l(1) by (simp add: good_def law_inv_def effects_inv_def)
    moreover have "se_end_ms x \<le> la_end k" "se_end_ms y \<le> la_end l" "se_start_ms x = la_start k" "se_start_ms y = la_start l"
      using entry_end(2) [OF f(1) k(1)] entry_end(2) [OF f(1) l(1)] k(2) l(2) by simp_all
    moreover have "la_resource k \<noteq> []" using x k(3) by (simp add: la_resource_def)
    moreover have "la_kind k = PURE \<Longrightarrow> la_resource k = []" "la_kind l = PURE \<Longrightarrow> la_resource l = []"
      using pure k(4) l(4) by (simp_all add: la_resource_def la_kind_def)
    ultimately show ?thesis
      by (auto simp: effects_collide_def Let_def k(3) l(3) compatible_def la_resource_def la_kind_def)
  qed
  moreover have "distinct ?es" using f(7,12) by (simp add: distinct_map)
  ultimately have "conflict_pairs a ?es = []" by (rule conflict_pairs_Nil)
  then show ?thesis by (simp add: check_effects_def check_def)
qed

lemma resources_ok:
  assumes aud: "audited g env policy r cx L st M a"
  shows "ic_passed (check_accounting a)" and "ic_passed (check_caps a)"
proof -
  note f = audited_facts [OF aud] and rf = result_facts [OF audited_facts(1) [OF aud]]
  have "totals_inv cx (L, st)" using rf(5) by (simp add: good_def law_inv_def)
  with rf(3,7,10) mset_sum_list [OF rf(9)]
  have "sum_list (map se_tokens (sr_entries r)) = sr_total_tokens r \<and> sr_total_tokens r \<le> re_max_tokens env
    \<and> sum_list (map se_cost_microusd (sr_entries r)) = sr_total_cost_microusd r
    \<and> sr_total_cost_microusd r \<le> re_max_cost_microusd env
    \<and> sum_list (map se_context_bytes (sr_entries r)) = sr_total_context_bytes r
    \<and> sr_total_context_bytes r \<le> re_max_context_bytes env"
    by (simp add: totals_inv_def outcome_def o_def)
  then show "ic_passed (check_accounting a)" "ic_passed (check_caps a)"
    by (simp_all add: check_accounting_def check_caps_def check_def Let_def f(3,4))
qed

lemma bound_ok:
  assumes aud: "audited g env policy r cx L st M a"
  obtains b where "recomputed_bound a = Inr b" and "ic_passed (check_model_bound a b)" and "ic_passed (check_run_deadline a)"
proof -
  note f = audited_facts [OF aud] and rf = result_facts [OF audited_facts(1) [OF aud]]
  have now: "sr_makespan_ms r = ss_time_ms st" using rf(7) by (simp add: outcome_def)
  have pos: "0 < re_max_parallelism env" "0 < provider_capacity env q" for q
    using envelope_okD(5) [OF rf(16)] provider_limit_pos [OF rf(16), of q] by (simp_all add: provider_capacity_def)
  have "dmem i (dict_of (map (\<lambda>e. (se_task_id e, se_provider e)) (sr_entries r)))"
    if "dmem i (dict_of (map (\<lambda>e. (se_task_id e, se_end_ms e - se_start_ms e)) (sr_entries r)))" for i
    using that by (auto simp: dmem_def dget_dict_of map_of_eq_None_iff image_image)
  from duration_lower_bound_ok [OF rf(15) this, where env = env] obtain b where b: "entry_lower_bound g (sr_entries r) env = Inr b"
    by (auto simp: entry_lower_bound_def)
  have "model_bound g (sr_entries r) env = Inr b"
  proof (cases "sr_entries r = []")
    case True
    with b show ?thesis by (simp add: model_bound_def entry_lower_bound_def dict_of_def duration_lower_bound_def)
  next
    case False
    with b pos(1) show ?thesis by (simp add: model_bound_def list_ex_iff less_imp_neq [OF pos(2), symmetric])
  qed
  then have "recomputed_bound a = Inr b" by (simp add: recomputed_bound_def identity_ok [OF aud] f(2,3,7))
  moreover have "ic_passed (check_model_bound a b)"
    using rf(2,3,7) b by (auto simp: check_model_bound_def check_def Let_def f(4) outcome_def)
  moreover have "ic_passed (check_run_deadline a)"
    using rf(3,5) by (simp add: check_run_deadline_def check_def Let_def f(3,4) now good_def in_time_def)
  ultimately show ?thesis by (rule that)
qed

section \<open>Reliability\<close>

lemma unit_failure: "profile_ok p \<Longrightarrow> unit_float (1 - bp_failure_probability p)"
  using profile_okD(7,8) [of p] by (simp add: unit_float_def float_one_minus)

text \<open>
  The probability of a result is the product over its entries, up to the rounding of two products of the
  same factors in different orders.
\<close>

lemma reliability_close:
  assumes r: "result_of g env policy r cx L st M"
  shows "\<bar>rat_of_float (summed_success r) - rat_of_float (sr_modeled_success_probability r)\<bar>
    \<le> of_nat (length (sr_entries r)) / 2 ^ 53"
proof -
  note f = result_facts [OF r]
  let ?p = "\<lambda>l. 1 - bp_failure_probability (la_profile l)"
  have "totals_inv cx (L, st)" using f(5) by (simp add: good_def law_inv_def)
  then have modeled: "sr_modeled_success_probability r = foldl (*) 1 (map ?p L)"
    using f(7) by (simp add: totals_inv_def outcome_def foldl_map)
  have entries: "summed_success r = foldl (*) 1 (map ?p M)"
    by (simp add: summed_success_def f(10) foldl_map)
  have "mset (map ?p M) = mset (map ?p L)" by (simp add: f(9))
  moreover have "\<forall>p \<in> set (map ?p M). unit_float p"
    using launch_profile_ok [OF f(1,6)] f(8) by (auto intro: unit_failure)
  ultimately show ?thesis unfolding modeled entries using products_close f(10) by fastforce
qed

lemma reliability_isclose:
  assumes r: "result_of g env policy r cx L st M" and "length (sr_entries r) \<le> 9000"
  shows "isclose (summed_success r) (sr_modeled_success_probability r) (float_of (1 / 10 ^ 12))"
proof (rule isclose_near)
  have "(of_nat (length (sr_entries r)) :: rat) \<le> of_nat 9000" using assms(2) by (rule of_nat_mono)
  then have "of_nat (length (sr_entries r)) / 2 ^ 53 \<le> (1 / 10 ^ 12 :: rat)" by (simp add: field_simps)
  with reliability_close [OF r] 
  show "\<bar>rat_of_float (summed_success r) - rat_of_float (sr_modeled_success_probability r)\<bar> \<le> 1 / 10 ^ 12" by linarith
qed

lemma reliability_check:
  assumes aud: "audited g env policy r cx L st M a"
  shows "ic_passed (check_reliability a) \<longleftrightarrow>
      isclose (summed_success r) (sr_modeled_success_probability r) (float_of (1 / 10 ^ 12))
      \<and> (sr_success r \<longrightarrow> re_min_success env \<le> summed_success r)"
  by (auto simp: check_reliability_def check_def Let_def audited_facts(3,4) [OF aud])

text \<open>A modeled probability that clears the floor by the rounding error keeps the product of the entries above it.\<close>

lemma floor_cleared:
  assumes "result_of g env policy r cx L st M"
    and "rat_of_float p + of_nat (length (sr_entries r)) / 2 ^ 53 \<le> rat_of_float (sr_modeled_success_probability r)"
  shows "p \<le> summed_success r"
  using reliability_close [OF assms(1)] assms(2) unfolding float_le_iff by linarith

section \<open>Properties\<close>

lemma check_names [simp]: "ic_name (check n p e) = n"
  by (simp add: check_def)

text \<open>
  C1. The scheduler satisfies its auditor. For every graph, envelope and policy, \<open>verify_conservation\<close>
  raises nothing on the result of \<open>schedule\<close>, and every one of its eighteen checks passes, with the
  possible exception of \<open>modeled-reliability\<close>. That check multiplies the success probabilities of the entries in
  another order than the scheduler did: the two binary64 products differ by at most \<open>2 ^ - 53\<close> per entry, so that up to 9000
  entries they are always close for the check, and the audit fails only if the product of the entries falls below
  the success floor of a successful run; it passes whenever the modeled probability clears the floor by that
  rounding error. The graph must not declare a pure effect with a resource: the scheduler exempts those from
  serialization, the auditor does not.
\<close>

theorem schedule_passes_audit:
  assumes "schedule g env policy = Some (Inr r)"
    and "\<forall>t \<in> set g. ef_kind (tc_effect t) = PURE \<longrightarrow> ef_resource (tc_effect t) = []"
  shows "\<exists>report. verify_conservation g env r = Inr report \<and> length (cr_checks report) = 18
    \<and> (\<forall>c \<in> set (cr_checks report). ic_name c \<noteq> ''modeled-reliability'' \<longrightarrow> ic_passed c)
    \<and> (cr_passed report \<longleftrightarrow>
         isclose (summed_success r) (sr_modeled_success_probability r) (float_of (1 / 10 ^ 12))
         \<and> (sr_success r \<longrightarrow> re_min_success env \<le> summed_success r))
    \<and> \<bar>rat_of_float (summed_success r) - rat_of_float (sr_modeled_success_probability r)\<bar>
         \<le> of_nat (length (sr_entries r)) / 2 ^ 53
    \<and> (length (sr_entries r) \<le> 9000 \<longrightarrow>
         (cr_passed report \<longleftrightarrow> (sr_success r \<longrightarrow> re_min_success env \<le> summed_success r))
         \<and> ((sr_success r \<longrightarrow> rat_of_float (re_min_success env) + of_nat (length (sr_entries r)) / 2 ^ 53
                \<le> rat_of_float (sr_modeled_success_probability r)) \<longrightarrow> cr_passed report))"
proof -
  obtain cx L st M where r: "result_of g env policy r cx L st M" by (rule result_run [OF assms(1)])
  obtain a where aud: "audited g env policy r cx L st M a" by (rule audit_exists [OF r])
  obtain b where b: "recomputed_bound a = Inr b" "ic_passed (check_model_bound a b)" "ic_passed (check_run_deadline a)"
    by (rule bound_ok [OF aud])
  note ok = entry_checks [OF aud] event_order_ok [OF aud] event_identity_ok [OF aud] run_lifecycle_ok [OF aud]
    task_lifecycle_ok [OF aud] skip_ok [OF aud] dependency_ok [OF aud] completeness_ok [OF aud]
    resources_ok [OF aud] concurrency_ok [OF aud] effects_ok [OF aud assms(2)] b(2,3)
  have v: "verify_conservation g env r = Inr \<lparr>cr_passed = list_all ic_passed (audit_checks a b),
      cr_trace_digest = content_digest (schedule_as_dict r), cr_checks = audit_checks a b\<rparr>"
    using aud b(1) by (simp add: verify_conservation_def audited_def)
  have all: "list_all ic_passed (audit_checks a b) \<longleftrightarrow> ic_passed (check_reliability a)"
    "\<forall>c \<in> set (audit_checks a b). ic_name c \<noteq> ''modeled-reliability'' \<longrightarrow> ic_passed c"
    "length (audit_checks a b) = 18"
    using ok by (simp_all add: audit_checks_def check_reliability_def Let_def)
  show ?thesis
    unfolding v using all reliability_check [OF aud] reliability_close [OF r] reliability_isclose [OF r]
      floor_cleared [OF r, of "re_min_success env"] by auto
qed

theorem schedule_passes_audit_witness:
  "\<exists>report. verify_conservation sample_graph sample_envelope sample_result = Inr report \<and> length (cr_checks report) = 18
     \<and> \<bar>rat_of_float (summed_success sample_result) - rat_of_float (sr_modeled_success_probability sample_result)\<bar>
         \<le> of_nat (length (sr_entries sample_result)) / 2 ^ 53"
proof -
  have "\<forall>t \<in> set sample_graph. ef_kind (tc_effect t) = PURE \<longrightarrow> ef_resource (tc_effect t) = []"
    by (simp add: sample_graph_def sample_task_def)
  from schedule_passes_audit [OF sample_schedule(1) this] show ?thesis by blast
qed

section \<open>The exemption of pure effects\<close>

text \<open>A task declared pure on the resource another task writes.\<close>

definition writer_task :: "string \<Rightarrow> task_contract" where
  "writer_task n = (sample_task n [])
     \<lparr>tc_effect := \<lparr>ef_kind = IDEMPOTENT_WRITE, ef_resource = ''db'', ef_requires_approval = False,
        ef_idempotency_key = Some ''k'', ef_compensation = None\<rparr>\<rparr>"

definition pure_task :: "string \<Rightarrow> task_contract" where
  "pure_task n = (sample_task n [])
     \<lparr>tc_effect := \<lparr>ef_kind = PURE, ef_resource = ''db'', ef_requires_approval = False, ef_idempotency_key = None,
        ef_compensation = None\<rparr>\<rparr>"

definition exempt_graph :: execution_graph where
  "exempt_graph = [writer_task ''a'', pure_task ''b'']"

lemma exempt_audit:
  "(case schedule exempt_graph sample_envelope ADAPTIVE of
      Some (Inr r) \<Rightarrow>
        (case audit_of exempt_graph sample_envelope r of
           Inr a \<Rightarrow> sr_success r \<and> \<not> ic_passed (check_effects a) \<and> (case recomputed_bound a of Inr b \<Rightarrow> True | Inl e \<Rightarrow> False)
         | Inl e \<Rightarrow> False)
    | _ \<Rightarrow> False)"
  by code_simp

text \<open>
  C33. The two modules disagree on pure effects: there is a graph that passes validation, whose schedule
  succeeds, and whose schedule \<open>verify_conservation\<close> rejects, because a task declared pure on a
  resource runs beside a writer of that resource.
\<close>

theorem pure_exemption_fails_audit:
  "\<exists>g env r report. graph_validate g = Inr () \<and> schedule g env ADAPTIVE = Some (Inr r) \<and> sr_success r
    \<and> verify_conservation g env r = Inr report \<and> \<not> cr_passed report
    \<and> (\<exists>c \<in> set (violations report). ic_name c = ''effect-serialization'')"
proof -
  from exempt_audit obtain r a b where r: "schedule exempt_graph sample_envelope ADAPTIVE = Some (Inr r)" "sr_success r"
    and a: "audit_of exempt_graph sample_envelope r = Inr a" "\<not> ic_passed (check_effects a)"
    and b: "recomputed_bound a = Inr b"
    by (auto split: option.splits sum.splits)
  have valid: "graph_validate exempt_graph = Inr ()"
    using schedule_valid(1) [OF r(1)] by (simp add: graph_ok_def)
  define report where "report = \<lparr>cr_passed = list_all ic_passed (audit_checks a b),
      cr_trace_digest = content_digest (schedule_as_dict r), cr_checks = audit_checks a b\<rparr>"
  have v: "verify_conservation exempt_graph sample_envelope r = Inr report"
    using a(1) b by (simp add: verify_conservation_def report_def)
  have mem: "check_effects a \<in> set (audit_checks a b)" by (simp add: audit_checks_def)
  then have "\<not> list_all ic_passed (audit_checks a b)" using a(2) by (meson list_all_iff)
  then have failed: "\<not> cr_passed report" by (simp add: report_def)
  have "check_effects a \<in> set (violations report)" using mem a(2) by (simp add: report_def violations_def)
  moreover have "ic_name (check_effects a) = ''effect-serialization''" by (simp add: check_effects_def Let_def)
  ultimately have "\<exists>c \<in> set (violations report). ic_name c = ''effect-serialization''" by blast
  with valid r v failed show ?thesis by blast
qed

end
