(* ===== verification/Adapter_Caps.thy ===== *)
theory Adapter_Caps
  imports Contracts
begin

text \<open>
  \<open>src/agent_physics/adapter_capabilities.py\<close>: the admission check that binds tasks with declared
  adapter requirements to workers, and the manifest view \<open>AdapterCapabilities.as_dict\<close>.

  A worker is known here only by its \<open>adapter_capabilities\<close> attribute: \<open>None\<close> when it has none or when
  the attribute is not exactly an \<open>AdapterCapabilities\<close>. \<open>AdapterCapabilityError\<close> is a subclass of
  \<open>ValueError\<close> and is represented by it.
\<close>

section \<open>Ranks and manifests\<close>

fun cancellation_rank :: "cancellation_semantics \<Rightarrow> nat" where
  "cancellation_rank CancellationNone = 0"
| "cancellation_rank CancellationCooperative = 1"
| "cancellation_rank CancellationHard = 2"

fun checkpoint_rank :: "checkpoint_semantics \<Rightarrow> nat" where
  "checkpoint_rank CheckpointNone = 0"
| "checkpoint_rank CheckpointReceipt = 1"
| "checkpoint_rank CheckpointResumable = 2"

fun usage_rank :: "usage_semantics \<Rightarrow> nat" where
  "usage_rank UsageNone = 0"
| "usage_rank UsageEstimated = 1"
| "usage_rank UsageProviderReported = 2"

fun cancellation_value :: "cancellation_semantics \<Rightarrow> string" where
  "cancellation_value CancellationNone = ''none''"
| "cancellation_value CancellationCooperative = ''cooperative''"
| "cancellation_value CancellationHard = ''hard''"

fun checkpoint_value :: "checkpoint_semantics \<Rightarrow> string" where
  "checkpoint_value CheckpointNone = ''none''"
| "checkpoint_value CheckpointReceipt = ''receipt''"
| "checkpoint_value CheckpointResumable = ''resumable''"

fun usage_value :: "usage_semantics \<Rightarrow> string" where
  "usage_value UsageNone = ''none''"
| "usage_value UsageEstimated = ''estimated''"
| "usage_value UsageProviderReported = ''provider_reported''"

definition capabilities_as_dict :: "adapter_capabilities \<Rightarrow> json" where
  "capabilities_as_dict c =
     JObj [(''schema_version'', JStr (ac_schema_version c)), (''adapter_id'', JStr (ac_adapter_id c)),
           (''adapter_version'', JStr (ac_adapter_version c)), (''provider'', JStr (ac_provider c)),
           (''cancellation'', JStr (cancellation_value (ac_cancellation c))),
           (''checkpoint'', JStr (checkpoint_value (ac_checkpoint c))), (''streaming'', JBool (ac_streaming c)),
           (''usage'', JStr (usage_value (ac_usage c))),
           (''supported_effects'', JArr (map (\<lambda>k. JStr (effect_value k)) (ac_supported_effects c))),
           (''effect_fencing'', JBool (ac_effect_fencing c)), (''hidden_retries_max'', JInt (ac_hidden_retries_max c))]"

section \<open>Binding\<close>

record worker =
  wk_adapter_capabilities :: "adapter_capabilities option"

definition worker_capabilities :: "worker \<Rightarrow> adapter_capabilities option" where
  "worker_capabilities w = wk_adapter_capabilities w"

text \<open>The errors of one binding whose manifest is itself well formed, in the order of the source.\<close>

definition binding_errors ::
  "string \<Rightarrow> effect_class \<Rightarrow> adapter_requirements \<Rightarrow> adapter_capabilities \<Rightarrow> string \<Rightarrow> string list" where
  "binding_errors task_id kind q c provider =
     err (ac_provider c \<noteq> provider)
       (task_error task_id (''adapter provider '' @ py_repr (ac_provider c) @ '' does not match selected provider ''
          @ py_repr provider))
     @ err (cancellation_rank (ac_cancellation c) < cancellation_rank (ar_cancellation q))
         (task_error task_id ''adapter cancellation semantics are insufficient'')
     @ err (checkpoint_rank (ac_checkpoint c) < checkpoint_rank (ar_checkpoint q))
         (task_error task_id ''adapter checkpoint semantics are insufficient'')
     @ err (ar_streaming q \<and> \<not> ac_streaming c) (task_error task_id ''adapter does not support required streaming'')
     @ err (usage_rank (ac_usage c) < usage_rank (ar_usage q))
         (task_error task_id ''adapter usage semantics are insufficient'')
     @ err (ar_effect_fencing q \<and> \<not> ac_effect_fencing c)
         (task_error task_id ''adapter does not support required effect fencing'')
     @ err (ac_hidden_retries_max c > ar_max_hidden_retries q)
         (task_error task_id ''adapter hidden retry bound exceeds task requirement'')
     @ err (kind \<notin> set (ac_supported_effects c))
         (task_error task_id (''adapter does not declare '' @ py_repr (effect_value kind) @ '' support''))"

text \<open>One task of the loop: what it adds to \<open>accepted\<close> and to \<open>errors\<close>.\<close>

definition bind_task ::
  "string \<Rightarrow> task_contract \<Rightarrow> backend_profile \<Rightarrow> worker option \<Rightarrow> adapter_capabilities option \<times> string list" where
  "bind_task task_id t p w =
     (case tc_adapter_requirements t of
        None \<Rightarrow> (None, [])
      | Some q \<Rightarrow>
          if writes (ef_kind (tc_effect t)) then (None, [])
          else case Option.bind w worker_capabilities of
            None \<Rightarrow> (None, [task_error task_id ''worker has no finite adapter capability manifest''])
          | Some c \<Rightarrow>
              let bad = validate_adapter_capabilities c
              in if bad \<noteq> [] then (None, map (task_error task_id) bad)
                 else (Some c, binding_errors task_id (ef_kind (tc_effect t)) q c (bp_provider p)))"

fun binding_loop ::
  "(string, task_contract) dict \<Rightarrow> (string, backend_profile) dict \<Rightarrow> (string, worker) dict \<Rightarrow> string list
    \<Rightarrow> (string, adapter_capabilities) dict \<Rightarrow> string list
    \<Rightarrow> py_error + ((string, adapter_capabilities) dict \<times> string list)" where
  "binding_loop tasks profiles workers [] accepted errors = Inr (accepted, errors)"
| "binding_loop tasks profiles workers (i # is) accepted errors =
     (case dget tasks i of
        None \<Rightarrow> Inl (KeyError i)
      | Some t \<Rightarrow>
          let (c, bad) = bind_task i t (the (dget profiles i)) (dget workers i)
          in binding_loop tasks profiles workers is
               (case c of None \<Rightarrow> accepted | Some caps \<Rightarrow> dset i caps accepted) (errors @ bad))"

definition validate_adapter_bindings ::
  "(string, task_contract) dict \<Rightarrow> (string, backend_profile) dict \<Rightarrow> (string, worker) dict
    \<Rightarrow> py_error + (string, adapter_capabilities) dict" where
  "validate_adapter_bindings tasks profiles workers =
     (case binding_loop tasks profiles workers (sort (dkeys profiles)) [] [] of
        Inl e \<Rightarrow> Inl e
      | Inr (accepted, errors) \<Rightarrow> if errors \<noteq> [] then Inl (ValueError (semicolon_join errors)) else Inr accepted)"

section \<open>What admission guarantees\<close>

text \<open>A capability manifest that offers at least what a task asks for.\<close>

definition adapter_adequate ::
  "effect_class \<Rightarrow> adapter_requirements \<Rightarrow> adapter_capabilities \<Rightarrow> string \<Rightarrow> bool" where
  "adapter_adequate kind q c provider \<longleftrightarrow>
     ac_provider c = provider \<and> cancellation_rank (ar_cancellation q) \<le> cancellation_rank (ac_cancellation c)
     \<and> checkpoint_rank (ar_checkpoint q) \<le> checkpoint_rank (ac_checkpoint c)
     \<and> usage_rank (ar_usage q) \<le> usage_rank (ac_usage c)
     \<and> (ar_streaming q \<longrightarrow> ac_streaming c) \<and> (ar_effect_fencing q \<longrightarrow> ac_effect_fencing c)
     \<and> ac_hidden_retries_max c \<le> ar_max_hidden_retries q \<and> kind \<in> set (ac_supported_effects c)"

lemma binding_errors_Nil: "binding_errors i kind q c provider = [] \<longleftrightarrow> adapter_adequate kind q c provider"
  by (auto simp: binding_errors_def adapter_adequate_def)

definition must_bind :: "task_contract \<Rightarrow> bool" where
  "must_bind t \<longleftrightarrow> tc_adapter_requirements t \<noteq> None \<and> \<not> writes (ef_kind (tc_effect t))"

definition bound_well :: "task_contract \<Rightarrow> backend_profile \<Rightarrow> worker option \<Rightarrow> adapter_capabilities \<Rightarrow> bool" where
  "bound_well t p w c \<longleftrightarrow>
     Option.bind w worker_capabilities = Some c \<and> validate_adapter_capabilities c = []
     \<and> adapter_adequate (ef_kind (tc_effect t)) (the (tc_adapter_requirements t)) c (bp_provider p)"

lemma bind_task_idle: "\<not> must_bind t \<Longrightarrow> bind_task i t p w = (None, [])"
  by (auto simp: bind_task_def must_bind_def split: option.splits)

lemma bind_task_ok: "must_bind t \<Longrightarrow> bound_well t p w c \<Longrightarrow> bind_task i t p w = (Some c, [])"
  by (auto simp: bind_task_def must_bind_def bound_well_def binding_errors_Nil Let_def)

lemma bind_task_clean:
  assumes "must_bind t" and "snd (bind_task i t p w) = []"
  shows "\<exists>c. bound_well t p w c"
  using assms
  by (auto simp: bind_task_def must_bind_def bound_well_def binding_errors_Nil Let_def split: option.splits if_splits)

text \<open>The loop ends without an error exactly when every task is known and every obligation is met.\<close>

lemma binding_loop_errors:
  "binding_loop tasks profiles workers is accepted errors = Inr (accepted', errors') \<Longrightarrow>
    \<exists>more. errors' = errors @ more
      \<and> (more = [] \<longrightarrow> (\<forall>i \<in> set is. \<exists>t. dget tasks i = Some t
            \<and> (must_bind t \<longrightarrow> (\<exists>c. bound_well t (the (dget profiles i)) (dget workers i) c))))"
proof (induction "is" arbitrary: accepted errors)
  case Nil
  then show ?case by simp
next
  case (Cons i "is")
  then obtain t where t: "dget tasks i = Some t" by (auto split: option.splits)
  let ?b = "bind_task i t (the (dget profiles i)) (dget workers i)"
  from Cons.prems t have "binding_loop tasks profiles workers is
      (case fst ?b of None \<Rightarrow> accepted | Some caps \<Rightarrow> dset i caps accepted) (errors @ snd ?b) = Inr (accepted', errors')"
    by (simp add: case_prod_beta)
  from Cons.IH [OF this] obtain more where
    m: "errors' = (errors @ snd ?b) @ more"
    and ok: "more = [] \<longrightarrow> (\<forall>i \<in> set is. \<exists>t. dget tasks i = Some t
            \<and> (must_bind t \<longrightarrow> (\<exists>c. bound_well t (the (dget profiles i)) (dget workers i) c)))" by blast
  show ?case
  proof (intro exI [of _ "snd ?b @ more"] conjI impI)
    show "errors' = errors @ (snd ?b @ more)" using m by simp
    assume "snd ?b @ more = []"
    with ok t bind_task_clean [of t i] show "\<forall>j \<in> set (i # is). \<exists>t. dget tasks j = Some t
        \<and> (must_bind t \<longrightarrow> (\<exists>c. bound_well t (the (dget profiles j)) (dget workers j) c))" by auto
  qed
qed

lemma binding_loop_complete:
  assumes "\<forall>i \<in> set is. \<exists>t. dget tasks i = Some t
      \<and> (must_bind t \<longrightarrow> (\<exists>c. bound_well t (the (dget profiles i)) (dget workers i) c))"
  shows "\<exists>accepted'. binding_loop tasks profiles workers is accepted errors = Inr (accepted', errors)
    \<and> (\<forall>i. dget accepted' i =
         (if i \<in> set is \<and> must_bind (the (dget tasks i)) then Option.bind (dget workers i) worker_capabilities
          else dget accepted i))"
  using assms
proof (induction "is" arbitrary: accepted)
  case Nil
  then show ?case by simp
next
  case (Cons i "is")
  from Cons.prems obtain t where t: "dget tasks i = Some t"
    and c: "must_bind t \<longrightarrow> (\<exists>c. bound_well t (the (dget profiles i)) (dget workers i) c)" by auto
  let ?next = "if must_bind t then dset i (the (Option.bind (dget workers i) worker_capabilities)) accepted else accepted"
  have rest: "\<forall>i \<in> set is. \<exists>t. dget tasks i = Some t
      \<and> (must_bind t \<longrightarrow> (\<exists>c. bound_well t (the (dget profiles i)) (dget workers i) c))" using Cons.prems by simp
  have step: "binding_loop tasks profiles workers (i # is) accepted errors = binding_loop tasks profiles workers is ?next errors"
  proof (cases "must_bind t")
    case True
    with c obtain k where k: "bound_well t (the (dget profiles i)) (dget workers i) k" by blast
    have "Option.bind (dget workers i) worker_capabilities = Some k" using k by (simp add: bound_well_def)
    with bind_task_ok [OF True k] True t show ?thesis by simp
  qed (simp add: t bind_task_idle)
  have here: "dget ?next i = (if must_bind t then Option.bind (dget workers i) worker_capabilities else dget accepted i)"
    using c by (auto simp: dget_dset bound_well_def)
  have other: "dget ?next j = dget accepted j" if "j \<noteq> i" for j using that by (simp add: dget_dset)
  from Cons.IH [OF rest, of ?next] obtain accepted' where
    a: "binding_loop tasks profiles workers is ?next errors = Inr (accepted', errors)"
      "\<forall>j. dget accepted' j = (if j \<in> set is \<and> must_bind (the (dget tasks j))
         then Option.bind (dget workers j) worker_capabilities else dget ?next j)" by blast
  have "dget accepted' j = (if j \<in> set (i # is) \<and> must_bind (the (dget tasks j))
      then Option.bind (dget workers j) worker_capabilities else dget accepted j)" for j
    using a(2) here other [of j] t by (cases "j = i") auto
  with a(1) step show ?case by auto
qed

text \<open>
  C37. Admission is exact, and it exempts writers: \<open>validate_adapter_bindings\<close> returns a result if and only if every selected task
  is known and every task that declares requirements and does not write is bound to a worker whose
  manifest is well formed and offers at least what the task asks for; the result then maps exactly those
  tasks to the manifests of their workers. The requirements of a task whose effect writes are not looked at: if every selected task
  writes or asks for nothing, the answer is the empty mapping, whatever the workers are.
\<close>

theorem adapter_admission_exact:
  "((\<exists>accepted. validate_adapter_bindings tasks profiles workers = Inr accepted) \<longleftrightarrow>
      (\<forall>i. dmem i profiles \<longrightarrow> (\<exists>t. dget tasks i = Some t
         \<and> (must_bind t \<longrightarrow> (\<exists>c. bound_well t (the (dget profiles i)) (dget workers i) c)))))
   \<and> (\<forall>accepted i. validate_adapter_bindings tasks profiles workers = Inr accepted \<longrightarrow>
      dget accepted i = (if dmem i profiles \<and> must_bind (the (dget tasks i))
        then Option.bind (dget workers i) worker_capabilities else None))
   \<and> ((\<forall>i. dmem i profiles \<longrightarrow> (\<exists>t. dget tasks i = Some t
         \<and> (tc_adapter_requirements t = None \<or> writes (ef_kind (tc_effect t))))) \<longrightarrow>
      (\<exists>accepted. validate_adapter_bindings tasks profiles workers = Inr accepted \<and> (\<forall>i. dget accepted i = None)))"
proof -
  let ?ids = "sort (dkeys profiles)"
  let ?ok = "\<forall>i \<in> set ?ids. \<exists>t. dget tasks i = Some t
      \<and> (must_bind t \<longrightarrow> (\<exists>c. bound_well t (the (dget profiles i)) (dget workers i) c))"
  have keys: "set ?ids = {i. dmem i profiles}" by (auto simp: dmem_iff_key)
  have ok: "?ok" if "validate_adapter_bindings tasks profiles workers = Inr accepted" for accepted
    using that binding_loop_errors [of tasks profiles workers ?ids "[]" "[]"]
    by (fastforce simp: validate_adapter_bindings_def split: sum.splits prod.splits if_splits)
  have converse: "\<exists>a. validate_adapter_bindings tasks profiles workers = Inr a
      \<and> (\<forall>i. dget a i = (if i \<in> set ?ids \<and> must_bind (the (dget tasks i))
          then Option.bind (dget workers i) worker_capabilities else None))" if "?ok"
  proof -
    note complete = binding_loop_complete [OF that, of "[]" "[]"]
    then obtain a where "binding_loop tasks profiles workers ?ids [] [] = Inr (a, [])"
      "\<forall>i. dget a i = (if i \<in> set ?ids \<and> must_bind (the (dget tasks i))
         then Option.bind (dget workers i) worker_capabilities else dget [] i)"
      by blast
    then show ?thesis by (intro exI [of _ a]) (simp add: validate_adapter_bindings_def)
  qed
  have all: "?ok \<longleftrightarrow> (\<forall>i. dmem i profiles \<longrightarrow> (\<exists>t. dget tasks i = Some t
      \<and> (must_bind t \<longrightarrow> (\<exists>c. bound_well t (the (dget profiles i)) (dget workers i) c))))"
    unfolding keys by blast
  have "dget accepted i = (if dmem i profiles \<and> must_bind (the (dget tasks i))
      then Option.bind (dget workers i) worker_capabilities else None)"
    if v: "validate_adapter_bindings tasks profiles workers = Inr accepted" for accepted i
  proof -
    from converse [OF ok [OF v]] obtain a where a: "validate_adapter_bindings tasks profiles workers = Inr a"
      "\<forall>i. dget a i = (if i \<in> set ?ids \<and> must_bind (the (dget tasks i))
          then Option.bind (dget workers i) worker_capabilities else None)" by blast
    from a(1) v have "a = accepted" by simp
    with a(2) keys show ?thesis by simp
  qed
  moreover have "\<exists>accepted. validate_adapter_bindings tasks profiles workers = Inr accepted \<and> (\<forall>i. dget accepted i = None)"
    if exempt: "\<forall>i. dmem i profiles \<longrightarrow> (\<exists>t. dget tasks i = Some t
         \<and> (tc_adapter_requirements t = None \<or> writes (ef_kind (tc_effect t))))"
  proof -
    from exempt have free: "\<forall>i \<in> set ?ids. \<exists>t. dget tasks i = Some t \<and> \<not> must_bind t"
      unfolding keys must_bind_def by blast
    then have "?ok" by blast
    from converse [OF this] obtain a where a: "validate_adapter_bindings tasks profiles workers = Inr a"
      "\<forall>i. dget a i = (if i \<in> set ?ids \<and> must_bind (the (dget tasks i))
          then Option.bind (dget workers i) worker_capabilities else None)" by blast
    from a(2) free have "dget a i = None" for i by (cases "i \<in> set ?ids") auto
    with a(1) show ?thesis by blast
  qed
  ultimately show ?thesis using ok converse all by blast
qed

text \<open>A reading task that needs a receipt, and a worker that can give one.\<close>

definition sample_capabilities :: adapter_capabilities where
  "sample_capabilities = \<lparr>ac_adapter_id = ''a'', ac_adapter_version = ''1'', ac_provider = ''p'',
     ac_cancellation = CancellationHard, ac_checkpoint = CheckpointReceipt, ac_streaming = True,
     ac_usage = UsageEstimated, ac_supported_effects = [PURE, READ], ac_effect_fencing = False,
     ac_hidden_retries_max = 0, ac_schema_version = ''finite-adapter-capabilities/v1''\<rparr>"

definition reading_profile :: backend_profile where
  "reading_profile = \<lparr>bp_name = ''b'', bp_provider = ''p'', bp_duration_ms_p50 = 1, bp_duration_ms_p95 = 2,
     bp_input_tokens = 0, bp_output_tokens = 0, bp_cost_microusd = 0, bp_context_bytes = 0, bp_quality = 1,
     bp_failure_probability = 0, bp_profile_snapshot_digest = None, bp_cpu_time_ms = 0, bp_peak_memory_bytes = 0,
     bp_peak_vram_bytes = 0, bp_storage_read_bytes = 0, bp_storage_write_bytes = 0, bp_network_ingress_bytes = 0,
     bp_network_egress_bytes = 0, bp_min_bandwidth_bps = 0, bp_network_rtt_ms = 0, bp_egress_cost_microusd = 0\<rparr>"

definition reading_task :: task_contract where
  "reading_task = \<lparr>tc_task_id = ''t'', tc_profiles = [reading_profile], tc_dependencies = [],
     tc_effect = \<lparr>ef_kind = READ, ef_resource = ''db'', ef_requires_approval = False, ef_idempotency_key = None,
       ef_compensation = None\<rparr>,
     tc_optional = False, tc_value = 1, tc_min_quality = 0, tc_deadline_ms = None, tc_description = [],
     tc_input_ports = [], tc_output_ports = [],
     tc_adapter_requirements = Some \<lparr>ar_cancellation = CancellationNone, ar_checkpoint = CheckpointReceipt,
       ar_streaming = False, ar_usage = UsageNone, ar_effect_fencing = False, ar_max_hidden_retries = 0\<rparr>\<rparr>"

theorem adapter_admission_exact_witness:
  "\<exists>accepted. validate_adapter_bindings [(''t'', reading_task)] [(''t'', reading_profile)]
       [(''t'', \<lparr>wk_adapter_capabilities = Some sample_capabilities\<rparr>)] = Inr accepted
     \<and> dget accepted ''t'' = Some sample_capabilities"
proof -
  let ?w = "[(''t'', \<lparr>wk_adapter_capabilities = Some sample_capabilities\<rparr>)]"
  have bound: "bound_well reading_task reading_profile (dget ?w ''t'') sample_capabilities"
    by (simp add: bound_well_def worker_capabilities_def validate_adapter_capabilities_def adapter_adequate_def
        reading_task_def reading_profile_def sample_capabilities_def err_def)
  have must: "must_bind reading_task" by (simp add: must_bind_def reading_task_def writes_def)
  note exact = adapter_admission_exact [of "[(''t'', reading_task)]" "[(''t'', reading_profile)]" ?w]
  from bound have "\<forall>i. dmem i [(''t'', reading_profile)] \<longrightarrow> (\<exists>t. dget [(''t'', reading_task)] i = Some t
      \<and> (must_bind t \<longrightarrow> (\<exists>c. bound_well t (the (dget [(''t'', reading_profile)] i)) (dget ?w i) c)))"
    by (auto simp: dmem_def)
  with exact [THEN conjunct1] obtain accepted where
    a: "validate_adapter_bindings [(''t'', reading_task)] [(''t'', reading_profile)] ?w = Inr accepted" by blast
  from exact [THEN conjunct2, THEN conjunct1] a have "dget accepted ''t'' = (if dmem ''t'' [(''t'', reading_profile)]
      \<and> must_bind (the (dget [(''t'', reading_task)] ''t'')) then Option.bind (dget ?w ''t'') worker_capabilities else None)"
    by blast
  with must a show ?thesis by (simp add: dmem_def worker_capabilities_def)
qed

end
