(* ===== verification/Feasibility.thy ===== *)
theory Feasibility
  imports Conservation Adapter_Caps
begin

text \<open>
  \<open>src/agent_physics/feasibility.py\<close>: the preflight certificate, and the JSON views of graphs and
  envelopes whose digests it pins (what \<open>serialization.normalize\<close> makes of the dataclasses: one member
  per field, by its name).
\<close>

section \<open>JSON views of the contracts\<close>

definition effect_json :: "effect \<Rightarrow> json" where
  "effect_json e =
     JObj [(''kind'', JStr (effect_value (ef_kind e))), (''resource'', JStr (ef_resource e)),
           (''requires_approval'', JBool (ef_requires_approval e)),
           (''idempotency_key'', jopt JStr (ef_idempotency_key e)), (''compensation'', jopt JStr (ef_compensation e))]"

definition profile_json :: "backend_profile \<Rightarrow> json" where
  "profile_json p =
     JObj [(''name'', JStr (bp_name p)), (''provider'', JStr (bp_provider p)),
           (''duration_ms_p50'', JInt (bp_duration_ms_p50 p)), (''duration_ms_p95'', JInt (bp_duration_ms_p95 p)),
           (''input_tokens'', JInt (bp_input_tokens p)), (''output_tokens'', JInt (bp_output_tokens p)),
           (''cost_microusd'', JInt (bp_cost_microusd p)), (''context_bytes'', JInt (bp_context_bytes p)),
           (''quality'', JFloat (bp_quality p)), (''failure_probability'', JFloat (bp_failure_probability p)),
           (''profile_snapshot_digest'', jopt JStr (bp_profile_snapshot_digest p)),
           (''cpu_time_ms'', JInt (bp_cpu_time_ms p)), (''peak_memory_bytes'', JInt (bp_peak_memory_bytes p)),
           (''peak_vram_bytes'', JInt (bp_peak_vram_bytes p)), (''storage_read_bytes'', JInt (bp_storage_read_bytes p)),
           (''storage_write_bytes'', JInt (bp_storage_write_bytes p)),
           (''network_ingress_bytes'', JInt (bp_network_ingress_bytes p)),
           (''network_egress_bytes'', JInt (bp_network_egress_bytes p)),
           (''min_bandwidth_bps'', JInt (bp_min_bandwidth_bps p)), (''network_rtt_ms'', JInt (bp_network_rtt_ms p)),
           (''egress_cost_microusd'', JInt (bp_egress_cost_microusd p))]"

definition output_port_json :: "output_port \<Rightarrow> json" where
  "output_port_json p =
     JObj [(''name'', JStr (op_name p)), (''schema'', JStr (op_schema p)),
           (''schema_version'', JStr (op_schema_version p)), (''media_type'', JStr (op_media_type p))]"

definition input_port_json :: "input_port \<Rightarrow> json" where
  "input_port_json p =
     JObj [(''name'', JStr (ip_name p)), (''source_task_id'', JStr (ip_source_task_id p)),
           (''source_port'', JStr (ip_source_port p)), (''schema'', JStr (ip_schema p)),
           (''schema_version'', JStr (ip_schema_version p)), (''media_type'', JStr (ip_media_type p))]"

definition requirements_json :: "adapter_requirements \<Rightarrow> json" where
  "requirements_json q =
     JObj [(''cancellation'', JStr (cancellation_value (ar_cancellation q))),
           (''checkpoint'', JStr (checkpoint_value (ar_checkpoint q))), (''streaming'', JBool (ar_streaming q)),
           (''usage'', JStr (usage_value (ar_usage q))), (''effect_fencing'', JBool (ar_effect_fencing q)),
           (''max_hidden_retries'', JInt (ar_max_hidden_retries q))]"

definition task_json :: "task_contract \<Rightarrow> json" where
  "task_json t =
     JObj [(''task_id'', JStr (tc_task_id t)), (''profiles'', JArr (map profile_json (tc_profiles t))),
           (''dependencies'', JArr (map JStr (tc_dependencies t))), (''effect'', effect_json (tc_effect t)),
           (''optional'', JBool (tc_optional t)), (''value'', JFloat (tc_value t)),
           (''min_quality'', JFloat (tc_min_quality t)), (''deadline_ms'', jopt JInt (tc_deadline_ms t)),
           (''description'', JStr (tc_description t)), (''input_ports'', JArr (map input_port_json (tc_input_ports t))),
           (''output_ports'', JArr (map output_port_json (tc_output_ports t))),
           (''adapter_requirements'', jopt requirements_json (tc_adapter_requirements t))]"

definition graph_json :: "execution_graph \<Rightarrow> json" where
  "graph_json g = JObj [(''tasks'', JArr (map task_json g))]"

definition envelope_json :: "run_envelope \<Rightarrow> json" where
  "envelope_json env =
     JObj [(''deadline_ms'', JInt (re_deadline_ms env)), (''max_tokens'', JInt (re_max_tokens env)),
           (''max_cost_microusd'', JInt (re_max_cost_microusd env)),
           (''max_context_bytes'', JInt (re_max_context_bytes env)),
           (''max_parallelism'', JInt (re_max_parallelism env)),
           (''min_modeled_success_probability'', JFloat (re_min_success env)),
           (''provider_limits'', JArr (map (\<lambda>(p, n). JArr [JStr p, JInt n]) (re_provider_limits env))),
           (''max_cpu_time_ms'', JInt (re_max_cpu_time_ms env)),
           (''max_peak_memory_bytes'', JInt (re_max_peak_memory_bytes env)),
           (''max_peak_vram_bytes'', JInt (re_max_peak_vram_bytes env)),
           (''max_storage_read_bytes'', JInt (re_max_storage_read_bytes env)),
           (''max_storage_write_bytes'', JInt (re_max_storage_write_bytes env)),
           (''max_network_ingress_bytes'', JInt (re_max_network_ingress_bytes env)),
           (''max_network_egress_bytes'', JInt (re_max_network_egress_bytes env)),
           (''available_bandwidth_bps'', JInt (re_available_bandwidth_bps env)),
           (''max_network_rtt_ms'', JInt (re_max_network_rtt_ms env)),
           (''max_egress_cost_microusd'', JInt (re_max_egress_cost_microusd env))]"

section \<open>Certificates\<close>

datatype feasibility_status = FEASIBLE | DEGRADED | REFUSED

fun feasibility_value :: "feasibility_status \<Rightarrow> string" where
  "feasibility_value FEASIBLE = ''feasible''"
| "feasibility_value DEGRADED = ''degraded''"
| "feasibility_value REFUSED = ''refused''"

text \<open>\<open>int | float | str\<close>.\<close>

datatype quantity = QInt int | QFloat float64 | QStr string

fun quantity_json :: "quantity \<Rightarrow> json" where
  "quantity_json (QInt i) = JInt i"
| "quantity_json (QFloat x) = JFloat x"
| "quantity_json (QStr s) = JStr s"

record constraint_check =
  cc_name :: string
  cc_passed :: bool
  cc_observed :: quantity
  cc_limit :: quantity
  cc_unit :: string

definition constraint_json :: "constraint_check \<Rightarrow> json" where
  "constraint_json c =
     JObj [(''name'', JStr (cc_name c)), (''passed'', JBool (cc_passed c)), (''observed'', quantity_json (cc_observed c)),
           (''limit'', quantity_json (cc_limit c)), (''unit'', JStr (cc_unit c))]"

record feasibility_certificate =
  fc_schema_version :: string
  fc_status :: feasibility_status
  fc_graph_digest :: string
  fc_envelope_digest :: string
  fc_schedule_digest :: string
  fc_certificate_digest :: string
  fc_model_bound_ms :: int
  fc_projected_makespan_ms :: int
  fc_selected_backends :: "(string \<times> string) list"
  fc_skipped_optional_tasks :: "string list"
  fc_checks :: "constraint_check list"
  fc_assumptions :: "string list"
  fc_failure_reason :: "string option"

definition unsigned_payload :: "feasibility_certificate \<Rightarrow> json" where
  "unsigned_payload c =
     JObj [(''schema_version'', JStr (fc_schema_version c)), (''status'', JStr (feasibility_value (fc_status c))),
           (''graph_digest'', JStr (fc_graph_digest c)), (''envelope_digest'', JStr (fc_envelope_digest c)),
           (''schedule_digest'', JStr (fc_schedule_digest c)), (''model_bound_ms'', JInt (fc_model_bound_ms c)),
           (''projected_makespan_ms'', JInt (fc_projected_makespan_ms c)),
           (''selected_backends'', JArr (map (\<lambda>(t, b). JArr [JStr t, JStr b]) (fc_selected_backends c))),
           (''skipped_optional_tasks'', JArr (map JStr (fc_skipped_optional_tasks c))),
           (''checks'', JArr (map constraint_json (fc_checks c))), (''assumptions'', JArr (map JStr (fc_assumptions c))),
           (''failure_reason'', jopt JStr (fc_failure_reason c))]"

definition verify_digest :: "feasibility_certificate \<Rightarrow> bool" where
  "verify_digest c \<longleftrightarrow> fc_certificate_digest c = content_digest (unsigned_payload c)"

definition certificate_as_dict :: "feasibility_certificate \<Rightarrow> json" where
  "certificate_as_dict c =
     (case normalize (unsigned_payload c) of
        JObj payload \<Rightarrow> JObj (dset ''certificate_digest'' (JStr (fc_certificate_digest c)) payload)
      | v \<Rightarrow> v)"

section \<open>Analysis\<close>

definition feasibility_checks :: "run_envelope \<Rightarrow> schedule_result \<Rightarrow> constraint_check list" where
  "feasibility_checks env r =
     [\<lparr>cc_name = ''deadline'', cc_passed = (sr_success r \<and> sr_makespan_ms r \<le> re_deadline_ms env),
       cc_observed = QInt (sr_makespan_ms r), cc_limit = QInt (re_deadline_ms env), cc_unit = ''ms''\<rparr>,
      \<lparr>cc_name = ''tokens'', cc_passed = (sr_total_tokens r \<le> re_max_tokens env),
       cc_observed = QInt (sr_total_tokens r), cc_limit = QInt (re_max_tokens env), cc_unit = ''tokens''\<rparr>,
      \<lparr>cc_name = ''cost'', cc_passed = (sr_total_cost_microusd r \<le> re_max_cost_microusd env),
       cc_observed = QInt (sr_total_cost_microusd r), cc_limit = QInt (re_max_cost_microusd env),
       cc_unit = ''micro-USD''\<rparr>,
      \<lparr>cc_name = ''context_movement'', cc_passed = (sr_total_context_bytes r \<le> re_max_context_bytes env),
       cc_observed = QInt (sr_total_context_bytes r), cc_limit = QInt (re_max_context_bytes env), cc_unit = ''bytes''\<rparr>,
      \<lparr>cc_name = ''modeled_success_probability'',
       cc_passed = (sr_success r \<and> sr_modeled_success_probability r \<ge> re_min_success env),
       cc_observed = QFloat (sr_modeled_success_probability r), cc_limit = QFloat (re_min_success env),
       cc_unit = ''independent-profile probability''\<rparr>,
      \<lparr>cc_name = ''required_work'', cc_passed = sr_success r,
       cc_observed = QStr (if sr_success r then ''complete'' else ''incomplete''), cc_limit = QStr ''complete'',
       cc_unit = ''state''\<rparr>]"

definition feasibility_status_of :: "schedule_result \<Rightarrow> feasibility_status" where
  "feasibility_status_of r =
     (if sr_success r \<and> sr_skipped r \<noteq> [] then DEGRADED else if sr_success r then FEASIBLE else REFUSED)"

definition feasibility_assumptions :: "string list" where
  "feasibility_assumptions =
     [''durations use pinned p95 profile estimates'',
      ''the model bound applies to selected deterministic p95 estimates, not physical runtime'',
      ''modeled run success multiplies profile probabilities and assumes independence'',
      ''the deterministic simulator does not predict correlated provider failures'',
      ''quality floors are profile assertions until runtime validators settle them'']"

text \<open>The dictionary \<open>unsigned\<close> of \<open>analyze\<close>, which is digested before the certificate object exists.\<close>

definition unsigned_json :: "execution_graph \<Rightarrow> run_envelope \<Rightarrow> schedule_result \<Rightarrow> json" where
  "unsigned_json g env r =
     JObj [(''schema_version'', JStr ''agent-physics-feasibility/v1''),
           (''status'', JStr (feasibility_value (feasibility_status_of r))),
           (''graph_digest'', JStr (content_digest (graph_json g))),
           (''envelope_digest'', JStr (content_digest (envelope_json env))),
           (''schedule_digest'', JStr (content_digest (schedule_as_dict r))),
           (''model_bound_ms'', JInt (sr_model_bound_ms r)), (''projected_makespan_ms'', JInt (sr_makespan_ms r)),
           (''selected_backends'', JArr (map (\<lambda>e. JArr [JStr (se_task_id e), JStr (se_backend e)]) (sr_entries r))),
           (''skipped_optional_tasks'', JArr (map JStr (sr_skipped r))),
           (''checks'', JArr (map constraint_json (feasibility_checks env r))),
           (''assumptions'', JArr (map JStr feasibility_assumptions)),
           (''failure_reason'', jopt JStr (sr_failure_reason r))]"

definition certificate_of :: "execution_graph \<Rightarrow> run_envelope \<Rightarrow> schedule_result \<Rightarrow> feasibility_certificate" where
  "certificate_of g env r =
     \<lparr>fc_schema_version = ''agent-physics-feasibility/v1'', fc_status = feasibility_status_of r,
      fc_graph_digest = content_digest (graph_json g), fc_envelope_digest = content_digest (envelope_json env),
      fc_schedule_digest = content_digest (schedule_as_dict r),
      fc_certificate_digest = content_digest (unsigned_json g env r),
      fc_model_bound_ms = sr_model_bound_ms r, fc_projected_makespan_ms = sr_makespan_ms r,
      fc_selected_backends = map (\<lambda>e. (se_task_id e, se_backend e)) (sr_entries r),
      fc_skipped_optional_tasks = sr_skipped r, fc_checks = feasibility_checks env r,
      fc_assumptions = feasibility_assumptions, fc_failure_reason = sr_failure_reason r\<rparr>"

definition analyze ::
  "execution_graph \<Rightarrow> run_envelope \<Rightarrow> schedule_policy \<Rightarrow> (py_error + feasibility_certificate \<times> schedule_result) option" where
  "analyze g env policy =
     (case schedule g env policy of
        None \<Rightarrow> None
      | Some (Inl e) \<Rightarrow> Some (Inl e)
      | Some (Inr r) \<Rightarrow> Some (Inr (certificate_of g env r, r)))"

section \<open>What a certificate says\<close>

lemma certificate_payload: "unsigned_payload (certificate_of g env r) = unsigned_json g env r"
  by (simp add: unsigned_payload_def certificate_of_def unsigned_json_def o_def)

lemma analyze_schedule:
  assumes "analyze g env policy = Some (Inr (c, r))"
  shows "schedule g env policy = Some (Inr r)" and "c = certificate_of g env r"
  using assms by (auto simp: analyze_def split: option.splits sum.splits)

lemma outcome_failure: "result_of g env policy r cx L st M \<Longrightarrow> sr_success r \<longleftrightarrow> sr_failure_reason r = None"
  by (auto simp: outcome_def dest: result_facts(7))

text \<open>
  C36. A certificate is about its schedule and agrees with it. \<open>analyze\<close> answers with the result of the scheduler on that graph and
  envelope; the certificate pins the digests of exactly this graph, envelope and result, and repeats the bound, the makespan, the chosen
  backends, the skipped tasks and the failure reason of the result, with its totals next to the caps of the envelope. Its digest
  verifies. The token, cost and context checks pass always; the deadline, probability and required-work checks pass exactly
  when the run succeeds, that is, when the status is not \<open>REFUSED\<close>, and when there is no failure reason; the status is \<open>DEGRADED\<close> exactly
  when the run succeeds and skipped optional work; and every selected backend is a profile of its task.
\<close>

theorem certificate_consistent:
  assumes "analyze g env policy = Some (Inr (c, r))"
  shows "schedule g env policy = Some (Inr r) \<and> verify_digest c
    \<and> fc_graph_digest c = content_digest (graph_json g) \<and> fc_envelope_digest c = content_digest (envelope_json env)
    \<and> fc_schedule_digest c = content_digest (schedule_as_dict r)
    \<and> fc_model_bound_ms c = sr_model_bound_ms r \<and> fc_projected_makespan_ms c = sr_makespan_ms r
    \<and> fc_selected_backends c = map (\<lambda>e. (se_task_id e, se_backend e)) (sr_entries r)
    \<and> fc_skipped_optional_tasks c = sr_skipped r \<and> fc_failure_reason c = sr_failure_reason r
    \<and> map (\<lambda>k. (cc_observed k, cc_limit k)) (take 5 (fc_checks c)) =
        [(QInt (sr_makespan_ms r), QInt (re_deadline_ms env)), (QInt (sr_total_tokens r), QInt (re_max_tokens env)),
         (QInt (sr_total_cost_microusd r), QInt (re_max_cost_microusd env)),
         (QInt (sr_total_context_bytes r), QInt (re_max_context_bytes env)),
         (QFloat (sr_modeled_success_probability r), QFloat (re_min_success env))]
    \<and> map cc_passed (fc_checks c) = [sr_success r, True, True, True, sr_success r, sr_success r]
    \<and> (fc_status c = REFUSED \<longleftrightarrow> \<not> sr_success r) \<and> (fc_status c = REFUSED \<longleftrightarrow> fc_failure_reason c \<noteq> None)
    \<and> (fc_status c = DEGRADED \<longleftrightarrow> sr_success r \<and> sr_skipped r \<noteq> [])
    \<and> (\<forall>(i, b) \<in> set (fc_selected_backends c). \<exists>t \<in> set g. tc_task_id t = i \<and> b \<in> bp_name ` set (tc_profiles t))"
proof -
  note a = analyze_schedule [OF assms]
  obtain cx L st M where r: "result_of g env policy r cx L st M" by (rule result_run [OF a(1)])
  note f = result_facts [OF r]
  have "verify_digest c" by (simp add: verify_digest_def a(2) certificate_payload) (simp add: certificate_of_def)
  moreover have "map cc_passed (fc_checks c) = [sr_success r, True, True, True, sr_success r, sr_success r]"
    using result_totals [OF r] result_floor [OF r] result_deadline [OF r]
    by (auto simp: a(2) certificate_of_def feasibility_checks_def)
  moreover have "fc_status c = REFUSED \<longleftrightarrow> \<not> sr_success r" "fc_status c = DEGRADED \<longleftrightarrow> sr_success r \<and> sr_skipped r \<noteq> []"
    "fc_failure_reason c = sr_failure_reason r"
    by (simp_all add: a(2) certificate_of_def feasibility_status_of_def)
  moreover have "fc_graph_digest c = content_digest (graph_json g)" "fc_envelope_digest c = content_digest (envelope_json env)"
    "fc_schedule_digest c = content_digest (schedule_as_dict r)" "fc_model_bound_ms c = sr_model_bound_ms r"
    "fc_projected_makespan_ms c = sr_makespan_ms r" "fc_skipped_optional_tasks c = sr_skipped r"
    "fc_selected_backends c = map (\<lambda>e. (se_task_id e, se_backend e)) (sr_entries r)"
    "map (\<lambda>k. (cc_observed k, cc_limit k)) (take 5 (fc_checks c)) =
        [(QInt (sr_makespan_ms r), QInt (re_deadline_ms env)), (QInt (sr_total_tokens r), QInt (re_max_tokens env)),
         (QInt (sr_total_cost_microusd r), QInt (re_max_cost_microusd env)),
         (QInt (sr_total_context_bytes r), QInt (re_max_context_bytes env)),
         (QFloat (sr_modeled_success_probability r), QFloat (re_min_success env))]"
    by (simp_all add: a(2) certificate_of_def feasibility_checks_def)
  moreover have "\<exists>t \<in> set g. tc_task_id t = i \<and> b \<in> bp_name ` set (tc_profiles t)"
    if "(i, b) \<in> set (fc_selected_backends c)" for i b
  proof -
    from that f(8,10) obtain l where "l \<in> set L" "i = la_id l" "b = bp_name (la_profile l)"
      by (auto simp: a(2) certificate_of_def la_id_def)
    moreover from this(1) have "la_task l \<in> set g" "la_profile l \<in> set (tc_profiles (la_task l))"
      using f(2,6) by (simp_all add: core_parts qualified_profiles_def)
    ultimately show ?thesis by (auto simp: la_id_def)
  qed
  ultimately show ?thesis using a(1) outcome_failure [OF r] by auto
qed

theorem certificate_consistent_witness:
  "\<exists>c. analyze sample_graph sample_envelope ADAPTIVE = Some (Inr (c, sample_result)) \<and> verify_digest c
     \<and> fc_schedule_digest c = content_digest (schedule_as_dict sample_result)"
proof -
  have a: "analyze sample_graph sample_envelope ADAPTIVE
      = Some (Inr (certificate_of sample_graph sample_envelope sample_result, sample_result))"
    by (simp add: analyze_def sample_schedule(1))
  from certificate_consistent [OF a] a show ?thesis by blast
qed

end
