(* ===== verification/Json_Text.thy ===== *)
theory Json_Text
  imports Contracts
begin

text \<open>
  \<open>json.loads\<close>, with which the sources read back the texts they store, and the theorem that it inverts
  the canonical printer.

  Strings hold code points below 256, so an escape above them has no value here; neither have the
  literals \<open>NaN\<close> and \<open>Infinity\<close>, which \<open>allow_nan=False\<close> keeps out of every stored text. The parsers
  take fuel, one unit for each nesting level or element; the length of the text is enough.
\<close>

section \<open>The reader\<close>

definition json_space :: "char \<Rightarrow> bool" where
  "json_space c \<longleftrightarrow> c \<in> set [CHR '' '', CHR 0x09, CHR 0x0A, CHR 0x0D]"

definition skip_space :: "string \<Rightarrow> string" where
  "skip_space s = dropWhile json_space s"

definition hex_value :: "char \<Rightarrow> nat option" where
  "hex_value c =
     (let n = of_char c :: nat
      in if 48 \<le> n \<and> n \<le> 57 then Some (n - 48) else if 97 \<le> n \<and> n \<le> 102 then Some (n - 87)
         else if 65 \<le> n \<and> n \<le> 70 then Some (n - 55) else None)"

definition unicode_escape :: "string \<Rightarrow> char option" where
  "unicode_escape ds =
     (case map hex_value ds of
        [Some a, Some b, Some c, Some d] \<Rightarrow>
          let n = 4096 * a + 256 * b + 16 * c + d in if n < 256 then Some (char_of n) else None
      | _ \<Rightarrow> None)"

definition simple_escape :: "char \<Rightarrow> char option" where
  "simple_escape c =
     map_of [(CHR 0x22, CHR 0x22), (CHR 0x5C, CHR 0x5C), (CHR ''/'', CHR ''/''), (CHR ''b'', CHR 0x08),
             (CHR ''f'', CHR 0x0C), (CHR ''n'', CHR 0x0A), (CHR ''r'', CHR 0x0D), (CHR ''t'', CHR 0x09)] c"

text \<open>The characters up to the closing quote.\<close>

fun parse_chars :: "nat \<Rightarrow> string \<Rightarrow> (string \<times> string) option" where
  "parse_chars 0 s = None"
| "parse_chars (Suc n) [] = None"
| "parse_chars (Suc n) (c # s) =
     (if c = CHR 0x22 then Some ([], s)
      else if c = CHR 0x5C then
        (case s of
           [] \<Rightarrow> None
         | e # r \<Rightarrow>
             (case (if e = CHR ''u'' then unicode_escape (take 4 r) else simple_escape e) of
                None \<Rightarrow> None
              | Some x \<Rightarrow> map_option (map_prod (Cons x) id) (parse_chars n (if e = CHR ''u'' then drop 4 r else r))))
      else if (of_char c :: nat) < 32 then None
      else map_option (map_prod (Cons c) id) (parse_chars n s))"

definition digit :: "char \<Rightarrow> bool" where
  "digit c \<longleftrightarrow> c \<in> set ''0123456789''"

text \<open>The optional fraction and exponent of a number, each with what is left of the text.\<close>

definition parse_fraction :: "string \<Rightarrow> string option \<times> string" where
  "parse_fraction s =
     (case s of
        c # r \<Rightarrow> if c = CHR ''.'' \<and> takeWhile digit r \<noteq> [] then (Some (takeWhile digit r), dropWhile digit r) else (None, s)
      | [] \<Rightarrow> (None, s))"

definition parse_exponent :: "string \<Rightarrow> int option \<times> string" where
  "parse_exponent s =
     (case s of
        c # r \<Rightarrow>
          if c = CHR ''e'' \<or> c = CHR ''E'' then
            let (neg, ds) = (case r of d # r' \<Rightarrow> if d = CHR ''-'' then (True, r') else if d = CHR ''+'' then (False, r') else (False, r)
                             | [] \<Rightarrow> (False, r))
            in if takeWhile digit ds = [] then (None, s)
               else (Some ((if neg then - 1 else 1) * int (dec_value (takeWhile digit ds))), dropWhile digit ds)
          else (None, s)
      | [] \<Rightarrow> (None, s))"

definition number_digits :: "string \<Rightarrow> string" where
  "number_digits t = (if t \<noteq> [] \<and> hd t = CHR ''0'' then ''0'' else takeWhile digit t)"

definition parse_magnitude :: "int \<Rightarrow> string \<Rightarrow> (json \<times> string) option" where
  "parse_magnitude sign t =
     (let ds = number_digits t; (frac, u) = parse_fraction (drop (length ds) t); (ex, rest) = parse_exponent u
      in if ds = [] then None
         else if frac = None \<and> ex = None then Some (JInt (sign * int (dec_value ds)), rest)
         else let fs = (case frac of None \<Rightarrow> [] | Some f \<Rightarrow> f); k = (case ex of None \<Rightarrow> 0 | Some e \<Rightarrow> e)
              in Some (JFloat (float_of (of_int (sign * int (dec_value (ds @ fs))) * pow10 (k - int (length fs)))), rest))"

definition parse_number :: "string \<Rightarrow> (json \<times> string) option" where
  "parse_number s = (if s \<noteq> [] \<and> hd s = CHR ''-'' then parse_magnitude (- 1) (tl s) else parse_magnitude 1 s)"

definition parse_word :: "string \<Rightarrow> json \<Rightarrow> string \<Rightarrow> (json \<times> string) option" where
  "parse_word w v s = (if take (length w) s = w then Some (v, drop (length w) s) else None)"

fun parse_value :: "nat \<Rightarrow> string \<Rightarrow> (json \<times> string) option"
  and parse_items :: "nat \<Rightarrow> string \<Rightarrow> (json list \<times> string) option"
  and parse_members :: "nat \<Rightarrow> string \<Rightarrow> ((string \<times> json) list \<times> string) option" where
  "parse_value 0 s = None"
| "parse_value (Suc n) s =
     (case s of
        [] \<Rightarrow> None
      | c # r \<Rightarrow>
          if c = CHR 0x22 then map_option (map_prod JStr id) (parse_chars (Suc (length r)) r)
          else if c = CHR ''['' then
            (case skip_space r of
               [] \<Rightarrow> None
             | d # r' \<Rightarrow> if d = CHR '']'' then Some (JArr [], r') else map_option (map_prod JArr id) (parse_items n (d # r')))
          else if c = CHR 0x7B then
            (case skip_space r of
               [] \<Rightarrow> None
             | d # r' \<Rightarrow> if d = CHR 0x7D then Some (JObj [], r')
                        else map_option (map_prod (\<lambda>kvs. JObj (dict_of kvs)) id) (parse_members n (d # r')))
          else if c = CHR ''n'' then parse_word ''null'' JNull s
          else if c = CHR ''t'' then parse_word ''true'' (JBool True) s
          else if c = CHR ''f'' then parse_word ''false'' (JBool False) s
          else parse_number s)"
| "parse_items 0 s = None"
| "parse_items (Suc n) s =
     (case parse_value n s of
        None \<Rightarrow> None
      | Some (v, r) \<Rightarrow>
          (case skip_space r of
             [] \<Rightarrow> None
           | d # r' \<Rightarrow>
               if d = CHR '']'' then Some ([v], r')
               else if d = CHR '','' then map_option (map_prod (Cons v) id) (parse_items n (skip_space r'))
               else None))"
| "parse_members 0 s = None"
| "parse_members (Suc n) s =
     (case s of
        [] \<Rightarrow> None
      | q # r \<Rightarrow>
          if q \<noteq> CHR 0x22 then None
          else case parse_chars (Suc (length r)) r of
            None \<Rightarrow> None
          | Some (k, r1) \<Rightarrow>
              (case skip_space r1 of
                 [] \<Rightarrow> None
               | d # r2 \<Rightarrow>
                   if d \<noteq> CHR '':'' then None
                   else case parse_value n (skip_space r2) of
                     None \<Rightarrow> None
                   | Some (v, r3) \<Rightarrow>
                       (case skip_space r3 of
                          [] \<Rightarrow> None
                        | e # r4 \<Rightarrow>
                            if e = CHR 0x7D then Some ([(k, v)], r4)
                            else if e = CHR '','' then
                              map_option (map_prod (Cons (k, v)) id) (parse_members n (skip_space r4))
                            else None)))"

definition json_loads :: "string \<Rightarrow> json option" where
  "json_loads s =
     (case parse_value (Suc (length s)) (skip_space s) of
        None \<Rightarrow> None
      | Some (v, r) \<Rightarrow> if skip_space r = [] then Some v else None)"

section \<open>Reading back what the printer wrote\<close>

text \<open>Values without floats whose objects have their keys in strict order, at every depth: what
  \<open>normalize\<close> makes of a value without floats and without duplicate keys.\<close>

fun json_plain :: "json \<Rightarrow> bool" where
  "json_plain (JFloat x) \<longleftrightarrow> False"
| "json_plain (JArr xs) \<longleftrightarrow> (\<forall>x \<in> set xs. json_plain x)"
| "json_plain (JObj kvs) \<longleftrightarrow> distinct (map fst kvs) \<and> (\<forall>(k, v) \<in> set kvs. json_plain v)"
| "json_plain v \<longleftrightarrow> True"

fun json_canonical :: "json \<Rightarrow> bool" where
  "json_canonical (JFloat x) \<longleftrightarrow> False"
| "json_canonical (JArr xs) \<longleftrightarrow> (\<forall>x \<in> set xs. json_canonical x)"
| "json_canonical (JObj kvs) \<longleftrightarrow>
     sorted (map fst kvs) \<and> distinct (map fst kvs) \<and> (\<forall>(k, v) \<in> set kvs. json_canonical v)"
| "json_canonical v \<longleftrightarrow> True"

lemma canonical_normalize: "json_plain v \<Longrightarrow> json_canonical (normalize v)"
proof (induction v rule: normalize.induct)
  case (2 kvs)
  have "distinct (map fst (map (\<lambda>(k, v). (k, normalize v)) kvs))"
    using 2 by (simp add: o_def case_prod_beta)
  then have "distinct (map fst (sort_key fst (map (\<lambda>(k, v). (k, normalize v)) kvs)))"
    by (metis mset_eq_imp_distinct_iff mset_map mset_sort)
  with 2 show ?case by auto
qed auto

text \<open>Characters and strings.\<close>

lemma hex_value_hex_char: "n < 16 \<Longrightarrow> hex_value (hex_char n) = Some n"
  by (auto simp: hex_value_def hex_char_def Let_def)

lemma unicode_hex4: "n < 256 \<Longrightarrow> unicode_escape (hex4 n) = Some (char_of n)"
  by (auto simp: unicode_escape_def hex4_def hex_value_hex_char Let_def)

lemma of_char_bound: "(of_char c :: nat) < 256"
  by (metis of_char_mod_256 mod_less_divisor zero_less_numeral)

lemma special_chars:
  "(of_char c :: nat) \<in> {34, 92, 10, 13, 9, 12, 8} \<longleftrightarrow>
    c \<in> {CHR 0x22, CHR 0x5C, CHR 0x0A, CHR 0x0D, CHR 0x09, CHR 0x0C, CHR 0x08}"
proof -
  have "(of_char c :: nat) \<in> of_char ` {CHR 0x22, CHR 0x5C, CHR 0x0A, CHR 0x0D, CHR 0x09, CHR 0x0C, CHR 0x08}
      \<longleftrightarrow> c \<in> {CHR 0x22, CHR 0x5C, CHR 0x0A, CHR 0x0D, CHR 0x09, CHR 0x0C, CHR 0x08}"
    by (rule inj_image_mem_iff) (rule inj_of_char)
  then show ?thesis by simp
qed

lemma parse_escape:
  "parse_chars (Suc n) (json_escape ascii c @ s) = map_option (map_prod (Cons c) id) (parse_chars n s)"
proof -
  let ?k = "of_char c :: nat"
  let ?S = "{CHR 0x22, CHR 0x5C, CHR 0x0A, CHR 0x0D, CHR 0x09, CHR 0x0C, CHR 0x08}"
  consider (quote) "c \<in> ?S" | (unicode) "?k \<notin> {34, 92, 10, 13, 9, 12, 8}" "?k < 32 \<or> (ascii \<and> 126 < ?k)"
    | (plain) "?k \<notin> {34, 92, 10, 13, 9, 12, 8}" "\<not> (?k < 32 \<or> (ascii \<and> 126 < ?k))"
    unfolding special_chars by blast
  then show ?thesis
  proof cases
    case quote
    then show ?thesis by (auto simp: json_escape_def simple_escape_def)
  next
    case unicode
    then have e: "json_escape ascii c = [CHR 0x5C, CHR ''u''] @ hex4 ?k" by (auto simp: json_escape_def Let_def)
    have "take 4 (hex4 ?k @ s) = hex4 ?k" "drop 4 (hex4 ?k @ s) = s" by (simp_all add: hex4_def)
    with e show ?thesis by (simp add: unicode_hex4 of_char_bound)
  next
    case plain
    then have "json_escape ascii c = [c]" by (auto simp: json_escape_def Let_def)
    moreover have "c \<noteq> CHR 0x22" "c \<noteq> CHR 0x5C" using plain(1) by auto
    ultimately show ?thesis using plain(2) by simp
  qed
qed

lemma parse_chars_escaped:
  "length s < n \<Longrightarrow> parse_chars n (concat (map (json_escape ascii) s) @ CHR 0x22 # rest) = Some (s, rest)"
proof (induction s arbitrary: n)
  case Nil
  then show ?case by (cases n) simp_all
next
  case (Cons c s)
  then obtain m where "n = Suc m" "length s < m" by (cases n) auto
  with Cons.IH show ?case by (simp add: parse_escape)
qed

lemma escape_nonempty: "1 \<le> length (json_escape ascii c)"
  by (simp add: json_escape_def Let_def)

lemma escaped_length: "length s \<le> length (concat (map (json_escape ascii) s))"
proof (induction s)
  case (Cons c s)
  with escape_nonempty [of ascii c] show ?case by simp
qed simp

text \<open>Numbers. What follows an integer in printed text is a comma, a closing bracket or nothing.\<close>

definition boundary :: "string \<Rightarrow> bool" where
  "boundary r \<longleftrightarrow> r = [] \<or> hd r \<in> {CHR '','', CHR '']'', CHR 0x7D}"

lemma digit_digit_char [simp]: "d < 10 \<Longrightarrow> digit (digit_char d)"
proof -
  have "list_all (\<lambda>d. digit (digit_char d)) [0..<10]" by code_simp
  then show "d < 10 \<Longrightarrow> digit (digit_char d)" by (simp add: list_all_iff)
qed

lemma dec_string_digits: "list_all digit (dec_string n)"
proof (induction n rule: dec_string.induct)
  case (1 n)
  then show ?case by (subst dec_string.simps) simp
qed

lemma dec_string_nonempty [simp]: "dec_string n \<noteq> []"
  by (subst dec_string.simps) simp

lemma dec_string_head: "hd (dec_string n) = CHR ''0'' \<Longrightarrow> n = 0"
proof (induction n rule: dec_string.induct)
  case (1 n)
  show ?case
  proof (cases "n < 10")
    case True
    have "hd (dec_string n) = digit_char n" using True by (subst dec_string.simps) simp
    with 1(2) have "digit_value (digit_char n) = digit_value (CHR ''0'')" by simp
    with True show ?thesis by (simp add: digit_value_def [of "CHR ''0''"])
  next
    case False
    then have "hd (dec_string n) = hd (dec_string (n div 10))" by (subst dec_string.simps) simp
    with 1 False show ?thesis by simp
  qed
qed

lemma boundary_no_digit: "boundary r \<Longrightarrow> takeWhile digit r = [] \<and> dropWhile digit r = r"
  by (cases r) (auto simp: boundary_def digit_def)

lemma boundary_fraction: "boundary r \<Longrightarrow> parse_fraction r = (None, r) \<and> parse_exponent r = (None, r)"
  by (cases r) (auto simp: boundary_def parse_fraction_def parse_exponent_def)

lemma span_digits:
  assumes "boundary r"
  shows "takeWhile digit (dec_string n @ r) = dec_string n"
  using dec_string_digits [of n] boundary_no_digit [OF assms] by (simp add: takeWhile_append2 list_all_iff)

lemma number_digits_dec: "boundary r \<Longrightarrow> number_digits (dec_string n @ r) = dec_string n"
  using span_digits [of r n] dec_string_head [of n] by (auto simp: number_digits_def dec_string.simps [of 0] digit_char_def)

lemma parse_magnitude_dec: "boundary r \<Longrightarrow> parse_magnitude sign (dec_string n @ r) = Some (JInt (sign * int n), r)"
  by (simp add: parse_magnitude_def number_digits_dec boundary_fraction)

lemma parse_int:
  assumes "boundary r"
  shows "parse_number (int_string i @ r) = Some (JInt i, r)"
proof (cases "i < 0")
  case True
  then show ?thesis by (simp add: parse_number_def int_string_def parse_magnitude_dec [OF assms])
next
  case False
  have "digit (hd (dec_string (nat i)))" using dec_string_digits [of "nat i"] by (cases "dec_string (nat i)") auto
  then have "hd (dec_string (nat i) @ r) \<noteq> CHR ''-''" by (auto simp: digit_def)
  with False show ?thesis by (simp add: parse_number_def int_string_def parse_magnitude_dec [OF assms])
qed

text \<open>Values. The first character of a printed value is neither white space nor a closing bracket.\<close>

lemma int_string_first: "\<exists>c r. int_string i = c # r \<and> (c = CHR ''-'' \<or> digit c)"
proof -
  obtain d ds where D: "dec_string (nat \<bar>i\<bar>) = d # ds" by (cases "dec_string (nat \<bar>i\<bar>)") auto
  with dec_string_digits [of "nat \<bar>i\<bar>"] show ?thesis by (auto simp: int_string_def)
qed

lemma dumps_first:
  assumes "json_canonical v"
  shows "\<exists>c r. json_dumps ascii v = c # r \<and> \<not> json_space c \<and> c \<notin> {CHR '']'', CHR 0x7D, CHR '','', CHR '':''}"
proof (cases v)
  case (JInt i)
  with int_string_first [of i] show ?thesis by (auto simp: json_space_def digit_def)
qed (use assms in \<open>auto simp: json_space_def json_string_def\<close>)

lemma skip_space_id: "s = c # r \<Longrightarrow> \<not> json_space c \<Longrightarrow> skip_space s = s"
  by (simp add: skip_space_def)

lemma skip_space_dumps: "json_canonical v \<Longrightarrow> skip_space (json_dumps ascii v @ r) = json_dumps ascii v @ r"
  using dumps_first [of v ascii] by (auto simp: skip_space_def)

text \<open>The printed members of an object whose keys are sorted.\<close>

definition print_member :: "bool \<Rightarrow> string \<times> json \<Rightarrow> string" where
  "print_member ascii kv = json_string ascii (fst kv) @ '':'' @ json_dumps ascii (snd kv)"

lemma dumps_object:
  assumes "sorted (map fst kvs)"
  shows "json_dumps ascii (JObj kvs) = [CHR 0x7B] @ comma_join (map (print_member ascii) kvs) @ [CHR 0x7D]"
proof -
  have "sort_key fst (map (\<lambda>(k, v). (k, json_dumps ascii v)) kvs) = map (\<lambda>(k, v). (k, json_dumps ascii v)) kvs"
    using assms by (intro sort_key_id_if_sorted) (simp add: o_def case_prod_beta)
  then show ?thesis by (simp add: print_member_def [abs_def] o_def case_prod_beta)
qed

lemma comma_join_Cons: "xs \<noteq> [] \<Longrightarrow> comma_join (x # xs) = x @ '','' @ comma_join xs"
  by (cases xs) auto

text \<open>\<open>reads v\<close>: with fuel at least the length of its text, the printed value is read back.\<close>

definition reads :: "bool \<Rightarrow> json \<Rightarrow> bool" where
  "reads ascii v \<longleftrightarrow>
     (\<forall>n r. length (json_dumps ascii v) \<le> n \<longrightarrow> boundary r \<longrightarrow> parse_value n (json_dumps ascii v @ r) = Some (v, r))"

lemma boundary_Cons: "c \<in> {CHR '','', CHR '']'', CHR 0x7D} \<Longrightarrow> boundary (c # r)"
  by (simp add: boundary_def)

lemma parse_printed_items:
  assumes "xs \<noteq> []" and "\<forall>x \<in> set xs. json_canonical x \<and> reads ascii x"
    and "length (comma_join (map (json_dumps ascii) xs)) < n"
  shows "parse_items n (comma_join (map (json_dumps ascii) xs) @ CHR '']'' # r) = Some (xs, r)"
  using assms
proof (induction xs arbitrary: n)
  case Nil
  then show ?case by simp
next
  case (Cons x xs)
  obtain m where n: "n = Suc m" using Cons.prems(3) by (cases n) auto
  show ?case
  proof (cases "xs = []")
    case True
    then have "parse_value m (json_dumps ascii x @ CHR '']'' # r) = Some (x, CHR '']'' # r)"
      using Cons.prems n by (simp add: reads_def boundary_def)
    then show ?thesis by (simp add: n True skip_space_def json_space_def)
  next
    case False
    let ?rest = "comma_join (map (json_dumps ascii) xs) @ CHR '']'' # r"
    have "parse_value m (json_dumps ascii x @ CHR '','' # ?rest) = Some (x, CHR '','' # ?rest)"
      using Cons.prems n False by (simp add: reads_def boundary_def comma_join_Cons)
    moreover have "parse_items m ?rest = Some (xs, r)"
      using Cons.prems n False by (intro Cons.IH) (simp_all add: comma_join_Cons)
    moreover have "skip_space ?rest = ?rest"
    proof -
      obtain y ys where xs: "xs = y # ys" using False by (cases xs) auto
      with Cons.prems(2) dumps_first [of y ascii] show ?thesis
        by (cases ys) (auto simp: skip_space_def)
    qed
    ultimately show ?thesis using False by (simp add: n comma_join_Cons skip_space_def [of "CHR '','' # _"] json_space_def)
  qed
qed

lemma parse_string_text:
  "parse_chars (Suc (length (concat (map (json_escape ascii) k) @ CHR 0x22 # t)))
     (concat (map (json_escape ascii) k) @ CHR 0x22 # t) = Some (k, t)"
  using escaped_length [of k ascii] by (intro parse_chars_escaped) simp

lemma print_member_eq:
  "print_member ascii (k, v) = CHR 0x22 # concat (map (json_escape ascii) k) @ CHR 0x22 # CHR '':'' # json_dumps ascii v"
  by (simp add: print_member_def json_string_def)

lemma parse_member_step:
  assumes "json_canonical v" and "reads ascii v" and "length (json_dumps ascii v) \<le> m"
    and "c \<in> {CHR '','', CHR 0x7D}"
  shows "parse_members (Suc m) (print_member ascii (k, v) @ c # t) =
    (if c = CHR 0x7D then Some ([(k, v)], t) else map_option (map_prod (Cons (k, v)) id) (parse_members m (skip_space t)))"
proof -
  have "parse_value m (json_dumps ascii v @ c # t) = Some (v, c # t)"
    using assms(2-4) by (auto simp: reads_def boundary_def)
  moreover have "skip_space (c # t) = c # t" using assms(4) by (auto simp: skip_space_def json_space_def)
  moreover have "skip_space (CHR '':'' # x) = CHR '':'' # x" for x by (simp add: skip_space_def json_space_def)
  ultimately show ?thesis
    using assms(4) parse_string_text [of ascii k "CHR '':'' # json_dumps ascii v @ c # t"]
    by (auto simp: print_member_eq skip_space_dumps [OF assms(1)])
qed

lemma skip_space_members: "kvs \<noteq> [] \<Longrightarrow>
  skip_space (comma_join (map (print_member ascii) kvs) @ r) = comma_join (map (print_member ascii) kvs) @ r
  \<and> (\<exists>t. comma_join (map (print_member ascii) kvs) @ r = CHR 0x22 # t)"
proof -
  assume "kvs \<noteq> []"
  then obtain k v rest where "kvs = (k, v) # rest" by (cases kvs) auto
  then have "\<exists>t. comma_join (map (print_member ascii) kvs) @ r = CHR 0x22 # t"
    by (cases rest) (simp_all add: print_member_eq)
  moreover from this have "skip_space (comma_join (map (print_member ascii) kvs) @ r) = comma_join (map (print_member ascii) kvs) @ r"
    by (auto simp: skip_space_def json_space_def)
  ultimately show ?thesis by blast
qed

lemma parse_printed_members:
  assumes "kvs \<noteq> []" and "\<forall>(k, v) \<in> set kvs. json_canonical v \<and> reads ascii v"
    and "length (comma_join (map (print_member ascii) kvs)) < n"
  shows "parse_members n (comma_join (map (print_member ascii) kvs) @ CHR 0x7D # r) = Some (kvs, r)"
  using assms
proof (induction kvs arbitrary: n)
  case Nil
  then show ?case by simp
next
  case (Cons kv kvs)
  obtain k v where kv: "kv = (k, v)" by (cases kv)
  obtain m where n: "n = Suc m" using Cons.prems(3) by (cases n) auto
  have v: "json_canonical v" "reads ascii v" using Cons.prems(2) by (auto simp: kv)
  show ?case
  proof (cases "kvs = []")
    case True
    then have "length (json_dumps ascii v) \<le> m" using Cons.prems(3) by (simp add: n kv print_member_eq)
    from parse_member_step [OF v this] True show ?thesis by (simp add: n kv)
  next
    case False
    let ?rest = "comma_join (map (print_member ascii) kvs) @ CHR 0x7D # r"
    have len: "length (json_dumps ascii v) \<le> m" "length (comma_join (map (print_member ascii) kvs)) < m"
      using Cons.prems(3) False by (simp_all add: n kv print_member_eq comma_join_Cons)
    have "parse_members m (skip_space ?rest) = Some (kvs, r)"
      using Cons.prems(2) len(2) False skip_space_members [OF False] by (simp add: Cons.IH)
    with parse_member_step [OF v len(1), of "CHR '',''"] False show ?thesis
      by (simp add: n kv comma_join_Cons)
  qed
qed

lemma parse_value_int:
  assumes "boundary r" and "0 < n"
  shows "parse_value n (int_string i @ r) = Some (JInt i, r)"
proof -
  obtain m where n: "n = Suc m" using assms(2) by (cases n) auto
  obtain c t where c: "int_string i = c # t" "c = CHR ''-'' \<or> digit c" using int_string_first by blast
  then have "c \<notin> {CHR 0x22, CHR ''['', CHR 0x7B, CHR ''n'', CHR ''t'', CHR ''f''}" by (auto simp: digit_def)
  with c(1) parse_int [OF assms(1), of i] show ?thesis by (simp add: n)
qed

lemma parse_value_words:
  assumes "0 < n"
  shows "parse_value n (CHR ''n'' # CHR ''u'' # CHR ''l'' # CHR ''l'' # r) = Some (JNull, r)"
    and "parse_value n (CHR ''t'' # CHR ''r'' # CHR ''u'' # CHR ''e'' # r) = Some (JBool True, r)"
    and "parse_value n (CHR ''f'' # CHR ''a'' # CHR ''l'' # CHR ''s'' # CHR ''e'' # r) = Some (JBool False, r)"
  using assms by (cases n; simp add: parse_word_def)+

lemma reads_null: "reads ascii JNull" and reads_bool: "reads ascii (JBool b)"
  by (cases b; auto simp: reads_def parse_value_words)+

lemma reads_int: "reads ascii (JInt i)"
  unfolding reads_def using int_string_first [of i] by (auto intro!: parse_value_int)

lemma reads_str: "reads ascii (JStr s)"
  unfolding reads_def
proof (intro allI impI)
  fix n r assume "length (json_dumps ascii (JStr s)) \<le> n"
  then obtain m where "n = Suc m" by (cases n) (auto simp: json_string_def)
  with parse_string_text [of ascii s r] show "parse_value n (json_dumps ascii (JStr s) @ r) = Some (JStr s, r)"
    by (simp add: json_string_def)
qed

lemma canonical_reads: "json_canonical v \<Longrightarrow> reads ascii v"
proof (induction v rule: normalize.induct)
  case (1 xs)
  then have xs: "\<forall>x \<in> set xs. json_canonical x \<and> reads ascii x" by simp
  show ?case unfolding reads_def
  proof (intro allI impI)
    fix n r assume n: "length (json_dumps ascii (JArr xs)) \<le> n"
    then obtain m where m: "n = Suc m" "length (comma_join (map (json_dumps ascii) xs)) < m" by (cases n) auto
    show "parse_value n (json_dumps ascii (JArr xs) @ r) = Some (JArr xs, r)"
    proof (cases xs)
      case Nil
      then show ?thesis by (simp add: m skip_space_def json_space_def)
    next
      case (Cons y ys)
      let ?t = "comma_join (map (json_dumps ascii) xs) @ CHR '']'' # r"
      obtain c t where c: "?t = c # t" "\<not> json_space c" "c \<noteq> CHR '']''"
        using xs dumps_first [of y ascii] by (cases ys) (auto simp: Cons)
      have "parse_items m ?t = Some (xs, r)" using xs m(2) Cons by (intro parse_printed_items) auto
      with c have "parse_value n (CHR ''['' # ?t) = Some (JArr xs, r)" by (simp add: m skip_space_id)
      then show ?thesis by simp
    qed
  qed
next
  case (2 kvs)
  then have kvs: "\<forall>(k, v) \<in> set kvs. json_canonical v \<and> reads ascii v" by auto
  have obj: "json_dumps ascii (JObj kvs) = [CHR 0x7B] @ comma_join (map (print_member ascii) kvs) @ [CHR 0x7D]"
    using 2 by (intro dumps_object) simp
  show ?case unfolding reads_def
  proof (intro allI impI)
    fix n r assume n: "length (json_dumps ascii (JObj kvs)) \<le> n"
    then obtain m where m: "n = Suc m" "length (comma_join (map (print_member ascii) kvs)) < m"
      unfolding obj by (cases n) auto
    show "parse_value n (json_dumps ascii (JObj kvs) @ r) = Some (JObj kvs, r)"
    proof (cases "kvs = []")
      case True
      then show ?thesis by (simp add: m skip_space_def json_space_def)
    next
      case False
      let ?t = "comma_join (map (print_member ascii) kvs) @ CHR 0x7D # r"
      obtain t where t: "?t = CHR 0x22 # t" "skip_space ?t = ?t" using skip_space_members [OF False] by blast
      have "parse_members m ?t = Some (kvs, r)" using kvs m(2) False by (intro parse_printed_members) auto
      moreover have "dict_of kvs = kvs" using 2(2) by (intro dict_of_distinct) simp
      ultimately have "parse_value n (CHR 0x7B # ?t) = Some (JObj kvs, r)" using t by (simp add: m)
      then show ?thesis unfolding obj by simp
    qed
  qed
qed (simp_all add: reads_int reads_str reads_null reads_bool)

text \<open>
  Reading inverts printing: \<open>json.loads\<close> of the text \<open>json.dumps\<close> writes for a value without floats
  and without duplicate keys, with or without \<open>ensure_ascii\<close>, is that value with the members of its
  objects in the order of their keys. So two such values with the same canonical text are equal up to
  the order of members.
\<close>

lemma json_roundtrip:
  assumes "json_plain v"
  shows "json_loads (json_dumps ascii v) = Some (normalize v)"
proof -
  let ?w = "normalize v"
  have c: "json_canonical ?w" by (rule canonical_normalize [OF assms])
  have "\<forall>n r. length (json_dumps ascii ?w) \<le> n \<longrightarrow> boundary r \<longrightarrow> parse_value n (json_dumps ascii ?w @ r) = Some (?w, r)"
    using canonical_reads [OF c, of ascii] unfolding reads_def .
  from this [rule_format, of "Suc (length (json_dumps ascii ?w))" "[]"]
  have "parse_value (Suc (length (json_dumps ascii ?w))) (json_dumps ascii ?w) = Some (?w, [])"
    by (simp add: boundary_def del: parse_value.simps)
  moreover have "skip_space (json_dumps ascii ?w) = json_dumps ascii ?w"
    using skip_space_dumps [OF c, of ascii "[]"] by simp
  ultimately show ?thesis by (simp add: json_loads_def skip_space_def [of "[]"] del: parse_value.simps)
qed

end
