(* ===== verification/Effect_Kernel.thy ===== *)
theory Effect_Kernel
  imports Json_Text
begin

text \<open>
  \<open>src/agent_physics/effects.py\<close>: the durable effect kernel. Brokers move effect intents through their
  states in one SQLite database, fenced by version and owner, with an outbox event for every change; a
  simulated target applies and compensates effects; an authority signs approvals.

  An operation is a function from the world (the database, the target, and how often the clock and the
  generator of identifiers were read) to a result and the next world. A transaction that raises puts
  the database back, and only the database. SQLite runs transactions one after the other
  (\<open>BEGIN IMMEDIATE\<close>), so an operation is atomic; a timeout of its lock, which raises before anything
  is read, is left out. \<open>uuid.uuid4\<close> and \<open>clock_ms\<close> are arguments of the broker: nothing is assumed of
  them, and an identifier that is already taken raises \<open>IntegrityError\<close>, as the \<open>UNIQUE\<close> columns do.
\<close>

section \<open>Errors, states and values\<close>

datatype kernel_error =
    IntentNotFound string
  | InvalidTransition string
  | IdempotencyConflict string
  | StaleFence string
  | ApprovalRequired string
  | InvalidApproval string
  | AdapterConflict string
  | AmbiguousCommit string
  | SimulatedProcessCrash string
  | SimulatedAmbiguousOutcome string
  | IntegrityError
  | KernelValueError string
  | KernelTypeError string
  | KernelKeyError string

datatype effect_state = PROPOSED | PREPARED | APPROVED | COMMITTED | ABORTED | AMBIGUOUS | COMPENSATED

fun effect_state_value :: "effect_state \<Rightarrow> string" where
  "effect_state_value PROPOSED = ''proposed''"
| "effect_state_value PREPARED = ''prepared''"
| "effect_state_value APPROVED = ''approved''"
| "effect_state_value COMMITTED = ''committed''"
| "effect_state_value ABORTED = ''aborted''"
| "effect_state_value AMBIGUOUS = ''ambiguous''"
| "effect_state_value COMPENSATED = ''compensated''"

text \<open>\<open>_canonical_json\<close>, which does not escape what is not ASCII, and \<open>_sha256\<close>.\<close>

definition kernel_json :: "json \<Rightarrow> string" where
  "kernel_json v = json_dumps False v"

definition kernel_sha256 :: "string \<Rightarrow> string" where
  "kernel_sha256 s = sha256_hex s"

definition scoped_effect_idempotency_key :: "string \<Rightarrow> string \<Rightarrow> int \<Rightarrow> string option \<Rightarrow> kernel_error + string" where
  "scoped_effect_idempotency_key run_id task_id attempt declared_key =
     (if run_id = [] \<or> task_id = [] then Inl (KernelValueError ''run_id and task_id are required for effect idempotency'')
      else if attempt \<le> 0 then Inl (KernelValueError ''effect attempt must be a positive integer'')
      else if declared_key = Some [] then Inl (KernelValueError ''declared effect idempotency key must be a non-empty string'')
      else Inr (''finite-effect/v1:'' @ kernel_sha256 (kernel_json
        (JObj [(''schema_version'', JStr ''finite-effect-idempotency/v1''), (''run_id'', JStr run_id),
               (''task_id'', JStr task_id), (''attempt'', JInt attempt),
               (''declared_idempotency_key'', jopt JStr declared_key)]))))"

record fencing_token =
  ft_intent_id :: string
  ft_version :: int
  ft_owner :: string

record effect_intent =
  ei_intent_id :: string
  ei_run_id :: string
  ei_action :: string
  ei_resource :: string
  ei_effect_class :: effect_class
  ei_idempotency_key :: string
  ei_payload_json :: string
  ei_compensation_action :: "string option"
  ei_state :: effect_state
  ei_fence_version :: int
  ei_fence_owner :: "string option"
  ei_approval_grant_id :: "string option"
  ei_last_error :: "string option"
  ei_created_at_ms :: int
  ei_updated_at_ms :: int

text \<open>\<open>json.loads\<close> of the stored text. Every stored text was printed by \<open>_canonical_json\<close>, so it has a value.\<close>

definition intent_payload :: "effect_intent \<Rightarrow> json" where
  "intent_payload x = (case json_loads (ei_payload_json x) of None \<Rightarrow> JNull | Some v \<Rightarrow> v)"

definition effect_digest :: "effect_intent \<Rightarrow> string" where
  "effect_digest x = kernel_sha256 (kernel_json
     (JObj [(''intent_id'', JStr (ei_intent_id x)), (''run_id'', JStr (ei_run_id x)), (''action'', JStr (ei_action x)),
            (''resource'', JStr (ei_resource x)), (''effect_class'', JStr (effect_value (ei_effect_class x))),
            (''idempotency_key'', JStr (ei_idempotency_key x)), (''payload'', intent_payload x),
            (''compensation_action'', jopt JStr (ei_compensation_action x))]))"

definition fencing_token_of :: "effect_intent \<Rightarrow> kernel_error + fencing_token" where
  "fencing_token_of x =
     (case ei_fence_owner x of
        None \<Rightarrow> Inl (InvalidTransition (''intent '' @ py_repr (ei_intent_id x) @ '' is not fenced''))
      | Some owner \<Rightarrow>
          if ei_fence_version x \<le> 0 then Inl (InvalidTransition (''intent '' @ py_repr (ei_intent_id x) @ '' is not fenced''))
          else Inr \<lparr>ft_intent_id = ei_intent_id x, ft_version = ei_fence_version x, ft_owner = owner\<rparr>)"

record approval_grant =
  ag_grant_id :: string
  ag_key_id :: string
  ag_principal :: string
  ag_intent_id :: string
  ag_run_id :: string
  ag_effect_digest :: string
  ag_resource :: string
  ag_action :: string
  ag_not_before_ms :: int
  ag_expires_at_ms :: int
  ag_signature :: string

definition grant_claims :: "approval_grant \<Rightarrow> json" where
  "grant_claims g =
     JObj [(''grant_id'', JStr (ag_grant_id g)), (''key_id'', JStr (ag_key_id g)), (''principal'', JStr (ag_principal g)),
           (''intent_id'', JStr (ag_intent_id g)), (''run_id'', JStr (ag_run_id g)),
           (''effect_digest'', JStr (ag_effect_digest g)), (''resource'', JStr (ag_resource g)),
           (''action'', JStr (ag_action g)), (''not_before_ms'', JInt (ag_not_before_ms g)),
           (''expires_at_ms'', JInt (ag_expires_at_ms g))]"

definition grant_signature :: "nat list \<Rightarrow> approval_grant \<Rightarrow> string" where
  "grant_signature secret g = hmac_sha256_hex secret (kernel_json (grant_claims g))"

section \<open>The approval authority\<close>

record approval_authority =
  aa_key_id :: string
  aa_secret :: "nat list"

definition new_authority :: "string \<Rightarrow> nat list \<Rightarrow> kernel_error + approval_authority" where
  "new_authority key_id secret =
     (if key_id = [] then Inl (KernelValueError ''approval key_id cannot be empty'')
      else if length secret < 32 then Inl (KernelValueError ''approval secrets must contain at least 32 bytes'')
      else Inr \<lparr>aa_key_id = key_id, aa_secret = secret\<rparr>)"

text \<open>\<open>uuid\<close> is the value \<open>uuid.uuid4()\<close> has when no identifier is given.\<close>

definition authority_issue ::
  "approval_authority \<Rightarrow> string \<Rightarrow> effect_intent \<Rightarrow> string \<Rightarrow> int \<Rightarrow> int \<Rightarrow> string option \<Rightarrow> string option \<Rightarrow> string option
    \<Rightarrow> kernel_error + approval_grant" where
  "authority_issue a uuid x approver now_ms ttl_ms resource action grant_id =
     (if approver = [] then Inl (KernelValueError ''approval principal cannot be empty'')
      else if ttl_ms \<le> 0 then Inl (KernelValueError ''approval ttl_ms must be positive'')
      else let unsigned = \<lparr>ag_grant_id = (if falsy grant_id then uuid else the grant_id), ag_key_id = aa_key_id a,
                 ag_principal = approver, ag_intent_id = ei_intent_id x, ag_run_id = ei_run_id x,
                 ag_effect_digest = effect_digest x, ag_resource = (case resource of None \<Rightarrow> ei_resource x | Some r \<Rightarrow> r),
                 ag_action = (case action of None \<Rightarrow> ei_action x | Some r \<Rightarrow> r), ag_not_before_ms = now_ms,
                 ag_expires_at_ms = now_ms + ttl_ms, ag_signature = []\<rparr>
           in Inr (unsigned\<lparr>ag_signature := grant_signature (aa_secret a) unsigned\<rparr>))"

section \<open>The simulated target\<close>

record simulated_application =
  sm_intent_id :: string
  sm_effect_digest :: string
  sm_idempotency_key :: string
  sm_fence_version :: int

text \<open>Python sets are lists that hold an element at most once; only membership is ever asked.\<close>

record sim_adapter =
  sa_applications :: "(string, simulated_application) dict"
  sa_compensated :: "string list"
  sa_apply_counts :: "(string, int) dict"
  sa_compensation_counts :: "(string, int) dict"
  sa_highest_fences :: "(string, int) dict"
  sa_soft_crashes :: "string list"
  sa_hard_crashes :: "string list"

definition new_adapter :: sim_adapter where
  "new_adapter = \<lparr>sa_applications = [], sa_compensated = [], sa_apply_counts = [], sa_compensation_counts = [],
     sa_highest_fences = [], sa_soft_crashes = [], sa_hard_crashes = []\<rparr>"

definition arm_ambiguous_after_apply :: "string \<Rightarrow> sim_adapter \<Rightarrow> sim_adapter" where
  "arm_ambiguous_after_apply key a = a\<lparr>sa_soft_crashes := List.insert key (sa_soft_crashes a)\<rparr>"

definition arm_process_crash_after_apply :: "string \<Rightarrow> sim_adapter \<Rightarrow> sim_adapter" where
  "arm_process_crash_after_apply key a = a\<lparr>sa_hard_crashes := List.insert key (sa_hard_crashes a)\<rparr>"

definition int_default :: "(string, int) dict \<Rightarrow> string \<Rightarrow> int" where
  "int_default d k = (case dget d k of None \<Rightarrow> 0 | Some n \<Rightarrow> n)"

definition stale_target :: "fencing_token \<Rightarrow> int \<Rightarrow> kernel_error" where
  "stale_target token highest =
     StaleFence (''adapter rejected fence '' @ int_string (ft_version token) @ ''; observed '' @ int_string highest)"

definition other_effect :: "simulated_application \<Rightarrow> effect_intent \<Rightarrow> bool" where
  "other_effect e x \<longleftrightarrow> sm_intent_id e \<noteq> ei_intent_id x \<or> sm_effect_digest e \<noteq> effect_digest x"

definition adapter_execute ::
  "effect_intent \<Rightarrow> fencing_token \<Rightarrow> sim_adapter \<Rightarrow> (kernel_error + bool) \<times> sim_adapter" where
  "adapter_execute x token a =
     (let highest = int_default (sa_highest_fences a) (ei_intent_id x) in
      if ft_version token < highest then (Inl (stale_target token highest), a)
      else let a = a\<lparr>sa_highest_fences := dset (ei_intent_id x) (ft_version token) (sa_highest_fences a)\<rparr>;
               key = ei_idempotency_key x
           in case dget (sa_applications a) key of
             Some e \<Rightarrow>
               if other_effect e x then (Inl (AdapterConflict ''target idempotency key maps to another effect''), a)
               else (Inr False, a)
           | None \<Rightarrow>
               let a = a\<lparr>sa_applications := dset key \<lparr>sm_intent_id = ei_intent_id x, sm_effect_digest = effect_digest x,
                           sm_idempotency_key = key, sm_fence_version = ft_version token\<rparr> (sa_applications a),
                         sa_apply_counts := dset key 1 (sa_apply_counts a)\<rparr>
               in if key \<in> set (sa_hard_crashes a) then
                    (Inl (SimulatedProcessCrash ''simulated process death after target apply and before SQLite commit''),
                     a\<lparr>sa_hard_crashes := removeAll key (sa_hard_crashes a)\<rparr>)
                  else if key \<in> set (sa_soft_crashes a) then
                    (Inl (SimulatedAmbiguousOutcome ''target applied without acknowledgement''),
                     a\<lparr>sa_soft_crashes := removeAll key (sa_soft_crashes a)\<rparr>)
                  else (Inr True, a))"

definition was_applied :: "effect_intent \<Rightarrow> sim_adapter \<Rightarrow> kernel_error + bool" where
  "was_applied x a =
     (case dget (sa_applications a) (ei_idempotency_key x) of
        None \<Rightarrow> Inr False
      | Some e \<Rightarrow>
          if other_effect e x then Inl (AdapterConflict ''target status belongs to another effect'') else Inr True)"

definition adapter_compensate ::
  "effect_intent \<Rightarrow> fencing_token \<Rightarrow> sim_adapter \<Rightarrow> (kernel_error + bool) \<times> sim_adapter" where
  "adapter_compensate x token a =
     (if ei_effect_class x \<noteq> REVERSIBLE_WRITE then (Inl (InvalidTransition ''only reversible effects can be compensated''), a)
      else case was_applied x a of
        Inl e \<Rightarrow> (Inl e, a)
      | Inr False \<Rightarrow> (Inl (InvalidTransition ''cannot compensate an effect not observed at target''), a)
      | Inr True \<Rightarrow>
          let highest = int_default (sa_highest_fences a) (ei_intent_id x); key = ei_idempotency_key x in
          if ft_version token < highest then (Inl (stale_target token highest), a)
          else let a = a\<lparr>sa_highest_fences := dset (ei_intent_id x) (ft_version token) (sa_highest_fences a)\<rparr>
               in if key \<in> set (sa_compensated a) then (Inr False, a)
                  else (Inr True, a\<lparr>sa_compensated := key # sa_compensated a,
                                    sa_compensation_counts := dset key 1 (sa_compensation_counts a)\<rparr>))"

definition physical_apply_count :: "sim_adapter \<Rightarrow> string \<Rightarrow> int" where
  "physical_apply_count a key = int_default (sa_apply_counts a) key"

definition physical_compensation_count :: "sim_adapter \<Rightarrow> string \<Rightarrow> int" where
  "physical_compensation_count a key = int_default (sa_compensation_counts a) key"

section \<open>The database and the world\<close>

record outbox_event =
  ob_sequence :: int
  ob_event_id :: string
  ob_intent_id :: string
  ob_event_type :: string
  ob_payload_json :: string
  ob_created_at_ms :: int
  ob_published_at_ms :: "int option"

text \<open>The three tables, with their rows in the order of insertion, and the counter behind
  \<open>AUTOINCREMENT\<close>.\<close>

record effect_db =
  db_intents :: "effect_intent list"
  db_grants :: "approval_grant list"
  db_outbox :: "outbox_event list"
  db_sequence :: int

definition empty_db :: effect_db where
  "empty_db = \<lparr>db_intents = [], db_grants = [], db_outbox = [], db_sequence = 0\<rparr>"

record world =
  wd_db :: effect_db
  wd_adapter :: sim_adapter
  wd_clock_reads :: nat
  wd_uuids :: nat

record broker =
  br_id :: string
  br_keys :: "(string, nat list) dict"
  br_clock :: "nat \<Rightarrow> int"
  br_uuid :: "nat \<Rightarrow> string"

type_synonym 'a kernel = "world \<Rightarrow> (kernel_error + 'a) \<times> world"

definition kreturn :: "'a \<Rightarrow> 'a kernel" where
  "kreturn x w = (Inr x, w)"

definition kraise :: "kernel_error \<Rightarrow> 'a kernel" where
  "kraise e w = (Inl e, w)"

definition kbind :: "'a kernel \<Rightarrow> ('a \<Rightarrow> 'b kernel) \<Rightarrow> 'b kernel" where
  "kbind m f w = (case m w of (Inl e, w') \<Rightarrow> (Inl e, w') | (Inr x, w') \<Rightarrow> f x w')"

definition kguard :: "bool \<Rightarrow> kernel_error \<Rightarrow> 'a kernel \<Rightarrow> 'a kernel" where
  "kguard c e m = (if c then m else kraise e)"

definition read_clock :: "broker \<Rightarrow> int kernel" where
  "read_clock b w = (Inr (br_clock b (wd_clock_reads w)), w\<lparr>wd_clock_reads := Suc (wd_clock_reads w)\<rparr>)"

definition fresh_uuid :: "broker \<Rightarrow> string kernel" where
  "fresh_uuid b w = (Inr (br_uuid b (wd_uuids w)), w\<lparr>wd_uuids := Suc (wd_uuids w)\<rparr>)"

definition get_db :: "effect_db kernel" where
  "get_db w = (Inr (wd_db w), w)"

definition put_db :: "effect_db \<Rightarrow> unit kernel" where
  "put_db d w = (Inr (), w\<lparr>wd_db := d\<rparr>)"

definition on_adapter :: "(sim_adapter \<Rightarrow> (kernel_error + 'a) \<times> sim_adapter) \<Rightarrow> 'a kernel" where
  "on_adapter f w = (case f (wd_adapter w) of (r, a) \<Rightarrow> (r, w\<lparr>wd_adapter := a\<rparr>))"

text \<open>\<open>_transaction\<close>: an exception puts the database back.\<close>

definition transaction :: "'a kernel \<Rightarrow> 'a kernel" where
  "transaction m w =
     (case m w of
        (Inl e, w') \<Rightarrow> (Inl e, w'\<lparr>wd_db := wd_db w\<rparr>)
      | (Inr x, w') \<Rightarrow> (Inr x, w'))"

section \<open>The broker\<close>

definition new_broker ::
  "string \<Rightarrow> string option \<Rightarrow> string \<Rightarrow> (string, nat list) dict \<Rightarrow> (nat \<Rightarrow> int) \<Rightarrow> (nat \<Rightarrow> string) \<Rightarrow> kernel_error + broker" where
  "new_broker database_path broker_id uuid keys clock uuids =
     (let b = (if falsy broker_id then uuid else the broker_id) in
      if database_path = '':memory:'' then Inl (KernelValueError ''a durable broker requires a filesystem SQLite database'')
      else if b = [] then Inl (KernelValueError ''broker_id cannot be empty'')
      else if list_ex (\<lambda>(key_id, secret). key_id = [] \<or> length secret < 32) keys
      then Inl (KernelValueError ''trusted approval keys require names and at least 32 bytes'')
      else Inr \<lparr>br_id = b, br_keys = keys, br_clock = clock, br_uuid = uuids\<rparr>)"

definition find_intent :: "effect_db \<Rightarrow> string \<Rightarrow> effect_intent option" where
  "find_intent d i = List.find (\<lambda>r. ei_intent_id r = i) (db_intents d)"

definition load_intent :: "string \<Rightarrow> effect_intent kernel" where
  "load_intent i = kbind get_db (\<lambda>d. case find_intent d i of None \<Rightarrow> kraise (IntentNotFound i) | Some x \<Rightarrow> kreturn x)"

text \<open>\<open>UPDATE effect_intents SET ... WHERE intent_id = ?\<close>.\<close>

definition update_intent :: "string \<Rightarrow> (effect_intent \<Rightarrow> effect_intent) \<Rightarrow> unit kernel" where
  "update_intent i f =
     kbind get_db (\<lambda>d. put_db (d\<lparr>db_intents := map (\<lambda>r. if ei_intent_id r = i then f r else r) (db_intents d)\<rparr>))"

definition event_payload :: "effect_intent \<Rightarrow> (string \<times> json) list \<Rightarrow> string" where
  "event_payload x details = kernel_json
     (JObj [(''intent_id'', JStr (ei_intent_id x)), (''run_id'', JStr (ei_run_id x)),
            (''state'', JStr (effect_state_value (ei_state x))), (''fence_version'', JInt (ei_fence_version x)),
            (''details'', JObj details)])"

definition outbox_row :: "int \<Rightarrow> string \<Rightarrow> effect_intent \<Rightarrow> string \<Rightarrow> (string \<times> json) list \<Rightarrow> int \<Rightarrow> outbox_event" where
  "outbox_row n event_id x type details now =
     \<lparr>ob_sequence = n, ob_event_id = event_id, ob_intent_id = ei_intent_id x, ob_event_type = type,
      ob_payload_json = event_payload x details, ob_created_at_ms = now, ob_published_at_ms = None\<rparr>"

text \<open>\<open>_enqueue\<close>; the intent was loaded in the same transaction, so the foreign key holds.\<close>

definition enqueue :: "broker \<Rightarrow> effect_intent \<Rightarrow> string \<Rightarrow> (string \<times> json) list \<Rightarrow> unit kernel" where
  "enqueue b x type details =
     kbind (fresh_uuid b) (\<lambda>event_id. kbind (read_clock b) (\<lambda>now. kbind get_db (\<lambda>d.
       if event_id \<in> ob_event_id ` set (db_outbox d) then kraise IntegrityError
       else put_db (d\<lparr>db_outbox := db_outbox d @ [outbox_row (db_sequence d + 1) event_id x type details now],
              db_sequence := db_sequence d + 1\<rparr>))))"

definition set_state :: "broker \<Rightarrow> string \<Rightarrow> effect_state \<Rightarrow> string option \<Rightarrow> string option \<Rightarrow> effect_intent kernel" where
  "set_state b i state grant_id last_error =
     kbind (read_clock b) (\<lambda>now.
     kbind (update_intent i (\<lambda>r. r\<lparr>ei_state := state,
         ei_approval_grant_id := (case grant_id of None \<Rightarrow> ei_approval_grant_id r | Some g \<Rightarrow> Some g),
         ei_last_error := last_error, ei_updated_at_ms := now\<rparr>)) (\<lambda>_.
     load_intent i))"

text \<open>The two ways a row changes: an update and its event, and a change of state and its event.\<close>

definition update_and_enqueue ::
  "broker \<Rightarrow> string \<Rightarrow> (effect_intent \<Rightarrow> effect_intent) \<Rightarrow> string \<Rightarrow> (string \<times> json) list \<Rightarrow> effect_intent kernel" where
  "update_and_enqueue b i f type details =
     kbind (update_intent i f) (\<lambda>_. kbind (load_intent i) (\<lambda>x. kbind (enqueue b x type details) (\<lambda>_. kreturn x)))"

definition set_and_enqueue ::
  "broker \<Rightarrow> string \<Rightarrow> effect_state \<Rightarrow> string option \<Rightarrow> string option \<Rightarrow> string \<Rightarrow> (string \<times> json) list
    \<Rightarrow> effect_intent kernel" where
  "set_and_enqueue b i state grant_id last_error type details =
     kbind (set_state b i state grant_id last_error) (\<lambda>x. kbind (enqueue b x type details) (\<lambda>_. kreturn x))"

definition fence_held :: "effect_intent \<Rightarrow> fencing_token \<Rightarrow> bool" where
  "fence_held x token \<longleftrightarrow>
     ft_intent_id token = ei_intent_id x \<and> ft_version token = ei_fence_version x \<and> Some (ft_owner token) = ei_fence_owner x"

definition stale_fence :: "effect_intent \<Rightarrow> kernel_error" where
  "stale_fence x = StaleFence (''stale fence for '' @ py_repr (ei_intent_id x) @ '': expected ''
     @ (case ei_fence_owner x of None \<Rightarrow> ''None'' | Some s \<Rightarrow> s) @ ''/'' @ int_string (ei_fence_version x))"

definition assert_fence :: "effect_intent \<Rightarrow> fencing_token \<Rightarrow> unit kernel" where
  "assert_fence x token = kguard (fence_held x token) (stale_fence x) (kreturn ())"

definition broker_get :: "string \<Rightarrow> effect_intent kernel" where
  "broker_get i = load_intent i"

text \<open>\<open>cannot <verb> <id> from <state>\<close>.\<close>

definition illegal :: "string \<Rightarrow> effect_intent \<Rightarrow> kernel_error" where
  "illegal verb x = InvalidTransition
     (''cannot '' @ verb @ '' '' @ py_repr (ei_intent_id x) @ '' from '' @ effect_state_value (ei_state x))"

record proposal =
  pr_run_id :: string
  pr_action :: string
  pr_resource :: string
  pr_effect_class :: effect_class
  pr_idempotency_key :: string
  pr_payload :: "(string \<times> json) list"
  pr_compensation_action :: "string option"
  pr_intent_id :: "string option"

definition proposal_error :: "proposal \<Rightarrow> kernel_error option" where
  "proposal_error p =
     (if pr_run_id p = [] \<or> pr_action p = [] \<or> pr_resource p = [] \<or> pr_idempotency_key p = []
      then Some (KernelValueError ''run_id, action, resource, and idempotency_key are required'')
      else if \<not> writes (pr_effect_class p) then Some (KernelValueError ''the durable effect kernel accepts write effects only'')
      else if pr_effect_class p = REVERSIBLE_WRITE \<and> falsy (pr_compensation_action p)
      then Some (KernelValueError ''reversible effects require a compensation action'')
      else None)"

definition same_operation :: "effect_intent \<Rightarrow> proposal \<Rightarrow> bool" where
  "same_operation x p \<longleftrightarrow>
     ei_action x = pr_action p \<and> ei_resource x = pr_resource p \<and> ei_effect_class x = pr_effect_class p
     \<and> ei_payload_json x = kernel_json (JObj (pr_payload p)) \<and> ei_compensation_action x = pr_compensation_action p"

definition proposed_intent :: "proposal \<Rightarrow> string \<Rightarrow> int \<Rightarrow> effect_intent" where
  "proposed_intent p new_id now =
     \<lparr>ei_intent_id = new_id, ei_run_id = pr_run_id p, ei_action = pr_action p, ei_resource = pr_resource p,
      ei_effect_class = pr_effect_class p, ei_idempotency_key = pr_idempotency_key p,
      ei_payload_json = kernel_json (JObj (pr_payload p)), ei_compensation_action = pr_compensation_action p,
      ei_state = PROPOSED, ei_fence_version = 0, ei_fence_owner = None, ei_approval_grant_id = None,
      ei_last_error = None, ei_created_at_ms = now, ei_updated_at_ms = now\<rparr>"

definition insert_intent :: "effect_intent \<Rightarrow> unit kernel" where
  "insert_intent x =
     kbind get_db (\<lambda>d.
       if ei_intent_id x \<in> ei_intent_id ` set (db_intents d) \<or> ei_idempotency_key x \<in> ei_idempotency_key ` set (db_intents d)
       then kraise IntegrityError else put_db (d\<lparr>db_intents := db_intents d @ [x]\<rparr>))"

definition propose_transaction :: "broker \<Rightarrow> proposal \<Rightarrow> string \<Rightarrow> int \<Rightarrow> effect_intent kernel" where
  "propose_transaction b p new_id now =
     transaction (kbind get_db (\<lambda>d.
       case List.find (\<lambda>r. ei_idempotency_key r = pr_idempotency_key p) (db_intents d) of
         Some x \<Rightarrow>
           if same_operation x p then kreturn x
           else kraise (IdempotencyConflict
             (''idempotency key '' @ py_repr (pr_idempotency_key p) @ '' maps to another operation''))
       | None \<Rightarrow>
           kbind (insert_intent (proposed_intent p new_id now)) (\<lambda>_.
           kbind (load_intent new_id) (\<lambda>x.
           kbind (enqueue b x ''effect.proposed'' []) (\<lambda>_.
           kreturn x)))))"

definition broker_propose :: "broker \<Rightarrow> proposal \<Rightarrow> effect_intent kernel" where
  "broker_propose b p =
     (case proposal_error p of
        Some e \<Rightarrow> kraise e
      | None \<Rightarrow>
          kbind (if falsy (pr_intent_id p) then fresh_uuid b else kreturn (the (pr_intent_id p))) (\<lambda>new_id.
          kbind (read_clock b) (\<lambda>now.
          propose_transaction b p new_id now)))"

definition broker_prepare :: "broker \<Rightarrow> string \<Rightarrow> effect_intent kernel" where
  "broker_prepare b i =
     transaction (kbind (load_intent i) (\<lambda>x.
       kguard (ei_state x = PROPOSED) (illegal ''prepare'' x)
         (kbind (read_clock b) (\<lambda>now.
          update_and_enqueue b i (\<lambda>r. r\<lparr>ei_state := PREPARED, ei_fence_version := ei_fence_version r + 1,
            ei_fence_owner := Some (br_id b), ei_updated_at_ms := now\<rparr>) ''effect.prepared'' []))))"

definition broker_acquire_fence :: "broker \<Rightarrow> string \<Rightarrow> effect_intent kernel" where
  "broker_acquire_fence b i =
     transaction (kbind (load_intent i) (\<lambda>x.
       kguard (ei_state x \<in> {PREPARED, APPROVED, AMBIGUOUS}) (illegal ''fence'' x)
         (kbind (read_clock b) (\<lambda>now.
          update_and_enqueue b i (\<lambda>r. r\<lparr>ei_fence_version := ei_fence_version r + 1, ei_fence_owner := Some (br_id b),
            ei_updated_at_ms := now\<rparr>) ''effect.fence_acquired'' [(''owner'', JStr (br_id b))]))))"

definition grant_scoped :: "approval_grant \<Rightarrow> effect_intent \<Rightarrow> bool" where
  "grant_scoped g x \<longleftrightarrow>
     ag_intent_id g = ei_intent_id x \<and> ag_run_id g = ei_run_id x \<and> ag_effect_digest g = effect_digest x
     \<and> ag_resource g = ei_resource x \<and> ag_action g = ei_action x"

text \<open>\<open>hmac.compare_digest\<close> of two strings raises when one of them is not ASCII.\<close>

definition ascii_text :: "string \<Rightarrow> bool" where
  "ascii_text s \<longleftrightarrow> list_all (\<lambda>c. (of_char c :: nat) < 128) s"

definition verify_grant :: "broker \<Rightarrow> effect_intent \<Rightarrow> approval_grant \<Rightarrow> bool \<Rightarrow> unit kernel" where
  "verify_grant b x g enforce_time =
     (case dget (br_keys b) (ag_key_id g) of
        None \<Rightarrow> kraise (InvalidApproval (''untrusted approval key '' @ py_repr (ag_key_id g)))
      | Some secret \<Rightarrow>
          kguard (ascii_text (ag_signature g)) (KernelTypeError ''comparing strings with non-ASCII characters is not supported'')
          (kguard (grant_signature secret g = ag_signature g) (InvalidApproval ''approval signature authentication failed'')
          (kguard (ag_principal g \<noteq> []) (InvalidApproval ''approval principal cannot be empty'')
          (kguard (grant_scoped g x) (InvalidApproval ''approval grant does not match the exact effect scope'')
          (kbind (read_clock b) (\<lambda>now.
             kguard (ag_not_before_ms g < ag_expires_at_ms g) (InvalidApproval ''approval validity interval is empty'')
             (kguard (enforce_time \<longrightarrow> ag_not_before_ms g \<le> now \<and> now < ag_expires_at_ms g)
                (InvalidApproval ''approval grant is not currently valid'') (kreturn ()))))))))"

definition find_grant :: "effect_db \<Rightarrow> string \<Rightarrow> approval_grant option" where
  "find_grant d g = List.find (\<lambda>r. ag_grant_id r = g) (db_grants d)"

definition stored_grant :: "effect_intent \<Rightarrow> approval_grant kernel" where
  "stored_grant x =
     (case ei_approval_grant_id x of
        None \<Rightarrow> kraise (ApprovalRequired ''irreversible effect has no stored approval grant'')
      | Some g \<Rightarrow>
          kbind get_db (\<lambda>d. case find_grant d g of
            None \<Rightarrow> kraise (ApprovalRequired ''stored approval grant is missing'')
          | Some r \<Rightarrow> kreturn r))"

definition insert_grant :: "approval_grant \<Rightarrow> unit kernel" where
  "insert_grant g =
     kbind get_db (\<lambda>d.
       if ag_grant_id g \<in> ag_grant_id ` set (db_grants d) \<or> ag_intent_id g \<in> ag_intent_id ` set (db_grants d)
       then kraise (InvalidApproval ''approval grant was already consumed'')
       else put_db (d\<lparr>db_grants := db_grants d @ [g]\<rparr>))"

text \<open>The part of \<open>approve\<close> that depends on the class: the identifier of the grant to store.\<close>

definition consume_grant :: "broker \<Rightarrow> effect_intent \<Rightarrow> approval_grant option \<Rightarrow> string option kernel" where
  "consume_grant b x grant =
     (if ei_effect_class x = IRREVERSIBLE_WRITE then
        (case grant of
           None \<Rightarrow> kraise (ApprovalRequired ''irreversible effects require an approval grant'')
         | Some g \<Rightarrow>
             kbind (verify_grant b x g True) (\<lambda>_. kbind (insert_grant g) (\<lambda>_. kreturn (Some (ag_grant_id g)))))
      else if grant \<noteq> None then kraise (InvalidApproval ''non-irreversible effects use policy approval, not grants'')
      else kreturn None)"

definition broker_approve :: "broker \<Rightarrow> string \<Rightarrow> fencing_token \<Rightarrow> approval_grant option \<Rightarrow> effect_intent kernel" where
  "broker_approve b i token grant =
     transaction (kbind (load_intent i) (\<lambda>x.
       if ei_state x \<in> {APPROVED, AMBIGUOUS, COMMITTED, COMPENSATED} then
         (if ei_effect_class x = IRREVERSIBLE_WRITE \<and> (grant = None \<or> map_option ag_grant_id grant \<noteq> ei_approval_grant_id x)
          then kraise (InvalidApproval ''approval replay does not match the stored grant'') else kreturn x)
       else kguard (ei_state x = PREPARED) (illegal ''approve'' x)
         (kbind (assert_fence x token) (\<lambda>_.
          kbind (consume_grant b x grant) (\<lambda>grant_id.
          set_and_enqueue b i APPROVED grant_id None ''effect.approved''
            [(''approval_grant_id'', jopt JStr grant_id),
             (''approval_kind'', JStr (if grant = None then ''policy'' else ''grant''))])))))"

definition commit_details :: "bool \<Rightarrow> bool \<Rightarrow> (string \<times> json) list" where
  "commit_details reconciled replay = [(''reconciled'', JBool reconciled), (''target_replay'', JBool replay)]"

definition record_commit :: "broker \<Rightarrow> string \<Rightarrow> (string \<times> json) list \<Rightarrow> (effect_intent \<times> string option) kernel" where
  "record_commit b i details =
     kbind (set_and_enqueue b i COMMITTED None None ''effect.committed'' details) (\<lambda>x. kreturn (x, None))"

definition record_ambiguity :: "broker \<Rightarrow> string \<Rightarrow> string \<Rightarrow> (effect_intent \<times> string option) kernel" where
  "record_ambiguity b i reason =
     kbind (set_and_enqueue b i AMBIGUOUS None (Some reason) ''effect.ambiguous'' [(''reason'', JStr reason)])
       (\<lambda>x. kreturn (x, Some reason))"

text \<open>The \<open>try\<close> around \<open>adapter.execute\<close>: only the ambiguous outcome is caught.\<close>

definition attempt_target :: "broker \<Rightarrow> string \<Rightarrow> effect_intent \<Rightarrow> fencing_token \<Rightarrow> (effect_intent \<times> string option) kernel" where
  "attempt_target b i x token w =
     (case on_adapter (adapter_execute x token) w of
        (Inl (SimulatedAmbiguousOutcome reason), w') \<Rightarrow> record_ambiguity b i reason w'
      | (Inl e, w') \<Rightarrow> (Inl e, w')
      | (Inr applied_now, w') \<Rightarrow> record_commit b i (commit_details (\<not> applied_now) (\<not> applied_now)) w')"

definition target_applied :: "effect_intent \<Rightarrow> bool kernel" where
  "target_applied x = (if ei_state x = AMBIGUOUS then on_adapter (\<lambda>a. (was_applied x a, a)) else kreturn False)"

definition recheck_grant :: "broker \<Rightarrow> effect_intent \<Rightarrow> bool \<Rightarrow> unit kernel" where
  "recheck_grant b x already_applied =
     (if ei_effect_class x = IRREVERSIBLE_WRITE
      then kbind (stored_grant x) (\<lambda>g. verify_grant b x g (\<not> already_applied)) else kreturn ())"

definition commit_transaction :: "broker \<Rightarrow> string \<Rightarrow> fencing_token \<Rightarrow> (effect_intent \<times> string option) kernel" where
  "commit_transaction b i token =
     transaction (kbind (load_intent i) (\<lambda>x.
       if ei_state x \<in> {COMMITTED, COMPENSATED} then kreturn (x, None)
       else kguard (ei_state x \<in> {APPROVED, AMBIGUOUS}) (illegal ''commit'' x)
         (kbind (assert_fence x token) (\<lambda>_.
          kbind (target_applied x) (\<lambda>already_applied.
          kbind (recheck_grant b x already_applied) (\<lambda>_.
          if already_applied then record_commit b i (commit_details True False) else attempt_target b i x token))))))"

definition broker_commit :: "broker \<Rightarrow> string \<Rightarrow> fencing_token \<Rightarrow> effect_intent kernel" where
  "broker_commit b i token =
     kbind (commit_transaction b i token) (\<lambda>(x, ambiguity).
       case ambiguity of None \<Rightarrow> kreturn x | Some reason \<Rightarrow> kraise (AmbiguousCommit reason))"

definition broker_compensate :: "broker \<Rightarrow> string \<Rightarrow> fencing_token \<Rightarrow> effect_intent kernel" where
  "broker_compensate b i token =
     transaction (kbind (load_intent i) (\<lambda>x.
       if ei_state x = COMPENSATED then kreturn x
       else kguard (ei_state x \<in> {COMMITTED, AMBIGUOUS}) (illegal ''compensate'' x)
         (kbind (assert_fence x token) (\<lambda>_.
          kguard (ei_effect_class x = REVERSIBLE_WRITE) (InvalidTransition ''only reversible effects can be compensated'')
          (kguard (\<not> falsy (ei_compensation_action x)) (InvalidTransition ''reversible effect lacks a compensation action'')
          (kbind (on_adapter (adapter_compensate x token)) (\<lambda>_.
           set_and_enqueue b i COMPENSATED None None ''effect.compensated''
             [(''compensation_action'', jopt JStr (ei_compensation_action x))])))))))"

definition broker_abort :: "broker \<Rightarrow> string \<Rightarrow> fencing_token option \<Rightarrow> effect_intent kernel" where
  "broker_abort b i token =
     transaction (kbind (load_intent i) (\<lambda>x.
       if ei_state x = ABORTED then kreturn x
       else kguard (ei_state x \<in> {PROPOSED, PREPARED, APPROVED}) (illegal ''abort'' x)
         (kbind (if ei_state x = PROPOSED then kreturn ()
                 else case token of
                   None \<Rightarrow> kraise (StaleFence ''prepared effects require a fencing token to abort'')
                 | Some t \<Rightarrow> assert_fence x t) (\<lambda>_.
          set_and_enqueue b i ABORTED None None ''effect.aborted'' []))))"

definition pending_outbox :: "int \<Rightarrow> outbox_event list kernel" where
  "pending_outbox limit =
     (if limit \<le> 0 then kraise (KernelValueError ''outbox limit must be positive'')
      else kbind get_db (\<lambda>d.
        kreturn (take (nat limit) (sort_key ob_sequence (filter (\<lambda>e. ob_published_at_ms e = None) (db_outbox d))))))"

definition publish_event :: "int \<Rightarrow> string \<Rightarrow> outbox_event \<Rightarrow> outbox_event" where
  "publish_event now event_id e =
     (if ob_event_id e = event_id \<and> ob_published_at_ms e = None then e\<lparr>ob_published_at_ms := Some now\<rparr> else e)"

definition mark_outbox_published :: "broker \<Rightarrow> string \<Rightarrow> unit kernel" where
  "mark_outbox_published b event_id =
     transaction (kbind (read_clock b) (\<lambda>now. kbind get_db (\<lambda>d.
       let hits = filter (\<lambda>e. ob_event_id e = event_id \<and> ob_published_at_ms e = None) (db_outbox d)
       in kbind (put_db (d\<lparr>db_outbox := map (publish_event now event_id) (db_outbox d)\<rparr>)) (\<lambda>_.
          if hits = [] \<and> event_id \<notin> ob_event_id ` set (db_outbox d) then kraise (KernelKeyError event_id) else kreturn ()))))"

end
