(* ===== verification/Effect_Steps.thy ===== *)
theory Effect_Steps
  imports Effect_Kernel
begin

text \<open>
  The abstract specification of the effect kernel: a step relation on the database and the target that
  says which changes may ever happen, and the simulation theorem that every call of every broker is
  such a step. Programs of the kernel monad are reasoned about with weakest preconditions.
\<close>

section \<open>Weakest preconditions\<close>

definition wp :: "'a kernel \<Rightarrow> (kernel_error + 'a \<Rightarrow> world \<Rightarrow> bool) \<Rightarrow> world \<Rightarrow> bool" where
  "wp m P w = (case m w of (r, w') \<Rightarrow> P r w')"

named_theorems wp_rules "weakest preconditions of the kernel operations"

lemma wp_return [wp_rules]: "wp (kreturn x) P w \<longleftrightarrow> P (Inr x) w"
  by (simp add: wp_def kreturn_def)

lemma wp_raise [wp_rules]: "wp (kraise e) P w \<longleftrightarrow> P (Inl e) w"
  by (simp add: wp_def kraise_def)

lemma wp_bind [wp_rules]:
  "wp (kbind m f) P w \<longleftrightarrow> wp m (\<lambda>r w'. case r of Inl e \<Rightarrow> P (Inl e) w' | Inr x \<Rightarrow> wp (f x) P w') w"
  by (auto simp: wp_def kbind_def split: prod.splits sum.splits)

lemma wp_guard [wp_rules]: "wp (kguard c e m) P w \<longleftrightarrow> (if c then wp m P w else P (Inl e) w)"
  by (simp add: kguard_def wp_raise)

lemma wp_transaction [wp_rules]:
  "wp (transaction m) P w \<longleftrightarrow>
     wp m (\<lambda>r w'. case r of Inl e \<Rightarrow> P (Inl e) (w'\<lparr>wd_db := wd_db w\<rparr>) | Inr x \<Rightarrow> P (Inr x) w') w"
  by (auto simp: wp_def transaction_def split: prod.splits sum.splits)

lemma wp_clock [wp_rules]:
  "wp (read_clock b) P w \<longleftrightarrow> P (Inr (br_clock b (wd_clock_reads w))) (w\<lparr>wd_clock_reads := Suc (wd_clock_reads w)\<rparr>)"
  by (simp add: wp_def read_clock_def)

lemma wp_uuid [wp_rules]:
  "wp (fresh_uuid b) P w \<longleftrightarrow> P (Inr (br_uuid b (wd_uuids w))) (w\<lparr>wd_uuids := Suc (wd_uuids w)\<rparr>)"
  by (simp add: wp_def fresh_uuid_def)

lemma wp_get [wp_rules]: "wp get_db P w \<longleftrightarrow> P (Inr (wd_db w)) w"
  by (simp add: wp_def get_db_def)

lemma wp_put [wp_rules]: "wp (put_db d) P w \<longleftrightarrow> P (Inr ()) (w\<lparr>wd_db := d\<rparr>)"
  by (simp add: wp_def put_db_def)

lemma wp_if [wp_rules]: "wp (if c then m else n) P w \<longleftrightarrow> (if c then wp m P w else wp n P w)"
  by simp

lemma wp_load [wp_rules]:
  "wp (load_intent i) P w \<longleftrightarrow>
     (case find_intent (wd_db w) i of None \<Rightarrow> P (Inl (IntentNotFound i)) w | Some x \<Rightarrow> P (Inr x) w)"
  by (auto simp: load_intent_def wp_rules split: option.splits)

lemma wp_mono: "wp m P w \<Longrightarrow> (\<And>r w'. P r w' \<Longrightarrow> Q r w') \<Longrightarrow> wp m Q w"
  by (auto simp: wp_def split: prod.splits)

section \<open>Rows\<close>

lemma find_intent_Some:
  "find_intent d i = Some x \<Longrightarrow> x \<in> set (db_intents d) \<and> ei_intent_id x = i"
  by (auto simp: find_intent_def find_Some_iff)

lemma find_intent_in:
  assumes "distinct (map ei_intent_id (db_intents d))" and "x \<in> set (db_intents d)"
  shows "find_intent d (ei_intent_id x) = Some x"
proof -
  have "List.find (\<lambda>r. ei_intent_id r = ei_intent_id x) rows = Some x"
    if "distinct (map ei_intent_id rows)" "x \<in> set rows" for rows
    using that by (induction rows) force+
  with assms show ?thesis by (simp add: find_intent_def)
qed

text \<open>The row of \<open>y\<close>, in place of the one with its identifier.\<close>

definition replace_row :: "effect_intent \<Rightarrow> effect_intent list \<Rightarrow> effect_intent list" where
  "replace_row y rows = map (\<lambda>r. if ei_intent_id r = ei_intent_id y then y else r) rows"

text \<open>\<open>recorded d y d'\<close>: \<open>d'\<close> is \<open>d\<close> with the row \<open>y\<close> and one more event, which describes \<open>y\<close>.\<close>

definition recorded :: "effect_db \<Rightarrow> effect_intent \<Rightarrow> effect_db \<Rightarrow> bool" where
  "recorded d y d' \<longleftrightarrow>
     (\<exists>event_id type details now. event_id \<notin> ob_event_id ` set (db_outbox d)
        \<and> d' = d\<lparr>db_intents := replace_row y (db_intents d),
                 db_outbox := db_outbox d @ [outbox_row (db_sequence d + 1) event_id y type details now],
                 db_sequence := db_sequence d + 1\<rparr>)"

lemma recordedI:
  "event_id \<notin> ob_event_id ` set (db_outbox d) \<Longrightarrow>
   recorded d y (d\<lparr>db_intents := replace_row y (db_intents d),
     db_outbox := db_outbox d @ [outbox_row (db_sequence d + 1) event_id y type details now],
     db_sequence := db_sequence d + 1\<rparr>)"
  unfolding recorded_def by blast

lemma replace_row_update:
  assumes "distinct (map ei_intent_id rows)" and "x \<in> set rows" and "ei_intent_id (f x) = ei_intent_id x"
  shows "map (\<lambda>r. if ei_intent_id r = ei_intent_id x then f r else r) rows = replace_row (f x) rows"
proof -
  have "r = x" if "r \<in> set rows" "ei_intent_id r = ei_intent_id x" for r
    using assms(1,2) that by (auto simp: distinct_map dest: inj_onD)
  then show ?thesis by (auto simp: replace_row_def assms(3))
qed

lemma find_replace:
  assumes "distinct (map ei_intent_id (db_intents d))" and "find_intent d i = Some x" and "ei_intent_id y = i"
  shows "find_intent (d\<lparr>db_intents := replace_row y (db_intents d)\<rparr>) i = Some y"
proof -
  have "find (\<lambda>r. ei_intent_id r = i) (replace_row y rows) = Some y" if "find (\<lambda>r. ei_intent_id r = i) rows = Some x" for rows
    using that assms(3) by (induction rows) (auto simp: replace_row_def split: if_splits)
  with assms(2) show ?thesis by (simp add: find_intent_def)
qed

definition rows_distinct :: "effect_db \<Rightarrow> bool" where
  "rows_distinct d \<longleftrightarrow> distinct (map ei_intent_id (db_intents d))"

text \<open>The pattern all changes share: update the row, load it, enqueue an event, go on.\<close>

lemma wp_record:
  assumes "rows_distinct (wd_db w)" and "find_intent (wd_db w) i = Some x"
    and id: "\<And>r. ei_intent_id (f r) = ei_intent_id r"
    and "\<And>w'. wd_adapter w' = wd_adapter w \<Longrightarrow> P (Inl IntegrityError) w'"
    and "\<And>w'. wd_adapter w' = wd_adapter w \<Longrightarrow> recorded (wd_db w) (f x) (wd_db w') \<Longrightarrow> P (Inr (f x)) w'"
  shows "wp (update_and_enqueue b i f type details) P w"
proof -
  have x: "x \<in> set (db_intents (wd_db w))" "ei_intent_id x = i" using find_intent_Some [OF assms(2)] by auto
  have rows: "map (\<lambda>r. if ei_intent_id r = i then f r else r) (db_intents (wd_db w)) = replace_row (f x) (db_intents (wd_db w))"
    using replace_row_update [OF assms(1) [unfolded rows_distinct_def] x(1), of f] x(2) id by simp
  have found: "find_intent (wd_db w\<lparr>db_intents := replace_row (f x) (db_intents (wd_db w))\<rparr>) i = Some (f x)"
    using find_replace [OF assms(1) [unfolded rows_distinct_def] assms(2), of "f x"] id x(2) by simp
  show ?thesis
    by (auto simp: update_and_enqueue_def wp_rules update_intent_def enqueue_def rows found intro!: assms(4,5) recordedI)
qed

lemma kbind_assoc: "kbind (kbind m f) g = kbind m (\<lambda>x. kbind (f x) g)"
  by (rule ext) (auto simp: kbind_def split: prod.splits sum.splits)

section \<open>The abstract machine\<close>

text \<open>The row \<open>_set_state\<close> writes.\<close>

definition restated :: "effect_intent \<Rightarrow> effect_state \<Rightarrow> string option \<Rightarrow> string option \<Rightarrow> int \<Rightarrow> effect_intent" where
  "restated x state grant_id last_error now =
     x\<lparr>ei_state := state, ei_approval_grant_id := (case grant_id of None \<Rightarrow> ei_approval_grant_id x | Some g \<Rightarrow> Some g),
       ei_last_error := last_error, ei_updated_at_ms := now\<rparr>"

definition fenced :: "effect_intent \<Rightarrow> effect_state \<Rightarrow> string \<Rightarrow> int \<Rightarrow> effect_intent" where
  "fenced x state owner now =
     x\<lparr>ei_state := state, ei_fence_version := ei_fence_version x + 1, ei_fence_owner := Some owner,
       ei_updated_at_ms := now\<rparr>"

text \<open>A grant that a trusted key signed for exactly this effect.\<close>

definition grant_authentic :: "(string, nat list) dict \<Rightarrow> approval_grant \<Rightarrow> effect_intent \<Rightarrow> bool" where
  "grant_authentic keys g x \<longleftrightarrow>
     (\<exists>secret. dget keys (ag_key_id g) = Some secret \<and> ag_signature g = grant_signature secret g)
     \<and> ag_principal g \<noteq> [] \<and> grant_scoped g x \<and> ag_not_before_ms g < ag_expires_at_ms g"

definition granted :: "(string, nat list) dict \<Rightarrow> effect_db \<Rightarrow> effect_intent \<Rightarrow> bool" where
  "granted keys d x \<longleftrightarrow>
     (ei_effect_class x = IRREVERSIBLE_WRITE \<longrightarrow>
        (\<exists>g \<in> set (db_grants d). ei_approval_grant_id x = Some (ag_grant_id g) \<and> grant_authentic keys g x))"

type_synonym kernel_state = "effect_db \<times> sim_adapter"

text \<open>May the target be asked to apply \<open>x\<close>?\<close>

definition committable :: "(string, nat list) dict \<Rightarrow> effect_db \<Rightarrow> effect_intent \<Rightarrow> fencing_token \<Rightarrow> bool" where
  "committable keys d x token \<longleftrightarrow> ei_state x \<in> {APPROVED, AMBIGUOUS} \<and> fence_held x token \<and> granted keys d x"

definition compensable :: "effect_intent \<Rightarrow> fencing_token \<Rightarrow> bool" where
  "compensable x token \<longleftrightarrow>
     ei_state x \<in> {COMMITTED, AMBIGUOUS} \<and> fence_held x token \<and> ei_effect_class x = REVERSIBLE_WRITE"

inductive kernel_step :: "(string, nat list) dict \<Rightarrow> kernel_state \<Rightarrow> kernel_state \<Rightarrow> bool" for keys where
  stay: "kernel_step keys s s"
| arm_soft: "kernel_step keys (d, a) (d, arm_ambiguous_after_apply k a)"
| arm_hard: "kernel_step keys (d, a) (d, arm_process_crash_after_apply k a)"
| propose: "proposal_error p = None \<Longrightarrow> i \<notin> ei_intent_id ` set (db_intents d) \<Longrightarrow>
    pr_idempotency_key p \<notin> ei_idempotency_key ` set (db_intents d) \<Longrightarrow>
    recorded (d\<lparr>db_intents := db_intents d @ [proposed_intent p i now]\<rparr>) (proposed_intent p i now) d' \<Longrightarrow>
    kernel_step keys (d, a) (d', a)"
| prepare: "find_intent d i = Some x \<Longrightarrow> ei_state x = PROPOSED \<Longrightarrow> recorded d (fenced x PREPARED owner now) d' \<Longrightarrow>
    kernel_step keys (d, a) (d', a)"
| fence: "find_intent d i = Some x \<Longrightarrow> ei_state x \<in> {PREPARED, APPROVED, AMBIGUOUS} \<Longrightarrow>
    recorded d (fenced x (ei_state x) owner now) d' \<Longrightarrow> kernel_step keys (d, a) (d', a)"
| approve: "find_intent d i = Some x \<Longrightarrow> ei_state x = PREPARED \<Longrightarrow> fence_held x token \<Longrightarrow>
    ei_effect_class x \<noteq> IRREVERSIBLE_WRITE \<Longrightarrow> recorded d (restated x APPROVED None None now) d' \<Longrightarrow>
    kernel_step keys (d, a) (d', a)"
| approve_grant: "find_intent d i = Some x \<Longrightarrow> ei_state x = PREPARED \<Longrightarrow> fence_held x token \<Longrightarrow>
    ei_effect_class x = IRREVERSIBLE_WRITE \<Longrightarrow> grant_authentic keys g x \<Longrightarrow>
    ag_grant_id g \<notin> ag_grant_id ` set (db_grants d) \<Longrightarrow> ag_intent_id g \<notin> ag_intent_id ` set (db_grants d) \<Longrightarrow>
    recorded (d\<lparr>db_grants := db_grants d @ [g]\<rparr>) (restated x APPROVED (Some (ag_grant_id g)) None now) d' \<Longrightarrow>
    kernel_step keys (d, a) (d', a)"
| abort: "find_intent d i = Some x \<Longrightarrow> ei_state x \<in> {PROPOSED, PREPARED, APPROVED} \<Longrightarrow>
    ei_state x = PROPOSED \<or> (\<exists>token. fence_held x token) \<Longrightarrow> recorded d (restated x ABORTED None None now) d' \<Longrightarrow>
    kernel_step keys (d, a) (d', a)"
| attempt_lost: "find_intent d i = Some x \<Longrightarrow> committable keys d x token \<Longrightarrow> adapter_execute x token a = (r, a') \<Longrightarrow>
    kernel_step keys (d, a) (d, a')"
| attempt: "find_intent d i = Some x \<Longrightarrow> committable keys d x token \<Longrightarrow> adapter_execute x token a = (Inr fresh, a') \<Longrightarrow>
    recorded d (restated x COMMITTED None None now) d' \<Longrightarrow> kernel_step keys (d, a) (d', a')"
| attempt_ambiguous: "find_intent d i = Some x \<Longrightarrow> committable keys d x token \<Longrightarrow>
    adapter_execute x token a = (Inl (SimulatedAmbiguousOutcome m), a') \<Longrightarrow>
    recorded d (restated x AMBIGUOUS None (Some m) now) d' \<Longrightarrow> kernel_step keys (d, a) (d', a')"
| reconcile: "find_intent d i = Some x \<Longrightarrow> ei_state x = AMBIGUOUS \<Longrightarrow> fence_held x token \<Longrightarrow> granted keys d x \<Longrightarrow>
    was_applied x a = Inr True \<Longrightarrow> recorded d (restated x COMMITTED None None now) d' \<Longrightarrow> kernel_step keys (d, a) (d', a)"
| compensate_lost: "find_intent d i = Some x \<Longrightarrow> compensable x token \<Longrightarrow> adapter_compensate x token a = (r, a') \<Longrightarrow>
    kernel_step keys (d, a) (d, a')"
| compensate: "find_intent d i = Some x \<Longrightarrow> compensable x token \<Longrightarrow> adapter_compensate x token a = (Inr fresh, a') \<Longrightarrow>
    recorded d (restated x COMPENSATED None None now) d' \<Longrightarrow> kernel_step keys (d, a) (d', a')"
| publish: "kernel_step keys (d, a) (d\<lparr>db_outbox := map (publish_event now event_id) (db_outbox d)\<rparr>, a)"

section \<open>Every call is a step\<close>

abbreviation st :: "world \<Rightarrow> kernel_state" where
  "st w \<equiv> (wd_db w, wd_adapter w)"

lemma wp_set:
  assumes "rows_distinct (wd_db w)" and "find_intent (wd_db w) i = Some x"
    and "\<And>w'. wd_adapter w' = wd_adapter w \<Longrightarrow> P (Inl IntegrityError) w'"
    and "\<And>now w'. wd_adapter w' = wd_adapter w \<Longrightarrow> recorded (wd_db w) (restated x state grant_id last_error now) (wd_db w') \<Longrightarrow>
      P (Inr (restated x state grant_id last_error now)) w'"
  shows "wp (set_and_enqueue b i state grant_id last_error type details) P w"
proof -
  let ?f = "\<lambda>r. restated r state grant_id last_error (br_clock b (wd_clock_reads w))"
  have "wp (update_and_enqueue b i ?f type details) P (w\<lparr>wd_clock_reads := Suc (wd_clock_reads w)\<rparr>)"
    by (rule wp_record) (use assms in \<open>simp_all add: restated_def\<close>)
  then show ?thesis
    by (simp add: set_and_enqueue_def update_and_enqueue_def set_state_def kbind_assoc wp_bind wp_clock restated_def)
qed

text \<open>Each operation, started with distinct rows, makes one step, whatever it returns or raises; a call
  that raises anything but \<open>AmbiguousCommit\<close> leaves the database as it was.\<close>

definition failed :: "kernel_error + 'a \<Rightarrow> bool" where
  "failed r \<longleftrightarrow> (\<exists>e. r = Inl e \<and> (\<forall>m. e \<noteq> AmbiguousCommit m))"

lemma failed_simps [simp]: "\<not> failed (Inr x)" "\<not> failed (Inl (AmbiguousCommit m))"
  by (simp_all add: failed_def)

definition simulates :: "(string, nat list) dict \<Rightarrow> 'a kernel \<Rightarrow> world \<Rightarrow> bool" where
  "simulates keys m w \<longleftrightarrow> wp m (\<lambda>r w'. kernel_step keys (st w) (st w') \<and> (failed r \<longrightarrow> wd_db w' = wd_db w)) w"

lemma wp_assert_fence [wp_rules]:
  "wp (assert_fence x token) P w \<longleftrightarrow> (if fence_held x token then P (Inr ()) w else P (Inl (stale_fence x)) w)"
  by (simp add: assert_fence_def wp_rules)

lemma simulates_prepare:
  assumes "rows_distinct (wd_db w)"
  shows "simulates keys (broker_prepare b i) w"
proof (cases "find_intent (wd_db w) i")
  case None
  then show ?thesis by (simp add: simulates_def broker_prepare_def wp_rules kernel_step.stay)
next
  case (Some x)
  with assms show ?thesis
    by (auto simp: simulates_def broker_prepare_def wp_rules kernel_step.stay fenced_def
        intro!: wp_record kernel_step.prepare [where x = x, unfolded fenced_def])
qed

lemma fence_step:
  "find_intent d i = Some x \<Longrightarrow> ei_state x \<in> {PREPARED, APPROVED, AMBIGUOUS} \<Longrightarrow>
   recorded d (x\<lparr>ei_fence_version := ei_fence_version x + 1, ei_fence_owner := Some owner, ei_updated_at_ms := now\<rparr>) d' \<Longrightarrow>
   kernel_step keys (d, a) (d', a)"
  using kernel_step.fence [of d i x owner now d' keys a] by (simp add: fenced_def)

lemma simulates_acquire:
  assumes "rows_distinct (wd_db w)"
  shows "simulates keys (broker_acquire_fence b i) w"
proof (cases "find_intent (wd_db w) i")
  case None
  then show ?thesis by (simp add: simulates_def broker_acquire_fence_def wp_rules kernel_step.stay)
next
  case (Some x)
  with assms show ?thesis
    by (auto simp: simulates_def broker_acquire_fence_def wp_rules kernel_step.stay
        intro!: wp_record intro: fence_step)
qed

lemma simulates_abort:
  assumes "rows_distinct (wd_db w)"
  shows "simulates keys (broker_abort b i token) w"
proof (cases "find_intent (wd_db w) i")
  case None
  then show ?thesis by (simp add: simulates_def broker_abort_def wp_rules kernel_step.stay)
next
  case (Some x)
  with assms show ?thesis
    by (auto simp: simulates_def broker_abort_def wp_rules kernel_step.stay split: option.splits
        intro!: wp_set kernel_step.abort [where x = x])
qed

lemma wp_load_bind: "find_intent (wd_db w) i = Some x \<Longrightarrow> wp (kbind (load_intent i) f) P w = wp (f x) P w"
  by (simp add: wp_bind wp_load)

lemma wp_fence_bind: "fence_held x token \<Longrightarrow> wp (kbind (assert_fence x token) f) P w = wp (f ()) P w"
  by (simp add: wp_bind wp_assert_fence)

text \<open>Checks that change nothing but the clock.\<close>

lemma wp_verify_grant:
  assumes "\<And>e w'. st w' = st w \<Longrightarrow> \<forall>m. e \<noteq> AmbiguousCommit m \<Longrightarrow> P (Inl e) w'"
    and "\<And>w'. st w' = st w \<Longrightarrow> grant_authentic (br_keys b) g x \<Longrightarrow> P (Inr ()) w'"
  shows "wp (verify_grant b x g enforce_time) P w"
  using assms by (auto simp: verify_grant_def wp_rules grant_authentic_def split: option.splits)

lemma simulates_approve:
  assumes "rows_distinct (wd_db w)"
  shows "simulates (br_keys b) (broker_approve b i token grant) w"
proof (cases "find_intent (wd_db w) i")
  case None
  then show ?thesis by (simp add: simulates_def broker_approve_def wp_rules kernel_step.stay)
next
  case (Some x)
  show ?thesis
  proof (cases "ei_state x = PREPARED \<and> fence_held x token \<and> ei_effect_class x = IRREVERSIBLE_WRITE \<and> grant \<noteq> None")
    case True
    then obtain g where g: "grant = Some g" by auto
    have "find_intent (d\<lparr>db_grants := gs\<rparr>) i = find_intent d i" "rows_distinct (d\<lparr>db_grants := gs\<rparr>) = rows_distinct d" for d gs
      by (simp_all add: find_intent_def rows_distinct_def)
    with True g Some assms show ?thesis
      by (auto simp: simulates_def broker_approve_def consume_grant_def insert_grant_def wp_rules kernel_step.stay
          intro!: wp_verify_grant wp_set [where x = x] kernel_step.approve_grant [where x = x and g = g and i = i and token = token])
  next
    case False
    with Some assms show ?thesis
      by (auto simp: simulates_def broker_approve_def consume_grant_def wp_rules kernel_step.stay
          intro!: wp_set intro: kernel_step.approve)
  qed
qed

lemma wp_adapter [wp_rules]:
  "wp (on_adapter f) P w \<longleftrightarrow> (case f (wd_adapter w) of (r, a) \<Rightarrow> P r (w\<lparr>wd_adapter := a\<rparr>))"
  by (simp add: wp_def on_adapter_def split: prod.splits)

lemma wp_recheck_grant:
  assumes "\<And>e w'. st w' = st w \<Longrightarrow> \<forall>m. e \<noteq> AmbiguousCommit m \<Longrightarrow> P (Inl e) w'"
    and "\<And>w'. st w' = st w \<Longrightarrow> granted (br_keys b) (wd_db w) x \<Longrightarrow> P (Inr ()) w'"
  shows "wp (recheck_grant b x already) P w"
proof -
  have found: "g \<in> set (db_grants d) \<and> ag_grant_id g = i" if "find_grant d i = Some g" for d i g
    using that by (auto simp: find_grant_def find_Some_iff)
  have "wp (verify_grant b x g (\<not> already)) P w"
    if "ei_effect_class x = IRREVERSIBLE_WRITE" "ei_approval_grant_id x = Some i" "find_grant (wd_db w) i = Some g" for g i
    by (rule wp_verify_grant) (use that found [OF that(3)] assms in \<open>auto simp: granted_def\<close>)
  then show ?thesis
    using assms by (auto simp: recheck_grant_def stored_grant_def wp_rules granted_def split: option.splits sum.splits)
qed

text \<open>Recording the outcome of a commit; a failure here is rolled back, but what the target did stays.\<close>

lemma wp_attempt_target:
  assumes "rows_distinct (wd_db w)" and "find_intent (wd_db w) i = Some x"
    and lost: "\<And>e r a' w'. adapter_execute x token (wd_adapter w) = (r, a') \<Longrightarrow> wd_adapter w' = a' \<Longrightarrow>
      (\<forall>m. e \<noteq> AmbiguousCommit m) \<Longrightarrow> P (Inl e) w'"
    and ok: "\<And>fresh a' now w' y. adapter_execute x token (wd_adapter w) = (Inr fresh, a') \<Longrightarrow> wd_adapter w' = a' \<Longrightarrow>
      recorded (wd_db w) (restated x COMMITTED None None now) (wd_db w') \<Longrightarrow> P (Inr (y, None)) w'"
    and ambiguous: "\<And>m a' now w' y. adapter_execute x token (wd_adapter w) = (Inl (SimulatedAmbiguousOutcome m), a') \<Longrightarrow>
      wd_adapter w' = a' \<Longrightarrow> recorded (wd_db w) (restated x AMBIGUOUS None (Some m) now) (wd_db w') \<Longrightarrow>
      P (Inr (y, Some m)) w'"
  shows "wp (attempt_target b i x token) P w"
proof -
  obtain r a' where ex: "adapter_execute x token (wd_adapter w) = (r, a')" by (cases "adapter_execute x token (wd_adapter w)")
  have never: "r \<noteq> Inl (AmbiguousCommit m)" for m
    using ex by (auto simp: adapter_execute_def Let_def stale_target_def split: if_splits option.splits)
  let ?w = "w\<lparr>wd_adapter := a'\<rparr>"
  have start: "wp (attempt_target b i x token) P w \<longleftrightarrow>
      (case r of Inr fresh \<Rightarrow> wp (record_commit b i (commit_details (\<not> fresh) (\<not> fresh))) P ?w
       | Inl (SimulatedAmbiguousOutcome m) \<Rightarrow> wp (record_ambiguity b i m) P ?w
       | Inl e \<Rightarrow> P (Inl e) ?w)"
    by (auto simp: wp_def attempt_target_def on_adapter_def ex split: sum.splits kernel_error.splits)
  show ?thesis
  proof (cases r)
    case (Inr fresh)
    then show ?thesis using assms(1,2) unfolding start
      by (auto simp: record_commit_def wp_rules intro!: wp_set [where x = x] lost [OF ex] ok [OF ex [unfolded Inr]])
  next
    case (Inl e)
    show ?thesis
    proof (cases "\<exists>m. e = SimulatedAmbiguousOutcome m")
      case True
      then obtain m where "e = SimulatedAmbiguousOutcome m" ..
      with Inl ex have ex': "adapter_execute x token (wd_adapter w) = (Inl (SimulatedAmbiguousOutcome m), a')" by simp
      show ?thesis using assms(1,2) Inl \<open>e = _\<close> unfolding start
        by (auto simp: record_ambiguity_def wp_rules intro!: wp_set [where x = x] lost [OF ex'] ambiguous [OF ex'])
    next
      case False
      with Inl never have "P (Inl e) ?w" by (intro lost [OF ex]) auto
      with False Inl show ?thesis unfolding start by (cases e) auto
    qed
  qed
qed

lemma was_applied_read: "wp (target_applied x) P w \<longleftrightarrow>
    (if ei_state x = AMBIGUOUS then P (was_applied x (wd_adapter w)) w else P (Inr False) w)"
  by (simp add: target_applied_def wp_rules)

lemma was_applied_errors: "was_applied x a \<noteq> Inl (AmbiguousCommit m)"
  by (auto simp: was_applied_def split: option.splits)

text \<open>The outcome of the transaction of \<open>commit\<close>: what the second component of its result says is what the
  caller sees, and then the database holds the ambiguous state.\<close>

lemma commit_transaction_step:
  assumes d: "rows_distinct (wd_db w)"
  shows "wp (commit_transaction b i token)
    (\<lambda>r w'. kernel_step (br_keys b) (st w) (st w') \<and> (\<forall>e. r = Inl e \<longrightarrow> wd_db w' = wd_db w \<and> failed r)) w"
    (is "wp _ ?Q w")
proof (cases "find_intent (wd_db w) i")
  case None
  then show ?thesis by (simp add: commit_transaction_def wp_rules kernel_step.stay failed_def)
next
  case (Some x)
  have early: ?thesis if "\<not> (ei_state x \<in> {APPROVED, AMBIGUOUS} \<and> fence_held x token)"
    using Some that by (auto simp: commit_transaction_def wp_rules kernel_step.stay failed_def illegal_def stale_fence_def)
  show ?thesis
  proof (cases "ei_state x \<in> {APPROVED, AMBIGUOUS} \<and> fence_held x token")
    case True
    let ?T = "\<lambda>r w'. case r of Inl e \<Rightarrow> ?Q (Inl e) (w'\<lparr>wd_db := wd_db w\<rparr>) | Inr x \<Rightarrow> ?Q (Inr x) w'"
    have lost: "?Q (Inl e) (w'\<lparr>wd_db := wd_db w\<rparr>)" if "wd_adapter w' = wd_adapter w" "\<forall>m. e \<noteq> AmbiguousCommit m" for e w'
      using that by (simp add: kernel_step.stay failed_def)
    have body: "wp (if already then record_commit b i (commit_details True False) else attempt_target b i x token) ?T v"
      if v: "st v = st w" and g: "granted (br_keys b) (wd_db w) x"
        and already: "already \<longrightarrow> ei_state x = AMBIGUOUS \<and> was_applied x (wd_adapter w) = Inr True" for already v
    proof (cases already)
      case True
      with already d Some v g \<open>ei_state x \<in> _ \<and> _\<close> show ?thesis
        by (auto simp: record_commit_def wp_rules failed_def kernel_step.stay
            intro!: wp_set [where x = x] kernel_step.reconcile [where x = x and i = i and token = token])
    next
      case False
      have c: "committable (br_keys b) (wd_db w) x token"
        using \<open>ei_state x \<in> _ \<and> _\<close> g by (simp add: committable_def)
      have "wp (attempt_target b i x token) ?T v"
        using d Some v c
        by (intro wp_attempt_target [where x = x])
          (auto simp: failed_def intro: kernel_step.attempt_lost kernel_step.attempt kernel_step.attempt_ambiguous)
      with False show ?thesis by simp
    qed
    let ?after = "\<lambda>already. kbind (recheck_grant b x already) (\<lambda>_.
      if already then record_commit b i (commit_details True False) else attempt_target b i x token)"
    have recheck: "wp (?after already) ?T w"
      if "already \<longrightarrow> ei_state x = AMBIGUOUS \<and> was_applied x (wd_adapter w) = Inr True" for already
      unfolding wp_bind
    proof (rule wp_recheck_grant, goal_cases)
      case (1 e w')
      then show ?case by (simp add: kernel_step.stay failed_def)
    next
      case (2 w')
      then have "wp (if already then record_commit b i (commit_details True False) else attempt_target b i x token) ?T w'"
        using that by (intro body) auto
      then show ?case by simp
    qed
    have "wp (kbind (target_applied x) ?after) ?T w"
    proof (cases "ei_state x = AMBIGUOUS")
      case True
      then show ?thesis
      proof (cases "was_applied x (wd_adapter w)")
        case (Inl e)
        with True was_applied_errors [of x "wd_adapter w"] show ?thesis
          by (auto simp: wp_bind [of "target_applied x"] was_applied_read kernel_step.stay failed_def)
      next
        case (Inr already)
        have "wp (?after already) ?T w" using True Inr by (intro recheck) simp
        then show ?thesis
          unfolding wp_bind [of "target_applied x"] was_applied_read if_P [OF True] Inr by (simp only: sum.case)
      qed
    next
      case False
      have "wp (?after False) ?T w" by (intro recheck) simp
      then show ?thesis
        unfolding wp_bind [of "target_applied x"] was_applied_read if_not_P [OF False] by (simp only: sum.case)
    qed
    moreover have "wp (commit_transaction b i token) ?Q w = wp (kbind (target_applied x) ?after) ?T w"
      unfolding commit_transaction_def wp_transaction wp_load_bind [OF Some]
      using True by (auto simp only: wp_fence_bind kguard_def if_True if_False insert_iff empty_iff effect_state.distinct simp_thms)
    ultimately show ?thesis by simp
  qed (rule early)
qed

lemma simulates_commit:
  assumes "rows_distinct (wd_db w)"
  shows "simulates (br_keys b) (broker_commit b i token) w"
  unfolding simulates_def broker_commit_def wp_bind
  by (rule wp_mono [OF commit_transaction_step [OF assms]])
    (auto simp: wp_rules split: sum.splits prod.splits option.splits)

lemma compensate_errors: "adapter_compensate x token a \<noteq> (Inl (AmbiguousCommit m), a')"
  by (auto simp: adapter_compensate_def Let_def stale_target_def was_applied_errors split: if_splits sum.splits bool.splits)

lemma simulates_compensate:
  assumes "rows_distinct (wd_db w)"
  shows "simulates keys (broker_compensate b i token) w"
proof (cases "find_intent (wd_db w) i")
  case None
  then show ?thesis by (simp add: simulates_def broker_compensate_def wp_rules kernel_step.stay)
next
  case (Some x)
  obtain r a' where ex: "adapter_compensate x token (wd_adapter w) = (r, a')"
    by (cases "adapter_compensate x token (wd_adapter w)")
  have lost: "kernel_step keys (st w) (wd_db w, a')" if "compensable x token"
    by (rule kernel_step.compensate_lost [OF Some that ex])
  show ?thesis
  proof (cases r)
    case (Inl e)
    with Some ex lost show ?thesis
      by (auto simp: simulates_def broker_compensate_def wp_rules kernel_step.stay compensable_def)
  next
    case (Inr fresh)
    with Some ex lost assms show ?thesis
      by (auto simp: simulates_def broker_compensate_def wp_rules kernel_step.stay compensable_def
          intro!: wp_set [where x = x] kernel_step.compensate [where x = x and i = i and token = token])
  qed
qed

lemma find_fresh:
  assumes "ei_intent_id x \<notin> ei_intent_id ` set rows"
  shows "List.find (\<lambda>r. ei_intent_id r = ei_intent_id x) (rows @ [x]) = Some x" and "replace_row x (rows @ [x]) = rows @ [x]"
proof -
  show "List.find (\<lambda>r. ei_intent_id r = ei_intent_id x) (rows @ [x]) = Some x"
    using assms by (induction rows) auto
  have "map (\<lambda>r. if ei_intent_id r = ei_intent_id x then x else r) rows = rows"
    using assms by (induction rows) auto
  then show "replace_row x (rows @ [x]) = rows @ [x]" by (simp add: replace_row_def)
qed

text \<open>Inserting a new row and its event.\<close>

lemma wp_insert:
  assumes "ei_intent_id x \<notin> ei_intent_id ` set (db_intents (wd_db w))"
    and "\<And>w'. wd_adapter w' = wd_adapter w \<Longrightarrow> P (Inl IntegrityError) w'"
    and "\<And>w'. wd_adapter w' = wd_adapter w \<Longrightarrow>
      recorded ((wd_db w)\<lparr>db_intents := db_intents (wd_db w) @ [x]\<rparr>) x (wd_db w') \<Longrightarrow> P (Inr x) w'"
  shows "wp (kbind (enqueue b x type details) (\<lambda>_. kreturn x)) P (w\<lparr>wd_db := (wd_db w)\<lparr>db_intents := db_intents (wd_db w) @ [x]\<rparr>\<rparr>)"
proof -
  let ?d = "(wd_db w)\<lparr>db_intents := db_intents (wd_db w) @ [x]\<rparr>"
  have "recorded ?d x (?d\<lparr>db_outbox := db_outbox ?d @ [outbox_row (db_sequence ?d + 1) event_id x type details now],
      db_sequence := db_sequence ?d + 1\<rparr>)" if "event_id \<notin> ob_event_id ` set (db_outbox ?d)" for event_id now
    using recordedI [OF that, of x type details now] by (simp add: find_fresh(2) [OF assms(1)])
  then show ?thesis using assms(2,3) by (simp add: wp_rules enqueue_def)
qed

lemma simulates_propose: "simulates keys (broker_propose b p) w"
proof (cases "proposal_error p")
  case (Some e)
  have "\<forall>m. e \<noteq> AmbiguousCommit m" using Some by (auto simp: proposal_error_def split: if_splits)
  with Some show ?thesis by (simp add: simulates_def broker_propose_def wp_rules kernel_step.stay)
next
  case None
  let ?d = "wd_db w"
  let ?P = "\<lambda>r w'. kernel_step keys (st w) (st w') \<and> (failed r \<longrightarrow> wd_db w' = wd_db w)"
  have tx: "wp (propose_transaction b p new_id now) ?P v" if v: "st v = st w" for new_id now v
  proof (cases "List.find (\<lambda>r. ei_idempotency_key r = pr_idempotency_key p) (db_intents ?d)")
    case (Some x)
    with v show ?thesis by (simp add: propose_transaction_def wp_rules kernel_step.stay)
  next
    case key: None
    let ?x = "proposed_intent p new_id now"
    have ids: "ei_intent_id ?x = new_id" "ei_idempotency_key ?x = pr_idempotency_key p" by (simp_all add: proposed_intent_def)
    have fresh_key: "pr_idempotency_key p \<notin> ei_idempotency_key ` set (db_intents ?d)"
      using key by (auto simp: find_None_iff)
    show ?thesis
    proof (cases "new_id \<in> ei_intent_id ` set (db_intents ?d)")
      case True
      with key v ids show ?thesis by (simp add: propose_transaction_def wp_rules insert_intent_def kernel_step.stay)
    next
      case False
      with ids have new: "ei_intent_id ?x \<notin> ei_intent_id ` set (db_intents (wd_db v))" using v by simp
      have found: "find_intent (?d\<lparr>db_intents := db_intents ?d @ [?x]\<rparr>) new_id = Some ?x"
        using find_fresh(1) [OF new] v ids by (simp add: find_intent_def)
      have "wp (kbind (enqueue b ?x ''effect.proposed'' []) (\<lambda>_. kreturn ?x))
          (\<lambda>r w'. case r of Inl e \<Rightarrow> ?P (Inl e) (w'\<lparr>wd_db := wd_db v\<rparr>) | Inr y \<Rightarrow> ?P (Inr y) w')
          (v\<lparr>wd_db := (wd_db v)\<lparr>db_intents := db_intents (wd_db v) @ [?x]\<rparr>\<rparr>)"
        by (rule wp_insert [OF new])
          (use v False fresh_key None in \<open>auto simp: kernel_step.stay intro: kernel_step.propose\<close>)
      with key v ids False fresh_key found show ?thesis
        by (simp only: propose_transaction_def wp_transaction wp_bind [of get_db] wp_get sum.case option.case)
          (simp add: insert_intent_def wp_rules)
    qed
  qed
  show ?thesis
    using None tx by (simp add: simulates_def broker_propose_def wp_rules)
qed

lemma simulates_publish: "simulates keys (mark_outbox_published b event_id) w"
  by (auto simp: simulates_def mark_outbox_published_def wp_rules Let_def kernel_step.stay intro: kernel_step.publish)

section \<open>Calls and runs\<close>

datatype kernel_call =
    Propose proposal
  | Prepare string
  | AcquireFence string
  | Approve string fencing_token "approval_grant option"
  | Commit string fencing_token
  | Compensate string fencing_token
  | Abort string "fencing_token option"
  | MarkPublished string
  | ArmAmbiguous string
  | ArmCrash string

definition discard :: "'a kernel \<Rightarrow> unit kernel" where
  "discard m = kbind m (\<lambda>_. kreturn ())"

fun run_call :: "broker \<Rightarrow> kernel_call \<Rightarrow> unit kernel" where
  "run_call b (Propose p) = discard (broker_propose b p)"
| "run_call b (Prepare i) = discard (broker_prepare b i)"
| "run_call b (AcquireFence i) = discard (broker_acquire_fence b i)"
| "run_call b (Approve i token grant) = discard (broker_approve b i token grant)"
| "run_call b (Commit i token) = discard (broker_commit b i token)"
| "run_call b (Compensate i token) = discard (broker_compensate b i token)"
| "run_call b (Abort i token) = discard (broker_abort b i token)"
| "run_call b (MarkPublished e) = mark_outbox_published b e"
| "run_call b (ArmAmbiguous k) = on_adapter (\<lambda>a. (Inr (), arm_ambiguous_after_apply k a))"
| "run_call b (ArmCrash k) = on_adapter (\<lambda>a. (Inr (), arm_process_crash_after_apply k a))"

lemma simulates_discard: "simulates keys m w \<Longrightarrow> simulates keys (discard m) w"
  unfolding simulates_def discard_def wp_bind
  by (erule wp_mono) (auto simp: wp_rules failed_def split: sum.splits)

lemma call_simulates:
  assumes "rows_distinct (wd_db w)"
  shows "simulates (br_keys b) (run_call b c) w"
proof -
  have "simulates (br_keys b) (run_call b (ArmAmbiguous k)) w" "simulates (br_keys b) (run_call b (ArmCrash k)) w" for k
    by (simp_all add: simulates_def wp_rules kernel_step.arm_soft kernel_step.arm_hard)
  with assms show ?thesis
    by (cases c) (simp_all add: simulates_discard simulates_propose simulates_prepare simulates_acquire simulates_approve
        simulates_commit simulates_compensate simulates_abort simulates_publish)
qed

text \<open>A program of the kernel is a list of calls by brokers that trust the same keys.\<close>

definition kernel_next :: "(string, nat list) dict \<Rightarrow> world \<Rightarrow> broker \<times> kernel_call \<Rightarrow> world" where
  "kernel_next keys w bc = snd (run_call ((fst bc)\<lparr>br_keys := keys\<rparr>) (snd bc) w)"

definition kernel_run :: "(string, nat list) dict \<Rightarrow> (broker \<times> kernel_call) list \<Rightarrow> world" where
  "kernel_run keys bcs =
     foldl (kernel_next keys) \<lparr>wd_db = empty_db, wd_adapter = new_adapter, wd_clock_reads = 0, wd_uuids = 0\<rparr> bcs"

lemma next_is_step:
  assumes "rows_distinct (wd_db w)"
  shows "kernel_step keys (st w) (st (kernel_next keys w bc))"
  using call_simulates [OF assms, of "(fst bc)\<lparr>br_keys := keys\<rparr>" "snd bc"]
  by (auto simp: simulates_def wp_def kernel_next_def split: prod.splits)

end
