(* ===== verification/Effect_Inv.thy ===== *)
theory Effect_Inv
  imports Effect_Steps Interfaces
begin

text \<open>
  The invariant of the effect kernel: what is always true of the database and the target together,
  whatever the brokers call, crash or race for. It is proved by cases over the abstract steps, first for
  the rows alone, then for the outbox, then for the rows and the target.
\<close>

section \<open>How one step changes the rows\<close>

text \<open>The immutable part of an intent.\<close>

definition same_effect :: "effect_intent \<Rightarrow> effect_intent \<Rightarrow> bool" where
  "same_effect x y \<longleftrightarrow>
     ei_intent_id y = ei_intent_id x \<and> ei_run_id y = ei_run_id x \<and> ei_action y = ei_action x
     \<and> ei_resource y = ei_resource x \<and> ei_effect_class y = ei_effect_class x
     \<and> ei_idempotency_key y = ei_idempotency_key x \<and> ei_payload_json y = ei_payload_json x
     \<and> ei_compensation_action y = ei_compensation_action x \<and> ei_created_at_ms y = ei_created_at_ms x"

lemma same_effect_refl [simp]: "same_effect x x"
  by (simp add: same_effect_def)

lemma same_effect_trans: "same_effect x y \<Longrightarrow> same_effect y z \<Longrightarrow> same_effect x z"
  by (simp add: same_effect_def)

lemma same_effect_digest: "same_effect x y \<Longrightarrow> effect_digest y = effect_digest x"
  by (simp add: same_effect_def effect_digest_def intent_payload_def)

lemma same_effect_other: "same_effect x y \<Longrightarrow> other_effect e y = other_effect e x"
  by (simp add: other_effect_def same_effect_digest) (simp add: same_effect_def)

lemma same_effect_authentic: "same_effect x y \<Longrightarrow> grant_authentic keys g y = grant_authentic keys g x"
  by (simp add: grant_authentic_def grant_scoped_def same_effect_digest) (simp add: same_effect_def)

lemma same_restated [simp]: "same_effect x (restated x s g e now)" "same_effect x (fenced x s owner now)"
  by (simp_all add: same_effect_def restated_def fenced_def)

lemma restated_simps [simp]:
  "ei_state (restated x s g e now) = s" "ei_fence_version (restated x s g e now) = ei_fence_version x"
  "ei_fence_owner (restated x s g e now) = ei_fence_owner x" "ei_intent_id (restated x s g e now) = ei_intent_id x"
  "ei_idempotency_key (restated x s g e now) = ei_idempotency_key x"
  "ei_effect_class (restated x s g e now) = ei_effect_class x"
  "ei_approval_grant_id (restated x s g e now) = (case g of None \<Rightarrow> ei_approval_grant_id x | Some h \<Rightarrow> Some h)"
  by (simp_all add: restated_def)

lemma fenced_simps [simp]:
  "ei_state (fenced x s owner now) = s" "ei_fence_version (fenced x s owner now) = ei_fence_version x + 1"
  "ei_fence_owner (fenced x s owner now) = Some owner" "ei_intent_id (fenced x s owner now) = ei_intent_id x"
  "ei_idempotency_key (fenced x s owner now) = ei_idempotency_key x"
  "ei_effect_class (fenced x s owner now) = ei_effect_class x"
  "ei_approval_grant_id (fenced x s owner now) = ei_approval_grant_id x"
  by (simp_all add: fenced_def)

text \<open>The legal transitions of one intent: the automaton the kernel implements.\<close>

definition legal :: "(effect_state \<times> effect_state) set" where
  "legal = {(PROPOSED, PREPARED), (PROPOSED, ABORTED), (PREPARED, PREPARED), (PREPARED, APPROVED), (PREPARED, ABORTED),
     (APPROVED, APPROVED), (APPROVED, COMMITTED), (APPROVED, AMBIGUOUS), (APPROVED, ABORTED),
     (AMBIGUOUS, AMBIGUOUS), (AMBIGUOUS, COMMITTED), (AMBIGUOUS, COMPENSATED), (COMMITTED, COMPENSATED)}"

definition row_step :: "effect_intent \<Rightarrow> effect_intent \<Rightarrow> bool" where
  "row_step x y \<longleftrightarrow>
     same_effect x y \<and> (ei_state x, ei_state y) \<in> legal \<and> ei_fence_version x \<le> ei_fence_version y
     \<and> (ei_state x = ei_state y \<and> ei_state x \<noteq> AMBIGUOUS \<longrightarrow> ei_fence_version x < ei_fence_version y)
     \<and> (ei_state y = PREPARED \<longrightarrow> ei_fence_owner y \<noteq> None \<and> ei_fence_version x < ei_fence_version y
          \<and> ei_approval_grant_id y = ei_approval_grant_id x)
     \<and> (ei_fence_owner x \<noteq> None \<longrightarrow> ei_fence_owner y \<noteq> None)
     \<and> (ei_approval_grant_id x \<noteq> None \<longrightarrow> ei_state x \<noteq> PREPARED \<longrightarrow> ei_approval_grant_id y = ei_approval_grant_id x)"

text \<open>The three shapes of a step.\<close>

definition rows_same :: "effect_db \<Rightarrow> effect_db \<Rightarrow> bool" where
  "rows_same d d' \<longleftrightarrow> db_intents d' = db_intents d \<and> db_grants d' = db_grants d"

definition row_added :: "effect_db \<Rightarrow> effect_db \<Rightarrow> bool" where
  "row_added d d' \<longleftrightarrow>
     (\<exists>p i now. proposal_error p = None \<and> i \<notin> ei_intent_id ` set (db_intents d)
        \<and> pr_idempotency_key p \<notin> ei_idempotency_key ` set (db_intents d)
        \<and> db_intents d' = db_intents d @ [proposed_intent p i now] \<and> db_grants d' = db_grants d)"

definition row_changed :: "effect_db \<Rightarrow> effect_db \<Rightarrow> effect_intent \<Rightarrow> effect_intent \<Rightarrow> bool" where
  "row_changed d d' x y \<longleftrightarrow>
     x \<in> set (db_intents d) \<and> db_intents d' = replace_row y (db_intents d) \<and> set (db_grants d) \<subseteq> set (db_grants d')
     \<and> row_step x y"

lemma recorded_rows: "recorded d y d' \<Longrightarrow> db_intents d' = replace_row y (db_intents d) \<and> db_grants d' = db_grants d"
  by (auto simp: recorded_def)

lemma proposed_simps [simp]:
  "ei_intent_id (proposed_intent p i now) = i" "ei_idempotency_key (proposed_intent p i now) = pr_idempotency_key p"
  "ei_state (proposed_intent p i now) = PROPOSED" "ei_fence_version (proposed_intent p i now) = 0"
  "ei_fence_owner (proposed_intent p i now) = None" "ei_effect_class (proposed_intent p i now) = pr_effect_class p"
  "ei_approval_grant_id (proposed_intent p i now) = None"
  by (simp_all add: proposed_intent_def)

lemma recorded_new:
  assumes "recorded (d\<lparr>db_intents := db_intents d @ [x]\<rparr>) x d'" and "ei_intent_id x \<notin> ei_intent_id ` set (db_intents d)"
  shows "db_intents d' = db_intents d @ [x] \<and> db_grants d' = db_grants d"
  using recorded_rows [OF assms(1)] find_fresh(2) [OF assms(2)] by simp

lemma changedI:
  assumes "find_intent d i = Some x" and "recorded d y d'" and "row_step x y"
  shows "row_changed d d' x y"
  using assms recorded_rows [OF assms(2)] find_intent_Some [OF assms(1)] by (auto simp: row_changed_def)

lemma step_shape:
  assumes "kernel_step keys (d, a) (d', a')"
  shows "rows_same d d' \<or> (row_added d d' \<and> a' = a) \<or> (\<exists>x y. row_changed d d' x y)"
  using assms
proof (cases rule: kernel_step.cases)
  case (propose p i now)
  then have "row_added d d'" using recorded_new [OF propose(5)] unfolding row_added_def by auto
  with propose show ?thesis by blast
next
  case (prepare i x owner now)
  then have "row_changed d d' x (fenced x PREPARED owner now)"
    by (intro changedI) (auto simp: row_step_def legal_def)
  then show ?thesis by blast
next
  case (fence i x owner now)
  then have "row_changed d d' x (fenced x (ei_state x) owner now)"
    by (intro changedI) (auto simp: row_step_def legal_def)
  then show ?thesis by blast
next
  case (approve i x token now)
  then have "row_changed d d' x (restated x APPROVED None None now)"
    by (intro changedI) (auto simp: row_step_def legal_def)
  then show ?thesis by blast
next
  case (approve_grant i x token g now)
  let ?y = "restated x APPROVED (Some (ag_grant_id g)) None now"
  have "row_step x ?y" using approve_grant by (auto simp: row_step_def legal_def)
  then have "row_changed d d' x ?y"
    using recorded_rows [OF approve_grant(9)] find_intent_Some [OF approve_grant(2)] by (auto simp: row_changed_def)
  then show ?thesis by blast
next
  case (abort i x now)
  then have "row_changed d d' x (restated x ABORTED None None now)"
    by (intro changedI) (auto simp: row_step_def legal_def)
  then show ?thesis by blast
next
  case (attempt i x token fresh now)
  then have "row_changed d d' x (restated x COMMITTED None None now)"
    by (intro changedI) (auto simp: row_step_def legal_def committable_def)
  then show ?thesis by blast
next
  case (attempt_ambiguous i x token m now)
  then have "row_changed d d' x (restated x AMBIGUOUS None (Some m) now)"
    by (intro changedI) (auto simp: row_step_def legal_def committable_def)
  then show ?thesis by blast
next
  case (reconcile i x token now)
  then have "row_changed d d' x (restated x COMMITTED None None now)"
    by (intro changedI) (auto simp: row_step_def legal_def)
  then show ?thesis by blast
next
  case (compensate i x token fresh now)
  then have "row_changed d d' x (restated x COMPENSATED None None now)"
    by (intro changedI) (auto simp: row_step_def legal_def compensable_def)
  then show ?thesis by blast
qed (auto simp: rows_same_def)

section \<open>Rows\<close>

lemma in_replace_row: "z \<in> set (replace_row y rows) \<Longrightarrow> z = y \<or> (z \<in> set rows \<and> ei_intent_id z \<noteq> ei_intent_id y)"
  by (auto simp: replace_row_def split: if_splits)

lemma replace_row_keeps: "z \<in> set rows \<Longrightarrow> ei_intent_id z \<noteq> ei_intent_id y \<Longrightarrow> z \<in> set (replace_row y rows)"
  by (force simp: replace_row_def)

lemma replace_row_has: "x \<in> set rows \<Longrightarrow> ei_intent_id x = ei_intent_id y \<Longrightarrow> y \<in> set (replace_row y rows)"
  by (force simp: replace_row_def)

lemma replace_row_ids [simp]: "map ei_intent_id (replace_row y rows) = map ei_intent_id rows"
  by (simp add: replace_row_def)

lemma replace_row_keys:
  assumes "distinct (map ei_intent_id rows)" and "x \<in> set rows" and "same_effect x y"
  shows "map ei_idempotency_key (replace_row y rows) = map ei_idempotency_key rows"
proof -
  have "r = x" if "r \<in> set rows" "ei_intent_id r = ei_intent_id y" for r
    using assms that by (auto simp: same_effect_def distinct_map dest: inj_onD)
  with assms(3) show ?thesis by (auto simp: replace_row_def same_effect_def)
qed

definition row_ok :: "effect_intent \<Rightarrow> bool" where
  "row_ok x \<longleftrightarrow>
     writes (ei_effect_class x) \<and> 0 \<le> ei_fence_version x
     \<and> (ei_state x = PROPOSED \<longrightarrow> ei_fence_version x = 0 \<and> ei_fence_owner x = None)
     \<and> (ei_state x \<notin> {PROPOSED, ABORTED} \<longrightarrow> 0 < ei_fence_version x \<and> ei_fence_owner x \<noteq> None)
     \<and> (ei_state x \<in> {PROPOSED, PREPARED} \<longrightarrow> ei_approval_grant_id x = None)"

definition rows_ok :: "effect_db \<Rightarrow> bool" where
  "rows_ok d \<longleftrightarrow>
     distinct (map ei_intent_id (db_intents d)) \<and> distinct (map ei_idempotency_key (db_intents d))
     \<and> (\<forall>x \<in> set (db_intents d). row_ok x)"

lemma rows_ok_step:
  assumes "kernel_step keys (d, a) (d', a')" and ok: "rows_ok d"
  shows "rows_ok d'"
proof -
  consider "rows_same d d'" | "row_added d d'" | x y where "row_changed d d' x y" using step_shape [OF assms(1)] by blast
  then show ?thesis
  proof cases
    case 1
    with ok show ?thesis by (simp add: rows_ok_def rows_same_def)
  next
    case 2
    then obtain p i now where "proposal_error p = None" "i \<notin> ei_intent_id ` set (db_intents d)"
      "pr_idempotency_key p \<notin> ei_idempotency_key ` set (db_intents d)" "db_intents d' = db_intents d @ [proposed_intent p i now]"
      unfolding row_added_def by blast
    moreover from this(1) have "writes (pr_effect_class p)" by (auto simp: proposal_error_def split: if_splits)
    ultimately show ?thesis using ok by (auto simp: rows_ok_def row_ok_def)
  next
    case (3 x y)
    then have x: "x \<in> set (db_intents d)" "db_intents d' = replace_row y (db_intents d)" and s: "row_step x y"
      by (simp_all add: row_changed_def)
    have same: "same_effect x y" using s by (simp add: row_step_def)
    have "row_ok x" using ok x(1) by (simp add: rows_ok_def)
    with s have "row_ok y"
      by (cases "ei_state x"; cases "ei_state y") (auto simp: row_ok_def row_step_def legal_def same_effect_def)
    with ok x replace_row_keys [OF _ x(1) same] show ?thesis
      by (auto simp: rows_ok_def dest: in_replace_row)
  qed
qed

lemma rows_ok_distinct: "rows_ok d \<Longrightarrow> rows_distinct d"
  by (simp add: rows_ok_def rows_distinct_def)

section \<open>The outbox\<close>

text \<open>The events of one intent, oldest first.\<close>

definition events_of :: "effect_db \<Rightarrow> string \<Rightarrow> outbox_event list" where
  "events_of d i = filter (\<lambda>e. ob_intent_id e = i) (db_outbox d)"

text \<open>Sequence numbers are \<open>1, 2, \<dots>\<close>, identifiers are unique, and the latest event of an intent describes
  the row as it is.\<close>

definition mirrored :: "effect_db \<Rightarrow> effect_intent \<Rightarrow> bool" where
  "mirrored d x \<longleftrightarrow>
     events_of d (ei_intent_id x) \<noteq> []
     \<and> (\<exists>details. ob_payload_json (last (events_of d (ei_intent_id x))) = event_payload x details)"

definition outbox_ok :: "effect_db \<Rightarrow> bool" where
  "outbox_ok d \<longleftrightarrow>
     map ob_sequence (db_outbox d) = map int [1..<Suc (length (db_outbox d))]
     \<and> db_sequence d = int (length (db_outbox d)) \<and> distinct (map ob_event_id (db_outbox d))
     \<and> (\<forall>x \<in> set (db_intents d). mirrored d x)"

lemma recorded_outbox:
  assumes "recorded d y d'" and ok: "outbox_ok (d\<lparr>db_intents := rows\<rparr>)"
    and rows: "\<And>x. x \<in> set (db_intents d') \<Longrightarrow> x = y \<or> (x \<in> set rows \<and> ei_intent_id x \<noteq> ei_intent_id y)"
  shows "outbox_ok d'"
proof -
  from assms(1) obtain event_id type details now where new: "event_id \<notin> ob_event_id ` set (db_outbox d)"
    and d': "d' = d\<lparr>db_intents := replace_row y (db_intents d),
                 db_outbox := db_outbox d @ [outbox_row (db_sequence d + 1) event_id y type details now],
                 db_sequence := db_sequence d + 1\<rparr>"
    unfolding recorded_def by blast
  have y: "mirrored d' y" by (auto simp: mirrored_def events_of_def d' outbox_row_def)
  have "mirrored d' x" if x: "x \<in> set rows" "ei_intent_id x \<noteq> ei_intent_id y" for x
  proof -
    have "events_of d' (ei_intent_id x) = events_of (d\<lparr>db_intents := rows\<rparr>) (ei_intent_id x)"
      using x(2) by (simp add: events_of_def d' outbox_row_def)
    with ok x(1) show ?thesis by (simp add: outbox_ok_def mirrored_def)
  qed
  with y rows have "\<forall>x \<in> set (db_intents d'). mirrored d' x" by blast
  with ok new show ?thesis by (simp add: outbox_ok_def d' outbox_row_def)
qed

lemma publish_simps [simp]:
  "ob_sequence (publish_event now i e) = ob_sequence e" "ob_event_id (publish_event now i e) = ob_event_id e"
  "ob_intent_id (publish_event now i e) = ob_intent_id e" "ob_payload_json (publish_event now i e) = ob_payload_json e"
  by (simp_all add: publish_event_def)

lemma outbox_ok_publish:
  assumes "outbox_ok d"
  shows "outbox_ok (d\<lparr>db_outbox := map (publish_event now event_id) (db_outbox d)\<rparr>)" (is "outbox_ok ?d")
proof -
  have ev: "events_of ?d i = map (publish_event now event_id) (events_of d i)" for i
    by (simp add: events_of_def filter_map o_def)
  have "mirrored ?d x" if "mirrored d x" for x
    using that by (auto simp: mirrored_def ev last_map)
  with assms show ?thesis by (simp add: outbox_ok_def o_def)
qed

lemma outbox_ok_grants: "outbox_ok (d\<lparr>db_grants := gs\<rparr>) = outbox_ok d"
  by (simp add: outbox_ok_def mirrored_def events_of_def)

lemma outbox_ok_record:
  assumes "recorded d y d'" and "outbox_ok d"
  shows "outbox_ok d'"
proof -
  have "d\<lparr>db_intents := db_intents d\<rparr> = d" by simp
  with recorded_outbox [OF assms(1), of "db_intents d"] assms(2) recorded_rows [OF assms(1)] show ?thesis
    by (auto dest: in_replace_row)
qed

lemma outbox_ok_step:
  assumes "kernel_step keys (d, a) (d', a')" and "outbox_ok d"
  shows "outbox_ok d'"
  using assms(1)
proof (cases rule: kernel_step.cases)
  case (propose p i now)
  let ?x = "proposed_intent p i now"
  show ?thesis
  proof (rule recorded_outbox [OF propose(5), of "db_intents d"])
    show "outbox_ok (d\<lparr>db_intents := db_intents d @ [?x]\<rparr>\<lparr>db_intents := db_intents d\<rparr>)" using assms(2) by simp
    show "x = ?x \<or> (x \<in> set (db_intents d) \<and> ei_intent_id x \<noteq> ei_intent_id ?x)" if "x \<in> set (db_intents d')" for x
      using that recorded_rows [OF propose(5)] by (auto dest!: in_replace_row)
  qed
next
  case (approve_grant i x token g now)
  then show ?thesis using assms(2) by (auto intro: outbox_ok_record simp: outbox_ok_grants)
next
  case (publish now event_id)
  then show ?thesis using assms(2) by (simp add: outbox_ok_publish)
qed (use assms(2) in \<open>auto intro: outbox_ok_record\<close>)

section \<open>The target\<close>

definition applied_as :: "effect_intent \<Rightarrow> sim_adapter \<Rightarrow> bool" where
  "applied_as x a \<longleftrightarrow> (\<exists>e. dget (sa_applications a) (ei_idempotency_key x) = Some e \<and> \<not> other_effect e x)"

definition application_of :: "effect_intent \<Rightarrow> fencing_token \<Rightarrow> simulated_application" where
  "application_of x token = \<lparr>sm_intent_id = ei_intent_id x, sm_effect_digest = effect_digest x,
     sm_idempotency_key = ei_idempotency_key x, sm_fence_version = ft_version token\<rparr>"

lemma application_of_same [simp]: "\<not> other_effect (application_of x token) x" "sm_fence_version (application_of x token) = ft_version token"
  by (simp_all add: other_effect_def application_of_def)

text \<open>What one attempt does to the target: at most the one entry is added, under a key that was free.\<close>

lemma execute_cases:
  assumes "adapter_execute x token a = (r, a')"
  obtains (stale) e where "r = Inl e" "\<forall>m. e \<noteq> SimulatedAmbiguousOutcome m" "a' = a"
  | (seen) "int_default (sa_highest_fences a) (ei_intent_id x) \<le> ft_version token"
      "a' = a\<lparr>sa_highest_fences := dset (ei_intent_id x) (ft_version token) (sa_highest_fences a)\<rparr>"
      "(r = Inr False \<and> applied_as x a) \<or> (\<exists>m. r = Inl (AdapterConflict m))"
  | (applied) soft hard where "int_default (sa_highest_fences a) (ei_intent_id x) \<le> ft_version token"
      "dget (sa_applications a) (ei_idempotency_key x) = None"
      "a' = a\<lparr>sa_highest_fences := dset (ei_intent_id x) (ft_version token) (sa_highest_fences a),
              sa_applications := dset (ei_idempotency_key x) (application_of x token) (sa_applications a),
              sa_apply_counts := dset (ei_idempotency_key x) 1 (sa_apply_counts a),
              sa_soft_crashes := soft, sa_hard_crashes := hard\<rparr>"
proof -
  let ?fenced = "a\<lparr>sa_highest_fences := dset (ei_intent_id x) (ft_version token) (sa_highest_fences a)\<rparr>"
  let ?applied = "?fenced\<lparr>sa_applications := dset (ei_idempotency_key x) (application_of x token) (sa_applications a),
    sa_apply_counts := dset (ei_idempotency_key x) 1 (sa_apply_counts a)\<rparr>"
  show ?thesis
  proof (cases "ft_version token < int_default (sa_highest_fences a) (ei_intent_id x)")
    case True
    with assms show ?thesis by (intro stale) (auto simp: adapter_execute_def stale_target_def)
  next
    case live: False
    show ?thesis
    proof (cases "dget (sa_applications a) (ei_idempotency_key x)")
      case None
      have "a' = ?applied \<or> a' = ?applied\<lparr>sa_hard_crashes := removeAll (ei_idempotency_key x) (sa_hard_crashes a)\<rparr>
          \<or> a' = ?applied\<lparr>sa_soft_crashes := removeAll (ei_idempotency_key x) (sa_soft_crashes a)\<rparr>"
        using assms live None by (auto simp: adapter_execute_def Let_def application_of_def split: if_splits)
      then have "\<exists>soft hard. a' = ?applied\<lparr>sa_soft_crashes := soft, sa_hard_crashes := hard\<rparr>"
        by (elim disjE) (intro exI [of _ "sa_soft_crashes a'"] exI [of _ "sa_hard_crashes a'"], simp)+
      with live None show ?thesis by (auto intro: applied)
    next
      case (Some e)
      with assms live show ?thesis
        by (intro seen) (auto simp: adapter_execute_def Let_def applied_as_def split: if_splits)
    qed
  qed
qed

lemma execute_effect:
  assumes "adapter_execute x token a = (r, a')"
  shows "sa_applications a' = sa_applications a \<or>
      (dget (sa_applications a) (ei_idempotency_key x) = None
       \<and> sa_applications a' = dset (ei_idempotency_key x) (application_of x token) (sa_applications a))"
    and "r = Inr fresh \<or> r = Inl (SimulatedAmbiguousOutcome m) \<Longrightarrow> applied_as x a'"
    and "sa_compensated a' = sa_compensated a" and "sa_compensation_counts a' = sa_compensation_counts a"
    and "int_default (sa_highest_fences a') i \<le> int_default (sa_highest_fences a) i
      \<or> (i = ei_intent_id x \<and> int_default (sa_highest_fences a') i = ft_version token)"
    and "int_default (sa_apply_counts a') k = (if dget (sa_applications a) k = None \<and> dget (sa_applications a') k \<noteq> None
      then 1 else int_default (sa_apply_counts a) k)"
  using assms
  by (cases rule: execute_cases; auto simp: int_default_def dget_dset applied_as_def)+

lemma compensate_cases:
  assumes "adapter_compensate x token a = (r, a')"
  obtains (refused) e where "r = Inl e" "a' = a"
  | (again) "r = Inr False" "applied_as x a" "ei_idempotency_key x \<in> set (sa_compensated a)"
      "int_default (sa_highest_fences a) (ei_intent_id x) \<le> ft_version token"
      "a' = a\<lparr>sa_highest_fences := dset (ei_intent_id x) (ft_version token) (sa_highest_fences a)\<rparr>"
  | (first) "r = Inr True" "applied_as x a" "ei_idempotency_key x \<notin> set (sa_compensated a)"
      "int_default (sa_highest_fences a) (ei_intent_id x) \<le> ft_version token"
      "a' = a\<lparr>sa_highest_fences := dset (ei_intent_id x) (ft_version token) (sa_highest_fences a),
              sa_compensated := ei_idempotency_key x # sa_compensated a,
              sa_compensation_counts := dset (ei_idempotency_key x) 1 (sa_compensation_counts a)\<rparr>"
proof -
  have applied: "was_applied x a = Inr True \<Longrightarrow> applied_as x a"
    by (auto simp: was_applied_def applied_as_def split: option.splits if_splits)
  show ?thesis
  proof (cases "ei_effect_class x = REVERSIBLE_WRITE \<and> was_applied x a = Inr True")
    case True
    with assms applied show ?thesis
      by (auto simp: adapter_compensate_def Let_def split: if_splits intro: refused again first)
  next
    case False
    then have "\<exists>e. adapter_compensate x token a = (Inl e, a)"
      by (cases "was_applied x a"; cases "ei_effect_class x = REVERSIBLE_WRITE")
        (simp_all add: adapter_compensate_def split: bool.splits)
    with assms show ?thesis by (auto intro: refused)
  qed
qed

lemma compensate_effect:
  assumes "adapter_compensate x token a = (r, a')"
  shows "sa_applications a' = sa_applications a" and "sa_apply_counts a' = sa_apply_counts a"
    and "set (sa_compensated a') \<noteq> set (sa_compensated a) \<Longrightarrow>
      applied_as x a \<and> set (sa_compensated a') = insert (ei_idempotency_key x) (set (sa_compensated a))"
    and "r = Inr fresh \<Longrightarrow> ei_idempotency_key x \<in> set (sa_compensated a') \<and> applied_as x a"
    and "int_default (sa_highest_fences a') i \<le> int_default (sa_highest_fences a) i
      \<or> (i = ei_intent_id x \<and> int_default (sa_highest_fences a') i = ft_version token)"
    and "int_default (sa_compensation_counts a') k = (if k \<notin> set (sa_compensated a) \<and> k \<in> set (sa_compensated a')
      then 1 else int_default (sa_compensation_counts a) k)"
    and "distinct (sa_compensated a) \<Longrightarrow> distinct (sa_compensated a')"
  using assms by (cases rule: compensate_cases; simp add: int_default_def dget_dset)+

lemma compensate_grows: "adapter_compensate x token a = (r, a') \<Longrightarrow> set (sa_compensated a) \<subseteq> set (sa_compensated a')"
  using compensate_effect(3) by blast

section \<open>Rows and target together\<close>

text \<open>Every application belongs to a row that was approved, and granted if it is irreversible.\<close>

definition backed :: "(string, nat list) dict \<Rightarrow> effect_db \<Rightarrow> string \<Rightarrow> simulated_application \<Rightarrow> bool" where
  "backed keys d k e \<longleftrightarrow>
     (\<exists>x \<in> set (db_intents d). ei_idempotency_key x = k \<and> \<not> other_effect e x \<and> ei_state x \<notin> {PROPOSED, PREPARED}
        \<and> granted keys d x \<and> sm_fence_version e \<le> ei_fence_version x)"

definition settled :: "(string, nat list) dict \<Rightarrow> effect_db \<Rightarrow> sim_adapter \<Rightarrow> effect_intent \<Rightarrow> bool" where
  "settled keys d a x \<longleftrightarrow>
     (ei_state x \<in> {COMMITTED, COMPENSATED, AMBIGUOUS} \<longrightarrow> applied_as x a)
     \<and> (ei_state x \<notin> {PROPOSED, PREPARED, ABORTED} \<longrightarrow> granted keys d x)
     \<and> (ei_state x = COMPENSATED \<longrightarrow> ei_idempotency_key x \<in> set (sa_compensated a))
     \<and> int_default (sa_highest_fences a) (ei_intent_id x) \<le> ei_fence_version x"

definition undone :: "effect_db \<Rightarrow> sim_adapter \<Rightarrow> string \<Rightarrow> bool" where
  "undone d a k \<longleftrightarrow>
     (\<exists>x \<in> set (db_intents d). ei_idempotency_key x = k \<and> ei_effect_class x = REVERSIBLE_WRITE \<and> applied_as x a
        \<and> ei_state x \<in> {COMMITTED, AMBIGUOUS, COMPENSATED})"

definition counts_ok :: "sim_adapter \<Rightarrow> bool" where
  "counts_ok a \<longleftrightarrow>
     (\<forall>k. physical_apply_count a k = (if dget (sa_applications a) k = None then 0 else 1))
     \<and> (\<forall>k. physical_compensation_count a k = (if k \<in> set (sa_compensated a) then 1 else 0))
     \<and> distinct (sa_compensated a)"

definition target_ok :: "(string, nat list) dict \<Rightarrow> effect_db \<Rightarrow> sim_adapter \<Rightarrow> bool" where
  "target_ok keys d a \<longleftrightarrow>
     (\<forall>k e. dget (sa_applications a) k = Some e \<longrightarrow> backed keys d k e) \<and> (\<forall>x \<in> set (db_intents d). settled keys d a x)
     \<and> (\<forall>k \<in> set (sa_compensated a). undone d a k)
     \<and> (\<forall>i. i \<notin> ei_intent_id ` set (db_intents d) \<longrightarrow> int_default (sa_highest_fences a) i \<le> 0) \<and> counts_ok a"

lemma granted_same:
  assumes "granted keys d x" and "same_effect x y" and "ei_approval_grant_id y = ei_approval_grant_id x"
    and "set (db_grants d) \<subseteq> set (db_grants d')"
  shows "granted keys d' y"
  using assms same_effect_authentic [OF assms(2)] by (auto simp: granted_def same_effect_def)

lemma applied_as_same: "same_effect x y \<Longrightarrow> applied_as y a = applied_as x a"
  by (simp add: applied_as_def same_effect_other) (simp add: same_effect_def)

text \<open>A change of a row keeps the facts about the target, if the new row is itself in order.\<close>

lemma target_ok_change:
  assumes ch: "row_changed d d' x y" and ok: "target_ok keys d a" and rows: "rows_ok d" and y: "settled keys d' a y"
    and abort: "ei_state x \<in> {COMMITTED, AMBIGUOUS} \<Longrightarrow> ei_state y \<in> {COMMITTED, AMBIGUOUS, COMPENSATED}"
  shows "target_ok keys d' a"
proof -
  have x: "x \<in> set (db_intents d)" "db_intents d' = replace_row y (db_intents d)" "set (db_grants d) \<subseteq> set (db_grants d')"
    and s: "row_step x y" using ch by (simp_all add: row_changed_def)
  have same: "same_effect x y" and legal: "(ei_state x, ei_state y) \<in> legal" using s by (simp_all add: row_step_def)
  have ids: "ei_intent_id ` set (db_intents d') = ei_intent_id ` set (db_intents d)"
    by (metis x(2) image_set replace_row_ids)
  have keep: "z \<in> set (db_intents d') \<or> z = x" if "z \<in> set (db_intents d)" for z
  proof (cases "ei_intent_id z = ei_intent_id y")
    case True
    then have "z = x" using that x(1) same rows by (auto simp: rows_ok_def same_effect_def distinct_map dest: inj_onD)
    then show ?thesis ..
  next
    case False
    with replace_row_keeps [OF that, of y] show ?thesis by (simp add: x(2))
  qed
  have here: "y \<in> set (db_intents d')" using replace_row_has [OF x(1), of y] same x(2) by (simp add: same_effect_def)
  have "backed keys d' k e" if k: "dget (sa_applications a) k = Some e" for k e
  proof -
    from ok k obtain z where z: "z \<in> set (db_intents d)" "ei_idempotency_key z = k" "\<not> other_effect e z"
      "ei_state z \<notin> {PROPOSED, PREPARED}" "granted keys d z" "sm_fence_version e \<le> ei_fence_version z"
      unfolding target_ok_def backed_def by blast
    show ?thesis
    proof (cases "z = x")
      case True
      have "ei_state y \<notin> {PROPOSED, PREPARED}" using legal z(4) by (auto simp: legal_def True)
      moreover have "granted keys d' y"
      proof (cases "ei_effect_class x = IRREVERSIBLE_WRITE")
        case irreversible: True
        then have "ei_approval_grant_id y = ei_approval_grant_id x"
          using z(4,5) s by (auto simp: True granted_def row_step_def)
        from granted_same [OF z(5) [unfolded True] same this x(3)] show ?thesis .
      next
        case False
        with same show ?thesis by (simp add: granted_def same_effect_def)
      qed
      moreover have "sm_fence_version e \<le> ei_fence_version y" using z(6) s by (simp add: True row_step_def)
      moreover have "ei_idempotency_key y = k" using z(2) same by (simp add: True same_effect_def)
      moreover have "\<not> other_effect e y" using z(3) by (simp add: True same_effect_other [OF same])
      ultimately show ?thesis using here unfolding backed_def by blast
    next
      case False
      with keep [OF z(1)] have "z \<in> set (db_intents d')" by simp
      moreover have "granted keys d' z" by (rule granted_same [OF z(5) same_effect_refl refl x(3)])
      ultimately show ?thesis using z unfolding backed_def by blast
    qed
  qed
  moreover have "settled keys d' a z" if "z \<in> set (db_intents d')" for z
  proof (cases "z = y")
    case False
    with that have "z \<in> set (db_intents d)" using in_replace_row [of z y] by (auto simp: x(2))
    with ok have "settled keys d a z" by (simp add: target_ok_def)
    with granted_same [OF _ same_effect_refl refl x(3)] show ?thesis by (auto simp: settled_def)
  qed (use y in simp)
  moreover have "undone d' a k" if "k \<in> set (sa_compensated a)" for k
  proof -
    from ok that obtain z where z: "z \<in> set (db_intents d)" "ei_idempotency_key z = k" "ei_effect_class z = REVERSIBLE_WRITE"
      "applied_as z a" "ei_state z \<in> {COMMITTED, AMBIGUOUS, COMPENSATED}" unfolding target_ok_def undone_def by blast
    show ?thesis
    proof (cases "z = x")
      case True
      have "ei_state y \<in> {COMMITTED, AMBIGUOUS, COMPENSATED}" using z(5) abort legal by (auto simp: True legal_def)
      with True z here same applied_as_same [OF same, of a] show ?thesis by (auto simp: undone_def same_effect_def)
    next
      case False
      with keep [OF z(1)] z show ?thesis by (auto simp: undone_def)
    qed
  qed
  ultimately show ?thesis using ok ids by (simp add: target_ok_def)
qed

lemma target_ok_row: "target_ok keys d a \<Longrightarrow> find_intent d i = Some x \<Longrightarrow> settled keys d a x"
  by (auto simp: target_ok_def dest: find_intent_Some)

lemma same_row: "rows_ok d \<Longrightarrow> z \<in> set (db_intents d) \<Longrightarrow> x \<in> set (db_intents d) \<Longrightarrow> ei_intent_id z = ei_intent_id x \<Longrightarrow> z = x"
  by (auto simp: rows_ok_def distinct_map dest: inj_onD)

lemma applications_grow:
  assumes "adapter_execute x token a = (r, a')" and "dget (sa_applications a) k = Some e"
  shows "dget (sa_applications a') k = Some e"
  using execute_effect(1) [OF assms(1)] assms(2) by (auto simp: dget_dset)

lemma target_ok_execute:
  assumes x: "find_intent d i = Some x" and c: "committable keys d x token" and ex: "adapter_execute x token a = (r, a')"
    and ok: "target_ok keys d a" and rows: "rows_ok d"
  shows "target_ok keys d a'"
proof -
  note eff = execute_effect [OF ex]
  have row: "x \<in> set (db_intents d)" using find_intent_Some [OF x] by simp
  have version: "ft_version token = ei_fence_version x" using c by (simp add: committable_def fence_held_def)
  have applied: "applied_as z a \<Longrightarrow> applied_as z a'" for z
    using applications_grow [OF ex] by (auto simp: applied_as_def)
  have "backed keys d k e" if k: "dget (sa_applications a') k = Some e" for k e
  proof (cases "dget (sa_applications a) k")
    case None
    with eff(1) k have "k = ei_idempotency_key x" "e = application_of x token" by (auto simp: dget_dset split: if_splits)
    with row c version show ?thesis by (auto simp: backed_def committable_def)
  next
    case (Some e')
    with applications_grow [OF ex Some] k ok show ?thesis by (simp add: target_ok_def)
  qed
  moreover have "settled keys d a' z" if z: "z \<in> set (db_intents d)" for z
  proof -
    have s: "settled keys d a z" using ok z by (simp add: target_ok_def)
    have "int_default (sa_highest_fences a') (ei_intent_id z) \<le> ei_fence_version z"
    proof (cases "int_default (sa_highest_fences a') (ei_intent_id z) \<le> int_default (sa_highest_fences a) (ei_intent_id z)")
      case True
      with s show ?thesis by (simp add: settled_def)
    next
      case False
      with eff(5) [of "ei_intent_id z"] have same: "ei_intent_id z = ei_intent_id x"
        and high: "int_default (sa_highest_fences a') (ei_intent_id z) = ft_version token" by auto
      have "z = x" by (rule same_row [OF rows z row same])
      with high version show ?thesis by simp
    qed
    with s applied [of z] eff(3) show ?thesis by (auto simp: settled_def)
  qed
  moreover have "undone d a' k" if "k \<in> set (sa_compensated a')" for k
    using that ok applied unfolding target_ok_def undone_def eff(3) by blast
  moreover have "int_default (sa_highest_fences a') j \<le> 0" if "j \<notin> ei_intent_id ` set (db_intents d)" for j
    using that ok eff(5) [of j] row by (force simp: target_ok_def)
  moreover have "counts_ok a'"
    using ok eff(3,4,6) applications_grow [OF ex]
    unfolding target_ok_def counts_ok_def physical_apply_count_def physical_compensation_count_def
    by (metis option.exhaust)
  ultimately show ?thesis by (simp add: target_ok_def)
qed

lemma target_ok_compensate:
  assumes x: "find_intent d i = Some x" and c: "compensable x token" and ex: "adapter_compensate x token a = (r, a')"
    and ok: "target_ok keys d a" and rows: "rows_ok d"
  shows "target_ok keys d a'"
proof -
  note eff = compensate_effect [OF ex]
  have row: "x \<in> set (db_intents d)" using find_intent_Some [OF x] by simp
  have version: "ft_version token = ei_fence_version x" using c by (simp add: compensable_def fence_held_def)
  have applied: "applied_as z a' = applied_as z a" for z by (simp add: applied_as_def eff(1))
  note grow = compensate_grows [OF ex]
  have "settled keys d a' z" if z: "z \<in> set (db_intents d)" for z
  proof -
    have s: "settled keys d a z" using ok z by (simp add: target_ok_def)
    have "int_default (sa_highest_fences a') (ei_intent_id z) \<le> ei_fence_version z"
      using eff(5) [of "ei_intent_id z"]
    proof
      assume "int_default (sa_highest_fences a') (ei_intent_id z) \<le> int_default (sa_highest_fences a) (ei_intent_id z)"
      with s show ?thesis by (simp add: settled_def)
    next
      assume *: "ei_intent_id z = ei_intent_id x \<and> int_default (sa_highest_fences a') (ei_intent_id z) = ft_version token"
      then have "z = x" using same_row [OF rows z row] by blast
      with * version show ?thesis by simp
    qed
    with s applied [of z] grow show ?thesis by (auto simp: settled_def)
  qed
  moreover have "undone d a' k" if k: "k \<in> set (sa_compensated a')" for k
  proof (cases "k \<in> set (sa_compensated a)")
    case True
    with ok applied show ?thesis by (simp add: target_ok_def undone_def)
  next
    case False
    with k eff(3) have "applied_as x a" "k = ei_idempotency_key x" by blast+
    with row c applied show ?thesis by (auto simp: undone_def compensable_def)
  qed
  moreover have "int_default (sa_highest_fences a') j \<le> 0" if "j \<notin> ei_intent_id ` set (db_intents d)" for j
    using that ok eff(5) [of j] row by (force simp: target_ok_def)
  moreover have "counts_ok a'"
    using ok grow eff(1,2,6,7) unfolding target_ok_def counts_ok_def physical_apply_count_def physical_compensation_count_def
    by auto
  ultimately show ?thesis using ok eff(1) by (simp add: target_ok_def)
qed

text \<open>When is the new row in order?\<close>

lemma settled_restated:
  assumes "settled keys d a x"
    and "s \<in> {COMMITTED, COMPENSATED, AMBIGUOUS} \<Longrightarrow> applied_as x a"
    and "s \<notin> {PROPOSED, PREPARED, ABORTED} \<Longrightarrow> granted keys d' (restated x s g e now)"
    and "s = COMPENSATED \<Longrightarrow> ei_idempotency_key x \<in> set (sa_compensated a)"
  shows "settled keys d' a (restated x s g e now)"
  using assms by (auto simp: settled_def applied_as_same [OF same_restated(1)])

lemma granted_kept:
  assumes "granted keys d x" and "recorded d (restated x s None e now) d'"
  shows "granted keys d' (restated x s None e now)"
  by (rule granted_same [OF assms(1) same_restated(1)]) (use recorded_rows [OF assms(2)] in simp_all)

text \<open>Replacing the row of \<open>x\<close> by a restated one, after whatever the target did.\<close>

lemma target_ok_restate:
  assumes x: "find_intent d i = Some x" and rec: "recorded d (restated x s None e now) d'" and ok: "target_ok keys d a"
    and rows: "rows_ok d" and step: "row_step x (restated x s None e now)"
    and applied: "s \<in> {COMMITTED, COMPENSATED, AMBIGUOUS} \<Longrightarrow> applied_as x a"
    and granted: "s \<notin> {PROPOSED, PREPARED, ABORTED} \<Longrightarrow> granted keys d x"
    and compensated: "s = COMPENSATED \<Longrightarrow> ei_idempotency_key x \<in> set (sa_compensated a)"
  shows "target_ok keys d' a"
proof (rule target_ok_change [OF changedI [OF x rec step] ok rows])
  show "settled keys d' a (restated x s None e now)"
    by (rule settled_restated [OF target_ok_row [OF ok x] applied _ compensated])
      (simp_all add: granted_kept [OF granted rec])
  show "ei_state (restated x s None e now) \<in> {COMMITTED, AMBIGUOUS, COMPENSATED}" if "ei_state x \<in> {COMMITTED, AMBIGUOUS}"
    using that step by (auto simp: row_step_def legal_def)
qed

lemma target_ok_fenced:
  assumes x: "find_intent d i = Some x" and rec: "recorded d (fenced x s owner now) d'" and ok: "target_ok keys d a"
    and rows: "rows_ok d" and step: "row_step x (fenced x s owner now)" and s: "s = ei_state x \<or> s = PREPARED"
  shows "target_ok keys d' a"
proof (rule target_ok_change [OF changedI [OF x rec step] ok rows])
  have "settled keys d a x" by (rule target_ok_row [OF ok x])
  moreover have "granted keys d' (fenced x s owner now)" if "granted keys d x"
    by (rule granted_same [OF that same_restated(2)]) (use recorded_rows [OF rec] in simp_all)
  ultimately show "settled keys d' a (fenced x s owner now)"
    using s by (auto simp: settled_def applied_as_same [OF same_restated(2)])
  show "ei_state (fenced x s owner now) \<in> {COMMITTED, AMBIGUOUS, COMPENSATED}" if "ei_state x \<in> {COMMITTED, AMBIGUOUS}"
    using that step by (auto simp: row_step_def legal_def)
qed

lemma was_applied_True: "was_applied x a = Inr True \<Longrightarrow> applied_as x a"
  by (auto simp: was_applied_def applied_as_def split: option.splits if_splits)

lemma target_ok_arm:
  "target_ok keys d (arm_ambiguous_after_apply k a) = target_ok keys d a"
  "target_ok keys d (arm_process_crash_after_apply k a) = target_ok keys d a"
  by (simp_all add: target_ok_def settled_def undone_def applied_as_def counts_ok_def physical_apply_count_def
      physical_compensation_count_def arm_ambiguous_after_apply_def arm_process_crash_after_apply_def)

lemma target_ok_same:
  assumes "rows_same d d'" and "target_ok keys d a"
  shows "target_ok keys d' a"
  using assms by (simp add: target_ok_def backed_def settled_def undone_def granted_def rows_same_def)

lemma target_ok_added:
  assumes "row_added d d'" and ok: "target_ok keys d a"
  shows "target_ok keys d' a"
proof -
  from assms(1) obtain p i now where "i \<notin> ei_intent_id ` set (db_intents d)"
    "db_intents d' = db_intents d @ [proposed_intent p i now]" "db_grants d' = db_grants d"
    unfolding row_added_def by blast
  with ok show ?thesis
    by (auto simp: target_ok_def backed_def settled_def undone_def granted_def)
qed

lemma row_step_restated:
  "(ei_state x, s) \<in> legal \<Longrightarrow> s \<notin> {PREPARED, APPROVED} \<Longrightarrow> row_step x (restated x s None e now)"
  by (auto simp: row_step_def legal_def)

lemma target_ok_step:
  assumes step: "kernel_step keys (d, a) (d', a')" and rows: "rows_ok d" and ok: "target_ok keys d a"
  shows "target_ok keys d' a'"
  using step
proof (cases rule: kernel_step.cases)
  case (propose p i now)
  then have "row_added d d'" using recorded_new [OF propose(5)] unfolding row_added_def by auto
  then show ?thesis using target_ok_added ok propose by simp
next
  case (prepare i x owner now)
  then show ?thesis
    using target_ok_fenced [OF prepare(2) prepare(4) ok rows] by (auto simp: row_step_def legal_def)
next
  case (fence i x owner now)
  then show ?thesis
    using target_ok_fenced [OF fence(2) fence(4) ok rows] by (auto simp: row_step_def legal_def)
next
  case (approve i x token now)
  have "row_step x (restated x APPROVED None None now)" using approve by (auto simp: row_step_def legal_def)
  then show ?thesis
    using target_ok_restate [OF approve(2) approve(6) ok rows] approve by (simp add: granted_def)
next
  case (approve_grant i x token g now)
  let ?y = "restated x APPROVED (Some (ag_grant_id g)) None now" and ?d = "d\<lparr>db_grants := db_grants d @ [g]\<rparr>"
  have ch: "row_changed d d' x ?y"
    using recorded_rows [OF approve_grant(9)] find_intent_Some [OF approve_grant(2)] approve_grant(3)
    by (auto simp: row_changed_def row_step_def legal_def)
  have "granted keys d' ?y"
    using recorded_rows [OF approve_grant(9)] approve_grant(6)
    by (auto simp: granted_def same_effect_authentic [OF same_restated(1)])
  then have "settled keys d' a ?y"
    by (intro settled_restated [OF target_ok_row [OF ok approve_grant(2)]]) simp_all
  from target_ok_change [OF ch ok rows this] approve_grant(3) have "target_ok keys d' a" by simp
  then show ?thesis using approve_grant by simp
next
  case (abort i x now)
  have "row_step x (restated x ABORTED None None now)" using abort(3) by (intro row_step_restated) (auto simp: legal_def)
  then show ?thesis using target_ok_restate [OF abort(2) abort(5) ok rows] abort by simp
next
  case (attempt_lost i x token r)
  then show ?thesis using target_ok_execute [OF attempt_lost(2-4) ok rows] by simp
next
  case (attempt i x token fresh now)
  have "target_ok keys d a'" by (rule target_ok_execute [OF attempt(1-3) ok rows])
  moreover have "row_step x (restated x COMMITTED None None now)"
    using attempt(2) by (intro row_step_restated) (auto simp: legal_def committable_def)
  ultimately show ?thesis
    using target_ok_restate [OF attempt(1) attempt(4) _ rows] execute_effect(2) [OF attempt(3)] attempt(2)
    by (auto simp: committable_def)
next
  case (attempt_ambiguous i x token m now)
  have "target_ok keys d a'" by (rule target_ok_execute [OF attempt_ambiguous(1-3) ok rows])
  moreover have "row_step x (restated x AMBIGUOUS None (Some m) now)"
    using attempt_ambiguous(2) by (intro row_step_restated) (auto simp: legal_def committable_def)
  ultimately show ?thesis
    using target_ok_restate [OF attempt_ambiguous(1) attempt_ambiguous(4) _ rows] execute_effect(2) [OF attempt_ambiguous(3)]
      attempt_ambiguous(2)
    by (auto simp: committable_def)
next
  case (reconcile i x token now)
  have "row_step x (restated x COMMITTED None None now)"
    using reconcile(3) by (intro row_step_restated) (auto simp: legal_def)
  then show ?thesis
    using target_ok_restate [OF reconcile(2) reconcile(7) ok rows] reconcile was_applied_True [of x a] by auto
next
  case (compensate_lost i x token r)
  then show ?thesis using target_ok_compensate [OF compensate_lost(2-4) ok rows] by simp
next
  case (compensate i x token fresh now)
  have "target_ok keys d a'" by (rule target_ok_compensate [OF compensate(1-3) ok rows])
  moreover have "row_step x (restated x COMPENSATED None None now)"
    using compensate(2) by (intro row_step_restated) (auto simp: legal_def compensable_def)
  moreover have "applied_as x a'" "ei_idempotency_key x \<in> set (sa_compensated a')"
    using compensate_effect(1,4) [OF compensate(3)] by (simp_all add: applied_as_def)
  ultimately show ?thesis
    using target_ok_restate [OF compensate(1) compensate(4) _ rows] compensate(2) by (auto simp: compensable_def granted_def)
qed (use ok target_ok_arm in \<open>auto intro: target_ok_same simp: rows_same_def\<close>)

end
