(* ===== verification/Effect_Props.thy ===== *)
theory Effect_Props
  imports Effect_Inv
begin

text \<open>
  What the effect kernel promises: the invariant of \<open>Effect_Inv\<close> holds after every program of calls
  (an interpretation of the locale of stateful components), and the properties that follow from it.
\<close>

section \<open>Every program keeps the invariant\<close>

definition kernel_good :: "(string, nat list) dict \<Rightarrow> world \<Rightarrow> bool" where
  "kernel_good keys w \<longleftrightarrow> rows_ok (wd_db w) \<and> outbox_ok (wd_db w) \<and> target_ok keys (wd_db w) (wd_adapter w)"

definition start_world :: world where
  "start_world = \<lparr>wd_db = empty_db, wd_adapter = new_adapter, wd_clock_reads = 0, wd_uuids = 0\<rparr>"

lemma kernel_step_next: "kernel_good keys w \<Longrightarrow> kernel_step keys (st w) (st (kernel_next keys w bc))"
  by (rule next_is_step) (simp add: kernel_good_def rows_ok_distinct)

interpretation kernel: stateful "kernel_next keys" "kernel_good keys" for keys
proof
  fix w bc assume "kernel_good keys w"
  then show "kernel_good keys (kernel_next keys w bc)"
    using kernel_step_next [of keys w bc] rows_ok_step outbox_ok_step target_ok_step unfolding kernel_good_def by blast
qed

lemma start_good: "kernel_good keys start_world"
  by (simp add: kernel_good_def start_world_def empty_db_def new_adapter_def rows_ok_def outbox_ok_def target_ok_def
      counts_ok_def int_default_def physical_apply_count_def physical_compensation_count_def)

lemma kernel_run_start: "kernel_run keys bcs = foldl (kernel_next keys) start_world bcs"
  by (simp add: kernel_run_def start_world_def)

lemma kernel_run_append: "kernel_run keys (bcs @ cs) = foldl (kernel_next keys) (kernel_run keys bcs) cs"
  by (simp add: kernel_run_def)

lemma run_good: "kernel_good keys (kernel_run keys bcs)"
  unfolding kernel_run_start by (rule kernel.inv_run [OF start_good])

text \<open>A relation that every step respects relates the worlds before and after a program.\<close>

lemma run_relates:
  assumes step: "\<And>w bc. kernel_good keys w \<Longrightarrow> R w (kernel_next keys w bc)" and refl: "\<And>w. R w w"
    and trans: "\<And>u v w. R u v \<Longrightarrow> R v w \<Longrightarrow> R u w"
  shows "R (kernel_run keys bcs) (kernel_run keys (bcs @ cs))"
proof -
  have "kernel_good keys w \<Longrightarrow> R w (foldl (kernel_next keys) w cs)" for w
    by (induction cs arbitrary: w) (auto intro: refl trans step kernel.inv_step)
  with run_good show ?thesis by (simp add: kernel_run_append)
qed

section \<open>Sample programs\<close>

definition sample_proposal :: proposal where
  "sample_proposal = \<lparr>pr_run_id = ''r'', pr_action = ''write'', pr_resource = ''db'', pr_effect_class = IDEMPOTENT_WRITE,
     pr_idempotency_key = ''k'', pr_payload = [], pr_compensation_action = None, pr_intent_id = Some ''i''\<rparr>"

definition sample_broker :: broker where
  "sample_broker = \<lparr>br_id = ''b'', br_keys = [], br_clock = int, br_uuid = dec_string\<rparr>"

definition sample_token :: fencing_token where
  "sample_token = \<lparr>ft_intent_id = ''i'', ft_version = 1, ft_owner = ''b''\<rparr>"

definition sample_program :: "(broker \<times> kernel_call) list" where
  "sample_program = map (Pair sample_broker)
     [Propose sample_proposal, Prepare ''i'', Approve ''i'' sample_token None, Commit ''i'' sample_token]"

text \<open>The target applies the effect and the process dies; then the intent is aborted.\<close>

definition crash_program :: "(broker \<times> kernel_call) list" where
  "crash_program = map (Pair sample_broker)
     [Propose sample_proposal, Prepare ''i'', Approve ''i'' sample_token None, ArmCrash ''k'', Commit ''i'' sample_token,
      Abort ''i'' (Some sample_token)]"

lemmas kernel_eval = kernel_run_def kernel_next_def discard_def kbind_def kreturn_def kraise_def kguard_def read_clock_def
  fresh_uuid_def get_db_def put_db_def on_adapter_def transaction_def find_intent_def load_intent_def update_intent_def
  enqueue_def set_state_def update_and_enqueue_def set_and_enqueue_def assert_fence_def fence_held_def
  proposal_error_def proposed_intent_def insert_intent_def propose_transaction_def broker_propose_def broker_prepare_def
  broker_approve_def consume_grant_def commit_transaction_def broker_commit_def record_commit_def record_ambiguity_def
  attempt_target_def target_applied_def recheck_grant_def broker_abort_def adapter_execute_def int_default_def
  arm_process_crash_after_apply_def empty_db_def new_adapter_def outbox_row_def falsy_def writes_def
  Let_def sample_broker_def sample_proposal_def sample_token_def

lemma sample_commits:
  "\<exists>x. db_intents (wd_db (kernel_run [] sample_program)) = [x] \<and> ei_state x = COMMITTED \<and> ei_idempotency_key x = ''k''
    \<and> ei_fence_version x = 1"
  by (simp add: kernel_eval sample_program_def)

lemma crash_aborts:
  "\<exists>x. db_intents (wd_db (kernel_run [] crash_program)) = [x] \<and> ei_state x = ABORTED \<and> ei_idempotency_key x = ''k''"
  "dget (sa_applications (wd_adapter (kernel_run [] crash_program))) ''k'' \<noteq> None"
  by (simp_all add: kernel_eval crash_program_def)

section \<open>Lemmas for the properties\<close>

lemma step_applications:
  assumes "kernel_step keys (d, a) (d', a')" and "dget (sa_applications a) k = Some e"
  shows "dget (sa_applications a') k = Some e"
  using assms(1)
proof (cases rule: kernel_step.cases)
  case (attempt_lost i x token r)
  then show ?thesis using applications_grow assms(2) by blast
next
  case (attempt i x token fresh now)
  then show ?thesis using applications_grow assms(2) by blast
next
  case (attempt_ambiguous i x token m now)
  then show ?thesis using applications_grow assms(2) by blast
next
  case (compensate_lost i x token r)
  then show ?thesis using compensate_effect(1) assms(2) by metis
next
  case (compensate i x token fresh now)
  then show ?thesis using compensate_effect(1) assms(2) by metis
qed (use assms(2) in \<open>simp_all add: arm_ambiguous_after_apply_def arm_process_crash_after_apply_def\<close>)

lemma step_compensations:
  assumes "kernel_step keys (d, a) (d', a')"
  shows "set (sa_compensated a) \<subseteq> set (sa_compensated a')"
  using assms
proof (cases rule: kernel_step.cases)
  case (attempt_lost i x token r)
  then show ?thesis by (simp add: execute_effect(3))
next
  case (attempt i x token fresh now)
  then show ?thesis by (simp add: execute_effect(3))
next
  case (attempt_ambiguous i x token m now)
  then show ?thesis by (simp add: execute_effect(3))
next
  case (compensate_lost i x token r)
  then show ?thesis using compensate_grows by blast
next
  case (compensate i x token fresh now)
  then show ?thesis using compensate_grows by blast
qed (simp_all add: arm_ambiguous_after_apply_def arm_process_crash_after_apply_def)

lemma compensations_run:
  "set (sa_compensated (wd_adapter (kernel_run keys bcs))) \<subseteq> set (sa_compensated (wd_adapter (kernel_run keys (bcs @ cs))))"
proof -
  let ?R = "\<lambda>v w. set (sa_compensated (wd_adapter v)) \<subseteq> set (sa_compensated (wd_adapter w))"
  show ?thesis by (rule run_relates [of keys ?R]) (use step_compensations kernel_step_next in blast)+
qed

lemma applications_run:
  assumes "dget (sa_applications (wd_adapter (kernel_run keys bcs))) k = Some e"
  shows "dget (sa_applications (wd_adapter (kernel_run keys (bcs @ cs)))) k = Some e"
proof -
  let ?R = "\<lambda>v w. dget (sa_applications (wd_adapter v)) k = Some e \<longrightarrow> dget (sa_applications (wd_adapter w)) k = Some e"
  have "?R (kernel_run keys bcs) (kernel_run keys (bcs @ cs))"
    by (rule run_relates [of keys ?R]) (use step_applications kernel_step_next in blast)+
  with assms show ?thesis by simp
qed

text \<open>How a row looks some calls later.\<close>

definition row_later :: "effect_intent \<Rightarrow> effect_intent \<Rightarrow> bool" where
  "row_later x y \<longleftrightarrow> same_effect x y \<and> ei_fence_version x \<le> ei_fence_version y \<and> (ei_state x, ei_state y) \<in> legal\<^sup>*"

lemma row_next:
  assumes "kernel_good keys w" and "x \<in> set (db_intents (wd_db w))"
  shows "\<exists>y \<in> set (db_intents (wd_db (kernel_next keys w bc))). y = x \<or> row_step x y"
proof -
  from step_shape [OF kernel_step_next [OF assms(1)], of bc] consider
    "rows_same (wd_db w) (wd_db (kernel_next keys w bc))" | "row_added (wd_db w) (wd_db (kernel_next keys w bc))"
    | z y where "row_changed (wd_db w) (wd_db (kernel_next keys w bc)) z y" by blast
  then show ?thesis
  proof cases
    case 1
    with assms(2) show ?thesis by (auto simp: rows_same_def)
  next
    case 2
    with assms(2) show ?thesis by (auto simp: row_added_def)
  next
    case (3 z y)
    then have z: "z \<in> set (db_intents (wd_db w))" "row_step z y"
      "db_intents (wd_db (kernel_next keys w bc)) = replace_row y (db_intents (wd_db w))" by (simp_all add: row_changed_def)
    have id: "ei_intent_id y = ei_intent_id z" using z(2) by (simp add: row_step_def same_effect_def)
    show ?thesis
    proof (cases "x = z")
      case True
      with z id replace_row_has [of z "db_intents (wd_db w)" y] show ?thesis by auto
    next
      case False
      then have "ei_intent_id x \<noteq> ei_intent_id y"
        using assms z(1) id same_row [of "wd_db w" x z] by (auto simp: kernel_good_def)
      with replace_row_keeps [OF assms(2), of y] z(3) show ?thesis by auto
    qed
  qed
qed

lemma row_run:
  assumes "x \<in> set (db_intents (wd_db (kernel_run keys bcs)))"
  shows "\<exists>y \<in> set (db_intents (wd_db (kernel_run keys (bcs @ cs)))). row_later x y"
proof -
  let ?R = "\<lambda>v w. \<forall>x \<in> set (db_intents (wd_db v)). \<exists>y \<in> set (db_intents (wd_db w)). row_later x y"
  have refl: "row_later z z" for z by (simp add: row_later_def)
  have trans: "row_later u v \<Longrightarrow> row_later v z \<Longrightarrow> row_later u z" for u v z
    unfolding row_later_def by (meson order_trans rtrancl_trans same_effect_trans)
  have step: "y = z \<or> row_step z y \<Longrightarrow> row_later z y" for y z
    by (auto simp: refl) (auto simp: row_later_def row_step_def)
  have "?R (kernel_run keys bcs) (kernel_run keys (bcs @ cs))"
  proof (rule run_relates [of keys ?R])
    fix w bc assume "kernel_good keys w"
    with row_next step show "?R w (kernel_next keys w bc)" by blast
  qed (use refl trans in blast)+
  with assms show ?thesis by blast
qed

text \<open>A call with a token that is not the current one does nothing.\<close>

lemma stale_call:
  assumes x: "find_intent (wd_db w) i = Some x" and stale: "\<not> fence_held x token" and state: "ei_state x \<noteq> PROPOSED"
    and c: "c \<in> {Approve i token grant, Commit i token, Compensate i token, Abort i (Some token)}"
  shows "st (snd (run_call b c w)) = st w"
proof -
  have "wp (run_call b c) (\<lambda>r w'. st w' = st w) w"
    using c x stale state
    by (elim insertE emptyE)
      (simp_all add: discard_def wp_rules broker_approve_def broker_commit_def commit_transaction_def
        broker_compensate_def broker_abort_def)
  then show ?thesis by (simp add: wp_def split: prod.splits)
qed

section \<open>Properties\<close>

text \<open>
  C4. Effects are applied and compensated at most once and never by accident. After any program of calls by brokers that trust the
  same keys, with crashes injected anywhere: the target has applied a key once or not at all, and compensated it
  once or not at all (its record of compensations, which every compensation adds to, holds no key twice); an application never changes or disappears afterwards, and a compensation never disappears; every intent recorded
  as committed, compensated or ambiguous has been applied as exactly that effect, and a compensated one has been compensated; every application
  is of a stored intent with that key, that is past \<open>PREPARED\<close> and whose fence is at least the one it was applied with;
  and every compensation is of a stored reversible write with that key, that was applied and is recorded as committed, ambiguous or compensated.
\<close>

theorem effect_applied_once:
  fixes keys bcs cs
  defines "w \<equiv> kernel_run keys bcs" and "w' \<equiv> kernel_run keys (bcs @ cs)"
  shows "(\<forall>k. physical_apply_count (wd_adapter w) k =
        (if dget (sa_applications (wd_adapter w)) k = None then 0 else 1))
    \<and> (\<forall>k e. dget (sa_applications (wd_adapter w)) k = Some e \<longrightarrow> dget (sa_applications (wd_adapter w')) k = Some e)
    \<and> (\<forall>x \<in> set (db_intents (wd_db w)). ei_state x \<in> {COMMITTED, COMPENSATED, AMBIGUOUS} \<longrightarrow>
        (\<exists>e. dget (sa_applications (wd_adapter w)) (ei_idempotency_key x) = Some e
           \<and> sm_intent_id e = ei_intent_id x \<and> sm_effect_digest e = effect_digest x))
    \<and> (\<forall>k e. dget (sa_applications (wd_adapter w)) k = Some e \<longrightarrow>
        (\<exists>x \<in> set (db_intents (wd_db w)). ei_idempotency_key x = k \<and> sm_intent_id e = ei_intent_id x
           \<and> sm_effect_digest e = effect_digest x \<and> ei_state x \<notin> {PROPOSED, PREPARED}
           \<and> sm_fence_version e \<le> ei_fence_version x))
    \<and> distinct (sa_compensated (wd_adapter w))
    \<and> (\<forall>k. physical_compensation_count (wd_adapter w) k = (if k \<in> set (sa_compensated (wd_adapter w)) then 1 else 0))
    \<and> set (sa_compensated (wd_adapter w)) \<subseteq> set (sa_compensated (wd_adapter w'))
    \<and> (\<forall>x \<in> set (db_intents (wd_db w)). ei_state x = COMPENSATED \<longrightarrow>
        ei_idempotency_key x \<in> set (sa_compensated (wd_adapter w)))
    \<and> (\<forall>k \<in> set (sa_compensated (wd_adapter w)).
        \<exists>x \<in> set (db_intents (wd_db w)). ei_idempotency_key x = k \<and> ei_effect_class x = REVERSIBLE_WRITE
          \<and> ei_state x \<in> {COMMITTED, AMBIGUOUS, COMPENSATED} \<and> dget (sa_applications (wd_adapter w)) k \<noteq> None)"
proof -
  have ok: "target_ok keys (wd_db w) (wd_adapter w)" using run_good [of keys bcs] by (simp add: w_def kernel_good_def)
  then have "\<forall>k. physical_apply_count (wd_adapter w) k = (if dget (sa_applications (wd_adapter w)) k = None then 0 else 1)"
    "distinct (sa_compensated (wd_adapter w))"
    "\<forall>k. physical_compensation_count (wd_adapter w) k = (if k \<in> set (sa_compensated (wd_adapter w)) then 1 else 0)"
    by (simp_all add: target_ok_def counts_ok_def)
  moreover have "\<forall>k e. dget (sa_applications (wd_adapter w)) k = Some e \<longrightarrow> dget (sa_applications (wd_adapter w')) k = Some e"
    "set (sa_compensated (wd_adapter w)) \<subseteq> set (sa_compensated (wd_adapter w'))"
    using applications_run compensations_run by (simp_all add: w_def w'_def)
  moreover have "\<forall>x \<in> set (db_intents (wd_db w)). ei_state x \<in> {COMMITTED, COMPENSATED, AMBIGUOUS} \<longrightarrow>
      (\<exists>e. dget (sa_applications (wd_adapter w)) (ei_idempotency_key x) = Some e
         \<and> sm_intent_id e = ei_intent_id x \<and> sm_effect_digest e = effect_digest x)"
    "\<forall>x \<in> set (db_intents (wd_db w)). ei_state x = COMPENSATED \<longrightarrow> ei_idempotency_key x \<in> set (sa_compensated (wd_adapter w))"
    using ok by (auto simp: target_ok_def settled_def applied_as_def other_effect_def)
  moreover have "\<forall>k e. dget (sa_applications (wd_adapter w)) k = Some e \<longrightarrow>
      (\<exists>x \<in> set (db_intents (wd_db w)). ei_idempotency_key x = k \<and> sm_intent_id e = ei_intent_id x
         \<and> sm_effect_digest e = effect_digest x \<and> ei_state x \<notin> {PROPOSED, PREPARED}
         \<and> sm_fence_version e \<le> ei_fence_version x)"
    using ok unfolding target_ok_def backed_def other_effect_def by blast
  moreover have "\<forall>k \<in> set (sa_compensated (wd_adapter w)).
      \<exists>x \<in> set (db_intents (wd_db w)). ei_idempotency_key x = k \<and> ei_effect_class x = REVERSIBLE_WRITE
        \<and> ei_state x \<in> {COMMITTED, AMBIGUOUS, COMPENSATED} \<and> dget (sa_applications (wd_adapter w)) k \<noteq> None"
  proof
    fix k assume "k \<in> set (sa_compensated (wd_adapter w))"
    with ok have "undone (wd_db w) (wd_adapter w) k" by (simp add: target_ok_def)
    then show "\<exists>x \<in> set (db_intents (wd_db w)). ei_idempotency_key x = k \<and> ei_effect_class x = REVERSIBLE_WRITE
        \<and> ei_state x \<in> {COMMITTED, AMBIGUOUS, COMPENSATED} \<and> dget (sa_applications (wd_adapter w)) k \<noteq> None"
      unfolding undone_def applied_as_def by blast
  qed
  ultimately show ?thesis by blast
qed

theorem effect_applied_once_witness:
  "\<exists>e. dget (sa_applications (wd_adapter (kernel_run [] sample_program))) ''k'' = Some e"
proof -
  obtain x where x: "db_intents (wd_db (kernel_run [] sample_program)) = [x]" "ei_state x = COMMITTED" "ei_idempotency_key x = ''k''"
    using sample_commits by blast
  then have "x \<in> set (db_intents (wd_db (kernel_run [] sample_program)))" by simp
  with effect_applied_once [of "[]" sample_program "[]", THEN conjunct2, THEN conjunct2, THEN conjunct1, THEN bspec, OF this]
    x(2,3) show ?thesis by auto
qed

text \<open>
  C5. No irreversible effect reaches the target without an authenticated approval: whatever brokers with
  the trusted keys \<open>keys\<close> call, an application of an intent that is an irreversible write implies that a
  grant is stored whose signature is the HMAC of its claims under a trusted key and whose claims name
  exactly that intent, run, digest, resource and action.
\<close>

theorem irreversible_needs_grant:
  fixes keys bcs
  defines "w \<equiv> kernel_run keys bcs"
  assumes "dget (sa_applications (wd_adapter w)) (ei_idempotency_key x) \<noteq> None" and "x \<in> set (db_intents (wd_db w))"
    and "ei_effect_class x = IRREVERSIBLE_WRITE"
  shows "\<exists>g \<in> set (db_grants (wd_db w)). \<exists>secret. ei_approval_grant_id x = Some (ag_grant_id g)
    \<and> dget keys (ag_key_id g) = Some secret \<and> ag_signature g = hmac_sha256_hex secret (kernel_json (grant_claims g))
    \<and> ag_principal g \<noteq> [] \<and> ag_intent_id g = ei_intent_id x \<and> ag_run_id g = ei_run_id x
    \<and> ag_effect_digest g = effect_digest x \<and> ag_resource g = ei_resource x \<and> ag_action g = ei_action x"
proof -
  have ok: "target_ok keys (wd_db w) (wd_adapter w)" "rows_ok (wd_db w)"
    using run_good [of keys bcs] by (simp_all add: w_def kernel_good_def)
  from assms(2) obtain e where e: "dget (sa_applications (wd_adapter w)) (ei_idempotency_key x) = Some e" by blast
  with ok(1) obtain z where z: "z \<in> set (db_intents (wd_db w))" "ei_idempotency_key z = ei_idempotency_key x"
    "granted keys (wd_db w) z" unfolding target_ok_def backed_def by blast
  have "z = x" using ok(2) z(1,2) assms(3) by (auto simp: rows_ok_def distinct_map dest: inj_onD)
  with z(3) assms(4) obtain g where "g \<in> set (db_grants (wd_db w))" "ei_approval_grant_id x = Some (ag_grant_id g)"
    "grant_authentic keys g x" unfolding granted_def by blast
  then show ?thesis by (auto simp: grant_authentic_def grant_scoped_def grant_signature_def)
qed

text \<open>A grant issued for a prepared intent, and the program that uses it.\<close>

definition sample_keys :: "(string, nat list) dict" where
  "sample_keys = [(''key'', replicate 32 7)]"

definition sample_authority :: approval_authority where
  "sample_authority = \<lparr>aa_key_id = ''key'', aa_secret = replicate 32 7\<rparr>"

definition deletion :: proposal where
  "deletion = sample_proposal\<lparr>pr_effect_class := IRREVERSIBLE_WRITE\<rparr>"

definition deletion_grant :: approval_grant where
  "deletion_grant =
     (case authority_issue sample_authority ''g'' (proposed_intent deletion ''i'' 0) ''alice'' 0 1000 None None None of Inr g \<Rightarrow> g)"

definition granted_program :: "(broker \<times> kernel_call) list" where
  "granted_program = map (Pair sample_broker)
     [Propose deletion, Prepare ''i'', Approve ''i'' sample_token (Some deletion_grant), Commit ''i'' sample_token]"

lemma ascii_hex: "n < 256 \<Longrightarrow> ascii_text (hexdigest [n])"
  by (auto simp: ascii_text_def hexdigest_def hex_char_def)

lemma hexdigest_ascii: "list_all (\<lambda>n. n < 256) bs \<Longrightarrow> ascii_text (hexdigest bs)"
proof (induction bs)
  case (Cons n bs)
  then have "ascii_text (hexdigest [n])" "ascii_text (hexdigest bs)" using ascii_hex by simp_all
  then show ?case by (simp add: ascii_text_def hexdigest_def)
qed (simp add: ascii_text_def hexdigest_def)

lemma hmac_ascii: "ascii_text (hmac_sha256_hex key msg)"
  unfolding hmac_sha256_hex_def Let_def
  by (rule hexdigest_ascii) (use sha256_bytes in blast)

lemma granted_commits:
  "\<exists>x. db_intents (wd_db (kernel_run sample_keys granted_program)) = [x] \<and> ei_effect_class x = IRREVERSIBLE_WRITE
    \<and> ei_idempotency_key x = ''k''"
  "dget (sa_applications (wd_adapter (kernel_run sample_keys granted_program))) ''k'' \<noteq> None"
  by (simp_all add: kernel_eval granted_program_def deletion_def deletion_grant_def sample_authority_def sample_keys_def
      authority_issue_def verify_grant_def grant_scoped_def grant_signature_def grant_claims_def effect_digest_def
      intent_payload_def insert_grant_def stored_grant_def find_grant_def hmac_ascii)

theorem irreversible_needs_grant_witness:
  "\<exists>g \<in> set (db_grants (wd_db (kernel_run sample_keys granted_program))). ag_principal g \<noteq> []"
proof -
  obtain x where x: "db_intents (wd_db (kernel_run sample_keys granted_program)) = [x]"
    "ei_effect_class x = IRREVERSIBLE_WRITE" "ei_idempotency_key x = ''k''" using granted_commits(1) by blast
  have "dget (sa_applications (wd_adapter (kernel_run sample_keys granted_program))) (ei_idempotency_key x) \<noteq> None"
    using granted_commits(2) x(3) by simp
  from irreversible_needs_grant [OF this _ x(2)] x(1) show ?thesis by auto
qed

text \<open>
  C6. Every call refines the transition system of the header of \<open>Effect_Inv\<close>: after any further program
  each intent is still there with the same immutable fields, its fence version has not decreased, and
  its state was reached along legal transitions; one call makes at most one of them. In particular
  \<open>ABORTED\<close> and \<open>COMPENSATED\<close> are final, and nothing but \<open>PREPARED\<close> leads to \<open>APPROVED\<close>.
\<close>

theorem effect_transitions_legal:
  assumes "x \<in> set (db_intents (wd_db (kernel_run keys bcs)))"
  shows "(\<exists>y \<in> set (db_intents (wd_db (kernel_run keys (bcs @ cs)))). row_later x y
        \<and> (ei_state x \<in> {ABORTED, COMPENSATED} \<longrightarrow> ei_state y = ei_state x))
    \<and> (\<exists>y \<in> set (db_intents (wd_db (kernel_run keys (bcs @ [c])))). y = x \<or> row_step x y)"
proof -
  obtain y where y: "y \<in> set (db_intents (wd_db (kernel_run keys (bcs @ cs))))" "row_later x y"
    using row_run [OF assms] by blast
  have "t = s" if "(s, t) \<in> legal\<^sup>*" "s \<in> {ABORTED, COMPENSATED}" for s t
    using that by (induction rule: rtrancl_induct) (auto simp: legal_def)
  with y have "ei_state x \<in> {ABORTED, COMPENSATED} \<longrightarrow> ei_state y = ei_state x" by (auto simp: row_later_def)
  moreover have "\<exists>y \<in> set (db_intents (wd_db (kernel_run keys (bcs @ [c])))). y = x \<or> row_step x y"
    using row_next [OF run_good assms, of c] by (simp add: kernel_run_append)
  ultimately show ?thesis using y by blast
qed

theorem effect_transitions_legal_witness:
  "\<exists>y \<in> set (db_intents (wd_db (kernel_run [] (crash_program @ sample_program)))). ei_state y = ABORTED"
proof -
  obtain x where x: "db_intents (wd_db (kernel_run [] crash_program)) = [x]" "ei_state x = ABORTED"
    using crash_aborts(1) by blast
  then have "x \<in> set (db_intents (wd_db (kernel_run [] crash_program)))" by simp
  from effect_transitions_legal [OF this, of sample_program] x(2) show ?thesis by auto
qed

text \<open>
  C28. A call that raises leaves the database exactly as it was, whichever check, conflict or crash raised,
  with one exception that the code intends: \<open>AmbiguousCommit\<close>, which is raised after the transaction.
\<close>

theorem failed_call_rolls_back:
  assumes "run_call b c (kernel_run (br_keys b) bcs) = (Inl e, w')" and "\<forall>m. e \<noteq> AmbiguousCommit m"
  shows "wd_db w' = wd_db (kernel_run (br_keys b) bcs)"
proof -
  have "rows_distinct (wd_db (kernel_run (br_keys b) bcs))"
    using run_good [of "br_keys b" bcs] by (simp add: kernel_good_def rows_ok_distinct)
  from call_simulates [OF this, of b c] assms show ?thesis by (simp add: simulates_def wp_def failed_def)
qed

lemma missing_intent:
  "run_call sample_broker (Prepare ''j'') (kernel_run [] sample_program)
     = (Inl (IntentNotFound ''j''), kernel_run [] sample_program)"
proof -
  have "map ei_intent_id (db_intents (wd_db (kernel_run [] sample_program))) = [''i'']"
    by (simp add: kernel_eval sample_program_def)
  then have "find_intent (wd_db (kernel_run [] sample_program)) ''j'' = None"
    by (auto simp: find_intent_def find_None_iff)
  then show ?thesis by (simp add: discard_def kbind_def broker_prepare_def transaction_def load_intent_def get_db_def kraise_def)
qed

theorem failed_call_rolls_back_witness:
  "\<exists>w'. run_call sample_broker (Prepare ''j'') (kernel_run [] sample_program) = (Inl (IntentNotFound ''j''), w')
    \<and> wd_db w' = wd_db (kernel_run [] sample_program)"
proof -
  have "br_keys sample_broker = []" by (simp add: sample_broker_def)
  with failed_call_rolls_back [of sample_broker "Prepare ''j''" sample_program "IntentNotFound ''j''"] missing_intent
  show ?thesis by simp
qed

text \<open>
  C29. Fencing works. Once a token is older than the fence of its intent, no later call that presents it
  does anything, from any broker: approving, committing, compensating and aborting with it leave the
  database and the target as they were, however many calls were made in between.
\<close>

theorem stale_token_is_harmless:
  assumes "x \<in> set (db_intents (wd_db (kernel_run keys bcs)))" and "ft_intent_id token = ei_intent_id x"
    and "0 < ft_version token" and "ft_version token < ei_fence_version x"
    and "c \<in> {Approve (ft_intent_id token) token grant, Commit (ft_intent_id token) token,
              Compensate (ft_intent_id token) token, Abort (ft_intent_id token) (Some token)}"
  shows "wd_db (kernel_run keys (bcs @ cs @ [(b, c)])) = wd_db (kernel_run keys (bcs @ cs))
    \<and> wd_adapter (kernel_run keys (bcs @ cs @ [(b, c)])) = wd_adapter (kernel_run keys (bcs @ cs))"
proof -
  let ?w = "kernel_run keys (bcs @ cs)"
  obtain y where y: "y \<in> set (db_intents (wd_db ?w))" "row_later x y" using row_run [OF assms(1)] by blast
  have good: "kernel_good keys ?w" by (rule run_good)
  have "ei_intent_id y = ft_intent_id token" "ft_version token < ei_fence_version y"
    using y(2) assms(2,4) by (auto simp: row_later_def same_effect_def)
  moreover have "rows_distinct (wd_db ?w)" using good by (simp add: kernel_good_def rows_ok_distinct)
  ultimately have find: "find_intent (wd_db ?w) (ft_intent_id token) = Some y" and stale: "\<not> fence_held y token"
    using find_intent_in [of "wd_db ?w" y] y(1) by (auto simp: rows_distinct_def fence_held_def)
  have "ei_state y \<noteq> PROPOSED"
    using good y(1) \<open>ft_version token < ei_fence_version y\<close> assms(3) by (auto simp: kernel_good_def rows_ok_def row_ok_def)
  from stale_call [OF find stale this assms(5), of "b\<lparr>br_keys := keys\<rparr>"]
  have "st (kernel_next keys ?w (b, c)) = st ?w" by (simp add: kernel_next_def)
  moreover have "kernel_run keys (bcs @ cs @ [(b, c)]) = kernel_next keys ?w (b, c)"
    using kernel_run_append [of keys "bcs @ cs" "[(b, c)]"] by simp
  ultimately show ?thesis by simp
qed

text \<open>Another broker takes the prepared intent over; the first broker's token is then old.\<close>

definition takeover_program :: "(broker \<times> kernel_call) list" where
  "takeover_program =
     [(sample_broker, Propose sample_proposal), (sample_broker, Prepare ''i''),
      (sample_broker\<lparr>br_id := ''c''\<rparr>, AcquireFence ''i'')]"

lemma takeover_fence:
  "\<exists>x. db_intents (wd_db (kernel_run [] takeover_program)) = [x] \<and> ei_intent_id x = ''i'' \<and> ei_fence_version x = 2"
  by (simp add: kernel_eval takeover_program_def broker_acquire_fence_def)

theorem stale_token_is_harmless_witness:
  "wd_db (kernel_run [] (takeover_program @ [(sample_broker, Approve ''i'' sample_token None)]))
     = wd_db (kernel_run [] takeover_program)"
proof -
  obtain x where x: "db_intents (wd_db (kernel_run [] takeover_program)) = [x]" "ei_intent_id x = ''i''" "ei_fence_version x = 2"
    using takeover_fence by blast
  have "x \<in> set (db_intents (wd_db (kernel_run [] takeover_program)))" by (simp add: x(1))
  from stale_token_is_harmless [OF this, of sample_token "Approve ''i'' sample_token None" None "[]" sample_broker] x(2,3)
  show ?thesis by (simp add: sample_token_def)
qed

text \<open>
  C30. The outbox is a faithful record. After any program its events are numbered \<open>1, 2, \<dots>\<close> without a gap,
  their identifiers are unique, and for every intent the latest event about it carries exactly the state
  and the fence version the row has, so a consumer that reads the events in order knows the table.
\<close>

theorem outbox_mirrors_intents:
  fixes keys bcs
  defines "d \<equiv> wd_db (kernel_run keys bcs)"
  shows "map ob_sequence (db_outbox d) = map int [1..<Suc (length (db_outbox d))]
    \<and> distinct (map ob_event_id (db_outbox d))
    \<and> (\<forall>x \<in> set (db_intents d). \<exists>details. \<exists>e \<in> set (db_outbox d).
         filter (\<lambda>e. ob_intent_id e = ei_intent_id x) (db_outbox d) \<noteq> []
         \<and> last (filter (\<lambda>e. ob_intent_id e = ei_intent_id x) (db_outbox d)) = e
         \<and> ob_payload_json e = event_payload x details)"
proof -
  have "outbox_ok d" using run_good [of keys bcs] by (simp add: d_def kernel_good_def)
  moreover have "\<exists>details. \<exists>e \<in> set (db_outbox d).
      filter (\<lambda>e. ob_intent_id e = ei_intent_id x) (db_outbox d) \<noteq> []
      \<and> last (filter (\<lambda>e. ob_intent_id e = ei_intent_id x) (db_outbox d)) = e
      \<and> ob_payload_json e = event_payload x details" if "mirrored d x" for x
    using that last_in_set [of "events_of d (ei_intent_id x)"] by (auto simp: mirrored_def events_of_def)
  ultimately show ?thesis by (auto simp: outbox_ok_def)
qed

theorem outbox_mirrors_intents_witness:
  "distinct (map ob_event_id (db_outbox (wd_db (kernel_run [] sample_program))))"
  using outbox_mirrors_intents [of "[]" sample_program] by blast

text \<open>
  C38. The documentation of \<open>abort\<close> says that it aborts before the target applied the effect. It does not
  always: a process crash after the target applied the effect rolls the row back to \<open>APPROVED\<close>, and from
  there \<open>abort\<close> succeeds. There is a program after which an intent is \<open>ABORTED\<close> and was applied.
\<close>

theorem aborted_effect_may_be_applied:
  "\<exists>bcs x. x \<in> set (db_intents (wd_db (kernel_run [] bcs))) \<and> ei_state x = ABORTED
    \<and> physical_apply_count (wd_adapter (kernel_run [] bcs)) (ei_idempotency_key x) = 1"
proof -
  obtain x where x: "db_intents (wd_db (kernel_run [] crash_program)) = [x]" "ei_state x = ABORTED" "ei_idempotency_key x = ''k''"
    using crash_aborts(1) by blast
  have "target_ok [] (wd_db (kernel_run [] crash_program)) (wd_adapter (kernel_run [] crash_program))"
    using run_good [of "[]" crash_program] by (simp add: kernel_good_def)
  with crash_aborts(2) have "physical_apply_count (wd_adapter (kernel_run [] crash_program)) ''k'' = 1"
    by (simp add: target_ok_def counts_ok_def)
  with x show ?thesis by (intro exI [of _ crash_program] exI [of _ x]) simp
qed

lemma issued_fields:
  assumes "authority_issue a uuid x approver issued ttl_ms resource action grant_id = Inr g"
  shows "ag_key_id g = aa_key_id a" and "ag_signature g = grant_signature (aa_secret a) g" and "ag_principal g \<noteq> []"
    and "ag_not_before_ms g = issued" and "ag_expires_at_ms g = issued + ttl_ms" and "0 < ttl_ms"
    and "grant_scoped g x \<longleftrightarrow> (case resource of None \<Rightarrow> True | Some r \<Rightarrow> r = ei_resource x)
      \<and> (case action of None \<Rightarrow> True | Some r \<Rightarrow> r = ei_action x)"
proof -
  have sig: "grant_signature k (g\<lparr>ag_signature := s\<rparr>) = grant_signature k g" for k g s
    by (simp add: grant_signature_def grant_claims_def)
  define u where "u = \<lparr>ag_grant_id = (if falsy grant_id then uuid else the grant_id), ag_key_id = aa_key_id a,
    ag_principal = approver, ag_intent_id = ei_intent_id x, ag_run_id = ei_run_id x, ag_effect_digest = effect_digest x,
    ag_resource = (case resource of None \<Rightarrow> ei_resource x | Some r \<Rightarrow> r),
    ag_action = (case action of None \<Rightarrow> ei_action x | Some r \<Rightarrow> r), ag_not_before_ms = issued,
    ag_expires_at_ms = issued + ttl_ms, ag_signature = []\<rparr>"
  have ok: "approver \<noteq> [] \<and> \<not> ttl_ms \<le> 0"
    using assms unfolding authority_issue_def by (cases "approver = []"; cases "ttl_ms \<le> 0") simp_all
  have g: "g = u\<lparr>ag_signature := grant_signature (aa_secret a) u\<rparr>"
    using assms ok unfolding authority_issue_def u_def Let_def by simp
  show "ag_signature g = grant_signature (aa_secret a) g" by (simp add: g sig)
  show "ag_key_id g = aa_key_id a" "ag_principal g \<noteq> []" "ag_not_before_ms g = issued"
    "ag_expires_at_ms g = issued + ttl_ms" "0 < ttl_ms" using ok by (simp_all add: g u_def)
  show "grant_scoped g x \<longleftrightarrow> (case resource of None \<Rightarrow> True | Some r \<Rightarrow> r = ei_resource x)
      \<and> (case action of None \<Rightarrow> True | Some r \<Rightarrow> r = ei_action x)"
    by (auto simp: grant_scoped_def g u_def split: option.splits)
qed

text \<open>
  Grants are accepted exactly for what they were issued for. A broker that trusts the authority
  accepts a grant from the moment it was issued until \<open>ttl_ms\<close> later and refuses it outside of that
  interval; and it refuses a correctly signed grant whose resource or action differs from the intent.
\<close>

theorem issued_grant_verifies:
  assumes "authority_issue a uuid x approver issued ttl_ms resource action grant_id = Inr g"
    and "dget (br_keys b) (aa_key_id a) = Some (aa_secret a)"
  shows "fst (verify_grant b x g True w) =
    (if (case resource of None \<Rightarrow> True | Some r \<Rightarrow> r = ei_resource x) \<and> (case action of None \<Rightarrow> True | Some r \<Rightarrow> r = ei_action x)
     then if issued \<le> br_clock b (wd_clock_reads w) \<and> br_clock b (wd_clock_reads w) < issued + ttl_ms then Inr ()
          else Inl (InvalidApproval ''approval grant is not currently valid'')
     else Inl (InvalidApproval ''approval grant does not match the exact effect scope''))"
proof -
  note f = issued_fields [OF assms(1)]
  have ascii: "ascii_text (ag_signature g)" by (simp add: f(2) grant_signature_def hmac_ascii)
  let ?now = "br_clock b (wd_clock_reads w)"
  have "fst (verify_grant b x g True w) =
      (if grant_scoped g x then if issued \<le> ?now \<and> ?now < issued + ttl_ms then Inr ()
         else Inl (InvalidApproval ''approval grant is not currently valid'')
       else Inl (InvalidApproval ''approval grant does not match the exact effect scope''))"
    using assms(2) ascii f(1,3-6) f(2) [symmetric]
    by (simp add: verify_grant_def kguard_def kraise_def kreturn_def kbind_def read_clock_def)
  then show ?thesis by (simp only: f(7))
qed

theorem issued_grant_verifies_witness:
  "fst (verify_grant (sample_broker\<lparr>br_keys := sample_keys\<rparr>) (proposed_intent deletion ''i'' 0) deletion_grant True
     (start_world\<lparr>wd_clock_reads := 999\<rparr>)) = Inr ()"
proof -
  have "authority_issue sample_authority ''g'' (proposed_intent deletion ''i'' 0) ''alice'' 0 1000 None None None = Inr deletion_grant"
    by (simp add: deletion_grant_def authority_issue_def Let_def)
  from issued_grant_verifies [OF this, of "sample_broker\<lparr>br_keys := sample_keys\<rparr>" "start_world\<lparr>wd_clock_reads := 999\<rparr>"]
  show ?thesis by (simp add: sample_keys_def sample_authority_def sample_broker_def start_world_def)
qed

section \<open>Proposals\<close>

lemma payload_reads_back: "json_plain v \<Longrightarrow> ei_payload_json x = kernel_json v \<Longrightarrow> intent_payload x = normalize v"
  by (simp add: intent_payload_def kernel_json_def json_roundtrip)

definition answers :: "proposal \<Rightarrow> effect_intent \<Rightarrow> world \<Rightarrow> bool" where
  "answers p x w \<longleftrightarrow> same_operation x p \<and> ei_idempotency_key x = pr_idempotency_key p \<and> x \<in> set (db_intents (wd_db w))"

lemma propose_answers: "wp (broker_propose b p) (\<lambda>r w'. case r of Inl e \<Rightarrow> True | Inr x \<Rightarrow> answers p x w') w"
proof (cases "proposal_error p")
  case (Some e)
  then show ?thesis by (simp add: broker_propose_def wp_rules)
next
  case None
  have tx: "wp (propose_transaction b p i now) (\<lambda>r w'. case r of Inl e \<Rightarrow> True | Inr x \<Rightarrow> answers p x w') v" for i now v
  proof (cases "List.find (\<lambda>r. ei_idempotency_key r = pr_idempotency_key p) (db_intents (wd_db v))")
    case (Some x)
    then have "x \<in> set (db_intents (wd_db v))" "ei_idempotency_key x = pr_idempotency_key p" by (auto simp: find_Some_iff)
    with Some show ?thesis by (simp add: propose_transaction_def wp_rules answers_def)
  next
    case missing: None
    let ?x = "proposed_intent p i now"
    have ids: "ei_intent_id ?x = i" "same_operation ?x p" "ei_idempotency_key ?x = pr_idempotency_key p"
      by (simp_all add: proposed_intent_def same_operation_def)
    have found: "find_intent (d\<lparr>db_intents := db_intents d @ [?x]\<rparr>) i = Some ?x" if "i \<notin> ei_intent_id ` set (db_intents d)" for d
    proof -
      have "List.find (\<lambda>r. ei_intent_id r = i) (rows @ [?x]) = Some ?x" if "i \<notin> ei_intent_id ` set rows" for rows
        using that ids(1) by (induction rows) auto
      with that show ?thesis by (simp add: find_intent_def)
    qed
    show ?thesis
      using missing ids by (auto simp: propose_transaction_def wp_rules insert_intent_def enqueue_def found answers_def)
  qed
  from None tx show ?thesis by (simp add: broker_propose_def wp_rules)
qed

text \<open>
  What \<open>propose\<close> answers is a stored intent of exactly the proposed operation: the same action,
  resource, class, key and compensation, and a payload that reads back from its stored text as the
  proposed payload with its keys in order. This holds for a new intent and for an exact replay alike,
  whatever the database held before.
\<close>

theorem proposal_reads_back:
  assumes "fst (broker_propose b p w) = Inr x" and "json_plain (JObj (pr_payload p))"
  shows "x \<in> set (db_intents (wd_db (snd (broker_propose b p w)))) \<and> intent_payload x = normalize (JObj (pr_payload p))
    \<and> ei_action x = pr_action p \<and> ei_resource x = pr_resource p \<and> ei_effect_class x = pr_effect_class p
    \<and> ei_compensation_action x = pr_compensation_action p \<and> ei_idempotency_key x = pr_idempotency_key p"
proof -
  have "answers p x (snd (broker_propose b p w))"
    using propose_answers [of b p w] assms(1) by (auto simp: wp_def split: prod.splits)
  then show ?thesis using payload_reads_back [OF assms(2)] by (simp add: answers_def same_operation_def)
qed

theorem proposal_reads_back_witness:
  "\<exists>x. intent_payload x = JObj [(''a'', JStr ''x''), (''b'', JInt 1)]
     \<and> fst (broker_propose sample_broker (sample_proposal\<lparr>pr_payload := [(''b'', JInt 1), (''a'', JStr ''x'')]\<rparr>) start_world) = Inr x"
proof -
  let ?p = "sample_proposal\<lparr>pr_payload := [(''b'', JInt 1), (''a'', JStr ''x'')]\<rparr>"
  obtain x where x: "fst (broker_propose sample_broker ?p start_world) = Inr x"
    by (simp add: kernel_eval start_world_def)
  from proposal_reads_back [OF this] have "intent_payload x = normalize (JObj [(''b'', JInt 1), (''a'', JStr ''x'')])"
    by (simp add: sample_proposal_def)
  with x show ?thesis by (intro exI [of _ x]) simp
qed

end
