(* ===== verification/Physical_Admission.thy ===== *)
theory Physical_Admission
  imports Feasibility
begin

text \<open>
  \<open>src/agent_physics/physical_resources.py\<close>: admission of a fixed selection of profiles against the
  physical caps of an envelope, in signed 64-bit arithmetic.

  A checked integer is an \<open>int option\<close>: \<open>None\<close> is an overflow (or, for a transfer, a link without
  bandwidth). \<open>PhysicalAdmissionError\<close> is a \<open>ValueError\<close>. The mapping of selected profiles is a
  dictionary; where the source iterates over the set of its keys, the model goes through them in the
  order of insertion, which only decides which one of several errors is raised. The tests for exact
  Python types hold by the types of the model.
\<close>

section \<open>Records\<close>

datatype physical_status = PHYSICAL_ADMITTED | PHYSICAL_REFUSED

fun physical_status_value :: "physical_status \<Rightarrow> string" where
  "physical_status_value PHYSICAL_ADMITTED = ''admitted''"
| "physical_status_value PHYSICAL_REFUSED = ''refused''"

datatype coverage_status = ESTIMATED | DERIVED | UNSUPPORTED

fun coverage_value :: "coverage_status \<Rightarrow> string" where
  "coverage_value ESTIMATED = ''estimated''"
| "coverage_value DERIVED = ''derived''"
| "coverage_value UNSUPPORTED = ''unsupported''"

record physical_check =
  pk_dimension :: string
  pk_passed :: bool
  pk_observed :: quantity
  pk_limit :: int
  pk_unit :: string
  pk_aggregation :: string

record coverage_entry =
  ce_dimension :: string
  ce_unit :: string
  ce_status :: coverage_status
  ce_aggregation :: string
  ce_source :: string
  ce_limitation :: string

record physical_totals =
  pt_cpu_time_ms :: "int option"
  pt_peak_memory_bytes :: "int option"
  pt_peak_vram_bytes :: "int option"
  pt_storage_read_bytes :: "int option"
  pt_storage_write_bytes :: "int option"
  pt_network_ingress_bytes :: "int option"
  pt_network_egress_bytes :: "int option"
  pt_peak_bandwidth_bps :: "int option"
  pt_max_network_rtt_ms :: int
  pt_egress_cost_microusd :: "int option"

record physical_report =
  pa_schema_version :: string
  pa_status :: physical_status
  pa_graph_digest :: string
  pa_envelope_digest :: string
  pa_selection_digest :: string
  pa_selected_profiles :: "(string \<times> string \<times> string) list"
  pa_totals :: physical_totals
  pa_transport_bound_ms :: "int option"
  pa_rtt_bound_ms :: "int option"
  pa_transport_rtt_bound_ms :: "int option"
  pa_checks :: "physical_check list"
  pa_coverage_matrix :: "coverage_entry list"
  pa_overflow_dimensions :: "string list"
  pa_limitations :: "string list"
  pa_report_digest :: string

definition physical_violations :: "physical_report \<Rightarrow> physical_check list" where
  "physical_violations r = filter (\<lambda>c. \<not> pk_passed c) (pa_checks r)"

definition physical_check_json :: "physical_check \<Rightarrow> json" where
  "physical_check_json c =
     JObj [(''dimension'', JStr (pk_dimension c)), (''passed'', JBool (pk_passed c)),
           (''observed'', quantity_json (pk_observed c)), (''limit'', JInt (pk_limit c)), (''unit'', JStr (pk_unit c)),
           (''aggregation'', JStr (pk_aggregation c))]"

definition coverage_entry_json :: "coverage_entry \<Rightarrow> json" where
  "coverage_entry_json c =
     JObj [(''dimension'', JStr (ce_dimension c)), (''unit'', JStr (ce_unit c)),
           (''status'', JStr (coverage_value (ce_status c))), (''aggregation'', JStr (ce_aggregation c)),
           (''source'', JStr (ce_source c)), (''limitation'', JStr (ce_limitation c))]"

definition physical_totals_json :: "physical_totals \<Rightarrow> json" where
  "physical_totals_json t =
     JObj [(''cpu_time_ms'', jopt JInt (pt_cpu_time_ms t)),
           (''conservative_peak_memory_bytes'', jopt JInt (pt_peak_memory_bytes t)),
           (''conservative_peak_vram_bytes'', jopt JInt (pt_peak_vram_bytes t)),
           (''storage_read_bytes'', jopt JInt (pt_storage_read_bytes t)),
           (''storage_write_bytes'', jopt JInt (pt_storage_write_bytes t)),
           (''network_ingress_bytes'', jopt JInt (pt_network_ingress_bytes t)),
           (''network_egress_bytes'', jopt JInt (pt_network_egress_bytes t)),
           (''conservative_peak_bandwidth_bps'', jopt JInt (pt_peak_bandwidth_bps t)),
           (''max_network_rtt_ms'', JInt (pt_max_network_rtt_ms t)),
           (''egress_cost_microusd'', jopt JInt (pt_egress_cost_microusd t))]"

definition physical_unsigned_payload :: "physical_report \<Rightarrow> json" where
  "physical_unsigned_payload r =
     JObj [(''schema_version'', JStr (pa_schema_version r)), (''status'', JStr (physical_status_value (pa_status r))),
           (''graph_digest'', JStr (pa_graph_digest r)), (''envelope_digest'', JStr (pa_envelope_digest r)),
           (''selection_digest'', JStr (pa_selection_digest r)),
           (''selected_profiles'', JArr (map (\<lambda>(t, p, n). JArr [JStr t, JStr p, JStr n]) (pa_selected_profiles r))),
           (''totals'', physical_totals_json (pa_totals r)),
           (''transport_critical_path_lower_bound_ms'', jopt JInt (pa_transport_bound_ms r)),
           (''rtt_critical_path_lower_bound_ms'', jopt JInt (pa_rtt_bound_ms r)),
           (''transport_rtt_critical_path_lower_bound_ms'', jopt JInt (pa_transport_rtt_bound_ms r)),
           (''checks'', JArr (map physical_check_json (pa_checks r))),
           (''coverage_matrix'', JArr (map coverage_entry_json (pa_coverage_matrix r))),
           (''overflow_dimensions'', JArr (map JStr (pa_overflow_dimensions r))),
           (''limitations'', JArr (map JStr (pa_limitations r)))]"

definition physical_verify_digest :: "physical_report \<Rightarrow> bool" where
  "physical_verify_digest r \<longleftrightarrow>
     is_sha256 (pa_report_digest r) \<and> pa_report_digest r = content_digest (physical_unsigned_payload r)"

definition physical_as_dict :: "physical_report \<Rightarrow> json" where
  "physical_as_dict r =
     (case normalize (physical_unsigned_payload r) of
        JObj payload \<Rightarrow> JObj (dset ''report_digest'' (JStr (pa_report_digest r)) payload)
      | v \<Rightarrow> v)"

section \<open>Dimensions\<close>

text \<open>A dimension names a field of a profile and the cap of the envelope it is compared with.\<close>

record dimension =
  dm_name :: string
  dm_profile_field :: "backend_profile \<Rightarrow> int"
  dm_envelope_field :: "run_envelope \<Rightarrow> int"
  dm_unit :: string
  dm_aggregation :: string

definition dimension_of ::
  "string \<Rightarrow> (backend_profile \<Rightarrow> int) \<Rightarrow> (run_envelope \<Rightarrow> int) \<Rightarrow> string \<Rightarrow> string \<Rightarrow> dimension" where
  "dimension_of name field cap unit aggregation =
     \<lparr>dm_name = name, dm_profile_field = field, dm_envelope_field = cap, dm_unit = unit, dm_aggregation = aggregation\<rparr>"

definition additive_dimensions :: "dimension list" where
  "additive_dimensions =
     [dimension_of ''cpu_time'' bp_cpu_time_ms re_max_cpu_time_ms ''cpu-ms'' ''additive-selected-profiles'',
      dimension_of ''storage_read'' bp_storage_read_bytes re_max_storage_read_bytes ''bytes'' ''additive-selected-profiles'',
      dimension_of ''storage_write'' bp_storage_write_bytes re_max_storage_write_bytes ''bytes'' ''additive-selected-profiles'',
      dimension_of ''network_ingress'' bp_network_ingress_bytes re_max_network_ingress_bytes ''bytes''
        ''additive-selected-profiles'',
      dimension_of ''network_egress'' bp_network_egress_bytes re_max_network_egress_bytes ''bytes''
        ''additive-selected-profiles'',
      dimension_of ''egress_cost'' bp_egress_cost_microusd re_max_egress_cost_microusd ''micro-USD''
        ''additive-selected-profiles'']"

definition peak_dimensions :: "dimension list" where
  "peak_dimensions =
     [dimension_of ''peak_memory'' bp_peak_memory_bytes re_max_peak_memory_bytes ''bytes''
        ''conservative-top-max_parallelism-sum'',
      dimension_of ''peak_vram'' bp_peak_vram_bytes re_max_peak_vram_bytes ''bytes'' ''conservative-top-max_parallelism-sum'',
      dimension_of ''bandwidth'' bp_min_bandwidth_bps re_available_bandwidth_bps ''bits-per-second''
        ''conservative-top-max_parallelism-sum'']"

definition coverage_of :: "string \<Rightarrow> string \<Rightarrow> coverage_status \<Rightarrow> string \<Rightarrow> string \<Rightarrow> string \<Rightarrow> coverage_entry" where
  "coverage_of name unit status aggregation source limitation =
     \<lparr>ce_dimension = name, ce_unit = unit, ce_status = status, ce_aggregation = aggregation, ce_source = source,
      ce_limitation = limitation\<rparr>"

definition coverage_matrix :: "coverage_entry list" where
  "coverage_matrix =
     (let estimated = ''selected BackendProfile integer estimate'' in
      [coverage_of ''cpu_time'' ''cpu-ms'' ESTIMATED ''additive'' estimated ''does not measure scheduler or worker CPU'',
       coverage_of ''peak_memory'' ''bytes'' ESTIMATED ''conservative top-max_parallelism sum'' estimated
         ''may overstate peak when dependency structure prevents overlap'',
       coverage_of ''peak_vram'' ''bytes'' ESTIMATED ''conservative top-max_parallelism sum'' estimated
         ''may overstate peak and does not model allocator fragmentation'',
       coverage_of ''storage_read'' ''bytes'' ESTIMATED ''additive'' estimated
         ''does not model cache hits or IO amplification'',
       coverage_of ''storage_write'' ''bytes'' ESTIMATED ''additive'' estimated
         ''does not model replication or filesystem amplification'',
       coverage_of ''network_ingress'' ''bytes'' ESTIMATED ''additive'' estimated
         ''does not model protocol overhead or retransmission'',
       coverage_of ''network_egress'' ''bytes'' ESTIMATED ''additive'' estimated
         ''does not model protocol overhead or retransmission'',
       coverage_of ''bandwidth'' ''bits-per-second'' ESTIMATED ''conservative top-max_parallelism sum'' estimated
         ''shared-link contention and time-varying throughput are not measured'',
       coverage_of ''network_rtt'' ''milliseconds'' ESTIMATED ''maximum and dependency-path additive'' estimated
         ''jitter, queueing, and retry RTTs are not modeled'',
       coverage_of ''egress_cost'' ''micro-USD'' ESTIMATED ''additive'' estimated
         ''pricing is declared by the profile and not reconciled to an invoice'',
       coverage_of ''transport_rtt_critical_path_lower_bound'' ''milliseconds'' DERIVED
         ''dependency critical-path maximum'' ''network bytes, available bandwidth, and RTT estimates''
         ''lower bound excludes compute, queueing, protocol overhead, and retries'',
       coverage_of ''energy'' ''joules'' UNSUPPORTED ''unsupported'' ''none''
         ''requires measured hardware telemetry; no energy claim is produced''])"

definition physical_limitations :: "string list" where
  "physical_limitations =
     [''all profile quantities are declared estimates, not runtime measurements'',
      ''RAM, VRAM, and bandwidth use a conservative top-max_parallelism concurrency bound'',
      ''transport and RTT critical paths are physical lower bounds, not end-to-end predictions'',
      ''passing a physical lower-bound deadline check is necessary but not sufficient'',
      ''this analyzer performs no actual-usage settlement or provider telemetry collection'',
      ''energy is unsupported without measured hardware telemetry'']"

section \<open>Checked arithmetic\<close>

definition physical_error :: "string \<Rightarrow> py_error" where
  "physical_error msg = ValueError msg"

definition strict_i64 :: "int \<Rightarrow> string \<Rightarrow> bool \<Rightarrow> py_error + unit" where
  "strict_i64 v label positive =
     (if (if positive then 1 else 0) \<le> v \<and> v \<le> max_resource_units then Inr ()
      else Inl (physical_error (label @ '' must be a '' @ (if positive then ''positive'' else ''non-negative'')
        @ '' signed-int64 integer'')))"

definition safe_add :: "int \<Rightarrow> int \<Rightarrow> int option" where
  "safe_add left right = (if left > max_resource_units - right then None else Some (left + right))"

fun safe_sum_from :: "int \<Rightarrow> int list \<Rightarrow> int option" where
  "safe_sum_from acc [] = Some acc"
| "safe_sum_from acc (v # vs) =
     (case safe_add acc v of None \<Rightarrow> None | Some next_total \<Rightarrow> safe_sum_from next_total vs)"

definition safe_sum :: "int list \<Rightarrow> int option" where
  "safe_sum vs = safe_sum_from 0 vs"

definition safe_multiply :: "int \<Rightarrow> int \<Rightarrow> int option" where
  "safe_multiply left right =
     (if left \<noteq> 0 \<and> right > max_resource_units div left then None else Some (left * right))"

definition dimension_check :: "dimension \<Rightarrow> int option \<Rightarrow> run_envelope \<Rightarrow> physical_check" where
  "dimension_check d observed env =
     (let limit = dm_envelope_field d env in
      \<lparr>pk_dimension = dm_name d, pk_passed = (case observed of None \<Rightarrow> False | Some v \<Rightarrow> v \<le> limit),
       pk_observed = (case observed of None \<Rightarrow> QStr ''signed-int64-overflow'' | Some v \<Rightarrow> QInt v), pk_limit = limit,
       pk_unit = dm_unit d, pk_aggregation = dm_aggregation d\<rparr>)"

text \<open>\<open>_critical_path\<close>: the longest chain of local values, each task after its dependencies. The result
  is a \<open>None\<close> as soon as a value or a sum is undefined; \<open>Inl\<close> is a missing key.\<close>

fun critical_loop ::
  "(string, task_contract) dict \<Rightarrow> string list \<Rightarrow> (string, int option) dict \<Rightarrow> string list \<Rightarrow> (string, int) dict
    \<Rightarrow> py_error + (string, int) dict option" where
  "critical_loop b selected_ids local [] ranks = Inr (Some ranks)"
| "critical_loop b selected_ids local (t # ts) ranks =
     (if t \<notin> set selected_ids then critical_loop b selected_ids local ts ranks
      else case dget local t of
        None \<Rightarrow> Inl (KeyError t)
      | Some None \<Rightarrow> Inr None
      | Some (Some v) \<Rightarrow>
          (case dget b t of
             None \<Rightarrow> Inl (KeyError t)
           | Some task \<Rightarrow>
               (case lookup_all KeyError ranks (tc_dependencies task) of
                  Inl e \<Rightarrow> Inl e
                | Inr ds \<Rightarrow>
                    (case safe_add (max_default ds) v of
                       None \<Rightarrow> Inr None
                     | Some rank \<Rightarrow> critical_loop b selected_ids local ts (dset t rank ranks)))))"

definition critical_path ::
  "execution_graph \<Rightarrow> string list \<Rightarrow> (string, int option) dict \<Rightarrow> py_error + int option \<times> bool" where
  "critical_path g selected_ids local =
     (case topological_order g of
        Inl e \<Rightarrow> Inl e
      | Inr order \<Rightarrow>
          (case critical_loop (by_id g) selected_ids local order [] of
             Inl e \<Rightarrow> Inl e
           | Inr None \<Rightarrow> Inr (None, True)
           | Inr (Some ranks) \<Rightarrow> Inr (Some (max_default (dvalues ranks)), False)))"

section \<open>Validation of the inputs\<close>

type_synonym selection = "(string \<times> backend_profile) list"

fun strict_fields :: "string \<Rightarrow> (string \<times> int \<times> bool) list \<Rightarrow> py_error + unit" where
  "strict_fields prefix [] = Inr ()"
| "strict_fields prefix ((name, v, positive) # fs) =
     (case strict_i64 v (prefix @ ''.'' @ name) positive of Inl e \<Rightarrow> Inl e | Inr _ \<Rightarrow> strict_fields prefix fs)"

definition envelope_fields :: "run_envelope \<Rightarrow> (string \<times> int \<times> bool) list" where
  "envelope_fields env =
     [(''deadline_ms'', re_deadline_ms env, True), (''max_parallelism'', re_max_parallelism env, True),
      (''max_cpu_time_ms'', re_max_cpu_time_ms env, False),
      (''max_peak_memory_bytes'', re_max_peak_memory_bytes env, False),
      (''max_peak_vram_bytes'', re_max_peak_vram_bytes env, False),
      (''max_storage_read_bytes'', re_max_storage_read_bytes env, False),
      (''max_storage_write_bytes'', re_max_storage_write_bytes env, False),
      (''max_network_ingress_bytes'', re_max_network_ingress_bytes env, False),
      (''max_network_egress_bytes'', re_max_network_egress_bytes env, False),
      (''available_bandwidth_bps'', re_available_bandwidth_bps env, False),
      (''max_network_rtt_ms'', re_max_network_rtt_ms env, False),
      (''max_egress_cost_microusd'', re_max_egress_cost_microusd env, False)]"

definition profile_fields :: "backend_profile \<Rightarrow> (string \<times> int \<times> bool) list" where
  "profile_fields p =
     [(''cpu_time_ms'', bp_cpu_time_ms p, False), (''peak_memory_bytes'', bp_peak_memory_bytes p, False),
      (''peak_vram_bytes'', bp_peak_vram_bytes p, False), (''storage_read_bytes'', bp_storage_read_bytes p, False),
      (''storage_write_bytes'', bp_storage_write_bytes p, False),
      (''network_ingress_bytes'', bp_network_ingress_bytes p, False),
      (''network_egress_bytes'', bp_network_egress_bytes p, False),
      (''min_bandwidth_bps'', bp_min_bandwidth_bps p, False), (''network_rtt_ms'', bp_network_rtt_ms p, False),
      (''egress_cost_microusd'', bp_egress_cost_microusd p, False)]"

fun missing_dependencies :: "(string, task_contract) dict \<Rightarrow> string list \<Rightarrow> string list \<Rightarrow> py_error + unit" where
  "missing_dependencies b selected_ids [] = Inr ()"
| "missing_dependencies b selected_ids (t # ts) =
     (case dget b t of
        None \<Rightarrow> Inl (KeyError t)
      | Some task \<Rightarrow>
          let missing = sorted_set (filter (\<lambda>d. d \<notin> set selected_ids) (tc_dependencies task)) in
          if missing \<noteq> [] then
            Inl (physical_error (''selected task '' @ py_repr t @ '' lacks dependencies '' @ py_list_repr missing))
          else missing_dependencies b selected_ids ts)"

fun selected_profiles_of ::
  "(string, task_contract) dict \<Rightarrow> (string, backend_profile) dict \<Rightarrow> string list \<Rightarrow> py_error + selection" where
  "selected_profiles_of b selected [] = Inr []"
| "selected_profiles_of b selected (t # ts) =
     (case (dget b t, dget selected t) of
        (Some task, Some p) \<Rightarrow>
          (if p \<notin> set (tc_profiles task) then
             Inl (physical_error (''selected profile for '' @ py_repr t @ '' is not declared by the task''))
           else if bp_quality p < tc_min_quality task then
             Inl (physical_error (''selected profile for '' @ py_repr t @ '' violates its quality floor''))
           else case strict_fields t (profile_fields p) of
             Inl e \<Rightarrow> Inl e
           | Inr _ \<Rightarrow>
               (case selected_profiles_of b selected ts of Inl e \<Rightarrow> Inl e | Inr sel \<Rightarrow> Inr ((t, p) # sel)))
      | _ \<Rightarrow> Inl (KeyError t))"

text \<open>The two exceptions that are caught and raised again as \<open>PhysicalAdmissionError\<close>.\<close>

definition reraised_key :: "py_error \<Rightarrow> py_error" where
  "reraised_key e =
     (case e of KeyError k \<Rightarrow> physical_error (''invalid graph dependency referenced unknown task '' @ py_repr k) | _ \<Rightarrow> e)"

definition reraised_value :: "py_error \<Rightarrow> py_error" where
  "reraised_value e = (case e of ValueError m \<Rightarrow> physical_error (''invalid graph: '' @ m) | _ \<Rightarrow> e)"

definition validate_selection ::
  "execution_graph \<Rightarrow> (string, backend_profile) dict \<Rightarrow> py_error + selection" where
  "validate_selection g selected =
     (let b = by_id g; ids = dkeys selected; unknown = sorted_set (filter (\<lambda>t. \<not> dmem t b) ids) in
      if unknown \<noteq> [] then Inl (physical_error (''selection contains unknown tasks: '' @ py_list_repr unknown))
      else case protected_task_ids g of
        Inl e \<Rightarrow> Inl (reraised_key e)
      | Inr protected \<Rightarrow>
          let missing = sorted_set (filter (\<lambda>t. t \<notin> set ids) protected) in
          if missing \<noteq> [] then
            Inl (physical_error (''selection omits protected mandatory work: '' @ py_list_repr missing))
          else case missing_dependencies b ids ids of
            Inl e \<Rightarrow> Inl e
          | Inr _ \<Rightarrow>
              (case selected_profiles_of b selected (sort ids) of
                 Inl e \<Rightarrow> Inl e
               | Inr sel \<Rightarrow>
                   (case graph_validate g of Inl e \<Rightarrow> Inl (reraised_value e) | Inr _ \<Rightarrow> Inr sel)))"

definition validate_inputs ::
  "execution_graph \<Rightarrow> run_envelope \<Rightarrow> (string, backend_profile) dict \<Rightarrow> py_error + selection" where
  "validate_inputs g env selected =
     (case strict_fields ''envelope'' (envelope_fields env) of
        Inl e \<Rightarrow> Inl e
      | Inr _ \<Rightarrow>
          if validate_envelope env \<noteq> [] then
            Inl (physical_error (''invalid envelope: '' @ semicolon_join (validate_envelope env)))
          else validate_selection g selected)"

section \<open>Analysis\<close>

text \<open>The transfer time of one profile over the available bandwidth, and the name of what overflowed.\<close>

definition transfer_of :: "int \<Rightarrow> backend_profile \<Rightarrow> int option \<times> string list" where
  "transfer_of bandwidth p =
     (case safe_add (bp_network_ingress_bytes p) (bp_network_egress_bytes p) of
        None \<Rightarrow> (None, [''transport_byte_sum''])
      | Some bytes \<Rightarrow>
          if bytes = 0 then (Some 0, [])
          else if bandwidth = 0 then (None, [])
          else case safe_multiply bytes 8000 of
            None \<Rightarrow> (None, [''transport_unit_conversion''])
          | Some bit_ms \<Rightarrow> (Some (bit_ms div bandwidth + (if bit_ms mod bandwidth \<noteq> 0 then 1 else 0)), []))"

definition combined_of :: "int \<Rightarrow> backend_profile \<Rightarrow> int option \<times> string list" where
  "combined_of bandwidth p =
     (case fst (transfer_of bandwidth p) of
        None \<Rightarrow> (None, [])
      | Some ms \<Rightarrow>
          (case safe_add ms (bp_network_rtt_ms p) of
             None \<Rightarrow> (None, [''transport_rtt_local''])
           | Some v \<Rightarrow> (Some v, [])))"

definition additive_total :: "selection \<Rightarrow> dimension \<Rightarrow> int option" where
  "additive_total sel d = safe_sum (map (dm_profile_field d \<circ> snd) sel)"

definition peak_values :: "run_envelope \<Rightarrow> selection \<Rightarrow> dimension \<Rightarrow> int list" where
  "peak_values env sel d =
     take (nat (min (re_max_parallelism env) (int (length sel)))) (rev (sort (map (dm_profile_field d \<circ> snd) sel)))"

definition peak_total :: "run_envelope \<Rightarrow> selection \<Rightarrow> dimension \<Rightarrow> int option" where
  "peak_total env sel d = safe_sum (peak_values env sel d)"

definition max_rtt :: "selection \<Rightarrow> int" where
  "max_rtt sel = max_default (map (bp_network_rtt_ms \<circ> snd) sel)"

text \<open>The three critical paths: transport, round trips, and both.\<close>

definition transport_local :: "run_envelope \<Rightarrow> selection \<Rightarrow> (string, int option) dict" where
  "transport_local env sel = map (\<lambda>(t, p). (t, fst (transfer_of (re_available_bandwidth_bps env) p))) sel"

definition rtt_local :: "selection \<Rightarrow> (string, int option) dict" where
  "rtt_local sel = map (\<lambda>(t, p). (t, Some (bp_network_rtt_ms p))) sel"

definition combined_local :: "run_envelope \<Rightarrow> selection \<Rightarrow> (string, int option) dict" where
  "combined_local env sel = map (\<lambda>(t, p). (t, fst (combined_of (re_available_bandwidth_bps env) p))) sel"

type_synonym path_bounds = "(int option \<times> bool) \<times> (int option \<times> bool) \<times> (int option \<times> bool)"

definition path_bounds :: "execution_graph \<Rightarrow> run_envelope \<Rightarrow> selection \<Rightarrow> py_error + path_bounds" where
  "path_bounds g env sel =
     (let ids = map fst sel in
      case critical_path g ids (transport_local env sel) of Inl e \<Rightarrow> Inl e
      | Inr transport \<Rightarrow>
      (case critical_path g ids (rtt_local sel) of Inl e \<Rightarrow> Inl e
      | Inr rtt \<Rightarrow>
      (case critical_path g ids (combined_local env sel) of Inl e \<Rightarrow> Inl e
      | Inr combined \<Rightarrow> Inr (transport, rtt, combined))))"

definition overflow_dimensions :: "run_envelope \<Rightarrow> selection \<Rightarrow> path_bounds \<Rightarrow> string list" where
  "overflow_dimensions env sel bounds =
     (let ((_, transport), (_, rtt), (_, combined)) = bounds; bandwidth = re_available_bandwidth_bps env in
      sorted_set (map dm_name (filter (\<lambda>d. additive_total sel d = None) additive_dimensions)
        @ map dm_name (filter (\<lambda>d. peak_total env sel d = None) peak_dimensions)
        @ concat (map (\<lambda>(t, p). snd (transfer_of bandwidth p) @ snd (combined_of bandwidth p)) sel)
        @ err transport ''transport_critical_path'' @ err rtt ''rtt_critical_path''
        @ err combined ''transport_rtt_critical_path''))"

definition rtt_check :: "run_envelope \<Rightarrow> selection \<Rightarrow> physical_check" where
  "rtt_check env sel =
     \<lparr>pk_dimension = ''network_rtt'', pk_passed = (max_rtt sel \<le> re_max_network_rtt_ms env),
      pk_observed = QInt (max_rtt sel), pk_limit = re_max_network_rtt_ms env, pk_unit = ''milliseconds'',
      pk_aggregation = ''maximum-selected-profile''\<rparr>"

definition transport_check :: "run_envelope \<Rightarrow> int option \<Rightarrow> physical_check" where
  "transport_check env bound =
     \<lparr>pk_dimension = ''transport_bandwidth_defined'', pk_passed = (bound \<noteq> None),
      pk_observed = (case bound of None \<Rightarrow> QStr ''zero-bandwidth-or-signed-int64-overflow'' | Some v \<Rightarrow> QInt v),
      pk_limit = re_deadline_ms env, pk_unit = ''milliseconds'', pk_aggregation = ''transport-critical-path-lower-bound''\<rparr>"

definition deadline_check :: "run_envelope \<Rightarrow> int option \<Rightarrow> physical_check" where
  "deadline_check env bound =
     \<lparr>pk_dimension = ''transport_rtt_deadline_lower_bound'',
      pk_passed = (case bound of None \<Rightarrow> False | Some v \<Rightarrow> v \<le> re_deadline_ms env),
      pk_observed = (case bound of None \<Rightarrow> QStr ''undefined-or-signed-int64-overflow'' | Some v \<Rightarrow> QInt v),
      pk_limit = re_deadline_ms env, pk_unit = ''milliseconds'', pk_aggregation = ''dependency-critical-path-lower-bound''\<rparr>"

definition physical_checks :: "run_envelope \<Rightarrow> selection \<Rightarrow> path_bounds \<Rightarrow> physical_check list" where
  "physical_checks env sel bounds =
     map (\<lambda>d. dimension_check d (additive_total sel d) env) additive_dimensions
     @ map (\<lambda>d. dimension_check d (peak_total env sel d) env) peak_dimensions
     @ [rtt_check env sel, transport_check env (fst (fst bounds)), deadline_check env (fst (snd (snd bounds)))]"

definition named_total :: "dimension list \<Rightarrow> (dimension \<Rightarrow> int option) \<Rightarrow> string \<Rightarrow> int option" where
  "named_total ds value_of name = (case List.find (\<lambda>d. dm_name d = name) ds of None \<Rightarrow> None | Some d \<Rightarrow> value_of d)"

definition physical_totals_of :: "run_envelope \<Rightarrow> selection \<Rightarrow> physical_totals" where
  "physical_totals_of env sel =
     (let additive = named_total additive_dimensions (additive_total sel);
          peak = named_total peak_dimensions (peak_total env sel)
      in \<lparr>pt_cpu_time_ms = additive ''cpu_time'', pt_peak_memory_bytes = peak ''peak_memory'',
          pt_peak_vram_bytes = peak ''peak_vram'', pt_storage_read_bytes = additive ''storage_read'',
          pt_storage_write_bytes = additive ''storage_write'', pt_network_ingress_bytes = additive ''network_ingress'',
          pt_network_egress_bytes = additive ''network_egress'', pt_peak_bandwidth_bps = peak ''bandwidth'',
          pt_max_network_rtt_ms = max_rtt sel, pt_egress_cost_microusd = additive ''egress_cost''\<rparr>)"

definition selection_json :: "selection \<Rightarrow> json" where
  "selection_json sel =
     JArr (map (\<lambda>(t, p). JObj [(''task_id'', JStr t), (''profile'', normalize (profile_json p))]) sel)"

definition physical_report_of ::
  "execution_graph \<Rightarrow> run_envelope \<Rightarrow> selection \<Rightarrow> path_bounds \<Rightarrow> physical_report" where
  "physical_report_of g env sel bounds =
     (let checks = physical_checks env sel bounds;
          unsigned = \<lparr>pa_schema_version = ''finite-physical-admission/v1'',
            pa_status = (if list_all pk_passed checks then PHYSICAL_ADMITTED else PHYSICAL_REFUSED),
            pa_graph_digest = content_digest (graph_json g), pa_envelope_digest = content_digest (envelope_json env),
            pa_selection_digest = content_digest (selection_json sel),
            pa_selected_profiles = map (\<lambda>(t, p). (t, bp_provider p, bp_name p)) sel,
            pa_totals = physical_totals_of env sel, pa_transport_bound_ms = fst (fst bounds),
            pa_rtt_bound_ms = fst (fst (snd bounds)), pa_transport_rtt_bound_ms = fst (snd (snd bounds)),
            pa_checks = checks, pa_coverage_matrix = coverage_matrix,
            pa_overflow_dimensions = overflow_dimensions env sel bounds, pa_limitations = physical_limitations,
            pa_report_digest = []\<rparr>
      in unsigned\<lparr>pa_report_digest := content_digest (physical_unsigned_payload unsigned)\<rparr>)"

definition analyze_physical ::
  "execution_graph \<Rightarrow> run_envelope \<Rightarrow> (string, backend_profile) dict \<Rightarrow> py_error + physical_report" where
  "analyze_physical g env selected =
     (case validate_inputs g env selected of
        Inl e \<Rightarrow> Inl e
      | Inr sel \<Rightarrow>
          (case path_bounds g env sel of
             Inl e \<Rightarrow> Inl e
           | Inr bounds \<Rightarrow>
               (let report = physical_report_of g env sel bounds in
                if physical_verify_digest report then Inr report
                else Inl (RuntimeError ''physical report digest construction disagreed''))))"

end
