(* ===== verification/Physical_Paths.thy ===== *)
theory Physical_Paths
  imports Physical_Admission
begin

text \<open>
  Lemmas on the physical analysis: the checked sums are exact below the 64-bit bound, validation
  establishes the ranges the arithmetic relies on, and \<open>_critical_path\<close> computes the longest chain of
  selected tasks, or reports an undefined value or a chain beyond the bound.
\<close>

section \<open>Checked sums are exact below the bound\<close>

lemma safe_add_iff: "safe_add a b = (if a + b \<le> max_resource_units then Some (a + b) else None)"
  by (auto simp: safe_add_def)

lemma safe_sum_from_exact:
  "(\<And>v. v \<in> set vs \<Longrightarrow> 0 \<le> v) \<Longrightarrow> acc \<le> max_resource_units \<Longrightarrow>
   safe_sum_from acc vs = (if acc + sum_list vs \<le> max_resource_units then Some (acc + sum_list vs) else None)"
proof (induction vs arbitrary: acc)
  case Nil
  then show ?case by simp
next
  case (Cons v vs)
  have "0 \<le> sum_list vs" using Cons.prems(1) by (intro sum_list_nonneg) simp
  with Cons.IH [of "acc + v"] Cons.prems show ?case by (auto simp: safe_add_iff add.assoc)
qed

lemma safe_sum_exact:
  assumes "\<And>v. v \<in> set vs \<Longrightarrow> 0 \<le> v"
  shows "safe_sum vs = (if sum_list vs \<le> max_resource_units then Some (sum_list vs) else None)"
  using safe_sum_from_exact [of vs 0] assms by (simp add: safe_sum_def max_resource_units_def)

lemma safe_sum_within:
  assumes "\<And>v. v \<in> set vs \<Longrightarrow> 0 \<le> v" and "cap \<le> max_resource_units"
  shows "(case safe_sum vs of None \<Rightarrow> False | Some v \<Rightarrow> v \<le> cap) \<longleftrightarrow> sum_list vs \<le> cap"
  using assms(2) by (auto simp: safe_sum_exact [OF assms(1)])

lemma le_div_int: "0 < (a::int) \<Longrightarrow> b \<le> m div a \<longleftrightarrow> a * b \<le> m"
  by (smt (verit) mult_div_mod_eq mult_le_cancel_left_pos nonzero_mult_div_cancel_left zdiv_mono1 Euclidean_Rings.pos_mod_sign)

lemma safe_multiply_exact:
  "0 < a \<Longrightarrow> safe_multiply a b = (if a * b \<le> max_resource_units then Some (a * b) else None)"
  using le_div_int [of a b max_resource_units] by (auto simp: safe_multiply_def)

section \<open>What validation guarantees\<close>

lemma strict_i64_ok: "strict_i64 v label positive = Inr () \<longleftrightarrow> (if positive then 1 else 0) \<le> v \<and> v \<le> max_resource_units"
  by (simp add: strict_i64_def)

lemma strict_fields_ok:
  "strict_fields prefix fs = Inr () \<longleftrightarrow>
     (\<forall>(name, v, positive) \<in> set fs. (if positive then 1 else 0) \<le> v \<and> v \<le> max_resource_units)"
  by (induction fs) (auto simp: strict_i64_def split: sum.splits if_splits)

lemma missing_dependencies_ok:
  "missing_dependencies b ids ts = Inr () \<longleftrightarrow>
     (\<forall>t \<in> set ts. \<exists>task. dget b t = Some task \<and> set (tc_dependencies task) \<subseteq> set ids)"
proof (induction ts)
  case (Cons t ts)
  have "sorted_set xs = [] \<longleftrightarrow> set xs = {}" for xs :: "string list" by (metis set_empty set_sorted_set)
  with Cons show ?case by (auto simp: Let_def filter_empty_conv split: option.splits)
qed simp

lemma selected_profiles_ok:
  "selected_profiles_of b selected ts = Inr sel \<Longrightarrow>
   map fst sel = ts \<and> (\<forall>(t, p) \<in> set sel. dget selected t = Some p \<and> strict_fields t (profile_fields p) = Inr ()
     \<and> (\<exists>task. dget b t = Some task \<and> p \<in> set (tc_profiles task) \<and> \<not> bp_quality p < tc_min_quality task))"
proof (induction ts arbitrary: sel)
  case (Cons t ts)
  then show ?case by (fastforce split: option.splits sum.splits if_splits prod.splits)
qed simp

lemma validated:
  assumes "validate_inputs g env selected = Inr sel"
  shows "graph_ok g" and "strict_fields ''envelope'' (envelope_fields env) = Inr ()" and "validate_envelope env = []"
    and "selected_profiles_of (by_id g) selected (sort (dkeys selected)) = Inr sel"
    and "missing_dependencies (by_id g) (dkeys selected) (dkeys selected) = Inr ()"
    and "\<exists>P. protected_task_ids g = Inr P \<and> set P \<subseteq> set (dkeys selected)"
proof -
  have empty: "sorted_set xs = [] \<longleftrightarrow> set xs = {}" for xs :: "string list" by (metis set_empty set_sorted_set)
  note a = assms [unfolded validate_inputs_def validate_selection_def Let_def]
  from a show "graph_ok g" "strict_fields ''envelope'' (envelope_fields env) = Inr ()" "validate_envelope env = []"
    "selected_profiles_of (by_id g) selected (sort (dkeys selected)) = Inr sel"
    "missing_dependencies (by_id g) (dkeys selected) (dkeys selected) = Inr ()"
    "\<exists>P. protected_task_ids g = Inr P \<and> set P \<subseteq> set (dkeys selected)"
    by (auto simp: graph_ok_def empty split: sum.splits if_splits)
qed

section \<open>The critical path is the longest chain\<close>

fun deps_first :: "(string, task_contract) dict \<Rightarrow> string set \<Rightarrow> string list \<Rightarrow> bool" where
  "deps_first b D [] \<longleftrightarrow> True"
| "deps_first b D (t # ts) \<longleftrightarrow> set (deps_of b t) \<subseteq> D \<and> deps_first b (insert t D) ts"

lemma settled_deps_first: "settled b (rev ts @ xs) \<Longrightarrow> deps_first b (set xs) ts"
proof (induction ts arbitrary: xs)
  case (Cons t ts)
  then have "settled b (rev ts @ (t # xs))" by simp
  from Cons.IH [OF this] settled_split [of b "rev ts" t xs] Cons.prems show ?case by simp
qed simp

definition cost_of :: "(string, int option) dict \<Rightarrow> string \<Rightarrow> int" where
  "cost_of local t = the (the (dget local t))"

definition chain_cost :: "(string, int option) dict \<Rightarrow> string list \<Rightarrow> int" where
  "chain_cost local ts = sum_list (map (cost_of local) ts)"

lemma is_path_snoc:
  "is_path g inc (ts @ [d, t]) \<longleftrightarrow> is_path g inc (ts @ [d]) \<and> d \<in> set (deps_of (by_id g) t) \<and> inc t \<and> t \<in> set (graph_ids g)"
  if g: "graph_ok g"
proof (induction ts rule: induct_list012)
qed (use graph_ok_known [OF g] in auto)

lemma is_path_last:
  assumes "graph_ok g" and "is_path g inc ts"
  obtains ts' t where "ts = ts' @ [t]" and "inc t"
proof (cases ts rule: rev_cases)
  case Nil
  with assms(2) show ?thesis by simp
next
  case (snoc ts' t)
  with assms is_path_snoc [OF assms(1), of inc] have "inc t" by (cases ts' rule: rev_cases) auto
  with snoc that show ?thesis by blast
qed

text \<open>What holds of the ranks of the tasks \<open>D\<close> already visited.\<close>

definition ranks_exact ::
  "execution_graph \<Rightarrow> string list \<Rightarrow> (string, int option) dict \<Rightarrow> string set \<Rightarrow> (string, int) dict \<Rightarrow> bool" where
  "ranks_exact g ids local D ranks \<longleftrightarrow>
     dict_ok ranks \<and> (\<forall>t. dmem t ranks \<longleftrightarrow> t \<in> D \<and> t \<in> set ids)
     \<and> (\<forall>t \<in> D. t \<in> set ids \<longrightarrow> dget local t \<noteq> Some None \<and> 0 \<le> the (dget ranks t) \<and> the (dget ranks t) \<le> max_resource_units
          \<and> (\<forall>ts. is_path g (\<lambda>t. t \<in> set ids) (ts @ [t]) \<longrightarrow> chain_cost local (ts @ [t]) \<le> the (dget ranks t))
          \<and> (\<exists>ts. is_path g (\<lambda>t. t \<in> set ids) (ts @ [t]) \<and> chain_cost local (ts @ [t]) = the (dget ranks t)))"

definition too_long :: "execution_graph \<Rightarrow> string list \<Rightarrow> (string, int option) dict \<Rightarrow> bool" where
  "too_long g ids local \<longleftrightarrow>
     (\<exists>t \<in> set ids. dget local t = Some None)
     \<or> (\<exists>ts. is_path g (\<lambda>t. t \<in> set ids) ts \<and> max_resource_units < chain_cost local ts)"

lemma longest_extends:
  assumes g: "graph_ok g" and inv: "ranks_exact g ids local D ranks" and deps: "set (deps_of (by_id g) t) \<subseteq> D"
    and ids: "set (deps_of (by_id g) t) \<subseteq> set ids" "t \<in> set ids" "t \<in> set (graph_ids g)" and v: "0 \<le> cost_of local t"
    and m: "m = max_default (map (\<lambda>k. the (dget ranks k)) (deps_of (by_id g) t))"
  shows "0 \<le> m" and "is_path g (\<lambda>t. t \<in> set ids) (ts @ [t]) \<Longrightarrow> chain_cost local (ts @ [t]) \<le> m + cost_of local t"
    and "\<exists>ts. is_path g (\<lambda>t. t \<in> set ids) (ts @ [t]) \<and> chain_cost local (ts @ [t]) = m + cost_of local t"
proof -
  let ?inc = "\<lambda>t. t \<in> set ids" and ?ds = "deps_of (by_id g) t" and ?r = "\<lambda>k. the (dget ranks k)"
  have known: "0 \<le> ?r d" "is_path g ?inc (ts @ [d]) \<Longrightarrow> chain_cost local (ts @ [d]) \<le> ?r d"
    "\<exists>ts. is_path g ?inc (ts @ [d]) \<and> chain_cost local (ts @ [d]) = ?r d" if "d \<in> set ?ds" for d ts
    using inv deps ids(1) that unfolding ranks_exact_def by blast+
  show m0: "0 \<le> m" unfolding m by (rule max_default_nonneg) (use known(1) in auto)
  show "chain_cost local (ts @ [t]) \<le> m + cost_of local t" if p: "is_path g ?inc (ts @ [t])"
  proof (cases ts rule: rev_cases)
    case Nil
    then show ?thesis using m0 by (simp add: chain_cost_def)
  next
    case (snoc ts' d)
    with p is_path_snoc [OF g, of ?inc ts' d t] have d: "is_path g ?inc (ts' @ [d])" "d \<in> set ?ds" by simp_all
    have "?r d \<le> m" unfolding m by (rule max_default_ge) (use d(2) in auto)
    with known(2) [OF d(2,1)] show ?thesis by (simp add: snoc chain_cost_def)
  qed
  show "\<exists>ts. is_path g ?inc (ts @ [t]) \<and> chain_cost local (ts @ [t]) = m + cost_of local t"
  proof (cases "?ds = []")
    case True
    with ids m show ?thesis by (intro exI [of _ "[]"]) (simp add: chain_cost_def max_default_def)
  next
    case False
    then obtain d where d: "d \<in> set ?ds" "m = ?r d" using max_default_in [of "map ?r ?ds"] m by auto
    from known(3) [OF d(1)] obtain ts where "is_path g ?inc (ts @ [d])" "chain_cost local (ts @ [d]) = ?r d" by blast
    with d ids is_path_snoc [OF g, of ?inc ts d t] show ?thesis
      by (intro exI [of _ "ts @ [d]"]) (simp add: chain_cost_def)
  qed
qed

lemma critical_loop_exact:
  assumes g: "graph_ok g" and closed: "\<And>t. t \<in> set ids \<Longrightarrow> set (deps_of (by_id g) t) \<subseteq> set ids"
    and known: "set ids \<subseteq> set (graph_ids g)" and vals: "\<And>t. t \<in> set ids \<Longrightarrow> dmem t local"
    and nonneg: "\<And>t v. dget local t = Some (Some v) \<Longrightarrow> 0 \<le> v"
  shows "deps_first (by_id g) D ts \<Longrightarrow> distinct ts \<Longrightarrow> D \<inter> set ts = {} \<Longrightarrow> ranks_exact g ids local D ranks \<Longrightarrow>
    (\<exists>r. critical_loop (by_id g) ids local ts ranks = Inr (Some r) \<and> ranks_exact g ids local (D \<union> set ts) r)
    \<or> (critical_loop (by_id g) ids local ts ranks = Inr None \<and> too_long g ids local)"
proof (induction ts arbitrary: D ranks)
  case Nil
  then show ?case by simp
next
  case (Cons t ts)
  have next_prems: "deps_first (by_id g) (insert t D) ts" "distinct ts" "insert t D \<inter> set ts = {}" using Cons.prems by auto
  have un: "D \<union> set (t # ts) = insert t D \<union> set ts" by auto
  show ?case
  proof (cases "t \<in> set ids")
    case False
    with Cons.prems(4) have "ranks_exact g ids local (insert t D) ranks" by (auto simp: ranks_exact_def)
    from Cons.IH [OF next_prems this] False show ?thesis by (simp only: un) simp
  next
    case t: True
    obtain l where l: "dget local t = Some l" using vals [OF t] by (auto simp: dmem_def)
    show ?thesis
    proof (cases l)
      case None
      with l t show ?thesis by (auto simp: too_long_def)
    next
      case (Some v)
      have tg: "t \<in> set (graph_ids g)" using known t by blast
      then obtain task where task: "dget (by_id g) t = Some task" using dmem_by_id [of t g] by (auto simp: dmem_def)
      have deps: "deps_of (by_id g) t = tc_dependencies task" by (simp add: deps_of_def task)
      have sub: "set (deps_of (by_id g) t) \<subseteq> D" "set (deps_of (by_id g) t) \<subseteq> set ids" using Cons.prems(1) closed [OF t] by auto
      let ?m = "max_default (map (\<lambda>k. the (dget ranks k)) (deps_of (by_id g) t))"
      have look: "lookup_all KeyError ranks (tc_dependencies task) = Inr (map (\<lambda>k. the (dget ranks k)) (tc_dependencies task))"
        by (rule lookup_all_ok) (use Cons.prems(4) sub deps in \<open>auto simp: ranks_exact_def\<close>)
      have v: "cost_of local t = v" "0 \<le> v" using l Some nonneg by (auto simp: cost_of_def)
      note ext = longest_extends [OF g Cons.prems(4) sub t tg _ refl, unfolded v(1), OF v(2)]
      show ?thesis
      proof (cases "?m + v \<le> max_resource_units")
        case False
        with ext(3) have "too_long g ids local" by (fastforce simp: too_long_def)
        with False l Some task look t deps show ?thesis by (simp add: safe_add_iff)
      next
        case True
        let ?r = "dset t (?m + v) ranks"
        have "ranks_exact g ids local (insert t D) ?r"
          using Cons.prems(4) t ext True l Some v(2) Cons.prems(3)
          by (auto simp: ranks_exact_def dmem_dset dget_dset)
        from Cons.IH [OF next_prems this] show ?thesis
          using True l Some task look t deps by (simp only: un) (simp add: safe_add_iff)
      qed
    qed
  qed
qed

lemma critical_path_exact:
  assumes g: "graph_ok g" and closed: "\<And>t. t \<in> set ids \<Longrightarrow> set (deps_of (by_id g) t) \<subseteq> set ids"
    and known: "set ids \<subseteq> set (graph_ids g)" and vals: "\<And>t. t \<in> set ids \<Longrightarrow> dmem t local"
    and nonneg: "\<And>t v. dget local t = Some (Some v) \<Longrightarrow> 0 \<le> v"
  obtains (defined) m where "critical_path g ids local = Inr (Some m, False)" and "0 \<le> m"
      and "\<forall>t \<in> set ids. dget local t \<noteq> Some None"
      and "\<forall>ts. is_path g (\<lambda>t. t \<in> set ids) ts \<longrightarrow> chain_cost local ts \<le> m"
      and "ids = [] \<and> m = 0 \<or> (\<exists>ts. is_path g (\<lambda>t. t \<in> set ids) ts \<and> chain_cost local ts = m)"
    | (undefined) "critical_path g ids local = Inr (None, True)" and "too_long g ids local"
proof -
  let ?inc = "\<lambda>t. t \<in> set ids"
  obtain order where o: "topological_order g = Inr order" "distinct order" "set order = set (graph_ids g)"
    "topo_sorted (by_id g) order" by (rule topological_order_ok [OF g])
  have "deps_first (by_id g) (set []) order" by (rule settled_deps_first) (use o(4) in \<open>simp add: topo_sorted_def\<close>)
  moreover have "ranks_exact g ids local {} []" by (simp add: ranks_exact_def)
  ultimately have "(\<exists>r. critical_loop (by_id g) ids local order [] = Inr (Some r) \<and> ranks_exact g ids local ({} \<union> set order) r)
      \<or> (critical_loop (by_id g) ids local order [] = Inr None \<and> too_long g ids local)"
    by (intro critical_loop_exact [OF g closed known vals nonneg]) (use o(2) in simp_all)
  then show thesis
  proof (elim disjE exE conjE)
    assume "critical_loop (by_id g) ids local order [] = Inr None" "too_long g ids local"
    then show thesis using undefined o(1) by (simp add: critical_path_def)
  next
    fix r assume r: "critical_loop (by_id g) ids local order [] = Inr (Some r)" "ranks_exact g ids local ({} \<union> set order) r"
    let ?m = "max_default (dvalues r)"
    have res: "critical_path g ids local = Inr (Some ?m, False)" using r(1) o(1) by (simp add: critical_path_def)
    have facts: "dget local t \<noteq> Some None" "0 \<le> the (dget r t)" "dmem t r"
      "is_path g ?inc (ts @ [t]) \<Longrightarrow> chain_cost local (ts @ [t]) \<le> the (dget r t)"
      "\<exists>ts. is_path g ?inc (ts @ [t]) \<and> chain_cost local (ts @ [t]) = the (dget r t)" if "t \<in> set ids" for t ts
      using r(2) that known o(3) unfolding ranks_exact_def by blast+
    have vals': "x \<in> set (dvalues r) \<Longrightarrow> \<exists>t \<in> set ids. dget r t = Some x" for x
      using r(2) by (force simp: ranks_exact_def dict_ok_def dmem_def map_of_eq_Some_iff)
    have "0 \<le> ?m" by (rule max_default_nonneg) (use vals' facts(2) in force)
    moreover have "chain_cost local ts \<le> ?m" if p: "is_path g ?inc ts" for ts
    proof -
      obtain ts' t where ts: "ts = ts' @ [t]" "t \<in> set ids" using is_path_last [OF g p] by blast
      from facts(3) [OF ts(2)] have "the (dget r t) \<in> set (dvalues r)"
        using dget_in_dvalues [of r t] unfolding dmem_def by (metis option.collapse)
      from max_default_ge [OF this] facts(4) [OF ts(2), of ts'] p ts(1) show ?thesis by simp
    qed
    moreover have "ids = [] \<and> ?m = 0 \<or> (\<exists>ts. is_path g ?inc ts \<and> chain_cost local ts = ?m)"
    proof (cases "dvalues r = []")
      case True
      then have "ids = []" using facts(3) by (cases ids) auto
      with True show ?thesis by (simp add: max_default_def)
    next
      case False
      from vals' [OF max_default_in [OF False]] facts(5) show ?thesis by fastforce
    qed
    ultimately show thesis using defined [OF res] facts(1) by blast
  qed
qed

lemma critical_path_defined:
  assumes "graph_ok g" and "\<And>t. t \<in> set ids \<Longrightarrow> set (deps_of (by_id g) t) \<subseteq> set ids"
    and "set ids \<subseteq> set (graph_ids g)" and "\<And>t. t \<in> set ids \<Longrightarrow> dmem t local"
    and "\<And>t v. dget local t = Some (Some v) \<Longrightarrow> 0 \<le> v" and "\<not> too_long g ids local"
  shows "\<exists>m. critical_path g ids local = Inr (Some m, False)
    \<and> (ids = [] \<and> m = 0 \<or> (\<exists>ts. is_path g (\<lambda>t. t \<in> set ids) ts \<and> chain_cost local ts = m))"
  by (rule critical_path_exact [OF assms(1-5)]) (use assms(6) in auto)

end
