(* ===== verification/Physical_Props.thy ===== *)
theory Physical_Props
  imports Physical_Paths
begin

text \<open>
  What the physical analysis promises: admission is exact over unbounded integers, up to the one limit of
  its 64-bit unit conversion, and it composes with the scheduler.
\<close>

section \<open>Sums of the largest values\<close>

lemma take_shift:
  assumes "sorted_wrt (\<lambda>x y. f y \<le> f x) (y # ys)" and "(0::int) \<le> f y"
  shows "sum_list (map f (take k ys)) \<le> sum_list (map f (take k (y # ys)))"
proof (cases k)
  case (Suc j)
  show ?thesis
  proof (cases "j < length ys")
    case True
    then have "f (ys ! j) \<le> f y" using assms(1) by simp
    then show ?thesis by (simp add: Suc take_Suc_conv_app_nth [OF True])
  next
    case False
    then show ?thesis using assms(2) by (simp add: Suc)
  qed
qed simp

lemma largest_sum_bounds:
  "(\<And>x. x \<in> set ys \<Longrightarrow> (0::int) \<le> f x) \<Longrightarrow> sorted_wrt (\<lambda>x y. f y \<le> f x) ys \<Longrightarrow> S \<subseteq> set ys \<Longrightarrow> card S \<le> k \<Longrightarrow> sum f S \<le> sum_list (map f (take k ys))"
proof (induction ys arbitrary: S k)
  case Nil
  then show ?case by simp
next
  case (Cons y ys)
  have fin: "finite S" using Cons.prems(3) finite_subset by auto
  show ?case
  proof (cases "y \<in> S")
    case True
    then have "0 < card S" using fin card_gt_0_iff by blast
    then obtain j where j: "k = Suc j" using Cons.prems(4) by (cases k) auto
    have "sum f (S - {y}) \<le> sum_list (map f (take j ys))"
      by (rule Cons.IH) (use Cons.prems True fin j in \<open>auto simp: card_Diff_singleton\<close>)
    then show ?thesis using True fin by (simp add: j sum.remove)
  next
    case False
    have "sum f S \<le> sum_list (map f (take k ys))"
      by (rule Cons.IH) (use Cons.prems False in auto)
    with take_shift [OF Cons.prems(2)] Cons.prems(1) show ?thesis by (meson list.set_intros(1) order_trans)
  qed
qed

lemma sort_map_key: "sort (map f xs) = map f (sort_key f xs)" for f :: "'a \<Rightarrow> 'b::linorder"
  by (rule properties_for_sort) (simp_all add: mset_map)

lemma largest_sum:
  fixes f :: "'a \<Rightarrow> int"
  assumes "distinct xs" and "\<And>x. x \<in> set xs \<Longrightarrow> 0 \<le> f x"
  shows "sum_list (take k (rev (sort (map f xs)))) \<le> cap \<longleftrightarrow> (\<forall>S. S \<subseteq> set xs \<longrightarrow> card S \<le> k \<longrightarrow> sum f S \<le> cap)"
proof -
  let ?ys = "rev (sort_key f xs)"
  have eq: "take k (rev (sort (map f xs))) = map f (take k ?ys)"
    by (simp add: sort_map_key rev_map take_map)
  have desc: "sorted_wrt (\<lambda>x y. f y \<le> f x) ?ys"
    using sorted_sort_key [of f xs] by (simp add: sorted_wrt_rev sorted_map)
  have "sum f S \<le> cap" if "sum_list (map f (take k ?ys)) \<le> cap" "S \<subseteq> set xs" "card S \<le> k" for S
    using largest_sum_bounds [OF _ desc, of S k] assms(2) that by simp
  moreover have "sum_list (map f (take k ?ys)) \<le> cap" if all: "\<forall>S. S \<subseteq> set xs \<longrightarrow> card S \<le> k \<longrightarrow> sum f S \<le> cap"
  proof -
    have "distinct (take k ?ys)" using assms(1) by (simp add: distinct_take)
    then have "sum_list (map f (take k ?ys)) = sum f (set (take k ?ys))" "card (set (take k ?ys)) \<le> k"
      by (simp_all add: sum_list_distinct_conv_sum_set distinct_card)
    moreover have "set (take k ?ys) \<subseteq> set xs" by (metis set_take_subset set_rev set_sort)
    ultimately show ?thesis using all by auto
  qed
  ultimately show ?thesis unfolding eq by blast
qed

section \<open>Exact quantities\<close>

definition chosen :: "(string, backend_profile) dict \<Rightarrow> string \<Rightarrow> backend_profile" where
  "chosen selected t = the (dget selected t)"

definition transfer_bytes :: "backend_profile \<Rightarrow> int" where
  "transfer_bytes p = bp_network_ingress_bytes p + bp_network_egress_bytes p"

definition transferable :: "run_envelope \<Rightarrow> backend_profile \<Rightarrow> bool" where
  "transferable env p \<longleftrightarrow>
     transfer_bytes p = 0 \<or> (0 < re_available_bandwidth_bps env \<and> 8000 * transfer_bytes p \<le> max_resource_units)"

definition network_ms :: "run_envelope \<Rightarrow> backend_profile \<Rightarrow> int" where
  "network_ms env p = ceil_div (8000 * transfer_bytes p) (re_available_bandwidth_bps env) + bp_network_rtt_ms p"

lemma ceil_div_divmod: "0 < d \<Longrightarrow> n div d + (if n mod d \<noteq> 0 then 1 else 0) = ceil_div n d" for n d :: int
proof -
  assume d: "0 < d"
  have "n + d - 1 = (n mod d + d - 1) + d * (n div d)" by (simp add: algebra_simps)
  then have "(n + d - 1) div d = n div d + (n mod d + d - 1) div d" using d by (metis add.commute div_mult_self2 less_irrefl)
  moreover have "(n mod d + d - 1) div d = (if n mod d \<noteq> 0 then 1 else 0)"
  proof (cases "n mod d = 0")
    case False
    have "0 < n mod d" "n mod d < d" using pos_mod_sign [OF d, of n] pos_mod_bound [OF d, of n] False by linarith+
    then have "(n mod d - 1 + d) div d = (n mod d - 1) div d + 1" using d by simp
    moreover have "(n mod d - 1) div d = 0" using \<open>0 < n mod d\<close> \<open>n mod d < d\<close> by (simp add: div_pos_pos_trivial)
    ultimately show ?thesis using False by (simp add: algebra_simps)
  qed (use d in \<open>simp add: div_pos_pos_trivial\<close>)
  ultimately show ?thesis by (simp add: ceil_div_def)
qed

lemma ceil_div_zero: "0 \<le> d \<Longrightarrow> ceil_div 0 d = 0"
  by (cases "d = 0") (simp_all add: ceil_div_def div_pos_pos_trivial)

lemma strict_profileD:
  assumes "strict_fields t (profile_fields p) = Inr ()"
  shows "d \<in> set (additive_dimensions @ peak_dimensions) \<Longrightarrow> 0 \<le> dm_profile_field d p"
    and "0 \<le> bp_network_rtt_ms p" and "0 \<le> bp_network_ingress_bytes p" and "0 \<le> bp_network_egress_bytes p"
  using assms unfolding strict_fields_ok by (auto simp: profile_fields_def additive_dimensions_def peak_dimensions_def dimension_of_def)

lemma strict_envelopeD:
  assumes "strict_fields ''envelope'' (envelope_fields env) = Inr ()"
  shows "d \<in> set (additive_dimensions @ peak_dimensions) \<Longrightarrow> dm_envelope_field d env \<le> max_resource_units"
    and "0 < re_max_parallelism env" and "0 \<le> re_available_bandwidth_bps env" and "re_deadline_ms env \<le> max_resource_units"
    and "0 < re_deadline_ms env" and "0 \<le> re_max_network_rtt_ms env"
  using assms unfolding strict_fields_ok by (auto simp: envelope_fields_def additive_dimensions_def peak_dimensions_def dimension_of_def)

lemma transfer_exact:
  assumes "strict_fields t (profile_fields p) = Inr ()" and bw: "0 \<le> re_available_bandwidth_bps env"
  shows "fst (combined_of (re_available_bandwidth_bps env) p)
    = (if transferable env p \<and> network_ms env p \<le> max_resource_units then Some (network_ms env p) else None)"
    and "fst (transfer_of (re_available_bandwidth_bps env) p)
    = (if transferable env p then Some (network_ms env p - bp_network_rtt_ms p) else None)"
    and "transferable env p \<Longrightarrow> 0 \<le> network_ms env p - bp_network_rtt_ms p"
proof -
  let ?bw = "re_available_bandwidth_bps env" and ?n = "transfer_bytes p"
  note p = strict_profileD(2-4) [OF assms(1)]
  have n0: "0 \<le> ?n" using p by (simp add: transfer_bytes_def)
  show t: "fst (transfer_of ?bw p) = (if transferable env p then Some (network_ms env p - bp_network_rtt_ms p) else None)"
  proof (cases "?n \<le> max_resource_units")
    case False
    then have "\<not> transferable env p" using n0 by (auto simp: transferable_def max_resource_units_def)
    with False show ?thesis by (simp add: transfer_of_def safe_add_iff transfer_bytes_def)
  next
    case n: True
    show ?thesis
    proof (cases "?n = 0 \<or> ?bw = 0")
      case True
      then show ?thesis
        using n bw by (auto simp: transfer_of_def safe_add_iff transfer_bytes_def [symmetric] transferable_def network_ms_def ceil_div_zero)
    next
      case False
      with n0 bw have pos: "0 < ?n" "0 < ?bw" by auto
      then show ?thesis
        using n safe_multiply_exact [OF pos(1), of 8000] ceil_div_divmod [OF pos(2), of "8000 * ?n"]
        by (simp add: transfer_of_def safe_add_iff transfer_bytes_def [symmetric] transferable_def network_ms_def mult.commute)
    qed
  qed
  show "0 \<le> network_ms env p - bp_network_rtt_ms p" if "transferable env p"
  proof (cases "?n = 0")
    case True
    then show ?thesis using bw by (simp add: network_ms_def ceil_div_zero)
  next
    case False
    with that have "0 < ?bw" by (simp add: transferable_def)
    then show ?thesis using n0 by (simp add: network_ms_def ceil_div_def pos_imp_zdiv_nonneg_iff)
  qed
  show "fst (combined_of ?bw p)
    = (if transferable env p \<and> network_ms env p \<le> max_resource_units then Some (network_ms env p) else None)"
    by (simp add: combined_of_def t safe_add_iff)
qed

section \<open>The selection\<close>

text \<open>What a validated selection is, by task.\<close>

lemma selection_facts:
  assumes v: "validate_inputs g env selected = Inr sel" and d: "dict_ok selected"
  shows "distinct (map fst sel)" and "set (map fst sel) = set (dkeys selected)" and "set (dkeys selected) \<subseteq> set (graph_ids g)"
    and "\<And>t. t \<in> set (dkeys selected) \<Longrightarrow> (t, chosen selected t) \<in> set sel"
    and "\<And>t. t \<in> set (dkeys selected) \<Longrightarrow> set (deps_of (by_id g) t) \<subseteq> set (dkeys selected)"
    and "\<And>t. t \<in> set (dkeys selected) \<Longrightarrow> strict_fields t (profile_fields (chosen selected t)) = Inr ()"
    and "map (f \<circ> snd) sel = map (\<lambda>t. f (chosen selected t)) (map fst sel)"
    and "\<And>t h. t \<in> set (dkeys selected) \<Longrightarrow> dget (map (\<lambda>(t, p). (t, h p)) sel) t = Some (h (chosen selected t))"
proof -
  note val = validated [OF v]
  note s = selected_profiles_ok [OF val(4)]
  have fsts: "map fst sel = sort (dkeys selected)" using s by simp
  then show dist: "distinct (map fst sel)" and keys: "set (map fst sel) = set (dkeys selected)"
    using d by (simp_all add: dict_ok_def)
  have each: "p = chosen selected t \<and> strict_fields t (profile_fields p) = Inr ()" if "(t, p) \<in> set sel" for t p
    using s that by (auto simp: chosen_def)
  show in_sel: "(t, chosen selected t) \<in> set sel" if "t \<in> set (dkeys selected)" for t
  proof -
    from that keys obtain p where "(t, p) \<in> set sel" by force
    with each [OF this] show ?thesis by simp
  qed
  then show "strict_fields t (profile_fields (chosen selected t)) = Inr ()" if "t \<in> set (dkeys selected)" for t
    using each that by blast
  show "map (f \<circ> snd) sel = map (\<lambda>t. f (chosen selected t)) (map fst sel)" using each by auto
  show "dget (map (\<lambda>(t, p). (t, h p)) sel) t = Some (h (chosen selected t))" if "t \<in> set (dkeys selected)" for t h
  proof -
    have "map fst (map (\<lambda>(t, p). (t, h p)) sel) = map fst sel" by auto
    then have "distinct (map fst (map (\<lambda>(t, p). (t, h p)) sel))" using dist by (simp only:)
    moreover have "(t, h (chosen selected t)) \<in> set (map (\<lambda>(t, p). (t, h p)) sel)" using in_sel [OF that] by force
    ultimately show ?thesis by (rule map_of_is_SomeI)
  qed
  have deps: "\<exists>task. dget (by_id g) t = Some task \<and> set (tc_dependencies task) \<subseteq> set (dkeys selected)"
    if "t \<in> set (dkeys selected)" for t using val(5) that unfolding missing_dependencies_ok by blast
  then show "set (deps_of (by_id g) t) \<subseteq> set (dkeys selected)" if "t \<in> set (dkeys selected)" for t
    using that by (fastforce simp: deps_of_def)
  show "set (dkeys selected) \<subseteq> set (graph_ids g)"
    using deps dmem_by_id [of _ g] by (force simp: dmem_def)
qed

lemma chosen_nonneg:
  assumes "validate_inputs g env selected = Inr sel" and "dict_ok selected" and "d \<in> set (additive_dimensions @ peak_dimensions)"
    and "t \<in> set (dkeys selected)"
  shows "0 \<le> dm_profile_field d (chosen selected t)"
  by (rule strict_profileD(1) [OF selection_facts(6) [OF assms(1,2,4)] assms(3)])

lemma additive_within:
  assumes v: "validate_inputs g env selected = Inr sel" and "dict_ok selected" and d: "d \<in> set additive_dimensions"
  shows "pk_passed (dimension_check d (additive_total sel d) env)
    \<longleftrightarrow> (\<Sum>t \<in> set (dkeys selected). dm_profile_field d (chosen selected t)) \<le> dm_envelope_field d env"
proof -
  note s = selection_facts [OF assms(1,2)]
  have "(case safe_sum (map (dm_profile_field d \<circ> snd) sel) of None \<Rightarrow> False | Some v \<Rightarrow> v \<le> dm_envelope_field d env)
      \<longleftrightarrow> sum_list (map (dm_profile_field d \<circ> snd) sel) \<le> dm_envelope_field d env"
  proof (rule safe_sum_within)
    show "dm_envelope_field d env \<le> max_resource_units" using strict_envelopeD(1) [OF validated(2) [OF v]] d by simp
    fix x assume "x \<in> set (map (dm_profile_field d \<circ> snd) sel)"
    then obtain t where "t \<in> set (dkeys selected)" "x = dm_profile_field d (chosen selected t)"
      unfolding s(7) set_map [of _ "map fst sel"] s(2) by blast
    then show "0 \<le> x" using chosen_nonneg [OF assms(1,2)] d by simp
  qed
  moreover have "sum_list (map (dm_profile_field d \<circ> snd) sel) = (\<Sum>t \<in> set (dkeys selected). dm_profile_field d (chosen selected t))"
    unfolding s(7) using s(1,2) by (simp only: sum_list_distinct_conv_sum_set)
  ultimately show ?thesis by (simp add: dimension_check_def additive_total_def Let_def)
qed

lemma peak_within:
  assumes v: "validate_inputs g env selected = Inr sel" and "dict_ok selected" and d: "d \<in> set peak_dimensions"
  shows "pk_passed (dimension_check d (peak_total env sel d) env)
    \<longleftrightarrow> (\<forall>S. S \<subseteq> set (dkeys selected) \<longrightarrow> int (card S) \<le> re_max_parallelism env \<longrightarrow>
          (\<Sum>t \<in> S. dm_profile_field d (chosen selected t)) \<le> dm_envelope_field d env)"
proof -
  note s = selection_facts [OF assms(1,2)]
  let ?f = "\<lambda>t. dm_profile_field d (chosen selected t)" and ?cap = "dm_envelope_field d env"
  let ?k = "nat (min (re_max_parallelism env) (int (length sel)))"
  have vals: "peak_values env sel d = take ?k (rev (sort (map ?f (map fst sel))))"
    unfolding peak_values_def s(7) ..
  have nonneg: "0 \<le> ?f t" if "t \<in> set (map fst sel)" for t
    using chosen_nonneg [OF assms(1,2), of d t] d that unfolding s(2) by simp
  have pos: "0 \<le> x" if "x \<in> set (take ?k (rev (sort (map ?f (map fst sel)))))" for x
    using in_set_takeD [OF that] nonneg by auto
  have "(case safe_sum (peak_values env sel d) of None \<Rightarrow> False | Some v \<Rightarrow> v \<le> ?cap)
      \<longleftrightarrow> sum_list (take ?k (rev (sort (map ?f (map fst sel))))) \<le> ?cap"
    unfolding vals by (rule safe_sum_within [OF pos]) (use strict_envelopeD(1) [OF validated(2) [OF v]] d in simp_all)
  also have "\<dots> \<longleftrightarrow> (\<forall>S. S \<subseteq> set (map fst sel) \<longrightarrow> card S \<le> ?k \<longrightarrow> sum ?f S \<le> ?cap)"
    by (rule largest_sum [OF s(1) nonneg])
  also have "\<dots> \<longleftrightarrow> (\<forall>S. S \<subseteq> set (dkeys selected) \<longrightarrow> int (card S) \<le> re_max_parallelism env \<longrightarrow> sum ?f S \<le> ?cap)"
  proof -
    have "card S \<le> ?k \<longleftrightarrow> int (card S) \<le> re_max_parallelism env" if "S \<subseteq> set (map fst sel)" for S
    proof -
      have "card S \<le> card (set (map fst sel))" by (rule card_mono [OF _ that]) simp
      then have "card S \<le> length sel" using distinct_card [OF s(1)] by simp
      then show ?thesis using strict_envelopeD(2) [OF validated(2) [OF v]] by (simp add: le_nat_iff)
    qed
    then show ?thesis unfolding s(2) [symmetric] by blast
  qed
  finally show ?thesis by (simp add: dimension_check_def peak_total_def Let_def)
qed

lemma max_default_le_iff: "0 \<le> b \<Longrightarrow> max_default xs \<le> b \<longleftrightarrow> (\<forall>x \<in> set xs. x \<le> b)"
  using max_default_le [of b xs] max_default_ge [of _ xs] by (meson order_trans)

lemma rtt_within:
  assumes v: "validate_inputs g env selected = Inr sel" and "dict_ok selected"
  shows "pk_passed (rtt_check env sel) \<longleftrightarrow> (\<forall>t \<in> set (dkeys selected). bp_network_rtt_ms (chosen selected t) \<le> re_max_network_rtt_ms env)"
proof -
  note s = selection_facts [OF assms]
  show ?thesis
    unfolding rtt_check_def max_rtt_def s(7) s(2) [symmetric]
    using max_default_le_iff [OF strict_envelopeD(6) [OF validated(2) [OF v]]] by simp
qed

lemma chain_members: "is_path g (\<lambda>t. t \<in> X) ts \<Longrightarrow> set ts \<subseteq> X"
  by (induction ts rule: induct_list012) auto

lemma chain_exact:
  assumes "is_path g (\<lambda>t. t \<in> X) ts" and "\<And>t. t \<in> X \<Longrightarrow> dget local t = Some (Some (f t))"
  shows "chain_cost local ts = (\<Sum>t\<leftarrow>ts. f t)"
proof -
  have "map (cost_of local) ts = map f ts" using chain_members [OF assms(1)] assms(2) by (auto simp: cost_of_def)
  then show ?thesis by (simp only: chain_cost_def)
qed

lemma network_within:
  assumes v: "validate_inputs g env selected = Inr sel" and d: "dict_ok selected" and b: "path_bounds g env sel = Inr bounds"
  shows "pk_passed (transport_check env (fst (fst bounds))) \<and> pk_passed (deadline_check env (fst (snd (snd bounds))))
    \<longleftrightarrow> (\<forall>t \<in> set (dkeys selected). transferable env (chosen selected t))
      \<and> (\<forall>ts. is_path g (\<lambda>t. t \<in> set (dkeys selected)) ts \<longrightarrow> (\<Sum>t\<leftarrow>ts. network_ms env (chosen selected t)) \<le> re_deadline_ms env)"
    (is "_ \<longleftrightarrow> ?right")
proof -
  note s = selection_facts [OF v d] and val = validated [OF v]
  note env = strict_envelopeD [OF val(2)]
  let ?K = "set (dkeys selected)" and ?ids = "map fst sel" and ?ms = "\<lambda>t. network_ms env (chosen selected t)"
    and ?rtt = "\<lambda>t. bp_network_rtt_ms (chosen selected t)"
  note ex = transfer_exact [OF s(6) env(3)]
  have comb: "dget (combined_local env sel) t
      = Some (if transferable env (chosen selected t) \<and> ?ms t \<le> max_resource_units then Some (?ms t) else None)" if "t \<in> ?K" for t
    using s(8) [OF that, of "\<lambda>p. fst (combined_of (re_available_bandwidth_bps env) p)"] ex(1) [OF that]
    by (simp add: combined_local_def)
  have trans: "dget (transport_local env sel) t
      = Some (if transferable env (chosen selected t) then Some (?ms t - ?rtt t) else None)" if "t \<in> ?K" for t
    using s(8) [OF that, of "\<lambda>p. fst (transfer_of (re_available_bandwidth_bps env) p)"] ex(2) [OF that]
    by (simp add: transport_local_def)
  have rtt0: "0 \<le> ?rtt t" if "t \<in> ?K" for t using strict_profileD(2) [OF s(6) [OF that]] .
  have keys: "t \<in> ?K" if "dmem t (combined_local env sel) \<or> dmem t (transport_local env sel)" for t
    using that unfolding s(2) [symmetric] by (force simp: dmem_iff_key combined_local_def transport_local_def)
  have closed: "\<And>t. t \<in> set ?ids \<Longrightarrow> set (deps_of (by_id g) t) \<subseteq> set ?ids" and known: "set ?ids \<subseteq> set (graph_ids g)"
    using s(3,5) unfolding s(2) by blast+
  from b obtain T R C where T: "critical_path g ?ids (transport_local env sel) = Inr T"
    and C: "critical_path g ?ids (combined_local env sel) = Inr C" and bounds: "bounds = (T, R, C)"
    by (auto simp: path_bounds_def Let_def split: sum.splits)
  have nonneg: "dget (combined_local env sel) t = Some (Some x) \<Longrightarrow> 0 \<le> x"
    "dget (transport_local env sel) t = Some (Some x) \<Longrightarrow> 0 \<le> x" for t x
    using comb [of t] trans [of t] ex(3) [of t] rtt0 [of t] keys [of t] by (force simp: dmem_def split: if_splits)+
  have has: "t \<in> set ?ids \<Longrightarrow> dmem t (combined_local env sel)" "t \<in> set ?ids \<Longrightarrow> dmem t (transport_local env sel)" for t
    using comb [of t] trans [of t] unfolding s(2) by (simp_all add: dmem_def)
  have right: "?right" if "pk_passed (deadline_check env (fst C))"
  proof -
    show ?thesis
    proof (rule critical_path_exact [OF val(1) closed known _ nonneg(1)])
      show "\<And>t. t \<in> set ?ids \<Longrightarrow> dmem t (combined_local env sel)" by (rule has(1))
    next
      assume "critical_path g ?ids (combined_local env sel) = Inr (None, True)"
      with C that show ?right by (cases C) (simp add: deadline_check_def)
    next
      fix m assume m: "critical_path g ?ids (combined_local env sel) = Inr (Some m, False)"
        "\<forall>t \<in> set ?ids. dget (combined_local env sel) t \<noteq> Some None"
        "\<forall>ts. is_path g (\<lambda>t. t \<in> set ?ids) ts \<longrightarrow> chain_cost (combined_local env sel) ts \<le> m"
      have ok: "transferable env (chosen selected t) \<and> ?ms t \<le> max_resource_units" if "t \<in> ?K" for t
      proof -
        have "dget (combined_local env sel) t \<noteq> Some None" using m(2) that unfolding s(2) by blast
        with comb [OF that] show ?thesis by (simp split: if_splits)
      qed
      moreover have "(\<Sum>t\<leftarrow>ts. ?ms t) \<le> re_deadline_ms env" if p: "is_path g (\<lambda>t. t \<in> ?K) ts" for ts
      proof -
        have "chain_cost (combined_local env sel) ts = (\<Sum>t\<leftarrow>ts. ?ms t)"
          by (rule chain_exact [OF p]) (simp add: comb ok)
        moreover have "chain_cost (combined_local env sel) ts \<le> m" using m(3) p unfolding s(2) by blast
        moreover have "m \<le> re_deadline_ms env"
          using m(1) C \<open>pk_passed (deadline_check env (fst C))\<close> by (cases C) (simp add: deadline_check_def)
        ultimately show ?thesis by simp
      qed
      ultimately show ?right by blast
    qed simp_all
  qed
  have left: "pk_passed (transport_check env (fst T)) \<and> pk_passed (deadline_check env (fst C))" if r: "?right"
  proof -
    have tr: "transferable env (chosen selected t)" if "t \<in> ?K" for t using r that by blast
    have path1: "is_path g (\<lambda>t. t \<in> ?K) [t]" if "t \<in> ?K" for t using that s(3) by auto
    have small: "?ms t \<le> max_resource_units" if "t \<in> ?K" for t
      using r path1 [OF that] env(4) by (metis (no_types, lifting) add.right_neutral list.simps(8,9) order_trans sum_list.Cons sum_list.Nil)
    have comb': "dget (combined_local env sel) t = Some (Some (?ms t))" if "t \<in> ?K" for t
      by (simp only: comb [OF that] tr [OF that] small [OF that] simp_thms if_True)
    have trans': "dget (transport_local env sel) t = Some (Some (?ms t - ?rtt t))" if "t \<in> ?K" for t
      by (simp only: trans [OF that] tr [OF that] if_True)
    have short: "chain_cost (combined_local env sel) ts \<le> re_deadline_ms env
        \<and> chain_cost (transport_local env sel) ts \<le> re_deadline_ms env" if p: "is_path g (\<lambda>t. t \<in> ?K) ts" for ts
    proof -
      have "(\<Sum>t\<leftarrow>ts. ?ms t - ?rtt t) \<le> (\<Sum>t\<leftarrow>ts. ?ms t)"
        by (rule sum_list_mono) (use chain_members [OF p] rtt0 in force)
      with r p chain_exact [OF p, of _ ?ms, OF comb'] chain_exact [OF p, of _ "\<lambda>t. ?ms t - ?rtt t", OF trans'] show ?thesis
        by fastforce
    qed
    have tight: "\<not> too_long g ?ids (combined_local env sel)"
      using short env(4) unfolding too_long_def s(2) by (force simp: comb')
    have "\<exists>m. critical_path g ?ids (combined_local env sel) = Inr (Some m, False)
        \<and> (?ids = [] \<and> m = 0 \<or> (\<exists>ts. is_path g (\<lambda>t. t \<in> set ?ids) ts \<and> chain_cost (combined_local env sel) ts = m))"
      by (rule critical_path_defined [OF val(1) closed known]) (assumption | rule has(1) nonneg(1) tight)+
    then obtain m where m: "critical_path g ?ids (combined_local env sel) = Inr (Some m, False)"
      "?ids = [] \<and> m = 0 \<or> (\<exists>ts. is_path g (\<lambda>t. t \<in> set ?ids) ts \<and> chain_cost (combined_local env sel) ts = m)" by blast
    have loose: "\<not> too_long g ?ids (transport_local env sel)"
      using short env(4) unfolding too_long_def s(2) by (force simp: trans')
    have "\<exists>n. critical_path g ?ids (transport_local env sel) = Inr (Some n, False)
        \<and> (?ids = [] \<and> n = 0 \<or> (\<exists>ts. is_path g (\<lambda>t. t \<in> set ?ids) ts \<and> chain_cost (transport_local env sel) ts = n))"
      by (rule critical_path_defined [OF val(1) closed known]) (assumption | rule has(2) nonneg(2) loose)+
    then obtain n where n: "critical_path g ?ids (transport_local env sel) = Inr (Some n, False)" by blast
    have "m \<le> re_deadline_ms env" using m(2) short env(5) unfolding s(2) by auto
    with m(1) n T C show ?thesis by (cases T; cases C) (simp add: deadline_check_def transport_check_def)
  qed
  show ?thesis using right left by (auto simp: bounds)
qed

section \<open>Reports\<close>

lemma report_digest_verifies: "physical_verify_digest (physical_report_of g env sel bounds)"
  by (simp add: physical_verify_digest_def physical_report_of_def Let_def is_sha256_content physical_unsigned_payload_def)

lemma path_bounds_defined:
  assumes v: "validate_inputs g env selected = Inr sel" and d: "dict_ok selected"
  shows "\<exists>bounds. path_bounds g env sel = Inr bounds"
proof -
  note s = selection_facts [OF v d] and val = validated [OF v]
  let ?ids = "map fst sel" and ?bw = "re_available_bandwidth_bps env"
  note ex = transfer_exact [OF s(6) strict_envelopeD(3) [OF val(2)]]
  have closed: "\<And>t. t \<in> set ?ids \<Longrightarrow> set (deps_of (by_id g) t) \<subseteq> set ?ids" and known: "set ?ids \<subseteq> set (graph_ids g)"
    using s(3,5) unfolding s(2) by blast+
  have all: "\<exists>r. critical_path g ?ids (map (\<lambda>(t, p). (t, h p)) sel) = Inr r"
    if h: "\<And>t v. t \<in> set (dkeys selected) \<Longrightarrow> h (chosen selected t) = Some v \<Longrightarrow> 0 \<le> v" for h
  proof -
    have get: "dget (map (\<lambda>(t, p). (t, h p)) sel) t = (if t \<in> set ?ids then Some (h (chosen selected t)) else None)" for t
    proof (cases "t \<in> set ?ids")
      case True
      with s(8) [of t h] show ?thesis unfolding s(2) by simp
    next
      case False
      then have "t \<notin> fst ` set (map (\<lambda>(t, p). (t, h p)) sel)" by force
      then have "dget (map (\<lambda>(t, p). (t, h p)) sel) t = None" by (rule map_of_eq_None_iff [THEN iffD2])
      with False show ?thesis by simp
    qed
    have has: "dmem t (map (\<lambda>(t, p). (t, h p)) sel)" if "t \<in> set ?ids" for t using that unfolding dmem_def get by simp
    have nonneg: "0 \<le> v" if "dget (map (\<lambda>(t, p). (t, h p)) sel) t = Some (Some v)" for t v
      using that h [of t v] unfolding get s(2) by (simp split: if_splits)
    show ?thesis by (rule critical_path_exact [OF val(1) closed known has nonneg]) auto
  qed
  have rtt0: "0 \<le> bp_network_rtt_ms (chosen selected t)" if "t \<in> set (dkeys selected)" for t
    using strict_profileD(2) [OF s(6) [OF that]] .
  have "\<exists>r. critical_path g ?ids (transport_local env sel) = Inr r" unfolding transport_local_def
  proof (rule all)
    fix t v assume t: "t \<in> set (dkeys selected)" and "fst (transfer_of ?bw (chosen selected t)) = Some v"
    then show "0 \<le> v" using ex(2,3) [OF t] by (auto split: if_splits)
  qed
  moreover have "\<exists>r. critical_path g ?ids (rtt_local sel) = Inr r"
    unfolding rtt_local_def by (rule all) (use rtt0 in auto)
  moreover have "\<exists>r. critical_path g ?ids (combined_local env sel) = Inr r" unfolding combined_local_def
  proof (rule all)
    fix t v assume t: "t \<in> set (dkeys selected)" and "fst (combined_of ?bw (chosen selected t)) = Some v"
    then show "0 \<le> v" using ex(1,3) [OF t] rtt0 [OF t] by (auto split: if_splits)
  qed
  ultimately show ?thesis by (auto simp: path_bounds_def Let_def)
qed

lemma analyze_physical_reports:
  assumes "validate_inputs g env selected = Inr sel" and "dict_ok selected"
  obtains bounds where "path_bounds g env sel = Inr bounds" and "analyze_physical g env selected = Inr (physical_report_of g env sel bounds)"
  using path_bounds_defined [OF assms] assms(1) that by (auto simp: analyze_physical_def Let_def report_digest_verifies)

text \<open>
  What admission means, over unbounded integers: totals, peaks, round trips, a link for whatever has to be transferred, and the time of
  dependent transfers. The one limit of the 64-bit arithmetic that can refuse more is that the bit count of every transfer, in thousandths, is representable.
\<close>

definition linked :: "run_envelope \<Rightarrow> backend_profile \<Rightarrow> bool" where
  "linked env p \<longleftrightarrow> transfer_bytes p = 0 \<or> 0 < re_available_bandwidth_bps env"

definition bits_representable :: "backend_profile \<Rightarrow> bool" where
  "bits_representable p \<longleftrightarrow> 8000 * transfer_bytes p \<le> max_resource_units"

lemma transferable_iff: "transferable env p \<longleftrightarrow> linked env p \<and> bits_representable p"
  by (auto simp: transferable_def linked_def bits_representable_def max_resource_units_def)

definition physically_fits :: "execution_graph \<Rightarrow> run_envelope \<Rightarrow> (string, backend_profile) dict \<Rightarrow> bool" where
  "physically_fits g env selected \<longleftrightarrow>
     (\<forall>d \<in> set additive_dimensions.
        (\<Sum>t \<in> set (dkeys selected). dm_profile_field d (chosen selected t)) \<le> dm_envelope_field d env)
     \<and> (\<forall>d \<in> set peak_dimensions. \<forall>S. S \<subseteq> set (dkeys selected) \<longrightarrow> int (card S) \<le> re_max_parallelism env \<longrightarrow>
          (\<Sum>t \<in> S. dm_profile_field d (chosen selected t)) \<le> dm_envelope_field d env)
     \<and> (\<forall>t \<in> set (dkeys selected). bp_network_rtt_ms (chosen selected t) \<le> re_max_network_rtt_ms env
          \<and> linked env (chosen selected t))
     \<and> (\<forall>ts. is_path g (\<lambda>t. t \<in> set (dkeys selected)) ts \<longrightarrow>
          (\<Sum>t\<leftarrow>ts. network_ms env (chosen selected t)) \<le> re_deadline_ms env)"

lemma report_status:
  assumes v: "validate_inputs g env selected = Inr sel" and "dict_ok selected" and b: "path_bounds g env sel = Inr bounds"
  shows "pa_status (physical_report_of g env sel bounds) = PHYSICAL_ADMITTED \<longleftrightarrow>
    physically_fits g env selected \<and> (\<forall>t \<in> set (dkeys selected). bits_representable (chosen selected t))"
proof -
  have "pa_status (physical_report_of g env sel bounds) = PHYSICAL_ADMITTED \<longleftrightarrow>
      (\<forall>d \<in> set additive_dimensions. pk_passed (dimension_check d (additive_total sel d) env))
      \<and> (\<forall>d \<in> set peak_dimensions. pk_passed (dimension_check d (peak_total env sel d) env))
      \<and> pk_passed (rtt_check env sel)
      \<and> (pk_passed (transport_check env (fst (fst bounds))) \<and> pk_passed (deadline_check env (fst (snd (snd bounds)))))"
    by (auto simp: physical_report_of_def Let_def physical_checks_def list_all_iff ball_Un)
  then show ?thesis
    using additive_within [OF assms(1,2)] peak_within [OF assms(1,2)]
    by (simp only: physically_fits_def transferable_iff rtt_within [OF assms(1,2)] network_within [OF assms] ball_conj_distrib simp_thms cong: ball_cong)
      blast
qed

section \<open>A concrete admission\<close>

definition loaded_profile :: backend_profile where
  "loaded_profile = (sample_profile ''p'')\<lparr>bp_cpu_time_ms := 5, bp_peak_memory_bytes := 7, bp_network_ingress_bytes := 2,
     bp_network_egress_bytes := 1, bp_min_bandwidth_bps := 500, bp_network_rtt_ms := 3\<rparr>"

definition loaded_graph :: execution_graph where
  "loaded_graph = map (\<lambda>t. t\<lparr>tc_profiles := [loaded_profile]\<rparr>) sample_graph"

definition loaded_envelope :: run_envelope where
  "loaded_envelope = sample_envelope\<lparr>re_max_cpu_time_ms := 10, re_max_peak_memory_bytes := 14,
     re_max_network_ingress_bytes := 4, re_max_network_egress_bytes := 2, re_available_bandwidth_bps := 1000,
     re_max_network_rtt_ms := 3\<rparr>"

definition loaded_selection :: "(string, backend_profile) dict" where
  "loaded_selection = [(''a'', loaded_profile), (''b'', loaded_profile)]"

lemma loaded_valid:
  "validate_inputs loaded_graph loaded_envelope loaded_selection = Inr [(''a'', loaded_profile), (''b'', loaded_profile)]"
  by code_simp

lemma loaded_bounds:
  "path_bounds loaded_graph loaded_envelope [(''a'', loaded_profile), (''b'', loaded_profile)]
    = Inr ((Some 48, False), (Some 6, False), (Some 54, False))"
  by code_simp

lemma loaded_checks:
  "list_all pk_passed (physical_checks loaded_envelope [(''a'', loaded_profile), (''b'', loaded_profile)]
    ((Some 48, False), (Some 6, False), (Some 54, False)))"
  by code_simp

lemma loaded_succeeds:
  "case schedule loaded_graph loaded_envelope ADAPTIVE of Some (Inr r) \<Rightarrow> sr_success r \<and> map se_task_id (sr_entries r) = [''a'', ''b''] | _ \<Rightarrow> False"
  by code_simp


text \<open>
  C22. Physical admission is exact. On valid inputs the analysis always produces a report, and it admits
  the selection exactly when the selection fits and no transfer is too large for the unit conversion. It fits when,
  over unbounded integers, every total stays within its cap, no set of at most \<open>max_parallelism\<close> selected tasks
  exceeds a peak cap, every round trip is short enough, there is a link if anything is transferred, and no chain of dependent tasks needs
  more than the deadline for its transfers and round trips. A transfer is too large when 8000 times its bytes (bits times
  milliseconds per second) exceed a signed 64-bit integer: a selection that fits is refused if and only if it has such a
  transfer, and no other 64-bit overflow changes the answer.
\<close>

theorem physical_admission_exact:
  assumes "validate_inputs g env selected = Inr sel" and "dict_ok selected"
  shows "\<exists>r. analyze_physical g env selected = Inr r \<and> physical_verify_digest r
    \<and> (pa_status r = PHYSICAL_ADMITTED \<longleftrightarrow>
         physically_fits g env selected \<and> (\<forall>t \<in> set (dkeys selected). 8000 * transfer_bytes (chosen selected t) \<le> max_resource_units))
    \<and> (pa_status r = PHYSICAL_ADMITTED \<longleftrightarrow> physical_violations r = [])"
proof -
  obtain bounds where b: "path_bounds g env sel = Inr bounds"
    "analyze_physical g env selected = Inr (physical_report_of g env sel bounds)"
    by (rule analyze_physical_reports [OF assms])
  have "pa_status (physical_report_of g env sel bounds) = PHYSICAL_ADMITTED
      \<longleftrightarrow> physical_violations (physical_report_of g env sel bounds) = []"
    by (simp add: physical_report_of_def Let_def physical_violations_def filter_empty_conv list_all_iff)
  with b report_status [OF assms b(1), unfolded bits_representable_def] report_digest_verifies show ?thesis by blast
qed

theorem physical_admission_exact_witness:
  "\<exists>r. analyze_physical loaded_graph loaded_envelope loaded_selection = Inr r \<and> physical_verify_digest r"
  using physical_admission_exact [OF loaded_valid] by (auto simp: loaded_selection_def dict_ok_def)

text \<open>
  C27. Admission and scheduling compose: when the physical analysis admits a selection and the scheduler
  runs the tasks of the graph on it, then at every instant the running tasks together stay within each peak
  cap (memory, VRAM, bandwidth), whatever order the scheduler chose, and the whole run stays within
  each additive cap.
\<close>

theorem admitted_schedule_fits:
  assumes "schedule g env policy = Some (Inr r)"
    and "analyze_physical g env selected = Inr a" and "pa_status a = PHYSICAL_ADMITTED" and "dict_ok selected"
    and "set (map se_task_id (sr_entries r)) \<subseteq> set (dkeys selected)"
  shows "(\<forall>d \<in> set peak_dimensions.
      (\<Sum>e\<leftarrow>filter (\<lambda>e. se_start_ms e \<le> now \<and> now < se_end_ms e) (sr_entries r).
         dm_profile_field d (chosen selected (se_task_id e))) \<le> dm_envelope_field d env)
    \<and> (\<forall>d \<in> set additive_dimensions.
      (\<Sum>e\<leftarrow>sr_entries r. dm_profile_field d (chosen selected (se_task_id e))) \<le> dm_envelope_field d env)"
proof -
  obtain sel where v: "validate_inputs g env selected = Inr sel"
    using assms(2) by (auto simp: analyze_physical_def split: sum.splits)
  have fits: "physically_fits g env selected"
    using analyze_physical_reports [OF v assms(4)] report_status [OF v assms(4)] assms(2,3) by (metis sum.inject(2))
  obtain cx L st M where r: "result_of g env policy r cx L st M" by (rule result_run [OF assms(1)])
  note f = result_facts [OF r]
  let ?run = "filter (\<lambda>e. se_start_ms e \<le> now \<and> now < se_end_ms e) (sr_entries r)"
  have ids: "distinct (map se_task_id (sr_entries r))" using f(12) by (simp add: f(10) o_def)
  then have run: "distinct (map se_task_id ?run)" by (rule distinct_map_filter)
  have "int (length ?run) \<le> re_max_parallelism env"
    using result_concurrency [OF r, where now = now] strict_envelopeD(2) [OF validated(2) [OF v]] by (auto split: if_splits)
  then have card: "int (card (set (map se_task_id ?run))) \<le> re_max_parallelism env"
    using distinct_card [OF run] by simp
  have sums: "(\<Sum>e\<leftarrow>es. f (se_task_id e)) = sum f (set (map se_task_id es))" if "distinct (map se_task_id es)" for f es
    using sum_list_distinct_conv_sum_set [OF that, of f] by (simp add: o_def)
  have "(\<Sum>e\<leftarrow>?run. dm_profile_field d (chosen selected (se_task_id e))) \<le> dm_envelope_field d env"
    if d: "d \<in> set peak_dimensions" for d
  proof -
    have "set (map se_task_id ?run) \<subseteq> set (dkeys selected)" using assms(5) by auto
    with fits d card have "(\<Sum>t \<in> set (map se_task_id ?run). dm_profile_field d (chosen selected t)) \<le> dm_envelope_field d env"
      unfolding physically_fits_def by blast
    then show ?thesis using sums [OF run, of "\<lambda>t. dm_profile_field d (chosen selected t)"] by simp
  qed
  moreover have "(\<Sum>e\<leftarrow>sr_entries r. dm_profile_field d (chosen selected (se_task_id e))) \<le> dm_envelope_field d env"
    if d: "d \<in> set additive_dimensions" for d
  proof -
    have "(\<Sum>t \<in> set (map se_task_id (sr_entries r)). dm_profile_field d (chosen selected t))
        \<le> (\<Sum>t \<in> set (dkeys selected). dm_profile_field d (chosen selected t))"
      by (rule sum_mono2 [OF _ assms(5)]) (use chosen_nonneg [OF v assms(4)] d in auto)
    moreover have "(\<Sum>t \<in> set (dkeys selected). dm_profile_field d (chosen selected t)) \<le> dm_envelope_field d env"
      using fits d unfolding physically_fits_def by blast
    ultimately show ?thesis using sums [OF ids, of "\<lambda>t. dm_profile_field d (chosen selected t)"] by simp
  qed
  ultimately show ?thesis by blast
qed

lemma loaded_admitted: "\<exists>a. analyze_physical loaded_graph loaded_envelope loaded_selection = Inr a \<and> pa_status a = PHYSICAL_ADMITTED"
  using loaded_valid loaded_bounds loaded_checks
  by (simp add: analyze_physical_def report_digest_verifies) (simp add: physical_report_of_def Let_def)

theorem admitted_schedule_fits_witness:
  "\<exists>r :: schedule_result. (\<Sum>e\<leftarrow>sr_entries r. bp_cpu_time_ms (chosen loaded_selection (se_task_id e))) \<le> 10 \<and> length (sr_entries r) = 2"
proof -
  obtain r where r: "schedule loaded_graph loaded_envelope ADAPTIVE = Some (Inr r)"
    "map se_task_id (sr_entries r) = [''a'', ''b'']"
    using loaded_succeeds by (auto split: option.splits sum.splits)
  obtain a where a: "analyze_physical loaded_graph loaded_envelope loaded_selection = Inr a" "pa_status a = PHYSICAL_ADMITTED"
    using loaded_admitted by blast
  have "dict_ok loaded_selection" "set (map se_task_id (sr_entries r)) \<subseteq> set (dkeys loaded_selection)"
    unfolding r(2) by (simp_all add: loaded_selection_def dict_ok_def)
  from admitted_schedule_fits [OF r(1) a this]
  have "(\<Sum>e\<leftarrow>sr_entries r. bp_cpu_time_ms (chosen loaded_selection (se_task_id e))) \<le> 10"
    by (simp add: additive_dimensions_def dimension_of_def loaded_envelope_def)
  moreover have "length (sr_entries r) = 2" using arg_cong [OF r(2), of length] by simp
  ultimately show ?thesis by (intro exI [of _ r] conjI)
qed

end
