(* ===== verification/Provider_Quota.thy ===== *)
theory Provider_Quota
  imports Interfaces Digest
begin

text \<open>
  \<open>src/agent_physics/provider_quota.py\<close>: admission of provider calls against declared limits.

  An operation takes the state of a \<open>ProviderQuotaPhysics\<close> (and the clock it reads, \<open>qp_now\<close>) to a result
  and the next state; a result is an exception or a value. What an operation did before it raised stays
  done, as in Python. Fields whose Python type is checked at run time have that type here, so the tests
  against \<open>bool\<close> and foreign types have no branch; the dynamically typed \<open>Scalar\<close> of an event is the
  datatype \<open>scalar\<close>, and there every test is a branch. \<open>hashlib\<close> is the SHA-256 of \<open>Digest\<close>; its first 24
  digits identify an attempt, and nothing is assumed about collisions.
\<close>

section \<open>Errors and values\<close>

definition MODEL_SCOPE :: string where
  "MODEL_SCOPE = ''local_declared_quota_model_not_provider_measurement''"

definition GLOBAL_GUARD_SCOPE :: string where
  "GLOBAL_GUARD_SCOPE = ''per_instance_only_not_process_global_or_distributed''"

definition SETTLEMENT_REFUND_POLICY :: string where
  "SETTLEMENT_REFUND_POLICY = ''unused_tokens_refunded_only_within_original_tpm_window''"

datatype quota_error =
    QuotaConfigurationError string
  | QuotaSettlementError string
  | QuotaReplayError string
  | QuotaValueError string
  | QuotaAssertionError string
  | QuotaKeyError string

text \<open>\<open>FakeIntegerClock\<close>.\<close>

definition clock_init :: "int \<Rightarrow> quota_error + int" where
  "clock_init now_ms = (if now_ms < 0 then Inl (QuotaValueError ''now_ms must be a non-negative integer'') else Inr now_ms)"

definition clock_advance :: "int \<Rightarrow> int \<Rightarrow> quota_error + int" where
  "clock_advance delta_ms now =
     (if delta_ms < 0 then Inl (QuotaValueError ''delta_ms must be a non-negative integer'') else Inr (now + delta_ms))"

definition clock_advance_to :: "int \<Rightarrow> int \<Rightarrow> quota_error + int" where
  "clock_advance_to target_ms now =
     (if target_ms < now then Inl (QuotaValueError ''fake clock cannot move backwards'') else Inr target_ms)"

record quota_limits =
  ql_rpm :: int
  ql_tpm :: int
  ql_concurrency :: int
  ql_window_ms :: int

definition mk_quota_limits :: "int \<Rightarrow> int \<Rightarrow> int \<Rightarrow> int \<Rightarrow> quota_error + quota_limits" where
  "mk_quota_limits rpm tpm concurrency window_ms =
     (if rpm \<le> 0 then Inl (QuotaConfigurationError ''rpm must be a positive integer'')
      else if tpm \<le> 0 then Inl (QuotaConfigurationError ''tpm must be a positive integer'')
      else if concurrency \<le> 0 then Inl (QuotaConfigurationError ''concurrency must be a positive integer'')
      else if window_ms \<le> 0 then Inl (QuotaConfigurationError ''window_ms must be a positive integer'')
      else Inr \<lparr>ql_rpm = rpm, ql_tpm = tpm, ql_concurrency = concurrency, ql_window_ms = window_ms\<rparr>)"

record retry_policy =
  rp_max_attempts :: int
  rp_base_backoff_ms :: int
  rp_max_backoff_ms :: int

definition mk_retry_policy :: "int \<Rightarrow> int \<Rightarrow> int \<Rightarrow> quota_error + retry_policy" where
  "mk_retry_policy max_attempts base_backoff_ms max_backoff_ms =
     (if max_attempts \<le> 0 then Inl (QuotaConfigurationError ''max_attempts must be a positive integer'')
      else if base_backoff_ms < 0 then Inl (QuotaConfigurationError ''base_backoff_ms must be a non-negative integer'')
      else if max_backoff_ms < 0 then Inl (QuotaConfigurationError ''max_backoff_ms must be a non-negative integer'')
      else if max_backoff_ms < base_backoff_ms then
        Inl (QuotaConfigurationError ''max_backoff_ms must be at least base_backoff_ms'')
      else Inr \<lparr>rp_max_attempts = max_attempts, rp_base_backoff_ms = base_backoff_ms, rp_max_backoff_ms = max_backoff_ms\<rparr>)"

definition backoff_ms :: "int \<Rightarrow> int \<Rightarrow> int \<Rightarrow> int" where
  "backoff_ms base_backoff max_backoff retry_attempt =
     (if base_backoff = 0 then 0 else min (base_backoff * 2 ^ nat (min (retry_attempt - 1) 62)) max_backoff)"

definition backoff_for :: "retry_policy \<Rightarrow> int \<Rightarrow> quota_error + int" where
  "backoff_for policy retry_attempt =
     (if retry_attempt \<le> 0 then Inl (QuotaValueError ''retry_attempt must be a positive integer'')
      else Inr (backoff_ms (rp_base_backoff_ms policy) (rp_max_backoff_ms policy) retry_attempt))"

record call_request =
  cr_logical_id :: string
  cr_attempt :: int
  cr_estimated_tokens :: int
  cr_previous_attempt_id :: "string option"
  cr_deadline_ms :: "int option"

text \<open>\<open>CallRequest.__post_init__\<close>: the exception, if any.\<close>

definition request_error :: "call_request \<Rightarrow> quota_error option" where
  "request_error q =
     (if py_blank (cr_logical_id q) then Some (QuotaValueError ''logical_id must be non-empty'')
      else if cr_attempt q < 0 then Some (QuotaValueError ''attempt must be a non-negative integer'')
      else if cr_estimated_tokens q \<le> 0 then Some (QuotaValueError ''estimated_tokens must be a positive integer'')
      else if (case cr_deadline_ms q of None \<Rightarrow> False | Some d \<Rightarrow> d < 0)
        then Some (QuotaValueError ''deadline_ms must be a non-negative integer or None'')
      else if (case cr_previous_attempt_id q of None \<Rightarrow> False | Some i \<Rightarrow> py_blank i)
        then Some (QuotaValueError ''previous_attempt_id must be a non-empty string or None'')
      else if cr_attempt q = 0 \<and> cr_previous_attempt_id q \<noteq> None
        then Some (QuotaValueError ''initial calls cannot name a previous attempt'')
      else if cr_attempt q > 0 \<and> cr_previous_attempt_id q = None
        then Some (QuotaValueError ''retry calls must name the previous attempt'')
      else None)"

datatype refusal_reason =
    PROVIDER_RESET | RETRY_BACKOFF | RETRY_EXHAUSTED | DEADLINE | IDENTITY | TERMINAL
  | PROVIDER_RPM | PROVIDER_TPM | PROVIDER_CONCURRENCY | GLOBAL_RPM | GLOBAL_TPM | GLOBAL_CONCURRENCY

fun reason_value :: "refusal_reason \<Rightarrow> string" where
  "reason_value PROVIDER_RESET = ''provider_reset''"
| "reason_value RETRY_BACKOFF = ''retry_backoff''"
| "reason_value RETRY_EXHAUSTED = ''retry_exhausted''"
| "reason_value DEADLINE = ''deadline''"
| "reason_value IDENTITY = ''identity''"
| "reason_value TERMINAL = ''terminal''"
| "reason_value PROVIDER_RPM = ''provider_rpm''"
| "reason_value PROVIDER_TPM = ''provider_tpm''"
| "reason_value PROVIDER_CONCURRENCY = ''provider_concurrency''"
| "reason_value GLOBAL_RPM = ''global_rpm''"
| "reason_value GLOBAL_TPM = ''global_tpm''"
| "reason_value GLOBAL_CONCURRENCY = ''global_concurrency''"

text \<open>\<open>"|".join(...)\<close>.\<close>

fun bar_join :: "string list \<Rightarrow> string" where
  "bar_join [] = []"
| "bar_join [x] = x"
| "bar_join (x # xs) = x @ ''|'' @ bar_join xs"

definition reasons_text :: "refusal_reason list \<Rightarrow> string" where
  "reasons_text rs = bar_join (map reason_value rs)"

record quota_lease =
  lz_provider_id :: string
  lz_logical_id :: string
  lz_attempt :: int
  lz_attempt_id :: string
  lz_lease_id :: string
  lz_token_cap :: int
  lz_admitted_at_ms :: int
  lz_deadline_ms :: "int option"

record admission_decision =
  ad_admitted :: bool
  ad_attempt_id :: string
  ad_lease :: "quota_lease option"
  ad_reasons :: "refusal_reason list"
  ad_retry_at_ms :: "int option"

record retry_directive =
  rd_attempt_id :: string
  rd_retry_at_ms :: "int option"
  rd_reset_at_ms :: "int option"
  rd_remaining_attempts :: int

section \<open>Events\<close>

datatype scalar = SNone | SBool bool | SInt int | SStr string

definition opt_int :: "int option \<Rightarrow> scalar" where
  "opt_int v = (case v of None \<Rightarrow> SNone | Some i \<Rightarrow> SInt i)"

definition opt_str :: "string option \<Rightarrow> scalar" where
  "opt_str v = (case v of None \<Rightarrow> SNone | Some s \<Rightarrow> SStr s)"

fun scalar_json :: "scalar \<Rightarrow> json" where
  "scalar_json SNone = JNull"
| "scalar_json (SBool b) = JBool b"
| "scalar_json (SInt i) = JInt i"
| "scalar_json (SStr s) = JStr s"

type_synonym details = "(string \<times> scalar) list"

definition detail_pairs_error :: "details \<Rightarrow> string option" where
  "detail_pairs_error details =
     (if list_ex (\<lambda>(k, v). k = []) details then Some ''event detail keys must be exact non-empty strings''
      else if \<not> sorted (map fst details) \<or> \<not> distinct (map fst details) then
        Some ''event detail keys must be sorted and unique''
      else None)"

record quota_event =
  qe_sequence :: int
  qe_at_ms :: int
  qe_kind :: string
  qe_details :: details

text \<open>\<open>QuotaEvent.__post_init__\<close>: the message of its \<open>ValueError\<close>, if any.\<close>

definition event_error :: "quota_event \<Rightarrow> string option" where
  "event_error e =
     (if qe_sequence e < 0 then Some ''event sequence must be a non-negative integer''
      else if qe_at_ms e < 0 then Some ''event time must be a non-negative integer''
      else if qe_kind e = [] then Some ''event kind must be a non-empty string''
      else detail_pairs_error (qe_details e))"

definition quota_event_as_dict :: "quota_event \<Rightarrow> quota_error + json" where
  "quota_event_as_dict e =
     (case event_error e of
        Some m \<Rightarrow> Inl (QuotaValueError m)
      | None \<Rightarrow> Inr (JObj [(''sequence'', JInt (qe_sequence e)), (''at_ms'', JInt (qe_at_ms e)), (''kind'', JStr (qe_kind e)),
                 (''details'', JObj (map (\<lambda>(k, v). (k, scalar_json v)) (qe_details e)))]))"

definition event_pairs_json :: "quota_event \<Rightarrow> json" where
  "event_pairs_json e =
     JObj [(''sequence'', JInt (qe_sequence e)), (''at_ms'', JInt (qe_at_ms e)), (''kind'', JStr (qe_kind e)),
           (''details'', JArr (map (\<lambda>(k, v). JArr [JStr k, scalar_json v]) (qe_details e)))]"

definition event_digest_of :: "quota_event list \<Rightarrow> string" where
  "event_digest_of es = content_digest (JArr (map event_pairs_json es))"

text \<open>\<open>tuple(_snapshot_quota_event(event) for event in events)\<close>: the first invalid event raises.\<close>

fun snapshot_events :: "quota_event list \<Rightarrow> quota_error + quota_event list" where
  "snapshot_events [] = Inr []"
| "snapshot_events (e # es) =
     (case event_error e of
        Some m \<Rightarrow> Inl (QuotaValueError m)
      | None \<Rightarrow> (case snapshot_events es of Inl x \<Rightarrow> Inl x | Inr fs \<Rightarrow> Inr (e # fs)))"

definition event_digest :: "quota_event list \<Rightarrow> quota_error + string" where
  "event_digest es = (case snapshot_events es of Inl x \<Rightarrow> Inl x | Inr fs \<Rightarrow> Inr (event_digest_of fs))"

section \<open>Token buckets\<close>

record token_bucket =
  tb_capacity :: int
  tb_refill_every_ms :: int
  tb_remaining :: int
  tb_last_refill_ms :: int

definition new_bucket :: "int \<Rightarrow> int \<Rightarrow> int \<Rightarrow> token_bucket" where
  "new_bucket capacity window epoch =
     \<lparr>tb_capacity = capacity, tb_refill_every_ms = window, tb_remaining = capacity, tb_last_refill_ms = epoch\<rparr>"

definition bucket_refresh :: "int \<Rightarrow> token_bucket \<Rightarrow> token_bucket" where
  "bucket_refresh now b =
     (let periods = (now - tb_last_refill_ms b) div tb_refill_every_ms b in
      if periods > 0 then
        b\<lparr>tb_remaining := min (tb_capacity b) (tb_remaining b + periods * tb_capacity b),
          tb_last_refill_ms := tb_last_refill_ms b + periods * tb_refill_every_ms b\<rparr>
      else b)"

definition bucket_consume :: "int \<Rightarrow> token_bucket \<Rightarrow> quota_error + token_bucket" where
  "bucket_consume units b =
     (if units > tb_remaining b then Inl (QuotaAssertionError ''token bucket consumption was not admitted atomically'')
      else Inr (b\<lparr>tb_remaining := tb_remaining b - units\<rparr>))"

definition refund_if_current :: "int \<Rightarrow> int \<Rightarrow> token_bucket \<Rightarrow> int \<times> token_bucket" where
  "refund_if_current units window_start b =
     (if tb_last_refill_ms b \<noteq> window_start then (0, b)
      else let credited = min units (tb_capacity b - tb_remaining b)
           in (credited, b\<lparr>tb_remaining := tb_remaining b + credited\<rparr>))"

section \<open>The state\<close>

record logical_state =
  lg_last_attempt :: int
  lg_last_attempt_id :: string
  lg_deadline_ms :: "int option"
  lg_retryable :: bool
  lg_next_retry_at_ms :: "int option"
  lg_terminal :: bool

record active_lease =
  al_lease :: quota_lease
  al_reserved_tokens :: int
  al_provider_window_start_ms :: int
  al_global_window_start_ms :: int

record settlement =
  sl_active :: active_lease
  sl_provider_refunded :: int
  sl_global_refunded :: int

definition attempt_identity :: "string \<Rightarrow> string \<Rightarrow> int \<Rightarrow> string" where
  "attempt_identity provider_id logical_id attempt =
     take 24 (sha256_hex (''finite-quota-v1'' @ [CHR 0x00] @ provider_id @ [CHR 0x00] @ logical_id @ [CHR 0x00] @ int_string attempt))"

definition lease_identity :: "string \<Rightarrow> string" where
  "lease_identity attempt_id = take 24 (sha256_hex (''finite-lease-v1'' @ [CHR 0x00] @ attempt_id))"

record quota_physics =
  qp_provider_id :: string
  qp_provider_limits :: quota_limits
  qp_global_limits :: quota_limits
  qp_now :: int
  qp_retry :: retry_policy
  qp_provider_rpm :: token_bucket
  qp_provider_tpm :: token_bucket
  qp_global_rpm :: token_bucket
  qp_global_tpm :: token_bucket
  qp_provider_active :: int
  qp_global_active :: int
  qp_reset_until_ms :: int
  qp_events :: "quota_event list"
  qp_logical :: "(string, logical_state) dict"
  qp_active :: "(string, active_lease) dict"
  qp_admitted_ids :: "string list"

record quota_snapshot =
  qs_at_ms :: int
  qs_provider_rpm_remaining :: int
  qs_provider_tpm_remaining :: int
  qs_provider_active :: int
  qs_global_rpm_remaining :: int
  qs_global_tpm_remaining :: int
  qs_global_active :: int
  qs_provider_reset_until_ms :: int

definition quota_emit :: "string \<Rightarrow> details \<Rightarrow> quota_physics \<Rightarrow> quota_physics" where
  "quota_emit kind details p =
     p\<lparr>qp_events := qp_events p @ [\<lparr>qe_sequence = int (length (qp_events p)), qe_at_ms = qp_now p, qe_kind = kind,
         qe_details = sort_key fst details\<rparr>]\<rparr>"

definition quota_refresh :: "quota_physics \<Rightarrow> quota_physics" where
  "quota_refresh p =
     p\<lparr>qp_provider_rpm := bucket_refresh (qp_now p) (qp_provider_rpm p),
       qp_provider_tpm := bucket_refresh (qp_now p) (qp_provider_tpm p),
       qp_global_rpm := bucket_refresh (qp_now p) (qp_global_rpm p),
       qp_global_tpm := bucket_refresh (qp_now p) (qp_global_tpm p)\<rparr>"

definition quota_snapshot_of :: "quota_physics \<Rightarrow> quota_snapshot \<times> quota_physics" where
  "quota_snapshot_of p =
     (let p = quota_refresh p in
      (\<lparr>qs_at_ms = qp_now p, qs_provider_rpm_remaining = tb_remaining (qp_provider_rpm p),
        qs_provider_tpm_remaining = tb_remaining (qp_provider_tpm p), qs_provider_active = qp_provider_active p,
        qs_global_rpm_remaining = tb_remaining (qp_global_rpm p), qs_global_tpm_remaining = tb_remaining (qp_global_tpm p),
        qs_global_active = qp_global_active p, qs_provider_reset_until_ms = qp_reset_until_ms p\<rparr>, p))"

definition snapshot_pairs :: "quota_snapshot \<Rightarrow> details" where
  "snapshot_pairs q =
     [(''provider_rpm_remaining'', SInt (qs_provider_rpm_remaining q)),
      (''provider_tpm_remaining'', SInt (qs_provider_tpm_remaining q)), (''provider_active'', SInt (qs_provider_active q)),
      (''global_rpm_remaining'', SInt (qs_global_rpm_remaining q)), (''global_tpm_remaining'', SInt (qs_global_tpm_remaining q)),
      (''global_active'', SInt (qs_global_active q)), (''provider_reset_until_ms'', SInt (qs_provider_reset_until_ms q))]"

text \<open>\<open>details.update(self._snapshot_details())\<close> and \<open>_emit\<close>. The keys of the snapshot are new.\<close>

definition emit_with_snapshot :: "string \<Rightarrow> details \<Rightarrow> quota_physics \<Rightarrow> quota_physics" where
  "emit_with_snapshot kind details p =
     (let (q, p) = quota_snapshot_of p in quota_emit kind (details @ snapshot_pairs q) p)"

text \<open>\<open>__init__\<close>: the state before the configuration event, and the event.\<close>

definition configured_details :: "string \<Rightarrow> quota_limits \<Rightarrow> quota_limits \<Rightarrow> int \<Rightarrow> retry_policy \<Rightarrow> details" where
  "configured_details provider_id pl gl epoch policy =
     [(''provider_id'', SStr provider_id), (''epoch_ms'', SInt epoch),
      (''provider_rpm'', SInt (ql_rpm pl)), (''provider_tpm'', SInt (ql_tpm pl)),
      (''provider_concurrency'', SInt (ql_concurrency pl)), (''provider_window_ms'', SInt (ql_window_ms pl)),
      (''global_rpm'', SInt (ql_rpm gl)), (''global_tpm'', SInt (ql_tpm gl)),
      (''global_concurrency'', SInt (ql_concurrency gl)), (''global_window_ms'', SInt (ql_window_ms gl)),
      (''max_attempts'', SInt (rp_max_attempts policy)), (''base_backoff_ms'', SInt (rp_base_backoff_ms policy)),
      (''max_backoff_ms'', SInt (rp_max_backoff_ms policy)), (''model_scope'', SStr MODEL_SCOPE),
      (''global_guard_scope'', SStr GLOBAL_GUARD_SCOPE),
      (''settlement_refund_policy'', SStr SETTLEMENT_REFUND_POLICY)]"

definition blank_physics :: "string \<Rightarrow> quota_limits \<Rightarrow> quota_limits \<Rightarrow> int \<Rightarrow> retry_policy \<Rightarrow> quota_physics" where
  "blank_physics provider_id pl gl epoch policy =
     \<lparr>qp_provider_id = provider_id, qp_provider_limits = pl, qp_global_limits = gl, qp_now = epoch, qp_retry = policy,
      qp_provider_rpm = new_bucket (ql_rpm pl) (ql_window_ms pl) epoch,
      qp_provider_tpm = new_bucket (ql_tpm pl) (ql_window_ms pl) epoch,
      qp_global_rpm = new_bucket (ql_rpm gl) (ql_window_ms gl) epoch,
      qp_global_tpm = new_bucket (ql_tpm gl) (ql_window_ms gl) epoch,
      qp_provider_active = 0, qp_global_active = 0, qp_reset_until_ms = epoch, qp_events = [], qp_logical = [],
      qp_active = [], qp_admitted_ids = []\<rparr>"

definition new_physics ::
    "string \<Rightarrow> quota_limits \<Rightarrow> quota_limits \<Rightarrow> int \<Rightarrow> retry_policy \<Rightarrow> quota_error + quota_physics" where
  "new_physics provider_id pl gl epoch policy =
     (if py_blank provider_id then Inl (QuotaConfigurationError ''provider_id must be non-empty'')
      else Inr (quota_emit ''quota.configured'' (configured_details provider_id pl gl epoch policy)
             (blank_physics provider_id pl gl epoch policy)))"

section \<open>Admission\<close>

definition identity_reasons :: "quota_physics \<Rightarrow> call_request \<Rightarrow> refusal_reason list" where
  "identity_reasons p q =
     (if cr_attempt q = 0 then
        (case dget (qp_logical p) (cr_logical_id q) of
           None \<Rightarrow> []
         | Some s \<Rightarrow> [if lg_terminal s then TERMINAL else IDENTITY])
      else (case dget (qp_logical p) (cr_logical_id q) of
              None \<Rightarrow> [IDENTITY]
            | Some s \<Rightarrow>
                if cr_attempt q \<ge> rp_max_attempts (qp_retry p) then [RETRY_EXHAUSTED]
                else if lg_terminal s then [TERMINAL]
                else if \<not> lg_retryable s then [IDENTITY]
                else if cr_attempt q \<noteq> lg_last_attempt s + 1 then [IDENTITY]
                else if cr_previous_attempt_id q \<noteq> Some (lg_last_attempt_id s) then [IDENTITY]
                else if cr_deadline_ms q \<noteq> None \<and> cr_deadline_ms q \<noteq> lg_deadline_ms s then [IDENTITY]
                else []))"

definition call_deadline :: "quota_physics \<Rightarrow> call_request \<Rightarrow> int option" where
  "call_deadline p q =
     (case dget (qp_logical p) (cr_logical_id q) of Some s \<Rightarrow> lg_deadline_ms s | None \<Rightarrow> cr_deadline_ms q)"

definition limit_reasons :: "quota_physics \<Rightarrow> int \<Rightarrow> refusal_reason list" where
  "limit_reasons p tokens =
     (if tb_remaining (qp_provider_rpm p) < 1 then [PROVIDER_RPM] else []) @
     (if tb_remaining (qp_provider_tpm p) < tokens then [PROVIDER_TPM] else []) @
     (if qp_provider_active p \<ge> ql_concurrency (qp_provider_limits p) then [PROVIDER_CONCURRENCY] else []) @
     (if tb_remaining (qp_global_rpm p) < 1 then [GLOBAL_RPM] else []) @
     (if tb_remaining (qp_global_tpm p) < tokens then [GLOBAL_TPM] else []) @
     (if qp_global_active p \<ge> ql_concurrency (qp_global_limits p) then [GLOBAL_CONCURRENCY] else [])"

text \<open>The reasons \<open>acquire\<close> collects after the refresh, and \<open>retry_at\<close>: each test runs only while there is none.\<close>

definition deadline_passed :: "int \<Rightarrow> int option \<Rightarrow> bool" where
  "deadline_passed now deadline = (case deadline of None \<Rightarrow> False | Some d \<Rightarrow> now > d)"

definition backoff_pending :: "int \<Rightarrow> int \<Rightarrow> logical_state option \<Rightarrow> int option" where
  "backoff_pending now attempt state =
     (case state of
        None \<Rightarrow> None
      | Some s \<Rightarrow> (if attempt > 0 then
                     (case lg_next_retry_at_ms s of Some t \<Rightarrow> if now < t then Some t else None | None \<Rightarrow> None)
                   else None))"

definition acquire_reasons :: "quota_physics \<Rightarrow> call_request \<Rightarrow> refusal_reason list \<times> int option" where
  "acquire_reasons p q =
     (let now = qp_now p;
          reasons = identity_reasons p q;
          reasons = (if reasons = [] \<and> deadline_passed now (call_deadline p q) then [DEADLINE] else reasons);
          (reasons, retry_at) =
            (if reasons = [] \<and> now < qp_reset_until_ms p then ([PROVIDER_RESET], Some (qp_reset_until_ms p))
             else (reasons, None));
          (reasons, retry_at) =
            (if reasons = [] then
               (case backoff_pending now (cr_attempt q) (dget (qp_logical p) (cr_logical_id q)) of
                  Some t \<Rightarrow> ([RETRY_BACKOFF], Some t) | None \<Rightarrow> (reasons, retry_at))
             else (reasons, retry_at))
      in (if reasons = [] then limit_reasons p (cr_estimated_tokens q) else reasons, retry_at))"

definition refused_details :: "quota_physics \<Rightarrow> call_request \<Rightarrow> refusal_reason list \<Rightarrow> int option \<Rightarrow> details" where
  "refused_details p q reasons retry_at =
     [(''logical_id'', SStr (cr_logical_id q)), (''attempt'', SInt (cr_attempt q)),
      (''attempt_id'', SStr (attempt_identity (qp_provider_id p) (cr_logical_id q) (cr_attempt q))),
      (''previous_attempt_id'', opt_str (cr_previous_attempt_id q)),
      (''estimated_tokens'', SInt (cr_estimated_tokens q)), (''deadline_ms'', opt_int (call_deadline p q)),
      (''requested_deadline_ms'', opt_int (cr_deadline_ms q)), (''reasons'', SStr (reasons_text reasons)),
      (''retry_at_ms'', opt_int retry_at)]"

definition admitted_details :: "quota_physics \<Rightarrow> call_request \<Rightarrow> details" where
  "admitted_details p q =
     (let attempt_id = attempt_identity (qp_provider_id p) (cr_logical_id q) (cr_attempt q) in
      [(''logical_id'', SStr (cr_logical_id q)), (''attempt'', SInt (cr_attempt q)), (''attempt_id'', SStr attempt_id),
       (''previous_attempt_id'', opt_str (cr_previous_attempt_id q)), (''lease_id'', SStr (lease_identity attempt_id)),
       (''estimated_tokens'', SInt (cr_estimated_tokens q)), (''deadline_ms'', opt_int (call_deadline p q)),
       (''requested_deadline_ms'', opt_int (cr_deadline_ms q))])"

text \<open>The four \<open>consume\<close> calls: the first that raises stops the sequence.\<close>

definition consume_all :: "int \<Rightarrow> quota_physics \<Rightarrow> quota_error option \<times> quota_physics" where
  "consume_all tokens p =
     (case bucket_consume 1 (qp_provider_rpm p) of
        Inl e \<Rightarrow> (Some e, p)
      | Inr b \<Rightarrow>
          let p = p\<lparr>qp_provider_rpm := b\<rparr> in
          (case bucket_consume tokens (qp_provider_tpm p) of
             Inl e \<Rightarrow> (Some e, p)
           | Inr b \<Rightarrow>
               let p = p\<lparr>qp_provider_tpm := b\<rparr> in
               (case bucket_consume 1 (qp_global_rpm p) of
                  Inl e \<Rightarrow> (Some e, p)
                | Inr b \<Rightarrow>
                    let p = p\<lparr>qp_global_rpm := b\<rparr> in
                    (case bucket_consume tokens (qp_global_tpm p) of
                       Inl e \<Rightarrow> (Some e, p)
                     | Inr b \<Rightarrow> (None, p\<lparr>qp_global_tpm := b\<rparr>)))))"

definition request_lease :: "quota_physics \<Rightarrow> call_request \<Rightarrow> quota_lease" where
  "request_lease p q =
     (let attempt_id = attempt_identity (qp_provider_id p) (cr_logical_id q) (cr_attempt q) in
      \<lparr>lz_provider_id = qp_provider_id p, lz_logical_id = cr_logical_id q, lz_attempt = cr_attempt q,
       lz_attempt_id = attempt_id, lz_lease_id = lease_identity attempt_id, lz_token_cap = cr_estimated_tokens q,
       lz_admitted_at_ms = qp_now p, lz_deadline_ms = call_deadline p q\<rparr>)"

text \<open>\<open>_active\<close>, \<open>_admitted_attempt_ids\<close> and \<open>_logical\<close> after an admission.\<close>

definition admit_lease :: "call_request \<Rightarrow> quota_physics \<Rightarrow> quota_physics" where
  "admit_lease q p =
     (let lease = request_lease p q in
      p\<lparr>qp_active := dset (lz_lease_id lease)
           \<lparr>al_lease = lease, al_reserved_tokens = cr_estimated_tokens q,
            al_provider_window_start_ms = tb_last_refill_ms (qp_provider_tpm p),
            al_global_window_start_ms = tb_last_refill_ms (qp_global_tpm p)\<rparr> (qp_active p),
        qp_admitted_ids := List.insert (lz_attempt_id lease) (qp_admitted_ids p),
        qp_logical := dset (cr_logical_id q)
           \<lparr>lg_last_attempt = cr_attempt q, lg_last_attempt_id = lz_attempt_id lease,
            lg_deadline_ms = lz_deadline_ms lease, lg_retryable = False, lg_next_retry_at_ms = None,
            lg_terminal = False\<rparr> (qp_logical p)\<rparr>)"

definition acquire :: "call_request \<Rightarrow> quota_physics \<Rightarrow> (quota_error + admission_decision) \<times> quota_physics" where
  "acquire q p =
     (let p = quota_refresh p;
          lease = request_lease p q;
          (reasons, retry_at) = acquire_reasons p q
      in if reasons \<noteq> [] then
           (Inr \<lparr>ad_admitted = False, ad_attempt_id = lz_attempt_id lease, ad_lease = None, ad_reasons = reasons,
                 ad_retry_at_ms = retry_at\<rparr>,
            emit_with_snapshot ''quota.admission_refused'' (refused_details p q reasons retry_at) p)
         else (case consume_all (cr_estimated_tokens q) p of
             (Some e, p') \<Rightarrow> (Inl e, p')
           | (None, p') \<Rightarrow>
               let p' = p'\<lparr>qp_provider_active := qp_provider_active p' + 1, qp_global_active := qp_global_active p' + 1\<rparr>
               in if lz_attempt_id lease \<in> set (qp_admitted_ids p') \<or> dmem (lz_lease_id lease) (qp_active p')
                  then (Inl (QuotaAssertionError ''admitted attempt identity collision''), p')
                  else (Inr \<lparr>ad_admitted = True, ad_attempt_id = lz_attempt_id lease, ad_lease = Some lease,
                             ad_reasons = [], ad_retry_at_ms = None\<rparr>,
                        emit_with_snapshot ''quota.call_admitted'' (admitted_details p q) (admit_lease q p'))))"

section \<open>Settlement\<close>

definition settlement_refused_details :: "string \<Rightarrow> int \<Rightarrow> active_lease \<Rightarrow> details" where
  "settlement_refused_details lease_id actual a =
     [(''lease_id'', SStr lease_id), (''attempt_id'', SStr (lz_attempt_id (al_lease a))),
      (''logical_id'', SStr (lz_logical_id (al_lease a))), (''attempt'', SInt (lz_attempt (al_lease a))),
      (''actual_tokens'', SInt actual), (''token_cap'', SInt (al_reserved_tokens a)),
      (''reason'', SStr ''actual_tokens_exceed_admitted_cap'')]"

definition settle_active :: "string \<Rightarrow> int \<Rightarrow> quota_physics \<Rightarrow> (quota_error + settlement) \<times> quota_physics" where
  "settle_active lease_id actual p =
     (if actual < 0 then (Inl (QuotaValueError ''actual_tokens must be a non-negative integer''), p)
      else (case dget (qp_active p) lease_id of
          None \<Rightarrow> (Inl (QuotaSettlementError ''lease is not active''), p)
        | Some a \<Rightarrow>
            if actual > al_reserved_tokens a then
              (Inl (QuotaSettlementError ''actual tokens exceed the lease's admitted token cap''),
               emit_with_snapshot ''quota.settlement_refused'' (settlement_refused_details lease_id actual a) p)
            else
              let p = quota_refresh p;
                  unused = al_reserved_tokens a - actual;
                  (provider_refunded, pb) = refund_if_current unused (al_provider_window_start_ms a) (qp_provider_tpm p);
                  (global_refunded, gb) = refund_if_current unused (al_global_window_start_ms a) (qp_global_tpm p)
              in (Inr \<lparr>sl_active = a, sl_provider_refunded = provider_refunded, sl_global_refunded = global_refunded\<rparr>,
                  p\<lparr>qp_provider_tpm := pb, qp_global_tpm := gb, qp_provider_active := qp_provider_active p - 1,
                    qp_global_active := qp_global_active p - 1, qp_active := ddel lease_id (qp_active p)\<rparr>)))"

definition settlement_details :: "string \<Rightarrow> int \<Rightarrow> settlement \<Rightarrow> details" where
  "settlement_details lease_id actual sl =
     (let a = sl_active sl in
      [(''lease_id'', SStr lease_id), (''attempt_id'', SStr (lz_attempt_id (al_lease a))),
       (''logical_id'', SStr (lz_logical_id (al_lease a))), (''attempt'', SInt (lz_attempt (al_lease a))),
       (''reserved_tokens'', SInt (al_reserved_tokens a)), (''actual_tokens'', SInt actual),
       (''unused_tokens'', SInt (al_reserved_tokens a - actual)),
       (''provider_refunded_tokens'', SInt (sl_provider_refunded sl)),
       (''global_refunded_tokens'', SInt (sl_global_refunded sl))])"

definition set_retry :: "int option \<Rightarrow> logical_state \<Rightarrow> logical_state" where
  "set_retry retry_at s =
     s\<lparr>lg_retryable := retry_at \<noteq> None, lg_next_retry_at_ms := retry_at, lg_terminal := retry_at = None\<rparr>"

definition complete :: "string \<Rightarrow> int \<Rightarrow> quota_physics \<Rightarrow> (quota_error + unit) \<times> quota_physics" where
  "complete lease_id actual p =
     (case settle_active lease_id actual p of
        (Inl e, p) \<Rightarrow> (Inl e, p)
      | (Inr sl, p) \<Rightarrow>
          (let lid = lz_logical_id (al_lease (sl_active sl)) in
           case dget (qp_logical p) lid of
             None \<Rightarrow> (Inl (QuotaKeyError lid), p)
           | Some s \<Rightarrow>
               (Inr (), emit_with_snapshot ''quota.call_settled''
                  (settlement_details lease_id actual sl @ [(''outcome'', SStr ''success'')])
                  (p\<lparr>qp_logical := dset lid (s\<lparr>lg_terminal := True\<rparr>) (qp_logical p)\<rparr>))))"

text \<open>\<open>retry_at\<close> of \<open>fail_retryable\<close> (no reset) and of \<open>provider_429\<close>.\<close>

definition retry_time :: "quota_physics \<Rightarrow> int \<Rightarrow> int option \<Rightarrow> int option \<Rightarrow> quota_error + int option" where
  "retry_time p next_attempt reset deadline =
     (if next_attempt < rp_max_attempts (qp_retry p) then
        (case backoff_for (qp_retry p) next_attempt of
           Inl e \<Rightarrow> Inl e
         | Inr b \<Rightarrow>
             let candidate = (case reset of None \<Rightarrow> qp_now p + b | Some r \<Rightarrow> max (qp_now p + b) r)
             in Inr (case deadline of None \<Rightarrow> Some candidate
                       | Some d \<Rightarrow> if candidate \<le> d then Some candidate else None))
      else Inr None)"

definition fail_retryable :: "string \<Rightarrow> int \<Rightarrow> quota_physics \<Rightarrow> (quota_error + retry_directive) \<times> quota_physics" where
  "fail_retryable lease_id actual p =
     (case settle_active lease_id actual p of
        (Inl e, p) \<Rightarrow> (Inl e, p)
      | (Inr sl, p) \<Rightarrow>
          (let lease = al_lease (sl_active sl) in
           case dget (qp_logical p) (lz_logical_id lease) of
             None \<Rightarrow> (Inl (QuotaKeyError (lz_logical_id lease)), p)
           | Some s \<Rightarrow>
               (case retry_time p (lz_attempt lease + 1) None (lg_deadline_ms s) of
                  Inl e \<Rightarrow> (Inl e, p)
                | Inr retry_at \<Rightarrow>
                    (Inr \<lparr>rd_attempt_id = lz_attempt_id lease, rd_retry_at_ms = retry_at, rd_reset_at_ms = None,
                          rd_remaining_attempts = max 0 (rp_max_attempts (qp_retry p) - (lz_attempt lease + 1))\<rparr>,
                     emit_with_snapshot ''quota.call_settled''
                       (settlement_details lease_id actual sl @
                        [(''next_retry_at_ms'', opt_int retry_at), (''retry_exhausted'', SBool (retry_at = None)),
                         (''outcome'', SStr ''retryable_failure'')])
                       (p\<lparr>qp_logical := dset (lz_logical_id lease) (set_retry retry_at s) (qp_logical p)\<rparr>)))))"

definition declared_reset :: "int \<Rightarrow> int option \<Rightarrow> int option \<Rightarrow> quota_error + int" where
  "declared_reset now reset_after reset_at =
     (case (reset_after, reset_at) of
        (Some d, None) \<Rightarrow>
          if d \<le> 0 then Inl (QuotaValueError ''reset_after_ms must be a positive integer'') else Inr (now + d)
      | (None, Some t) \<Rightarrow>
          if t \<le> now then Inl (QuotaValueError ''reset_at_ms must be an integer later than now'') else Inr t
      | _ \<Rightarrow> Inl (QuotaValueError ''provide exactly one of reset_after_ms or reset_at_ms''))"

definition provider_429 ::
    "string \<Rightarrow> int \<Rightarrow> int option \<Rightarrow> int option \<Rightarrow> quota_physics \<Rightarrow> (quota_error + retry_directive) \<times> quota_physics" where
  "provider_429 lease_id actual reset_after reset_at p =
     (case declared_reset (qp_now p) reset_after reset_at of
        Inl e \<Rightarrow> (Inl e, p)
      | Inr effective_reset \<Rightarrow>
          (case settle_active lease_id actual p of
             (Inl e, p) \<Rightarrow> (Inl e, p)
           | (Inr sl, p) \<Rightarrow>
               (let p = p\<lparr>qp_reset_until_ms := max (qp_reset_until_ms p) effective_reset\<rparr>;
                    lease = al_lease (sl_active sl) in
                case dget (qp_logical p) (lz_logical_id lease) of
                  None \<Rightarrow> (Inl (QuotaKeyError (lz_logical_id lease)), p)
                | Some s \<Rightarrow>
                    (case retry_time p (lz_attempt lease + 1) (Some (qp_reset_until_ms p)) (lg_deadline_ms s) of
                       Inl e \<Rightarrow> (Inl e, p)
                     | Inr retry_at \<Rightarrow>
                         (Inr \<lparr>rd_attempt_id = lz_attempt_id lease, rd_retry_at_ms = retry_at,
                               rd_reset_at_ms = Some (qp_reset_until_ms p),
                               rd_remaining_attempts = max 0 (rp_max_attempts (qp_retry p) - (lz_attempt lease + 1))\<rparr>,
                          emit_with_snapshot ''quota.provider_429''
                            (settlement_details lease_id actual sl @
                             [(''reset_at_ms'', SInt (qp_reset_until_ms p)), (''next_retry_at_ms'', opt_int retry_at),
                              (''retry_exhausted'', SBool (retry_at = None)), (''outcome'', SStr ''provider_429'')])
                            (p\<lparr>qp_logical := dset (lz_logical_id lease) (set_retry retry_at s) (qp_logical p)\<rparr>))))))"

section \<open>Calls and runs\<close>

text \<open>
  One public call, at a time the caller chose by advancing the clock first. A driver keeps going after
  the declared exceptions (a bad argument, a lease that cannot be settled); the two \<open>AssertionError\<close>s end it.
\<close>

datatype quota_call =
    Acquire call_request
  | Complete string int
  | FailRetryable string int
  | Provider429 string int "int option" "int option"
  | Snapshot

definition quota_advance :: "nat \<Rightarrow> quota_physics \<Rightarrow> quota_physics" where
  "quota_advance delay p = p\<lparr>qp_now := qp_now p + int delay\<rparr>"

fun drop_value :: "(quota_error + 'a) \<times> quota_physics \<Rightarrow> quota_error option \<times> quota_physics" where
  "drop_value (Inl e, p) = (Some e, p)"
| "drop_value (Inr v, p) = (None, p)"

fun quota_do :: "quota_call \<Rightarrow> quota_physics \<Rightarrow> quota_error option \<times> quota_physics" where
  "quota_do (Acquire q) p = (case request_error q of Some e \<Rightarrow> (Some e, p) | None \<Rightarrow> drop_value (acquire q p))"
| "quota_do (Complete l actual) p = drop_value (complete l actual p)"
| "quota_do (FailRetryable l actual) p = drop_value (fail_retryable l actual p)"
| "quota_do (Provider429 l actual reset_after reset_at) p = drop_value (provider_429 l actual reset_after reset_at p)"
| "quota_do Snapshot p = (None, snd (quota_snapshot_of p))"

fun is_assertion :: "quota_error option \<Rightarrow> bool" where
  "is_assertion (Some (QuotaAssertionError m)) = True"
| "is_assertion _ = False"

fun quota_run :: "quota_physics \<Rightarrow> (nat \<times> quota_call) list \<Rightarrow> quota_physics option" where
  "quota_run p [] = Some p"
| "quota_run p ((delay, c) # cs) =
     (case quota_do c (quota_advance delay p) of (e, p') \<Rightarrow> if is_assertion e then None else quota_run p' cs)"

end
