(* ===== verification/Quota_Replay.thy ===== *)
theory Quota_Replay
  imports Provider_Quota
begin

text \<open>
  \<open>replay_quota_events\<close> of \<open>provider_quota.py\<close>: the independent replay of a quota event stream.

  The local variables of the function are the record \<open>quota_replay\<close>. The details of an event hold dynamic
  values, so every \<open>isinstance\<close> and \<open>type(...) is\<close> test of the source is a pattern here. A raise is \<open>Inl\<close>
  and ends the loop.
\<close>

abbreviation replay_error :: "string \<Rightarrow> quota_error + 'a" where
  "replay_error m \<equiv> Inl (QuotaReplayError m)"

definition raising :: "'e + 'a \<Rightarrow> ('a \<Rightarrow> 'e + 'b) \<Rightarrow> 'e + 'b" where
  "raising m f = (case m of Inl e \<Rightarrow> Inl e | Inr x \<Rightarrow> f x)"

text \<open>\<open>details.get(key)\<close> on \<open>dict(event.details)\<close>, whose keys are distinct.\<close>

definition dval :: "details \<Rightarrow> string \<Rightarrow> scalar" where
  "dval d k = (case map_of d k of None \<Rightarrow> SNone | Some v \<Rightarrow> v)"

definition has_keys :: "details \<Rightarrow> string list \<Rightarrow> bool" where
  "has_keys d ks \<longleftrightarrow> set (map fst d) = set ks"

text \<open>An integer or \<open>None\<close>, and no \<open>bool\<close>.\<close>

fun int_or_none :: "scalar \<Rightarrow> int option option" where
  "int_or_none SNone = Some None"
| "int_or_none (SInt i) = Some (Some i)"
| "int_or_none _ = None"

definition negative :: "int option \<Rightarrow> bool" where
  "negative v = (case v of None \<Rightarrow> False | Some i \<Rightarrow> i < 0)"

section \<open>Configuration\<close>

record replay_config =
  rc_epoch :: int
  rc_provider_id :: string
  rc_provider_rpm :: int
  rc_provider_tpm :: int
  rc_provider_concurrency :: int
  rc_provider_window :: int
  rc_global_rpm :: int
  rc_global_tpm :: int
  rc_global_concurrency :: int
  rc_global_window :: int
  rc_max_attempts :: int
  rc_base_backoff :: int
  rc_max_backoff :: int

definition required_keys :: "string list" where
  "required_keys =
     [''provider_id'', ''epoch_ms'', ''provider_rpm'', ''provider_tpm'', ''provider_concurrency'', ''provider_window_ms'',
      ''global_rpm'', ''global_tpm'', ''global_concurrency'', ''global_window_ms'', ''max_attempts'',
      ''base_backoff_ms'', ''max_backoff_ms'', ''model_scope'', ''global_guard_scope'', ''settlement_refund_policy'']"

definition config_integer :: "details \<Rightarrow> bool \<Rightarrow> string \<Rightarrow> quota_error + int" where
  "config_integer config positive name =
     (case dval config name of
        SInt value \<Rightarrow>
          if (positive \<and> value \<le> 0) \<or> (\<not> positive \<and> value < 0)
          then replay_error (''configuration '' @ name @ '' is out of range'') else Inr value
      | _ \<Rightarrow> replay_error (''configuration '' @ name @ '' is not an integer''))"

definition config_provider :: "details \<Rightarrow> quota_error + string" where
  "config_provider config =
     (case dval config ''provider_id'' of
        SStr s \<Rightarrow> if py_blank s then replay_error ''configuration provider_id is invalid'' else Inr s
      | _ \<Rightarrow> replay_error ''configuration provider_id is invalid'')"

definition parse_config :: "details \<Rightarrow> quota_error + replay_config" where
  "parse_config config =
     (if \<not> has_keys config required_keys \<or> dval config ''model_scope'' \<noteq> SStr MODEL_SCOPE
         \<or> dval config ''global_guard_scope'' \<noteq> SStr GLOBAL_GUARD_SCOPE
         \<or> dval config ''settlement_refund_policy'' \<noteq> SStr SETTLEMENT_REFUND_POLICY
      then replay_error ''configuration evidence is missing or out of scope''
      else
        raising (config_integer config False ''epoch_ms'') (\<lambda>epoch.
        raising (config_provider config) (\<lambda>provider_id.
        raising (config_integer config True ''provider_rpm'') (\<lambda>provider_rpm.
        raising (config_integer config True ''provider_tpm'') (\<lambda>provider_tpm.
        raising (config_integer config True ''provider_concurrency'') (\<lambda>provider_concurrency.
        raising (config_integer config True ''provider_window_ms'') (\<lambda>provider_window.
        raising (config_integer config True ''global_rpm'') (\<lambda>global_rpm.
        raising (config_integer config True ''global_tpm'') (\<lambda>global_tpm.
        raising (config_integer config True ''global_concurrency'') (\<lambda>global_concurrency.
        raising (config_integer config True ''global_window_ms'') (\<lambda>global_window.
        raising (config_integer config True ''max_attempts'') (\<lambda>max_attempts.
        raising (config_integer config False ''base_backoff_ms'') (\<lambda>base_backoff.
        raising (config_integer config False ''max_backoff_ms'') (\<lambda>max_backoff.
        if max_backoff < base_backoff then replay_error ''configuration retry backoff is invalid''
        else Inr \<lparr>rc_epoch = epoch, rc_provider_id = provider_id, rc_provider_rpm = provider_rpm,
                  rc_provider_tpm = provider_tpm, rc_provider_concurrency = provider_concurrency,
                  rc_provider_window = provider_window, rc_global_rpm = global_rpm, rc_global_tpm = global_tpm,
                  rc_global_concurrency = global_concurrency, rc_global_window = global_window,
                  rc_max_attempts = max_attempts, rc_base_backoff = base_backoff, rc_max_backoff = max_backoff\<rparr>))))))))))))))"

section \<open>The replayed state\<close>

record replay_bucket =
  rb_capacity :: int
  rb_remaining :: int
  rb_window :: int
  rb_last :: int

definition replay_refresh :: "int \<Rightarrow> replay_bucket \<Rightarrow> replay_bucket" where
  "replay_refresh now b =
     (let periods = (now - rb_last b) div rb_window b in
      if periods > 0 then
        b\<lparr>rb_remaining := min (rb_capacity b) (rb_remaining b + periods * rb_capacity b),
          rb_last := rb_last b + periods * rb_window b\<rparr>
      else b)"

record replay_lease =
  rl_logical_id :: string
  rl_attempt :: int
  rl_attempt_id :: string
  rl_reserved_tokens :: int
  rl_deadline_ms :: "int option"
  rl_provider_window_start_ms :: int
  rl_global_window_start_ms :: int

record replay_logical =
  ro_attempt :: int
  ro_attempt_id :: string
  ro_deadline_ms :: "int option"
  ro_retryable :: bool
  ro_next_retry_at_ms :: "int option"
  ro_terminal :: bool

record quota_replay =
  qr_config :: replay_config
  qr_provider_rpm :: replay_bucket
  qr_provider_tpm :: replay_bucket
  qr_global_rpm :: replay_bucket
  qr_global_tpm :: replay_bucket
  qr_active :: "(string, replay_lease) dict"
  qr_logical :: "(string, replay_logical) dict"
  qr_admitted_ids :: "string list"
  qr_provider_active :: int
  qr_global_active :: int
  qr_reset_until :: int
  qr_previous_time :: int
  qr_sequence :: int
  qr_admitted :: int
  qr_refused :: int
  qr_settled :: int
  qr_reset_suppressed :: int
  qr_actual_total :: int
  qr_max_provider_active :: int
  qr_max_global_active :: int

definition replay_start :: "replay_config \<Rightarrow> int \<Rightarrow> quota_replay" where
  "replay_start c first_at =
     \<lparr>qr_config = c,
      qr_provider_rpm = \<lparr>rb_capacity = rc_provider_rpm c, rb_remaining = rc_provider_rpm c,
                         rb_window = rc_provider_window c, rb_last = rc_epoch c\<rparr>,
      qr_provider_tpm = \<lparr>rb_capacity = rc_provider_tpm c, rb_remaining = rc_provider_tpm c,
                         rb_window = rc_provider_window c, rb_last = rc_epoch c\<rparr>,
      qr_global_rpm = \<lparr>rb_capacity = rc_global_rpm c, rb_remaining = rc_global_rpm c,
                       rb_window = rc_global_window c, rb_last = rc_epoch c\<rparr>,
      qr_global_tpm = \<lparr>rb_capacity = rc_global_tpm c, rb_remaining = rc_global_tpm c,
                       rb_window = rc_global_window c, rb_last = rc_epoch c\<rparr>,
      qr_active = [], qr_logical = [], qr_admitted_ids = [], qr_provider_active = 0, qr_global_active = 0,
      qr_reset_until = rc_epoch c, qr_previous_time = first_at, qr_sequence = 0, qr_admitted = 0, qr_refused = 0,
      qr_settled = 0, qr_reset_suppressed = 0, qr_actual_total = 0, qr_max_provider_active = 0,
      qr_max_global_active = 0\<rparr>"

definition replay_refresh_all :: "int \<Rightarrow> quota_replay \<Rightarrow> quota_replay" where
  "replay_refresh_all now r =
     r\<lparr>qr_provider_rpm := replay_refresh now (qr_provider_rpm r),
       qr_provider_tpm := replay_refresh now (qr_provider_tpm r),
       qr_global_rpm := replay_refresh now (qr_global_rpm r),
       qr_global_tpm := replay_refresh now (qr_global_tpm r)\<rparr>"

definition replay_backoff :: "replay_config \<Rightarrow> int \<Rightarrow> int" where
  "replay_backoff c retry_attempt =
     (if rc_base_backoff c = 0 then 0
      else min (rc_base_backoff c * 2 ^ nat (min (retry_attempt - 1) 62)) (rc_max_backoff c))"

definition snapshot_keys :: "string list" where
  "snapshot_keys =
     [''provider_rpm_remaining'', ''provider_tpm_remaining'', ''provider_active'', ''global_rpm_remaining'',
      ''global_tpm_remaining'', ''global_active'', ''provider_reset_until_ms'']"

text \<open>\<open>expect_snapshot\<close>, in tail position: the state goes on if the recorded snapshot matches it.\<close>

definition expected_snapshot :: "quota_replay \<Rightarrow> details" where
  "expected_snapshot r =
     [(''provider_rpm_remaining'', SInt (rb_remaining (qr_provider_rpm r))),
      (''provider_tpm_remaining'', SInt (rb_remaining (qr_provider_tpm r))),
      (''provider_active'', SInt (qr_provider_active r)),
      (''global_rpm_remaining'', SInt (rb_remaining (qr_global_rpm r))),
      (''global_tpm_remaining'', SInt (rb_remaining (qr_global_tpm r))),
      (''global_active'', SInt (qr_global_active r)),
      (''provider_reset_until_ms'', SInt (qr_reset_until r))]"

definition expect_snapshot :: "details \<Rightarrow> quota_replay \<Rightarrow> quota_error + quota_replay" where
  "expect_snapshot d r =
     (if list_ex (\<lambda>(k, v). dval d k \<noteq> v) (expected_snapshot r)
      then replay_error ''recorded quota snapshot does not match replay state'' else Inr r)"

section \<open>Admissions\<close>

definition admission_keys :: "string list" where
  "admission_keys =
     [''logical_id'', ''attempt'', ''attempt_id'', ''previous_attempt_id'', ''lease_id'', ''estimated_tokens'',
      ''deadline_ms'', ''requested_deadline_ms''] @ snapshot_keys"

record admission_evidence =
  ae_logical_id :: string
  ae_attempt :: int
  ae_attempt_id :: string
  ae_lease_id :: string
  ae_tokens :: int
  ae_deadline :: "int option"
  ae_requested_deadline :: "int option"

definition read_admission :: "details \<Rightarrow> admission_evidence option" where
  "read_admission d =
     (case (dval d ''logical_id'', dval d ''attempt'', dval d ''attempt_id'', dval d ''lease_id'',
            dval d ''estimated_tokens'', int_or_none (dval d ''deadline_ms''),
            int_or_none (dval d ''requested_deadline_ms'')) of
        (SStr logical_id, SInt attempt, SStr attempt_id, SStr lease_id, SInt tokens, Some deadline, Some requested) \<Rightarrow>
          if py_blank logical_id \<or> attempt < 0 \<or> tokens \<le> 0 \<or> negative deadline \<or> negative requested then None
          else Some \<lparr>ae_logical_id = logical_id, ae_attempt = attempt, ae_attempt_id = attempt_id,
                     ae_lease_id = lease_id, ae_tokens = tokens, ae_deadline = deadline,
                     ae_requested_deadline = requested\<rparr>
      | _ \<Rightarrow> None)"

definition nonblank_str :: "scalar \<Rightarrow> bool" where
  "nonblank_str v = (case v of SStr s \<Rightarrow> \<not> py_blank s | _ \<Rightarrow> False)"

text \<open>What the replay requires of the predecessor: \<open>None\<close> if nothing is wrong.\<close>

definition replay_identity ::
    "quota_replay \<Rightarrow> int \<Rightarrow> admission_evidence \<Rightarrow> scalar \<Rightarrow> string option" where
  "replay_identity r at_ms a previous =
     (let prior = dget (qr_logical r) (ae_logical_id a) in
      if ae_attempt a = 0 then
        (if prior \<noteq> None \<or> previous \<noteq> SNone \<or> ae_deadline a \<noteq> ae_requested_deadline a
         then Some ''initial call identity is not unique'' else None)
      else if \<not> nonblank_str previous then Some ''retry predecessor identity is invalid''
      else (case prior of
          None \<Rightarrow> Some ''retry has no retryable predecessor''
        | Some s \<Rightarrow>
            if ro_terminal s \<or> \<not> ro_retryable s then Some ''retry has no retryable predecessor''
            else if ae_attempt a \<ge> rc_max_attempts (qr_config r) \<or> ae_attempt a \<noteq> ro_attempt s + 1
              then Some ''retry exceeds bound or skips an attempt''
            else if previous \<noteq> SStr (ro_attempt_id s) then Some ''retry predecessor identity does not match''
            else if ae_deadline a \<noteq> ro_deadline_ms s then Some ''retry changed its original deadline''
            else if ae_requested_deadline a \<noteq> None \<and> ae_requested_deadline a \<noteq> ro_deadline_ms s
              then Some ''retry requested a changed deadline''
            else (case ro_next_retry_at_ms s of
                None \<Rightarrow> Some ''retry was admitted before deterministic backoff''
              | Some t \<Rightarrow>
                  if at_ms < t then Some ''retry was admitted before deterministic backoff'' else None)))"

definition replay_admit :: "admission_evidence \<Rightarrow> quota_replay \<Rightarrow> quota_replay" where
  "replay_admit a r =
     (let take_from = (\<lambda>units b. b\<lparr>rb_remaining := rb_remaining b - units\<rparr>);
          r = r\<lparr>qr_provider_rpm := take_from 1 (qr_provider_rpm r),
                qr_provider_tpm := take_from (ae_tokens a) (qr_provider_tpm r),
                qr_global_rpm := take_from 1 (qr_global_rpm r),
                qr_global_tpm := take_from (ae_tokens a) (qr_global_tpm r),
                qr_provider_active := qr_provider_active r + 1, qr_global_active := qr_global_active r + 1\<rparr>
      in r\<lparr>qr_max_provider_active := max (qr_max_provider_active r) (qr_provider_active r),
           qr_max_global_active := max (qr_max_global_active r) (qr_global_active r),
           qr_admitted_ids := List.insert (ae_attempt_id a) (qr_admitted_ids r),
           qr_active := dset (ae_lease_id a)
              \<lparr>rl_logical_id = ae_logical_id a, rl_attempt = ae_attempt a, rl_attempt_id = ae_attempt_id a,
               rl_reserved_tokens = ae_tokens a, rl_deadline_ms = ae_deadline a,
               rl_provider_window_start_ms = rb_last (qr_provider_tpm r),
               rl_global_window_start_ms = rb_last (qr_global_tpm r)\<rparr> (qr_active r),
           qr_logical := dset (ae_logical_id a)
              \<lparr>ro_attempt = ae_attempt a, ro_attempt_id = ae_attempt_id a, ro_deadline_ms = ae_deadline a,
               ro_retryable = False, ro_next_retry_at_ms = None, ro_terminal = False\<rparr> (qr_logical r),
           qr_admitted := qr_admitted r + 1\<rparr>)"

definition replay_admitted :: "int \<Rightarrow> details \<Rightarrow> quota_replay \<Rightarrow> quota_error + quota_replay" where
  "replay_admitted at_ms d r =
     (if \<not> has_keys d admission_keys then replay_error ''admission evidence fields are not canonical''
      else (case read_admission d of
          None \<Rightarrow> replay_error ''admission identity or token reservation is invalid''
        | Some a \<Rightarrow>
            if ae_attempt_id a \<noteq> attempt_identity (rc_provider_id (qr_config r)) (ae_logical_id a) (ae_attempt a)
              then replay_error ''attempt identity does not match canonical identity''
            else if ae_lease_id a \<noteq> lease_identity (ae_attempt_id a)
              then replay_error ''lease identity does not match canonical identity''
            else if ae_attempt_id a \<in> set (qr_admitted_ids r) \<or> dmem (ae_lease_id a) (qr_active r)
              then replay_error ''attempt or lease identity was admitted twice''
            else if at_ms < qr_reset_until r
              then replay_error ''a call was admitted during a declared provider reset''
            else (case replay_identity r at_ms a (dval d ''previous_attempt_id'') of
                Some m \<Rightarrow> replay_error m
              | None \<Rightarrow>
                  if deadline_passed at_ms (ae_deadline a) then replay_error ''call was admitted after its deadline''
                  else if rb_remaining (qr_provider_rpm r) < 1 \<or> rb_remaining (qr_provider_tpm r) < ae_tokens a
                    \<or> qr_provider_active r \<ge> rc_provider_concurrency (qr_config r)
                    \<or> rb_remaining (qr_global_rpm r) < 1 \<or> rb_remaining (qr_global_tpm r) < ae_tokens a
                    \<or> qr_global_active r \<ge> rc_global_concurrency (qr_config r)
                    then replay_error ''call admission exceeds a declared quota''
                  else expect_snapshot d (replay_admit a r))))"

section \<open>Settlements\<close>

definition settlement_base_keys :: "string list" where
  "settlement_base_keys =
     [''lease_id'', ''attempt_id'', ''logical_id'', ''attempt'', ''reserved_tokens'', ''actual_tokens'', ''unused_tokens'',
      ''provider_refunded_tokens'', ''global_refunded_tokens'', ''outcome''] @ snapshot_keys"

text \<open>The keys a settlement of this kind must have, or the message of the error.\<close>

definition settlement_keys :: "string \<Rightarrow> scalar \<Rightarrow> string + string list" where
  "settlement_keys kind outcome =
     (if kind = ''quota.provider_429'' then
        (if outcome \<noteq> SStr ''provider_429'' then Inl ''429 settlement outcome is not canonical''
         else Inr (settlement_base_keys @ [''reset_at_ms'', ''next_retry_at_ms'', ''retry_exhausted'']))
      else if outcome = SStr ''retryable_failure'' then
        Inr (settlement_base_keys @ [''next_retry_at_ms'', ''retry_exhausted''])
      else if outcome = SStr ''success'' then Inr settlement_base_keys
      else Inl ''settlement outcome is unknown'')"

text \<open>\<open>active.get(lease_id) if isinstance(lease_id, str) else None\<close>, with \<open>actual\<close> an \<open>int\<close>.\<close>

definition named_lease :: "quota_replay \<Rightarrow> details \<Rightarrow> (string \<times> replay_lease \<times> int) option" where
  "named_lease r d =
     (case (dval d ''lease_id'', dval d ''actual_tokens'') of
        (SStr l, SInt actual) \<Rightarrow>
          (case dget (qr_active r) l of None \<Rightarrow> None | Some lease \<Rightarrow> Some (l, lease, actual))
      | _ \<Rightarrow> None)"

definition lease_matches :: "details \<Rightarrow> replay_lease \<Rightarrow> bool" where
  "lease_matches d lease \<longleftrightarrow>
     dval d ''attempt_id'' = SStr (rl_attempt_id lease) \<and> dval d ''logical_id'' = SStr (rl_logical_id lease)
     \<and> dval d ''attempt'' = SInt (rl_attempt lease)"

definition replay_refund :: "int \<Rightarrow> int \<Rightarrow> replay_bucket \<Rightarrow> int" where
  "replay_refund unused window_start b =
     (if window_start = rb_last b then min unused (rb_capacity b - rb_remaining b) else 0)"

text \<open>The retry time the replay expects; \<open>reset\<close> is the reset of a 429.\<close>

definition expected_retry :: "quota_replay \<Rightarrow> int \<Rightarrow> replay_lease \<Rightarrow> int option \<Rightarrow> int option" where
  "expected_retry r at_ms lease reset =
     (let next_attempt = rl_attempt lease + 1 in
      if next_attempt < rc_max_attempts (qr_config r) then
        (let retry = (case reset of
               None \<Rightarrow> at_ms + replay_backoff (qr_config r) next_attempt
             | Some u \<Rightarrow> max (at_ms + replay_backoff (qr_config r) next_attempt) u)
         in (case rl_deadline_ms lease of
               None \<Rightarrow> Some retry | Some d \<Rightarrow> if retry > d then None else Some retry))
      else None)"

text \<open>The middle of the branch: from the recorded reset and retry to the expected retry and the new reset.\<close>

definition replay_retry ::
    "int \<Rightarrow> string \<Rightarrow> details \<Rightarrow> replay_lease \<Rightarrow> quota_replay \<Rightarrow> quota_error + int option \<times> quota_replay" where
  "replay_retry at_ms kind d lease r =
     (if kind = ''quota.provider_429'' then
        (case dval d ''reset_at_ms'' of
           SInt reset \<Rightarrow>
             if reset \<le> at_ms \<or> reset < qr_reset_until r then replay_error ''provider reset timestamp is invalid''
             else let r = r\<lparr>qr_reset_until := reset\<rparr>; retry = expected_retry r at_ms lease (Some reset)
                  in if dval d ''next_retry_at_ms'' \<noteq> opt_int retry
                     then replay_error ''429 retry timestamp is not reset/backoff aware''
                     else if dval d ''retry_exhausted'' \<noteq> SBool (retry = None)
                     then replay_error ''settlement retry exhaustion flag is inconsistent''
                     else Inr (retry, r)
         | _ \<Rightarrow> replay_error ''provider reset timestamp is invalid'')
      else if dval d ''outcome'' = SStr ''success'' then Inr (None, r)
      else let retry = expected_retry r at_ms lease None
           in if dval d ''next_retry_at_ms'' \<noteq> opt_int retry
              then replay_error ''retry timestamp violates bounded backoff''
              else if dval d ''retry_exhausted'' \<noteq> SBool (retry = None)
              then replay_error ''settlement retry exhaustion flag is inconsistent''
              else Inr (retry, r))"

definition release_replay_lease :: "string \<Rightarrow> int \<Rightarrow> int \<Rightarrow> quota_replay \<Rightarrow> quota_replay" where
  "release_replay_lease l provider_refund global_refund r =
     (let give_to = (\<lambda>units b. b\<lparr>rb_remaining := rb_remaining b + units\<rparr>) in
      r\<lparr>qr_provider_tpm := give_to provider_refund (qr_provider_tpm r),
        qr_global_tpm := give_to global_refund (qr_global_tpm r),
        qr_provider_active := qr_provider_active r - 1, qr_global_active := qr_global_active r - 1,
        qr_active := ddel l (qr_active r)\<rparr>)"

definition replay_settled :: "int \<Rightarrow> string \<Rightarrow> details \<Rightarrow> quota_replay \<Rightarrow> quota_error + quota_replay" where
  "replay_settled at_ms kind d r =
     (case settlement_keys kind (dval d ''outcome'') of
        Inl m \<Rightarrow> replay_error m
      | Inr ks \<Rightarrow>
          if \<not> has_keys d ks then replay_error ''settlement evidence fields are not canonical''
          else (case named_lease r d of
              None \<Rightarrow> replay_error ''settlement does not name an active lease''
            | Some (l, lease, actual) \<Rightarrow>
                if \<not> lease_matches d lease then replay_error ''settlement identity does not match its active lease''
                else if dval d ''reserved_tokens'' \<noteq> SInt (rl_reserved_tokens lease) \<or> actual < 0
                    \<or> actual > rl_reserved_tokens lease
                  then replay_error ''token settlement exceeds or changes its reservation''
                else
                  let unused = rl_reserved_tokens lease - actual;
                      provider_refund = replay_refund unused (rl_provider_window_start_ms lease) (qr_provider_tpm r);
                      global_refund = replay_refund unused (rl_global_window_start_ms lease) (qr_global_tpm r)
                  in if dval d ''unused_tokens'' \<noteq> SInt unused
                        \<or> dval d ''provider_refunded_tokens'' \<noteq> SInt provider_refund
                        \<or> dval d ''global_refunded_tokens'' \<noteq> SInt global_refund
                     then replay_error ''settlement refund is not reservation-window scoped''
                     else (case dget (qr_logical r) (rl_logical_id lease) of
                         None \<Rightarrow> Inl (QuotaKeyError (rl_logical_id lease))
                       | Some s \<Rightarrow>
                           raising (replay_retry at_ms kind d lease (release_replay_lease l provider_refund global_refund r))
                             (\<lambda>(retry, r).
                                expect_snapshot d
                                  (r\<lparr>qr_logical := dset (rl_logical_id lease)
                                        (s\<lparr>ro_retryable := retry \<noteq> None, ro_next_retry_at_ms := retry,
                                           ro_terminal := retry = None\<rparr>) (qr_logical r),
                                     qr_actual_total := qr_actual_total r + actual, qr_settled := qr_settled r + 1\<rparr>)))))"

section \<open>Refusals\<close>

definition refusal_keys :: "string list" where
  "refusal_keys =
     [''logical_id'', ''attempt'', ''attempt_id'', ''previous_attempt_id'', ''estimated_tokens'', ''deadline_ms'',
      ''requested_deadline_ms'', ''reasons'', ''retry_at_ms''] @ snapshot_keys"

definition read_refusal :: "details \<Rightarrow> admission_evidence option" where
  "read_refusal d =
     (case (dval d ''logical_id'', dval d ''attempt'', dval d ''attempt_id'',
            dval d ''estimated_tokens'', int_or_none (dval d ''deadline_ms''),
            int_or_none (dval d ''requested_deadline_ms'')) of
        (SStr logical_id, SInt attempt, SStr attempt_id, SInt tokens, Some deadline, Some requested) \<Rightarrow>
          if py_blank logical_id \<or> attempt < 0 \<or> tokens \<le> 0 \<or> negative requested then None
          else Some \<lparr>ae_logical_id = logical_id, ae_attempt = attempt, ae_attempt_id = attempt_id,
                     ae_lease_id = [], ae_tokens = tokens, ae_deadline = deadline,
                     ae_requested_deadline = requested\<rparr>
      | _ \<Rightarrow> None)"

definition expected_identity_reasons ::
    "quota_replay \<Rightarrow> admission_evidence \<Rightarrow> scalar \<Rightarrow> refusal_reason list" where
  "expected_identity_reasons r a previous =
     (case dget (qr_logical r) (ae_logical_id a) of
        None \<Rightarrow> if ae_attempt a = 0 then [] else [IDENTITY]
      | Some s \<Rightarrow>
          if ae_attempt a = 0 then [if ro_terminal s then TERMINAL else IDENTITY]
          else if ae_attempt a \<ge> rc_max_attempts (qr_config r) then [RETRY_EXHAUSTED]
          else if ro_terminal s then [TERMINAL]
          else if \<not> ro_retryable s then [IDENTITY]
          else if ae_attempt a \<noteq> ro_attempt s + 1 then [IDENTITY]
          else if previous \<noteq> SStr (ro_attempt_id s) then [IDENTITY]
          else if ae_requested_deadline a \<noteq> None \<and> ae_requested_deadline a \<noteq> ro_deadline_ms s then [IDENTITY]
          else [])"

definition expected_limit_reasons :: "quota_replay \<Rightarrow> int \<Rightarrow> refusal_reason list" where
  "expected_limit_reasons r tokens =
     (if rb_remaining (qr_provider_rpm r) < 1 then [PROVIDER_RPM] else []) @
     (if rb_remaining (qr_provider_tpm r) < tokens then [PROVIDER_TPM] else []) @
     (if qr_provider_active r \<ge> rc_provider_concurrency (qr_config r) then [PROVIDER_CONCURRENCY] else []) @
     (if rb_remaining (qr_global_rpm r) < 1 then [GLOBAL_RPM] else []) @
     (if rb_remaining (qr_global_tpm r) < tokens then [GLOBAL_TPM] else []) @
     (if qr_global_active r \<ge> rc_global_concurrency (qr_config r) then [GLOBAL_CONCURRENCY] else [])"

definition replay_backoff_pending :: "int \<Rightarrow> int \<Rightarrow> replay_logical option \<Rightarrow> int option" where
  "replay_backoff_pending at_ms attempt prior =
     (case prior of
        None \<Rightarrow> None
      | Some s \<Rightarrow>
          if attempt > 0 then
            (case ro_next_retry_at_ms s of Some t \<Rightarrow> if at_ms < t then Some t else None | None \<Rightarrow> None)
          else None)"

definition expected_reasons ::
    "quota_replay \<Rightarrow> int \<Rightarrow> admission_evidence \<Rightarrow> scalar \<Rightarrow> int option \<Rightarrow> refusal_reason list \<times> int option" where
  "expected_reasons r at_ms a previous effective =
     (let reasons = expected_identity_reasons r a previous;
          reasons = (if reasons = [] \<and> deadline_passed at_ms effective then [DEADLINE] else reasons);
          (reasons, retry_at) =
            (if reasons = [] \<and> at_ms < qr_reset_until r then ([PROVIDER_RESET], Some (qr_reset_until r))
             else (reasons, None));
          (reasons, retry_at) =
            (if reasons = [] then
               (case replay_backoff_pending at_ms (ae_attempt a) (dget (qr_logical r) (ae_logical_id a)) of
                  Some t \<Rightarrow> ([RETRY_BACKOFF], Some t) | None \<Rightarrow> (reasons, retry_at))
             else (reasons, retry_at))
      in (if reasons = [] then expected_limit_reasons r (ae_tokens a) else reasons, retry_at))"

definition replay_refused :: "int \<Rightarrow> details \<Rightarrow> quota_replay \<Rightarrow> quota_error + quota_replay" where
  "replay_refused at_ms d r =
     (if \<not> has_keys d refusal_keys then replay_error ''refusal evidence fields are not canonical''
      else (case read_refusal d of
          None \<Rightarrow> replay_error ''refusal request evidence is invalid''
        | Some a \<Rightarrow>
            let previous = dval d ''previous_attempt_id'';
                prior = dget (qr_logical r) (ae_logical_id a);
                effective = (case prior of Some s \<Rightarrow> ro_deadline_ms s | None \<Rightarrow> ae_requested_deadline a);
                (reasons, retry_at) = expected_reasons r at_ms a previous effective
            in if ae_attempt a = 0 \<and> previous \<noteq> SNone
                 then replay_error ''refused initial call names a predecessor''
               else if ae_attempt a \<noteq> 0 \<and> \<not> nonblank_str previous
                 then replay_error ''refused retry predecessor identity is invalid''
               else if ae_attempt_id a \<noteq> attempt_identity (rc_provider_id (qr_config r)) (ae_logical_id a) (ae_attempt a)
                 then replay_error ''refusal attempt identity is not canonical''
               else if ae_deadline a \<noteq> effective
                 then replay_error ''refusal effective deadline is inconsistent''
               else if reasons = [] \<or> dval d ''reasons'' \<noteq> SStr (reasons_text reasons)
                 then replay_error ''refusal reasons are not entailed by replay state''
               else if dval d ''retry_at_ms'' \<noteq> opt_int retry_at
                 then replay_error ''refusal retry timestamp is not entailed by replay state''
               else raising (expect_snapshot d
                      (if PROVIDER_RESET \<in> set reasons \<and> ae_attempt a > 0
                       then r\<lparr>qr_reset_suppressed := qr_reset_suppressed r + 1\<rparr> else r))
                    (\<lambda>r. Inr (r\<lparr>qr_refused := qr_refused r + 1\<rparr>))))"

definition settlement_refusal_keys :: "string list" where
  "settlement_refusal_keys =
     [''lease_id'', ''attempt_id'', ''logical_id'', ''attempt'', ''actual_tokens'', ''token_cap'', ''reason'']
     @ snapshot_keys"

definition replay_settlement_refused :: "details \<Rightarrow> quota_replay \<Rightarrow> quota_error + quota_replay" where
  "replay_settlement_refused d r =
     (if \<not> has_keys d settlement_refusal_keys
      then replay_error ''settlement refusal evidence fields are not canonical''
      else (case named_lease r d of
          None \<Rightarrow> replay_error ''settlement refusal is not entailed by its active lease''
        | Some (l, lease, actual) \<Rightarrow>
            if actual \<le> rl_reserved_tokens lease \<or> \<not> lease_matches d lease
               \<or> dval d ''token_cap'' \<noteq> SInt (rl_reserved_tokens lease)
               \<or> dval d ''reason'' \<noteq> SStr ''actual_tokens_exceed_admitted_cap''
            then replay_error ''settlement refusal is not entailed by its active lease''
            else expect_snapshot d r))"

section \<open>The loop\<close>

definition replay_dispatch :: "quota_event \<Rightarrow> quota_replay \<Rightarrow> quota_error + quota_replay" where
  "replay_dispatch e r =
     (let kind = qe_kind e; d = qe_details e; at_ms = qe_at_ms e in
      if kind = ''quota.call_admitted'' then replay_admitted at_ms d r
      else if kind = ''quota.call_settled'' \<or> kind = ''quota.provider_429'' then replay_settled at_ms kind d r
      else if kind = ''quota.admission_refused'' then replay_refused at_ms d r
      else if kind = ''quota.settlement_refused'' then replay_settlement_refused d r
      else replay_error (''unknown quota event kind: '' @ kind))"

definition quota_replay_step :: "quota_replay \<Rightarrow> quota_event \<Rightarrow> quota_error + quota_replay" where
  "quota_replay_step r e =
     (if qe_sequence e \<noteq> qr_sequence r then replay_error ''event sequence is not contiguous''
      else if qe_at_ms e < qr_previous_time r then replay_error ''event time moved backwards''
      else
        let first = (qr_sequence r = 0);
            r = r\<lparr>qr_previous_time := qe_at_ms e, qr_sequence := qr_sequence r + 1\<rparr>
        in if first then
             (if qe_at_ms e \<noteq> rc_epoch (qr_config r)
              then replay_error ''configuration time does not match epoch'' else Inr r)
           else replay_dispatch e (replay_refresh_all (qe_at_ms e) r))"

fun quota_replay_loop :: "quota_replay \<Rightarrow> quota_event list \<Rightarrow> quota_error + quota_replay" where
  "quota_replay_loop r [] = Inr r"
| "quota_replay_loop r (e # es) = raising (quota_replay_step r e) (\<lambda>r. quota_replay_loop r es)"

record quota_report =
  qt_event_count :: int
  qt_admitted_calls :: int
  qt_refused_admissions :: int
  qt_settled_calls :: int
  qt_reset_suppressed_retries :: int
  qt_maximum_provider_active :: int
  qt_maximum_global_active :: int
  qt_actual_tokens_settled :: int
  qt_open_leases :: int
  qt_digest :: string

text \<open>\<open>ReplayReport\<close>, whose field \<open>valid\<close> is always \<open>True\<close>.\<close>

definition quota_report_of :: "quota_event list \<Rightarrow> quota_replay \<Rightarrow> quota_report" where
  "quota_report_of stream r =
     \<lparr>qt_event_count = int (length stream), qt_admitted_calls = qr_admitted r, qt_refused_admissions = qr_refused r,
      qt_settled_calls = qr_settled r, qt_reset_suppressed_retries = qr_reset_suppressed r,
      qt_maximum_provider_active = qr_max_provider_active r, qt_maximum_global_active = qr_max_global_active r,
      qt_actual_tokens_settled = qr_actual_total r, qt_open_leases = int (length (qr_active r)),
      qt_digest = event_digest_of stream\<rparr>"

fun value_error_text :: "quota_error \<Rightarrow> string" where
  "value_error_text (QuotaValueError m) = m"
| "value_error_text _ = []"

definition replay_quota_events :: "quota_event list \<Rightarrow> quota_error + quota_report" where
  "replay_quota_events events =
     (case snapshot_events events of
        Inl e \<Rightarrow> replay_error (value_error_text e)
      | Inr [] \<Rightarrow> replay_error ''quota event stream is empty''
      | Inr (first # rest) \<Rightarrow>
          if qe_sequence first \<noteq> 0 \<or> qe_kind first \<noteq> ''quota.configured''
          then replay_error ''first event must be quota.configured at sequence zero''
          else raising (parse_config (qe_details first)) (\<lambda>config.
               raising (quota_replay_loop (replay_start config (qe_at_ms first)) (first # rest)) (\<lambda>r.
               Inr (quota_report_of (first # rest) r))))"

end
