(* ===== verification/Quota_Sim.thy ===== *)
theory Quota_Sim
  imports Quota_Replay
begin

text \<open>
  The quota kernel and its replay run in step. \<open>replay_of\<close> is the state the replay should have after the
  events of a live state; the invariant \<open>quota_ok\<close> of the live state makes every operation succeed on the
  branches the replay does not have (missing logical states, failed consumption, bad backoff attempts).
\<close>

section \<open>Details\<close>

lemma map_of_sort_key: "distinct (map fst kvs) \<Longrightarrow> map_of (sort_key fst kvs) k = map_of kvs k"
  by (rule map_of_inject_set [THEN iffD2, THEN fun_cong])
    (simp_all add: distinct_map [of fst "sort_key fst kvs"] distinct_map [of fst kvs])

lemma dval_sort_key: "distinct (map fst kvs) \<Longrightarrow> dval (sort_key fst kvs) k = dval kvs k"
  by (simp add: dval_def map_of_sort_key)

lemma sorted_details_eqI:
  assumes "sorted (map fst d)" and "distinct (map fst d)" and "sorted (map fst d')" and "distinct (map fst d')"
    and keys: "set (map fst d) = set (map fst d')" and vals: "\<And>k. k \<in> set (map fst d) \<Longrightarrow> dval d k = dval d' k"
  shows "d = (d' :: details)"
proof -
  have "map fst d = map fst d'"
    using assms(1-5) by (intro sorted_distinct_set_unique)
  moreover have "map_of d k = map_of d' k" for k
  proof (cases "k \<in> set (map fst d)")
    case True
    with keys obtain v v' where "map_of d k = Some v" "map_of d' k = Some v'"
      by (metis map_of_eq_None_iff not_None_eq set_map)
    with vals [OF True] show ?thesis by (simp add: dval_def)
  next
    case False
    with keys show ?thesis by (metis map_of_eq_None_iff set_map)
  qed
  then have "map_of d = map_of d'" by blast
  then have "set d = set d'" using assms(2,4) by (simp add: map_of_inject_set)
  then have "sort_key fst d = sort_key fst d'"
    using assms(2,4) by (intro sort_key_inj_key_eq) (simp_all add: distinct_map set_eq_iff_mset_eq_distinct [symmetric])
  moreover have "sort_key fst d = d" "sort_key fst d' = d'" using assms(1,3) by (auto intro: sort_key_id_if_sorted)
  ultimately show ?thesis by simp
qed

lemma event_ok_details:
  "event_error e = None \<Longrightarrow> sorted (map fst (qe_details e)) \<and> distinct (map fst (qe_details e))"
  by (auto simp: event_error_def detail_pairs_error_def split: if_splits)

text \<open>An event with the kind, the keys and the values of an emitted one is that event.\<close>

lemma event_is_emitted:
  assumes "event_error e = None" and "qe_sequence e = int (length (qp_events p))" and "qe_at_ms e = qp_now p"
    and "qe_kind e = kind" and "distinct (map fst kvs)" and "has_keys (qe_details e) (map fst kvs)"
    and "\<And>k v. (k, v) \<in> set kvs \<Longrightarrow> dval (qe_details e) k = v"
  shows "qp_events (quota_emit kind kvs p) = qp_events p @ [e]"
proof -
  have "qe_details e = sort_key fst kvs"
  proof (rule sorted_details_eqI)
    fix k assume "k \<in> set (map fst (qe_details e))"
    with assms(6) have "k \<in> set (map fst kvs)" by (simp add: has_keys_def)
    then obtain v where kv: "(k, v) \<in> set kvs" by auto
    with assms(5) have "dval kvs k = v" by (simp add: dval_def)
    with assms(7) [OF kv] show "dval (qe_details e) k = dval (sort_key fst kvs) k"
      by (simp add: dval_sort_key [OF assms(5)])
  qed (use assms(5,6) event_ok_details [OF assms(1)] in \<open>simp_all add: has_keys_def distinct_map [of fst "sort_key fst kvs"] distinct_map [of fst kvs]\<close>)
  with assms(2-4) show ?thesis by (simp add: quota_emit_def)
qed

section \<open>Buckets\<close>

definition rb_of :: "token_bucket \<Rightarrow> replay_bucket" where
  "rb_of b = \<lparr>rb_capacity = tb_capacity b, rb_remaining = tb_remaining b, rb_window = tb_refill_every_ms b,
     rb_last = tb_last_refill_ms b\<rparr>"

lemma rb_of_simps [simp]:
  "rb_capacity (rb_of b) = tb_capacity b" "rb_remaining (rb_of b) = tb_remaining b"
  "rb_window (rb_of b) = tb_refill_every_ms b" "rb_last (rb_of b) = tb_last_refill_ms b"
  by (simp_all add: rb_of_def)

lemma replay_refresh_rb_of: "replay_refresh now (rb_of b) = rb_of (bucket_refresh now b)"
  by (simp add: replay_refresh_def bucket_refresh_def Let_def rb_of_def)

lemma bucket_refresh_keeps [simp]:
  "tb_capacity (bucket_refresh now b) = tb_capacity b"
  "tb_refill_every_ms (bucket_refresh now b) = tb_refill_every_ms b"
  by (simp_all add: bucket_refresh_def Let_def)

lemma replay_refresh_keeps [simp]:
  "rb_capacity (replay_refresh now b) = rb_capacity b" "rb_window (replay_refresh now b) = rb_window b"
  by (simp_all add: replay_refresh_def Let_def)

definition bucket_ok :: "int \<Rightarrow> int \<Rightarrow> token_bucket \<Rightarrow> bool" where
  "bucket_ok capacity window b \<longleftrightarrow> 0 < capacity \<and> 0 < window \<and> tb_capacity b = capacity
     \<and> tb_refill_every_ms b = window \<and> 0 \<le> tb_remaining b \<and> tb_remaining b \<le> capacity"

definition bucket_fresh :: "int \<Rightarrow> token_bucket \<Rightarrow> bool" where
  "bucket_fresh now b \<longleftrightarrow> (now - tb_last_refill_ms b) div tb_refill_every_ms b \<le> 0"

lemma bucket_fresh_refresh: "bucket_fresh now b \<Longrightarrow> bucket_refresh now b = b"
  by (simp add: bucket_fresh_def bucket_refresh_def Let_def)

lemma div_periods: "0 < w \<Longrightarrow> (x - (y + k * w)) div w = (x - y) div w - k" for w :: int
  using div_mult_self1 [of w "x - y" "- k"] by (simp add: algebra_simps)

lemma refresh_fresh: "0 < tb_refill_every_ms b \<Longrightarrow> bucket_fresh now (bucket_refresh now b)"
  by (auto simp: bucket_fresh_def bucket_refresh_def Let_def div_periods)

lemma bucket_ok_refresh: "bucket_ok c w b \<Longrightarrow> bucket_ok c w (bucket_refresh now b)"
  by (auto simp: bucket_ok_def bucket_refresh_def Let_def)

lemma min_refill: "0 \<le> c \<Longrightarrow> c \<le> d \<Longrightarrow> min c (min c x + d) = min c (x + d)" for c :: int
  by (auto simp: min_def)

text \<open>Refreshing at two times is refreshing at the later one.\<close>

lemma replay_refresh_again:
  assumes "0 < rb_capacity b" and "0 < rb_window b" and "now \<le> later"
  shows "replay_refresh later (replay_refresh now b) = replay_refresh later b"
proof -
  let ?c = "rb_capacity b" and ?w = "rb_window b"
  let ?k = "(now - rb_last b) div ?w" and ?l = "(later - rb_last b) div ?w"
  have kl: "?k \<le> ?l" using assms by (intro zdiv_mono1) auto
  show ?thesis
  proof (cases "?k > 0")
    case False
    then show ?thesis by (simp add: replay_refresh_def [of now] Let_def)
  next
    case True
    have step: "(later - (rb_last b + ?k * ?w)) div ?w = ?l - ?k"
      by (rule div_periods [OF assms(2)])
    have fill: "min ?c (min ?c (rb_remaining b + ?k * ?c) + (?l - ?k) * ?c) = min ?c (rb_remaining b + ?l * ?c)"
      if "?k < ?l"
    proof -
      have "?c \<le> (?l - ?k) * ?c" using that assms(1) by simp
      with assms(1) have "min ?c (min ?c (rb_remaining b + ?k * ?c) + (?l - ?k) * ?c)
          = min ?c (rb_remaining b + ?k * ?c + (?l - ?k) * ?c)"
        by (intro min_refill) auto
      also have "rb_remaining b + ?k * ?c + (?l - ?k) * ?c = rb_remaining b + ?l * ?c" by (simp add: algebra_simps)
      finally show ?thesis .
    qed
    show ?thesis
    proof (cases "?k < ?l")
      case less: True
      have last: "rb_last b + ?k * ?w + (?l - ?k) * ?w = rb_last b + ?l * ?w" by (simp add: algebra_simps)
      from True less show ?thesis
        by (simp add: replay_refresh_def Let_def step fill [OF less] last)
    next
      case False
      with kl have "?l = ?k" by simp
      with True step show ?thesis by (simp add: replay_refresh_def Let_def)
    qed
  qed
qed

lemma rb_of_inj: "rb_of b = rb_of b' \<Longrightarrow> b = b'"
  by (cases b; cases b') (simp add: rb_of_def)

lemma bucket_refresh_again:
  assumes "bucket_ok c w b" and "now \<le> later"
  shows "bucket_refresh later (bucket_refresh now b) = bucket_refresh later b"
  using replay_refresh_again [of "rb_of b" now later] assms
  by (intro rb_of_inj) (simp add: bucket_ok_def replay_refresh_rb_of)

section \<open>What an event stream totals\<close>

definition event_int :: "string \<Rightarrow> quota_event \<Rightarrow> int" where
  "event_int k e = (case dval (qe_details e) k of SInt i \<Rightarrow> i | _ \<Rightarrow> 0)"

definition of_kind :: "string list \<Rightarrow> quota_event list \<Rightarrow> quota_event list" where
  "of_kind kinds es = filter (\<lambda>e. qe_kind e \<in> set kinds) es"

definition admissions :: "quota_event list \<Rightarrow> quota_event list" where
  "admissions es = of_kind [''quota.call_admitted''] es"

definition settlements :: "quota_event list \<Rightarrow> quota_event list" where
  "settlements es = of_kind [''quota.call_settled'', ''quota.provider_429''] es"

definition refusals :: "quota_event list \<Rightarrow> quota_event list" where
  "refusals es = of_kind [''quota.admission_refused''] es"

text \<open>A refused retry whose recorded reason is the provider reset.\<close>

definition suppressed :: "quota_event \<Rightarrow> bool" where
  "suppressed e \<longleftrightarrow> dval (qe_details e) ''reasons'' = SStr ''provider_reset'' \<and> event_int ''attempt'' e > 0"

definition peak :: "string \<Rightarrow> quota_event list \<Rightarrow> int" where
  "peak k es = foldl max 0 (map (event_int k) (admissions es))"

lemma of_kind_append [simp]: "of_kind ks (es @ fs) = of_kind ks es @ of_kind ks fs"
  by (simp add: of_kind_def)

lemma of_kind_single [simp]: "of_kind ks [e] = (if qe_kind e \<in> set ks then [e] else [])"
  by (simp add: of_kind_def)

text \<open>The report of a stream that leaves \<open>n\<close> leases open.\<close>

definition stream_report :: "quota_event list \<Rightarrow> nat \<Rightarrow> quota_report" where
  "stream_report es n =
     \<lparr>qt_event_count = int (length es), qt_admitted_calls = int (length (admissions es)),
      qt_refused_admissions = int (length (refusals es)), qt_settled_calls = int (length (settlements es)),
      qt_reset_suppressed_retries = int (length (filter suppressed (refusals es))),
      qt_maximum_provider_active = peak ''provider_active'' es, qt_maximum_global_active = peak ''global_active'' es,
      qt_actual_tokens_settled = sum_list (map (event_int ''actual_tokens'') (settlements es)),
      qt_open_leases = int n, qt_digest = event_digest_of es\<rparr>"

section \<open>The replayed image of a live state\<close>

definition config_of :: "quota_physics \<Rightarrow> int \<Rightarrow> replay_config" where
  "config_of p epoch =
     \<lparr>rc_epoch = epoch, rc_provider_id = qp_provider_id p,
      rc_provider_rpm = ql_rpm (qp_provider_limits p), rc_provider_tpm = ql_tpm (qp_provider_limits p),
      rc_provider_concurrency = ql_concurrency (qp_provider_limits p), rc_provider_window = ql_window_ms (qp_provider_limits p),
      rc_global_rpm = ql_rpm (qp_global_limits p), rc_global_tpm = ql_tpm (qp_global_limits p),
      rc_global_concurrency = ql_concurrency (qp_global_limits p), rc_global_window = ql_window_ms (qp_global_limits p),
      rc_max_attempts = rp_max_attempts (qp_retry p), rc_base_backoff = rp_base_backoff_ms (qp_retry p),
      rc_max_backoff = rp_max_backoff_ms (qp_retry p)\<rparr>"

definition lease_view :: "active_lease \<Rightarrow> replay_lease" where
  "lease_view a =
     \<lparr>rl_logical_id = lz_logical_id (al_lease a), rl_attempt = lz_attempt (al_lease a),
      rl_attempt_id = lz_attempt_id (al_lease a), rl_reserved_tokens = al_reserved_tokens a,
      rl_deadline_ms = lz_deadline_ms (al_lease a), rl_provider_window_start_ms = al_provider_window_start_ms a,
      rl_global_window_start_ms = al_global_window_start_ms a\<rparr>"

definition logical_view :: "logical_state \<Rightarrow> replay_logical" where
  "logical_view s =
     \<lparr>ro_attempt = lg_last_attempt s, ro_attempt_id = lg_last_attempt_id s, ro_deadline_ms = lg_deadline_ms s,
      ro_retryable = lg_retryable s, ro_next_retry_at_ms = lg_next_retry_at_ms s, ro_terminal = lg_terminal s\<rparr>"

definition dview :: "('v \<Rightarrow> 'w) \<Rightarrow> ('k, 'v) dict \<Rightarrow> ('k, 'w) dict" where
  "dview f d = map (\<lambda>(k, v). (k, f v)) d"

lemma dget_dview [simp]: "dget (dview f d) k = map_option f (dget d k)"
  by (simp add: dview_def map_of_map)

lemma dmem_dview [simp]: "dmem k (dview f d) = dmem k d"
  by (simp add: dmem_def)

lemma dset_dview: "dset k (f v) (dview f d) = dview f (dset k v d)"
  by (induction d) (auto simp: dview_def)

lemma ddel_dview: "ddel k (dview f d) = dview f (ddel k d)"
  by (induction d) (auto simp: dview_def)

lemma length_dview [simp]: "length (dview f d) = length d"
  by (simp add: dview_def)

definition replay_of :: "int \<Rightarrow> quota_physics \<Rightarrow> quota_replay" where
  "replay_of epoch p =
     \<lparr>qr_config = config_of p epoch,
      qr_provider_rpm = rb_of (qp_provider_rpm p), qr_provider_tpm = rb_of (qp_provider_tpm p),
      qr_global_rpm = rb_of (qp_global_rpm p), qr_global_tpm = rb_of (qp_global_tpm p),
      qr_active = dview lease_view (qp_active p), qr_logical = dview logical_view (qp_logical p),
      qr_admitted_ids = qp_admitted_ids p, qr_provider_active = qp_provider_active p,
      qr_global_active = qp_global_active p, qr_reset_until = qp_reset_until_ms p, qr_previous_time = qp_now p,
      qr_sequence = int (length (qp_events p)), qr_admitted = int (length (admissions (qp_events p))),
      qr_refused = int (length (refusals (qp_events p))), qr_settled = int (length (settlements (qp_events p))),
      qr_reset_suppressed = int (length (filter suppressed (refusals (qp_events p)))),
      qr_actual_total = sum_list (map (event_int ''actual_tokens'') (settlements (qp_events p))),
      qr_max_provider_active = peak ''provider_active'' (qp_events p),
      qr_max_global_active = peak ''global_active'' (qp_events p)\<rparr>"

section \<open>The invariant of the live state\<close>

definition logical_ok :: "logical_state \<Rightarrow> bool" where
  "logical_ok s \<longleftrightarrow> 0 \<le> lg_last_attempt s \<and> \<not> negative (lg_deadline_ms s)
     \<and> lg_retryable s = (lg_next_retry_at_ms s \<noteq> None) \<and> \<not> (lg_terminal s \<and> lg_retryable s)"

text \<open>While a lease is active, the logical call is as its admission left it.\<close>

definition lease_state :: "quota_lease \<Rightarrow> logical_state" where
  "lease_state l =
     \<lparr>lg_last_attempt = lz_attempt l, lg_last_attempt_id = lz_attempt_id l, lg_deadline_ms = lz_deadline_ms l,
      lg_retryable = False, lg_next_retry_at_ms = None, lg_terminal = False\<rparr>"

definition limits_ok :: "quota_limits \<Rightarrow> bool" where
  "limits_ok l \<longleftrightarrow> 0 < ql_rpm l \<and> 0 < ql_tpm l \<and> 0 < ql_concurrency l \<and> 0 < ql_window_ms l"

definition policy_ok :: "retry_policy \<Rightarrow> bool" where
  "policy_ok r \<longleftrightarrow> 0 < rp_max_attempts r \<and> 0 \<le> rp_base_backoff_ms r \<and> rp_base_backoff_ms r \<le> rp_max_backoff_ms r"

definition buckets_ok :: "quota_physics \<Rightarrow> bool" where
  "buckets_ok p \<longleftrightarrow>
     bucket_ok (ql_rpm (qp_provider_limits p)) (ql_window_ms (qp_provider_limits p)) (qp_provider_rpm p)
     \<and> bucket_ok (ql_tpm (qp_provider_limits p)) (ql_window_ms (qp_provider_limits p)) (qp_provider_tpm p)
     \<and> bucket_ok (ql_rpm (qp_global_limits p)) (ql_window_ms (qp_global_limits p)) (qp_global_rpm p)
     \<and> bucket_ok (ql_tpm (qp_global_limits p)) (ql_window_ms (qp_global_limits p)) (qp_global_tpm p)"

definition leases_ok :: "quota_physics \<Rightarrow> bool" where
  "leases_ok p \<longleftrightarrow>
     (\<forall>k a. dget (qp_active p) k = Some a \<longrightarrow>
        0 < al_reserved_tokens a \<and> 0 \<le> lz_attempt (al_lease a)
        \<and> dget (qp_logical p) (lz_logical_id (al_lease a)) = Some (lease_state (al_lease a)))
     \<and> (\<forall>k k' a a'. dget (qp_active p) k = Some a \<longrightarrow> dget (qp_active p) k' = Some a' \<longrightarrow>
          lz_logical_id (al_lease a) = lz_logical_id (al_lease a') \<longrightarrow> k = k')"

definition quota_ok :: "quota_physics \<Rightarrow> bool" where
  "quota_ok p \<longleftrightarrow>
     \<not> py_blank (qp_provider_id p) \<and> limits_ok (qp_provider_limits p) \<and> limits_ok (qp_global_limits p)
     \<and> policy_ok (qp_retry p) \<and> buckets_ok p \<and> leases_ok p \<and> dict_ok (qp_logical p) \<and> dict_ok (qp_active p)
     \<and> (\<forall>l s. dget (qp_logical p) l = Some s \<longrightarrow> logical_ok s) \<and> 0 \<le> qp_now p \<and> qp_events p \<noteq> []"

section \<open>Refreshed states\<close>

definition all_fresh :: "quota_physics \<Rightarrow> bool" where
  "all_fresh p \<longleftrightarrow> bucket_fresh (qp_now p) (qp_provider_rpm p) \<and> bucket_fresh (qp_now p) (qp_provider_tpm p)
     \<and> bucket_fresh (qp_now p) (qp_global_rpm p) \<and> bucket_fresh (qp_now p) (qp_global_tpm p)"

lemma quota_refresh_fresh: "all_fresh p \<Longrightarrow> quota_refresh p = p"
  by (simp add: all_fresh_def quota_refresh_def bucket_fresh_refresh)

lemma quota_refresh_selectors [simp]:
  "qp_provider_id (quota_refresh p) = qp_provider_id p" "qp_provider_limits (quota_refresh p) = qp_provider_limits p"
  "qp_global_limits (quota_refresh p) = qp_global_limits p" "qp_now (quota_refresh p) = qp_now p"
  "qp_retry (quota_refresh p) = qp_retry p" "qp_provider_active (quota_refresh p) = qp_provider_active p"
  "qp_global_active (quota_refresh p) = qp_global_active p" "qp_reset_until_ms (quota_refresh p) = qp_reset_until_ms p"
  "qp_events (quota_refresh p) = qp_events p" "qp_logical (quota_refresh p) = qp_logical p"
  "qp_active (quota_refresh p) = qp_active p" "qp_admitted_ids (quota_refresh p) = qp_admitted_ids p"
  by (simp_all add: quota_refresh_def)

lemma buckets_ok_fresh: "buckets_ok p \<Longrightarrow> all_fresh (quota_refresh p)"
  by (auto simp: buckets_ok_def bucket_ok_def all_fresh_def quota_refresh_def intro: refresh_fresh)

lemma quota_ok_refresh: "quota_ok p \<Longrightarrow> quota_ok (quota_refresh p)"
  by (auto simp: quota_ok_def buckets_ok_def leases_ok_def quota_refresh_def bucket_ok_refresh)

lemma quota_ok_fresh: "quota_ok p \<Longrightarrow> all_fresh (quota_refresh p)"
  by (simp add: quota_ok_def buckets_ok_fresh)

text \<open>The pairs of the snapshot without its refresh.\<close>

definition current_pairs :: "quota_physics \<Rightarrow> details" where
  "current_pairs p =
     [(''provider_rpm_remaining'', SInt (tb_remaining (qp_provider_rpm p))),
      (''provider_tpm_remaining'', SInt (tb_remaining (qp_provider_tpm p))),
      (''provider_active'', SInt (qp_provider_active p)),
      (''global_rpm_remaining'', SInt (tb_remaining (qp_global_rpm p))),
      (''global_tpm_remaining'', SInt (tb_remaining (qp_global_tpm p))),
      (''global_active'', SInt (qp_global_active p)),
      (''provider_reset_until_ms'', SInt (qp_reset_until_ms p))]"

lemma emit_fresh:
  "all_fresh p \<Longrightarrow> emit_with_snapshot kind d p = quota_emit kind (d @ current_pairs p) p"
  by (simp add: emit_with_snapshot_def quota_snapshot_of_def Let_def quota_refresh_fresh snapshot_pairs_def
      current_pairs_def)

lemma emit_refreshed:
  "quota_ok p \<Longrightarrow> emit_with_snapshot kind d p = quota_emit kind (d @ current_pairs (quota_refresh p)) (quota_refresh p)"
  by (simp add: emit_with_snapshot_def quota_snapshot_of_def Let_def snapshot_pairs_def current_pairs_def)

lemma expected_snapshot_of: "expected_snapshot (replay_of epoch p) = current_pairs p"
  by (simp add: expected_snapshot_def current_pairs_def replay_of_def)

section \<open>The simulation relation\<close>

definition quota_sim :: "int \<Rightarrow> quota_physics \<Rightarrow> quota_replay \<Rightarrow> bool" where
  "quota_sim epoch p r \<longleftrightarrow> qr_previous_time r \<le> qp_now p
     \<and> replay_refresh_all (qp_now p) (r\<lparr>qr_previous_time := qp_now p\<rparr>) = replay_of epoch (quota_refresh p)"

lemma quota_sim_fresh:
  assumes "all_fresh p"
  shows "quota_sim epoch p (replay_of epoch p)"
  using assms
  by (simp add: quota_sim_def quota_refresh_fresh)
    (simp add: replay_refresh_all_def replay_of_def replay_refresh_rb_of all_fresh_def bucket_fresh_refresh)

lemma quota_sim_advance:
  assumes "quota_ok p" and "quota_sim epoch p r"
  shows "quota_sim epoch (quota_advance delay p) r"
proof -
  let ?now = "qp_now p" and ?later = "qp_now p + int delay"
  have image: "replay_refresh_all ?now (r\<lparr>qr_previous_time := ?now\<rparr>) = replay_of epoch (quota_refresh p)"
    and time: "qr_previous_time r \<le> ?now" using assms(2) by (auto simp: quota_sim_def)
  have again: "replay_refresh ?later (replay_refresh ?now b) = replay_refresh ?later b"
    if "replay_refresh ?now b = rb_of b'" "bucket_ok c w b'" for b b' c w
  proof (rule replay_refresh_again)
    have "rb_capacity b = tb_capacity b'" "rb_window b = tb_refill_every_ms b'"
      using that(1) replay_refresh_keeps [of ?now b] by simp_all
    with that(2) show "0 < rb_capacity b" "0 < rb_window b" by (simp_all add: bucket_ok_def)
  qed simp
  from image have buckets:
      "replay_refresh ?now (qr_provider_rpm r) = rb_of (bucket_refresh ?now (qp_provider_rpm p))"
      "replay_refresh ?now (qr_provider_tpm r) = rb_of (bucket_refresh ?now (qp_provider_tpm p))"
      "replay_refresh ?now (qr_global_rpm r) = rb_of (bucket_refresh ?now (qp_global_rpm p))"
      "replay_refresh ?now (qr_global_tpm r) = rb_of (bucket_refresh ?now (qp_global_tpm p))"
    by (auto simp: replay_refresh_all_def replay_of_def quota_refresh_def dest: arg_cong [where f = qr_provider_rpm]
        arg_cong [where f = qr_provider_tpm] arg_cong [where f = qr_global_rpm] arg_cong [where f = qr_global_tpm])
  from assms(1) have okb:
      "bucket_ok (ql_rpm (qp_provider_limits p)) (ql_window_ms (qp_provider_limits p)) (qp_provider_rpm p)"
      "bucket_ok (ql_tpm (qp_provider_limits p)) (ql_window_ms (qp_provider_limits p)) (qp_provider_tpm p)"
      "bucket_ok (ql_rpm (qp_global_limits p)) (ql_window_ms (qp_global_limits p)) (qp_global_rpm p)"
      "bucket_ok (ql_tpm (qp_global_limits p)) (ql_window_ms (qp_global_limits p)) (qp_global_tpm p)"
    by (simp_all add: quota_ok_def buckets_ok_def)
  have againb: "replay_refresh ?later (replay_refresh ?now (qr_provider_rpm r)) = replay_refresh ?later (qr_provider_rpm r)"
      "replay_refresh ?later (replay_refresh ?now (qr_provider_tpm r)) = replay_refresh ?later (qr_provider_tpm r)"
      "replay_refresh ?later (replay_refresh ?now (qr_global_rpm r)) = replay_refresh ?later (qr_global_rpm r)"
      "replay_refresh ?later (replay_refresh ?now (qr_global_tpm r)) = replay_refresh ?later (qr_global_tpm r)"
    by (rule again [OF buckets(1) bucket_ok_refresh [OF okb(1)]] again [OF buckets(2) bucket_ok_refresh [OF okb(2)]]
        again [OF buckets(3) bucket_ok_refresh [OF okb(3)]] again [OF buckets(4) bucket_ok_refresh [OF okb(4)]])+
  have "replay_refresh_all ?later (r\<lparr>qr_previous_time := ?later\<rparr>)
      = (replay_refresh_all ?later (replay_refresh_all ?now (r\<lparr>qr_previous_time := ?now\<rparr>)))\<lparr>qr_previous_time := ?later\<rparr>"
    by (intro quota_replay.equality) (simp_all add: replay_refresh_all_def againb)
  also have "\<dots> = (replay_refresh_all ?later (replay_of epoch (quota_refresh p)))\<lparr>qr_previous_time := ?later\<rparr>"
    by (simp only: image)
  also have "\<dots> = replay_of epoch (quota_refresh (quota_advance delay p))"
    by (auto simp: replay_refresh_all_def replay_of_def replay_refresh_rb_of quota_refresh_def quota_advance_def
        config_of_def bucket_refresh_again [OF okb(1)] bucket_refresh_again [OF okb(2)] bucket_refresh_again [OF okb(3)]
        bucket_refresh_again [OF okb(4)])
  finally show ?thesis using time by (simp add: quota_sim_def quota_advance_def)
qed

end
