(* ===== verification/Quota_Steps.thy ===== *)
theory Quota_Steps
  imports Quota_Sim
begin

text \<open>
  The abstract specification of the quota kernel: \<open>quota_effect\<close> says which changes a call can make, on
  refreshed states and without error branches. Every call is such a change, every such change is some
  call, and the invariant is kept.
\<close>

section \<open>Effects\<close>

definition charge_bucket :: "int \<Rightarrow> token_bucket \<Rightarrow> token_bucket" where
  "charge_bucket units b = b\<lparr>tb_remaining := tb_remaining b - units\<rparr>"

definition charge :: "int \<Rightarrow> quota_physics \<Rightarrow> quota_physics" where
  "charge tokens p =
     p\<lparr>qp_provider_rpm := charge_bucket 1 (qp_provider_rpm p), qp_provider_tpm := charge_bucket tokens (qp_provider_tpm p),
       qp_global_rpm := charge_bucket 1 (qp_global_rpm p), qp_global_tpm := charge_bucket tokens (qp_global_tpm p),
       qp_provider_active := qp_provider_active p + 1, qp_global_active := qp_global_active p + 1\<rparr>"

definition refund :: "int \<Rightarrow> int \<Rightarrow> token_bucket \<Rightarrow> int" where
  "refund unused window_start b =
     (if tb_last_refill_ms b = window_start then min unused (tb_capacity b - tb_remaining b) else 0)"

lemma refund_if_current_eq:
  "refund_if_current unused start b = (refund unused start b, charge_bucket (- refund unused start b) b)"
  by (simp add: refund_if_current_def refund_def charge_bucket_def Let_def)

definition settlement_of :: "int \<Rightarrow> active_lease \<Rightarrow> quota_physics \<Rightarrow> settlement" where
  "settlement_of actual a p =
     \<lparr>sl_active = a,
      sl_provider_refunded = refund (al_reserved_tokens a - actual) (al_provider_window_start_ms a) (qp_provider_tpm p),
      sl_global_refunded = refund (al_reserved_tokens a - actual) (al_global_window_start_ms a) (qp_global_tpm p)\<rparr>"

definition release_lease :: "string \<Rightarrow> int \<Rightarrow> active_lease \<Rightarrow> quota_physics \<Rightarrow> quota_physics" where
  "release_lease l actual a p =
     p\<lparr>qp_provider_tpm := charge_bucket (- sl_provider_refunded (settlement_of actual a p)) (qp_provider_tpm p),
       qp_global_tpm := charge_bucket (- sl_global_refunded (settlement_of actual a p)) (qp_global_tpm p),
       qp_provider_active := qp_provider_active p - 1, qp_global_active := qp_global_active p - 1,
       qp_active := ddel l (qp_active p)\<rparr>"

text \<open>How a lease ends: with success, with a retryable failure, or with a 429 that declares a reset time.\<close>

datatype ending = Succeeded | Failed | Throttled int

definition reset_after_ending :: "ending \<Rightarrow> quota_physics \<Rightarrow> int" where
  "reset_after_ending g p = (case g of Throttled u \<Rightarrow> max (qp_reset_until_ms p) u | _ \<Rightarrow> qp_reset_until_ms p)"

definition ending_ok :: "ending \<Rightarrow> int \<Rightarrow> bool" where
  "ending_ok g now = (case g of Throttled u \<Rightarrow> now < u | _ \<Rightarrow> True)"

definition retry_after_ending :: "ending \<Rightarrow> active_lease \<Rightarrow> quota_physics \<Rightarrow> int option" where
  "retry_after_ending g a p =
     (let next_attempt = lz_attempt (al_lease a) + 1;
          wait = qp_now p + backoff_ms (rp_base_backoff_ms (qp_retry p)) (rp_max_backoff_ms (qp_retry p)) next_attempt;
          retry = (case g of Throttled u \<Rightarrow> max wait (reset_after_ending g p) | _ \<Rightarrow> wait)
      in if g = Succeeded \<or> next_attempt \<ge> rp_max_attempts (qp_retry p)
           \<or> deadline_passed retry (lz_deadline_ms (al_lease a)) then None else Some retry)"

definition ending_kind :: "ending \<Rightarrow> string" where
  "ending_kind g = (case g of Throttled u \<Rightarrow> ''quota.provider_429'' | _ \<Rightarrow> ''quota.call_settled'')"

definition ending_details :: "ending \<Rightarrow> active_lease \<Rightarrow> quota_physics \<Rightarrow> details" where
  "ending_details g a p =
     (let retry = retry_after_ending g a p;
          retried = [(''next_retry_at_ms'', opt_int retry), (''retry_exhausted'', SBool (retry = None))]
      in case g of
          Succeeded \<Rightarrow> [(''outcome'', SStr ''success'')]
        | Failed \<Rightarrow> retried @ [(''outcome'', SStr ''retryable_failure'')]
        | Throttled u \<Rightarrow> (''reset_at_ms'', SInt (reset_after_ending g p)) # retried @ [(''outcome'', SStr ''provider_429'')])"

definition end_lease :: "ending \<Rightarrow> string \<Rightarrow> int \<Rightarrow> active_lease \<Rightarrow> quota_physics \<Rightarrow> quota_physics" where
  "end_lease g l actual a p =
     (release_lease l actual a p)\<lparr>qp_reset_until_ms := reset_after_ending g p,
        qp_logical := dset (lz_logical_id (al_lease a))
          (set_retry (retry_after_ending g a p) (lease_state (al_lease a))) (qp_logical p)\<rparr>"

definition collides :: "call_request \<Rightarrow> quota_physics \<Rightarrow> bool" where
  "collides q p \<longleftrightarrow> lz_attempt_id (request_lease p q) \<in> set (qp_admitted_ids p)
     \<or> dmem (lz_lease_id (request_lease p q)) (qp_active p)"

definition refuse :: "call_request \<Rightarrow> refusal_reason list \<Rightarrow> int option \<Rightarrow> quota_physics \<Rightarrow> quota_physics" where
  "refuse q reasons retry_at p =
     quota_emit ''quota.admission_refused'' (refused_details p q reasons retry_at @ current_pairs p) p"

definition admit :: "call_request \<Rightarrow> quota_physics \<Rightarrow> quota_physics" where
  "admit q p =
     (let p' = admit_lease q (charge (cr_estimated_tokens q) p) in
      quota_emit ''quota.call_admitted'' (admitted_details p q @ current_pairs p') p')"

definition over_cap :: "string \<Rightarrow> int \<Rightarrow> active_lease \<Rightarrow> quota_physics \<Rightarrow> quota_physics" where
  "over_cap l actual a p =
     quota_emit ''quota.settlement_refused'' (settlement_refused_details l actual a @ current_pairs p) p"

definition settle :: "ending \<Rightarrow> string \<Rightarrow> int \<Rightarrow> active_lease \<Rightarrow> quota_physics \<Rightarrow> quota_physics" where
  "settle g l actual a p =
     (let p' = end_lease g l actual a p in
      quota_emit (ending_kind g)
        (settlement_details l actual (settlement_of actual a p) @ ending_details g a p @ current_pairs p') p')"

inductive quota_effect :: "quota_physics \<Rightarrow> quota_physics \<Rightarrow> bool" where
  idle: "quota_effect p p"
| observe: "quota_effect p (quota_refresh p)"
| refuse: "request_error q = None \<Longrightarrow> acquire_reasons (quota_refresh p) q = (reasons, retry_at) \<Longrightarrow> reasons \<noteq> [] \<Longrightarrow>
    quota_effect p (refuse q reasons retry_at (quota_refresh p))"
| admit: "request_error q = None \<Longrightarrow> acquire_reasons (quota_refresh p) q = ([], retry_at) \<Longrightarrow> \<not> collides q p \<Longrightarrow>
    quota_effect p (admit q (quota_refresh p))"
| over_cap: "dget (qp_active p) l = Some a \<Longrightarrow> al_reserved_tokens a < actual \<Longrightarrow>
    quota_effect p (over_cap l actual a (quota_refresh p))"
| settle: "dget (qp_active p) l = Some a \<Longrightarrow> 0 \<le> actual \<Longrightarrow> actual \<le> al_reserved_tokens a \<Longrightarrow>
    ending_ok g (qp_now p) \<Longrightarrow> quota_effect p (settle g l actual a (quota_refresh p))"

section \<open>Every call is an effect\<close>

lemma limit_reasons_clear:
  "limit_reasons p tokens = [] \<longleftrightarrow>
     1 \<le> tb_remaining (qp_provider_rpm p) \<and> tokens \<le> tb_remaining (qp_provider_tpm p)
     \<and> qp_provider_active p < ql_concurrency (qp_provider_limits p)
     \<and> 1 \<le> tb_remaining (qp_global_rpm p) \<and> tokens \<le> tb_remaining (qp_global_tpm p)
     \<and> qp_global_active p < ql_concurrency (qp_global_limits p)"
  by (auto simp: limit_reasons_def)

lemma acquire_clear:
  "acquire_reasons p q = ([], t) \<longleftrightarrow> t = None \<and> identity_reasons p q = []
     \<and> \<not> deadline_passed (qp_now p) (call_deadline p q) \<and> qp_reset_until_ms p \<le> qp_now p
     \<and> backoff_pending (qp_now p) (cr_attempt q) (dget (qp_logical p) (cr_logical_id q)) = None
     \<and> limit_reasons p (cr_estimated_tokens q) = []"
  by (auto simp: acquire_reasons_def Let_def split: option.splits if_splits)

lemma consume_all_clear:
  "limit_reasons p tokens = [] \<Longrightarrow>
     consume_all tokens p = (None, p\<lparr>qp_provider_rpm := charge_bucket 1 (qp_provider_rpm p),
       qp_provider_tpm := charge_bucket tokens (qp_provider_tpm p), qp_global_rpm := charge_bucket 1 (qp_global_rpm p),
       qp_global_tpm := charge_bucket tokens (qp_global_tpm p)\<rparr>)"
  by (simp add: limit_reasons_clear consume_all_def bucket_consume_def charge_bucket_def Let_def)

lemma charge_fresh: "all_fresh p \<Longrightarrow> all_fresh (charge tokens p)"
  by (simp add: all_fresh_def charge_def charge_bucket_def bucket_fresh_def)

lemma admit_lease_fresh [simp]: "all_fresh (admit_lease q p) = all_fresh p"
  by (simp add: all_fresh_def admit_lease_def Let_def)

lemma end_lease_fresh: "all_fresh p \<Longrightarrow> all_fresh (end_lease g l actual a p)"
  by (simp add: all_fresh_def end_lease_def release_lease_def charge_bucket_def bucket_fresh_def)

lemma collides_refresh [simp]: "collides q (quota_refresh p) = collides q p"
  by (simp add: collides_def request_lease_def Let_def)

lemma acquire_effect:
  assumes ok: "quota_ok p" and "acquire_reasons (quota_refresh p) q = (reasons, retry_at)"
  shows "snd (acquire q p) =
      (if reasons \<noteq> [] then refuse q reasons retry_at (quota_refresh p)
       else if collides q p then charge (cr_estimated_tokens q) (quota_refresh p) else admit q (quota_refresh p))"
    and "is_assertion (fst (drop_value (acquire q p))) \<longleftrightarrow> reasons = [] \<and> collides q p"
proof -
  let ?p = "quota_refresh p"
  have fresh: "all_fresh ?p" by (rule quota_ok_fresh [OF ok])
  have lease: "request_lease (charge n ?p) q = request_lease ?p q" for n
    by (simp add: request_lease_def charge_def call_deadline_def Let_def)
  have ch: "?p\<lparr>qp_provider_rpm := charge_bucket 1 (qp_provider_rpm ?p), qp_provider_tpm := charge_bucket n (qp_provider_tpm ?p),
       qp_global_rpm := charge_bucket 1 (qp_global_rpm ?p), qp_global_tpm := charge_bucket n (qp_global_tpm ?p),
       qp_provider_active := qp_provider_active p + 1, qp_global_active := qp_global_active p + 1\<rparr> = charge n ?p" for n
    by (simp add: charge_def)
  have ids: "qp_admitted_ids (charge n ?p) = qp_admitted_ids p" "qp_active (charge n ?p) = qp_active p" for n
    by (simp_all add: charge_def)
  have coll: "collides q p \<longleftrightarrow> lz_attempt_id (request_lease ?p q) \<in> set (qp_admitted_ids p)
      \<or> dmem (lz_lease_id (request_lease ?p q)) (qp_active p)"
    using collides_refresh [of q p] by (simp add: collides_def)
  from assms(2) show "snd (acquire q p) =
      (if reasons \<noteq> [] then refuse q reasons retry_at (quota_refresh p)
       else if collides q p then charge (cr_estimated_tokens q) (quota_refresh p) else admit q (quota_refresh p))"
    by (auto simp: acquire_def Let_def refuse_def emit_fresh [OF fresh] acquire_clear consume_all_clear ch ids coll
        admit_def emit_fresh charge_fresh [OF fresh])
  from assms(2) show "is_assertion (fst (drop_value (acquire q p))) \<longleftrightarrow> reasons = [] \<and> collides q p"
    unfolding coll by (auto simp: acquire_def Let_def acquire_clear consume_all_clear ids split: if_splits)
qed


lemma settle_active_effect:
  assumes "dget (qp_active p) l = Some a" and "0 \<le> actual" and "actual \<le> al_reserved_tokens a"
  shows "settle_active l actual p =
    (Inr (settlement_of actual a (quota_refresh p)), release_lease l actual a (quota_refresh p))"
  using assms by (simp add: settle_active_def Let_def refund_if_current_eq settlement_of_def release_lease_def)

lemma leases_ok_active:
  assumes "quota_ok p" and "dget (qp_active p) l = Some a"
  shows "0 < al_reserved_tokens a" and "0 \<le> lz_attempt (al_lease a)"
    and "dget (qp_logical p) (lz_logical_id (al_lease a)) = Some (lease_state (al_lease a))"
  using assms by (auto simp: quota_ok_def leases_ok_def)

lemma settle_active_over_cap:
  assumes "quota_ok p" and "dget (qp_active p) l = Some a" and "al_reserved_tokens a < actual"
  shows "snd (settle_active l actual p) = over_cap l actual a (quota_refresh p)"
    and "\<exists>m. fst (settle_active l actual p) = Inl (QuotaSettlementError m)"
  using assms leases_ok_active(1) [OF assms(1,2)] by (auto simp: settle_active_def over_cap_def emit_refreshed)

lemma settle_active_idle:
  assumes "actual < 0 \<or> dget (qp_active p) l = None"
  shows "\<exists>e. settle_active l actual p = (Inl e, p) \<and> \<not> is_assertion (Some e)"
  using assms by (auto simp: settle_active_def)

lemma release_lease_selectors [simp]:
  "qp_logical (release_lease l actual a p) = qp_logical p" "qp_retry (release_lease l actual a p) = qp_retry p"
  "qp_now (release_lease l actual a p) = qp_now p" "qp_reset_until_ms (release_lease l actual a p) = qp_reset_until_ms p"
  "qp_events (release_lease l actual a p) = qp_events p"
  by (simp_all add: release_lease_def)

lemma lease_state_terminal: "(lease_state l)\<lparr>lg_terminal := True\<rparr> = set_retry None (lease_state l)"
  by (simp add: lease_state_def set_retry_def)

lemma lease_state_deadline [simp]: "lg_deadline_ms (lease_state l) = lz_deadline_ms l"
  by (simp add: lease_state_def)

lemma retry_time_eq:
  assumes "0 < n"
  shows "retry_time p n reset deadline = Inr
    (let wait = qp_now p + backoff_ms (rp_base_backoff_ms (qp_retry p)) (rp_max_backoff_ms (qp_retry p)) n;
         retry = (case reset of None \<Rightarrow> wait | Some r \<Rightarrow> max wait r)
     in if n \<ge> rp_max_attempts (qp_retry p) \<or> deadline_passed retry deadline then None else Some retry)"
  using assms by (auto simp: retry_time_def backoff_for_def Let_def deadline_passed_def split: option.splits)

lemma ending_calls:
  assumes ok: "quota_ok p" and act: "dget (qp_active p) l = Some a" and amount: "0 \<le> actual" "actual \<le> al_reserved_tokens a"
  shows "complete l actual p = (Inr (), settle Succeeded l actual a (quota_refresh p))"
    and "snd (fail_retryable l actual p) = settle Failed l actual a (quota_refresh p)"
    and "\<exists>v. fst (fail_retryable l actual p) = Inr v"
    and "declared_reset (qp_now p) ra rt = Inr u \<Longrightarrow>
      snd (provider_429 l actual ra rt p) = settle (Throttled u) l actual a (quota_refresh p)"
    and "declared_reset (qp_now p) ra rt = Inr u \<Longrightarrow> \<exists>v. fst (provider_429 l actual ra rt p) = Inr v"
proof -
  let ?p = "quota_refresh p"
  note fresh = quota_ok_fresh [OF ok]
  note lease = leases_ok_active [OF ok act]
  note eff = settle_active_effect [OF act amount]
  from lease(2) have later: "0 < lz_attempt (al_lease a) + 1" by simp
  have emit: "all_fresh p' \<Longrightarrow> qp_now p' = qp_now p \<Longrightarrow>
      emit_with_snapshot k d p' = quota_emit k (d @ current_pairs p') p'" for k d p'
    by (rule emit_fresh)
  note ends = end_lease_fresh [OF fresh, of _ l actual a]
  have succ: "(release_lease l actual a ?p)\<lparr>qp_logical := dset (lz_logical_id (al_lease a)) (set_retry (retry_after_ending g a ?p)
      (lease_state (al_lease a))) (qp_logical p)\<rparr> = end_lease g l actual a ?p"
    if "reset_after_ending g ?p = qp_reset_until_ms p" for g
    using that by (simp add: end_lease_def release_lease_def)
  show "complete l actual p = (Inr (), settle Succeeded l actual a ?p)"
    using succ [of Succeeded] ends [of Succeeded]
    by (simp add: complete_def eff settlement_of_def lease(3) Let_def lease_state_terminal retry_after_ending_def
        reset_after_ending_def emit_fresh settle_def ending_kind_def ending_details_def)
  show "snd (fail_retryable l actual p) = settle Failed l actual a ?p" "\<exists>v. fst (fail_retryable l actual p) = Inr v"
    using succ [of Failed] ends [of Failed]
    by (simp_all add: fail_retryable_def eff settlement_of_def lease(3) Let_def retry_time_eq [OF later] retry_after_ending_def
        reset_after_ending_def emit_fresh settle_def ending_kind_def ending_details_def)
  assume u: "declared_reset (qp_now p) ra rt = Inr u"
  have thr: "(release_lease l actual a ?p)\<lparr>qp_reset_until_ms := max (qp_reset_until_ms p) u,
      qp_logical := dset (lz_logical_id (al_lease a)) (set_retry (retry_after_ending (Throttled u) a ?p)
      (lease_state (al_lease a))) (qp_logical p)\<rparr> = end_lease (Throttled u) l actual a ?p"
    by (simp add: end_lease_def release_lease_def reset_after_ending_def)
  show "snd (provider_429 l actual ra rt p) = settle (Throttled u) l actual a ?p"
    "\<exists>v. fst (provider_429 l actual ra rt p) = Inr v"
    using thr ends [of "Throttled u"] u
    by (simp_all add: provider_429_def eff settlement_of_def lease(3) Let_def retry_time_eq [OF later] retry_after_ending_def
        reset_after_ending_def emit_fresh settle_def ending_kind_def ending_details_def)
qed

lemma end_call_effect:
  assumes "quota_ok p" and "ending_ok g (qp_now p)"
    and call: "\<And>a. dget (qp_active p) l = Some a \<Longrightarrow> 0 \<le> actual \<Longrightarrow> actual \<le> al_reserved_tokens a \<Longrightarrow>
      snd R = settle g l actual a (quota_refresh p) \<and> (\<exists>v. fst R = Inr v)"
    and raises: "\<And>e p'. settle_active l actual p = (Inl e, p') \<Longrightarrow> R = (Inl e, p')"
  shows "quota_effect p (snd (drop_value R)) \<and> \<not> is_assertion (fst (drop_value R))"
proof (cases "actual < 0 \<or> dget (qp_active p) l = None")
  case True
  from settle_active_idle [OF this] obtain e where "settle_active l actual p = (Inl e, p)" "\<not> is_assertion (Some e)" by blast
  with raises [OF this(1)] show ?thesis by (simp add: quota_effect.idle)
next
  case False
  then obtain a where a: "dget (qp_active p) l = Some a" "0 \<le> actual" by auto
  show ?thesis
  proof (cases "actual \<le> al_reserved_tokens a")
    case True
    with call [OF a] assms(2) a show ?thesis by (cases R) (auto intro: quota_effect.settle)
  next
    case False
    then have "al_reserved_tokens a < actual" by simp
    note over = settle_active_over_cap [OF assms(1) a(1) this] quota_effect.over_cap [OF a(1) this]
    from over(2) obtain m where "settle_active l actual p = (Inl (QuotaSettlementError m), snd (settle_active l actual p))"
      by (metis prod.collapse)
    from raises [OF this] over(1,3) show ?thesis by simp
  qed
qed

lemma end_call_raises:
  assumes "settle_active l actual p = (Inl e, p')"
  shows "complete l actual p = (Inl e, p')" and "fail_retryable l actual p = (Inl e, p')"
    and "declared_reset (qp_now p) ra rt = Inr u \<Longrightarrow> provider_429 l actual ra rt p = (Inl e, p')"
  using assms by (simp_all add: complete_def fail_retryable_def provider_429_def)

theorem quota_do_effect:
  assumes ok: "quota_ok p" and "\<not> is_assertion (fst (quota_do c p))"
  shows "quota_effect p (snd (quota_do c p))"
proof (cases c)
  case (Acquire q)
  obtain reasons retry_at where r: "acquire_reasons (quota_refresh p) q = (reasons, retry_at)" by fastforce
  have dv: "snd (drop_value (acquire q p)) = snd (acquire q p)" by (cases "acquire q p" rule: drop_value.cases) simp_all
  from acquire_effect [OF ok r] r assms(2) Acquire dv show ?thesis
    by (auto split: option.splits intro: quota_effect.intros)
next
  case (Complete l actual)
  show ?thesis using Complete
    by (auto intro!: end_call_effect [OF ok, of Succeeded l actual, THEN conjunct1] simp: ending_ok_def ending_calls(1) [OF ok] end_call_raises)
next
  case (FailRetryable l actual)
  show ?thesis using FailRetryable
    by (auto intro!: end_call_effect [OF ok, of Failed l actual, THEN conjunct1] simp: ending_ok_def ending_calls(2,3) [OF ok] end_call_raises)
next
  case (Provider429 l actual ra rt)
  show ?thesis
  proof (cases "declared_reset (qp_now p) ra rt")
    case (Inl e)
    then show ?thesis using Provider429 by (simp add: provider_429_def quota_effect.idle)
  next
    case (Inr u)
    then have "ending_ok (Throttled u) (qp_now p)"
      by (auto simp: declared_reset_def ending_ok_def split: option.splits if_splits)
    then show ?thesis using Provider429 Inr
      by (auto intro!: end_call_effect [OF ok, of "Throttled u" l actual, THEN conjunct1] simp: ending_calls(4,5) [OF ok _ _ _ Inr] end_call_raises)
  qed
next
  case Snapshot
  then show ?thesis by (simp add: quota_snapshot_of_def Let_def quota_effect.observe)
qed

lemma acquire_admits:
  assumes "quota_ok p" and "request_error q = None" and "acquire_reasons (quota_refresh p) q = (reasons, retry_at)"
    and "reasons = [] \<Longrightarrow> \<not> collides q p"
  shows "snd (quota_do (Acquire q) p) = (if reasons \<noteq> [] then refuse q reasons retry_at (quota_refresh p) else admit q (quota_refresh p))"
    and "\<not> is_assertion (fst (quota_do (Acquire q) p))"
proof -
  have dv: "snd (drop_value (acquire q p)) = snd (acquire q p)" by (cases "acquire q p" rule: drop_value.cases) simp_all
  from acquire_effect [OF assms(1,3)] assms dv
  show "snd (quota_do (Acquire q) p) = (if reasons \<noteq> [] then refuse q reasons retry_at (quota_refresh p) else admit q (quota_refresh p))"
    and "\<not> is_assertion (fst (quota_do (Acquire q) p))" by auto
qed

theorem quota_effect_do:
  assumes "quota_effect p p'" and ok: "quota_ok p"
  shows "\<exists>c. snd (quota_do c p) = p' \<and> \<not> is_assertion (fst (quota_do c p))"
  using assms(1)
proof cases
  case idle
  then show ?thesis by (intro exI [of _ "Complete [] (-1)"]) (simp add: complete_def settle_active_def)
next
  case observe
  then show ?thesis by (intro exI [of _ Snapshot]) (simp add: quota_snapshot_of_def Let_def)
next
  case (refuse q reasons retry_at)
  with acquire_admits [OF ok refuse(2,3)] show ?thesis by (intro exI [of _ "Acquire q"]) auto
next
  case (admit q retry_at)
  with acquire_admits [OF ok admit(2,3)] show ?thesis by (intro exI [of _ "Acquire q"]) auto
next
  case (over_cap l a actual)
  from settle_active_over_cap [OF ok over_cap(2,3)] over_cap(1) show ?thesis
    by (intro exI [of _ "Complete l actual"]) (cases "settle_active l actual p", auto simp: complete_def)
next
  case (settle l a actual g)
  note calls = ending_calls [OF ok settle(2-4)]
  show ?thesis
  proof (cases g)
    case Succeeded
    with calls(1) settle(1) show ?thesis by (intro exI [of _ "Complete l actual"]) simp
  next
    case Failed
    with calls(2,3) settle(1) show ?thesis
      by (intro exI [of _ "FailRetryable l actual"]) (cases "fail_retryable l actual p", auto)
  next
    case (Throttled u)
    with settle(5) have "declared_reset (qp_now p) None (Some u) = Inr u" by (simp add: ending_ok_def declared_reset_def)
    from calls(4,5) [OF this] Throttled settle(1) show ?thesis
      by (intro exI [of _ "Provider429 l actual None (Some u)"]) (cases "provider_429 l actual None (Some u) p", auto)
  qed
qed

section \<open>Every effect keeps the invariant\<close>

lemma quota_emit_ok: "quota_ok p \<Longrightarrow> quota_ok (quota_emit k d p)"
  by (simp add: quota_ok_def quota_emit_def buckets_ok_def leases_ok_def)

lemma identity_clear:
  "identity_reasons p q = [] \<longleftrightarrow>
     (if cr_attempt q = 0 then dget (qp_logical p) (cr_logical_id q) = None
      else (\<exists>s. dget (qp_logical p) (cr_logical_id q) = Some s \<and> cr_attempt q < rp_max_attempts (qp_retry p)
        \<and> \<not> lg_terminal s \<and> lg_retryable s \<and> cr_attempt q = lg_last_attempt s + 1
        \<and> cr_previous_attempt_id q = Some (lg_last_attempt_id s)
        \<and> (cr_deadline_ms q = None \<or> cr_deadline_ms q = lg_deadline_ms s)))"
  by (auto simp: identity_reasons_def split: option.splits if_splits)

lemma charge_bucket_ok: "bucket_ok c w b \<Longrightarrow> 0 \<le> n \<Longrightarrow> n \<le> tb_remaining b \<Longrightarrow> bucket_ok c w (charge_bucket n b)"
  by (auto simp: bucket_ok_def charge_bucket_def)

lemma refund_bucket_ok:
  "bucket_ok c w b \<Longrightarrow> 0 \<le> n \<Longrightarrow> bucket_ok c w (charge_bucket (- refund n start b) b) \<and> 0 \<le> refund n start b"
  by (auto simp: bucket_ok_def charge_bucket_def refund_def)

lemma request_error_None:
  "request_error q = None \<Longrightarrow> 0 < cr_estimated_tokens q \<and> 0 \<le> cr_attempt q \<and> \<not> negative (cr_deadline_ms q)
     \<and> \<not> py_blank (cr_logical_id q)
     \<and> (cr_attempt q = 0 \<longleftrightarrow> cr_previous_attempt_id q = None)
     \<and> (\<forall>s. cr_previous_attempt_id q = Some s \<longrightarrow> \<not> py_blank s)"
  by (auto simp: request_error_def negative_def split: if_splits option.splits)

lemma admit_ok:
  assumes ok: "quota_ok p" and req: "request_error q = None" and clear: "acquire_reasons p q = ([], retry_at)"
    and coll: "\<not> collides q p"
  shows "quota_ok (admit q p)"
proof -
  let ?p = "admit_lease q (charge (cr_estimated_tokens q) p)"
  note req = request_error_None [OF req]
  from clear have id: "identity_reasons p q = []" and lim: "limit_reasons p (cr_estimated_tokens q) = []"
    by (simp_all add: acquire_clear)
  have buckets: "buckets_ok ?p"
    using ok req lim by (auto simp: quota_ok_def buckets_ok_def admit_lease_def Let_def charge_def limit_reasons_clear
        intro: charge_bucket_ok)
  have no_lease: "lz_logical_id (al_lease a) \<noteq> cr_logical_id q" if "dget (qp_active p) k = Some a" for k a
    using leases_ok_active(3) [OF ok that] id
    by (auto simp: identity_clear lease_state_def split: if_splits)
  have deadline: "\<not> negative (call_deadline p q)"
    using ok req by (auto simp: call_deadline_def quota_ok_def logical_ok_def split: option.splits)
  have leases: "leases_ok ?p"
    using ok no_lease no_lease [THEN not_sym] req coll
    by (auto simp: quota_ok_def leases_ok_def admit_lease_def charge_def request_lease_def Let_def dict_simps
        lease_state_def call_deadline_def split: if_splits)
  have new: "qp_logical ?p = dset (cr_logical_id q) (lease_state (request_lease p q)) (qp_logical p)"
    by (simp add: admit_lease_def charge_def request_lease_def call_deadline_def lease_state_def Let_def)
  have state: "logical_ok (lease_state (request_lease p q))"
    using req deadline by (simp add: logical_ok_def lease_state_def request_lease_def Let_def)
  have others: "qp_provider_id ?p = qp_provider_id p" "qp_provider_limits ?p = qp_provider_limits p"
      "qp_global_limits ?p = qp_global_limits p" "qp_retry ?p = qp_retry p" "qp_now ?p = qp_now p"
      "qp_events ?p = qp_events p" "dict_ok (qp_active p) \<Longrightarrow> dict_ok (qp_active ?p)"
    by (simp_all add: admit_lease_def charge_def Let_def)
  have "quota_ok ?p"
    using ok buckets leases state others by (simp add: quota_ok_def new dict_simps)
  then show ?thesis by (simp add: admit_def Let_def quota_emit_ok)
qed

lemma settle_ok:
  assumes ok: "quota_ok p" and act: "dget (qp_active p) l = Some a" and "0 \<le> actual" "actual \<le> al_reserved_tokens a"
  shows "quota_ok (settle g l actual a p)"
proof -
  let ?p = "end_lease g l actual a p"
  note lease = leases_ok_active [OF ok act]
  have buckets: "buckets_ok ?p"
    using ok assms(4) refund_bucket_ok
    by (auto simp: quota_ok_def buckets_ok_def end_lease_def release_lease_def settlement_of_def)
  have leases: "leases_ok ?p"
    using ok act by (auto simp: quota_ok_def leases_ok_def end_lease_def release_lease_def dict_simps split: if_splits)
  from ok lease(3) have "logical_ok (lease_state (al_lease a))" by (auto simp: quota_ok_def)
  then have state: "logical_ok (set_retry retry (lease_state (al_lease a)))" for retry
    by (auto simp: logical_ok_def set_retry_def)
  have "quota_ok ?p"
    using ok buckets leases state
    by (auto simp: quota_ok_def end_lease_def release_lease_def dict_simps split: if_splits)
  then show ?thesis by (simp add: settle_def Let_def quota_emit_ok)
qed

theorem quota_effect_ok:
  assumes "quota_effect p p'" and ok: "quota_ok p"
  shows "quota_ok p'"
  using assms(1)
proof cases
  case (admit q retry_at)
  with quota_ok_refresh [OF ok] show ?thesis by (auto intro: admit_ok)
next
  case (settle l a actual g)
  with quota_ok_refresh [OF ok] show ?thesis by (auto intro: settle_ok)
qed (auto simp: refuse_def over_cap_def ok quota_ok_refresh intro!: quota_emit_ok)

end
