(* ===== verification/Quota_Audit.thy ===== *)
theory Quota_Audit
  imports Quota_Steps
begin

text \<open>
  The replay accepts the event of every effect and moves to the image of the new state; and an event it
  accepts is the event of some effect. Both are proved per kind of event.
\<close>

section \<open>Reading emitted details\<close>

definition emitted :: "quota_physics \<Rightarrow> string \<Rightarrow> details \<Rightarrow> quota_event" where
  "emitted p kind kvs =
     \<lparr>qe_sequence = int (length (qp_events p)), qe_at_ms = qp_now p, qe_kind = kind, qe_details = sort_key fst kvs\<rparr>"

lemma quota_emit_events: "qp_events (quota_emit kind kvs p) = qp_events p @ [emitted p kind kvs]"
  by (simp add: quota_emit_def emitted_def)

lemma emitted_selectors [simp]:
  "qe_sequence (emitted p kind kvs) = int (length (qp_events p))" "qe_at_ms (emitted p kind kvs) = qp_now p"
  "qe_kind (emitted p kind kvs) = kind" "qe_details (emitted p kind kvs) = sort_key fst kvs"
  by (simp_all add: emitted_def)

lemma has_keys_sorted: "map fst kvs = ks \<Longrightarrow> has_keys (sort_key fst kvs) ks"
  by (force simp: has_keys_def)

lemma dval_in: "distinct (map fst kvs) \<Longrightarrow> (k, v) \<in> set kvs \<Longrightarrow> dval kvs k = v"
  by (simp add: dval_def)

lemma opt_str_eq [simp]: "opt_str x = SStr s \<longleftrightarrow> x = Some s" "opt_str x = SNone \<longleftrightarrow> x = None"
  by (auto simp: opt_str_def split: option.splits)

lemma opt_int_eq [simp]: "opt_int x = opt_int y \<longleftrightarrow> x = y"
  by (auto simp: opt_int_def split: option.splits)

lemma int_or_none_opt [simp]: "int_or_none (opt_int x) = Some x"
  by (simp add: opt_int_def split: option.splits)

lemma int_or_none_Some: "int_or_none v = Some x \<longleftrightarrow> v = opt_int x"
  by (cases v) (auto simp: opt_int_def split: option.splits)

lemma quota_emit_selectors [simp]:
  "qp_provider_id (quota_emit k d p) = qp_provider_id p" "qp_provider_limits (quota_emit k d p) = qp_provider_limits p"
  "qp_global_limits (quota_emit k d p) = qp_global_limits p" "qp_now (quota_emit k d p) = qp_now p"
  "qp_retry (quota_emit k d p) = qp_retry p" "qp_provider_active (quota_emit k d p) = qp_provider_active p"
  "qp_global_active (quota_emit k d p) = qp_global_active p" "qp_reset_until_ms (quota_emit k d p) = qp_reset_until_ms p"
  "qp_logical (quota_emit k d p) = qp_logical p" "qp_active (quota_emit k d p) = qp_active p"
  "qp_admitted_ids (quota_emit k d p) = qp_admitted_ids p" "qp_provider_rpm (quota_emit k d p) = qp_provider_rpm p"
  "qp_provider_tpm (quota_emit k d p) = qp_provider_tpm p" "qp_global_rpm (quota_emit k d p) = qp_global_rpm p"
  "qp_global_tpm (quota_emit k d p) = qp_global_tpm p"
  by (simp_all add: quota_emit_def)

lemmas totals = admissions_def settlements_def refusals_def peak_def suppressed_def event_int_def

text \<open>The replayed state while an event of \<open>p\<close> is checked: its sequence number is already counted.\<close>

definition replay_at :: "int \<Rightarrow> quota_physics \<Rightarrow> quota_replay" where
  "replay_at epoch p = (replay_of epoch p)\<lparr>qr_sequence := int (length (qp_events p)) + 1\<rparr>"

lemma replay_at_selectors [simp]:
  "qr_config (replay_at epoch p) = config_of p epoch"
  "qr_provider_rpm (replay_at epoch p) = rb_of (qp_provider_rpm p)"
  "qr_provider_tpm (replay_at epoch p) = rb_of (qp_provider_tpm p)"
  "qr_global_rpm (replay_at epoch p) = rb_of (qp_global_rpm p)"
  "qr_global_tpm (replay_at epoch p) = rb_of (qp_global_tpm p)"
  "qr_active (replay_at epoch p) = dview lease_view (qp_active p)"
  "qr_logical (replay_at epoch p) = dview logical_view (qp_logical p)"
  "qr_admitted_ids (replay_at epoch p) = qp_admitted_ids p"
  "qr_provider_active (replay_at epoch p) = qp_provider_active p"
  "qr_global_active (replay_at epoch p) = qp_global_active p"
  "qr_reset_until (replay_at epoch p) = qp_reset_until_ms p"
  by (simp_all add: replay_at_def replay_of_def)

lemma config_of_selectors [simp]:
  "rc_provider_id (config_of p epoch) = qp_provider_id p"
  "rc_provider_concurrency (config_of p epoch) = ql_concurrency (qp_provider_limits p)"
  "rc_global_concurrency (config_of p epoch) = ql_concurrency (qp_global_limits p)"
  "rc_max_attempts (config_of p epoch) = rp_max_attempts (qp_retry p)"
  "rc_base_backoff (config_of p epoch) = rp_base_backoff_ms (qp_retry p)"
  "rc_max_backoff (config_of p epoch) = rp_max_backoff_ms (qp_retry p)"
  by (simp_all add: config_of_def)

lemma logical_view_selectors [simp]:
  "ro_attempt (logical_view s) = lg_last_attempt s" "ro_attempt_id (logical_view s) = lg_last_attempt_id s"
  "ro_deadline_ms (logical_view s) = lg_deadline_ms s" "ro_retryable (logical_view s) = lg_retryable s"
  "ro_next_retry_at_ms (logical_view s) = lg_next_retry_at_ms s" "ro_terminal (logical_view s) = lg_terminal s"
  by (simp_all add: logical_view_def)

lemma lease_view_selectors [simp]:
  "rl_logical_id (lease_view a) = lz_logical_id (al_lease a)" "rl_attempt (lease_view a) = lz_attempt (al_lease a)"
  "rl_attempt_id (lease_view a) = lz_attempt_id (al_lease a)" "rl_reserved_tokens (lease_view a) = al_reserved_tokens a"
  "rl_deadline_ms (lease_view a) = lz_deadline_ms (al_lease a)"
  "rl_provider_window_start_ms (lease_view a) = al_provider_window_start_ms a"
  "rl_global_window_start_ms (lease_view a) = al_global_window_start_ms a"
  by (simp_all add: lease_view_def)

lemma expect_snapshot_sorted:
  assumes "distinct (map fst (kvs @ current_pairs p))" and "expected_snapshot r = current_pairs p"
  shows "expect_snapshot (sort_key fst (kvs @ current_pairs p)) r = Inr r"
proof -
  have "dval (sort_key fst (kvs @ current_pairs p)) k = v" if "(k, v) \<in> set (current_pairs p)" for k v
    using that by (subst dval_sort_key [OF assms(1)]) (simp add: dval_in [OF assms(1)])
  then show ?thesis
    by (auto simp: expect_snapshot_def assms(2) list_ex_iff)
qed

lemma expect_snapshot_Inr:
  "expect_snapshot d r = Inr r' \<longleftrightarrow> r' = r \<and> (\<forall>(k, v) \<in> set (expected_snapshot r). dval d k = v)"
  by (force simp: expect_snapshot_def list_ex_iff)

lemma expected_snapshot_at [simp]: "expected_snapshot (replay_at epoch p) = current_pairs p"
  by (simp add: expected_snapshot_def current_pairs_def)

lemma expected_snapshot_counters [simp]:
  "expected_snapshot (r\<lparr>qr_reset_suppressed := n\<rparr>) = expected_snapshot r"
  by (simp add: expected_snapshot_def)

section \<open>The reasons agree\<close>

definition evidence_of :: "quota_physics \<Rightarrow> call_request \<Rightarrow> string \<Rightarrow> admission_evidence" where
  "evidence_of p q lease_id =
     \<lparr>ae_logical_id = cr_logical_id q, ae_attempt = cr_attempt q,
      ae_attempt_id = attempt_identity (qp_provider_id p) (cr_logical_id q) (cr_attempt q), ae_lease_id = lease_id,
      ae_tokens = cr_estimated_tokens q, ae_deadline = call_deadline p q, ae_requested_deadline = cr_deadline_ms q\<rparr>"

lemma evidence_of_selectors [simp]:
  "ae_logical_id (evidence_of p q l) = cr_logical_id q" "ae_attempt (evidence_of p q l) = cr_attempt q"
  "ae_attempt_id (evidence_of p q l) = attempt_identity (qp_provider_id p) (cr_logical_id q) (cr_attempt q)"
  "ae_lease_id (evidence_of p q l) = l" "ae_tokens (evidence_of p q l) = cr_estimated_tokens q"
  "ae_deadline (evidence_of p q l) = call_deadline p q"
  "ae_requested_deadline (evidence_of p q l) = cr_deadline_ms q"
  by (simp_all add: evidence_of_def)

lemma reasons_agree:
  "expected_reasons (replay_at epoch p) (qp_now p) (evidence_of p q l) (opt_str (cr_previous_attempt_id q))
     (call_deadline p q) = acquire_reasons p q"
proof -
  have "expected_identity_reasons (replay_at epoch p) (evidence_of p q l) (opt_str (cr_previous_attempt_id q)) = identity_reasons p q"
    by (simp add: expected_identity_reasons_def identity_reasons_def split: option.splits)
  moreover have "replay_backoff_pending (qp_now p) (cr_attempt q) (map_option logical_view s) = backoff_pending (qp_now p) (cr_attempt q) s" for s
    by (simp add: replay_backoff_pending_def backoff_pending_def split: option.splits)
  moreover have "expected_limit_reasons (replay_at epoch p) n = limit_reasons p n" for n
    by (simp add: expected_limit_reasons_def limit_reasons_def)
  ultimately show ?thesis by (simp add: expected_reasons_def acquire_reasons_def Let_def split: option.splits)
qed

section \<open>Refusals\<close>

lemma refusal_pairs_keys: "map fst (refused_details p q reasons t @ current_pairs p) = refusal_keys"
  by (simp add: refused_details_def current_pairs_def refusal_keys_def snapshot_keys_def)

lemma distinct_refusal_keys: "distinct refusal_keys"
  by (simp add: refusal_keys_def snapshot_keys_def)

lemma reason_text_reset:
  assumes "acquire_reasons p q = (reasons, t)" and "reasons \<noteq> []"
  shows "PROVIDER_RESET \<in> set reasons \<longleftrightarrow> reasons_text reasons = ''provider_reset''"
  using assms
  by (auto simp: acquire_reasons_def identity_reasons_def limit_reasons_def reasons_text_def Let_def
      split: option.splits if_splits)

lemma dispatch_refuse:
  assumes ok: "quota_ok p" and req: "request_error q = None" and rs: "acquire_reasons p q = (reasons, t)" "reasons \<noteq> []"
  shows "replay_dispatch (emitted p ''quota.admission_refused'' (refused_details p q reasons t @ current_pairs p))
      (replay_at epoch p) = Inr (replay_of epoch (refuse q reasons t p))"
proof -
  let ?kvs = "refused_details p q reasons t @ current_pairs p" and ?R = "replay_at epoch p"
  note req = request_error_None [OF req]
  have dist: "distinct (map fst ?kvs)" unfolding refusal_pairs_keys by (rule distinct_refusal_keys)
  note dv = dval_sort_key [OF dist]
  have vals: "dval ?kvs ''logical_id'' = SStr (cr_logical_id q)" "dval ?kvs ''attempt'' = SInt (cr_attempt q)"
      "dval ?kvs ''attempt_id'' = SStr (attempt_identity (qp_provider_id p) (cr_logical_id q) (cr_attempt q))"
      "dval ?kvs ''previous_attempt_id'' = opt_str (cr_previous_attempt_id q)"
      "dval ?kvs ''estimated_tokens'' = SInt (cr_estimated_tokens q)"
      "dval ?kvs ''deadline_ms'' = opt_int (call_deadline p q)"
      "dval ?kvs ''requested_deadline_ms'' = opt_int (cr_deadline_ms q)"
      "dval ?kvs ''reasons'' = SStr (reasons_text reasons)" "dval ?kvs ''retry_at_ms'' = opt_int t"
    by (simp_all add: refused_details_def dval_def)
  have read: "read_refusal (sort_key fst ?kvs) = Some (evidence_of p q [])"
    using req by (simp add: read_refusal_def dv vals evidence_of_def)
  have eff: "(case dget (qp_logical p) (cr_logical_id q) of None \<Rightarrow> cr_deadline_ms q | Some s \<Rightarrow> lg_deadline_ms s)
      = call_deadline p q"
    by (simp add: call_deadline_def split: option.splits)
  have snap: "expect_snapshot (sort_key fst ?kvs) r = Inr r" if "expected_snapshot r = current_pairs p" for r
    by (rule expect_snapshot_sorted [OF dist that])
  have prev: "cr_attempt q \<noteq> 0 \<Longrightarrow> nonblank_str (opt_str (cr_previous_attempt_id q))"
    using req by (auto simp: nonblank_str_def opt_str_def split: option.splits)
  have "replay_refused (qp_now p) (sort_key fst ?kvs) ?R =
      Inr ((if PROVIDER_RESET \<in> set reasons \<and> cr_attempt q > 0 then ?R\<lparr>qr_reset_suppressed := qr_reset_suppressed ?R + 1\<rparr>
            else ?R)\<lparr>qr_refused := qr_refused ?R + 1\<rparr>)"
    using req prev rs(2)
    by (simp add: replay_refused_def has_keys_sorted [OF refusal_pairs_keys] read dv vals eff reasons_agree rs(1) raising_def
        snap Let_def o_def cong: option.case_cong) (metis not_None_eq)
  also have "\<dots> = Inr (replay_of epoch (refuse q reasons t p))"
    using dv vals reason_text_reset [OF rs]
    by (simp add: replay_at_def replay_of_def refuse_def quota_emit_events config_of_def totals)
  finally show ?thesis by (simp add: replay_dispatch_def)
qed

text \<open>What an accepted refusal says, and the request that is refused this way.\<close>

definition request_of :: "details \<Rightarrow> admission_evidence \<Rightarrow> call_request" where
  "request_of d a =
     \<lparr>cr_logical_id = ae_logical_id a, cr_attempt = ae_attempt a, cr_estimated_tokens = ae_tokens a,
      cr_previous_attempt_id = (case dval d ''previous_attempt_id'' of SStr s \<Rightarrow> Some s | _ \<Rightarrow> None),
      cr_deadline_ms = ae_requested_deadline a\<rparr>"

lemma request_of_selectors [simp]:
  "cr_logical_id (request_of d a) = ae_logical_id a" "cr_attempt (request_of d a) = ae_attempt a"
  "cr_estimated_tokens (request_of d a) = ae_tokens a" "cr_deadline_ms (request_of d a) = ae_requested_deadline a"
  by (simp_all add: request_of_def)

lemma request_of_error:
  assumes "\<not> py_blank (ae_logical_id a)" and "0 \<le> ae_attempt a" and "0 < ae_tokens a" and "\<not> negative (ae_requested_deadline a)"
    and "if ae_attempt a = 0 then dval d ''previous_attempt_id'' = SNone else nonblank_str (dval d ''previous_attempt_id'')"
  shows "request_error (request_of d a) = None" and "opt_str (cr_previous_attempt_id (request_of d a)) = dval d ''previous_attempt_id''"
  using assms
  by (auto simp: request_error_def request_of_def nonblank_str_def negative_def opt_str_def split: scalar.splits option.splits if_splits)

lemma read_refusal_Some:
  "read_refusal d = Some a \<Longrightarrow>
     dval d ''logical_id'' = SStr (ae_logical_id a) \<and> dval d ''attempt'' = SInt (ae_attempt a)
     \<and> dval d ''attempt_id'' = SStr (ae_attempt_id a) \<and> dval d ''estimated_tokens'' = SInt (ae_tokens a)
     \<and> dval d ''deadline_ms'' = opt_int (ae_deadline a) \<and> dval d ''requested_deadline_ms'' = opt_int (ae_requested_deadline a)
     \<and> \<not> py_blank (ae_logical_id a) \<and> 0 \<le> ae_attempt a \<and> 0 < ae_tokens a \<and> \<not> negative (ae_requested_deadline a)
     \<and> ae_lease_id a = []"
  by (auto simp: read_refusal_def int_or_none_Some split: scalar.splits option.splits if_splits)

lemma raising_Inr [simp]: "raising m f = Inr y \<longleftrightarrow> (\<exists>x. m = Inr x \<and> f x = Inr y)"
  by (cases m) (simp_all add: raising_def)

lemma refused_is_effect:
  assumes acc: "replay_refused (qp_now p) (qe_details e) (replay_at epoch p) = Inr r"
    and ev: "event_error e = None" "qe_sequence e = int (length (qp_events p))" "qe_at_ms e = qp_now p"
      "qe_kind e = ''quota.admission_refused''"
  shows "\<exists>q reasons t. request_error q = None \<and> acquire_reasons p q = (reasons, t) \<and> reasons \<noteq> []
    \<and> qp_events (refuse q reasons t p) = qp_events p @ [e]"
proof -
  let ?d = "qe_details e" and ?R = "replay_at epoch p"
  from acc obtain a where a: "read_refusal ?d = Some a" and keys: "has_keys ?d refusal_keys"
    by (auto simp: replay_refused_def split: if_splits option.splits)
  define q where "q = request_of ?d a"
  obtain reasons t where rs: "expected_reasons ?R (qp_now p) a (dval ?d ''previous_attempt_id'') (call_deadline p q) = (reasons, t)"
    by fastforce
  have eff: "(case dget (qp_logical p) (ae_logical_id a) of None \<Rightarrow> ae_requested_deadline a | Some s \<Rightarrow> lg_deadline_ms s)
      = call_deadline p q"
    by (simp add: call_deadline_def q_def split: option.splits)
  note read = read_refusal_Some [OF a]
  from acc a keys rs have
    prev: "if ae_attempt a = 0 then dval ?d ''previous_attempt_id'' = SNone else nonblank_str (dval ?d ''previous_attempt_id'')"
    and id: "ae_attempt_id a = attempt_identity (qp_provider_id p) (ae_logical_id a) (ae_attempt a)"
    and dl: "ae_deadline a = call_deadline p q"
    and texts: "reasons \<noteq> []" "dval ?d ''reasons'' = SStr (reasons_text reasons)" "dval ?d ''retry_at_ms'' = opt_int t"
    and snap: "\<forall>(k, v) \<in> set (current_pairs p). dval ?d k = v"
    by (auto simp: replay_refused_def Let_def o_def eff expect_snapshot_Inr cong: option.case_cong split: if_splits)
  from read prev have req: "request_error q = None" and prev_q: "opt_str (cr_previous_attempt_id q) = dval ?d ''previous_attempt_id''"
    unfolding q_def by (auto intro!: request_of_error)
  have "a = evidence_of p q []"
    using read id dl by (simp add: evidence_of_def q_def)
  with rs reasons_agree [of epoch p q "[]"] have reasons: "acquire_reasons p q = (reasons, t)"
    by (simp add: prev_q [symmetric])
  have "qp_events (refuse q reasons t p) = qp_events p @ [e]"
    unfolding refuse_def
  proof (rule event_is_emitted [OF ev])
    show "distinct (map fst (refused_details p q reasons t @ current_pairs p))"
      unfolding refusal_pairs_keys by (rule distinct_refusal_keys)
    show "has_keys ?d (map fst (refused_details p q reasons t @ current_pairs p))"
      unfolding refusal_pairs_keys by (rule keys)
    fix k v assume "(k, v) \<in> set (refused_details p q reasons t @ current_pairs p)"
    then show "dval ?d k = v"
      using read id dl texts snap prev_q by (auto simp: refused_details_def q_def)
  qed
  with req reasons texts(1) show ?thesis by blast
qed

section \<open>Admissions\<close>

lemma rb_of_charge: "(rb_of b)\<lparr>rb_remaining := tb_remaining b - n\<rparr> = rb_of (charge_bucket n b)"
  by (simp add: rb_of_def charge_bucket_def)

lemma charge_bucket_selectors [simp]:
  "tb_remaining (charge_bucket n b) = tb_remaining b - n" "tb_last_refill_ms (charge_bucket n b) = tb_last_refill_ms b"
  "tb_capacity (charge_bucket n b) = tb_capacity b" "tb_refill_every_ms (charge_bucket n b) = tb_refill_every_ms b"
  by (simp_all add: charge_bucket_def)

definition after_admission :: "call_request \<Rightarrow> quota_physics \<Rightarrow> quota_physics" where
  "after_admission q p = admit_lease q (charge (cr_estimated_tokens q) p)"

lemma admit_eq:
  "admit q p = quota_emit ''quota.call_admitted'' (admitted_details p q @ current_pairs (after_admission q p)) (after_admission q p)"
  by (simp add: admit_def after_admission_def Let_def)

lemma after_admission_selectors [simp]:
  "qp_provider_id (after_admission q p) = qp_provider_id p" "qp_provider_limits (after_admission q p) = qp_provider_limits p"
  "qp_global_limits (after_admission q p) = qp_global_limits p" "qp_now (after_admission q p) = qp_now p"
  "qp_retry (after_admission q p) = qp_retry p" "qp_provider_active (after_admission q p) = qp_provider_active p + 1"
  "qp_global_active (after_admission q p) = qp_global_active p + 1"
  "qp_reset_until_ms (after_admission q p) = qp_reset_until_ms p" "qp_events (after_admission q p) = qp_events p"
  "qp_provider_rpm (after_admission q p) = charge_bucket 1 (qp_provider_rpm p)"
  "qp_provider_tpm (after_admission q p) = charge_bucket (cr_estimated_tokens q) (qp_provider_tpm p)"
  "qp_global_rpm (after_admission q p) = charge_bucket 1 (qp_global_rpm p)"
  "qp_global_tpm (after_admission q p) = charge_bucket (cr_estimated_tokens q) (qp_global_tpm p)"
  by (simp_all add: after_admission_def admit_lease_def charge_def Let_def)

lemma after_admission_dicts:
  "qp_logical (after_admission q p) = dset (cr_logical_id q) (lease_state (request_lease p q)) (qp_logical p)"
  "qp_admitted_ids (after_admission q p) = List.insert (lz_attempt_id (request_lease p q)) (qp_admitted_ids p)"
  "qp_active (after_admission q p) = dset (lz_lease_id (request_lease p q))
     \<lparr>al_lease = request_lease p q, al_reserved_tokens = cr_estimated_tokens q,
      al_provider_window_start_ms = tb_last_refill_ms (qp_provider_tpm p),
      al_global_window_start_ms = tb_last_refill_ms (qp_global_tpm p)\<rparr> (qp_active p)"
  by (simp_all add: after_admission_def admit_lease_def charge_def request_lease_def call_deadline_def lease_state_def
      Let_def)

lemma admission_pairs_keys: "map fst (admitted_details p q @ current_pairs p') = admission_keys"
  by (simp add: admitted_details_def current_pairs_def admission_keys_def snapshot_keys_def Let_def)

lemma distinct_admission_keys: "distinct admission_keys"
  by (simp add: admission_keys_def snapshot_keys_def)

lemma replay_admit_image:
  "replay_admit (evidence_of p q (lease_identity (attempt_identity (qp_provider_id p) (cr_logical_id q) (cr_attempt q))))
     (replay_at epoch p) = replay_of epoch (admit q p)"
proof -
  have lease: "lease_view \<lparr>al_lease = request_lease p q, al_reserved_tokens = n, al_provider_window_start_ms = s,
      al_global_window_start_ms = t\<rparr> = \<lparr>rl_logical_id = cr_logical_id q, rl_attempt = cr_attempt q,
      rl_attempt_id = attempt_identity (qp_provider_id p) (cr_logical_id q) (cr_attempt q), rl_reserved_tokens = n,
      rl_deadline_ms = call_deadline p q, rl_provider_window_start_ms = s, rl_global_window_start_ms = t\<rparr>" for n s t
    by (simp add: lease_view_def request_lease_def Let_def)
  have logical: "logical_view (lease_state (request_lease p q)) = \<lparr>ro_attempt = cr_attempt q,
      ro_attempt_id = attempt_identity (qp_provider_id p) (cr_logical_id q) (cr_attempt q),
      ro_deadline_ms = call_deadline p q, ro_retryable = False, ro_next_retry_at_ms = None, ro_terminal = False\<rparr>"
    by (simp add: logical_view_def lease_state_def request_lease_def Let_def)
  have ids: "lz_attempt_id (request_lease p q) = attempt_identity (qp_provider_id p) (cr_logical_id q) (cr_attempt q)"
      "lz_lease_id (request_lease p q) = lease_identity (attempt_identity (qp_provider_id p) (cr_logical_id q) (cr_attempt q))"
    by (simp_all add: request_lease_def Let_def)
  have dist: "distinct (map fst (admitted_details p q @ current_pairs (after_admission q p)))"
    unfolding admission_pairs_keys by (rule distinct_admission_keys)
  have peaks: "dval (admitted_details p q @ current_pairs (after_admission q p)) ''provider_active'' = SInt (qp_provider_active p + 1)"
      "dval (admitted_details p q @ current_pairs (after_admission q p)) ''global_active'' = SInt (qp_global_active p + 1)"
    by (simp_all add: admitted_details_def current_pairs_def dval_def Let_def)
  show ?thesis
    by (simp add: replay_admit_def Let_def replay_at_def replay_of_def admit_eq quota_emit_events config_of_def totals
        after_admission_dicts dset_dview [symmetric] lease logical ids rb_of_charge dval_sort_key [OF dist] peaks)
qed

lemma read_admission_Some:
  "read_admission d = Some a \<longleftrightarrow>
     dval d ''logical_id'' = SStr (ae_logical_id a) \<and> dval d ''attempt'' = SInt (ae_attempt a)
     \<and> dval d ''attempt_id'' = SStr (ae_attempt_id a) \<and> dval d ''lease_id'' = SStr (ae_lease_id a)
     \<and> dval d ''estimated_tokens'' = SInt (ae_tokens a)
     \<and> dval d ''deadline_ms'' = opt_int (ae_deadline a) \<and> dval d ''requested_deadline_ms'' = opt_int (ae_requested_deadline a)
     \<and> \<not> py_blank (ae_logical_id a) \<and> 0 \<le> ae_attempt a \<and> 0 < ae_tokens a \<and> \<not> negative (ae_requested_deadline a)
     \<and> \<not> negative (ae_deadline a)"
  by (cases a) (auto simp: read_admission_def int_or_none_Some split: scalar.splits option.splits if_splits)

lemma quota_ok_deadline:
  assumes "quota_ok p" and "\<not> negative (cr_deadline_ms q)"
  shows "\<not> negative (call_deadline p q)"
  using assms by (auto simp: call_deadline_def quota_ok_def logical_ok_def split: option.splits)

lemma identity_agrees:
  assumes "quota_ok p" and "request_error q = None" and "identity_reasons p q = []"
    and "backoff_pending (qp_now p) (cr_attempt q) (dget (qp_logical p) (cr_logical_id q)) = None"
  shows "replay_identity (replay_at epoch p) (qp_now p) (evidence_of p q l) (opt_str (cr_previous_attempt_id q)) = None"
proof (cases "cr_attempt q = 0")
  case True
  with assms request_error_None [OF assms(2)] show ?thesis
    by (simp add: replay_identity_def identity_clear call_deadline_def)
next
  case False
  with assms(3) obtain s where s: "dget (qp_logical p) (cr_logical_id q) = Some s" "cr_attempt q < rp_max_attempts (qp_retry p)"
      "\<not> lg_terminal s" "lg_retryable s" "cr_attempt q = lg_last_attempt s + 1"
      "cr_previous_attempt_id q = Some (lg_last_attempt_id s)" "cr_deadline_ms q = None \<or> cr_deadline_ms q = lg_deadline_ms s"
    by (auto simp: identity_clear)
  from assms(1) s(1) have "logical_ok s" by (auto simp: quota_ok_def)
  with s(4) obtain t where t: "lg_next_retry_at_ms s = Some t" by (auto simp: logical_ok_def)
  from request_error_None [OF assms(2)] s(6) have "nonblank_str (opt_str (Some (lg_last_attempt_id s)))"
    by (simp add: nonblank_str_def opt_str_def)
  moreover have "\<not> qp_now p < t"
    using False assms(4) s(1) t request_error_None [OF assms(2)] by (auto simp: backoff_pending_def split: if_splits)
  ultimately show ?thesis
    using False s t by (auto simp: replay_identity_def call_deadline_def)
qed

lemma dispatch_admit:
  assumes ok: "quota_ok p" and req: "request_error q = None" and rs: "acquire_reasons p q = ([], t)" and coll: "\<not> collides q p"
  shows "replay_dispatch (emitted (after_admission q p) ''quota.call_admitted'' (admitted_details p q @ current_pairs (after_admission q p)))
      (replay_at epoch p) = Inr (replay_of epoch (admit q p))"
proof -
  let ?p = "after_admission q p"
  let ?kvs = "admitted_details p q @ current_pairs ?p" and ?R = "replay_at epoch p"
  let ?a = "evidence_of p q (lease_identity (attempt_identity (qp_provider_id p) (cr_logical_id q) (cr_attempt q)))"
  note req' = request_error_None [OF req]
  have dist: "distinct (map fst ?kvs)" unfolding admission_pairs_keys by (rule distinct_admission_keys)
  note dv = dval_sort_key [OF dist]
  have prev: "dval ?kvs ''previous_attempt_id'' = opt_str (cr_previous_attempt_id q)"
    by (simp add: admitted_details_def dval_def Let_def)
  have read: "read_admission (sort_key fst ?kvs) = Some ?a"
    unfolding read_admission_Some dv using req' quota_ok_deadline [OF ok] by (simp add: admitted_details_def dval_def Let_def)
  from rs have clear: "identity_reasons p q = []" "\<not> deadline_passed (qp_now p) (call_deadline p q)"
      "qp_reset_until_ms p \<le> qp_now p"
      "backoff_pending (qp_now p) (cr_attempt q) (dget (qp_logical p) (cr_logical_id q)) = None"
      "limit_reasons p (cr_estimated_tokens q) = []"
    by (simp_all add: acquire_clear)
  have "expected_snapshot (replay_admit ?a ?R) = current_pairs ?p"
    unfolding replay_admit_image expected_snapshot_of admit_eq by (simp add: current_pairs_def)
  then have "expect_snapshot (sort_key fst ?kvs) (replay_admit ?a ?R) = Inr (replay_admit ?a ?R)"
    by (rule expect_snapshot_sorted [OF dist])
  note snap = this [unfolded replay_admit_image]
  have "replay_admitted (qp_now p) (sort_key fst ?kvs) ?R = Inr (replay_of epoch (admit q p))"
    using clear coll
    by (simp add: replay_admitted_def has_keys_sorted [OF admission_pairs_keys] read dv prev identity_agrees [OF ok req]
        snap replay_admit_image collides_def request_lease_def Let_def limit_reasons_clear not_less not_le)
  then show ?thesis by (simp add: replay_dispatch_def)
qed

lemma admitted_is_effect:
  assumes acc: "replay_admitted (qp_now p) (qe_details e) (replay_at epoch p) = Inr r"
    and ev: "event_error e = None" "qe_sequence e = int (length (qp_events p))" "qe_at_ms e = qp_now p"
      "qe_kind e = ''quota.call_admitted''"
  shows "\<exists>q t. request_error q = None \<and> acquire_reasons p q = ([], t) \<and> \<not> collides q p
    \<and> qp_events (admit q p) = qp_events p @ [e]"
proof -
  let ?d = "qe_details e" and ?R = "replay_at epoch p"
  from acc obtain a where a: "read_admission ?d = Some a" and keys: "has_keys ?d admission_keys"
    by (auto simp: replay_admitted_def split: if_splits option.splits)
  define q where "q = request_of ?d a"
  note read = iffD1 [OF read_admission_Some a]
  from acc a keys have
    id: "ae_attempt_id a = attempt_identity (qp_provider_id p) (ae_logical_id a) (ae_attempt a)"
      "ae_lease_id a = lease_identity (ae_attempt_id a)"
    and fresh: "ae_attempt_id a \<notin> set (qp_admitted_ids p)" "\<not> dmem (ae_lease_id a) (qp_active p)"
    and ident: "replay_identity ?R (qp_now p) a (dval ?d ''previous_attempt_id'') = None"
    and time: "qp_reset_until_ms p \<le> qp_now p" "\<not> deadline_passed (qp_now p) (ae_deadline a)"
    and lim: "limit_reasons p (ae_tokens a) = []"
    and snap: "\<forall>(k, v) \<in> set (expected_snapshot (replay_admit a ?R)). dval ?d k = v"
    by (auto simp: replay_admitted_def Let_def expect_snapshot_Inr limit_reasons_clear not_less not_le split: if_splits option.splits)
  from ident have prev: "if ae_attempt a = 0 then dval ?d ''previous_attempt_id'' = SNone else nonblank_str (dval ?d ''previous_attempt_id'')"
    by (auto simp: replay_identity_def Let_def split: if_splits option.splits)
  from read prev have req: "request_error q = None" and prev_q: "opt_str (cr_previous_attempt_id q) = dval ?d ''previous_attempt_id''"
    unfolding q_def by (auto intro!: request_of_error)
  from ident have dl: "ae_deadline a = call_deadline p q"
    by (auto simp: replay_identity_def call_deadline_def q_def Let_def split: if_splits option.splits)
  from ident [folded prev_q] have clear: "identity_reasons p q = []"
      "backoff_pending (qp_now p) (cr_attempt q) (dget (qp_logical p) (cr_logical_id q)) = None"
    using read by (auto simp: replay_identity_def identity_clear backoff_pending_def q_def Let_def split: if_splits option.splits)
  have a_eq: "a = evidence_of p q (lease_identity (attempt_identity (qp_provider_id p) (cr_logical_id q) (cr_attempt q)))"
    using read id dl by (simp add: evidence_of_def q_def)
  have rs: "acquire_reasons p q = ([], None)"
    using clear time lim dl by (simp add: acquire_clear q_def)
  have coll: "\<not> collides q p" using fresh id by (simp add: collides_def request_lease_def q_def Let_def)
  have pairs: "expected_snapshot (replay_admit a ?R) = current_pairs (after_admission q p)"
    unfolding a_eq replay_admit_image expected_snapshot_of admit_eq by (simp add: current_pairs_def)
  have "qp_events (admit q p) = qp_events (after_admission q p) @ [e]"
    unfolding admit_eq
  proof (rule event_is_emitted [OF ev(1)])
    show "distinct (map fst (admitted_details p q @ current_pairs (after_admission q p)))"
      unfolding admission_pairs_keys by (rule distinct_admission_keys)
    show "has_keys ?d (map fst (admitted_details p q @ current_pairs (after_admission q p)))"
      unfolding admission_pairs_keys by (rule keys)
    fix k v assume "(k, v) \<in> set (admitted_details p q @ current_pairs (after_admission q p))"
    then show "dval ?d k = v"
      using read id dl snap pairs prev_q by (auto simp: admitted_details_def q_def Let_def)
  qed (use ev in simp_all)
  with req rs coll show ?thesis by auto
qed

end
