(* ===== verification/Quota_Settle.thy ===== *)
theory Quota_Settle
  imports Quota_Audit
begin

text \<open>
  The replay of settlements, accepted and refused, and the result: the quota kernel satisfies the contract
  \<open>sound_auditor\<close> with its replay.
\<close>

section \<open>Refused settlements\<close>

lemma over_cap_pairs_keys: "map fst (settlement_refused_details l actual a @ current_pairs p) = settlement_refusal_keys"
  by (simp add: settlement_refused_details_def current_pairs_def settlement_refusal_keys_def snapshot_keys_def)

lemma distinct_over_cap_keys: "distinct settlement_refusal_keys"
  by (simp add: settlement_refusal_keys_def snapshot_keys_def)

lemma named_lease_Some:
  "named_lease (replay_at epoch p) d = Some (l, lease, actual) \<longleftrightarrow>
     (\<exists>a. dval d ''lease_id'' = SStr l \<and> dval d ''actual_tokens'' = SInt actual \<and> dget (qp_active p) l = Some a
        \<and> lease = lease_view a)"
  by (auto simp: named_lease_def split: scalar.splits option.splits)

lemma dispatch_over_cap:
  assumes act: "dget (qp_active p) l = Some a" and "al_reserved_tokens a < actual"
  shows "replay_dispatch (emitted p ''quota.settlement_refused'' (settlement_refused_details l actual a @ current_pairs p))
      (replay_at epoch p) = Inr (replay_of epoch (over_cap l actual a p))"
proof -
  let ?kvs = "settlement_refused_details l actual a @ current_pairs p"
  have dist: "distinct (map fst ?kvs)" unfolding over_cap_pairs_keys by (rule distinct_over_cap_keys)
  note dv = dval_sort_key [OF dist]
  have vals: "dval ?kvs ''lease_id'' = SStr l" "dval ?kvs ''actual_tokens'' = SInt actual"
      "dval ?kvs ''token_cap'' = SInt (al_reserved_tokens a)"
      "dval ?kvs ''reason'' = SStr ''actual_tokens_exceed_admitted_cap''"
      "lease_matches (sort_key fst ?kvs) (lease_view a)"
    unfolding lease_matches_def dv by (simp_all add: settlement_refused_details_def dval_def)
  have "named_lease (replay_at epoch p) (sort_key fst ?kvs) = Some (l, lease_view a, actual)"
    using act by (simp add: named_lease_Some dv vals)
  then have "replay_settlement_refused (sort_key fst ?kvs) (replay_at epoch p) = Inr (replay_at epoch p)"
    using assms(2) by (simp add: replay_settlement_refused_def has_keys_sorted [OF over_cap_pairs_keys] dv vals
        expect_snapshot_sorted [OF dist])
  moreover have "replay_at epoch p = replay_of epoch (over_cap l actual a p)"
    by (simp add: replay_at_def replay_of_def over_cap_def quota_emit_events config_of_def totals)
  ultimately show ?thesis by (simp add: replay_dispatch_def)
qed

lemma over_cap_is_effect:
  assumes acc: "replay_settlement_refused (qe_details e) (replay_at epoch p) = Inr r"
    and ev: "event_error e = None" "qe_sequence e = int (length (qp_events p))" "qe_at_ms e = qp_now p"
      "qe_kind e = ''quota.settlement_refused''"
  shows "\<exists>l a actual. dget (qp_active p) l = Some a \<and> al_reserved_tokens a < actual
    \<and> qp_events (over_cap l actual a p) = qp_events p @ [e]"
proof -
  let ?d = "qe_details e"
  from acc obtain l a actual where named: "dval ?d ''lease_id'' = SStr l" "dval ?d ''actual_tokens'' = SInt actual"
      "dget (qp_active p) l = Some a"
    and checks: "al_reserved_tokens a < actual" "lease_matches ?d (lease_view a)"
      "dval ?d ''token_cap'' = SInt (al_reserved_tokens a)" "dval ?d ''reason'' = SStr ''actual_tokens_exceed_admitted_cap''"
    and keys: "has_keys ?d settlement_refusal_keys"
    and snap: "\<forall>(k, v) \<in> set (current_pairs p). dval ?d k = v"
    by (auto simp: replay_settlement_refused_def named_lease_Some expect_snapshot_Inr split: if_splits option.splits)
  have "qp_events (over_cap l actual a p) = qp_events p @ [e]"
    unfolding over_cap_def
  proof (rule event_is_emitted [OF ev])
    show "distinct (map fst (settlement_refused_details l actual a @ current_pairs p))"
      unfolding over_cap_pairs_keys by (rule distinct_over_cap_keys)
    show "has_keys ?d (map fst (settlement_refused_details l actual a @ current_pairs p))"
      unfolding over_cap_pairs_keys by (rule keys)
    fix k v assume "(k, v) \<in> set (settlement_refused_details l actual a @ current_pairs p)"
    then show "dval ?d k = v"
      using named checks snap by (auto simp: settlement_refused_details_def lease_matches_def)
  qed
  with named checks show ?thesis by blast
qed

section \<open>Settlements\<close>

text \<open>The pairs of a settlement event, their keys and the values the replay reads.\<close>

definition settle_pairs :: "ending \<Rightarrow> string \<Rightarrow> int \<Rightarrow> active_lease \<Rightarrow> quota_physics \<Rightarrow> details" where
  "settle_pairs g l actual a p =
     settlement_details l actual (settlement_of actual a p) @ ending_details g a p
     @ current_pairs (end_lease g l actual a p)"

lemma settle_eq:
  "settle g l actual a p = quota_emit (ending_kind g) (settle_pairs g l actual a p) (end_lease g l actual a p)"
  by (simp add: settle_def settle_pairs_def Let_def)

fun ending_keys :: "ending \<Rightarrow> string list" where
  "ending_keys Succeeded = settlement_base_keys"
| "ending_keys Failed = settlement_base_keys @ [''next_retry_at_ms'', ''retry_exhausted'']"
| "ending_keys (Throttled u) = settlement_base_keys @ [''reset_at_ms'', ''next_retry_at_ms'', ''retry_exhausted'']"

lemma settle_pairs_distinct: "distinct (map fst (settle_pairs g l actual a p))"
  by (cases g) (simp_all add: settle_pairs_def settlement_details_def ending_details_def current_pairs_def Let_def)

lemma settle_pairs_keys: "set (map fst (settle_pairs g l actual a p)) = set (ending_keys g)"
  by (cases g) (auto simp: settle_pairs_def settlement_details_def ending_details_def current_pairs_def Let_def
      settlement_base_keys_def snapshot_keys_def)

definition outcome_of :: "ending \<Rightarrow> string" where
  "outcome_of g = (case g of Succeeded \<Rightarrow> ''success'' | Failed \<Rightarrow> ''retryable_failure'' | Throttled u \<Rightarrow> ''provider_429'')"

lemma settle_pairs_vals:
  "dval (settle_pairs g l actual a p) ''lease_id'' = SStr l"
  "dval (settle_pairs g l actual a p) ''attempt_id'' = SStr (lz_attempt_id (al_lease a))"
  "dval (settle_pairs g l actual a p) ''logical_id'' = SStr (lz_logical_id (al_lease a))"
  "dval (settle_pairs g l actual a p) ''attempt'' = SInt (lz_attempt (al_lease a))"
  "dval (settle_pairs g l actual a p) ''reserved_tokens'' = SInt (al_reserved_tokens a)"
  "dval (settle_pairs g l actual a p) ''actual_tokens'' = SInt actual"
  "dval (settle_pairs g l actual a p) ''unused_tokens'' = SInt (al_reserved_tokens a - actual)"
  "dval (settle_pairs g l actual a p) ''provider_refunded_tokens'' = SInt (sl_provider_refunded (settlement_of actual a p))"
  "dval (settle_pairs g l actual a p) ''global_refunded_tokens'' = SInt (sl_global_refunded (settlement_of actual a p))"
  "dval (settle_pairs g l actual a p) ''outcome'' = SStr (outcome_of g)"
  by (cases g; simp add: settle_pairs_def settlement_details_def ending_details_def dval_def Let_def settlement_of_def outcome_of_def)+

lemma settle_pairs_retry:
  "g \<noteq> Succeeded \<Longrightarrow> dval (settle_pairs g l actual a p) ''next_retry_at_ms'' = opt_int (retry_after_ending g a p)"
  "g \<noteq> Succeeded \<Longrightarrow> dval (settle_pairs g l actual a p) ''retry_exhausted'' = SBool (retry_after_ending g a p = None)"
  "dval (settle_pairs (Throttled u) l actual a p) ''reset_at_ms'' = SInt (reset_after_ending (Throttled u) p)"
  by (cases g; simp add: settle_pairs_def settlement_details_def ending_details_def dval_def Let_def)+

lemma replay_refund_rb_of [simp]: "replay_refund unused start (rb_of b) = refund unused start b"
  by (simp add: replay_refund_def refund_def eq_commute)

lemma expected_retry_eq:
  assumes "qr_config r = config_of p epoch"
  shows "expected_retry r (qp_now p) (lease_view a) None = retry_after_ending Failed a p"
    and "expected_retry r (qp_now p) (lease_view a) (Some (reset_after_ending (Throttled u) p)) = retry_after_ending (Throttled u) a p"
  using assms
  by (auto simp: expected_retry_def retry_after_ending_def replay_backoff_def backoff_ms_def deadline_passed_def Let_def
      reset_after_ending_def split: option.splits)

text \<open>The replay's state after it has released the lease and set the logical call.\<close>

definition replay_ended :: "ending \<Rightarrow> string \<Rightarrow> int \<Rightarrow> active_lease \<Rightarrow> quota_physics \<Rightarrow> quota_replay \<Rightarrow> quota_replay" where
  "replay_ended g l actual a p r =
     (let r = (release_replay_lease l (sl_provider_refunded (settlement_of actual a p))
                (sl_global_refunded (settlement_of actual a p)) r)\<lparr>qr_reset_until := reset_after_ending g p\<rparr>
      in r\<lparr>qr_logical := dset (lz_logical_id (al_lease a))
             ((logical_view (lease_state (al_lease a)))
                \<lparr>ro_retryable := retry_after_ending g a p \<noteq> None, ro_next_retry_at_ms := retry_after_ending g a p,
                 ro_terminal := retry_after_ending g a p = None\<rparr>) (qr_logical r),
           qr_actual_total := qr_actual_total r + actual, qr_settled := qr_settled r + 1\<rparr>)"

lemma rb_of_refund: "(rb_of b)\<lparr>rb_remaining := tb_remaining b + n\<rparr> = rb_of (charge_bucket (- n) b)"
  by (simp add: rb_of_def charge_bucket_def)

lemma end_lease_selectors [simp]:
  "qp_provider_id (end_lease g l actual a p) = qp_provider_id p"
  "qp_provider_limits (end_lease g l actual a p) = qp_provider_limits p"
  "qp_global_limits (end_lease g l actual a p) = qp_global_limits p" "qp_now (end_lease g l actual a p) = qp_now p"
  "qp_retry (end_lease g l actual a p) = qp_retry p" "qp_events (end_lease g l actual a p) = qp_events p"
  "qp_provider_rpm (end_lease g l actual a p) = qp_provider_rpm p"
  "qp_global_rpm (end_lease g l actual a p) = qp_global_rpm p"
  "qp_admitted_ids (end_lease g l actual a p) = qp_admitted_ids p"
  "qp_provider_active (end_lease g l actual a p) = qp_provider_active p - 1"
  "qp_global_active (end_lease g l actual a p) = qp_global_active p - 1"
  "qp_reset_until_ms (end_lease g l actual a p) = reset_after_ending g p"
  by (simp_all add: end_lease_def release_lease_def)

lemma replay_ended_image:
  "replay_ended g l actual a p (replay_at epoch p) = replay_of epoch (settle g l actual a p)"
proof -
  have logical: "(logical_view (lease_state (al_lease a)))
      \<lparr>ro_retryable := \<exists>y. retry = Some y, ro_next_retry_at_ms := retry, ro_terminal := retry = None\<rparr>
      = logical_view (set_retry retry (lease_state (al_lease a)))" for retry
    by (simp add: logical_view_def set_retry_def)
  have kind: "ending_kind g \<in> set [''quota.call_settled'', ''quota.provider_429'']" by (simp add: ending_kind_def split: ending.splits)
  have others: "ending_kind g \<noteq> ''quota.call_admitted''" "ending_kind g \<noteq> ''quota.admission_refused''"
    by (simp_all add: ending_kind_def split: ending.splits)
  have amount: "event_int ''actual_tokens'' (emitted (end_lease g l actual a p) (ending_kind g) (settle_pairs g l actual a p)) = actual"
    by (simp add: event_int_def dval_sort_key [OF settle_pairs_distinct] settle_pairs_vals)
  show ?thesis
    using kind others
    by (simp add: replay_ended_def release_replay_lease_def Let_def replay_at_def replay_of_def settle_eq quota_emit_events
        config_of_def admissions_def settlements_def refusals_def peak_def amount logical rb_of_refund)
      (simp add: end_lease_def release_lease_def dset_dview ddel_dview logical)
qed

lemma dispatch_settle:
  assumes ok: "quota_ok p" and act: "dget (qp_active p) l = Some a" and amount: "0 \<le> actual" "actual \<le> al_reserved_tokens a"
    and g: "ending_ok g (qp_now p)"
  shows "replay_dispatch (emitted (end_lease g l actual a p) (ending_kind g) (settle_pairs g l actual a p)) (replay_at epoch p)
    = Inr (replay_of epoch (settle g l actual a p))"
proof -
  let ?kvs = "settle_pairs g l actual a p" and ?R = "replay_at epoch p"
  let ?d = "sort_key fst ?kvs"
  let ?r1 = "release_replay_lease l (sl_provider_refunded (settlement_of actual a p)) (sl_global_refunded (settlement_of actual a p)) ?R"
  note dv = dval_sort_key [OF settle_pairs_distinct]
  note vals = settle_pairs_vals settle_pairs_retry
  have keys: "settlement_keys (ending_kind g) (SStr (outcome_of g)) = Inr (ending_keys g)"
    by (cases g) (simp_all add: settlement_keys_def ending_kind_def outcome_of_def)
  have has: "has_keys ?d (ending_keys g)"
    using settle_pairs_keys [of g l actual a p] by (force simp: has_keys_def)
  have named: "named_lease ?R ?d = Some (l, lease_view a, actual)"
    using act by (simp add: named_lease_Some dv vals)
  have lease: "lease_matches ?d (lease_view a)" by (simp add: lease_matches_def dv vals)
  have cfg: "qr_config (?r1\<lparr>qr_reset_until := u\<rparr>) = config_of p epoch" "qr_config ?r1 = config_of p epoch" for u
    by (simp_all add: release_replay_lease_def Let_def)
  have r1_reset: "qr_reset_until ?r1 = qp_reset_until_ms p" by (simp add: release_replay_lease_def Let_def)
  have same: "?r1\<lparr>qr_reset_until := qp_reset_until_ms p\<rparr> = ?r1"
    by (rule quota_replay.equality) (simp_all add: r1_reset)
  have retry: "replay_retry (qp_now p) (ending_kind g) ?d (lease_view a) ?r1
      = Inr (retry_after_ending g a p, ?r1\<lparr>qr_reset_until := reset_after_ending g p\<rparr>)"
  proof (cases g)
    case Succeeded
    then show ?thesis
      by (simp add: replay_retry_def ending_kind_def dv vals outcome_of_def reset_after_ending_def same retry_after_ending_def Let_def)
  next
    case Failed
    then show ?thesis
      by (simp add: replay_retry_def ending_kind_def dv vals outcome_of_def reset_after_ending_def same
          expected_retry_eq(1) [OF cfg(2)] Let_def)
  next
    case (Throttled u)
    with g have "qp_now p < reset_after_ending (Throttled u) p" "qp_reset_until_ms p \<le> reset_after_ending (Throttled u) p"
      by (auto simp: reset_after_ending_def ending_ok_def)
    with Throttled show ?thesis
      by (simp add: replay_retry_def ending_kind_def dv vals r1_reset expected_retry_eq(2) [OF cfg(1)] Let_def)
  qed
  have "expected_snapshot (replay_ended g l actual a p ?R) = current_pairs (end_lease g l actual a p)"
    unfolding replay_ended_image expected_snapshot_of settle_eq by (simp add: current_pairs_def)
  then have "expect_snapshot ?d (replay_ended g l actual a p ?R) = Inr (replay_ended g l actual a p ?R)"
    using settle_pairs_distinct [of g l actual a p]
    by (subst settle_pairs_def, subst append_assoc [symmetric], intro expect_snapshot_sorted) (simp_all add: settle_pairs_def)
  then have snap: "expect_snapshot ?d (?r1\<lparr>qr_reset_until := reset_after_ending g p,
      qr_logical := dset (lz_logical_id (al_lease a))
        ((logical_view (lease_state (al_lease a)))\<lparr>ro_retryable := retry_after_ending g a p \<noteq> None,
          ro_next_retry_at_ms := retry_after_ending g a p, ro_terminal := retry_after_ending g a p = None\<rparr>)
        (qr_logical (?r1\<lparr>qr_reset_until := reset_after_ending g p\<rparr>)),
      qr_actual_total := qr_actual_total (?r1\<lparr>qr_reset_until := reset_after_ending g p\<rparr>) + actual,
      qr_settled := qr_settled (?r1\<lparr>qr_reset_until := reset_after_ending g p\<rparr>) + 1\<rparr>)
    = Inr (replay_ended g l actual a p ?R)"
    by (simp add: replay_ended_def Let_def)
  have fold: "refund (al_reserved_tokens a - actual) (al_provider_window_start_ms a) (qp_provider_tpm p)
        = sl_provider_refunded (settlement_of actual a p)"
      "refund (al_reserved_tokens a - actual) (al_global_window_start_ms a) (qp_global_tpm p)
        = sl_global_refunded (settlement_of actual a p)"
    by (simp_all add: settlement_of_def)
  have "replay_settled (qp_now p) (ending_kind g) ?d ?R = Inr (replay_ended g l actual a p ?R)"
    using amount snap
    by (simp add: replay_settled_def dv vals keys has named lease retry fold Let_def raising_def leases_ok_active(3) [OF ok act])
  moreover have "ending_kind g = ''quota.call_settled'' \<or> ending_kind g = ''quota.provider_429''" "ending_kind g \<noteq> ''quota.call_admitted''"
    by (auto simp: ending_kind_def split: ending.splits)
  ultimately show ?thesis by (simp add: replay_dispatch_def replay_ended_image)
qed

lemma settled_is_effect:
  assumes acc: "replay_settled (qp_now p) (qe_kind e) (qe_details e) (replay_at epoch p) = Inr r"
    and ok: "quota_ok p"
    and ev: "event_error e = None" "qe_sequence e = int (length (qp_events p))" "qe_at_ms e = qp_now p"
      "qe_kind e = ''quota.call_settled'' \<or> qe_kind e = ''quota.provider_429''"
  shows "\<exists>l a actual g. dget (qp_active p) l = Some a \<and> 0 \<le> actual \<and> actual \<le> al_reserved_tokens a
    \<and> ending_ok g (qp_now p) \<and> qp_events (settle g l actual a p) = qp_events p @ [e]"
proof -
  let ?d = "qe_details e" and ?R = "replay_at epoch p" and ?k = "qe_kind e"
  from acc obtain l a actual ks where named: "dval ?d ''lease_id'' = SStr l" "dval ?d ''actual_tokens'' = SInt actual"
      and act: "dget (qp_active p) l = Some a"
    and keys: "settlement_keys ?k (dval ?d ''outcome'') = Inr ks" "has_keys ?d ks"
    by (auto simp: replay_settled_def named_lease_Some split: if_splits option.splits sum.splits)
  let ?s = "settlement_of actual a p"
  let ?r1 = "release_replay_lease l (sl_provider_refunded ?s) (sl_global_refunded ?s) ?R"
  have fold: "refund (al_reserved_tokens a - actual) (al_provider_window_start_ms a) (qp_provider_tpm p) = sl_provider_refunded ?s"
      "refund (al_reserved_tokens a - actual) (al_global_window_start_ms a) (qp_global_tpm p) = sl_global_refunded ?s"
    by (simp_all add: settlement_of_def)
  have named': "named_lease ?R ?d = Some (l, lease_view a, actual)" using named act by (simp add: named_lease_Some)
  have r1: "qr_config ?r1 = config_of p epoch" "qr_reset_until ?r1 = qp_reset_until_ms p" "qr_logical ?r1 = qr_logical ?R"
    by (simp_all add: release_replay_lease_def Let_def)
  from acc keys named' leases_ok_active(3) [OF ok act] obtain retry r2 where
    lease: "lease_matches ?d (lease_view a)"
    and amounts: "dval ?d ''reserved_tokens'' = SInt (al_reserved_tokens a)" "0 \<le> actual" "actual \<le> al_reserved_tokens a"
      "dval ?d ''unused_tokens'' = SInt (al_reserved_tokens a - actual)"
      "dval ?d ''provider_refunded_tokens'' = SInt (sl_provider_refunded ?s)"
      "dval ?d ''global_refunded_tokens'' = SInt (sl_global_refunded ?s)"
    and retry: "replay_retry (qp_now p) ?k ?d (lease_view a) ?r1 = Inr (retry, r2)"
    and snap: "\<forall>(k, v) \<in> set (expected_snapshot (r2\<lparr>qr_logical := dset (lz_logical_id (al_lease a))
        ((logical_view (lease_state (al_lease a)))\<lparr>ro_retryable := retry \<noteq> None, ro_next_retry_at_ms := retry,
           ro_terminal := retry = None\<rparr>) (qr_logical r2),
        qr_actual_total := qr_actual_total r2 + actual, qr_settled := qr_settled r2 + 1\<rparr>)). dval ?d k = v"
    by (auto simp: replay_settled_def fold Let_def expect_snapshot_Inr not_less split: if_splits)
  obtain g where g: "ending_kind g = ?k" "dval ?d ''outcome'' = SStr (outcome_of g)" "ks = ending_keys g" "ending_ok g (qp_now p)"
    "retry = retry_after_ending g a p" "r2 = ?r1\<lparr>qr_reset_until := reset_after_ending g p\<rparr>"
    "g \<noteq> Succeeded \<Longrightarrow> dval ?d ''next_retry_at_ms'' = opt_int retry \<and> dval ?d ''retry_exhausted'' = SBool (retry = None)"
    "\<And>u. g = Throttled u \<Longrightarrow> dval ?d ''reset_at_ms'' = SInt (reset_after_ending g p)"
  proof -
    have same: "?r1\<lparr>qr_reset_until := qp_reset_until_ms p\<rparr> = ?r1"
      by (rule quota_replay.equality) (simp_all add: r1)
    consider (throttled) "?k = ''quota.provider_429''" | (failed) "?k = ''quota.call_settled''" "dval ?d ''outcome'' = SStr ''retryable_failure''"
      | (succeeded) "?k = ''quota.call_settled''" "dval ?d ''outcome'' = SStr ''success''"
      using ev(4) keys(1) by (auto simp: settlement_keys_def split: if_splits)
    then show thesis
    proof cases
      case throttled
      with retry obtain u where u: "dval ?d ''reset_at_ms'' = SInt u" "qp_now p < u" "qp_reset_until_ms p \<le> u"
        by (auto simp: replay_retry_def r1 Let_def split: scalar.splits if_splits)
      have reset: "reset_after_ending (Throttled u) p = u" using u by (simp add: reset_after_ending_def)
      have cfg: "qr_config (?r1\<lparr>qr_reset_until := u\<rparr>) = config_of p epoch" by (simp add: r1)
      note exp = expected_retry_eq(2) [OF cfg, where u = u and a = a, unfolded reset]
      show thesis
      proof (rule that [of "Throttled u"])
        show "ending_kind (Throttled u) = ?k" using throttled by (simp add: ending_kind_def)
      qed (use throttled keys(1) u retry in \<open>auto simp: reset exp replay_retry_def r1 Let_def ending_ok_def outcome_of_def
          settlement_keys_def split: if_splits\<close>)
    next
      case failed
      show thesis
      proof (rule that [of Failed])
        show "ending_kind Failed = ?k" using failed by (simp add: ending_kind_def)
      qed (use failed keys(1) retry in \<open>auto simp: expected_retry_eq(1) [OF r1(1)] replay_retry_def same reset_after_ending_def Let_def
          ending_ok_def outcome_of_def settlement_keys_def split: if_splits\<close>)
    next
      case succeeded
      show thesis
      proof (rule that [of Succeeded])
        show "ending_kind Succeeded = ?k" using succeeded by (simp add: ending_kind_def)
      qed (use succeeded keys(1) retry in \<open>auto simp: replay_retry_def same reset_after_ending_def retry_after_ending_def Let_def
          ending_ok_def outcome_of_def settlement_keys_def split: if_splits\<close>)
    qed
  qed
  have "expected_snapshot (replay_ended g l actual a p ?R) = current_pairs (end_lease g l actual a p)"
    unfolding replay_ended_image expected_snapshot_of settle_eq by (simp add: current_pairs_def)
  with snap g(5,6) have snap': "\<forall>(k, v) \<in> set (current_pairs (end_lease g l actual a p)). dval ?d k = v"
    by (simp add: replay_ended_def Let_def)
  have "qp_events (settle g l actual a p) = qp_events (end_lease g l actual a p) @ [e]"
    unfolding settle_eq
  proof (rule event_is_emitted [OF ev(1)])
    show "distinct (map fst (settle_pairs g l actual a p))" by (rule settle_pairs_distinct)
    show "has_keys ?d (map fst (settle_pairs g l actual a p))"
      using keys(2) g(3) settle_pairs_keys [of g l actual a p] by (simp add: has_keys_def)
    fix k v assume "(k, v) \<in> set (settle_pairs g l actual a p)"
    then consider "(k, v) \<in> set (settlement_details l actual ?s)" | "(k, v) \<in> set (ending_details g a p)"
      | "(k, v) \<in> set (current_pairs (end_lease g l actual a p))"
      by (auto simp: settle_pairs_def)
    then show "dval ?d k = v"
    proof cases
      case 1
      then show ?thesis using named lease amounts
        by (auto simp: settlement_details_def lease_matches_def Let_def settlement_of_def [of actual a p])
    next
      case 2
      then show ?thesis using g(2,5,7,8)
        by (cases g) (auto simp: ending_details_def outcome_of_def Let_def)
    next
      case 3
      with snap' show ?thesis by auto
    qed
  qed (use ev g(1) in simp_all)
  with act amounts(2,3) g(4) show ?thesis by auto
qed

end
