(* ===== verification/Quota_Lift.thy ===== *)
theory Quota_Lift
  imports Quota_Settle
begin

text \<open>
  The quota kernel under the contract \<open>sound_auditor\<close>: its steps keep the invariant, the replay follows
  them, and accepts only what they emit.
\<close>

section \<open>One step\<close>

lemma all_fresh_emit [simp]: "all_fresh (quota_emit k d p) = all_fresh p"
  by (simp add: all_fresh_def)

lemma quota_step_sim:
  assumes ok: "quota_ok p" and sim: "quota_sim epoch p r"
    and e: "qe_sequence e = int (length (qp_events p))" "qe_at_ms e = qp_now p"
  shows "quota_replay_step r e = replay_dispatch e (replay_at epoch (quota_refresh p))"
proof -
  let ?now = "qp_now p"
  from sim have time: "qr_previous_time r \<le> ?now"
    and image: "replay_refresh_all ?now (r\<lparr>qr_previous_time := ?now\<rparr>) = replay_of epoch (quota_refresh p)"
    by (simp_all add: quota_sim_def)
  from image have "qr_sequence (replay_refresh_all ?now (r\<lparr>qr_previous_time := ?now\<rparr>)) = int (length (qp_events p))"
    by (simp add: replay_of_def)
  then have seq: "qr_sequence r = int (length (qp_events p))" by (simp add: replay_refresh_all_def)
  have "replay_refresh_all ?now (r\<lparr>qr_previous_time := ?now, qr_sequence := n\<rparr>)
      = (replay_refresh_all ?now (r\<lparr>qr_previous_time := ?now\<rparr>))\<lparr>qr_sequence := n\<rparr>" for n
    by (intro quota_replay.equality) (simp_all add: replay_refresh_all_def)
  with image have "replay_refresh_all ?now (r\<lparr>qr_previous_time := ?now, qr_sequence := int (length (qp_events p)) + 1\<rparr>)
      = replay_at epoch (quota_refresh p)" by (simp add: replay_at_def)
  with e seq time ok show ?thesis by (simp add: quota_replay_step_def Let_def quota_ok_def)
qed

lemma effect_emits:
  assumes "quota_effect p p'" and ok: "quota_ok p"
  shows "(qp_events p' = qp_events p \<and> quota_refresh p' = quota_refresh p \<and> qp_now p' = qp_now p)
    \<or> (\<exists>e. qp_events p' = qp_events p @ [e] \<and> qe_sequence e = int (length (qp_events p)) \<and> qe_at_ms e = qp_now p
        \<and> all_fresh p' \<and> qp_now p' = qp_now p
        \<and> (\<forall>epoch. replay_dispatch e (replay_at epoch (quota_refresh p)) = Inr (replay_of epoch p')))"
proof -
  let ?p = "quota_refresh p"
  note fresh = quota_ok_fresh [OF ok] and okr = quota_ok_refresh [OF ok]
  from assms(1) show ?thesis
  proof cases
    case observe
    then show ?thesis by (simp add: quota_refresh_fresh [OF fresh])
  next
    case (refuse q reasons retry_at)
    let ?e = "emitted ?p ''quota.admission_refused'' (refused_details ?p q reasons retry_at @ current_pairs ?p)"
    show ?thesis
      unfolding refuse(1)
      by (rule disjI2, rule exI [of _ ?e])
        (simp add: fresh dispatch_refuse [OF okr refuse(2-4)], simp add: refuse_def quota_emit_events fresh)
  next
    case (admit q retry_at)
    let ?e = "emitted (after_admission q ?p) ''quota.call_admitted'' (admitted_details ?p q @ current_pairs (after_admission q ?p))"
    have "\<not> collides q ?p" using admit(4) by simp
    note disp = dispatch_admit [OF okr admit(2,3) this]
    show ?thesis
      unfolding admit(1)
      by (rule disjI2, rule exI [of _ ?e])
        (simp add: disp, simp add: admit_eq quota_emit_events, simp add: after_admission_def charge_fresh [OF fresh])
  next
    case (over_cap l a actual)
    let ?e = "emitted ?p ''quota.settlement_refused'' (settlement_refused_details l actual a @ current_pairs ?p)"
    have act: "dget (qp_active ?p) l = Some a" using over_cap(2) by simp
    show ?thesis
      unfolding over_cap(1)
      by (rule disjI2, rule exI [of _ ?e])
        (simp add: dispatch_over_cap [OF act over_cap(3)], simp add: over_cap_def quota_emit_events fresh)
  next
    case (settle l a actual g)
    let ?e = "emitted (end_lease g l actual a ?p) (ending_kind g) (settle_pairs g l actual a ?p)"
    have act: "dget (qp_active ?p) l = Some a" "ending_ok g (qp_now ?p)" using settle by simp_all
    show ?thesis
      unfolding settle(1)
      by (rule disjI2, rule exI [of _ ?e])
        (simp add: dispatch_settle [OF okr act(1) settle(3,4) act(2)], simp add: settle_eq quota_emit_events end_lease_fresh fresh)
  qed simp
qed

lemma dispatch_is_effect:
  assumes ok: "quota_ok p" and acc: "replay_dispatch e (replay_at epoch (quota_refresh p)) = Inr r"
    and ev: "event_error e = None" "qe_sequence e = int (length (qp_events p))" "qe_at_ms e = qp_now p"
  shows "\<exists>p'. quota_effect p p' \<and> qp_events p' = qp_events p @ [e]"
proof -
  let ?p = "quota_refresh p"
  have ev': "qe_sequence e = int (length (qp_events ?p))" "qe_at_ms e = qp_now ?p" using ev by simp_all
  note okr = quota_ok_refresh [OF ok]
  consider (admitted) "qe_kind e = ''quota.call_admitted''" "replay_admitted (qp_now ?p) (qe_details e) (replay_at epoch ?p) = Inr r"
    | (settled) "qe_kind e = ''quota.call_settled'' \<or> qe_kind e = ''quota.provider_429''"
        "replay_settled (qp_now ?p) (qe_kind e) (qe_details e) (replay_at epoch ?p) = Inr r"
    | (refused) "qe_kind e = ''quota.admission_refused''" "replay_refused (qp_now ?p) (qe_details e) (replay_at epoch ?p) = Inr r"
    | (over) "qe_kind e = ''quota.settlement_refused''" "replay_settlement_refused (qe_details e) (replay_at epoch ?p) = Inr r"
    using acc ev(3) by (auto simp: replay_dispatch_def Let_def split: if_splits)
  then show ?thesis
  proof cases
    case admitted
    from admitted_is_effect [OF admitted(2) ev(1) ev' admitted(1)] show ?thesis by (auto intro: quota_effect.admit)
  next
    case settled
    from settled_is_effect [OF settled(2) okr ev(1) ev' settled(1)] show ?thesis by (auto intro: quota_effect.settle)
  next
    case refused
    from refused_is_effect [OF refused(2) ev(1) ev' refused(1)] show ?thesis by (auto intro: quota_effect.refuse)
  next
    case over
    from over_cap_is_effect [OF over(2) ev(1) ev' over(1)] show ?thesis by (auto intro: quota_effect.over_cap)
  qed
qed

section \<open>The contract\<close>

text \<open>A step waits and makes a call; a call that would raise an \<open>AssertionError\<close> is not made.\<close>

definition quota_next :: "quota_physics \<Rightarrow> nat \<times> quota_call \<Rightarrow> quota_physics" where
  "quota_next p c =
     (case quota_do (snd c) (quota_advance (fst c) p) of (e, p') \<Rightarrow> if is_assertion e then p else p')"

definition quota_audit :: "quota_error + quota_replay \<Rightarrow> quota_event \<Rightarrow> quota_error + quota_replay" where
  "quota_audit r e = raising r (\<lambda>R. quota_replay_step R e)"

definition audit_sim :: "int \<Rightarrow> quota_physics \<Rightarrow> quota_error + quota_replay \<Rightarrow> bool" where
  "audit_sim epoch p r \<longleftrightarrow> (\<exists>R. r = Inr R \<and> quota_sim epoch p R)"

text \<open>Right after an event the replay's clock is the live one.\<close>

definition audit_exact :: "int \<Rightarrow> quota_physics \<Rightarrow> quota_error + quota_replay \<Rightarrow> bool" where
  "audit_exact epoch p r \<longleftrightarrow> (\<exists>R. r = Inr R \<and> quota_sim epoch p R \<and> qr_previous_time R = qp_now p)"

lemma quota_advance_selectors [simp]:
  "qp_events (quota_advance d p) = qp_events p" "qp_now (quota_advance d p) = qp_now p + int d"
  "qp_active (quota_advance d p) = qp_active p"
  by (simp_all add: quota_advance_def)

lemma quota_ok_advance: "quota_ok p \<Longrightarrow> quota_ok (quota_advance d p)"
  by (simp add: quota_ok_def quota_advance_def buckets_ok_def leases_ok_def)

lemma quota_next_effect:
  assumes "quota_ok p"
  shows "quota_next p (d, c) = p \<or> quota_effect (quota_advance d p) (quota_next p (d, c))"
  using quota_do_effect [OF quota_ok_advance [OF assms], of c d]
  by (cases "quota_do c (quota_advance d p)") (auto simp: quota_next_def)

lemma quota_next_ok: "quota_ok p \<Longrightarrow> quota_ok (quota_next p c)"
  using quota_next_effect [of p "fst c" "snd c"] quota_effect_ok quota_ok_advance by (cases c) fastforce

lemma effect_audit:
  assumes ok: "quota_ok p" and sim: "quota_sim epoch p R" and eff: "quota_effect p p'"
  shows "\<exists>es. qp_events p' = qp_events p @ es \<and> audit_sim epoch p' (foldl quota_audit (Inr R) es)
    \<and> (es = [] \<or> audit_exact epoch p' (foldl quota_audit (Inr R) es))"
  using effect_emits [OF eff ok]
proof (elim disjE exE conjE)
  assume "qp_events p' = qp_events p" "quota_refresh p' = quota_refresh p" "qp_now p' = qp_now p"
  with sim show ?thesis by (intro exI [of _ "[]"]) (simp add: audit_sim_def quota_sim_def)
next
  fix e
  assume e: "qp_events p' = qp_events p @ [e]" "qe_sequence e = int (length (qp_events p))" "qe_at_ms e = qp_now p"
    and p': "all_fresh p'" "qp_now p' = qp_now p"
    and disp: "\<forall>epoch. replay_dispatch e (replay_at epoch (quota_refresh p)) = Inr (replay_of epoch p')"
  from quota_step_sim [OF ok sim e(2,3)] disp have "quota_audit (Inr R) e = Inr (replay_of epoch p')"
    by (simp add: quota_audit_def raising_def)
  moreover have "qr_previous_time (replay_of epoch p') = qp_now p'" by (simp add: replay_of_def)
  ultimately show ?thesis using e(1) quota_sim_fresh [OF p'(1)]
    by (intro exI [of _ "[e]"]) (simp add: audit_sim_def audit_exact_def)
qed

lemma quota_audit_step:
  assumes ok: "quota_ok p" and sim: "audit_sim epoch p r"
  shows "\<exists>es. qp_events (quota_next p c) = qp_events p @ es \<and> audit_sim epoch (quota_next p c) (foldl quota_audit r es)"
proof -
  from sim obtain R where R: "r = Inr R" "quota_sim epoch p R" by (auto simp: audit_sim_def)
  obtain d call where c: "c = (d, call)" by (cases c)
  from quota_next_effect [OF ok, of d call]
  show ?thesis
  proof (elim disjE)
    assume "quota_next p (d, call) = p"
    with sim c show ?thesis by (intro exI [of _ "[]"]) simp
  next
    assume "quota_effect (quota_advance d p) (quota_next p (d, call))"
    from effect_audit [OF quota_ok_advance [OF ok] quota_sim_advance [OF ok R(2)] this] R c show ?thesis by auto
  qed
qed

lemma quota_audit_emit:
  assumes ok: "quota_ok p" and exact: "audit_exact epoch p r" and e: "event_error e = None"
    and acc: "isl (quota_audit r e) = False"
  shows "\<exists>c. qp_events (quota_next p c) = qp_events p @ [e] \<and> audit_exact epoch (quota_next p c) (quota_audit r e)"
proof -
  from exact obtain R where R: "r = Inr R" "quota_sim epoch p R" "qr_previous_time R = qp_now p"
    by (auto simp: audit_exact_def)
  from acc R(1) obtain R' where R': "quota_replay_step R e = Inr R'"
    by (cases "quota_replay_step R e") (auto simp: quota_audit_def raising_def)
  from R(2) have "qr_sequence (replay_refresh_all (qp_now p) (R\<lparr>qr_previous_time := qp_now p\<rparr>)) = int (length (qp_events p))"
    by (simp add: quota_sim_def) (simp add: replay_of_def)
  then have seqR: "qr_sequence R = int (length (qp_events p))" by (simp add: replay_refresh_all_def)
  from R' have seq: "qe_sequence e = int (length (qp_events p))" and at_ms: "qp_now p \<le> qe_at_ms e"
    using seqR R(3) by (auto simp: quota_replay_step_def split: if_splits)
  define d where "d = nat (qe_at_ms e - qp_now p)"
  let ?p = "quota_advance d p"
  have now: "qe_at_ms e = qp_now ?p" using at_ms by (simp add: d_def)
  have seq': "qe_sequence e = int (length (qp_events ?p))" using seq by simp
  note okd = quota_ok_advance [OF ok, of d] and simd = quota_sim_advance [OF ok R(2), of d]
  from quota_step_sim [OF okd simd seq' now] R' have disp: "replay_dispatch e (replay_at epoch (quota_refresh ?p)) = Inr R'"
    by simp
  from dispatch_is_effect [OF okd disp e seq' now] obtain p' where
    p': "quota_effect ?p p'" "qp_events p' = qp_events p @ [e]" by auto
  from quota_effect_do [OF p'(1) okd] obtain c where "snd (quota_do c ?p) = p'" "\<not> is_assertion (fst (quota_do c ?p))" by blast
  then have step: "quota_next p (d, c) = p'" by (simp add: quota_next_def case_prod_beta)
  from effect_audit [OF okd simd p'(1)] p'(2) have "audit_exact epoch p' (quota_audit (Inr R) e)" by auto
  with step p'(2) R(1) show ?thesis by blast
qed

interpretation quota_audit: sound_auditor quota_next quota_ok qp_events quota_audit "audit_sim epoch" "audit_exact epoch"
  "\<lambda>r. \<not> isl r" "\<lambda>e. event_error e = None" for epoch
proof unfold_locales
  show "quota_ok p \<Longrightarrow> quota_ok (quota_next p c)" for p c
    by (rule quota_next_ok)
  show "quota_ok p \<Longrightarrow> audit_sim epoch p r \<Longrightarrow>
      \<exists>es. qp_events (quota_next p c) = qp_events p @ es \<and> audit_sim epoch (quota_next p c) (foldl quota_audit r es)" for p r c
    by (rule quota_audit_step)
  show "audit_exact epoch p r \<Longrightarrow> audit_sim epoch p r" for p r
    by (auto simp: audit_exact_def audit_sim_def)
  show "\<not> isl (quota_audit r e) \<Longrightarrow> \<not> isl r" for r e
    by (cases r) (simp_all add: quota_audit_def raising_def)
  show "quota_ok p \<Longrightarrow> audit_exact epoch p r \<Longrightarrow> event_error e = None \<Longrightarrow> \<not> isl (quota_audit r e) \<Longrightarrow>
      \<exists>c. qp_events (quota_next p c) = qp_events p @ [e] \<and> audit_exact epoch (quota_next p c) (quota_audit r e)" for p r e
    by (rule quota_audit_emit) simp_all
qed

section \<open>Runs\<close>

text \<open>A run of the code ends at the first \<open>AssertionError\<close>; leaving out the calls that would raise it, or
  stopping before, makes no difference to the states that are reached.\<close>

lemma quota_run_next: "quota_run p cs = Some p' \<Longrightarrow> foldl quota_next p cs = p'"
  by (induction p cs rule: quota_run.induct) (auto simp: quota_next_def split: prod.splits if_splits)

lemma next_quota_run: "\<exists>ds. quota_run p ds = Some (foldl quota_next p cs)"
proof (induction cs arbitrary: p)
  case Nil
  show ?case by (intro exI [of _ "[]"]) simp
next
  case (Cons c cs)
  obtain delay call where c: "c = (delay, call)" by (cases c)
  obtain e p' where do: "quota_do call (quota_advance delay p) = (e, p')" by fastforce
  from Cons.IH [of "quota_next p c"] obtain ds where ds: "quota_run (quota_next p c) ds = Some (foldl quota_next p (c # cs))"
    by auto
  show ?case
  proof (cases "is_assertion e")
    case True
    with c do have "quota_next p c = p" by (simp add: quota_next_def)
    with ds show ?thesis by (intro exI [of _ ds]) simp
  next
    case False
    with c do have "quota_next p c = p'" by (simp add: quota_next_def)
    with c do ds False show ?thesis by (intro exI [of _ "c # ds"]) simp
  qed
qed

lemma quota_loop_foldl: "quota_replay_loop r es = foldl quota_audit (Inr r) es"
proof -
  have skip: "quota_audit (Inl x) e = Inl x" for x e by (simp add: quota_audit_def raising_def)
  have inl: "foldl quota_audit (Inl x) es = Inl x" for x es
    by (induction es) (simp_all add: skip)
  have step: "quota_audit (Inr r) e = quota_replay_step r e" for r e by (simp add: quota_audit_def raising_def)
  show ?thesis
  proof (induction es arbitrary: r)
    case (Cons e es)
    then show ?case by (cases "quota_replay_step r e") (simp_all add: step inl raising_def)
  qed simp
qed

section \<open>Configurations\<close>

text \<open>The objects the constructors can build.\<close>

inductive configured :: "quota_physics \<Rightarrow> bool" where
  "mk_quota_limits rpm tpm concurrency window = Inr pl \<Longrightarrow> mk_quota_limits grpm gtpm gconcurrency gwindow = Inr gl \<Longrightarrow>
   clock_init now = Inr epoch \<Longrightarrow> mk_retry_policy max_attempts base limit = Inr policy \<Longrightarrow>
   new_physics provider_id pl gl epoch policy = Inr p \<Longrightarrow> configured p"

lemma mk_quota_limits_ok: "(\<exists>rpm tpm concurrency window. mk_quota_limits rpm tpm concurrency window = Inr l) \<longleftrightarrow> limits_ok l"
  by (cases l) (auto simp: mk_quota_limits_def limits_ok_def not_le split: if_splits)

lemma mk_retry_policy_ok: "(\<exists>m b x. mk_retry_policy m b x = Inr r) \<longleftrightarrow> policy_ok r"
proof
  show "policy_ok r \<Longrightarrow> \<exists>m b x. mk_retry_policy m b x = Inr r"
    by (intro exI [of _ "rp_max_attempts r"] exI [of _ "rp_base_backoff_ms r"] exI [of _ "rp_max_backoff_ms r"])
      (cases r, auto simp: mk_retry_policy_def policy_ok_def)
qed (auto simp: mk_retry_policy_def policy_ok_def not_le not_less split: if_splits)

definition start :: "string \<Rightarrow> quota_limits \<Rightarrow> quota_limits \<Rightarrow> int \<Rightarrow> retry_policy \<Rightarrow> quota_physics" where
  "start provider_id pl gl epoch policy =
     quota_emit ''quota.configured'' (configured_details provider_id pl gl epoch policy) (blank_physics provider_id pl gl epoch policy)"

lemma configured_iff:
  "configured p \<longleftrightarrow> (\<exists>provider_id pl gl epoch policy. limits_ok pl \<and> limits_ok gl \<and> 0 \<le> epoch \<and> policy_ok policy
     \<and> \<not> py_blank provider_id \<and> p = start provider_id pl gl epoch policy)"
proof -
  have clock: "clock_init now = Inr epoch \<longleftrightarrow> now = epoch \<and> 0 \<le> epoch" for now epoch
    by (auto simp: clock_init_def)
  show ?thesis
    unfolding configured.simps new_physics_def start_def clock
    using mk_quota_limits_ok mk_retry_policy_ok by (simp split: if_splits) metis
qed

lemma configured_keys: "map fst (configured_details provider_id pl gl epoch policy) = required_keys"
  by (simp add: configured_details_def required_keys_def)

lemma distinct_required_keys: "distinct required_keys"
  by (simp add: required_keys_def)

definition epoch_of :: "quota_physics \<Rightarrow> int" where
  "epoch_of p = (case qp_events p of [] \<Rightarrow> 0 | e # es \<Rightarrow> qe_at_ms e)"

lemma start_ok:
  assumes "limits_ok pl" and "limits_ok gl" and "0 \<le> epoch" and "policy_ok policy" and "\<not> py_blank provider_id"
  shows "quota_ok (start provider_id pl gl epoch policy)"
  using assms
  by (simp add: start_def quota_ok_def quota_emit_def blank_physics_def buckets_ok_def bucket_ok_def new_bucket_def
      leases_ok_def limits_ok_def)

lemma start_fresh: "all_fresh (start provider_id pl gl epoch policy)"
  by (simp add: start_def all_fresh_def blank_physics_def bucket_fresh_def new_bucket_def)

text \<open>The replay of the first event.\<close>

lemma start_replay:
  assumes "limits_ok pl" and "limits_ok gl" and "0 \<le> epoch" and "policy_ok policy" and "\<not> py_blank provider_id"
  defines "p \<equiv> start provider_id pl gl epoch policy"
  shows "\<exists>e. qp_events p = [e] \<and> qe_sequence e = 0 \<and> qe_kind e = ''quota.configured'' \<and> qe_at_ms e = epoch
    \<and> parse_config (qe_details e) = Inr (config_of p epoch)
    \<and> quota_replay_step (replay_start (config_of p epoch) epoch) e = Inr (replay_of epoch p)"
proof -
  let ?kvs = "configured_details provider_id pl gl epoch policy"
  let ?e = "emitted (blank_physics provider_id pl gl epoch policy) ''quota.configured'' ?kvs"
  have dist: "distinct (map fst ?kvs)" unfolding configured_keys by (rule distinct_required_keys)
  have p: "qp_events p = [?e]"
    by (simp add: p_def start_def quota_emit_events) (simp add: blank_physics_def)
  have has: "has_keys (sort_key fst ?kvs) required_keys" by (rule has_keys_sorted [OF configured_keys])
  have vals: "dval ?kvs ''provider_id'' = SStr provider_id" "dval ?kvs ''epoch_ms'' = SInt epoch"
      "dval ?kvs ''provider_rpm'' = SInt (ql_rpm pl)" "dval ?kvs ''provider_tpm'' = SInt (ql_tpm pl)"
      "dval ?kvs ''provider_concurrency'' = SInt (ql_concurrency pl)" "dval ?kvs ''provider_window_ms'' = SInt (ql_window_ms pl)"
      "dval ?kvs ''global_rpm'' = SInt (ql_rpm gl)" "dval ?kvs ''global_tpm'' = SInt (ql_tpm gl)"
      "dval ?kvs ''global_concurrency'' = SInt (ql_concurrency gl)" "dval ?kvs ''global_window_ms'' = SInt (ql_window_ms gl)"
      "dval ?kvs ''max_attempts'' = SInt (rp_max_attempts policy)" "dval ?kvs ''base_backoff_ms'' = SInt (rp_base_backoff_ms policy)"
      "dval ?kvs ''max_backoff_ms'' = SInt (rp_max_backoff_ms policy)" "dval ?kvs ''model_scope'' = SStr MODEL_SCOPE"
      "dval ?kvs ''global_guard_scope'' = SStr GLOBAL_GUARD_SCOPE"
      "dval ?kvs ''settlement_refund_policy'' = SStr SETTLEMENT_REFUND_POLICY"
    by (simp_all add: configured_details_def dval_def)
  have config: "parse_config (qe_details ?e) = Inr (config_of p epoch)"
    using assms(1-5)
    by (simp add: parse_config_def has dval_sort_key [OF dist] vals config_integer_def config_provider_def limits_ok_def
        policy_ok_def config_of_def p_def start_def blank_physics_def not_le not_less)
  have "quota_replay_step (replay_start (config_of p epoch) epoch) ?e = Inr (replay_of epoch p)"
    by (simp add: quota_replay_step_def Let_def)
      (simp add: replay_start_def replay_of_def config_of_def p_def start_def quota_emit_events blank_physics_def
        new_bucket_def rb_of_def dview_def totals)
  with p config show ?thesis
    by (intro exI [of _ ?e]) (simp add: blank_physics_def)
qed

lemma parse_config_start:
  assumes parse: "parse_config (qe_details e) = Inr c" and e: "event_error e = None" "qe_sequence e = 0" "qe_kind e = ''quota.configured''"
    and at_ms: "qe_at_ms e = rc_epoch c"
  shows "\<exists>provider_id pl gl epoch policy. limits_ok pl \<and> limits_ok gl \<and> 0 \<le> epoch \<and> policy_ok policy
     \<and> \<not> py_blank provider_id \<and> qp_events (start provider_id pl gl epoch policy) = [e] \<and> epoch = rc_epoch c"
proof -
  let ?d = "qe_details e"
  have int: "config_integer d positive k = Inr i \<longleftrightarrow> dval d k = SInt i \<and> 0 \<le> i \<and> (positive \<longrightarrow> 0 < i)" for d positive k i
    by (auto simp: config_integer_def split: scalar.splits)
  have prov: "config_provider d = Inr s \<longleftrightarrow> dval d ''provider_id'' = SStr s \<and> \<not> py_blank s" for d s
    by (auto simp: config_provider_def split: scalar.splits)
  from parse have has: "has_keys ?d required_keys" and scope: "dval ?d ''model_scope'' = SStr MODEL_SCOPE"
      "dval ?d ''global_guard_scope'' = SStr GLOBAL_GUARD_SCOPE"
      "dval ?d ''settlement_refund_policy'' = SStr SETTLEMENT_REFUND_POLICY"
    by (auto simp: parse_config_def split: if_splits)
  define pl where "pl = \<lparr>ql_rpm = rc_provider_rpm c, ql_tpm = rc_provider_tpm c, ql_concurrency = rc_provider_concurrency c,
    ql_window_ms = rc_provider_window c\<rparr>"
  define gl where "gl = \<lparr>ql_rpm = rc_global_rpm c, ql_tpm = rc_global_tpm c, ql_concurrency = rc_global_concurrency c,
    ql_window_ms = rc_global_window c\<rparr>"
  define policy where "policy = \<lparr>rp_max_attempts = rc_max_attempts c, rp_base_backoff_ms = rc_base_backoff c,
    rp_max_backoff_ms = rc_max_backoff c\<rparr>"
  from parse has scope have vals: "dval ?d ''epoch_ms'' = SInt (rc_epoch c)" "0 \<le> rc_epoch c"
      "dval ?d ''provider_id'' = SStr (rc_provider_id c)" "\<not> py_blank (rc_provider_id c)"
      "dval ?d ''provider_rpm'' = SInt (rc_provider_rpm c)" "0 < rc_provider_rpm c"
      "dval ?d ''provider_tpm'' = SInt (rc_provider_tpm c)" "0 < rc_provider_tpm c"
      "dval ?d ''provider_concurrency'' = SInt (rc_provider_concurrency c)" "0 < rc_provider_concurrency c"
      "dval ?d ''provider_window_ms'' = SInt (rc_provider_window c)" "0 < rc_provider_window c"
      "dval ?d ''global_rpm'' = SInt (rc_global_rpm c)" "0 < rc_global_rpm c"
      "dval ?d ''global_tpm'' = SInt (rc_global_tpm c)" "0 < rc_global_tpm c"
      "dval ?d ''global_concurrency'' = SInt (rc_global_concurrency c)" "0 < rc_global_concurrency c"
      "dval ?d ''global_window_ms'' = SInt (rc_global_window c)" "0 < rc_global_window c"
      "dval ?d ''max_attempts'' = SInt (rc_max_attempts c)" "0 < rc_max_attempts c"
      "dval ?d ''base_backoff_ms'' = SInt (rc_base_backoff c)" "0 \<le> rc_base_backoff c"
      "dval ?d ''max_backoff_ms'' = SInt (rc_max_backoff c)" "rc_base_backoff c \<le> rc_max_backoff c"
    by (auto simp: parse_config_def int prov not_less split: if_splits)
  have good: "limits_ok pl" "limits_ok gl" "policy_ok policy"
    using vals by (simp_all add: limits_ok_def policy_ok_def pl_def gl_def policy_def)
  have "qp_events (start (rc_provider_id c) pl gl (rc_epoch c) policy)
      = qp_events (blank_physics (rc_provider_id c) pl gl (rc_epoch c) policy) @ [e]"
    unfolding start_def
  proof (rule event_is_emitted [OF e(1)])
    show "distinct (map fst (configured_details (rc_provider_id c) pl gl (rc_epoch c) policy))"
      unfolding configured_keys by (rule distinct_required_keys)
    show "has_keys ?d (map fst (configured_details (rc_provider_id c) pl gl (rc_epoch c) policy))"
      unfolding configured_keys by (rule has)
    fix k v assume "(k, v) \<in> set (configured_details (rc_provider_id c) pl gl (rc_epoch c) policy)"
    then show "dval ?d k = v"
      using vals scope by (auto simp: configured_details_def pl_def gl_def policy_def)
  qed (use e at_ms in \<open>simp_all add: blank_physics_def\<close>)
  with good vals show ?thesis
    by (intro exI [of _ "rc_provider_id c"] exI [of _ pl] exI [of _ gl] exI [of _ "rc_epoch c"] exI [of _ policy])
      (simp add: blank_physics_def)
qed

end
