(* ===== verification/Quota_Windows.thy ===== *)
theory Quota_Windows
  imports Quota_Lift
begin

text \<open>
  The windows of the quota. A window of a scope is an interval of its length counted from the epoch. The
  invariant ties what a bucket has left to what the events of its window say was used.
\<close>

section \<open>What the log says was used in a window\<close>

definition window_of :: "int \<Rightarrow> int \<Rightarrow> quota_event \<Rightarrow> int" where
  "window_of epoch window e = (qe_at_ms e - epoch) div window"

text \<open>The calls admitted in a window, and the tokens: what they reserved less what the settlements of the
  same window gave back.\<close>

definition window_calls :: "int \<Rightarrow> int \<Rightarrow> int \<Rightarrow> quota_event list \<Rightarrow> int" where
  "window_calls epoch window k es = int (length (filter (\<lambda>e. window_of epoch window e = k) (admissions es)))"

definition window_tokens :: "string \<Rightarrow> int \<Rightarrow> int \<Rightarrow> int \<Rightarrow> quota_event list \<Rightarrow> int" where
  "window_tokens refunded epoch window k es =
     sum_list (map (event_int ''estimated_tokens'') (filter (\<lambda>e. window_of epoch window e = k) (admissions es)))
     - sum_list (map (event_int refunded) (filter (\<lambda>e. window_of epoch window e = k) (settlements es)))"

lemma window_calls_append:
  "window_calls ep w k (es @ [e]) = window_calls ep w k es
     + (if qe_kind e = ''quota.call_admitted'' \<and> window_of ep w e = k then 1 else 0)"
  by (simp add: window_calls_def admissions_def)

lemma window_tokens_append:
  "window_tokens r ep w k (es @ [e]) = window_tokens r ep w k es
     + (if window_of ep w e = k then
          (if qe_kind e = ''quota.call_admitted'' then event_int ''estimated_tokens'' e
           else if qe_kind e = ''quota.call_settled'' \<or> qe_kind e = ''quota.provider_429'' then - event_int r e else 0)
        else 0)"
  by (auto simp: window_tokens_def admissions_def settlements_def)

section \<open>A bucket and its windows\<close>

definition bucket_tracks :: "int \<Rightarrow> int \<Rightarrow> (int \<Rightarrow> int) \<Rightarrow> token_bucket \<Rightarrow> bool" where
  "bucket_tracks epoch now used b \<longleftrightarrow>
     (\<exists>j. tb_last_refill_ms b = epoch + j * tb_refill_every_ms b \<and> tb_last_refill_ms b \<le> now
        \<and> tb_remaining b = tb_capacity b - used j \<and> (\<forall>k > j. used k = 0) \<and> (\<forall>k. used k \<le> tb_capacity b))"

lemma bucket_tracks_later: "bucket_tracks ep now used b \<Longrightarrow> now \<le> later \<Longrightarrow> bucket_tracks ep later used b"
  by (force simp: bucket_tracks_def)

lemma bucket_tracks_refresh:
  assumes "bucket_tracks ep now used b" and ok: "bucket_ok c w b"
  shows "bucket_tracks ep now used (bucket_refresh now b)"
proof -
  from assms(1) obtain j where j: "tb_last_refill_ms b = ep + j * w" "tb_last_refill_ms b \<le> now"
      "tb_remaining b = c - used j" "\<forall>k > j. used k = 0" "\<forall>k. used k \<le> c"
    using ok by (auto simp: bucket_tracks_def bucket_ok_def)
  let ?n = "(now - tb_last_refill_ms b) div w"
  have w: "0 < w" "0 < c" "tb_capacity b = c" "tb_refill_every_ms b = w" "0 \<le> tb_remaining b" using ok by (auto simp: bucket_ok_def)
  show ?thesis
  proof (cases "?n > 0")
    case False
    then show ?thesis using assms(1) w by (simp add: bucket_refresh_def Let_def)
  next
    case True
    have full: "min c (tb_remaining b + ?n * c) = c"
    proof -
      have "c \<le> ?n * c" using True w(2) by simp
      with w(5) show ?thesis by linarith
    qed
    have "?n * w \<le> now - tb_last_refill_ms b" using w(1) by (metis minus_mod_eq_div_mult pos_mod_sign diff_le_eq le_add_same_cancel1)
    then have last: "tb_last_refill_ms b + ?n * w \<le> now" by simp
    show ?thesis
      unfolding bucket_tracks_def
    proof (intro exI [of _ "j + ?n"] conjI)
      show "tb_last_refill_ms (bucket_refresh now b) = ep + (j + ?n) * tb_refill_every_ms (bucket_refresh now b)"
        using True w j(1) by (simp add: bucket_refresh_def Let_def algebra_simps)
      show "tb_last_refill_ms (bucket_refresh now b) \<le> now"
        using True w last by (simp add: bucket_refresh_def Let_def)
      show "tb_remaining (bucket_refresh now b) = tb_capacity (bucket_refresh now b) - used (j + ?n)"
        using True w full j(4) by (simp add: bucket_refresh_def Let_def)
    qed (use j True w in auto)
  qed
qed

text \<open>A fresh bucket is in the window of the clock; a charge there is booked there.\<close>

lemma bucket_tracks_charge:
  assumes tracks: "bucket_tracks ep now used b" and ok: "bucket_ok c w b" and fresh: "bucket_fresh now b"
    and used': "\<And>k. used' k = used k + (if (now - ep) div w = k then n else 0)" and n: "n \<le> tb_remaining b"
  shows "bucket_tracks ep now used' (charge_bucket n b)"
proof -
  from tracks obtain j where j: "tb_last_refill_ms b = ep + j * w" "tb_last_refill_ms b \<le> now"
      "tb_remaining b = c - used j" "\<forall>k > j. used k = 0" "\<forall>k. used k \<le> c"
    using ok by (auto simp: bucket_tracks_def bucket_ok_def)
  have w: "0 < w" "tb_capacity b = c" "tb_refill_every_ms b = w" using ok by (auto simp: bucket_ok_def)
  have "(now - ep) div w - j = (now - (ep + j * w)) div w" by (rule div_periods [OF w(1), symmetric])
  also have "\<dots> = 0"
    using fresh j(1,2) w by (simp add: bucket_fresh_def) (metis pos_imp_zdiv_nonneg_iff diff_ge_0_iff_ge order_antisym)
  finally have index: "(now - ep) div w = j" by simp
  show ?thesis
    unfolding bucket_tracks_def
    by (intro exI [of _ j]) (use j w n used' in \<open>auto simp: index charge_bucket_def\<close>)
qed

section \<open>The invariant\<close>

definition windows_ok :: "int \<Rightarrow> quota_physics \<Rightarrow> bool" where
  "windows_ok ep p \<longleftrightarrow>
     bucket_tracks ep (qp_now p) (\<lambda>k. window_calls ep (ql_window_ms (qp_provider_limits p)) k (qp_events p)) (qp_provider_rpm p)
     \<and> bucket_tracks ep (qp_now p) (\<lambda>k. window_tokens ''provider_refunded_tokens'' ep (ql_window_ms (qp_provider_limits p)) k (qp_events p))
         (qp_provider_tpm p)
     \<and> bucket_tracks ep (qp_now p) (\<lambda>k. window_calls ep (ql_window_ms (qp_global_limits p)) k (qp_events p)) (qp_global_rpm p)
     \<and> bucket_tracks ep (qp_now p) (\<lambda>k. window_tokens ''global_refunded_tokens'' ep (ql_window_ms (qp_global_limits p)) k (qp_events p))
         (qp_global_tpm p)
     \<and> qp_provider_active p = int (length (qp_active p)) \<and> qp_global_active p = int (length (qp_active p))
     \<and> qp_provider_active p \<le> ql_concurrency (qp_provider_limits p) \<and> qp_global_active p \<le> ql_concurrency (qp_global_limits p)"

lemma quota_ok_buckets:
  assumes "quota_ok p"
  shows "bucket_ok (ql_rpm (qp_provider_limits p)) (ql_window_ms (qp_provider_limits p)) (qp_provider_rpm p)"
    "bucket_ok (ql_tpm (qp_provider_limits p)) (ql_window_ms (qp_provider_limits p)) (qp_provider_tpm p)"
    "bucket_ok (ql_rpm (qp_global_limits p)) (ql_window_ms (qp_global_limits p)) (qp_global_rpm p)"
    "bucket_ok (ql_tpm (qp_global_limits p)) (ql_window_ms (qp_global_limits p)) (qp_global_tpm p)"
  using assms by (simp_all add: quota_ok_def buckets_ok_def)

lemma windows_ok_refresh: "windows_ok ep p \<Longrightarrow> quota_ok p \<Longrightarrow> windows_ok ep (quota_refresh p)"
  by (simp add: windows_ok_def bucket_tracks_refresh [OF _ quota_ok_buckets(1)] bucket_tracks_refresh [OF _ quota_ok_buckets(2)]
      bucket_tracks_refresh [OF _ quota_ok_buckets(3)] bucket_tracks_refresh [OF _ quota_ok_buckets(4)])
    (simp add: quota_refresh_def bucket_tracks_refresh [OF _ quota_ok_buckets(1)] bucket_tracks_refresh [OF _ quota_ok_buckets(2)]
      bucket_tracks_refresh [OF _ quota_ok_buckets(3)] bucket_tracks_refresh [OF _ quota_ok_buckets(4)])

lemma windows_ok_advance: "windows_ok ep p \<Longrightarrow> windows_ok ep (quota_advance d p)"
  by (auto simp: windows_ok_def quota_advance_def intro: bucket_tracks_later)

lemma windows_ok_note:
  assumes "windows_ok ep p" and "kind \<notin> {''quota.call_admitted'', ''quota.call_settled'', ''quota.provider_429''}"
  shows "windows_ok ep (quota_emit kind d p)"
  using assms by (simp add: windows_ok_def quota_emit_events window_calls_append window_tokens_append)

lemma windows_ok_admit:
  assumes win: "windows_ok ep p" and ok: "quota_ok p" and fresh: "all_fresh p" and clear: "acquire_reasons p q = ([], t)"
    and coll: "\<not> collides q p"
  shows "windows_ok ep (admit q p)"
proof -
  let ?e = "emitted (after_admission q p) ''quota.call_admitted'' (admitted_details p q @ current_pairs (after_admission q p))"
  have dist: "distinct (map fst (admitted_details p q @ current_pairs (after_admission q p)))"
    unfolding admission_pairs_keys by (rule distinct_admission_keys)
  have tokens: "event_int ''estimated_tokens'' ?e = cr_estimated_tokens q"
    by (simp add: event_int_def dval_sort_key [OF dist]) (simp add: admitted_details_def dval_def Let_def)
  have w: "window_of ep w ?e = (qp_now p - ep) div w" for w by (simp add: window_of_def)
  from clear have lim: "limit_reasons p (cr_estimated_tokens q) = []" by (simp add: acquire_clear)
  have len: "length (qp_active (after_admission q p)) = Suc (length (qp_active p))"
    using coll by (simp add: after_admission_dicts collides_def dict_simps)
  note charge = bucket_tracks_charge [OF _ quota_ok_buckets(1) [OF ok]] bucket_tracks_charge [OF _ quota_ok_buckets(2) [OF ok]]
    bucket_tracks_charge [OF _ quota_ok_buckets(3) [OF ok]] bucket_tracks_charge [OF _ quota_ok_buckets(4) [OF ok]]
  show ?thesis
    unfolding windows_ok_def admit_eq
    using win lim fresh len
    by (auto simp: windows_ok_def quota_emit_events window_calls_append window_tokens_append w tokens limit_reasons_clear
        all_fresh_def intro!: charge)
qed

lemma windows_ok_settle:
  assumes win: "windows_ok ep p" and ok: "quota_ok p" and fresh: "all_fresh p" and act: "dget (qp_active p) l = Some a"
    and amount: "actual \<le> al_reserved_tokens a"
  shows "windows_ok ep (settle g l actual a p)"
proof -
  let ?e = "emitted (end_lease g l actual a p) (ending_kind g) (settle_pairs g l actual a p)"
  have refunds: "event_int ''provider_refunded_tokens'' (emitted p' k (settle_pairs g l actual a p))
        = sl_provider_refunded (settlement_of actual a p)"
      "event_int ''global_refunded_tokens'' (emitted p' k (settle_pairs g l actual a p))
        = sl_global_refunded (settlement_of actual a p)" for p' k
    by (simp_all add: event_int_def dval_sort_key [OF settle_pairs_distinct] settle_pairs_vals)
  have w: "window_of ep w ?e = (qp_now p - ep) div w" for w by (simp add: window_of_def)
  have kind: "ending_kind g = ''quota.call_settled'' \<or> ending_kind g = ''quota.provider_429''" "ending_kind g \<noteq> ''quota.call_admitted''"
    by (auto simp: ending_kind_def split: ending.splits)
  have len: "int (length (qp_active (end_lease g l actual a p))) = int (length (qp_active p)) - 1"
  proof -
    have "qp_active p \<noteq> []" using act by auto
    moreover have "length (ddel l (qp_active p)) = length (qp_active p) - 1"
      using act ok by (simp add: length_ddel quota_ok_def)
    ultimately show ?thesis by (cases "qp_active p") (simp_all add: end_lease_def release_lease_def)
  qed
  have nonneg: "0 \<le> sl_provider_refunded (settlement_of actual a p)" "0 \<le> sl_global_refunded (settlement_of actual a p)"
    using amount refund_bucket_ok [OF quota_ok_buckets(2) [OF ok]] refund_bucket_ok [OF quota_ok_buckets(4) [OF ok]]
    by (simp_all add: settlement_of_def)
  have bounds: "- sl_provider_refunded (settlement_of actual a p) \<le> tb_remaining (qp_provider_tpm p)"
      "- sl_global_refunded (settlement_of actual a p) \<le> tb_remaining (qp_global_tpm p)"
    using nonneg quota_ok_buckets(2,4) [OF ok] by (auto simp: bucket_ok_def)
  have tpm: "qp_provider_tpm (end_lease g l actual a p) = charge_bucket (- sl_provider_refunded (settlement_of actual a p)) (qp_provider_tpm p)"
      "qp_global_tpm (end_lease g l actual a p) = charge_bucket (- sl_global_refunded (settlement_of actual a p)) (qp_global_tpm p)"
    by (simp_all add: end_lease_def release_lease_def)
  note charge = bucket_tracks_charge [OF _ quota_ok_buckets(2) [OF ok]] bucket_tracks_charge [OF _ quota_ok_buckets(4) [OF ok]]
  show ?thesis
    unfolding windows_ok_def settle_eq
    using win fresh len kind bounds
    by (auto simp: windows_ok_def quota_emit_events window_calls_append window_tokens_append w refunds tpm
        all_fresh_def intro!: charge)
qed

lemma windows_ok_effect:
  assumes "quota_effect p p'" and ok: "quota_ok p" and win: "windows_ok ep p"
  shows "windows_ok ep p'"
proof -
  note fresh = quota_ok_fresh [OF ok] and okr = quota_ok_refresh [OF ok] and winr = windows_ok_refresh [OF win ok]
  from assms(1) show ?thesis
  proof cases
    case (admit q retry_at)
    with windows_ok_admit [OF winr okr fresh] show ?thesis by simp
  next
    case (settle l a actual g)
    with windows_ok_settle [OF winr okr fresh] show ?thesis by simp
  qed (use win winr in \<open>simp_all add: refuse_def over_cap_def windows_ok_note\<close>)
qed

interpretation quota_windows: stateful quota_next "\<lambda>p. quota_ok p \<and> windows_ok epoch p" for epoch
proof
  fix p c assume "quota_ok p \<and> windows_ok epoch p"
  then show "quota_ok (quota_next p c) \<and> windows_ok epoch (quota_next p c)"
    using quota_next_effect [of p "fst c" "snd c"] windows_ok_effect [of "quota_advance (fst c) p" "quota_next p c" epoch]
      quota_next_ok [of p c] quota_ok_advance [of p "fst c"] windows_ok_advance by auto
qed

lemma start_windows:
  assumes "limits_ok pl" and "limits_ok gl"
  shows "windows_ok epoch (start provider_id pl gl epoch policy)"
proof -
  have zero: "bucket_tracks epoch epoch (\<lambda>k. 0) (new_bucket c w epoch)" if "0 < c" for c w
    using that by (simp add: bucket_tracks_def new_bucket_def)
  have calls: "window_calls epoch w k [] = 0" "window_tokens r epoch w k [] = 0" for w k r
    by (simp_all add: window_calls_def window_tokens_def admissions_def settlements_def of_kind_def)
  show ?thesis
    unfolding start_def
    by (rule windows_ok_note) (use assms zero in \<open>simp_all add: windows_ok_def blank_physics_def calls limits_ok_def\<close>)
qed

end
