(* ===== verification/Quota_Retries.thy ===== *)
theory Quota_Retries
  imports Quota_Lift
begin

text \<open>
  The order of the attempts of a logical call, and what must have happened before an admission: the
  invariant behind the retry guarantees of the quota.
\<close>

section \<open>What the log says about a call\<close>

definition attempts_of :: "string \<Rightarrow> quota_event list \<Rightarrow> int list" where
  "attempts_of l es =
     map (event_int ''attempt'') (filter (\<lambda>e. dval (qe_details e) ''logical_id'' = SStr l) (admissions es))"

text \<open>\<open>s\<close> settles the attempt before the admission \<open>e\<close> and allows a retry at its time.\<close>

definition allows_retry :: "quota_event \<Rightarrow> quota_event \<Rightarrow> bool" where
  "allows_retry s e \<longleftrightarrow>
     dval (qe_details s) ''logical_id'' = dval (qe_details e) ''logical_id''
     \<and> dval (qe_details s) ''attempt'' = SInt (event_int ''attempt'' e - 1)
     \<and> dval (qe_details s) ''attempt_id'' = dval (qe_details e) ''previous_attempt_id''
     \<and> (case dval (qe_details s) ''next_retry_at_ms'' of SInt t \<Rightarrow> t \<le> qe_at_ms e | _ \<Rightarrow> False)"

text \<open>The admission \<open>e\<close> is lawful after the events \<open>es\<close>: no declared reset is pending, its deadline has not
  passed, and a retry follows a settlement that allows it.\<close>

definition admission_lawful :: "quota_event list \<Rightarrow> quota_event \<Rightarrow> bool" where
  "admission_lawful es e \<longleftrightarrow>
     list_all (\<lambda>s. event_int ''reset_at_ms'' s \<le> qe_at_ms e) (of_kind [''quota.provider_429''] es)
     \<and> (case dval (qe_details e) ''deadline_ms'' of SInt d \<Rightarrow> qe_at_ms e \<le> d | _ \<Rightarrow> True)
     \<and> (event_int ''attempt'' e > 0 \<longrightarrow> list_ex (\<lambda>s. allows_retry s e) (settlements es))"

definition lawful_log :: "quota_event list \<Rightarrow> bool" where
  "lawful_log es \<longleftrightarrow>
     (\<forall>i < length es. qe_kind (es ! i) = ''quota.call_admitted'' \<longrightarrow> admission_lawful (take i es) (es ! i))"

lemma lawful_log_append:
  "lawful_log (es @ [e]) \<longleftrightarrow> lawful_log es \<and> (qe_kind e = ''quota.call_admitted'' \<longrightarrow> admission_lawful es e)"
  by (auto simp: lawful_log_def nth_append less_Suc_eq)

lemma attempts_of_append:
  "attempts_of l (es @ [e]) = attempts_of l es
     @ (if qe_kind e = ''quota.call_admitted'' \<and> dval (qe_details e) ''logical_id'' = SStr l then [event_int ''attempt'' e] else [])"
  by (simp add: attempts_of_def admissions_def)

lemma settlements_append:
  "settlements (es @ [e]) = settlements es
     @ (if qe_kind e = ''quota.call_settled'' \<or> qe_kind e = ''quota.provider_429'' then [e] else [])"
  by (simp add: settlements_def)

section \<open>The invariant\<close>

definition counted :: "logical_state option \<Rightarrow> int list" where
  "counted s = (case s of None \<Rightarrow> [] | Some s \<Rightarrow> map int [0..<nat (lg_last_attempt s + 1)])"

definition records_retry :: "string \<Rightarrow> logical_state \<Rightarrow> int \<Rightarrow> quota_event \<Rightarrow> bool" where
  "records_retry l s t e \<longleftrightarrow>
     dval (qe_details e) ''logical_id'' = SStr l \<and> dval (qe_details e) ''attempt'' = SInt (lg_last_attempt s)
     \<and> dval (qe_details e) ''attempt_id'' = SStr (lg_last_attempt_id s) \<and> dval (qe_details e) ''next_retry_at_ms'' = SInt t"

definition retries_ok :: "quota_physics \<Rightarrow> bool" where
  "retries_ok p \<longleftrightarrow>
     (\<forall>l. attempts_of l (qp_events p) = counted (dget (qp_logical p) l))
     \<and> (\<forall>l s. dget (qp_logical p) l = Some s \<longrightarrow> lg_last_attempt s < rp_max_attempts (qp_retry p))
     \<and> (\<forall>l s t. dget (qp_logical p) l = Some s \<longrightarrow> lg_next_retry_at_ms s = Some t \<longrightarrow>
          (\<exists>e \<in> set (settlements (qp_events p)). records_retry l s t e))
     \<and> (\<forall>e \<in> set (of_kind [''quota.provider_429''] (qp_events p)). event_int ''reset_at_ms'' e \<le> qp_reset_until_ms p)
     \<and> lawful_log (qp_events p)"

lemma retries_ok_refresh: "retries_ok p \<Longrightarrow> retries_ok (quota_refresh p)"
  by (simp add: retries_ok_def)

lemma retries_ok_advance: "retries_ok p \<Longrightarrow> retries_ok (quota_advance d p)"
  by (simp add: retries_ok_def quota_advance_def)

lemma retries_ok_note:
  assumes "retries_ok p" and "kind \<notin> {''quota.call_admitted'', ''quota.call_settled'', ''quota.provider_429''}"
  shows "retries_ok (quota_emit kind d p)"
  using assms by (simp add: retries_ok_def quota_emit_events attempts_of_append settlements_append lawful_log_append)

lemma admitted_vals:
  fixes q p
  defines "e \<equiv> emitted (after_admission q p) ''quota.call_admitted'' (admitted_details p q @ current_pairs (after_admission q p))"
  shows "dval (qe_details e) ''logical_id'' = SStr (cr_logical_id q)" "dval (qe_details e) ''attempt'' = SInt (cr_attempt q)"
    "dval (qe_details e) ''previous_attempt_id'' = opt_str (cr_previous_attempt_id q)"
    "dval (qe_details e) ''deadline_ms'' = opt_int (call_deadline p q)" "event_int ''attempt'' e = cr_attempt q"
proof -
  have dist: "distinct (map fst (admitted_details p q @ current_pairs (after_admission q p)))"
    unfolding admission_pairs_keys by (rule distinct_admission_keys)
  show "dval (qe_details e) ''logical_id'' = SStr (cr_logical_id q)" "dval (qe_details e) ''attempt'' = SInt (cr_attempt q)"
    "dval (qe_details e) ''previous_attempt_id'' = opt_str (cr_previous_attempt_id q)"
    "dval (qe_details e) ''deadline_ms'' = opt_int (call_deadline p q)"
    unfolding e_def emitted_selectors dval_sort_key [OF dist] by (simp_all add: admitted_details_def dval_def Let_def)
  then show "event_int ''attempt'' e = cr_attempt q" by (simp add: event_int_def)
qed

lemmas admission_vals = admitted_vals [unfolded emitted_selectors] admitted_vals(5)

lemma retries_ok_admit:
  assumes ret: "retries_ok p" and ok: "quota_ok p" and req: "request_error q = None" and clear: "acquire_reasons p q = ([], t)"
  shows "retries_ok (admit q p)"
proof -
  let ?e = "emitted (after_admission q p) ''quota.call_admitted'' (admitted_details p q @ current_pairs (after_admission q p))"
  let ?l = "cr_logical_id q"
  note req = request_error_None [OF req]
  from clear have id: "identity_reasons p q = []" and dl: "\<not> deadline_passed (qp_now p) (call_deadline p q)"
    and reset: "qp_reset_until_ms p \<le> qp_now p"
    and backoff: "backoff_pending (qp_now p) (cr_attempt q) (dget (qp_logical p) ?l) = None"
    by (simp_all add: acquire_clear)
  have pos: "0 < rp_max_attempts (qp_retry p)" using ok by (simp add: quota_ok_def policy_ok_def)
  have count: "counted (dget (qp_logical p) ?l) @ [cr_attempt q] = map int [0..<nat (cr_attempt q + 1)]"
  proof (cases "cr_attempt q = 0")
    case True
    with id show ?thesis by (simp add: identity_clear counted_def)
  next
    case False
    with id obtain s where "dget (qp_logical p) ?l = Some s" "cr_attempt q = lg_last_attempt s + 1"
      by (auto simp: identity_clear)
    with req False show ?thesis by (simp add: counted_def nat_add_distrib)
  qed
  have bound: "cr_attempt q < rp_max_attempts (qp_retry p)" using id pos by (auto simp: identity_clear split: if_splits)
  have "list_ex (\<lambda>s. allows_retry s ?e) (settlements (qp_events p))" if "cr_attempt q > 0"
  proof -
    from that id obtain s where s: "dget (qp_logical p) ?l = Some s" "lg_retryable s" "cr_attempt q = lg_last_attempt s + 1"
        "cr_previous_attempt_id q = Some (lg_last_attempt_id s)" by (auto simp: identity_clear)
    from ok s(1) have "logical_ok s" by (auto simp: quota_ok_def)
    with s(2) obtain u where u: "lg_next_retry_at_ms s = Some u" by (auto simp: logical_ok_def)
    from ret s(1) u obtain e where e: "e \<in> set (settlements (qp_events p))" "records_retry ?l s u e"
      unfolding retries_ok_def by blast
    have "u \<le> qp_now p" using backoff s(1) u that by (auto simp: backoff_pending_def split: if_splits)
    with e s have "allows_retry e ?e"
      by (simp add: allows_retry_def records_retry_def admission_vals opt_str_def)
    with e(1) show ?thesis by (auto simp: list_ex_iff)
  qed
  moreover have "list_all (\<lambda>s. event_int ''reset_at_ms'' s \<le> qp_now p) (of_kind [''quota.provider_429''] (qp_events p))"
    using ret reset by (force simp: retries_ok_def list_all_iff)
  moreover have "case opt_int (call_deadline p q) of SInt d \<Rightarrow> qp_now p \<le> d | _ \<Rightarrow> True"
    using dl by (simp add: deadline_passed_def opt_int_def split: option.splits)
  ultimately have lawful: "admission_lawful (qp_events p) ?e"
    by (simp add: admission_lawful_def admission_vals cong: scalar.case_cong)
  show ?thesis
    unfolding retries_ok_def
  proof (intro conjI allI impI)
    fix l
    show "attempts_of l (qp_events (admit q p)) = counted (dget (qp_logical (admit q p)) l)"
      using ret count
      by (auto simp: retries_ok_def admit_eq quota_emit_events attempts_of_append admission_vals after_admission_dicts dict_simps)
        (simp add: counted_def lease_state_def request_lease_def Let_def)
  next
    fix l s assume "dget (qp_logical (admit q p)) l = Some s"
    then show "lg_last_attempt s < rp_max_attempts (qp_retry (admit q p))"
      using ret bound
      by (auto simp: retries_ok_def admit_eq after_admission_dicts dict_simps lease_state_def request_lease_def Let_def
          split: if_splits)
  next
    fix l s u assume "dget (qp_logical (admit q p)) l = Some s" "lg_next_retry_at_ms s = Some u"
    then have "dget (qp_logical p) l = Some s"
      by (auto simp: admit_eq after_admission_dicts dict_simps lease_state_def split: if_splits)
    with ret \<open>lg_next_retry_at_ms s = Some u\<close> show "\<exists>e \<in> set (settlements (qp_events (admit q p))). records_retry l s u e"
      by (simp add: retries_ok_def admit_eq quota_emit_events settlements_append)
  next
    show "\<forall>e \<in> set (of_kind [''quota.provider_429''] (qp_events (admit q p))). event_int ''reset_at_ms'' e \<le> qp_reset_until_ms (admit q p)"
      using ret by (simp add: retries_ok_def admit_eq quota_emit_events)
  next
    show "lawful_log (qp_events (admit q p))"
      using ret lawful by (simp add: retries_ok_def admit_eq quota_emit_events lawful_log_append)
  qed
qed

lemma retries_ok_settle:
  assumes ret: "retries_ok p" and ok: "quota_ok p" and act: "dget (qp_active p) l = Some a"
  shows "retries_ok (settle g l actual a p)"
proof -
  let ?p = "end_lease g l actual a p" and ?l = "lz_logical_id (al_lease a)"
  let ?e = "emitted ?p (ending_kind g) (settle_pairs g l actual a p)"
  note logical = leases_ok_active(3) [OF ok act]
  have kind: "ending_kind g = ''quota.call_settled'' \<or> ending_kind g = ''quota.provider_429''" "ending_kind g \<noteq> ''quota.call_admitted''"
    by (auto simp: ending_kind_def split: ending.splits)
  have log: "qp_logical ?p = dset ?l (set_retry (retry_after_ending g a p) (lease_state (al_lease a))) (qp_logical p)"
    by (simp add: end_lease_def)
  have state: "lg_last_attempt (set_retry r (lease_state x)) = lz_attempt x"
      "lg_last_attempt_id (set_retry r (lease_state x)) = lz_attempt_id x"
      "lg_next_retry_at_ms (set_retry r (lease_state x)) = r" "lg_last_attempt (lease_state x) = lz_attempt x" for r x
    by (simp_all add: set_retry_def lease_state_def)
  note dv = dval_sort_key [OF settle_pairs_distinct]
  have reset: "qp_reset_until_ms p \<le> reset_after_ending g p" by (simp add: reset_after_ending_def split: ending.splits)
  show ?thesis
    unfolding retries_ok_def
  proof (intro conjI allI impI)
    fix l'
    have "counted (dget (qp_logical p) ?l) = counted (dget (qp_logical ?p) ?l)"
      unfolding log logical by (simp add: counted_def state dict_simps)
    then show "attempts_of l' (qp_events (settle g l actual a p)) = counted (dget (qp_logical (settle g l actual a p)) l')"
      using ret kind by (cases "l' = ?l") (auto simp: retries_ok_def settle_eq quota_emit_events attempts_of_append log dict_simps)
  next
    fix l' s assume "dget (qp_logical (settle g l actual a p)) l' = Some s"
    with ret logical show "lg_last_attempt s < rp_max_attempts (qp_retry (settle g l actual a p))"
      by (force simp: retries_ok_def settle_eq log dict_simps state split: if_splits)
  next
    fix l' s u assume s: "dget (qp_logical (settle g l actual a p)) l' = Some s" "lg_next_retry_at_ms s = Some u"
    show "\<exists>e \<in> set (settlements (qp_events (settle g l actual a p))). records_retry l' s u e"
    proof (cases "l' = ?l")
      case True
      with s have u: "retry_after_ending g a p = Some u" "s = set_retry (Some u) (lease_state (al_lease a))"
        by (auto simp: settle_eq log dict_simps state)
      then have "g \<noteq> Succeeded" by (auto simp: retry_after_ending_def Let_def)
      with u have "records_retry l' s u ?e"
        by (simp add: records_retry_def True dv settle_pairs_vals settle_pairs_retry state opt_int_def)
      with kind show ?thesis by (simp add: settle_eq quota_emit_events settlements_append)
    next
      case False
      with ret s show ?thesis
        by (force simp: retries_ok_def settle_eq quota_emit_events settlements_append log dict_simps)
    qed
  next
    have "event_int ''reset_at_ms'' ?e \<le> reset_after_ending g p" if "ending_kind g = ''quota.provider_429''"
      using that by (cases g) (simp_all add: ending_kind_def event_int_def dv settle_pairs_retry)
    then show "\<forall>e \<in> set (of_kind [''quota.provider_429''] (qp_events (settle g l actual a p))).
        event_int ''reset_at_ms'' e \<le> qp_reset_until_ms (settle g l actual a p)"
      using ret reset by (force simp: retries_ok_def settle_eq quota_emit_events)
  next
    show "lawful_log (qp_events (settle g l actual a p))"
      using ret kind by (simp add: retries_ok_def settle_eq quota_emit_events lawful_log_append)
  qed
qed

lemma retries_ok_effect:
  assumes "quota_effect p p'" and ok: "quota_ok p" and ret: "retries_ok p"
  shows "retries_ok p'"
proof -
  note okr = quota_ok_refresh [OF ok] and retr = retries_ok_refresh [OF ret]
  from assms(1) show ?thesis
  proof cases
    case (admit q retry_at)
    with retries_ok_admit [OF retr okr] show ?thesis by simp
  next
    case (settle l a actual g)
    with retries_ok_settle [OF retr okr] show ?thesis by simp
  qed (use ret retr in \<open>simp_all add: refuse_def over_cap_def retries_ok_note\<close>)
qed

interpretation quota_retries: stateful quota_next "\<lambda>p. quota_ok p \<and> retries_ok p"
proof
  fix p c assume "quota_ok p \<and> retries_ok p"
  then show "quota_ok (quota_next p c) \<and> retries_ok (quota_next p c)"
    using quota_next_effect [of p "fst c" "snd c"] retries_ok_effect [of "quota_advance (fst c) p" "quota_next p c"]
      quota_next_ok [of p c] quota_ok_advance [of p "fst c"] retries_ok_advance by auto
qed

lemma start_retries: "retries_ok (start provider_id pl gl epoch policy)"
  unfolding start_def
  by (rule retries_ok_note)
    (simp_all add: retries_ok_def blank_physics_def attempts_of_def admissions_def settlements_def of_kind_def counted_def lawful_log_def)

end
