(* ===== verification/Quota_Props.thy ===== *)
theory Quota_Props
  imports Quota_Lift Quota_Windows Quota_Retries
begin

text \<open>
  What the provider quota promises: the replay is exact, no window is overspent, and retries keep their
  order, their backoff and the declared resets.
\<close>

section \<open>The replay is exact\<close>

lemma emitted_valid:
  assumes "0 \<le> qp_now p" and "kind \<noteq> []" and "distinct (map fst kvs)" and "[] \<notin> set (map fst kvs)"
  shows "event_error (emitted p kind kvs) = None"
proof -
  have "\<not> list_ex (\<lambda>(k, v). k = []) (sort_key fst kvs)" using assms(4) by (force simp: list_ex_iff)
  with assms show ?thesis
    by (simp add: event_error_def detail_pairs_error_def distinct_map [of fst "sort_key fst kvs"] distinct_map [of fst kvs])
qed

lemma nonempty_keys: "[] \<notin> set refusal_keys" "[] \<notin> set admission_keys" "[] \<notin> set settlement_refusal_keys"
  "[] \<notin> set required_keys" "[] \<notin> set (ending_keys g)"
  by (simp_all add: refusal_keys_def admission_keys_def settlement_refusal_keys_def required_keys_def snapshot_keys_def)
    (cases g; simp add: settlement_base_keys_def snapshot_keys_def)

definition valid_events :: "quota_event list \<Rightarrow> bool" where
  "valid_events es \<longleftrightarrow> list_all (\<lambda>e. event_error e = None) es"

lemma effect_valid_events:
  assumes "quota_effect p p'" and ok: "quota_ok p" and valid: "valid_events (qp_events p)"
  shows "valid_events (qp_events p')"
proof -
  from ok have now: "0 \<le> qp_now (quota_refresh p)" by (simp add: quota_ok_def)
  show ?thesis
    using assms(1)
  proof cases
    case (refuse q reasons retry_at)
    have "event_error (emitted (quota_refresh p) ''quota.admission_refused''
        (refused_details (quota_refresh p) q reasons retry_at @ current_pairs (quota_refresh p))) = None"
      by (rule emitted_valid [OF now]) (simp_all only: refusal_pairs_keys distinct_refusal_keys nonempty_keys not_False_eq_True, simp)
    with valid show ?thesis by (simp add: refuse(1) refuse_def quota_emit_events valid_events_def)
  next
    case (admit q retry_at)
    have "event_error (emitted (after_admission q (quota_refresh p)) ''quota.call_admitted''
        (admitted_details (quota_refresh p) q @ current_pairs (after_admission q (quota_refresh p)))) = None"
      using now by (intro emitted_valid) (simp, simp, simp_all only: admission_pairs_keys distinct_admission_keys nonempty_keys not_False_eq_True)
    with valid show ?thesis by (simp add: admit(1) admit_eq quota_emit_events valid_events_def)
  next
    case (over_cap l a actual)
    have "event_error (emitted (quota_refresh p) ''quota.settlement_refused''
        (settlement_refused_details l actual a @ current_pairs (quota_refresh p))) = None"
      by (rule emitted_valid [OF now]) (simp_all only: over_cap_pairs_keys distinct_over_cap_keys nonempty_keys not_False_eq_True, simp)
    with valid show ?thesis by (simp add: over_cap(1) over_cap_def quota_emit_events valid_events_def)
  next
    case (settle l a actual g)
    have "event_error (emitted (end_lease g l actual a (quota_refresh p)) (ending_kind g) (settle_pairs g l actual a (quota_refresh p))) = None"
      using now
      by (intro emitted_valid) (simp, simp add: ending_kind_def split: ending.splits, rule settle_pairs_distinct,
          simp only: settle_pairs_keys nonempty_keys not_False_eq_True)
    with valid show ?thesis by (simp add: settle(1) settle_eq quota_emit_events valid_events_def)
  qed (use valid in simp_all)
qed

interpretation quota_events: stateful quota_next "\<lambda>p. quota_ok p \<and> valid_events (qp_events p)"
proof
  fix p c assume "quota_ok p \<and> valid_events (qp_events p)"
  then show "quota_ok (quota_next p c) \<and> valid_events (qp_events (quota_next p c))"
    using quota_next_effect [of p "fst c" "snd c"] effect_valid_events [of "quota_advance (fst c) p" "quota_next p c"]
      quota_next_ok [of p c] quota_ok_advance [of p "fst c"] by auto
qed

lemma start_valid:
  assumes "0 \<le> epoch"
  shows "valid_events (qp_events (start provider_id pl gl epoch policy))"
proof -
  have "event_error (emitted (blank_physics provider_id pl gl epoch policy) ''quota.configured''
      (configured_details provider_id pl gl epoch policy)) = None"
    using assms by (intro emitted_valid) (simp add: blank_physics_def, simp, simp_all only: configured_keys distinct_required_keys nonempty_keys not_False_eq_True)
  then show ?thesis by (simp add: start_def quota_emit_events valid_events_def) (simp add: blank_physics_def)
qed

lemma snapshot_events_iff: "snapshot_events es = Inr fs \<longleftrightarrow> fs = es \<and> valid_events es"
proof
  show "snapshot_events es = Inr fs \<Longrightarrow> fs = es \<and> valid_events es"
    by (induction es arbitrary: fs) (auto simp: valid_events_def split: option.splits sum.splits)
  have "valid_events es \<Longrightarrow> snapshot_events es = Inr es"
    by (induction es) (simp_all add: valid_events_def)
  then show "fs = es \<and> valid_events es \<Longrightarrow> snapshot_events es = Inr fs" by simp
qed

lemma quota_audit_Inr [simp]: "quota_audit (Inr r) e = quota_replay_step r e"
  by (simp add: quota_audit_def raising_def)

lemma report_of_sim:
  assumes "quota_sim epoch p R"
  shows "quota_report_of (qp_events p) R = stream_report (qp_events p) (length (qp_active p))"
proof -
  let ?R = "replay_refresh_all (qp_now p) (R\<lparr>qr_previous_time := qp_now p\<rparr>)"
  have "quota_report_of (qp_events p) R = quota_report_of (qp_events p) ?R"
    by (simp add: quota_report_of_def replay_refresh_all_def)
  also have "?R = replay_of epoch (quota_refresh p)" using assms by (simp add: quota_sim_def)
  finally show ?thesis by (simp add: quota_report_of_def stream_report_def replay_of_def)
qed

text \<open>The replay of a stream that begins as a configuration.\<close>

lemma replay_from_start:
  assumes "limits_ok pl" and "limits_ok gl" and "0 \<le> epoch" and "policy_ok policy" and "\<not> py_blank provider_id"
    and valid: "valid_events es"
  defines "p \<equiv> start provider_id pl gl epoch policy"
  shows "replay_quota_events (qp_events p @ es) =
    raising (foldl quota_audit (Inr (replay_of epoch p)) es) (\<lambda>R. Inr (quota_report_of (qp_events p @ es) R))"
proof -
  from start_replay [OF assms(1-5)] obtain e where e: "qp_events p = [e]" "qe_sequence e = 0" "qe_kind e = ''quota.configured''"
      "qe_at_ms e = epoch" "parse_config (qe_details e) = Inr (config_of p epoch)"
      "quota_replay_step (replay_start (config_of p epoch) epoch) e = Inr (replay_of epoch p)"
    by (auto simp: p_def)
  have "valid_events (e # es)"
    using start_valid [OF assms(3), of provider_id pl gl policy] e(1) valid by (simp add: valid_events_def p_def)
  then have "snapshot_events (e # es) = Inr (e # es)" using snapshot_events_iff by blast
  with e show ?thesis by (simp add: replay_quota_events_def raising_def quota_loop_foldl)
qed

text \<open>C7. \<open>replay_quota_events\<close> accepts a stream exactly when some configured \<open>ProviderQuotaPhysics\<close> records it
  under some sequence of calls at some times, none of which met an identity collision; and then the report
  is the totals of the stream with the number of leases that run left open.\<close>

theorem quota_replay_exact:
  "replay_quota_events es = Inr rep \<longleftrightarrow>
     (\<exists>p0 cs p. configured p0 \<and> quota_run p0 cs = Some p \<and> qp_events p = es
        \<and> rep = stream_report es (length (qp_active p)))"
proof
  assume "replay_quota_events es = Inr rep"
  then obtain e rest c R where es: "es = e # rest" "valid_events es"
    and first: "qe_sequence e = 0" "qe_kind e = ''quota.configured''" "parse_config (qe_details e) = Inr c"
    and loop: "quota_replay_loop (replay_start c (qe_at_ms e)) es = Inr R"
    by (auto simp: replay_quota_events_def snapshot_events_iff split: sum.splits list.splits if_splits)
  from es have ev: "event_error e = None" and rest: "valid_events rest" by (simp_all add: valid_events_def)
  from loop es(1) have at_ms: "qe_at_ms e = rc_epoch c"
    by (auto simp: quota_replay_step_def replay_start_def Let_def split: if_splits)
  from parse_config_start [OF first(3) ev first(1,2) at_ms] obtain provider_id pl gl epoch policy where
    good: "limits_ok pl" "limits_ok gl" "0 \<le> epoch" "policy_ok policy" "\<not> py_blank provider_id"
    and p0: "qp_events (start provider_id pl gl epoch policy) = [e]" "epoch = rc_epoch c" by blast
  let ?p = "start provider_id pl gl epoch policy"
  have acc: "raising (foldl quota_audit (Inr (replay_of epoch ?p)) rest) (\<lambda>R. Inr (quota_report_of es R)) = Inr rep"
    using replay_from_start [OF good rest] p0(1) es(1) \<open>replay_quota_events es = Inr rep\<close> by simp
  then obtain R where R: "foldl quota_audit (Inr (replay_of epoch ?p)) rest = Inr R" "rep = quota_report_of es R" by auto
  have exact: "audit_exact epoch ?p (Inr (replay_of epoch ?p))"
    using quota_sim_fresh [OF start_fresh] by (simp add: audit_exact_def) (simp add: replay_of_def)
  from quota_audit.accepted_is_run [OF start_ok [OF good] exact, of rest] rest R(1) obtain cs where
    cs: "qp_events (foldl quota_next ?p cs) = es" "audit_exact epoch (foldl quota_next ?p cs) (Inr R)"
    using p0(1) es(1) by (auto simp: valid_events_def)
  then have "rep = stream_report es (length (qp_active (foldl quota_next ?p cs)))"
    using R(2) report_of_sim [of epoch "foldl quota_next ?p cs" R] by (auto simp: audit_exact_def)
  moreover from good have "configured ?p" using configured_iff by blast
  ultimately show "\<exists>p0 cs p. configured p0 \<and> quota_run p0 cs = Some p \<and> qp_events p = es
      \<and> rep = stream_report es (length (qp_active p))"
    using next_quota_run [of ?p cs] cs(1) by metis
next
  assume "\<exists>p0 cs p. configured p0 \<and> quota_run p0 cs = Some p \<and> qp_events p = es
      \<and> rep = stream_report es (length (qp_active p))"
  then obtain p0 cs p where c: "configured p0" and run: "quota_run p0 cs = Some p" "qp_events p = es"
    and rep: "rep = stream_report es (length (qp_active p))" by blast
  from c obtain provider_id pl gl epoch policy where good: "limits_ok pl" "limits_ok gl" "0 \<le> epoch" "policy_ok policy"
      "\<not> py_blank provider_id" and p0: "p0 = start provider_id pl gl epoch policy"
    unfolding configured_iff by blast
  note ok = start_ok [OF good, folded p0]
  have sim: "audit_sim epoch p0 (Inr (replay_of epoch p0))"
    using quota_sim_fresh [OF start_fresh] by (simp add: audit_sim_def p0)
  note p = quota_run_next [OF run(1)]
  from quota_audit.audit_run [OF ok sim, of cs] p obtain rest where
    rest: "qp_events p = qp_events p0 @ rest" "audit_sim epoch p (foldl quota_audit (Inr (replay_of epoch p0)) rest)" by auto
  from quota_events.inv_run [of p0 cs] ok start_valid [OF good(3), of provider_id pl gl policy] p p0
  have "valid_events (qp_events p)" by simp
  with rest(1) have "valid_events rest" by (simp add: valid_events_def)
  note replay = replay_from_start [OF good this, folded p0]
  from rest(2) obtain R where R: "foldl quota_audit (Inr (replay_of epoch p0)) rest = Inr R" "quota_sim epoch p R"
    by (auto simp: audit_sim_def)
  from report_of_sim [OF R(2)] run(2) rep have "quota_report_of es R = rep" by simp
  with replay R(1) rest(1) run(2) show "replay_quota_events es = Inr rep" by (simp add: raising_def)
qed

section \<open>Windows\<close>

lemma configured_run:
  assumes "configured p0" and "quota_run p0 cs = Some p"
  shows "quota_ok p" and "windows_ok (epoch_of p0) p" and "retries_ok p"
    and "qp_provider_limits p = qp_provider_limits p0" and "qp_global_limits p = qp_global_limits p0" and "qp_retry p = qp_retry p0"
proof -
  from assms(1) obtain provider_id pl gl epoch policy where good: "limits_ok pl" "limits_ok gl" "0 \<le> epoch" "policy_ok policy"
      "\<not> py_blank provider_id" and p0: "p0 = start provider_id pl gl epoch policy"
    unfolding configured_iff by blast
  have epoch: "epoch_of p0 = epoch"
    by (simp add: epoch_of_def p0 start_def quota_emit_events) (simp add: blank_physics_def)
  note p = quota_run_next [OF assms(2)] and ok = start_ok [OF good, folded p0]
  have w0: "windows_ok epoch p0" unfolding p0 by (rule start_windows [OF good(1,2)])
  have r0: "retries_ok p0" unfolding p0 by (rule start_retries)
  show "quota_ok p" "windows_ok (epoch_of p0) p"
    using quota_windows.inv_run [of p0 epoch cs] p ok w0 unfolding epoch by simp_all
  show "retries_ok p"
    using quota_retries.inv_run [of p0 cs] p ok r0 by simp
  have keep: "qp_provider_limits p' = qp_provider_limits p \<and> qp_global_limits p' = qp_global_limits p \<and> qp_retry p' = qp_retry p"
    if "quota_effect p p'" for p p'
    using that by cases (simp_all add: refuse_def over_cap_def admit_eq settle_eq)
  have step: "qp_provider_limits (quota_next p c) = qp_provider_limits p \<and> qp_global_limits (quota_next p c) = qp_global_limits p
      \<and> qp_retry (quota_next p c) = qp_retry p" if "quota_ok p" for p c
    using quota_next_effect [OF that, of "fst c" "snd c"] keep [of "quota_advance (fst c) p" "quota_next p c"]
    by (auto simp: quota_advance_def)
  have "qp_provider_limits (foldl quota_next q cs) = qp_provider_limits q \<and> qp_global_limits (foldl quota_next q cs) = qp_global_limits q
      \<and> qp_retry (foldl quota_next q cs) = qp_retry q" if "quota_ok q" for q
    using that by (induction cs arbitrary: q) (simp_all add: step quota_next_ok)
  from this [OF ok] p show "qp_provider_limits p = qp_provider_limits p0" "qp_global_limits p = qp_global_limits p0" "qp_retry p = qp_retry p0"
    by simp_all
qed

text \<open>C8. In every window of the provider's limits, and in every window of the global ones, the calls admitted
  number at most the RPM limit, and the tokens they reserved, less what was given back in the window, at
  most the TPM limit; and at any time at most the smaller concurrency limit of leases is active.\<close>

theorem quota_within_windows:
  assumes "configured p0" and "quota_run p0 cs = Some p"
  shows "window_calls (epoch_of p0) (ql_window_ms (qp_provider_limits p0)) k (qp_events p) \<le> ql_rpm (qp_provider_limits p0)
    \<and> window_tokens ''provider_refunded_tokens'' (epoch_of p0) (ql_window_ms (qp_provider_limits p0)) k (qp_events p)
        \<le> ql_tpm (qp_provider_limits p0)
    \<and> window_calls (epoch_of p0) (ql_window_ms (qp_global_limits p0)) k (qp_events p) \<le> ql_rpm (qp_global_limits p0)
    \<and> window_tokens ''global_refunded_tokens'' (epoch_of p0) (ql_window_ms (qp_global_limits p0)) k (qp_events p)
        \<le> ql_tpm (qp_global_limits p0)
    \<and> int (length (qp_active p)) \<le> min (ql_concurrency (qp_provider_limits p0)) (ql_concurrency (qp_global_limits p0))"
proof -
  note run = configured_run [OF assms]
  from run(2) quota_ok_buckets [OF run(1)] show ?thesis
    by (auto simp: windows_ok_def bucket_tracks_def bucket_ok_def run(4,5))
qed

section \<open>Retries\<close>

text \<open>C9. The admitted attempts of a logical call are numbered from zero without gap or repetition and are at
  most \<open>max_attempts\<close>; and every admission comes no earlier than the resets declared so far and no later than
  its deadline, and, for a retry, after a settlement of the attempt before it, no earlier than the retry time
  that settlement recorded.\<close>

theorem quota_retries_lawful:
  assumes "configured p0" and "quota_run p0 cs = Some p"
  shows "(\<exists>n. attempts_of l (qp_events p) = map int [0..<n] \<and> int n \<le> rp_max_attempts (qp_retry p0)) \<and> lawful_log (qp_events p)"
proof -
  note run = configured_run [OF assms]
  have pos: "0 < rp_max_attempts (qp_retry p0)" using run(1) by (simp add: quota_ok_def policy_ok_def run(6))
  from run(3) have attempts: "attempts_of l (qp_events p) = counted (dget (qp_logical p) l)"
    and bound: "\<And>s. dget (qp_logical p) l = Some s \<Longrightarrow> lg_last_attempt s < rp_max_attempts (qp_retry p0)"
    by (auto simp: retries_ok_def run(6))
  have "\<exists>n. attempts_of l (qp_events p) = map int [0..<n] \<and> int n \<le> rp_max_attempts (qp_retry p0)"
  proof (cases "dget (qp_logical p) l")
    case None
    with attempts pos show ?thesis by (intro exI [of _ 0]) (simp add: counted_def)
  next
    case (Some s)
    with attempts bound pos show ?thesis
      by (intro exI [of _ "nat (lg_last_attempt s + 1)"]) (auto simp: counted_def)
  qed
  with run(3) show ?thesis by (simp add: retries_ok_def)
qed

section \<open>Witnesses\<close>

text \<open>A run that admits one call.\<close>

definition sample_limits :: quota_limits where
  "sample_limits = \<lparr>ql_rpm = 2, ql_tpm = 100, ql_concurrency = 1, ql_window_ms = 1000\<rparr>"

definition sample_policy :: retry_policy where
  "sample_policy = \<lparr>rp_max_attempts = 3, rp_base_backoff_ms = 25, rp_max_backoff_ms = 100\<rparr>"

definition sample_request :: call_request where
  "sample_request = \<lparr>cr_logical_id = ''call'', cr_attempt = 0, cr_estimated_tokens = 40, cr_previous_attempt_id = None,
     cr_deadline_ms = Some 900\<rparr>"

definition sample_start :: quota_physics where
  "sample_start = start ''fixture'' sample_limits sample_limits 0 sample_policy"

lemma sample_configured: "configured sample_start"
  unfolding configured_iff sample_start_def
  by (intro exI [of _ "''fixture''"] exI [of _ sample_limits] exI [of _ 0] exI [of _ sample_policy])
    (simp add: sample_limits_def sample_policy_def limits_ok_def policy_ok_def py_blank_def py_space_def)

lemma sample_run: "quota_run sample_start [(5, Acquire sample_request)] = Some (admit sample_request (quota_refresh (quota_advance 5 sample_start)))"
proof -
  let ?p = "quota_advance 5 sample_start"
  have ok: "quota_ok ?p"
    using quota_ok_advance start_ok sample_configured unfolding configured_iff by (metis configured_run(1) quota_run.simps(1) sample_configured)
  have req: "request_error sample_request = None"
    by (simp add: request_error_def sample_request_def py_blank_def py_space_def)
  have clear: "acquire_reasons (quota_refresh ?p) sample_request = ([], None)"
    by (simp add: acquire_clear identity_clear)
      (simp add: sample_start_def start_def blank_physics_def quota_advance_def quota_emit_def call_deadline_def
        deadline_passed_def backoff_pending_def limit_reasons_def quota_refresh_def bucket_refresh_def new_bucket_def
        sample_request_def sample_limits_def)
  have coll: "\<not> collides sample_request ?p"
    by (simp add: collides_def sample_start_def start_def blank_physics_def quota_advance_def quota_emit_def)
  from acquire_admits [OF ok req clear] coll
  have call: "snd (quota_do (Acquire sample_request) ?p) = admit sample_request (quota_refresh ?p)"
    "\<not> is_assertion (fst (quota_do (Acquire sample_request) ?p))" by simp_all
  obtain e p' where "quota_do (Acquire sample_request) ?p = (e, p')" by fastforce
  with call show ?thesis by (simp del: quota_do.simps)
qed

lemma quota_within_windows_witness:
  "window_calls (epoch_of sample_start) 1000 0 (qp_events (admit sample_request (quota_refresh (quota_advance 5 sample_start)))) \<le> 2"
  using quota_within_windows [OF sample_configured sample_run, of 0]
  by (simp add: sample_start_def start_def blank_physics_def sample_limits_def)

lemma quota_retries_lawful_witness:
  "lawful_log (qp_events (admit sample_request (quota_refresh (quota_advance 5 sample_start))))"
  using quota_retries_lawful [OF sample_configured sample_run, of "''call''"] by simp

end
