(* ===== verification/Usage.thy ===== *)
theory Usage
  imports Digest
begin

text \<open>
  \<open>Usage\<close> and \<open>UsageRecord\<close> of \<open>src/agent_physics/run_store.py\<close>: the vector of tokens, money and context
  bytes an attempt is estimated at, reserves and uses. The run store and the replanner share it.
\<close>

record usage =
  us_tokens :: int
  us_cost_microusd :: int
  us_context_bytes :: int

definition usage_zero :: usage where
  "usage_zero = \<lparr>us_tokens = 0, us_cost_microusd = 0, us_context_bytes = 0\<rparr>"

text \<open>The constructor \<open>Usage(...)\<close>; \<open>None\<close> is its \<open>ValueError\<close>.\<close>

definition mk_usage :: "int \<Rightarrow> int \<Rightarrow> int \<Rightarrow> usage option" where
  "mk_usage t c b =
     (if min t (min c b) < 0 then None
      else Some \<lparr>us_tokens = t, us_cost_microusd = c, us_context_bytes = b\<rparr>)"

definition usage_add :: "usage \<Rightarrow> usage \<Rightarrow> usage option" where
  "usage_add u v =
     mk_usage (us_tokens u + us_tokens v) (us_cost_microusd u + us_cost_microusd v) (us_context_bytes u + us_context_bytes v)"

definition usage_json :: "usage \<Rightarrow> json" where
  "usage_json u =
     JObj [(''tokens'', JInt (us_tokens u)), (''cost_microusd'', JInt (us_cost_microusd u)),
           (''context_bytes'', JInt (us_context_bytes u))]"

definition usage_nonneg :: "usage \<Rightarrow> bool" where
  "usage_nonneg u \<longleftrightarrow> 0 \<le> us_tokens u \<and> 0 \<le> us_cost_microusd u \<and> 0 \<le> us_context_bytes u"

lemma mk_usage_Some: "usage_nonneg u \<Longrightarrow> mk_usage (us_tokens u) (us_cost_microusd u) (us_context_bytes u) = Some u"
  by (auto simp: mk_usage_def usage_nonneg_def)

lemma mk_usage_nonneg: "mk_usage t c b = Some u \<Longrightarrow> usage_nonneg u"
  by (auto simp: mk_usage_def usage_nonneg_def split: if_splits)

text \<open>Sums of usages are again usages.\<close>

lemma usage_add_nonneg:
  assumes "usage_nonneg u" and "usage_nonneg v"
  shows "\<exists>w. usage_add u v = Some w \<and> usage_nonneg w"
  using assms by (auto simp: usage_add_def mk_usage_def usage_nonneg_def)

record usage_record =
  ur_estimated :: usage
  ur_reserved :: usage
  ur_actual :: usage

definition usage_record_zero :: usage_record where
  "usage_record_zero = \<lparr>ur_estimated = usage_zero, ur_reserved = usage_zero, ur_actual = usage_zero\<rparr>"

definition record_nonneg :: "usage_record \<Rightarrow> bool" where
  "record_nonneg u \<longleftrightarrow> usage_nonneg (ur_estimated u) \<and> usage_nonneg (ur_reserved u) \<and> usage_nonneg (ur_actual u)"

end
