(* ===== verification/Run_Store.thy ===== *)
theory Run_Store
  imports Usage Json_Text Interfaces
begin

text \<open>
  \<open>src/agent_physics/run_store.py\<close>: the append-only event ledger that makes a run resumable. Run and attempt state
  is read back from immutable events; nothing is updated in place.

  The SQLite file is the record \<open>run_db\<close>: a table is the list of its rows in insertion order. A statement of the source is a
  function on it, with the constraints and triggers of the schema written out: a violated one is an
  \<open>IntegrityError\<close>. Integers are bound as 64-bit values, a larger one is an \<open>OverflowError\<close>. A transaction that
  raises leaves the file as it was. \<open>BEGIN IMMEDIATE\<close> and \<open>BEGIN EXCLUSIVE\<close> serialize transactions, so each is one step;
  a timeout of their lock, which raises before anything is read, is left out. The clock is an argument: the value it has when it
  is read.
\<close>

section \<open>Errors, definitions and events\<close>

datatype store_error =
    RunStoreError string
  | RunNotFound string
  | RunDefinitionConflict string
  | EventConflict string
  | StoreIntegrityError string
  | StoreOverflowError
  | StoreValueError string

type_synonym ('a, 's) stored = "(store_error + 'a) \<times> 's"

record run_definition =
  rd_run_id :: string
  rd_graph_digest :: string
  rd_envelope_json :: string
  rd_manifest_digest :: string
  rd_manifest_revision :: int
  rd_deadline_at_ms :: int
  rd_created_at_ms :: int

record run_event =
  re_run_id :: string
  re_sequence :: int
  re_event_id :: string
  re_event_type :: string
  re_task_id :: "string option"
  re_attempt :: "int option"
  re_occurred_at_ms :: int
  re_payload_json :: string
  re_usage :: usage_record

record completed_task =
  ct_task_id :: string
  ct_output_json :: string
  ct_event :: run_event

text \<open>\<open>_canonical_json\<close>. The floats of the model are finite, so nothing is refused. The properties \<open>envelope\<close>, \<open>payload\<close> and
  \<open>output\<close> parse the stored text; \<open>None\<close> is the error of \<open>json.loads\<close>.\<close>

definition store_json :: "json \<Rightarrow> string" where
  "store_json v = json_dumps False v"

definition run_envelope_json :: "run_definition \<Rightarrow> json option" where
  "run_envelope_json d = json_loads (rd_envelope_json d)"

definition run_event_payload :: "run_event \<Rightarrow> json option" where
  "run_event_payload e = json_loads (re_payload_json e)"

definition task_output :: "completed_task \<Rightarrow> json option" where
  "task_output c = json_loads (ct_output_json c)"

section \<open>The schema\<close>

definition newline :: char where
  "newline = CHR 0x0A"

fun sql_lines :: "string list \<Rightarrow> string" where
  "sql_lines [] = []"
| "sql_lines [l] = l"
| "sql_lines (l # ls) = l @ [newline] @ sql_lines ls"

definition quoted :: "string \<Rightarrow> string" where
  "quoted s = [CHR 0x27] @ s @ [CHR 0x27]"

text \<open>The statements of the two migrations, each without the blanks around it (as \<open>strip\<close> leaves it for the checksum).\<close>

definition initial_schema :: "string list" where
  "initial_schema = [
    sql_lines [
      ''CREATE TABLE run_definitions ('',
      ''        run_id TEXT PRIMARY KEY,'',
      ''        graph_digest TEXT NOT NULL,'',
      ''        envelope_json TEXT NOT NULL,'',
      ''        deadline_at_ms INTEGER NOT NULL,'',
      ''        created_at_ms INTEGER NOT NULL'',
      ''    )''],
    sql_lines [
      ''CREATE TABLE run_events ('',
      ''        run_id TEXT NOT NULL,'',
      ''        sequence INTEGER NOT NULL,'',
      ''        event_id TEXT NOT NULL UNIQUE,'',
      ''        event_type TEXT NOT NULL,'',
      ''        task_id TEXT,'',
      ''        attempt INTEGER,'',
      ''        occurred_at_ms INTEGER NOT NULL,'',
      ''        payload_json TEXT NOT NULL,'',
      ''        estimated_tokens INTEGER NOT NULL,'',
      ''        estimated_cost_microusd INTEGER NOT NULL,'',
      ''        estimated_context_bytes INTEGER NOT NULL,'',
      ''        reserved_tokens INTEGER NOT NULL,'',
      ''        reserved_cost_microusd INTEGER NOT NULL,'',
      ''        reserved_context_bytes INTEGER NOT NULL,'',
      ''        actual_tokens INTEGER NOT NULL,'',
      ''        actual_cost_microusd INTEGER NOT NULL,'',
      ''        actual_context_bytes INTEGER NOT NULL,'',
      ''        PRIMARY KEY (run_id, sequence),'',
      ''        FOREIGN KEY (run_id) REFERENCES run_definitions(run_id),'',
      ''        CHECK (sequence > 0),'',
      ''        CHECK (attempt IS NULL OR attempt > 0),'',
      ''        CHECK ('',
      ''            MIN('',
      ''                estimated_tokens,'',
      ''                estimated_cost_microusd,'',
      ''                estimated_context_bytes,'',
      ''                reserved_tokens,'',
      ''                reserved_cost_microusd,'',
      ''                reserved_context_bytes,'',
      ''                actual_tokens,'',
      ''                actual_cost_microusd,'',
      ''                actual_context_bytes'',
      ''            ) >= 0'',
      ''        )'',
      ''    )''],
    sql_lines [
      ''CREATE INDEX idx_run_events_task ON run_events(run_id, task_id, sequence)''],
    sql_lines [
      ''CREATE TRIGGER schema_migrations_no_update'',
      ''    BEFORE UPDATE ON schema_migrations'',
      ''    BEGIN'',
      ''        SELECT RAISE(ABORT, '' @ quoted ''schema migrations are append-only'' @ '');'',
      ''    END''],
    sql_lines [
      ''CREATE TRIGGER schema_migrations_no_delete'',
      ''    BEFORE DELETE ON schema_migrations'',
      ''    BEGIN'',
      ''        SELECT RAISE(ABORT, '' @ quoted ''schema migrations are append-only'' @ '');'',
      ''    END''],
    sql_lines [
      ''CREATE TRIGGER run_definitions_no_update'',
      ''    BEFORE UPDATE ON run_definitions'',
      ''    BEGIN'',
      ''        SELECT RAISE(ABORT, '' @ quoted ''run definitions are append-only'' @ '');'',
      ''    END''],
    sql_lines [
      ''CREATE TRIGGER run_definitions_no_delete'',
      ''    BEFORE DELETE ON run_definitions'',
      ''    BEGIN'',
      ''        SELECT RAISE(ABORT, '' @ quoted ''run definitions are append-only'' @ '');'',
      ''    END''],
    sql_lines [
      ''CREATE TRIGGER run_events_no_update'',
      ''    BEFORE UPDATE ON run_events'',
      ''    BEGIN'',
      ''        SELECT RAISE(ABORT, '' @ quoted ''run events are append-only'' @ '');'',
      ''    END''],
    sql_lines [
      ''CREATE TRIGGER run_events_no_delete'',
      ''    BEFORE DELETE ON run_events'',
      ''    BEGIN'',
      ''        SELECT RAISE(ABORT, '' @ quoted ''run events are append-only'' @ '');'',
      ''    END'']]"

definition migration_2 :: "string list" where
  "migration_2 = [
    sql_lines [
      ''ALTER TABLE run_definitions'',
      ''    ADD COLUMN manifest_digest TEXT NOT NULL DEFAULT '' @ quoted ''unspecified''],
    sql_lines [
      ''ALTER TABLE run_definitions'',
      ''    ADD COLUMN manifest_revision INTEGER NOT NULL DEFAULT 1''],
    sql_lines [
      ''CREATE UNIQUE INDEX idx_run_task_single_completion'',
      ''    ON run_events(run_id, task_id)'',
      ''    WHERE event_type = '' @ quoted ''task.completed''],
    sql_lines [
      ''CREATE TRIGGER run_events_completion_requires_source'',
      ''    BEFORE INSERT ON run_events'',
      ''    WHEN NEW.event_type = '' @ quoted ''task.completed'',
      ''      AND ('',
      ''        NEW.task_id IS NULL'',
      ''        OR NOT EXISTS ('',
      ''            SELECT 1'',
      ''            FROM run_events AS source'',
      ''            WHERE source.run_id = NEW.run_id'',
      ''              AND source.task_id = NEW.task_id'',
      ''              AND source.sequence < NEW.sequence'',
      ''              AND ('',
      ''                ('',
      ''                    source.event_type = '' @ quoted ''task.attempt_succeeded'',
      ''                    AND source.attempt = NEW.attempt'',
      ''                )'',
      ''                OR source.event_type = '' @ quoted ''task.effect_intent_created'',
      ''              )'',
      ''        )'',
      ''      )'',
      ''    BEGIN'',
      ''        SELECT RAISE('',
      ''            ABORT,'',
      ''            '' @ quoted ''task completion requires a succeeded attempt or effect intent'',
      ''        );'',
      ''    END'']]"


definition migrations :: "(int \<times> string \<times> string list) list" where
  "migrations =
     [(1, ''initial_append_only_run_ledger'', initial_schema),
      (2, ''manifest_and_completion_invariants'', migration_2)]"

definition schema_version :: int where
  "schema_version = 2"

definition migration_checksum :: "string list \<Rightarrow> string" where
  "migration_checksum statements = sha256_hex (sql_lines statements)"

section \<open>The database\<close>

text \<open>A row of \<open>run_events\<close> has one column for each number of its usage.\<close>

record event_row =
  rw_run_id :: string
  rw_sequence :: int
  rw_event_id :: string
  rw_event_type :: string
  rw_task_id :: "string option"
  rw_attempt :: "int option"
  rw_occurred_at_ms :: int
  rw_payload_json :: string
  rw_estimated_tokens :: int
  rw_estimated_cost_microusd :: int
  rw_estimated_context_bytes :: int
  rw_reserved_tokens :: int
  rw_reserved_cost_microusd :: int
  rw_reserved_context_bytes :: int
  rw_actual_tokens :: int
  rw_actual_cost_microusd :: int
  rw_actual_context_bytes :: int

record migration_row =
  mg_version :: int
  mg_name :: string
  mg_checksum :: string
  mg_applied_at_ms :: int

record run_db =
  db_migrations :: "migration_row list"
  db_definitions :: "run_definition list"
  db_events :: "event_row list"

definition empty_file :: run_db where
  "empty_file = \<lparr>db_migrations = [], db_definitions = [], db_events = []\<rparr>"

definition usage_columns :: "event_row \<Rightarrow> int list" where
  "usage_columns r =
     [rw_estimated_tokens r, rw_estimated_cost_microusd r, rw_estimated_context_bytes r,
      rw_reserved_tokens r, rw_reserved_cost_microusd r, rw_reserved_context_bytes r,
      rw_actual_tokens r, rw_actual_cost_microusd r, rw_actual_context_bytes r]"

text \<open>\<open>_event_from_row\<close>; the constructor of \<open>Usage\<close> can raise.\<close>

definition event_from_row :: "event_row \<Rightarrow> store_error + run_event" where
  "event_from_row r =
     (case (mk_usage (rw_estimated_tokens r) (rw_estimated_cost_microusd r) (rw_estimated_context_bytes r),
            mk_usage (rw_reserved_tokens r) (rw_reserved_cost_microusd r) (rw_reserved_context_bytes r),
            mk_usage (rw_actual_tokens r) (rw_actual_cost_microusd r) (rw_actual_context_bytes r)) of
        (Some estimated, Some reserved, Some actual) \<Rightarrow>
          Inr \<lparr>re_run_id = rw_run_id r, re_sequence = rw_sequence r, re_event_id = rw_event_id r,
            re_event_type = rw_event_type r, re_task_id = rw_task_id r, re_attempt = rw_attempt r,
            re_occurred_at_ms = rw_occurred_at_ms r, re_payload_json = rw_payload_json r,
            re_usage = \<lparr>ur_estimated = estimated, ur_reserved = reserved, ur_actual = actual\<rparr>\<rparr>
      | _ \<Rightarrow> Inl (StoreValueError ''usage values cannot be negative''))"

text \<open>Values bound to a statement, the aggregate \<open>COALESCE(MAX(...), 0)\<close> and a transaction.\<close>

definition int64 :: "int \<Rightarrow> bool" where
  "int64 i \<longleftrightarrow> - (2 ^ 63) \<le> i \<and> i < 2 ^ 63"

definition coalesce_max :: "int list \<Rightarrow> int" where
  "coalesce_max xs = (if xs = [] then 0 else foldl max (hd xs) (tl xs))"

definition run_transaction :: "('s \<Rightarrow> ('a, 's) stored) \<Rightarrow> 's \<Rightarrow> ('a, 's) stored" where
  "run_transaction body db = (case body db of (Inl e, _) \<Rightarrow> (Inl e, db) | (Inr x, db') \<Rightarrow> (Inr x, db'))"

section \<open>Constraints and triggers\<close>

definition is_completion :: "event_row \<Rightarrow> bool" where
  "is_completion r \<longleftrightarrow> rw_event_type r = ''task.completed''"

text \<open>The condition of the trigger \<open>run_events_completion_requires_source\<close>; a comparison with \<open>NULL\<close> does not hold.\<close>

definition is_source :: "event_row \<Rightarrow> event_row \<Rightarrow> bool" where
  "is_source s c \<longleftrightarrow>
     rw_run_id s = rw_run_id c \<and> rw_task_id s \<noteq> None \<and> rw_task_id s = rw_task_id c \<and> rw_sequence s < rw_sequence c
     \<and> (rw_event_type s = ''task.attempt_succeeded'' \<and> rw_attempt s \<noteq> None \<and> rw_attempt s = rw_attempt c
        \<or> rw_event_type s = ''task.effect_intent_created'')"

definition has_source :: "event_row list \<Rightarrow> event_row \<Rightarrow> bool" where
  "has_source rows c \<longleftrightarrow> list_ex (\<lambda>s. is_source s c) rows"

definition row_checks :: "event_row \<Rightarrow> bool" where
  "row_checks r \<longleftrightarrow>
     0 < rw_sequence r \<and> (case rw_attempt r of None \<Rightarrow> True | Some a \<Rightarrow> 0 < a) \<and> list_all (\<lambda>i. 0 \<le> i) (usage_columns r)"

text \<open>The unique keys of a row: its event, its place in the run, and for a completion its task.\<close>

definition same_key :: "event_row \<Rightarrow> event_row \<Rightarrow> bool" where
  "same_key r s \<longleftrightarrow>
     rw_event_id r = rw_event_id s
     \<or> rw_run_id r = rw_run_id s \<and> rw_sequence r = rw_sequence s
     \<or> is_completion r \<and> is_completion s \<and> rw_run_id r = rw_run_id s \<and> rw_task_id r \<noteq> None \<and> rw_task_id r = rw_task_id s"

definition row_integers :: "event_row \<Rightarrow> int list" where
  "row_integers r =
     rw_sequence r # (case rw_attempt r of None \<Rightarrow> [] | Some a \<Rightarrow> [a]) @ rw_occurred_at_ms r # usage_columns r"

definition insert_event :: "event_row \<Rightarrow> run_db \<Rightarrow> (unit, run_db) stored" where
  "insert_event r db =
     (if \<not> list_all int64 (row_integers r) then (Inl StoreOverflowError, db)
      else if is_completion r \<and> (rw_task_id r = None \<or> \<not> has_source (db_events db) r) then
        (Inl (StoreIntegrityError ''task completion requires a succeeded attempt or effect intent''), db)
      else if \<not> row_checks r then (Inl (StoreIntegrityError ''CHECK constraint failed''), db)
      else if list_ex (same_key r) (db_events db) then (Inl (StoreIntegrityError ''UNIQUE constraint failed''), db)
      else if \<not> list_ex (\<lambda>d. rd_run_id d = rw_run_id r) (db_definitions db) then
        (Inl (StoreIntegrityError ''FOREIGN KEY constraint failed''), db)
      else (Inr (), db\<lparr>db_events := db_events db @ [r]\<rparr>))"

section \<open>Opening a file\<close>

text \<open>
  \<open>_initialize\<close>: the migrations the file does not have yet, in one transaction. The statements of migration 1 create the tables; those of
  migration 2 add the columns of the manifest, with their defaults, and the constraints on completions, after the check that the events the
  file already holds satisfy them. \<open>now v\<close> is the clock when migration \<open>v\<close> is recorded.
\<close>

definition duplicate_completions :: "event_row list \<Rightarrow> bool" where
  "duplicate_completions rows \<longleftrightarrow> \<not> distinct (map (\<lambda>r. (rw_run_id r, rw_task_id r)) (filter is_completion rows))"

definition unsupported_completions :: "event_row list \<Rightarrow> bool" where
  "unsupported_completions rows \<longleftrightarrow> list_ex (\<lambda>c. is_completion c \<and> \<not> has_source rows c) rows"

definition execute_statements :: "int \<Rightarrow> run_db \<Rightarrow> run_db" where
  "execute_statements version db =
     (if version = 1 then db\<lparr>db_definitions := [], db_events := []\<rparr>
      else db\<lparr>db_definitions := map (\<lambda>d. d\<lparr>rd_manifest_digest := ''unspecified'', rd_manifest_revision := 1\<rparr>) (db_definitions db)\<rparr>)"

definition apply_migration :: "(int \<Rightarrow> int) \<Rightarrow> int \<Rightarrow> int \<times> string \<times> string list \<Rightarrow> run_db \<Rightarrow> (unit, run_db) stored" where
  "apply_migration now current m db =
     (case m of (version, name, statements) \<Rightarrow>
       if version \<le> current then
         (case find (\<lambda>g. mg_version g = version) (db_migrations db) of
            None \<Rightarrow> (Inl (RunStoreError (''schema migration '' @ int_string version @ '' checksum mismatch'')), db)
          | Some g \<Rightarrow>
              if mg_checksum g \<noteq> migration_checksum statements then
                (Inl (RunStoreError (''schema migration '' @ int_string version @ '' checksum mismatch'')), db)
              else (Inr (), db))
       else if version = 2 \<and> (duplicate_completions (db_events db) \<or> unsupported_completions (db_events db)) then
         (Inl (RunStoreError ''schema migration 2 refuses invalid historical completions''), db)
       else if \<not> int64 (now version) then (Inl StoreOverflowError, db)
       else
         (Inr (), (execute_statements version db)
            \<lparr>db_migrations := db_migrations db @
              [\<lparr>mg_version = version, mg_name = name, mg_checksum = migration_checksum statements, mg_applied_at_ms = now version\<rparr>]\<rparr>))"

fun apply_migrations :: "(int \<Rightarrow> int) \<Rightarrow> int \<Rightarrow> (int \<times> string \<times> string list) list \<Rightarrow> run_db \<Rightarrow> (unit, run_db) stored" where
  "apply_migrations now current [] db = (Inr (), db)"
| "apply_migrations now current (m # ms) db =
     (case apply_migration now current m db of
        (Inl e, db') \<Rightarrow> (Inl e, db')
      | (Inr _, db') \<Rightarrow> apply_migrations now current ms db')"

definition initialize_store :: "(int \<Rightarrow> int) \<Rightarrow> run_db \<Rightarrow> (unit, run_db) stored" where
  "initialize_store now = run_transaction (\<lambda>db.
     let current = coalesce_max (map mg_version (db_migrations db)) in
     if schema_version < current then
       (Inl (RunStoreError (''database schema '' @ int_string current @ '' is newer than supported '' @ int_string schema_version)), db)
     else apply_migrations now current migrations db)"

definition open_store :: "string \<Rightarrow> (int \<Rightarrow> int) \<Rightarrow> run_db \<Rightarrow> (unit, run_db) stored" where
  "open_store database_path now db =
     (if database_path = '':memory:'' then (Inl (StoreValueError ''a resumable run store requires a filesystem database''), db)
      else initialize_store now db)"

definition schema_versions :: "run_db \<Rightarrow> int list" where
  "schema_versions db = sort (map mg_version (db_migrations db))"

section \<open>Runs\<close>

definition find_run :: "run_db \<Rightarrow> string \<Rightarrow> run_definition option" where
  "find_run db run_id = find (\<lambda>d. rd_run_id d = run_id) (db_definitions db)"

definition insert_run :: "int \<Rightarrow> run_definition \<Rightarrow> run_db \<Rightarrow> (run_definition, run_db) stored" where
  "insert_run now d db =
     (if \<not> list_all int64 [rd_manifest_revision d, rd_deadline_at_ms d, now] then (Inl StoreOverflowError, db)
      else (Inr d, db\<lparr>db_definitions := db_definitions db @ [d]\<rparr>))"

definition get_or_create_run ::
  "int \<Rightarrow> string \<Rightarrow> string \<Rightarrow> (string \<times> json) list \<Rightarrow> int \<Rightarrow> string \<Rightarrow> int \<Rightarrow> run_db \<Rightarrow> (run_definition, run_db) stored" where
  "get_or_create_run now run_id graph_digest envelope deadline_at_ms manifest_digest manifest_revision db =
     (if run_id = [] \<or> graph_digest = [] \<or> manifest_digest = [] then
        (Inl (StoreValueError ''run_id, graph_digest, and manifest_digest are required''), db)
      else if manifest_revision \<le> 0 then (Inl (StoreValueError ''manifest_revision must be positive''), db)
      else if deadline_at_ms \<le> 0 then (Inl (StoreValueError ''deadline_at_ms must be positive''), db)
      else let envelope_json = store_json (JObj envelope) in
        run_transaction (\<lambda>db.
          case find_run db run_id of
            Some existing \<Rightarrow>
              if rd_graph_digest existing \<noteq> graph_digest \<or> rd_envelope_json existing \<noteq> envelope_json
                \<or> rd_manifest_digest existing \<noteq> manifest_digest \<or> rd_manifest_revision existing \<noteq> manifest_revision then
                (Inl (RunDefinitionConflict (''run '' @ py_repr run_id @ '' was defined with different immutable inputs'')), db)
              else (Inr existing, db)
          | None \<Rightarrow>
              insert_run now
                \<lparr>rd_run_id = run_id, rd_graph_digest = graph_digest, rd_envelope_json = envelope_json,
                 rd_manifest_digest = manifest_digest, rd_manifest_revision = manifest_revision,
                 rd_deadline_at_ms = deadline_at_ms, rd_created_at_ms = now\<rparr> db) db)"

definition get_run :: "string \<Rightarrow> run_db \<Rightarrow> store_error + run_definition" where
  "get_run run_id db = (case find_run db run_id of None \<Rightarrow> Inl (RunNotFound run_id) | Some d \<Rightarrow> Inr d)"

section \<open>Appending\<close>

definition immutable_event_values ::
  "string \<Rightarrow> string \<Rightarrow> string option \<Rightarrow> int option \<Rightarrow> string \<Rightarrow> usage_record
     \<Rightarrow> string \<times> string \<times> string option \<times> int option \<times> string \<times> int list" where
  "immutable_event_values run_id event_type task_id attempt payload_json u =
     (run_id, event_type, task_id, attempt, payload_json,
      [us_tokens (ur_estimated u), us_cost_microusd (ur_estimated u), us_context_bytes (ur_estimated u),
       us_tokens (ur_reserved u), us_cost_microusd (ur_reserved u), us_context_bytes (ur_reserved u),
       us_tokens (ur_actual u), us_cost_microusd (ur_actual u), us_context_bytes (ur_actual u)])"

definition row_immutable_event_values ::
  "event_row \<Rightarrow> string \<times> string \<times> string option \<times> int option \<times> string \<times> int list" where
  "row_immutable_event_values r =
     (rw_run_id r, rw_event_type r, rw_task_id r, rw_attempt r, rw_payload_json r, usage_columns r)"

definition run_rows :: "run_db \<Rightarrow> string \<Rightarrow> event_row list" where
  "run_rows db run_id = filter (\<lambda>r. rw_run_id r = run_id) (db_events db)"

definition next_sequence :: "run_db \<Rightarrow> string \<Rightarrow> int" where
  "next_sequence db run_id = coalesce_max (map rw_sequence (run_rows db run_id)) + 1"

definition new_row ::
  "int \<Rightarrow> int \<Rightarrow> string \<Rightarrow> string \<Rightarrow> string \<Rightarrow> string option \<Rightarrow> int option \<Rightarrow> string \<Rightarrow> usage_record \<Rightarrow> event_row" where
  "new_row now sequence run_id event_id event_type task_id attempt payload_json u =
     \<lparr>rw_run_id = run_id, rw_sequence = sequence, rw_event_id = event_id, rw_event_type = event_type,
      rw_task_id = task_id, rw_attempt = attempt, rw_occurred_at_ms = now, rw_payload_json = payload_json,
      rw_estimated_tokens = us_tokens (ur_estimated u), rw_estimated_cost_microusd = us_cost_microusd (ur_estimated u),
      rw_estimated_context_bytes = us_context_bytes (ur_estimated u),
      rw_reserved_tokens = us_tokens (ur_reserved u), rw_reserved_cost_microusd = us_cost_microusd (ur_reserved u),
      rw_reserved_context_bytes = us_context_bytes (ur_reserved u),
      rw_actual_tokens = us_tokens (ur_actual u), rw_actual_cost_microusd = us_cost_microusd (ur_actual u),
      rw_actual_context_bytes = us_context_bytes (ur_actual u)\<rparr>"

text \<open>The row read back after the insertion is the inserted one, the only row with its run and sequence.\<close>

definition append_in_transaction ::
  "int \<Rightarrow> string \<Rightarrow> string \<Rightarrow> string \<Rightarrow> string option \<Rightarrow> int option \<Rightarrow> string \<Rightarrow> usage_record
     \<Rightarrow> run_db \<Rightarrow> (run_event, run_db) stored" where
  "append_in_transaction now run_id event_id event_type task_id attempt payload_json u db =
     (case find (\<lambda>r. rw_event_id r = event_id) (db_events db) of
        Some existing \<Rightarrow>
          if row_immutable_event_values existing \<noteq> immutable_event_values run_id event_type task_id attempt payload_json u then
            (Inl (EventConflict (''event ID '' @ py_repr event_id @ '' has different content'')), db)
          else (event_from_row existing, db)
      | None \<Rightarrow>
          if find_run db run_id = None then (Inl (RunNotFound run_id), db)
          else
            let row = new_row now (next_sequence db run_id) run_id event_id event_type task_id attempt payload_json u in
            (case insert_event row db of
               (Inl e, db') \<Rightarrow> (Inl e, db')
             | (Inr _, db') \<Rightarrow> (event_from_row row, db')))"

definition append_event ::
  "int \<Rightarrow> string \<Rightarrow> string \<Rightarrow> string \<Rightarrow> string option \<Rightarrow> int option \<Rightarrow> (string \<times> json) list option \<Rightarrow> usage_record
     \<Rightarrow> run_db \<Rightarrow> (run_event, run_db) stored" where
  "append_event now run_id event_id event_type task_id attempt payload u db =
     (if event_id = [] \<or> event_type = [] then (Inl (StoreValueError ''event_id and event_type are required''), db)
      else if (case attempt of None \<Rightarrow> False | Some a \<Rightarrow> a \<le> 0) then (Inl (StoreValueError ''attempt must be positive''), db)
      else let payload_json = store_json (JObj (case payload of None \<Rightarrow> [] | Some p \<Rightarrow> p)) in
        run_transaction (append_in_transaction now run_id event_id event_type task_id attempt payload_json u) db)"

section \<open>Attempts\<close>

definition next_attempt :: "run_db \<Rightarrow> string \<Rightarrow> string \<Rightarrow> int" where
  "next_attempt db run_id task_id =
     coalesce_max (List.map_filter rw_attempt
       (filter (\<lambda>r. rw_run_id r = run_id \<and> rw_task_id r = Some task_id \<and> rw_event_type r = ''task.attempt_started'') (db_events db))) + 1"

definition attempt_event_id :: "string \<Rightarrow> string \<Rightarrow> int \<Rightarrow> string \<Rightarrow> string" where
  "attempt_event_id run_id task_id attempt outcome =
     run_id @ '':'' @ task_id @ '':attempt:'' @ int_string attempt @ '':'' @ outcome"

definition start_attempt ::
  "int \<Rightarrow> string \<Rightarrow> string \<Rightarrow> string \<Rightarrow> string \<Rightarrow> usage \<Rightarrow> usage \<Rightarrow> run_db \<Rightarrow> (run_event, run_db) stored" where
  "start_attempt now run_id task_id provider backend estimated reserved db =
     (if task_id = [] \<or> provider = [] \<or> backend = [] then
        (Inl (StoreValueError ''task_id, provider, and backend are required''), db)
      else run_transaction (\<lambda>db.
        let attempt = next_attempt db run_id task_id in
        append_in_transaction now run_id (attempt_event_id run_id task_id attempt ''started'') ''task.attempt_started''
          (Some task_id) (Some attempt) (store_json (JObj [(''provider'', JStr provider), (''backend'', JStr backend)]))
          \<lparr>ur_estimated = estimated, ur_reserved = reserved, ur_actual = usage_zero\<rparr> db) db)"

text \<open>\<open>now\<close> and \<open>now'\<close> are the clock at the two insertions.\<close>

definition completed_event_id :: "string \<Rightarrow> string \<Rightarrow> string" where
  "completed_event_id run_id task_id = run_id @ '':'' @ task_id @ '':completed''"

definition append_completion ::
  "int \<Rightarrow> int \<Rightarrow> string \<Rightarrow> string \<Rightarrow> int \<Rightarrow> json \<Rightarrow> usage_record \<Rightarrow> string \<Rightarrow> run_db \<Rightarrow> (run_event \<times> run_event, run_db) stored" where
  "append_completion now now' run_id task_id attempt output_value u output_kind db =
     (case append_in_transaction now run_id (attempt_event_id run_id task_id attempt ''succeeded'') ''task.attempt_succeeded''
        (Some task_id) (Some attempt)
        (store_json (JObj [(''output'', output_value), (''output_validated'', JBool True)])) u db of
        (Inl e, db') \<Rightarrow> (Inl e, db')
      | (Inr succeeded, db') \<Rightarrow>
          (case append_in_transaction now' run_id (completed_event_id run_id task_id) ''task.completed''
             (Some task_id) (Some attempt)
             (store_json (JObj [(''output'', output_value), (''kind'', JStr output_kind)])) u db' of
             (Inl e, db'') \<Rightarrow> (Inl e, db'')
           | (Inr completed, db'') \<Rightarrow> (Inr (succeeded, completed), db'')))"

definition complete_attempt ::
  "int \<Rightarrow> int \<Rightarrow> string \<Rightarrow> string \<Rightarrow> int \<Rightarrow> json \<Rightarrow> usage \<Rightarrow> usage \<Rightarrow> usage \<Rightarrow> string \<Rightarrow> run_db
     \<Rightarrow> (run_event \<times> run_event, run_db) stored" where
  "complete_attempt now now' run_id task_id attempt output estimated reserved actual output_kind db =
     (if task_id = [] \<or> attempt \<le> 0 \<or> output_kind = [] then
        (Inl (StoreValueError ''task_id, positive attempt, and output_kind are required''), db)
      else
        (case json_loads (store_json output) of
           None \<Rightarrow> (Inl (StoreValueError ''Expecting value''), db)
         | Some output_value \<Rightarrow>
             run_transaction (append_completion now now' run_id task_id attempt output_value
               \<lparr>ur_estimated = estimated, ur_reserved = reserved, ur_actual = actual\<rparr> output_kind) db))"

section \<open>Reading\<close>

fun collect :: "('e + 'a) list \<Rightarrow> 'e + 'a list" where
  "collect [] = Inr []"
| "collect (Inl e # xs) = Inl e"
| "collect (Inr x # xs) = (case collect xs of Inl e \<Rightarrow> Inl e | Inr ys \<Rightarrow> Inr (x # ys))"

definition store_events :: "string \<Rightarrow> run_db \<Rightarrow> store_error + run_event list" where
  "store_events run_id db =
     (if find_run db run_id = None then Inl (RunNotFound run_id)
      else collect (map event_from_row (sort_key rw_sequence (run_rows db run_id))))"

text \<open>The join of \<open>completed_tasks\<close>: for each task the completion with the greatest sequence, ordered by task. The groups of
  completions without a task join with nothing.\<close>

definition completions_of :: "run_db \<Rightarrow> string \<Rightarrow> event_row list" where
  "completions_of db run_id = filter is_completion (run_rows db run_id)"

definition latest_completion :: "run_db \<Rightarrow> string \<Rightarrow> event_row \<Rightarrow> bool" where
  "latest_completion db run_id r \<longleftrightarrow>
     rw_task_id r \<noteq> None
     \<and> rw_sequence r \<in> set (map rw_sequence (filter (\<lambda>s. rw_task_id s = rw_task_id r) (completions_of db run_id)))
     \<and> rw_sequence r = coalesce_max (map rw_sequence (filter (\<lambda>s. rw_task_id s = rw_task_id r) (completions_of db run_id)))"

definition latest_rows :: "run_db \<Rightarrow> string \<Rightarrow> event_row list" where
  "latest_rows db run_id =
     sort_key (\<lambda>r. the (rw_task_id r)) (filter (latest_completion db run_id) (run_rows db run_id))"

text \<open>One row of the result. The payload of a completion is an object, since every event is appended with one.\<close>

definition completed_from_row :: "event_row \<Rightarrow> store_error + string \<times> completed_task" where
  "completed_from_row r =
     (case event_from_row r of
        Inl e \<Rightarrow> Inl e
      | Inr event \<Rightarrow>
          (case run_event_payload event of
             None \<Rightarrow> Inl (StoreValueError ''Expecting value'')
           | Some (JObj payload) \<Rightarrow>
               (case dget payload ''output'' of
                  None \<Rightarrow> Inl (RunStoreError (''task completion '' @ py_repr (re_event_id event) @ '' has no output payload''))
                | Some v \<Rightarrow>
                    let task_id = the (re_task_id event) in
                    Inr (task_id, \<lparr>ct_task_id = task_id, ct_output_json = store_json v, ct_event = event\<rparr>))
           | Some _ \<Rightarrow> Inl (RunStoreError (''task completion '' @ py_repr (re_event_id event) @ '' has no output payload''))))"

definition completed_tasks :: "string \<Rightarrow> run_db \<Rightarrow> store_error + (string, completed_task) dict" where
  "completed_tasks run_id db =
     (case collect (map completed_from_row (latest_rows db run_id)) of
        Inl e \<Rightarrow> Inl e
      | Inr cs \<Rightarrow> Inr (foldl (\<lambda>d (k, c). dset k c d) [] cs))"

section \<open>Calls\<close>

datatype store_call =
    Open string "int \<Rightarrow> int"
  | CreateRun int string string "(string \<times> json) list" int string int
  | AppendEvent int string string string "string option" "int option" "(string \<times> json) list option" usage_record
  | StartAttempt int string string string string usage usage
  | CompleteAttempt int int string string int json usage usage usage string

fun store_step :: "run_db \<Rightarrow> store_call \<Rightarrow> run_db" where
  "store_step db (Open path now) = snd (open_store path now db)"
| "store_step db (CreateRun now run_id digest envelope deadline manifest revision) =
     snd (get_or_create_run now run_id digest envelope deadline manifest revision db)"
| "store_step db (AppendEvent now run_id event_id event_type task_id attempt payload u) =
     snd (append_event now run_id event_id event_type task_id attempt payload u db)"
| "store_step db (StartAttempt now run_id task_id provider backend estimated reserved) =
     snd (start_attempt now run_id task_id provider backend estimated reserved db)"
| "store_step db (CompleteAttempt now now' run_id task_id attempt output estimated reserved actual output_kind) =
     snd (complete_attempt now now' run_id task_id attempt output estimated reserved actual output_kind db)"

end
