(* ===== verification/Run_Store_Laws.thy ===== *)
theory Run_Store_Laws
  imports Run_Store "HOL-Library.Sublist"
begin

text \<open>
  What every call of the run store keeps: the schema, the rows of each run numbered from one without a gap, the unique keys, the
  source of every completion; and that a call only adds rows at the end, and none when it raises.
\<close>

section \<open>The invariant\<close>

definition schema_at :: "run_db \<Rightarrow> nat \<Rightarrow> bool" where
  "schema_at db n \<longleftrightarrow>
     map (\<lambda>g. (mg_version g, mg_name g, mg_checksum g)) (db_migrations db)
     = map (\<lambda>(version, name, statements). (version, name, migration_checksum statements)) (take n migrations)"

definition numbered :: "run_db \<Rightarrow> bool" where
  "numbered db \<longleftrightarrow> (\<forall>run_id. map rw_sequence (run_rows db run_id) = map int [1..<Suc (length (run_rows db run_id))])"

definition store_rows_ok :: "run_db \<Rightarrow> bool" where
  "store_rows_ok db \<longleftrightarrow>
     numbered db \<and> distinct (map rw_event_id (db_events db)) \<and> distinct (map rd_run_id (db_definitions db))
     \<and> (\<forall>r \<in> set (db_events db). row_checks r \<and> rw_run_id r \<in> rd_run_id ` set (db_definitions db))"

definition completions_ok :: "run_db \<Rightarrow> bool" where
  "completions_ok db \<longleftrightarrow> \<not> duplicate_completions (db_events db) \<and> \<not> unsupported_completions (db_events db)"

definition store_ok :: "run_db \<Rightarrow> bool" where
  "store_ok db \<longleftrightarrow> schema_at db 2 \<and> store_rows_ok db \<and> completions_ok db"

text \<open>The files an instance can be given: a new one, one of the first schema, or one of the second.\<close>

definition file_ok :: "run_db \<Rightarrow> bool" where
  "file_ok db \<longleftrightarrow> db = empty_file \<or> schema_at db 1 \<and> store_rows_ok db \<or> store_ok db"

definition extends :: "run_db \<Rightarrow> run_db \<Rightarrow> bool" where
  "extends db db' \<longleftrightarrow>
     db_migrations db' = db_migrations db \<and> prefix (db_definitions db) (db_definitions db') \<and> prefix (db_events db) (db_events db')"

lemma extends_refl [simp]: "extends db db"
  by (simp add: extends_def)

lemma extends_trans: "extends db db' \<Longrightarrow> extends db' db'' \<Longrightarrow> extends db db''"
  by (auto simp: extends_def intro: prefix_order.trans)

lemma extends_rows: "extends db db' \<Longrightarrow> set (db_events db) \<subseteq> set (db_events db')"
  by (auto simp: extends_def prefix_def)

section \<open>Rows and aggregates\<close>

lemma coalesce_max_ge: "x \<in> set xs \<Longrightarrow> x \<le> coalesce_max xs"
  using foldl_max_ge [of "hd xs" "tl xs"] by (cases xs) (auto simp: coalesce_max_def)

lemma coalesce_max_in: "xs \<noteq> [] \<Longrightarrow> coalesce_max xs \<in> set xs"
  using foldl_max_in [of "hd xs" "tl xs"] by (cases xs) (auto simp: coalesce_max_def)

lemma coalesce_max_upto [simp]: "coalesce_max (map int [1..<Suc n]) = int n"
proof (cases "n = 0")
  case False
  then have "int n \<in> set (map int [1..<Suc n])" and "map int [1..<Suc n] \<noteq> []" by auto
  from coalesce_max_ge [OF this(1)] coalesce_max_in [OF this(2)] show ?thesis by (auto simp del: upt_Suc)
qed (simp add: coalesce_max_def)

lemma find_Some_in: "find P xs = Some x \<Longrightarrow> x \<in> set xs \<and> P x"
  by (auto simp: find_Some_iff)

lemma find_unique: "distinct (map f xs) \<Longrightarrow> x \<in> set xs \<Longrightarrow> find (\<lambda>y. f y = f x) xs = Some x"
  by (induction xs) (auto simp: image_iff)

lemma find_append_Some: "find P xs = Some x \<Longrightarrow> find P (xs @ ys) = Some x"
  by (induction xs) auto

lemma find_run_None: "find_run db run_id = None \<longleftrightarrow> run_id \<notin> rd_run_id ` set (db_definitions db)"
  by (auto simp: find_run_def find_None_iff)

lemma next_sequence_eq: "numbered db \<Longrightarrow> next_sequence db run_id = int (length (run_rows db run_id)) + 1"
  by (simp add: next_sequence_def numbered_def del: upt_Suc One_nat_def)

lemma event_from_checked: "row_checks r \<Longrightarrow> \<exists>ev. event_from_row r = Inr ev"
  by (auto simp: event_from_row_def row_checks_def usage_columns_def mk_usage_def)

text \<open>What the event of a row shows of it.\<close>

lemma event_from_row_fields:
  "event_from_row r = Inr ev \<Longrightarrow>
     re_run_id ev = rw_run_id r \<and> re_sequence ev = rw_sequence r \<and> re_event_id ev = rw_event_id r
     \<and> re_event_type ev = rw_event_type r \<and> re_task_id ev = rw_task_id r \<and> re_attempt ev = rw_attempt r
     \<and> re_payload_json ev = rw_payload_json r \<and> record_nonneg (re_usage ev)"
  by (auto simp: event_from_row_def record_nonneg_def mk_usage_nonneg split: option.splits)

lemma collect_Inr: "collect xs = Inr ys \<longleftrightarrow> xs = map Inr ys"
proof (induction xs arbitrary: ys rule: collect.induct)
  case (3 x xs)
  show ?case using 3 [of "tl ys"] by (cases "collect xs") (cases ys; auto)+
qed auto

lemma collect_map: "list_all (\<lambda>x. \<exists>y. f x = Inr y) xs \<Longrightarrow> \<exists>ys. collect (map f xs) = Inr ys"
  by (induction xs) auto

section \<open>Insertion\<close>

lemma run_transaction_Inl: "run_transaction body db = (Inl e, db') \<Longrightarrow> db' = db"
  by (auto simp: run_transaction_def split: prod.splits sum.splits)

lemma run_transaction_Inr: "run_transaction body db = (Inr x, db') \<longleftrightarrow> body db = (Inr x, db')"
  by (auto simp: run_transaction_def split: prod.splits sum.splits)

lemma insert_event_Inl: "insert_event r db = (Inl e, db') \<Longrightarrow> db' = db"
  by (auto simp: insert_event_def split: if_splits)

lemma insert_event_Inr:
  assumes "insert_event r db = (Inr (), db')"
  shows "db' = db\<lparr>db_events := db_events db @ [r]\<rparr>" and "row_checks r" and "\<not> list_ex (same_key r) (db_events db)"
    and "is_completion r \<Longrightarrow> rw_task_id r \<noteq> None \<and> has_source (db_events db) r"
    and "rw_run_id r \<in> rd_run_id ` set (db_definitions db)"
  using assms by (auto simp: insert_event_def list_ex_iff split: if_splits intro: image_eqI [OF sym])

lemma has_source_append: "has_source rows c \<Longrightarrow> has_source (rows @ rows') c"
  by (simp add: has_source_def)

lemma insert_event_ok:
  assumes "store_ok db" and ins: "insert_event r db = (Inr (), db')" and seq: "rw_sequence r = next_sequence db (rw_run_id r)"
  shows "store_ok db' \<and> extends db db'"
proof -
  note row = insert_event_Inr [OF ins]
  from assms(1) have old: "numbered db" "store_rows_ok db" "completions_ok db" "schema_at db 2"
    by (auto simp: store_ok_def store_rows_ok_def)
  have "map rw_sequence (run_rows db' run_id) = map int [1..<Suc (length (run_rows db' run_id))]" for run_id
    using old(1) seq next_sequence_eq [OF old(1)] by (simp add: row(1) run_rows_def numbered_def)
  then have "numbered db'" by (simp add: numbered_def)
  moreover have "rw_event_id r \<notin> rw_event_id ` set (db_events db)"
    using row(3) by (auto simp: list_ex_iff same_key_def)
  ultimately have "store_rows_ok db'" using old(2) row(2,5) by (auto simp: store_rows_ok_def row(1))
  moreover have "completions_ok db'"
  proof -
    have "(rw_run_id r, rw_task_id r) \<notin> (\<lambda>r. (rw_run_id r, rw_task_id r)) ` set (filter is_completion (db_events db))" if "is_completion r"
      using row(3) row(4) [OF that] that by (auto simp: list_ex_iff same_key_def)
    then have "\<not> duplicate_completions (db_events db')"
      using old(3) by (auto simp: completions_ok_def duplicate_completions_def row(1))
    moreover have "\<not> unsupported_completions (db_events db')"
      using old(3) row(4) by (auto simp: completions_ok_def unsupported_completions_def row(1) list_ex_iff has_source_append)
    ultimately show ?thesis by (simp add: completions_ok_def)
  qed
  ultimately show ?thesis using old(4) by (simp add: store_ok_def schema_at_def extends_def row(1))
qed

section \<open>Appending\<close>

text \<open>The three ways an append ends: the event is there already, it is new, or the call raises.\<close>

lemma append_cases:
  assumes "append_in_transaction now run_id event_id event_type task_id attempt payload_json u db = (res, db')"
  obtains (replayed) r ev where "find (\<lambda>r. rw_event_id r = event_id) (db_events db) = Some r"
      and "row_immutable_event_values r = immutable_event_values run_id event_type task_id attempt payload_json u"
      and "event_from_row r = Inr ev" and "res = Inr ev" and "db' = db"
  | (appended) r ev where "find (\<lambda>r. rw_event_id r = event_id) (db_events db) = None"
      and "r = new_row now (next_sequence db run_id) run_id event_id event_type task_id attempt payload_json u"
      and "insert_event r db = (Inr (), db')" and "event_from_row r = Inr ev" and "res = Inr ev"
  | (raised) e where "res = Inl e" and "db' = db"
proof (cases "find (\<lambda>r. rw_event_id r = event_id) (db_events db)")
  case None
  let ?r = "new_row now (next_sequence db run_id) run_id event_id event_type task_id attempt payload_json u"
  show thesis
  proof (cases "find_run db run_id")
    case None
    with \<open>find _ _ = None\<close> assms that(3) show ?thesis by (auto simp: append_in_transaction_def)
  next
    case (Some d)
    obtain out db1 where ins: "insert_event ?r db = (out, db1)" by fastforce
    show ?thesis
    proof (cases out)
      case (Inl e)
      with insert_event_Inl [of ?r db e db1] ins None Some assms that(3) show ?thesis
        by (auto simp: append_in_transaction_def Let_def)
    next
      case (Inr x)
      then have ins': "insert_event ?r db = (Inr (), db1)" using ins by simp
      obtain ev where "event_from_row ?r = Inr ev" using event_from_checked insert_event_Inr(2) [OF ins'] by blast
      with None Some assms ins' show ?thesis
        by (intro that(2) [of ?r ev]) (auto simp: append_in_transaction_def Let_def)
    qed
  qed
next
  case (Some r)
  from Some assms have "db' = db \<and> ((\<exists>e. res = Inl e)
      \<or> row_immutable_event_values r = immutable_event_values run_id event_type task_id attempt payload_json u \<and> res = event_from_row r)"
    by (auto simp: append_in_transaction_def split: if_splits)
  with Some that(1,3) show thesis by (cases res) metis+
qed

lemma new_row_fields [simp]:
  "rw_run_id (new_row now s run_id event_id event_type task_id attempt payload_json u) = run_id"
  "rw_sequence (new_row now s run_id event_id event_type task_id attempt payload_json u) = s"
  "rw_event_id (new_row now s run_id event_id event_type task_id attempt payload_json u) = event_id"
  "rw_event_type (new_row now s run_id event_id event_type task_id attempt payload_json u) = event_type"
  "rw_task_id (new_row now s run_id event_id event_type task_id attempt payload_json u) = task_id"
  "rw_attempt (new_row now s run_id event_id event_type task_id attempt payload_json u) = attempt"
  "rw_payload_json (new_row now s run_id event_id event_type task_id attempt payload_json u) = payload_json"
  "row_immutable_event_values (new_row now s run_id event_id event_type task_id attempt payload_json u)
     = immutable_event_values run_id event_type task_id attempt payload_json u"
  by (simp_all add: new_row_def row_immutable_event_values_def immutable_event_values_def usage_columns_def)

lemma append_ok:
  assumes "store_ok db" and "append_in_transaction now run_id event_id event_type task_id attempt payload_json u db = (res, db')"
  shows "store_ok db' \<and> extends db db'"
  using assms(2) by (cases rule: append_cases) (use assms(1) in \<open>auto dest: insert_event_ok\<close>)

text \<open>A successful append leaves the one row with its identifier, with the values of the call; that is all a later append of the
  same event needs.\<close>

definition holds_event ::
  "run_db \<Rightarrow> string \<Rightarrow> string \<times> string \<times> string option \<times> int option \<times> string \<times> int list \<Rightarrow> run_event \<Rightarrow> bool" where
  "holds_event db event_id values ev \<longleftrightarrow>
     (\<exists>r. find (\<lambda>r. rw_event_id r = event_id) (db_events db) = Some r \<and> row_immutable_event_values r = values
       \<and> event_from_row r = Inr ev)"

lemma find_snoc: "find P xs = None \<Longrightarrow> P x \<Longrightarrow> find P (xs @ [x]) = Some x"
  by (induction xs) (auto split: if_splits)

lemma append_holds:
  assumes "append_in_transaction now run_id event_id event_type task_id attempt payload_json u db = (Inr ev, db')"
  shows "holds_event db' event_id (immutable_event_values run_id event_type task_id attempt payload_json u) ev"
  using assms
proof (cases rule: append_cases)
  case (appended r ev')
  then show ?thesis using insert_event_Inr(1) [OF appended(3)] by (auto simp: holds_event_def find_snoc)
qed (auto simp: holds_event_def)

lemma holds_extends: "holds_event db event_id values ev \<Longrightarrow> extends db db' \<Longrightarrow> holds_event db' event_id values ev"
  by (auto simp: holds_event_def extends_def prefix_def find_append_Some)

lemma append_again:
  assumes "holds_event db event_id (immutable_event_values run_id event_type task_id attempt payload_json u) ev"
  shows "append_in_transaction now run_id event_id event_type task_id attempt payload_json u db = (Inr ev, db)"
  using assms by (auto simp: holds_event_def append_in_transaction_def)

lemma append_other:
  assumes "holds_event db event_id values ev"
    and "values \<noteq> immutable_event_values run_id event_type task_id attempt payload_json u"
  shows "append_in_transaction now run_id event_id event_type task_id attempt payload_json u db
    = (Inl (EventConflict (''event ID '' @ py_repr event_id @ '' has different content'')), db)"
  using assms by (auto simp: holds_event_def append_in_transaction_def)

end
