(* ===== verification/Run_Store_Props.thy ===== *)
theory Run_Store_Props
  imports Run_Store_Laws
begin

text \<open>
  The calls of the run store keep its invariant and extend it (an interpretation of the locale of stateful components),
  and what a caller relies on: the ledger of a run, events that are appended once, durable outputs, fresh
  attempts and the upgrade of older files.
\<close>

section \<open>Calls\<close>

lemma run_added_ok:
  assumes "store_ok db" and "rd_run_id d \<notin> rd_run_id ` set (db_definitions db)"
  shows "store_ok (db\<lparr>db_definitions := db_definitions db @ [d]\<rparr>)"
  using assms by (auto simp: store_ok_def store_rows_ok_def completions_ok_def schema_at_def numbered_def run_rows_def)

lemma create_ok:
  assumes "store_ok db"
    and "get_or_create_run now run_id digest envelope deadline manifest revision db = (res, db')"
  shows "store_ok db' \<and> extends db db'"
proof -
  let ?d = "\<lparr>rd_run_id = run_id, rd_graph_digest = digest, rd_envelope_json = store_json (JObj envelope),
     rd_manifest_digest = manifest, rd_manifest_revision = revision, rd_deadline_at_ms = deadline, rd_created_at_ms = now\<rparr>"
  have "db' = db \<or> run_id \<notin> rd_run_id ` set (db_definitions db) \<and> db' = db\<lparr>db_definitions := db_definitions db @ [?d]\<rparr>"
    using assms(2) unfolding get_or_create_run_def run_transaction_def insert_run_def Let_def
    by (auto split: option.splits if_splits prod.splits sum.splits simp: find_run_None)
  with assms(1) run_added_ok [of db ?d] show ?thesis by (auto simp: extends_def)
qed

lemma append_event_ok:
  assumes "store_ok db" and "append_event now run_id event_id event_type task_id attempt payload u db = (res, db')"
  shows "store_ok db' \<and> extends db db'"
proof -
  obtain out db1 where a: "append_in_transaction now run_id event_id event_type task_id attempt
      (store_json (JObj (case payload of None \<Rightarrow> [] | Some p \<Rightarrow> p))) u db = (out, db1)" by fastforce
  have "db' = db \<or> db' = db1"
    using assms(2) a by (auto simp: append_event_def run_transaction_def Let_def split: if_splits sum.splits)
  with append_ok [OF assms(1) a] assms(1) show ?thesis by auto
qed

lemma start_attempt_ok:
  assumes "store_ok db" and "start_attempt now run_id task_id provider backend estimated reserved db = (res, db')"
  shows "store_ok db' \<and> extends db db'"
proof -
  let ?n = "next_attempt db run_id task_id"
  obtain out db1 where a: "append_in_transaction now run_id (attempt_event_id run_id task_id ?n ''started'') ''task.attempt_started''
      (Some task_id) (Some ?n) (store_json (JObj [(''provider'', JStr provider), (''backend'', JStr backend)]))
      \<lparr>ur_estimated = estimated, ur_reserved = reserved, ur_actual = usage_zero\<rparr> db = (out, db1)" by fastforce
  have "db' = db \<or> db' = db1"
    using assms(2) a by (auto simp: start_attempt_def run_transaction_def Let_def split: if_splits sum.splits)
  with append_ok [OF assms(1) a] assms(1) show ?thesis by auto
qed

text \<open>Both appends of a completion, each with what it leaves.\<close>

lemma completion_cases:
  assumes "append_completion now now' run_id task_id attempt v u kind db = (Inr (s, c), db')"
  obtains db1 where
    "append_in_transaction now run_id (attempt_event_id run_id task_id attempt ''succeeded'') ''task.attempt_succeeded''
       (Some task_id) (Some attempt) (store_json (JObj [(''output'', v), (''output_validated'', JBool True)])) u db = (Inr s, db1)"
    "append_in_transaction now' run_id (completed_event_id run_id task_id) ''task.completed''
       (Some task_id) (Some attempt) (store_json (JObj [(''output'', v), (''kind'', JStr kind)])) u db1 = (Inr c, db')"
  using assms by (auto simp: append_completion_def split: prod.splits sum.splits)

lemma complete_cases:
  assumes "complete_attempt now now' run_id task_id attempt output estimated reserved actual kind db = (res, db')"
  obtains (raised) e where "res = Inl e" and "db' = db"
  | (completed) v s c where "json_loads (store_json output) = Some v" and "res = Inr (s, c)"
      and "append_completion now now' run_id task_id attempt v
        \<lparr>ur_estimated = estimated, ur_reserved = reserved, ur_actual = actual\<rparr> kind db = (Inr (s, c), db')"
  using assms by (auto simp: complete_attempt_def run_transaction_def split: if_splits option.splits prod.splits sum.splits)

lemma complete_ok:
  assumes "store_ok db"
    and "complete_attempt now now' run_id task_id attempt output estimated reserved actual kind db = (res, db')"
  shows "store_ok db' \<and> extends db db'"
  using assms(2)
proof (cases rule: complete_cases)
  case (completed v s c)
  from completed(3) show ?thesis
  proof (cases rule: completion_cases)
    case (1 db1)
    then show ?thesis using append_ok [OF assms(1) 1(1)] append_ok [OF _ 1(2)] by (auto intro: extends_trans)
  qed
qed (use assms(1) in auto)

section \<open>Opening\<close>

lemma schema_at_append:
  "schema_at db 1 \<Longrightarrow> schema_at (db\<lparr>db_definitions := ds, db_migrations := db_migrations db @
      [\<lparr>mg_version = 2, mg_name = ''manifest_and_completion_invariants'', mg_checksum = migration_checksum migration_2, mg_applied_at_ms = n\<rparr>]\<rparr>) 2"
  by (simp add: schema_at_def migrations_def numeral_2_eq_2)

lemma file_versions:
  "schema_at db 1 \<Longrightarrow> \<exists>g. db_migrations db = [g] \<and> mg_version g = 1 \<and> mg_checksum g = migration_checksum initial_schema"
  "schema_at db 2 \<Longrightarrow> \<exists>g h. db_migrations db = [g, h] \<and> mg_version g = 1 \<and> mg_checksum g = migration_checksum initial_schema
     \<and> mg_version h = 2 \<and> mg_checksum h = migration_checksum migration_2"
  by (auto simp: schema_at_def migrations_def numeral_2_eq_2 map_eq_Cons_conv)

text \<open>A current file is left as it is.\<close>

lemma open_current:
  assumes "schema_at db 2" and "path \<noteq> '':memory:''"
  shows "open_store path now db = (Inr (), db)"
  using file_versions(2) [OF assms(1)] assms(2)
  by (auto simp: open_store_def initialize_store_def run_transaction_def Let_def coalesce_max_def schema_version_def migrations_def
      apply_migration_def)

lemma open_raises: "open_store path now db = (Inl e, db') \<Longrightarrow> db' = db"
  by (auto simp: open_store_def initialize_store_def dest: run_transaction_Inl split: if_splits)

text \<open>The definitions of a file of the first schema get the default manifest, its events stay.\<close>

definition with_default_manifest :: "run_definition \<Rightarrow> run_definition" where
  "with_default_manifest d = d\<lparr>rd_manifest_digest := ''unspecified'', rd_manifest_revision := 1\<rparr>"

lemma open_first_schema:
  assumes "schema_at db 1" and "path \<noteq> '':memory:''" and "int64 (now 2)"
  shows "open_store path now db =
    (if completions_ok db then
       (Inr (), db\<lparr>db_definitions := map with_default_manifest (db_definitions db),
          db_migrations := db_migrations db @ [\<lparr>mg_version = 2, mg_name = ''manifest_and_completion_invariants'',
            mg_checksum = migration_checksum migration_2, mg_applied_at_ms = now 2\<rparr>]\<rparr>)
     else (Inl (RunStoreError ''schema migration 2 refuses invalid historical completions''), db))"
  using file_versions(1) [OF assms(1)] assms(2,3)
  by (auto simp: open_store_def initialize_store_def run_transaction_def Let_def coalesce_max_def schema_version_def migrations_def
      apply_migration_def execute_statements_def completions_ok_def with_default_manifest_def [abs_def])

lemma open_empty:
  assumes "open_store path now empty_file = (Inr (), db)"
  shows "store_ok db \<and> db_definitions db = [] \<and> db_events db = []"
  using assms
  by (auto simp: open_store_def initialize_store_def run_transaction_def Let_def coalesce_max_def schema_version_def migrations_def
      apply_migration_def execute_statements_def empty_file_def store_ok_def schema_at_def store_rows_ok_def numbered_def run_rows_def
      completions_ok_def duplicate_completions_def unsupported_completions_def numeral_2_eq_2
      split: if_splits prod.splits sum.splits)

lemma manifest_rows_ok:
  "store_rows_ok db \<Longrightarrow> store_rows_ok (db\<lparr>db_definitions := map with_default_manifest (db_definitions db), db_migrations := ms\<rparr>)"
  by (auto simp: store_rows_ok_def numbered_def run_rows_def with_default_manifest_def o_def image_image)

lemma open_ok:
  assumes "file_ok db" and "open_store path now db = (Inr (), db')"
  shows "store_ok db'"
proof -
  have path: "path \<noteq> '':memory:''" using assms(2) by (auto simp: open_store_def)
  consider "db = empty_file" | "schema_at db 1" "store_rows_ok db" | "store_ok db" using assms(1) by (auto simp: file_ok_def)
  then show ?thesis
  proof cases
    case 1
    with assms(2) open_empty show ?thesis by auto
  next
    case 2
    then obtain g where g: "db_migrations db = [g]" "mg_version g = 1" using file_versions(1) by blast
    have "int64 (now 2)"
      using assms(2) g path file_versions(1) [OF 2(1)]
      by (auto simp: open_store_def initialize_store_def run_transaction_def Let_def coalesce_max_def schema_version_def
          migrations_def apply_migration_def split: if_splits)
    with open_first_schema [OF 2(1) path] assms(2) have "completions_ok db"
      and db': "db' = db\<lparr>db_definitions := map with_default_manifest (db_definitions db),
          db_migrations := db_migrations db @ [\<lparr>mg_version = 2, mg_name = ''manifest_and_completion_invariants'',
            mg_checksum = migration_checksum migration_2, mg_applied_at_ms = now 2\<rparr>]\<rparr>"
      by (auto split: if_splits)
    then show ?thesis
      using manifest_rows_ok [OF 2(2)] schema_at_append [OF 2(1)] by (simp add: store_ok_def completions_ok_def)
  next
    case 3
    then show ?thesis using open_current [of db path now] path assms(2) by (simp add: store_ok_def)
  qed
qed

section \<open>All calls\<close>

lemma step_ok: "store_ok db \<Longrightarrow> store_ok (store_step db c) \<and> extends db (store_step db c)"
proof (cases c)
  case (Open path now)
  assume ok: "store_ok db"
  have "snd (open_store path now db) = db"
    using open_current [of db path now] ok by (cases "path = '':memory:''") (auto simp: store_ok_def open_store_def)
  with ok Open show ?thesis by simp
qed (simp_all add: create_ok [OF _ prod.collapse [symmetric]] append_event_ok [OF _ prod.collapse [symmetric]]
    start_attempt_ok [OF _ prod.collapse [symmetric]] complete_ok [OF _ prod.collapse [symmetric]])

interpretation run_store: stateful store_step "\<lambda>db. store_ok db \<and> extends db0 db" for db0
  by unfold_locales (use step_ok extends_trans in blast)

lemma run_ok: "store_ok db \<Longrightarrow> store_ok (foldl store_step db cs) \<and> extends db (foldl store_step db cs)"
  by (rule run_store.inv_run) simp

section \<open>The ledger of a run\<close>

lemma run_rows_sorted: "numbered db \<Longrightarrow> sort_key rw_sequence (run_rows db run_id) = run_rows db run_id"
proof -
  assume "numbered db"
  then have "map rw_sequence (run_rows db run_id) = map int [1..<Suc (length (run_rows db run_id))]" by (simp add: numbered_def)
  moreover have "sorted (map int [1..<Suc n])" for n by (auto simp: sorted_map sorted_wrt_upt intro: sorted_wrt_mono_rel [OF _ sorted_wrt_upt] simp del: upt_Suc)
  ultimately show ?thesis by (intro sort_key_id_if_sorted) simp
qed

lemma rows_event: "store_rows_ok db \<Longrightarrow> r \<in> set (db_events db) \<Longrightarrow> \<exists>ev. event_from_row r = Inr ev"
  by (auto simp: store_rows_ok_def intro: event_from_checked)

lemma set_run_rows: "set (run_rows db run_id) = {r \<in> set (db_events db). rw_run_id r = run_id}"
  by (auto simp: run_rows_def)

text \<open>The events of a run, as rows.\<close>

lemma store_events_rows:
  assumes "store_ok db" and "find_run db run_id = Some d"
  obtains evs where "store_events run_id db = Inr evs" and "map event_from_row (run_rows db run_id) = map Inr evs"
proof -
  have ok: "store_rows_ok db" "numbered db" using assms(1) by (auto simp: store_ok_def store_rows_ok_def)
  then have "list_all (\<lambda>r. \<exists>ev. event_from_row r = Inr ev) (run_rows db run_id)"
    by (auto simp: list_all_iff set_run_rows intro: rows_event)
  from collect_map [OF this] obtain evs where "collect (map event_from_row (run_rows db run_id)) = Inr evs" by blast
  with run_rows_sorted [OF ok(2)] assms(2) show thesis by (intro that [of evs]) (simp_all add: store_events_def collect_Inr)
qed

lemma map_Inr_fields:
  assumes "map event_from_row rows = map Inr evs"
  shows "map re_sequence evs = map rw_sequence rows" and "map re_event_id evs = map rw_event_id rows"
    and "length evs = length rows"
  using assms by (induction rows arbitrary: evs) (auto simp: Cons_eq_map_conv dest: event_from_row_fields)

text \<open>The source of a completion among the events of its run.\<close>

definition source_event :: "run_event \<Rightarrow> run_event \<Rightarrow> bool" where
  "source_event s c \<longleftrightarrow>
     re_sequence s < re_sequence c \<and> re_task_id s = re_task_id c \<and> re_task_id c \<noteq> None
     \<and> (re_event_type s = ''task.attempt_succeeded'' \<and> re_attempt s = re_attempt c
        \<or> re_event_type s = ''task.effect_intent_created'')"

definition ledger_of_run :: "run_event list \<Rightarrow> bool" where
  "ledger_of_run evs \<longleftrightarrow>
     map re_sequence evs = map int [1..<Suc (length evs)] \<and> distinct (map re_event_id evs)
     \<and> distinct (map re_task_id (filter (\<lambda>e. re_event_type e = ''task.completed'') evs))
     \<and> list_all (\<lambda>c. re_event_type c \<noteq> ''task.completed'' \<or> list_ex (\<lambda>s. source_event s c) evs) evs"

lemma filter_map_Inr:
  assumes "map event_from_row rows = map Inr evs"
  shows "map event_from_row (filter is_completion rows) = map Inr (filter (\<lambda>e. re_event_type e = ''task.completed'') evs)"
  using assms
proof (induction rows arbitrary: evs)
  case (Cons r rows)
  from Cons.prems obtain e es where es: "evs = e # es" "event_from_row r = Inr e" "map event_from_row rows = map Inr es"
    by (auto simp: Cons_eq_map_conv)
  with Cons.IH [OF es(3)] event_from_row_fields [OF es(2)] show ?case by (simp add: is_completion_def)
qed simp

lemma map_Inr_tasks: "map event_from_row rows = map Inr evs \<Longrightarrow> map re_task_id evs = map rw_task_id rows"
  by (induction rows arbitrary: evs) (auto simp: Cons_eq_map_conv dest: event_from_row_fields)

lemma ledger_rows:
  assumes ok: "store_ok db" and rows: "map event_from_row (run_rows db run_id) = map Inr evs"
  shows "ledger_of_run evs"
proof -
  have ids: "distinct (map rw_event_id (run_rows db run_id))"
    using ok by (auto simp: store_ok_def store_rows_ok_def run_rows_def distinct_map_filter)
  have "map re_sequence evs = map int [1..<Suc (length evs)]"
    using ok map_Inr_fields(1,3) [OF rows] by (simp add: store_ok_def store_rows_ok_def numbered_def del: upt_Suc)
  moreover have "distinct (map re_event_id evs)" using ids map_Inr_fields(2) [OF rows] by simp
  moreover have "distinct (map re_task_id (filter (\<lambda>e. re_event_type e = ''task.completed'') evs))"
  proof -
    have "distinct (map (\<lambda>r. (rw_run_id r, rw_task_id r)) (filter is_completion (db_events db)))"
      using ok by (simp add: store_ok_def completions_ok_def duplicate_completions_def)
    then have "distinct (map (\<lambda>r. (rw_run_id r, rw_task_id r)) (filter is_completion (run_rows db run_id)))"
      using distinct_map_filter [of "\<lambda>r. (rw_run_id r, rw_task_id r)" "filter is_completion (db_events db)" "\<lambda>r. rw_run_id r = run_id"]
      by (simp add: run_rows_def conj_commute)
    moreover have "map (\<lambda>r. (rw_run_id r, rw_task_id r)) (filter is_completion (run_rows db run_id))
        = map (Pair run_id) (map rw_task_id (filter is_completion (run_rows db run_id)))"
      by (auto simp: run_rows_def)
    ultimately show ?thesis
      using map_Inr_tasks [OF filter_map_Inr [OF rows]] by (metis distinct_map)
  qed
  moreover have "list_ex (\<lambda>s. source_event s c) evs" if c: "c \<in> set evs" "re_event_type c = ''task.completed''" for c
  proof -
    have "Inr c \<in> set (map event_from_row (run_rows db run_id))" using c(1) rows by simp
    then obtain r where r: "r \<in> set (run_rows db run_id)" "event_from_row r = Inr c" by auto
    then have "is_completion r" "r \<in> set (db_events db)" "rw_run_id r = run_id"
      using c(2) event_from_row_fields [OF r(2)] by (auto simp: is_completion_def set_run_rows)
    then obtain s where s: "s \<in> set (db_events db)" "is_source s r"
      using ok by (auto simp: store_ok_def completions_ok_def unsupported_completions_def list_ex_iff has_source_def)
    then have "s \<in> set (run_rows db run_id)" using \<open>rw_run_id r = run_id\<close> by (auto simp: set_run_rows is_source_def)
    moreover from this obtain e where e: "event_from_row s = Inr e" "e \<in> set evs"
      using rows by (metis (no_types, lifting) image_eqI image_iff list.set_map)
    ultimately show ?thesis
      using s(2) event_from_row_fields [OF r(2)] event_from_row_fields [OF e(1)]
      by (auto simp: list_ex_iff is_source_def source_event_def intro!: bexI [of _ e])
  qed
  ultimately show ?thesis by (auto simp: ledger_of_run_def list_all_iff)
qed

lemma prefix_filter: "prefix xs ys \<Longrightarrow> prefix (filter P xs) (filter P ys)"
  by (auto simp: prefix_def)

lemma find_run_extends: "find_run db run_id = Some d \<Longrightarrow> extends db db' \<Longrightarrow> find_run db' run_id = Some d"
  by (auto simp: find_run_def extends_def prefix_def find_append_Some)

lemma prefix_map_Inr:
  fixes f :: "'a \<Rightarrow> 'c + 'b"
  assumes "prefix rows rows'" and "map f rows = map Inr evs" and "map f rows' = map Inr evs'"
  shows "prefix evs evs'"
proof -
  from assms(1) obtain zs where "rows' = rows @ zs" by (auto simp: prefix_def)
  with assms(2,3) have "map Inr evs' = map Inr evs @ map f zs" by simp
  then obtain us vs where "evs' = us @ vs" "map Inr us = (map Inr evs :: ('c + 'b) list)" by (auto simp: map_eq_append_conv)
  then show ?thesis using map_injective [of Inr us evs] by (auto simp: inj_def)
qed

text \<open>
  C15. The ledger of a run. On a new file, and on any file of an older or the current schema whose rows satisfy that schema, once it could be
  opened and after any calls: the events of every run are numbered from one without a gap, have distinct identifiers, complete a task
  at most once and only after its attempt succeeded (or its effect was recorded), and stay there in front of what any later calls append.
\<close>

theorem run_ledger_append_only:
  assumes "file_ok db" and "open_store path now db = (Inr (), db1)"
    and "get_run run_id (foldl store_step db1 calls) = Inr d"
  shows "\<exists>evs more. store_events run_id (foldl store_step db1 calls) = Inr evs \<and> ledger_of_run evs
    \<and> get_run run_id (foldl store_step db1 (calls @ calls')) = Inr d
    \<and> store_events run_id (foldl store_step db1 (calls @ calls')) = Inr (evs @ more) \<and> ledger_of_run (evs @ more)"
proof -
  let ?db = "foldl store_step db1 calls" and ?db' = "foldl store_step db1 (calls @ calls')"
  have ok: "store_ok ?db" using run_ok open_ok [OF assms(1,2)] by blast
  then have ok': "store_ok ?db'" "extends ?db ?db'" using run_ok by auto
  have d: "find_run ?db run_id = Some d" using assms(3) by (auto simp: get_run_def split: option.splits)
  have d': "find_run ?db' run_id = Some d" by (rule find_run_extends [OF d ok'(2)])
  obtain evs where evs: "store_events run_id ?db = Inr evs" "map event_from_row (run_rows ?db run_id) = map Inr evs"
    by (rule store_events_rows [OF ok d])
  obtain evs' where evs': "store_events run_id ?db' = Inr evs'" "map event_from_row (run_rows ?db' run_id) = map Inr evs'"
    by (rule store_events_rows [OF ok'(1) d'])
  have "prefix (run_rows ?db run_id) (run_rows ?db' run_id)"
    using ok'(2) unfolding run_rows_def by (intro prefix_filter) (simp add: extends_def)
  from prefix_map_Inr [OF this evs(2) evs'(2)] obtain more where "evs' = evs @ more" by (auto simp: prefix_def)
  with evs evs' ledger_rows [OF ok evs(2)] ledger_rows [OF ok'(1) evs'(2)] d' show ?thesis
    by (intro exI [of _ evs] exI [of _ more]) (simp add: get_run_def)
qed

section \<open>Calls that raise\<close>

fun store_error_of :: "run_db \<Rightarrow> store_call \<Rightarrow> store_error option" where
  "store_error_of db (Open path now) = (case fst (open_store path now db) of Inl e \<Rightarrow> Some e | Inr _ \<Rightarrow> None)"
| "store_error_of db (CreateRun now run_id digest envelope deadline manifest revision) =
     (case fst (get_or_create_run now run_id digest envelope deadline manifest revision db) of Inl e \<Rightarrow> Some e | Inr _ \<Rightarrow> None)"
| "store_error_of db (AppendEvent now run_id event_id event_type task_id attempt payload u) =
     (case fst (append_event now run_id event_id event_type task_id attempt payload u db) of Inl e \<Rightarrow> Some e | Inr _ \<Rightarrow> None)"
| "store_error_of db (StartAttempt now run_id task_id provider backend estimated reserved) =
     (case fst (start_attempt now run_id task_id provider backend estimated reserved db) of Inl e \<Rightarrow> Some e | Inr _ \<Rightarrow> None)"
| "store_error_of db (CompleteAttempt now now' run_id task_id attempt output estimated reserved actual output_kind) =
     (case fst (complete_attempt now now' run_id task_id attempt output estimated reserved actual output_kind db) of
        Inl e \<Rightarrow> Some e | Inr _ \<Rightarrow> None)"

lemma raises_unchanged: "store_error_of db c = Some e \<Longrightarrow> store_step db c = db"
proof (cases c)
  case (Open path now)
  assume "store_error_of db c = Some e"
  with Open show ?thesis
    by (cases "open_store path now db") (auto dest: open_raises split: sum.splits)
qed (auto simp: get_or_create_run_def append_event_def start_attempt_def complete_attempt_def run_transaction_def Let_def
    split: if_splits prod.splits sum.splits option.splits)

section \<open>Events are appended once\<close>

abbreviation payload_text :: "(string \<times> json) list option \<Rightarrow> string" where
  "payload_text payload \<equiv> store_json (JObj (case payload of None \<Rightarrow> [] | Some p \<Rightarrow> p))"

definition append_arguments_ok :: "string \<Rightarrow> string \<Rightarrow> int option \<Rightarrow> bool" where
  "append_arguments_ok event_id event_type attempt \<longleftrightarrow>
     event_id \<noteq> [] \<and> event_type \<noteq> [] \<and> (case attempt of None \<Rightarrow> True | Some a \<Rightarrow> 0 < a)"

lemma append_event_eq:
  assumes "append_event now run_id event_id event_type task_id attempt payload u db = (Inr ev, db')"
  shows "append_in_transaction now run_id event_id event_type task_id attempt (payload_text payload) u db = (Inr ev, db')"
    and "append_arguments_ok event_id event_type attempt"
  using assms by (auto simp: append_event_def append_arguments_ok_def Let_def run_transaction_Inr split: if_splits option.splits)

lemma append_event_body:
  assumes "append_arguments_ok event_id event_type attempt"
  shows "append_event now run_id event_id event_type task_id attempt payload u db
    = run_transaction (append_in_transaction now run_id event_id event_type task_id attempt (payload_text payload) u) db"
  using assms unfolding append_event_def append_arguments_ok_def Let_def by (simp split: option.splits)

text \<open>
  C17. An event is appended once. When \<open>append_event\<close> has returned an event, then after any further calls, a call with its identifier
  returns that event, with its first sequence and time, if its run, type, task, attempt, payload and usage are the same, raises
  \<open>EventConflict\<close> if they are not, and changes nothing in either case.
\<close>

theorem events_appended_once:
  assumes "store_ok db" and "append_event now run_id event_id event_type task_id attempt payload u db = (Inr ev, db1)"
    and "append_arguments_ok event_id event_type' attempt'"
  shows "append_event now' run_id' event_id event_type' task_id' attempt' payload' u' (foldl store_step db1 calls) =
    (if immutable_event_values run_id' event_type' task_id' attempt' (payload_text payload') u'
        = immutable_event_values run_id event_type task_id attempt (payload_text payload) u
     then Inr ev
     else Inl (EventConflict (''event ID '' @ py_repr event_id @ '' has different content'')), foldl store_step db1 calls)"
proof -
  let ?db = "foldl store_step db1 calls"
  note call = append_event_eq [OF assms(2)]
  have "store_ok db1" using append_ok [OF assms(1) call(1)] by simp
  then have "extends db1 ?db" by (simp add: run_ok)
  note held = holds_extends [OF append_holds [OF call(1)] this]
  show ?thesis
  proof (cases "immutable_event_values run_id' event_type' task_id' attempt' (payload_text payload') u'
      = immutable_event_values run_id event_type task_id attempt (payload_text payload) u")
    case True
    with append_again [of ?db event_id run_id' event_type' task_id' attempt' "payload_text payload'" u' ev now'] held
    show ?thesis by (simp add: append_event_body [OF assms(3)] run_transaction_def)
  next
    case False
    with append_other [OF held, of run_id' event_type' task_id' attempt' "payload_text payload'" u' now']
    show ?thesis by (simp add: append_event_body [OF assms(3)] run_transaction_def)
  qed
qed

section \<open>Durable outputs\<close>

lemma canonical_is_plain: "json_canonical v \<Longrightarrow> json_plain v"
  by (induction v rule: json_canonical.induct) auto

lemma normalize_plain: "json_plain v \<Longrightarrow> json_plain (normalize v)"
  by (simp add: canonical_is_plain canonical_normalize)

lemma dget_sorted: "distinct (map fst kvs) \<Longrightarrow> dget (sort_key fst kvs) k = dget kvs k"
proof -
  assume d: "distinct (map fst kvs)"
  have "mset (map fst (sort_key fst kvs)) = mset (map fst kvs)" by simp
  with d have "distinct (map fst (sort_key fst kvs))" by (metis mset_eq_imp_distinct_iff)
  then show ?thesis using d map_of_inject_set [of kvs "sort_key fst kvs"] by simp
qed

lemma dget_map_snd: "dget (map (\<lambda>(k, v). (k, f v)) kvs) k = map_option f (dget kvs k)"
  by (induction kvs) auto

text \<open>What the payload of a completion gives back.\<close>

lemma payload_output:
  assumes "json_plain (JObj p)"
  shows "\<exists>q. json_loads (store_json (JObj p)) = Some (JObj q) \<and> dget q ''output'' = map_option normalize (dget p ''output'')"
proof -
  have "json_loads (store_json (JObj p)) = Some (normalize (JObj p))"
    unfolding store_json_def by (rule json_roundtrip [OF assms])
  moreover have "distinct (map fst (map (\<lambda>(k, v). (k, normalize v)) p))"
    using assms by (simp add: o_def case_prod_beta)
  ultimately show ?thesis by (simp add: dget_sorted dget_map_snd)
qed

text \<open>
  Completions of a run that give an output: those of \<open>complete_attempt\<close>, and of \<open>append_event\<close> when its payload has one.
  \<open>json_plain\<close> asks for distinct keys and no floats, the values whose text is read back as they were written.
\<close>

fun gives_output :: "string \<Rightarrow> store_call \<Rightarrow> bool" where
  "gives_output q (AppendEvent now run_id event_id event_type task_id attempt payload u) \<longleftrightarrow>
     run_id \<noteq> q \<or> event_type \<noteq> ''task.completed'' \<or>
     (case payload of None \<Rightarrow> False | Some p \<Rightarrow> json_plain (JObj p) \<and> dmem ''output'' p)"
| "gives_output q (CompleteAttempt now now' run_id task_id attempt output estimated reserved actual output_kind) \<longleftrightarrow>
     run_id \<noteq> q \<or> json_plain output"
| "gives_output q c \<longleftrightarrow> True"

definition outputs_ok :: "string \<Rightarrow> run_db \<Rightarrow> bool" where
  "outputs_ok q db \<longleftrightarrow>
     (\<forall>r \<in> set (db_events db). is_completion r \<and> rw_run_id r = q \<longrightarrow>
       (\<exists>p. rw_payload_json r = store_json (JObj p) \<and> json_plain (JObj p) \<and> dmem ''output'' p))"

lemma append_outputs:
  assumes "outputs_ok q db" and "append_in_transaction now run_id event_id event_type task_id attempt payload_json u db = (res, db')"
    and "event_type = ''task.completed'' \<Longrightarrow> run_id = q \<Longrightarrow>
      \<exists>p. payload_json = store_json (JObj p) \<and> json_plain (JObj p) \<and> dmem ''output'' p"
  shows "outputs_ok q db'"
  using assms(2)
proof (cases rule: append_cases)
  case (appended r ev)
  then show ?thesis using assms(1,3) insert_event_Inr(1) [OF appended(3)] by (auto simp: outputs_ok_def is_completion_def)
qed (use assms(1) in auto)

lemma step_outputs:
  assumes ok: "outputs_ok q db" and st: "store_ok db" and gives: "gives_output q c"
  shows "outputs_ok q (store_step db c)"
proof (cases c)
  case (Open path now)
  with ok st show ?thesis
    using open_current [of db path now] by (cases "path = '':memory:''") (auto simp: store_ok_def open_store_def)
next
  case (CreateRun now run_id digest envelope deadline manifest revision)
  have "db_events (snd (get_or_create_run now run_id digest envelope deadline manifest revision db)) = db_events db"
    by (auto simp: get_or_create_run_def insert_run_def run_transaction_def Let_def split: option.splits sum.splits prod.splits)
  with ok CreateRun show ?thesis by (simp add: outputs_ok_def)
next
  case (AppendEvent now run_id event_id event_type task_id attempt payload u)
  show ?thesis
  proof (cases "append_event now run_id event_id event_type task_id attempt payload u db")
    case (Pair res db')
    show ?thesis
    proof (cases res)
      case (Inl e)
      with raises_unchanged [of db c e] AppendEvent Pair ok show ?thesis by simp
    next
      case (Inr ev)
      with Pair have a: "append_in_transaction now run_id event_id event_type task_id attempt (payload_text payload) u db = (Inr ev, db')"
        by (auto dest: append_event_eq)
      have "outputs_ok q db'" by (rule append_outputs [OF ok a]) (use gives AppendEvent in \<open>auto split: option.splits\<close>)
      with AppendEvent Pair show ?thesis by simp
    qed
  qed
next
  case (StartAttempt now run_id task_id provider backend estimated reserved)
  show ?thesis
  proof (cases "start_attempt now run_id task_id provider backend estimated reserved db")
    case (Pair res db')
    show ?thesis
    proof (cases res)
      case (Inl e)
      with raises_unchanged [of db c e] StartAttempt Pair ok show ?thesis by simp
    next
      case (Inr ev)
      with Pair obtain n p where "append_in_transaction now run_id (attempt_event_id run_id task_id n ''started'') ''task.attempt_started''
          (Some task_id) (Some n) p \<lparr>ur_estimated = estimated, ur_reserved = reserved, ur_actual = usage_zero\<rparr> db = (Inr ev, db')"
        by (auto simp: start_attempt_def Let_def run_transaction_Inr split: if_splits)
      then have "outputs_ok q db'" by (rule append_outputs [OF ok]) simp
      with StartAttempt Pair show ?thesis by simp
    qed
  qed
next
  case (CompleteAttempt now now' run_id task_id attempt out estimated reserved actual kind)
  obtain res db' where r: "complete_attempt now now' run_id task_id attempt out estimated reserved actual kind db = (res, db')" by fastforce
  then have "outputs_ok q db'"
  proof (cases rule: complete_cases)
    case (completed v s ce)
    have v: "v = normalize out" if "run_id = q"
      using that completed(1) gives CompleteAttempt json_roundtrip [of out False] by (simp add: store_json_def)
    from completed(3) show ?thesis
    proof (cases rule: completion_cases)
      case (1 db1)
      have "outputs_ok q db1" by (rule append_outputs [OF ok 1(1)]) simp
      then show ?thesis
        by (rule append_outputs [OF _ 1(2)]) (use gives CompleteAttempt in
          \<open>auto simp: v normalize_plain dmem_def intro!: exI [of _ "[(''output'', normalize out), (''kind'', JStr kind)]"]\<close>)
    qed
  qed (use ok in auto)
  with r CompleteAttempt show ?thesis by simp
qed

interpretation run_outputs: stateful "\<lambda>db c. if gives_output q c then store_step db c else db"
    "\<lambda>db. store_ok db \<and> extends db0 db \<and> outputs_ok q db" for q db0
  by unfold_locales (use step_ok step_outputs extends_trans in auto)

lemma foldl_guarded: "list_all g cs \<Longrightarrow> foldl (\<lambda>s c. if g c then f s c else s) s cs = foldl f s cs"
  by (induction cs arbitrary: s) auto

lemma outputs_run:
  assumes "store_ok db" and "outputs_ok q db" and "list_all (gives_output q) cs"
  shows "store_ok (foldl store_step db cs) \<and> extends db (foldl store_step db cs) \<and> outputs_ok q (foldl store_step db cs)"
  using run_outputs.inv_run [of db db q cs] assms by (simp add: foldl_guarded)

text \<open>A completed row gives its entry of \<open>completed_tasks\<close>.\<close>

lemma completed_row:
  assumes "outputs_ok q db" and "store_rows_ok db" and "r \<in> set (db_events db)" and "is_completion r" and "rw_run_id r = q"
    and "rw_task_id r = Some t"
  obtains ct p where "completed_from_row r = Inr (t, ct)" and "event_from_row r = Inr (ct_event ct)"
    and "rw_payload_json r = store_json (JObj p)" and "json_plain (JObj p)"
    and "task_output ct = map_option normalize (dget p ''output'')"
proof -
  from assms(1,3-5) obtain p where p: "rw_payload_json r = store_json (JObj p)" "json_plain (JObj p)" "dmem ''output'' p"
    by (auto simp: outputs_ok_def)
  then obtain v where v: "dget p ''output'' = Some v" by (auto simp: dmem_def)
  then have "json_plain v" using p(2) by (auto dest: map_of_SomeD)
  obtain q where q: "json_loads (store_json (JObj p)) = Some (JObj q)" "dget q ''output'' = Some (normalize v)"
    using payload_output [OF p(2)] v by auto
  obtain ev where ev: "event_from_row r = Inr ev" using rows_event [OF assms(2,3)] by blast
  let ?ct = "\<lparr>ct_task_id = t, ct_output_json = store_json (normalize v), ct_event = ev\<rparr>"
  have "completed_from_row r = Inr (t, ?ct)"
    using ev q event_from_row_fields [OF ev] assms(6) p(1) by (simp add: completed_from_row_def run_event_payload_def)
  moreover have "task_output ?ct = Some (normalize v)"
    using json_roundtrip [OF normalize_plain [OF \<open>json_plain v\<close>], of False] by (simp add: task_output_def store_json_def)
  ultimately show thesis using p v ev by (intro that [of ?ct p]) auto
qed

lemma same_sequence:
  assumes "numbered db" and "r \<in> set (run_rows db run_id)" and "s \<in> set (run_rows db run_id)" and "rw_sequence r = rw_sequence s"
  shows "r = s"
proof -
  have "distinct (map rw_sequence (run_rows db run_id))"
    using assms(1) by (simp add: numbered_def distinct_map del: upt_Suc)
  with assms(2-4) show ?thesis by (auto simp: distinct_map dest: inj_onD)
qed

lemma latest_is_completion:
  assumes "numbered db" and "r \<in> set (latest_rows db run_id)"
  shows "is_completion r" and "r \<in> set (db_events db)" and "rw_run_id r = run_id" and "\<exists>t. rw_task_id r = Some t"
proof -
  from assms(2) have r: "r \<in> set (run_rows db run_id)" "latest_completion db run_id r" by (auto simp: latest_rows_def)
  then obtain s where s: "s \<in> set (completions_of db run_id)" "rw_sequence r = rw_sequence s" by (auto simp: latest_completion_def)
  with same_sequence [OF assms(1) r(1), of s] r(1) show "is_completion r" by (auto simp: completions_of_def)
  show "r \<in> set (db_events db)" and "rw_run_id r = run_id" and "\<exists>t. rw_task_id r = Some t"
    using r by (auto simp: set_run_rows latest_completion_def)
qed

lemma latest_distinct:
  assumes "numbered db"
  shows "distinct (map (\<lambda>r. the (rw_task_id r)) (latest_rows db run_id))"
proof -
  let ?rows = "filter (latest_completion db run_id) (run_rows db run_id)"
  have "distinct (map rw_sequence (run_rows db run_id))" using assms by (simp add: numbered_def distinct_map del: upt_Suc)
  then have "distinct (run_rows db run_id)" by (simp add: distinct_map)
  moreover have "inj_on (\<lambda>r. the (rw_task_id r)) (set ?rows)"
  proof (rule inj_onI)
    fix r s assume *: "r \<in> set ?rows" "s \<in> set ?rows" "the (rw_task_id r) = the (rw_task_id s)"
    then have "rw_task_id r = rw_task_id s" by (auto simp: latest_completion_def)
    with * have "rw_sequence r = rw_sequence s" by (auto simp: latest_completion_def)
    with * same_sequence [OF assms] show "r = s" by auto
  qed
  moreover have "mset (latest_rows db run_id) = mset ?rows" by (simp add: latest_rows_def)
  ultimately show ?thesis by (metis distinct_filter distinct_map mset_eq_imp_distinct_iff set_mset_mset)
qed

lemma completion_is_latest:
  assumes "store_ok db" and "r \<in> set (db_events db)" and "is_completion r" and "rw_task_id r = Some t"
  shows "r \<in> set (latest_rows db (rw_run_id r))"
proof -
  let ?same = "filter (\<lambda>s. rw_task_id s = rw_task_id r) (completions_of db (rw_run_id r))"
  have "distinct (map (\<lambda>r. (rw_run_id r, rw_task_id r)) (filter is_completion (db_events db)))"
    using assms(1) by (simp add: store_ok_def completions_ok_def duplicate_completions_def)
  then have "s = r" if "s \<in> set ?same" for s
    using that assms(2,3) by (auto simp: completions_of_def set_run_rows distinct_map dest: inj_onD)
  moreover have r: "r \<in> set ?same" using assms(2,3) by (simp add: completions_of_def set_run_rows)
  moreover have "coalesce_max (map rw_sequence ?same) \<in> rw_sequence ` set ?same"
    using coalesce_max_in [of "map rw_sequence ?same"] r by fastforce
  ultimately have "coalesce_max (map rw_sequence ?same) = rw_sequence r" by auto
  with r assms(2,4) show ?thesis by (auto simp: latest_rows_def latest_completion_def set_run_rows)
qed

lemma dget_collected:
  "distinct (map fst cs) \<Longrightarrow> (k, c) \<in> set cs \<Longrightarrow> dget (foldl (\<lambda>d (k, c). dset k c d) d cs) k = Some c"
proof (induction cs arbitrary: d)
  case (Cons x cs)
  have other: "k \<notin> set (map fst cs) \<Longrightarrow> dget (foldl (\<lambda>d (k, c). dset k c d) d cs) k = dget d k" for d
    by (induction cs arbitrary: d) (auto simp: dict_simps)
  from Cons show ?case using other [of "dset k c d"] by (cases x) (auto simp: dict_simps)
qed simp

lemma completed_tasks_entry:
  assumes ok: "store_ok db" "outputs_ok q db"
    and r: "r \<in> set (db_events db)" "is_completion r" "rw_run_id r = q" "rw_task_id r = Some t"
    and ct: "completed_from_row r = Inr (t, ct)"
  shows "\<exists>d. completed_tasks q db = Inr d \<and> dget d t = Some ct"
proof -
  let ?rows = "latest_rows db q"
  have rows: "store_rows_ok db" "numbered db" using ok(1) by (auto simp: store_ok_def store_rows_ok_def)
  have each: "\<exists>c. completed_from_row x = Inr (the (rw_task_id x), c)" if "x \<in> set ?rows" for x
    using latest_is_completion [OF rows(2) that] completed_row [OF ok(2) rows(1)] by (metis option.sel)
  then have "list_all (\<lambda>x. \<exists>y. completed_from_row x = Inr y) ?rows" unfolding list_all_iff by blast
  from collect_map [OF this] obtain cs where cs: "collect (map completed_from_row ?rows) = Inr cs" by blast
  then have eq: "map completed_from_row ?rows = map Inr cs" by (simp add: collect_Inr)
  have "map fst cs = map (\<lambda>r. the (rw_task_id r)) ?rows"
  proof (rule nth_equalityI)
    show len: "length (map fst cs) = length (map (\<lambda>r. the (rw_task_id r)) ?rows)" using arg_cong [OF eq, of length] by simp
    show "map fst cs ! i = map (\<lambda>r. the (rw_task_id r)) ?rows ! i" if "i < length (map fst cs)" for i
      using arg_cong [OF eq, of "\<lambda>l. l ! i"] each [of "?rows ! i"] that len by auto
  qed
  then have "distinct (map fst cs)" using latest_distinct [OF rows(2)] by simp
  moreover have "(t, ct) \<in> set cs"
  proof -
    have "Inr (t, ct) \<in> set (map completed_from_row ?rows)"
      using completion_is_latest [OF ok(1) r(1,2,4)] r(3) ct by (metis image_eqI list.set_map)
    then show ?thesis using eq by auto
  qed
  ultimately show ?thesis using cs by (simp add: completed_tasks_def dget_collected)
qed

text \<open>
  C16. Completed work is durable. Take any file that could be opened (a new one, or an older or current one whose rows satisfy its schema) and a run all
  of whose completions, those in the file and those of the calls, carry an output without floats. When \<open>complete_attempt\<close>
  returned for a task of that run, then after any further such calls \<open>completed_tasks\<close> answers (it does not raise), has the task with the
  completion event that was returned, and its output is the value that was given, with the keys of its objects sorted. What other runs
  store does not matter.
\<close>

theorem completed_output_durable:
  assumes "file_ok db" and "open_store path clock db = (Inr (), db0)" and "outputs_ok run_id db0"
    and "list_all (gives_output run_id) calls" and "list_all (gives_output run_id) calls'" and "json_plain out"
    and "complete_attempt now now' run_id task_id attempt out estimated reserved actual kind (foldl store_step db0 calls)
      = (Inr (succeeded, completed), db1)"
  shows "\<exists>d ct. completed_tasks run_id (foldl store_step db1 calls') = Inr d \<and> dget d task_id = Some ct
    \<and> ct_event ct = completed \<and> task_output ct = Some (normalize out)"
proof -
  let ?db = "foldl store_step db0 calls" and ?db' = "foldl store_step db1 calls'"
  have ok: "store_ok ?db" "outputs_ok run_id ?db" using outputs_run [OF open_ok [OF assms(1,2)] assms(3,4)] by auto
  let ?c = "CompleteAttempt now now' run_id task_id attempt out estimated reserved actual kind"
  have "store_step ?db ?c = db1" using assms(7) by simp
  then have "store_ok db1" "outputs_ok run_id db1"
    using step_ok [OF ok(1), of ?c] step_outputs [OF ok(2,1), of ?c] assms(6) by auto
  then have ok': "store_ok ?db'" "extends db1 ?db'" "outputs_ok run_id ?db'" using outputs_run [OF _ _ assms(5)] by auto
  from assms(7) have "append_completion now now' run_id task_id attempt (normalize out)
      \<lparr>ur_estimated = estimated, ur_reserved = reserved, ur_actual = actual\<rparr> kind ?db = (Inr (succeeded, completed), db1)"
    using json_roundtrip [OF assms(6), of False] by (cases rule: complete_cases) (auto simp: store_json_def)
  then obtain db2 where "append_in_transaction now' run_id (completed_event_id run_id task_id) ''task.completed'' (Some task_id)
      (Some attempt) (store_json (JObj [(''output'', normalize out), (''kind'', JStr kind)]))
      \<lparr>ur_estimated = estimated, ur_reserved = reserved, ur_actual = actual\<rparr> db2 = (Inr completed, db1)"
    by (cases rule: completion_cases) blast
  from holds_extends [OF append_holds [OF this] ok'(2)] obtain r where
    r: "r \<in> set (db_events ?db')" "event_from_row r = Inr completed"
      "is_completion r" "rw_run_id r = run_id" "rw_task_id r = Some task_id"
      "rw_payload_json r = store_json (JObj [(''output'', normalize out), (''kind'', JStr kind)])"
    by (auto simp: holds_event_def row_immutable_event_values_def immutable_event_values_def is_completion_def dest!: find_Some_in)
  have "store_rows_ok ?db'" using ok'(1) by (simp add: store_ok_def)
  from completed_row [OF ok'(3) this r(1,3,4,5)] obtain ct p where ct: "completed_from_row r = Inr (task_id, ct)"
      "event_from_row r = Inr (ct_event ct)" "rw_payload_json r = store_json (JObj p)" "json_plain (JObj p)"
      "task_output ct = map_option normalize (dget p ''output'')" by metis
  have "json_plain (JObj [(''output'', normalize out), (''kind'', JStr kind)])" using assms(6) by (simp add: normalize_plain)
  with payload_output [OF this] payload_output [OF ct(4)] ct(3) r(6)
  have "Some (normalize out) = map_option normalize (dget p ''output'')" by auto
  with completed_tasks_entry [OF ok'(1,3) r(1,3,4,5) ct(1)] ct(2,5) r(2,4) show ?thesis by auto
qed

section \<open>Attempts\<close>

lemma next_attempt_greater:
  assumes "r \<in> set (db_events db)" and "rw_run_id r = run_id" and "rw_task_id r = Some task_id"
    and "rw_event_type r = ''task.attempt_started''" and "rw_attempt r = Some n"
  shows "n < next_attempt db run_id task_id"
proof -
  have "n \<in> set (List.map_filter rw_attempt (filter (\<lambda>r. rw_run_id r = run_id \<and> rw_task_id r = Some task_id
      \<and> rw_event_type r = ''task.attempt_started'') (db_events db)))"
    using assms by (force simp: List.map_filter_def)
  from coalesce_max_ge [OF this] show ?thesis by (simp add: next_attempt_def)
qed

lemma coalesce_max_snoc: "coalesce_max xs < x \<Longrightarrow> 0 \<le> x \<Longrightarrow> coalesce_max (xs @ [x]) = x"
  by (cases xs) (simp_all add: coalesce_max_def)

lemma start_eq:
  assumes "start_attempt now run_id task_id provider backend estimated reserved db = (Inr ev, db')"
  shows "append_in_transaction now run_id (attempt_event_id run_id task_id (next_attempt db run_id task_id) ''started'')
      ''task.attempt_started'' (Some task_id) (Some (next_attempt db run_id task_id))
      (store_json (JObj [(''provider'', JStr provider), (''backend'', JStr backend)]))
      \<lparr>ur_estimated = estimated, ur_reserved = reserved, ur_actual = usage_zero\<rparr> db = (Inr ev, db')"
  using assms by (auto simp: start_attempt_def Let_def run_transaction_Inr split: if_splits)

text \<open>
  An attempt that is started is new: its number is greater than that of every start of the task recorded before, it is the last
  event of its run, and the next start gets the next number.
\<close>

theorem attempts_are_fresh:
  assumes "store_ok db" and "start_attempt now run_id task_id provider backend estimated reserved db = (Inr ev, db')"
  shows "re_attempt ev = Some (next_attempt db run_id task_id)
    \<and> list_all (\<lambda>r. \<not> (rw_run_id r = run_id \<and> rw_task_id r = Some task_id \<and> rw_event_type r = ''task.attempt_started'')
        \<or> (case rw_attempt r of None \<Rightarrow> True | Some n \<Rightarrow> n < next_attempt db run_id task_id)) (db_events db)
    \<and> re_sequence ev = int (length (run_rows db run_id)) + 1
    \<and> next_attempt db' run_id task_id = next_attempt db run_id task_id + 1"
proof -
  let ?n = "next_attempt db run_id task_id"
  from start_eq [OF assms(2)] show ?thesis
  proof (cases rule: append_cases)
    case (replayed r ev')
    then have "r \<in> set (db_events db)" "rw_run_id r = run_id" "rw_task_id r = Some task_id"
        "rw_event_type r = ''task.attempt_started''" "rw_attempt r = Some ?n"
      by (auto dest!: find_Some_in simp: row_immutable_event_values_def immutable_event_values_def)
    then show ?thesis using next_attempt_greater by blast
  next
    case (appended r ev')
    note ins = insert_event_Inr [OF appended(3)]
    have "0 < ?n" using ins(2) appended(2) by (simp add: row_checks_def)
    then have "next_attempt db' run_id task_id = ?n + 1"
      using appended(2) coalesce_max_snoc [of "List.map_filter rw_attempt (filter (\<lambda>r. rw_run_id r = run_id
          \<and> rw_task_id r = Some task_id \<and> rw_event_type r = ''task.attempt_started'') (db_events db))" ?n]
      by (simp add: next_attempt_def ins(1) List.map_filter_def)
    moreover have "re_sequence ev = int (length (run_rows db run_id)) + 1"
      using event_from_row_fields [OF appended(4)] appended(2,5) assms(1) next_sequence_eq [of db run_id]
      by (simp add: store_ok_def store_rows_ok_def)
    ultimately show ?thesis
      using event_from_row_fields [OF appended(4)] appended(2,5)
      by (auto simp: list_all_iff split: option.splits dest: next_attempt_greater)
  qed simp
qed

text \<open>
  C40. Identifiers with a colon collide. The event of an attempt is identified by its run, task and number joined by colons, so when run \<open>a\<close> has
  started an attempt of task \<open>b:c\<close>, run \<open>a:b\<close> cannot start its attempt of task \<open>c\<close> with the same number: every try
  raises \<open>EventConflict\<close>, whatever happens in between in other attempts of that task.
\<close>

theorem colon_ids_collide:
  assumes "store_ok db" and "start_attempt now a (b @ '':'' @ c) provider backend estimated reserved db = (Inr ev, db1)"
    and "c \<noteq> []" and "provider' \<noteq> []" and "backend' \<noteq> []"
    and "re_attempt ev = Some (next_attempt (foldl store_step db1 calls) (a @ '':'' @ b) c)"
  shows "start_attempt now' (a @ '':'' @ b) c provider' backend' estimated' reserved' (foldl store_step db1 calls)
    = (Inl (EventConflict (''event ID '' @ py_repr (attempt_event_id a (b @ '':'' @ c) (the (re_attempt ev)) ''started'')
        @ '' has different content'')), foldl store_step db1 calls)"
proof -
  let ?n = "next_attempt db a (b @ '':'' @ c)" and ?db = "foldl store_step db1 calls"
  note first = start_eq [OF assms(2)]
  have n: "re_attempt ev = Some ?n"
    using first by (cases rule: append_cases) (auto dest!: event_from_row_fields find_Some_in
      simp: row_immutable_event_values_def immutable_event_values_def)
  have "store_ok db1" using append_ok [OF assms(1) first] by simp
  then have "extends db1 ?db" by (simp add: run_ok)
  note held = holds_extends [OF append_holds [OF first] this]
  define ab where "ab = a @ '':'' @ b"
  define m where "m = next_attempt ?db ab c"
  have m: "?n = m" using n assms(6) by (simp add: m_def ab_def)
  have same: "attempt_event_id ab c m ''started'' = attempt_event_id a (b @ '':'' @ c) ?n ''started''"
    using m by (simp add: attempt_event_id_def ab_def)
  have "a \<noteq> ab" by (simp add: ab_def)
  then have "append_in_transaction now' ab (attempt_event_id ab c m ''started'') ''task.attempt_started'' (Some c) (Some m)
      (store_json (JObj [(''provider'', JStr provider'), (''backend'', JStr backend')]))
      \<lparr>ur_estimated = estimated', ur_reserved = reserved', ur_actual = usage_zero\<rparr> ?db
    = (Inl (EventConflict (''event ID '' @ py_repr (attempt_event_id a (b @ '':'' @ c) ?n ''started'') @ '' has different content'')), ?db)"
    unfolding same by (intro append_other [OF held]) (simp add: immutable_event_values_def)
  then have "start_attempt now' ab c provider' backend' estimated' reserved' ?db
    = (Inl (EventConflict (''event ID '' @ py_repr (attempt_event_id a (b @ '':'' @ c) ?n ''started'') @ '' has different content'')), ?db)"
    using assms(3-5) unfolding start_attempt_def Let_def m_def [symmetric] run_transaction_def by simp
  then show ?thesis by (simp only: n ab_def option.sel)
qed

section \<open>Upgrading a file\<close>

text \<open>
  C. A file of the first schema is upgraded or left alone. Opening it succeeds exactly if no task was completed twice and every completion has its
  source; then every event is kept, the runs get the default manifest, the invariant of the current schema holds and opening the file again changes
  nothing. Otherwise the migration is refused and the file is unchanged.
\<close>

theorem upgrade_exact:
  assumes "schema_at db 1" and "store_rows_ok db" and "path \<noteq> '':memory:''" and "int64 (now 2)"
  shows "case open_store path now db of
      (Inr _, db') \<Rightarrow> completions_ok db \<and> store_ok db' \<and> db_events db' = db_events db
        \<and> db_definitions db' = map with_default_manifest (db_definitions db) \<and> schema_versions db' = [1, 2]
        \<and> open_store path now' db' = (Inr (), db')
    | (Inl e, db') \<Rightarrow> \<not> completions_ok db \<and> db' = db
        \<and> e = RunStoreError ''schema migration 2 refuses invalid historical completions''"
proof (cases "completions_ok db")
  case True
  let ?db = "db\<lparr>db_definitions := map with_default_manifest (db_definitions db),
      db_migrations := db_migrations db @ [\<lparr>mg_version = 2, mg_name = ''manifest_and_completion_invariants'',
        mg_checksum = migration_checksum migration_2, mg_applied_at_ms = now 2\<rparr>]\<rparr>"
  have o: "open_store path now db = (Inr (), ?db)" using open_first_schema [of db path now] assms(1,3,4) True by simp
  have "store_ok ?db" using open_ok [OF _ o] assms(1,2) by (simp add: file_ok_def)
  moreover have "schema_versions ?db = [1, 2]"
    using file_versions(1) [OF assms(1)] by (auto simp: schema_versions_def)
  ultimately show ?thesis using o True open_current [of ?db path now'] assms(3) by (simp add: store_ok_def)
next
  case False
  then show ?thesis using open_first_schema [of db path now] assms(1,3,4) by simp
qed

section \<open>Examples\<close>

definition demo_store :: run_db where
  "demo_store = snd (open_store ''runs.db'' (\<lambda>version. 7) empty_file)"

definition demo_calls :: "store_call list" where
  "demo_calls =
     [CreateRun 8 ''r'' ''g'' [(''deadline'', JInt 60)] 90 ''m'' 1, StartAttempt 9 ''r'' ''t'' ''p'' ''b'' usage_zero usage_zero]"

definition demo_complete :: "run_db \<Rightarrow> (run_event \<times> run_event, run_db) stored" where
  "demo_complete = complete_attempt 10 11 ''r'' ''t'' 1 (JObj [(''y'', JInt 1), (''x'', JStr ''a'')]) usage_zero usage_zero usage_zero ''fixture_output''"

lemma open_demo: "\<exists>ms. open_store ''runs.db'' (\<lambda>version. 7) empty_file = (Inr (), demo_store)
    \<and> demo_store = \<lparr>db_migrations = ms, db_definitions = [], db_events = []\<rparr>"
  by (simp add: demo_store_def open_store_def initialize_store_def run_transaction_def Let_def coalesce_max_def schema_version_def
      migrations_def apply_migration_def execute_statements_def empty_file_def int64_def duplicate_completions_def
      unsupported_completions_def)

lemma demo_store_ok: "open_store ''runs.db'' (\<lambda>version. 7) empty_file = (Inr (), demo_store)" "store_ok demo_store"
  using open_demo open_empty by blast+

definition demo_file :: "migration_row list \<Rightarrow> run_db" where
  "demo_file ms = \<lparr>db_migrations = ms, db_definitions = [], db_events = []\<rparr>"

lemma demo_run: "get_run ''r'' (foldl store_step (demo_file ms) demo_calls) = Inr
    \<lparr>rd_run_id = ''r'', rd_graph_digest = ''g'', rd_envelope_json = store_json (JObj [(''deadline'', JInt 60)]),
     rd_manifest_digest = ''m'', rd_manifest_revision = 1, rd_deadline_at_ms = 90, rd_created_at_ms = 8\<rparr>"
  by code_simp

lemma demo_completes: "case fst (demo_complete (foldl store_step (demo_file ms) demo_calls)) of Inl _ \<Rightarrow> False | Inr _ \<Rightarrow> True"
  by code_simp

lemma demo_store_file: "\<exists>ms. demo_store = demo_file ms"
  using open_demo by (auto simp: demo_file_def)

theorem run_ledger_append_only_witness:
  "\<exists>evs more. store_events ''r'' (foldl store_step demo_store demo_calls) = Inr evs \<and> ledger_of_run evs
    \<and> store_events ''r'' (snd (demo_complete (foldl store_step demo_store demo_calls))) = Inr (evs @ more)"
proof -
  obtain ms where ms: "demo_store = demo_file ms" using demo_store_file by blast
  note run = demo_run [of ms, folded ms]
  from run_ledger_append_only [OF _ demo_store_ok(1) run, of "[CompleteAttempt 10 11 ''r'' ''t'' 1 (JObj [(''y'', JInt 1), (''x'', JStr ''a'')])
      usage_zero usage_zero usage_zero ''fixture_output'']"]
  show ?thesis by (auto simp: file_ok_def demo_complete_def)
qed

theorem completed_output_durable_witness:
  "\<exists>d ct. completed_tasks ''r'' (snd (demo_complete (foldl store_step demo_store demo_calls))) = Inr d \<and> dget d ''t'' = Some ct
    \<and> task_output ct = Some (JObj [(''x'', JStr ''a''), (''y'', JInt 1)])"
proof -
  obtain ms where ms: "demo_store = demo_file ms" using demo_store_file by blast
  obtain s c db where run: "demo_complete (foldl store_step demo_store demo_calls) = (Inr (s, c), db)"
    using demo_completes [of ms, folded ms]
    by (cases "demo_complete (foldl store_step demo_store demo_calls)") (auto split: sum.splits)
  have start: "file_ok empty_file" "outputs_ok ''r'' demo_store" "list_all (gives_output ''r'') demo_calls"
    by (simp_all add: file_ok_def ms demo_file_def outputs_ok_def demo_calls_def)
  from completed_output_durable [OF start(1) demo_store_ok(1) start(2,3), of "[]", OF _ _ run [unfolded demo_complete_def]] run
  show ?thesis by simp blast
qed

definition demo_append :: "run_db \<Rightarrow> (run_event, run_db) stored" where
  "demo_append = append_event 9 ''r'' ''e'' ''run.started'' None None None usage_record_zero"

lemma demo_appends: "case fst (demo_append (foldl store_step (demo_file ms) demo_calls)) of Inl _ \<Rightarrow> False | Inr _ \<Rightarrow> True"
  by code_simp

theorem events_appended_once_witness:
  "\<exists>ev db. demo_append (foldl store_step demo_store demo_calls) = (Inr ev, db) \<and> demo_append db = (Inr ev, db)"
proof -
  obtain ms where ms: "demo_store = demo_file ms" using demo_store_file by blast
  obtain ev db where run: "demo_append (foldl store_step demo_store demo_calls) = (Inr ev, db)"
    using demo_appends [of ms, folded ms]
    by (cases "demo_append (foldl store_step demo_store demo_calls)") (auto split: sum.splits)
  have "store_ok (foldl store_step demo_store demo_calls)" using run_ok [OF demo_store_ok(2)] by blast
  from events_appended_once [OF this run [unfolded demo_append_def], of "''run.started''" None 9 "''r''" None None usage_record_zero "[]"]
  show ?thesis using run by (auto simp: demo_append_def append_arguments_ok_def)
qed

definition demo_runs :: "store_call list" where
  "demo_runs = [CreateRun 8 ''a'' ''g'' [] 90 ''m'' 1, CreateRun 8 ''a:b'' ''g'' [] 90 ''m'' 1]"

definition demo_start :: "run_db \<Rightarrow> (run_event, run_db) stored" where
  "demo_start = start_attempt 9 ''a'' ''b:c'' ''p'' ''q'' usage_zero usage_zero"

lemma demo_starts:
  "case demo_start (foldl store_step (demo_file ms) demo_runs) of
     (Inl _, _) \<Rightarrow> False
   | (Inr ev, db) \<Rightarrow> re_attempt ev = Some 1 \<and> next_attempt db ''a:b'' ''c'' = 1"
  by code_simp

theorem attempts_are_fresh_witness:
  "case demo_start (foldl store_step demo_store demo_runs) of (Inl _, _) \<Rightarrow> False | (Inr ev, db) \<Rightarrow> next_attempt db ''a'' ''b:c'' = 2"
proof -
  obtain ms where ms: "demo_store = demo_file ms" using demo_store_file by blast
  obtain ev db where run: "demo_start (foldl store_step demo_store demo_runs) = (Inr ev, db)" "re_attempt ev = Some 1"
    using demo_starts [of ms, folded ms] by (cases "demo_start (foldl store_step demo_store demo_runs)") (auto split: sum.splits)
  have "store_ok (foldl store_step demo_store demo_runs)" using run_ok [OF demo_store_ok(2)] by blast
  from attempts_are_fresh [OF this run(1) [unfolded demo_start_def]] run show ?thesis by simp
qed

theorem colon_ids_collide_witness:
  "case demo_start (foldl store_step demo_store demo_runs) of
     (Inl _, _) \<Rightarrow> False
   | (Inr ev, db) \<Rightarrow> \<exists>msg. start_attempt 10 ''a:b'' ''c'' ''p'' ''q'' usage_zero usage_zero db = (Inl (EventConflict msg), db)"
proof -
  obtain ms where ms: "demo_store = demo_file ms" using demo_store_file by blast
  obtain ev db where run: "demo_start (foldl store_step demo_store demo_runs) = (Inr ev, db)"
      "re_attempt ev = Some 1" "next_attempt db ''a:b'' ''c'' = 1"
    using demo_starts [of ms, folded ms] by (cases "demo_start (foldl store_step demo_store demo_runs)") (auto split: sum.splits)
  have "store_ok (foldl store_step demo_store demo_runs)" using run_ok [OF demo_store_ok(2)] by blast
  from colon_ids_collide [OF this, of 9 "''a''" "''b''" "''c''" "''p''" "''q''" usage_zero usage_zero ev db "''p''" "''q''" "[]" 10
      usage_zero usage_zero] run
  show ?thesis by (auto simp: demo_start_def)
qed

definition demo_old_file :: run_db where
  "demo_old_file =
     \<lparr>db_migrations = [\<lparr>mg_version = 1, mg_name = ''initial_append_only_run_ledger'',
        mg_checksum = migration_checksum initial_schema, mg_applied_at_ms = 3\<rparr>],
      db_definitions = [], db_events = []\<rparr>"

theorem upgrade_exact_witness:
  "\<exists>db. open_store ''runs.db'' (\<lambda>version. 7) demo_old_file = (Inr (), db) \<and> schema_versions db = [1, 2]"
proof -
  have "completions_ok demo_old_file"
    by (simp add: demo_old_file_def completions_ok_def duplicate_completions_def unsupported_completions_def)
  moreover have "schema_at demo_old_file 1" "store_rows_ok demo_old_file"
    by (simp_all add: demo_old_file_def schema_at_def migrations_def store_rows_ok_def numbered_def run_rows_def)
  ultimately show ?thesis
    using upgrade_exact [of demo_old_file "''runs.db''" "\<lambda>version. 7" "\<lambda>version. 7"] by (auto simp: int64_def split: prod.splits sum.splits)
qed

end
