(* ===== verification/Planner.thy ===== *)
theory Planner
  imports Scheduler_Traces
begin

text \<open>
  What the controllers built on the scheduler rely on, as a contract: a planner answers every valid
  problem, rejects an invalid graph with the error of \<open>validate\<close>, and each of its results is lawful. \<open>Scheduler.schedule\<close>
  keeps the contract for every policy.
\<close>

type_synonym planner = "execution_graph \<Rightarrow> run_envelope \<Rightarrow> schedule_policy \<Rightarrow> (py_error + schedule_result) option"

text \<open>An entry runs a timely, qualified profile of its task, after the dependencies of the task.\<close>

definition lawful_entry :: "execution_graph \<Rightarrow> run_envelope \<Rightarrow> schedule_result \<Rightarrow> schedule_entry \<Rightarrow> bool" where
  "lawful_entry g env r e \<longleftrightarrow>
     (\<exists>t \<in> set g. \<exists>p \<in> set (tc_profiles t).
        se_task_id e = tc_task_id t \<and> se_backend e = bp_name p \<and> se_provider e = bp_provider p
        \<and> tc_min_quality t \<le> bp_quality p \<and> 0 \<le> se_start_ms e \<and> se_start_ms e \<le> se_end_ms e
        \<and> se_end_ms e \<le> effective_deadline t (re_deadline_ms env) \<and> se_end_ms e \<le> sr_makespan_ms r
        \<and> (\<forall>d \<in> set (tc_dependencies t). \<exists>e' \<in> set (sr_entries r).
             se_task_id e' = d \<and> se_outcome e' = ''completed'' \<and> se_end_ms e' \<le> se_start_ms e))"

definition lawful_schedule :: "execution_graph \<Rightarrow> run_envelope \<Rightarrow> schedule_result \<Rightarrow> bool" where
  "lawful_schedule g env r \<longleftrightarrow>
     (\<forall>e \<in> set (sr_entries r). lawful_entry g env r e) \<and> distinct (map se_task_id (sr_entries r))
     \<and> set (sr_skipped r) \<subseteq> set (graph_ids g) \<and> set (sr_skipped r) \<inter> se_task_id ` set (sr_entries r) = {}
     \<and> set (sr_skipped r) \<inter> protected_set g = {}
     \<and> sr_total_tokens r = sum_list (map se_tokens (sr_entries r)) \<and> sr_total_tokens r \<le> re_max_tokens env
     \<and> sr_total_cost_microusd r = sum_list (map se_cost_microusd (sr_entries r))
     \<and> sr_total_cost_microusd r \<le> re_max_cost_microusd env
     \<and> sr_total_context_bytes r = sum_list (map se_context_bytes (sr_entries r))
     \<and> sr_total_context_bytes r \<le> re_max_context_bytes env
     \<and> sr_makespan_ms r \<le> re_deadline_ms env
     \<and> (\<forall>q now. int (length (filter (\<lambda>e. se_provider e = q \<and> se_start_ms e \<le> now \<and> now < se_end_ms e) (sr_entries r)))
          \<le> provider_limit env q)
     \<and> (sr_success r \<longrightarrow>
          (\<forall>e \<in> set (sr_entries r). se_outcome e = ''completed'')
          \<and> se_task_id ` set (sr_entries r) \<union> set (sr_skipped r) = set (graph_ids g))"

locale lawful_planner =
  fixes plan :: planner
  assumes answers: "graph_ok g \<Longrightarrow> envelope_ok env \<Longrightarrow> \<exists>r. plan g env policy = Some (Inr r)"
    and rejects: "graph_validate g = Inl x \<Longrightarrow> plan g env policy = Some (Inl x)"
    and lawful: "plan g env policy = Some (Inr r) \<Longrightarrow> lawful_schedule g env r"
begin

lemma success_partition:
  assumes "plan g env policy = Some (Inr r)" and "sr_success r"
  shows "se_task_id ` set (sr_entries r) = set (graph_ids g) - set (sr_skipped r)"
  using lawful [OF assms(1)] assms(2) unfolding lawful_schedule_def by blast

lemma success_protected:
  assumes "plan g env policy = Some (Inr r)" and "sr_success r" and "graph_ok g"
  shows "protected_set g \<subseteq> se_task_id ` set (sr_entries r)"
  using lawful [OF assms(1)] protected_known [OF assms(3)]
  unfolding success_partition [OF assms(1,2)] lawful_schedule_def by blast

end

lemma schedule_lawful:
  assumes "schedule g env policy = Some (Inr r)"
  shows "lawful_schedule g env r"
proof -
  obtain cx L st M where r: "result_of g env policy r cx L st M" by (rule result_run [OF assms])
  note f = result_facts [OF r]
  have "lawful_entry g env r e" if "e \<in> set (sr_entries r)" for e
    unfolding lawful_entry_def
    using entry_honest [OF assms that] entry_after_dependencies [OF assms that] by metis
  moreover have "set (sr_skipped r) \<subseteq> set (graph_ids g)"
    using f(2,6,7) by (simp add: outcome_def core_inv_def skips_ok_def)
  ultimately show ?thesis
    using result_accounts [OF r] result_totals [OF r] result_deadline [OF r] result_concurrency [OF r]
    unfolding lawful_schedule_def by blast
qed

interpretation sp: lawful_planner schedule
proof unfold_locales
  show "\<exists>r. schedule g env policy = Some (Inr r)" if "graph_ok g" "envelope_ok env" for g env policy
    using schedule_outcome [OF that] by metis
  show "schedule g env policy = Some (Inl x)" if "graph_validate g = Inl x" for g env policy x
    using that by (simp add: schedule_def)
qed (rule schedule_lawful)

end
