(* ===== verification/Replan_State.thy ===== *)
theory Replan_State
  imports Feasibility Json_Text Usage
begin

text \<open>
  The durable data of \<open>src/agent_physics/replanning.py\<close> (its \<open>Usage\<close> is in theory \<open>Usage\<close>): effect
  boundaries, run states, progress snapshots, their digests, and the reader that restores a state
  from its text.

  A \<open>ReplanInvariantError\<close> or \<open>ReplanTamperError\<close> carries its message; any other exception is an
  \<open>OtherError\<close>. The fields have their declared types, so the tests \<open>type(x) is T\<close> hold.
  The validators of the source are chains of \<open>if ...: raise\<close>; a chain is a list of conditions that
  have to hold, each with the exception that is raised when it is the first that does not.
\<close>

section \<open>Chains of checks\<close>

datatype replan_error =
    ReplanInvariantError string
  | ReplanTamperError string
  | OverflowError string
  | OtherError py_error

fun run_checks :: "(bool \<times> 'e) list \<Rightarrow> 'e + unit" where
  "run_checks [] = Inr ()"
| "run_checks ((b, e) # cs) = (if b then run_checks cs else Inl e)"

abbreviation demand :: "bool \<Rightarrow> string \<Rightarrow> bool \<times> replan_error" where
  "demand b msg \<equiv> (b, ReplanInvariantError msg)"

lemma run_checks_Inr: "run_checks cs = Inr () \<longleftrightarrow> list_all fst cs"
  by (induction cs rule: run_checks.induct) (auto split: if_splits)

lemma run_checks_append:
  "run_checks (cs @ ds) = (case run_checks cs of Inl e \<Rightarrow> Inl e | Inr _ \<Rightarrow> run_checks ds)"
  by (induction cs rule: run_checks.induct) auto

lemma sorted_set_Nil [simp]: "sorted_set xs = [] \<longleftrightarrow> xs = []"
  by (metis set_sorted_set set_empty)

section \<open>Usage\<close>

definition validate_usage :: "usage \<Rightarrow> string \<Rightarrow> bool \<times> replan_error" where
  "validate_usage u label =
     demand (usage_nonneg u)
       (label @ '' values must be non-negative integers (booleans and floats are invalid)'')"

definition usage_at_least :: "usage \<Rightarrow> usage \<Rightarrow> bool" where
  "usage_at_least candidate prior \<longleftrightarrow>
     us_tokens candidate \<ge> us_tokens prior \<and> us_cost_microusd candidate \<ge> us_cost_microusd prior
     \<and> us_context_bytes candidate \<ge> us_context_bytes prior"

section \<open>Effect boundaries\<close>

record effect_intent_seal =
  es_task_id :: string
  es_intent_id :: string
  es_intent_digest :: string

record effect_boundary =
  eb_intents :: "effect_intent_seal list"
  eb_boundary_digest :: string

definition seal_json :: "effect_intent_seal \<Rightarrow> json" where
  "seal_json s =
     JObj [(''task_id'', JStr (es_task_id s)), (''intent_id'', JStr (es_intent_id s)),
           (''intent_digest'', JStr (es_intent_digest s))]"

definition seal_key :: "effect_intent_seal \<Rightarrow> string \<times> string" where
  "seal_key s = (es_task_id s, es_intent_id s)"

definition boundary_payload :: "effect_intent_seal list \<Rightarrow> json" where
  "boundary_payload seals = JObj [(''intents'', normalize (JArr (map seal_json seals)))]"

definition boundary_create :: "effect_intent_seal list \<Rightarrow> replan_error + effect_boundary" where
  "boundary_create intents =
     (let ordered = sort_key seal_key intents
      in case run_checks
           ([demand (distinct (map es_task_id ordered)) ''an effect boundary may seal at most one intent per task'',
             demand (distinct (map es_intent_id ordered)) ''effect intent IDs must be unique'']
            @ concat (map (\<lambda>s.
                [demand (es_task_id s \<noteq> [] \<and> es_intent_id s \<noteq> []) ''effect seals require task and intent IDs'',
                 demand (is_sha256 (es_intent_digest s)) ''effect intent digests must be lowercase SHA-256'']) ordered)) of
           Inl e \<Rightarrow> Inl e
         | Inr _ \<Rightarrow> Inr \<lparr>eb_intents = ordered, eb_boundary_digest = content_digest (boundary_payload ordered)\<rparr>)"

definition boundary_empty :: effect_boundary where
  "boundary_empty = \<lparr>eb_intents = [], eb_boundary_digest = content_digest (boundary_payload [])\<rparr>"

definition seal_ok :: "effect_intent_seal \<Rightarrow> bool" where
  "seal_ok s \<longleftrightarrow> es_task_id s \<noteq> [] \<and> es_intent_id s \<noteq> [] \<and> is_sha256 (es_intent_digest s)"

definition boundary_verify_digest :: "effect_boundary \<Rightarrow> bool" where
  "boundary_verify_digest b \<longleftrightarrow>
     is_sha256 (eb_boundary_digest b) \<and> list_all seal_ok (eb_intents b)
     \<and> distinct (map es_task_id (eb_intents b)) \<and> distinct (map es_intent_id (eb_intents b))
     \<and> eb_intents b = sort_key seal_key (eb_intents b)
     \<and> eb_boundary_digest b = content_digest (boundary_payload (eb_intents b))"

definition boundary_as_dict :: "effect_boundary \<Rightarrow> json" where
  "boundary_as_dict b =
     JObj [(''intents'', normalize (JArr (map seal_json (eb_intents b)))),
           (''boundary_digest'', JStr (eb_boundary_digest b))]"

text \<open>The tasks an intent seals.\<close>

definition sealed_tasks :: "effect_boundary \<Rightarrow> string list" where
  "sealed_tasks b = map es_task_id (eb_intents b)"

section \<open>Durable states\<close>

record applied_event =
  ae_revision :: int
  ae_event_id :: string
  ae_event_digest :: string

definition applied_json :: "applied_event \<Rightarrow> json" where
  "applied_json a =
     JObj [(''revision'', JInt (ae_revision a)), (''event_id'', JStr (ae_event_id a)),
           (''event_digest'', JStr (ae_event_digest a))]"

record durable_state =
  ds_run_id :: string
  ds_graph_digest :: string
  ds_revision :: int
  ds_prior_state_digest :: "string option"
  ds_current_envelope :: run_envelope
  ds_completed_task_ids :: "string list"
  ds_skipped_task_ids :: "string list"
  ds_settled_usage :: usage
  ds_elapsed_ms :: int
  ds_effect_boundary :: effect_boundary
  ds_provider_capacities :: "(string \<times> int) list"
  ds_provider_slowdowns :: "(string \<times> int) list"
  ds_failed_task_providers :: "(string \<times> string) list"
  ds_applied_events :: "applied_event list"
  ds_state_digest :: string

definition int_pair_json :: "string \<times> int \<Rightarrow> json" where
  "int_pair_json = (\<lambda>(k, n). JArr [JStr k, JInt n])"

definition str_pair_json :: "string \<times> string \<Rightarrow> json" where
  "str_pair_json = (\<lambda>(k, v). JArr [JStr k, JStr v])"

definition state_members :: "durable_state \<Rightarrow> (string \<times> json) list" where
  "state_members s =
     [(''run_id'', JStr (ds_run_id s)), (''graph_digest'', JStr (ds_graph_digest s)),
      (''revision'', JInt (ds_revision s)), (''prior_state_digest'', jopt JStr (ds_prior_state_digest s)),
      (''current_envelope'', normalize (envelope_json (ds_current_envelope s))),
      (''completed_task_ids'', JArr (map JStr (ds_completed_task_ids s))),
      (''skipped_task_ids'', JArr (map JStr (ds_skipped_task_ids s))),
      (''settled_usage'', normalize (usage_json (ds_settled_usage s))), (''elapsed_ms'', JInt (ds_elapsed_ms s)),
      (''effect_boundary'', boundary_as_dict (ds_effect_boundary s)),
      (''provider_capacities'', normalize (JArr (map int_pair_json (ds_provider_capacities s)))),
      (''provider_slowdowns_permille'', normalize (JArr (map int_pair_json (ds_provider_slowdowns s)))),
      (''failed_task_providers'', normalize (JArr (map str_pair_json (ds_failed_task_providers s)))),
      (''applied_events'', normalize (JArr (map applied_json (ds_applied_events s))))]"

definition state_payload :: "durable_state \<Rightarrow> json" where
  "state_payload s = JObj (state_members s)"

definition state_as_dict :: "durable_state \<Rightarrow> (string \<times> json) list" where
  "state_as_dict s = state_members s @ [(''state_digest'', JStr (ds_state_digest s))]"

definition state_to_json :: "durable_state \<Rightarrow> string" where
  "state_to_json s = canonical_json (JObj (state_as_dict s))"

text \<open>\<open>_validate_state_shape\<close>.\<close>

definition pairs_canonical :: "(string \<times> 'v::linorder) list \<Rightarrow> bool" where
  "pairs_canonical ps \<longleftrightarrow> sort ps = ps \<and> length (dict_of ps) = length ps"

definition identity_checks :: "durable_state \<Rightarrow> (bool \<times> replan_error) list" where
  "identity_checks s =
     [demand (ds_run_id s \<noteq> [] \<and> is_sha256 (ds_graph_digest s) \<and> is_sha256 (ds_state_digest s))
        ''durable state identity is malformed'',
      demand (0 \<le> ds_revision s \<and> 0 \<le> ds_elapsed_ms s) ''durable revision and elapsed time cannot be negative'',
      demand (ds_revision s = int (length (ds_applied_events s))) ''revision must equal the append-only event count'',
      demand (ds_revision s = 0 \<longrightarrow> ds_prior_state_digest s = None) ''revision zero cannot name a prior state'',
      demand (ds_revision s > 0 \<longrightarrow> (case ds_prior_state_digest s of None \<Rightarrow> False | Some d \<Rightarrow> d \<noteq> [] \<and> is_sha256 d))
        ''a revised state requires a prior SHA-256 digest'',
      demand (map ae_revision (ds_applied_events s) = [1..ds_revision s]) ''applied event revisions must be contiguous'',
      demand (list_all (\<lambda>i. i \<noteq> []) (map ae_event_id (ds_applied_events s))
          \<and> distinct (map ae_event_id (ds_applied_events s))) ''applied event IDs must be nonempty and unique'',
      demand (list_all (\<lambda>a. is_sha256 (ae_event_digest a)) (ds_applied_events s))
        ''applied event digests must be SHA-256'']"

definition terminal_checks :: "durable_state \<Rightarrow> (bool \<times> replan_error) list" where
  "terminal_checks s =
     [demand (envelope_ok (ds_current_envelope s)) ''durable state contains an invalid envelope'',
      validate_usage (ds_settled_usage s) ''durable settled usage'',
      demand (boundary_verify_digest (ds_effect_boundary s)) ''durable effect boundary is malformed'',
      demand (list_all (\<lambda>i. i \<noteq> []) (ds_completed_task_ids s)) ''completed task IDs must be nonempty strings'',
      demand (list_all (\<lambda>i. i \<noteq> []) (ds_skipped_task_ids s)) ''skipped task IDs must be nonempty strings'',
      demand (sort (ds_completed_task_ids s) = ds_completed_task_ids s) ''completed task IDs must use canonical ordering'',
      demand (sort (ds_skipped_task_ids s) = ds_skipped_task_ids s) ''skipped task IDs must use canonical ordering'',
      demand (distinct (ds_completed_task_ids s)) ''completed task IDs must be unique'',
      demand (distinct (ds_skipped_task_ids s)) ''skipped task IDs must be unique'']"

definition provider_checks :: "durable_state \<Rightarrow> (bool \<times> replan_error) list" where
  "provider_checks s =
     [demand (pairs_canonical (ds_provider_capacities s)) ''provider capacities must be canonical and unique'',
      demand (pairs_canonical (ds_provider_slowdowns s)) ''provider slowdowns must be canonical and unique'',
      demand (list_all (\<lambda>(p, n). p \<noteq> [] \<and> 0 \<le> n) (ds_provider_capacities s))
        ''provider capacities contain an invalid value'',
      demand (list_all (\<lambda>(p, n). p \<noteq> [] \<and> n > 1000) (ds_provider_slowdowns s))
        ''provider slowdowns contain an invalid value'',
      demand (sort (ds_failed_task_providers s) = ds_failed_task_providers s \<and> distinct (ds_failed_task_providers s)
          \<and> list_all (\<lambda>(t, p). t \<noteq> [] \<and> p \<noteq> []) (ds_failed_task_providers s))
        ''failed task providers must be canonical and unique'']"

definition validate_state_shape :: "durable_state \<Rightarrow> replan_error + unit" where
  "validate_state_shape s = run_checks (identity_checks s @ terminal_checks s @ provider_checks s)"

definition state_verify_digest :: "durable_state \<Rightarrow> bool" where
  "state_verify_digest s \<longleftrightarrow>
     validate_state_shape s = Inr () \<and> boundary_verify_digest (ds_effect_boundary s)
     \<and> ds_state_digest s = content_digest (state_payload s)"

text \<open>\<open>_make_state\<close>: the dictionary \<open>values\<close> it digests has the members of the payload of the new state.\<close>

definition make_state :: "execution_graph \<Rightarrow> durable_state \<Rightarrow> replan_error + durable_state" where
  "make_state g draft =
     (let s0 = draft\<lparr>ds_graph_digest := content_digest (graph_json g)\<rparr>;
          s = s0\<lparr>ds_state_digest := content_digest (state_payload s0)\<rparr>
      in case run_checks [validate_usage (ds_settled_usage draft) ''durable settled usage''] of
           Inl e \<Rightarrow> Inl e
         | Inr _ \<Rightarrow> (case validate_state_shape s of Inl e \<Rightarrow> Inl e | Inr _ \<Rightarrow> Inr s))"

section \<open>Restoring a state\<close>

text \<open>The readers of single values; \<open>None\<close> is their \<open>TypeError\<close> (or the \<open>ValueError\<close> of \<open>Usage\<close>),
  which \<open>from_dict\<close> turns into one tamper error. \<open>read_fields\<close> is \<open>_mapping\<close> with
  \<open>_require_exact_fields\<close>.\<close>

fun read_string :: "json \<Rightarrow> string option" where
  "read_string (JStr s) = Some s"
| "read_string v = None"

fun read_optional_string :: "json \<Rightarrow> string option option" where
  "read_optional_string JNull = Some None"
| "read_optional_string v = map_option Some (read_string v)"

fun read_int :: "json \<Rightarrow> int option" where
  "read_int (JInt i) = Some i"
| "read_int v = None"

fun read_float :: "json \<Rightarrow> float64 option" where
  "read_float (JInt i) = Some (float_of (of_int i))"
| "read_float (JFloat x) = Some x"
| "read_float v = None"

fun read_sequence :: "(json \<Rightarrow> 'a option) \<Rightarrow> json \<Rightarrow> 'a list option" where
  "read_sequence f (JArr vs) = those (map f vs)"
| "read_sequence f v = None"

fun read_pair :: "(json \<Rightarrow> 'a option) \<Rightarrow> json \<Rightarrow> (string \<times> 'a) option" where
  "read_pair f (JArr [k, v]) =
     (case read_string k of None \<Rightarrow> None | Some s \<Rightarrow> map_option (Pair s) (f v))"
| "read_pair f v = None"

fun read_fields :: "string list \<Rightarrow> json \<Rightarrow> (string \<times> json) list option" where
  "read_fields names (JObj kvs) = (if set (dkeys kvs) = set names then Some kvs else None)"
| "read_fields names v = None"

text \<open>\<open>payload[name]\<close>, read by \<open>f\<close>.\<close>

definition read_member :: "(json \<Rightarrow> 'a option) \<Rightarrow> (string \<times> json) list \<Rightarrow> string \<Rightarrow> 'a option" where
  "read_member f kvs name = Option.bind (dget kvs name) f"

definition seal_names :: "string list" where
  "seal_names = [''task_id'', ''intent_id'', ''intent_digest'']"

definition read_seal :: "json \<Rightarrow> effect_intent_seal option" where
  "read_seal v =
     (case read_fields seal_names v of
        None \<Rightarrow> None
      | Some m \<Rightarrow>
          (case (read_member read_string m ''task_id'', read_member read_string m ''intent_id'',
                 read_member read_string m ''intent_digest'') of
             (Some t, Some i, Some d) \<Rightarrow> Some \<lparr>es_task_id = t, es_intent_id = i, es_intent_digest = d\<rparr>
           | _ \<Rightarrow> None))"

definition boundary_names :: "string list" where
  "boundary_names = [''intents'', ''boundary_digest'']"

definition read_boundary :: "json \<Rightarrow> effect_boundary option" where
  "read_boundary v =
     (case read_fields boundary_names v of
        None \<Rightarrow> None
      | Some m \<Rightarrow>
          (case (read_member (read_sequence read_seal) m ''intents'', read_member read_string m ''boundary_digest'') of
             (Some seals, Some d) \<Rightarrow> Some \<lparr>eb_intents = seals, eb_boundary_digest = d\<rparr>
           | _ \<Rightarrow> None))"

definition usage_names :: "string list" where
  "usage_names = [''tokens'', ''cost_microusd'', ''context_bytes'']"

definition read_usage :: "json \<Rightarrow> usage option" where
  "read_usage v =
     (case read_fields usage_names v of
        None \<Rightarrow> None
      | Some m \<Rightarrow>
          (case map (read_member read_int m) usage_names of
             [Some t, Some c, Some b] \<Rightarrow> mk_usage t c b
           | _ \<Rightarrow> None))"

definition applied_names :: "string list" where
  "applied_names = [''revision'', ''event_id'', ''event_digest'']"

definition read_applied :: "json \<Rightarrow> applied_event option" where
  "read_applied v =
     (case read_fields applied_names v of
        None \<Rightarrow> None
      | Some m \<Rightarrow>
          (case (read_member read_int m ''revision'', read_member read_string m ''event_id'',
                 read_member read_string m ''event_digest'') of
             (Some r, Some i, Some d) \<Rightarrow> Some \<lparr>ae_revision = r, ae_event_id = i, ae_event_digest = d\<rparr>
           | _ \<Rightarrow> None))"

definition run_limit_names :: "string list" where
  "run_limit_names = [''deadline_ms'', ''max_tokens'', ''max_cost_microusd'', ''max_context_bytes'', ''max_parallelism'']"

definition physical_names :: "string list" where
  "physical_names =
     [''max_cpu_time_ms'', ''max_peak_memory_bytes'', ''max_peak_vram_bytes'', ''max_storage_read_bytes'',
      ''max_storage_write_bytes'', ''max_network_ingress_bytes'', ''max_network_egress_bytes'',
      ''available_bandwidth_bps'', ''max_network_rtt_ms'', ''max_egress_cost_microusd'']"

definition envelope_names :: "string list" where
  "envelope_names = run_limit_names @ [''min_modeled_success_probability'', ''provider_limits''] @ physical_names"

definition read_envelope :: "json \<Rightarrow> run_envelope option" where
  "read_envelope v =
     (case read_fields envelope_names v of
        None \<Rightarrow> None
      | Some m \<Rightarrow>
          (case (map (read_member read_int m) run_limit_names, map (read_member read_int m) physical_names,
                 read_member read_float m ''min_modeled_success_probability'',
                 read_member (read_sequence (read_pair read_int)) m ''provider_limits'') of
             ([Some dl, Some tok, Some cost, Some ctx, Some par],
              [Some cpu, Some mem, Some vram, Some rd, Some wr, Some ing, Some egr, Some bw, Some rtt, Some ec],
              Some prob, Some limits) \<Rightarrow>
               Some \<lparr>re_deadline_ms = dl, re_max_tokens = tok, re_max_cost_microusd = cost,
                     re_max_context_bytes = ctx, re_max_parallelism = par, re_min_success = prob,
                     re_provider_limits = limits, re_max_cpu_time_ms = cpu, re_max_peak_memory_bytes = mem,
                     re_max_peak_vram_bytes = vram, re_max_storage_read_bytes = rd, re_max_storage_write_bytes = wr,
                     re_max_network_ingress_bytes = ing, re_max_network_egress_bytes = egr,
                     re_available_bandwidth_bps = bw, re_max_network_rtt_ms = rtt, re_max_egress_cost_microusd = ec\<rparr>
           | _ \<Rightarrow> None))"

definition state_names :: "string list" where
  "state_names =
     [''run_id'', ''graph_digest'', ''revision'', ''prior_state_digest'', ''current_envelope'',
      ''completed_task_ids'', ''skipped_task_ids'', ''settled_usage'', ''elapsed_ms'', ''effect_boundary'',
      ''provider_capacities'', ''provider_slowdowns_permille'', ''failed_task_providers'', ''applied_events'',
      ''state_digest'']"

definition read_state :: "(string \<times> json) list \<Rightarrow> durable_state option" where
  "read_state payload =
     (case read_fields state_names (JObj payload) of
        None \<Rightarrow> None
      | Some m \<Rightarrow>
          (case (read_member read_boundary m ''effect_boundary'', read_member read_envelope m ''current_envelope'',
                 read_member read_usage m ''settled_usage'', read_member (read_sequence read_applied) m ''applied_events'') of
             (Some seals, Some env, Some used, Some applied) \<Rightarrow>
               (case (map (read_member read_string m) [''run_id'', ''graph_digest'', ''state_digest''],
                      map (read_member read_int m) [''revision'', ''elapsed_ms''],
                      read_member read_optional_string m ''prior_state_digest'',
                      map (read_member (read_sequence read_string) m) [''completed_task_ids'', ''skipped_task_ids''],
                      map (read_member (read_sequence (read_pair read_int)) m)
                        [''provider_capacities'', ''provider_slowdowns_permille''],
                      read_member (read_sequence (read_pair read_string)) m ''failed_task_providers'') of
                  ([Some rid, Some gd, Some sd], [Some rvn, Some el], Some prior, [Some cids, Some sids],
                   [Some caps, Some slow], Some fails) \<Rightarrow>
                    Some \<lparr>ds_run_id = rid, ds_graph_digest = gd, ds_revision = rvn, ds_prior_state_digest = prior,
                          ds_current_envelope = env, ds_completed_task_ids = cids, ds_skipped_task_ids = sids,
                          ds_settled_usage = used, ds_elapsed_ms = el, ds_effect_boundary = seals,
                          ds_provider_capacities = caps, ds_provider_slowdowns = slow,
                          ds_failed_task_providers = fails, ds_applied_events = applied, ds_state_digest = sd\<rparr>
                | _ \<Rightarrow> None)
           | _ \<Rightarrow> None))"

text \<open>\<open>float(probability)\<close> raises an \<open>OverflowError\<close>, which \<open>from_dict\<close> does not catch, when everything read before it is fine.\<close>

definition probability_overflows :: "(string \<times> json) list \<Rightarrow> bool" where
  "probability_overflows payload \<longleftrightarrow>
     set (dkeys payload) = set state_names \<and> read_member read_boundary payload ''effect_boundary'' \<noteq> None
     \<and> (case Option.bind (dget payload ''current_envelope'') (read_fields envelope_names) of
           None \<Rightarrow> False
         | Some m \<Rightarrow>
             list_all (\<lambda>n. read_member read_int m n \<noteq> None) run_limit_names
             \<and> read_member (read_sequence (read_pair read_int)) m ''provider_limits'' \<noteq> None
             \<and> (case dget m ''min_modeled_success_probability'' of
                   Some (JInt i) \<Rightarrow> \<bar>i\<bar> \<ge> 2 ^ 1024 - 2 ^ 970
                 | _ \<Rightarrow> False))"

definition state_from_dict :: "(string \<times> json) list \<Rightarrow> replan_error + durable_state" where
  "state_from_dict payload =
     (if probability_overflows payload then Inl (OverflowError ''int too large to convert to float'')
      else case read_state payload of
        None \<Rightarrow> Inl (ReplanTamperError ''durable state has an invalid schema'')
      | Some s \<Rightarrow>
          if \<not> state_verify_digest s then Inl (ReplanTamperError ''durable state digest verification failed'')
          else (case validate_state_shape s of Inl e \<Rightarrow> Inl e | Inr _ \<Rightarrow> Inr s))"

definition state_from_json :: "string \<Rightarrow> replan_error + durable_state" where
  "state_from_json text =
     (case json_loads text of
        None \<Rightarrow> Inl (ReplanTamperError ''durable state is not valid JSON'')
      | Some (JObj payload) \<Rightarrow> state_from_dict payload
      | Some v \<Rightarrow> Inl (OtherError (TypeError ''state must be an object'')))"

section \<open>Progress snapshots\<close>

record progress_snapshot =
  ps_completed_task_ids :: "string list"
  ps_skipped_task_ids :: "string list"
  ps_settled_usage :: usage
  ps_elapsed_ms :: int
  ps_effect_boundary_digest :: string
  ps_effect_boundary :: "effect_boundary option"

text \<open>\<open>from_state\<close>; an argument \<open>None\<close> keeps the fact of the state.\<close>

definition snapshot_from_state ::
  "durable_state \<Rightarrow> string list option \<Rightarrow> string list option \<Rightarrow> usage option \<Rightarrow> int option \<Rightarrow>
   effect_boundary option \<Rightarrow> replan_error + progress_snapshot" where
  "snapshot_from_state s completed skipped used elapsed sealing =
     (if \<not> state_verify_digest s then
        Inl (ReplanInvariantError ''progress requires an exact verified durable state'')
      else
        let b = (case sealing of None \<Rightarrow> ds_effect_boundary s | Some b \<Rightarrow> b)
        in Inr \<lparr>ps_completed_task_ids = (case completed of None \<Rightarrow> ds_completed_task_ids s | Some c \<Rightarrow> c),
                ps_skipped_task_ids = (case skipped of None \<Rightarrow> ds_skipped_task_ids s | Some c \<Rightarrow> c),
                ps_settled_usage = (case used of None \<Rightarrow> ds_settled_usage s | Some u \<Rightarrow> u),
                ps_elapsed_ms = (case elapsed of None \<Rightarrow> ds_elapsed_ms s | Some n \<Rightarrow> n),
                ps_effect_boundary_digest = eb_boundary_digest b, ps_effect_boundary = Some b\<rparr>)"

end
