(* ===== verification/Replan_Residual.thy ===== *)
theory Replan_Residual
  imports Replan_State
begin

text \<open>
  The disturbances a replan reacts to, the residual graph it builds and the envelope that is left
  (\<open>src/agent_physics/replanning.py\<close>).

  Python sets are lists. The body of the \<open>for\<close> loop of \<open>_build_residual\<close> is \<open>task_block\<close> (the reason why a
  task cannot run) inside \<open>residual_pass\<close>; \<open>residual_loop\<close> is its \<open>while True\<close>, which ends because a pass
  that changed something shed a task that was not shed before. The parameters of the method that stay
  fixed in the loop are the record \<open>residual_cx\<close>. Like the source, the builder ends in \<open>from_tasks\<close>, which validates
  the residual graph and raises its error.
\<close>

section \<open>Events\<close>

datatype replan_event =
    ProviderSlowdownEvent (replan_event_id: string) (occurred_at_ms: int) string int
  | TaskFailureEvent (replan_event_id: string) (occurred_at_ms: int) string string
  | ProviderCapacityEvent (replan_event_id: string) (occurred_at_ms: int) string int
  | EnvelopeChangeEvent (replan_event_id: string) (occurred_at_ms: int) run_envelope

datatype replan_event_kind = PROVIDER_SLOWDOWN | TASK_FAILURE | PROVIDER_CAPACITY | ENVELOPE_CHANGE

fun replan_kind_value :: "replan_event_kind \<Rightarrow> string" where
  "replan_kind_value PROVIDER_SLOWDOWN = ''provider.slowdown''"
| "replan_kind_value TASK_FAILURE = ''task.failure''"
| "replan_kind_value PROVIDER_CAPACITY = ''provider.capacity''"
| "replan_kind_value ENVELOPE_CHANGE = ''envelope.change''"

fun replan_kind :: "replan_event \<Rightarrow> replan_event_kind" where
  "replan_kind (ProviderSlowdownEvent i n p m) = PROVIDER_SLOWDOWN"
| "replan_kind (TaskFailureEvent i n t p) = TASK_FAILURE"
| "replan_kind (ProviderCapacityEvent i n p c) = PROVIDER_CAPACITY"
| "replan_kind (EnvelopeChangeEvent i n env) = ENVELOPE_CHANGE"

fun replan_event_fields :: "replan_event \<Rightarrow> (string \<times> json) list" where
  "replan_event_fields (ProviderSlowdownEvent i n p m) = [(''provider'', JStr p), (''multiplier_permille'', JInt m)]"
| "replan_event_fields (TaskFailureEvent i n t p) = [(''task_id'', JStr t), (''provider'', JStr p)]"
| "replan_event_fields (ProviderCapacityEvent i n p c) = [(''provider'', JStr p), (''capacity'', JInt c)]"
| "replan_event_fields (EnvelopeChangeEvent i n env) = [(''envelope'', normalize (envelope_json env))]"

definition replan_event_payload :: "replan_event \<Rightarrow> json" where
  "replan_event_payload e =
     JObj ([(''event_id'', JStr (replan_event_id e)), (''kind'', JStr (replan_kind_value (replan_kind e))),
            (''occurred_at_ms'', JInt (occurred_at_ms e))] @ replan_event_fields e)"

definition replan_event_digest :: "replan_event \<Rightarrow> string" where
  "replan_event_digest e = content_digest (replan_event_payload e)"

text \<open>\<open>_validate_event\<close>.\<close>

definition known_providers :: "execution_graph \<Rightarrow> string list" where
  "known_providers g = concat (map (\<lambda>t. map bp_provider (tc_profiles t)) g)"

fun event_checks :: "execution_graph \<Rightarrow> replan_event \<Rightarrow> (bool \<times> replan_error) list" where
  "event_checks g (ProviderSlowdownEvent i n p m) =
     [demand (p \<in> set (known_providers g)) ''slowdown targets an unknown provider'',
      demand (m > 1000) ''a slowdown multiplier must be an integer above 1000'']"
| "event_checks g (TaskFailureEvent i n t p) =
     (case dget (by_id g) t of
        None \<Rightarrow> [demand False ''failure targets an unknown task'']
      | Some task \<Rightarrow> [demand (p \<in> set (map bp_provider (tc_profiles task))) ''failure targets an undeclared task provider''])"
| "event_checks g (ProviderCapacityEvent i n p c) =
     [demand (p \<in> set (known_providers g)) ''capacity event targets an unknown provider'',
      demand (0 \<le> c) ''provider capacity must be a non-negative integer'']"
| "event_checks g (EnvelopeChangeEvent i n env) =
     [demand (validate_envelope env = [])
        (''changed envelope is invalid: '' @ semicolon_join (validate_envelope env))]"

definition validate_event :: "execution_graph \<Rightarrow> replan_event \<Rightarrow> replan_error + unit" where
  "validate_event g e =
     run_checks ([demand (replan_event_id e \<noteq> []) ''event_id is required'',
       demand (0 \<le> occurred_at_ms e) ''event time must be a non-negative integer''] @ event_checks g e)"

section \<open>Reasons\<close>

datatype replan_reason_code =
    EVENT_APPLIED | OPTIONAL_WORK_SHED | NO_RESIDUAL_WORK | MANDATORY_PROMISE_BROKEN | NO_ADMISSIBLE_PROFILE
  | RESOURCE_EXHAUSTED | DEADLINE_EXHAUSTED | EFFECT_COMMIT_UNCONFIRMED | SCHEDULER_REFUSED

fun reason_code_value :: "replan_reason_code \<Rightarrow> string" where
  "reason_code_value EVENT_APPLIED = ''event_applied''"
| "reason_code_value OPTIONAL_WORK_SHED = ''optional_work_shed''"
| "reason_code_value NO_RESIDUAL_WORK = ''no_residual_work''"
| "reason_code_value MANDATORY_PROMISE_BROKEN = ''mandatory_promise_broken''"
| "reason_code_value NO_ADMISSIBLE_PROFILE = ''no_admissible_profile''"
| "reason_code_value RESOURCE_EXHAUSTED = ''resource_exhausted''"
| "reason_code_value DEADLINE_EXHAUSTED = ''deadline_exhausted''"
| "reason_code_value EFFECT_COMMIT_UNCONFIRMED = ''effect_commit_unconfirmed''"
| "reason_code_value SCHEDULER_REFUSED = ''scheduler_refused''"

record replan_reason =
  rr_code :: replan_reason_code
  rr_summary :: string
  rr_facts :: "(string \<times> json) list"

definition mk_reason :: "replan_reason_code \<Rightarrow> string \<Rightarrow> (string \<times> json) list \<Rightarrow> replan_reason" where
  "mk_reason code summary facts = \<lparr>rr_code = code, rr_summary = summary, rr_facts = sort_key fst facts\<rparr>"

definition reason_verify :: "replan_reason \<Rightarrow> bool" where
  "reason_verify r \<longleftrightarrow>
     rr_summary r \<noteq> [] \<and> list_all (\<lambda>k. k \<noteq> []) (map fst (rr_facts r)) \<and> distinct (map fst (rr_facts r))
     \<and> rr_facts r = sort_key fst (rr_facts r)"

definition reason_as_dict :: "replan_reason \<Rightarrow> json" where
  "reason_as_dict r =
     JObj [(''code'', JStr (reason_code_value (rr_code r))), (''summary'', JStr (rr_summary r)),
           (''facts'', JObj (dict_of (map (\<lambda>(k, v). (k, normalize v)) (rr_facts r)))),
           (''fact_pairs'', normalize (JArr (map (\<lambda>(k, v). JArr [JStr k, v]) (rr_facts r))))]"

abbreviation jstrs :: "string list \<Rightarrow> json" where
  "jstrs xs \<equiv> JArr (map JStr xs)"

section \<open>The residual graph\<close>

text \<open>\<open>_protected_task_ids\<close> of the replanner: the same closure by a stack as that of the scheduler.\<close>

definition replan_protected_ids :: "execution_graph \<Rightarrow> py_error + string list" where
  "replan_protected_ids g =
     (let required = remdups (map tc_task_id (filter (\<lambda>t. \<not> tc_optional t) g))
      in protected_loop (by_id g) required required)"

definition scaled_duration :: "int \<Rightarrow> int \<Rightarrow> int" where
  "scaled_duration duration_ms multiplier_permille = (duration_ms * multiplier_permille + 999) div 1000"

record residual_cx =
  rx_protected :: "string list"
  rx_satisfied :: "string list"
  rx_sealed :: "string list"
  rx_skipped :: "string list"
  rx_elapsed_ms :: int
  rx_capacities :: "(string, int) dict"
  rx_slowdowns :: "(string, int) dict"
  rx_failed :: "(string \<times> string) list"

definition get_or :: "('k, 'v) dict \<Rightarrow> 'k \<Rightarrow> 'v \<Rightarrow> 'v" where
  "get_or d k v = (case dget d k of None \<Rightarrow> v | Some w \<Rightarrow> w)"

definition available_profile :: "residual_cx \<Rightarrow> string \<Rightarrow> backend_profile \<Rightarrow> bool" where
  "available_profile cx task_id p \<longleftrightarrow>
     get_or (rx_capacities cx) (bp_provider p) 1 \<noteq> 0 \<and> (task_id, bp_provider p) \<notin> set (rx_failed cx)"

definition slowed_profile :: "residual_cx \<Rightarrow> backend_profile \<Rightarrow> backend_profile" where
  "slowed_profile cx p =
     (let multiplier = get_or (rx_slowdowns cx) (bp_provider p) 1000
      in p\<lparr>bp_duration_ms_p50 := scaled_duration (bp_duration_ms_p50 p) multiplier,
           bp_duration_ms_p95 := scaled_duration (bp_duration_ms_p95 p) multiplier\<rparr>)"

definition transformed_profiles :: "residual_cx \<Rightarrow> task_contract \<Rightarrow> backend_profile list" where
  "transformed_profiles cx t =
     map (slowed_profile cx) (filter (available_profile cx (tc_task_id t)) (tc_profiles t))"

definition deadline_left :: "residual_cx \<Rightarrow> task_contract \<Rightarrow> int option" where
  "deadline_left cx t = map_option (\<lambda>d. d - rx_elapsed_ms cx) (tc_deadline_ms t)"

definition deadline_gone :: "residual_cx \<Rightarrow> task_contract \<Rightarrow> bool" where
  "deadline_gone cx t \<longleftrightarrow> (case deadline_left cx t of None \<Rightarrow> False | Some d \<Rightarrow> d \<le> 0)"

text \<open>\<open>sorted(set(task.dependencies) & s)\<close>.\<close>

definition deps_within :: "task_contract \<Rightarrow> string list \<Rightarrow> string list" where
  "deps_within t s = sorted_set (filter (\<lambda>d. d \<in> set s) (tc_dependencies t))"

definition task_block :: "residual_cx \<Rightarrow> string list \<Rightarrow> task_contract \<Rightarrow> replan_reason option" where
  "task_block cx effective_skips t =
     (let blocked = deps_within t effective_skips; pending = deps_within t (rx_sealed cx);
          qualified = filter (\<lambda>p. tc_min_quality t \<le> bp_quality p) (transformed_profiles cx t)
      in if blocked \<noteq> [] then
           Some (mk_reason MANDATORY_PROMISE_BROKEN ''mandatory work depends on skipped work''
             [(''task_id'', JStr (tc_task_id t)), (''dependencies'', jstrs blocked)])
         else if pending \<noteq> [] then
           Some (mk_reason EFFECT_COMMIT_UNCONFIRMED
             ''mandatory work depends on a sealed effect intent without a committed completion fact''
             [(''task_id'', JStr (tc_task_id t)), (''pending_effect_task_ids'', jstrs pending)])
         else if qualified = [] \<or> deadline_gone cx t then
           Some (mk_reason (if deadline_gone cx t then DEADLINE_EXHAUSTED else NO_ADMISSIBLE_PROFILE)
             ''a mandatory residual task has no admissible modeled execution''
             [(''task_id'', JStr (tc_task_id t))])
         else None)"

definition settled_task :: "residual_cx \<Rightarrow> string list \<Rightarrow> string \<Rightarrow> bool" where
  "settled_task cx skips task_id \<longleftrightarrow>
     task_id \<in> set (rx_satisfied cx) \<or> task_id \<in> set (rx_sealed cx) \<or> task_id \<in> set skips"

text \<open>One pass; \<open>Inl\<close> is the early return of a refusal with the tasks shed so far.\<close>

fun residual_pass ::
  "residual_cx \<Rightarrow> string list \<Rightarrow> task_contract list \<Rightarrow> string list \<Rightarrow> bool \<Rightarrow>
   (replan_reason \<times> string list) + (string list \<times> bool)" where
  "residual_pass cx skips [] auto_shed changed = Inr (auto_shed, changed)"
| "residual_pass cx skips (t # ts) auto_shed changed =
     (if settled_task cx skips (tc_task_id t) then residual_pass cx skips ts auto_shed changed
      else case task_block cx skips t of
        None \<Rightarrow> residual_pass cx skips ts auto_shed changed
      | Some reason \<Rightarrow>
          if tc_task_id t \<in> set (rx_protected cx) then Inl (reason, auto_shed)
          else residual_pass cx skips ts (List.insert (tc_task_id t) auto_shed) True)"

definition stuck :: "residual_cx \<Rightarrow> string list \<Rightarrow> task_contract \<Rightarrow> bool" where
  "stuck cx skips t \<longleftrightarrow> \<not> settled_task cx skips (tc_task_id t) \<and> task_block cx skips t \<noteq> None"

lemma residual_pass_Inr:
  "residual_pass cx skips ts shed changed = Inr (shed', changed') \<Longrightarrow>
     set shed' = set shed \<union> tc_task_id ` {t \<in> set ts. stuck cx skips t}
     \<and> (changed' \<longleftrightarrow> changed \<or> (\<exists>t \<in> set ts. stuck cx skips t))
     \<and> (\<forall>t \<in> set ts. stuck cx skips t \<longrightarrow> tc_task_id t \<notin> set (rx_protected cx))"
proof (induction ts arbitrary: shed changed)
  case Nil
  then show ?case by simp
next
  case (Cons t ts)
  show ?case
  proof (cases "stuck cx skips t")
    case True
    with Cons.prems Cons.IH [of "List.insert (tc_task_id t) shed" True] show ?thesis
      by (auto simp: stuck_def split: if_splits)
  next
    case False
    with Cons.prems Cons.IH [of shed changed] show ?thesis
      by (auto simp: stuck_def split: if_splits)
  qed
qed

lemma residual_pass_Inl:
  "residual_pass cx skips ts shed changed = Inl (r, shed') \<Longrightarrow>
     \<exists>t \<in> set ts. stuck cx skips t \<and> tc_task_id t \<in> set (rx_protected cx) \<and> task_block cx skips t = Some r"
proof (induction ts arbitrary: shed changed)
  case Nil
  then show ?case by simp
next
  case (Cons t ts)
  show ?case
  proof (cases "stuck cx skips t")
    case True
    with Cons.prems Cons.IH [of "List.insert (tc_task_id t) shed" True] show ?thesis
      by (auto simp: stuck_def split: if_splits)
  next
    case False
    with Cons.prems Cons.IH [of shed changed] show ?thesis
      by (auto simp: stuck_def split: if_splits)
  qed
qed

lemma residual_pass_changed:
  assumes "residual_pass cx (S @ shed) g shed False = Inr (shed', True)"
  shows "card (set (graph_ids g) - set shed') < card (set (graph_ids g) - set shed)"
proof -
  from residual_pass_Inr [OF assms] obtain t where t: "t \<in> set g" "stuck cx (S @ shed) t"
    "tc_task_id t \<in> set shed'" and grow: "set shed \<subseteq> set shed'" by auto
  from t(1,2) have "tc_task_id t \<in> set (graph_ids g) - set shed" by (simp add: stuck_def settled_task_def graph_ids_def)
  with t(3) grow show ?thesis by (intro psubset_card_mono) auto
qed

function residual_loop ::
  "residual_cx \<Rightarrow> execution_graph \<Rightarrow> string list \<Rightarrow> (replan_reason \<times> string list) + string list" where
  "residual_loop cx g auto_shed =
     (case residual_pass cx (rx_skipped cx @ auto_shed) g auto_shed False of
        Inl refusal \<Rightarrow> Inl refusal
      | Inr (shed', changed) \<Rightarrow> if changed then residual_loop cx g shed' else Inr shed')"
  by pat_completeness auto

termination
  by (relation "measure (\<lambda>(cx, g, shed). card (set (graph_ids g) - set shed))")
    (auto dest!: residual_pass_changed)

declare residual_loop.simps [simp del]

record residual_build =
  rb_graph :: "execution_graph option"
  rb_auto_shed :: "string list"
  rb_refusal :: "replan_reason option"

definition residual_task :: "residual_cx \<Rightarrow> task_contract \<Rightarrow> task_contract" where
  "residual_task cx t =
     t\<lparr>tc_profiles := transformed_profiles cx t,
       tc_dependencies := filter (\<lambda>d. d \<notin> set (rx_satisfied cx)) (tc_dependencies t),
       tc_deadline_ms := deadline_left cx t\<rparr>"

definition residual_tasks :: "residual_cx \<Rightarrow> execution_graph \<Rightarrow> string list \<Rightarrow> task_contract list" where
  "residual_tasks cx g auto_shed =
     map (residual_task cx) (filter (\<lambda>t. \<not> settled_task cx (rx_skipped cx @ auto_shed) (tc_task_id t)) g)"

definition residual_context ::
  "string list \<Rightarrow> string list \<Rightarrow> string list \<Rightarrow> int \<Rightarrow> effect_boundary \<Rightarrow> (string, int) dict \<Rightarrow>
   (string, int) dict \<Rightarrow> (string \<times> string) list \<Rightarrow> residual_cx" where
  "residual_context protected completed skipped elapsed sealing capacities slowdowns failed =
     \<lparr>rx_protected = protected, rx_satisfied = completed,
      rx_sealed = filter (\<lambda>i. i \<notin> set completed) (sealed_tasks sealing), rx_skipped = skipped,
      rx_elapsed_ms = elapsed, rx_capacities = capacities, rx_slowdowns = slowdowns, rx_failed = failed\<rparr>"

text \<open>\<open>ExecutionGraph.from_tasks\<close> validates the graph it builds.\<close>

definition from_tasks :: "task_contract list \<Rightarrow> py_error + execution_graph" where
  "from_tasks tasks = (case graph_validate tasks of Inl x \<Rightarrow> Inl x | Inr _ \<Rightarrow> Inr tasks)"

definition finish_residual :: "residual_cx \<Rightarrow> execution_graph \<Rightarrow> py_error + residual_build" where
  "finish_residual cx g =
     (let violated = sorted_set (filter (\<lambda>i. i \<in> set (rx_protected cx)) (rx_skipped cx))
      in if violated \<noteq> [] then
           Inr \<lparr>rb_graph = None, rb_auto_shed = [],
                rb_refusal = Some (mk_reason MANDATORY_PROMISE_BROKEN
                  ''a mandatory task or one of its required dependencies was skipped'' [(''task_ids'', jstrs violated)])\<rparr>
         else case residual_loop cx g [] of
           Inl (reason, shed) \<Rightarrow> Inr \<lparr>rb_graph = None, rb_auto_shed = sorted_set shed, rb_refusal = Some reason\<rparr>
         | Inr shed \<Rightarrow>
             (let tasks = residual_tasks cx g shed
              in if tasks = [] \<and> rx_sealed cx \<noteq> [] then
                   (case from_tasks [] of
                      Inl x \<Rightarrow> Inl x
                    | Inr g' \<Rightarrow>
                        Inr \<lparr>rb_graph = Some g', rb_auto_shed = sorted_set shed,
                             rb_refusal = Some (mk_reason EFFECT_COMMIT_UNCONFIRMED
                               ''sealed effect intents remain dispatch-protected but lack committed completion facts''
                               [(''pending_effect_task_ids'', jstrs (sorted_set (rx_sealed cx)))])\<rparr>)
                 else
                   (case from_tasks tasks of
                      Inl x \<Rightarrow> Inl x
                    | Inr g' \<Rightarrow> Inr \<lparr>rb_graph = Some g', rb_auto_shed = sorted_set shed, rb_refusal = None\<rparr>)))"

definition build_residual ::
  "execution_graph \<Rightarrow> string list \<Rightarrow> string list \<Rightarrow> int \<Rightarrow> effect_boundary \<Rightarrow> (string, int) dict \<Rightarrow>
   (string, int) dict \<Rightarrow> (string \<times> string) list \<Rightarrow> py_error + residual_build" where
  "build_residual g completed skipped elapsed sealing capacities slowdowns failed =
     (case replan_protected_ids g of
        Inl e \<Rightarrow> Inl e
      | Inr protected \<Rightarrow>
          finish_residual
            (residual_context protected completed skipped elapsed sealing capacities slowdowns failed) g)"

section \<open>What is left of the envelope\<close>

definition usage_exceeds :: "run_envelope \<Rightarrow> usage \<Rightarrow> bool" where
  "usage_exceeds env used \<longleftrightarrow>
     min (re_max_tokens env - us_tokens used)
       (min (re_max_cost_microusd env - us_cost_microusd used) (re_max_context_bytes env - us_context_bytes used)) < 0"

definition settled_facts :: "usage \<Rightarrow> (string \<times> json) list" where
  "settled_facts used =
     [(''settled_tokens'', JInt (us_tokens used)), (''settled_cost_microusd'', JInt (us_cost_microusd used)),
      (''settled_context_bytes'', JInt (us_context_bytes used))]"

definition time_facts :: "run_envelope \<Rightarrow> int \<Rightarrow> (string \<times> json) list" where
  "time_facts env elapsed =
     [(''elapsed_ms'', JInt elapsed), (''total_deadline_ms'', JInt (re_deadline_ms env))]"

definition consumed_envelope_refusal :: "run_envelope \<Rightarrow> usage \<Rightarrow> int \<Rightarrow> replan_reason option" where
  "consumed_envelope_refusal env used elapsed =
     (if usage_exceeds env used then
        Some (mk_reason RESOURCE_EXHAUSTED ''actual settled usage exceeds the current total envelope'' (settled_facts used))
      else if elapsed > re_deadline_ms env then
        Some (mk_reason DEADLINE_EXHAUSTED ''cumulative elapsed time exceeds the current total deadline''
          (time_facts env elapsed))
      else None)"

text \<open>\<open>d.update(e)\<close>.\<close>

definition dict_update :: "('k, 'v) dict \<Rightarrow> ('k, 'v) dict \<Rightarrow> ('k, 'v) dict" where
  "dict_update d e = foldl (\<lambda>d (k, v). dset k v d) d e"

definition remaining_limits :: "run_envelope \<Rightarrow> (string, int) dict \<Rightarrow> (string \<times> int) list" where
  "remaining_limits env capacities =
     sort (filter (\<lambda>(p, c). c > 0) (dict_update (dict_of (re_provider_limits env)) capacities))"

definition remaining_envelope ::
  "run_envelope \<Rightarrow> usage \<Rightarrow> int \<Rightarrow> (string, int) dict \<Rightarrow> replan_reason + run_envelope" where
  "remaining_envelope env used elapsed capacities =
     (if usage_exceeds env used then
        Inl (mk_reason RESOURCE_EXHAUSTED ''actual settled usage already exceeds the current total envelope''
          (settled_facts used))
      else if re_deadline_ms env - elapsed \<le> 0 then
        Inl (mk_reason DEADLINE_EXHAUSTED ''no modeled run time remains after subtracting elapsed time''
          (time_facts env elapsed))
      else Inr (env\<lparr>re_deadline_ms := re_deadline_ms env - elapsed,
                    re_max_tokens := re_max_tokens env - us_tokens used,
                    re_max_cost_microusd := re_max_cost_microusd env - us_cost_microusd used,
                    re_max_context_bytes := re_max_context_bytes env - us_context_bytes used,
                    re_provider_limits := remaining_limits env capacities\<rparr>))"

end
