(* ===== verification/Replanner.thy ===== *)
theory Replanner
  imports Replan_Residual Planner
begin

text \<open>
  \<open>EventDrivenReplanner\<close> of \<open>src/agent_physics/replanning.py\<close>: its three operations \<open>initial_state\<close>,
  \<open>replan\<close> and \<open>verify_transition\<close>. The scheduler it plans with is an argument, as in the
  source (\<open>self._scheduler\<close>, by default \<open>Scheduler()\<close>); the answer \<open>None\<close> is that of a planner that does
  not return, and a lawful planner always does.
\<close>

section \<open>Decisions\<close>

datatype replan_disposition = Replan_Scheduled | Replan_Complete | Replan_Refused

fun disposition_value :: "replan_disposition \<Rightarrow> string" where
  "disposition_value Replan_Scheduled = ''scheduled''"
| "disposition_value Replan_Complete = ''complete''"
| "disposition_value Replan_Refused = ''refused''"

definition replanning_scope :: "string list" where
  "replanning_scope =
     [''deterministic residual-graph construction from caller-supplied durable state'',
      ''modeled p95 duration, provider-capacity, deadline, token, cost, and context caps'',
      ''append-only event identity, monotonic revisions, and SHA-256 decision binding'',
      ''append-only sealed effect-intent exclusion; this module never executes an external effect'']"

definition replanning_limitations :: "string list" where
  "replanning_limitations =
     [''does not mutate, pause, cancel, or lease work in a live executor'',
      ''does not verify that caller-reported completions, elapsed time, or usage came from a provider'',
      ''provider slowdown and capacity are deterministic planning transforms, not live telemetry'',
      ''failure removes one declared task/provider choice; retry attempts are not executed here'',
      ''remaining schedule usage is an estimate while prior settled usage is caller-reported actual usage'',
      ''an intent seal prevents duplicate dispatch but requires an explicit completed-task fact before it satisfies dependencies'',
      ''events do not carry run_id or prior-state identity; callers must route each event with its matching durable state'']"

record replan_decision =
  rd_revision :: int
  rd_event_id :: string
  rd_event_kind :: replan_event_kind
  rd_prior_state_digest :: string
  rd_next_state_digest :: string
  rd_disposition :: replan_disposition
  rd_reason :: replan_reason
  rd_remaining_envelope :: "run_envelope option"
  rd_residual_graph :: "execution_graph option"
  rd_schedule :: "schedule_result option"
  rd_shed_task_ids :: "string list"
  rd_scope :: "string list"
  rd_limitations :: "string list"
  rd_decision_digest :: string

text \<open>\<open>normalize\<close> of a schedule: all its fields, the details of an event as pairs.\<close>

definition event_fields_json :: "event \<Rightarrow> json" where
  "event_fields_json e =
     JObj [(''sequence'', JInt (ev_sequence e)), (''time_ms'', JInt (ev_time_ms e)),
           (''event_type'', JStr (event_type_value (ev_type e))), (''task_id'', jopt JStr (ev_task_id e)),
           (''details'', JArr (map (\<lambda>(k, v). JArr [JStr k, v]) (ev_details e)))]"

definition schedule_fields_json :: "schedule_result \<Rightarrow> json" where
  "schedule_fields_json r =
     JObj [(''policy'', JStr (policy_value (sr_policy r))), (''success'', JBool (sr_success r)),
           (''makespan_ms'', JInt (sr_makespan_ms r)), (''model_bound_ms'', JInt (sr_model_bound_ms r)),
           (''total_tokens'', JInt (sr_total_tokens r)), (''total_cost_microusd'', JInt (sr_total_cost_microusd r)),
           (''total_context_bytes'', JInt (sr_total_context_bytes r)),
           (''modeled_success_probability'', JFloat (sr_modeled_success_probability r)),
           (''entries'', JArr (map entry_dict (sr_entries r))), (''skipped'', jstrs (sr_skipped r)),
           (''events'', JArr (map event_fields_json (sr_events r))), (''failure_reason'', jopt JStr (sr_failure_reason r))]"

definition decision_payload :: "replan_decision \<Rightarrow> json" where
  "decision_payload d =
     JObj [(''revision'', JInt (rd_revision d)), (''event_id'', JStr (rd_event_id d)),
           (''event_kind'', JStr (replan_kind_value (rd_event_kind d))),
           (''prior_state_digest'', JStr (rd_prior_state_digest d)), (''next_state_digest'', JStr (rd_next_state_digest d)),
           (''disposition'', JStr (disposition_value (rd_disposition d))), (''reason'', reason_as_dict (rd_reason d)),
           (''remaining_envelope'', normalize (jopt envelope_json (rd_remaining_envelope d))),
           (''residual_graph'', normalize (jopt graph_json (rd_residual_graph d))),
           (''schedule'', normalize (jopt schedule_fields_json (rd_schedule d))),
           (''shed_task_ids'', jstrs (rd_shed_task_ids d)), (''scope'', jstrs (rd_scope d)),
           (''limitations'', jstrs (rd_limitations d))]"

definition decision_verify_digest :: "replan_decision \<Rightarrow> bool" where
  "decision_verify_digest d \<longleftrightarrow>
     is_sha256 (rd_decision_digest d) \<and> reason_verify (rd_reason d)
     \<and> rd_decision_digest d = content_digest (decision_payload d)"

record replan_transition =
  rt_state :: durable_state
  rt_decision :: replan_decision

section \<open>Validation of the inputs\<close>

text \<open>\<open>_validate_boundary\<close>.\<close>

definition seal_checks :: "execution_graph \<Rightarrow> effect_intent_seal \<Rightarrow> (bool \<times> replan_error) list" where
  "seal_checks g s =
     (case dget (by_id g) (es_task_id s) of
        None \<Rightarrow> [demand False ''effect boundary names an unknown task'']
      | Some t \<Rightarrow> [demand (writes (ef_kind (tc_effect t))) ''only write tasks can be sealed as effect intents''])"

definition boundary_checks :: "execution_graph \<Rightarrow> effect_boundary \<Rightarrow> (bool \<times> replan_error) list" where
  "boundary_checks g b =
     (boundary_verify_digest b, ReplanTamperError ''effect boundary digest verification failed'')
     # concat (map (seal_checks g) (eb_intents b))"

definition validate_boundary :: "execution_graph \<Rightarrow> effect_boundary \<Rightarrow> replan_error + unit" where
  "validate_boundary g b = run_checks (boundary_checks g b)"

text \<open>\<open>_validate_terminal_sets\<close>; the lookup in its loop raises for an unknown task, which an earlier check excludes.\<close>

definition completed_write_check ::
  "execution_graph \<Rightarrow> effect_boundary \<Rightarrow> string \<Rightarrow> bool \<times> replan_error" where
  "completed_write_check g b i =
     (case dget (by_id g) i of
        None \<Rightarrow> (False, OtherError (KeyError i))
      | Some t \<Rightarrow> demand (writes (ef_kind (tc_effect t)) \<longrightarrow> i \<in> set (sealed_tasks b))
          (''completed write task '' @ py_repr i @ '' lacks an immutable effect seal''))"

definition terminal_set_checks ::
  "execution_graph \<Rightarrow> string list \<Rightarrow> string list \<Rightarrow> effect_boundary \<Rightarrow> (bool \<times> replan_error) list" where
  "terminal_set_checks g completed skipped b =
     [demand (distinct completed \<and> distinct skipped) ''terminal task IDs must be unique'',
      demand (list_all (\<lambda>i. dmem i (by_id g)) completed \<and> list_all (\<lambda>i. dmem i (by_id g)) skipped)
        ''terminal state contains an unknown task'',
      demand (list_all (\<lambda>i. i \<notin> set skipped) completed) ''a task cannot be both completed and skipped'',
      demand (list_all (\<lambda>i. i \<notin> set (sealed_tasks b)) skipped) ''a sealed effect intent cannot be marked skipped'']
     @ map (completed_write_check g b) completed"

text \<open>\<open>_validate_completion_closure\<close>.\<close>

definition missing_deps :: "task_contract \<Rightarrow> string list \<Rightarrow> string list" where
  "missing_deps t completed = sorted_set (filter (\<lambda>d. d \<notin> set completed) (tc_dependencies t))"

definition closure_check ::
  "execution_graph \<Rightarrow> string list \<Rightarrow> string \<Rightarrow> string \<Rightarrow> bool \<times> replan_error" where
  "closure_check g completed label i =
     (case dget (by_id g) i of
        None \<Rightarrow> (False, OtherError (KeyError i))
      | Some t \<Rightarrow> demand (missing_deps t completed = [])
          (label @ py_repr i @ '' lacks completed dependencies '' @ py_list_repr (missing_deps t completed)))"

definition completion_checks :: "execution_graph \<Rightarrow> string list \<Rightarrow> effect_boundary \<Rightarrow> (bool \<times> replan_error) list" where
  "completion_checks g completed b =
     map (closure_check g completed ''terminal task '') completed
     @ map (closure_check g completed ''sealed effect task '') (sealed_tasks b)"

text \<open>\<open>_progress_effect_boundary\<close>: the boundary of the snapshot, or that of the state when there is none.\<close>

definition seals_by_task :: "effect_boundary \<Rightarrow> (string, effect_intent_seal) dict" where
  "seals_by_task b = dict_of (map (\<lambda>s. (es_task_id s, s)) (eb_intents b))"

definition boundary_extends :: "effect_boundary \<Rightarrow> effect_boundary \<Rightarrow> bool" where
  "boundary_extends b b' \<longleftrightarrow> list_all (\<lambda>(t, s). dget (seals_by_task b') t = Some s) (seals_by_task b)"

definition progress_effect_boundary ::
  "execution_graph \<Rightarrow> durable_state \<Rightarrow> progress_snapshot \<Rightarrow> replan_error + effect_boundary" where
  "progress_effect_boundary g s progress =
     (let b = (case ps_effect_boundary progress of None \<Rightarrow> ds_effect_boundary s | Some b \<Rightarrow> b)
      in case run_checks
           ([demand (ps_effect_boundary_digest progress = eb_boundary_digest b)
               (if ps_effect_boundary progress = None then ''effect boundary material is required when its digest changes''
                else ''effect boundary material and digest disagree'')]
            @ boundary_checks g b
            @ [demand (boundary_extends (ds_effect_boundary s) b)
                 ''effect boundary is append-only; existing intent seals cannot be removed or mutated'']) of
           Inl e \<Rightarrow> Inl e
         | Inr _ \<Rightarrow> Inr b)"

definition progress_checks ::
  "execution_graph \<Rightarrow> durable_state \<Rightarrow> replan_event \<Rightarrow> progress_snapshot \<Rightarrow> effect_boundary \<Rightarrow> (bool \<times> replan_error) list" where
  "progress_checks g s e progress b =
     [demand (replan_event_id e \<notin> set (map ae_event_id (ds_applied_events s)))
        (''event '' @ py_repr (replan_event_id e) @ '' was already applied''),
      demand (ps_elapsed_ms progress \<ge> ds_elapsed_ms s) ''elapsed time cannot move backwards'',
      demand (occurred_at_ms e = ps_elapsed_ms progress) ''event time must equal the cumulative progress time'',
      demand (usage_at_least (ps_settled_usage progress) (ds_settled_usage s)) ''actual settled usage cannot decrease'',
      demand (list_all (\<lambda>i. i \<in> set (ps_completed_task_ids progress)) (ds_completed_task_ids s))
        ''completed tasks cannot be removed'',
      demand (list_all (\<lambda>i. i \<in> set (ps_skipped_task_ids progress)) (ds_skipped_task_ids s))
        ''skipped tasks cannot be reintroduced'']
     @ terminal_set_checks g (ps_completed_task_ids progress) (ps_skipped_task_ids progress) b
     @ completion_checks g (sorted_set (ps_completed_task_ids progress)) b"

definition validate_replan_inputs ::
  "execution_graph \<Rightarrow> durable_state \<Rightarrow> replan_event \<Rightarrow> progress_snapshot \<Rightarrow> replan_error + effect_boundary" where
  "validate_replan_inputs g s e progress =
     (case run_checks [demand (is_sha256 (ps_effect_boundary_digest progress)) ''progress effect boundary digest is malformed''] of
        Inl x \<Rightarrow> Inl x
      | Inr _ \<Rightarrow>
     (case graph_validate g of
        Inl x \<Rightarrow> Inl (OtherError x)
      | Inr _ \<Rightarrow>
     (case run_checks [validate_usage (ps_settled_usage progress) ''progress settled usage''] of
        Inl x \<Rightarrow> Inl x
      | Inr _ \<Rightarrow>
     (case validate_state_shape s of
        Inl x \<Rightarrow> Inl x
      | Inr _ \<Rightarrow>
     (case run_checks
         [(state_verify_digest s, ReplanTamperError ''prior durable state digest verification failed''),
          demand (ds_graph_digest s = content_digest (graph_json g)) ''durable state is bound to a different graph''] of
        Inl x \<Rightarrow> Inl x
      | Inr _ \<Rightarrow>
     (case progress_effect_boundary g s progress of
        Inl x \<Rightarrow> Inl x
      | Inr b \<Rightarrow>
     (case validate_event g e of
        Inl x \<Rightarrow> Inl x
      | Inr _ \<Rightarrow>
     (case run_checks (progress_checks g s e progress b) of
        Inl x \<Rightarrow> Inl x
      | Inr _ \<Rightarrow> Inr b))))))))"

section \<open>The operations\<close>

definition initial_state ::
  "execution_graph \<Rightarrow> run_envelope \<Rightarrow> string \<Rightarrow> string list \<Rightarrow> string list \<Rightarrow> usage \<Rightarrow> int \<Rightarrow> effect_boundary option \<Rightarrow>
   replan_error + durable_state" where
  "initial_state g env rid completed skipped used elapsed sealing =
     (case graph_validate g of
        Inl x \<Rightarrow> Inl (OtherError x)
      | Inr _ \<Rightarrow>
          (let b = (case sealing of None \<Rightarrow> boundary_empty | Some b \<Rightarrow> b)
           in case run_checks
             ([demand (rid \<noteq> []) ''run_id is required'',
               demand (validate_envelope env = [])
                 (''initial envelope is invalid: '' @ semicolon_join (validate_envelope env)),
               validate_usage used ''initial settled usage'']
              @ boundary_checks g b @ terminal_set_checks g completed skipped b
              @ completion_checks g (sorted_set completed) b
              @ [demand (0 \<le> elapsed) ''elapsed_ms must be a non-negative integer'']) of
             Inl e \<Rightarrow> Inl e
           | Inr _ \<Rightarrow>
               make_state g
                 \<lparr>ds_run_id = rid, ds_graph_digest = [], ds_revision = 0, ds_prior_state_digest = None,
                  ds_current_envelope = env, ds_completed_task_ids = sorted_set completed,
                  ds_skipped_task_ids = sorted_set skipped, ds_settled_usage = used, ds_elapsed_ms = elapsed,
                  ds_effect_boundary = b, ds_provider_capacities = [], ds_provider_slowdowns = [],
                  ds_failed_task_providers = [], ds_applied_events = [], ds_state_digest = []\<rparr>))"

text \<open>\<open>_apply_event\<close>: envelope, capacities, slowdowns and failures after the event.\<close>

record replan_conditions =
  rc_envelope :: run_envelope
  rc_capacities :: "(string, int) dict"
  rc_slowdowns :: "(string, int) dict"
  rc_failures :: "(string \<times> string) list"

definition terminal_ids :: "progress_snapshot \<Rightarrow> effect_boundary \<Rightarrow> string list" where
  "terminal_ids progress b = ps_completed_task_ids progress @ ps_skipped_task_ids progress @ sealed_tasks b"

fun apply_event ::
  "durable_state \<Rightarrow> replan_event \<Rightarrow> string list \<Rightarrow> replan_error + replan_conditions" where
  "apply_event s e terminal =
     (let c = \<lparr>rc_envelope = ds_current_envelope s, rc_capacities = dict_of (ds_provider_capacities s),
               rc_slowdowns = dict_of (ds_provider_slowdowns s), rc_failures = remdups (ds_failed_task_providers s)\<rparr>
      in case e of
           ProviderSlowdownEvent i n p m \<Rightarrow> Inr (c\<lparr>rc_slowdowns := dset p m (rc_slowdowns c)\<rparr>)
         | TaskFailureEvent i n t p \<Rightarrow>
             if t \<in> set terminal then
               Inl (ReplanInvariantError ''a completed, skipped, or dispatch-sealed task cannot report a new failure'')
             else Inr (c\<lparr>rc_failures := List.insert (t, p) (rc_failures c)\<rparr>)
         | ProviderCapacityEvent i n p k \<Rightarrow> Inr (c\<lparr>rc_capacities := dset p k (rc_capacities c)\<rparr>)
         | EnvelopeChangeEvent i n env \<Rightarrow> Inr (c\<lparr>rc_envelope := env\<rparr>))"

text \<open>The outcome of planning the residual graph: the local variables of \<open>replan\<close> the decision is built from.\<close>

record replan_outcome =
  ro_disposition :: replan_disposition
  ro_reason :: replan_reason
  ro_remaining_envelope :: "run_envelope option"
  ro_schedule :: "schedule_result option"
  ro_shed :: "string list"

definition refused_outcome :: "replan_reason \<Rightarrow> replan_outcome" where
  "refused_outcome reason =
     \<lparr>ro_disposition = Replan_Refused, ro_reason = reason, ro_remaining_envelope = None, ro_schedule = None, ro_shed = []\<rparr>"

definition scheduled_outcome ::
  "replan_event \<Rightarrow> residual_build \<Rightarrow> execution_graph \<Rightarrow> run_envelope \<Rightarrow> schedule_result \<Rightarrow> replan_outcome" where
  "scheduled_outcome e build g' env r =
     (if \<not> sr_success r then
        \<lparr>ro_disposition = Replan_Refused,
         ro_reason = mk_reason SCHEDULER_REFUSED ''the residual mandatory promises have no admissible schedule''
           [(''scheduler_reason'', JStr (case sr_failure_reason r of None \<Rightarrow> ''unspecified''
              | Some m \<Rightarrow> if m = [] then ''unspecified'' else m)),
            (''residual_task_count'', JInt (int (length g')))],
         ro_remaining_envelope = Some env, ro_schedule = Some r, ro_shed = []\<rparr>
      else
        let shed = sorted_set (rb_auto_shed build @ sr_skipped r)
        in \<lparr>ro_disposition = Replan_Scheduled,
            ro_reason =
              (if shed \<noteq> [] then
                 mk_reason OPTIONAL_WORK_SHED ''mandatory promises remain scheduled after optional work is shed''
                   [(''event_kind'', JStr (replan_kind_value (replan_kind e))), (''shed_task_ids'', jstrs shed)]
               else
                 mk_reason EVENT_APPLIED ''the disturbance was applied and the residual work was rescheduled''
                   [(''event_kind'', JStr (replan_kind_value (replan_kind e))),
                    (''residual_task_count'', JInt (int (length g')))]),
            ro_remaining_envelope = Some env, ro_schedule = Some r, ro_shed = shed\<rparr>)"

definition complete_outcome :: "residual_build \<Rightarrow> nat \<Rightarrow> replan_outcome" where
  "complete_outcome build terminal =
     \<lparr>ro_disposition = Replan_Complete,
      ro_reason = mk_reason NO_RESIDUAL_WORK ''all work has an explicit completed or skipped terminal fact''
        [(''terminal_task_count'', JInt (int terminal))],
      ro_remaining_envelope = None, ro_schedule = None, ro_shed = rb_auto_shed build\<rparr>"

definition plan_residual ::
  "planner \<Rightarrow> replan_event \<Rightarrow> residual_build \<Rightarrow> replan_conditions \<Rightarrow> usage \<Rightarrow> int \<Rightarrow> nat \<Rightarrow> (replan_error + replan_outcome) option" where
  "plan_residual plan e build c used elapsed terminal =
     (case rb_refusal build of
        Some reason \<Rightarrow> Some (Inr (refused_outcome reason))
      | None \<Rightarrow>
     (case rb_graph build of
        None \<Rightarrow> Some (Inl (OtherError (RuntimeError ''residual builder produced no graph and no refusal'')))
      | Some [] \<Rightarrow>
          (case consumed_envelope_refusal (rc_envelope c) used elapsed of
             Some reason \<Rightarrow> Some (Inr (refused_outcome reason))
           | None \<Rightarrow> Some (Inr (complete_outcome build terminal)))
      | Some g' \<Rightarrow>
          (case remaining_envelope (rc_envelope c) used elapsed (rc_capacities c) of
             Inl reason \<Rightarrow> Some (Inr (refused_outcome reason))
           | Inr env \<Rightarrow>
               (case plan g' env ADAPTIVE of
                  None \<Rightarrow> None
                | Some (Inl x) \<Rightarrow> Some (Inl (OtherError x))
                | Some (Inr r) \<Rightarrow> Some (Inr (scheduled_outcome e build g' env r))))))"

definition next_state ::
  "execution_graph \<Rightarrow> durable_state \<Rightarrow> replan_event \<Rightarrow> progress_snapshot \<Rightarrow> effect_boundary \<Rightarrow> replan_conditions \<Rightarrow>
   replan_outcome \<Rightarrow> replan_error + durable_state" where
  "next_state g s e progress b c out =
     make_state g
       \<lparr>ds_run_id = ds_run_id s, ds_graph_digest = [], ds_revision = ds_revision s + 1,
        ds_prior_state_digest = Some (ds_state_digest s), ds_current_envelope = rc_envelope c,
        ds_completed_task_ids = sorted_set (ps_completed_task_ids progress),
        ds_skipped_task_ids =
          (if ro_disposition out = Replan_Refused then sorted_set (ps_skipped_task_ids progress)
           else sorted_set (sorted_set (ps_skipped_task_ids progress) @ ro_shed out)),
        ds_settled_usage = ps_settled_usage progress, ds_elapsed_ms = ps_elapsed_ms progress,
        ds_effect_boundary = b, ds_provider_capacities = sort (rc_capacities c),
        ds_provider_slowdowns = sort (rc_slowdowns c), ds_failed_task_providers = sorted_set (rc_failures c),
        ds_applied_events = ds_applied_events s
          @ [\<lparr>ae_revision = ds_revision s + 1, ae_event_id = replan_event_id e, ae_event_digest = replan_event_digest e\<rparr>],
        ds_state_digest = []\<rparr>"

definition decision_of ::
  "durable_state \<Rightarrow> replan_event \<Rightarrow> residual_build \<Rightarrow> replan_outcome \<Rightarrow> durable_state \<Rightarrow> replan_decision" where
  "decision_of s e build out s' =
     (let d = \<lparr>rd_revision = ds_revision s', rd_event_id = replan_event_id e, rd_event_kind = replan_kind e,
               rd_prior_state_digest = ds_state_digest s, rd_next_state_digest = ds_state_digest s',
               rd_disposition = ro_disposition out, rd_reason = ro_reason out,
               rd_remaining_envelope = ro_remaining_envelope out, rd_residual_graph = rb_graph build,
               rd_schedule = ro_schedule out, rd_shed_task_ids = ro_shed out, rd_scope = replanning_scope,
               rd_limitations = replanning_limitations, rd_decision_digest = []\<rparr>
      in d\<lparr>rd_decision_digest := content_digest (decision_payload d)\<rparr>)"

definition replan ::
  "planner \<Rightarrow> execution_graph \<Rightarrow> durable_state \<Rightarrow> replan_event \<Rightarrow> progress_snapshot \<Rightarrow> (replan_error + replan_transition) option" where
  "replan plan g s e progress =
     (case validate_replan_inputs g s e progress of
        Inl x \<Rightarrow> Some (Inl x)
      | Inr b \<Rightarrow>
     (case apply_event s e (terminal_ids progress b) of
        Inl x \<Rightarrow> Some (Inl x)
      | Inr c \<Rightarrow>
     (case build_residual g (sorted_set (ps_completed_task_ids progress)) (sorted_set (ps_skipped_task_ids progress))
         (ps_elapsed_ms progress) b (rc_capacities c) (rc_slowdowns c) (rc_failures c) of
        Inl x \<Rightarrow> Some (Inl (OtherError x))
      | Inr build \<Rightarrow>
     (case plan_residual plan e build c (ps_settled_usage progress) (ps_elapsed_ms progress)
         (length (sorted_set (ps_completed_task_ids progress)) + length (sorted_set (ps_skipped_task_ids progress))) of
        None \<Rightarrow> None
      | Some (Inl x) \<Rightarrow> Some (Inl x)
      | Some (Inr out) \<Rightarrow>
     (case next_state g s e progress b c out of
        Inl x \<Rightarrow> Some (Inl x)
      | Inr s' \<Rightarrow>
          (let d = decision_of s e build out s'
           in if \<not> decision_verify_digest d then
                Some (Inl (OtherError (RuntimeError ''internal decision digest construction disagreed'')))
              else Some (Inr \<lparr>rt_state = s', rt_decision = d\<rparr>)))))))"

text \<open>\<open>verify_transition\<close> turns a \<open>ReplanError\<close>, \<open>TypeError\<close>, \<open>ValueError\<close> or \<open>AttributeError\<close> of the replay into \<open>False\<close>.\<close>

fun replay_error_caught :: "replan_error \<Rightarrow> bool" where
  "replay_error_caught (OtherError (KeyError k)) = False"
| "replay_error_caught (OtherError (AssertionError m)) = False"
| "replay_error_caught (OtherError (RuntimeError m)) = False"
| "replay_error_caught (OtherError ZeroDivisionError) = False"
| "replay_error_caught (OverflowError m) = False"
| "replay_error_caught e = True"

definition verify_transition ::
  "planner \<Rightarrow> execution_graph \<Rightarrow> durable_state \<Rightarrow> replan_event \<Rightarrow> progress_snapshot \<Rightarrow> replan_transition \<Rightarrow> (replan_error + bool) option" where
  "verify_transition plan g prior e progress tr =
     (if validate_state_shape (rt_state tr) \<noteq> Inr () \<or> \<not> state_verify_digest (rt_state tr)
         \<or> \<not> decision_verify_digest (rt_decision tr) then Some (Inr False)
      else case replan plan g prior e progress of
        None \<Rightarrow> None
      | Some (Inl x) \<Rightarrow> if replay_error_caught x then Some (Inr False) else Some (Inl x)
      | Some (Inr replayed) \<Rightarrow>
          Some (Inr (ds_state_digest (rt_state replayed) = ds_state_digest (rt_state tr)
            \<and> rd_decision_digest (rt_decision replayed) = rd_decision_digest (rt_decision tr))))"

end
