(* ===== verification/Replan_Laws.thy ===== *)
theory Replan_Laws
  imports Replanner
begin

text \<open>
  The laws of the residual builder. \<open>doomed\<close> is the declarative meaning of its loop: the least set of
  open tasks that cannot run because they wait for skipped, sealed or doomed work, or have no profile
  or time left. The loop sheds exactly this set, or refuses because it reaches protected work. The
  residual graph is then valid, except for the input ports of live tasks on completed ones, which are its errors.
\<close>

section \<open>The least set of tasks that cannot run\<close>

definition open_task :: "residual_cx \<Rightarrow> task_contract \<Rightarrow> bool" where
  "open_task cx t \<longleftrightarrow> \<not> settled_task cx (rx_skipped cx) (tc_task_id t)"

definition unable :: "residual_cx \<Rightarrow> task_contract \<Rightarrow> bool" where
  "unable cx t \<longleftrightarrow>
     \<not> (\<exists>p \<in> set (tc_profiles t). available_profile cx (tc_task_id t) p \<and> tc_min_quality t \<le> bp_quality p)
     \<or> deadline_gone cx t"

inductive doomed :: "residual_cx \<Rightarrow> execution_graph \<Rightarrow> string \<Rightarrow> bool" for cx g where
  waits: "t \<in> set g \<Longrightarrow> open_task cx t \<Longrightarrow> d \<in> set (tc_dependencies t) \<Longrightarrow>
    d \<in> set (rx_skipped cx) \<or> d \<in> set (rx_sealed cx) \<Longrightarrow> doomed cx g (tc_task_id t)"
| cascades: "t \<in> set g \<Longrightarrow> open_task cx t \<Longrightarrow> d \<in> set (tc_dependencies t) \<Longrightarrow> doomed cx g d \<Longrightarrow>
    doomed cx g (tc_task_id t)"
| cannot: "t \<in> set g \<Longrightarrow> open_task cx t \<Longrightarrow> unable cx t \<Longrightarrow> doomed cx g (tc_task_id t)"

lemma slowed_quality [simp]: "bp_quality (slowed_profile cx p) = bp_quality p"
  by (simp add: slowed_profile_def Let_def)

lemma deps_within_Nil: "deps_within t s = [] \<longleftrightarrow> set (tc_dependencies t) \<inter> set s = {}"
  by (auto simp: deps_within_def filter_empty_conv)

lemma task_block_None:
  "task_block cx skips t = None \<longleftrightarrow>
     set (tc_dependencies t) \<inter> set skips = {} \<and> set (tc_dependencies t) \<inter> set (rx_sealed cx) = {} \<and> \<not> unable cx t"
  by (auto simp: task_block_def Let_def deps_within_Nil unable_def transformed_profiles_def filter_empty_conv)

lemma stuck_doomed:
  assumes "t \<in> set g" and "stuck cx (rx_skipped cx @ shed) t" and "set shed \<subseteq> {i. doomed cx g i}"
  shows "doomed cx g (tc_task_id t)"
proof -
  from assms(2) have t: "open_task cx t" "task_block cx (rx_skipped cx @ shed) t \<noteq> None"
    by (auto simp: stuck_def open_task_def settled_task_def)
  from t(2) consider d where "d \<in> set (tc_dependencies t)" "d \<in> set (rx_skipped cx) \<or> d \<in> set (rx_sealed cx)"
    | d where "d \<in> set (tc_dependencies t)" "d \<in> set shed" | "unable cx t"
    unfolding task_block_None by auto
  then show ?thesis using assms(1,3) t(1) by cases (auto intro: doomed.intros)
qed

lemma fixpoint_doomed:
  assumes "\<forall>t \<in> set g. \<not> stuck cx (rx_skipped cx @ shed) t" and "doomed cx g i"
  shows "i \<in> set shed"
  using assms(2)
proof (induction rule: doomed.induct)
  case (waits t d)
  with assms(1) show ?case by (auto simp: stuck_def open_task_def settled_task_def task_block_None)
next
  case (cascades t d)
  with assms(1) show ?case by (auto simp: stuck_def open_task_def settled_task_def task_block_None)
next
  case (cannot t)
  with assms(1) show ?case by (auto simp: stuck_def open_task_def settled_task_def task_block_None)
qed

lemma residual_loop_doomed:
  "set shed \<subseteq> {i. doomed cx g i} \<Longrightarrow> set shed \<inter> set (rx_protected cx) = {} \<Longrightarrow>
   (case residual_loop cx g shed of
      Inl (r, shed') \<Rightarrow> \<exists>i \<in> set (rx_protected cx). doomed cx g i
    | Inr shed' \<Rightarrow> set shed' = {i. doomed cx g i} \<and> set shed' \<inter> set (rx_protected cx) = {}
        \<and> (\<forall>t \<in> set g. \<not> stuck cx (rx_skipped cx @ shed') t))"
proof (induction cx g shed rule: residual_loop.induct)
  case (1 cx g shed)
  note step = stuck_doomed [OF _ _ "1.prems"(1)]
  show ?case
  proof (cases "residual_pass cx (rx_skipped cx @ shed) g shed False")
    case (Inl refusal)
    obtain r shed' where "refusal = (r, shed')" by (cases refusal)
    with Inl residual_pass_Inl [of cx "rx_skipped cx @ shed" g shed False r shed'] step
    show ?thesis by (auto simp: residual_loop.simps [of cx g shed])
  next
    case (Inr x)
    obtain shed' changed where x: "x = (shed', changed)" by (cases x)
    note p = residual_pass_Inr [OF Inr [unfolded x]]
    have D: "set shed' \<subseteq> {i. doomed cx g i}" using p step "1.prems"(1) by auto
    have P: "set shed' \<inter> set (rx_protected cx) = {}" using p "1.prems"(2) by auto
    show ?thesis
    proof (cases changed)
      case True
      with "1.IH" [OF Inr x [symmetric] True D P] Inr x show ?thesis by (simp add: residual_loop.simps [of cx g shed])
    next
      case False
      with p have none: "\<forall>t \<in> set g. \<not> stuck cx (rx_skipped cx @ shed) t" and same: "set shed' = set shed" by auto
      have none': "\<forall>t \<in> set g. \<not> stuck cx (rx_skipped cx @ shed') t"
        using none by (simp add: stuck_def settled_task_def task_block_None same)
      have "set shed' = {i. doomed cx g i}" using D fixpoint_doomed [OF none'] by auto
      with P none' Inr x False show ?thesis by (simp add: residual_loop.simps [of cx g shed])
    qed
  qed
qed

lemma residual_loop_Inr:
  assumes "residual_loop cx g [] = Inr shed"
  shows "set shed = {i. doomed cx g i}" and "\<And>i. i \<in> set (rx_protected cx) \<Longrightarrow> \<not> doomed cx g i"
    and "\<And>t. t \<in> set g \<Longrightarrow> \<not> stuck cx (rx_skipped cx @ shed) t"
  using residual_loop_doomed [of "[]" cx g] assms by auto

lemma residual_loop_Inl:
  assumes "residual_loop cx g [] = Inl refusal"
  shows "\<exists>i \<in> set (rx_protected cx). doomed cx g i"
  using residual_loop_doomed [of "[]" cx g] assms by (cases refusal) auto

section \<open>Validity of the residual graph\<close>

lemma scaled_duration_mono: "0 \<le> m \<Longrightarrow> a \<le> b \<Longrightarrow> scaled_duration a m \<le> scaled_duration b m"
  unfolding scaled_duration_def by (intro zdiv_mono1 add_right_mono mult_right_mono) simp_all

lemma scaled_duration_nonneg: "0 \<le> m \<Longrightarrow> 0 \<le> a \<Longrightarrow> 0 \<le> scaled_duration a m"
  by (simp add: scaled_duration_def div_int_pos_iff)

lemma scaled_duration_ge: "1000 \<le> m \<Longrightarrow> 0 \<le> a \<Longrightarrow> a \<le> scaled_duration a m"
proof -
  assume "1000 \<le> m" "0 \<le> a"
  then have "a * 1000 \<le> a * m + 999" using mult_left_mono [of 1000 m a] by simp
  from zdiv_mono1 [OF this, of 1000] show ?thesis by (simp add: scaled_duration_def)
qed

definition slow_ok :: "residual_cx \<Rightarrow> bool" where
  "slow_ok cx \<longleftrightarrow> (\<forall>(p, m) \<in> set (rx_slowdowns cx). 1000 \<le> m)"

lemma multiplier_ge: "slow_ok cx \<Longrightarrow> 1000 \<le> get_or (rx_slowdowns cx) p 1000"
  by (auto simp: slow_ok_def get_or_def split: option.splits dest: map_of_SomeD)

lemma slowed_fields [simp]:
  "bp_name (slowed_profile cx p) = bp_name p" "bp_provider (slowed_profile cx p) = bp_provider p"
  "total_tokens (slowed_profile cx p) = total_tokens p" "bp_cost_microusd (slowed_profile cx p) = bp_cost_microusd p"
  "bp_context_bytes (slowed_profile cx p) = bp_context_bytes p"
  "profile_physical (slowed_profile cx p) = profile_physical p"
  "profile_identity (slowed_profile cx p) = profile_identity p"
  by (simp_all add: slowed_profile_def Let_def total_tokens_def profile_physical_def profile_identity_def)

lemma slowed_ok:
  assumes "slow_ok cx" and "profile_ok p"
  shows "profile_ok (slowed_profile cx p)"
proof -
  let ?m = "get_or (rx_slowdowns cx) (bp_provider p) 1000"
  have m: "0 \<le> ?m" using multiplier_ge [OF assms(1), of "bp_provider p"] by simp
  have p: "0 \<le> bp_duration_ms_p50 p" "bp_duration_ms_p50 p \<le> bp_duration_ms_p95 p"
    using assms(2) by (simp_all add: profile_ok_def validate_profile_def)
  have "0 \<le> scaled_duration (bp_duration_ms_p50 p) ?m"
    "scaled_duration (bp_duration_ms_p50 p) ?m \<le> scaled_duration (bp_duration_ms_p95 p) ?m"
    using scaled_duration_nonneg [OF m p(1)] scaled_duration_mono [OF m p(2)] .
  with assms(2) show ?thesis
    by (simp add: profile_ok_def validate_profile_def slowed_profile_def Let_def profile_physical_def)
qed


lemma available_same: "profile_identity ` set (transformed_profiles cx t) \<subseteq> profile_identity ` set (tc_profiles t)"
  by (auto simp: transformed_profiles_def)

lemma residual_task_fields [simp]:
  "tc_task_id (residual_task cx t) = tc_task_id t" "tc_effect (residual_task cx t) = tc_effect t"
  "tc_optional (residual_task cx t) = tc_optional t" "tc_input_ports (residual_task cx t) = tc_input_ports t"
  "tc_output_ports (residual_task cx t) = tc_output_ports t" "tc_min_quality (residual_task cx t) = tc_min_quality t"
  "tc_profiles (residual_task cx t) = transformed_profiles cx t"
  "tc_dependencies (residual_task cx t) = filter (\<lambda>d. d \<notin> set (rx_satisfied cx)) (tc_dependencies t)"
  "tc_deadline_ms (residual_task cx t) = deadline_left cx t" "tc_value (residual_task cx t) = tc_value t"
  "tc_adapter_requirements (residual_task cx t) = tc_adapter_requirements t"
  by (simp_all add: residual_task_def)

lemma residual_task_ok:
  assumes t: "task_ok t" and slow: "slow_ok cx" and able: "\<not> unable cx t"
  shows "task_ok (residual_task cx t)"
proof -
  let ?ps = "transformed_profiles cx t"
  have dist: "distinct (map profile_identity ?ps)"
    using task_okD(5) [OF t] by (simp add: transformed_profiles_def o_def distinct_map_filter)
  have ok: "p \<in> set ?ps \<Longrightarrow> profile_ok p" for p
    using task_okD(4) [OF t] slowed_ok [OF slow] by (auto simp: transformed_profiles_def)
  from able obtain p where p: "p \<in> set (tc_profiles t)" "available_profile cx (tc_task_id t) p"
    "tc_min_quality t \<le> bp_quality p" by (auto simp: unable_def)
  then have "slowed_profile cx p \<in> set ?ps" "tc_min_quality t \<le> bp_quality (slowed_profile cx p)"
    by (auto simp: transformed_profiles_def)
  then have "\<exists>q \<in> set ?ps. tc_min_quality t \<le> bp_quality q" by blast
  then have q: "?ps \<noteq> []" "\<exists>q \<in> set ?ps. tc_min_quality t \<le> bp_quality q" by auto
  have dl: "(case deadline_left cx t of None \<Rightarrow> False | Some d \<Rightarrow> d \<le> 0) = False"
    using able by (simp add: unable_def deadline_gone_def)
  show ?thesis
    using t q dist ok dl unfolding task_ok_def validate_task_def Let_def
    by (auto simp: list_ex_iff validate_profile_Nil cong: option.case_cong)
qed


lemma graph_errors_Nil:
  "graph_errors g = [] \<longleftrightarrow> distinct (graph_ids g)
     \<and> (\<forall>t \<in> set g. task_ok t \<and> set (tc_dependencies t) \<subseteq> set (graph_ids g)
          \<and> (\<forall>p \<in> set (tc_input_ports t). port_errors g t p = []))"
  by (auto simp: graph_errors_def task_ok_def dependency_errors_def)

text \<open>An input port is sound when its producer is a dependency whose output port it matches.\<close>

lemma port_errors_Nil:
  assumes "distinct (graph_ids g)"
  shows "port_errors g t p = [] \<longleftrightarrow>
    ip_source_task_id p \<in> set (tc_dependencies t) \<and>
    (\<exists>u \<in> set g. tc_task_id u = ip_source_task_id p \<and>
       (case dget (dict_of (map (\<lambda>q. (op_name q, q)) (tc_output_ports u))) (ip_source_port p) of
          None \<Rightarrow> False
        | Some out \<Rightarrow> (ip_schema p, ip_schema_version p, ip_media_type p)
            = (op_schema out, op_schema_version out, op_media_type out)))"
proof (cases "ip_source_task_id p \<in> set (graph_ids g)")
  case True
  then obtain u where u: "u \<in> set g" "tc_task_id u = ip_source_task_id p" by (auto simp: graph_ids_def)
  have only: "v = u" if "v \<in> set g" "tc_task_id v = ip_source_task_id p" for v
    using dget_by_id [OF assms that(1)] dget_by_id [OF assms u(1)] u(2) that(2) by simp
  have "dget (by_id g) (ip_source_task_id p) = Some u" using dget_by_id [OF assms u(1)] u(2) by simp
  then have "port_errors g t p = [] \<longleftrightarrow> ip_source_task_id p \<in> set (tc_dependencies t) \<and>
       (case dget (dict_of (map (\<lambda>q. (op_name q, q)) (tc_output_ports u))) (ip_source_port p) of
          None \<Rightarrow> False
        | Some out \<Rightarrow> (ip_schema p, ip_schema_version p, ip_media_type p)
            = (op_schema out, op_schema_version out, op_media_type out))"
    using True by (auto simp: port_errors_def Let_def split: option.splits)
  with u only show ?thesis by blast
next
  case False
  then have "ip_source_task_id p \<notin> tc_task_id ` set g" by (simp add: graph_ids_def)
  then have "\<not> (\<exists>u \<in> set g. tc_task_id u = ip_source_task_id p)" by (metis imageI)
  with False show ?thesis by (simp add: port_errors_def Let_def)
qed

definition live_tasks :: "residual_cx \<Rightarrow> execution_graph \<Rightarrow> string list \<Rightarrow> task_contract list" where
  "live_tasks cx g shed = filter (\<lambda>t. \<not> settled_task cx (rx_skipped cx @ shed) (tc_task_id t)) g"

lemma residual_tasks_live: "residual_tasks cx g shed = map (residual_task cx) (live_tasks cx g shed)"
  by (simp add: residual_tasks_def live_tasks_def)

lemma residual_ids: "graph_ids (residual_tasks cx g shed) = graph_ids (live_tasks cx g shed)"
  by (simp add: residual_tasks_live graph_ids_def o_def)

lemma live_ids_distinct: "distinct (graph_ids g) \<Longrightarrow> distinct (graph_ids (live_tasks cx g shed))"
  by (simp add: live_tasks_def graph_ids_def distinct_map_filter)

lemma live_unblocked:
  assumes "\<forall>t \<in> set g. \<not> stuck cx (rx_skipped cx @ shed) t" and "t \<in> set (live_tasks cx g shed)"
  shows "t \<in> set g" and "set (tc_dependencies t) \<inter> set (rx_skipped cx @ shed) = {}"
    and "set (tc_dependencies t) \<inter> set (rx_sealed cx) = {}" and "\<not> unable cx t"
proof -
  from assms(2) show t: "t \<in> set g" by (simp add: live_tasks_def)
  have "task_block cx (rx_skipped cx @ shed) t = None"
    using assms t by (auto simp: live_tasks_def stuck_def)
  then show "set (tc_dependencies t) \<inter> set (rx_skipped cx @ shed) = {}"
    "set (tc_dependencies t) \<inter> set (rx_sealed cx) = {}" "\<not> unable cx t" unfolding task_block_None by blast+
qed

text \<open>A dependency of a live task is completed or live.\<close>

lemma live_deps:
  assumes g: "graph_ok g" and none: "\<forall>t \<in> set g. \<not> stuck cx (rx_skipped cx @ shed) t"
    and t: "t \<in> set (live_tasks cx g shed)" and d: "d \<in> set (tc_dependencies t)"
  shows "d \<in> set (rx_satisfied cx) \<or> d \<in> set (graph_ids (live_tasks cx g shed))"
proof -
  note l = live_unblocked [OF none t]
  from graph_ok_parts(3) [OF g l(1) d] obtain u where "u \<in> set g" "tc_task_id u = d" by (auto simp: graph_ids_def)
  with l(2,3) d show ?thesis by (fastforce simp: live_tasks_def graph_ids_def settled_task_def)
qed

text \<open>A live task passes every check of \<open>validate\<close>, except for its input ports on completed tasks.\<close>

lemma live_task_parts:
  assumes g: "graph_ok g" and slow: "slow_ok cx" and none: "\<forall>t \<in> set g. \<not> stuck cx (rx_skipped cx @ shed) t"
    and t: "t \<in> set (live_tasks cx g shed)"
  shows "task_ok (residual_task cx t)"
    and "set (tc_dependencies (residual_task cx t)) \<subseteq> set (graph_ids (residual_tasks cx g shed))"
    and "p \<in> set (tc_input_ports t) \<Longrightarrow> ip_source_task_id p \<notin> set (rx_satisfied cx) \<Longrightarrow>
      port_errors (residual_tasks cx g shed) (residual_task cx t) p = []"
proof -
  let ?L = "live_tasks cx g shed" and ?R = "residual_tasks cx g shed"
  have dist: "distinct (graph_ids g)" by (rule graph_ok_parts(1) [OF g])
  have dR: "distinct (graph_ids ?R)" using live_ids_distinct [OF dist] by (simp add: residual_ids)
  have errs: "graph_errors g = []" using g by (simp add: graph_ok_def graph_validate_def split: if_splits)
  note l = live_unblocked [OF none t]
  show "task_ok (residual_task cx t)"
    by (rule residual_task_ok [OF graph_ok_parts(2) [OF g l(1)] slow l(4)])
  show "set (tc_dependencies (residual_task cx t)) \<subseteq> set (graph_ids ?R)"
    using live_deps [OF g none t] by (auto simp: residual_ids)
  assume p: "p \<in> set (tc_input_ports t)" and free: "ip_source_task_id p \<notin> set (rx_satisfied cx)"
  from errs l(1) p have "port_errors g t p = []" by (simp add: graph_errors_Nil)
  then obtain u where u: "ip_source_task_id p \<in> set (tc_dependencies t)" "u \<in> set g"
    "tc_task_id u = ip_source_task_id p"
    "case dget (dict_of (map (\<lambda>q. (op_name q, q)) (tc_output_ports u))) (ip_source_port p) of
      None \<Rightarrow> False
    | Some out \<Rightarrow> (ip_schema p, ip_schema_version p, ip_media_type p)
        = (op_schema out, op_schema_version out, op_media_type out)"
    unfolding port_errors_Nil [OF dist] by blast
  with live_deps [OF g none t u(1)] free obtain v where v: "v \<in> set ?L" "tc_task_id v = ip_source_task_id p"
    by (auto simp: graph_ids_def)
  then have "v = u"
    using dget_by_id [OF dist u(2)] dget_by_id [OF dist, of v] u(3) by (auto simp: live_tasks_def)
  with u v free show "port_errors ?R (residual_task cx t) p = []" unfolding port_errors_Nil [OF dR]
    by (intro conjI bexI [of _ "residual_task cx u"]) (auto simp: residual_tasks_live)
qed

lemma residual_graph_ok:
  assumes g: "graph_ok g" and slow: "slow_ok cx" and none: "\<forall>t \<in> set g. \<not> stuck cx (rx_skipped cx @ shed) t"
    and ports: "\<forall>t \<in> set (live_tasks cx g shed). \<forall>p \<in> set (tc_input_ports t). ip_source_task_id p \<notin> set (rx_satisfied cx)"
  shows "graph_ok (residual_tasks cx g shed)"
proof -
  let ?L = "live_tasks cx g shed" and ?R = "residual_tasks cx g shed"
  have dist: "distinct (graph_ids g)" by (rule graph_ok_parts(1) [OF g])
  have errs: "graph_errors g = []" using g by (simp add: graph_ok_def graph_validate_def split: if_splits)
  have dR: "distinct (graph_ids ?R)" using live_ids_distinct [OF dist] by (simp add: residual_ids)
  have task: "task_ok (residual_task cx t) \<and> set (tc_dependencies (residual_task cx t)) \<subseteq> set (graph_ids ?R)
      \<and> (\<forall>p \<in> set (tc_input_ports (residual_task cx t)). port_errors ?R (residual_task cx t) p = [])"
    if "t \<in> set ?L" for t
    using live_task_parts [OF g slow none that] ports that by simp
  have errsR: "graph_errors ?R = []"
    unfolding graph_errors_Nil using dR task by (auto simp: residual_tasks_live)
  have "deps_of (by_id ?R) i = filter (\<lambda>d. d \<notin> set (rx_satisfied cx)) (deps_of (by_id g) i) \<or> deps_of (by_id ?R) i = []" for i
  proof (cases "i \<in> set (graph_ids ?R)")
    case True
    then obtain t where t: "t \<in> set ?L" "tc_task_id t = i" unfolding residual_ids by (auto simp: graph_ids_def)
    have "residual_task cx t \<in> set ?R" using t(1) by (auto simp: residual_tasks_live)
    from deps_of_task [OF dR this] deps_of_task [OF dist, of t] t show ?thesis by (simp add: live_tasks_def)
  next
    case False
    then have "dget (by_id ?R) i = None" using dmem_by_id [of i ?R] by (simp add: dmem_def)
    then show ?thesis by (simp add: deps_of_def)
  qed
  then have "set (deps_of (by_id ?R) i) \<subseteq> set (deps_of (by_id g) i)" for i
    by (metis filter_is_subset empty_set empty_subsetI)
  then have "dep_rel (by_id ?R) \<subseteq> dep_rel (by_id g)" by (auto simp: dep_rel_def)
  moreover have "acyclic (dep_rel (by_id g))"
    using graph_ok_parts(4) [OF g] validate_acyclic_iff [OF errs] by simp
  ultimately have "acyclic (dep_rel (by_id ?R))" by (rule acyclic_subset [rotated])
  with errsR show ?thesis by (simp add: graph_ok_def graph_validate_def validate_acyclic_iff)
qed

text \<open>
  The errors of the residual graph of a valid graph are exactly its input ports on completed tasks: the
  producer is completed, so it is no longer a task of the graph.
\<close>

definition orphan_error :: "task_contract \<Rightarrow> input_port \<Rightarrow> string" where
  "orphan_error t p =
     task_error (tc_task_id t)
       (''input port '' @ py_repr (ip_name p) @ '' has missing producer '' @ py_repr (ip_source_task_id p))"

definition orphan_errors :: "residual_cx \<Rightarrow> task_contract list \<Rightarrow> string list" where
  "orphan_errors cx ts =
     concat (map (\<lambda>t. map (orphan_error t)
       (filter (\<lambda>p. ip_source_task_id p \<in> set (rx_satisfied cx)) (tc_input_ports t))) ts)"

lemma orphan_errors_Nil:
  "orphan_errors cx ts = [] \<longleftrightarrow> (\<forall>t \<in> set ts. \<forall>p \<in> set (tc_input_ports t). ip_source_task_id p \<notin> set (rx_satisfied cx))"
  by (auto simp: orphan_errors_def filter_empty_conv)

lemma concat_guarded: "concat (map (\<lambda>x. if P x then [f x] else []) xs) = map f (filter P xs)"
  by (induction xs) auto

lemma residual_graph_errors:
  assumes g: "graph_ok g" and slow: "slow_ok cx" and none: "\<forall>t \<in> set g. \<not> stuck cx (rx_skipped cx @ shed) t"
  shows "graph_errors (residual_tasks cx g shed) = orphan_errors cx (live_tasks cx g shed)"
proof -
  let ?L = "live_tasks cx g shed" and ?R = "residual_tasks cx g shed"
  have dist: "distinct (graph_ids g)" by (rule graph_ok_parts(1) [OF g])
  have dR: "distinct (graph_ids ?R)" using live_ids_distinct [OF dist] by (simp add: residual_ids)
  have task: "validate_task (residual_task cx t) @ dependency_errors ?R (residual_task cx t)
        @ concat (map (port_errors ?R (residual_task cx t)) (tc_input_ports (residual_task cx t)))
      = map (orphan_error t) (filter (\<lambda>p. ip_source_task_id p \<in> set (rx_satisfied cx)) (tc_input_ports t))"
    if t: "t \<in> set ?L" for t
  proof -
    note parts = live_task_parts [OF g slow none t]
    have "port_errors ?R (residual_task cx t) p
        = (if ip_source_task_id p \<in> set (rx_satisfied cx) then [orphan_error t p] else [])"
      if p: "p \<in> set (tc_input_ports t)" for p
    proof (cases "ip_source_task_id p \<in> set (rx_satisfied cx)")
      case True
      then have "ip_source_task_id p \<notin> set (graph_ids ?R)"
        unfolding residual_ids by (auto simp: live_tasks_def graph_ids_def settled_task_def)
      with True show ?thesis by (simp add: port_errors_def orphan_error_def)
    next
      case False
      with parts(3) [OF p] show ?thesis by simp
    qed
    then have "concat (map (port_errors ?R (residual_task cx t)) (tc_input_ports t))
        = concat (map (\<lambda>p. if ip_source_task_id p \<in> set (rx_satisfied cx) then [orphan_error t p] else []) (tc_input_ports t))"
      by (intro arg_cong [where f = concat] map_cong) simp_all
    then show ?thesis using parts(1,2) by (auto simp: task_ok_def dependency_errors_def concat_guarded)
  qed
  have "graph_errors ?R = concat (map (\<lambda>t. map (orphan_error t)
      (filter (\<lambda>p. ip_source_task_id p \<in> set (rx_satisfied cx)) (tc_input_ports t))) ?L)"
    unfolding graph_errors_def using dR task
    by (simp add: residual_tasks_live o_def cong: map_cong)
  then show ?thesis by (simp add: orphan_errors_def)
qed

lemma residual_graph_valid:
  assumes g: "graph_ok g" and slow: "slow_ok cx" and none: "\<forall>t \<in> set g. \<not> stuck cx (rx_skipped cx @ shed) t"
  shows "from_tasks (residual_tasks cx g shed) =
    (if orphan_errors cx (live_tasks cx g shed) = [] then Inr (residual_tasks cx g shed)
     else Inl (ValueError (semicolon_join (orphan_errors cx (live_tasks cx g shed)))))"
proof -
  note e = residual_graph_errors [OF assms]
  show ?thesis
  proof (cases "orphan_errors cx (live_tasks cx g shed) = []")
    case True
    then have "\<forall>t \<in> set (live_tasks cx g shed). \<forall>p \<in> set (tc_input_ports t). ip_source_task_id p \<notin> set (rx_satisfied cx)"
      by (simp add: orphan_errors_Nil)
    from residual_graph_ok [OF assms this] True show ?thesis by (simp add: from_tasks_def graph_ok_def)
  next
    case False
    with e show ?thesis by (simp add: from_tasks_def graph_validate_def)
  qed
qed

end
