(* ===== verification/Replan_Runs.thy ===== *)
theory Replan_Runs
  imports Replan_Laws
begin

text \<open>
  What the validation of the inputs establishes, and that the conditions, the next state and the
  decision built from validated inputs pass the checks the source makes on them again.
\<close>

section \<open>Facts of the checks\<close>

lemma run_checks_cases: "(\<exists>x. run_checks cs = Inl x) \<or> run_checks cs = Inr ()"
  by (cases "run_checks cs") auto

lemmas checks_simps = run_checks_Inr list_all_append list_all_iff

lemma length_dict_of: "length (dict_of ps) = card (fst ` set ps)"
proof -
  have "distinct (map fst (dict_of ps))" using dict_ok_dict_of [of ps] by (simp add: dict_ok_def)
  then have "length (dict_of ps) = card (set (map fst (dict_of ps)))" by (metis distinct_card length_map)
  moreover have "set (map fst (dict_of ps)) = fst ` set ps"
  proof -
    have "k \<in> set (map fst (dict_of ps)) \<longleftrightarrow> k \<in> fst ` set ps" for k
      using dmem_iff_key [of k "dict_of ps"] by (simp add: dmem_def dget_dict_of map_of_eq_None_iff)
    then show ?thesis by blast
  qed
  ultimately show ?thesis by simp
qed

lemma pairs_canonical_iff: "pairs_canonical ps \<longleftrightarrow> sorted ps \<and> distinct (map fst ps)"
proof -
  have "length (dict_of ps) = length ps \<longleftrightarrow> distinct (map fst ps)"
    using card_distinct [of "map fst ps"] distinct_card [of "map fst ps"] by (auto simp: length_dict_of)
  moreover have "sort ps = ps \<longleftrightarrow> sorted ps" by (metis sorted_sort sorted_sort_id)
  ultimately show ?thesis by (simp add: pairs_canonical_def)
qed

lemma distinct_keys_sort: "distinct (map fst (sort ps)) = distinct (map fst ps)"
  by (metis mset_eq_imp_distinct_iff mset_map mset_sort)

lemma pairs_canonical_sort: "dict_ok d \<Longrightarrow> pairs_canonical (sort d)"
  by (simp add: pairs_canonical_iff distinct_keys_sort dict_ok_def)

lemma dget_sort:
  assumes "dict_ok d"
  shows "dget (sort d) k = dget d k"
proof -
  have "dget (sort d) k = Some v \<longleftrightarrow> dget d k = Some v" for v
    using assms distinct_keys_sort [of d] by (simp add: dict_ok_def map_of_eq_Some_iff)
  then show ?thesis by (metis option.exhaust)
qed

lemma dset_subset: "set (dset k v d) \<subseteq> insert (k, v) (set d)"
  by (induction d) auto

section \<open>States\<close>

definition pairs_ok :: "int \<Rightarrow> (string \<times> int) list \<Rightarrow> bool" where
  "pairs_ok least ps \<longleftrightarrow> (\<forall>(p, n) \<in> set ps. p \<noteq> [] \<and> least \<le> n)"

definition names_ok :: "(string \<times> string) list \<Rightarrow> bool" where
  "names_ok ps \<longleftrightarrow> (\<forall>(t, p) \<in> set ps. t \<noteq> [] \<and> p \<noteq> [])"

definition history_ok :: "durable_state \<Rightarrow> bool" where
  "history_ok s \<longleftrightarrow>
     0 \<le> ds_revision s \<and> ds_revision s = int (length (ds_applied_events s))
     \<and> (ds_revision s = 0 \<longrightarrow> ds_prior_state_digest s = None)
     \<and> (ds_revision s > 0 \<longrightarrow> (\<exists>d. ds_prior_state_digest s = Some d \<and> is_sha256 d))
     \<and> map ae_revision (ds_applied_events s) = [1..ds_revision s]
     \<and> [] \<notin> set (map ae_event_id (ds_applied_events s)) \<and> distinct (map ae_event_id (ds_applied_events s))
     \<and> (\<forall>a \<in> set (ds_applied_events s). is_sha256 (ae_event_digest a))"

definition shape_ok :: "durable_state \<Rightarrow> bool" where
  "shape_ok s \<longleftrightarrow>
     ds_run_id s \<noteq> [] \<and> is_sha256 (ds_graph_digest s) \<and> is_sha256 (ds_state_digest s) \<and> 0 \<le> ds_elapsed_ms s
     \<and> history_ok s \<and> envelope_ok (ds_current_envelope s) \<and> usage_nonneg (ds_settled_usage s)
     \<and> boundary_verify_digest (ds_effect_boundary s)
     \<and> [] \<notin> set (ds_completed_task_ids s) \<and> sorted (ds_completed_task_ids s) \<and> distinct (ds_completed_task_ids s)
     \<and> [] \<notin> set (ds_skipped_task_ids s) \<and> sorted (ds_skipped_task_ids s) \<and> distinct (ds_skipped_task_ids s)
     \<and> pairs_canonical (ds_provider_capacities s) \<and> pairs_ok 0 (ds_provider_capacities s)
     \<and> pairs_canonical (ds_provider_slowdowns s) \<and> pairs_ok 1001 (ds_provider_slowdowns s)
     \<and> sorted (ds_failed_task_providers s) \<and> distinct (ds_failed_task_providers s)
     \<and> names_ok (ds_failed_task_providers s)"

lemma sort_fixed: "sort xs = xs \<longleftrightarrow> sorted xs"
  by (metis sorted_sort sorted_sort_id)

lemma no_empty_name: "list_all (\<lambda>i. i \<noteq> []) xs \<longleftrightarrow> [] \<notin> set xs"
  by (auto simp: list_all_iff)

lemma identity_checks_iff:
  "list_all fst (identity_checks s) \<longleftrightarrow>
     ds_run_id s \<noteq> [] \<and> is_sha256 (ds_graph_digest s) \<and> is_sha256 (ds_state_digest s) \<and> 0 \<le> ds_elapsed_ms s \<and> history_ok s"
proof -
  have "(case ds_prior_state_digest s of None \<Rightarrow> False | Some d \<Rightarrow> d \<noteq> [] \<and> is_sha256 d)
      \<longleftrightarrow> (\<exists>d. ds_prior_state_digest s = Some d \<and> is_sha256 d)"
    by (auto simp: is_sha256_def split: option.splits)
  then show ?thesis
    unfolding identity_checks_def history_ok_def no_empty_name by (auto simp: list_all_iff)
qed

lemma shape_iff: "validate_state_shape s = Inr () \<longleftrightarrow> shape_ok s"
proof -
  have "list_all fst (terminal_checks s) \<longleftrightarrow>
      envelope_ok (ds_current_envelope s) \<and> usage_nonneg (ds_settled_usage s)
     \<and> boundary_verify_digest (ds_effect_boundary s)
     \<and> [] \<notin> set (ds_completed_task_ids s) \<and> sorted (ds_completed_task_ids s) \<and> distinct (ds_completed_task_ids s)
     \<and> [] \<notin> set (ds_skipped_task_ids s) \<and> sorted (ds_skipped_task_ids s) \<and> distinct (ds_skipped_task_ids s)"
    unfolding terminal_checks_def no_empty_name sort_fixed validate_usage_def by auto
  moreover have "list_all fst (provider_checks s) \<longleftrightarrow>
      pairs_canonical (ds_provider_capacities s) \<and> pairs_ok 0 (ds_provider_capacities s)
     \<and> pairs_canonical (ds_provider_slowdowns s) \<and> pairs_ok 1001 (ds_provider_slowdowns s)
     \<and> sorted (ds_failed_task_providers s) \<and> distinct (ds_failed_task_providers s)
     \<and> names_ok (ds_failed_task_providers s)"
    unfolding provider_checks_def sort_fixed pairs_ok_def names_ok_def by (auto simp: list_all_iff)
  ultimately show ?thesis
    unfolding validate_state_shape_def run_checks_Inr list_all_append identity_checks_iff shape_ok_def by blast
qed

lemma state_verified: "state_verify_digest s \<longleftrightarrow> shape_ok s \<and> ds_state_digest s = content_digest (state_payload s)"
  unfolding state_verify_digest_def shape_iff by (auto simp: shape_ok_def)

text \<open>\<open>_make_state\<close> signs what it is given.\<close>

definition signed_state :: "execution_graph \<Rightarrow> durable_state \<Rightarrow> durable_state" where
  "signed_state g draft =
     (let s = draft\<lparr>ds_graph_digest := content_digest (graph_json g)\<rparr>
      in s\<lparr>ds_state_digest := content_digest (state_payload s)\<rparr>)"

lemma state_payload_sign [simp]: "state_payload (s\<lparr>ds_state_digest := d\<rparr>) = state_payload s"
  by (simp add: state_payload_def state_members_def)

lemma signed_fields [simp]:
  "ds_graph_digest (signed_state g s) = content_digest (graph_json g)"
  "ds_run_id (signed_state g s) = ds_run_id s" "ds_revision (signed_state g s) = ds_revision s"
  "ds_prior_state_digest (signed_state g s) = ds_prior_state_digest s"
  "ds_current_envelope (signed_state g s) = ds_current_envelope s"
  "ds_completed_task_ids (signed_state g s) = ds_completed_task_ids s"
  "ds_skipped_task_ids (signed_state g s) = ds_skipped_task_ids s"
  "ds_settled_usage (signed_state g s) = ds_settled_usage s" "ds_elapsed_ms (signed_state g s) = ds_elapsed_ms s"
  "ds_effect_boundary (signed_state g s) = ds_effect_boundary s"
  "ds_provider_capacities (signed_state g s) = ds_provider_capacities s"
  "ds_provider_slowdowns (signed_state g s) = ds_provider_slowdowns s"
  "ds_failed_task_providers (signed_state g s) = ds_failed_task_providers s"
  "ds_applied_events (signed_state g s) = ds_applied_events s"
  by (simp_all add: signed_state_def Let_def)

lemma make_state_ok:
  assumes "shape_ok (signed_state g draft)"
  shows "make_state g draft = Inr (signed_state g draft)"
proof -
  have "usage_nonneg (ds_settled_usage draft)" using assms by (simp add: shape_ok_def)
  moreover have "validate_state_shape (signed_state g draft) = Inr ()" using assms by (simp add: shape_iff)
  ultimately show ?thesis by (simp add: make_state_def signed_state_def Let_def validate_usage_def)
qed

lemma make_state_Inr:
  assumes "make_state g draft = Inr s"
  shows "s = signed_state g draft" and "state_verify_digest s"
proof -
  from assms show s: "s = signed_state g draft"
    by (auto simp: make_state_def Let_def signed_state_def split: sum.splits)
  from assms have "validate_state_shape s = Inr ()"
    by (auto simp: make_state_def Let_def split: sum.splits)
  moreover have "ds_state_digest s = content_digest (state_payload s)"
    unfolding s signed_state_def Let_def by simp
  ultimately show "state_verify_digest s" by (simp add: state_verified shape_iff)
qed


section \<open>Inputs\<close>

definition seals_ok :: "execution_graph \<Rightarrow> effect_boundary \<Rightarrow> bool" where
  "seals_ok g b \<longleftrightarrow> boundary_verify_digest b
     \<and> (\<forall>i \<in> set (sealed_tasks b). \<exists>t. dget (by_id g) i = Some t \<and> writes (ef_kind (tc_effect t)))"

definition terminals_ok :: "execution_graph \<Rightarrow> string list \<Rightarrow> string list \<Rightarrow> effect_boundary \<Rightarrow> bool" where
  "terminals_ok g completed skipped b \<longleftrightarrow>
     set completed \<subseteq> set (graph_ids g) \<and> set skipped \<subseteq> set (graph_ids g)
     \<and> set completed \<inter> set skipped = {} \<and> set skipped \<inter> set (sealed_tasks b) = {}
     \<and> (\<forall>i \<in> set completed. \<forall>t. dget (by_id g) i = Some t \<longrightarrow> writes (ef_kind (tc_effect t)) \<longrightarrow> i \<in> set (sealed_tasks b))
     \<and> (\<forall>i \<in> set completed \<union> set (sealed_tasks b). set (deps_of (by_id g) i) \<subseteq> set completed)"

lemma boundary_checks_iff: "list_all fst (boundary_checks g b) \<longleftrightarrow> seals_ok g b"
proof -
  have "list_all fst (seal_checks g s) \<longleftrightarrow> (\<exists>t. dget (by_id g) (es_task_id s) = Some t \<and> writes (ef_kind (tc_effect t)))" for s
    by (auto simp: seal_checks_def split: option.splits)
  then show ?thesis
    by (auto simp: boundary_checks_def seals_ok_def sealed_tasks_def list_all_iff)
qed

lemma terminal_checks_iff:
  "list_all fst (terminal_set_checks g completed skipped b) \<and> list_all fst (completion_checks g (sorted_set completed) b)
   \<longleftrightarrow> distinct completed \<and> distinct skipped \<and> set (sealed_tasks b) \<subseteq> set (graph_ids g)
     \<and> terminals_ok g completed skipped b"
proof -
  have known: "dmem i (by_id g) \<longleftrightarrow> i \<in> set (graph_ids g)" for i by (rule dmem_by_id)
  have closed: "fst (closure_check g xs label i) \<longleftrightarrow> dmem i (by_id g) \<and> set (deps_of (by_id g) i) \<subseteq> set xs" for xs label i
    by (auto simp: closure_check_def dmem_def deps_of_def missing_deps_def filter_empty_conv split: option.splits)
  have written: "fst (completed_write_check g b i) \<longleftrightarrow> dmem i (by_id g) \<and>
      (\<forall>t. dget (by_id g) i = Some t \<longrightarrow> writes (ef_kind (tc_effect t)) \<longrightarrow> i \<in> set (sealed_tasks b))" for i
    by (auto simp: completed_write_check_def dmem_def split: option.splits)
  show ?thesis
    unfolding terminal_set_checks_def completion_checks_def terminals_ok_def list_all_append list.pred_map o_def
      closed written by (simp add: list_all_iff known) blast
qed

lemma seals_known: "seals_ok g b \<Longrightarrow> set (sealed_tasks b) \<subseteq> set (graph_ids g)"
  by (metis (no_types, lifting) dmem_Some dmem_by_id seals_ok_def subsetI)

lemma progress_boundaryD:
  assumes "progress_effect_boundary g s progress = Inr b"
  shows "seals_ok g b" and "boundary_extends (ds_effect_boundary s) b"
    and "b = (case ps_effect_boundary progress of None \<Rightarrow> ds_effect_boundary s | Some b \<Rightarrow> b)"
proof -
  from assms show b: "b = (case ps_effect_boundary progress of None \<Rightarrow> ds_effect_boundary s | Some b \<Rightarrow> b)"
    by (auto simp: progress_effect_boundary_def Let_def split: sum.splits)
  from assms b have "list_all fst (boundary_checks g b @ [demand (boundary_extends (ds_effect_boundary s) b)
                 ''effect boundary is append-only; existing intent seals cannot be removed or mutated''])"
    by (auto simp: progress_effect_boundary_def Let_def run_checks_Inr split: sum.splits if_splits)
  then show "seals_ok g b" "boundary_extends (ds_effect_boundary s) b" by (simp_all add: boundary_checks_iff)
qed

text \<open>Everything a later step uses of validated inputs.\<close>

definition inputs_ok ::
  "execution_graph \<Rightarrow> durable_state \<Rightarrow> replan_event \<Rightarrow> progress_snapshot \<Rightarrow> effect_boundary \<Rightarrow> bool" where
  "inputs_ok g s e progress b \<longleftrightarrow>
     graph_ok g \<and> usage_nonneg (ps_settled_usage progress) \<and> state_verify_digest s
     \<and> ds_graph_digest s = content_digest (graph_json g)
     \<and> progress_effect_boundary g s progress = Inr b \<and> validate_event g e = Inr ()
     \<and> replan_event_id e \<notin> set (map ae_event_id (ds_applied_events s))
     \<and> ds_elapsed_ms s \<le> ps_elapsed_ms progress \<and> occurred_at_ms e = ps_elapsed_ms progress
     \<and> usage_at_least (ps_settled_usage progress) (ds_settled_usage s)
     \<and> set (ds_completed_task_ids s) \<subseteq> set (ps_completed_task_ids progress)
     \<and> set (ds_skipped_task_ids s) \<subseteq> set (ps_skipped_task_ids progress)
     \<and> terminals_ok g (ps_completed_task_ids progress) (ps_skipped_task_ids progress) b"

lemma progress_checks_iff:
  assumes "seals_ok g b"
  shows "list_all fst (progress_checks g s e progress b) \<longleftrightarrow>
     distinct (ps_completed_task_ids progress) \<and> distinct (ps_skipped_task_ids progress)
     \<and> replan_event_id e \<notin> set (map ae_event_id (ds_applied_events s))
     \<and> ds_elapsed_ms s \<le> ps_elapsed_ms progress \<and> occurred_at_ms e = ps_elapsed_ms progress
     \<and> usage_at_least (ps_settled_usage progress) (ds_settled_usage s)
     \<and> set (ds_completed_task_ids s) \<subseteq> set (ps_completed_task_ids progress)
     \<and> set (ds_skipped_task_ids s) \<subseteq> set (ps_skipped_task_ids progress)
     \<and> terminals_ok g (ps_completed_task_ids progress) (ps_skipped_task_ids progress) b"
proof -
  have "list_all (\<lambda>i. i \<in> set ys) xs \<longleftrightarrow> set xs \<subseteq> set ys" for xs ys :: "string list" by (auto simp: list_all_iff)
  then show ?thesis
    using terminal_checks_iff [of g "ps_completed_task_ids progress" "ps_skipped_task_ids progress" b] seals_known [OF assms]
    unfolding progress_checks_def list_all_append by auto
qed

lemma validate_replan_inputs_iff:
  "validate_replan_inputs g s e progress = Inr b \<longleftrightarrow>
     is_sha256 (ps_effect_boundary_digest progress) \<and> distinct (ps_completed_task_ids progress)
     \<and> distinct (ps_skipped_task_ids progress) \<and> inputs_ok g s e progress b"
proof -
  have "validate_replan_inputs g s e progress = Inr b \<longleftrightarrow>
      is_sha256 (ps_effect_boundary_digest progress) \<and> graph_ok g \<and> usage_nonneg (ps_settled_usage progress)
      \<and> state_verify_digest s \<and> ds_graph_digest s = content_digest (graph_json g)
      \<and> progress_effect_boundary g s progress = Inr b \<and> validate_event g e = Inr ()
      \<and> list_all fst (progress_checks g s e progress b)"
    unfolding run_checks_Inr [symmetric]
    by (auto simp: validate_replan_inputs_def graph_ok_def validate_usage_def state_verify_digest_def split: sum.splits if_splits)
  then show ?thesis
    using progress_checks_iff [of g b s e progress] progress_boundaryD(1) [of g s progress b]
    unfolding inputs_ok_def by blast
qed

lemma validate_replan_inputs_ok: "validate_replan_inputs g s e progress = Inr b \<Longrightarrow> inputs_ok g s e progress b"
  by (simp add: validate_replan_inputs_iff)

section \<open>Conditions\<close>

definition conditions_ok :: "replan_conditions \<Rightarrow> bool" where
  "conditions_ok c \<longleftrightarrow>
     envelope_ok (rc_envelope c) \<and> dict_ok (rc_capacities c) \<and> pairs_ok 0 (rc_capacities c)
     \<and> dict_ok (rc_slowdowns c) \<and> pairs_ok 1001 (rc_slowdowns c) \<and> names_ok (rc_failures c)"

lemma provider_named: "graph_ok g \<Longrightarrow> p \<in> set (known_providers g) \<Longrightarrow> p \<noteq> []"
  by (auto simp: known_providers_def dest: graph_ok_parts(2) task_okD(4) profile_okD(10))

lemma pairs_ok_dset: "pairs_ok k d \<Longrightarrow> p \<noteq> [] \<Longrightarrow> k \<le> n \<Longrightarrow> pairs_ok k (dset p n d)"
  using dset_subset [of p n d] by (auto simp: pairs_ok_def)

lemma dict_of_canonical: "pairs_canonical ps \<Longrightarrow> dict_of ps = ps" "pairs_canonical ps \<Longrightarrow> dict_ok ps"
  by (simp_all add: pairs_canonical_iff dict_of_distinct dict_ok_def)

lemma apply_event_conditions:
  assumes g: "graph_ok g" and s: "shape_ok s" and e: "validate_event g e = Inr ()"
    and c: "apply_event s e terminal = Inr c"
  shows "conditions_ok c"
proof -
  have base: "envelope_ok (ds_current_envelope s)" "dict_ok (dict_of (ds_provider_capacities s))"
    "pairs_ok 0 (dict_of (ds_provider_capacities s))" "dict_ok (dict_of (ds_provider_slowdowns s))"
    "pairs_ok 1001 (dict_of (ds_provider_slowdowns s))" "names_ok (remdups (ds_failed_task_providers s))"
    using s by (simp_all add: shape_ok_def names_ok_def dict_of_canonical)
  have ev: "list_all fst (event_checks g e)"
    using e unfolding validate_event_def run_checks_Inr list_all_append by simp
  show ?thesis
  proof (cases e)
    case (ProviderSlowdownEvent i n p m)
    with ev have "p \<noteq> []" "1001 \<le> m" using provider_named [OF g, of p] by auto
    with base c ProviderSlowdownEvent show ?thesis by (auto simp: conditions_ok_def Let_def pairs_ok_dset)
  next
    case (TaskFailureEvent i n t p)
    with ev obtain task where task: "dget (by_id g) t = Some task" "p \<in> bp_provider ` set (tc_profiles task)"
      by (auto split: option.splits)
    then have "t \<in> set (graph_ids g)" using dmem_by_id [of t g] by (simp add: dmem_def)
    then have "t \<noteq> []" using g by (auto simp: graph_ids_def dest: graph_ok_parts(2) task_okD(1))
    moreover from task have "task \<in> set g"
      using by_id_distinct [OF graph_ok_parts(1) [OF g]] by (auto dest: map_of_SomeD)
    with task(2) have "p \<in> set (known_providers g)" by (auto simp: known_providers_def)
    then have "p \<noteq> []" by (rule provider_named [OF g])
    ultimately show ?thesis using base c TaskFailureEvent
      by (auto simp: conditions_ok_def Let_def names_ok_def split: if_splits)
  next
    case (ProviderCapacityEvent i n p k)
    with ev have "p \<noteq> []" "0 \<le> k" using provider_named [OF g, of p] by auto
    with base c ProviderCapacityEvent show ?thesis by (auto simp: conditions_ok_def Let_def pairs_ok_dset)
  next
    case (EnvelopeChangeEvent i n env)
    with ev have "envelope_ok env" by (simp add: envelope_ok_def)
    with base c EnvelopeChangeEvent show ?thesis by (auto simp: conditions_ok_def Let_def)
  qed
qed

lemma dict_update_ok: "dict_ok d \<Longrightarrow> dict_ok (dict_update d e)"
  by (induction e arbitrary: d) (auto simp: dict_update_def)

lemma dict_update_subset: "set (dict_update d e) \<subseteq> set d \<union> set e"
proof (induction e arbitrary: d)
  case Nil
  then show ?case by (simp add: dict_update_def)
next
  case (Cons x e)
  obtain k v where x: "x = (k, v)" by (cases x)
  have "dict_update d (x # e) = dict_update (dset k v d) e" by (simp add: dict_update_def x)
  with Cons [of "dset k v d"] dset_subset [of k v d] x show ?case by auto
qed

lemma limit_errors_Nil: "concat (map (\<lambda>(p, n). err (p = [] \<or> n \<le> 0) m) ps) = [] \<longleftrightarrow> pairs_ok 1 ps"
  for ps :: "(string \<times> int) list"
  by (induction ps) (auto simp: pairs_ok_def)

lemma envelope_ok_iff:
  "envelope_ok env \<longleftrightarrow>
     0 < re_deadline_ms env \<and> 0 \<le> re_max_tokens env \<and> 0 \<le> re_max_cost_microusd env \<and> 0 \<le> re_max_context_bytes env
     \<and> 0 < re_max_parallelism env \<and> 0 \<le> re_min_success env \<and> re_min_success env \<le> 1
     \<and> pairs_ok 1 (re_provider_limits env) \<and> distinct (map fst (re_provider_limits env))
     \<and> list_all int64_unit (envelope_physical env)"
  unfolding envelope_ok_def validate_envelope_def append_is_Nil_conv err_Nil limit_errors_Nil
  by (simp only: not_le not_less de_Morgan_disj not_not conj_assoc)

lemma pairs_ok_subset: "set ps \<subseteq> set qs \<Longrightarrow> pairs_ok k qs \<Longrightarrow> pairs_ok k ps"
  by (auto simp: pairs_ok_def)

lemma remaining_limits_ok:
  assumes env: "envelope_ok env" and caps: "pairs_ok 0 caps"
  shows "pairs_ok 1 (remaining_limits env caps)" and "distinct (map fst (remaining_limits env caps))"
proof -
  let ?d = "dict_of (re_provider_limits env)"
  have "set ?d \<subseteq> set (re_provider_limits env)"
    using dict_update_subset [of "[]" "re_provider_limits env"] by (simp add: dict_of_def dict_update_def)
  then have "pairs_ok 1 ?d" by (rule pairs_ok_subset) (use env in \<open>simp add: envelope_ok_iff\<close>)
  with caps have "pairs_ok 1 (filter (\<lambda>(p, n). n > 0) (?d @ caps))" by (auto simp: pairs_ok_def)
  then show "pairs_ok 1 (remaining_limits env caps)"
    by (rule pairs_ok_subset [rotated]) (use dict_update_subset [of ?d caps] in \<open>auto simp: remaining_limits_def\<close>)
  show "distinct (map fst (remaining_limits env caps))"
    using dict_update_ok [OF dict_ok_dict_of, of "re_provider_limits env" caps]
    by (simp add: remaining_limits_def distinct_keys_sort dict_ok_def distinct_map_filter)
qed

lemma remaining_envelope_Inr:
  assumes "remaining_envelope env used elapsed caps = Inr env'"
  shows "re_deadline_ms env' = re_deadline_ms env - elapsed" and "elapsed < re_deadline_ms env"
    and "re_max_tokens env' = re_max_tokens env - us_tokens used" and "us_tokens used \<le> re_max_tokens env"
    and "re_max_cost_microusd env' = re_max_cost_microusd env - us_cost_microusd used"
    and "us_cost_microusd used \<le> re_max_cost_microusd env"
    and "re_max_context_bytes env' = re_max_context_bytes env - us_context_bytes used"
    and "us_context_bytes used \<le> re_max_context_bytes env"
    and "re_max_parallelism env' = re_max_parallelism env" and "re_min_success env' = re_min_success env"
    and "re_provider_limits env' = remaining_limits env caps" and "envelope_physical env' = envelope_physical env"
  using assms by (auto simp: remaining_envelope_def usage_exceeds_def envelope_physical_def split: if_splits)

lemma remaining_envelope_ok:
  assumes c: "conditions_ok c" and env: "remaining_envelope (rc_envelope c) used elapsed (rc_capacities c) = Inr env"
  shows "envelope_ok env"
proof -
  have ok: "envelope_ok (rc_envelope c)" "pairs_ok 0 (rc_capacities c)" using c by (simp_all add: conditions_ok_def)
  note r = remaining_envelope_Inr [OF env]
  from ok(1) remaining_limits_ok [OF ok] r(2,4,6,8) show ?thesis unfolding envelope_ok_iff r by simp
qed

section \<open>Reasons\<close>

lemma mk_reason_verify: "summary \<noteq> [] \<Longrightarrow> [] \<notin> fst ` set facts \<Longrightarrow> distinct (map fst facts) \<Longrightarrow>
  reason_verify (mk_reason code summary facts)"
proof -
  have "distinct (map fst (sort_key fst facts)) = distinct (map fst facts)"
    by (metis mset_eq_imp_distinct_iff mset_map mset_sort)
  moreover assume "summary \<noteq> []" "[] \<notin> fst ` set facts" "distinct (map fst facts)"
  ultimately show ?thesis by (simp add: reason_verify_def mk_reason_def no_empty_name)
qed

lemma task_block_verify: "task_block cx skips t = Some r \<Longrightarrow> reason_verify r"
  by (auto simp: task_block_def Let_def intro!: mk_reason_verify split: if_splits)

lemma consumed_refusal_verify: "consumed_envelope_refusal env used elapsed = Some r \<Longrightarrow> reason_verify r"
  by (auto simp: consumed_envelope_refusal_def settled_facts_def time_facts_def intro!: mk_reason_verify split: if_splits)

lemma remaining_refusal_verify: "remaining_envelope env used elapsed caps = Inl r \<Longrightarrow> reason_verify r"
  by (auto simp: remaining_envelope_def settled_facts_def time_facts_def intro!: mk_reason_verify split: if_splits)

lemma residual_loop_verify: "residual_loop cx g shed = Inl (r, shed') \<Longrightarrow> reason_verify r"
proof (induction cx g shed rule: residual_loop.induct)
  case (1 cx g shed)
  show ?case
  proof (cases "residual_pass cx (rx_skipped cx @ shed) g shed False")
    case (Inl refusal)
    with "1.prems" have "residual_pass cx (rx_skipped cx @ shed) g shed False = Inl (r, shed')"
      by (simp add: residual_loop.simps [of cx g shed])
    from residual_pass_Inl [OF this] show ?thesis by (auto intro: task_block_verify)
  next
    case (Inr x)
    with "1.prems" "1.IH" [OF Inr] show ?thesis
      by (auto simp: residual_loop.simps [of cx g shed] split: prod.splits if_splits)
  qed
qed

section \<open>The residual build\<close>

definition residual_of ::
  "execution_graph \<Rightarrow> progress_snapshot \<Rightarrow> effect_boundary \<Rightarrow> replan_conditions \<Rightarrow> residual_cx \<Rightarrow> bool" where
  "residual_of g progress b c cx \<longleftrightarrow>
     (\<exists>P. set P = protected_set g \<and>
        cx = residual_context P (sorted_set (ps_completed_task_ids progress)) (sorted_set (ps_skipped_task_ids progress))
          (ps_elapsed_ms progress) b (rc_capacities c) (rc_slowdowns c) (rc_failures c))"

lemma residual_of_fields:
  assumes "residual_of g progress b c cx"
  shows "set (rx_protected cx) = protected_set g" and "set (rx_satisfied cx) = set (ps_completed_task_ids progress)"
    and "set (rx_sealed cx) = set (sealed_tasks b) - set (ps_completed_task_ids progress)"
    and "set (rx_skipped cx) = set (ps_skipped_task_ids progress)" and "rx_elapsed_ms cx = ps_elapsed_ms progress"
    and "rx_capacities cx = rc_capacities c" and "rx_slowdowns cx = rc_slowdowns c" and "rx_failed cx = rc_failures c"
proof -
  from assms obtain P where P: "set P = protected_set g"
    and cx: "cx = residual_context P (sorted_set (ps_completed_task_ids progress)) (sorted_set (ps_skipped_task_ids progress))
          (ps_elapsed_ms progress) b (rc_capacities c) (rc_slowdowns c) (rc_failures c)"
    unfolding residual_of_def by blast
  show "set (rx_sealed cx) = set (sealed_tasks b) - set (ps_completed_task_ids progress)"
    unfolding cx residual_context_def by auto
qed (use assms in \<open>unfold residual_of_def residual_context_def, (elim exE conjE, simp)+\<close>)

lemma residual_built:
  assumes "graph_ok g"
  obtains cx where "residual_of g progress b c cx"
    and "build_residual g (sorted_set (ps_completed_task_ids progress)) (sorted_set (ps_skipped_task_ids progress))
      (ps_elapsed_ms progress) b (rc_capacities c) (rc_slowdowns c) (rc_failures c) = finish_residual cx g"
proof -
  have "replan_protected_ids g = protected_task_ids g"
    by (simp add: replan_protected_ids_def protected_task_ids_def)
  with protected_task_ids_ok [OF assms] obtain P where "replan_protected_ids g = Inr P" "set P = protected_set g" by metis
  then show ?thesis by (intro that) (auto simp: residual_of_def build_residual_def)
qed

lemma slow_conditions: "residual_of g progress b c cx \<Longrightarrow> conditions_ok c \<Longrightarrow> slow_ok cx"
  by (fastforce simp: slow_ok_def residual_of_fields conditions_ok_def pairs_ok_def)

text \<open>
  A build refuses, or sheds exactly the doomed tasks, none of them protected, and keeps the live ones. Then it
  returns their graph, or raises what \<open>validate\<close> says about it.
\<close>

definition sheds :: "residual_cx \<Rightarrow> execution_graph \<Rightarrow> string list \<Rightarrow> bool" where
  "sheds cx g shed \<longleftrightarrow>
     residual_loop cx g [] = Inr shed \<and> set (rx_protected cx) \<inter> set (rx_skipped cx) = {}
     \<and> (residual_tasks cx g shed = [] \<longrightarrow> rx_sealed cx = [])"

definition planned :: "residual_cx \<Rightarrow> execution_graph \<Rightarrow> string list \<Rightarrow> residual_build \<Rightarrow> bool" where
  "planned cx g shed build \<longleftrightarrow>
     sheds cx g shed \<and> finish_residual cx g = Inr build \<and> from_tasks (residual_tasks cx g shed) = Inr (residual_tasks cx g shed)
     \<and> build = \<lparr>rb_graph = Some (residual_tasks cx g shed), rb_auto_shed = sorted_set shed, rb_refusal = None\<rparr>"

lemma from_tasks_Nil [simp]: "from_tasks [] = Inr []"
  by code_simp

lemma from_tasks_Inr: "from_tasks ts = Inr g' \<Longrightarrow> g' = ts \<and> graph_ok ts"
  by (auto simp: from_tasks_def graph_ok_def split: sum.splits)

lemma finish_residual_cases:
  obtains build r where "finish_residual cx g = Inr build" and "rb_refusal build = Some r" and "reason_verify r"
  | shed x where "sheds cx g shed" and "from_tasks (residual_tasks cx g shed) = Inl x" and "finish_residual cx g = Inl x"
  | shed build where "planned cx g shed build"
proof (cases "sorted_set (filter (\<lambda>i. i \<in> set (rx_protected cx)) (rx_skipped cx)) = []")
  case False
  then show ?thesis by (intro that(1)) (auto simp: finish_residual_def Let_def intro!: mk_reason_verify)
next
  case True
  then have disj: "set (rx_protected cx) \<inter> set (rx_skipped cx) = {}" by (auto simp: filter_empty_conv)
  show ?thesis
  proof (cases "residual_loop cx g []")
    case (Inl refusal)
    then show ?thesis
      using True residual_loop_verify [of cx g "[]"]
      by (cases refusal) (auto intro!: that(1) simp: finish_residual_def Let_def)
  next
    case (Inr shed)
    show ?thesis
    proof (cases "residual_tasks cx g shed = [] \<and> rx_sealed cx \<noteq> []")
      case left: True
      with Inr True show ?thesis
        by (intro that(1)) (auto simp: finish_residual_def Let_def intro!: mk_reason_verify)
    next
      case False
      then have s: "sheds cx g shed" using Inr disj by (simp add: sheds_def)
      show ?thesis
      proof (cases "from_tasks (residual_tasks cx g shed)")
        case (Inl x)
        with Inr True False s show ?thesis
          by (intro that(2) [of shed x]) (auto simp: finish_residual_def Let_def)
      next
        case R: (Inr g')
        with Inr True False s from_tasks_Inr [OF R] show ?thesis
          by (intro that(3) [of shed]) (auto simp: planned_def finish_residual_def Let_def)
      qed
    qed
  qed
qed

lemma sheds_facts:
  assumes "sheds cx g shed"
  shows "set shed = {i. doomed cx g i}" and "set (rx_protected cx) \<inter> set shed = {}"
    and "\<forall>t \<in> set g. \<not> stuck cx (rx_skipped cx @ shed) t" and "set (rx_protected cx) \<inter> set (rx_skipped cx) = {}"
  using assms residual_loop_Inr [of cx g shed] by (auto simp: sheds_def)

lemma planned_facts:
  assumes "planned cx g shed build"
  shows "set shed = {i. doomed cx g i}" and "set (rx_protected cx) \<inter> set shed = {}"
    and "\<forall>t \<in> set g. \<not> stuck cx (rx_skipped cx @ shed) t" and "set (rx_protected cx) \<inter> set (rx_skipped cx) = {}"
    and "rb_graph build = Some (residual_tasks cx g shed)" and "rb_auto_shed build = sorted_set shed"
    and "rb_refusal build = None" and "graph_ok (residual_tasks cx g shed)" and "finish_residual cx g = Inr build"
  using assms sheds_facts [of cx g shed] by (auto simp: planned_def dest: from_tasks_Inr)

lemma doomed_open: "doomed cx g i \<Longrightarrow> i \<in> set (graph_ids g) \<and> \<not> settled_task cx (rx_skipped cx) i"
  by (induction rule: doomed.induct) (auto simp: open_task_def graph_ids_def)

lemma live_open: "i \<in> set (graph_ids (live_tasks cx g shed)) \<longleftrightarrow>
  i \<in> set (graph_ids g) \<and> \<not> settled_task cx (rx_skipped cx @ shed) i"
  by (auto simp: live_tasks_def graph_ids_def)

end
