(* ===== verification/Replan_Sound.thy ===== *)
theory Replan_Sound
  imports Replan_Runs
begin

text \<open>
  Replanning with any lawful planner: the outcome of planning, the state and the decision of a
  transition, and the states reachable by a sequence of disturbances.
\<close>

section \<open>The next state\<close>

text \<open>What an outcome sheds is open work; unless it refuses, no protected task is skipped.\<close>

definition outcome_ok ::
  "execution_graph \<Rightarrow> progress_snapshot \<Rightarrow> effect_boundary \<Rightarrow> replan_outcome \<Rightarrow> bool" where
  "outcome_ok g progress b out \<longleftrightarrow>
     reason_verify (ro_reason out) \<and> set (ro_shed out) \<subseteq> set (graph_ids g)
     \<and> set (ro_shed out) \<inter> (set (ps_completed_task_ids progress) \<union> set (sealed_tasks b)) = {}
     \<and> (ro_disposition out \<noteq> Replan_Refused \<longrightarrow>
          protected_set g \<inter> (set (ps_skipped_task_ids progress) \<union> set (ro_shed out)) = {})"

definition new_skips :: "progress_snapshot \<Rightarrow> replan_outcome \<Rightarrow> string list" where
  "new_skips progress out =
     (if ro_disposition out = Replan_Refused then sorted_set (ps_skipped_task_ids progress)
      else sorted_set (sorted_set (ps_skipped_task_ids progress) @ ro_shed out))"

lemma set_new_skips: "set (new_skips progress out) =
  set (ps_skipped_task_ids progress) \<union> (if ro_disposition out = Replan_Refused then {} else set (ro_shed out))"
  by (simp add: new_skips_def)

lemma graph_names: "graph_ok g \<Longrightarrow> [] \<notin> set (graph_ids g)"
  using task_okD(1) graph_ok_parts(2) unfolding graph_ids_def by fastforce

lemma sorted_set_canonical: "set xs \<subseteq> set (graph_ids g) \<Longrightarrow> graph_ok g \<Longrightarrow>
  [] \<notin> set (sorted_set xs) \<and> sorted (sorted_set xs) \<and> distinct (sorted_set xs)"
  using graph_names by fastforce

lemma history_step:
  assumes "history_ok s" and "is_sha256 (ds_state_digest s)" and "i \<noteq> []"
    and "i \<notin> set (map ae_event_id (ds_applied_events s))" and "is_sha256 d"
    and "ds_revision s' = ds_revision s + 1" and "ds_prior_state_digest s' = Some (ds_state_digest s)"
    and "ds_applied_events s' = ds_applied_events s
      @ [\<lparr>ae_revision = ds_revision s + 1, ae_event_id = i, ae_event_digest = d\<rparr>]"
  shows "history_ok s'"
proof -
  have "[1..ds_revision s + 1] = [1..ds_revision s] @ [ds_revision s + 1]"
    using assms(1) upto_rec2 [of 1 "ds_revision s + 1"] by (simp add: history_ok_def)
  with assms show ?thesis unfolding history_ok_def by simp
qed

lemma next_state_ok:
  assumes i: "inputs_ok g s e progress b" and c: "conditions_ok c" and out: "outcome_ok g progress b out"
  shows "\<exists>s'. next_state g s e progress b c out = Inr s'"
proof -
  have g: "graph_ok g" and s: "shape_ok s" and e: "validate_event g e = Inr ()"
    using i by (simp_all add: inputs_ok_def state_verified)
  have t: "terminals_ok g (ps_completed_task_ids progress) (ps_skipped_task_ids progress) b"
    using i by (simp add: inputs_ok_def)
  have b: "boundary_verify_digest b" using i progress_boundaryD(1) by (auto simp: inputs_ok_def seals_ok_def)
  have name: "replan_event_id e \<noteq> []" "0 \<le> ps_elapsed_ms progress"
    using e i unfolding validate_event_def run_checks_Inr by (auto simp: inputs_ok_def)
  define draft where "draft = \<lparr>ds_run_id = ds_run_id s, ds_graph_digest = [], ds_revision = ds_revision s + 1,
        ds_prior_state_digest = Some (ds_state_digest s), ds_current_envelope = rc_envelope c,
        ds_completed_task_ids = sorted_set (ps_completed_task_ids progress),
        ds_skipped_task_ids = new_skips progress out,
        ds_settled_usage = ps_settled_usage progress, ds_elapsed_ms = ps_elapsed_ms progress,
        ds_effect_boundary = b, ds_provider_capacities = sort (rc_capacities c),
        ds_provider_slowdowns = sort (rc_slowdowns c), ds_failed_task_providers = sorted_set (rc_failures c),
        ds_applied_events = ds_applied_events s
          @ [\<lparr>ae_revision = ds_revision s + 1, ae_event_id = replan_event_id e, ae_event_digest = replan_event_digest e\<rparr>],
        ds_state_digest = []\<rparr>"
  have hist: "history_ok (signed_state g draft)"
    by (rule history_step [of s "replan_event_id e" "replan_event_digest e"])
      (use s i name in \<open>simp_all add: draft_def shape_ok_def inputs_ok_def replan_event_digest_def is_sha256_content\<close>)
  have digest: "is_sha256 (ds_state_digest (signed_state g draft))"
    by (simp add: signed_state_def Let_def is_sha256_content)
  have done_ids: "[] \<notin> set (sorted_set (ps_completed_task_ids progress))"
    using sorted_set_canonical [of "ps_completed_task_ids progress" g] t g by (simp add: terminals_ok_def)
  have skip_ids: "[] \<notin> set (new_skips progress out)"
    using t out graph_names [OF g] by (auto simp: terminals_ok_def outcome_ok_def set_new_skips)
  have skip_sorted: "sorted (new_skips progress out)" "distinct (new_skips progress out)" by (simp_all add: new_skips_def)
  have pairs: "pairs_ok 0 (sort (rc_capacities c))" "pairs_ok 1001 (sort (rc_slowdowns c))"
    "names_ok (sorted_set (rc_failures c))" using c by (simp_all add: conditions_ok_def pairs_ok_def names_ok_def)
  have canonical: "pairs_canonical (sort (rc_capacities c))" "pairs_canonical (sort (rc_slowdowns c))"
    using c by (simp_all add: conditions_ok_def pairs_canonical_sort)
  have "shape_ok (signed_state g draft)"
    unfolding shape_ok_def using hist digest done_ids skip_ids skip_sorted pairs canonical s i b c name(2)
    by (simp add: draft_def inputs_ok_def conditions_ok_def shape_ok_def is_sha256_content)
  then have "make_state g draft = Inr (signed_state g draft)" by (rule make_state_ok)
  moreover have "next_state g s e progress b c out = make_state g draft"
    by (simp add: next_state_def draft_def new_skips_def)
  ultimately show ?thesis by simp
qed

lemma next_state_fields:
  assumes "next_state g s e progress b c out = Inr s'"
  shows "state_verify_digest s'" and "ds_graph_digest s' = content_digest (graph_json g)"
    and "ds_run_id s' = ds_run_id s" and "ds_revision s' = ds_revision s + 1"
    and "ds_prior_state_digest s' = Some (ds_state_digest s)" and "ds_current_envelope s' = rc_envelope c"
    and "ds_completed_task_ids s' = sorted_set (ps_completed_task_ids progress)"
    and "ds_skipped_task_ids s' = new_skips progress out"
    and "ds_settled_usage s' = ps_settled_usage progress" and "ds_elapsed_ms s' = ps_elapsed_ms progress"
    and "ds_effect_boundary s' = b"
    and "ds_provider_capacities s' = sort (rc_capacities c)" and "ds_provider_slowdowns s' = sort (rc_slowdowns c)"
    and "ds_failed_task_providers s' = sorted_set (rc_failures c)"
    and "ds_applied_events s' = ds_applied_events s
      @ [\<lparr>ae_revision = ds_revision s + 1, ae_event_id = replan_event_id e, ae_event_digest = replan_event_digest e\<rparr>]"
  using make_state_Inr [OF assms [unfolded next_state_def]] by (simp_all add: new_skips_def)

lemma decision_verified: "reason_verify (ro_reason out) \<Longrightarrow> decision_verify_digest (decision_of s e build out s')"
  by (simp add: decision_verify_digest_def decision_of_def Let_def decision_payload_def is_sha256_content)

section \<open>Planning\<close>

lemma not_settled_open:
  assumes "residual_of g progress b c cx" and "\<not> settled_task cx skips i"
  shows "i \<notin> set (ps_completed_task_ids progress)" and "i \<notin> set (sealed_tasks b)"
  using assms(2) residual_of_fields [OF assms(1)] by (auto simp: settled_task_def)

lemma shed_ok:
  assumes cx: "residual_of g progress b c cx" and p: "planned cx g shed build"
  shows "set shed \<subseteq> set (graph_ids g)"
    and "set shed \<inter> (set (ps_completed_task_ids progress) \<union> set (sealed_tasks b)) = {}"
    and "protected_set g \<inter> (set (ps_skipped_task_ids progress) \<union> set shed) = {}"
proof -
  have *: "i \<in> set (graph_ids g) \<and> \<not> settled_task cx (rx_skipped cx) i" if "i \<in> set shed" for i
    using that planned_facts(1) [OF p] doomed_open [of cx g i] by simp
  then show "set shed \<subseteq> set (graph_ids g)" by blast
  show "set shed \<inter> (set (ps_completed_task_ids progress) \<union> set (sealed_tasks b)) = {}"
    using * not_settled_open [OF cx] by blast
  show "protected_set g \<inter> (set (ps_skipped_task_ids progress) \<union> set shed) = {}"
    using planned_facts(2,4) [OF p] residual_of_fields(1,4) [OF cx] by blast
qed

text \<open>The protected tasks that are still live are protected in the residual graph.\<close>

lemma residual_protected:
  assumes g: "graph_ok g" and t: "t \<in> set (live_tasks cx g shed)" and none: "\<forall>t \<in> set g. \<not> stuck cx (rx_skipped cx @ shed) t"
    and closed: "\<forall>i \<in> set (rx_satisfied cx) \<union> set (rx_sealed cx). set (deps_of (by_id g) i) \<subseteq> set (rx_satisfied cx)"
    and prot: "tc_task_id t \<in> protected_set g" and clean: "protected_set g \<inter> set (rx_skipped cx @ shed) = {}"
  shows "tc_task_id t \<in> protected_set (residual_tasks cx g shed)"
proof -
  let ?R = "residual_tasks cx g shed"
  have dist: "distinct (graph_ids g)" by (rule graph_ok_parts(1) [OF g])
  have dR: "distinct (graph_ids ?R)" using live_ids_distinct [OF dist] by (simp add: residual_ids)
  from prot obtain r where r: "r \<in> required_ids g" "(tc_task_id t, r) \<in> (dep_rel (by_id g))\<^sup>*"
    by (auto simp: protected_set_def)
  have live_required: "u \<in> set (live_tasks cx g shed) \<Longrightarrow> tc_task_id u \<in> required_ids g \<Longrightarrow>
      tc_task_id u \<in> protected_set ?R" for u
  proof -
    assume u: "u \<in> set (live_tasks cx g shed)" "tc_task_id u \<in> required_ids g"
    then obtain v where "v \<in> set g" "\<not> tc_optional v" "tc_task_id v = tc_task_id u" by (auto simp: required_ids_def)
    moreover then have "v = u"
      using dget_by_id [OF dist, of v] dget_by_id [OF dist, of u] u(1) by (auto simp: live_tasks_def)
    ultimately have "residual_task cx u \<in> set ?R \<and> \<not> tc_optional (residual_task cx u)"
      using u(1) by (simp add: residual_tasks_live)
    then have "tc_task_id (residual_task cx u) \<in> required_ids ?R" unfolding required_ids_def by blast
    then have "tc_task_id u \<in> required_ids ?R" by simp
    then show ?thesis by (rule protected_required)
  qed
  have "\<forall>u \<in> set (live_tasks cx g shed). tc_task_id u = i \<longrightarrow> i \<in> protected_set ?R"
    if "(i, r) \<in> (dep_rel (by_id g))\<^sup>*" for i
    using that
  proof (induction rule: converse_rtrancl_induct)
    case base
    then show ?case using live_required r(1) by blast
  next
    case (step i j)
    show ?case
    proof (intro ballI impI)
      fix u assume u: "u \<in> set (live_tasks cx g shed)" "tc_task_id u = i"
      have ij: "i \<in> set (deps_of (by_id g) j)" using step(1) by (simp add: dep_rel_iff)
      have open_i: "\<not> settled_task cx (rx_skipped cx @ shed) i" using u by (auto simp: live_tasks_def)
      have j: "j \<in> protected_set g" using r(1) step(2) by (auto simp: protected_set_def)
      have "j \<notin> set (rx_satisfied cx) \<union> set (rx_sealed cx)"
        using closed ij open_i by (auto simp: settled_task_def)
      then have "\<not> settled_task cx (rx_skipped cx @ shed) j" using clean j by (auto simp: settled_task_def)
      moreover from protected_known [OF g] j obtain w where w: "w \<in> set g" "tc_task_id w = j"
        by (auto simp: graph_ids_def)
      ultimately have live: "w \<in> set (live_tasks cx g shed)" by (simp add: live_tasks_def)
      have "residual_task cx w \<in> set ?R" using live by (auto simp: residual_tasks_live)
      from deps_of_task [OF dR this] have "deps_of (by_id ?R) j = filter (\<lambda>d. d \<notin> set (rx_satisfied cx)) (tc_dependencies w)"
        by (simp add: w(2))
      moreover have "deps_of (by_id g) j = tc_dependencies w" using deps_of_task [OF dist w(1)] w(2) by simp
      ultimately have "i \<in> set (deps_of (by_id ?R) j)" using ij open_i by (auto simp: settled_task_def)
      moreover have "j \<in> protected_set ?R" using step(3) live w(2) by blast
      ultimately show "i \<in> protected_set ?R" by (rule protected_closed [rotated])
    qed
  qed
  with r(2) t show ?thesis by blast
qed


text \<open>The stages of a transition.\<close>

definition stages ::
  "planner \<Rightarrow> execution_graph \<Rightarrow> durable_state \<Rightarrow> replan_event \<Rightarrow> progress_snapshot \<Rightarrow> effect_boundary \<Rightarrow> replan_conditions \<Rightarrow>
   residual_cx \<Rightarrow> residual_build \<Rightarrow> replan_outcome \<Rightarrow> bool" where
  "stages plan g s e progress b c cx build out \<longleftrightarrow>
     inputs_ok g s e progress b \<and> apply_event s e (terminal_ids progress b) = Inr c \<and> conditions_ok c
     \<and> residual_of g progress b c cx \<and> finish_residual cx g = Inr build
     \<and> plan_residual plan e build c (ps_settled_usage progress) (ps_elapsed_ms progress)
         (length (sorted_set (ps_completed_task_ids progress)) + length (sorted_set (ps_skipped_task_ids progress)))
         = Some (Inr out)
     \<and> outcome_ok g progress b out"

context lawful_planner
begin

text \<open>What an answer of \<open>plan_residual\<close> is made of.\<close>

lemma plan_residual_cases:
  assumes build: "finish_residual cx g = Inr build"
    and out: "plan_residual plan e build c used elapsed n = Some (Inr out)"
  obtains r where "out = refused_outcome r" and "reason_verify r"
  | shed where "planned cx g shed build" and "residual_tasks cx g shed = []"
      and "consumed_envelope_refusal (rc_envelope c) used elapsed = None"
      and "out = complete_outcome build n"
  | shed env r where "planned cx g shed build" and "residual_tasks cx g shed \<noteq> []"
      and "remaining_envelope (rc_envelope c) used elapsed (rc_capacities c) = Inr env"
      and "plan (residual_tasks cx g shed) env ADAPTIVE = Some (Inr r)"
      and "out = scheduled_outcome e build (residual_tasks cx g shed) env r"
proof (rule finish_residual_cases [of cx g])
  fix build' r assume "finish_residual cx g = Inr build'" "rb_refusal build' = Some r" "reason_verify r"
  moreover from this build out have "out = refused_outcome r" by (simp add: plan_residual_def)
  ultimately show ?thesis by (intro that(1))
next
  fix x assume "finish_residual cx g = Inl x"
  with build show ?thesis by simp
next
  fix shed build' assume p': "planned cx g shed build'"
  then have p: "planned cx g shed build" using build planned_facts(9) [OF p'] by simp
  note f = planned_facts [OF p]
  show ?thesis
  proof (cases "residual_tasks cx g shed")
    case Nil
    with p out f that(1,2) show ?thesis
      by (auto simp: plan_residual_def split: option.splits dest: consumed_refusal_verify)
  next
    case (Cons t ts)
    then have ne: "residual_tasks cx g shed \<noteq> []" by simp
    show ?thesis
    proof (cases "remaining_envelope (rc_envelope c) used elapsed (rc_capacities c)")
      case (Inl r)
      with f out Cons have "out = refused_outcome r" by (simp add: plan_residual_def)
      with remaining_refusal_verify [OF Inl] show ?thesis by (intro that(1))
    next
      case (Inr env)
      with f out Cons have "plan (residual_tasks cx g shed) env ADAPTIVE \<noteq> None"
        "\<And>x. plan (residual_tasks cx g shed) env ADAPTIVE \<noteq> Some (Inl x)"
        by (auto simp: plan_residual_def split: option.splits sum.splits)
      then obtain r where r: "plan (residual_tasks cx g shed) env ADAPTIVE = Some (Inr r)"
        by (metis option.exhaust sum.exhaust)
      with f out Cons Inr have "out = scheduled_outcome e build (residual_tasks cx g shed) env r"
        by (simp add: plan_residual_def)
      from that(3) [OF p ne Inr r this] show ?thesis .
    qed
  qed
qed

lemma scheduled_outcome_ok:
  assumes g: "graph_ok g" and cx: "residual_of g progress b c cx" and p: "planned cx g shed build"
    and t: "terminals_ok g (ps_completed_task_ids progress) (ps_skipped_task_ids progress) b"
    and r: "plan (residual_tasks cx g shed) env ADAPTIVE = Some (Inr r)"
  shows "outcome_ok g progress b (scheduled_outcome e build (residual_tasks cx g shed) env r)"
proof -
  let ?R = "residual_tasks cx g shed"
  note s = shed_ok [OF cx p] and f = residual_of_fields [OF cx] and none = planned_facts(3) [OF p]
  have skip: "set (sr_skipped r) \<subseteq> set (graph_ids ?R)" "set (sr_skipped r) \<inter> protected_set ?R = {}"
    using lawful [OF r] by (simp_all add: lawful_schedule_def)
  have live: "i \<in> set (graph_ids g) \<and> i \<notin> set (ps_completed_task_ids progress) \<and> i \<notin> set (sealed_tasks b)"
    if "i \<in> set (sr_skipped r)" for i
  proof -
    have i: "i \<in> set (graph_ids g)" "\<not> settled_task cx (rx_skipped cx @ shed) i"
      using skip(1) that unfolding residual_ids by (auto simp: live_open)
    from i(1) not_settled_open [OF cx i(2)] show ?thesis by blast
  qed
  have closed: "\<forall>i \<in> set (rx_satisfied cx) \<union> set (rx_sealed cx). set (deps_of (by_id g) i) \<subseteq> set (rx_satisfied cx)"
    using t f(2,3) by (auto simp: terminals_ok_def)
  have clean: "protected_set g \<inter> set (rx_skipped cx @ shed) = {}" using s(3) f(4) by simp
  have "i \<notin> protected_set g" if i: "i \<in> set (sr_skipped r)" for i
  proof
    assume prot: "i \<in> protected_set g"
    from i skip(1) obtain u where u: "u \<in> set (live_tasks cx g shed)" "tc_task_id u = i"
      unfolding residual_ids by (auto simp: graph_ids_def)
    from residual_protected [OF g u(1) none closed _ clean] prot u(2) skip(2) i show False by auto
  qed
  with live s show ?thesis
    by (auto simp: outcome_ok_def scheduled_outcome_def Let_def planned_facts(6) [OF p] intro!: mk_reason_verify)
qed

lemma plan_residual_ok:
  assumes g: "graph_ok g" and cx: "residual_of g progress b c cx"
    and t: "terminals_ok g (ps_completed_task_ids progress) (ps_skipped_task_ids progress) b"
    and build: "finish_residual cx g = Inr build" and out: "plan_residual plan e build c used elapsed n = Some (Inr out)"
  shows "outcome_ok g progress b out"
proof (rule plan_residual_cases [OF build out])
  fix r assume "out = refused_outcome r" "reason_verify r"
  then show ?thesis by (simp add: refused_outcome_def outcome_ok_def)
next
  fix shed assume p: "planned cx g shed build" "out = complete_outcome build n"
  from shed_ok [OF cx p(1)] planned_facts(6) [OF p(1)] p(2) show ?thesis
    by (auto simp: complete_outcome_def outcome_ok_def intro!: mk_reason_verify)
next
  fix shed env r assume "planned cx g shed build" "plan (residual_tasks cx g shed) env ADAPTIVE = Some (Inr r)"
    "out = scheduled_outcome e build (residual_tasks cx g shed) env r"
  with scheduled_outcome_ok [OF g cx _ t] show ?thesis by simp
qed

lemma replan_stages:
  assumes "replan plan g s e progress = Some (Inr tr)"
  obtains b c cx build out where "stages plan g s e progress b c cx build out"
    and "next_state g s e progress b c out = Inr (rt_state tr)"
    and "rt_decision tr = decision_of s e build out (rt_state tr)"
proof -
  from assms obtain b where b: "validate_replan_inputs g s e progress = Inr b"
    by (auto simp: replan_def split: sum.splits)
  from assms b obtain c where c: "apply_event s e (terminal_ids progress b) = Inr c"
    by (auto simp: replan_def split: sum.splits)
  note i = validate_replan_inputs_ok [OF b]
  have g: "graph_ok g" "shape_ok s" "validate_event g e = Inr ()"
    "terminals_ok g (ps_completed_task_ids progress) (ps_skipped_task_ids progress) b"
    using i by (simp_all add: inputs_ok_def state_verified)
  note ok = apply_event_conditions [OF g(1-3) c]
  obtain cx where cx: "residual_of g progress b c cx"
    "build_residual g (sorted_set (ps_completed_task_ids progress)) (sorted_set (ps_skipped_task_ids progress))
      (ps_elapsed_ms progress) b (rc_capacities c) (rc_slowdowns c) (rc_failures c) = finish_residual cx g"
    by (rule residual_built [OF g(1)])
  from assms b c cx(2) obtain build where build: "finish_residual cx g = Inr build"
    by (auto simp: replan_def split: sum.splits)
  from assms b c cx(2) build obtain out where
    out: "plan_residual plan e build c (ps_settled_usage progress) (ps_elapsed_ms progress)
         (length (sorted_set (ps_completed_task_ids progress)) + length (sorted_set (ps_skipped_task_ids progress)))
         = Some (Inr out)"
    by (auto simp: replan_def split: sum.splits option.splits)
  from assms b c cx(2) build out obtain s' where s': "next_state g s e progress b c out = Inr s'"
    by (auto simp: replan_def split: sum.splits)
  have "tr = \<lparr>rt_state = s', rt_decision = decision_of s e build out s'\<rparr>"
    using assms b c cx(2) build out s' by (simp add: replan_def Let_def split: if_splits)
  with i c ok cx(1) build out s' plan_residual_ok [OF g(1) cx(1) g(4) build out] show ?thesis
    by (intro that [of b c cx build out]) (simp_all add: stages_def)
qed

text \<open>Replanning answers unless a live task reads a port of a completed one; then the builder raises.\<close>

lemma ports_valid:
  assumes "residual_of g progress b c cx"
    and "\<forall>t \<in> set g. tc_task_id t \<notin> set (ps_completed_task_ids progress) \<longrightarrow>
      (\<forall>p \<in> set (tc_input_ports t). ip_source_task_id p \<notin> set (ps_completed_task_ids progress))"
  shows "orphan_errors cx (live_tasks cx g shed) = []"
  using assms(2) residual_of_fields(2) [OF assms(1)] not_settled_open(1) [OF assms(1)]
  by (fastforce simp: orphan_errors_Nil live_tasks_def)

lemma plan_residual_answers:
  assumes g: "graph_ok g" and cx: "residual_of g progress b c cx" and c: "conditions_ok c"
    and ports: "\<forall>t \<in> set g. tc_task_id t \<notin> set (ps_completed_task_ids progress) \<longrightarrow>
      (\<forall>p \<in> set (tc_input_ports t). ip_source_task_id p \<notin> set (ps_completed_task_ids progress))"
  shows "\<exists>build out. finish_residual cx g = Inr build \<and> plan_residual plan e build c used elapsed n = Some (Inr out)"
proof (rule finish_residual_cases [of cx g])
  fix build r assume "finish_residual cx g = Inr build" "rb_refusal build = Some r"
  then show ?thesis by (simp add: plan_residual_def)
next
  fix shed x assume s: "sheds cx g shed" and x: "from_tasks (residual_tasks cx g shed) = Inl x"
  from residual_graph_valid [OF g slow_conditions [OF cx c] sheds_facts(3) [OF s]] ports_valid [OF cx ports] x
  show ?thesis by simp
next
  fix shed build assume p: "planned cx g shed build"
  note f = planned_facts [OF p]
  show ?thesis
  proof (cases "residual_tasks cx g shed = []")
    case True
    with f show ?thesis by (simp add: plan_residual_def split: option.split)
  next
    case False
    show ?thesis
    proof (cases "remaining_envelope (rc_envelope c) used elapsed (rc_capacities c)")
      case (Inl r)
      with f False show ?thesis by (simp add: plan_residual_def split: list.split)
    next
      case (Inr env)
      from answers [OF f(8) remaining_envelope_ok [OF c Inr]] obtain r where
        "plan (residual_tasks cx g shed) env ADAPTIVE = Some (Inr r)" by blast
      moreover from False obtain u us where "residual_tasks cx g shed = u # us" by (auto simp: neq_Nil_conv)
      ultimately show ?thesis using f Inr by (simp add: plan_residual_def)
    qed
  qed
qed

lemma replan_returns:
  assumes b: "validate_replan_inputs g s e progress = Inr b" and c: "apply_event s e (terminal_ids progress b) = Inr c"
    and ports: "\<forall>t \<in> set g. tc_task_id t \<notin> set (ps_completed_task_ids progress) \<longrightarrow>
      (\<forall>p \<in> set (tc_input_ports t). ip_source_task_id p \<notin> set (ps_completed_task_ids progress))"
  shows "\<exists>tr. replan plan g s e progress = Some (Inr tr)"
proof -
  note i = validate_replan_inputs_ok [OF b]
  have g: "graph_ok g" "shape_ok s" "validate_event g e = Inr ()"
    "terminals_ok g (ps_completed_task_ids progress) (ps_skipped_task_ids progress) b"
    using i by (simp_all add: inputs_ok_def state_verified)
  note ok = apply_event_conditions [OF g(1-3) c]
  obtain cx where cx: "residual_of g progress b c cx"
    "build_residual g (sorted_set (ps_completed_task_ids progress)) (sorted_set (ps_skipped_task_ids progress))
      (ps_elapsed_ms progress) b (rc_capacities c) (rc_slowdowns c) (rc_failures c) = finish_residual cx g"
    by (rule residual_built [OF g(1)])
  from plan_residual_answers [OF g(1) cx(1) ok ports] obtain build out where build: "finish_residual cx g = Inr build"
    and out: "plan_residual plan e build c (ps_settled_usage progress) (ps_elapsed_ms progress)
         (length (sorted_set (ps_completed_task_ids progress)) + length (sorted_set (ps_skipped_task_ids progress)))
         = Some (Inr out)" by blast
  note o = plan_residual_ok [OF g(1) cx(1) g(4) build out]
  from next_state_ok [OF i ok o] obtain s' where "next_state g s e progress b c out = Inr s'" ..
  moreover have "reason_verify (ro_reason out)" using o by (simp add: outcome_ok_def)
  ultimately show ?thesis using b c cx(2) build out by (simp add: replan_def decision_verified)
qed

end

section \<open>Histories\<close>

text \<open>
  What a transition may change. The facts about tasks, effects, usage and time are only added to; the conditions of the
  run are those of the old state, except for what the event says: a failure is added to the failures, a capacity, a slowdown
  or an envelope replaces the one it is about; and the new state names its predecessor.
\<close>

fun failures_after :: "replan_event \<Rightarrow> (string \<times> string) set \<Rightarrow> (string \<times> string) set" where
  "failures_after (TaskFailureEvent i n t p) F = insert (t, p) F"
| "failures_after e F = F"

fun capacity_after :: "replan_event \<Rightarrow> (string \<rightharpoonup> int) \<Rightarrow> (string \<rightharpoonup> int)" where
  "capacity_after (ProviderCapacityEvent i n p k) m = m(p \<mapsto> k)"
| "capacity_after e m = m"

fun slowdown_after :: "replan_event \<Rightarrow> (string \<rightharpoonup> int) \<Rightarrow> (string \<rightharpoonup> int)" where
  "slowdown_after (ProviderSlowdownEvent i n p k) m = m(p \<mapsto> k)"
| "slowdown_after e m = m"

fun envelope_after :: "replan_event \<Rightarrow> run_envelope \<Rightarrow> run_envelope" where
  "envelope_after (EnvelopeChangeEvent i n env) old = env"
| "envelope_after e old = old"

definition conditions_follow :: "durable_state \<Rightarrow> replan_event \<Rightarrow> durable_state \<Rightarrow> bool" where
  "conditions_follow s e s' \<longleftrightarrow>
     set (ds_failed_task_providers s') = failures_after e (set (ds_failed_task_providers s))
     \<and> dget (ds_provider_capacities s') = capacity_after e (dget (ds_provider_capacities s))
     \<and> dget (ds_provider_slowdowns s') = slowdown_after e (dget (ds_provider_slowdowns s))
     \<and> ds_current_envelope s' = envelope_after e (ds_current_envelope s)"

definition run_extends :: "durable_state \<Rightarrow> replan_event \<Rightarrow> durable_state \<Rightarrow> bool" where
  "run_extends s e s' \<longleftrightarrow>
     set (ds_completed_task_ids s) \<subseteq> set (ds_completed_task_ids s')
     \<and> set (ds_skipped_task_ids s) \<subseteq> set (ds_skipped_task_ids s')
     \<and> set (eb_intents (ds_effect_boundary s)) \<subseteq> set (eb_intents (ds_effect_boundary s'))
     \<and> usage_at_least (ds_settled_usage s') (ds_settled_usage s) \<and> ds_elapsed_ms s \<le> ds_elapsed_ms s'
     \<and> conditions_follow s e s'
     \<and> ds_run_id s' = ds_run_id s \<and> ds_graph_digest s' = ds_graph_digest s
     \<and> ds_revision s' = ds_revision s + 1 \<and> ds_prior_state_digest s' = Some (ds_state_digest s)
     \<and> ds_applied_events s' = ds_applied_events s
         @ [\<lparr>ae_revision = ds_revision s + 1, ae_event_id = replan_event_id e, ae_event_digest = replan_event_digest e\<rparr>]"

text \<open>The facts of a state agree with its graph.\<close>

definition run_consistent :: "execution_graph \<Rightarrow> durable_state \<Rightarrow> bool" where
  "run_consistent g s \<longleftrightarrow>
     state_verify_digest s \<and> ds_graph_digest s = content_digest (graph_json g) \<and> seals_ok g (ds_effect_boundary s)
     \<and> terminals_ok g (ds_completed_task_ids s) (ds_skipped_task_ids s) (ds_effect_boundary s)"

inductive replan_reachable :: "planner \<Rightarrow> execution_graph \<Rightarrow> durable_state \<Rightarrow> bool" for plan g where
  start: "initial_state g env rid completed skipped used elapsed sealing = Inr s \<Longrightarrow> replan_reachable plan g s"
| replanned: "replan_reachable plan g s \<Longrightarrow> replan plan g s e progress = Some (Inr tr) \<Longrightarrow> replan_reachable plan g (rt_state tr)"

lemma conditions_followed:
  assumes c: "apply_event s e terminal = Inr c" "conditions_ok c" and s: "shape_ok s"
    and fields: "ds_failed_task_providers s' = sorted_set (rc_failures c)" "ds_provider_capacities s' = sort (rc_capacities c)"
      "ds_provider_slowdowns s' = sort (rc_slowdowns c)" "ds_current_envelope s' = rc_envelope c"
  shows "conditions_follow s e s'"
proof -
  have same: "dict_of (ds_provider_capacities s) = ds_provider_capacities s"
    "dict_of (ds_provider_slowdowns s) = ds_provider_slowdowns s"
    using s by (simp_all add: shape_ok_def dict_of_canonical)
  have "dget (sort (rc_capacities c)) = dget (rc_capacities c)" "dget (sort (rc_slowdowns c)) = dget (rc_slowdowns c)"
    using c(2) by (simp_all add: conditions_ok_def dget_sort fun_eq_iff)
  then show ?thesis using c(1) unfolding conditions_follow_def fields
    by (cases e) (auto simp: Let_def same fun_eq_iff dget_dset split: if_splits)
qed

lemma seals_extend:
  assumes "boundary_verify_digest b" and "boundary_verify_digest b'" and "boundary_extends b b'"
  shows "set (eb_intents b) \<subseteq> set (eb_intents b')"
proof
  fix s assume s: "s \<in> set (eb_intents b)"
  have eq: "seals_by_task x = map (\<lambda>s. (es_task_id s, s)) (eb_intents x)" if "boundary_verify_digest x" for x
    using that by (simp add: seals_by_task_def dict_of_distinct boundary_verify_digest_def o_def)
  have "(es_task_id s, s) \<in> set (seals_by_task b)" using s by (auto simp: eq [OF assms(1)])
  with assms(3) have "dget (seals_by_task b') (es_task_id s) = Some s"
    by (auto simp: boundary_extends_def list_all_iff)
  then have "(es_task_id s, s) \<in> set (seals_by_task b')" by (rule map_of_SomeD)
  then show "s \<in> set (eb_intents b')" by (auto simp: eq [OF assms(2)])
qed

lemma initial_consistent:
  assumes "initial_state g env rid completed skipped used elapsed sealing = Inr s"
  shows "run_consistent g s" and "graph_ok g"
proof -
  show "graph_ok g" using assms by (auto simp: initial_state_def graph_ok_def split: sum.splits)
  define b where "b = (case sealing of None \<Rightarrow> boundary_empty | Some b \<Rightarrow> b)"
  from assms obtain draft where draft: "make_state g draft = Inr s" "ds_effect_boundary draft = b"
    "ds_completed_task_ids draft = sorted_set completed" "ds_skipped_task_ids draft = sorted_set skipped"
    and cs: "list_all fst (boundary_checks g b)" "list_all fst (terminal_set_checks g completed skipped b)"
    "list_all fst (completion_checks g (sorted_set completed) b)"
    unfolding initial_state_def Let_def b_def [symmetric]
    by (auto simp: run_checks_Inr split: sum.splits if_splits)
  note s = make_state_Inr [OF draft(1)]
  have "seals_ok g b" using cs(1) by (simp add: boundary_checks_iff)
  moreover have "terminals_ok g (sorted_set completed) (sorted_set skipped) b"
    using terminal_checks_iff [of g completed skipped b] cs(2,3) by (simp add: terminals_ok_def)
  ultimately show "run_consistent g s" using s draft by (simp add: run_consistent_def)
qed

context lawful_planner
begin

lemma stages_step:
  assumes "stages plan g s e progress b c cx build out" and "next_state g s e progress b c out = Inr s'"
  shows "run_extends s e s'" and "run_consistent g s'"
proof -
  have i: "inputs_ok g s e progress b" and o: "outcome_ok g progress b out"
    using assms(1) by (simp_all add: stages_def)
  note n = next_state_fields [OF assms(2)]
  have b: "seals_ok g b" "boundary_extends (ds_effect_boundary s) b"
    using i progress_boundaryD(1,2) by (auto simp: inputs_ok_def)
  have "boundary_verify_digest (ds_effect_boundary s)" using i by (simp add: inputs_ok_def state_verify_digest_def)
  from seals_extend [OF this _ b(2)] b(1) have "set (eb_intents (ds_effect_boundary s)) \<subseteq> set (eb_intents b)"
    by (simp add: seals_ok_def)
  moreover have "conditions_follow s e s'"
    by (rule conditions_followed [OF _ _ _ n(14,12,13,6)])
      (use assms(1) i in \<open>auto simp: stages_def inputs_ok_def state_verified\<close>)
  ultimately show "run_extends s e s'" using i unfolding run_extends_def n by (auto simp: inputs_ok_def set_new_skips)
  have "terminals_ok g (sorted_set (ps_completed_task_ids progress)) (new_skips progress out) b"
    using i o by (auto simp: inputs_ok_def outcome_ok_def terminals_ok_def set_new_skips)
  with b(1) n(1) show "run_consistent g s'" unfolding run_consistent_def n by simp
qed

lemma replan_step:
  assumes "replan plan g s e progress = Some (Inr tr)"
  shows "run_extends s e (rt_state tr)" and "run_consistent g (rt_state tr)"
    and "decision_verify_digest (rt_decision tr)"
proof -
  from assms obtain b c cx build out where st: "stages plan g s e progress b c cx build out"
    "next_state g s e progress b c out = Inr (rt_state tr)"
    "rt_decision tr = decision_of s e build out (rt_state tr)" by (rule replan_stages)
  show "run_extends s e (rt_state tr)" "run_consistent g (rt_state tr)" by (rule stages_step [OF st(1,2)])+
  from st(1) have "reason_verify (ro_reason out)" by (simp add: stages_def outcome_ok_def)
  then show "decision_verify_digest (rt_decision tr)" unfolding st(3) by (rule decision_verified)
qed

lemma reachable_consistent: "replan_reachable plan g s \<Longrightarrow> run_consistent g s"
  by (induction rule: replan_reachable.induct) (auto intro: initial_consistent replan_step)

lemma own_transition_verifies:
  assumes "replan plan g s e progress = Some (Inr tr)"
  shows "verify_transition plan g s e progress tr = Some (Inr True)"
  using assms replan_step [OF assms] by (simp add: verify_transition_def run_consistent_def state_verify_digest_def)

end

section \<open>Plans\<close>

lemma remaining_limit:
  assumes env: "envelope_ok env" and caps: "pairs_ok 0 caps" "dict_ok caps"
    and rem: "remaining_envelope env used elapsed caps = Inr env'" and q: "dget caps q = Some n" and n: "0 < n"
  shows "provider_limit env' q = n"
proof -
  note l = remaining_limits_ok [OF env caps(1)]
  have "map_of (rev caps) q = Some n"
    using q caps(2) dget_dict_of [of caps q] by (simp add: dict_ok_def dict_of_distinct)
  then have "dget (dict_update (dict_of (re_provider_limits env)) caps) q = Some n"
    by (simp add: dict_update_def foldl_dset_get)
  then have "(q, n) \<in> set (remaining_limits env caps)" using n by (auto simp: remaining_limits_def dest: map_of_SomeD)
  with l(2) have "dget (dict_of (remaining_limits env caps)) q = Some n"
    by (simp add: dict_of_distinct)
  then show ?thesis by (simp add: provider_limit_def remaining_envelope_Inr(11) [OF rem])
qed

text \<open>A schedule for the residual graph, seen from the whole graph.\<close>

definition plan_partitions :: "execution_graph \<Rightarrow> durable_state \<Rightarrow> schedule_result \<Rightarrow> bool" where
  "plan_partitions g s r \<longleftrightarrow>
     (let planned = se_task_id ` set (sr_entries r);
          settled = set (ds_completed_task_ids s) \<union> set (ds_skipped_task_ids s) \<union> set (sealed_tasks (ds_effect_boundary s))
      in planned \<inter> settled = {} \<and> planned \<union> settled = set (graph_ids g)
         \<and> protected_set g \<inter> set (ds_skipped_task_ids s) = {})"

definition plan_admissible :: "execution_graph \<Rightarrow> durable_state \<Rightarrow> schedule_result \<Rightarrow> schedule_entry \<Rightarrow> bool" where
  "plan_admissible g s r e \<longleftrightarrow>
     (\<exists>t \<in> set g. tc_task_id t = se_task_id e
        \<and> (\<exists>p \<in> set (tc_profiles t). bp_name p = se_backend e \<and> bp_provider p = se_provider e \<and> tc_min_quality t \<le> bp_quality p)
        \<and> (se_task_id e, se_provider e) \<notin> set (ds_failed_task_providers s)
        \<and> dget (ds_provider_capacities s) (se_provider e) \<noteq> Some 0
        \<and> (\<forall>d. tc_deadline_ms t = Some d \<longrightarrow> ds_elapsed_ms s + se_end_ms e \<le> d)
        \<and> (\<forall>d \<in> set (tc_dependencies t). d \<in> set (ds_completed_task_ids s)
             \<or> (\<exists>e' \<in> set (sr_entries r). se_task_id e' = d \<and> se_end_ms e' \<le> se_start_ms e)))"

definition plan_affordable :: "durable_state \<Rightarrow> schedule_result \<Rightarrow> bool" where
  "plan_affordable s r \<longleftrightarrow>
     us_tokens (ds_settled_usage s) + sum_list (map se_tokens (sr_entries r)) \<le> re_max_tokens (ds_current_envelope s)
     \<and> us_cost_microusd (ds_settled_usage s) + sum_list (map se_cost_microusd (sr_entries r))
         \<le> re_max_cost_microusd (ds_current_envelope s)
     \<and> us_context_bytes (ds_settled_usage s) + sum_list (map se_context_bytes (sr_entries r))
         \<le> re_max_context_bytes (ds_current_envelope s)
     \<and> (\<forall>e \<in> set (sr_entries r). ds_elapsed_ms s + se_end_ms e \<le> re_deadline_ms (ds_current_envelope s))
     \<and> (\<forall>q n now. dget (ds_provider_capacities s) q = Some n \<longrightarrow>
          int (length (filter (\<lambda>e. se_provider e = q \<and> se_start_ms e \<le> now \<and> now < se_end_ms e) (sr_entries r))) \<le> n)"

context lawful_planner
begin

lemma scheduled_stage:
  assumes st: "stages plan g s e progress b c cx build out" and "ro_disposition out = Replan_Scheduled"
  obtains shed env r where "planned cx g shed build"
    and "remaining_envelope (rc_envelope c) (ps_settled_usage progress) (ps_elapsed_ms progress) (rc_capacities c) = Inr env"
    and "plan (residual_tasks cx g shed) env ADAPTIVE = Some (Inr r)" and "sr_success r" and "ro_schedule out = Some r"
    and "set (ro_shed out) = set shed \<union> set (sr_skipped r)"
proof -
  have build: "finish_residual cx g = Inr build"
    and out: "plan_residual plan e build c (ps_settled_usage progress) (ps_elapsed_ms progress)
      (length (sorted_set (ps_completed_task_ids progress)) + length (sorted_set (ps_skipped_task_ids progress)))
      = Some (Inr out)" using st by (simp_all add: stages_def)
  show ?thesis
  proof (rule plan_residual_cases [OF build out])
    fix r assume "out = refused_outcome r"
    with assms(2) show ?thesis by (simp add: refused_outcome_def)
  next
    fix shed n assume "out = complete_outcome build n"
    with assms(2) show ?thesis by (simp add: complete_outcome_def)
  next
    fix shed env r
    assume p: "planned cx g shed build" "residual_tasks cx g shed \<noteq> []"
      "remaining_envelope (rc_envelope c) (ps_settled_usage progress) (ps_elapsed_ms progress) (rc_capacities c) = Inr env"
      "plan (residual_tasks cx g shed) env ADAPTIVE = Some (Inr r)"
      and o: "out = scheduled_outcome e build (residual_tasks cx g shed) env r"
    with assms(2) have ok: "sr_success r" by (simp add: scheduled_outcome_def split: if_splits)
    with o have "ro_schedule out = Some r" "set (ro_shed out) = set shed \<union> set (sr_skipped r)"
      by (simp_all add: scheduled_outcome_def Let_def planned_facts(6) [OF p(1)])
    with p ok show ?thesis by (intro that)
  qed
qed

lemma scheduled_partition:
  assumes st: "stages plan g s e progress b c cx build out" and n: "next_state g s e progress b c out = Inr s'"
    and disp: "ro_disposition out = Replan_Scheduled" and p: "planned cx g shed build"
    and r: "plan (residual_tasks cx g shed) env ADAPTIVE = Some (Inr r)" "sr_success r"
    and shed: "set (ro_shed out) = set shed \<union> set (sr_skipped r)"
  shows "plan_partitions g s' r"
proof -
  have g: "graph_ok g" and cx: "residual_of g progress b c cx" and o: "outcome_ok g progress b out"
    and t: "terminals_ok g (ps_completed_task_ids progress) (ps_skipped_task_ids progress) b"
    and b: "progress_effect_boundary g s progress = Inr b"
    using st by (simp_all add: stages_def inputs_ok_def)
  note f = residual_of_fields [OF cx] and nf = next_state_fields [OF n]
  let ?I = "set (graph_ids g)" and ?C = "set (ps_completed_task_ids progress)" and ?S = "set (ps_skipped_task_ids progress)"
    and ?E = "set (sealed_tasks b)" and ?D = "set shed" and ?K = "set (sr_skipped r)"
  have "?E \<subseteq> ?I" by (rule seals_known [OF progress_boundaryD(1) [OF b]])
  then have sub: "?C \<union> ?S \<union> ?E \<union> ?D \<subseteq> ?I" using t shed_ok(1) [OF cx p] by (simp add: terminals_ok_def)
  have R: "set (graph_ids (residual_tasks cx g shed)) = ?I - (?C \<union> ?E \<union> ?S \<union> ?D)"
    unfolding residual_ids by (auto simp: live_open settled_task_def f)
  have K: "?K \<subseteq> set (graph_ids (residual_tasks cx g shed))" using lawful [OF r(1)] by (simp add: lawful_schedule_def)
  have planned: "se_task_id ` set (sr_entries r) = ?I - (?C \<union> ?E \<union> ?S \<union> ?D \<union> ?K)"
    unfolding success_partition [OF r] R by blast
  have skips: "set (new_skips progress out) = ?S \<union> ?D \<union> ?K" using disp shed by (auto simp: set_new_skips)
  have "protected_set g \<inter> (?S \<union> ?D \<union> ?K) = {}" using o disp shed by (simp add: outcome_ok_def Un_assoc)
  moreover have "?K \<subseteq> ?I" using K R by blast
  ultimately show ?thesis unfolding plan_partitions_def Let_def planned nf set_sorted_set skips using sub by auto
qed

lemma scheduled_admissible:
  assumes st: "stages plan g s e progress b c cx build out" and n: "next_state g s e progress b c out = Inr s'"
    and p: "planned cx g shed build"
    and r: "plan (residual_tasks cx g shed) env ADAPTIVE = Some (Inr r)" and x: "x \<in> set (sr_entries r)"
  shows "plan_admissible g s' r x"
proof -
  have g: "graph_ok g" and cx: "residual_of g progress b c cx" and c: "dict_ok (rc_capacities c)"
    using st by (simp_all add: stages_def inputs_ok_def conditions_ok_def)
  note f = residual_of_fields [OF cx] and nf = next_state_fields [OF n]
  have "lawful_entry (residual_tasks cx g shed) env r x" using lawful [OF r] x by (simp add: lawful_schedule_def)
  then obtain t q where t: "t \<in> set (residual_tasks cx g shed)" "q \<in> set (tc_profiles t)" "se_task_id x = tc_task_id t"
    "se_backend x = bp_name q" "se_provider x = bp_provider q" "tc_min_quality t \<le> bp_quality q"
    "se_end_ms x \<le> effective_deadline t (re_deadline_ms env)"
    "\<forall>d \<in> set (tc_dependencies t). \<exists>e' \<in> set (sr_entries r).
       se_task_id e' = d \<and> se_outcome e' = ''completed'' \<and> se_end_ms e' \<le> se_start_ms x"
    unfolding lawful_entry_def by blast
  from t(1) obtain u where u: "u \<in> set (live_tasks cx g shed)" "t = residual_task cx u" by (auto simp: residual_tasks_live)
  from t(2) u(2) obtain w where w: "w \<in> set (tc_profiles u)" "available_profile cx (tc_task_id u) w" "q = slowed_profile cx w"
    by (auto simp: transformed_profiles_def)
  have ug: "u \<in> set g" using u(1) by (simp add: live_tasks_def)
  have profile: "\<exists>p \<in> set (tc_profiles u). bp_name p = se_backend x \<and> bp_provider p = se_provider x \<and> tc_min_quality u \<le> bp_quality p"
    using w(1,3) t(4-6) u(2) by (intro bexI [of _ w]) simp_all
  have free: "(tc_task_id u, bp_provider w) \<notin> set (rc_failures c)" "dget (rc_capacities c) (bp_provider w) \<noteq> Some 0"
    using w(2) by (auto simp: available_profile_def get_or_def f)
  have time: "ps_elapsed_ms progress + se_end_ms x \<le> d" if "tc_deadline_ms u = Some d" for d
    using t(7) that u(2) live_unblocked(4) [OF planned_facts(3) [OF p] u(1)]
    by (auto simp: effective_deadline_def deadline_left_def unable_def deadline_gone_def f split: if_splits)
  have deps: "d \<in> set (ps_completed_task_ids progress) \<or> (\<exists>e' \<in> set (sr_entries r). se_task_id e' = d \<and> se_end_ms e' \<le> se_start_ms x)"
    if "d \<in> set (tc_dependencies u)" for d
    using t(8) that u(2) by (auto simp: f)
  show ?thesis
    unfolding plan_admissible_def
    using ug t(3,5) u(2) profile free time deps w(3) dget_sort [OF c]
    by (intro bexI [of _ u] conjI) (simp_all add: nf)
qed

lemma scheduled_within:
  assumes st: "stages plan g s e progress b c cx build out" and n: "next_state g s e progress b c out = Inr s'"
    and p: "planned cx g shed build"
    and env: "remaining_envelope (rc_envelope c) (ps_settled_usage progress) (ps_elapsed_ms progress) (rc_capacities c) = Inr env"
    and r: "plan (residual_tasks cx g shed) env ADAPTIVE = Some (Inr r)"
  shows "plan_affordable s' r"
proof -
  have c: "conditions_ok c" using st by (simp add: stages_def)
  then have ok: "envelope_ok (rc_envelope c)" "pairs_ok 0 (rc_capacities c)" "dict_ok (rc_capacities c)"
    by (simp_all add: conditions_ok_def)
  note nf = next_state_fields [OF n] and rem = remaining_envelope_Inr [OF env]
  have L: "lawful_schedule (residual_tasks cx g shed) env r" by (rule lawful [OF r])
  have caps: "int (length (filter (\<lambda>e. se_provider e = q \<and> se_start_ms e \<le> now \<and> now < se_end_ms e) (sr_entries r))) \<le> k"
    if q: "dget (rc_capacities c) q = Some k" for q k now
  proof (cases "0 < k")
    case True
    from remaining_limit [OF ok env q True] L show ?thesis by (auto simp: lawful_schedule_def)
  next
    case False
    moreover have "0 \<le> k" using q ok(2) by (auto simp: pairs_ok_def dest: map_of_SomeD)
    ultimately have k: "k = 0" by simp
    have "se_provider x \<noteq> q" if "x \<in> set (sr_entries r)" for x
      using scheduled_admissible [OF st n p r that] q dget_sort [OF ok(3)] by (auto simp: plan_admissible_def nf k)
    then have "filter (\<lambda>e. se_provider e = q \<and> se_start_ms e \<le> now \<and> now < se_end_ms e) (sr_entries r) = []"
      by (auto simp: filter_empty_conv)
    then show ?thesis by (simp add: k)
  qed
  have "se_end_ms x \<le> re_deadline_ms env" if "x \<in> set (sr_entries r)" for x
    using L that by (auto simp: lawful_schedule_def lawful_entry_def)
  with L caps rem dget_sort [OF ok(3)] show ?thesis
    unfolding plan_affordable_def nf lawful_schedule_def by fastforce
qed

lemma replan_scheduled:
  assumes "replan plan g s e progress = Some (Inr tr)" and "rd_disposition (rt_decision tr) = Replan_Scheduled"
  shows "\<exists>r. rd_schedule (rt_decision tr) = Some r \<and> plan_partitions g (rt_state tr) r
    \<and> (\<forall>x \<in> set (sr_entries r). plan_admissible g (rt_state tr) r x) \<and> plan_affordable (rt_state tr) r"
proof -
  from assms(1) obtain b c cx build out where st: "stages plan g s e progress b c cx build out"
    "next_state g s e progress b c out = Inr (rt_state tr)"
    "rt_decision tr = decision_of s e build out (rt_state tr)" by (rule replan_stages)
  have d: "ro_disposition out = Replan_Scheduled" using assms(2) st(3) by (simp add: decision_of_def Let_def)
  from scheduled_stage [OF st(1) d] obtain shed env r where p: "planned cx g shed build"
    and env: "remaining_envelope (rc_envelope c) (ps_settled_usage progress) (ps_elapsed_ms progress) (rc_capacities c) = Inr env"
    and r: "plan (residual_tasks cx g shed) env ADAPTIVE = Some (Inr r)" "sr_success r" and sch: "ro_schedule out = Some r"
    and shed: "set (ro_shed out) = set shed \<union> set (sr_skipped r)" by blast
  have "rd_schedule (rt_decision tr) = Some r" using sch st(3) by (simp add: decision_of_def Let_def)
  with scheduled_partition [OF st(1,2) d p r shed] scheduled_admissible [OF st(1,2) p r(1)]
    scheduled_within [OF st(1,2) p env r(1)] show ?thesis by blast
qed

end

end
