(* ===== verification/Replan_Props.thy ===== *)
theory Replan_Props
  imports Replan_Sound
begin

text \<open>
  What a caller of the replanner may rely on, for the modelled scheduler: the plans of its decisions,
  the states it reaches, the tasks it sheds, and when it answers at all.
\<close>

section \<open>A sample run\<close>

text \<open>Two tasks, the second of which reads an output port of the first.\<close>

definition port_graph :: execution_graph where
  "port_graph =
     [(sample_task ''a'' [])\<lparr>tc_output_ports := [\<lparr>op_name = ''o'', op_schema = ''s'', op_schema_version = ''1'', op_media_type = ''m''\<rparr>]\<rparr>,
      (sample_task ''b'' [''a''])\<lparr>tc_input_ports := [\<lparr>ip_name = ''i'', ip_source_task_id = ''a'', ip_source_port = ''o'',
        ip_schema = ''s'', ip_schema_version = ''1'', ip_media_type = ''m''\<rparr>]\<rparr>]"

lemma port_graph_valid: "graph_validate port_graph = Inr ()"
  by code_simp

definition port_draft :: durable_state where
  "port_draft =
     \<lparr>ds_run_id = ''r'', ds_graph_digest = [], ds_revision = 0, ds_prior_state_digest = None,
      ds_current_envelope = sample_envelope, ds_completed_task_ids = [], ds_skipped_task_ids = [],
      ds_settled_usage = usage_zero, ds_elapsed_ms = 0, ds_effect_boundary = boundary_empty,
      ds_provider_capacities = [], ds_provider_slowdowns = [], ds_failed_task_providers = [],
      ds_applied_events = [], ds_state_digest = []\<rparr>"

definition port_state :: durable_state where
  "port_state = signed_state port_graph port_draft"

definition port_event :: replan_event where
  "port_event = ProviderSlowdownEvent ''e'' 0 ''local'' 2000"

definition port_progress :: "string list \<Rightarrow> progress_snapshot" where
  "port_progress completed =
     \<lparr>ps_completed_task_ids = completed, ps_skipped_task_ids = [], ps_settled_usage = usage_zero, ps_elapsed_ms = 0,
      ps_effect_boundary_digest = eb_boundary_digest boundary_empty, ps_effect_boundary = None\<rparr>"

definition port_conditions :: replan_conditions where
  "port_conditions = \<lparr>rc_envelope = sample_envelope, rc_capacities = [], rc_slowdowns = [(''local'', 2000)], rc_failures = []\<rparr>"

lemma boundary_empty_ok: "boundary_verify_digest boundary_empty" "sealed_tasks boundary_empty = []"
  by (simp_all add: boundary_verify_digest_def boundary_empty_def sealed_tasks_def is_sha256_content)

lemma boundary_empty_seals: "seals_ok g boundary_empty"
  by (simp add: seals_ok_def boundary_empty_ok)

lemma port_state_ok: "make_state port_graph port_draft = Inr port_state" "state_verify_digest port_state"
proof -
  have "envelope_ok sample_envelope" using sample_envelope_valid by (simp add: envelope_ok_def)
  then have "shape_ok (signed_state port_graph port_draft)"
    unfolding shape_ok_def history_ok_def signed_fields
    by (simp add: port_draft_def boundary_empty_ok is_sha256_content usage_nonneg_def usage_zero_def pairs_canonical_iff
        pairs_ok_def names_ok_def signed_state_def Let_def)
  from make_state_ok [OF this] show "make_state port_graph port_draft = Inr port_state" by (simp add: port_state_def)
  from make_state_Inr(2) [OF this] show "state_verify_digest port_state" .
qed

lemma port_initial: "initial_state port_graph sample_envelope ''r'' [] [] usage_zero 0 None = Inr port_state"
proof -
  have set0: "sorted_set [] = ([] :: string list)" by (simp add: sorted_set_def)
  have "list_all fst (boundary_checks port_graph boundary_empty)"
    by (simp add: boundary_checks_iff boundary_empty_seals)
  moreover have "list_all fst (terminal_set_checks port_graph [] [] boundary_empty)"
    "completion_checks port_graph [] boundary_empty = []"
    by (simp_all add: terminal_set_checks_def completion_checks_def boundary_empty_ok)
  moreover have "fst (validate_usage usage_zero l)" for l by (simp add: validate_usage_def usage_nonneg_def usage_zero_def)
  ultimately have checks: "run_checks ([demand (''r'' \<noteq> []) k, demand (validate_envelope sample_envelope = []) m, validate_usage usage_zero l]
      @ boundary_checks port_graph boundary_empty @ terminal_set_checks port_graph [] [] boundary_empty
      @ completion_checks port_graph (sorted_set []) boundary_empty @ [demand (0 \<le> (0::int)) n]) = Inr ()" for k m l n
    unfolding run_checks_Inr list_all_append set0 by (simp add: sample_envelope_valid)
  show ?thesis unfolding initial_state_def port_graph_valid Let_def sum.case option.case checks
    using port_state_ok(1) by (simp add: port_draft_def set0)
qed

lemma port_inputs:
  assumes "completed \<in> {[], [''a'']}"
  shows "validate_replan_inputs port_graph port_state port_event (port_progress completed) = Inr boundary_empty"
    and "apply_event port_state port_event (terminal_ids (port_progress completed) boundary_empty) = Inr port_conditions"
proof -
  have same: "ds_effect_boundary port_state = boundary_empty" "ds_applied_events port_state = []"
    "ds_completed_task_ids port_state = []" "ds_skipped_task_ids port_state = []" "ds_elapsed_ms port_state = 0"
    "ds_settled_usage port_state = usage_zero" "ds_graph_digest port_state = content_digest (graph_json port_graph)"
    "ds_current_envelope port_state = sample_envelope" "ds_provider_capacities port_state = []"
    "ds_provider_slowdowns port_state = []" "ds_failed_task_providers port_state = []"
    by (simp_all add: port_state_def) (simp_all add: port_draft_def)
  have tasks: "by_id port_graph = [(''a'', port_graph ! 0), (''b'', port_graph ! 1)]"
    "tc_dependencies (port_graph ! 0) = []" "ef_kind (tc_effect (port_graph ! 0)) = PURE" "graph_ids port_graph = [''a'', ''b'']"
    by (simp_all add: port_graph_def by_id_def dict_of_def sample_task_def graph_ids_def)
  have b: "progress_effect_boundary port_graph port_state (port_progress completed) = Inr boundary_empty"
    using boundary_empty_seals [of port_graph]
    by (simp add: progress_effect_boundary_def port_progress_def same run_checks_append boundary_checks_iff [symmetric]
        run_checks_Inr [symmetric] boundary_extends_def seals_by_task_def boundary_empty_def dict_of_def)
  have e: "validate_event port_graph port_event = Inr ()" by code_simp
  have t: "terminals_ok port_graph completed [] boundary_empty"
    using assms by (auto simp: terminals_ok_def boundary_empty_ok tasks deps_of_def writes_def)
  have "inputs_ok port_graph port_state port_event (port_progress completed) boundary_empty"
    unfolding inputs_ok_def using port_state_ok(2) b e t port_graph_valid
    by (simp add: graph_ok_def same) (simp add: port_progress_def port_event_def usage_nonneg_def usage_zero_def usage_at_least_def)
  then show "validate_replan_inputs port_graph port_state port_event (port_progress completed) = Inr boundary_empty"
    using assms by (auto simp: validate_replan_inputs_iff port_progress_def boundary_empty_def is_sha256_content)
  show "apply_event port_state port_event (terminal_ids (port_progress completed) boundary_empty) = Inr port_conditions"
    by (simp add: port_event_def same port_conditions_def dict_of_def Let_def)
qed

definition port_cx :: "string list \<Rightarrow> residual_cx" where
  "port_cx completed =
     \<lparr>rx_protected = [''a'', ''b''], rx_satisfied = completed, rx_sealed = [], rx_skipped = [], rx_elapsed_ms = 0,
      rx_capacities = [], rx_slowdowns = [(''local'', 2000)], rx_failed = []\<rparr>"

lemma port_build:
  "build_residual port_graph completed [] 0 boundary_empty [] [(''local'', 2000)] []
   = finish_residual (port_cx completed) port_graph"
proof -
  have "replan_protected_ids port_graph = Inr [''a'', ''b'']" by code_simp
  then show ?thesis
    by (simp add: build_residual_def residual_context_def boundary_empty_ok port_cx_def)
qed

lemma port_outcome: "case finish_residual (port_cx []) port_graph of
    Inr build \<Rightarrow>
      (case plan_residual schedule port_event build port_conditions usage_zero 0 0 of
         Some (Inr out) \<Rightarrow> ro_disposition out = Replan_Scheduled | _ \<Rightarrow> False)
  | _ \<Rightarrow> False"
  by code_simp

lemma port_planned:
  obtains build out where "finish_residual (port_cx []) port_graph = Inr build"
    and "plan_residual schedule port_event build port_conditions usage_zero 0 0 = Some (Inr out)"
    and "ro_disposition out = Replan_Scheduled"
proof -
  obtain build where build: "finish_residual (port_cx []) port_graph = Inr build"
    using port_outcome by (cases "finish_residual (port_cx []) port_graph") simp_all
  with port_outcome show ?thesis by (auto intro: that split: option.splits sum.splits)
qed

definition port_message :: string where
  "port_message = task_error ''b'' (''input port '' @ py_repr ''i'' @ '' has missing producer '' @ py_repr ''a'')"

lemma port_raises: "finish_residual (port_cx [''a'']) port_graph = Inl (ValueError port_message)"
  by code_simp

lemma port_replan: "\<exists>tr. replan schedule port_graph port_state port_event (port_progress []) = Some (Inr tr)"
proof -
  have "ps_completed_task_ids (port_progress []) = []" by (simp add: port_progress_def)
  then show ?thesis using port_inputs [of "[]"] by (intro sp.replan_returns [where b = boundary_empty and c = port_conditions]) auto
qed

lemma port_scheduled:
  assumes "replan schedule port_graph port_state port_event (port_progress []) = Some (Inr tr)"
  shows "rd_disposition (rt_decision tr) = Replan_Scheduled" and "ds_revision (rt_state tr) = 1"
proof -
  have i: "validate_replan_inputs port_graph port_state port_event (port_progress []) = Inr boundary_empty"
    "apply_event port_state port_event (terminal_ids (port_progress []) boundary_empty) = Inr port_conditions"
    by (rule port_inputs; simp)+
  obtain build out where out: "finish_residual (port_cx []) port_graph = Inr build"
    "plan_residual schedule port_event build port_conditions usage_zero 0 0 = Some (Inr out)" "ro_disposition out = Replan_Scheduled"
    by (rule port_planned)
  have p: "ps_completed_task_ids (port_progress []) = []" "ps_skipped_task_ids (port_progress []) = []"
    "ps_elapsed_ms (port_progress []) = 0" "ps_settled_usage (port_progress []) = usage_zero"
    "rc_capacities port_conditions = []" "rc_slowdowns port_conditions = [(''local'', 2000)]" "rc_failures port_conditions = []"
    by (simp_all add: port_progress_def port_conditions_def)
  have set0: "sorted_set [] = ([] :: string list)" by (simp add: sorted_set_def)
  from assms out show "rd_disposition (rt_decision tr) = Replan_Scheduled"
    by (auto simp: replan_def i p set0 port_build decision_of_def Let_def simp del: apply_event.simps split: sum.splits if_splits)
  from sp.replan_step(1) [OF assms] show "ds_revision (rt_state tr) = 1"
    by (simp add: run_extends_def port_state_def) (simp add: port_draft_def)
qed

section \<open>The residual tasks\<close>

text \<open>The work that can still run, and when the promises of the run can still be kept.\<close>

definition runnable_tasks :: "residual_cx \<Rightarrow> execution_graph \<Rightarrow> task_contract list" where
  "runnable_tasks cx g = filter (\<lambda>t. open_task cx t \<and> \<not> doomed cx g (tc_task_id t)) g"

definition promises_hold :: "residual_cx \<Rightarrow> execution_graph \<Rightarrow> bool" where
  "promises_hold cx g \<longleftrightarrow>
     set (rx_protected cx) \<inter> (set (rx_skipped cx) \<union> {i. doomed cx g i}) = {}
     \<and> (runnable_tasks cx g = [] \<longrightarrow> rx_sealed cx = [])"

lemma runnable_live: "set shed = {i. doomed cx g i} \<Longrightarrow> live_tasks cx g shed = runnable_tasks cx g"
  unfolding live_tasks_def runnable_tasks_def
  by (intro filter_cong) (auto simp: open_task_def settled_task_def)

text \<open>
  What a build tells of its context: a refusal breaks the promises; otherwise the errors of the graph of the runnable tasks are
  their input ports on completed tasks, and the build raises them or returns that graph.
\<close>

definition build_exact :: "residual_cx \<Rightarrow> execution_graph \<Rightarrow> py_error + residual_build \<Rightarrow> bool" where
  "build_exact cx g result \<longleftrightarrow>
     (let tasks = runnable_tasks cx g; errors = orphan_errors cx tasks
      in case result of
           Inl x \<Rightarrow> promises_hold cx g \<and> errors \<noteq> [] \<and> x = ValueError (semicolon_join errors)
         | Inr build \<Rightarrow>
             (case rb_refusal build of
                Some reason \<Rightarrow> \<not> promises_hold cx g \<and> reason_verify reason
              | None \<Rightarrow> promises_hold cx g \<and> errors = [] \<and> rb_graph build = Some (map (residual_task cx) tasks)
                  \<and> graph_ok (map (residual_task cx) tasks) \<and> set (rb_auto_shed build) = {i. doomed cx g i}))"

lemma refused_promise:
  assumes "finish_residual cx g = Inr build" and "rb_refusal build \<noteq> None"
  shows "\<not> promises_hold cx g"
proof (cases "residual_loop cx g []")
  case (Inl refusal)
  from residual_loop_Inl [OF this] show ?thesis by (auto simp: promises_hold_def)
next
  case (Inr shed)
  from runnable_live [OF residual_loop_Inr(1) [OF Inr]] have "residual_tasks cx g shed = map (residual_task cx) (runnable_tasks cx g)"
    by (simp add: residual_tasks_live)
  with assms Inr show ?thesis
    by (auto simp: finish_residual_def Let_def promises_hold_def filter_empty_conv split: if_splits sum.splits)
qed

lemma sheds_promise:
  assumes "sheds cx g shed"
  shows "promises_hold cx g" and "residual_tasks cx g shed = map (residual_task cx) (runnable_tasks cx g)"
    and "live_tasks cx g shed = runnable_tasks cx g"
proof -
  note f = sheds_facts [OF assms]
  show live: "live_tasks cx g shed = runnable_tasks cx g" by (rule runnable_live [OF f(1)])
  then show "residual_tasks cx g shed = map (residual_task cx) (runnable_tasks cx g)" by (simp add: residual_tasks_live)
  with assms f(1,2,4) show "promises_hold cx g" by (auto simp: sheds_def promises_hold_def)
qed

lemma finish_residual_exact:
  assumes g: "graph_ok g" and slow: "slow_ok cx"
  shows "build_exact cx g (finish_residual cx g)"
proof (rule finish_residual_cases [of cx g])
  fix build r assume "finish_residual cx g = Inr build" "rb_refusal build = Some r" "reason_verify r"
  with refused_promise [of cx g build] show ?thesis by (simp add: build_exact_def)
next
  fix shed x assume s: "sheds cx g shed" "from_tasks (residual_tasks cx g shed) = Inl x" "finish_residual cx g = Inl x"
  from residual_graph_valid [OF g slow sheds_facts(3) [OF s(1)]] s(2,3) sheds_promise(1,3) [OF s(1)] show ?thesis
    by (simp add: build_exact_def Let_def split: if_splits)
next
  fix shed build assume p: "planned cx g shed build"
  then have s: "sheds cx g shed" by (simp add: planned_def)
  note f = planned_facts [OF p] and q = sheds_promise [OF s]
  have "from_tasks (residual_tasks cx g shed) = Inr (residual_tasks cx g shed)" using p by (simp add: planned_def)
  with residual_graph_valid [OF g slow f(3)] have "orphan_errors cx (runnable_tasks cx g) = []"
    by (simp add: q(3) split: if_splits)
  with f q show ?thesis by (simp add: build_exact_def)
qed

text \<open>The context of a call of the builder.\<close>

definition context_of ::
  "execution_graph \<Rightarrow> string list \<Rightarrow> string list \<Rightarrow> int \<Rightarrow> effect_boundary \<Rightarrow> (string, int) dict \<Rightarrow>
   (string, int) dict \<Rightarrow> (string \<times> string) list \<Rightarrow> residual_cx" where
  "context_of g =
     residual_context (case replan_protected_ids g of Inl x \<Rightarrow> [] | Inr P \<Rightarrow> P)"

lemma build_residual_context:
  assumes "graph_ok g"
  shows "build_residual g completed skipped elapsed sealing capacities slowdowns failed
      = finish_residual (context_of g completed skipped elapsed sealing capacities slowdowns failed) g"
    and "set (rx_protected (context_of g completed skipped elapsed sealing capacities slowdowns failed)) = protected_set g"
proof -
  have "replan_protected_ids g = protected_task_ids g"
    by (simp add: replan_protected_ids_def protected_task_ids_def)
  with protected_task_ids_ok [OF assms] obtain P where "replan_protected_ids g = Inr P" "set P = protected_set g" by metis
  then show "build_residual g completed skipped elapsed sealing capacities slowdowns failed
      = finish_residual (context_of g completed skipped elapsed sealing capacities slowdowns failed) g"
    "set (rx_protected (context_of g completed skipped elapsed sealing capacities slowdowns failed)) = protected_set g"
    by (simp_all add: build_residual_def context_of_def residual_context_def)
qed

section \<open>Properties\<close>

text \<open>
  C10. A plan is safe: when \<open>replan\<close> decides to schedule, the tasks planned, completed, sealed and skipped are
  all tasks of the graph, nothing settled is planned again and no protected task is skipped; every entry runs on a
  declared profile that has not failed and whose provider has capacity, before the deadline of its task and after
  its dependencies; and settled usage plus planned usage stays within the current envelope.
\<close>
theorem replan_plan_is_safe:
  assumes "replan schedule g s e progress = Some (Inr tr)" and "rd_disposition (rt_decision tr) = Replan_Scheduled"
  shows "\<exists>r. rd_schedule (rt_decision tr) = Some r \<and> plan_partitions g (rt_state tr) r
    \<and> (\<forall>x \<in> set (sr_entries r). plan_admissible g (rt_state tr) r x) \<and> plan_affordable (rt_state tr) r"
  by (rule sp.replan_scheduled [OF assms])

theorem replan_plan_is_safe_witness:
  "\<exists>tr r. replan schedule port_graph port_state port_event (port_progress []) = Some (Inr tr)
     \<and> rd_schedule (rt_decision tr) = Some r \<and> plan_partitions port_graph (rt_state tr) r \<and> plan_affordable (rt_state tr) r"
proof -
  obtain tr where tr: "replan schedule port_graph port_state port_event (port_progress []) = Some (Inr tr)"
    using port_replan ..
  from replan_plan_is_safe [OF tr port_scheduled(1) [OF tr]] tr show ?thesis by blast
qed

text \<open>
  C11. Replanning only adds facts: the new state keeps every completed and skipped task and every effect
  seal, and usage and time do not decrease. The failed task and provider pairs, the provider capacities, the slowdowns and the
  envelope are those of the old state, changed by the event alone: a failure is added, a capacity or slowdown of one
  provider or the envelope is replaced, and nothing else. The history is that of the old state and the event, and the new state
  names its predecessor. The decision is bound by its digest, and \<open>verify_transition\<close> accepts the transition.
\<close>
theorem replan_only_extends:
  assumes "replan schedule g s e progress = Some (Inr tr)"
  shows "run_extends s e (rt_state tr) \<and> decision_verify_digest (rt_decision tr)
    \<and> verify_transition schedule g s e progress tr = Some (Inr True)"
  using sp.replan_step [OF assms] sp.own_transition_verifies [OF assms] by simp

theorem replan_only_extends_witness:
  "\<exists>tr. replan schedule port_graph port_state port_event (port_progress []) = Some (Inr tr)
     \<and> run_extends port_state port_event (rt_state tr)"
proof -
  obtain tr where tr: "replan schedule port_graph port_state port_event (port_progress []) = Some (Inr tr)"
    using port_replan ..
  from replan_only_extends [OF tr] tr show ?thesis by blast
qed

text \<open>
  C12. Every state reachable from an \<open>initial_state\<close> by replanning is well formed for its graph: its shape and digest
  verify, it is bound to the graph, every seal is of a write task, completed, skipped and sealed tasks are tasks of
  the graph, no completed or sealed task is skipped, completed writes are sealed and the
  dependencies of completed and sealed tasks are completed.
\<close>
theorem replan_states_consistent:
  assumes "replan_reachable schedule g s"
  shows "run_consistent g s"
  by (rule sp.reachable_consistent [OF assms])

theorem replan_states_consistent_witness:
  "\<exists>s. replan_reachable schedule port_graph s \<and> ds_revision s = 1 \<and> run_consistent port_graph s"
proof -
  obtain tr where tr: "replan schedule port_graph port_state port_event (port_progress []) = Some (Inr tr)"
    using port_replan ..
  have "replan_reachable schedule port_graph (rt_state tr)"
    by (rule replan_reachable.replanned [OF replan_reachable.start [OF port_initial] tr])
  with replan_states_consistent [OF this] port_scheduled(2) [OF tr] show ?thesis by blast
qed

text \<open>
  C13. The residual builder is exact. On a valid graph it refuses exactly when a protected task was skipped or is doomed (it
  waits, directly or through other doomed tasks, for skipped or sealed work, or has no profile or time left), or
  when only sealed work is left. Otherwise it sheds exactly the doomed tasks and returns the graph of the others, which is valid; or, exactly
  when one of those has an input port on a completed task, it raises the error of \<open>validate\<close>, one message for every such port.
\<close>
theorem residual_build_exact:
  assumes "graph_ok g" and "\<forall>(q, m) \<in> set slowdowns. 1000 \<le> m"
  shows "build_exact (context_of g completed skipped elapsed sealing capacities slowdowns failed) g
      (build_residual g completed skipped elapsed sealing capacities slowdowns failed)
    \<and> set (rx_protected (context_of g completed skipped elapsed sealing capacities slowdowns failed)) = protected_set g"
proof -
  have "slow_ok (context_of g completed skipped elapsed sealing capacities slowdowns failed)"
    using assms(2) by (simp add: slow_ok_def context_of_def residual_context_def)
  from finish_residual_exact [OF assms(1) this] build_residual_context [OF assms(1)] show ?thesis by metis
qed

theorem residual_build_exact_witness:
  "build_residual port_graph [''a''] [] 0 boundary_empty [] [(''local'', 2000)] [] = Inl (ValueError port_message)
   \<and> promises_hold (context_of port_graph [''a''] [] 0 boundary_empty [] [(''local'', 2000)] []) port_graph
   \<and> (\<exists>build. build_residual port_graph [] [] 0 boundary_empty [] [(''local'', 2000)] [] = Inr build
        \<and> promises_hold (context_of port_graph [] [] 0 boundary_empty [] [(''local'', 2000)] []) port_graph)"
proof -
  have exact: "build_exact (context_of port_graph completed [] 0 boundary_empty [] [(''local'', 2000)] []) port_graph
      (build_residual port_graph completed [] 0 boundary_empty [] [(''local'', 2000)] [])" for completed
    using residual_build_exact [of port_graph "[(''local'', 2000)]" completed "[]" 0 boundary_empty "[]" "[]"] port_graph_valid
    by (simp add: graph_ok_def)
  obtain build where "finish_residual (port_cx []) port_graph = Inr build" "rb_refusal build = None"
    using port_outcome by (auto simp: plan_residual_def refused_outcome_def split: sum.splits option.splits)
  with exact [of "[]"] exact [of "[''a'']"] show ?thesis by (simp add: port_build port_raises build_exact_def Let_def)
qed

text \<open>
  C14. Replanning answers: when the inputs validate and the event applies, \<open>replan\<close> returns a
  transition, for any graph none of whose remaining tasks reads a port of a completed task.
\<close>
theorem replan_answers:
  assumes "validate_replan_inputs g s e progress = Inr b" and "apply_event s e (terminal_ids progress b) = Inr c"
    and "\<forall>t \<in> set g. tc_task_id t \<notin> set (ps_completed_task_ids progress) \<longrightarrow>
      (\<forall>p \<in> set (tc_input_ports t). ip_source_task_id p \<notin> set (ps_completed_task_ids progress))"
  shows "\<exists>tr. replan schedule g s e progress = Some (Inr tr)"
  by (rule sp.replan_returns [OF assms])

theorem replan_answers_witness:
  "\<exists>tr. replan schedule port_graph port_state port_event (port_progress []) = Some (Inr tr)"
proof (rule replan_answers)
  show "validate_replan_inputs port_graph port_state port_event (port_progress []) = Inr boundary_empty"
    "apply_event port_state port_event (terminal_ids (port_progress []) boundary_empty) = Inr port_conditions"
    by (rule port_inputs; simp)+
qed (simp add: port_progress_def)

text \<open>
  C39. Typed ports break replanning: \<open>_build_residual\<close> drops the dependencies that are completed but keeps the
  input ports on them. As soon as the source of a typed edge has completed and its reader can still run, the graph it
  builds is invalid: if the promises of the run still hold (so that nothing is refused before), \<open>replan\<close> raises the error of \<open>validate\<close>, which names the port,
  instead of deciding, whatever is left of the envelope.
\<close>
theorem typed_port_breaks_replan:
  assumes "validate_replan_inputs g s e progress = Inr b" and "apply_event s e (terminal_ids progress b) = Inr c"
    and "cx = context_of g (sorted_set (ps_completed_task_ids progress)) (sorted_set (ps_skipped_task_ids progress))
      (ps_elapsed_ms progress) b (rc_capacities c) (rc_slowdowns c) (rc_failures c)"
    and "promises_hold cx g" and "t \<in> set (runnable_tasks cx g)"
    and "p \<in> set (tc_input_ports t)" and "ip_source_task_id p \<in> set (ps_completed_task_ids progress)"
  shows "replan schedule g s e progress
      = Some (Inl (OtherError (ValueError (semicolon_join (orphan_errors cx (runnable_tasks cx g))))))
    \<and> orphan_error t p \<in> set (orphan_errors cx (runnable_tasks cx g))"
proof -
  have i: "inputs_ok g s e progress b" by (rule validate_replan_inputs_ok [OF assms(1)])
  then have g: "graph_ok g" "shape_ok s" "validate_event g e = Inr ()" by (simp_all add: inputs_ok_def state_verified)
  have "conditions_ok c" by (rule apply_event_conditions [OF g assms(2)])
  then have slow: "slow_ok cx" by (fastforce simp: slow_ok_def assms(3) context_of_def residual_context_def conditions_ok_def pairs_ok_def)
  have port: "orphan_error t p \<in> set (orphan_errors cx (runnable_tasks cx g))"
    using assms(3,5-7) by (auto simp: orphan_errors_def context_of_def residual_context_def)
  with finish_residual_exact [OF g(1) slow] assms(4) have "finish_residual cx g
      = Inl (ValueError (semicolon_join (orphan_errors cx (runnable_tasks cx g))))"
    by (auto simp: build_exact_def Let_def split: sum.splits option.splits)
  with assms(1-3) build_residual_context(1) [OF g(1)] port show ?thesis
    by (simp add: replan_def del: apply_event.simps)
qed

theorem typed_port_breaks_replan_witness:
  "initial_state port_graph sample_envelope ''r'' [] [] usage_zero 0 None = Inr port_state
   \<and> replan schedule port_graph port_state port_event (port_progress [''a'']) = Some (Inl (OtherError (ValueError port_message)))"
proof
  have i: "validate_replan_inputs port_graph port_state port_event (port_progress [''a'']) = Inr boundary_empty"
    "apply_event port_state port_event (terminal_ids (port_progress [''a'']) boundary_empty) = Inr port_conditions"
    by (rule port_inputs; simp)+
  have g: "graph_ok port_graph" using port_graph_valid by (simp add: graph_ok_def)
  define cx where "cx = context_of port_graph (sorted_set (ps_completed_task_ids (port_progress [''a''])))
      (sorted_set (ps_skipped_task_ids (port_progress [''a'']))) (ps_elapsed_ms (port_progress [''a''])) boundary_empty
      (rc_capacities port_conditions) (rc_slowdowns port_conditions) (rc_failures port_conditions)"
  have "replan_protected_ids port_graph = Inr [''a'', ''b'']" by code_simp
  then have cx: "cx = port_cx [''a'']"
    by (simp add: cx_def context_of_def residual_context_def boundary_empty_ok port_cx_def port_progress_def port_conditions_def
        sorted_set_def)
  have "slow_ok cx" by (simp add: cx slow_ok_def port_cx_def)
  from finish_residual_exact [OF g this] have e: "promises_hold cx port_graph"
    "orphan_errors cx (runnable_tasks cx port_graph) \<noteq> []"
    "port_message = semicolon_join (orphan_errors cx (runnable_tasks cx port_graph))"
    by (simp_all add: cx port_raises build_exact_def Let_def)
  from e(2) obtain t p where "t \<in> set (runnable_tasks cx port_graph)" "p \<in> set (tc_input_ports t)"
    "ip_source_task_id p \<in> set (ps_completed_task_ids (port_progress [''a'']))"
    by (auto simp: orphan_errors_Nil cx port_cx_def port_progress_def)
  from typed_port_breaks_replan [OF i cx_def e(1) this] e(3)
  show "replan schedule port_graph port_state port_event (port_progress [''a'']) = Some (Inl (OtherError (ValueError port_message)))"
    by simp
qed (rule port_initial)

end
