(* ===== verification/Evidence.thy ===== *)
theory Evidence
  imports Json_Text
begin

text \<open>
  Artifacts and claims (\<open>src/agent_physics/artifacts.py\<close>): content-addressed records and the evidence set
  that recalculates the status of a claim from them.

  Payloads are lists of octets. A constructor \<open>create\<close> that raises is an \<open>Inl\<close>; the \<open>isinstance\<close> checks hold by typing.
\<close>

type_synonym bytes = "8 word list"

section \<open>Octets and addresses\<close>

text \<open>\<open>_sha256_bytes\<close> and \<open>s.encode("utf-8")\<close>.\<close>

definition sha256_bytes :: "bytes \<Rightarrow> string" where
  "sha256_bytes payload = hexdigest (sha256 (map unat payload))"

definition encode_utf8 :: "string \<Rightarrow> bytes" where
  "encode_utf8 s = map of_nat (utf8 s)"

definition address :: "string \<Rightarrow> string" where
  "address digest = ''sha256:'' @ digest"

definition is_sha256_address :: "string \<Rightarrow> bool" where
  "is_sha256_address s \<longleftrightarrow> take 7 s = ''sha256:'' \<and> is_sha256 (drop 7 s)"

definition validate_timestamp :: "int \<Rightarrow> int option \<Rightarrow> py_error + unit" where
  "validate_timestamp created_at_ms fresh_until_ms =
     (if created_at_ms < 0 then Inl (ValueError ''created_at_ms cannot be negative'')
      else case fresh_until_ms of
        None \<Rightarrow> Inr ()
      | Some f \<Rightarrow> if f < created_at_ms then Inl (ValueError ''fresh_until_ms cannot precede created_at_ms'') else Inr ())"

section \<open>Artifacts\<close>

datatype sensitivity = PUBLIC | INTERNAL | CONFIDENTIAL | RESTRICTED

fun sensitivity_value :: "sensitivity \<Rightarrow> string" where
  "sensitivity_value PUBLIC = ''public''"
| "sensitivity_value INTERNAL = ''internal''"
| "sensitivity_value CONFIDENTIAL = ''confidential''"
| "sensitivity_value RESTRICTED = ''restricted''"

record artifact =
  af_artifact_id :: string
  af_schema :: string
  af_schema_version :: string
  af_media_type :: string
  af_producer :: string
  af_parents :: "string list"
  af_sensitivity :: sensitivity
  af_created_at_ms :: int
  af_fresh_until_ms :: "int option"
  af_payload :: bytes
  af_payload_sha256 :: string

text \<open>\<open>_material\<close> of the fields of a record, with the digest and the size of the payload.\<close>

definition artifact_material :: "artifact \<Rightarrow> string \<Rightarrow> json" where
  "artifact_material a payload_sha256 =
     JObj [(''record_schema_version'', JStr ''agent-physics-artifact/v1''), (''schema'', JStr (af_schema a)),
           (''schema_version'', JStr (af_schema_version a)), (''media_type'', JStr (af_media_type a)),
           (''producer'', JStr (af_producer a)), (''parents'', JArr (map JStr (af_parents a))),
           (''sensitivity'', JStr (sensitivity_value (af_sensitivity a))), (''created_at_ms'', JInt (af_created_at_ms a)),
           (''fresh_until_ms'', jopt JInt (af_fresh_until_ms a)), (''payload_sha256'', JStr payload_sha256),
           (''payload_size'', JInt (int (length (af_payload a))))]"

text \<open>The arguments of \<open>create\<close> are those of a record whose address and payload digest are not yet set.\<close>

definition artifact_create :: "artifact \<Rightarrow> py_error + artifact" where
  "artifact_create a =
     (if af_schema a = [] \<or> af_schema_version a = [] \<or> af_media_type a = [] \<or> af_producer a = [] then
        Inl (ValueError ''schema, schema_version, media_type, and producer are required'')
      else case validate_timestamp (af_created_at_ms a) (af_fresh_until_ms a) of
        Inl e \<Rightarrow> Inl e
      | Inr _ \<Rightarrow>
          (let parents = sorted_set (af_parents a)
           in if list_ex (\<lambda>p. \<not> is_sha256_address p) parents then
                Inl (ValueError ''parent references must be sha256 addresses'')
              else
                let payload_hash = sha256_bytes (af_payload a);
                    b = a\<lparr>af_parents := parents, af_payload_sha256 := payload_hash\<rparr>
                in Inr (b\<lparr>af_artifact_id := address (content_digest (artifact_material b payload_hash))\<rparr>)))"

definition artifact_verify :: "artifact \<Rightarrow> bool" where
  "artifact_verify a \<longleftrightarrow>
     validate_timestamp (af_created_at_ms a) (af_fresh_until_ms a) = Inr ()
     \<and> af_schema a \<noteq> [] \<and> af_schema_version a \<noteq> [] \<and> af_media_type a \<noteq> [] \<and> af_producer a \<noteq> []
     \<and> sorted_set (af_parents a) = af_parents a \<and> list_all is_sha256_address (af_parents a)
     \<and> sha256_bytes (af_payload a) = af_payload_sha256 a
     \<and> af_artifact_id a = address (content_digest (artifact_material a (sha256_bytes (af_payload a))))"

definition is_fresh :: "artifact \<Rightarrow> int \<Rightarrow> bool" where
  "is_fresh a as_of_ms \<longleftrightarrow>
     \<not> as_of_ms < af_created_at_ms a
     \<and> (case af_fresh_until_ms a of None \<Rightarrow> True | Some f \<Rightarrow> as_of_ms \<le> f)"

section \<open>Claims\<close>

datatype claim_status = Claim_Supported | Claim_Unverified | Claim_Stale | Claim_Contradicted | Claim_Retracted

fun claim_status_value :: "claim_status \<Rightarrow> string" where
  "claim_status_value Claim_Supported = ''supported''"
| "claim_status_value Claim_Unverified = ''unverified''"
| "claim_status_value Claim_Stale = ''stale''"
| "claim_status_value Claim_Contradicted = ''contradicted''"
| "claim_status_value Claim_Retracted = ''retracted''"

datatype assessment_status = SUPPORTED | UNVERIFIED | STALE | CONTRADICTED | RETRACTED | INVALID | MISSING

fun assessment_value :: "assessment_status \<Rightarrow> string" where
  "assessment_value SUPPORTED = ''supported''"
| "assessment_value UNVERIFIED = ''unverified''"
| "assessment_value STALE = ''stale''"
| "assessment_value CONTRADICTED = ''contradicted''"
| "assessment_value RETRACTED = ''retracted''"
| "assessment_value INVALID = ''invalid''"
| "assessment_value MISSING = ''missing''"

record claim =
  cm_claim_id :: string
  cm_statement :: string
  cm_evidence_refs :: "string list"
  cm_status :: claim_status
  cm_contradicts :: "string list"
  cm_producer :: string
  cm_created_at_ms :: int
  cm_claim_digest :: string

definition claim_material :: "claim \<Rightarrow> json" where
  "claim_material c =
     JObj [(''record_schema_version'', JStr ''agent-physics-claim/v1''), (''claim_id'', JStr (cm_claim_id c)),
           (''statement'', JStr (cm_statement c)), (''evidence_refs'', JArr (map JStr (cm_evidence_refs c))),
           (''status'', JStr (claim_status_value (cm_status c))), (''contradicts'', JArr (map JStr (cm_contradicts c))),
           (''producer'', JStr (cm_producer c)), (''created_at_ms'', JInt (cm_created_at_ms c))]"

definition claim_create :: "claim \<Rightarrow> py_error + claim" where
  "claim_create c =
     (if cm_claim_id c = [] \<or> cm_statement c = [] \<or> cm_producer c = [] then
        Inl (ValueError ''claim_id, statement, and producer are required'')
      else if cm_created_at_ms c < 0 then Inl (ValueError ''created_at_ms cannot be negative'')
      else
        let refs = sorted_set (cm_evidence_refs c); conflicts = sorted_set (cm_contradicts c)
        in if cm_claim_id c \<in> set conflicts then Inl (ValueError ''a claim cannot contradict itself'')
           else if list_ex (\<lambda>r. \<not> is_sha256_address r) refs then
             Inl (ValueError ''evidence references must be sha256 addresses'')
           else
             let d = c\<lparr>cm_evidence_refs := refs, cm_contradicts := conflicts\<rparr>
             in Inr (d\<lparr>cm_claim_digest := content_digest (claim_material d)\<rparr>))"

definition claim_verify :: "claim \<Rightarrow> bool" where
  "claim_verify c \<longleftrightarrow>
     cm_claim_id c \<noteq> [] \<and> cm_statement c \<noteq> [] \<and> cm_producer c \<noteq> [] \<and> \<not> cm_created_at_ms c < 0
     \<and> sorted_set (cm_evidence_refs c) = cm_evidence_refs c \<and> sorted_set (cm_contradicts c) = cm_contradicts c
     \<and> cm_claim_id c \<notin> set (cm_contradicts c) \<and> list_all is_sha256_address (cm_evidence_refs c)
     \<and> cm_claim_digest c = content_digest (claim_material c)"

record claim_assessment =
  ca_claim_id :: string
  ca_status :: assessment_status
  ca_reasons :: "string list"
  ca_evidence_refs :: "string list"

section \<open>Evidence sets\<close>

record evidence_set =
  ed_artifacts :: "artifact list"
  ed_claims :: "claim list"

definition from_records :: "artifact list \<Rightarrow> claim list \<Rightarrow> py_error + evidence_set" where
  "from_records artifacts claims =
     (let ordered_artifacts = sort_key af_artifact_id artifacts; ordered_claims = sort_key cm_claim_id claims
      in if \<not> distinct (map af_artifact_id ordered_artifacts) then
           Inl (ValueError ''evidence set contains duplicate artifact IDs'')
         else if \<not> distinct (map cm_claim_id ordered_claims) then
           Inl (ValueError ''evidence set contains duplicate claim IDs'')
         else Inr \<lparr>ed_artifacts = ordered_artifacts, ed_claims = ordered_claims\<rparr>)"

definition find_artifact :: "evidence_set \<Rightarrow> string \<Rightarrow> artifact option" where
  "find_artifact e i = List.find (\<lambda>a. af_artifact_id a = i) (ed_artifacts e)"

definition find_claim :: "evidence_set \<Rightarrow> string \<Rightarrow> claim option" where
  "find_claim e i = List.find (\<lambda>c. cm_claim_id c = i) (ed_claims e)"

text \<open>The \<open>declared\<close> statuses.\<close>

fun declared :: "claim_status \<Rightarrow> assessment_status option" where
  "declared Claim_Supported = None"
| "declared Claim_Unverified = Some UNVERIFIED"
| "declared Claim_Stale = Some STALE"
| "declared Claim_Contradicted = Some CONTRADICTED"
| "declared Claim_Retracted = Some RETRACTED"

text \<open>The three lists of the loop over the references.\<close>

definition missing_refs :: "evidence_set \<Rightarrow> claim \<Rightarrow> string list" where
  "missing_refs e c = filter (\<lambda>r. find_artifact e r = None) (cm_evidence_refs c)"

definition invalid_refs :: "evidence_set \<Rightarrow> claim \<Rightarrow> string list" where
  "invalid_refs e c =
     filter (\<lambda>r. case find_artifact e r of None \<Rightarrow> False | Some a \<Rightarrow> \<not> artifact_verify a) (cm_evidence_refs c)"

definition stale_refs :: "evidence_set \<Rightarrow> claim \<Rightarrow> int \<Rightarrow> string list" where
  "stale_refs e c as_of_ms =
     filter (\<lambda>r. case find_artifact e r of None \<Rightarrow> False
       | Some a \<Rightarrow> artifact_verify a \<and> \<not> is_fresh a as_of_ms) (cm_evidence_refs c)"

definition base_assessment :: "evidence_set \<Rightarrow> claim \<Rightarrow> int \<Rightarrow> claim_assessment" where
  "base_assessment e c as_of_ms =
     (let answer = (\<lambda>status reasons.
        \<lparr>ca_claim_id = cm_claim_id c, ca_status = status, ca_reasons = reasons, ca_evidence_refs = cm_evidence_refs c\<rparr>)
      in if \<not> claim_verify c then answer INVALID [''claim digest or structure is invalid'']
         else if cm_created_at_ms c > as_of_ms then answer INVALID [''claim did not exist at the requested time'']
         else case declared (cm_status c) of
           Some status \<Rightarrow> answer status [''producer declared claim '' @ claim_status_value (cm_status c)]
         | None \<Rightarrow>
             if cm_evidence_refs c = [] then
               \<lparr>ca_claim_id = cm_claim_id c, ca_status = UNVERIFIED,
                ca_reasons = [''supported claims require at least one evidence reference''], ca_evidence_refs = []\<rparr>
             else if missing_refs e c \<noteq> [] then
               answer UNVERIFIED (map (\<lambda>r. ''missing evidence: '' @ r) (missing_refs e c))
             else if invalid_refs e c \<noteq> [] then
               answer INVALID (map (\<lambda>r. ''invalid evidence: '' @ r) (invalid_refs e c))
             else if stale_refs e c as_of_ms \<noteq> [] then
               answer STALE (map (\<lambda>r. ''stale evidence: '' @ r) (stale_refs e c as_of_ms))
             else answer SUPPORTED [''all referenced evidence is valid and fresh''])"

definition explicitly_conflicts :: "claim \<Rightarrow> claim \<Rightarrow> bool" where
  "explicitly_conflicts c other \<longleftrightarrow>
     cm_claim_id other \<in> set (cm_contradicts c) \<or> cm_claim_id c \<in> set (cm_contradicts other)"

definition conflicting :: "evidence_set \<Rightarrow> claim \<Rightarrow> int \<Rightarrow> string list" where
  "conflicting e c as_of_ms =
     map cm_claim_id (filter (\<lambda>other. cm_claim_id other \<noteq> cm_claim_id c \<and> explicitly_conflicts c other
       \<and> ca_status (base_assessment e other as_of_ms) = SUPPORTED) (ed_claims e))"

definition assess_claim :: "evidence_set \<Rightarrow> string \<Rightarrow> int \<Rightarrow> claim_assessment" where
  "assess_claim e i as_of_ms =
     (case find_claim e i of
        None \<Rightarrow>
          \<lparr>ca_claim_id = i, ca_status = MISSING, ca_reasons = [''claim is absent from the evidence set''],
           ca_evidence_refs = []\<rparr>
      | Some c \<Rightarrow>
          (let base = base_assessment e c as_of_ms
           in if ca_status base \<noteq> SUPPORTED then base
              else if conflicting e c as_of_ms \<noteq> [] then
                \<lparr>ca_claim_id = i, ca_status = CONTRADICTED,
                 ca_reasons = map (\<lambda>j. ''conflicts with supported claim: '' @ j) (conflicting e c as_of_ms),
                 ca_evidence_refs = cm_evidence_refs c\<rparr>
              else base))"

section \<open>Laws\<close>

lemma find_artifact_Some: "find_artifact e i = Some a \<Longrightarrow> a \<in> set (ed_artifacts e) \<and> af_artifact_id a = i"
  by (auto simp: find_artifact_def find_Some_iff)

lemma find_claim_Some: "find_claim e i = Some c \<Longrightarrow> c \<in> set (ed_claims e) \<and> cm_claim_id c = i"
  by (auto simp: find_claim_def find_Some_iff)

text \<open>What \<open>create\<close> returns verifies, and an artifact is addressed by its content.\<close>

lemma artifact_create_verifies: "artifact_create a = Inr b \<Longrightarrow> artifact_verify b \<and> is_sha256_address (af_artifact_id b)"
  by (auto simp: artifact_create_def artifact_verify_def artifact_material_def Let_def list_ex_iff list_all_iff
      is_sha256_address_def address_def is_sha256_content split: if_splits sum.splits)

lemma claim_create_verifies: "claim_create c = Inr d \<Longrightarrow> claim_verify d"
  by (auto simp: claim_create_def claim_verify_def claim_material_def Let_def list_ex_iff list_all_iff split: if_splits)

text \<open>An artifact a caller may rely on at a time.\<close>

definition usable_artifact :: "evidence_set \<Rightarrow> string \<Rightarrow> int \<Rightarrow> bool" where
  "usable_artifact e i as_of_ms \<longleftrightarrow>
     (\<exists>a. find_artifact e i = Some a \<and> artifact_verify a \<and> is_fresh a as_of_ms)"

text \<open>A claim is backed when it verifies, existed, is declared supported and all its evidence is usable.\<close>

definition claim_backed :: "evidence_set \<Rightarrow> claim \<Rightarrow> int \<Rightarrow> bool" where
  "claim_backed e c as_of_ms \<longleftrightarrow>
     claim_verify c \<and> cm_created_at_ms c \<le> as_of_ms \<and> cm_status c = Claim_Supported \<and> cm_evidence_refs c \<noteq> []
     \<and> (\<forall>r \<in> set (cm_evidence_refs c). usable_artifact e r as_of_ms)"

lemma base_supported: "ca_status (base_assessment e c as_of_ms) = SUPPORTED \<longleftrightarrow> claim_backed e c as_of_ms"
proof -
  have refs: "missing_refs e c = [] \<and> invalid_refs e c = [] \<and> stale_refs e c as_of_ms = [] \<longleftrightarrow>
      (\<forall>r \<in> set (cm_evidence_refs c). usable_artifact e r as_of_ms)"
    by (fastforce simp: missing_refs_def invalid_refs_def stale_refs_def usable_artifact_def filter_empty_conv split: option.splits)
  show ?thesis
    by (cases "cm_status c") (auto simp: base_assessment_def Let_def claim_backed_def refs [symmetric])
qed

end
