(* ===== verification/Context_Pack.thy ===== *)
theory Context_Pack
  imports Evidence
begin

text \<open>
  Deterministic packing of evidence into a bounded context (\<open>src/agent_physics/context.py\<close>).

  The local variables of \<open>pack\<close> that the loops over the obligations change are the record \<open>obliged\<close>; a dictionary is an
  association list in insertion order. A density \<open>Fraction(value, footprint)\<close> is a rational number. The
  \<open>assert\<close> statements are branches that return an \<open>AssertionError\<close>.
\<close>

section \<open>Base64\<close>

text \<open>\<open>base64.b64encode\<close>.\<close>

definition b64_alphabet :: string where
  "b64_alphabet = ''ABCDEFGHIJKLMNOPQRSTUVWXYZabcdefghijklmnopqrstuvwxyz0123456789+/''"

definition b64_char :: "nat \<Rightarrow> char" where
  "b64_char n = b64_alphabet ! (n mod 64)"

fun b64encode :: "bytes \<Rightarrow> string" where
  "b64encode [] = []"
| "b64encode [a] =
     (let n = unat a * 16 in [b64_char (n div 64), b64_char n, CHR ''='', CHR ''=''])"
| "b64encode [a, b] =
     (let n = (unat a * 256 + unat b) * 4 in [b64_char (n div 4096), b64_char (n div 64), b64_char n, CHR ''=''])"
| "b64encode (a # b # c # bs) =
     (let n = (unat a * 256 + unat b) * 256 + unat c
      in [b64_char (n div 262144), b64_char (n div 4096), b64_char (n div 64), b64_char n] @ b64encode bs)"

section \<open>Contracts\<close>

datatype source_kind = ARTIFACT | CLAIM

fun source_value :: "source_kind \<Rightarrow> string" where
  "source_value ARTIFACT = ''artifact''"
| "source_value CLAIM = ''claim''"

datatype packing_status = PACKED | REFUSED

fun packing_value :: "packing_status \<Rightarrow> string" where
  "packing_value PACKED = ''packed''"
| "packing_value REFUSED = ''refused''"

record context_budget =
  cb_max_bytes :: int
  cb_max_tokens :: int

definition validate_budget :: "context_budget \<Rightarrow> py_error + unit" where
  "validate_budget b =
     (if cb_max_bytes b < 0 \<or> cb_max_tokens b < 0 then Inl (ValueError ''context byte and token caps cannot be negative'')
      else Inr ())"

record context_obligations =
  co_artifacts :: "string list"
  co_claims :: "string list"

definition normalized :: "context_obligations \<Rightarrow> context_obligations" where
  "normalized o' = \<lparr>co_artifacts = sorted_set (co_artifacts o'), co_claims = sorted_set (co_claims o')\<rparr>"

record optional_artifact =
  oa_artifact_id :: string
  oa_value_units :: int

definition validate_option :: "optional_artifact \<Rightarrow> py_error + unit" where
  "validate_option x =
     (if oa_artifact_id x = [] then Inl (ValueError ''optional artifact_id is required'')
      else if oa_value_units x < 0 then Inl (ValueError ''optional artifact value_units cannot be negative'')
      else Inr ())"

record context_block =
  bk_source_kind :: source_kind
  bk_source_ref :: string
  bk_data :: bytes

definition block_envelope :: "context_block \<Rightarrow> json" where
  "block_envelope b =
     JObj [(''schema_version'', JStr ''agent-physics-context/v1''), (''source_kind'', JStr (source_value (bk_source_kind b))),
           (''source_ref'', JStr (bk_source_ref b)), (''authority'', JStr ''none''), (''instruction_semantics'', JBool False),
           (''content_semantics'', JStr ''data-only''), (''data_encoding'', JStr ''base64''),
           (''data'', JStr (b64encode (bk_data b)))]"

definition block_wire :: "context_block \<Rightarrow> bytes" where
  "block_wire b = encode_utf8 (canonical_json (block_envelope b))"

definition block_digest :: "context_block \<Rightarrow> string" where
  "block_digest b = sha256_bytes (block_wire b)"

definition block_id :: "context_block \<Rightarrow> string" where
  "block_id b = ''sha256:'' @ block_digest b"

definition byte_size :: "context_block \<Rightarrow> int" where
  "byte_size b = int (length (block_wire b))"

definition token_size :: "context_block \<Rightarrow> int" where
  "token_size b = max 1 (byte_size b)"

record manifest_entry =
  me_source_kind :: source_kind
  me_source_ref :: string
  me_mandatory :: bool
  me_included :: bool
  me_reason :: string
  me_block_id :: "string option"
  me_block_digest :: "string option"
  me_byte_size :: int
  me_token_size :: int
  me_value_units :: int

record loss_report =
  lr_total :: int
  lr_included :: int
  lr_lost :: int
  lr_excluded_count :: int
  lr_unsatisfied :: "string list"

record context_manifest =
  mf_status :: packing_status
  mf_as_of_ms :: int
  mf_byte_cap :: int
  mf_token_cap :: int
  mf_used_bytes :: int
  mf_used_tokens :: int
  mf_included :: "manifest_entry list"
  mf_excluded :: "manifest_entry list"
  mf_loss_report :: loss_report
  mf_refusal_reasons :: "string list"
  mf_schema_version :: string
  mf_token_estimator :: string
  mf_manifest_digest :: string

definition entry_json :: "manifest_entry \<Rightarrow> json" where
  "entry_json e =
     JObj [(''source_kind'', JStr (source_value (me_source_kind e))), (''source_ref'', JStr (me_source_ref e)),
           (''mandatory'', JBool (me_mandatory e)), (''included'', JBool (me_included e)), (''reason'', JStr (me_reason e)),
           (''block_id'', jopt JStr (me_block_id e)), (''block_digest'', jopt JStr (me_block_digest e)),
           (''byte_size'', JInt (me_byte_size e)), (''token_size'', JInt (me_token_size e)),
           (''value_units'', JInt (me_value_units e))]"

definition loss_json :: "loss_report \<Rightarrow> json" where
  "loss_json l =
     JObj [(''total_optional_value_units'', JInt (lr_total l)), (''included_optional_value_units'', JInt (lr_included l)),
           (''lost_optional_value_units'', JInt (lr_lost l)), (''excluded_optional_count'', JInt (lr_excluded_count l)),
           (''unsatisfied_mandatory'', JArr (map JStr (lr_unsatisfied l)))]"

definition manifest_payload :: "context_manifest \<Rightarrow> json" where
  "manifest_payload m =
     JObj [(''schema_version'', JStr (mf_schema_version m)), (''status'', JStr (packing_value (mf_status m))),
           (''as_of_ms'', JInt (mf_as_of_ms m)), (''byte_cap'', JInt (mf_byte_cap m)), (''token_cap'', JInt (mf_token_cap m)),
           (''used_bytes'', JInt (mf_used_bytes m)), (''used_tokens'', JInt (mf_used_tokens m)),
           (''token_estimator'', JStr (mf_token_estimator m)), (''included'', JArr (map entry_json (mf_included m))),
           (''excluded'', JArr (map entry_json (mf_excluded m))), (''loss_report'', loss_json (mf_loss_report m)),
           (''refusal_reasons'', JArr (map JStr (mf_refusal_reasons m)))]"

definition manifest_verify_digest :: "context_manifest \<Rightarrow> bool" where
  "manifest_verify_digest m \<longleftrightarrow> mf_manifest_digest m = content_digest (manifest_payload m)"

record packed_context =
  pc_blocks :: "context_block list"
  pc_manifest :: context_manifest

text \<open>\<open>b"\n".join(...)\<close>.\<close>

fun newline_join :: "bytes list \<Rightarrow> bytes" where
  "newline_join [] = []"
| "newline_join [x] = x"
| "newline_join (x # xs) = x @ [10] @ newline_join xs"

definition packed_wire :: "packed_context \<Rightarrow> bytes" where
  "packed_wire p = newline_join (map block_wire (pc_blocks p))"

definition entry_describes :: "manifest_entry \<Rightarrow> context_block \<Rightarrow> bool" where
  "entry_describes e b \<longleftrightarrow>
     me_included e \<and> me_source_kind e = bk_source_kind b \<and> me_source_ref e = bk_source_ref b
     \<and> me_block_id e = Some (block_id b) \<and> me_block_digest e = Some (block_digest b)
     \<and> me_byte_size e = byte_size b \<and> me_token_size e = token_size b"

definition packed_verify :: "packed_context \<Rightarrow> bool" where
  "packed_verify p \<longleftrightarrow>
     (let m = pc_manifest p; used_bytes = sum_list (map byte_size (pc_blocks p));
          used_tokens = sum_list (map token_size (pc_blocks p))
      in manifest_verify_digest m
         \<and> (if mf_status m = REFUSED then pc_blocks p = [] \<and> mf_included m = []
            else mf_refusal_reasons m = [] \<and> length (mf_included m) = length (pc_blocks p)
              \<and> list_all2 entry_describes (mf_included m) (pc_blocks p)
              \<and> used_bytes = mf_used_bytes m \<and> used_tokens = mf_used_tokens m
              \<and> used_bytes \<le> mf_byte_cap m \<and> used_tokens \<le> mf_token_cap m))"

section \<open>Blocks and entries\<close>

definition artifact_data :: "artifact \<Rightarrow> bytes" where
  "artifact_data a =
     encode_utf8 (canonical_json
       (JObj [(''artifact_id'', JStr (af_artifact_id a)), (''schema'', JStr (af_schema a)),
              (''schema_version'', JStr (af_schema_version a)), (''media_type'', JStr (af_media_type a)),
              (''producer'', JStr (af_producer a)), (''parents'', JArr (map JStr (af_parents a))),
              (''sensitivity'', JStr (sensitivity_value (af_sensitivity a))), (''created_at_ms'', JInt (af_created_at_ms a)),
              (''fresh_until_ms'', jopt JInt (af_fresh_until_ms a)), (''payload_sha256'', JStr (af_payload_sha256 a)),
              (''payload_encoding'', JStr ''base64''), (''payload'', JStr (b64encode (af_payload a)))]))"

definition claim_data :: "claim \<Rightarrow> bytes" where
  "claim_data c =
     encode_utf8 (canonical_json
       (JObj [(''claim_id'', JStr (cm_claim_id c)), (''statement'', JStr (cm_statement c)),
              (''status'', JStr (claim_status_value (cm_status c))),
              (''evidence_refs'', JArr (map JStr (cm_evidence_refs c))), (''contradicts'', JArr (map JStr (cm_contradicts c))),
              (''producer'', JStr (cm_producer c)), (''created_at_ms'', JInt (cm_created_at_ms c)),
              (''claim_digest'', JStr (cm_claim_digest c))]))"

definition artifact_block :: "artifact \<Rightarrow> context_block" where
  "artifact_block a = \<lparr>bk_source_kind = ARTIFACT, bk_source_ref = af_artifact_id a, bk_data = artifact_data a\<rparr>"

definition claim_block :: "claim \<Rightarrow> context_block" where
  "claim_block c = \<lparr>bk_source_kind = CLAIM, bk_source_ref = cm_claim_id c, bk_data = claim_data c\<rparr>"

definition block_entry :: "bool \<Rightarrow> bool \<Rightarrow> string \<Rightarrow> int \<Rightarrow> context_block \<Rightarrow> manifest_entry" where
  "block_entry mandatory included reason value_units b =
     \<lparr>me_source_kind = bk_source_kind b, me_source_ref = bk_source_ref b, me_mandatory = mandatory, me_included = included,
      me_reason = reason, me_block_id = Some (block_id b), me_block_digest = Some (block_digest b),
      me_byte_size = byte_size b, me_token_size = token_size b, me_value_units = value_units\<rparr>"

definition missing_entry :: "source_kind \<Rightarrow> bool \<Rightarrow> string \<Rightarrow> int \<Rightarrow> string \<Rightarrow> manifest_entry" where
  "missing_entry kind mandatory reason value_units ref =
     \<lparr>me_source_kind = kind, me_source_ref = ref, me_mandatory = mandatory, me_included = False, me_reason = reason,
      me_block_id = None, me_block_digest = None, me_byte_size = 0, me_token_size = 0, me_value_units = value_units\<rparr>"

section \<open>Obligations\<close>

text \<open>The loop over the optional artifacts; the last value of an identifier is the largest one.\<close>

fun option_values :: "optional_artifact list \<Rightarrow> (string, int) dict \<Rightarrow> py_error + (string, int) dict" where
  "option_values [] d = Inr d"
| "option_values (x # xs) d =
     (case validate_option x of
        Inl e \<Rightarrow> Inl e
      | Inr _ \<Rightarrow> option_values xs (dset (oa_artifact_id x) (max (oa_value_units x) (case dget d (oa_artifact_id x) of None \<Rightarrow> 0 | Some v \<Rightarrow> v)) d))"

text \<open>Why an artifact cannot be used; \<open>label\<close> is \<open>required\<close> or \<open>optional\<close>.\<close>

definition artifact_problem :: "string \<Rightarrow> evidence_set \<Rightarrow> string \<Rightarrow> int \<Rightarrow> string option" where
  "artifact_problem label e i as_of_ms =
     (case find_artifact e i of
        None \<Rightarrow> Some (label @ '' artifact is missing'')
      | Some a \<Rightarrow>
          if \<not> artifact_verify a then Some (label @ '' artifact failed integrity verification'')
          else if \<not> is_fresh a as_of_ms then Some (label @ '' artifact is stale or not yet valid'')
          else None)"

type_synonym block_key = "source_kind \<times> string"

record obliged =
  og_blocks :: "(block_key, context_block) dict"
  og_origins :: "(block_key, string list) dict"
  og_invalid :: "manifest_entry list"
  og_refusals :: "string list"

definition block_key_of :: "context_block \<Rightarrow> block_key" where
  "block_key_of b = (bk_source_kind b, bk_source_ref b)"

definition require_block :: "context_block \<Rightarrow> string \<Rightarrow> obliged \<Rightarrow> obliged" where
  "require_block b origin g =
     (let key = block_key_of b; seen = (case dget (og_origins g) key of None \<Rightarrow> [] | Some os \<Rightarrow> os)
      in g\<lparr>og_blocks := dset key b (og_blocks g), og_origins := dset key (List.insert origin seen) (og_origins g)\<rparr>)"

definition refuse_ref :: "source_kind \<Rightarrow> string \<Rightarrow> string \<Rightarrow> obliged \<Rightarrow> obliged" where
  "refuse_ref kind ref reason g =
     g\<lparr>og_invalid := og_invalid g @ [missing_entry kind True reason 0 ref],
       og_refusals := og_refusals g @ [source_value kind @ '' '' @ ref @ '': '' @ reason]\<rparr>"

definition require_artifact :: "evidence_set \<Rightarrow> int \<Rightarrow> obliged \<Rightarrow> string \<Rightarrow> obliged" where
  "require_artifact e as_of_ms g i =
     (case (artifact_problem ''required'' e i as_of_ms, find_artifact e i) of
        (None, Some a) \<Rightarrow> require_block (artifact_block a) ''required-artifact'' g
      | (Some reason, _) \<Rightarrow> refuse_ref ARTIFACT i reason g
      | (None, None) \<Rightarrow> g)"

fun require_evidence :: "evidence_set \<Rightarrow> string \<Rightarrow> string list \<Rightarrow> obliged \<Rightarrow> py_error + obliged" where
  "require_evidence e claim_id [] g = Inr g"
| "require_evidence e claim_id (r # rs) g =
     (case find_artifact e r of
        None \<Rightarrow> Inl (AssertionError '''')
      | Some a \<Rightarrow> require_evidence e claim_id rs (require_block (artifact_block a) (''evidence-for:'' @ claim_id) g))"

fun require_claims :: "evidence_set \<Rightarrow> int \<Rightarrow> string list \<Rightarrow> obliged \<Rightarrow> py_error + obliged" where
  "require_claims e as_of_ms [] g = Inr g"
| "require_claims e as_of_ms (i # is) g =
     (let assessment = assess_claim e i as_of_ms
      in if ca_status assessment \<noteq> SUPPORTED then
           require_claims e as_of_ms is (refuse_ref CLAIM i
             (''required claim is '' @ assessment_value (ca_status assessment) @ '': ''
              @ semicolon_join (ca_reasons assessment)) g)
         else case find_claim e i of
           None \<Rightarrow> Inl (AssertionError '''')
         | Some c \<Rightarrow>
             (case require_evidence e i (cm_evidence_refs c) (require_block (claim_block c) ''required-claim'' g) of
                Inl x \<Rightarrow> Inl x
              | Inr g' \<Rightarrow> require_claims e as_of_ms is g'))"

definition collect_obligations ::
  "evidence_set \<Rightarrow> context_obligations \<Rightarrow> int \<Rightarrow> py_error + obliged" where
  "collect_obligations e o' as_of_ms =
     require_claims e as_of_ms (co_claims o')
       (foldl (require_artifact e as_of_ms) \<lparr>og_blocks = [], og_origins = [], og_invalid = [], og_refusals = []\<rparr>
         (co_artifacts o'))"

definition sort_text :: "block_key \<Rightarrow> string \<times> string" where
  "sort_text k = (source_value (fst k), snd k)"

definition ordered_mandatory :: "obliged \<Rightarrow> context_block list" where
  "ordered_mandatory g = map snd (sort_key (\<lambda>(k, b). sort_text k) (og_blocks g))"

section \<open>Packing\<close>

definition sort_entries :: "manifest_entry list \<Rightarrow> manifest_entry list" where
  "sort_entries es = sort_key (\<lambda>e. (source_value (me_source_kind e), me_source_ref e, me_reason e)) es"

definition make_manifest ::
  "packing_status \<Rightarrow> context_budget \<Rightarrow> int \<Rightarrow> int \<Rightarrow> int \<Rightarrow> manifest_entry list \<Rightarrow> manifest_entry list \<Rightarrow> loss_report \<Rightarrow>
   string list \<Rightarrow> context_manifest" where
  "make_manifest status budget as_of_ms used_bytes used_tokens included excluded loss reasons =
     (let m = \<lparr>mf_status = status, mf_as_of_ms = as_of_ms, mf_byte_cap = cb_max_bytes budget, mf_token_cap = cb_max_tokens budget,
               mf_used_bytes = used_bytes, mf_used_tokens = used_tokens, mf_included = included, mf_excluded = excluded,
               mf_loss_report = loss, mf_refusal_reasons = reasons,
               mf_schema_version = ''agent-physics-context-manifest/v1'', mf_token_estimator = ''utf8-byte-upper-bound/v1'',
               mf_manifest_digest = []\<rparr>
      in m\<lparr>mf_manifest_digest := content_digest (manifest_payload m)\<rparr>)"

definition optional_count :: "manifest_entry list \<Rightarrow> int" where
  "optional_count es = int (length (filter (\<lambda>e. \<not> me_mandatory e) es))"

definition refused_context ::
  "context_budget \<Rightarrow> int \<Rightarrow> manifest_entry list \<Rightarrow> string list \<Rightarrow> int \<Rightarrow> context_obligations \<Rightarrow> packed_context" where
  "refused_context budget as_of_ms excluded reasons total_value o' =
     (let ordered = sort_entries excluded;
          loss = \<lparr>lr_total = total_value, lr_included = 0, lr_lost = total_value, lr_excluded_count = optional_count ordered,
                  lr_unsatisfied = sorted_set (map (\<lambda>r. ''artifact:'' @ r) (co_artifacts o') @ map (\<lambda>r. ''claim:'' @ r) (co_claims o'))\<rparr>
      in \<lparr>pc_blocks = [],
          pc_manifest = make_manifest REFUSED budget as_of_ms 0 0 [] ordered loss (sorted_set reasons)\<rparr>)"

definition unevaluated :: "(string, int) dict \<Rightarrow> manifest_entry list" where
  "unevaluated options =
     map (\<lambda>(ref, v). missing_entry ARTIFACT False ''optional selection not evaluated after refusal'' v ref) (sort options)"

text \<open>The optional artifacts that can be chosen, with their values, and the entries of the others.\<close>

definition optional_candidates :: "evidence_set \<Rightarrow> int \<Rightarrow> string list \<Rightarrow> (string, int) dict \<Rightarrow> (int \<times> context_block) list" where
  "optional_candidates e as_of_ms mandatory_refs options =
     concat (map (\<lambda>(ref, v).
       if ref \<in> set mandatory_refs then []
       else case (artifact_problem ''optional'' e ref as_of_ms, find_artifact e ref) of
         (None, Some a) \<Rightarrow> [(v, artifact_block a)] | _ \<Rightarrow> []) (sort options))"

definition optional_rejected :: "evidence_set \<Rightarrow> int \<Rightarrow> string list \<Rightarrow> (string, int) dict \<Rightarrow> manifest_entry list" where
  "optional_rejected e as_of_ms mandatory_refs options =
     concat (map (\<lambda>(ref, v).
       if ref \<in> set mandatory_refs then
         [missing_entry ARTIFACT False ''optional artifact already included as mandatory'' v ref]
       else case artifact_problem ''optional'' e ref as_of_ms of
         None \<Rightarrow> [] | Some reason \<Rightarrow> [missing_entry ARTIFACT False reason v ref]) (sort options))"

definition value_density :: "int \<Rightarrow> context_block \<Rightarrow> rat" where
  "value_density v b = of_int v / of_int (max 1 (byte_size b + 4 * token_size b))"

definition candidate_key :: "int \<times> context_block \<Rightarrow> rat \<times> int \<times> int \<times> int \<times> string" where
  "candidate_key = (\<lambda>(v, b). (- value_density v b, - v, byte_size b, token_size b, bk_source_ref b))"

record filling =
  fl_blocks :: "context_block list"
  fl_included :: "manifest_entry list"
  fl_excluded :: "manifest_entry list"
  fl_used_bytes :: int
  fl_used_tokens :: int
  fl_value :: int

definition fill_one :: "context_budget \<Rightarrow> filling \<Rightarrow> int \<times> context_block \<Rightarrow> filling" where
  "fill_one budget s x =
     (let (v, b) = x
      in if fl_used_bytes s + byte_size b \<le> cb_max_bytes budget \<and> fl_used_tokens s + token_size b \<le> cb_max_tokens budget then
           s\<lparr>fl_blocks := fl_blocks s @ [b],
             fl_included := fl_included s @ [block_entry False True ''selected by deterministic optional value density'' v b],
             fl_used_bytes := fl_used_bytes s + byte_size b, fl_used_tokens := fl_used_tokens s + token_size b,
             fl_value := fl_value s + v\<rparr>
         else
           s\<lparr>fl_excluded := fl_excluded s
             @ [block_entry False False ''optional artifact does not fit remaining byte or token cap'' v b]\<rparr>)"

definition mandatory_entry :: "obliged \<Rightarrow> context_block \<Rightarrow> manifest_entry" where
  "mandatory_entry g b =
     block_entry True True
       (''mandatory obligation: '' @ comma_join (sort (case dget (og_origins g) (block_key_of b) of None \<Rightarrow> [] | Some os \<Rightarrow> os))) 0 b"

definition start_filling :: "obliged \<Rightarrow> manifest_entry list \<Rightarrow> filling" where
  "start_filling g rejected =
     (let blocks = ordered_mandatory g
      in \<lparr>fl_blocks = blocks, fl_included = map (mandatory_entry g) blocks, fl_excluded = rejected,
          fl_used_bytes = sum_list (map byte_size blocks), fl_used_tokens = sum_list (map token_size blocks), fl_value = 0\<rparr>)"

definition fill_optional :: "evidence_set \<Rightarrow> context_budget \<Rightarrow> int \<Rightarrow> obliged \<Rightarrow> (string, int) dict \<Rightarrow> filling" where
  "fill_optional e budget as_of_ms g options =
     (let refs = map bk_source_ref (filter (\<lambda>b. bk_source_kind b = ARTIFACT) (ordered_mandatory g))
      in foldl (fill_one budget) (start_filling g (optional_rejected e as_of_ms refs options))
           (sort_key candidate_key (optional_candidates e as_of_ms refs options)))"

definition packed_of :: "context_budget \<Rightarrow> int \<Rightarrow> int \<Rightarrow> filling \<Rightarrow> packed_context" where
  "packed_of budget as_of_ms total_value s =
     (let excluded = sort_entries (fl_excluded s);
          loss = \<lparr>lr_total = total_value, lr_included = fl_value s, lr_lost = total_value - fl_value s,
                  lr_excluded_count = optional_count excluded, lr_unsatisfied = []\<rparr>
      in \<lparr>pc_blocks = fl_blocks s,
          pc_manifest = make_manifest PACKED budget as_of_ms (fl_used_bytes s) (fl_used_tokens s) (fl_included s) excluded loss []\<rparr>)"

definition cap_reason :: "int \<Rightarrow> int \<Rightarrow> context_budget \<Rightarrow> string" where
  "cap_reason used_bytes used_tokens budget =
     ''mandatory context exceeds cap: requires '' @ int_string used_bytes @ '' bytes/'' @ int_string used_tokens
     @ '' tokens, cap is '' @ int_string (cb_max_bytes budget) @ '' bytes/'' @ int_string (cb_max_tokens budget) @ '' tokens''"

text \<open>\<open>pack\<close> once the arguments are validated.\<close>

definition pack_obliged ::
  "evidence_set \<Rightarrow> context_obligations \<Rightarrow> context_budget \<Rightarrow> int \<Rightarrow> (string, int) dict \<Rightarrow> obliged \<Rightarrow> py_error + packed_context" where
  "pack_obliged e o' budget as_of_ms options g =
     (let blocks = ordered_mandatory g; total_value = sum_list (map snd options);
          needed_bytes = sum_list (map byte_size blocks); needed_tokens = sum_list (map token_size blocks)
      in if og_refusals g \<noteq> [] then
           Inr (refused_context budget as_of_ms
             (og_invalid g
              @ map (block_entry True False ''context refused because another mandatory obligation failed'' 0) blocks
              @ unevaluated options)
             (og_refusals g) total_value o')
         else if needed_bytes > cb_max_bytes budget \<or> needed_tokens > cb_max_tokens budget then
           Inr (refused_context budget as_of_ms
             (map (block_entry True False ''required context exceeds byte or token cap'' 0) blocks @ unevaluated options)
             [cap_reason needed_bytes needed_tokens budget] total_value o')
         else
           let result = packed_of budget as_of_ms total_value (fill_optional e budget as_of_ms g options)
           in if \<not> packed_verify result then Inl (AssertionError ''internal context accounting invariant failed'')
              else Inr result)"

definition pack ::
  "evidence_set \<Rightarrow> context_obligations \<Rightarrow> context_budget \<Rightarrow> int \<Rightarrow> optional_artifact list \<Rightarrow> py_error + packed_context" where
  "pack e obligations budget as_of_ms optional_artifacts =
     (case validate_budget budget of
        Inl x \<Rightarrow> Inl x
      | Inr _ \<Rightarrow>
          if as_of_ms < 0 then Inl (ValueError ''as_of_ms cannot be negative'')
          else
            (let o' = normalized obligations
             in case option_values optional_artifacts [] of
               Inl x \<Rightarrow> Inl x
             | Inr options \<Rightarrow>
                 (case collect_obligations e o' as_of_ms of
                    Inl x \<Rightarrow> Inl x
                  | Inr g \<Rightarrow> pack_obliged e o' budget as_of_ms options g)))"

end
