(* ===== verification/Context_Wire.thy ===== *)
theory Context_Wire
  imports Context_Pack
begin

text \<open>
  The wire format of a packed context: base64 is undone by its decoder, a block is one line of printable ASCII, and
  the reader \<open>read_block\<close> gets back the block from it. So no source can add a block, a field or a role.
\<close>

section \<open>Base64\<close>

definition b64_value :: "char \<Rightarrow> nat option" where
  "b64_value c = map_of (zip b64_alphabet [0..<64]) c"

definition from_bits :: "nat \<Rightarrow> 8 word" where
  "from_bits n = of_nat (n mod 256)"

fun b64decode :: "string \<Rightarrow> bytes option" where
  "b64decode [] = Some []"
| "b64decode (w # x # y # z # cs) =
     (case (b64_value w, b64_value x, b64_value y, b64_value z) of
        (Some a, Some b, Some c, Some d) \<Rightarrow>
          let n = ((a * 64 + b) * 64 + c) * 64 + d
          in map_option ((@) [from_bits (n div 65536), from_bits (n div 256), from_bits n]) (b64decode cs)
      | (Some a, Some b, Some c, None) \<Rightarrow>
          let n = ((a * 64 + b) * 64 + c) div 4
          in if z = CHR ''='' \<and> cs = [] then Some [from_bits (n div 256), from_bits n] else None
      | (Some a, Some b, None, None) \<Rightarrow>
          if y = CHR ''='' \<and> z = CHR ''='' \<and> cs = [] then Some [from_bits ((a * 64 + b) div 16)] else None
      | _ \<Rightarrow> None)"
| "b64decode cs = None"

lemma b64_value_char [simp]: "b64_value (b64_char n) = Some (n mod 64)"
proof -
  have "list_all (\<lambda>n. b64_value (b64_alphabet ! n) = Some n) [0..<64]" by code_simp
  then show ?thesis by (simp add: list_all_iff b64_char_def)
qed

lemma b64_value_pad [simp]: "b64_value (CHR ''='') = None"
  by code_simp

lemma unat_byte: "unat (a :: 8 word) < 256"
proof -
  have "unat a < 2 ^ LENGTH(8)" by (rule unsigned_less)
  then show ?thesis by simp
qed

lemma from_bits_unat [simp]: "from_bits (unat a) = a"
  using unat_byte [of a] by (simp add: from_bits_def)

lemma from_bits_low [simp]: "from_bits (k * 256 + n) = from_bits n" "from_bits (256 * k + n) = from_bits n"
  by (simp_all add: from_bits_def)

lemma sextet: "n div (64 * k) * 64 + n div k mod 64 = n div k" for n :: nat
proof -
  have "n div (64 * k) = n div k div 64" by (metis div_mult2_eq mult.commute)
  then show ?thesis by (metis div_mult_mod_eq)
qed

lemma sextets:
  fixes n :: nat
  shows "n < 4096 \<Longrightarrow> n div 64 mod 64 * 64 + n mod 64 = n"
    and "n < 262144 \<Longrightarrow> (n div 4096 mod 64 * 64 + n div 64 mod 64) * 64 + n mod 64 = n"
    and "n < 16777216 \<Longrightarrow> ((n div 262144 mod 64 * 64 + n div 4096 mod 64) * 64 + n div 64 mod 64) * 64 + n mod 64 = n"
proof -
  have low: "n div 4096 * 64 + n div 64 mod 64 = n div 64" "n div 64 * 64 + n mod 64 = n" "n div 262144 * 64 + n div 4096 mod 64 = n div 4096"
    using sextet [of n 64] sextet [of n 1] sextet [of n 4096] by simp_all
  have top: "k < 64 \<Longrightarrow> k mod 64 = k" for k :: nat by simp
  show "n < 4096 \<Longrightarrow> n div 64 mod 64 * 64 + n mod 64 = n" using low(2) by (simp add: top less_mult_imp_div_less)
  show "n < 262144 \<Longrightarrow> (n div 4096 mod 64 * 64 + n div 64 mod 64) * 64 + n mod 64 = n"
    using low(1,2) by (simp add: top less_mult_imp_div_less)
  show "n < 16777216 \<Longrightarrow> ((n div 262144 mod 64 * 64 + n div 4096 mod 64) * 64 + n div 64 mod 64) * 64 + n mod 64 = n"
    using low by (simp add: top less_mult_imp_div_less)
qed

text \<open>The groups of the encoder, for the number they stand for.\<close>

lemma b64_groups:
  fixes n :: nat
  shows "n < 4096 \<Longrightarrow> b64decode [b64_char (n div 64), b64_char n, CHR ''='', CHR ''=''] = Some [from_bits (n div 16)]"
    and "n < 262144 \<Longrightarrow> b64decode [b64_char (n div 4096), b64_char (n div 64), b64_char n, CHR ''='']
      = Some [from_bits (n div 4 div 256), from_bits (n div 4)]"
    and "n < 16777216 \<Longrightarrow> b64decode ([b64_char (n div 262144), b64_char (n div 4096), b64_char (n div 64), b64_char n] @ cs)
      = map_option ((@) [from_bits (n div 65536), from_bits (n div 256), from_bits n]) (b64decode cs)"
  by (simp_all only: b64decode.simps b64_value_char b64_value_pad prod.case option.case Let_def sextets append.simps
      simp_thms if_True div_mult2_eq [of n 4 256, symmetric])

lemma b64_roundtrip: "b64decode (b64encode bs) = Some bs"
proof (induction bs rule: b64encode.induct)
  case (2 a)
  have n: "unat a * 16 < 4096" using unat_byte [of a] by simp
  have "unat a * 16 div 16 = unat a" by simp
  then show ?case unfolding b64encode.simps Let_def b64_groups(1) [OF n] by simp
next
  case (3 a b)
  have n: "(unat a * 256 + unat b) * 4 < 262144" using unat_byte [of a] unat_byte [of b] by simp
  have "(unat a * 256 + unat b) * 4 div 4 = unat a * 256 + unat b" "(unat a * 256 + unat b) div 256 = unat a"
    using unat_byte [of b] by simp_all
  then show ?case unfolding b64encode.simps Let_def b64_groups(2) [OF n] by simp
next
  case (4 a b c bs)
  have n: "(unat a * 256 + unat b) * 256 + unat c < 16777216"
    using unat_byte [of a] unat_byte [of b] unat_byte [of c] by simp
  have "((unat a * 256 + unat b) * 256 + unat c) div 65536 = unat a"
    "((unat a * 256 + unat b) * 256 + unat c) div 256 = unat a * 256 + unat b"
    using unat_byte [of b] unat_byte [of c] by simp_all
  then show ?case
    unfolding b64encode.simps Let_def b64_groups(3) [OF n] "4.IH" [OF refl] by (simp only: from_bits_low from_bits_unat) simp
qed simp

section \<open>Printable text\<close>

definition printable :: "char \<Rightarrow> bool" where
  "printable c \<longleftrightarrow> 32 \<le> (of_char c :: nat) \<and> (of_char c :: nat) < 127"

lemma printable_all: "list_all printable ''{}[],:-truefalsnu0123456789abcdef''"
  by (simp add: printable_def)

lemma printable_hex [simp]: "n < 16 \<Longrightarrow> printable (hex_char n)"
  by (auto simp: hex_char_def printable_def)

lemma printable_escape: "list_all printable (json_escape True c)"
proof -
  have "list_all printable [CHR 0x5C, CHR 0x22, CHR ''n'', CHR ''r'', CHR ''t'', CHR ''f'', CHR ''b'', CHR ''u'']"
    by (simp add: printable_def)
  moreover have "list_all printable (hex4 n)" for n by (simp add: hex4_def)
  moreover have "printable c" if "\<not> (of_char c :: nat) < 32" "\<not> 126 < (of_char c :: nat)"
    using that by (simp add: printable_def)
  ultimately show ?thesis by (simp add: json_escape_def Let_def)
qed

lemma printable_string: "list_all printable (json_string True s)"
proof -
  have "printable (CHR 0x22)" by (simp add: printable_def)
  moreover have "list_all printable (concat (map (json_escape True) s))" using printable_escape by (induction s) simp_all
  ultimately show ?thesis by (simp add: json_string_def)
qed

lemma printable_digit [simp]: "digit c \<Longrightarrow> printable c"
  using printable_all by (auto simp: digit_def)

lemma printable_int: "list_all printable (int_string i)"
proof -
  have "printable (CHR ''-'')" using printable_all by simp
  moreover have "list_all printable (dec_string n)" for n
    using dec_string_digits [of n] by (auto simp: list_all_iff)
  ultimately show ?thesis by (simp add: int_string_def)
qed

lemma printable_join: "list_all (list_all printable) xs \<Longrightarrow> list_all printable (comma_join xs)"
proof (induction xs rule: comma_join.induct)
  case (3 x y ys)
  moreover have "printable (CHR '','')" using printable_all by simp
  ultimately show ?case by simp
qed simp_all

lemma printable_dumps: "json_plain v \<Longrightarrow> list_all printable (json_dumps True v)"
proof (induction v rule: normalize.induct)
  case (1 xs)
  then have "list_all (list_all printable) (map (json_dumps True) xs)" by (auto simp: list_all_iff)
  with printable_join [OF this] printable_all show ?case by simp
next
  case (2 kvs)
  let ?f = "map (\<lambda>(k, s). json_string True k @ '':'' @ s) (sort_key fst (map (\<lambda>(k, v). (k, json_dumps True v)) kvs))"
  have "list_all printable (json_dumps True v)" if "(k, v) \<in> set kvs" for k v using 2 that by force
  then have "list_all (list_all printable) ?f"
    using printable_string printable_all by (fastforce simp: list_all_iff)
  with printable_join [OF this] printable_all show ?case by simp
qed (use printable_all printable_int printable_string in auto)

section \<open>Lines\<close>

definition decode_text :: "bytes \<Rightarrow> string" where
  "decode_text bs = map (char_of \<circ> unat) bs"

lemma ascii_utf8: "list_all printable s \<Longrightarrow> utf8 s = map of_char s"
  by (induction s) (auto simp: utf8_def utf8_char_def printable_def Let_def)

lemma encode_printable:
  assumes "list_all printable s"
  shows "decode_text (encode_utf8 s) = s" and "10 \<notin> set (encode_utf8 s)"
proof -
  have e: "encode_utf8 s = map (\<lambda>c. of_nat (of_char c)) s"
    by (simp add: encode_utf8_def ascii_utf8 [OF assms] o_def)
  have u: "unat (of_nat (of_char c) :: 8 word) = of_char c" for c
    using of_char_bound [of c] by (simp add: unat_of_nat)
  show "decode_text (encode_utf8 s) = s" by (simp add: e decode_text_def o_def u)
  have "(10 :: 8 word) \<noteq> of_nat (of_char c)" if "printable c" for c
    using that u [of c] by (auto simp: printable_def)
  then show "10 \<notin> set (encode_utf8 s)" using assms by (auto simp: e list_all_iff)
qed

text \<open>\<open>data.split(b"\n")\<close>, with no line for no data.\<close>

fun split_lines :: "bytes \<Rightarrow> bytes list" where
  "split_lines [] = []"
| "split_lines (b # bs) =
     (if b = 10 then [] # split_lines bs
      else case split_lines bs of [] \<Rightarrow> [[b]] | l # ls \<Rightarrow> (b # l) # ls)"

lemma split_one: "l \<noteq> [] \<Longrightarrow> 10 \<notin> set l \<Longrightarrow> split_lines l = [l]"
proof (induction l)
  case (Cons b l)
  then show ?case by (cases l) auto
qed simp

lemma split_more: "10 \<notin> set l \<Longrightarrow> split_lines (l @ 10 # bs) = l # split_lines bs"
  by (induction l) auto

lemma split_join: "\<forall>l \<in> set ls. l \<noteq> [] \<and> 10 \<notin> set l \<Longrightarrow> split_lines (newline_join ls) = ls"
  by (induction ls rule: newline_join.induct) (simp_all add: split_one split_more)

section \<open>Blocks\<close>

fun source_of :: "string \<Rightarrow> source_kind option" where
  "source_of s = (if s = ''artifact'' then Some ARTIFACT else if s = ''claim'' then Some CLAIM else None)"

text \<open>A reader of blocks: the object must have exactly the members of an envelope, without authority.\<close>

definition read_block :: "bytes \<Rightarrow> context_block option" where
  "read_block line =
     (case json_loads (decode_text line) of
        Some (JObj [(a, JStr ''none''), (cs, JStr ''data-only''), (dt, JStr d), (en, JStr ''base64''), (ins, JBool False),
                    (sv, JStr v), (sk, JStr k), (sr, JStr r)]) \<Rightarrow>
          if [a, cs, dt, en, ins, sv, sk, sr]
               = [''authority'', ''content_semantics'', ''data'', ''data_encoding'', ''instruction_semantics'',
                  ''schema_version'', ''source_kind'', ''source_ref'']
             \<and> v = ''agent-physics-context/v1''
          then (case (source_of k, b64decode d) of
                  (Some kind, Some bs) \<Rightarrow> Some \<lparr>bk_source_kind = kind, bk_source_ref = r, bk_data = bs\<rparr>
                | _ \<Rightarrow> None)
          else None
      | _ \<Rightarrow> None)"

lemma envelope_plain: "json_plain (block_envelope b)"
  by (simp add: block_envelope_def)

lemma block_line: "printable (hd (canonical_json (block_envelope b))) \<and> list_all printable (canonical_json (block_envelope b))"
proof -
  have "list_all printable (canonical_json (block_envelope b))"
    using printable_dumps [OF envelope_plain] by (simp add: canonical_json_eq)
  moreover have "canonical_json (block_envelope b) \<noteq> []" by (simp add: canonical_json_eq block_envelope_def)
  ultimately show ?thesis by (cases "canonical_json (block_envelope b)") auto
qed

lemma block_wire_line: "block_wire b \<noteq> [] \<and> 10 \<notin> set (block_wire b)"
proof -
  have "canonical_json (block_envelope b) \<noteq> []" by (simp add: canonical_json_eq block_envelope_def)
  moreover have "utf8 s = [] \<longleftrightarrow> s = []" for s by (cases s) (auto simp: utf8_def utf8_char_def Let_def)
  ultimately show ?thesis using encode_printable(2) block_line [of b] by (simp add: block_wire_def encode_utf8_def)
qed

lemma normal_envelope: "normalize (block_envelope b) =
  JObj [(''authority'', JStr ''none''), (''content_semantics'', JStr ''data-only''), (''data'', JStr (b64encode (bk_data b))),
        (''data_encoding'', JStr ''base64''), (''instruction_semantics'', JBool False),
        (''schema_version'', JStr ''agent-physics-context/v1''), (''source_kind'', JStr (source_value (bk_source_kind b))),
        (''source_ref'', JStr (bk_source_ref b))]"
  by (simp add: block_envelope_def)

lemma source_of_value [simp]: "source_of (source_value k) = Some k"
  by (cases k) simp_all

lemma read_block_wire: "read_block (block_wire b) = Some b"
proof -
  have "json_loads (decode_text (block_wire b)) = Some (normalize (block_envelope b))"
    using json_roundtrip [OF envelope_plain, of True b] encode_printable(1) block_line [of b]
    by (simp add: block_wire_def canonical_json_eq)
  then show ?thesis by (simp add: read_block_def normal_envelope b64_roundtrip del: source_of.simps)
qed

lemma packed_wire_reads: "map read_block (split_lines (packed_wire p)) = map Some (pc_blocks p)"
proof -
  have "split_lines (packed_wire p) = map block_wire (pc_blocks p)"
    unfolding packed_wire_def by (rule split_join) (auto simp: block_wire_line)
  then show ?thesis by (simp add: read_block_wire)
qed

end
