(* ===== verification/Context_Laws.thy ===== *)
theory Context_Laws
  imports Context_Wire
begin

text \<open>
  Laws of the packer. The obligations determine a set of keys, each with one block of the evidence; the loops of \<open>pack\<close>
  collect exactly these blocks or a reason to refuse. The greedy loop over the optional artifacts keeps the
  accounts and the caps.
\<close>

section \<open>Obligations\<close>

lemma artifact_problem_None: "artifact_problem label e i t = None \<longleftrightarrow> usable_artifact e i t"
  by (auto simp: artifact_problem_def usable_artifact_def split: option.splits)

text \<open>The block a key stands for.\<close>

fun block_at :: "evidence_set \<Rightarrow> block_key \<Rightarrow> context_block option" where
  "block_at e (ARTIFACT, i) = map_option artifact_block (find_artifact e i)"
| "block_at e (CLAIM, i) = map_option claim_block (find_claim e i)"

lemma block_at_key: "block_at e k = Some b \<Longrightarrow> block_key_of b = k"
  by (cases "(e, k)" rule: block_at.cases)
    (auto simp: block_key_of_def artifact_block_def claim_block_def dest: find_artifact_Some find_claim_Some)

text \<open>The keys an obligation needs when it is met.\<close>

definition artifact_keys :: "evidence_set \<Rightarrow> int \<Rightarrow> string list \<Rightarrow> block_key set" where
  "artifact_keys e t ids = {(ARTIFACT, i) | i. i \<in> set ids \<and> usable_artifact e i t}"

definition claim_keys :: "evidence_set \<Rightarrow> int \<Rightarrow> string list \<Rightarrow> block_key set" where
  "claim_keys e t ids =
     {k. \<exists>i \<in> set ids. ca_status (assess_claim e i t) = SUPPORTED
        \<and> (k = (CLAIM, i) \<or> (\<exists>c r. find_claim e i = Some c \<and> r \<in> set (cm_evidence_refs c) \<and> k = (ARTIFACT, r)))}"

definition obligation_keys :: "evidence_set \<Rightarrow> context_obligations \<Rightarrow> int \<Rightarrow> block_key set" where
  "obligation_keys e o' t = artifact_keys e t (co_artifacts o') \<union> claim_keys e t (co_claims o')"

definition obligations_met :: "evidence_set \<Rightarrow> context_obligations \<Rightarrow> int \<Rightarrow> bool" where
  "obligations_met e o' t \<longleftrightarrow>
     (\<forall>i \<in> set (co_artifacts o'). usable_artifact e i t)
     \<and> (\<forall>i \<in> set (co_claims o'). ca_status (assess_claim e i t) = SUPPORTED)"

lemma assessed_supported:
  "ca_status (assess_claim e i t) = SUPPORTED \<longleftrightarrow>
     (\<exists>c. find_claim e i = Some c \<and> claim_backed e c t
        \<and> \<not> (\<exists>d \<in> set (ed_claims e). cm_claim_id d \<noteq> i \<and> explicitly_conflicts c d \<and> claim_backed e d t))"
proof (cases "find_claim e i")
  case (Some c)
  then have "cm_claim_id c = i" by (simp add: find_claim_Some)
  with Some show ?thesis
    by (auto simp: assess_claim_def Let_def base_supported conflicting_def filter_empty_conv)
qed (simp add: assess_claim_def)

lemma supported_evidence:
  assumes "ca_status (assess_claim e i t) = SUPPORTED"
  obtains c where "find_claim e i = Some c" and "\<forall>r \<in> set (cm_evidence_refs c). usable_artifact e r t"
  using assms unfolding assessed_supported by (auto simp: claim_backed_def)

text \<open>The state of the loops: the blocks are those of the keys collected so far.\<close>

definition collects :: "evidence_set \<Rightarrow> block_key set \<Rightarrow> obliged \<Rightarrow> bool" where
  "collects e K g \<longleftrightarrow>
     dict_ok (og_blocks g) \<and> K \<subseteq> dom (block_at e)
     \<and> (\<forall>k. dget (og_blocks g) k = (if k \<in> K then block_at e k else None))"

lemma collects_require:
  assumes "collects e K g" and "block_at e k = Some b"
  shows "collects e (insert k K) (require_block b origin g)"
  using assms block_at_key [OF assms(2)]
  by (auto simp: collects_def require_block_def Let_def dict_simps)

lemma collects_refuse [simp]: "collects e K (refuse_ref kind ref reason g) = collects e K g"
  by (simp add: collects_def refuse_ref_def)

lemma refusals_require [simp]: "og_refusals (require_block b origin g) = og_refusals g"
  "og_invalid (require_block b origin g) = og_invalid g"
  by (simp_all add: require_block_def Let_def)

lemma refusals_refuse [simp]: "og_refusals (refuse_ref kind ref reason g) \<noteq> []"
  by (simp add: refuse_ref_def)

lemma require_artifact_collects:
  assumes "collects e K g"
  shows "collects e (K \<union> artifact_keys e t [i]) (require_artifact e t g i)"
    and "og_refusals (require_artifact e t g i) = [] \<longleftrightarrow> og_refusals g = [] \<and> usable_artifact e i t"
proof -
  show "collects e (K \<union> artifact_keys e t [i]) (require_artifact e t g i)"
  proof (cases "usable_artifact e i t")
    case True
    then obtain a where a: "find_artifact e i = Some a" by (auto simp: usable_artifact_def)
    with True have "artifact_problem ''required'' e i t = None" by (simp add: artifact_problem_None)
    moreover have "artifact_keys e t [i] = {(ARTIFACT, i)}" using True by (auto simp: artifact_keys_def)
    ultimately show ?thesis
      using collects_require [OF assms, of "(ARTIFACT, i)" "artifact_block a" "''required-artifact''"] a by (simp add: require_artifact_def)
  next
    case False
    then obtain r where "artifact_problem ''required'' e i t = Some r"
      using artifact_problem_None [of "''required''" e i t] by (cases "artifact_problem ''required'' e i t") auto
    moreover have "artifact_keys e t [i] = {}" using False by (auto simp: artifact_keys_def)
    ultimately show ?thesis using assms by (simp add: require_artifact_def)
  qed
  show "og_refusals (require_artifact e t g i) = [] \<longleftrightarrow> og_refusals g = [] \<and> usable_artifact e i t"
    using artifact_problem_None [of "''required''" e i t]
    by (auto simp: require_artifact_def usable_artifact_def split: option.split)
qed

lemma require_artifacts_collects:
  "collects e K g \<Longrightarrow> collects e (K \<union> artifact_keys e t ids) (foldl (require_artifact e t) g ids)
     \<and> (og_refusals (foldl (require_artifact e t) g ids) = [] \<longleftrightarrow>
          og_refusals g = [] \<and> (\<forall>i \<in> set ids. usable_artifact e i t))"
proof (induction ids arbitrary: K g)
  case Nil
  then show ?case by (simp add: artifact_keys_def)
next
  case (Cons i ids)
  note step = require_artifact_collects [OF Cons.prems, of t i]
  have "K \<union> artifact_keys e t [i] \<union> artifact_keys e t ids = K \<union> artifact_keys e t (i # ids)"
    by (auto simp: artifact_keys_def)
  with Cons.IH [OF step(1)] step(2) show ?case by simp
qed

lemma require_evidence_collects:
  "collects e K g \<Longrightarrow> \<forall>r \<in> set rs. usable_artifact e r t \<Longrightarrow>
     \<exists>g'. require_evidence e i rs g = Inr g' \<and> collects e (K \<union> Pair ARTIFACT ` set rs) g' \<and> og_refusals g' = og_refusals g"
proof (induction rs arbitrary: K g)
  case (Cons r rs)
  then obtain a where a: "find_artifact e r = Some a" by (auto simp: usable_artifact_def)
  then have "collects e (insert (ARTIFACT, r) K) (require_block (artifact_block a) (''evidence-for:'' @ i) g)"
    by (intro collects_require Cons.prems) simp
  from Cons.IH [OF this] Cons.prems(2) a show ?case by auto
qed simp

lemma require_claims_collects:
  "collects e K g \<Longrightarrow>
     \<exists>g'. require_claims e t ids g = Inr g' \<and> collects e (K \<union> claim_keys e t ids) g'
       \<and> (og_refusals g' = [] \<longleftrightarrow> og_refusals g = [] \<and> (\<forall>i \<in> set ids. ca_status (assess_claim e i t) = SUPPORTED))"
proof (induction ids arbitrary: K g)
  case Nil
  then show ?case by (simp add: claim_keys_def)
next
  case (Cons i ids)
  show ?case
  proof (cases "ca_status (assess_claim e i t) = SUPPORTED")
    case False
    let ?g = "refuse_ref CLAIM i (''required claim is '' @ assessment_value (ca_status (assess_claim e i t)) @ '': ''
              @ semicolon_join (ca_reasons (assess_claim e i t))) g"
    have "collects e K ?g" using Cons.prems by simp
    from Cons.IH [OF this] obtain g' where "require_claims e t ids ?g = Inr g'" "collects e (K \<union> claim_keys e t ids) g'"
      "og_refusals g' \<noteq> []" by auto
    moreover have "claim_keys e t (i # ids) = claim_keys e t ids" using False by (auto simp: claim_keys_def)
    ultimately show ?thesis using False by (simp add: Let_def)
  next
    case True
    then obtain c where c: "find_claim e i = Some c" "\<forall>r \<in> set (cm_evidence_refs c). usable_artifact e r t"
      by (rule supported_evidence)
    have "collects e (insert (CLAIM, i) K) (require_block (claim_block c) ''required-claim'' g)"
      by (rule collects_require [OF Cons.prems]) (simp add: c)
    from require_evidence_collects [OF this c(2), of i] obtain g' where
      g': "require_evidence e i (cm_evidence_refs c) (require_block (claim_block c) ''required-claim'' g) = Inr g'"
        "collects e (insert (CLAIM, i) K \<union> Pair ARTIFACT ` set (cm_evidence_refs c)) g'" "og_refusals g' = og_refusals g" by auto
    have "insert (CLAIM, i) K \<union> Pair ARTIFACT ` set (cm_evidence_refs c) \<union> claim_keys e t ids = K \<union> claim_keys e t (i # ids)"
      using True c(1) by (auto simp: claim_keys_def)
    with Cons.IH [OF g'(2)] g'(1,3) True c(1) show ?thesis by (simp add: Let_def)
  qed
qed

lemma obligations_collected:
  "\<exists>g. collect_obligations e o' t = Inr g \<and> collects e (obligation_keys e o' t) g
     \<and> (og_refusals g = [] \<longleftrightarrow> obligations_met e o' t)"
proof -
  let ?z = "\<lparr>og_blocks = [], og_origins = [], og_invalid = [], og_refusals = []\<rparr>"
  have "collects e {} ?z" by (simp add: collects_def)
  from require_artifacts_collects [OF this, of t "co_artifacts o'"]
  have a: "collects e (artifact_keys e t (co_artifacts o')) (foldl (require_artifact e t) ?z (co_artifacts o'))"
    "og_refusals (foldl (require_artifact e t) ?z (co_artifacts o')) = [] \<longleftrightarrow> (\<forall>i \<in> set (co_artifacts o'). usable_artifact e i t)"
    by simp_all
  from require_claims_collects [OF a(1), of t "co_claims o'"] a(2) show ?thesis
    by (auto simp: collect_obligations_def obligation_keys_def obligations_met_def)
qed

section \<open>The mandatory blocks\<close>

definition obligation_blocks :: "evidence_set \<Rightarrow> context_obligations \<Rightarrow> int \<Rightarrow> context_block set" where
  "obligation_blocks e o' t = {b. \<exists>k \<in> obligation_keys e o' t. block_at e k = Some b}"

lemma ordered_mandatory_collects:
  assumes "collects e K g"
  shows "set (ordered_mandatory g) = {b. \<exists>k \<in> K. block_at e k = Some b}"
    and "distinct (map block_key_of (ordered_mandatory g))"
proof -
  have d: "dict_ok (og_blocks g)" and get: "\<And>k. dget (og_blocks g) k = (if k \<in> K then block_at e k else None)"
    using assms unfolding collects_def by blast+
  have mem: "(k, b) \<in> set (og_blocks g) \<longleftrightarrow> k \<in> K \<and> block_at e k = Some b" for k b
    using d get [of k] by (auto simp: dict_ok_def dest: map_of_is_SomeI map_of_SomeD split: if_splits)
  then show "set (ordered_mandatory g) = {b. \<exists>k \<in> K. block_at e k = Some b}"
    by (force simp: ordered_mandatory_def)
  have "map block_key_of (ordered_mandatory g) = map fst (sort_key (\<lambda>(k, b). sort_text k) (og_blocks g))"
    using mem by (auto simp: ordered_mandatory_def intro!: block_at_key)
  moreover have "distinct (map fst (sort_key f ps))" if "distinct (map fst ps)" for f :: "block_key \<times> context_block \<Rightarrow> string \<times> string" and ps
    using that by (metis mset_eq_imp_distinct_iff mset_map mset_sort)
  ultimately show "distinct (map block_key_of (ordered_mandatory g))" using d by (simp add: dict_ok_def)
qed

text \<open>The size of the obligations does not depend on the order in which they were collected.\<close>

lemma mandatory_size:
  assumes "collects e (obligation_keys e o' t) g"
  shows "sum_list (map f (ordered_mandatory g)) = sum f (obligation_blocks e o' t)"
proof -
  note o = ordered_mandatory_collects [OF assms]
  have "distinct (ordered_mandatory g)" by (rule distinct_map [THEN iffD1, THEN conjunct1, OF o(2)])
  then show ?thesis by (simp add: sum_list_distinct_conv_sum_set o(1) obligation_blocks_def)
qed

end
