(* ===== verification/Context_Fill.thy ===== *)
theory Context_Fill
  imports Context_Laws
begin

text \<open>
  The run of \<open>pack\<close>: the greedy loop keeps accounts and caps and leaves out only what does not fit, the options count by their
  largest value, and the branches of \<open>pack\<close> are determined by \<open>context_fits\<close>.
\<close>

section \<open>The greedy loop\<close>

lemma size_nonneg: "0 \<le> byte_size b" "1 \<le> token_size b"
  by (simp_all add: byte_size_def token_size_def)

definition filling_ok :: "context_budget \<Rightarrow> filling \<Rightarrow> bool" where
  "filling_ok budget s \<longleftrightarrow>
     list_all2 entry_describes (fl_included s) (fl_blocks s)
     \<and> fl_used_bytes s = sum_list (map byte_size (fl_blocks s)) \<and> fl_used_tokens s = sum_list (map token_size (fl_blocks s))
     \<and> fl_used_bytes s \<le> cb_max_bytes budget \<and> fl_used_tokens s \<le> cb_max_tokens budget"

lemma block_entry_describes [simp]: "entry_describes (block_entry m True r v b) b"
  by (simp add: entry_describes_def block_entry_def)

lemma fill_one_ok: "filling_ok budget s \<Longrightarrow> filling_ok budget (fill_one budget s x)"
  by (auto simp: filling_ok_def fill_one_def list_all2_appendI split: prod.splits)

lemma fill_all_ok: "filling_ok budget s \<Longrightarrow> filling_ok budget (foldl (fill_one budget) s xs)"
  by (induction xs arbitrary: s) (simp_all add: fill_one_ok)

lemma start_filling_ok:
  assumes "sum_list (map byte_size (ordered_mandatory g)) \<le> cb_max_bytes budget"
    and "sum_list (map token_size (ordered_mandatory g)) \<le> cb_max_tokens budget"
  shows "filling_ok budget (start_filling g rejected)"
  using assms
  by (simp add: filling_ok_def start_filling_def Let_def mandatory_entry_def list.rel_map list.rel_refl)

text \<open>The loop splits the candidates into those it takes and those that do not fit, not even at its end.\<close>

definition too_large :: "context_budget \<Rightarrow> int \<Rightarrow> int \<Rightarrow> context_block \<Rightarrow> bool" where
  "too_large budget used_bytes used_tokens b \<longleftrightarrow>
     used_bytes + byte_size b > cb_max_bytes budget \<or> used_tokens + token_size b > cb_max_tokens budget"

lemma fill_grows: "fl_used_bytes s \<le> fl_used_bytes (foldl (fill_one budget) s xs)
  \<and> fl_used_tokens s \<le> fl_used_tokens (foldl (fill_one budget) s xs)"
proof (induction xs arbitrary: s)
  case (Cons x xs)
  have "fl_used_bytes s \<le> fl_used_bytes (fill_one budget s x) \<and> fl_used_tokens s \<le> fl_used_tokens (fill_one budget s x)"
    using size_nonneg [of "snd x"] by (cases x) (simp add: fill_one_def)
  with Cons.IH [of "fill_one budget s x"] show ?case by simp
qed simp

lemma fill_splits:
  "\<exists>taken left. mset xs = mset taken + mset left
     \<and> fl_blocks (foldl (fill_one budget) s xs) = fl_blocks s @ map snd taken
     \<and> map me_value_units (fl_included (foldl (fill_one budget) s xs)) = map me_value_units (fl_included s) @ map fst taken
     \<and> fl_value (foldl (fill_one budget) s xs) = fl_value s + sum_list (map fst taken)
     \<and> (\<forall>x \<in> set left. too_large budget (fl_used_bytes (foldl (fill_one budget) s xs))
          (fl_used_tokens (foldl (fill_one budget) s xs)) (snd x))"
proof (induction xs arbitrary: s)
  case (Cons x xs)
  let ?s = "fill_one budget s x"
  from Cons.IH [of ?s] obtain taken left where IH: "mset xs = mset taken + mset left"
    "fl_blocks (foldl (fill_one budget) ?s xs) = fl_blocks ?s @ map snd taken"
    "map me_value_units (fl_included (foldl (fill_one budget) ?s xs)) = map me_value_units (fl_included ?s) @ map fst taken"
    "fl_value (foldl (fill_one budget) ?s xs) = fl_value ?s + sum_list (map fst taken)"
    "\<forall>x \<in> set left. too_large budget (fl_used_bytes (foldl (fill_one budget) ?s xs))
          (fl_used_tokens (foldl (fill_one budget) ?s xs)) (snd x)" by metis
  show ?case
  proof (cases "too_large budget (fl_used_bytes s) (fl_used_tokens s) (snd x)")
    case False
    then have "fl_blocks ?s = fl_blocks s @ [snd x]" "map me_value_units (fl_included ?s) = map me_value_units (fl_included s) @ [fst x]"
      "fl_value ?s = fl_value s + fst x"
      by (cases x; simp add: fill_one_def too_large_def block_entry_def not_less)+
    with IH show ?thesis by (intro exI [of _ "x # taken"] exI [of _ left]) simp
  next
    case True
    then have same: "fl_blocks ?s = fl_blocks s" "fl_included ?s = fl_included s" "fl_value ?s = fl_value s"
      "fl_used_bytes ?s = fl_used_bytes s" "fl_used_tokens ?s = fl_used_tokens s"
      by (cases x; auto simp: fill_one_def too_large_def)+
    have "too_large budget (fl_used_bytes (foldl (fill_one budget) ?s xs)) (fl_used_tokens (foldl (fill_one budget) ?s xs)) (snd x)"
      using True fill_grows [of ?s budget xs] by (auto simp: too_large_def same)
    with IH same show ?thesis
      by (intro exI [of _ taken] exI [of _ "x # left"]) simp
  qed
qed simp

section \<open>Options\<close>

definition options_valid :: "optional_artifact list \<Rightarrow> bool" where
  "options_valid xs \<longleftrightarrow> (\<forall>x \<in> set xs. validate_option x = Inr ())"

text \<open>An identifier has the largest of its values.\<close>

definition best_value :: "optional_artifact list \<Rightarrow> string \<Rightarrow> int option" where
  "best_value xs i =
     (if i \<in> oa_artifact_id ` set xs then Some (Max (oa_value_units ` {x \<in> set xs. oa_artifact_id x = i})) else None)"

lemma Max_insert_max: "finite V \<Longrightarrow> Max (insert (max a b) V) = Max (insert b (insert a V))" for a b :: int
  by (cases "V = {}") (simp_all add: max.assoc max.left_commute max.commute)

lemma option_values_get:
  assumes "options_valid xs"
  shows "\<exists>d'. option_values xs d = Inr d' \<and> (dict_ok d \<longrightarrow> dict_ok d')
    \<and> (\<forall>i. dget d' i = (if i \<in> oa_artifact_id ` set xs
          then Some (Max (insert (case dget d i of None \<Rightarrow> 0 | Some v \<Rightarrow> v) (oa_value_units ` {x \<in> set xs. oa_artifact_id x = i})))
          else dget d i))"
  using assms
proof (induction xs arbitrary: d)
  case (Cons x xs)
  let ?d = "dset (oa_artifact_id x) (max (oa_value_units x) (case dget d (oa_artifact_id x) of None \<Rightarrow> 0 | Some v \<Rightarrow> v)) d"
  have x: "validate_option x = Inr ()" and xs: "options_valid xs" using Cons.prems by (simp_all add: options_valid_def)
  from Cons.IH [OF xs, of ?d] obtain d' where d': "option_values xs ?d = Inr d'" "dict_ok ?d \<longrightarrow> dict_ok d'"
    "\<forall>i. dget d' i = (if i \<in> oa_artifact_id ` set xs
          then Some (Max (insert (case dget ?d i of None \<Rightarrow> 0 | Some v \<Rightarrow> v) (oa_value_units ` {x \<in> set xs. oa_artifact_id x = i})))
          else dget ?d i)" by blast
  have "dget d' i = (if i \<in> oa_artifact_id ` set (x # xs)
          then Some (Max (insert (case dget d i of None \<Rightarrow> 0 | Some v \<Rightarrow> v)
            (oa_value_units ` {y \<in> set (x # xs). oa_artifact_id y = i})))
          else dget d i)" for i
  proof (cases "i = oa_artifact_id x")
    case True
    then have split: "{y \<in> set (x # xs). oa_artifact_id y = i} = insert x {y \<in> set xs. oa_artifact_id y = i}" by auto
    show ?thesis
    proof (cases "i \<in> oa_artifact_id ` set xs")
      case True
      with \<open>i = oa_artifact_id x\<close> show ?thesis unfolding split by (simp add: d'(3) dict_simps Max_insert_max)
    next
      case False
      then have none: "{y \<in> set xs. oa_artifact_id y = i} = {}" by auto
      show ?thesis unfolding split none using False \<open>i = oa_artifact_id x\<close> by (simp add: d'(3) dict_simps max.commute)
    qed
  next
    case False
    then have "{y \<in> set (x # xs). oa_artifact_id y = i} = {y \<in> set xs. oa_artifact_id y = i}" by auto
    with False show ?thesis by (simp add: d'(3) dict_simps)
  qed
  with d'(1,2) x show ?case by simp
qed simp

lemma options_best:
  assumes "options_valid xs"
  obtains d where "option_values xs [] = Inr d" and "dict_ok d" and "dget d = best_value xs"
proof -
  from option_values_get [OF assms, of "[]"] obtain d where d: "option_values xs [] = Inr d" "dict_ok d"
    "\<And>i. dget d i = (if i \<in> oa_artifact_id ` set xs
          then Some (Max (insert 0 (oa_value_units ` {x \<in> set xs. oa_artifact_id x = i}))) else None)" by auto
  have "Max (insert 0 (oa_value_units ` {x \<in> set xs. oa_artifact_id x = i})) = Max (oa_value_units ` {x \<in> set xs. oa_artifact_id x = i})"
    if "i \<in> oa_artifact_id ` set xs" for i
  proof -
    let ?V = "oa_value_units ` {x \<in> set xs. oa_artifact_id x = i}"
    have V: "finite ?V" "?V \<noteq> {}" using that by auto
    have "0 \<le> v" if "v \<in> ?V" for v
      using that assms by (auto simp: options_valid_def validate_option_def split: if_splits)
    with V Max_in [OF V] have "0 \<le> Max ?V" by blast
    with V show ?thesis by (simp add: Max_insert max_absorb2)
  qed
  with d have "dget d = best_value xs" by (auto simp: best_value_def)
  with d that show ?thesis by blast
qed

lemma same_dict:
  fixes d d' :: "('k::linorder, 'v::linorder) dict"
  assumes "dict_ok d" and "dict_ok d'" and "dget d = dget d'"
  shows "mset d = mset d'" and "sort d = sort d'"
proof -
  have "set d = set d'"
  proof -
    have mem: "(k, v) \<in> set x \<longleftrightarrow> dget x k = Some v" if "dict_ok x" for x :: "('k, 'v) dict" and k v
      using that by (simp add: dict_ok_def)
    show ?thesis using mem [OF assms(1)] mem [OF assms(2)] assms(3) by auto
  qed
  moreover have "distinct d" "distinct d'" using assms(1,2) by (simp_all add: dict_ok_def distinct_map)
  ultimately show "mset d = mset d'" by (simp add: set_eq_iff_mset_eq_distinct)
  then show "sort d = sort d'" by (intro properties_for_sort) simp_all
qed

section \<open>The run of pack\<close>

lemma option_values_valid: "option_values xs d = Inr d' \<Longrightarrow> options_valid xs"
  by (induction xs arbitrary: d) (auto simp: options_valid_def split: sum.splits)

lemma obligations_normalized [simp]:
  "obligation_keys e (normalized o') t = obligation_keys e o' t" "obligations_met e (normalized o') t = obligations_met e o' t"
  by (simp_all add: obligation_keys_def obligations_met_def normalized_def artifact_keys_def claim_keys_def)

lemma obligation_blocks_normalized [simp]: "obligation_blocks e (normalized o') t = obligation_blocks e o' t"
  by (simp add: obligation_blocks_def)

definition pack_inputs_ok :: "context_budget \<Rightarrow> int \<Rightarrow> optional_artifact list \<Rightarrow> bool" where
  "pack_inputs_ok budget t xs \<longleftrightarrow> validate_budget budget = Inr () \<and> 0 \<le> t \<and> options_valid xs"

text \<open>The obligations are met and fit.\<close>

definition context_fits :: "evidence_set \<Rightarrow> context_obligations \<Rightarrow> context_budget \<Rightarrow> int \<Rightarrow> bool" where
  "context_fits e o' budget t \<longleftrightarrow>
     obligations_met e o' t \<and> sum byte_size (obligation_blocks e o' t) \<le> cb_max_bytes budget
     \<and> sum token_size (obligation_blocks e o' t) \<le> cb_max_tokens budget"

lemma pack_run:
  assumes "pack_inputs_ok budget t xs"
  obtains d g where "option_values xs [] = Inr d" and "dict_ok d" and "dget d = best_value xs"
    and "collect_obligations e (normalized o') t = Inr g" and "collects e (obligation_keys e o' t) g"
    and "og_refusals g = [] \<longleftrightarrow> obligations_met e o' t"
    and "pack e o' budget t xs = pack_obliged e (normalized o') budget t d g"
proof -
  have v: "validate_budget budget = Inr ()" "\<not> t < 0" "options_valid xs" using assms by (simp_all add: pack_inputs_ok_def)
  obtain d where d: "option_values xs [] = Inr d" "dict_ok d" "dget d = best_value xs" by (rule options_best [OF v(3)])
  obtain g where g: "collect_obligations e (normalized o') t = Inr g" "collects e (obligation_keys e o' t) g"
    "og_refusals g = [] \<longleftrightarrow> obligations_met e o' t" using obligations_collected [of e "normalized o'" t] by auto
  have "pack e o' budget t xs = pack_obliged e (normalized o') budget t d g"
    using v d(1) g(1) by (simp add: pack_def Let_def)
  with d g that show ?thesis by blast
qed

lemma pack_inputs: "pack e o' budget t xs = Inr pc \<Longrightarrow> pack_inputs_ok budget t xs"
  by (auto simp: pack_def pack_inputs_ok_def validate_budget_def Let_def dest: option_values_valid split: sum.splits if_splits)

lemma manifest_made [simp]:
  "manifest_verify_digest (make_manifest status budget t ub ut included excluded loss reasons)"
  "mf_status (make_manifest status budget t ub ut included excluded loss reasons) = status"
  "mf_included (make_manifest status budget t ub ut included excluded loss reasons) = included"
  "mf_used_bytes (make_manifest status budget t ub ut included excluded loss reasons) = ub"
  "mf_used_tokens (make_manifest status budget t ub ut included excluded loss reasons) = ut"
  "mf_byte_cap (make_manifest status budget t ub ut included excluded loss reasons) = cb_max_bytes budget"
  "mf_token_cap (make_manifest status budget t ub ut included excluded loss reasons) = cb_max_tokens budget"
  "mf_loss_report (make_manifest status budget t ub ut included excluded loss reasons) = loss"
  "mf_refusal_reasons (make_manifest status budget t ub ut included excluded loss reasons) = reasons"
  by (simp_all add: make_manifest_def Let_def manifest_verify_digest_def manifest_payload_def)

lemma refused_verifies: "packed_verify (refused_context budget t excluded reasons total_value o')"
  "mf_status (pc_manifest (refused_context budget t excluded reasons total_value o')) = REFUSED"
  by (simp_all add: packed_verify_def refused_context_def Let_def)

lemma packed_of_fields [simp]:
  "pc_blocks (packed_of budget t total_value s) = fl_blocks s"
  "mf_status (pc_manifest (packed_of budget t total_value s)) = PACKED"
  "mf_included (pc_manifest (packed_of budget t total_value s)) = fl_included s"
  "mf_used_bytes (pc_manifest (packed_of budget t total_value s)) = fl_used_bytes s"
  "mf_used_tokens (pc_manifest (packed_of budget t total_value s)) = fl_used_tokens s"
  "lr_total (mf_loss_report (pc_manifest (packed_of budget t total_value s))) = total_value"
  "lr_included (mf_loss_report (pc_manifest (packed_of budget t total_value s))) = fl_value s"
  "lr_lost (mf_loss_report (pc_manifest (packed_of budget t total_value s))) = total_value - fl_value s"
  by (simp_all add: packed_of_def Let_def)

lemma packed_verifies: "filling_ok budget s \<Longrightarrow> packed_verify (packed_of budget t total_value s)"
  by (auto simp: packed_verify_def packed_of_def Let_def filling_ok_def dest: list_all2_lengthD)

lemma pack_obliged_cases:
  assumes "collects e (obligation_keys e o' t) g" and "og_refusals g = [] \<longleftrightarrow> obligations_met e o' t"
  shows "context_fits e o' budget t \<Longrightarrow>
      filling_ok budget (fill_optional e budget t g d)
      \<and> pack_obliged e o'' budget t d g = Inr (packed_of budget t (sum_list (map snd d)) (fill_optional e budget t g d))"
    and "\<not> context_fits e o' budget t \<Longrightarrow>
      \<exists>pc. pack_obliged e o'' budget t d g = Inr pc \<and> mf_status (pc_manifest pc) = REFUSED \<and> packed_verify pc"
proof -
  note size = mandatory_size [OF assms(1)]
  show "filling_ok budget (fill_optional e budget t g d)
      \<and> pack_obliged e o'' budget t d g = Inr (packed_of budget t (sum_list (map snd d)) (fill_optional e budget t g d))"
    if f: "context_fits e o' budget t"
  proof -
    have cap: "sum_list (map byte_size (ordered_mandatory g)) \<le> cb_max_bytes budget"
      "sum_list (map token_size (ordered_mandatory g)) \<le> cb_max_tokens budget"
      using f by (simp_all add: context_fits_def size)
    have ok: "filling_ok budget (fill_optional e budget t g d)"
      unfolding fill_optional_def Let_def by (rule fill_all_ok, rule start_filling_ok [OF cap])
    moreover have "og_refusals g = []" using f assms(2) by (simp add: context_fits_def)
    ultimately show ?thesis using cap packed_verifies [OF ok] by (simp add: pack_obliged_def Let_def not_less)
  qed
  show "\<exists>pc. pack_obliged e o'' budget t d g = Inr pc \<and> mf_status (pc_manifest pc) = REFUSED \<and> packed_verify pc"
    if "\<not> context_fits e o' budget t"
    using that assms(2)
    by (cases "obligations_met e o' t") (auto simp: pack_obliged_def Let_def context_fits_def size not_le refused_verifies)
qed

lemma packed_run:
  assumes "pack e o' budget t xs = Inr pc" and "mf_status (pc_manifest pc) = PACKED"
  obtains d g where "dict_ok d" and "dget d = best_value xs" and "options_valid xs"
    and "collects e (obligation_keys e o' t) g" and "context_fits e o' budget t"
    and "filling_ok budget (fill_optional e budget t g d)"
    and "pc = packed_of budget t (sum_list (map snd d)) (fill_optional e budget t g d)"
proof -
  note i = pack_inputs [OF assms(1)]
  obtain d g where r: "option_values xs [] = Inr d" "dict_ok d" "dget d = best_value xs"
    "collects e (obligation_keys e o' t) g" "og_refusals g = [] \<longleftrightarrow> obligations_met e o' t"
    "pack e o' budget t xs = pack_obliged e (normalized o') budget t d g" by (rule pack_run [OF i])
  note c = pack_obliged_cases [OF r(4,5), of budget]
  have f: "context_fits e o' budget t"
  proof (rule ccontr)
    assume "\<not> context_fits e o' budget t"
    from c(2) [OF this, of "normalized o'" d] assms r(6) show False by auto
  qed
  from c(1) [OF f, of d "normalized o'"] assms(1) r(6)
  have "filling_ok budget (fill_optional e budget t g d)"
    "pc = packed_of budget t (sum_list (map snd d)) (fill_optional e budget t g d)" by auto
  with r f option_values_valid [OF r(1)] that show ?thesis by blast
qed

section \<open>The optional blocks\<close>

lemma candidates_eq:
  "optional_candidates e t refs d =
     map (\<lambda>(i, v). (v, artifact_block (the (find_artifact e i))))
       (filter (\<lambda>(i, v). i \<notin> set refs \<and> usable_artifact e i t) (sort d))"
proof -
  have point: "(if i \<in> set refs then [] else case (artifact_problem ''optional'' e i t, find_artifact e i) of
         (None, Some a) \<Rightarrow> [(v, artifact_block a)] | _ \<Rightarrow> [])
      = (if i \<notin> set refs \<and> usable_artifact e i t then [(v, artifact_block (the (find_artifact e i)))] else [])" for i v
    using artifact_problem_None [of "''optional''" e i t]
    by (auto simp: usable_artifact_def split: option.splits)
  have "concat (map (\<lambda>(i, v). if i \<notin> set refs \<and> usable_artifact e i t
        then [(v, artifact_block (the (find_artifact e i)))] else []) ps)
      = map (\<lambda>(i, v). (v, artifact_block (the (find_artifact e i))))
       (filter (\<lambda>(i, v). i \<notin> set refs \<and> usable_artifact e i t) ps)" for ps :: "(string \<times> int) list"
    by (induction ps) (simp_all split: prod.split)
  then show ?thesis unfolding optional_candidates_def point .
qed

text \<open>What the greedy loop makes of the options, for the blocks already required.\<close>

lemma fill_optional_parts:
  assumes c: "collects e (obligation_keys e o' t) g" and d: "dict_ok d"
  obtains taken left where
    "mset taken + mset left = mset (map (\<lambda>(i, v). (v, artifact_block (the (find_artifact e i))))
       (filter (\<lambda>(i, v). (ARTIFACT, i) \<notin> obligation_keys e o' t \<and> usable_artifact e i t) d))"
    and "fl_blocks (fill_optional e budget t g d) = ordered_mandatory g @ map snd taken"
    and "fl_value (fill_optional e budget t g d) = sum_list (map fst taken)"
    and "sum_list (map me_value_units (fl_included (fill_optional e budget t g d))) = sum_list (map fst taken)"
    and "\<forall>x \<in> set left. too_large budget (fl_used_bytes (fill_optional e budget t g d))
       (fl_used_tokens (fill_optional e budget t g d)) (snd x)"
proof -
  let ?refs = "map bk_source_ref (filter (\<lambda>b. bk_source_kind b = ARTIFACT) (ordered_mandatory g))"
  let ?s = "start_filling g (optional_rejected e t ?refs d)" and ?xs = "sort_key candidate_key (optional_candidates e t ?refs d)"
  have s: "fill_optional e budget t g d = foldl (fill_one budget) ?s ?xs" by (simp add: fill_optional_def Let_def)
  from fill_splits [of ?xs budget ?s] obtain taken left where f: "mset ?xs = mset taken + mset left"
    "fl_blocks (foldl (fill_one budget) ?s ?xs) = fl_blocks ?s @ map snd taken"
    "map me_value_units (fl_included (foldl (fill_one budget) ?s ?xs)) = map me_value_units (fl_included ?s) @ map fst taken"
    "fl_value (foldl (fill_one budget) ?s ?xs) = fl_value ?s + sum_list (map fst taken)"
    "\<forall>x \<in> set left. too_large budget (fl_used_bytes (foldl (fill_one budget) ?s ?xs))
          (fl_used_tokens (foldl (fill_one budget) ?s ?xs)) (snd x)" by metis
  have refs: "i \<in> set ?refs \<longleftrightarrow> (ARTIFACT, i) \<in> obligation_keys e o' t" for i
  proof
    assume "i \<in> set ?refs"
    then obtain b k where b: "k \<in> obligation_keys e o' t" "block_at e k = Some b" "block_key_of b = (ARTIFACT, i)"
      unfolding set_map set_filter ordered_mandatory_collects(1) [OF c] by (auto simp: block_key_of_def)
    with block_at_key [OF b(2)] show "(ARTIFACT, i) \<in> obligation_keys e o' t" by simp
  next
    assume k: "(ARTIFACT, i) \<in> obligation_keys e o' t"
    then obtain b where b: "block_at e (ARTIFACT, i) = Some b" using c by (auto simp: collects_def)
    have "bk_source_kind b = ARTIFACT" "i = bk_source_ref b" using block_at_key [OF b] by (simp_all add: block_key_of_def)
    with k b show "i \<in> set ?refs" unfolding set_map set_filter ordered_mandatory_collects(1) [OF c] by blast
  qed
  have "mset ?xs = mset (map (\<lambda>(i, v). (v, artifact_block (the (find_artifact e i))))
       (filter (\<lambda>(i, v). (ARTIFACT, i) \<notin> obligation_keys e o' t \<and> usable_artifact e i t) d))"
    unfolding candidates_eq refs by (simp only: mset_sort mset_map mset_filter)
  with f s that [of taken left] show ?thesis
    by (simp add: start_filling_def Let_def mandatory_entry_def block_entry_def o_def)
qed

lemma best_value_Some: "best_value xs i = Some v \<Longrightarrow> options_valid xs \<Longrightarrow> 0 \<le> v \<and> i \<in> oa_artifact_id ` set xs"
proof -
  assume b: "best_value xs i = Some v" and ok: "options_valid xs"
  let ?V = "oa_value_units ` {x \<in> set xs. oa_artifact_id x = i}"
  from b have i: "i \<in> oa_artifact_id ` set xs" "v = Max ?V" by (auto simp: best_value_def split: if_splits)
  then have "finite ?V" "?V \<noteq> {}" by auto
  then have "v \<in> ?V" using Max_in i(2) by simp
  then have "0 \<le> v" using ok by (auto simp: options_valid_def validate_option_def split: if_splits)
  with i(1) show ?thesis by simp
qed

lemma sum_mset_part: "mset xs + mset ys = mset zs \<Longrightarrow> \<forall>z \<in> set ys. 0 \<le> f z \<Longrightarrow> sum_list (map f xs) \<le> sum_list (map f zs)"
  for f :: "'a \<Rightarrow> int"
proof -
  assume m: "mset xs + mset ys = mset zs" and pos: "\<forall>z \<in> set ys. 0 \<le> f z"
  have "sum_list (map f zs) = sum_list (map f xs) + sum_list (map f ys)"
    by (metis m image_mset_union mset_map sum_mset.union sum_mset_sum_list)
  moreover have "0 \<le> sum_list (map f ys)" using pos by (intro sum_list_nonneg) auto
  ultimately show ?thesis by simp
qed

lemma mset_part_set: "mset xs + mset ys = mset zs \<Longrightarrow> set xs \<union> set ys = set zs"
  by (metis set_mset_mset set_mset_union)

lemma sum_list_filter_le: "\<forall>z \<in> set zs. 0 \<le> f z \<Longrightarrow> sum_list (map f (filter P zs)) \<le> sum_list (map f zs)"
  for f :: "'a \<Rightarrow> int"
  by (induction zs) auto

lemma dict_sum:
  fixes d :: "(string, int) dict"
  assumes "dict_ok d" and "dget d = m"
  shows "sum_list (map snd d) = (\<Sum>i \<in> dom m. the (m i))"
proof -
  have "sum_list (map snd d) = sum_list (map (\<lambda>i. the (m i)) (dkeys d))"
    using assms by (auto simp: dict_ok_def o_def intro!: arg_cong [of _ _ sum_list] map_cong)
  also have "\<dots> = (\<Sum>i \<in> set (dkeys d). the (m i))"
    using assms(1) by (simp only: dict_ok_def sum_list_distinct_conv_sum_set)
  also have "set (dkeys d) = dom m" by (simp only: assms(2) [symmetric] dom_map_of_conv_image_fst set_map)
  finally show ?thesis .
qed

lemma same_sorted_set: "set xs = set ys \<Longrightarrow> sorted_set xs = sorted_set ys" for xs :: "'a::linorder list"
  by (intro sorted_distinct_set_unique) simp_all

lemma same_sort_key:
  fixes f :: "'a \<Rightarrow> 'k::linorder"
  assumes "mset xs = mset ys" and "distinct (map f xs)"
  shows "sort_key f xs = sort_key f ys"
  by (rule sort_key_inj_key_eq) (use assms in \<open>simp_all add: distinct_map\<close>)

end
