(* ===== verification/Context_Props.thy ===== *)
theory Context_Props
  imports Context_Fill
begin

text \<open>
  What a caller of \<open>pack\<close> may rely on: when it packs and when it refuses, what the context holds, how the room left
  is used, that the order of the inputs is irrelevant, and that the wire format reads back.
\<close>

section \<open>A sample\<close>

definition sample_draft :: artifact where
  "sample_draft =
     \<lparr>af_artifact_id = [], af_schema = ''s'', af_schema_version = ''1'', af_media_type = ''text/plain'', af_producer = ''p'',
      af_parents = [], af_sensitivity = PUBLIC, af_created_at_ms = 5, af_fresh_until_ms = None, af_payload = [104, 105],
      af_payload_sha256 = []\<rparr>"

definition sample_artifact :: artifact where
  "sample_artifact = (case artifact_create sample_draft of Inr a \<Rightarrow> a | Inl x \<Rightarrow> sample_draft)"

definition sample_evidence :: evidence_set where
  "sample_evidence = \<lparr>ed_artifacts = [sample_artifact], ed_claims = []\<rparr>"

abbreviation "sample_block \<equiv> artifact_block sample_artifact"
abbreviation "sample_id \<equiv> af_artifact_id sample_artifact"

definition sample_obligations :: context_obligations where
  "sample_obligations = \<lparr>co_artifacts = [sample_id], co_claims = []\<rparr>"

definition sample_budget :: context_budget where
  "sample_budget = \<lparr>cb_max_bytes = byte_size sample_block, cb_max_tokens = token_size sample_block\<rparr>"

definition sample_options :: "optional_artifact list" where
  "sample_options = [\<lparr>oa_artifact_id = ''x'', oa_value_units = 3\<rparr>]"

lemma sample_created: "artifact_create sample_draft = Inr sample_artifact"
  by (simp add: sample_artifact_def artifact_create_def sample_draft_def validate_timestamp_def Let_def sorted_set_def)

lemma sample_usable: "usable_artifact sample_evidence sample_id 7"
proof -
  have "artifact_verify sample_artifact" using artifact_create_verifies [OF sample_created] by simp
  moreover have "is_fresh sample_artifact 7"
    by (simp add: is_fresh_def sample_artifact_def artifact_create_def sample_draft_def validate_timestamp_def Let_def sorted_set_def)
  ultimately show ?thesis by (simp add: usable_artifact_def find_artifact_def sample_evidence_def)
qed

lemma sample_fits: "context_fits sample_evidence sample_obligations sample_budget 7"
proof -
  have met: "obligations_met sample_evidence sample_obligations 7"
    using sample_usable by (simp add: obligations_met_def sample_obligations_def)
  have "obligation_keys sample_evidence sample_obligations 7 = {(ARTIFACT, sample_id)}"
    using sample_usable by (auto simp: obligation_keys_def artifact_keys_def claim_keys_def sample_obligations_def)
  moreover have "find_artifact sample_evidence sample_id = Some sample_artifact"
    by (simp add: find_artifact_def sample_evidence_def)
  ultimately have "obligation_blocks sample_evidence sample_obligations 7 = {sample_block}"
    by (auto simp: obligation_blocks_def)
  with met show ?thesis by (simp add: context_fits_def sample_budget_def)
qed

lemma sample_inputs: "pack_inputs_ok sample_budget 7 sample_options"
  using size_nonneg [of sample_block]
  by (simp add: pack_inputs_ok_def validate_budget_def sample_budget_def options_valid_def sample_options_def validate_option_def)

section \<open>Properties\<close>

text \<open>
  C26. The status of a claim is recalculated exactly: \<open>assess_claim\<close> answers \<open>SUPPORTED\<close> for the claims that verify, existed, are
  declared supported, whose evidence is all present, valid and fresh, and that no claim of this kind contradicts. So of two
  claims that contradict each other at most one is supported.
\<close>
theorem claim_support_exact:
  "(ca_status (assess_claim e i t) = SUPPORTED) =
     (\<exists>c. find_claim e i = Some c \<and> claim_backed e c t
        \<and> \<not> (\<exists>d \<in> set (ed_claims e). cm_claim_id d \<noteq> i \<and> explicitly_conflicts c d \<and> claim_backed e d t))
   \<and> \<not> (i \<noteq> j \<and> ca_status (assess_claim e i t) = SUPPORTED \<and> ca_status (assess_claim e j t) = SUPPORTED
        \<and> (\<exists>c d. find_claim e i = Some c \<and> find_claim e j = Some d \<and> explicitly_conflicts c d))"
proof -
  have "\<not> (i \<noteq> j \<and> ca_status (assess_claim e i t) = SUPPORTED \<and> ca_status (assess_claim e j t) = SUPPORTED
        \<and> (\<exists>c d. find_claim e i = Some c \<and> find_claim e j = Some d \<and> explicitly_conflicts c d))"
    unfolding assessed_supported using find_claim_Some [of e j] by fastforce
  then show ?thesis using assessed_supported [of e i t] by blast
qed

text \<open>
  C24. Packing decides: on valid arguments \<open>pack\<close> raises nothing (none of its assertions can fail), its result verifies, and it packs
  exactly when every required artifact is usable, every required claim is supported, and their blocks, each counted once,
  fit both caps.
\<close>
theorem pack_decides:
  assumes "pack_inputs_ok budget t options"
  shows "\<exists>pc. pack e o' budget t options = Inr pc \<and> packed_verify pc
    \<and> (mf_status (pc_manifest pc) = PACKED) = context_fits e o' budget t"
proof -
  obtain d g where r: "collects e (obligation_keys e o' t) g" "og_refusals g = [] \<longleftrightarrow> obligations_met e o' t"
    "pack e o' budget t options = pack_obliged e (normalized o') budget t d g" by (rule pack_run [OF assms])
  note c = pack_obliged_cases [OF r(1,2), of budget]
  show ?thesis
  proof (cases "context_fits e o' budget t")
    case True
    from c(1) [OF True, of d "normalized o'"] packed_verifies r(3) True show ?thesis by auto
  next
    case False
    from c(2) [OF False, of "normalized o'" d] r(3) False show ?thesis by auto
  qed
qed

theorem pack_decides_witness:
  "\<exists>pc. pack sample_evidence sample_obligations sample_budget 7 sample_options = Inr pc
     \<and> mf_status (pc_manifest pc) = PACKED"
  using pack_decides [OF sample_inputs, of sample_evidence sample_obligations] sample_fits by blast

lemma optional_blocks_distinct:
  assumes "dict_ok d"
  shows "distinct (map (block_key_of \<circ> snd) (map (\<lambda>(i, v). (v, artifact_block (the (find_artifact e i))))
       (filter (\<lambda>(i, v). (ARTIFACT, i) \<notin> K \<and> usable_artifact e i t) d)))"
    and "\<forall>x \<in> set (map (\<lambda>(i, v). (v, artifact_block (the (find_artifact e i))))
       (filter (\<lambda>(i, v). (ARTIFACT, i) \<notin> K \<and> usable_artifact e i t) d)).
         block_key_of (snd x) \<notin> K"
proof -
  have key: "block_key_of (artifact_block (the (find_artifact e i))) = (ARTIFACT, i)" if "usable_artifact e i t" for i
    using that by (auto simp: usable_artifact_def block_key_of_def artifact_block_def dest: find_artifact_Some)
  let ?F = "filter (\<lambda>(i, v). (ARTIFACT, i) \<notin> K \<and> usable_artifact e i t) d"
  have "map (block_key_of \<circ> snd) (map (\<lambda>(i, v). (v, artifact_block (the (find_artifact e i)))) ?F) = map (Pair ARTIFACT) (map fst ?F)"
    using key by auto
  moreover have "distinct (map fst ?F)" using assms by (simp add: dict_ok_def distinct_map_filter)
  ultimately show "distinct (map (block_key_of \<circ> snd) (map (\<lambda>(i, v). (v, artifact_block (the (find_artifact e i)))) ?F))"
    by (simp add: distinct_map inj_on_def del: map_map)
  show "\<forall>x \<in> set (map (\<lambda>(i, v). (v, artifact_block (the (find_artifact e i)))) ?F). block_key_of (snd x) \<notin> K"
    using key by auto
qed

text \<open>
  C23. A packed context holds what it must and nothing else: every required artifact, every required claim and all evidence of
  these claims are blocks of it; every other block is a usable optional artifact; no block occurs twice, and
  the blocks fit both caps.
\<close>
theorem pack_keeps_obligations:
  assumes "pack e o' budget t options = Inr pc" and "mf_status (pc_manifest pc) = PACKED"
  shows "obligations_met e o' t \<and> obligation_blocks e o' t \<subseteq> set (pc_blocks pc)
    \<and> set (pc_blocks pc) \<subseteq> obligation_blocks e o' t
        \<union> {artifact_block a | a i. i \<in> oa_artifact_id ` set options \<and> usable_artifact e i t \<and> find_artifact e i = Some a}
    \<and> distinct (map block_key_of (pc_blocks pc))
    \<and> sum_list (map byte_size (pc_blocks pc)) \<le> cb_max_bytes budget
    \<and> sum_list (map token_size (pc_blocks pc)) \<le> cb_max_tokens budget"
proof -
  obtain d g where r: "dict_ok d" "dget d = best_value options" "collects e (obligation_keys e o' t) g"
    "context_fits e o' budget t" "filling_ok budget (fill_optional e budget t g d)"
    "pc = packed_of budget t (sum_list (map snd d)) (fill_optional e budget t g d)" by (rule packed_run [OF assms])
  let ?C = "map (\<lambda>(i, v). (v, artifact_block (the (find_artifact e i))))
       (filter (\<lambda>(i, v). (ARTIFACT, i) \<notin> obligation_keys e o' t \<and> usable_artifact e i t) d)"
  obtain taken left where f: "mset taken + mset left = mset ?C"
    "fl_blocks (fill_optional e budget t g d) = ordered_mandatory g @ map snd taken" by (rule fill_optional_parts [OF r(3,1)])
  note m = ordered_mandatory_collects [OF r(3)] and C = optional_blocks_distinct [OF r(1), of e "obligation_keys e o' t" t]
  have "set taken \<union> set left = set ?C" by (rule mset_part_set [OF f(1)])
  then have sub: "set taken \<subseteq> set ?C" by blast
  have "mset (map (block_key_of \<circ> snd) (taken @ left)) = mset (map (block_key_of \<circ> snd) ?C)"
    using f(1) by (simp only: mset_map mset_append)
  from mset_eq_imp_distinct_iff [OF this] C(1) have "distinct (map (block_key_of \<circ> snd) (taken @ left))" by blast
  then have "distinct (map block_key_of (map snd taken))" by simp
  moreover have "\<forall>b \<in> set (ordered_mandatory g). block_key_of b \<in> obligation_keys e o' t"
    using m(1) block_at_key by fastforce
  moreover have "\<forall>x \<in> set taken. block_key_of (snd x) \<notin> obligation_keys e o' t" using C(2) sub by blast
  ultimately have dist: "distinct (map block_key_of (ordered_mandatory g @ map snd taken))"
    using m(2) unfolding map_append distinct_append by fastforce
  have opt: "b \<in> {artifact_block a | a i. i \<in> oa_artifact_id ` set options \<and> usable_artifact e i t \<and> find_artifact e i = Some a}"
    if b: "b \<in> snd ` set taken" for b
  proof -
    from b sub obtain i v where iv: "(i, v) \<in> set d" "usable_artifact e i t" "b = artifact_block (the (find_artifact e i))" by auto
    then have "best_value options i = Some v" using r(1,2) by (metis dict_ok_def map_of_is_SomeI)
    then have "i \<in> oa_artifact_id ` set options" by (auto simp: best_value_def split: if_splits)
    moreover from iv(2) obtain a where "find_artifact e i = Some a" by (auto simp: usable_artifact_def)
    ultimately show ?thesis using iv(2,3) by auto
  qed
  have blocks: "pc_blocks pc = ordered_mandatory g @ map snd taken" by (simp only: r(6) packed_of_fields f(2))
  have man: "set (ordered_mandatory g) = obligation_blocks e o' t" by (simp add: m(1) obligation_blocks_def)
  have "set (pc_blocks pc) \<subseteq> obligation_blocks e o' t
        \<union> {artifact_block a | a i. i \<in> oa_artifact_id ` set options \<and> usable_artifact e i t \<and> find_artifact e i = Some a}"
    using opt man by (auto simp: blocks)
  moreover have "obligation_blocks e o' t \<subseteq> set (pc_blocks pc)" using man by (simp add: blocks)
  moreover have "sum_list (map byte_size (pc_blocks pc)) \<le> cb_max_bytes budget"
    "sum_list (map token_size (pc_blocks pc)) \<le> cb_max_tokens budget"
    using r(5) by (simp_all add: r(6) filling_ok_def)
  ultimately show ?thesis using r(4) dist unfolding context_fits_def blocks by blast
qed

theorem pack_keeps_obligations_witness:
  "\<exists>pc. pack sample_evidence sample_obligations sample_budget 7 sample_options = Inr pc
     \<and> obligation_blocks sample_evidence sample_obligations 7 \<subseteq> set (pc_blocks pc)"
proof -
  obtain d g where r: "collects sample_evidence (obligation_keys sample_evidence sample_obligations 7) g"
    "og_refusals g = [] \<longleftrightarrow> obligations_met sample_evidence sample_obligations 7"
    "pack sample_evidence sample_obligations sample_budget 7 sample_options
      = pack_obliged sample_evidence (normalized sample_obligations) sample_budget 7 d g" by (rule pack_run [OF sample_inputs])
  from pack_obliged_cases(1) [OF r(1,2) sample_fits, of d "normalized sample_obligations"] r(3) obtain s where
    "pack sample_evidence sample_obligations sample_budget 7 sample_options = Inr (packed_of sample_budget 7 (sum_list (map snd d)) s)"
    by auto
  from pack_keeps_obligations [OF this] this show ?thesis by auto
qed

text \<open>
  The room left is used: in a packed context an optional artifact that is usable is a block or would exceed a cap even at
  the end, and the loss report adds up: the values of the included entries are the included value, the
  values of all options are the total, and the lost value is the difference, never negative.
\<close>
theorem pack_fills_room:
  assumes "pack e o' budget t options = Inr pc" and "mf_status (pc_manifest pc) = PACKED"
  shows "{i \<in> oa_artifact_id ` set options. usable_artifact e i t}
      \<subseteq> {i. \<exists>a. find_artifact e i = Some a \<and> (artifact_block a \<in> set (pc_blocks pc)
          \<or> too_large budget (mf_used_bytes (pc_manifest pc)) (mf_used_tokens (pc_manifest pc)) (artifact_block a))}
    \<and> lr_included (mf_loss_report (pc_manifest pc)) = sum_list (map me_value_units (mf_included (pc_manifest pc)))
    \<and> lr_total (mf_loss_report (pc_manifest pc)) = (\<Sum>i \<in> dom (best_value options). the (best_value options i))
    \<and> lr_lost (mf_loss_report (pc_manifest pc))
        = lr_total (mf_loss_report (pc_manifest pc)) - lr_included (mf_loss_report (pc_manifest pc))
    \<and> 0 \<le> lr_lost (mf_loss_report (pc_manifest pc))"
proof -
  obtain d g where r: "dict_ok d" "dget d = best_value options" "options_valid options"
    "collects e (obligation_keys e o' t) g" "context_fits e o' budget t"
    "pc = packed_of budget t (sum_list (map snd d)) (fill_optional e budget t g d)" by (rule packed_run [OF assms])
  let ?P = "\<lambda>(i, v). (ARTIFACT, i) \<notin> obligation_keys e o' t \<and> usable_artifact e i t" and ?s = "fill_optional e budget t g d"
  let ?C = "map (\<lambda>(i, v). (v, artifact_block (the (find_artifact e i)))) (filter ?P d)"
  obtain taken left where f: "mset taken + mset left = mset ?C" "fl_blocks ?s = ordered_mandatory g @ map snd taken"
    "fl_value ?s = sum_list (map fst taken)" "sum_list (map me_value_units (fl_included ?s)) = sum_list (map fst taken)"
    "\<forall>x \<in> set left. too_large budget (fl_used_bytes ?s) (fl_used_tokens ?s) (snd x)"
    by (rule fill_optional_parts [OF r(4,1)])
  have sets: "set taken \<union> set left = set ?C" by (rule mset_part_set [OF f(1)])
  have pos: "0 \<le> v" if "(i, v) \<in> set d" for i v
    using best_value_Some [of options i v] r(1-3) that by (metis dict_ok_def map_of_is_SomeI)
  have used: "i \<in> {i. \<exists>a. find_artifact e i = Some a \<and> (artifact_block a \<in> set (fl_blocks ?s)
      \<or> too_large budget (fl_used_bytes ?s) (fl_used_tokens ?s) (artifact_block a))}"
    if i: "i \<in> oa_artifact_id ` set options" "usable_artifact e i t" for i
  proof -
    from i(2) obtain a where a: "find_artifact e i = Some a" by (auto simp: usable_artifact_def)
    show ?thesis
    proof (cases "(ARTIFACT, i) \<in> obligation_keys e o' t")
      case True
      then have "artifact_block a \<in> set (ordered_mandatory g)"
        unfolding ordered_mandatory_collects(1) [OF r(4)] using a by force
      with a show ?thesis by (simp add: f(2))
    next
      case False
      from i(1) r(2) obtain v where "dget d i = Some v" by (auto simp: best_value_def)
      then have "(i, v) \<in> set d" by (rule map_of_SomeD)
      with False i(2) have "(v, artifact_block a) \<in> set ?C" using a by force
      then consider "(v, artifact_block a) \<in> set taken" | "(v, artifact_block a) \<in> set left" using sets by blast
      then show ?thesis using a f(2,5) by cases force+
    qed
  qed
  have "sum_list (map fst taken) \<le> sum_list (map fst ?C)"
    by (rule sum_mset_part [OF f(1)]) (use sets pos in fastforce)
  also have "map fst ?C = map snd (filter ?P d)" by auto
  also have "sum_list (map snd (filter ?P d)) \<le> sum_list (map snd d)" by (rule sum_list_filter_le) (use pos in auto)
  finally have "fl_value ?s \<le> sum_list (map snd d)" by (simp add: f(3))
  with used f(3,4) dict_sum [OF r(1,2)] show ?thesis unfolding r(6) packed_of_fields by auto
qed

theorem pack_fills_room_witness:
  "\<exists>pc. pack sample_evidence sample_obligations sample_budget 7 sample_options = Inr pc
     \<and> 0 \<le> lr_lost (mf_loss_report (pc_manifest pc))"
proof -
  obtain d g where r: "collects sample_evidence (obligation_keys sample_evidence sample_obligations 7) g"
    "og_refusals g = [] \<longleftrightarrow> obligations_met sample_evidence sample_obligations 7"
    "pack sample_evidence sample_obligations sample_budget 7 sample_options
      = pack_obliged sample_evidence (normalized sample_obligations) sample_budget 7 d g" by (rule pack_run [OF sample_inputs])
  from pack_obliged_cases(1) [OF r(1,2) sample_fits, of d "normalized sample_obligations"] r(3) obtain s where
    "pack sample_evidence sample_obligations sample_budget 7 sample_options = Inr (packed_of sample_budget 7 (sum_list (map snd d)) s)"
    by auto
  from pack_fills_room [OF this] this show ?thesis by auto
qed

text \<open>
  The order of the inputs is irrelevant: the same records, obligations and options in any order and number give the same
  evidence set and the same packed context.
\<close>
theorem pack_order_irrelevant:
  assumes "from_records artifacts claims = Inr e" and "mset artifacts' = mset artifacts" and "mset claims' = mset claims"
    and "set (co_artifacts o'') = set (co_artifacts o')" and "set (co_claims o'') = set (co_claims o')"
    and "set options' = set options" and "pack_inputs_ok budget t options"
  shows "from_records artifacts' claims' = Inr e \<and> pack e o'' budget t options' = pack e o' budget t options"
proof
  have dist: "distinct (map af_artifact_id artifacts)" "distinct (map cm_claim_id claims)"
    using assms(1) by (auto simp: from_records_def Let_def split: if_splits) (metis mset_eq_imp_distinct_iff mset_map mset_sort)+
  have "sort_key af_artifact_id artifacts' = sort_key af_artifact_id artifacts" "sort_key cm_claim_id claims' = sort_key cm_claim_id claims"
    using same_sort_key [of artifacts artifacts' af_artifact_id] same_sort_key [of claims claims' cm_claim_id] assms(2,3) dist by simp_all
  with assms(1) show "from_records artifacts' claims' = Inr e" by (simp add: from_records_def)
  have "normalized o'' = normalized o'" unfolding normalized_def same_sorted_set [OF assms(4)] same_sorted_set [OF assms(5)] ..
  have ok': "pack_inputs_ok budget t options'" using assms(6,7) by (simp add: pack_inputs_ok_def options_valid_def)
  have best: "best_value options' = best_value options" using assms(6) by (auto simp: best_value_def)
  obtain d g where r: "dict_ok d" "dget d = best_value options" "collect_obligations e (normalized o') t = Inr g"
    "pack e o' budget t options = pack_obliged e (normalized o') budget t d g" by (rule pack_run [OF assms(7)])
  obtain d' g' where r': "dict_ok d'" "dget d' = best_value options'" "collect_obligations e (normalized o'') t = Inr g'"
    "pack e o'' budget t options' = pack_obliged e (normalized o'') budget t d' g'" by (rule pack_run [OF ok'])
  have same: "mset d' = mset d" "sort d' = sort d" using same_dict [OF r'(1) r(1)] r(2) r'(2) best by simp_all
  then have total: "sum_list (map snd d') = sum_list (map snd d)" by (metis mset_map sum_mset_sum_list)
  have g: "g' = g" using r(3) r'(3) \<open>normalized o'' = normalized o'\<close> by simp
  have rest: "fill_optional e budget t g d' = fill_optional e budget t g d" "unevaluated d' = unevaluated d"
    by (simp_all add: fill_optional_def optional_candidates_def optional_rejected_def unevaluated_def same(2))
  show "pack e o'' budget t options' = pack e o' budget t options"
    unfolding r(4) r'(4) \<open>normalized o'' = normalized o'\<close> pack_obliged_def g total rest ..
qed

theorem pack_order_irrelevant_witness:
  "pack sample_evidence sample_obligations sample_budget 7 (sample_options @ sample_options)
   = pack sample_evidence sample_obligations sample_budget 7 sample_options"
proof -
  have "from_records [sample_artifact] [] = Inr sample_evidence" by (simp add: from_records_def sample_evidence_def)
  then show ?thesis by (intro pack_order_irrelevant [OF _ refl refl refl refl _ sample_inputs, THEN conjunct2]) simp_all
qed

text \<open>
  C25. The wire format reads back: splitting the bytes of a packed context at its newlines and reading each line as an
  envelope that carries no authority and no instructions gives the blocks, whatever bytes the sources hold. No
  source can add a block, close its envelope or change a field.
\<close>
theorem context_wire_reads_back:
  "map read_block (split_lines (packed_wire pc)) = map Some (pc_blocks pc)"
  by (rule packed_wire_reads)

end
