(* ===== verification/Spec2Isabelle.thy ===== *)
theory Spec2Isabelle
  imports Fin_Prelude Interfaces Digest Py_Float Float_Error Resource_Ledger Stress_Corpus
    Contracts Exec_Graph Plan_Frontier Scheduler Scheduler_Context Scheduler_Inv Scheduler_Laws
    Scheduler_Run Scheduler_Bound Scheduler_Events Scheduler_Results Scheduler_Traces Conservation Conservation_Sound Adapter_Caps Feasibility
    Json_Text Effect_Kernel Effect_Steps Effect_Inv Effect_Props
    Physical_Admission Physical_Paths Physical_Props
    Provider_Quota Quota_Replay Quota_Sim Quota_Steps Quota_Audit Quota_Settle Quota_Lift Quota_Windows
    Quota_Retries Quota_Props
    Usage Run_Store Run_Store_Laws Run_Store_Props
    Planner Replan_State Replan_Residual Replanner Replan_Laws Replan_Runs Replan_Sound Replan_Props
    Evidence Context_Pack Context_Wire Context_Laws Context_Fill Context_Props
begin

text \<open>
  A verification development for the deterministic kernels of Finite Agent Physics (the Python package
  \<open>src/src/agent_physics\<close>; file names below are relative to it).

  \<^bold>\<open>The program.\<close> The package plans and controls runs of agents under finite budgets. A
  \<open>TaskGraph\<close> of tasks with backend profiles and a \<open>RunEnvelope\<close> of limits (\<open>contracts.py\<close>,
  \<open>graph.py\<close>) are planned by a discrete-event simulation (\<open>scheduler.py\<close>, \<open>events.py\<close>). A result is
  audited by an independent verifier (\<open>ledger.py\<close>), turned into a certificate (\<open>feasibility.py\<close>) and
  checked against physical resources (\<open>physical_resources.py\<close>) and worker manifests
  (\<open>adapter_capabilities.py\<close>). During a run, three kernels guard what an attempt may consume or do: the
  budget ledger (\<open>resource_ledger.py\<close>), the provider quota (\<open>provider_quota.py\<close>) and the effect kernel
  (\<open>effects.py\<close>). Records are identified by digests of canonical JSON (\<open>serialization.py\<close>).

  \<^bold>\<open>Foundations.\<close>
  \<^item> \<open>Fin_Prelude\<close>: dictionaries as association lists in insertion order, strings, decimal printing,
    the built-in exceptions.
  \<^item> \<open>Interfaces\<close>: the contracts components share, as locales. \<open>stateful\<close> is an operation with an
    invariant; \<open>audited\<close> adds an event log and an independent replay of it that follows every step;
    \<open>sound_auditor\<close> adds that the replay accepts only what the live component can emit. The ledger and
    the quota kernel interpret all three; their equivalence theorems are the lifted laws.
  \<^item> \<open>Py_Float\<close>: \<open>float\<close> fields as rational numbers with correctly rounded binary64 products.
    \<open>Float_Error\<close> bounds the rounding: two products of the same \<open>n\<close> probabilities in different orders are
    at most \<open>n * 2 ^ - 53\<close> apart.
  \<^item> \<open>Digest\<close>, \<open>Json_Text\<close>: UTF-8, SHA-256, HMAC, the JSON printer and parser, written out; \<open>Json_Text\<close>
    proves that \<open>json.loads\<close> inverts \<open>json.dumps\<close> on the values the sources store.

  \<^bold>\<open>Planning.\<close>
  \<^item> \<open>Contracts\<close>: the records and enumerations of \<open>contracts.py\<close> and their \<open>validate\<close> methods.
  \<^item> \<open>Exec_Graph\<close>: \<open>graph.py\<close>. The acyclicity check is exact, the topological order contains every task
    once after its dependencies, the upward rank is the longest downstream path.
  \<^item> \<open>Scheduler\<close>, \<open>Plan_Frontier\<close>: the functions of \<open>scheduler.py\<close> in source order, over one state record
    for the local variables of \<open>schedule\<close>. \<open>Plan_Frontier\<close> shows that the Pareto reduction of the joint
    admission test loses no plan.
  \<^item> \<open>Scheduler_Context\<close>, \<open>Scheduler_Inv\<close>, \<open>Scheduler_Laws\<close>, \<open>Scheduler_Run\<close>, \<open>Scheduler_Bound\<close>,
    \<open>Scheduler_Events\<close>: the loop as an inductive step relation with its invariants, and the simulation of
    the code's loop by that relation. \<open>Scheduler_Results\<close> and \<open>Scheduler_Traces\<close> state what a caller gets:
    termination on valid input, budgets, the success floor, dependencies, concurrency at every instant,
    serialization of effects, completeness, the planning bound and the event log.
  \<^item> \<open>Conservation\<close>, \<open>Conservation_Sound\<close>: \<open>verify_conservation\<close>, and that the scheduler passes it. The check of
    the modeled reliability multiplies the same probabilities in another order than the scheduler; its verdict is
    determined by the product of the entries, which is proved to stay within the rounding error of the scheduler's.
  \<^item> \<open>Feasibility\<close>, \<open>Adapter_Caps\<close>: the certificate, and the binding of adapters to manifests (tasks with
    writing effects are exempt from it, as in the code).
  \<^item> \<open>Physical_Admission\<close>, \<open>Physical_Paths\<close>, \<open>Physical_Props\<close>: the checked 64-bit analysis; it accepts
    exactly what fits over unbounded integers, provided every transfer survives its conversion to bits in 64 bits,
    and it composes with the scheduler's concurrency.

  \<^bold>\<open>Run-time kernels.\<close>
  \<^item> \<open>Resource_Ledger\<close>, \<open>Stress_Corpus\<close>: \<open>reserve\<close>, \<open>settle\<close>, \<open>cancel\<close>, the event log, its replay and the
    stress corpus. Conservation in every dimension, exactness of the replay, finality of attempts.
  \<^item> \<open>Effect_Kernel\<close>: a state-and-error monad over the SQLite rows and the simulated target, one program
    per method of the broker. \<open>Effect_Steps\<close> gives the abstract step relation and proves that each call
    of each broker refines it (with weakest preconditions); \<open>Effect_Inv\<close> the invariant of the steps;
    \<open>Effect_Props\<close> application and compensation at most once, grants for irreversible
    effects, fencing, rollback. The brokers of a program differ in clock, faults and target calls but trust the same keys.

  \<^item> \<open>Provider_Quota\<close>, \<open>Quota_Replay\<close>: \<open>ProviderQuotaPhysics\<close> with its token buckets, leases and logical
    calls, and \<open>replay_quota_events\<close>. \<open>Quota_Steps\<close> is the abstract relation \<open>quota_effect\<close> of changes a call
    can make, equivalent to the calls; \<open>Quota_Sim\<close>, \<open>Quota_Audit\<close>, \<open>Quota_Settle\<close> and \<open>Quota_Lift\<close> prove that the
    replay accepts the event of each effect and no other. \<open>Quota_Windows\<close> ties the buckets to what the log
    shows of each window, \<open>Quota_Retries\<close> the logical calls to their attempts; \<open>Quota_Props\<close> states the
    exactness of the replay, the limits per window, and the order, backoff and reset of retries.

  \<^bold>\<open>Durable runs.\<close>
  \<^item> \<open>Usage\<close>, \<open>Run_Store\<close>: \<open>run_store.py\<close>, the append-only event ledger of a run: the tables with their constraints and
    triggers, the migrations of older files, and every operation of \<open>SQLiteRunStore\<close>. \<open>Run_Store_Laws\<close>: the invariant of
    the tables and the three ways an append ends. \<open>Run_Store_Props\<close>: every call keeps the invariant and only appends; events
    are appended once, completed outputs are durable (for
    outputs without floats, while no completion of the run is written without an output), attempts are fresh,
    files are upgraded or left alone, and identifiers with a
    colon collide.

  \<^bold>\<open>Replanning.\<close> When a provider slows down, fails, loses capacity or the envelope changes,
  \<open>EventDrivenReplanner\<close> (\<open>replanning.py\<close>) builds the graph of the work that is left and plans it again.
  \<^item> \<open>Planner\<close>: the contract \<open>lawful_planner\<close> of the scheduler it is given, interpreted on \<open>schedule\<close>.
  \<^item> \<open>Replan_State\<close>, \<open>Replan_Residual\<close>, \<open>Replanner\<close>: effect boundaries, durable states and their JSON reader; events
    and the residual builder, which ends in the validation of \<open>ExecutionGraph.from_tasks\<close>;
    validation, \<open>initial_state\<close>, \<open>replan\<close> and \<open>verify_transition\<close>.
  \<^item> \<open>Replan_Laws\<close>: the loop of the builder computes the least set of tasks that cannot run, and the residual
    graph is valid exactly when no typed edge leads from completed work to a task it keeps, with the error
    otherwise. \<open>Replan_Runs\<close>: what each validation
    accepts. \<open>Replan_Sound\<close>: transitions and histories, for every lawful planner. \<open>Replan_Props\<close>: the plans, the
    history, the reachable states and the liveness of the replanner over the modelled scheduler.

  \<^bold>\<open>Evidence and context.\<close>
  \<^item> \<open>Evidence\<close>: the content-addressed artifacts and claims of \<open>artifacts.py\<close>, and the evidence set that recalculates
    the status of a claim.
  \<^item> \<open>Context_Pack\<close>: \<open>context.py\<close>, the packer that includes all required evidence or refuses and fills the room left
    greedily. \<open>Context_Wire\<close>: base64 and the line format, with a reader that inverts them. \<open>Context_Laws\<close>,
    \<open>Context_Fill\<close>: the obligations as a set of keys, the greedy loop, the branches of \<open>pack\<close>; \<open>Context_Props\<close> states
    when it packs, what a context holds, how the room is used and that the order of the inputs is irrelevant.

  \<^bold>\<open>Correspondence.\<close> Records carry the fields of the Python classes with a two-letter prefix, functions
  keep their names, and an operation that raises returns the exception as a value beside the state it
  leaves. Fields whose Python type is checked at run time have that type in HOL, so those checks have no
  branch; where the sources inspect dynamic values (JSON records, event details) the values are a
  datatype and each inspection is a branch. Floats are finite (a task whose value is NaN or
  infinite is outside the model). Python integers are \<^typ>\<open>int\<close>; the 64-bit bounds of the
  physical analysis are the code's own checks. Strings hold code points below 256.

  \<^bold>\<open>Bounds and fuel.\<close> The outer loop of \<open>schedule\<close> carries fuel, one unit more than the number of
  tasks; \<open>Scheduler_Run\<close> proves that it never runs out on valid input, since every round finishes a task,
  so the loop ends and answers. The JSON parser takes the length of its text as fuel, which
  \<open>Json_Text\<close> proves enough for printed values. All other recursions are structural or have a
  termination proof.

  \<^bold>\<open>Parameters.\<close> Clocks, \<open>uuid4\<close>, the authority's secret, the effect target of a caller, the random
  generator of the stress corpus and worker manifests are arguments. The only hypotheses on them are the
  documented ranges of \<open>randint\<close> and \<open>choice\<close>. Nothing is assumed about collisions of SHA-256.

  \<^bold>\<open>Not modelled.\<close> The SQLite store of artifacts, the executor and the live runtime (threads,
  \<open>asyncio\<close>, files), the whole-run verifier that audits its records, parsers of
  YAML and JSON interchange, HTTP and MCP endpoints, network clients, fixture scenarios, benchmarks,
  release tooling and the command line: input and output around the kernels above, or consumers of
  records whose producers are not modelled.
\<close>

end
